(* ===== verification/Prelude.thy ===== *)
theory Prelude
  imports Main "HOL-Library.Word" "HOL-Library.Char_ord" "HOL-Library.List_Lexorder" "HOL-Library.Product_Lexorder"
begin

text \<open>
  What every component shares: the exceptions of the program as values, the plumbing of
  computations that may raise, the Python idioms on lists and strings the code uses
  (\<open>startswith\<close>, \<open>endswith\<close>, \<open>removesuffix\<close>, slices), dictionaries that keep their
  insertion order, and the lemmas on them that carry the component proofs.
  Strings stand for the UTF-8 bytes of the Python \<open>str\<close>: prefix, suffix and split at an
  ASCII marker, and the code-point order used by \<open>sorted\<close>, agree on the two.
\<close>

section \<open>Exceptions as values\<close>

datatype pyerr =
    ValueError string
  | RuntimeError string
  | TypeError string
  | KeyError string
  | IndexError string
  | AttributeError string
  | AssertionError string
  | StructError string
  | OverflowError string
  | UnicodeDecodeError
  | FileNotFoundError
  | ZeroDivisionError

type_synonym 'a res = "pyerr + 'a"

named_theorems res_simps \<open>how the plumbing of raising computations evaluates\<close>

primrec bindR :: "'e + 'a \<Rightarrow> ('a \<Rightarrow> 'e + 'b) \<Rightarrow> 'e + 'b" where
  "bindR (Inl e) f = Inl e"
| "bindR (Inr x) f = f x"

definition ensure :: "bool \<Rightarrow> 'e \<Rightarrow> 'e + unit" where
  "ensure c e = (if c then Inr () else Inl e)"

primrec mapR :: "('a \<Rightarrow> 'e + 'b) \<Rightarrow> 'a list \<Rightarrow> 'e + 'b list" where
  "mapR f [] = Inr []"
| "mapR f (x # xs) = bindR (f x) (\<lambda>y. bindR (mapR f xs) (\<lambda>ys. Inr (y # ys)))"

primrec foldR :: "('s \<Rightarrow> 'a \<Rightarrow> 'e + 's) \<Rightarrow> 's \<Rightarrow> 'a list \<Rightarrow> 'e + 's" where
  "foldR f s [] = Inr s"
| "foldR f s (x # xs) = bindR (f s x) (\<lambda>s'. foldR f s' xs)"

lemma bindR_eq_Inr [res_simps]: "bindR r f = Inr y \<longleftrightarrow> (\<exists>x. r = Inr x \<and> f x = Inr y)"
  by (cases r) auto

lemma bindR_eq_Inl [res_simps]:
  "bindR r f = Inl e \<longleftrightarrow> r = Inl e \<or> (\<exists>x. r = Inr x \<and> f x = Inl e)"
  by (cases r) auto

lemma bindR_assoc: "bindR (bindR r f) g = bindR r (\<lambda>x. bindR (f x) g)"
  by (cases r) auto

lemma bindR_cong [fundef_cong]:
  "r = r' \<Longrightarrow> (\<And>x. r' = Inr x \<Longrightarrow> f x = g x) \<Longrightarrow> bindR r f = bindR r' g"
  by (cases r') auto

lemma ensure_True [simp]: "ensure True e = Inr ()"
  by (simp add: ensure_def)

lemma ensure_False [simp]: "ensure False e = Inl e"
  by (simp add: ensure_def)

lemma ensure_eq_Inr [res_simps]: "ensure c e = Inr u \<longleftrightarrow> c"
  by (simp add: ensure_def)

lemma ensure_eq_Inl [res_simps]: "ensure c e = Inl e' \<longleftrightarrow> \<not> c \<and> e' = e"
  by (auto simp: ensure_def)

lemma mapR_Inr_iff [res_simps]:
  "mapR f xs = Inr ys \<longleftrightarrow> list_all2 (\<lambda>x y. f x = Inr y) xs ys"
  by (induction xs arbitrary: ys) (auto simp: res_simps list_all2_Cons1)

lemma mapR_map: "(\<And>x. x \<in> set xs \<Longrightarrow> f x = Inr (g x)) \<Longrightarrow> mapR f xs = Inr (map g xs)"
  by (induction xs) auto

lemma mapR_length: "mapR f xs = Inr ys \<Longrightarrow> length ys = length xs"
  by (auto simp: res_simps dest: list_all2_lengthD)

lemma foldR_append: "foldR f s (xs @ ys) = bindR (foldR f s xs) (\<lambda>s'. foldR f s' ys)"
  by (induction xs arbitrary: s) (auto simp: bindR_assoc)

lemma foldR_invariant:
  assumes "foldR f s xs = Inr s'" and "P s"
    and "\<And>s x s'. P s \<Longrightarrow> x \<in> set xs \<Longrightarrow> f s x = Inr s' \<Longrightarrow> P s'"
  shows "P s'"
  using assms
proof (induction xs arbitrary: s)
  case Nil
  then show ?case by simp
next
  case (Cons x xs)
  from Cons.prems(1) obtain t where t: "f s x = Inr t" "foldR f t xs = Inr s'"
    by (auto simp: res_simps)
  have "P t" by (rule Cons.prems(3) [OF Cons.prems(2) _ t(1)]) simp
  with t(2) show ?case
  proof (rule Cons.IH)
    fix u y u' assume "P u" and "y \<in> set xs" and "f u y = Inr u'"
    then show "P u'" by (auto intro: Cons.prems(3))
  qed
qed

section \<open>Strings\<close>

definition startswith :: "'a list \<Rightarrow> 'a list \<Rightarrow> bool" where
  "startswith s p \<longleftrightarrow> take (length p) s = p"

definition endswith :: "'a list \<Rightarrow> 'a list \<Rightarrow> bool" where
  "endswith s p \<longleftrightarrow> length p \<le> length s \<and> drop (length s - length p) s = p"

definition removesuffix :: "'a list \<Rightarrow> 'a list \<Rightarrow> 'a list" where
  "removesuffix s p = (if p \<noteq> [] \<and> endswith s p then take (length s - length p) s else s)"

lemma startswith_append [simp]: "startswith (p @ s) p"
  by (simp add: startswith_def)

lemma startswith_iff: "startswith s p \<longleftrightarrow> (\<exists>r. s = p @ r)"
  by (metis append_eq_conv_conj append_take_drop_id startswith_append startswith_def)

lemma endswith_iff: "endswith s p \<longleftrightarrow> (\<exists>r. s = r @ p)"
  by (auto simp: endswith_def) (metis append_take_drop_id)

lemma endswith_append [simp]: "endswith (s @ p) p"
  by (simp add: endswith_def)

lemma removesuffix_append [simp]: "removesuffix (s @ p) p = s"
  by (simp add: removesuffix_def)

lemma removesuffix_id: "\<not> endswith s p \<Longrightarrow> removesuffix s p = s"
  by (simp add: removesuffix_def)

section \<open>Dictionaries in insertion order\<close>

text \<open>
  A \<open>dict\<close> whose iteration order matters is an association list with distinct keys:
  \<open>d[k] = v\<close> keeps the place of an existing key and appends a new one.
\<close>

type_synonym ('k, 'v) dict = "('k \<times> 'v) list"

fun dput :: "'k \<Rightarrow> 'v \<Rightarrow> ('k, 'v) dict \<Rightarrow> ('k, 'v) dict" where
  "dput k v [] = [(k, v)]"
| "dput k v ((k', v') # d) = (if k' = k then (k, v) # d else (k', v') # dput k v d)"

definition dpop :: "'k \<Rightarrow> ('k, 'v) dict \<Rightarrow> ('k, 'v) dict" where
  "dpop k d = filter (\<lambda>p. fst p \<noteq> k) d"

abbreviation dkeys :: "('k, 'v) dict \<Rightarrow> 'k list" where
  "dkeys d \<equiv> map fst d"

abbreviation dget :: "('k, 'v) dict \<Rightarrow> 'k \<Rightarrow> 'v option" where
  "dget d k \<equiv> map_of d k"

named_theorems dict_simps \<open>lookups in and keys of updated dictionaries\<close>

lemma dget_dput [dict_simps]: "dget (dput k v d) k' = (if k' = k then Some v else dget d k')"
  by (induction k v d rule: dput.induct) auto

lemma dget_dput_fun [dict_simps]: "map_of (dput k v d) = (map_of d)(k \<mapsto> v)"
  by (rule ext) (simp add: dget_dput)

lemma dget_dpop [dict_simps]: "dget (dpop k d) k' = (if k' = k then None else dget d k')"
  by (induction d) (auto simp: dpop_def)

lemma in_dkeys_iff: "k \<in> fst ` set d \<longleftrightarrow> dget d k \<noteq> None"
  by (simp add: map_of_eq_None_iff)

lemma set_dkeys_dput [dict_simps]: "fst ` set (dput k v d) = insert k (fst ` set d)"
  by (induction k v d rule: dput.induct) auto

lemma set_dkeys_dpop [dict_simps]: "fst ` set (dpop k d) = fst ` set d - {k}"
  by (auto simp: dpop_def)

lemma distinct_dkeys_dput [intro]: "distinct (dkeys d) \<Longrightarrow> distinct (dkeys (dput k v d))"
  by (induction k v d rule: dput.induct) (auto simp: set_dkeys_dput)

lemma distinct_dkeys_dpop [intro]: "distinct (dkeys d) \<Longrightarrow> distinct (dkeys (dpop k d))"
  by (simp add: dpop_def distinct_map_filter)

lemma dput_append: "k \<notin> fst ` set d \<Longrightarrow> dput k v d = d @ [(k, v)]"
  by (induction k v d rule: dput.induct) auto

lemma dpop_dput [simp]: "dpop k (dput k v d) = dpop k d"
  by (induction k v d rule: dput.induct) (auto simp: dpop_def)

lemma dpop_fresh: "k \<notin> fst ` set d \<Longrightarrow> dpop k d = d"
  unfolding dpop_def by (intro filter_True) auto

lemma dput_all: "\<forall>p \<in> set d. P p \<Longrightarrow> P (k, v) \<Longrightarrow> \<forall>p \<in> set (dput k v d). P p"
  by (induction k v d rule: dput.induct) auto

lemma dget_map: "dget (map (\<lambda>(m, e). (m, f m e)) d) n = map_option (f n) (dget d n)"
  by (induction d) auto

lemma dkeys_map [simp]: "dkeys (map (\<lambda>(m, e). (m, f m e)) d) = dkeys d"
  by (induction d) auto

lemma sum_dput_fresh: "k \<notin> fst ` set d \<Longrightarrow> sum_list (map f (dput k v d)) = sum_list (map f d) + (f (k, v) :: nat)"
  by (simp add: dput_append)

lemma sum_dpop:
  "distinct (dkeys d) \<Longrightarrow> dget d k = Some v \<Longrightarrow> sum_list (map f (dpop k d)) + f (k, v) = (sum_list (map f d) :: nat)"
proof (induction d)
  case (Cons p d)
  show ?case
  proof (cases "fst p = k")
    case True
    then have "k \<notin> fst ` set d" "p = (k, v)" using Cons.prems by (auto simp: prod_eq_iff)
    moreover have "dpop k (p # d) = dpop k d" using True by (simp add: dpop_def)
    ultimately show ?thesis by (simp add: dpop_fresh)
  next
    case False
    then have "dpop k (p # d) = p # dpop k d" by (simp add: dpop_def)
    then show ?thesis using Cons False by (cases p) simp
  qed
qed simp

end
