(* ===== verification/Tensor.thy ===== *)
theory Tensor
  imports Prelude
begin

text \<open>
  Tensors as the delta code sees them: a dtype, a shape and the elements in row-major
  order. An element of an integer dtype is its value; an element of a floating dtype is its
  bit pattern, since the code only moves it, compares it or hands it to torch arithmetic.
  \<open>torch_ops\<close> collects what the code takes from torch (floating equality, subtraction,
  addition, casts, type promotion): torch is not part of the repository, so these are
  parameters, and \<open>torch_ok\<close> names the documented facts the code relies on.
\<close>

section \<open>Dtypes and elements\<close>

type_synonym byte = "8 word"

datatype dtype =
    Float16 | BFloat16 | Float32 | Float64 | Int64 | Int32 | Int8 | UInt8
  | OtherDtype string nat

fun element_size :: "dtype \<Rightarrow> nat" where
  "element_size Float16 = 2"
| "element_size BFloat16 = 2"
| "element_size Float32 = 4"
| "element_size Float64 = 8"
| "element_size Int64 = 8"
| "element_size Int32 = 4"
| "element_size Int8 = 1"
| "element_size UInt8 = 1"
| "element_size (OtherDtype _ n) = n"

fun signed_dtype :: "dtype \<Rightarrow> bool" where
  "signed_dtype Int64 = True"
| "signed_dtype Int32 = True"
| "signed_dtype Int8 = True"
| "signed_dtype _ = False"

definition elem_ok :: "dtype \<Rightarrow> int \<Rightarrow> bool" where
  "elem_ok d v =
     (if signed_dtype d
      then - (2 ^ (8 * element_size d - 1)) \<le> v \<and> v < 2 ^ (8 * element_size d - 1)
      else 0 \<le> v \<and> v < 2 ^ (8 * element_size d))"

text \<open>Storing an \<open>int64\<close> (\<open>int32\<close>) result wraps around.\<close>

definition wrap64 :: "int \<Rightarrow> int" where
  "wrap64 = signed_take_bit 63"

definition wrap32 :: "int \<Rightarrow> int" where
  "wrap32 = signed_take_bit 31"

lemma wrap64_id: "- (2 ^ 63) \<le> x \<Longrightarrow> x < 2 ^ 63 \<Longrightarrow> wrap64 x = x"
  unfolding wrap64_def by (rule signed_take_bit_int_eq_self) auto

lemma wrap32_id: "- (2 ^ 31) \<le> x \<Longrightarrow> x < 2 ^ 31 \<Longrightarrow> wrap32 x = x"
  unfolding wrap32_def by (rule signed_take_bit_int_eq_self) auto

section \<open>Little-endian bytes\<close>

primrec to_le :: "nat \<Rightarrow> int \<Rightarrow> byte list" where
  "to_le 0 x = []"
| "to_le (Suc n) x = word_of_int x # to_le n (x div 256)"

primrec of_le :: "byte list \<Rightarrow> int" where
  "of_le [] = 0"
| "of_le (b # bs) = uint b + 256 * of_le bs"

lemma length_to_le [simp]: "length (to_le n x) = n"
  by (induction n arbitrary: x) auto

lemma of_le_nonneg [simp]: "0 \<le> of_le bs"
  by (induction bs) auto

lemma of_le_bound: "of_le bs < 256 ^ length bs"
proof (induction bs)
  case (Cons b bs)
  have "uint b < 256" using uint_bounded [of b] by simp
  with Cons show ?case by simp
qed simp

lemma of_le_to_le: "of_le (to_le n x) = x mod 256 ^ n"
proof (induction n arbitrary: x)
  case (Suc n)
  have "x mod 256 ^ Suc n = x mod 256 + 256 * (x div 256 mod 256 ^ n)"
    using zmod_zmult2_eq [of "256 ^ n" x 256] by simp
  with Suc show ?case by (simp add: uint_word_of_int)
qed simp

lemma to_le_of_le: "to_le (length bs) (of_le bs) = bs"
proof (induction bs)
  case (Cons b bs)
  have b: "uint b < 256" using uint_bounded [of b] by simp
  have "(word_of_int (uint b + 256 * of_le bs) :: byte) = word_of_int (uint b)"
    by (simp only: word_of_int_eq_iff) (simp add: take_bit_eq_mod)
  with Cons b show ?case by (simp del: of_int_add)
qed simp

lemma of_le_to_le_id: "0 \<le> x \<Longrightarrow> x < 256 ^ n \<Longrightarrow> of_le (to_le n x) = x"
  by (simp add: of_le_to_le)

definition elem_to_bytes :: "dtype \<Rightarrow> int \<Rightarrow> byte list" where
  "elem_to_bytes d v = to_le (element_size d) v"

definition elem_of_bytes :: "dtype \<Rightarrow> byte list \<Rightarrow> int" where
  "elem_of_bytes d bs =
     (if signed_dtype d then signed_take_bit (8 * element_size d - 1) (of_le bs) else of_le bs)"

lemma pow256: "(256::int) ^ n = 2 ^ (8 * n)"
  by (simp add: power_mult)

lemma elem_roundtrip: "elem_ok d v \<Longrightarrow> elem_of_bytes d (elem_to_bytes d v) = v"
proof (cases "signed_dtype d")
  case True
  assume ok: "elem_ok d v"
  let ?n = "8 * element_size d"
  have pos: "0 < ?n" using True by (cases d) auto
  have "signed_take_bit (?n - 1) (take_bit ?n v) = signed_take_bit (?n - 1) v"
    using pos by (simp add: signed_take_bit_eq_iff_take_bit_eq)
  then have "signed_take_bit (?n - 1) (v mod 256 ^ element_size d) = signed_take_bit (?n - 1) v"
    by (simp add: pow256 take_bit_eq_mod)
  moreover have "signed_take_bit (?n - 1) v = v"
    using ok True by (auto simp: elem_ok_def intro: signed_take_bit_int_eq_self)
  ultimately show ?thesis
    using True by (simp add: elem_of_bytes_def elem_to_bytes_def of_le_to_le)
next
  case False
  assume "elem_ok d v"
  with False show ?thesis
    by (simp add: elem_of_bytes_def elem_to_bytes_def of_le_to_le_id elem_ok_def pow256)
qed

section \<open>Tensors\<close>

record tensor =
  tdtype :: dtype
  tshape :: "nat list"
  tdata :: "int list"

definition numel :: "tensor \<Rightarrow> nat" where
  "numel t = length (tdata t)"

definition flat_tensor :: "dtype \<Rightarrow> int list \<Rightarrow> tensor" where
  "flat_tensor d xs = \<lparr>tdtype = d, tshape = [length xs], tdata = xs\<rparr>"

definition tensor_wf :: "tensor \<Rightarrow> bool" where
  "tensor_wf t \<longleftrightarrow> prod_list (tshape t) = length (tdata t) \<and> list_all (elem_ok (tdtype t)) (tdata t)"

lemma flat_tensor_simps [simp]:
  "tdtype (flat_tensor d xs) = d" "tshape (flat_tensor d xs) = [length xs]"
  "tdata (flat_tensor d xs) = xs" "numel (flat_tensor d xs) = length xs"
  by (simp_all add: flat_tensor_def numel_def)

section \<open>What the code takes from torch\<close>

record torch_ops =
  feq :: "dtype \<Rightarrow> int \<Rightarrow> int \<Rightarrow> bool"      \<comment> \<open>elementwise ==\<close>
  fsub :: "dtype \<Rightarrow> int \<Rightarrow> int \<Rightarrow> int"
  fadd :: "dtype \<Rightarrow> int \<Rightarrow> int \<Rightarrow> int"
  fmul :: "dtype \<Rightarrow> int \<Rightarrow> int \<Rightarrow> int"
  fcast :: "dtype \<Rightarrow> dtype \<Rightarrow> int \<Rightarrow> int"  \<comment> \<open>\<open>x.to(dtype)\<close>, from and to\<close>
  promote :: "dtype \<Rightarrow> dtype \<Rightarrow> dtype"     \<comment> \<open>\<open>torch.promote_types\<close>\<close>

text \<open>
  The documented behaviour the delta code relies on: promotion is idempotent, a half
  precision tensor with \<open>float32\<close> values computes in \<open>float32\<close>, any of the stored dtypes
  with \<open>float64\<close> values in \<open>float64\<close>, a cast to the same dtype changes nothing, a
  difference is an element of its dtype, and == is symmetric.
\<close>

definition torch_ok :: "torch_ops \<Rightarrow> bool" where
  "torch_ok T \<longleftrightarrow>
     (\<forall>d. promote T d d = d)
   \<and> promote T Float16 Float32 = Float32 \<and> promote T BFloat16 Float32 = Float32
   \<and> (\<forall>d \<in> {Float32, Int64, Int32, Int8, UInt8}. promote T d Float64 = Float64)
   \<and> (\<forall>d v. fcast T d d v = v)
   \<and> (\<forall>d v w. elem_ok d (fsub T d v w))
   \<and> (\<forall>d v w. feq T d v w \<longrightarrow> feq T d w v)"

lemma torch_ok_promote_self: "torch_ok T \<Longrightarrow> promote T d d = d"
  by (simp add: torch_ok_def)

lemma torch_ok_cast_self: "torch_ok T \<Longrightarrow> fcast T d d v = v"
  by (simp add: torch_ok_def)

lemma torch_ok_fsub: "torch_ok T \<Longrightarrow> elem_ok d (fsub T d v w)"
  by (simp add: torch_ok_def)

lemma torch_ok_feq_sym: "torch_ok T \<Longrightarrow> feq T d v w \<Longrightarrow> feq T d w v"
  by (simp add: torch_ok_def)

text \<open>An instance the witnesses use: every dtype is a ring of integers that wrap around.\<close>

definition wrap_elem :: "dtype \<Rightarrow> int \<Rightarrow> int" where
  "wrap_elem d v =
     (if signed_dtype d then signed_take_bit (8 * element_size d - 1) v
      else take_bit (8 * element_size d) v)"

definition exact_ops :: torch_ops where
  "exact_ops = \<lparr>feq = (\<lambda>_. (=)), fsub = (\<lambda>d x y. wrap_elem d (x - y)),
     fadd = (\<lambda>d x y. wrap_elem d (x + y)), fmul = (\<lambda>d x y. wrap_elem d (x * y)),
     fcast = (\<lambda>d e v. if d = e then v else wrap_elem e v),
     promote = (\<lambda>a b. if a = b then a else if b = Float64 \<or> a = Float64 then Float64 else Float32)\<rparr>"

lemma elem_ok_wrap_elem: "elem_ok d (wrap_elem d v)"
proof (cases "signed_dtype d")
  case True
  then show ?thesis
    by (simp add: elem_ok_def wrap_elem_def signed_take_bit_int_greater_eq_minus_exp
        signed_take_bit_int_less_exp)
next
  case False
  then show ?thesis by (simp add: elem_ok_def wrap_elem_def)
qed

lemma torch_ok_exact_ops: "torch_ok exact_ops"
  by (simp add: torch_ok_def exact_ops_def elem_ok_wrap_elem)

end
