(* ===== verification/IndexCodec.thy ===== *)
theory IndexCodec
  imports Tensor
begin

unbundle bit_operations_syntax

text \<open>
  The index encodings of sparse deltas (\<open>utils/delta.py\<close>): sorted indices as varints of
  their gaps, seven bits to a byte, or as raw 32/64-bit integers. The encoder is the
  two-pass numba loop (size the buffer, then fill it without bounds checks); there are two
  decoders, the vectorised numpy one the program runs and the byte-at-a-time one it keeps.
  Elements of \<open>uint8\<close> and \<open>int64\<close> tensors are \<open>int\<close>; where \<open>int64\<close> arithmetic can wrap
  (\<open>cumsum\<close>) the wrap is written out.
\<close>

section \<open>The numba encoder\<close>

function varint_len :: "int \<Rightarrow> nat" where
  "varint_len diff = (if diff \<ge> 0x80 then Suc (varint_len (drop_bit 7 diff)) else 1)"
  by pat_completeness auto
termination
  by (relation "measure nat") (auto simp: drop_bit_eq_div)

declare varint_len.simps [simp del]

fun encoded_size :: "int \<Rightarrow> int list \<Rightarrow> nat res" where
  "encoded_size previous [] = Inr 0"
| "encoded_size previous (current # indices) =
     (if current < 0 then Inl (ValueError ''sparse delta indices must be non-negative'')
      else if current < previous then Inl (ValueError ''varint delta encoding expects sorted indices'')
      else bindR (encoded_size current indices) (\<lambda>n. Inr (varint_len (current - previous) + n)))"

function emit_diff :: "int \<Rightarrow> int list \<times> nat \<Rightarrow> int list \<times> nat" where
  "emit_diff diff (encoded, output_index) =
     (if diff \<ge> 0x80
      then emit_diff (drop_bit 7 diff)
             (encoded[output_index := (diff AND 0x7F) OR 0x80], output_index + 1)
      else (encoded[output_index := diff], output_index + 1))"
  by pat_completeness auto
termination
  by (relation "measure (nat \<circ> fst)") (auto simp: drop_bit_eq_div)

declare emit_diff.simps [simp del]

fun emit_all :: "int \<Rightarrow> int list \<Rightarrow> int list \<times> nat \<Rightarrow> int list \<times> nat" where
  "emit_all previous [] st = st"
| "emit_all previous (current # indices) st =
     emit_all current indices (emit_diff (current - previous) st)"

definition encode_varint_numba :: "int list \<Rightarrow> int list res" where
  "encode_varint_numba indices =
     bindR (encoded_size 0 indices) (\<lambda>n. Inr (fst (emit_all 0 indices (replicate n 0, 0))))"

definition encode_varint_delta_indices :: "int list \<Rightarrow> tensor res" where
  "encode_varint_delta_indices indices =
     (if indices = [] then Inr (flat_tensor UInt8 [])
      else bindR (encode_varint_numba indices) (\<lambda>bs. Inr (flat_tensor UInt8 bs)))"

section \<open>The decoders\<close>

fun cumsum64 :: "int \<Rightarrow> int list \<Rightarrow> int list" where
  "cumsum64 acc [] = []"
| "cumsum64 acc (d # ds) = wrap64 (acc + d) # cumsum64 (wrap64 (acc + d)) ds"

text \<open>\<open>np.flatnonzero((encoded & 0x80) == 0)\<close>, counting from \<open>k\<close>.\<close>

fun terminal_positions :: "nat \<Rightarrow> int list \<Rightarrow> nat list" where
  "terminal_positions k [] = []"
| "terminal_positions k (b # bs) =
     (if b AND 0x80 = 0 then k # terminal_positions (Suc k) bs else terminal_positions (Suc k) bs)"

text \<open>One iteration of the loop over \<open>offset\<close>: every index whose group is longer takes a byte.\<close>

definition or_offset :: "int list \<Rightarrow> (nat \<times> nat) list \<Rightarrow> nat \<Rightarrow> int list \<Rightarrow> int list" where
  "or_offset payload groups offset diffs =
     map2 (\<lambda>(start, len) diff.
             if len > offset then diff OR push_bit (7 * offset) (payload ! (start + offset)) else diff)
       groups diffs"

definition decode_varint_numpy :: "int list \<Rightarrow> nat \<Rightarrow> int list res" where
  "decode_varint_numpy encoded expected_count =
     (let end_positions = terminal_positions 0 encoded in
      if length end_positions \<noteq> expected_count then
        (if encoded \<noteq> [] \<and> last encoded AND 0x80 \<noteq> 0 then Inl (ValueError ''truncated varint stream'')
         else if length end_positions > expected_count
         then Inl (ValueError ''decoded more indices than expected'')
         else Inl (ValueError ''decoded index count mismatch''))
      else if expected_count = 0 then Inl (IndexError ''start_positions[0]'')
      else
        (let start_positions = 0 # map Suc (butlast end_positions);
             lengths = map2 (\<lambda>e s. e - s + 1) end_positions start_positions;
             max_length = fold max lengths 0 in
         if max_length > 9
         then Inl (ValueError ''varint stream contains an index delta that does not fit int64'')
         else
           (let payload = map (\<lambda>b. b AND 0x7F) encoded;
                diffs = fold (or_offset payload (zip start_positions lengths)) [0..<max_length]
                          (replicate expected_count 0)
            in Inr (cumsum64 0 diffs))))"

definition decode_varint_delta_indices :: "tensor \<Rightarrow> nat \<Rightarrow> int list res" where
  "decode_varint_delta_indices index_bytes expected_count =
     (if tdtype index_bytes \<noteq> UInt8 then Inl (ValueError ''varint delta indices must be stored as uint8'')
      else if expected_count = 0 then
        (if numel index_bytes \<noteq> 0 then Inl (ValueError ''expected no indices, but varint stream is not empty'')
         else Inr [])
      else if numel index_bytes = expected_count \<and> \<not> (\<exists>b \<in> set (tdata index_bytes). b AND 0x80 \<noteq> 0)
      then Inr (cumsum64 0 (tdata index_bytes))
      else decode_varint_numpy (tdata index_bytes) expected_count)"

text \<open>
  The byte-at-a-time decoder: \<open>current\<close> and \<open>diff\<close> are unbounded Python integers, and
  storing one that does not fit into the \<open>int64\<close> result raises.
\<close>

fun decode_python_loop ::
  "nat \<Rightarrow> int list \<Rightarrow> int \<Rightarrow> int \<Rightarrow> nat \<Rightarrow> int list \<Rightarrow> (int list \<times> nat) res" where
  "decode_python_loop expected_count out current diff shift [] = Inr (out, shift)"
| "decode_python_loop expected_count out current diff shift (byte # bs) =
     (let diff = diff OR push_bit shift (byte AND 0x7F) in
      if byte AND 0x80 \<noteq> 0 then decode_python_loop expected_count out current diff (shift + 7) bs
      else if length out \<ge> expected_count then Inl (ValueError ''decoded more indices than expected'')
      else if \<not> current + diff < 2 ^ 63 then Inl (RuntimeError ''int64 overflow'')
      else decode_python_loop expected_count (out @ [current + diff]) (current + diff) 0 0 bs)"

definition decode_varint_python :: "int list \<Rightarrow> nat \<Rightarrow> int list res" where
  "decode_varint_python encoded expected_count =
     (if expected_count = 0 then
        (if encoded \<noteq> [] then Inl (ValueError ''expected no indices, but varint stream is not empty'')
         else Inr [])
      else bindR (decode_python_loop expected_count [] 0 0 0 encoded) (\<lambda>(out, shift).
        if shift \<noteq> 0 then Inl (ValueError ''truncated varint stream'')
        else if length out \<noteq> expected_count then Inl (ValueError ''decoded index count mismatch'')
        else Inr out))"

section \<open>Choosing an encoding\<close>

definition encode_sparse_indices :: "int list \<Rightarrow> string \<Rightarrow> tensor res" where
  "encode_sparse_indices indices encoding =
     (if encoding = ''optimized'' then encode_varint_delta_indices indices
      else if encoding = ''naive'' then
        (if indices = [] then Inr (flat_tensor Int32 [])
         else if Max (set indices) < 2 ^ 31 then Inr (flat_tensor Int32 (map wrap32 indices))
         else Inr (flat_tensor Int64 indices))
      else Inl (ValueError ''unsupported sparse index encoding''))"

definition decode_sparse_indices :: "tensor \<Rightarrow> nat \<Rightarrow> int list res" where
  "decode_sparse_indices encoded_indices value_count =
     (if tdtype encoded_indices = UInt8 then decode_varint_delta_indices encoded_indices value_count
      else if tdtype encoded_indices \<noteq> Int32 \<and> tdtype encoded_indices \<noteq> Int64
      then Inl (ValueError ''unsupported sparse index dtype'')
      else if numel encoded_indices \<noteq> value_count then Inl (ValueError ''index/value length mismatch'')
      else Inr (tdata encoded_indices))"

lemma low7: "b AND 0x7F = b mod 128" for b :: int
proof -
  have "b AND mask 7 = b mod 2 ^ 7" by (simp only: take_bit_eq_mod flip: take_bit_eq_mask)
  then show ?thesis by (simp add: mask_eq_exp_minus_1)
qed

lemma bit7: "b AND 0x80 = 0 \<longleftrightarrow> even (b div 128)" for b :: int
proof -
  have "b AND 2 ^ 7 = 0 \<longleftrightarrow> \<not> bit b 7" by (rule and_exp_eq_0_iff_not_bit)
  then show ?thesis by (simp add: bit_iff_odd)
qed

lemma or_push: "0 \<le> d \<Longrightarrow> d < 2 ^ n \<Longrightarrow> d OR push_bit n p = d + 2 ^ n * p" for d p :: int
proof -
  assume d: "0 \<le> d" "d < 2 ^ n"
  have "take_bit n d = d" using d by (simp add: take_bit_int_eq_self)
  then have "\<not> bit d k \<or> \<not> bit (push_bit n p) k" for k
    by (metis bit_push_bit_iff bit_take_bit_iff linorder_not_le)
  then have "d + push_bit n p = d OR push_bit n p"
    by (intro disjunctive_add_eq_or) (auto simp: bit_eq_iff bit_simps)
  then show ?thesis by (simp add: push_bit_eq_mult mult.commute)
qed

lemma cont_byte: "(d AND 0x7F) OR 0x80 = d mod 128 + 128" for d :: int
  using or_push [of "d mod 128" 7 1] by (simp add: low7 push_bit_eq_mult)

lemma cont_byte_flag: "((d AND 0x7F) OR 0x80) AND 0x80 \<noteq> 0" for d :: int
proof -
  have "(d mod 128 + 128) div 128 = (1::int)" by (simp add: div_add_self2)
  then show ?thesis by (simp add: cont_byte bit7)
qed

lemma cont_byte_low: "((d AND 0x7F) OR 0x80) AND 0x7F = d mod 128" for d :: int
  by (subst cont_byte) (simp add: low7)

lemma terminal_byte_flag: "0 \<le> d \<Longrightarrow> d < 128 \<Longrightarrow> d AND 0x80 = 0" for d :: int
  by (simp add: bit7)

lemma terminal_byte_low: "0 \<le> d \<Longrightarrow> d < 128 \<Longrightarrow> d AND 0x7F = d" for d :: int
  by (simp add: low7)

section \<open>What the encoder writes\<close>

text \<open>The bytes of one gap, and the gaps of a list of indices.\<close>

function varint_bytes :: "int \<Rightarrow> int list" where
  "varint_bytes diff =
     (if diff \<ge> 0x80 then ((diff AND 0x7F) OR 0x80) # varint_bytes (drop_bit 7 diff) else [diff])"
  by pat_completeness auto
termination
  by (relation "measure nat") (auto simp: drop_bit_eq_div)

declare varint_bytes.simps [simp del]

fun gaps :: "int \<Rightarrow> int list \<Rightarrow> int list" where
  "gaps p [] = []"
| "gaps p (c # cs) = (c - p) # gaps c cs"

definition varint_stream :: "int \<Rightarrow> int list \<Rightarrow> int list" where
  "varint_stream p xs = concat (map varint_bytes (gaps p xs))"

lemma varint_stream_simps [simp]:
  "varint_stream p [] = []"
  "varint_stream p (c # cs) = varint_bytes (c - p) @ varint_stream c cs"
  by (simp_all add: varint_stream_def)

lemma length_varint_bytes: "length (varint_bytes d) = varint_len d"
proof (induction d rule: varint_bytes.induct)
  case (1 d)
  then show ?case by (simp add: varint_bytes.simps [of d] varint_len.simps [of d])
qed

lemma encoded_size_Inr_iff:
  "encoded_size p xs = Inr n \<longleftrightarrow>
     sorted_wrt (\<le>) (p # xs) \<and> list_all ((\<le>) 0) xs \<and> n = length (varint_stream p xs)"
proof (induction p xs arbitrary: n rule: encoded_size.induct)
  case (2 p c cs)
  then show ?case by (auto simp: res_simps length_varint_bytes)
qed auto

lemma emit_diff_eq:
  "i + varint_len d \<le> length buf \<Longrightarrow>
   emit_diff d (buf, i) =
     (take i buf @ varint_bytes d @ drop (i + varint_len d) buf, i + varint_len d)"
proof (induction d "(buf, i)" arbitrary: buf i rule: emit_diff.induct)
  case (1 d buf i)
  show ?case
  proof (cases "d \<ge> 0x80")
    case True
    let ?b = "(d AND 0x7F) OR 0x80"
    have i: "i < length buf" using True 1(2) by (simp add: varint_len.simps [of d])
    have "emit_diff (drop_bit 7 d) (buf[i := ?b], i + 1) =
       (take (i + 1) (buf[i := ?b]) @ varint_bytes (drop_bit 7 d) @
        drop (i + 1 + varint_len (drop_bit 7 d)) (buf[i := ?b]), i + 1 + varint_len (drop_bit 7 d))"
      using True 1(2) by (intro 1(1)) (auto simp: varint_len.simps [of d])
    moreover have "take (i + 1) (buf[i := ?b]) = take i buf @ [?b]"
      using i by (simp add: take_Suc_conv_app_nth)
    ultimately show ?thesis
      using True by (simp add: emit_diff.simps [of d] varint_bytes.simps [of d] varint_len.simps [of d])
  next
    case False
    then show ?thesis using 1(2)
      by (simp add: emit_diff.simps [of d] varint_bytes.simps [of d] varint_len.simps [of d]
          upd_conv_take_nth_drop)
  qed
qed

lemma emit_all_eq:
  "i + length (varint_stream p xs) \<le> length buf \<Longrightarrow>
   emit_all p xs (buf, i) =
     (take i buf @ varint_stream p xs @ drop (i + length (varint_stream p xs)) buf,
      i + length (varint_stream p xs))"
proof (induction xs arbitrary: p i buf)
  case (Cons c cs)
  then show ?case by (simp add: emit_diff_eq length_varint_bytes ac_simps)
qed simp

lemma encode_varint_numba_eq:
  assumes "sorted xs" and "list_all ((\<le>) 0) xs"
  shows "encode_varint_numba xs = Inr (varint_stream 0 xs)"
proof -
  have "encoded_size 0 xs = Inr (length (varint_stream 0 xs))"
    using assms by (auto simp: encoded_size_Inr_iff list_all_iff)
  then show ?thesis by (simp add: encode_varint_numba_def emit_all_eq)
qed

section \<open>Streams as groups of bytes\<close>

text \<open>
  A group is the bytes of one index gap: continuation bytes, then one with the high bit
  clear. \<open>group_value\<close> is the number it stands for.
\<close>

definition cont :: "int \<Rightarrow> bool" where
  "cont b \<longleftrightarrow> b AND 0x80 \<noteq> 0"

definition is_group :: "int list \<Rightarrow> bool" where
  "is_group g \<longleftrightarrow> g \<noteq> [] \<and> list_all cont (butlast g) \<and> \<not> cont (last g)"

fun group_value :: "int list \<Rightarrow> int" where
  "group_value [] = 0"
| "group_value (b # g) = b mod 128 + 128 * group_value g"

lemma group_value_nonneg [simp]: "0 \<le> group_value g"
  by (induction g) auto

lemma group_value_bound: "group_value g < 128 ^ length g"
proof (induction g)
  case (Cons b g)
  have "b mod 128 < 128" by simp
  with Cons show ?case by simp
qed simp

lemma is_group_Cons:
  "is_group (b # g) \<longleftrightarrow> (if g = [] then \<not> cont b else cont b \<and> is_group g)"
  by (cases g) (auto simp: is_group_def)

lemma is_group_not_Nil: "is_group g \<Longrightarrow> g \<noteq> []"
  by (simp add: is_group_def)

lemma varint_bytes_group: "0 \<le> d \<Longrightarrow> is_group (varint_bytes d) \<and> group_value (varint_bytes d) = d"
proof (induction d rule: varint_bytes.induct)
  case (1 d)
  show ?case
  proof (cases "d \<ge> 0x80")
    case True
    have IH: "is_group (varint_bytes (drop_bit 7 d)) \<and>
        group_value (varint_bytes (drop_bit 7 d)) = d div 128"
      using 1 True by (simp add: drop_bit_eq_div)
    moreover have "((d AND 0x7F) OR 0x80) mod 128 = d mod 128"
      using cont_byte_low [of d] by (simp only: low7)
    ultimately show ?thesis using True cont_byte_flag [of d]
      by (auto simp: varint_bytes.simps [of d] is_group_Cons cont_def is_group_def)
  next
    case False
    then show ?thesis using 1(2) terminal_byte_flag [of d]
      by (simp add: varint_bytes.simps [of d] is_group_def cont_def)
  qed
qed

text \<open>Every byte list is a stream of groups and a tail of continuation bytes.\<close>

lemma split_groups: "\<exists>gs tail. bs = concat gs @ tail \<and> list_all is_group gs \<and> list_all cont tail"
proof (induction bs)
  case Nil
  show ?case by (intro exI [of _ "[]"]) simp
next
  case (Cons b bs)
  then obtain gs tail where gs: "bs = concat gs @ tail" "list_all is_group gs" "list_all cont tail"
    by blast
  show ?case
  proof (cases "cont b")
    case False
    with gs show ?thesis by (intro exI [of _ "[b] # gs"] exI [of _ tail]) (simp add: is_group_Cons)
  next
    case True
    show ?thesis
    proof (cases gs)
      case Nil
      with gs True show ?thesis by (intro exI [of _ "[]"] exI [of _ "b # tail"]) simp
    next
      case (Cons g gs')
      with gs True show ?thesis
        by (intro exI [of _ "(b # g) # gs'"] exI [of _ tail])
           (auto simp: is_group_Cons dest: is_group_not_Nil)
    qed
  qed
qed

text \<open>The numpy decoder on a stream of groups.\<close>

fun group_starts :: "nat \<Rightarrow> int list list \<Rightarrow> nat list" where
  "group_starts k [] = []"
| "group_starts k (g # gs) = k # group_starts (k + length g) gs"

fun group_ends :: "nat \<Rightarrow> int list list \<Rightarrow> nat list" where
  "group_ends k [] = []"
| "group_ends k (g # gs) = (k + length g - 1) # group_ends (k + length g) gs"

lemma terminal_positions_group:
  "is_group g \<Longrightarrow>
   terminal_positions k (g @ bs) = (k + length g - 1) # terminal_positions (k + length g) bs"
proof (induction g arbitrary: k)
  case (Cons b g)
  then show ?case by (cases "g = []") (auto simp: is_group_Cons cont_def)
qed (simp add: is_group_def)

lemma terminal_positions_tail: "list_all cont tail \<Longrightarrow> terminal_positions k tail = []"
  by (induction tail arbitrary: k) (auto simp: cont_def)

lemma terminal_positions_groups:
  "list_all is_group gs \<Longrightarrow> list_all cont tail \<Longrightarrow>
   terminal_positions k (concat gs @ tail) = group_ends k gs"
  by (induction gs arbitrary: k) (auto simp: terminal_positions_group terminal_positions_tail)

lemma length_group_ends [simp]: "length (group_ends k gs) = length gs"
  by (induction gs arbitrary: k) auto

lemma length_group_starts [simp]: "length (group_starts k gs) = length gs"
  by (induction gs arbitrary: k) auto

lemma starts_of_ends:
  "list_all is_group gs \<Longrightarrow> gs \<noteq> [] \<Longrightarrow> k # map Suc (butlast (group_ends k gs)) = group_starts k gs"
proof (induction gs arbitrary: k)
  case (Cons g gs)
  show ?case
  proof (cases "gs = []")
    case False
    moreover have "g \<noteq> []" using Cons.prems by (auto simp: is_group_def)
    ultimately show ?thesis using Cons.IH [of "k + length g"] Cons.prems
      by (cases gs) auto
  qed simp
qed simp

lemma lengths_of_groups:
  "list_all is_group gs \<Longrightarrow>
   map2 (\<lambda>e s. e - s + 1) (group_ends k gs) (group_starts k gs) = map length gs"
proof (induction gs arbitrary: k)
  case (Cons g gs)
  moreover have "g \<noteq> []" using Cons.prems by (auto simp: is_group_def)
  ultimately show ?case by (cases g) auto
qed simp

lemma fold_map2:
  "length ds = length ys \<Longrightarrow>
   fold (\<lambda>k ds. map2 (h k) ys ds) ks ds = map2 (\<lambda>y d. fold (\<lambda>k d. h k y d) ks d) ys ds"
proof (induction ks arbitrary: ds)
  case Nil
  then show ?case by (induction ds ys rule: list_induct2) auto
next
  case (Cons k ks)
  have "map2 (\<lambda>y d. fold (\<lambda>k d. h k y d) ks d) ys (map2 (h k) ys ds) =
        map2 (\<lambda>y d. fold (\<lambda>k d. h k y d) (k # ks) d) ys ds"
    using Cons.prems by (induction ds ys rule: list_induct2) auto
  with Cons show ?case by simp
qed

lemma group_value_snoc: "group_value (g @ [b]) = group_value g + 128 ^ length g * (b mod 128)"
  by (induction g) (auto simp: algebra_simps)

definition group_step :: "int list \<Rightarrow> nat \<times> nat \<Rightarrow> nat \<Rightarrow> int \<Rightarrow> int" where
  "group_step payload y k d =
     (if snd y > k then d OR push_bit (7 * k) (payload ! (fst y + k)) else d)"

lemma or_offset_group_step: "or_offset payload ys k ds = map2 (\<lambda>y d. group_step payload y k d) ys ds"
  by (simp add: or_offset_def group_step_def case_prod_beta)

lemma fold_group_step_prefix:
  assumes "\<And>k. k < length g \<Longrightarrow> payload ! (s + k) = g ! k AND 0x7F" and "n \<le> length g"
  shows "fold (group_step payload (s, length g)) [0..<n] 0 = group_value (take n g)"
  using assms(2)
proof (induction n)
  case (Suc n)
  have "group_value (take n g) < 2 ^ (7 * n)"
    using group_value_bound [of "take n g"] Suc.prems by (simp add: power_mult)
  then have "group_value (take n g) OR push_bit (7 * n) (g ! n mod 128) =
      group_value (take n g) + 128 ^ n * (g ! n mod 128)"
    by (subst or_push) (auto simp: power_mult)
  with Suc assms(1) show ?case
    by (simp add: group_step_def low7 take_Suc_conv_app_nth group_value_snoc)
qed simp

lemma fold_group_step_done:
  "fold (group_step payload (s, len)) [len..<m] d = d"
proof (induction m)
  case (Suc m)
  then show ?case by (cases "len \<le> m") (auto simp: group_step_def)
qed simp

lemma fold_group_step:
  assumes "\<And>k. k < length g \<Longrightarrow> payload ! (s + k) = g ! k AND 0x7F" and "length g \<le> m"
  shows "fold (group_step payload (s, length g)) [0..<m] 0 = group_value g"
proof -
  have "[0..<m] = [0..<length g] @ [length g..<m]"
    using assms(2) upt_add_eq_append [of 0 "length g" "m - length g"] by simp
  then show ?thesis
    using fold_group_step_prefix [OF assms(1), of "length g"] by (simp add: fold_group_step_done)
qed

lemma diffs_of_groups:
  "\<forall>g \<in> set gs. length g \<le> m \<Longrightarrow> length pre = k \<Longrightarrow>
   map2 (\<lambda>y d. fold (\<lambda>j d. group_step (map (\<lambda>b. b AND 0x7F) (pre @ concat gs @ post)) y j d) [0..<m] d)
     (zip (group_starts k gs) (map length gs)) (replicate (length gs) 0) = map group_value gs"
proof (induction gs arbitrary: pre k)
  case (Cons g gs)
  let ?p = "map (\<lambda>b. b AND 0x7F) (pre @ concat (g # gs) @ post)"
  have "fold (group_step ?p (k, length g)) [0..<m] 0 = group_value g"
    using Cons.prems by (intro fold_group_step) (auto simp: nth_append)
  then show ?case using Cons.IH [of "pre @ g" "k + length g"] Cons.prems by simp
qed simp

lemma fold_max_le: "fold max xs a \<le> m \<longleftrightarrow> a \<le> m \<and> (\<forall>x \<in> set xs. x \<le> m)" for m :: nat
  by (induction xs arbitrary: a) auto

lemma decode_numpy_groups:
  assumes gs: "list_all is_group gs" "gs \<noteq> []" and tail: "list_all cont tail"
  shows "decode_varint_numpy (concat gs @ tail) (length gs) =
     (if \<exists>g \<in> set gs. length g > 9
      then Inl (ValueError ''varint stream contains an index delta that does not fit int64'')
      else Inr (cumsum64 0 (map group_value gs)))"
proof -
  let ?m = "fold max (map length gs) 0"
  let ?p = "map (\<lambda>b. b AND 0x7F) (concat gs @ tail)"
  have m: "\<forall>g \<in> set gs. length g \<le> ?m"
    using fold_max_le [of "map length gs" 0 ?m] by simp
  have "fold (or_offset ?p (zip (group_starts 0 gs) (map length gs))) [0..<?m]
          (replicate (length gs) 0) = map group_value gs"
    using diffs_of_groups [OF m, of "[]" 0 tail]
    by (simp add: or_offset_group_step [abs_def] fold_map2)
  moreover have "9 < ?m \<longleftrightarrow> (\<exists>g \<in> set gs. length g > 9)"
    using fold_max_le [of "map length gs" 0 9] by (auto simp flip: not_le)
  ultimately show ?thesis
    using starts_of_ends [OF gs, of 0] lengths_of_groups [OF gs(1), of 0] gs(2)
    by (simp add: decode_varint_numpy_def Let_def terminal_positions_groups [OF gs(1) tail])
qed

text \<open>The byte-at-a-time decoder on a stream of groups.\<close>

lemma python_loop_group:
  assumes "is_group g" and "0 \<le> diff" and "diff < 2 ^ shift"
  shows "decode_python_loop n out current diff shift (g @ bs) =
     (let d = diff + 2 ^ shift * group_value g in
      if length out \<ge> n then Inl (ValueError ''decoded more indices than expected'')
      else if \<not> current + d < 2 ^ 63 then Inl (RuntimeError ''int64 overflow'')
      else decode_python_loop n (out @ [current + d]) (current + d) 0 0 bs)"
  using assms
proof (induction g arbitrary: diff shift)
  case (Cons b g)
  have step: "diff OR push_bit shift (b AND 0x7F) = diff + 2 ^ shift * (b mod 128)"
    using Cons.prems by (simp add: or_push low7)
  show ?case
  proof (cases "g = []")
    case True
    with Cons.prems step show ?thesis by (auto simp: is_group_Cons cont_def Let_def)
  next
    case False
    have "diff + 2 ^ shift * (b mod 128) < 2 ^ (shift + 7)"
    proof -
      have "2 ^ shift * (b mod 128) \<le> 2 ^ shift * (127::int)" by (intro mult_left_mono) auto
      moreover have "(2::int) ^ (shift + 7) = 2 ^ shift * 127 + 2 ^ shift"
        by (simp add: power_add)
      ultimately show ?thesis using Cons.prems(3) by linarith
    qed
    then have "decode_python_loop n out current (diff + 2 ^ shift * (b mod 128)) (shift + 7) (g @ bs) =
       (let d = diff + 2 ^ shift * (b mod 128) + 2 ^ (shift + 7) * group_value g in
        if length out \<ge> n then Inl (ValueError ''decoded more indices than expected'')
        else if \<not> current + d < 2 ^ 63 then Inl (RuntimeError ''int64 overflow'')
        else decode_python_loop n (out @ [current + d]) (current + d) 0 0 bs)"
      using Cons.prems False by (intro Cons.IH) (auto simp: is_group_Cons)
    moreover have "diff + 2 ^ shift * (b mod 128) + 2 ^ (shift + 7) * group_value g =
        diff + 2 ^ shift * group_value (b # g)"
      by (simp add: power_add algebra_simps)
    moreover have "decode_python_loop n out current diff shift ((b # g) @ bs) =
        decode_python_loop n out current (diff + 2 ^ shift * (b mod 128)) (shift + 7) (g @ bs)"
      using Cons.prems False step by (simp add: is_group_Cons cont_def Let_def)
    ultimately show ?thesis by (simp only:)
  qed
qed (simp add: is_group_def)

lemma python_loop_tail:
  "list_all cont tail \<Longrightarrow>
   decode_python_loop n out current diff shift tail = Inr (out, shift + 7 * length tail)"
  by (induction tail arbitrary: diff shift) (auto simp: cont_def Let_def)

lemma python_loop_groups:
  assumes "list_all is_group gs" and "list_all cont tail" and "0 \<le> current"
    and "decode_python_loop n out current 0 0 (concat gs @ tail) = Inr (out', shift')"
  shows "out' = out @ cumsum64 current (map group_value gs) \<and> shift' = 7 * length tail"
  using assms
proof (induction gs arbitrary: out current)
  case Nil
  then show ?case by (simp add: python_loop_tail)
next
  case (Cons g gs)
  let ?c = "current + group_value g"
  have c: "?c < 2 ^ 63" "decode_python_loop n (out @ [?c]) ?c 0 0 (concat gs @ tail) = Inr (out', shift')"
    using Cons.prems by (auto simp: python_loop_group Let_def split: if_splits)
  moreover have "0 \<le> ?c" using Cons.prems(3) by simp
  ultimately have "wrap64 ?c = ?c" by (intro wrap64_id) auto
  then show ?case using Cons.IH [OF _ Cons.prems(2) \<open>0 \<le> ?c\<close> c(2)] Cons.prems(1) by simp
qed

lemma length_cumsum64 [simp]: "length (cumsum64 a ds) = length ds"
  by (induction ds arbitrary: a) auto

text \<open>The fast path of the decoder is the numpy decoder on one-byte groups.\<close>

lemma fast_path:
  assumes "tdtype t = UInt8" and "list_all (elem_ok UInt8) (tdata t)" and "n > 0"
  shows "decode_varint_delta_indices t n = decode_varint_numpy (tdata t) n"
proof (cases "numel t = n \<and> \<not> (\<exists>b \<in> set (tdata t). b AND 0x80 \<noteq> 0)")
  case True
  let ?gs = "map (\<lambda>b. [b]) (tdata t)"
  have small: "b mod 128 = b" if "b \<in> set (tdata t)" for b
  proof -
    have "even (b div 128)" using True that bit7 [of b] by auto
    moreover have "0 \<le> b \<and> b < 256" using assms(2) that by (auto simp: list_all_iff elem_ok_def)
    then have "b div 128 = 0 \<or> b div 128 = 1" by linarith
    ultimately show ?thesis by auto
  qed
  have "decode_varint_numpy (concat ?gs @ []) (length ?gs) = Inr (cumsum64 0 (map group_value ?gs))"
    using True assms(3) by (subst decode_numpy_groups) (auto simp: list_all_iff is_group_def cont_def numel_def)
  moreover have "map group_value ?gs = tdata t" using small by (auto intro: map_idI)
  moreover have "concat ?gs = tdata t" by (induction "tdata t") auto
  ultimately show ?thesis using True assms by (simp add: decode_varint_delta_indices_def numel_def)
next
  case False
  then show ?thesis using assms by (auto simp: decode_varint_delta_indices_def)
qed

section \<open>Properties\<close>

lemma gaps_nonneg: "sorted_wrt (\<le>) (p # xs) \<Longrightarrow> list_all ((\<le>) 0) (gaps p xs)"
  by (induction p xs rule: gaps.induct) auto

lemma cumsum_gaps:
  "sorted_wrt (\<le>) (p # xs) \<Longrightarrow> 0 \<le> p \<Longrightarrow> \<forall>x \<in> set xs. x < 2 ^ 63 \<Longrightarrow> cumsum64 p (gaps p xs) = xs"
proof (induction p xs rule: gaps.induct)
  case (2 p c cs)
  then have "wrap64 c = c" by (intro wrap64_id) auto
  with 2 show ?case by simp
qed simp

lemma length_gaps [simp]: "length (gaps p xs) = length xs"
  by (induction p xs rule: gaps.induct) auto

lemma gaps_less: "sorted_wrt (\<le>) (p # xs) \<Longrightarrow> 0 \<le> p \<Longrightarrow> \<forall>x \<in> set xs. x < m \<Longrightarrow> \<forall>d \<in> set (gaps p xs). d < m"
  by (induction p xs rule: gaps.induct) auto

lemma varint_bytes_le9: "0 \<le> d \<Longrightarrow> d < 128 ^ n \<Longrightarrow> 0 < n \<Longrightarrow> length (varint_bytes d) \<le> n"
proof (induction d arbitrary: n rule: varint_bytes.induct)
  case (1 d)
  show ?case
  proof (cases "d \<ge> 0x80")
    case True
    obtain k where k: "n = Suc k" "0 < k"
      using 1(3,4) True by (cases n; cases "n - 1") auto
    have "drop_bit 7 d < 128 ^ k" using 1(3) k by (simp add: drop_bit_eq_div)
    then have "length (varint_bytes (drop_bit 7 d)) \<le> k"
      using 1(1) True 1(2) k by (simp add: drop_bit_eq_div)
    then show ?thesis using True k by (simp add: varint_bytes.simps [of d])
  next
    case False
    then show ?thesis using 1 by (simp add: varint_bytes.simps [of d])
  qed
qed

lemma varint_bytes_range: "0 \<le> d \<Longrightarrow> list_all (elem_ok UInt8) (varint_bytes d)"
proof (induction d rule: varint_bytes.induct)
  case (1 d)
  have "elem_ok UInt8 ((d AND 0x7F) OR 0x80)"
    using cont_byte [of d] by (simp add: elem_ok_def)
  with 1 show ?case
    by (auto simp: varint_bytes.simps [of d] elem_ok_def drop_bit_eq_div)
qed

definition int64_indices :: "int list \<Rightarrow> bool" where
  "int64_indices xs \<longleftrightarrow> sorted xs \<and> (\<forall>x \<in> set xs. 0 \<le> x \<and> x < 2 ^ 63)"

lemma int64_indices_sorted0: "int64_indices xs \<Longrightarrow> sorted_wrt (\<le>) (0 # xs) \<and> list_all ((\<le>) 0) xs"
  by (auto simp: int64_indices_def list_all_iff)

lemma varint_stream_range: "int64_indices xs \<Longrightarrow> list_all (elem_ok UInt8) (varint_stream 0 xs)"
  using gaps_nonneg [of 0 xs] int64_indices_sorted0 [of xs] varint_bytes_range
  by (auto simp: varint_stream_def list_all_iff)

lemma decode_varint_stream:
  assumes "int64_indices xs" and "xs \<noteq> []"
  shows "decode_varint_numpy (varint_stream 0 xs) (length xs) = Inr xs"
proof -
  let ?gs = "map varint_bytes (gaps 0 xs)"
  note s = int64_indices_sorted0 [OF assms(1)]
  have g: "list_all is_group ?gs \<and> map group_value ?gs = gaps 0 xs"
    using gaps_nonneg [OF conjunct1 [OF s]] varint_bytes_group
    by (auto simp: list_all_iff intro: map_idI)
  have "\<forall>d \<in> set (gaps 0 xs). d < 2 ^ 63"
    using s assms(1) by (intro gaps_less) (auto simp: int64_indices_def)
  then have "\<forall>g \<in> set ?gs. length g \<le> 9"
    using gaps_nonneg [OF conjunct1 [OF s]] varint_bytes_le9 [of _ 9] by (auto simp: list_all_iff)
  then have "decode_varint_numpy (concat ?gs @ []) (length ?gs) = Inr (cumsum64 0 (gaps 0 xs))"
    using g assms(2) by (subst decode_numpy_groups) (auto simp: not_less [symmetric] neq_Nil_conv)
  moreover have "cumsum64 0 (gaps 0 xs) = xs"
    using s assms(1) by (intro cumsum_gaps) (auto simp: int64_indices_def)
  ultimately show ?thesis by (simp add: varint_stream_def)
qed

lemma encode_varint_delta_indices_eq:
  "int64_indices xs \<Longrightarrow> encode_varint_delta_indices xs = Inr (flat_tensor UInt8 (varint_stream 0 xs))"
  using int64_indices_sorted0 [of xs] encode_varint_numba_eq [of xs]
  by (auto simp: encode_varint_delta_indices_def int64_indices_def)

lemma optimized_roundtrip:
  assumes "int64_indices xs" and "encode_varint_delta_indices xs = Inr t"
  shows "tdtype t = UInt8 \<and> tensor_wf t \<and> decode_sparse_indices t (length xs) = Inr xs"
proof (cases "xs = []")
  case True
  with assms show ?thesis
    by (auto simp: encode_varint_delta_indices_def decode_sparse_indices_def
        decode_varint_delta_indices_def tensor_wf_def)
next
  case False
  have t: "t = flat_tensor UInt8 (varint_stream 0 xs)"
    using assms by (simp add: encode_varint_delta_indices_eq)
  with False varint_stream_range [OF assms(1)] show ?thesis
    by (simp add: decode_sparse_indices_def fast_path decode_varint_stream [OF assms(1)] tensor_wf_def)
qed

lemma optimized_stream:
  "int64_indices xs \<Longrightarrow>
   tensor_wf (flat_tensor UInt8 (varint_stream 0 xs)) \<and>
   decode_sparse_indices (flat_tensor UInt8 (varint_stream 0 xs)) (length xs) = Inr xs"
  using optimized_roundtrip [OF _ encode_varint_delta_indices_eq] by simp

lemma naive_roundtrip:
  assumes "int64_indices xs" and "encode_sparse_indices xs ''naive'' = Inr t"
  shows "tdtype t \<in> {Int32, Int64} \<and> tensor_wf t \<and> decode_sparse_indices t (length xs) = Inr xs"
proof (cases "xs \<noteq> [] \<and> Max (set xs) < 2 ^ 31")
  case True
  have small: "0 \<le> x \<and> x < 2 ^ 31" if "x \<in> set xs" for x
    using that True assms(1) Max_ge [of "set xs" x] by (auto simp: int64_indices_def)
  then have "map wrap32 xs = xs" by (intro map_idI wrap32_id) force+
  with True small assms show ?thesis
    by (auto simp: encode_sparse_indices_def decode_sparse_indices_def tensor_wf_def list_all_iff
        elem_ok_def) force
next
  case False
  have "list_all (elem_ok Int64) xs" using assms(1) by (force simp: int64_indices_def list_all_iff elem_ok_def)
  moreover from False assms(2) have "t = flat_tensor (if xs = [] then Int32 else Int64) xs"
    by (auto simp: encode_sparse_indices_def split: if_splits)
  ultimately show ?thesis by (auto simp: decode_sparse_indices_def tensor_wf_def)
qed

section \<open>The codec contract\<close>

locale index_codec =
  fixes enc :: "int list \<Rightarrow> tensor res"
    and dec :: "tensor \<Rightarrow> nat \<Rightarrow> int list res"
  assumes enc_total: "int64_indices xs \<Longrightarrow> \<exists>t. enc xs = Inr t"
    and enc_wf: "int64_indices xs \<Longrightarrow> enc xs = Inr t \<Longrightarrow>
          tensor_wf t \<and> tdtype t \<in> {UInt8, Int32, Int64}"
    and dec_enc: "int64_indices xs \<Longrightarrow> enc xs = Inr t \<Longrightarrow> dec t (length xs) = Inr xs"
begin

lemma enc_inj:
  "int64_indices xs \<Longrightarrow> int64_indices ys \<Longrightarrow> length xs = length ys \<Longrightarrow>
   enc xs = Inr t \<Longrightarrow> enc ys = Inr t \<Longrightarrow> xs = ys"
  by (metis dec_enc Inr_inject)

end

interpretation optimized: index_codec "\<lambda>xs. encode_sparse_indices xs ''optimized''" decode_sparse_indices
proof
  fix xs t assume xs: "int64_indices xs"
  note eq = encode_varint_delta_indices_eq [OF xs]
  show "\<exists>t. encode_sparse_indices xs ''optimized'' = Inr t"
    by (simp add: encode_sparse_indices_def eq)
  assume "encode_sparse_indices xs ''optimized'' = Inr t"
  then have "encode_varint_delta_indices xs = Inr t" by (simp add: encode_sparse_indices_def)
  from optimized_roundtrip [OF xs this]
  show "tensor_wf t \<and> tdtype t \<in> {UInt8, Int32, Int64}" "decode_sparse_indices t (length xs) = Inr xs"
    by simp_all
qed

interpretation naive: index_codec "\<lambda>xs. encode_sparse_indices xs ''naive''" decode_sparse_indices
proof
  fix xs t assume xs: "int64_indices xs"
  show "\<exists>t. encode_sparse_indices xs ''naive'' = Inr t"
    by (auto simp: encode_sparse_indices_def)
  assume "encode_sparse_indices xs ''naive'' = Inr t"
  from naive_roundtrip [OF xs this]
  show "tensor_wf t \<and> tdtype t \<in> {UInt8, Int32, Int64}" "decode_sparse_indices t (length xs) = Inr xs"
    by auto
qed

section \<open>Claims\<close>

text \<open>C21. Round trip: whatever sorted list of \<open>int64\<close> indices is encoded, with either encoding,
  the encoder returns a storable tensor and the decoder the program runs gives the list back.\<close>

theorem index_roundtrip:
  assumes "int64_indices xs" and "encoding = ''optimized'' \<or> encoding = ''naive''"
  shows "\<exists>t. encode_sparse_indices xs encoding = Inr t \<and> tensor_wf t \<and>
             decode_sparse_indices t (length xs) = Inr xs"
  using assms(2)
proof
  assume "encoding = ''optimized''"
  with optimized.enc_total optimized.enc_wf optimized.dec_enc assms(1) show ?thesis by metis
next
  assume "encoding = ''naive''"
  with naive.enc_total naive.enc_wf naive.dec_enc assms(1) show ?thesis by metis
qed

theorem index_roundtrip_witness:
  "\<exists>t. encode_sparse_indices [3, 300, 70000] ''optimized'' = Inr t \<and> tensor_wf t \<and>
       decode_sparse_indices t 3 = Inr [3, 300, 70000]"
  using index_roundtrip [of "[3, 300, 70000]" "''optimized''"] by (simp add: int64_indices_def numeral_3_eq_3)

text \<open>C40. Memory safety of the unchecked numba loops: when the sizing pass accepts the indices,
  they are sorted and non-negative, and the filling pass writes the buffer it allocated from
  its first byte to its last, whatever the buffer held before.\<close>

theorem encoder_fills_its_buffer:
  assumes "encoded_size 0 xs = Inr n" and "length buf = n"
  shows "sorted xs \<and> (\<forall>x \<in> set xs. 0 \<le> x) \<and> emit_all 0 xs (buf, 0) = (varint_stream 0 xs, n)
       \<and> length (varint_stream 0 xs) = n"
  using assms by (auto simp: encoded_size_Inr_iff emit_all_eq list_all_iff)

theorem encoder_fills_its_buffer_witness:
  "emit_all 0 [5, 1000] ([9, 9, 9], 0) = (varint_stream 0 [5, 1000], 3)"
  using encoder_fills_its_buffer [of "[5, 1000]" 3 "[9, 9, 9]"]
  by (simp add: varint_len.simps drop_bit_eq_div)

text \<open>The two decoders agree: where the byte-at-a-time decoder accepts a stream of bytes,
  the decoder the program runs returns the same indices, or rejects the stream because a
  gap takes more than nine bytes.\<close>

theorem decoders_agree:
  assumes "tdtype t = UInt8" and "list_all (elem_ok UInt8) (tdata t)"
    and "decode_varint_python (tdata t) n = Inr xs"
  shows "decode_varint_delta_indices t n = Inr xs \<or>
         decode_varint_delta_indices t n =
           Inl (ValueError ''varint stream contains an index delta that does not fit int64'')"
proof (cases "n = 0")
  case True
  with assms show ?thesis
    by (auto simp: decode_varint_python_def decode_varint_delta_indices_def numel_def split: if_splits)
next
  case False
  obtain gs tail where gs: "tdata t = concat gs @ tail" "list_all is_group gs" "list_all cont tail"
    using split_groups by blast
  from assms(3) False obtain out shift where run:
      "decode_python_loop n [] 0 0 0 (concat gs @ tail) = Inr (out, shift)"
      "shift = 0" "length out = n" "xs = out"
    by (auto simp: decode_varint_python_def gs(1) res_simps split: if_splits)
  from python_loop_groups [OF gs(2,3) _ run(1)] run
  have xs: "xs = cumsum64 0 (map group_value gs)" "tail = []" "length gs = n" by auto
  with False have "gs \<noteq> []" by auto
  with decode_numpy_groups [OF gs(2) this gs(3)] fast_path [OF assms(1,2), of n] False xs gs(1)
  show ?thesis by auto
qed

theorem decoders_agree_witness:
  "decode_varint_delta_indices (flat_tensor UInt8 [5, 0x80, 0x01]) 2 = Inr [5, 133] \<or>
   decode_varint_delta_indices (flat_tensor UInt8 [5, 0x80, 0x01]) 2 =
     Inl (ValueError ''varint stream contains an index delta that does not fit int64'')"
  by (rule decoders_agree) (simp_all add: elem_ok_def decode_varint_python_def Let_def low7 bit7)

text \<open>Where they differ: continuation bytes after the last index are ignored by the decoder
  the program runs and rejected by the byte-at-a-time one, so a stream cut inside a
  trailing group is only noticed when an index is missing.\<close>

lemma trailing_bytes_differ:
  assumes "list_all (elem_ok UInt8) (bs @ tail)" and "n > 0"
    and "decode_varint_numpy bs n = Inr xs" and "list_all cont tail" and "tail \<noteq> []"
  shows "decode_varint_delta_indices (flat_tensor UInt8 (bs @ tail)) n = Inr xs
       \<and> (\<exists>e. decode_varint_python (bs @ tail) n = Inl e)"
proof -
  obtain gs t where gs: "bs = concat gs @ t" "list_all is_group gs" "list_all cont t"
    using split_groups by blast
  have n: "length gs = n"
    using assms(3) gs(2,3)
    by (auto simp: decode_varint_numpy_def gs(1) terminal_positions_groups Let_def split: if_splits)
  have ne: "gs \<noteq> []" using n assms(2) by auto
  have t: "list_all cont (t @ tail)" using gs(3) assms(4) by simp
  have "decode_varint_numpy (bs @ tail) n = Inr xs"
    using decode_numpy_groups [OF gs(2) ne t] decode_numpy_groups [OF gs(2) ne gs(3)] assms(3) n gs(1)
    by simp
  moreover have "decode_varint_python (bs @ tail) n \<noteq> Inr ys" for ys
  proof
    assume "decode_varint_python (bs @ tail) n = Inr ys"
    then have "decode_python_loop n [] 0 0 0 (concat gs @ t @ tail) = Inr (ys, 0)"
      using assms(2) gs(1) by (auto simp: decode_varint_python_def res_simps split: if_splits)
    from python_loop_groups [OF gs(2) t _ this] assms(5) show False by simp
  qed
  then have "\<exists>e. decode_varint_python (bs @ tail) n = Inl e"
    by (cases "decode_varint_python (bs @ tail) n") auto
  ultimately show ?thesis using fast_path [of "flat_tensor UInt8 (bs @ tail)" n] assms(1,2) by simp
qed

lemma trailing_bytes_differ_witness:
  "decode_varint_delta_indices (flat_tensor UInt8 ([5] @ [0x80])) 1 = Inr [5]
   \<and> (\<exists>e. decode_varint_python ([5] @ [0x80]) 1 = Inl e)"
  by (rule trailing_bytes_differ)
     (simp_all add: elem_ok_def decode_varint_numpy_def or_offset_def Let_def bit7 low7 cont_def wrap64_def)

end
