(* ===== verification/DeltaStream.thy ===== *)
theory DeltaStream
  imports IndexCodec
begin

text \<open>
  The streaming delta file (\<open>utils/delta.py\<close>): a 12-byte header, then one record per
  changed tensor (24-byte record header, UTF-8 name, shape, index bytes, value bytes), all
  little-endian. The writer appends to the file as it goes, so a call that raises can leave
  part of a record behind; the reader is a generator, so its model returns the records it
  yields before it ends or raises. The file's bytes are an explicit list.
\<close>

section \<open>Header, dtype codes, names\<close>

definition stream_magic :: "byte list" where
  "stream_magic = [0x50, 0x44, 0x45, 0x4C, 0x53, 0x54, 0x52, 0x4D]"

definition stream_header :: "byte list" where
  "stream_header = stream_magic @ to_le 4 2"

fun dtype_to_code :: "dtype \<Rightarrow> int option" where
  "dtype_to_code Float16 = Some 1"
| "dtype_to_code BFloat16 = Some 2"
| "dtype_to_code Float32 = Some 3"
| "dtype_to_code Float64 = Some 4"
| "dtype_to_code Int64 = Some 5"
| "dtype_to_code Int32 = Some 6"
| "dtype_to_code Int8 = Some 7"
| "dtype_to_code UInt8 = Some 8"
| "dtype_to_code (OtherDtype _ _) = None"

definition code_to_dtype :: "int \<Rightarrow> dtype option" where
  "code_to_dtype c =
     map_of [(1, Float16), (2, BFloat16), (3, Float32), (4, Float64), (5, Int64), (6, Int32),
             (7, Int8), (8, UInt8)] c"

definition encode_utf8 :: "string \<Rightarrow> byte list" where
  "encode_utf8 s = map (\<lambda>c. word_of_int (of_char c)) s"

definition between :: "int \<Rightarrow> int \<Rightarrow> byte \<Rightarrow> bool" where
  "between lo hi b \<longleftrightarrow> lo \<le> uint b \<and> uint b \<le> hi"

text \<open>Well-formed UTF-8 (Unicode, table 3-7): what \<open>bytes.decode("utf-8")\<close> accepts.\<close>

fun utf8_ok :: "byte list \<Rightarrow> bool" where
  "utf8_ok [] = True"
| "utf8_ok (a # bs) =
     (if between 0x00 0x7F a then utf8_ok bs
      else case bs of [] \<Rightarrow> False | b # cs \<Rightarrow>
        if between 0xC2 0xDF a then between 0x80 0xBF b \<and> utf8_ok cs
        else case cs of [] \<Rightarrow> False | c # ds \<Rightarrow>
          if between 0xE0 0xEF a
          then (if uint a = 0xE0 then between 0xA0 0xBF b
                else if uint a = 0xED then between 0x80 0x9F b else between 0x80 0xBF b)
               \<and> between 0x80 0xBF c \<and> utf8_ok ds
          else case ds of [] \<Rightarrow> False | d # es \<Rightarrow>
            between 0xF0 0xF4 a
            \<and> (if uint a = 0xF0 then between 0x90 0xBF b
               else if uint a = 0xF4 then between 0x80 0x8F b else between 0x80 0xBF b)
            \<and> between 0x80 0xBF c \<and> between 0x80 0xBF d \<and> utf8_ok es)"

definition decode_utf8 :: "byte list \<Rightarrow> string res" where
  "decode_utf8 bs =
     (if utf8_ok bs then Inr (map (\<lambda>b. char_of (uint b)) bs) else Inl UnicodeDecodeError)"

section \<open>Writing\<close>

definition stream_index_format :: "tensor \<Rightarrow> int res" where
  "stream_index_format indices =
     (if tdtype indices = UInt8 then Inr 0
      else if tdtype indices = Int32 then Inr 1
      else if tdtype indices = Int64 then Inr 2
      else Inl (ValueError ''unsupported streaming delta index dtype''))"

definition tensor_bytes :: "tensor \<Rightarrow> byte list" where
  "tensor_bytes t = concat (map (elem_to_bytes (tdtype t)) (tdata t))"

text \<open>\<open>struct.pack\<close> raises when a field does not fit.\<close>

definition pack_record ::
  "int \<Rightarrow> int \<Rightarrow> int \<Rightarrow> int \<Rightarrow> int \<Rightarrow> int \<Rightarrow> byte list res" where
  "pack_record name_size index_format dtype_code rank index_size value_count =
     (if name_size < 2 ^ 32 \<and> rank < 2 ^ 16 \<and> index_size < 2 ^ 64 \<and> value_count < 2 ^ 64
      then Inr (to_le 4 name_size @ to_le 1 index_format @ to_le 1 dtype_code @ to_le 2 rank
                @ to_le 8 index_size @ to_le 8 value_count)
      else Inl (StructError ''argument out of range''))"

definition pack_shape :: "nat list \<Rightarrow> byte list res" where
  "pack_shape shape =
     (if \<forall>d \<in> set shape. d < 2 ^ 64 then Inr (concat (map (\<lambda>d. to_le 8 (int d)) shape))
      else Inl (StructError ''argument out of range''))"

text \<open>\<open>StreamingDeltaWriter.write_record\<close>: the file after the call, and whether it raised.\<close>

definition write_record ::
  "byte list \<Rightarrow> string \<Rightarrow> nat list \<Rightarrow> int list \<Rightarrow> tensor \<Rightarrow> string \<Rightarrow> byte list \<times> unit res" where
  "write_record file name shape indices values index_encoding =
     (case bindR (encode_sparse_indices indices index_encoding) (\<lambda>encoded_indices.
        bindR (stream_index_format encoded_indices) (\<lambda>index_format.
          case dtype_to_code (tdtype values) of
            None \<Rightarrow> Inl (ValueError ''unsupported streaming delta value dtype'')
          | Some dtype_code \<Rightarrow>
              if length shape > 2 ^ 16 - 1
              then Inl (ValueError ''streaming delta tensor rank is too large'')
              else bindR (pack_record (int (length (encode_utf8 name))) index_format dtype_code
                     (int (length shape))
                     (int (numel encoded_indices * element_size (tdtype encoded_indices)))
                     (int (numel values)))
                   (\<lambda>header. Inr (encoded_indices, header)))) of
       Inl e \<Rightarrow> (file, Inl e)
     | Inr (encoded_indices, header) \<Rightarrow>
         (case pack_shape shape of
            Inl e \<Rightarrow> (file @ header @ encode_utf8 name, Inl e)
          | Inr shape_bytes \<Rightarrow>
              (file @ header @ encode_utf8 name @ shape_bytes
                 @ tensor_bytes encoded_indices @ tensor_bytes values, Inr ())))"

section \<open>Reading\<close>

record stream_record =
  rname :: string
  rshape :: "nat list option"
  rindices :: tensor
  rvalues :: tensor
  rversion :: nat

definition read_exact :: "byte list \<Rightarrow> nat \<Rightarrow> string \<Rightarrow> (byte list \<times> byte list) res" where
  "read_exact stream n description =
     (if n \<ge> 2 ^ 63 then Inl (OverflowError ''cannot fit int into an index-sized integer'')
      else if length stream < n then Inl (ValueError (''truncated '' @ description))
      else Inr (take n stream, drop n stream))"

fun chunks :: "nat \<Rightarrow> nat \<Rightarrow> byte list \<Rightarrow> byte list list" where
  "chunks n 0 bs = []"
| "chunks n (Suc k) bs = take n bs # chunks n k (drop n bs)"

definition tensor_from_bytes :: "byte list \<Rightarrow> dtype \<Rightarrow> tensor" where
  "tensor_from_bytes bs d =
     flat_tensor d (map (elem_of_bytes d) (chunks (element_size d) (length bs div element_size d) bs))"

definition stream_index_dtype :: "nat \<Rightarrow> nat \<Rightarrow> dtype res" where
  "stream_index_dtype index_format index_size =
     (if index_format = 0 then Inr UInt8
      else if index_format = 1 then
        (if index_size mod 4 \<noteq> 0 then Inl (ValueError ''streaming delta int32 index payload has invalid size'')
         else Inr Int32)
      else if index_format = 2 then
        (if index_size mod 8 \<noteq> 0 then Inl (ValueError ''streaming delta int64 index payload has invalid size'')
         else Inr Int64)
      else Inl (ValueError ''unsupported streaming delta index format''))"

definition field :: "nat \<Rightarrow> nat \<Rightarrow> byte list \<Rightarrow> nat" where
  "field start n bs = nat (of_le (take n (drop start bs)))"

record record_header =
  h_name_size :: nat
  h_index_format :: nat
  h_dtype_code :: nat
  h_reserved :: nat
  h_index_size :: nat
  h_value_count :: nat

definition unpack_record :: "byte list \<Rightarrow> record_header" where
  "unpack_record header =
     \<lparr>h_name_size = field 0 4 header, h_index_format = field 4 1 header,
      h_dtype_code = field 5 1 header, h_reserved = field 6 2 header,
      h_index_size = field 8 8 header, h_value_count = field 16 8 header\<rparr>"

text \<open>The body of the generator's loop: what follows a record header, then one whole record.\<close>

definition read_shape ::
  "nat \<Rightarrow> nat \<Rightarrow> byte list \<Rightarrow> (nat list option \<times> byte list) res" where
  "read_shape version reserved stream =
     (if version = 2
      then bindR (read_exact stream (reserved * 8) ''streaming delta shape'') (\<lambda>(shape_bytes, stream).
             Inr (Some (map (\<lambda>c. nat (of_le c)) (chunks 8 reserved shape_bytes)), stream))
      else Inr (None, stream))"

definition read_body :: "nat \<Rightarrow> record_header \<Rightarrow> byte list \<Rightarrow> (stream_record \<times> byte list) res" where
  "read_body version h stream =
     (if version = 1 \<and> h_reserved h \<noteq> 0
      then Inl (ValueError ''streaming delta v1 record has unsupported flags'')
      else case code_to_dtype (int (h_dtype_code h)) of
        None \<Rightarrow> Inl (ValueError ''unsupported streaming delta dtype code'')
      | Some dt \<Rightarrow>
          bindR (read_exact stream (h_name_size h) ''streaming delta tensor name'') (\<lambda>(name_bytes, stream).
          bindR (decode_utf8 name_bytes) (\<lambda>name.
          bindR (read_shape version (h_reserved h) stream) (\<lambda>(shape, stream).
          bindR (read_exact stream (h_index_size h) ''streaming delta indices'') (\<lambda>(index_bytes, stream).
          bindR (read_exact stream (h_value_count h * element_size dt) ''streaming delta values'')
            (\<lambda>(value_bytes, stream).
          bindR (stream_index_dtype (h_index_format h) (h_index_size h)) (\<lambda>index_dtype.
            Inr (\<lparr>rname = name, rshape = shape,
                   rindices = tensor_from_bytes index_bytes index_dtype,
                   rvalues = tensor_from_bytes value_bytes dt, rversion = version\<rparr>, stream))))))))"

definition read_record :: "nat \<Rightarrow> byte list \<Rightarrow> (stream_record \<times> byte list) res" where
  "read_record version stream =
     (if length (take 24 stream) \<noteq> 24
      then Inl (ValueError ''truncated streaming delta record header'')
      else read_body version (unpack_record (take 24 stream)) (drop 24 stream))"

lemma read_exact_Inr:
  "read_exact s n d = Inr (a, b) \<longleftrightarrow> n < 2 ^ 63 \<and> n \<le> length s \<and> a = take n s \<and> b = drop n s"
  by (auto simp: read_exact_def)

lemma read_shape_le: "read_shape v n s = Inr (sh, s') \<Longrightarrow> length s' \<le> length s"
  by (auto simp: read_shape_def res_simps read_exact_Inr split: if_split_asm)

lemma read_body_le: "read_body v h s = Inr (r, s') \<Longrightarrow> length s' \<le> length s"
  by (auto simp: read_body_def res_simps read_exact_Inr dest!: read_shape_le
      split: if_split_asm option.split_asm)

lemma read_record_shorter: "read_record v s = Inr (r, s') \<Longrightarrow> length s' < length s"
  by (auto simp: read_record_def dest: read_body_le split: if_split_asm)

function read_records :: "nat \<Rightarrow> byte list \<Rightarrow> stream_record list \<times> pyerr option" where
  "read_records version stream =
     (if stream = [] then ([], None)
      else case read_record version stream of
        Inl e \<Rightarrow> ([], Some e)
      | Inr (r, stream') \<Rightarrow> (case read_records version stream' of (rs, e) \<Rightarrow> (r # rs, e)))"
  by pat_completeness auto
termination
  by (relation "measure (length \<circ> snd)") (auto dest: read_record_shorter)

declare read_records.simps [simp del]

definition streaming_delta_version :: "byte list \<Rightarrow> nat res" where
  "streaming_delta_version file =
     bindR (read_exact file 12 ''streaming delta header'') (\<lambda>(header, _).
       if take 8 header \<noteq> stream_magic then Inl (ValueError ''streaming delta magic mismatch'')
       else let version = field 8 4 header in
         if version \<noteq> 1 \<and> version \<noteq> 2 then Inl (ValueError ''unsupported streaming delta version'')
         else Inr version)"

definition iter_streaming_delta_records :: "byte list \<Rightarrow> stream_record list \<times> pyerr option" where
  "iter_streaming_delta_records file =
     (case streaming_delta_version file of
        Inl e \<Rightarrow> ([], Some e)
      | Inr version \<Rightarrow> read_records version (drop 12 file))"

definition is_streaming_delta_file :: "byte list \<Rightarrow> bool" where
  "is_streaming_delta_file file \<longleftrightarrow> \<not> length file < length stream_magic \<and> take 8 file = stream_magic"

section \<open>Bytes back to values\<close>

lemma chunks_concat:
  "\<forall>v \<in> set vs. length (f v) = n \<Longrightarrow> chunks n (length vs) (concat (map f vs)) = map f vs"
  by (induction vs) auto

lemma length_concat_const:
  "\<forall>v \<in> set vs. length (f v) = n \<Longrightarrow> length (concat (map f vs)) = length vs * n"
  by (induction vs) auto

lemma length_tensor_bytes: "length (tensor_bytes t) = numel t * element_size (tdtype t)"
  by (simp add: tensor_bytes_def numel_def length_concat_const [where n = "element_size (tdtype t)"]
      elem_to_bytes_def)

lemma tensor_from_tensor_bytes:
  assumes "list_all (elem_ok (tdtype t)) (tdata t)" and "0 < element_size (tdtype t)"
  shows "tensor_from_bytes (tensor_bytes t) (tdtype t) = flat_tensor (tdtype t) (tdata t)"
proof -
  have "chunks (element_size (tdtype t)) (length (tdata t)) (tensor_bytes t) =
      map (elem_to_bytes (tdtype t)) (tdata t)"
    unfolding tensor_bytes_def by (rule chunks_concat) (simp add: elem_to_bytes_def)
  moreover have "map (elem_of_bytes (tdtype t) \<circ> elem_to_bytes (tdtype t)) (tdata t) = tdata t"
    using assms(1) by (intro map_idI) (simp add: list_all_iff elem_roundtrip)
  ultimately show ?thesis
    using assms(2) by (simp add: tensor_from_bytes_def length_tensor_bytes numel_def)
qed

lemma decode_encode_utf8: "utf8_ok (encode_utf8 s) \<Longrightarrow> decode_utf8 (encode_utf8 s) = Inr s"
proof -
  have "char_of (uint (word_of_int (of_char c) :: byte)) = c" for c
  proof -
    have "uint (word_of_int (of_char c) :: byte) = of_char c mod 256"
      by (simp only: uint_word_of_int) simp
    then show ?thesis by simp
  qed
  then show "utf8_ok (encode_utf8 s) \<Longrightarrow> decode_utf8 (encode_utf8 s) = Inr s"
    by (simp add: decode_utf8_def encode_utf8_def comp_def)
qed

lemma field_to_le:
  "length pre = start \<Longrightarrow> 0 \<le> x \<Longrightarrow> x < 256 ^ n \<Longrightarrow> field start n (pre @ to_le n x @ post) = nat x"
  by (simp add: field_def of_le_to_le_id)

lemma field_0_to_le: "0 \<le> x \<Longrightarrow> x < 256 ^ n \<Longrightarrow> field 0 n (to_le n x @ post) = nat x"
  by (simp add: field_def of_le_to_le_id)

lemma unpack_pack:
  assumes "pack_record a b c d e f = Inr h"
    and "0 \<le> a" "0 \<le> b" "b < 256" "0 \<le> c" "c < 256" "0 \<le> d" "0 \<le> e" "0 \<le> f"
  shows "length h = 24 \<and> unpack_record h =
    \<lparr>h_name_size = nat a, h_index_format = nat b, h_dtype_code = nat c, h_reserved = nat d,
     h_index_size = nat e, h_value_count = nat f\<rparr>"
proof -
  have h: "h = to_le 4 a @ to_le 1 b @ to_le 1 c @ to_le 2 d @ to_le 8 e @ to_le 8 f"
    and r: "a < 2 ^ 32" "d < 2 ^ 16" "e < 2 ^ 64" "f < 2 ^ 64"
    using assms(1) by (auto simp: pack_record_def split: if_splits)
  note g = field_to_le [where pre = "to_le 4 a"]
    field_to_le [where pre = "to_le 4 a @ to_le 1 b"]
    field_to_le [where pre = "to_le 4 a @ to_le 1 b @ to_le 1 c"]
    field_to_le [where pre = "to_le 4 a @ to_le 1 b @ to_le 1 c @ to_le 2 d"]
    field_to_le [where pre = "to_le 4 a @ to_le 1 b @ to_le 1 c @ to_le 2 d @ to_le 8 e" and post = "[]"]
  show ?thesis
    using assms(2-) r field_0_to_le [of a 4] g
    by (simp add: unpack_record_def h del: to_le.simps)
qed


section \<open>More bytes never change what was read\<close>

lemma read_exact_append:
  "read_exact s n d = Inr (a, b) \<Longrightarrow> read_exact (s @ t) n d = Inr (a, b @ t)"
  by (auto simp: read_exact_Inr)

lemma read_shape_append:
  "read_shape v n s = Inr (sh, s') \<Longrightarrow> read_shape v n (s @ t) = Inr (sh, s' @ t)"
  by (auto simp: read_shape_def res_simps read_exact_Inr split: if_split_asm)

lemma read_body_append:
  "read_body v h s = Inr (r, s') \<Longrightarrow> read_body v h (s @ t) = Inr (r, s' @ t)"
proof -
  assume "read_body v h s = Inr (r, s')"
  then obtain dt nb s1 name sh s2 ib s3 vb s4 idt where steps:
    "\<not> (v = 1 \<and> h_reserved h \<noteq> 0)" "code_to_dtype (int (h_dtype_code h)) = Some dt"
    "read_exact s (h_name_size h) ''streaming delta tensor name'' = Inr (nb, s1)"
    "decode_utf8 nb = Inr name" "read_shape v (h_reserved h) s1 = Inr (sh, s2)"
    "read_exact s2 (h_index_size h) ''streaming delta indices'' = Inr (ib, s3)"
    "read_exact s3 (h_value_count h * element_size dt) ''streaming delta values'' = Inr (vb, s4)"
    "stream_index_dtype (h_index_format h) (h_index_size h) = Inr idt" "s' = s4"
    "r = \<lparr>rname = name, rshape = sh, rindices = tensor_from_bytes ib idt,
          rvalues = tensor_from_bytes vb dt, rversion = v\<rparr>"
    by (auto simp: read_body_def res_simps split: if_split_asm option.split_asm)
  from steps(1,2,4,8-) show ?thesis
    by (auto simp: read_body_def read_exact_append [OF steps(3)] read_shape_append [OF steps(5)]
        read_exact_append [OF steps(6)] read_exact_append [OF steps(7)])
qed

lemma read_record_append:
  "read_record v s = Inr (r, s') \<Longrightarrow> read_record v (s @ t) = Inr (r, s' @ t)"
  by (auto simp: read_record_def dest: read_body_append split: if_split_asm)

lemma read_records_append:
  "read_records v s = (rs, None) \<Longrightarrow>
   read_records v (s @ t) = (rs @ fst (read_records v t), snd (read_records v t))"
proof (induction v s arbitrary: rs rule: read_records.induct)
  case (1 v s)
  show ?case
  proof (cases "s = []")
    case True
    with 1(2) show ?thesis by (simp add: read_records.simps [of v "[]"])
  next
    case False
    with 1(2) obtain r s' rs' where r: "read_record v s = Inr (r, s')"
        "read_records v s' = (rs', None)" "rs = r # rs'"
      by (auto simp: read_records.simps [of v s] split: sum.splits prod.splits)
    have "read_records v (s' @ t) = (rs' @ fst (read_records v t), snd (read_records v t))"
      using 1(1) False r by blast
    then show ?thesis
      using False r read_record_append [OF r(1), of t] by (simp add: read_records.simps [of v "s @ t"])
  qed
qed

lemma read_records_cut:
  "\<exists>rest. fst (read_records v (s @ t)) = fst (read_records v s) @ rest"
proof (induction v s rule: read_records.induct)
  case (1 v s)
  show ?case
  proof (cases "s = [] \<or> (\<exists>e. read_record v s = Inl e)")
    case True
    then show ?thesis by (auto simp: read_records.simps [of v s])
  next
    case False
    then obtain r s' where r: "read_record v s = Inr (r, s')" "s \<noteq> []"
      by (cases "read_record v s") auto
    with 1 obtain rest where "fst (read_records v (s' @ t)) = fst (read_records v s') @ rest"
      by blast
    with r read_record_append [OF r(1), of t] show ?thesis
      by (cases "read_records v s'"; cases "read_records v (s' @ t)")
         (simp add: read_records.simps [of v "s @ t"] read_records.simps [of v s])
  qed
qed

section \<open>Reading back a written record\<close>

lemma index_format_dtype:
  "stream_index_format t = Inr f \<Longrightarrow>
   0 \<le> f \<and> f < 256 \<and> 0 < element_size (tdtype t) \<and>
   stream_index_dtype (nat f) (k * element_size (tdtype t)) = Inr (tdtype t)"
  by (auto simp: stream_index_format_def stream_index_dtype_def split: if_splits)

lemma code_roundtrip:
  "dtype_to_code d = Some c \<Longrightarrow>
   0 \<le> c \<and> c < 256 \<and> 0 < element_size d \<and> code_to_dtype (int (nat c)) = Some d"
  by (cases d) (auto simp: code_to_dtype_def)

lemma pack_shape_chunks:
  "pack_shape shape = Inr bs \<Longrightarrow>
   length bs = length shape * 8 \<and> map (\<lambda>c. nat (of_le c)) (chunks 8 (length shape) bs) = shape"
proof -
  assume "pack_shape shape = Inr bs"
  then have bs: "bs = concat (map (\<lambda>d. to_le 8 (int d)) shape)" and r: "\<forall>d \<in> set shape. d < 2 ^ 64"
    by (auto simp: pack_shape_def split: if_splits)
  have "nat (of_le (to_le 8 (int d))) = d" if "d \<in> set shape" for d
    using r that by (subst of_le_to_le_id) auto
  then have "map (\<lambda>d. nat (of_le (to_le 8 (int d)))) shape = shape" by (simp add: map_idI)
  then show ?thesis
    using chunks_concat [of shape "\<lambda>d. to_le 8 (int d)" 8]
      length_concat_const [of shape "\<lambda>d. to_le 8 (int d)" 8]
    by (simp add: bs comp_def del: to_le.simps)
qed

lemma write_record_Inr:
  assumes "write_record file name shape indices values encoding = (file', Inr u)"
  obtains enc f c h sb where
    "encode_sparse_indices indices encoding = Inr enc" "stream_index_format enc = Inr f"
    "dtype_to_code (tdtype values) = Some c" "length shape \<le> 65535"
    "pack_record (int (length (encode_utf8 name))) f c (int (length shape))
       (int (numel enc * element_size (tdtype enc))) (int (numel values)) = Inr h"
    "pack_shape shape = Inr sb"
    "file' = file @ h @ encode_utf8 name @ sb @ tensor_bytes enc @ tensor_bytes values"
  using assms by (auto simp: write_record_def res_simps split: sum.splits option.splits if_splits)

lemma read_written_record:
  assumes w: "write_record file name shape indices values encoding = (file', Inr u)"
    and "utf8_ok (encode_utf8 name)" and "int64_indices indices"
    and "list_all (elem_ok (tdtype values)) (tdata values)" and "length file' < 2 ^ 63"
  shows "\<exists>enc. encode_sparse_indices indices encoding = Inr enc \<and>
     read_record 2 (drop (length file) file' @ rest) =
       Inr (\<lparr>rname = name, rshape = Some shape, rindices = flat_tensor (tdtype enc) (tdata enc),
             rvalues = flat_tensor (tdtype values) (tdata values), rversion = 2\<rparr>, rest)
     \<and> take (length file) file' = file \<and> length file < length file'"
proof -
  from w obtain enc f c h sb where x: "encode_sparse_indices indices encoding = Inr enc"
    "stream_index_format enc = Inr f" "dtype_to_code (tdtype values) = Some c" "length shape \<le> 65535"
    "pack_record (int (length (encode_utf8 name))) f c (int (length shape))
       (int (numel enc * element_size (tdtype enc))) (int (numel values)) = Inr h"
    "pack_shape shape = Inr sb"
    "file' = file @ h @ encode_utf8 name @ sb @ tensor_bytes enc @ tensor_bytes values"
    by (rule write_record_Inr)
  note f = index_format_dtype [OF x(2)] and c = code_roundtrip [OF x(3)]
    and h = unpack_pack [OF x(5)] and sb = pack_shape_chunks [OF x(6)]
  have enc_ok: "list_all (elem_ok (tdtype enc)) (tdata enc)"
    using x(1) optimized.enc_wf [OF assms(3)] naive.enc_wf [OF assms(3)]
    by (auto simp: encode_sparse_indices_def tensor_wf_def split: if_splits)
  have hdr: "h_name_size (unpack_record h) = length (encode_utf8 name)"
    "h_index_format (unpack_record h) = nat f" "h_dtype_code (unpack_record h) = nat c"
    "h_reserved (unpack_record h) = length shape"
    "h_index_size (unpack_record h) = numel enc * element_size (tdtype enc)"
    "h_value_count (unpack_record h) = numel values" "length h = 24"
    using h f c by (simp_all add: nat_mult_distrib)
  have code: "code_to_dtype c = Some (tdtype values)" using c by auto
  have sizes: "length (encode_utf8 name) < 2 ^ 63" "length shape * 8 < 2 ^ 63"
    "numel enc * element_size (tdtype enc) < 2 ^ 63" "numel values * element_size (tdtype values) < 2 ^ 63"
    using assms(5) x(4,7) by (simp_all add: length_tensor_bytes)
  have "read_body 2 (unpack_record h) (encode_utf8 name @ sb @ tensor_bytes enc @ tensor_bytes values @ rest) =
       Inr (\<lparr>rname = name, rshape = Some shape, rindices = flat_tensor (tdtype enc) (tdata enc),
             rvalues = flat_tensor (tdtype values) (tdata values), rversion = 2\<rparr>, rest)"
    using f c sb sizes assms(2,4) enc_ok code
    by (simp add: read_body_def read_shape_def read_exact_def decode_encode_utf8 hdr
        length_tensor_bytes tensor_from_tensor_bytes)
  then have "read_record 2 (h @ encode_utf8 name @ sb @ tensor_bytes enc @ tensor_bytes values @ rest) =
       Inr (\<lparr>rname = name, rshape = Some shape, rindices = flat_tensor (tdtype enc) (tdata enc),
             rvalues = flat_tensor (tdtype values) (tdata values), rversion = 2\<rparr>, rest)"
    using hdr by (simp add: read_record_def)
  then show ?thesis using x(1,7) h f c by simp
qed


lemma version_header: "length f \<ge> 12 \<Longrightarrow> streaming_delta_version (f @ g) = streaming_delta_version f"
  by (simp add: streaming_delta_version_def read_exact_def)

lemma version_short: "length f < 12 \<Longrightarrow> \<exists>e. streaming_delta_version f = Inl e"
  by (simp add: streaming_delta_version_def read_exact_def)

lemma version_of_header: "streaming_delta_version (stream_header @ g) = Inr 2"
proof -
  have "field 8 4 (stream_magic @ to_le 4 2) = 2"
    using field_to_le [of stream_magic 8 2 4 "[]"] by (simp add: stream_magic_def)
  then show ?thesis
    by (simp add: streaming_delta_version_def read_exact_def stream_header_def stream_magic_def)
qed

lemma iter_append_record:
  assumes "iter_streaming_delta_records file = (rs, None)" and "streaming_delta_version file = Inr v"
    and "take (length file) file' = file" and "read_record v (drop (length file) file') = Inr (r, [])"
    and "length file < length file'"
  shows "iter_streaming_delta_records file' = (rs @ [r], None)"
proof -
  obtain g where g: "file' = file @ g" using assms(3) by (metis append_take_drop_id)
  have l: "12 \<le> length file" using assms(2) version_short [of "file"] by fastforce
  have "read_records v (drop 12 file @ g) = (rs @ fst (read_records v g), snd (read_records v g))"
    using assms(1,2) by (intro read_records_append) (simp add: iter_streaming_delta_records_def)
  moreover have "read_records v g = ([r], None)"
    using assms(4,5) g by (simp add: read_records.simps [of v g] read_records.simps [of v "[]"])
  ultimately show ?thesis
    using assms(2) l g by (simp add: iter_streaming_delta_records_def version_header)
qed

lemma decode_sparse_flat:
  "decode_sparse_indices (flat_tensor (tdtype t) (tdata t)) n = decode_sparse_indices t n"
  by (simp add: decode_sparse_indices_def decode_varint_delta_indices_def numel_def)

section \<open>Claims\<close>

text \<open>C23. A record appended by the writer is the record the reader yields: if a file reads back as
  some records, then after a successful \<open>write_record\<close> the longer file reads back as the same
  records followed by the new one, with its name, shape and values, and with indices that
  decode to the ones written.\<close>

theorem written_record_is_read:
  assumes w: "write_record file name shape indices values encoding = (file', Inr u)"
    and "iter_streaming_delta_records file = (rs, None)" and "streaming_delta_version file = Inr 2"
    and "utf8_ok (encode_utf8 name)" and "int64_indices indices"
    and "list_all (elem_ok (tdtype values)) (tdata values)" and "length file' < 2 ^ 63"
  shows "\<exists>r. iter_streaming_delta_records file' = (rs @ [r], None)
     \<and> streaming_delta_version file' = Inr 2
     \<and> rname r = name \<and> rshape r = Some shape
     \<and> rvalues r = flat_tensor (tdtype values) (tdata values)
     \<and> decode_sparse_indices (rindices r) (length indices) = Inr indices"
proof -
  obtain enc where enc: "encode_sparse_indices indices encoding = Inr enc"
    "read_record 2 (drop (length file) file' @ []) =
       Inr (\<lparr>rname = name, rshape = Some shape, rindices = flat_tensor (tdtype enc) (tdata enc),
             rvalues = flat_tensor (tdtype values) (tdata values), rversion = 2\<rparr>, [])"
    "take (length file) file' = file" "length file < length file'"
    using read_written_record [OF w assms(4-7)] by metis
  have "decode_sparse_indices enc (length indices) = Inr indices"
    using enc(1) optimized.dec_enc [OF assms(5)] naive.dec_enc [OF assms(5)]
    by (auto simp: encode_sparse_indices_def split: if_splits)
  then have "decode_sparse_indices (flat_tensor (tdtype enc) (tdata enc)) (length indices) = Inr indices"
    by (simp add: decode_sparse_flat)
  moreover have "streaming_delta_version file' = Inr 2"
    using assms(3) enc(3) version_short [of "file"] version_header [of "file" "drop (length file) file'"]
    by (metis append_take_drop_id not_less Inr_Inl_False)
  ultimately show ?thesis
    using iter_append_record [OF assms(2,3) enc(3) _ enc(4)] enc(2) by fastforce
qed

theorem written_record_is_read_witness:
  "\<exists>r. iter_streaming_delta_records
         (fst (write_record stream_header ''w'' [4] [1, 3] (flat_tensor Int8 [5, -7]) ''optimized''))
       = ([] @ [r], None)
     \<and> streaming_delta_version
         (fst (write_record stream_header ''w'' [4] [1, 3] (flat_tensor Int8 [5, -7]) ''optimized'')) = Inr 2
     \<and> rname r = ''w'' \<and> rshape r = Some [4]
     \<and> rvalues r = flat_tensor (tdtype (flat_tensor Int8 [5, -7])) (tdata (flat_tensor Int8 [5, -7]))
     \<and> decode_sparse_indices (rindices r) (length [1, 3 :: int]) = Inr [1, 3]"
proof -
  let ?w = "write_record stream_header ''w'' [4] [1, 3] (flat_tensor Int8 [5, -7]) ''optimized''"
  have enc: "encode_sparse_indices [1, 3] ''optimized'' = Inr (flat_tensor UInt8 [1, 2])"
    by (simp add: encode_sparse_indices_def encode_varint_delta_indices_def encode_varint_numba_def
        varint_len.simps emit_diff.simps)
  have w: "?w = (fst ?w, Inr ()) \<and> length (fst ?w) < 2 ^ 63"
    by (simp add: write_record_def enc stream_index_format_def pack_record_def pack_shape_def
        encode_utf8_def numel_def flat_tensor_def tensor_bytes_def elem_to_bytes_def stream_header_def
        stream_magic_def)
  have "iter_streaming_delta_records stream_header = ([], None)"
    using version_of_header [of "[]"]
    by (simp add: iter_streaming_delta_records_def stream_header_def stream_magic_def read_records.simps)
  then show ?thesis
    using written_record_is_read [OF conjunct1 [OF w] _ _ _ _ _ conjunct2 [OF w]] version_of_header [of "[]"]
    by (simp add: encode_utf8_def between_def int64_indices_def elem_ok_def)
qed

text \<open>A delta file that is still being written, or was cut, never yields a wrong record: the
  records read from any prefix of a file are a prefix of the records of the file.\<close>

theorem cut_stream_yields_prefix:
  "\<exists>rest. fst (iter_streaming_delta_records file) =
          fst (iter_streaming_delta_records (take n file)) @ rest"
proof (cases "length (take n file) < 12")
  case True
  then show ?thesis
    using version_short [OF True] by (auto simp: iter_streaming_delta_records_def)
next
  case False
  let ?f = "take n file"
  have v: "streaming_delta_version file = streaming_delta_version ?f"
    using version_header [of ?f "drop n file"] False by (simp add: not_less)
  have "drop 12 file = drop 12 ?f @ drop n file"
    using False by (metis append_take_drop_id drop_append diff_is_0_eq not_less drop_0)
  then show ?thesis
    using read_records_cut [of _ "drop 12 ?f" "drop n file"] v
    by (cases "streaming_delta_version ?f") (auto simp: iter_streaming_delta_records_def)
qed

end
