(* ===== verification/DeltaNames.thy ===== *)
theory DeltaNames
  imports DeltaStream
begin

text \<open>
  Tensor names and tensor stores of the delta code: the fused-part rules of the v1 layout,
  the grouping of a model's keys, tied \<open>lm_head\<close> detection, the streaming order and flush
  groups, the delta metadata, and the store a streaming delta file is read into.
  A store is a dictionary from names to tensors with its metadata; a JSON text inside the
  metadata is the value it parses to.
\<close>

section \<open>Fused parts\<close>

record fused_rule =
  source_suffix :: string
  fused_suffix :: string
  rule_order :: nat
  rule_parts :: nat

definition fused_weight_rules :: "fused_rule list" where
  "fused_weight_rules =
    [\<lparr>source_suffix = ''.self_attn.q_proj.weight'', fused_suffix = ''.self_attn.qkv_proj.weight'',
      rule_order = 0, rule_parts = 3\<rparr>,
     \<lparr>source_suffix = ''.self_attn.k_proj.weight'', fused_suffix = ''.self_attn.qkv_proj.weight'',
      rule_order = 1, rule_parts = 3\<rparr>,
     \<lparr>source_suffix = ''.self_attn.v_proj.weight'', fused_suffix = ''.self_attn.qkv_proj.weight'',
      rule_order = 2, rule_parts = 3\<rparr>,
     \<lparr>source_suffix = ''.mlp.gate_proj.weight'', fused_suffix = ''.mlp.gate_up_proj.weight'',
      rule_order = 0, rule_parts = 2\<rparr>,
     \<lparr>source_suffix = ''.mlp.up_proj.weight'', fused_suffix = ''.mlp.gate_up_proj.weight'',
      rule_order = 1, rule_parts = 2\<rparr>]"

definition fused_bias_rules :: "fused_rule list" where
  "fused_bias_rules =
    [\<lparr>source_suffix = ''.self_attn.q_proj.bias'', fused_suffix = ''.self_attn.qkv_proj.bias'',
      rule_order = 0, rule_parts = 3\<rparr>,
     \<lparr>source_suffix = ''.self_attn.k_proj.bias'', fused_suffix = ''.self_attn.qkv_proj.bias'',
      rule_order = 1, rule_parts = 3\<rparr>,
     \<lparr>source_suffix = ''.self_attn.v_proj.bias'', fused_suffix = ''.self_attn.qkv_proj.bias'',
      rule_order = 2, rule_parts = 3\<rparr>,
     \<lparr>source_suffix = ''.mlp.gate_proj.bias'', fused_suffix = ''.mlp.gate_up_proj.bias'',
      rule_order = 0, rule_parts = 2\<rparr>,
     \<lparr>source_suffix = ''.mlp.up_proj.bias'', fused_suffix = ''.mlp.gate_up_proj.bias'',
      rule_order = 1, rule_parts = 2\<rparr>]"

text \<open>\<open>str.replace\<close>: every occurrence, left to right, without overlap.\<close>

function str_replace :: "'a list \<Rightarrow> 'a list \<Rightarrow> 'a list \<Rightarrow> 'a list" where
  "str_replace old new s =
     (if s = [] \<or> old = [] then s
      else if startswith s old then new @ str_replace old new (drop (length old) s)
      else hd s # str_replace old new (tl s))"
  by pat_completeness auto
termination
  by (relation "measure (\<lambda>(old, new, s). length s)") (auto simp: length_greater_0_conv)

declare str_replace.simps [simp del]

record mapped_name =
  mname :: string
  part_order :: "nat option"
  mparts :: "nat option"

definition find_rule :: "string \<Rightarrow> fused_rule list \<Rightarrow> fused_rule option" where
  "find_rule name rules = find (\<lambda>r. endswith name (source_suffix r)) rules"

definition map_tensor_name_to_fused :: "string \<Rightarrow> bool \<Rightarrow> mapped_name" where
  "map_tensor_name_to_fused name include_bias =
     (let apply_rule = (\<lambda>r. \<lparr>mname = str_replace (source_suffix r) (fused_suffix r) name,
                        part_order = Some (rule_order r), mparts = Some (rule_parts r)\<rparr>)
      in case find_rule name fused_weight_rules of
        Some r \<Rightarrow> apply_rule r
      | None \<Rightarrow>
          (case (if include_bias then find_rule name fused_bias_rules else None) of
             Some r \<Rightarrow> apply_rule r
           | None \<Rightarrow> \<lparr>mname = name, part_order = None, mparts = None\<rparr>))"

definition validate_part_orders :: "nat list \<Rightarrow> nat \<Rightarrow> unit res" where
  "validate_part_orders orders expected =
     ensure (set orders = {0..<expected}) (ValueError ''missing fused parts'')"

type_synonym fused_groups = "(string, (nat, string) dict) dict \<times> (string, nat) dict \<times> string list"

definition add_fused_key :: "bool \<Rightarrow> fused_groups \<Rightarrow> string \<Rightarrow> fused_groups res" where
  "add_fused_key include_bias g key =
     (case g of (fused_parts, parts_expected, single_keys) \<Rightarrow>
      let mapped = map_tensor_name_to_fused key include_bias in
      case part_order mapped of
        None \<Rightarrow> Inr (fused_parts, parts_expected, List.insert key single_keys)
      | Some order \<Rightarrow>
          let parts = (case dget fused_parts (mname mapped) of None \<Rightarrow> [] | Some d \<Rightarrow> d) in
          if order \<in> set (dkeys parts) then Inl (ValueError ''duplicate fused part'')
          else
            let wanted = (case mparts mapped of None \<Rightarrow> 0 | Some n \<Rightarrow> n);
                parts_expected' = (if mname mapped \<in> set (dkeys parts_expected) then parts_expected
                                   else dput (mname mapped) wanted parts_expected)
            in if dget parts_expected' (mname mapped) \<noteq> mparts mapped
               then Inl (ValueError ''parts mismatch'')
               else Inr (dput (mname mapped) (dput order key parts) fused_parts, parts_expected', single_keys))"

definition check_fused_group :: "(string, nat) dict \<Rightarrow> string list \<Rightarrow> string \<times> (nat, string) dict \<Rightarrow> string list res" where
  "check_fused_group parts_expected single_keys grp =
     bindR (validate_part_orders (dkeys (snd grp))
              (case dget parts_expected (fst grp) of None \<Rightarrow> 0 | Some n \<Rightarrow> n))
       (\<lambda>_. Inr (removeAll (fst grp) single_keys))"

definition build_fused_groups :: "string list \<Rightarrow> bool \<Rightarrow> fused_groups res" where
  "build_fused_groups keys include_bias =
     bindR (foldR (add_fused_key include_bias) ([], [], []) keys)
       (\<lambda>(fused_parts, parts_expected, single_keys).
          bindR (foldR (check_fused_group parts_expected) single_keys fused_parts)
            (\<lambda>single_keys'. Inr (fused_parts, parts_expected, single_keys')))"

definition validate_fused_shapes :: "nat list list \<Rightarrow> unit res" where
  "validate_fused_shapes sorted_shapes =
     (case sorted_shapes of [] \<Rightarrow> Inr ()
      | first # _ \<Rightarrow>
          ensure (\<forall>shape \<in> set sorted_shapes. length shape = length first \<and> tl shape = tl first)
            (ValueError ''incompatible fused part shapes''))"

definition fused_offsets :: "(nat \<Rightarrow> nat option) \<Rightarrow> nat list \<Rightarrow> nat \<Rightarrow> (nat, nat) dict res" where
  "fused_offsets part_sizes orders expected =
     bindR (validate_part_orders orders expected) (\<lambda>_.
       bindR (foldR (\<lambda>(offsets, running) order.
                 case part_sizes order of
                   None \<Rightarrow> Inl (KeyError ''part_sizes'')
                 | Some n \<Rightarrow> Inr (dput order running offsets, running + n))
               ([], 0) [0..<expected])
         (\<lambda>(offsets, _). Inr offsets))"

section \<open>Streaming order and flush groups\<close>

definition layers_marker :: string where
  "layers_marker = ''.layers.''"

text \<open>\<open>s.split(marker, 1)[1]\<close>: what follows the first occurrence, if there is one.\<close>

fun after_first :: "'a list \<Rightarrow> 'a list \<Rightarrow> 'a list option" where
  "after_first marker [] = (if marker = [] then Some [] else None)"
| "after_first marker (c # cs) =
     (if startswith (c # cs) marker then Some (drop (length marker) (c # cs))
      else after_first marker cs)"

definition is_digit :: "char \<Rightarrow> bool" where
  "is_digit c \<longleftrightarrow> (48::nat) \<le> of_char c \<and> of_char c \<le> (57::nat)"

definition isdecimal :: "string \<Rightarrow> bool" where
  "isdecimal s \<longleftrightarrow> s \<noteq> [] \<and> list_all is_digit s"

definition decimal_value :: "string \<Rightarrow> nat" where
  "decimal_value s = foldl (\<lambda>n c. 10 * n + (of_char c - 48)) 0 s"

definition stream_layer_index :: "string \<Rightarrow> nat option" where
  "stream_layer_index name =
     (case after_first layers_marker name of
        None \<Rightarrow> None
      | Some rest \<Rightarrow>
          let layer = takeWhile (\<lambda>c. c \<noteq> CHR ''.'') rest in
          if isdecimal layer then Some (decimal_value layer) else None)"

definition stream_record_order :: "string \<Rightarrow> nat \<times> nat \<times> string" where
  "stream_record_order name =
     (case stream_layer_index name of None \<Rightarrow> (0, 0, name) | Some layer \<Rightarrow> (1, layer, name))"

definition stream_group_id :: "string \<Rightarrow> nat \<Rightarrow> nat option" where
  "stream_group_id name group_size =
     (case stream_layer_index name of
        None \<Rightarrow> None
      | Some layer \<Rightarrow> if group_size = 0 then None else Some (layer div group_size))"

section \<open>Metadata\<close>

datatype json =
    JNull | JBool bool | JInt int | JFloat string | JStr string
  | JList "json list" | JObj "(string \<times> json) list"
  | JInvalid  \<comment> \<open>a text \<open>json.loads\<close> rejects\<close>

record delta_metadata =
  meta_format :: "string option"
  meta_layout :: "string option"
  meta_shapes :: "json option"

definition no_metadata :: delta_metadata where
  "no_metadata = \<lparr>meta_format = None, meta_layout = None, meta_shapes = None\<rparr>"

definition format_v1 :: string where "format_v1 = ''sparse_delta_v1''"
definition format_v2 :: string where "format_v2 = ''sparse_delta_v2''"
definition layout_logical :: string where "layout_logical = ''huggingface''"

definition logical_delta_metadata :: "(string, nat list) dict \<Rightarrow> delta_metadata" where
  "logical_delta_metadata shapes =
     \<lparr>meta_format = Some format_v2, meta_layout = Some layout_logical,
      meta_shapes = Some (JObj (map (\<lambda>(name, shape). (name, JList (map (\<lambda>d. JInt (int d)) shape)))
                                  (sort_key fst shapes)))\<rparr>"

text \<open>\<open>isinstance(dim, int)\<close> holds of booleans too.\<close>

fun json_int :: "json \<Rightarrow> int option" where
  "json_int (JInt i) = Some i"
| "json_int (JBool b) = Some (if b then 1 else 0)"
| "json_int _ = None"

definition json_shape :: "json \<Rightarrow> nat list res" where
  "json_shape shape =
     (case shape of
        JList dims \<Rightarrow>
          if \<exists>d \<in> set dims. json_int d = None
          then Inl (ValueError ''logical sparse delta shapes metadata is malformed'')
          else if \<exists>d \<in> set dims. the (json_int d) < 0
          then Inl (ValueError ''logical sparse delta shape has a negative dimension'')
          else Inr (map (\<lambda>d. nat (the (json_int d))) dims)
      | _ \<Rightarrow> Inl (ValueError ''logical sparse delta shapes metadata is malformed''))"

definition sparse_delta_shapes :: "delta_metadata \<Rightarrow> (string, nat list) dict res" where
  "sparse_delta_shapes metadata =
     (case meta_shapes metadata of
        None \<Rightarrow> Inr []
      | Some JInvalid \<Rightarrow> Inl (ValueError ''JSONDecodeError'')
      | Some (JObj entries) \<Rightarrow>
          foldR (\<lambda>shapes (name, shape). bindR (json_shape shape) (\<lambda>dims. Inr (dput name dims shapes)))
            [] entries
      | Some _ \<Rightarrow> Inl (ValueError ''logical sparse delta shapes metadata must be an object''))"

section \<open>Stores\<close>

record store =
  store_tensors :: "(string, tensor) dict"
  store_meta :: delta_metadata

definition get_tensor :: "store \<Rightarrow> string \<Rightarrow> tensor res" where
  "get_tensor s name =
     (case dget (store_tensors s) name of None \<Rightarrow> Inl (KeyError name) | Some t \<Rightarrow> Inr t)"

abbreviation store_keys :: "store \<Rightarrow> string list" where
  "store_keys s \<equiv> dkeys (store_tensors s)"

definition state_dict_store :: "(string, tensor) dict \<Rightarrow> store" where
  "state_dict_store d = \<lparr>store_tensors = d, store_meta = no_metadata\<rparr>"

definition idx_suffix :: string where "idx_suffix = ''.__idx''"
definition val_suffix :: string where "val_suffix = ''.__val''"

definition add_stream_record ::
  "(string, tensor) dict \<times> (string, nat list) dict \<Rightarrow> stream_record \<Rightarrow>
   ((string, tensor) dict \<times> (string, nat list) dict) res" where
  "add_stream_record st r =
     (case st of (tensors, shapes) \<Rightarrow>
      if rname r @ idx_suffix \<in> set (dkeys tensors)
      then Inl (ValueError ''duplicate streaming delta record'')
      else Inr (dput (rname r @ val_suffix) (rvalues r) (dput (rname r @ idx_suffix) (rindices r) tensors),
                case rshape r of None \<Rightarrow> shapes | Some sh \<Rightarrow> dput (rname r) sh shapes))"

definition streaming_delta_store :: "byte list \<Rightarrow> store res" where
  "streaming_delta_store file =
     bindR (streaming_delta_version file) (\<lambda>version.
       let (records, err) = iter_streaming_delta_records file in
       bindR (foldR add_stream_record ([], []) records) (\<lambda>(tensors, shapes).
         case err of
           Some e \<Rightarrow> Inl e
         | None \<Rightarrow> Inr \<lparr>store_tensors = tensors,
             store_meta = (if version = 1 then no_metadata\<lparr>meta_format := Some format_v1\<rparr>
                           else logical_delta_metadata shapes)\<rparr>))"

definition looks_like_delta :: "string list \<Rightarrow> bool" where
  "looks_like_delta keys \<longleftrightarrow> (\<exists>key \<in> set keys. endswith key idx_suffix \<or> endswith key val_suffix)"

definition is_sparse_delta_store :: "store \<Rightarrow> bool" where
  "is_sparse_delta_store s \<longleftrightarrow>
     looks_like_delta (store_keys s) \<or> meta_format (store_meta s) \<in> {Some format_v1, Some format_v2}"

text \<open>\<open>torch.equal\<close>: shapes first-class, dtypes must agree.\<close>

definition tensor_equal :: "torch_ops \<Rightarrow> tensor \<Rightarrow> tensor \<Rightarrow> bool res" where
  "tensor_equal T a b =
     (if tdtype a \<noteq> tdtype b then Inl (RuntimeError ''expected tensors of the same dtype'')
      else Inr (tshape a = tshape b \<and> list_all2 (feq T (tdtype a)) (tdata a) (tdata b)))"

definition tied_lm_head_skip_keys :: "torch_ops \<Rightarrow> store \<Rightarrow> string list res" where
  "tied_lm_head_skip_keys T s =
     (case (dget (store_tensors s) ''model.embed_tokens.weight'', dget (store_tensors s) ''lm_head.weight'') of
        (Some embedding, Some lm_head) \<Rightarrow>
          if tshape embedding = tshape lm_head
          then bindR (tensor_equal T embedding lm_head)
                 (\<lambda>eq. Inr (if eq then [''lm_head.weight''] else []))
          else Inr []
      | _ \<Rightarrow> Inr [])"

definition validated_model_keys :: "torch_ops \<Rightarrow> store \<Rightarrow> store \<Rightarrow> bool \<Rightarrow> string list res" where
  "validated_model_keys T base target include_bias =
     bindR (tied_lm_head_skip_keys T base) (\<lambda>skip_base.
     bindR (tied_lm_head_skip_keys T target) (\<lambda>skip_target.
       let skip = set skip_base \<inter> set skip_target;
           keep = (\<lambda>key. key \<notin> skip \<and> (include_bias \<or> \<not> endswith key ''.bias''));
           base_keys = filter keep (store_keys base);
           target_keys = filter keep (store_keys target)
       in if set base_keys \<noteq> set target_keys then Inl (ValueError ''keys mismatch'')
          else Inr base_keys))"

section \<open>The grouping of a model's keys\<close>

definition groups_ok :: "bool \<Rightarrow> string set \<Rightarrow> fused_groups \<Rightarrow> bool" where
  "groups_ok include_bias seen g \<longleftrightarrow>
     (case g of (fused_parts, parts_expected, single_keys) \<Rightarrow>
       (\<forall>name parts order key. dget fused_parts name = Some parts \<longrightarrow> dget parts order = Some key \<longrightarrow>
          key \<in> seen \<and> map_tensor_name_to_fused key include_bias =
            \<lparr>mname = name, part_order = Some order, mparts = dget parts_expected name\<rparr>)
     \<and> (\<forall>key \<in> seen. case part_order (map_tensor_name_to_fused key include_bias) of
          None \<Rightarrow> key \<in> set single_keys
        | Some order \<Rightarrow> \<exists>parts. dget fused_parts (mname (map_tensor_name_to_fused key include_bias)) = Some parts
            \<and> dget parts order = Some key)
     \<and> (\<forall>key \<in> set single_keys. key \<in> seen \<and> part_order (map_tensor_name_to_fused key include_bias) = None)
     \<and> distinct (dkeys fused_parts) \<and> (\<forall>parts \<in> snd ` set fused_parts. distinct (dkeys parts))
     \<and> fst ` set fused_parts \<subseteq> fst ` set parts_expected)"

lemma snd_set_dput: "snd ` set (dput k v d) \<subseteq> insert v (snd ` set d)"
  by (induction k v d rule: dput.induct) auto

lemma dget_in_range: "dget d k = Some v \<Longrightarrow> v \<in> snd ` set d"
  by (force dest: map_of_SomeD)

lemma mapped_name_cases:
  "part_order (map_tensor_name_to_fused key b) = Some order \<Longrightarrow>
   \<exists>n. mparts (map_tensor_name_to_fused key b) = Some n"
  by (auto simp: map_tensor_name_to_fused_def Let_def split: option.splits if_splits)

lemma add_fused_key_ok:
  assumes ok: "groups_ok b seen g" and step: "add_fused_key b g key = Inr g'" and new: "key \<notin> seen"
  shows "groups_ok b (insert key seen) g'"
proof -
  obtain fp pe sk where g: "g = (fp, pe, sk)" by (cases g)
  let ?m = "map_tensor_name_to_fused key b"
  show ?thesis
  proof (cases "part_order ?m")
    case None
    then have "g' = (fp, pe, List.insert key sk)" using step by (simp add: g add_fused_key_def)
    then show ?thesis using ok None unfolding g groups_ok_def by (auto split: option.split)
  next
    case (Some order)
    obtain n where n: "mparts ?m = Some n" using mapped_name_cases [OF Some] by blast
    define parts where "parts = (case dget fp (mname ?m) of None \<Rightarrow> [] | Some d \<Rightarrow> d)"
    define pe' where "pe' = (if mname ?m \<in> set (dkeys pe) then pe else dput (mname ?m) n pe)"
    have fresh: "order \<notin> set (dkeys parts)" and pn: "dget pe' (mname ?m) = Some n"
      and g': "g' = (dput (mname ?m) (dput order key parts) fp, pe', sk)"
      using step Some n unfolding g add_fused_key_def parts_def pe'_def
      by (auto simp: Let_def split: if_split_asm)
    have m: "?m = \<lparr>mname = mname ?m, part_order = Some order, mparts = Some n\<rparr>"
      using Some n by simp
    have sub: "fst ` set fp \<subseteq> fst ` set pe" using ok by (simp add: g groups_ok_def)
    have pe: "dget pe' k = dget pe k" if k: "k \<in> fst ` set fp" for k
      using subsetD [OF sub k] by (cases "k = mname ?m") (simp_all add: pe'_def dict_simps)
    have old: "\<And>name ps o' k. dget fp name = Some ps \<Longrightarrow> dget ps o' = Some k \<Longrightarrow> k \<in> seen \<and>
        map_tensor_name_to_fused k b = \<lparr>mname = name, part_order = Some o', mparts = dget pe name\<rparr>"
      using ok unfolding g groups_ok_def by simp
    have c2: "case part_order (map_tensor_name_to_fused k b) of None \<Rightarrow> k \<in> set sk
        | Some o' \<Rightarrow> \<exists>ps. dget fp (mname (map_tensor_name_to_fused k b)) = Some ps \<and> dget ps o' = Some k"
      if "k \<in> seen" for k
      using ok that unfolding g groups_ok_def by simp
    have dom: "name \<in> fst ` set fp" if "dget fp name = Some ps" for name ps
      using that by (metis domI dom_map_of_conv_image_fst)
    have p_old: "dget parts o' = Some k \<Longrightarrow> dget fp (mname ?m) = Some parts" for o' k
      by (cases "dget fp (mname ?m)") (auto simp: parts_def)
    have dd: "\<forall>ps \<in> snd ` set fp. distinct (dkeys ps)" using ok by (simp add: g groups_ok_def)
    have p_dist: "distinct (dkeys parts)"
      using ok dget_in_range [of fp "mname ?m"] unfolding g groups_ok_def parts_def
      by (auto split: option.split)
    show ?thesis
      unfolding g' groups_ok_def prod.case
    proof (intro conjI allI impI)
      fix name ps o' k
      assume 1: "dget (dput (mname ?m) (dput order key parts) fp) name = Some ps" and 2: "dget ps o' = Some k"
      then consider "name = mname ?m" "o' = order" "k = key"
        | "name = mname ?m" "dget parts o' = Some k" | "name \<noteq> mname ?m" "dget fp name = Some ps"
        by (cases "name = mname ?m"; cases "o' = order") (auto simp add: dict_simps)
      then have "k \<in> insert key seen \<and> map_tensor_name_to_fused k b =
        \<lparr>mname = name, part_order = Some o', mparts = dget pe' name\<rparr>"
      proof cases
        case 1
        then show ?thesis using m pn by simp
      next
        case x: 2
        from old [OF p_old [OF x(2)] x(2)] pe [OF dom [OF p_old [OF x(2)]]] x(1) show ?thesis by simp
      next
        case x: 3
        from old [OF x(2) 2] pe [OF dom [OF x(2)]] show ?thesis by simp
      qed
      then show "k \<in> insert key seen" "map_tensor_name_to_fused k b =
        \<lparr>mname = name, part_order = Some o', mparts = dget pe' name\<rparr>" by auto
    next
      have "\<exists>ps. dget (dput (mname ?m) (dput order key parts) fp) (mname (map_tensor_name_to_fused k b)) = Some ps
          \<and> dget ps o' = Some k"
        if k: "k \<in> seen" and o: "part_order (map_tensor_name_to_fused k b) = Some o'" for k o'
      proof -
        obtain ps where ps: "dget fp (mname (map_tensor_name_to_fused k b)) = Some ps" "dget ps o' = Some k"
          using c2 [OF k] o by auto
        show ?thesis
        proof (cases "mname (map_tensor_name_to_fused k b) = mname ?m")
          case True
          then have "ps = parts" using ps by (simp add: parts_def)
          moreover have "o' \<noteq> order" using fresh ps(2) \<open>ps = parts\<close> by (force dest: map_of_SomeD)
          ultimately show ?thesis using True ps by (simp add: dict_simps)
        next
          case False
          then show ?thesis using ps by (simp add: dict_simps)
        qed
      qed
      moreover have "k \<in> set sk" if "k \<in> seen" "part_order (map_tensor_name_to_fused k b) = None" for k
        using c2 [OF that(1)] that(2) by simp
      ultimately show "\<forall>k \<in> insert key seen. case part_order (map_tensor_name_to_fused k b) of
          None \<Rightarrow> k \<in> set sk
        | Some o' \<Rightarrow> \<exists>ps. dget (dput (mname ?m) (dput order key parts) fp)
            (mname (map_tensor_name_to_fused k b)) = Some ps \<and> dget ps o' = Some k"
        using Some by (auto simp: dict_simps split: option.split)
    next
      show "\<forall>k \<in> set sk. k \<in> insert key seen \<and> part_order (map_tensor_name_to_fused k b) = None"
        using ok by (auto simp: g groups_ok_def)
      show "distinct (dkeys (dput (mname ?m) (dput order key parts) fp))"
        using ok by (auto simp: g groups_ok_def)
      show "\<forall>ps \<in> snd ` set (dput (mname ?m) (dput order key parts) fp). distinct (dkeys ps)"
      proof
        fix ps assume "ps \<in> snd ` set (dput (mname ?m) (dput order key parts) fp)"
        then have "ps = dput order key parts \<or> ps \<in> snd ` set fp"
          by (simp only: insert_iff [symmetric]) (rule subsetD [OF snd_set_dput])
        then show "distinct (dkeys ps)"
        proof
          assume "ps = dput order key parts"
          then show ?thesis by (simp only: distinct_dkeys_dput [OF p_dist])
        next
          assume "ps \<in> snd ` set fp"
          then show ?thesis by (rule bspec [OF dd])
        qed
      qed
      show "fst ` set (dput (mname ?m) (dput order key parts) fp) \<subseteq> fst ` set pe'"
        using sub by (auto simp: dict_simps pe'_def)
    qed
  qed
qed

lemma build_fold_ok:
  "foldR (add_fused_key b) g keys = Inr g' \<Longrightarrow> groups_ok b seen g \<Longrightarrow> distinct keys \<Longrightarrow>
   set keys \<inter> seen = {} \<Longrightarrow> groups_ok b (set keys \<union> seen) g'"
proof (induction keys arbitrary: g seen)
  case (Cons key keys)
  then obtain g1 where g1: "add_fused_key b g key = Inr g1" "foldR (add_fused_key b) g1 keys = Inr g'"
    by (auto simp: res_simps)
  from Cons.IH [OF g1(2) add_fused_key_ok [OF Cons.prems(2) g1(1)]] Cons.prems(3,4)
  show ?case by simp
qed simp

lemma check_groups:
  "foldR (check_fused_group pe) sk groups = Inr sk' \<Longrightarrow>
   set sk' = set sk - fst ` set groups \<and>
   (\<forall>grp \<in> set groups. set (dkeys (snd grp)) = {0..<(case dget pe (fst grp) of None \<Rightarrow> 0 | Some n \<Rightarrow> n)})"
proof (induction groups arbitrary: sk)
  case (Cons grp groups)
  then have h: "set (dkeys (snd grp)) = {0..<(case dget pe (fst grp) of None \<Rightarrow> 0 | Some n \<Rightarrow> n)}"
    and f: "foldR (check_fused_group pe) (removeAll (fst grp) sk) groups = Inr sk'"
    by (auto simp: res_simps check_fused_group_def [of pe sk grp] validate_part_orders_def)
  show ?case using h Cons.IH [OF f] by auto
qed simp

section \<open>Claims\<close>

text \<open>Grouping the keys of a model into fused tensors loses and invents nothing: when it
  succeeds, every group holds, for each order from 0 to the number of parts its rule expects, exactly
  one key of the model that the rules map to that place; and every key is either a part of its
  group or left alone, unless the model already has a tensor of the fused name.\<close>

theorem fused_groups_partition:
  assumes "build_fused_groups keys include_bias = Inr (fused_parts, parts_expected, single_keys)"
    and "distinct keys"
  shows "(\<forall>name parts. dget fused_parts name = Some parts \<longrightarrow>
           set (dkeys parts) = {0..<(case dget parts_expected name of None \<Rightarrow> 0 | Some n \<Rightarrow> n)}
         \<and> (\<forall>order key. dget parts order = Some key \<longrightarrow> key \<in> set keys
              \<and> map_tensor_name_to_fused key include_bias =
                \<lparr>mname = name, part_order = Some order, mparts = dget parts_expected name\<rparr>))
     \<and> (\<forall>key \<in> set keys. case part_order (map_tensor_name_to_fused key include_bias) of
           Some order \<Rightarrow> \<exists>parts. dget fused_parts (mname (map_tensor_name_to_fused key include_bias)) = Some parts
              \<and> dget parts order = Some key
         | None \<Rightarrow> key \<in> set single_keys \<or> key \<in> set (dkeys fused_parts))
     \<and> set single_keys \<subseteq> set keys"
proof -
  obtain sk where f: "foldR (add_fused_key include_bias) ([], [], []) keys = Inr (fused_parts, parts_expected, sk)"
    "foldR (check_fused_group parts_expected) sk fused_parts = Inr single_keys"
    using assms(1) by (auto simp: build_fused_groups_def res_simps)
  have "groups_ok include_bias {} ([], [], [])" by (simp add: groups_ok_def)
  from build_fold_ok [OF f(1) this assms(2)] have
    ok: "groups_ok include_bias (set keys) (fused_parts, parts_expected, sk)" by simp
  note c = check_groups [OF f(2)]
  show ?thesis
  proof (intro conjI allI impI)
    fix name parts assume n: "dget fused_parts name = Some parts"
    show "set (dkeys parts) = {0..<(case dget parts_expected name of None \<Rightarrow> 0 | Some n \<Rightarrow> n)}"
      using bspec [OF conjunct2 [OF c] map_of_SomeD [OF n]] by simp
    fix order key assume "dget parts order = Some key"
    with n ok show "key \<in> set keys" "map_tensor_name_to_fused key include_bias =
        \<lparr>mname = name, part_order = Some order, mparts = dget parts_expected name\<rparr>"
      unfolding groups_ok_def by simp_all
  next
    show "\<forall>key \<in> set keys. case part_order (map_tensor_name_to_fused key include_bias) of
           Some order \<Rightarrow> \<exists>parts. dget fused_parts (mname (map_tensor_name_to_fused key include_bias)) = Some parts
              \<and> dget parts order = Some key
         | None \<Rightarrow> key \<in> set single_keys \<or> key \<in> set (dkeys fused_parts)"
      using ok c by (auto simp: groups_ok_def split: option.split)
    show "set single_keys \<subseteq> set keys" using ok c by (auto simp: groups_ok_def)
  qed
qed

theorem fused_groups_partition_witness:
  "\<exists>pe parts. build_fused_groups [''a.mlp.up_proj.weight'', ''n'', ''a.mlp.gate_proj.weight''] True =
       Inr ([(''a.mlp.gate_up_proj.weight'', parts)], pe, [''n''])
   \<and> set (dkeys parts) = {0..<2}"
proof -
  have m: "map_tensor_name_to_fused ''a.mlp.up_proj.weight'' True =
      \<lparr>mname = ''a.mlp.gate_up_proj.weight'', part_order = Some 1, mparts = Some 2\<rparr>"
    "map_tensor_name_to_fused ''a.mlp.gate_proj.weight'' True =
      \<lparr>mname = ''a.mlp.gate_up_proj.weight'', part_order = Some 0, mparts = Some 2\<rparr>"
    "map_tensor_name_to_fused ''n'' True = \<lparr>mname = ''n'', part_order = None, mparts = None\<rparr>"
    by code_simp+
  have r: "{Suc 0, 0} = {0..<2}" by auto
  let ?keys = "[''a.mlp.up_proj.weight'', ''n'', ''a.mlp.gate_proj.weight'']"
  let ?parts = "[(1, ''a.mlp.up_proj.weight''), (0, ''a.mlp.gate_proj.weight'')] :: (nat, string) dict"
  have b: "build_fused_groups ?keys True =
      Inr ([(''a.mlp.gate_up_proj.weight'', ?parts)], [(''a.mlp.gate_up_proj.weight'', 2)], [''n''])"
    by (simp add: build_fused_groups_def add_fused_key_def m Let_def check_fused_group_def
        validate_part_orders_def r)
  have "set (dkeys ?parts) = {0..<2}"
    using fused_groups_partition [OF b, THEN conjunct1, rule_format, of "''a.mlp.gate_up_proj.weight''" ?parts] by simp
  with b show ?thesis by blast
qed

end
