(* ===== verification/DeltaExtract.thy ===== *)
theory DeltaExtract
  imports Complex_Main DeltaNames
begin

text \<open>
  Extraction, reconstruction and verification of sparse deltas (\<open>utils/delta.py\<close>): which
  elements changed and by how much, the one-shot store and the streaming file built from
  them, adding a delta back to a tensor, and checking a delta against base and target. All
  floating-point arithmetic is a parameter (\<open>torch_ops\<close>). A threshold of \<open>0.0\<close> is \<open>None\<close>;
  any other is the predicate "\<open>abs(x) > threshold\<close>" on elements.
\<close>

section \<open>Changed values of one tensor\<close>

definition validate_tensor_pair :: "tensor \<Rightarrow> tensor \<Rightarrow> unit res" where
  "validate_tensor_pair base_tensor target_tensor =
     (if tshape base_tensor \<noteq> tshape target_tensor then Inl (ValueError ''shape mismatch'')
      else if tdtype base_tensor \<noteq> tdtype target_tensor then Inl (ValueError ''dtype mismatch'')
      else Inr ())"

definition nonzero :: "bool list \<Rightarrow> int list" where
  "nonzero bits = map int (filter (\<lambda>i. bits ! i) [0..<length bits])"

definition index_select :: "int list \<Rightarrow> int list \<Rightarrow> int list" where
  "index_select flat indices = map (\<lambda>i. flat ! nat i) indices"

definition wide_dtype :: "dtype \<Rightarrow> dtype" where
  "wide_dtype d = (if d = Float16 \<or> d = BFloat16 then Float32 else Float64)"

definition extract_changed_values ::
  "torch_ops \<Rightarrow> (int \<Rightarrow> bool) option \<Rightarrow> tensor \<Rightarrow> tensor \<Rightarrow> (int list \<times> tensor) res" where
  "extract_changed_values T threshold base_tensor target_tensor =
     (let d = tdtype base_tensor;
          flat_base = tdata base_tensor;
          flat_target = tdata target_tensor;
          indices = (case threshold of
              None \<Rightarrow> nonzero (map2 (\<lambda>t b. \<not> feq T d t b) flat_target flat_base)
            | Some exceeds \<Rightarrow> nonzero (map2 (\<lambda>t b. exceeds (fsub T d t b)) flat_target flat_base));
          selected_base = index_select flat_base indices;
          selected_target = index_select flat_target indices;
          values = map2 (fsub T d) selected_target selected_base
      in if list_all2 (feq T d) (map2 (fadd T d) selected_base values) selected_target
         then Inr (indices, flat_tensor d values)
         else
           let w = wide_dtype d;
               wide_values = map2 (\<lambda>t b. fsub T w (fcast T d w t) (fcast T d w b)) selected_target selected_base;
               reconstructed = map2 (\<lambda>b v. fcast T w d (fadd T w (fcast T d w b) v)) selected_base wide_values
           in if list_all2 (feq T d) reconstructed selected_target
              then Inr (indices, flat_tensor w wide_values)
              else Inl (ValueError ''weight update cannot be represented exactly as an additive sparse delta''))"

section \<open>Adding a delta back\<close>

fun index_copy :: "int list \<Rightarrow> int list \<Rightarrow> int list \<Rightarrow> int list" where
  "index_copy flat (i # indices) (v # values) = index_copy (flat[nat i := v]) indices values"
| "index_copy flat _ _ = flat"

text \<open>\<open>flat.index_select(0, indices).to(promote_types(flat.dtype, values.dtype)) + values\<close>,
  stored back in the dtype of \<open>flat\<close>.\<close>

definition add_values :: "torch_ops \<Rightarrow> dtype \<Rightarrow> int list \<Rightarrow> int list \<Rightarrow> dtype \<Rightarrow> int list \<Rightarrow> int list" where
  "add_values T d flat indices vd values =
     (let p = promote T d vd in
      map2 (\<lambda>b v. fcast T p d (fadd T p (fcast T d p b) (fcast T vd p v))) (index_select flat indices) values)"

definition indices_in_range :: "int list \<Rightarrow> nat \<Rightarrow> bool" where
  "indices_in_range indices n \<longleftrightarrow> \<not> (Min (set indices) < 0 \<or> Max (set indices) \<ge> int n)"

text \<open>A \<open>scale_factor\<close> of \<open>1.0\<close> is \<open>None\<close>.\<close>

definition scale_values :: "torch_ops \<Rightarrow> int option \<Rightarrow> dtype \<Rightarrow> int list \<Rightarrow> int list" where
  "scale_values T scale_factor vd values =
     (case scale_factor of None \<Rightarrow> values | Some s \<Rightarrow> map (\<lambda>v. fmul T vd v s) values)"

definition reconstruct_sparse_delta_tensor ::
  "torch_ops \<Rightarrow> int option \<Rightarrow> tensor \<Rightarrow> tensor \<Rightarrow> tensor \<Rightarrow> tensor res" where
  "reconstruct_sparse_delta_tensor T scale_factor base_tensor encoded_indices values =
     bindR (decode_sparse_indices encoded_indices (numel values)) (\<lambda>indices.
       if indices = [] then Inr base_tensor
       else if \<not> indices_in_range indices (numel base_tensor)
       then Inl (ValueError ''sparse delta index out of range'')
       else
         let delta_values = scale_values T scale_factor (tdtype values) (tdata values);
             updated = add_values T (tdtype base_tensor) (tdata base_tensor) indices (tdtype values) delta_values
         in Inr (base_tensor\<lparr>tdata := index_copy (tdata base_tensor) indices updated\<rparr>))"

section \<open>One-shot extraction\<close>

record delta_stats =
  total_params :: nat
  changed_params :: nat
  total_bytes :: nat

definition cat_tensors :: "torch_ops \<Rightarrow> tensor list \<Rightarrow> tensor res" where
  "cat_tensors T ts =
     (case ts of [] \<Rightarrow> Inl (RuntimeError ''expected a non-empty list of tensors'')
      | first # rest \<Rightarrow>
          if tshape first = [] then Inl (RuntimeError ''zero-dimensional tensor cannot be concatenated'')
          else
            let d = foldl (\<lambda>d t. promote T d (tdtype t)) (tdtype first) rest
            in Inr \<lparr>tdtype = d, tshape = sum_list (map (hd \<circ> tshape) ts) # tl (tshape first),
                    tdata = concat (map (\<lambda>t. map (fcast T (tdtype t) d) (tdata t)) ts)\<rparr>)"

definition add_sparse_tensor ::
  "torch_ops \<Rightarrow> (string, tensor) dict \<Rightarrow> string \<Rightarrow> int list list \<Rightarrow> tensor list \<Rightarrow> string \<Rightarrow>
   (string, tensor) dict res" where
  "add_sparse_tensor T delta_tensors name index_chunks value_chunks index_encoding =
     (if length index_chunks \<noteq> length value_chunks
      then Inl (ValueError ''index/value chunks mismatch'')
      else
        bindR (case value_chunks of [chunk] \<Rightarrow> Inr chunk | _ \<Rightarrow> cat_tensors T value_chunks) (\<lambda>values.
        bindR (encode_sparse_indices (concat index_chunks) index_encoding) (\<lambda>encoded.
          Inr (dput (name @ val_suffix) values (dput (name @ idx_suffix) encoded delta_tensors)))))"

record extract_state =
  x_tensors :: "(string, tensor) dict"
  x_shapes :: "(string, nat list) dict"
  x_stats :: delta_stats

definition extract_key ::
  "torch_ops \<Rightarrow> (int \<Rightarrow> bool) option \<Rightarrow> string \<Rightarrow> bool \<Rightarrow> store \<Rightarrow> store \<Rightarrow> extract_state \<Rightarrow> string \<Rightarrow>
   extract_state res" where
  "extract_key T threshold index_encoding collect_stats base target st key =
     bindR (get_tensor base key) (\<lambda>base_tensor.
     bindR (get_tensor target key) (\<lambda>target_tensor.
     bindR (validate_tensor_pair base_tensor target_tensor) (\<lambda>_.
       let st = (if collect_stats
                 then st\<lparr>x_stats := (x_stats st)
                           \<lparr>total_params := total_params (x_stats st) + numel base_tensor,
                            total_bytes := total_bytes (x_stats st)
                              + numel base_tensor * element_size (tdtype base_tensor)\<rparr>\<rparr>
                 else st)
       in bindR (extract_changed_values T threshold base_tensor target_tensor) (\<lambda>(indices, values).
            if indices = [] then Inr st
            else
              let st = st\<lparr>x_stats := (x_stats st)
                           \<lparr>changed_params := changed_params (x_stats st) + length indices\<rparr>,
                         x_shapes := dput key (tshape base_tensor) (x_shapes st)\<rparr>
              in bindR (add_sparse_tensor T (x_tensors st) key [indices] [values] index_encoding)
                   (\<lambda>tensors. Inr (st\<lparr>x_tensors := tensors\<rparr>))))))"

definition init_extract :: extract_state where
  "init_extract = \<lparr>x_tensors = [], x_shapes = [],
     x_stats = \<lparr>total_params = 0, changed_params = 0, total_bytes = 0\<rparr>\<rparr>"

text \<open>The saved safetensors file is the store it is read back as.\<close>

definition extract_sparse_delta_from_stores ::
  "torch_ops \<Rightarrow> (int \<Rightarrow> bool) option \<Rightarrow> string \<Rightarrow> bool \<Rightarrow> bool \<Rightarrow> store \<Rightarrow> store \<Rightarrow>
   (store \<times> delta_stats option) res" where
  "extract_sparse_delta_from_stores T threshold index_encoding include_bias collect_stats base target =
     bindR (validated_model_keys T base target include_bias) (\<lambda>keys.
     bindR (foldR (extract_key T threshold index_encoding collect_stats base target) init_extract (sort keys))
       (\<lambda>st. Inr (\<lparr>store_tensors = x_tensors st, store_meta = logical_delta_metadata (x_shapes st)\<rparr>,
                  if collect_stats then Some (x_stats st) else None)))"

section \<open>Streaming extraction\<close>

text \<open>
  The writer's file, the lengths at which it was flushed (what an uploader is guaranteed to
  see), and the counters.
\<close>

record stream_state =
  s_file :: "byte list"
  s_flushed :: "nat list"
  s_stats :: delta_stats

definition flush_writer :: "stream_state \<Rightarrow> stream_state" where
  "flush_writer st = st\<lparr>s_flushed := s_flushed st @ [length (s_file st)]\<rparr>"

definition stream_one ::
  "torch_ops \<Rightarrow> string \<Rightarrow> store \<Rightarrow> store \<Rightarrow> stream_state \<Rightarrow> string \<Rightarrow> stream_state \<times> unit res" where
  "stream_one T index_encoding base target st name =
     (case bindR (get_tensor base name) (\<lambda>base_tensor.
           bindR (get_tensor target name) (\<lambda>target_tensor.
           bindR (validate_tensor_pair base_tensor target_tensor) (\<lambda>_.
             Inr (base_tensor, target_tensor)))) of
        Inl e \<Rightarrow> (st, Inl e)
      | Inr (base_tensor, target_tensor) \<Rightarrow>
          let st = st\<lparr>s_stats := (s_stats st)
                        \<lparr>total_params := total_params (s_stats st) + numel base_tensor,
                         total_bytes := total_bytes (s_stats st)
                           + numel base_tensor * element_size (tdtype base_tensor)\<rparr>\<rparr>
          in case extract_changed_values T None base_tensor target_tensor of
               Inl e \<Rightarrow> (st, Inl e)
             | Inr (indices, values) \<Rightarrow>
                 if indices = [] then (st, Inr ())
                 else
                   let st = st\<lparr>s_stats := (s_stats st)
                                 \<lparr>changed_params := changed_params (s_stats st) + length indices\<rparr>\<rparr>;
                       (file, r) = write_record (s_file st) name (tshape base_tensor) indices values index_encoding
                   in (st\<lparr>s_file := file\<rparr>, r))"

fun stream_loop ::
  "torch_ops \<Rightarrow> string \<Rightarrow> nat \<Rightarrow> store \<Rightarrow> store \<Rightarrow> stream_state \<Rightarrow> string list \<Rightarrow> stream_state \<times> unit res" where
  "stream_loop T index_encoding group_size base target st [] = (st, Inr ())"
| "stream_loop T index_encoding group_size base target st (name # names) =
     (case stream_one T index_encoding base target st name of
        (st, Inl e) \<Rightarrow> (st, Inl e)
      | (st, Inr _) \<Rightarrow>
          let current_group = stream_group_id name group_size;
              next_group = (case names of [] \<Rightarrow> None | n # _ \<Rightarrow> stream_group_id n group_size);
              st = (if group_size = 0 \<or> current_group = None \<or> current_group \<noteq> next_group
                    then flush_writer st else st)
          in stream_loop T index_encoding group_size base target st names)"

definition open_writer :: stream_state where
  "open_writer = \<lparr>s_file = stream_header, s_flushed = [length stream_header],
     s_stats = \<lparr>total_params = 0, changed_params = 0, total_bytes = 0\<rparr>\<rparr>"

text \<open>\<open>None\<close> for the state means the writer was never opened; closing the writer flushes it.\<close>

definition extract_sparse_delta_streaming_from_stores ::
  "torch_ops \<Rightarrow> string \<Rightarrow> int \<Rightarrow> bool \<Rightarrow> store \<Rightarrow> store \<Rightarrow>
   stream_state option \<times> delta_stats option res" where
  "extract_sparse_delta_streaming_from_stores T index_encoding group_size collect_stats base target =
     (if group_size < 0 then (None, Inl (ValueError ''streaming delta group_size must be non-negative''))
      else case validated_model_keys T base target True of
        Inl e \<Rightarrow> (None, Inl e)
      | Inr keys \<Rightarrow>
          let record_names = sort_key stream_record_order keys in
          case stream_loop T index_encoding (nat group_size) base target open_writer record_names of
            (st, Inl e) \<Rightarrow> (Some (flush_writer st), Inl e)
          | (st, Inr _) \<Rightarrow>
              (Some (flush_writer st), Inr (if collect_stats then Some (s_stats st) else None)))"

section \<open>Verification\<close>

record verify_ops =
  max_abs_diff :: "tensor \<Rightarrow> tensor \<Rightarrow> rat"
  allclose :: "tensor \<Rightarrow> tensor \<Rightarrow> bool res"

record delta_verification =
  v_max_diff :: rat
  v_mismatches :: "(string \<times> rat) list"

definition verification_ok :: "delta_verification \<Rightarrow> bool" where
  "verification_ok v \<longleftrightarrow> length (v_mismatches v) = 0"

definition load_fused_tensor :: "torch_ops \<Rightarrow> store \<Rightarrow> (nat, string) dict \<Rightarrow> tensor res" where
  "load_fused_tensor T s parts =
     bindR (validate_part_orders (dkeys parts) (length parts)) (\<lambda>_.
     bindR (mapR (get_tensor s) (map snd (sort_key fst parts))) (\<lambda>tensors.
     bindR (validate_fused_shapes (map tshape tensors)) (\<lambda>_.
       cat_tensors T tensors)))"

definition load_named :: "torch_ops \<Rightarrow> (string, (nat, string) dict) dict \<Rightarrow> store \<Rightarrow> string \<Rightarrow> tensor res" where
  "load_named T fused_parts s name =
     (case dget fused_parts name of Some parts \<Rightarrow> load_fused_tensor T s parts | None \<Rightarrow> get_tensor s name)"

definition names_with :: "string \<Rightarrow> string list \<Rightarrow> string list" where
  "names_with suffix keys = map (\<lambda>k. take (length k - length suffix) k) (filter (\<lambda>k. endswith k suffix) keys)"

definition reconstruct_named ::
  "torch_ops \<Rightarrow> bool \<Rightarrow> string list \<Rightarrow> (string, nat list) dict \<Rightarrow> store \<Rightarrow> string \<Rightarrow> tensor \<Rightarrow> tensor res" where
  "reconstruct_named T logical_layout idx_names shapes delta name base_tensor =
     (if name \<in> set idx_names then
        (if logical_layout \<and> dget shapes name \<noteq> Some (tshape base_tensor)
         then Inl (ValueError ''logical delta shape mismatch'')
         else bindR (get_tensor delta (name @ idx_suffix)) (\<lambda>idx.
              bindR (get_tensor delta (name @ val_suffix)) (\<lambda>val.
                reconstruct_sparse_delta_tensor T None base_tensor idx val)))
      else Inr base_tensor)"

definition verify_one ::
  "torch_ops \<Rightarrow> verify_ops \<Rightarrow> (string, (nat, string) dict) dict \<Rightarrow> bool \<Rightarrow> string list \<Rightarrow> (string, nat list) dict \<Rightarrow>
   nat \<Rightarrow> store \<Rightarrow> store \<Rightarrow> store \<Rightarrow> delta_verification \<Rightarrow> string \<Rightarrow> delta_verification res" where
  "verify_one T V fused_parts logical_layout idx_names shapes report_limit base target delta acc name =
     bindR (load_named T fused_parts base name) (\<lambda>base_tensor.
     bindR (load_named T fused_parts target name) (\<lambda>target_tensor.
       if tshape base_tensor \<noteq> tshape target_tensor then Inl (ValueError ''shape mismatch'')
       else
         bindR (reconstruct_named T logical_layout idx_names shapes delta name base_tensor) (\<lambda>reconstructed.
           let diff_max = (if numel reconstructed = 0 then 0 else max_abs_diff V reconstructed target_tensor)
           in bindR (allclose V reconstructed target_tensor) (\<lambda>close.
              Inr \<lparr>v_max_diff = max (v_max_diff acc) diff_max,
                   v_mismatches =
                     (if \<not> close \<and> length (v_mismatches acc) < report_limit
                      then v_mismatches acc @ [(name, diff_max)] else v_mismatches acc)\<rparr>))))"

definition verify_sparse_delta_stores ::
  "torch_ops \<Rightarrow> verify_ops \<Rightarrow> int \<Rightarrow> bool \<Rightarrow> store \<Rightarrow> store \<Rightarrow> store \<Rightarrow> delta_verification res" where
  "verify_sparse_delta_stores T V max_report include_bias base target delta =
     bindR (ensure (\<not> looks_like_delta (store_keys base)) (ValueError ''--base looks like a sparse delta file'')) (\<lambda>_.
     bindR (ensure (\<not> looks_like_delta (store_keys target)) (ValueError ''--target looks like a sparse delta file'')) (\<lambda>_.
     bindR (ensure (looks_like_delta (store_keys delta) \<or> is_sparse_delta_store delta)
              (ValueError ''--delta does not look like a sparse delta file'')) (\<lambda>_.
     bindR (validated_model_keys T base target include_bias) (\<lambda>model_keys.
       let delta_format = meta_format (store_meta delta);
           logical_layout = (delta_format = Some format_v2) in
     bindR (ensure (delta_format \<in> {None, Some format_v1, Some format_v2})
              (ValueError ''unsupported sparse delta format'')) (\<lambda>_.
     bindR (ensure (\<not> (logical_layout \<and> meta_layout (store_meta delta) \<noteq> Some layout_logical))
              (ValueError ''unsupported logical sparse delta layout'')) (\<lambda>_.
     bindR (if logical_layout then Inr ([], model_keys)
            else bindR (build_fused_groups model_keys include_bias)
                   (\<lambda>(fused_parts, _, single_keys). Inr (fused_parts, single_keys @ dkeys fused_parts)))
       (\<lambda>(fused_parts, all_names).
       let idx_names = names_with idx_suffix (store_keys delta);
           val_names = names_with val_suffix (store_keys delta) in
     bindR (ensure (set idx_names = set val_names) (ValueError ''delta index/value names mismatch'')) (\<lambda>_.
     bindR (ensure (set idx_names \<subseteq> set all_names) (ValueError ''delta has names not present in the model'')) (\<lambda>_.
     bindR (if logical_layout then sparse_delta_shapes (store_meta delta) else Inr []) (\<lambda>shapes.
     bindR (ensure (\<not> (logical_layout \<and> set (dkeys shapes) \<noteq> set idx_names))
              (ValueError ''logical delta shape/name mismatch'')) (\<lambda>_.
       foldR (verify_one T V fused_parts logical_layout idx_names shapes (nat (max max_report 1)) base target delta)
         \<lparr>v_max_diff = 0, v_mismatches = []\<rparr> (sort (remdups all_names)))))))))))))"

definition count_sparse_delta_values :: "byte list + store \<Rightarrow> nat res" where
  "count_sparse_delta_values delta =
     (case delta of
        Inl file \<Rightarrow>
          (case iter_streaming_delta_records file of
             (_, Some e) \<Rightarrow> Inl e
           | (records, None) \<Rightarrow> Inr (sum_list (map (numel \<circ> rvalues) records)))
      | Inr s \<Rightarrow> Inr (sum_list (map (numel \<circ> snd) (filter (\<lambda>p. endswith (fst p) val_suffix) (store_tensors s)))))"

section \<open>One tensor: what extraction guarantees\<close>

lemma set_nonzero: "set (nonzero bits) = {int i | i. i < length bits \<and> bits ! i}"
  by (auto simp: nonzero_def)

lemma sorted_nonzero: "sorted (nonzero bits) \<and> distinct (nonzero bits)"
proof -
  have "sorted_wrt (<) (filter (\<lambda>i. bits ! i) [0..<length bits])"
    by (simp add: sorted_wrt_filter)
  then have "sorted_wrt (<) (nonzero bits)"
    by (simp add: nonzero_def sorted_wrt_map)
  then show ?thesis by (simp add: strict_sorted_iff)
qed

lemma length_index_copy [simp]: "length (index_copy flat indices vs) = length flat"
  by (induction flat indices vs rule: index_copy.induct) auto

lemma nth_index_copy_map:
  "\<forall>i \<in> set indices. 0 \<le> i \<Longrightarrow> k < length flat \<Longrightarrow>
   index_copy flat indices (map g indices) ! k = (if int k \<in> set indices then g (int k) else flat ! k)"
proof (induction indices arbitrary: flat)
  case (Cons i indices)
  then show ?case
    by (cases "int k = i") (auto simp: nth_list_update)
qed simp

definition add_one :: "torch_ops \<Rightarrow> dtype \<Rightarrow> dtype \<Rightarrow> int \<Rightarrow> int \<Rightarrow> int" where
  "add_one T d vd b v =
     (let p = promote T d vd in fcast T p d (fadd T p (fcast T d p b) (fcast T vd p v)))"

lemma add_values_map:
  "add_values T d flat indices vd (map f indices) = map (\<lambda>i. add_one T d vd (flat ! nat i) (f i)) indices"
  by (simp add: add_values_def add_one_def index_select_def map2_map_map Let_def)

lemma promote_wide:
  "torch_ok T \<Longrightarrow> dtype_to_code d \<noteq> None \<Longrightarrow> promote T d (wide_dtype d) = wide_dtype d"
  by (cases d) (auto simp: torch_ok_def wide_dtype_def)

lemma list_all2_map_map: "list_all2 P (map f xs) (map g xs) \<longleftrightarrow> (\<forall>x \<in> set xs. P (f x) (g x))"
  by (induction xs) auto

lemma extract_Inr:
  assumes T: "torch_ok T" and c: "dtype_to_code (tdtype b) \<noteq> None"
    and e: "extract_changed_values T th b t = Inr (indices, vs)"
  obtains f where "tdata vs = map f indices" "vs = flat_tensor (tdtype vs) (tdata vs)"
    "dtype_to_code (tdtype vs) \<noteq> None" "list_all (elem_ok (tdtype vs)) (tdata vs)"
    "\<And>i. i \<in> set indices \<Longrightarrow>
       feq T (tdtype b) (add_one T (tdtype b) (tdtype vs) (tdata b ! nat i) (f i)) (tdata t ! nat i)"
proof -
  let ?d = "tdtype b" and ?w = "wide_dtype (tdtype b)"
  let ?b = "\<lambda>i. tdata b ! nat i" and ?t = "\<lambda>i. tdata t ! nat i"
  consider (same) "vs = flat_tensor ?d (map (\<lambda>i. fsub T ?d (?t i) (?b i)) indices)"
      "\<forall>i \<in> set indices. feq T ?d (fadd T ?d (?b i) (fsub T ?d (?t i) (?b i))) (?t i)"
    | (wide) "vs = flat_tensor ?w (map (\<lambda>i. fsub T ?w (fcast T ?d ?w (?t i)) (fcast T ?d ?w (?b i))) indices)"
      "\<forall>i \<in> set indices. feq T ?d (fcast T ?w ?d (fadd T ?w (fcast T ?d ?w (?b i))
          (fsub T ?w (fcast T ?d ?w (?t i)) (fcast T ?d ?w (?b i))))) (?t i)"
    using e unfolding extract_changed_values_def Let_def index_select_def map2_map_map list_all2_map_map
    by (auto split: if_split_asm)
  then show ?thesis
  proof cases
    case same
    show ?thesis
      by (rule that [of "\<lambda>i. fsub T ?d (?t i) (?b i)"])
        (use same c T in \<open>simp_all add: add_one_def Let_def torch_ok_promote_self torch_ok_cast_self list_all_iff torch_ok_fsub\<close>)
  next
    case wide
    have w: "dtype_to_code ?w \<noteq> None" by (simp add: wide_dtype_def)
    show ?thesis
      by (rule that [of "\<lambda>i. fsub T ?w (fcast T ?d ?w (?t i)) (fcast T ?d ?w (?b i))"])
        (use wide w c T in \<open>simp_all add: add_one_def Let_def promote_wide torch_ok_cast_self list_all_iff torch_ok_fsub\<close>)
  qed
qed

lemma extract_indices:
  assumes "extract_changed_values T None b t = Inr (indices, vs)" and "length (tdata b) = length (tdata t)"
  shows "sorted indices" "distinct indices"
    "set indices = {int i | i. i < length (tdata b) \<and> \<not> feq T (tdtype b) (tdata t ! i) (tdata b ! i)}"
proof -
  have i: "indices = nonzero (map2 (\<lambda>t b'. \<not> feq T (tdtype b) t b') (tdata t) (tdata b))"
    using assms(1) by (auto simp: extract_changed_values_def Let_def split: if_split_asm)
  show "sorted indices" "distinct indices"
    using sorted_nonzero i by auto
  show "set indices = {int i | i. i < length (tdata b) \<and> \<not> feq T (tdtype b) (tdata t ! i) (tdata b ! i)}"
    using assms(2) by (auto simp: i set_nonzero)
qed

lemma extracted_int64:
  assumes "extract_changed_values T None b t = Inr (indices, vs)" and "length (tdata b) = length (tdata t)"
    and "numel b < 2 ^ 63"
  shows "int64_indices indices"
proof -
  have "int i < 2 ^ 63" if "i < numel b" for i
    using that assms(3) of_nat_less_iff [of i "2 ^ 63", where ?'a = int] by simp
  then show ?thesis
    using extract_indices [OF assms(1,2)] by (auto simp: int64_indices_def numel_def)
qed

text \<open>A pair of tensors extraction is meant for: well formed, comparable, of a dtype that can be stored.\<close>

definition pair_ok :: "tensor \<Rightarrow> tensor \<Rightarrow> bool" where
  "pair_ok b t \<longleftrightarrow> tensor_wf b \<and> tensor_wf t \<and> numel b < 2 ^ 63 \<and> dtype_to_code (tdtype b) \<noteq> None"

lemma pair_lengths:
  "pair_ok b t \<Longrightarrow> validate_tensor_pair b t = Inr () \<Longrightarrow>
   length (tdata t) = length (tdata b) \<and> tshape t = tshape b \<and> tdtype t = tdtype b"
  by (auto simp: pair_ok_def validate_tensor_pair_def tensor_wf_def split: if_split_asm)

lemma in_range_iff:
  "indices \<noteq> [] \<Longrightarrow> indices_in_range indices n \<longleftrightarrow> (\<forall>i \<in> set indices. 0 \<le> i \<and> i < int n)"
  by (auto simp: indices_in_range_def not_less not_le)

lemma reconstruct_extracted:
  assumes T: "torch_ok T" and p: "pair_ok b t" and v: "validate_tensor_pair b t = Inr ()"
    and e: "extract_changed_values T None b t = Inr (indices, vs)"
    and dec: "decode_sparse_indices enc (length indices) = Inr indices"
  shows "\<exists>out. reconstruct_sparse_delta_tensor T None b enc vs = Inr out \<and> tensor_equal T out t = Inr True"
proof -
  note len = pair_lengths [OF p v]
  note idx = extract_indices [OF e conjunct1 [OF len, symmetric]]
  have c: "dtype_to_code (tdtype b) \<noteq> None" using p by (simp add: pair_ok_def)
  obtain f where f: "tdata vs = map f indices"
    "\<And>i. i \<in> set indices \<Longrightarrow>
       feq T (tdtype b) (add_one T (tdtype b) (tdtype vs) (tdata b ! nat i) (f i)) (tdata t ! nat i)"
    using extract_Inr [OF T c e] by metis
  have n: "numel vs = length indices" by (simp add: numel_def f(1))
  have unchanged: "feq T (tdtype b) (tdata b ! i) (tdata t ! i)"
    if "i < length (tdata b)" "int i \<notin> set indices" for i
    using that idx(3) torch_ok_feq_sym [OF T] by blast
  show ?thesis
  proof (cases "indices = []")
    case True
    then show ?thesis
      using dec len unchanged
      by (auto simp: reconstruct_sparse_delta_tensor_def n tensor_equal_def list_all2_conv_all_nth)
  next
    case False
    have r: "indices_in_range indices (numel b)"
      using False idx(3) by (auto simp: in_range_iff numel_def)
    have z: "\<forall>i \<in> set indices. 0 \<le> i" using idx(3) by auto
    define g where "g = (\<lambda>i. add_one T (tdtype b) (tdtype vs) (tdata b ! nat i) (f i))"
    have "feq T (tdtype b) (index_copy (tdata b) indices (map g indices) ! i) (tdata t ! i)"
      if "i < length (tdata b)" for i
      using that unchanged [OF that] f(2) [of "int i"] nth_index_copy_map [OF z that, of g]
      by (auto simp: g_def)
    then have "list_all2 (feq T (tdtype b)) (index_copy (tdata b) indices (map g indices)) (tdata t)"
      using len by (simp add: list_all2_conv_all_nth)
    then show ?thesis
      using False dec r len
      by (auto simp: reconstruct_sparse_delta_tensor_def n scale_values_def Let_def f(1) add_values_map
          tensor_equal_def g_def)
  qed
qed

lemma encode_decode:
  "int64_indices xs \<Longrightarrow> encode_sparse_indices xs encoding = Inr enc \<Longrightarrow>
   decode_sparse_indices enc (length xs) = Inr xs"
  using optimized.dec_enc [of xs enc] naive.dec_enc [of xs enc]
  by (auto simp: encode_sparse_indices_def split: if_splits)

section \<open>A streaming file holds exactly what changed\<close>

text \<open>The records of a file that faithfully describes \<open>names\<close>: one per tensor with a change, in order.\<close>

definition changed :: "torch_ops \<Rightarrow> store \<Rightarrow> store \<Rightarrow> string \<Rightarrow> bool" where
  "changed T base target name \<longleftrightarrow>
     (\<exists>b t indices vs. get_tensor base name = Inr b \<and> get_tensor target name = Inr t \<and>
        extract_changed_values T None b t = Inr (indices, vs) \<and> indices \<noteq> [])"

definition describes :: "torch_ops \<Rightarrow> store \<Rightarrow> store \<Rightarrow> stream_record \<Rightarrow> bool" where
  "describes T base target r \<longleftrightarrow>
     (\<exists>b t indices vs. get_tensor base (rname r) = Inr b \<and> get_tensor target (rname r) = Inr t \<and>
        validate_tensor_pair b t = Inr () \<and>
        extract_changed_values T None b t = Inr (indices, vs) \<and> indices \<noteq> [] \<and>
        rversion r = 2 \<and> rshape r = Some (tshape b) \<and> rvalues r = vs \<and>
        decode_sparse_indices (rindices r) (length indices) = Inr indices)"

definition stores_ok :: "store \<Rightarrow> store \<Rightarrow> string list \<Rightarrow> bool" where
  "stores_ok base target names \<longleftrightarrow>
     (\<forall>name \<in> set names. utf8_ok (encode_utf8 name) \<and>
        (\<forall>b t. get_tensor base name = Inr b \<longrightarrow> get_tensor target name = Inr t \<longrightarrow> pair_ok b t))"

definition file_of :: "torch_ops \<Rightarrow> store \<Rightarrow> store \<Rightarrow> string list \<Rightarrow> byte list \<Rightarrow> bool" where
  "file_of T base target names file \<longleftrightarrow>
     streaming_delta_version file = Inr 2 \<and>
     (\<exists>rs. iter_streaming_delta_records file = (rs, None) \<and>
        map rname rs = filter (changed T base target) names \<and> (\<forall>r \<in> set rs. describes T base target r))"

lemma file_of_header: "file_of T base target [] stream_header"
proof -
  have "iter_streaming_delta_records stream_header = ([], None)"
    using version_of_header [of "[]"]
    by (simp add: iter_streaming_delta_records_def stream_header_def stream_magic_def read_records.simps)
  then show ?thesis
    using version_of_header [of "[]"] by (simp add: file_of_def)
qed

definition valid_pair :: "torch_ops \<Rightarrow> store \<Rightarrow> store \<Rightarrow> string \<Rightarrow> bool" where
  "valid_pair T base target name \<longleftrightarrow>
     (\<exists>b t indices vs. get_tensor base name = Inr b \<and> get_tensor target name = Inr t \<and>
        validate_tensor_pair b t = Inr () \<and> extract_changed_values T None b t = Inr (indices, vs))"

lemma write_record_append:
  "write_record file name sh is vs enc = (file', r) \<Longrightarrow> \<exists>g. file' = file @ g"
  by (auto simp: write_record_def res_simps split: sum.splits)

lemma stream_one_Inr:
  assumes "stream_one T enc base target st name = (st', Inr ())"
  obtains b t indices vs where "get_tensor base name = Inr b" "get_tensor target name = Inr t"
    "validate_tensor_pair b t = Inr ()" "extract_changed_values T None b t = Inr (indices, vs)"
    "indices = [] \<and> s_file st' = s_file st \<and> s_flushed st' = s_flushed st \<or>
     indices \<noteq> [] \<and> write_record (s_file st) name (tshape b) indices vs enc = (s_file st', Inr ())
       \<and> s_flushed st' = s_flushed st"
  using assms
  by (auto simp: stream_one_def res_simps Let_def split: sum.split_asm if_split_asm prod.split_asm)

lemma file_of_step:
  assumes T: "torch_ok T" and s: "stream_one T enc base target st name = (st', Inr ())"
    and ok: "stores_ok base target [name]"
    and f: "file_of T base target names (s_file st)" and l: "length (s_file st') < 2 ^ 63"
  shows "file_of T base target (names @ [name]) (s_file st') \<and> valid_pair T base target name
       \<and> s_flushed st' = s_flushed st"
proof -
  obtain b t indices vs where x: "get_tensor base name = Inr b" "get_tensor target name = Inr t"
    "validate_tensor_pair b t = Inr ()" "extract_changed_values T None b t = Inr (indices, vs)"
    "indices = [] \<and> s_file st' = s_file st \<and> s_flushed st' = s_flushed st \<or>
     indices \<noteq> [] \<and> write_record (s_file st) name (tshape b) indices vs enc = (s_file st', Inr ())
       \<and> s_flushed st' = s_flushed st"
    using s by (rule stream_one_Inr)
  have v: "valid_pair T base target name" using x by (auto simp: valid_pair_def)
  from ok x have p: "pair_ok b t" and u: "utf8_ok (encode_utf8 name)" by (auto simp: stores_ok_def)
  obtain rs where rs: "streaming_delta_version (s_file st) = Inr 2"
    "iter_streaming_delta_records (s_file st) = (rs, None)"
    "map rname rs = filter (changed T base target) names" "\<forall>r \<in> set rs. describes T base target r"
    using f by (auto simp: file_of_def)
  from x(5) show ?thesis
  proof (elim disjE conjE)
    assume "indices = []" and same: "s_file st' = s_file st" and fl: "s_flushed st' = s_flushed st"
    then have "\<not> changed T base target name" using x by (auto simp: changed_def)
    then show ?thesis using rs same fl v by (auto simp: file_of_def)
  next
    assume i: "indices \<noteq> []" and fl: "s_flushed st' = s_flushed st"
      and w: "write_record (s_file st) name (tshape b) indices vs enc = (s_file st', Inr ())"
    have len: "length (tdata b) = length (tdata t)" using pair_lengths [OF p x(3)] by simp
    have i64: "int64_indices indices"
      using extracted_int64 [OF x(4) len] p by (simp add: pair_ok_def)
    have c: "dtype_to_code (tdtype b) \<noteq> None" using p by (simp add: pair_ok_def)
    have vs: "vs = flat_tensor (tdtype vs) (tdata vs)" "list_all (elem_ok (tdtype vs)) (tdata vs)"
      using extract_Inr [OF T c x(4)] by metis+
    obtain e where e: "encode_sparse_indices indices enc = Inr e"
      "read_record 2 (drop (length (s_file st)) (s_file st') @ []) =
         Inr (\<lparr>rname = name, rshape = Some (tshape b), rindices = flat_tensor (tdtype e) (tdata e),
               rvalues = flat_tensor (tdtype vs) (tdata vs), rversion = 2\<rparr>, [])"
      "take (length (s_file st)) (s_file st') = s_file st" "length (s_file st) < length (s_file st')"
      using read_written_record [OF w u i64 vs(2) l] by metis
    let ?r = "\<lparr>rname = name, rshape = Some (tshape b), rindices = flat_tensor (tdtype e) (tdata e),
               rvalues = flat_tensor (tdtype vs) (tdata vs), rversion = 2\<rparr>"
    have it: "iter_streaming_delta_records (s_file st') = (rs @ [?r], None)"
      using iter_append_record [OF rs(2,1) e(3) _ e(4)] e(2) by simp
    have d: "describes T base target ?r"
      using x i vs(1) encode_decode [OF i64 e(1)]
      by (auto simp: describes_def decode_sparse_flat)
    have ch: "changed T base target name" using x i by (auto simp: changed_def)
    obtain g where g: "s_file st' = s_file st @ g" using write_record_append [OF w] by blast
    have "12 \<le> length (s_file st)" using rs(1) version_short [of "s_file st"] by fastforce
    then have "streaming_delta_version (s_file st') = Inr 2" using rs(1) by (simp add: g version_header)
    then show ?thesis
      using it d ch rs fl v unfolding file_of_def by auto
  qed
qed

lemma stream_one_grows: "stream_one T enc base target st name = (st', r) \<Longrightarrow> \<exists>g. s_file st' = s_file st @ g"
  by (auto simp: stream_one_def Let_def split: sum.splits if_split_asm prod.splits dest!: write_record_append)

lemma flush_writer_simps [simp]:
  "s_file (flush_writer st) = s_file st" "s_stats (flush_writer st) = s_stats st"
  "s_flushed (flush_writer st) = s_flushed st @ [length (s_file st)]"
  by (simp_all add: flush_writer_def)

definition after_group :: "nat \<Rightarrow> string \<Rightarrow> string list \<Rightarrow> stream_state \<Rightarrow> stream_state" where
  "after_group group_size name names st =
     (if group_size = 0 \<or> stream_group_id name group_size = None \<or>
         stream_group_id name group_size \<noteq>
           (case names of [] \<Rightarrow> None | n # _ \<Rightarrow> stream_group_id n group_size)
      then flush_writer st else st)"

lemma after_group_file [simp]: "s_file (after_group gs name names st) = s_file st"
  by (simp add: after_group_def)

lemma stream_loop_Cons:
  "stream_loop T enc gs base target st (name # names) =
     (case stream_one T enc base target st name of
        (st1, Inl e) \<Rightarrow> (st1, Inl e)
      | (st1, Inr _) \<Rightarrow> stream_loop T enc gs base target (after_group gs name names st1) names)"
  unfolding stream_loop.simps after_group_def Let_def
  by (rule refl)

declare stream_loop.simps(2) [simp del]

lemma stream_loop_grows:
  "stream_loop T enc gs base target st names = (st', r) \<Longrightarrow> \<exists>g. s_file st' = s_file st @ g"
proof (induction names arbitrary: st)
  case (Cons name names)
  obtain st1 q where one: "stream_one T enc base target st name = (st1, q)" by fastforce
  obtain g where g: "s_file st1 = s_file st @ g" using stream_one_grows [OF one] by blast
  show ?case
  proof (cases q)
    case (Inl e)
    then show ?thesis using Cons.prems one g by (auto simp: stream_loop_Cons)
  next
    case (Inr u)
    then have "stream_loop T enc gs base target (after_group gs name names st1) names = (st', r)"
      using Cons.prems one by (simp add: stream_loop_Cons)
    from Cons.IH [OF this] g show ?thesis by auto
  qed
qed simp

definition flushes_ok :: "torch_ops \<Rightarrow> store \<Rightarrow> store \<Rightarrow> stream_state \<Rightarrow> bool" where
  "flushes_ok T base target st \<longleftrightarrow>
     (\<forall>n \<in> set (s_flushed st). n \<le> length (s_file st) \<and>
        (\<exists>names. file_of T base target names (take n (s_file st))))"

lemma flushes_ok_append:
  "flushes_ok T base target st \<Longrightarrow> s_file st' = s_file st @ g \<Longrightarrow> s_flushed st' = s_flushed st \<Longrightarrow>
   flushes_ok T base target st'"
  by (auto simp: flushes_ok_def)

lemma flushes_ok_flush:
  "flushes_ok T base target st \<Longrightarrow> file_of T base target names (s_file st) \<Longrightarrow>
   flushes_ok T base target (flush_writer st)"
  by (auto simp: flushes_ok_def)

lemma stream_loop_file_of:
  assumes "torch_ok T" and "stream_loop T enc gs base target st names = (st', Inr ())"
    and "stores_ok base target names" and "file_of T base target done (s_file st)"
    and "flushes_ok T base target st" and "length (s_file st') < 2 ^ 63"
  shows "file_of T base target (done @ names) (s_file st') \<and> flushes_ok T base target st'
       \<and> list_all (valid_pair T base target) names"
  using assms
proof (induction names arbitrary: st "done")
  case (Cons name names)
  obtain st1 q where one: "stream_one T enc base target st name = (st1, q)" by fastforce
  have q: "q = Inr ()" using Cons.prems(2) one by (cases q) (auto simp: stream_loop_Cons)
  let ?st2 = "after_group gs name names st1"
  have loop: "stream_loop T enc gs base target ?st2 names = (st', Inr ())"
    using Cons.prems(2) one q by (simp add: stream_loop_Cons)
  have "length (s_file st1) < 2 ^ 63"
    using stream_loop_grows [OF loop] Cons.prems(6) by auto
  moreover have "stores_ok base target [name]" "stores_ok base target names"
    using Cons.prems(3) by (auto simp: stores_ok_def)
  ultimately have step: "file_of T base target (done @ [name]) (s_file st1)"
    "valid_pair T base target name" "s_flushed st1 = s_flushed st"
    using file_of_step [OF Cons.prems(1) one [unfolded q] _ Cons.prems(4)] by auto
  obtain g where g: "s_file st1 = s_file st @ g" using stream_one_grows [OF one] by blast
  have f1: "flushes_ok T base target st1"
    using flushes_ok_append [OF Cons.prems(5) g step(3)] .
  have "flushes_ok T base target ?st2"
    using f1 flushes_ok_flush [OF f1 step(1)] by (simp add: after_group_def)
  with Cons.IH [OF Cons.prems(1) loop \<open>stores_ok base target names\<close>, of "done @ [name]"]
    Cons.prems(6) step
  show ?case by simp
qed simp

section \<open>The store a streaming file is read into\<close>

lemma suffixes_differ [simp]:
  "n @ idx_suffix \<noteq> n' @ val_suffix" "n @ val_suffix \<noteq> n' @ idx_suffix"
proof -
  have "rev (n @ idx_suffix) \<noteq> rev (n' @ val_suffix)" by (simp add: idx_suffix_def val_suffix_def)
  then show "n @ idx_suffix \<noteq> n' @ val_suffix" by metis
  have "rev (n @ val_suffix) \<noteq> rev (n' @ idx_suffix)" by (simp add: idx_suffix_def val_suffix_def)
  then show "n @ val_suffix \<noteq> n' @ idx_suffix" by metis
qed

lemma suffixes_neq [simp]: "idx_suffix \<noteq> val_suffix" "val_suffix \<noteq> idx_suffix"
  by (simp_all add: idx_suffix_def val_suffix_def)

lemma fold_stream_records:
  assumes "distinct (map rname rs)" and "\<forall>r \<in> set rs. rshape r \<noteq> None"
  shows "\<exists>tensors shapes. foldR add_stream_record ([], []) rs = Inr (tensors, shapes)
     \<and> fst ` set tensors = (\<lambda>r. rname r @ idx_suffix) ` set rs \<union> (\<lambda>r. rname r @ val_suffix) ` set rs
     \<and> (\<forall>r \<in> set rs. dget tensors (rname r @ idx_suffix) = Some (rindices r)
          \<and> dget tensors (rname r @ val_suffix) = Some (rvalues r) \<and> dget shapes (rname r) = rshape r)
     \<and> fst ` set shapes = rname ` set rs \<and> distinct (dkeys shapes)"
  using assms
proof (induction rs rule: rev_induct)
  case (snoc r rs)
  then obtain tensors shapes where t: "foldR add_stream_record ([], []) rs = Inr (tensors, shapes)"
    "fst ` set tensors = (\<lambda>r. rname r @ idx_suffix) ` set rs \<union> (\<lambda>r. rname r @ val_suffix) ` set rs"
    "\<forall>r \<in> set rs. dget tensors (rname r @ idx_suffix) = Some (rindices r)
       \<and> dget tensors (rname r @ val_suffix) = Some (rvalues r) \<and> dget shapes (rname r) = rshape r"
    "fst ` set shapes = rname ` set rs" "distinct (dkeys shapes)"
    by auto
  have new: "rname r \<notin> rname ` set rs" using snoc.prems by auto
  then have k: "rname r @ idx_suffix \<notin> fst ` set tensors" by (auto simp: t(2))
  obtain sh where sh: "rshape r = Some sh" using snoc.prems by auto
  let ?tensors = "dput (rname r @ val_suffix) (rvalues r) (dput (rname r @ idx_suffix) (rindices r) tensors)"
  have "foldR add_stream_record ([], []) (rs @ [r]) = Inr (?tensors, dput (rname r) sh shapes)"
    by (simp add: foldR_append t(1)) (simp add: add_stream_record_def k sh)
  moreover have "rname r' \<noteq> rname r" if "r' \<in> set rs" for r' using new that by (metis image_eqI)
  ultimately show ?case
    using t(2-) sh
    by (intro exI [of _ ?tensors] exI [of _ "dput (rname r) sh shapes"] conjI) (auto simp: dict_simps)
qed simp

lemma json_shape_list: "json_shape (JList (map (\<lambda>d. JInt (int d)) sh)) = Inr sh"
  by (simp add: json_shape_def comp_def)

lemma distinct_sort_key_fst: "distinct (dkeys d) \<Longrightarrow> distinct (dkeys (sort_key fst d))"
  by (simp add: distinct_map)

lemma fold_json_shapes:
  "distinct (dkeys (acc @ d)) \<Longrightarrow>
   foldR (\<lambda>shapes (name, shape). bindR (json_shape shape) (\<lambda>dims. Inr (dput name dims shapes))) acc
     (map (\<lambda>(name, shape). (name, JList (map (\<lambda>d. JInt (int d)) shape))) d) = Inr (acc @ d)"
proof (induction d arbitrary: acc)
  case (Cons p d)
  obtain n sh where p: "p = (n, sh)" by fastforce
  have "dput n sh acc = acc @ [(n, sh)]" using Cons.prems p by (intro dput_append) auto
  then show ?case using Cons.IH [of "acc @ [(n, sh)]"] Cons.prems by (simp add: p json_shape_list)
qed simp

lemma shapes_roundtrip:
  "distinct (dkeys shapes) \<Longrightarrow> sparse_delta_shapes (logical_delta_metadata shapes) = Inr (sort_key fst shapes)"
  using fold_json_shapes [of "[]" "sort_key fst shapes"] distinct_sort_key_fst [of shapes]
  by (simp add: sparse_delta_shapes_def logical_delta_metadata_def)

lemma dget_sort_key: "distinct (dkeys d) \<Longrightarrow> dget (sort_key fst d) k = dget d k"
proof -
  assume d: "distinct (dkeys d)"
  have "dget (sort_key fst d) k = Some v \<longleftrightarrow> dget d k = Some v" for v
    using map_of_eq_Some_iff [OF d] map_of_eq_Some_iff [OF distinct_sort_key_fst [OF d]] by simp
  then show ?thesis by (metis option.exhaust)
qed

lemma set_names_with: "set (names_with suffix keys) = {n. n @ suffix \<in> set keys}"
proof -
  have "n \<in> set (names_with suffix keys)" if "n @ suffix \<in> set keys" for n
    using that by (auto simp: names_with_def image_iff intro!: bexI [of _ "n @ suffix"])
  then show ?thesis by (auto simp: names_with_def endswith_iff)
qed

lemma get_tensor_iff: "get_tensor s n = Inr t \<longleftrightarrow> dget (store_tensors s) n = Some t"
  by (simp add: get_tensor_def split: option.split)

text \<open>What a store read from a streaming file holds of the tensors it describes.\<close>

lemma store_of_file:
  assumes f: "file_of T base target names file" and d: "distinct names"
  obtains delta shapes where "streaming_delta_store file = Inr delta"
    "store_meta delta = logical_delta_metadata shapes" "distinct (dkeys shapes)"
    "set (names_with idx_suffix (store_keys delta)) = {n \<in> set names. changed T base target n}"
    "set (names_with val_suffix (store_keys delta)) = {n \<in> set names. changed T base target n}"
    "fst ` set shapes = {n \<in> set names. changed T base target n}"
    "\<And>n. n \<in> set names \<Longrightarrow> changed T base target n \<Longrightarrow> \<exists>enc b t indices vs.
       get_tensor base n = Inr b \<and> get_tensor target n = Inr t \<and> validate_tensor_pair b t = Inr () \<and>
       extract_changed_values T None b t = Inr (indices, vs) \<and>
       dget shapes n = Some (tshape b) \<and> get_tensor delta (n @ val_suffix) = Inr vs \<and>
       get_tensor delta (n @ idx_suffix) = Inr enc \<and>
       decode_sparse_indices enc (length indices) = Inr indices"
proof -
  obtain rs where v: "streaming_delta_version file = Inr 2"
    and it: "iter_streaming_delta_records file = (rs, None)"
    and n: "map rname rs = filter (changed T base target) names"
    and desc: "\<forall>r \<in> set rs. describes T base target r"
    using f by (auto simp: file_of_def)
  have dn: "distinct (map rname rs)" using d by (simp add: n)
  have sh: "\<forall>r \<in> set rs. rshape r \<noteq> None" using desc by (auto simp: describes_def)
  obtain tensors shapes where t: "foldR add_stream_record ([], []) rs = Inr (tensors, shapes)"
    "fst ` set tensors = (\<lambda>r. rname r @ idx_suffix) ` set rs \<union> (\<lambda>r. rname r @ val_suffix) ` set rs"
    "\<forall>r \<in> set rs. dget tensors (rname r @ idx_suffix) = Some (rindices r)
       \<and> dget tensors (rname r @ val_suffix) = Some (rvalues r) \<and> dget shapes (rname r) = rshape r"
    "fst ` set shapes = rname ` set rs" "distinct (dkeys shapes)"
    using fold_stream_records [OF dn sh] by metis
  let ?delta = "\<lparr>store_tensors = tensors, store_meta = logical_delta_metadata shapes\<rparr>"
  have names: "rname ` set rs = {n \<in> set names. changed T base target n}"
    using arg_cong [OF n, of set] by auto
  show ?thesis
  proof (rule that [of ?delta shapes])
    show "streaming_delta_store file = Inr ?delta"
      by (simp add: streaming_delta_store_def v it t(1))
    show "set (names_with idx_suffix (store_keys ?delta)) = {n \<in> set names. changed T base target n}"
      "set (names_with val_suffix (store_keys ?delta)) = {n \<in> set names. changed T base target n}"
      unfolding names [symmetric] set_names_with by (auto simp: t(2))
    show "fst ` set shapes = {n \<in> set names. changed T base target n}" by (simp add: t(4) names)
    fix m assume "m \<in> set names" "changed T base target m"
    then obtain r where r: "r \<in> set rs" "m = rname r" using names by auto
    then have "describes T base target r" using desc by simp
    then show "\<exists>enc b t indices vs.
       get_tensor base m = Inr b \<and> get_tensor target m = Inr t \<and> validate_tensor_pair b t = Inr () \<and>
       extract_changed_values T None b t = Inr (indices, vs) \<and>
       dget shapes m = Some (tshape b) \<and> get_tensor ?delta (m @ val_suffix) = Inr vs \<and>
       get_tensor ?delta (m @ idx_suffix) = Inr enc \<and>
       decode_sparse_indices enc (length indices) = Inr indices"
      using t(3) r unfolding describes_def get_tensor_iff by auto
  qed (simp_all add: t(5))
qed

lemma streaming_extraction:
  assumes T: "torch_ok T"
    and x: "extract_sparse_delta_streaming_from_stores T enc gs collect_stats base target = (Some st, Inr stats)"
    and k: "validated_model_keys T base target True = Inr keys"
    and ok: "stores_ok base target keys" and l: "length (s_file st) < 2 ^ 63"
  shows "file_of T base target (sort_key stream_record_order keys) (s_file st)"
    "flushes_ok T base target st" "\<forall>n \<in> set keys. valid_pair T base target n"
    "\<exists>n. s_flushed st = n @ [length (s_file st)]"
proof -
  obtain st1 where loop:
    "stream_loop T enc (nat gs) base target open_writer (sort_key stream_record_order keys) = (st1, Inr ())"
    "st = flush_writer st1"
    using x k
    by (auto simp: extract_sparse_delta_streaming_from_stores_def Let_def
        split: if_split_asm prod.split_asm sum.split_asm)
  have h: "file_of T base target [] (s_file open_writer)"
    by (simp add: open_writer_def file_of_header)
  have fl: "flushes_ok T base target open_writer"
    using file_of_header by (auto simp: flushes_ok_def open_writer_def)
  have "stores_ok base target (sort_key stream_record_order keys)"
    using ok by (simp add: stores_ok_def)
  then have "file_of T base target (sort_key stream_record_order keys) (s_file st1)
      \<and> flushes_ok T base target st1 \<and> list_all (valid_pair T base target) (sort_key stream_record_order keys)"
    using stream_loop_file_of [OF T loop(1) _ h fl] l loop(2) by simp
  then show "file_of T base target (sort_key stream_record_order keys) (s_file st)"
    "flushes_ok T base target st" "\<forall>n \<in> set keys. valid_pair T base target n"
    "\<exists>n. s_flushed st = n @ [length (s_file st)]"
    using flushes_ok_flush loop(2) by (auto simp: list_all_iff)
qed

lemma validated_keys_subset:
  assumes "validated_model_keys T base target include_bias = Inr keys"
  shows "set keys \<subseteq> set (store_keys base)" "set keys \<subseteq> set (store_keys target)"
    "distinct (store_keys base) \<Longrightarrow> distinct keys"
  using assms by (auto simp: validated_model_keys_def res_simps Let_def split: if_split_asm)

text \<open>Adding the records of a described tensor rebuilds the target; an undescribed one is unchanged.\<close>

lemma reconstruct_named_target:
  assumes T: "torch_ok T" and ok: "stores_ok base target [n]" and v: "valid_pair T base target n"
    and idx: "n \<in> set idx_names \<longleftrightarrow> changed T base target n"
    and delta: "changed T base target n \<Longrightarrow> \<exists>enc b t indices vs.
       get_tensor base n = Inr b \<and> get_tensor target n = Inr t \<and> validate_tensor_pair b t = Inr () \<and>
       extract_changed_values T None b t = Inr (indices, vs) \<and>
       dget shapes n = Some (tshape b) \<and> get_tensor delta (n @ val_suffix) = Inr vs \<and>
       get_tensor delta (n @ idx_suffix) = Inr enc \<and>
       decode_sparse_indices enc (length indices) = Inr indices"
  shows "\<exists>b t out. get_tensor base n = Inr b \<and> get_tensor target n = Inr t \<and> tshape b = tshape t
     \<and> reconstruct_named T True idx_names shapes delta n b = Inr out \<and> tensor_equal T out t = Inr True"
proof -
  obtain b t where bt: "get_tensor base n = Inr b" "get_tensor target n = Inr t"
    "validate_tensor_pair b t = Inr ()" and some: "\<exists>indices vs. extract_changed_values T None b t = Inr (indices, vs)"
    using v by (auto simp: valid_pair_def)
  have p: "pair_ok b t" using ok bt by (auto simp: stores_ok_def)
  note len = pair_lengths [OF p bt(3)]
  show ?thesis
  proof (cases "changed T base target n")
    case True
    from delta [OF True] bt obtain enc indices vs where e:
      "extract_changed_values T None b t = Inr (indices, vs)" "dget shapes n = Some (tshape b)"
      "get_tensor delta (n @ val_suffix) = Inr vs" "get_tensor delta (n @ idx_suffix) = Inr enc"
      "decode_sparse_indices enc (length indices) = Inr indices" by auto
    from reconstruct_extracted [OF T p bt(3) e(1,5)] show ?thesis
      using bt e idx True len by (auto simp: reconstruct_named_def)
  next
    case False
    obtain indices vs where e: "extract_changed_values T None b t = Inr (indices, vs)"
      using some by auto
    then have "indices = []" using False bt by (auto simp: changed_def)
    then have "\<forall>i < length (tdata b). feq T (tdtype b) (tdata t ! i) (tdata b ! i)"
      using extract_indices(3) [OF e] len by auto
    then have "tensor_equal T b t = Inr True"
      using len torch_ok_feq_sym [OF T] by (simp add: tensor_equal_def list_all2_conv_all_nth)
    then show ?thesis
      using bt idx False len by (auto simp: reconstruct_named_def)
  qed
qed

lemma streaming_store_rebuilds:
  assumes T: "torch_ok T"
    and x: "extract_sparse_delta_streaming_from_stores T enc gs collect_stats base target = (Some st, Inr stats)"
    and k: "validated_model_keys T base target True = Inr keys"
    and ok: "stores_ok base target keys" and l: "length (s_file st) < 2 ^ 63"
    and dist: "distinct (store_keys base)"
  obtains delta shapes where "streaming_delta_store (s_file st) = Inr delta"
    "meta_format (store_meta delta) = Some format_v2" "meta_layout (store_meta delta) = Some layout_logical"
    "sparse_delta_shapes (store_meta delta) = Inr shapes"
    "set (names_with idx_suffix (store_keys delta)) = set (names_with val_suffix (store_keys delta))"
    "set (names_with idx_suffix (store_keys delta)) = fst ` set shapes"
    "set (names_with idx_suffix (store_keys delta)) \<subseteq> set keys"
    "\<And>n. n \<in> set keys \<Longrightarrow> \<exists>b t out. get_tensor base n = Inr b \<and> get_tensor target n = Inr t \<and> tshape b = tshape t
     \<and> reconstruct_named T True (names_with idx_suffix (store_keys delta)) shapes delta n b = Inr out
     \<and> tensor_equal T out t = Inr True"
proof -
  note s = streaming_extraction [OF T x k ok l]
  have d: "distinct (sort_key stream_record_order keys)"
    using validated_keys_subset(3) [OF k dist] by simp
  obtain delta shapes where m: "streaming_delta_store (s_file st) = Inr delta"
    "store_meta delta = logical_delta_metadata shapes" "distinct (dkeys shapes)"
    "set (names_with idx_suffix (store_keys delta)) = {n \<in> set keys. changed T base target n}"
    "set (names_with val_suffix (store_keys delta)) = {n \<in> set keys. changed T base target n}"
    "fst ` set shapes = {n \<in> set keys. changed T base target n}"
    "\<And>n. n \<in> set keys \<Longrightarrow> changed T base target n \<Longrightarrow> \<exists>enc b t indices vs.
       get_tensor base n = Inr b \<and> get_tensor target n = Inr t \<and> validate_tensor_pair b t = Inr () \<and>
       extract_changed_values T None b t = Inr (indices, vs) \<and>
       dget shapes n = Some (tshape b) \<and> get_tensor delta (n @ val_suffix) = Inr vs \<and>
       get_tensor delta (n @ idx_suffix) = Inr enc \<and>
       decode_sparse_indices enc (length indices) = Inr indices"
    by (rule store_of_file [OF s(1) d]) simp
  show ?thesis
  proof (rule that [of delta "sort_key fst shapes"])
    show "meta_format (store_meta delta) = Some format_v2"
      "meta_layout (store_meta delta) = Some layout_logical"
      by (simp_all add: m(2) logical_delta_metadata_def)
    show "sparse_delta_shapes (store_meta delta) = Inr (sort_key fst shapes)"
      by (simp add: m(2) shapes_roundtrip m(3))
    fix n assume n: "n \<in> set keys"
    show "\<exists>b t out. get_tensor base n = Inr b \<and> get_tensor target n = Inr t \<and> tshape b = tshape t
     \<and> reconstruct_named T True (names_with idx_suffix (store_keys delta)) (sort_key fst shapes) delta n b = Inr out
     \<and> tensor_equal T out t = Inr True"
    proof (rule reconstruct_named_target [OF T])
      show "stores_ok base target [n]" using ok n by (simp add: stores_ok_def)
      show "valid_pair T base target n" using s(3) n by blast
      show "n \<in> set (names_with idx_suffix (store_keys delta)) \<longleftrightarrow> changed T base target n"
        using m(4) n by auto
    qed (use m(7) [OF n] dget_sort_key [OF m(3)] in simp)
  qed (use m(1,4-6) in auto)
qed

lemma verify_fold_ok:
  assumes "\<And>n. n \<in> set names \<Longrightarrow> \<exists>b t out. get_tensor base n = Inr b \<and> get_tensor target n = Inr t
      \<and> tshape b = tshape t \<and> reconstruct_named T True idx_names shapes delta n b = Inr out
      \<and> tensor_equal T out t = Inr True"
    and "\<forall>a b. tensor_equal T a b = Inr True \<longrightarrow> allclose V a b = Inr True"
    and "v_mismatches acc = []"
  shows "\<exists>v. foldR (verify_one T V [] True idx_names shapes limit base target delta) acc names = Inr v
     \<and> v_mismatches v = []"
  using assms(1,3)
proof (induction names arbitrary: acc)
  case (Cons n names)
  obtain b t out where x: "get_tensor base n = Inr b" "get_tensor target n = Inr t" "tshape b = tshape t"
    "reconstruct_named T True idx_names shapes delta n b = Inr out" "tensor_equal T out t = Inr True"
    using Cons.prems(1) [of n] by auto
  obtain acc' where acc': "verify_one T V [] True idx_names shapes limit base target delta acc n = Inr acc'"
    "v_mismatches acc' = []"
    using x assms(2) Cons.prems(2) by (simp add: verify_one_def load_named_def)
  have "\<exists>v. foldR (verify_one T V [] True idx_names shapes limit base target delta) acc' names = Inr v
     \<and> v_mismatches v = []"
    by (rule Cons.IH) (use Cons.prems(1) acc'(2) in auto)
  then show ?case using acc'(1) by simp
qed simp

section \<open>Claims\<close>

text \<open>C13. What was extracted from one tensor rebuilds it: whenever extraction of a change between two
  comparable tensors succeeds, its indices can be encoded, and reconstruction from the base tensor
  and the encoded delta succeeds with a tensor that torch.equal accepts as the target.\<close>

theorem extracted_delta_reconstructs:
  assumes "torch_ok T" and "pair_ok b t" and "validate_tensor_pair b t = Inr ()"
    and "extract_changed_values T None b t = Inr (indices, vs)"
    and "encoding = ''optimized'' \<or> encoding = ''naive''"
  shows "\<exists>enc out. encode_sparse_indices indices encoding = Inr enc
     \<and> reconstruct_sparse_delta_tensor T None b enc vs = Inr out \<and> tensor_equal T out t = Inr True"
proof -
  have i: "int64_indices indices"
    using extracted_int64 [OF assms(4)] pair_lengths [OF assms(2,3)] assms(2) by (simp add: pair_ok_def)
  obtain enc where enc: "encode_sparse_indices indices encoding = Inr enc"
    using assms(5) optimized.enc_total [OF i] naive.enc_total [OF i] by auto
  show ?thesis
    using enc reconstruct_extracted [OF assms(1-4) encode_decode [OF i enc]] by blast
qed

text \<open>C11. A streaming delta file carries the whole update: after a successful streaming extraction,
  the file reads back as a store from which every tensor of the model is rebuilt from its base
  tensor, equal to its target tensor; tensors without a record are already equal.\<close>

theorem streamed_delta_rebuilds_target:
  assumes "torch_ok T"
    and "extract_sparse_delta_streaming_from_stores T enc gs collect_stats base target = (Some st, Inr stats)"
    and "validated_model_keys T base target True = Inr keys"
    and "stores_ok base target keys" and "distinct (store_keys base)" and "length (s_file st) < 2 ^ 63"
  shows "\<exists>delta shapes. streaming_delta_store (s_file st) = Inr delta
     \<and> sparse_delta_shapes (store_meta delta) = Inr shapes
     \<and> (\<forall>n \<in> set keys. \<exists>b t out. get_tensor base n = Inr b \<and> get_tensor target n = Inr t
          \<and> reconstruct_named T True (names_with idx_suffix (store_keys delta)) shapes delta n b = Inr out
          \<and> tensor_equal T out t = Inr True)"
  by (rule streaming_store_rebuilds [OF assms(1-4,6,5)]) metis

text \<open>The verifier accepts what the trainer streams: reading back the file of a successful
  streaming extraction and verifying it against base and target reports no mismatch, for any
  tolerance under which equal tensors are close.\<close>

theorem verifier_accepts_streamed_delta:
  assumes "torch_ok T"
    and "extract_sparse_delta_streaming_from_stores T enc gs collect_stats base target = (Some st, Inr stats)"
    and "validated_model_keys T base target True = Inr keys"
    and "stores_ok base target keys" and "distinct (store_keys base)" and "length (s_file st) < 2 ^ 63"
    and "\<not> looks_like_delta (store_keys base)" and "\<not> looks_like_delta (store_keys target)"
    and "\<forall>a b. tensor_equal T a b = Inr True \<longrightarrow> allclose V a b = Inr True"
  shows "\<exists>delta v. streaming_delta_store (s_file st) = Inr delta
     \<and> verify_sparse_delta_stores T V max_report True base target delta = Inr v \<and> verification_ok v"
proof (rule streaming_store_rebuilds [OF assms(1-4,6,5)])
  fix delta shapes
  assume m: "streaming_delta_store (s_file st) = Inr delta"
    "meta_format (store_meta delta) = Some format_v2" "meta_layout (store_meta delta) = Some layout_logical"
    "sparse_delta_shapes (store_meta delta) = Inr shapes"
    "set (names_with idx_suffix (store_keys delta)) = set (names_with val_suffix (store_keys delta))"
    "set (names_with idx_suffix (store_keys delta)) = fst ` set shapes"
    "set (names_with idx_suffix (store_keys delta)) \<subseteq> set keys"
    and r: "\<And>n. n \<in> set keys \<Longrightarrow> \<exists>b t out. get_tensor base n = Inr b \<and> get_tensor target n = Inr t \<and> tshape b = tshape t
     \<and> reconstruct_named T True (names_with idx_suffix (store_keys delta)) shapes delta n b = Inr out
     \<and> tensor_equal T out t = Inr True"
  have "is_sparse_delta_store delta" by (simp add: is_sparse_delta_store_def m(2))
  moreover obtain v where v: "foldR (verify_one T V [] True (names_with idx_suffix (store_keys delta)) shapes
      (nat (max max_report 1)) base target delta) \<lparr>v_max_diff = 0, v_mismatches = []\<rparr> (sort (remdups keys)) = Inr v"
    "v_mismatches v = []"
  proof -
    have "\<exists>v. foldR (verify_one T V [] True (names_with idx_suffix (store_keys delta)) shapes
      (nat (max max_report 1)) base target delta) \<lparr>v_max_diff = 0, v_mismatches = []\<rparr> (sort (remdups keys)) = Inr v
      \<and> v_mismatches v = []"
      by (rule verify_fold_ok [OF _ assms(9)]) (use r in simp_all)
    then show ?thesis using that by blast
  qed
  ultimately have "verify_sparse_delta_stores T V max_report True base target delta = Inr v"
    using m(5-7) by (simp add: verify_sparse_delta_stores_def assms(3,7,8) m(2-4) v(1) Let_def)
  then show ?thesis using m(1) v(2) by (auto simp: verification_ok_def)
qed

text \<open>An uploader never sends half a record on account of a flush: cutting the file of a
  successful streaming extraction at any length it was flushed at leaves a complete delta file,
  which reads without error and describes only real changes; the last flush covers the file.\<close>

lemma flushes_are_record_boundaries:
  assumes "torch_ok T"
    and "extract_sparse_delta_streaming_from_stores T enc gs collect_stats base target = (Some st, Inr stats)"
    and "validated_model_keys T base target True = Inr keys"
    and "stores_ok base target keys" and "length (s_file st) < 2 ^ 63"
  shows "(\<forall>n \<in> set (s_flushed st). n \<le> length (s_file st)
        \<and> snd (iter_streaming_delta_records (take n (s_file st))) = None
        \<and> (\<forall>r \<in> set (fst (iter_streaming_delta_records (take n (s_file st)))). describes T base target r))
     \<and> last (s_flushed st) = length (s_file st)"
  using streaming_extraction(2,4) [OF assms] by (auto simp: flushes_ok_def file_of_def)

section \<open>A concrete update\<close>

definition demo_base :: store where
  "demo_base = state_dict_store [(''w'', flat_tensor Int8 [1, 2, 3])]"

definition demo_target :: store where
  "demo_target = state_dict_store [(''w'', flat_tensor Int8 [1, 5, 3])]"

lemma demo_tensors:
  "get_tensor demo_base n = Inr b \<longleftrightarrow> n = ''w'' \<and> b = flat_tensor Int8 [1, 2, 3]"
  "get_tensor demo_target n = Inr b \<longleftrightarrow> n = ''w'' \<and> b = flat_tensor Int8 [1, 5, 3]"
  by (auto simp: get_tensor_def demo_base_def demo_target_def state_dict_store_def split: option.split_asm if_split_asm)

lemma demo_pair: "pair_ok (flat_tensor Int8 [1, 2, 3]) (flat_tensor Int8 [1, 5, 3])"
  "validate_tensor_pair (flat_tensor Int8 [1, 2, 3]) (flat_tensor Int8 [1, 5, 3]) = Inr ()"
  by (simp_all add: pair_ok_def tensor_wf_def elem_ok_def validate_tensor_pair_def)

lemma demo_extract:
  "extract_changed_values exact_ops None (flat_tensor Int8 [1, 2, 3]) (flat_tensor Int8 [1, 5, 3])
   = Inr ([1], flat_tensor Int8 [3])"
  by (simp add: extract_changed_values_def exact_ops_def nonzero_def index_select_def wrap_elem_def)

lemma demo_stores: "stores_ok demo_base demo_target [''w'']"
  by (auto simp: stores_ok_def demo_tensors demo_pair encode_utf8_def between_def)

lemma demo_keys: "validated_model_keys exact_ops demo_base demo_target True = Inr [''w'']"
  "distinct (store_keys demo_base)" "\<not> looks_like_delta (store_keys demo_base)"
  "\<not> looks_like_delta (store_keys demo_target)"
  by (simp_all add: validated_model_keys_def tied_lm_head_skip_keys_def demo_base_def demo_target_def
      state_dict_store_def looks_like_delta_def endswith_def idx_suffix_def val_suffix_def)

lemma demo_run:
  obtains st stats where
    "extract_sparse_delta_streaming_from_stores exact_ops ''optimized'' 0 True demo_base demo_target = (Some st, Inr stats)"
    "length (s_file st) < 2 ^ 63"
proof -
  have enc: "encode_sparse_indices [1] ''optimized'' = Inr (flat_tensor UInt8 [1])"
    by (simp add: encode_sparse_indices_def encode_varint_delta_indices_def encode_varint_numba_def
        varint_len.simps emit_diff.simps)
  let ?w = "write_record stream_header ''w'' [3] [1] (flat_tensor Int8 [3]) ''optimized''"
  have w: "?w = (fst ?w, Inr ()) \<and> length (fst ?w) < 2 ^ 63"
    by (simp add: write_record_def enc stream_index_format_def pack_record_def pack_shape_def
        encode_utf8_def numel_def flat_tensor_def tensor_bytes_def elem_to_bytes_def stream_header_def
        stream_magic_def)
  have b: "get_tensor demo_base ''w'' = Inr (flat_tensor Int8 [1, 2, 3])"
    "get_tensor demo_target ''w'' = Inr (flat_tensor Int8 [1, 5, 3])"
    by (simp_all add: demo_tensors)
  have one: "\<exists>st. stream_one exact_ops ''optimized'' demo_base demo_target open_writer ''w'' = (st, Inr ())
      \<and> s_file st = fst ?w"
  proof -
    obtain f where f: "?w = (f, Inr ())" using w by (metis surjective_pairing)
    then show ?thesis
      by (simp add: stream_one_def b demo_pair demo_extract open_writer_def Let_def numeral_3_eq_3)
  qed
  then obtain st where "stream_one exact_ops ''optimized'' demo_base demo_target open_writer ''w'' = (st, Inr ())"
    "s_file st = fst ?w" by blast
  then show ?thesis
    using w that [of "flush_writer (after_group 0 ''w'' [] st)" "Some (s_stats (after_group 0 ''w'' [] st))"]
    by (simp add: extract_sparse_delta_streaming_from_stores_def demo_keys stream_loop_Cons)
qed

theorem extracted_delta_reconstructs_witness:
  "\<exists>enc out. encode_sparse_indices [1] ''naive'' = Inr enc
     \<and> reconstruct_sparse_delta_tensor exact_ops None (flat_tensor Int8 [1, 2, 3]) enc (flat_tensor Int8 [3]) = Inr out
     \<and> tensor_equal exact_ops out (flat_tensor Int8 [1, 5, 3]) = Inr True"
  by (rule extracted_delta_reconstructs [OF torch_ok_exact_ops demo_pair demo_extract]) simp

theorem streamed_delta_rebuilds_target_witness:
  "\<exists>(st :: stream_state) delta shapes. streaming_delta_store (s_file st) = Inr delta
     \<and> sparse_delta_shapes (store_meta delta) = Inr shapes
     \<and> (\<exists>b t out. get_tensor demo_base ''w'' = Inr b \<and> get_tensor demo_target ''w'' = Inr t
          \<and> reconstruct_named exact_ops True (names_with idx_suffix (store_keys delta)) shapes delta ''w'' b = Inr out
          \<and> tensor_equal exact_ops out t = Inr True)"
proof (rule demo_run)
  fix st stats assume r:
    "extract_sparse_delta_streaming_from_stores exact_ops ''optimized'' 0 True demo_base demo_target = (Some st, Inr stats)"
    "length (s_file st) < 2 ^ 63"
  show ?thesis
    using streamed_delta_rebuilds_target [OF torch_ok_exact_ops r(1) demo_keys(1) demo_stores demo_keys(2) r(2)]
    by (intro exI [where x = st]) (simp only: list.set ball_simps simp_thms)
qed

theorem verifier_accepts_streamed_delta_witness:
  "\<exists>(st :: stream_state) delta v. streaming_delta_store (s_file st) = Inr delta
     \<and> verify_sparse_delta_stores exact_ops \<lparr>max_abs_diff = \<lambda>_ _. 0, allclose = tensor_equal exact_ops\<rparr>
         10 True demo_base demo_target delta = Inr v \<and> verification_ok v"
proof (rule demo_run)
  fix st stats assume r:
    "extract_sparse_delta_streaming_from_stores exact_ops ''optimized'' 0 True demo_base demo_target = (Some st, Inr stats)"
    "length (s_file st) < 2 ^ 63"
  show ?thesis
    using verifier_accepts_streamed_delta [OF torch_ok_exact_ops r(1) demo_keys(1) demo_stores demo_keys(2) r(2)
        demo_keys(3,4), of "\<lparr>max_abs_diff = \<lambda>_ _. 0, allclose = tensor_equal exact_ops\<rparr>" 10]
    by (intro exI [where x = st]) simp
qed

lemma flushes_are_record_boundaries_witness:
  "\<exists>st stats. extract_sparse_delta_streaming_from_stores exact_ops ''optimized'' 0 True demo_base demo_target
        = (Some st, Inr stats)
     \<and> (\<forall>n \<in> set (s_flushed st). snd (iter_streaming_delta_records (take n (s_file st))) = None)
     \<and> last (s_flushed st) = length (s_file st)"
proof (rule demo_run)
  fix st stats assume r:
    "extract_sparse_delta_streaming_from_stores exact_ops ''optimized'' 0 True demo_base demo_target = (Some st, Inr stats)"
    "length (s_file st) < 2 ^ 63"
  show ?thesis
    using flushes_are_record_boundaries [OF torch_ok_exact_ops r(1) demo_keys(1) demo_stores r(2)] r(1)
    by blast
qed

end
