(* ===== verification/WeightLayout.thy ===== *)
theory WeightLayout
  imports DeltaExtract
begin

text \<open>
  Mapping logical sparse updates to tensor-parallel shards
  (\<open>inference/vllm/worker/weight_layout.py\<close>). A model is its named parameters and named
  modules; the attributes the code reads from a module or a parameter are the fields of the
  records, an attribute that is missing is \<open>None\<close>. Local indices are at most the size of the
  parameter (proved below), so the \<open>int64\<close> arithmetic of torch does not wrap.
\<close>

section \<open>Parameters and modules\<close>

record param =
  p_tensor :: tensor
  p_contiguous :: bool
  p_input_dim :: "int option"
  p_output_dim :: "int option"
  p_packed_dim :: "int option"
  p_bitsandbytes_4bit :: bool

record qkv_sizes =
  head_size :: int
  v_head_size :: "int option"
  total_num_heads :: int
  total_num_kv_heads :: int
  num_heads :: int
  num_kv_heads :: int
  num_kv_head_replicas :: "int option"

record vmodule =
  m_class :: string
  m_quant_config :: bool                  \<comment> \<open>\<open>quant_config\<close> is present and not None\<close>
  m_quant_method :: "string option"       \<comment> \<open>class name of \<open>quant_method\<close>\<close>
  m_shard_kind :: "string option"         \<comment> \<open>\<open>prime_rl_shard_kind\<close>\<close>
  m_shard_indices :: "(int \<times> int) option" \<comment> \<open>\<open>org_vocab_start_index\<close>, \<open>org_vocab_end_index\<close>\<close>
  m_embeddings_per_partition :: bool      \<comment> \<open>has \<open>num_embeddings_per_partition\<close>\<close>
  m_tp_rank :: "int option"
  m_tp_size :: "int option"
  m_output_sizes :: "int list option"
  m_qkv :: "qkv_sizes option"

record vllm_model =
  params :: "(string, param) dict"
  modules :: "(string, vmodule) dict"

record logical_update =
  u_name :: string
  u_shape :: "nat list"
  u_indices :: tensor
  u_values :: tensor

record local_update =
  l_name :: string
  l_indices :: "int list"
  l_values :: tensor

datatype shard_id = NoShard | ShardName string | ShardIndex nat

record layout_mapping =
  target_name :: string
  layout_kind :: string
  layout_shard :: shard_id

definition fused_suffix_mappings :: "(string \<times> string \<times> string \<times> shard_id) list" where
  "fused_suffix_mappings =
    [(''.self_attn.q_proj.weight'', ''.self_attn.qkv_proj.weight'', ''qkv'', ShardName ''q''),
     (''.self_attn.k_proj.weight'', ''.self_attn.qkv_proj.weight'', ''qkv'', ShardName ''k''),
     (''.self_attn.v_proj.weight'', ''.self_attn.qkv_proj.weight'', ''qkv'', ShardName ''v''),
     (''.self_attn.q_proj.bias'', ''.self_attn.qkv_proj.bias'', ''qkv'', ShardName ''q''),
     (''.self_attn.k_proj.bias'', ''.self_attn.qkv_proj.bias'', ''qkv'', ShardName ''k''),
     (''.self_attn.v_proj.bias'', ''.self_attn.qkv_proj.bias'', ''qkv'', ShardName ''v''),
     (''.mlp.gate_proj.weight'', ''.mlp.gate_up_proj.weight'', ''merged_column'', ShardIndex 0),
     (''.mlp.up_proj.weight'', ''.mlp.gate_up_proj.weight'', ''merged_column'', ShardIndex 1),
     (''.mlp.gate_proj.bias'', ''.mlp.gate_up_proj.bias'', ''merged_column'', ShardIndex 0),
     (''.mlp.up_proj.bias'', ''.mlp.gate_up_proj.bias'', ''merged_column'', ShardIndex 1)]"

section \<open>Finding the target\<close>

text \<open>\<open>needle in s\<close> for strings, and \<open>s.rpartition(".")[0]\<close>.\<close>

definition str_contains :: "string \<Rightarrow> string \<Rightarrow> bool" where
  "str_contains s needle \<longleftrightarrow> after_first needle s \<noteq> None"

definition before_last_dot :: "string \<Rightarrow> string" where
  "before_last_dot s = rev (tl (dropWhile (\<lambda>c. c \<noteq> CHR ''.'') (rev s)))"

definition parameter_module :: "vllm_model \<Rightarrow> string \<Rightarrow> vmodule res" where
  "parameter_module model parameter_name =
     (case dget (modules model) (before_last_dot parameter_name) of
        None \<Rightarrow> Inl (ValueError ''cannot resolve inference module for parameter'')
      | Some vmod \<Rightarrow> Inr vmod)"

definition direct_layout_kind :: "vmodule \<Rightarrow> param \<Rightarrow> string" where
  "direct_layout_kind vmod p =
     (case m_shard_kind vmod of
        Some override \<Rightarrow> override
      | None \<Rightarrow>
          if m_shard_indices vmod \<noteq> None \<and> m_embeddings_per_partition vmod then ''vocab''
          else if str_contains (m_class vmod) ''RowParallelLinear''
          then (if p_input_dim p \<noteq> None then ''row'' else ''replicated'')
          else if str_contains (m_class vmod) ''ColumnParallelLinear''
               \<or> str_contains (m_class vmod) ''ParallelLMHead''
          then (if p_output_dim p \<noteq> None then ''column'' else ''replicated'')
          else ''replicated'')"

definition layout_mapping_of :: "vllm_model \<Rightarrow> string \<Rightarrow> layout_mapping res" where
  "layout_mapping_of model source_name =
     (case dget (params model) source_name of
        Some p \<Rightarrow>
          bindR (parameter_module model source_name) (\<lambda>vmod.
            Inr \<lparr>target_name = source_name, layout_kind = direct_layout_kind vmod p, layout_shard = NoShard\<rparr>)
      | None \<Rightarrow>
          (case find (\<lambda>(suffix, _). endswith source_name suffix) fused_suffix_mappings of
             None \<Rightarrow> Inl (ValueError ''logical delta parameter is not supported by the inference model'')
           | Some (suffix, fused, kind, shard) \<Rightarrow>
               let target = removesuffix source_name suffix @ fused in
               if target \<notin> set (dkeys (params model))
               then Inl (ValueError ''logical delta parameter is not supported by the inference model'')
               else Inr \<lparr>target_name = target, layout_kind = kind, layout_shard = shard\<rparr>))"

section \<open>Validation\<close>

definition validate_supported_parameter :: "param \<Rightarrow> vmodule \<Rightarrow> unit res" where
  "validate_supported_parameter p vmod =
     (if m_quant_config vmod then Inl (ValueError ''quantized inference layout is not supported'')
      else if (case m_quant_method vmod of None \<Rightarrow> False
               | Some c \<Rightarrow> c \<notin> {''UnquantizedEmbeddingMethod'', ''UnquantizedLinearMethod''})
      then Inl (ValueError ''quantized inference layout is not supported'')
      else if p_packed_dim p \<noteq> None \<or> p_bitsandbytes_4bit p
      then Inl (ValueError ''packed inference parameter is not supported'')
      else Inr ())"

fun strictly_increasing :: "int list \<Rightarrow> bool" where
  "strictly_increasing (x # y # zs) \<longleftrightarrow> \<not> y \<le> x \<and> strictly_increasing (y # zs)"
| "strictly_increasing _ \<longleftrightarrow> True"

definition validate_update :: "logical_update \<Rightarrow> unit res" where
  "validate_update u =
     (let indices = tdata (u_indices u) in
      if tdtype (u_indices u) \<noteq> Int64 then Inl (ValueError ''logical sparse indices must be decoded to int64'')
      else if numel (u_indices u) \<noteq> numel (u_values u)
      then Inl (ValueError ''logical sparse index/value length mismatch'')
      else if \<not> strictly_increasing indices
      then Inl (ValueError ''logical sparse indices must be strictly increasing'')
      else if indices \<noteq> [] \<and> (hd indices < 0 \<or> last indices \<ge> int (prod_list (u_shape u)))
      then Inl (ValueError ''logical sparse index out of range'')
      else Inr ())"

section \<open>Projection\<close>

text \<open>\<open>xs[i]\<close> with Python's negative indices.\<close>

definition py_index :: "'a list \<Rightarrow> int \<Rightarrow> 'a res" where
  "py_index xs i =
     (let k = (if i < 0 then i + int (length xs) else i) in
      if 0 \<le> k \<and> k < int (length xs) then Inr (xs ! nat k) else Inl (IndexError ''index out of range''))"

text \<open>The place of a source index in the target, and the whole of \<open>_project_dimension\<close>.\<close>

definition coordinate :: "int \<Rightarrow> int \<Rightarrow> int \<Rightarrow> int" where
  "coordinate inner axis0 i = i div inner mod axis0"

definition move_index :: "int \<Rightarrow> int \<Rightarrow> int \<Rightarrow> int \<Rightarrow> int \<Rightarrow> int \<Rightarrow> int" where
  "move_index inner source_dim source_start target_dim target_start i =
     i div (source_dim * inner) * (target_dim * inner)
     + (coordinate inner source_dim i - source_start + target_start) * inner + i mod inner"

definition project_dimension ::
  "int list \<Rightarrow> nat list \<Rightarrow> nat list \<Rightarrow> int \<Rightarrow> int \<Rightarrow> int \<Rightarrow> int \<Rightarrow> (int list \<times> bool list) res" where
  "project_dimension indices source_shape target_shape dimension source_start span_size target_start =
     (if length source_shape \<noteq> length target_shape then Inl (ValueError ''source/target tensor ranks differ'')
      else
        let axis0 = (if dimension < 0 then dimension + int (length source_shape) else dimension) in
        if axis0 < 0 \<or> axis0 \<ge> int (length source_shape) then Inl (ValueError ''invalid sharding dimension'')
        else
          let d = nat axis0; sd = int (source_shape ! d); td = int (target_shape ! d) in
          if \<exists>axis < length source_shape. axis \<noteq> d \<and> source_shape ! axis \<noteq> target_shape ! axis
          then Inl (ValueError ''non-sharded dimensions differ'')
          else if source_start < 0 \<or> span_size < 0 \<or> source_start + span_size > sd
          then Inl (ValueError ''invalid source shard'')
          else if target_start < 0 \<or> target_start + span_size > td
          then Inl (ValueError ''invalid target shard'')
          else
            let inner = int (prod_list (drop (d + 1) source_shape));
                inside = map (\<lambda>i. source_start \<le> coordinate inner sd i
                                  \<and> coordinate inner sd i < source_start + span_size) indices;
                selected = map fst (filter snd (zip indices inside))
            in Inr (map (move_index inner sd source_start td target_start) selected, inside))"

definition tensor_parallel_position :: "vmodule \<Rightarrow> (int \<times> int) res" where
  "tensor_parallel_position vmod =
     (let rank = (case m_tp_rank vmod of None \<Rightarrow> 0 | Some r \<Rightarrow> r);
          n = (case m_tp_size vmod of None \<Rightarrow> 1 | Some s \<Rightarrow> s)
      in if n < 1 \<or> rank < 0 \<or> rank \<ge> n then Inl (ValueError ''invalid tensor-parallel position'')
         else Inr (rank, n))"

definition project_regular ::
  "logical_update \<Rightarrow> param \<Rightarrow> vmodule \<Rightarrow> int option \<Rightarrow> (int list \<times> bool list) res" where
  "project_regular u p vmod dim_attribute =
     (case dim_attribute of
        None \<Rightarrow> Inl (ValueError ''inference parameter has no sharded dimension'')
      | Some dimension \<Rightarrow>
          bindR (tensor_parallel_position vmod) (\<lambda>(tp_rank, tp_size).
          bindR (py_index (u_shape u) dimension) (\<lambda>size.
            if int size mod tp_size \<noteq> 0 then Inl (ValueError ''logical dimension is not divisible by TP size'')
            else
              let shard_size = int size div tp_size in
              project_dimension (tdata (u_indices u)) (u_shape u) (tshape (p_tensor p)) dimension
                (tp_rank * shard_size) shard_size 0)))"

definition project_vocab :: "logical_update \<Rightarrow> param \<Rightarrow> vmodule \<Rightarrow> (int list \<times> bool list) res" where
  "project_vocab u p vmod =
     (case m_shard_indices vmod of
        None \<Rightarrow> Inl (ValueError ''vocabulary-parallel module has no shard indices'')
      | Some (start, stop) \<Rightarrow>
          project_dimension (tdata (u_indices u)) (u_shape u) (tshape (p_tensor p)) 0 start (stop - start) 0)"

definition project_merged_column ::
  "logical_update \<Rightarrow> param \<Rightarrow> vmodule \<Rightarrow> nat \<Rightarrow> (int list \<times> bool list) res" where
  "project_merged_column u p vmod shard =
     (case m_output_sizes vmod of
        None \<Rightarrow> Inl (AttributeError ''output_sizes'')
      | Some output_sizes \<Rightarrow>
          if shard \<ge> length output_sizes then Inl (ValueError ''invalid merged-column shard id'')
          else bindR (py_index (u_shape u) 0) (\<lambda>size.
            if int size \<noteq> output_sizes ! shard then Inl (ValueError ''merged-column source shape mismatch'')
            else bindR (tensor_parallel_position vmod) (\<lambda>(tp_rank, tp_size).
              if \<exists>s \<in> set output_sizes. s mod tp_size \<noteq> 0
              then Inl (ValueError ''merged-column sizes are not divisible by TP size'')
              else
                let local_sizes = map (\<lambda>s. s div tp_size) output_sizes;
                    local_size = local_sizes ! shard
                in project_dimension (tdata (u_indices u)) (u_shape u) (tshape (p_tensor p)) 0
                     (tp_rank * local_size) local_size (sum_list (take shard local_sizes)))))"

definition qkv_global_size :: "qkv_sizes \<Rightarrow> string \<Rightarrow> int option" where
  "qkv_global_size q shard =
     map_of [(''q'', total_num_heads q * head_size q), (''k'', total_num_kv_heads q * head_size q),
             (''v'', total_num_kv_heads q * (case v_head_size q of None \<Rightarrow> head_size q | Some v \<Rightarrow> v))] shard"

definition qkv_local_size :: "qkv_sizes \<Rightarrow> string \<Rightarrow> int option" where
  "qkv_local_size q shard =
     map_of [(''q'', num_heads q * head_size q), (''k'', num_kv_heads q * head_size q),
             (''v'', num_kv_heads q * (case v_head_size q of None \<Rightarrow> head_size q | Some v \<Rightarrow> v))] shard"

definition qkv_target_start :: "qkv_sizes \<Rightarrow> string \<Rightarrow> int" where
  "qkv_target_start q shard =
     (if shard = ''q'' then 0
      else if shard = ''k'' then num_heads q * head_size q
      else num_heads q * head_size q + num_kv_heads q * head_size q)"

definition project_qkv :: "logical_update \<Rightarrow> param \<Rightarrow> vmodule \<Rightarrow> string \<Rightarrow> (int list \<times> bool list) res" where
  "project_qkv u p vmod shard =
     (case m_qkv vmod of
        None \<Rightarrow> Inl (AttributeError ''head_size'')
      | Some q \<Rightarrow>
          bindR (py_index (u_shape u) 0) (\<lambda>size.
            case (qkv_global_size q shard, qkv_local_size q shard) of
              (Some global_size, Some local_size) \<Rightarrow>
                if int size \<noteq> global_size then Inl (ValueError ''QKV source shape mismatch'')
                else bindR (tensor_parallel_position vmod) (\<lambda>(tp_rank, _).
                  let replicas = (case num_kv_head_replicas q of None \<Rightarrow> 1 | Some n \<Rightarrow> n) in
                  if shard \<noteq> ''q'' \<and> replicas = 0 then Inl ZeroDivisionError
                  else
                    let source_rank = (if shard = ''q'' then tp_rank else tp_rank div replicas) in
                    project_dimension (tdata (u_indices u)) (u_shape u) (tshape (p_tensor p)) 0
                      (source_rank * local_size) local_size (qkv_target_start q shard))
            | _ \<Rightarrow> Inl (KeyError shard)))"

definition mask_select :: "bool list \<Rightarrow> 'a list \<Rightarrow> 'a list" where
  "mask_select bits xs = map snd (filter fst (zip bits xs))"

definition project_update ::
  "logical_update \<Rightarrow> param \<Rightarrow> vmodule \<Rightarrow> layout_mapping \<Rightarrow> (int list \<times> bool list) res" where
  "project_update u p vmod mapping =
     (let kind = layout_kind mapping in
      if kind = ''qkv'' then
        (case layout_shard mapping of ShardName s \<Rightarrow> project_qkv u p vmod s
         | _ \<Rightarrow> project_qkv u p vmod ''None'')
      else if kind = ''merged_column'' then
        (case layout_shard mapping of ShardIndex k \<Rightarrow> project_merged_column u p vmod k
         | _ \<Rightarrow> Inl (TypeError ''int() argument''))
      else if kind = ''row'' then project_regular u p vmod (p_input_dim p)
      else if kind = ''column'' then project_regular u p vmod (p_output_dim p)
      else if kind = ''vocab'' then project_vocab u p vmod
      else if kind = ''replicated'' then
        (if tshape (p_tensor p) \<noteq> u_shape u then Inl (ValueError ''replicated parameter shape mismatch'')
         else Inr (tdata (u_indices u), replicate (numel (u_indices u)) True))
      else Inl (ValueError ''unsupported sparse weight layout kind''))"

definition to_local :: "vllm_model \<Rightarrow> logical_update \<Rightarrow> local_update res" where
  "to_local model u =
     bindR (layout_mapping_of model (u_name u)) (\<lambda>mapping.
       case dget (params model) (target_name mapping) of
         None \<Rightarrow> Inl (KeyError (target_name mapping))
       | Some p \<Rightarrow>
           bindR (parameter_module model (target_name mapping)) (\<lambda>vmod.
           bindR (validate_supported_parameter p vmod) (\<lambda>_.
           bindR (validate_update u) (\<lambda>_.
           bindR (project_update u p vmod mapping) (\<lambda>(indices, bits).
             Inr \<lparr>l_name = target_name mapping, l_indices = indices,
                  l_values = flat_tensor (tdtype (u_values u)) (mask_select bits (tdata (u_values u)))\<rparr>)))))"

section \<open>Moving one index between two layouts\<close>

text \<open>An index is an outer block, a coordinate along the sharded dimension and an inner offset;
  \<open>move_index\<close> keeps the outer block and the inner offset and shifts the coordinate.\<close>

lemma block_div: "0 \<le> n \<Longrightarrow> i div (n * inner) = i div inner div n" for i inner n :: int
  by (simp add: mult.commute [of n] zdiv_zmult2_eq)

lemma index_parts:
  fixes i inner sd :: int
  assumes "0 \<le> sd"
  shows "i = (i div (sd * inner) * sd + coordinate inner sd i) * inner + i mod inner"
  by (simp add: coordinate_def block_div [OF assms])

lemma move_index_eq:
  "move_index inner sd ss td ts i =
     (i div (sd * inner) * td + (coordinate inner sd i - ss + ts)) * inner + i mod inner"
  by (simp add: move_index_def algebra_simps)

lemma div_block: "0 < n \<Longrightarrow> 0 \<le> r \<Longrightarrow> r < n \<Longrightarrow> (q * n + r) div n = q \<and> (q * n + r) mod n = r" for q n r :: int
  by simp

lemma move_index_parts:
  fixes inner sd ss td ts i :: int
  defines "c \<equiv> coordinate inner sd i - ss + ts" and "j \<equiv> move_index inner sd ss td ts i"
  assumes "0 < inner" and "0 \<le> c" and "c < td"
  shows "coordinate inner td j = c" "j div (td * inner) = i div (sd * inner)" "j mod inner = i mod inner"
proof -
  have j: "j = (i div (sd * inner) * td + c) * inner + i mod inner"
    by (simp add: j_def c_def move_index_eq)
  have r: "0 \<le> i mod inner" "i mod inner < inner" using assms(3) by simp_all
  have d: "j div inner = i div (sd * inner) * td + c" and m: "j mod inner = i mod inner"
    using div_block [OF assms(3) r] by (simp_all add: j)
  have td: "0 < td" using assms by linarith
  show "coordinate inner td j = c"
    using div_block [OF td assms(4,5)] by (simp add: coordinate_def d)
  have "j div (td * inner) = j div inner div td"
    using td by (simp add: block_div)
  then show "j div (td * inner) = i div (sd * inner)"
    using div_block [OF td assms(4,5)] by (simp add: d)
  show "j mod inner = i mod inner" by (rule m)
qed

definition in_window :: "int \<Rightarrow> int \<Rightarrow> int \<Rightarrow> int \<Rightarrow> int \<Rightarrow> bool" where
  "in_window inner sd start sz i \<longleftrightarrow>
     start \<le> coordinate inner sd i \<and> coordinate inner sd i < start + sz"

lemma move_index_back:
  assumes "0 < inner" and "0 < sd" and "in_window inner sd ss sz i" and "0 \<le> ts" and "ts + sz \<le> td"
  shows "in_window inner td ts sz (move_index inner sd ss td ts i)"
    "move_index inner td ts sd ss (move_index inner sd ss td ts i) = i"
proof -
  have c: "0 \<le> coordinate inner sd i - ss + ts" "coordinate inner sd i - ss + ts < td"
    using assms by (auto simp: in_window_def)
  note p = move_index_parts [OF assms(1) c]
  show "in_window inner td ts sz (move_index inner sd ss td ts i)"
    using assms by (simp add: in_window_def p(1))
  show "move_index inner td ts sd ss (move_index inner sd ss td ts i) = i"
    using index_parts [of sd i inner] assms(2)
    by (subst move_index_eq) (simp add: p)
qed

lemma move_index_mono:
  assumes "0 < inner" and "0 < sd" and "in_window inner sd ss sz i" and "in_window inner sd ss sz i'"
    and "0 \<le> ts" and "ts + sz \<le> td" and "i < i'"
  shows "move_index inner sd ss td ts i < move_index inner sd ss td ts i'"
proof -
  define A where "A i = i div (sd * inner) * td + (coordinate inner sd i - ss + ts)" for i
  have o: "i div (sd * inner) = i div inner div sd" for i
    using assms(2) by (simp add: block_div)
  have w: "0 \<le> coordinate inner sd i - ss + ts" "coordinate inner sd i - ss + ts < td"
    "0 \<le> coordinate inner sd i' - ss + ts" "coordinate inner sd i' - ss + ts < td"
    using assms by (auto simp: in_window_def)
  have le: "i div inner \<le> i' div inner" using assms(1,7) by (simp add: zdiv_mono1)
  show ?thesis
  proof (cases "i div inner = i' div inner")
    case True
    then have "i mod inner < i' mod inner"
      using assms(7) div_mult_mod_eq [of i inner] div_mult_mod_eq [of i' inner] unfolding True by linarith
    then show ?thesis using True by (simp add: move_index_eq o coordinate_def)
  next
    case False
    then have lt: "i div inner < i' div inner" using le by simp
    have "A i < A i'"
    proof (cases "i div inner div sd = i' div inner div sd")
      case True
      have "i div inner mod sd < i' div inner mod sd"
        using lt div_mult_mod_eq [of "i div inner" sd] div_mult_mod_eq [of "i' div inner" sd] unfolding True by linarith
      then show ?thesis using True by (simp add: A_def o coordinate_def)
    next
      case False
      then have "i div inner div sd < i' div inner div sd"
        using lt assms(2) zdiv_mono1 [of "i div inner" "i' div inner" sd] by linarith
      then have "i div inner div sd * td + td \<le> i' div inner div sd * td"
        using w mult_right_mono [of "i div inner div sd + 1" "i' div inner div sd" td]
        by (simp add: algebra_simps)
      then show ?thesis using w by (simp add: A_def o)
    qed
    then have "A i * inner + inner \<le> A i' * inner"
      using assms(1) mult_right_mono [of "A i + 1" "A i'" inner] by (simp add: algebra_simps)
    moreover have "i mod inner < inner" "0 \<le> i' mod inner" using assms(1) by simp_all
    ultimately show ?thesis by (simp add: move_index_eq A_def)
  qed
qed

lemma move_index_range:
  assumes "0 < inner" and "0 < sd" and "in_window inner sd ss sz i" and "0 \<le> ts" and "ts + sz \<le> td"
    and "0 \<le> i" and "i < n * (sd * inner)"
  shows "0 \<le> move_index inner sd ss td ts i \<and> move_index inner sd ss td ts i < n * (td * inner)"
proof -
  let ?o = "i div (sd * inner)" and ?c = "coordinate inner sd i - ss + ts"
  have p: "0 < sd * inner" using assms(1,2) by simp
  have w: "0 \<le> ?c" "?c < td" using assms by (auto simp: in_window_def)
  have o: "0 \<le> ?o" using assms(6) p by (simp add: pos_imp_zdiv_nonneg_iff)
  have on: "?o < n"
  proof (rule ccontr)
    assume "\<not> ?o < n"
    then have "n * (sd * inner) \<le> ?o * (sd * inner)" using p by (intro mult_right_mono) auto
    then show False
      using assms(7) div_mult_mod_eq [of i "sd * inner"] pos_mod_sign [OF p, of i] by linarith
  qed
  have r: "0 \<le> i mod inner" "i mod inner < inner" using assms(1) by simp_all
  have "0 \<le> ?o * td" using o w by (intro mult_nonneg_nonneg) auto
  then have "0 \<le> (?o * td + ?c) * inner" using w assms(1) by (intro mult_nonneg_nonneg) auto
  moreover have "(?o * td + ?c) * inner + inner \<le> n * (td * inner)"
  proof -
    have "?o * td + ?c + 1 \<le> ?o * td + td" using w by simp
    also have "\<dots> \<le> n * td" using on w mult_right_mono [of "?o + 1" n td] by (simp add: algebra_simps)
    finally have "(?o * td + ?c + 1) * inner \<le> n * td * inner" using assms(1) by (intro mult_right_mono) auto
    then show ?thesis by (simp add: algebra_simps)
  qed
  ultimately show ?thesis using r by (simp add: move_index_eq)
qed

section \<open>What a projection selects\<close>

lemma strictly_increasing_iff: "strictly_increasing xs \<longleftrightarrow> sorted_wrt (<) xs"
  by (induction xs rule: strictly_increasing.induct) (auto simp: not_le intro: less_trans)

lemma selected_eq_filter: "map fst (filter snd (zip xs (map P xs))) = filter P xs"
  by (induction xs) auto

lemma mask_select_map: "mask_select (map P xs) (map f xs) = map f (filter P xs)"
  by (induction xs) (auto simp: mask_select_def)

lemma values_of_indices:
  assumes "distinct xs" and "length vs = length xs"
  obtains f where "vs = map f xs"
proof
  show "vs = map (\<lambda>x. the (map_of (zip xs vs) x)) xs"
    by (rule nth_equalityI) (use assms in \<open>auto simp: map_of_zip_nth\<close>)
qed

definition axis :: "nat list \<Rightarrow> int \<Rightarrow> nat" where
  "axis shape dimension = nat (if dimension < 0 then dimension + int (length shape) else dimension)"

definition inner_size :: "nat list \<Rightarrow> int \<Rightarrow> int" where
  "inner_size shape dimension = int (prod_list (drop (axis shape dimension + 1) shape))"

definition dim_at :: "nat list \<Rightarrow> int \<Rightarrow> nat list \<Rightarrow> int" where
  "dim_at shape dimension other = int (other ! axis shape dimension)"

lemma prod_list_split:
  "d < length xs \<Longrightarrow> prod_list xs = prod_list (take d xs) * (xs ! d * prod_list (drop (d + 1) xs))" for xs :: "nat list"
proof -
  assume "d < length xs"
  then have "xs = take d xs @ xs ! d # drop (d + 1) xs" by (simp add: id_take_nth_drop)
  then show ?thesis by (metis prod_list.Cons prod_list.append)
qed

lemma project_InrD:
  assumes "project_dimension idx S R dimension ss sz ts = Inr (loc, bits)"
  defines "sd \<equiv> dim_at S dimension S" and "td \<equiv> dim_at S dimension R" and "inner \<equiv> inner_size S dimension"
  shows "loc = map (move_index inner sd ss td ts) (filter (in_window inner sd ss sz) idx)"
    "bits = map (in_window inner sd ss sz) idx" "0 \<le> ss" "0 \<le> sz" "ss + sz \<le> sd" "0 \<le> ts" "ts + sz \<le> td"
    "\<exists>n. 0 \<le> n \<and> int (prod_list S) = n * (sd * inner) \<and> int (prod_list R) = n * (td * inner)"
proof -
  let ?d = "axis S dimension"
  have a: "length S = length R" "\<not> (\<exists>a < length S. a \<noteq> ?d \<and> S ! a \<noteq> R ! a)" "?d < length S"
    and w: "0 \<le> ss" "0 \<le> sz" "ss + sz \<le> sd" "0 \<le> ts" "ts + sz \<le> td"
    and l: "loc = map (move_index inner sd ss td ts) (map fst (filter snd (zip idx bits)))"
    and b: "bits = map (in_window inner sd ss sz) idx"
    using assms(1) unfolding project_dimension_def Let_def sd_def td_def inner_def axis_def dim_at_def
      inner_size_def in_window_def
    by (auto split: if_split_asm)
  show "loc = map (move_index inner sd ss td ts) (filter (in_window inner sd ss sz) idx)"
    using l by (simp add: b selected_eq_filter)
  have t: "take ?d R = take ?d S" "drop (?d + 1) R = drop (?d + 1) S"
  proof -
    have e: "R ! b = S ! b" if "b < length R" "b \<noteq> ?d" for b using a(1,2) that by auto
    show "take ?d R = take ?d S" "drop (?d + 1) R = drop (?d + 1) S"
      using a(1,3) by (auto intro!: nth_equalityI e)
  qed
  show "\<exists>n. 0 \<le> n \<and> int (prod_list S) = n * (sd * inner) \<and> int (prod_list R) = n * (td * inner)"
  proof (intro exI conjI)
    show "int (prod_list S) = int (prod_list (take ?d S)) * (sd * inner)"
      using prod_list_split [OF a(3)] by (simp add: sd_def inner_def dim_at_def inner_size_def)
    show "int (prod_list R) = int (prod_list (take ?d S)) * (td * inner)"
      using prod_list_split [of ?d R] a t by (simp add: td_def inner_def dim_at_def inner_size_def)
  qed simp
qed (use assms in \<open>auto simp: project_dimension_def Let_def axis_def dim_at_def inner_size_def in_window_def split: if_split_asm\<close>)

text \<open>Every element of the logical tensor that falls in the window is stored at its place.\<close>

definition placed_window ::
  "nat list \<Rightarrow> nat list \<Rightarrow> int \<Rightarrow> int \<Rightarrow> int \<Rightarrow> int \<Rightarrow> int list \<Rightarrow> int list \<Rightarrow> bool" where
  "placed_window S R dimension ss sz ts G L \<longleftrightarrow>
     (\<forall>i < length G. in_window (inner_size S dimension) (dim_at S dimension S) ss sz (int i) \<longrightarrow>
        L ! nat (move_index (inner_size S dimension) (dim_at S dimension S) ss (dim_at S dimension R) ts (int i))
        = G ! i)"

lemma nth_index_copy_map':
  assumes "\<forall>i \<in> set indices. 0 \<le> i" and "k < length flat" and "vs = map f indices"
  shows "index_copy flat indices (add_values T d flat indices vd vs) ! k =
     (if int k \<in> set indices then add_one T d vd (flat ! k) (f (int k)) else flat ! k)"
  using nth_index_copy_map [OF assms(1,2), of "\<lambda>i. add_one T d vd (flat ! nat i) (f i)"]
  by (simp add: assms(3) add_values_map)

lemma project_commutes:
  assumes p: "project_dimension idx S R dimension ss sz ts = Inr (loc, bits)"
    and inc: "strictly_increasing idx" and rng: "\<forall>i \<in> set idx. 0 \<le> i \<and> i < int (prod_list S)"
    and G: "length G = prod_list S" and L: "length L = prod_list R" and vs: "length vs = length idx"
  shows "strictly_increasing loc" "\<forall>j \<in> set loc. 0 \<le> j \<and> j < int (prod_list R)"
    "length (mask_select bits vs) = length loc"
    "placed_window S R dimension ss sz ts G L \<Longrightarrow>
     placed_window S R dimension ss sz ts (index_copy G idx (add_values T d G idx vd vs))
       (index_copy L loc (add_values T d L loc vd (mask_select bits vs)))"
proof -
  let ?sd = "dim_at S dimension S" and ?td = "dim_at S dimension R" and ?inner = "inner_size S dimension"
  let ?W = "in_window ?inner ?sd ss sz" and ?M = "move_index ?inner ?sd ss ?td ts"
  note x = project_InrD [OF p]
  obtain n where n: "0 \<le> n" "int (prod_list S) = n * (?sd * ?inner)" "int (prod_list R) = n * (?td * ?inner)"
    using x(8) by blast
  have pos: "0 < ?inner \<and> 0 < ?sd" if "i < prod_list S" for i
  proof -
    have "0 < n * (?sd * ?inner)" using that n(2) by linarith
    moreover have "0 \<le> ?inner" "0 \<le> ?sd" by (simp_all add: inner_size_def dim_at_def)
    ultimately show ?thesis using n(1) by (metis less_le mult_eq_0_iff)
  qed
  have pos': "0 < ?inner \<and> 0 < ?sd" if "i \<in> set idx" for i
    using that rng pos [of "nat i"] by fastforce
  obtain f where f: "vs = map f idx"
    using values_of_indices [OF _ vs] inc by (metis strictly_increasing_iff strict_sorted_iff)
  have m: "mask_select bits vs = map f (filter ?W idx)" by (simp add: x(2) f mask_select_map)
  then show "length (mask_select bits vs) = length loc" by (simp add: x(1))
  have "sorted_wrt (<) (filter ?W idx)" using inc by (simp add: strictly_increasing_iff sorted_wrt_filter)
  then have "sorted_wrt (\<lambda>i i'. ?M i < ?M i') (filter ?W idx)"
    by (rule sorted_wrt_mono_rel [rotated])
      (use move_index_mono [OF _ _ _ _ x(6,7)] pos' in auto)
  then show "strictly_increasing loc" by (simp add: x(1) strictly_increasing_iff sorted_wrt_map)
  show range: "\<forall>j \<in> set loc. 0 \<le> j \<and> j < int (prod_list R)"
    using move_index_range [OF _ _ _ x(6,7), of ?inner ?sd ss] pos' rng n by (auto simp: x(1))
  assume H: "placed_window S R dimension ss sz ts G L"
  let ?inv = "move_index ?inner ?td ts ?sd ss"
  have bk: "?inv (?M i) = i" if "?W i" "0 < ?inner \<and> 0 < ?sd" for i
    using move_index_back(2) [OF _ _ that(1) x(6,7)] that(2) by blast
  have vl: "mask_select bits vs = map (f \<circ> ?inv) loc"
    unfolding m x(1) using bk pos' by auto
  show "placed_window S R dimension ss sz ts (index_copy G idx (add_values T d G idx vd vs))
       (index_copy L loc (add_values T d L loc vd (mask_select bits vs)))"
    unfolding placed_window_def
  proof (intro allI impI)
    fix i assume "i < length (index_copy G idx (add_values T d G idx vd vs))" and w: "?W (int i)"
    then have i: "i < length G" by simp
    then have p: "0 < ?inner \<and> 0 < ?sd" using pos G by simp
    have r: "0 \<le> ?M (int i)" "?M (int i) < int (length L)"
      using move_index_range [OF _ _ w x(6,7), of n] p i n G L by auto
    then have k: "nat (?M (int i)) < length L" "int (nat (?M (int i))) = ?M (int i)" by auto
    have old: "L ! nat (?M (int i)) = G ! i" using H i w by (simp add: placed_window_def)
    have mem: "?M (int i) \<in> set loc \<longleftrightarrow> int i \<in> set idx"
    proof
      assume "?M (int i) \<in> set loc"
      then obtain i' where i': "i' \<in> set idx" "?W i'" "?M (int i) = ?M i'" by (auto simp: x(1))
      then have "int i = i'" using bk [OF w p] bk [OF i'(2)] pos' [OF i'(1)] by metis
      with i'(1) show "int i \<in> set idx" by simp
    qed (use w in \<open>auto simp: x(1)\<close>)
    have "index_copy L loc (add_values T d L loc vd (mask_select bits vs)) ! nat (?M (int i)) =
        (if ?M (int i) \<in> set loc
         then add_one T d vd (L ! nat (?M (int i))) ((f \<circ> ?inv) (?M (int i))) else L ! nat (?M (int i)))"
      using nth_index_copy_map' [OF _ k(1) vl] range k(2) by auto
    also have "\<dots> = (if int i \<in> set idx then add_one T d vd (G ! i) (f (int i)) else G ! i)"
      using bk [OF w p] by (simp add: mem old)
    also have "\<dots> = index_copy G idx (add_values T d G idx vd vs) ! i"
      using nth_index_copy_map' [OF _ i f] rng by auto
    finally show "index_copy L loc (add_values T d L loc vd (mask_select bits vs)) ! nat (?M (int i)) =
      index_copy G idx (add_values T d G idx vd vs) ! i" .
  qed
qed

section \<open>Placements\<close>

text \<open>Which part of a parameter an update of a given shape goes to, whatever its indices.\<close>

datatype placement = Whole | Window int int int int

definition regular_placement :: "nat list \<Rightarrow> vmodule \<Rightarrow> int option \<Rightarrow> placement option" where
  "regular_placement shape vmod dim_attribute =
     (case (dim_attribute, tensor_parallel_position vmod) of
        (Some dimension, Inr (rank, n)) \<Rightarrow>
          (case py_index shape dimension of
             Inr s \<Rightarrow> Some (Window dimension (rank * (int s div n)) (int s div n) 0)
           | Inl _ \<Rightarrow> None)
      | _ \<Rightarrow> None)"

definition merged_placement :: "vmodule \<Rightarrow> nat \<Rightarrow> placement option" where
  "merged_placement vmod shard =
     (case (m_output_sizes vmod, tensor_parallel_position vmod) of
        (Some sizes, Inr (rank, n)) \<Rightarrow>
          (let local_sizes = map (\<lambda>s. s div n) sizes
           in Some (Window 0 (rank * (local_sizes ! shard)) (local_sizes ! shard) (sum_list (take shard local_sizes))))
      | _ \<Rightarrow> None)"

text \<open>The parts of a fused attention parameter, in the order in which they follow one another.\<close>

definition qkv_parts :: "qkv_sizes \<Rightarrow> (string \<times> int) list" where
  "qkv_parts q =
     [(''q'', num_heads q * head_size q), (''k'', num_kv_heads q * head_size q),
      (''v'', num_kv_heads q * (case v_head_size q of None \<Rightarrow> head_size q | Some v \<Rightarrow> v))]"

lemma qkv_parts_local: "map_of (qkv_parts q) shard = qkv_local_size q shard"
  by (simp add: qkv_parts_def qkv_local_size_def)

lemma qkv_parts_start:
  "qkv_local_size q shard = Some n \<Longrightarrow>
   sum_list (map snd (takeWhile (\<lambda>(name, _). name \<noteq> shard) (qkv_parts q))) = qkv_target_start q shard"
  by (auto simp: qkv_parts_def qkv_local_size_def qkv_target_start_def split: if_split_asm)

definition qkv_placement :: "vmodule \<Rightarrow> string \<Rightarrow> placement option" where
  "qkv_placement vmod shard =
     (case (m_qkv vmod, tensor_parallel_position vmod) of
        (Some q, Inr (rank, n)) \<Rightarrow>
          (case map_of (qkv_parts q) shard of
             Some s \<Rightarrow> Some (Window 0 ((if shard = ''q'' then rank
                 else rank div (case num_kv_head_replicas q of None \<Rightarrow> 1 | Some k \<Rightarrow> k)) * s) s
                 (sum_list (map snd (takeWhile (\<lambda>(name, _). name \<noteq> shard) (qkv_parts q)))))
           | None \<Rightarrow> None)
      | _ \<Rightarrow> None)"

definition placement_of :: "nat list \<Rightarrow> param \<Rightarrow> vmodule \<Rightarrow> layout_mapping \<Rightarrow> placement option" where
  "placement_of shape p vmod mapping =
     (let kind = layout_kind mapping in
      if kind = ''qkv'' then
        (case layout_shard mapping of ShardName s \<Rightarrow> qkv_placement vmod s | _ \<Rightarrow> None)
      else if kind = ''merged_column'' then
        (case layout_shard mapping of ShardIndex k \<Rightarrow> merged_placement vmod k | _ \<Rightarrow> None)
      else if kind = ''row'' then regular_placement shape vmod (p_input_dim p)
      else if kind = ''column'' then regular_placement shape vmod (p_output_dim p)
      else if kind = ''vocab'' then
        map_option (\<lambda>(start, stop). Window 0 start (stop - start) 0) (m_shard_indices vmod)
      else if kind = ''replicated'' then Some Whole else None)"

definition project_placement ::
  "placement \<Rightarrow> int list \<Rightarrow> nat list \<Rightarrow> nat list \<Rightarrow> (int list \<times> bool list) res" where
  "project_placement pl idx S R =
     (case pl of
        Whole \<Rightarrow> if R \<noteq> S then Inl (ValueError ''replicated parameter shape mismatch'')
                 else Inr (idx, replicate (length idx) True)
      | Window dimension ss sz ts \<Rightarrow> project_dimension idx S R dimension ss sz ts)"

lemma project_regular_placement:
  "project_regular u p vmod a = Inr out \<Longrightarrow>
   \<exists>pl. regular_placement (u_shape u) vmod a = Some pl \<and>
     project_placement pl (tdata (u_indices u)) (u_shape u) (tshape (p_tensor p)) = Inr out"
  by (auto simp: project_regular_def regular_placement_def project_placement_def res_simps Let_def
      split: option.split_asm if_split_asm)

lemma project_merged_placement:
  "project_merged_column u p vmod k = Inr out \<Longrightarrow>
   \<exists>pl. merged_placement vmod k = Some pl \<and>
     project_placement pl (tdata (u_indices u)) (u_shape u) (tshape (p_tensor p)) = Inr out"
  by (auto simp: project_merged_column_def merged_placement_def project_placement_def res_simps Let_def
      split: option.split_asm if_split_asm)

lemma project_qkv_placement:
  assumes a: "project_qkv u p vmod s = Inr out"
  shows "\<exists>pl. qkv_placement vmod s = Some pl \<and>
     project_placement pl (tdata (u_indices u)) (u_shape u) (tshape (p_tensor p)) = Inr out"
proof -
  obtain q where q: "m_qkv vmod = Some q" using a by (auto simp: project_qkv_def split: option.split_asm)
  obtain sz where sz: "py_index (u_shape u) 0 = Inr sz"
    using a by (auto simp: project_qkv_def q res_simps)
  obtain gs ls where ls: "qkv_global_size q s = Some gs" "qkv_local_size q s = Some ls"
    using a by (auto simp: project_qkv_def q res_simps split: option.split_asm)
  obtain r n where tp: "tensor_parallel_position vmod = Inr (r, n)"
    using a by (auto simp: project_qkv_def q res_simps ls split: if_split_asm)
  have "project_dimension (tdata (u_indices u)) (u_shape u) (tshape (p_tensor p)) 0
      ((if s = ''q'' then r else r div (case num_kv_head_replicas q of None \<Rightarrow> 1 | Some k \<Rightarrow> k)) * ls) ls
      (qkv_target_start q s) = Inr out"
    using a by (simp add: project_qkv_def q sz ls tp Let_def split: if_split_asm)
  then show ?thesis by (simp add: qkv_placement_def qkv_parts_local qkv_parts_start [OF ls(2)] q ls tp project_placement_def)
qed

lemma project_qkv_None: "project_qkv u p vmod ''None'' \<noteq> Inr out"
  by (auto simp: project_qkv_def qkv_global_size_def res_simps split: option.split_asm)

lemma project_update_placement:
  assumes "project_update u p vmod mapping = Inr out"
  shows "\<exists>pl. placement_of (u_shape u) p vmod mapping = Some pl \<and>
     project_placement pl (tdata (u_indices u)) (u_shape u) (tshape (p_tensor p)) = Inr out"
proof -
  consider "layout_kind mapping = ''qkv''" | "layout_kind mapping = ''merged_column''"
    | "layout_kind mapping \<notin> {''qkv'', ''merged_column''}" by blast
  then show ?thesis
  proof cases
    case 1
    then show ?thesis
      using assms project_qkv_placement [of u p vmod _ out]
      by (cases "layout_shard mapping") (auto simp: project_update_def placement_of_def project_qkv_None)
  next
    case 2
    then show ?thesis
      using assms project_merged_placement [of u p vmod _ out]
      by (cases "layout_shard mapping") (auto simp: project_update_def placement_of_def)
  next
    case 3
    show ?thesis
    proof (cases "layout_kind mapping \<in> {''row'', ''column''}")
      case True
      then show ?thesis
        using assms 3 project_regular_placement [of u p vmod "p_input_dim p" out]
          project_regular_placement [of u p vmod "p_output_dim p" out]
        by (auto simp: project_update_def placement_of_def)
    next
      case False
      then show ?thesis
        using assms 3 by (auto simp: project_update_def placement_of_def project_vocab_def
            project_placement_def numel_def Let_def split: if_split_asm option.split_asm)
    qed
  qed
qed

text \<open>A slice along one dimension: \<open>narrow\<close> of torch, in row-major order. A parameter holds a part of a logical tensor in a
  window when the two slices are equal.\<close>

definition narrow :: "nat list \<Rightarrow> int \<Rightarrow> nat \<Rightarrow> nat \<Rightarrow> 'a list \<Rightarrow> 'a list" where
  "narrow shape dimension start n xs =
     (let d = axis shape dimension; inner = prod_list (drop (d + 1) shape)
      in concat (map (\<lambda>block. take (n * inner) (drop (block * (shape ! d * inner) + start * inner) xs)) [0..<prod_list (take d shape)]))"

definition holds_window ::
  "nat list \<Rightarrow> nat list \<Rightarrow> int \<Rightarrow> int \<Rightarrow> int \<Rightarrow> int \<Rightarrow> int list \<Rightarrow> int list \<Rightarrow> bool" where
  "holds_window S R dimension ss sz ts G L \<longleftrightarrow> narrow R dimension (nat ts) (nat sz) L = narrow S dimension (nat ss) (nat sz) G"

lemma concat_blocks_eq:
  assumes "\<forall>b < n. length (f b) = m" and "\<forall>b < n. length (g b) = m"
  shows "concat (map f [0..<n]) = concat (map g [0..<n]) \<longleftrightarrow> (\<forall>b < n. f b = g b)"
  using assms
proof (induction n)
  case (Suc n)
  then have "length (concat (map f [0..<n])) = length (concat (map g [0..<n]))"
    by (intro arg_cong [of _ _ sum_list] trans [OF length_concat] trans [OF _ length_concat [symmetric]]) simp
  then show ?case using Suc by (auto simp: less_Suc_eq)
qed simp

lemma window_index:
  fixes b ss q r inner sd td ts :: nat
  assumes "r < inner" and "ss + q < sd"
  shows "coordinate (int inner) (int sd) (int ((b * sd + ss + q) * inner + r)) = int (ss + q)"
    and "move_index (int inner) (int sd) (int ss) (int td) (int ts) (int ((b * sd + ss + q) * inner + r))
      = int ((b * td + ts + q) * inner + r)"
proof -
  let ?i = "(b * sd + ss + q) * inner + r"
  have d: "?i div inner = b * sd + (ss + q)" "?i mod inner = r" using assms(1) by simp_all
  have c: "?i div inner mod sd = ss + q" "?i div inner div sd = b" unfolding d using assms(2) by simp_all
  show co: "coordinate (int inner) (int sd) (int ?i) = int (ss + q)"
    unfolding coordinate_def zdiv_int [symmetric] zmod_int [symmetric] by (simp only: c)
  have "int ?i div (int sd * int inner) = int b"
    unfolding block_div [OF of_nat_0_le_iff] zdiv_int [symmetric] by (simp only: c)
  moreover have "int ?i mod int inner = int r" unfolding zmod_int [symmetric] by (simp only: d)
  ultimately show "move_index (int inner) (int sd) (int ss) (int td) (int ts) (int ?i) = int ((b * td + ts + q) * inner + r)"
    unfolding move_index_eq co by (simp add: algebra_simps)
qed

lemma window_split:
  fixes i n inner sd ss sz :: nat
  assumes "in_window (int inner) (int sd) (int ss) (int sz) (int i)" and "i < n * (sd * inner)"
  obtains b q r where "i = (b * sd + ss + q) * inner + r" and "b < n" and "q < sz" and "r < inner"
proof -
  have pos: "0 < inner" "0 < sd" using assms(2) by (auto intro: gr0I)
  have "coordinate (int inner) (int sd) (int i) = int (i div inner mod sd)"
    by (simp only: coordinate_def zdiv_int zmod_int)
  then have w: "ss \<le> i div inner mod sd" "i div inner mod sd < ss + sz" using assms(1) by (auto simp: in_window_def)
  have "i = (i div inner div sd * sd + i div inner mod sd) * inner + i mod inner" by simp
  then have i: "i = (i div inner div sd * sd + ss + (i div inner mod sd - ss)) * inner + i mod inner" using w by simp
  have "i div inner div sd = i div (sd * inner)" by (simp add: div_mult2_eq mult.commute [of sd])
  also have "\<dots> < n" using assms(2) by (simp add: less_mult_imp_div_less)
  finally show ?thesis using that [OF i] w pos by simp
qed

lemma project_shapes:
  assumes "project_dimension idx S R dimension ss sz ts = Inr out"
  shows "length S = length R" "axis S dimension < length S" "axis R dimension = axis S dimension"
    "take (axis S dimension) R = take (axis S dimension) S" "drop (axis S dimension + 1) R = drop (axis S dimension + 1) S"
proof -
  let ?d = "axis S dimension"
  have a: "length S = length R" "\<not> (\<exists>a < length S. a \<noteq> ?d \<and> S ! a \<noteq> R ! a)" "?d < length S"
    using assms unfolding project_dimension_def Let_def axis_def by (auto split: if_split_asm)
  have e: "R ! b = S ! b" if "b < length R" "b \<noteq> ?d" for b using a(1,2) that by auto
  show "length S = length R" "?d < length S" by (rule a)+
  show "axis R dimension = ?d" by (simp add: axis_def a(1))
  show "take ?d R = take ?d S" "drop (?d + 1) R = drop (?d + 1) S"
    using a(1,3) by (auto intro!: nth_equalityI e)
qed

text \<open>Slices are equal exactly when each element of the window is where \<open>move_index\<close> says.\<close>

lemma holds_window_iff:
  assumes p: "project_dimension idx S R dimension ss sz ts = Inr (loc, bits)"
    and G: "length G = prod_list S" and L: "length L = prod_list R"
  shows "holds_window S R dimension ss sz ts G L \<longleftrightarrow> placed_window S R dimension ss sz ts G L"
proof -
  define d where "d = axis S dimension"
  define inner where "inner = prod_list (drop (d + 1) S)"
  define n where "n = prod_list (take d S)"
  define sd td where "sd = S ! d" and "td = R ! d"
  note sh = project_shapes [OF p, folded d_def]
  have x: "0 \<le> ss" "0 \<le> sz" "0 \<le> ts" "ss + sz \<le> int sd" "ts + sz \<le> int td"
    using project_InrD(3-7) [OF p] by (simp_all add: dim_at_def d_def sd_def td_def)
  obtain a m c where nat: "ss = int a" "sz = int m" "ts = int c" using x(1-3) nonneg_int_cases by metis
  have w: "a + m \<le> sd" "c + m \<le> td" using x(4,5) by (simp_all add: nat)
  have len: "length G = n * (sd * inner)" "length L = n * (td * inner)"
    using G L prod_list_split [OF sh(2)] prod_list_split [of d R] sh by (simp_all add: n_def sd_def td_def inner_def)
  have piece: "block * (D * inner) + s * inner + m * inner \<le> n * (D * inner)" if "block < n" "s + m \<le> D" for block s D
  proof -
    have "block * (D * inner) + (s + m) * inner \<le> block * (D * inner) + D * inner" using that(2) by simp
    also have "\<dots> \<le> n * (D * inner)" using that(1) mult_le_mono1 [of "Suc block" n "D * inner"] by simp
    finally show ?thesis by (simp add: algebra_simps)
  qed
  let ?f = "\<lambda>block. take (m * inner) (drop (block * (td * inner) + c * inner) L)"
  let ?g = "\<lambda>block. take (m * inner) (drop (block * (sd * inner) + a * inner) G)"
  have l: "\<forall>b < n. length (?f b) = m * inner" "\<forall>b < n. length (?g b) = m * inner"
    using piece [OF _ w(1)] piece [OF _ w(2)] by (force simp: len)+
  have "holds_window S R dimension ss sz ts G L \<longleftrightarrow> (\<forall>b < n. ?f b = ?g b)"
    using concat_blocks_eq [OF l] sh
    by (simp add: holds_window_def narrow_def Let_def d_def [symmetric] n_def inner_def sd_def td_def nat)
  also have "\<dots> \<longleftrightarrow> (\<forall>b < n. \<forall>k < m * inner. L ! (b * (td * inner) + c * inner + k) = G ! (b * (sd * inner) + a * inner + k))"
  proof -
    have "?f b = ?g b \<longleftrightarrow> (\<forall>k < m * inner. L ! (b * (td * inner) + c * inner + k) = G ! (b * (sd * inner) + a * inner + k))" if b: "b < n" for b
      using l b piece [OF b w(1)] piece [OF b w(2)] by (simp add: list_eq_iff_nth_eq len)
    then show ?thesis by blast
  qed
  also have "\<dots> \<longleftrightarrow> (\<forall>b < n. \<forall>q < m. \<forall>r < inner. L ! ((b * td + c + q) * inner + r) = G ! ((b * sd + a + q) * inner + r))"
  proof (intro iffI allI impI)
    fix b q r
    assume h: "\<forall>b < n. \<forall>k < m * inner. L ! (b * (td * inner) + c * inner + k) = G ! (b * (sd * inner) + a * inner + k)"
      and b: "b < n" and q: "q < m" and r: "r < inner"
    have "q * inner + r < m * inner" using q r mult_le_mono1 [of "Suc q" m inner] by simp
    with h b show "L ! ((b * td + c + q) * inner + r) = G ! ((b * sd + a + q) * inner + r)"
      by (metis (no_types, opaque_lifting) add.assoc distrib_right mult.assoc)
  next
    fix b k
    assume h: "\<forall>b < n. \<forall>q < m. \<forall>r < inner. L ! ((b * td + c + q) * inner + r) = G ! ((b * sd + a + q) * inner + r)"
      and b: "b < n" and k: "k < m * inner"
    have i: "0 < inner" using k by (auto intro: gr0I)
    have "L ! ((b * td + c + k div inner) * inner + k mod inner) = G ! ((b * sd + a + k div inner) * inner + k mod inner)"
      using h b k i by (simp add: less_mult_imp_div_less)
    then show "L ! (b * (td * inner) + c * inner + k) = G ! (b * (sd * inner) + a * inner + k)"
      by (simp add: distrib_right add.assoc mult.assoc)
  qed
  also have "\<dots> \<longleftrightarrow> placed_window S R dimension ss sz ts G L"
  proof -
    have di: "inner_size S dimension = int inner" "dim_at S dimension S = int sd" "dim_at S dimension R = int td"
      by (simp_all add: inner_size_def dim_at_def d_def [symmetric] inner_def sd_def td_def)
    have "(\<forall>i < length G. in_window (int inner) (int sd) (int a) (int m) (int i) \<longrightarrow>
        L ! nat (move_index (int inner) (int sd) (int a) (int td) (int c) (int i)) = G ! i)
      \<longleftrightarrow> (\<forall>b < n. \<forall>q < m. \<forall>r < inner. L ! ((b * td + c + q) * inner + r) = G ! ((b * sd + a + q) * inner + r))"
      (is "?A \<longleftrightarrow> ?B")
    proof
      assume h: ?A
      show ?B
      proof (intro allI impI)
        fix b q r assume b: "b < n" "q < m" "r < inner"
        let ?i = "(b * sd + a + q) * inner + r"
        have aq: "a + q < sd" using b(2) w(1) by simp
        have "q * inner + r < m * inner" using b mult_le_mono1 [of "Suc q" m inner] by simp
        then have "?i < length G" using piece [OF b(1) w(1)] by (simp add: len algebra_simps)
        moreover have "in_window (int inner) (int sd) (int a) (int m) (int ?i)"
          unfolding in_window_def window_index(1) [OF b(3) aq] using b(2) by simp
        ultimately have "L ! nat (move_index (int inner) (int sd) (int a) (int td) (int c) (int ?i)) = G ! ?i" using h by blast
        then show "L ! ((b * td + c + q) * inner + r) = G ! ?i"
          unfolding window_index(2) [OF b(3) aq] nat_int .
      qed
    next
      assume h: ?B
      show ?A
      proof (intro allI impI)
        fix i assume "i < length G" and wi: "in_window (int inner) (int sd) (int a) (int m) (int i)"
        then have "i < n * (sd * inner)" by (simp add: len)
        with wi obtain b q r where i: "i = (b * sd + a + q) * inner + r" "b < n" "q < m" "r < inner" by (rule window_split)
        have aq: "a + q < sd" using i(3) w(1) by simp
        show "L ! nat (move_index (int inner) (int sd) (int a) (int td) (int c) (int i)) = G ! i"
          unfolding i(1) window_index(2) [OF i(4) aq] nat_int using h i(2-4) by blast
      qed
    qed
    then show ?thesis unfolding placed_window_def di nat by blast
  qed
  finally show ?thesis .
qed

text \<open>A parameter holds a logical tensor at a placement.\<close>

definition holds_part :: "placement \<Rightarrow> nat list \<Rightarrow> nat list \<Rightarrow> int list \<Rightarrow> int list \<Rightarrow> bool" where
  "holds_part pl S R G L =
     (case pl of Whole \<Rightarrow> L = G
      | Window dimension ss sz ts \<Rightarrow> holds_window S R dimension ss sz ts G L)"

lemma mask_select_True: "mask_select (replicate n True) xs = take n xs"
proof (induction n arbitrary: xs)
  case (Suc n)
  then show ?case by (cases xs) (auto simp: mask_select_def)
qed (simp add: mask_select_def)

text \<open>Updating the logical tensor and updating the parameter at the projected indices agree.\<close>

lemma placement_commutes:
  assumes p: "project_placement pl idx S R = Inr (loc, bits)"
    and inc: "strictly_increasing idx" and rng: "\<forall>i \<in> set idx. 0 \<le> i \<and> i < int (prod_list S)"
    and G: "length G = prod_list S" and L: "length L = prod_list R" and vs: "length vs = length idx"
  shows "strictly_increasing loc" "\<forall>j \<in> set loc. 0 \<le> j \<and> j < int (prod_list R)"
    "length (mask_select bits vs) = length loc"
    "holds_part pl S R G L \<Longrightarrow>
     holds_part pl S R (index_copy G idx (add_values T d G idx vd vs))
       (index_copy L loc (add_values T d L loc vd (mask_select bits vs)))"
proof -
  have "strictly_increasing loc \<and> (\<forall>j \<in> set loc. 0 \<le> j \<and> j < int (prod_list R))
    \<and> length (mask_select bits vs) = length loc
    \<and> (holds_part pl S R G L \<longrightarrow>
     holds_part pl S R (index_copy G idx (add_values T d G idx vd vs))
       (index_copy L loc (add_values T d L loc vd (mask_select bits vs))))"
  proof (cases pl)
    case Whole
    then show ?thesis
      using assms by (auto simp: project_placement_def holds_part_def mask_select_True split: if_split_asm)
  next
    case (Window dimension ss sz ts)
    then have w: "project_dimension idx S R dimension ss sz ts = Inr (loc, bits)"
      using p by (simp add: project_placement_def)
    show ?thesis
      using project_commutes [OF w inc rng G L vs] Window holds_window_iff [OF w G L]
        holds_window_iff [OF w, of "index_copy G idx (add_values T d G idx vd vs)"
          "index_copy L loc (add_values T d L loc vd (mask_select bits vs))"] G L
      by (simp add: holds_part_def)
  qed
  then show "strictly_increasing loc" "\<forall>j \<in> set loc. 0 \<le> j \<and> j < int (prod_list R)"
    "length (mask_select bits vs) = length loc"
    "holds_part pl S R G L \<Longrightarrow>
     holds_part pl S R (index_copy G idx (add_values T d G idx vd vs))
       (index_copy L loc (add_values T d L loc vd (mask_select bits vs)))" by auto
qed

lemma nth_index_copy_other:
  "int k \<notin> set indices \<Longrightarrow> \<forall>i \<in> set indices. 0 \<le> i \<Longrightarrow> index_copy flat indices vs ! k = flat ! k"
proof (induction flat indices vs rule: index_copy.induct)
  case (1 flat i indices v vs)
  then have "nat i \<noteq> k" by auto
  then show ?case using 1 by simp
qed auto

text \<open>Parts of one parameter that do not overlap: an update of one leaves what the other holds.\<close>

definition apart :: "nat list \<Rightarrow> placement \<Rightarrow> placement \<Rightarrow> bool" where
  "apart R pl pl' =
     (case (pl, pl') of
        (Window dimension _ sz ts, Window dimension' _ sz' ts') \<Rightarrow>
          axis R dimension = axis R dimension' \<and> (ts + sz \<le> ts' \<or> ts' + sz' \<le> ts)
      | _ \<Rightarrow> False)"

lemma apart_preserves:
  assumes p: "project_placement pl idx S R = Inr (loc, bits)"
    and p': "project_placement pl' idx' S' R = Inr (loc', bits')"
    and ap: "apart R pl pl'"
    and rng: "\<forall>i \<in> set idx. 0 \<le> i \<and> i < int (prod_list S)"
    and G': "length G' = prod_list S'" and L: "length L = prod_list R"
    and h: "holds_part pl' S' R G' L"
  shows "holds_part pl' S' R G' (index_copy L loc vs)"
proof -
  obtain dn ss sz ts where w: "pl = Window dn ss sz ts" using ap by (cases pl) (auto simp: apart_def)
  obtain dn' ss' sz' ts' where w': "pl' = Window dn' ss' sz' ts'"
    using ap by (cases pl'; cases pl) (auto simp: apart_def)
  have q: "project_dimension idx S R dn ss sz ts = Inr (loc, bits)"
    and q': "project_dimension idx' S' R dn' ss' sz' ts' = Inr (loc', bits')"
    using p p' w w' by (simp_all add: project_placement_def)
  note x = project_InrD [OF q] and x' = project_InrD [OF q']
  have len: "length S = length R" "length S' = length R" "axis S dn < length S" "axis S' dn' < length S'"
    using q q' unfolding project_dimension_def Let_def axis_def by (auto split: if_split_asm)
  have rest: "\<And>b. b < length R \<Longrightarrow> b \<noteq> axis S dn \<Longrightarrow> S ! b = R ! b"
    "\<And>b. b < length R \<Longrightarrow> b \<noteq> axis S' dn' \<Longrightarrow> S' ! b = R ! b"
    using q q' len unfolding project_dimension_def Let_def axis_def by (auto split: if_split_asm)
  have ax: "axis S dn = axis S' dn'"
  proof -
    have "axis R dn = axis R dn'" using ap by (simp add: apart_def w w')
    then show ?thesis using len(1,2) by (simp only: axis_def)
  qed
  have td: "dim_at S dn R = dim_at S' dn' R" by (simp add: dim_at_def ax)
  have inner: "inner_size S dn = inner_size S' dn'"
  proof -
    have "drop (axis S dn + 1) S = drop (axis S dn + 1) S'"
      using len rest ax by (auto intro!: nth_equalityI)
    then show ?thesis by (simp add: inner_size_def ax)
  qed
  obtain n where n: "0 \<le> n" "int (prod_list S) = n * (dim_at S dn S * inner_size S dn)"
    "int (prod_list R) = n * (dim_at S dn R * inner_size S dn)" using x(8) by blast
  obtain n' where n': "0 \<le> n'" "int (prod_list S') = n' * (dim_at S' dn' S' * inner_size S' dn')"
    "int (prod_list R) = n' * (dim_at S' dn' R * inner_size S' dn')" using x'(8) by blast
  have pos: "0 < inner_size S dn \<and> 0 < dim_at S dn S" if "i < prod_list S" for i
  proof -
    have "0 < n * (dim_at S dn S * inner_size S dn)" using that n(2) by linarith
    moreover have "0 \<le> inner_size S dn" "0 \<le> dim_at S dn S" by (simp_all add: inner_size_def dim_at_def)
    ultimately show ?thesis using n(1) by (metis less_le mult_eq_0_iff)
  qed
  have pos': "0 < inner_size S' dn' \<and> 0 < dim_at S' dn' S'" if "i < prod_list S'" for i
  proof -
    have "0 < n' * (dim_at S' dn' S' * inner_size S' dn')" using that n'(2) by linarith
    moreover have "0 \<le> inner_size S' dn'" "0 \<le> dim_at S' dn' S'" by (simp_all add: inner_size_def dim_at_def)
    ultimately show ?thesis using n'(1) by (metis less_le mult_eq_0_iff)
  qed
  have disj: "ts + sz \<le> ts' \<or> ts' + sz' \<le> ts" using ap by (simp add: apart_def w w')
  have h': "placed_window S' R dn' ss' sz' ts' G' L" using h holds_window_iff [OF q' G' L] by (simp add: w' holds_part_def)
  have new: "holds_window S' R dn' ss' sz' ts' G' (index_copy L loc vs) \<longleftrightarrow> placed_window S' R dn' ss' sz' ts' G' (index_copy L loc vs)"
    using holds_window_iff [OF q' G'] L by simp
  show ?thesis
    unfolding w' holds_part_def placement.case new placed_window_def
  proof (intro allI impI)
    fix i assume i: "i < length G'" and wi: "in_window (inner_size S' dn') (dim_at S' dn' S') ss' sz' (int i)"
    let ?j = "move_index (inner_size S' dn') (dim_at S' dn' S') ss' (dim_at S' dn' R) ts' (int i)"
    have z: "0 < inner_size S' dn'" "0 < dim_at S' dn' S'" using pos' [of i] i G' by simp_all
    have "int i < n' * (dim_at S' dn' S' * inner_size S' dn')" using i G' n'(2) by linarith
    then have r: "0 \<le> ?j" "?j < int (length L)"
      using move_index_range [OF z wi x'(6,7), of n'] n'(3) L by auto
    have cj: "in_window (inner_size S dn) (dim_at S dn R) ts' sz' ?j"
      using move_index_back(1) [OF z wi x'(6,7)] by (simp add: inner td)
    have "?j \<notin> set loc"
    proof
      assume "?j \<in> set loc"
      then obtain i2 where i2: "i2 \<in> set idx" "in_window (inner_size S dn) (dim_at S dn S) ss sz i2"
        "?j = move_index (inner_size S dn) (dim_at S dn S) ss (dim_at S dn R) ts i2"
        by (auto simp: x(1))
      have "nat i2 < prod_list S" using rng i2(1) by auto
      then have "0 < inner_size S dn" "0 < dim_at S dn S" using pos by auto
      then have "in_window (inner_size S dn) (dim_at S dn R) ts sz ?j"
        using move_index_back(1) [OF _ _ i2(2) x(6,7)] by (simp add: i2(3))
      with cj disj show False by (auto simp: in_window_def)
    qed
    moreover have "\<forall>j \<in> set loc. 0 \<le> j"
    proof
      fix j assume "j \<in> set loc"
      then obtain i2 where i2: "i2 \<in> set idx" "in_window (inner_size S dn) (dim_at S dn S) ss sz i2"
        "j = move_index (inner_size S dn) (dim_at S dn S) ss (dim_at S dn R) ts i2"
        by (auto simp: x(1))
      have k: "0 \<le> i2" "i2 < n * (dim_at S dn S * inner_size S dn)" "nat i2 < prod_list S"
        using rng i2(1) n(2) by auto
      show "0 \<le> j"
        using move_index_range [OF _ _ i2(2) x(6,7) k(1,2)] pos [OF k(3)] by (simp add: i2(3))
    qed
    ultimately have "index_copy L loc vs ! nat ?j = L ! nat ?j"
      using r by (intro nth_index_copy_other) auto
    then show "index_copy L loc vs ! nat ?j = G' ! i"
      using h' i wi by (simp add: placed_window_def)
  qed
qed

end
