(* ===== verification/DeltaApply.thy ===== *)
theory DeltaApply
  imports WeightLayout
begin

text \<open>
  Applying a delta to the weights a vLLM worker holds
  (\<open>inference/vllm/worker/weight_transfer.py\<close>): one decoded update, a whole delta file, and
  the kernel-format transfer with its expert maps. Parameters are updated in place one after
  the other, so a load that raises leaves the earlier ones updated: the model of a load
  returns the parameters after it together with its result. The counters it logs are kept.
\<close>

section \<open>One decoded update\<close>

definition indices_cover_flat_tensor :: "int list \<Rightarrow> nat \<Rightarrow> bool" where
  "indices_cover_flat_tensor indices flat_numel \<longleftrightarrow>
     length indices = flat_numel \<and> flat_numel > 0 \<and> hd indices = 0 \<and> last indices = int flat_numel - 1"

definition apply_decoded_sparse_delta_tensor ::
  "torch_ops \<Rightarrow> int option \<Rightarrow> param \<Rightarrow> int list \<Rightarrow> tensor \<Rightarrow> (param \<times> bool) res" where
  "apply_decoded_sparse_delta_tensor T scale_factor p indices values_cpu =
     (let flat = tdata (p_tensor p); d = tdtype (p_tensor p); vd = tdtype values_cpu in
      if \<not> p_contiguous p then Inl (ValueError ''sparse delta requires a contiguous parameter'')
      else if length indices \<noteq> numel values_cpu
      then Inl (ValueError ''sparse delta index/value length mismatch'')
      else if indices = [] then Inr (p, False)
      else if \<not> indices_in_range indices (length flat) then Inl (ValueError ''sparse delta index out of range'')
      else if \<not> strictly_increasing indices
      then Inl (ValueError ''sparse delta indices must be strictly increasing'')
      else
        let vs = scale_values T scale_factor vd (tdata values_cpu);
            full_tensor = indices_cover_flat_tensor indices (length flat);
            flat' = (if full_tensor \<and> vd = d then map2 (fadd T d) flat vs
                     else index_copy flat indices (add_values T d flat indices vd vs))
        in Inr (p\<lparr>p_tensor := (p_tensor p)\<lparr>tdata := flat'\<rparr>\<rparr>, full_tensor))"

definition apply_sparse_delta_tensor ::
  "torch_ops \<Rightarrow> int option \<Rightarrow> param \<Rightarrow> tensor \<Rightarrow> tensor \<Rightarrow> (param \<times> bool) res" where
  "apply_sparse_delta_tensor T scale_factor p encoded_indices values_cpu =
     bindR (decode_sparse_indices encoded_indices (numel values_cpu)) (\<lambda>indices.
       apply_decoded_sparse_delta_tensor T scale_factor p indices values_cpu)"

section \<open>A whole delta file\<close>

record load_state =
  ld_model :: vllm_model
  ld_updated :: nat
  ld_delta_values :: nat
  ld_full_tensor_updates :: nat

definition finish_one :: "load_state \<Rightarrow> string \<Rightarrow> nat \<Rightarrow> param \<times> bool \<Rightarrow> load_state" where
  "finish_one st name n out =
     st\<lparr>ld_model := (ld_model st)\<lparr>params := dput name (fst out) (params (ld_model st))\<rparr>,
        ld_updated := ld_updated st + 1,
        ld_delta_values := ld_delta_values st + n,
        ld_full_tensor_updates := ld_full_tensor_updates st + (if snd out then 1 else 0)\<rparr>"

definition load_logical ::
  "torch_ops \<Rightarrow> int option \<Rightarrow> load_state \<Rightarrow> string \<Rightarrow> nat list \<Rightarrow> tensor \<Rightarrow> tensor \<Rightarrow> load_state res" where
  "load_logical T scale_factor st name shape encoded values =
     bindR (decode_sparse_indices encoded (numel values)) (\<lambda>indices.
     bindR (to_local (ld_model st) \<lparr>u_name = name, u_shape = shape, u_indices = flat_tensor Int64 indices,
              u_values = values\<rparr>) (\<lambda>local.
       case dget (params (ld_model st)) (l_name local) of
         None \<Rightarrow> Inl (KeyError (l_name local))
       | Some p \<Rightarrow>
           bindR (apply_decoded_sparse_delta_tensor T scale_factor p (l_indices local) (l_values local))
             (\<lambda>out. Inr (finish_one st (l_name local) (numel values) out))))"

definition load_direct ::
  "torch_ops \<Rightarrow> int option \<Rightarrow> load_state \<Rightarrow> string \<Rightarrow> tensor \<Rightarrow> tensor \<Rightarrow> load_state res" where
  "load_direct T scale_factor st name encoded values =
     (case dget (params (ld_model st)) name of
        None \<Rightarrow> Inl (ValueError ''delta parameter is not present in the vLLM model'')
      | Some p \<Rightarrow>
          bindR (apply_sparse_delta_tensor T scale_factor p encoded values)
            (\<lambda>out. Inr (finish_one st name (numel values) out)))"

definition load_record ::
  "torch_ops \<Rightarrow> int option \<Rightarrow> load_state \<Rightarrow> stream_record \<Rightarrow> load_state res" where
  "load_record T scale_factor st r =
     (if rversion r = 2 then
        (case rshape r of
           None \<Rightarrow> Inl (ValueError ''logical streaming delta has no shape'')
         | Some shape \<Rightarrow> load_logical T scale_factor st (rname r) shape (rindices r) (rvalues r))
      else load_direct T scale_factor st (rname r) (rindices r) (rvalues r))"

text \<open>The streaming loop, over the records the generator yields and how it ends.\<close>

fun load_records ::
  "torch_ops \<Rightarrow> int option \<Rightarrow> string set \<Rightarrow> load_state \<Rightarrow> stream_record list \<Rightarrow> pyerr option \<Rightarrow>
   load_state \<times> unit res" where
  "load_records T scale_factor seen st [] err = (st, case err of None \<Rightarrow> Inr () | Some e \<Rightarrow> Inl e)"
| "load_records T scale_factor seen st (r # rs) err =
     (if rname r \<in> seen then (st, Inl (ValueError ''duplicate sparse delta tensor''))
      else case load_record T scale_factor st r of
        Inl e \<Rightarrow> (st, Inl e)
      | Inr st' \<Rightarrow> load_records T scale_factor (insert (rname r) seen) st' rs err)"

fun load_names ::
  "(load_state \<Rightarrow> string \<Rightarrow> load_state res) \<Rightarrow> load_state \<Rightarrow> string list \<Rightarrow> load_state \<times> unit res" where
  "load_names f st [] = (st, Inr ())"
| "load_names f st (n # ns) =
     (case f st n of Inl e \<Rightarrow> (st, Inl e) | Inr st' \<Rightarrow> load_names f st' ns)"

definition load_from_store ::
  "torch_ops \<Rightarrow> int option \<Rightarrow> load_state \<Rightarrow> store \<Rightarrow> load_state \<times> unit res" where
  "load_from_store T scale_factor st delta =
     (let delta_format = meta_format (store_meta delta);
          idx_names = names_with idx_suffix (store_keys delta);
          val_names = names_with val_suffix (store_keys delta);
          read = (\<lambda>st name f. bindR (get_tensor delta (name @ val_suffix)) (\<lambda>values.
                    bindR (get_tensor delta (name @ idx_suffix)) (\<lambda>encoded. f encoded values)))
      in if delta_format \<notin> {None, Some format_v1, Some format_v2}
         then (st, Inl (ValueError ''unsupported sparse delta format''))
         else if delta_format = Some format_v2 \<and> meta_layout (store_meta delta) \<noteq> Some layout_logical
         then (st, Inl (ValueError ''unsupported logical sparse delta layout''))
         else if idx_names = [] \<and> val_names = [] \<and> \<not> is_sparse_delta_store delta
         then (st, Inl (ValueError ''does not look like a sparse delta file''))
         else if idx_names = [] \<and> val_names = [] then (st, Inr ())
         else if set idx_names \<noteq> set val_names
         then (st, Inl (ValueError ''delta index/value names mismatch''))
         else if delta_format = Some format_v2 then
           (case sparse_delta_shapes (store_meta delta) of
              Inl e \<Rightarrow> (st, Inl e)
            | Inr shapes \<Rightarrow>
                if set (dkeys shapes) \<noteq> set idx_names
                then (st, Inl (ValueError ''logical delta shape/name mismatch''))
                else load_names (\<lambda>st name. read st name
                       (load_logical T scale_factor st name (the (dget shapes name))))
                     st (sort idx_names))
         else if \<not> set idx_names \<subseteq> set (dkeys (params (ld_model st)))
         then (st, Inl (ValueError ''delta contains parameters not present in the vLLM model''))
         else load_names (\<lambda>st name. read st name (load_direct T scale_factor st name)) st (sort idx_names))"

definition load_sparse_delta_weights ::
  "torch_ops \<Rightarrow> int option \<Rightarrow> vllm_model \<Rightarrow> byte list + store \<Rightarrow> load_state \<times> unit res" where
  "load_sparse_delta_weights T scale_factor model delta =
     (let st = \<lparr>ld_model = model, ld_updated = 0, ld_delta_values = 0, ld_full_tensor_updates = 0\<rparr> in
      case delta of
        Inl file \<Rightarrow>
          (if \<not> is_streaming_delta_file file then (st, Inl (ValueError ''SafetensorError''))
           else let (records, err) = iter_streaming_delta_records file in
             load_records T scale_factor {} st records err)
      | Inr s \<Rightarrow> load_from_store T scale_factor st s)"

section \<open>Kernel-format transfer\<close>

text \<open>A logical-to-physical expert map has one row per logical expert; \<open>-1\<close> is an unused slot.\<close>

definition scatter_row :: "int list \<Rightarrow> nat \<times> int list \<Rightarrow> int list" where
  "scatter_row acc row =
     foldl (\<lambda>acc phys. if phys \<ge> 0 then acc[nat phys := int (fst row)] else acc) acc (snd row)"

definition invert_logical_to_physical_map :: "int list list \<Rightarrow> nat \<Rightarrow> int list res" where
  "invert_logical_to_physical_map logical_to_physical num_physical =
     (if \<exists>row \<in> set logical_to_physical. \<exists>p \<in> set row. p < -1 \<or> p \<ge> int num_physical
      then Inl (ValueError ''EPLB maps to invalid physical experts'')
      else Inr (foldl scatter_row (replicate num_physical (-1)) (enumerate 0 logical_to_physical)))"

record moe_module =
  expert_map :: "int list option"
  eplb_map :: "int list list option"
  global_num_experts :: nat

definition build_expert_source_indices :: "moe_module \<Rightarrow> int list option res" where
  "build_expert_source_indices m =
     (case expert_map m of
        None \<Rightarrow> Inr None
      | Some emap \<Rightarrow>
          let local = sort_key (\<lambda>p. emap ! p) (filter (\<lambda>p. emap ! p \<ge> 0) [0..<length emap]) in
          case eplb_map m of
            None \<Rightarrow> Inr (Some (map int local))
          | Some l2p \<Rightarrow>
              bindR (invert_logical_to_physical_map l2p (global_num_experts m)) (\<lambda>p2l.
                if \<exists>p \<in> set local. p \<ge> length p2l then Inl (IndexError ''index out of range'')
                else let logical = map (\<lambda>p. p2l ! p) local in
                  if \<exists>x \<in> set logical. x < 0
                  then Inl (ValueError ''EPLB has no logical mapping for local physical experts'')
                  else Inr (Some logical)))"

fun build_expert_map :: "(string \<times> moe_module) list \<Rightarrow> (string \<times> int list) list res" where
  "build_expert_map [] = Inr []"
| "build_expert_map ((name, m) # ms) =
     bindR (build_expert_source_indices m) (\<lambda>indices.
     bindR (build_expert_map ms) (\<lambda>rest.
       Inr (case indices of None \<Rightarrow> rest | Some is \<Rightarrow> (name, is) # rest)))"

text \<open>\<open>tensor[indices]\<close>: rows of the first dimension.\<close>

definition select_rows :: "tensor \<Rightarrow> int list \<Rightarrow> tensor res" where
  "select_rows t indices =
     (case tshape t of
        [] \<Rightarrow> Inl (IndexError ''too many indices for tensor of dimension 0'')
      | n # rest \<Rightarrow>
          bindR (mapR (\<lambda>i. if - int n \<le> i \<and> i < int n then Inr (nat (i mod int n))
                           else Inl (IndexError ''index out of range'')) indices) (\<lambda>rows.
            let w = prod_list rest in
            Inr (t\<lparr>tshape := length rows # rest,
                   tdata := concat (map (\<lambda>r. take w (drop (r * w) (tdata t))) rows)\<rparr>)))"

record kernel_load =
  kl_params :: "(string, param) dict"
  kl_loaded :: nat
  kl_skipped :: "string list"
  kl_shape_mismatches :: "string list"

definition copy_into :: "torch_ops \<Rightarrow> param \<Rightarrow> tensor \<Rightarrow> param" where
  "copy_into T p t =
     p\<lparr>p_tensor := (p_tensor p)
         \<lparr>tdata := map (fcast T (tdtype t) (tdtype (p_tensor p))) (tdata t)\<rparr>\<rparr>"

definition kernel_step ::
  "torch_ops \<Rightarrow> (string \<times> int list) list \<Rightarrow> kernel_load \<Rightarrow> string \<times> tensor \<Rightarrow> kernel_load res" where
  "kernel_step T experts st entry =
     (let name = fst entry; t = snd entry in
      case dget (kl_params st) name of
        None \<Rightarrow> Inr (st\<lparr>kl_skipped := kl_skipped st @ [name]\<rparr>)
      | Some p \<Rightarrow>
          bindR (if tshape (p_tensor p) = tshape t then Inr t
                 else case find (\<lambda>e. startswith name (fst e @ ''.'')) experts of
                   None \<Rightarrow> Inr t
                 | Some (_, indices) \<Rightarrow> select_rows t indices) (\<lambda>t.
            if tshape (p_tensor p) \<noteq> tshape t
            then Inr (st\<lparr>kl_shape_mismatches := kl_shape_mismatches st @ [name]\<rparr>)
            else Inr (st\<lparr>kl_params := dput name (copy_into T p t) (kl_params st),
                         kl_loaded := kl_loaded st + 1\<rparr>)))"

text \<open>The parameters after the call, and its result.\<close>

fun kernel_loop ::
  "torch_ops \<Rightarrow> (string \<times> int list) list \<Rightarrow> kernel_load \<Rightarrow> (string \<times> tensor) list \<Rightarrow> kernel_load \<times> unit res" where
  "kernel_loop T experts st [] =
     (st, if kl_shape_mismatches st \<noteq> [] then Inl (ValueError ''shape mismatches'')
          else if kl_skipped st \<noteq> [] then Inl (ValueError ''weights not found in model'')
          else Inr ())"
| "kernel_loop T experts st (e # es) =
     (case kernel_step T experts st e of Inl err \<Rightarrow> (st, Inl err) | Inr st' \<Rightarrow> kernel_loop T experts st' es)"

definition load_weights_kernel ::
  "torch_ops \<Rightarrow> (string, param) dict \<Rightarrow> (string \<times> moe_module) list \<Rightarrow> (string \<times> tensor) list \<Rightarrow>
   (string, param) dict \<times> unit res" where
  "load_weights_kernel T ps moes state_iter =
     (case build_expert_map moes of
        Inl e \<Rightarrow> (ps, Inl e)
      | Inr experts \<Rightarrow>
          let (st, r) = kernel_loop T experts
                \<lparr>kl_params = ps, kl_loaded = 0, kl_skipped = [], kl_shape_mismatches = []\<rparr> state_iter
          in (kl_params st, r))"

section \<open>The full-tensor path\<close>

lemma increasing_lower: "strictly_increasing xs \<Longrightarrow> i \<le> j \<Longrightarrow> j < length xs \<Longrightarrow> xs ! i + int (j - i) \<le> xs ! j"
proof (induction j)
  case (Suc j)
  show ?case
  proof (cases "i = Suc j")
    case False
    then have "xs ! i + int (j - i) \<le> xs ! j" using Suc by simp
    moreover have "xs ! j < xs ! Suc j"
      using Suc.prems sorted_wrt_nth_less [of "(<)" xs j "Suc j"] by (simp add: strictly_increasing_iff)
    ultimately show ?thesis using False Suc.prems(2) by simp
  qed simp
qed simp

lemma cover_indices:
  assumes "indices_cover_flat_tensor indices n" and "strictly_increasing indices"
  shows "indices = map int [0..<n]"
proof (rule nth_equalityI)
  show "length indices = length (map int [0..<n])" using assms(1) by (simp add: indices_cover_flat_tensor_def)
  fix k assume "k < length indices"
  then have ne: "indices \<noteq> []" by auto
  have k: "k < n" "length indices = n" "indices ! 0 = 0" "indices ! (n - 1) = int n - 1"
    using assms(1) \<open>k < length indices\<close>
    by (auto simp: indices_cover_flat_tensor_def hd_conv_nth [OF ne] last_conv_nth [OF ne])
  have "indices ! 0 + int k \<le> indices ! k" "indices ! k + int (n - 1 - k) \<le> indices ! (n - 1)"
    using increasing_lower [OF assms(2), of 0 k] increasing_lower [OF assms(2), of k "n - 1"] k by auto
  then show "indices ! k = map int [0..<n] ! k" using k by simp
qed

lemma add_one_self: "torch_ok T \<Longrightarrow> add_one T d d b v = fadd T d b v"
  by (simp add: add_one_def Let_def torch_ok_promote_self torch_ok_cast_self)

lemma full_tensor_path:
  assumes T: "torch_ok T" and c: "indices_cover_flat_tensor indices (length flat)"
    and s: "strictly_increasing indices" and vs: "length vs = length indices"
  shows "map2 (fadd T d) flat vs = index_copy flat indices (add_values T d flat indices d vs)"
proof (rule nth_equalityI)
  have n: "length indices = length flat" using c by (simp add: indices_cover_flat_tensor_def)
  show "length (map2 (fadd T d) flat vs) = length (index_copy flat indices (add_values T d flat indices d vs))"
    using vs n by simp
  fix k assume "k < length (map2 (fadd T d) flat vs)"
  then have k: "k < length flat" "k < length vs" using vs n by auto
  have i: "indices = map int [0..<length flat]" by (rule cover_indices [OF c s])
  have f: "vs = map (\<lambda>i. vs ! nat i) indices"
    using vs n by (intro nth_equalityI) (auto simp: i)
  have "index_copy flat indices (add_values T d flat indices d vs) ! k = add_one T d d (flat ! k) (vs ! k)"
    using nth_index_copy_map' [OF _ k(1) f] k(1) i by auto
  then show "map2 (fadd T d) flat vs ! k = index_copy flat indices (add_values T d flat indices d vs) ! k"
    using k by (simp add: add_one_self [OF T])
qed

lemma apply_decoded_Inr:
  assumes T: "torch_ok T" and a: "apply_decoded_sparse_delta_tensor T None p indices vs = Inr out"
  shows "fst out = p\<lparr>p_tensor := (p_tensor p)\<lparr>tdata := index_copy (tdata (p_tensor p)) indices
      (add_values T (tdtype (p_tensor p)) (tdata (p_tensor p)) indices (tdtype vs) (tdata vs))\<rparr>\<rparr>"
    "length indices = numel vs"
proof -
  show l: "length indices = numel vs"
    using a by (auto simp: apply_decoded_sparse_delta_tensor_def Let_def split: if_split_asm)
  show "fst out = p\<lparr>p_tensor := (p_tensor p)\<lparr>tdata := index_copy (tdata (p_tensor p)) indices
      (add_values T (tdtype (p_tensor p)) (tdata (p_tensor p)) indices (tdtype vs) (tdata vs))\<rparr>\<rparr>"
  proof (cases "indices = []")
    case True
    then show ?thesis
      using a by (auto simp: apply_decoded_sparse_delta_tensor_def Let_def split: if_split_asm)
  next
    case False
    then have s: "strictly_increasing indices"
      using a by (auto simp: apply_decoded_sparse_delta_tensor_def Let_def split: if_split_asm)
    note full = full_tensor_path [OF T _ s, of "tdata (p_tensor p)" "tdata vs" "tdtype (p_tensor p)"]
    show ?thesis
      using a False l full
      by (auto simp: apply_decoded_sparse_delta_tensor_def Let_def scale_values_def numel_def split: if_split_asm)
  qed
qed

section \<open>What a logical load leaves alone\<close>

text \<open>Two models that differ at most in the elements of their parameters.\<close>

definition same_param :: "param \<Rightarrow> param \<Rightarrow> bool" where
  "same_param p p' \<longleftrightarrow> (\<exists>xs. length xs = length (tdata (p_tensor p)) \<and> p' = p\<lparr>p_tensor := (p_tensor p)\<lparr>tdata := xs\<rparr>\<rparr>)"

definition same_layout :: "vllm_model \<Rightarrow> vllm_model \<Rightarrow> bool" where
  "same_layout M M' \<longleftrightarrow> modules M' = modules M \<and>
     (\<forall>n. rel_option same_param (dget (params M) n) (dget (params M') n))"

lemma same_param_refl [simp]: "same_param p p"
  unfolding same_param_def by (rule exI [of _ "tdata (p_tensor p)"]) simp

lemma same_param_trans: "same_param p q \<Longrightarrow> same_param q r \<Longrightarrow> same_param p r"
  by (auto simp: same_param_def)

lemma same_paramD:
  "same_param p q \<Longrightarrow> tshape (p_tensor q) = tshape (p_tensor p) \<and> tdtype (p_tensor q) = tdtype (p_tensor p)
    \<and> length (tdata (p_tensor q)) = length (tdata (p_tensor p)) \<and> p_contiguous q = p_contiguous p
    \<and> p_input_dim q = p_input_dim p \<and> p_output_dim q = p_output_dim p
    \<and> p_packed_dim q = p_packed_dim p \<and> p_bitsandbytes_4bit q = p_bitsandbytes_4bit p"
  by (auto simp: same_param_def)

lemma same_layout_refl [simp]: "same_layout M M"
  by (simp add: same_layout_def option.rel_refl)

lemma same_layout_cases:
  assumes "same_layout M M'"
  obtains "dget (params M) n = None" "dget (params M') n = None"
    | p p' where "dget (params M) n = Some p" "dget (params M') n = Some p'" "same_param p p'"
proof -
  have r: "rel_option same_param (dget (params M) n) (dget (params M') n)"
    using assms by (simp add: same_layout_def)
  show ?thesis
    by (cases "dget (params M) n"; cases "dget (params M') n") (use r that in auto)
qed

lemma same_layout_trans: "same_layout M M1 \<Longrightarrow> same_layout M1 M2 \<Longrightarrow> same_layout M M2"
proof -
  assume a: "same_layout M M1" and b: "same_layout M1 M2"
  have "rel_option same_param (dget (params M) n) (dget (params M2) n)" for n
  proof (cases rule: same_layout_cases [OF a, of n])
    case 1
    then show ?thesis by (cases rule: same_layout_cases [OF b, of n]) auto
  next
    case (2 p p')
    then show ?thesis by (cases rule: same_layout_cases [OF b, of n]) (auto intro: same_param_trans)
  qed
  then show ?thesis using a b by (simp add: same_layout_def)
qed

lemma same_layout_dom: "same_layout M M' \<Longrightarrow> n \<in> fst ` set (params M') \<longleftrightarrow> n \<in> fst ` set (params M)"
  unfolding in_dkeys_iff by (cases rule: same_layout_cases [of M M' n]) auto

lemma direct_kind_same: "same_param p p' \<Longrightarrow> direct_layout_kind v p' = direct_layout_kind v p"
  by (drule same_paramD) (simp only: direct_layout_kind_def)

lemma mapping_same:
  assumes "same_layout M M'"
  shows "layout_mapping_of M' n = layout_mapping_of M n"
proof -
  have m: "parameter_module M' = parameter_module M"
    using assms by (auto simp: parameter_module_def same_layout_def)
  from assms show ?thesis
    by (cases rule: same_layout_cases [of M M' n])
      (auto simp: layout_mapping_of_def m direct_kind_same same_layout_dom [OF assms] split: option.split)
qed

lemma placement_same: "same_param p p' \<Longrightarrow> placement_of S p' v mp = placement_of S p v mp"
  by (drule same_paramD) (simp only: placement_of_def)

text \<open>Where the elements of a logical tensor live in a model.\<close>

definition located :: "vllm_model \<Rightarrow> string \<Rightarrow> nat list \<Rightarrow> (string \<times> placement) option" where
  "located M name S =
     (case layout_mapping_of M name of
        Inl _ \<Rightarrow> None
      | Inr mp \<Rightarrow>
          (case (dget (params M) (target_name mp), parameter_module M (target_name mp)) of
             (Some p, Inr v) \<Rightarrow> map_option (Pair (target_name mp)) (placement_of S p v mp)
           | _ \<Rightarrow> None))"

lemma located_same: "same_layout M M' \<Longrightarrow> located M' name S = located M name S"
proof -
  assume s: "same_layout M M'"
  have m: "parameter_module M' = parameter_module M"
    using s by (auto simp: parameter_module_def same_layout_def)
  show ?thesis
  proof (cases "layout_mapping_of M name")
    case (Inr mp)
    then show ?thesis
      by (cases rule: same_layout_cases [OF s, of "target_name mp"])
        (simp_all add: located_def mapping_same [OF s] m placement_same split: sum.split)
  qed (simp add: located_def mapping_same [OF s])
qed

section \<open>A logical update succeeds and refines the update of the logical tensor\<close>

definition empty_update :: "string \<Rightarrow> nat list \<Rightarrow> logical_update" where
  "empty_update name S = \<lparr>u_name = name, u_shape = S, u_indices = flat_tensor Int64 [],
     u_values = flat_tensor Float32 []\<rparr>"

text \<open>The inference model accepts updates of a logical tensor: an update without changes is accepted.\<close>

definition supports :: "vllm_model \<Rightarrow> string \<Rightarrow> nat list \<Rightarrow> bool" where
  "supports M name S \<longleftrightarrow>
     (\<exists>l p. to_local M (empty_update name S) = Inr l \<and> dget (params M) (l_name l) = Some p \<and> p_contiguous p)"

lemma project_placement_any:
  "project_placement pl [] S R = Inr out \<Longrightarrow> \<exists>out'. project_placement pl idx S R = Inr out'"
  by (cases pl) (auto simp: project_placement_def project_dimension_def Let_def split: if_split_asm)

lemma project_dimension_any:
  "project_dimension idx S R dn ss sz ts = Inr out \<Longrightarrow> \<exists>out'. project_dimension idx' S R dn ss sz ts = Inr out'"
  by (auto simp: project_dimension_def Let_def split: if_split_asm)

lemma project_update_any:
  assumes "project_update u p v mp = Inr out" and "u_shape u' = u_shape u"
  shows "\<exists>out'. project_update u' p v mp = Inr out'"
proof -
  note any = project_dimension_any [where out = out and idx = "tdata (u_indices u)" and idx' = "tdata (u_indices u')"]
  have reg: "\<exists>o'. project_regular u' p v a = Inr o'" if r: "project_regular u p v a = Inr out" for a
  proof -
    obtain dn rank n sz where x: "a = Some dn" "tensor_parallel_position v = Inr (rank, n)"
      "py_index (u_shape u) dn = Inr sz"
      using r by (auto simp: project_regular_def res_simps split: option.split_asm)
    show ?thesis using r any assms(2)
      by (cases "int sz mod n = 0") (auto simp: project_regular_def x Let_def)
  qed
  have mer: "\<exists>o'. project_merged_column u' p v k = Inr o'" if r: "project_merged_column u p v k = Inr out" for k
  proof -
    obtain sizes sz where x: "m_output_sizes v = Some sizes" "py_index (u_shape u) 0 = Inr sz"
      using r by (auto simp: project_merged_column_def res_simps split: option.split_asm if_split_asm)
    obtain rank n where tp: "tensor_parallel_position v = Inr (rank, n)"
      using r by (auto simp: project_merged_column_def x res_simps split: if_split_asm)
    show ?thesis using r any assms(2)
      by (auto simp: project_merged_column_def x tp Let_def split: if_split_asm)
  qed
  have voc: "\<exists>o'. project_vocab u' p v = Inr o'" if r: "project_vocab u p v = Inr out"
  proof -
    obtain a e where x: "m_shard_indices v = Some (a, e)"
      using r by (auto simp: project_vocab_def split: option.split_asm)
    show ?thesis using r assms(2) any unfolding project_vocab_def x by simp
  qed
  have qkv: "\<exists>o'. project_qkv u' p v s = Inr o'" if q: "project_qkv u p v s = Inr out" for s
  proof -
    obtain q where q1: "m_qkv v = Some q" using q by (auto simp: project_qkv_def split: option.split_asm)
    obtain gs ls where ls: "qkv_global_size q s = Some gs" "qkv_local_size q s = Some ls"
      using q by (auto simp: project_qkv_def q1 res_simps split: option.split_asm)
    obtain sz where sz: "py_index (u_shape u) 0 = Inr sz" "int sz = gs"
      using q by (auto simp: project_qkv_def q1 ls res_simps split: if_split_asm)
    obtain rank n where tp: "tensor_parallel_position v = Inr (rank, n)"
      using q by (auto simp: project_qkv_def q1 ls res_simps split: if_split_asm)
    define k where "k = (case num_kv_head_replicas q of None \<Rightarrow> 1 | Some n \<Rightarrow> n)"
    have k: "\<not> (s \<noteq> ''q'' \<and> k = 0)"
      using q by (auto simp: project_qkv_def q1 ls sz tp k_def Let_def split: if_split_asm)
    define f where "f idx = project_dimension idx (u_shape u) (tshape (p_tensor p)) 0
        ((if s = ''q'' then rank else rank div k) * ls) ls (qkv_target_start q s)" for idx
    have f: "project_qkv w p v s = f (tdata (u_indices w))" if "u_shape w = u_shape u" for w
      by (simp add: project_qkv_def q1 ls tp that f_def Let_def k_def [symmetric] sz if_not_P [OF k])
    have "f (tdata (u_indices u)) = Inr out" using q f [of u] by simp
    then have "\<exists>o'. f (tdata (u_indices u')) = Inr o'" unfolding f_def by (rule any)
    then show ?thesis using f [OF assms(2)] by simp
  qed
  show ?thesis
  proof (cases "layout_kind mp = ''qkv'' \<or> layout_kind mp = ''merged_column''")
    case True
    then show ?thesis using assms(1) qkv mer
      by (cases "layout_shard mp") (auto simp: project_update_def)
  next
    case False
    have "layout_kind mp = ''row'' \<or> layout_kind mp = ''column'' \<or> layout_kind mp = ''vocab'' \<or>
        layout_kind mp = ''replicated''"
      using assms(1) False by (auto simp: project_update_def Let_def split: if_split_asm)
    then show ?thesis
      using assms reg [of "p_input_dim p"] reg [of "p_output_dim p"] voc
      by (elim disjE) (auto simp: project_update_def split: if_split_asm)
  qed
qed

lemma to_local_Inr:
  assumes "to_local M u = Inr l"
  obtains mp p v pl bits where "layout_mapping_of M (u_name u) = Inr mp" "l_name l = target_name mp"
    "dget (params M) (target_name mp) = Some p" "parameter_module M (target_name mp) = Inr v"
    "validate_supported_parameter p v = Inr ()" "validate_update u = Inr ()"
    "project_update u p v mp = Inr (l_indices l, bits)"
    "placement_of (u_shape u) p v mp = Some pl" "located M (u_name u) (u_shape u) = Some (target_name mp, pl)"
    "project_placement pl (tdata (u_indices u)) (u_shape u) (tshape (p_tensor p)) = Inr (l_indices l, bits)"
    "l_values l = flat_tensor (tdtype (u_values u)) (mask_select bits (tdata (u_values u)))"
proof -
  obtain mp p v bits where x: "layout_mapping_of M (u_name u) = Inr mp" "l_name l = target_name mp"
    "dget (params M) (target_name mp) = Some p" "parameter_module M (target_name mp) = Inr v"
    "validate_supported_parameter p v = Inr ()" "validate_update u = Inr ()"
    "project_update u p v mp = Inr (l_indices l, bits)"
    "l_values l = flat_tensor (tdtype (u_values u)) (mask_select bits (tdata (u_values u)))"
    using assms by (auto simp: to_local_def res_simps split: option.split_asm)
  obtain pl where pl: "placement_of (u_shape u) p v mp = Some pl"
    "project_placement pl (tdata (u_indices u)) (u_shape u) (tshape (p_tensor p)) = Inr (l_indices l, bits)"
    using project_update_placement [OF x(7)] by blast
  show ?thesis by (rule that [OF x(1-7) pl(1) _ pl(2) x(8)]) (simp add: located_def x pl)
qed

lemma validate_update_iff:
  "validate_update \<lparr>u_name = n, u_shape = S, u_indices = flat_tensor Int64 idx, u_values = vs\<rparr> = Inr () \<longleftrightarrow>
   length idx = numel vs \<and> strictly_increasing idx \<and> (\<forall>i \<in> set idx. 0 \<le> i \<and> i < int (prod_list S))"
proof (cases "idx = []")
  case False
  have "(\<forall>i \<in> set idx. 0 \<le> i \<and> i < int (prod_list S)) \<longleftrightarrow> 0 \<le> hd idx \<and> last idx < int (prod_list S)"
    if "strictly_increasing idx"
  proof
    assume h: "0 \<le> hd idx \<and> last idx < int (prod_list S)"
    show "\<forall>i \<in> set idx. 0 \<le> i \<and> i < int (prod_list S)"
    proof
      fix i assume "i \<in> set idx"
      then obtain k where k: "k < length idx" "i = idx ! k" by (auto simp: in_set_conv_nth)
      have e: "k \<le> length idx - 1" "length idx - 1 < length idx" using k by auto
      have "idx ! 0 \<le> i" "i \<le> idx ! (length idx - 1)"
        using increasing_lower [OF that, of 0 k] increasing_lower [OF that e] k by linarith+
      then show "0 \<le> i \<and> i < int (prod_list S)"
        using h by (simp add: hd_conv_nth [OF False] last_conv_nth [OF False])
    qed
  qed (use False in auto)
  then show ?thesis using False by (auto simp: validate_update_def Let_def not_le)
qed (auto simp: validate_update_def Let_def)

lemma apply_decoded_ok:
  assumes "p_contiguous p" and "length idx = numel vs" and "strictly_increasing idx"
    and "\<forall>i \<in> set idx. 0 \<le> i \<and> i < int (length (tdata (p_tensor p)))"
  shows "\<exists>out. apply_decoded_sparse_delta_tensor T sc p idx vs = Inr out"
  using assms by (cases "idx = []") (auto simp: apply_decoded_sparse_delta_tensor_def Let_def in_range_iff)

text \<open>One logical update on a model: it succeeds, touches one parameter, and keeps in step with the
  update of the logical tensor.\<close>

lemma load_logical_step:
  assumes T: "torch_ok T" and s: "supports (ld_model st) name S"
    and dec: "decode_sparse_indices enc (numel vs) = Inr idx" and n: "length idx = numel vs"
    and inc: "strictly_increasing idx" and rng: "\<forall>i \<in> set idx. 0 \<le> i \<and> i < int (prod_list S)"
    and wf: "\<And>t p. dget (params (ld_model st)) t = Some p \<Longrightarrow> length (tdata (p_tensor p)) = prod_list (tshape (p_tensor p))"
  obtains st' tgt pl p loc bits where "load_logical T None st name S enc vs = Inr st'"
    "located (ld_model st) name S = Some (tgt, pl)" "dget (params (ld_model st)) tgt = Some p"
    "project_placement pl idx S (tshape (p_tensor p)) = Inr (loc, bits)"
    "ld_model st' = (ld_model st)\<lparr>params := dput tgt (p\<lparr>p_tensor := (p_tensor p)\<lparr>tdata :=
        index_copy (tdata (p_tensor p)) loc (add_values T (tdtype (p_tensor p)) (tdata (p_tensor p)) loc
          (tdtype vs) (mask_select bits (tdata vs)))\<rparr>\<rparr>) (params (ld_model st))\<rparr>"
proof -
  let ?M = "ld_model st"
  let ?u = "\<lparr>u_name = name, u_shape = S, u_indices = flat_tensor Int64 idx, u_values = vs\<rparr>"
  obtain l0 p where l0: "to_local ?M (empty_update name S) = Inr l0" "dget (params ?M) (l_name l0) = Some p"
    "p_contiguous p" using s by (auto simp: supports_def)
  obtain mp v where x: "layout_mapping_of ?M name = Inr mp" "l_name l0 = target_name mp"
    "parameter_module ?M (target_name mp) = Inr v"
    "validate_supported_parameter p v = Inr ()" "\<exists>o0. project_update (empty_update name S) p v mp = Inr o0"
    using to_local_Inr [OF l0(1)] l0(2) by (auto simp: empty_update_def) (metis (no_types, lifting) option.inject)
  obtain o0 where o0: "project_update (empty_update name S) p v mp = Inr o0" using x(5) by blast
  obtain loc bits where o1: "project_update ?u p v mp = Inr (loc, bits)"
    using project_update_any [OF o0, of ?u] by (auto simp: empty_update_def)
  have vu: "validate_update ?u = Inr ()" using n inc rng by (simp add: validate_update_iff)
  define l where "l = \<lparr>l_name = target_name mp, l_indices = loc,
      l_values = flat_tensor (tdtype vs) (mask_select bits (tdata vs))\<rparr>"
  have l: "to_local ?M ?u = Inr l"
    using x l0(2) o1 vu by (simp add: to_local_def l_def)
  obtain pl where pl: "placement_of S p v mp = Some pl"
    "project_placement pl idx S (tshape (p_tensor p)) = Inr (loc, bits)"
    using project_update_placement [OF o1] by auto
  have loc: "located ?M name S = Some (target_name mp, pl)" using x l0(2) pl by (simp add: located_def)
  have len: "length (tdata (p_tensor p)) = prod_list (tshape (p_tensor p))" using wf l0(2) by blast
  have vsl: "length (tdata vs) = length idx" using n by (simp add: numel_def)
  obtain G :: "int list" where G: "length G = prod_list S" using Ex_list_of_length by blast
  note pc = placement_commutes [OF pl(2) inc rng G len vsl]
  obtain out where out: "apply_decoded_sparse_delta_tensor T None p loc (l_values l) = Inr out"
    using apply_decoded_ok [OF l0(3), of loc "l_values l" T None] pc len by (auto simp: l_def)
  have fo: "fst out = p\<lparr>p_tensor := (p_tensor p)\<lparr>tdata :=
        index_copy (tdata (p_tensor p)) loc (add_values T (tdtype (p_tensor p)) (tdata (p_tensor p)) loc
          (tdtype vs) (mask_select bits (tdata vs)))\<rparr>\<rparr>"
    using apply_decoded_Inr(1) [OF T out] by (simp add: l_def)
  show ?thesis
  proof (rule that [OF _ loc _ pl(2)])
    show "load_logical T None st name S enc vs = Inr (finish_one st (target_name mp) (numel vs) out)"
      using dec l out l0(2) x(2) by (simp add: load_logical_def l_def)
  qed (use l0(2) x(2) fo in \<open>simp_all add: finish_one_def\<close>)
qed

section \<open>A streamed delta keeps a model in step with its logical tensors\<close>

lemma project_update_same: "same_param p p' \<Longrightarrow> project_update u p' v mp = project_update u p v mp"
  by (drule same_paramD) (simp only: project_update_def project_qkv_def project_merged_column_def
      project_regular_def project_vocab_def)

lemma validate_supported_same:
  "same_param p p' \<Longrightarrow> validate_supported_parameter p' v = validate_supported_parameter p v"
  by (drule same_paramD) (simp only: validate_supported_parameter_def)

lemma to_local_same: "same_layout M M' \<Longrightarrow> to_local M' u = to_local M u"
proof -
  assume s: "same_layout M M'"
  have m: "parameter_module M' = parameter_module M"
    using s by (auto simp: parameter_module_def same_layout_def)
  show ?thesis
  proof (cases "layout_mapping_of M (u_name u)")
    case (Inr mp)
    then show ?thesis
      by (cases rule: same_layout_cases [OF s, of "target_name mp"])
        (simp_all add: to_local_def mapping_same [OF s] m project_update_same validate_supported_same)
  qed (simp add: to_local_def mapping_same [OF s])
qed

lemma supports_same: "same_layout M M' \<Longrightarrow> supports M name S \<Longrightarrow> supports M' name S"
proof -
  assume s: "same_layout M M'" and "supports M name S"
  then obtain l p where l: "to_local M (empty_update name S) = Inr l" "dget (params M) (l_name l) = Some p"
    "p_contiguous p" by (auto simp: supports_def)
  show ?thesis
    by (cases rule: same_layout_cases [OF s, of "l_name l"])
      (use l to_local_same [OF s] in \<open>auto simp: supports_def dest: same_paramD\<close>)
qed

definition model_wf :: "vllm_model \<Rightarrow> bool" where
  "model_wf M \<longleftrightarrow>
     (\<forall>t p. dget (params M) t = Some p \<longrightarrow> length (tdata (p_tensor p)) = prod_list (tshape (p_tensor p)))"

lemma model_wf_same: "same_layout M M' \<Longrightarrow> model_wf M \<Longrightarrow> model_wf M'"
proof -
  assume s: "same_layout M M'" and w: "model_wf M"
  show ?thesis
    unfolding model_wf_def
  proof (intro allI impI)
    fix t p assume "dget (params M') t = Some p"
    then show "length (tdata (p_tensor p)) = prod_list (tshape (p_tensor p))"
      by (cases rule: same_layout_cases [OF s, of t])
        (use w in \<open>auto simp: model_wf_def dest!: same_paramD\<close>)
  qed
qed

text \<open>Every logical tensor of \<open>names\<close> is supported and stored, whole or in part, by its parameter.\<close>

definition holds :: "vllm_model \<Rightarrow> string set \<Rightarrow> (string \<Rightarrow> tensor) \<Rightarrow> bool" where
  "holds M names X \<longleftrightarrow>
     (\<forall>n \<in> names. supports M n (tshape (X n)) \<and> length (tdata (X n)) = prod_list (tshape (X n)) \<and>
        (\<forall>tgt pl p. located M n (tshape (X n)) = Some (tgt, pl) \<longrightarrow> dget (params M) tgt = Some p \<longrightarrow>
           tdtype (p_tensor p) = tdtype (X n) \<and>
           holds_part pl (tshape (X n)) (tshape (p_tensor p)) (tdata (X n)) (tdata (p_tensor p))))"

definition parts_apart :: "vllm_model \<Rightarrow> string set \<Rightarrow> (string \<Rightarrow> nat list) \<Rightarrow> bool" where
  "parts_apart M names shape \<longleftrightarrow>
     (\<forall>n \<in> names. \<forall>m \<in> names. n \<noteq> m \<longrightarrow>
        (\<forall>tgt pl pl' p. located M n (shape n) = Some (tgt, pl) \<longrightarrow> located M m (shape m) = Some (tgt, pl') \<longrightarrow>
           dget (params M) tgt = Some p \<longrightarrow> apart (tshape (p_tensor p)) pl pl'))"

lemma parts_apart_same: "same_layout M M' \<Longrightarrow> parts_apart M names shape \<Longrightarrow> parts_apart M' names shape"
proof -
  assume s: "same_layout M M'" and w: "parts_apart M names shape"
  show ?thesis
    unfolding parts_apart_def located_same [OF s]
  proof (intro ballI allI impI)
    fix n m tgt pl pl' p'
    assume a: "n \<in> names" "m \<in> names" "n \<noteq> m" "located M n (shape n) = Some (tgt, pl)"
      "located M m (shape m) = Some (tgt, pl')" "dget (params M') tgt = Some p'"
    show "apart (tshape (p_tensor p')) pl pl'"
    proof (cases rule: same_layout_cases [OF s, of tgt])
      case 1
      then show ?thesis using a by simp
    next
      case (2 p q)
      then show ?thesis using w a same_paramD [OF 2(3)] unfolding parts_apart_def by auto
    qed
  qed
qed

lemma same_layout_update:
  assumes "dget (params M) tgt = Some p" and "length xs = length (tdata (p_tensor p))"
  shows "same_layout M (M\<lparr>params := dput tgt (p\<lparr>p_tensor := (p_tensor p)\<lparr>tdata := xs\<rparr>\<rparr>) (params M)\<rparr>)"
proof -
  have "same_param p (p\<lparr>p_tensor := (p_tensor p)\<lparr>tdata := xs\<rparr>\<rparr>)"
    using assms(2) by (auto simp: same_param_def)
  then show ?thesis
    using assms(1) by (auto simp: same_layout_def dict_simps option.rel_refl)
qed

definition updated_data :: "torch_ops \<Rightarrow> tensor \<Rightarrow> int list \<Rightarrow> tensor \<Rightarrow> int list" where
  "updated_data T t idx vs =
     index_copy (tdata t) idx (add_values T (tdtype t) (tdata t) idx (tdtype vs) (tdata vs))"

lemma load_logical_holds:
  assumes T: "torch_ok T" and h: "holds (ld_model st) names X" and wf: "model_wf (ld_model st)"
    and ap: "parts_apart (ld_model st) names (tshape \<circ> X)" and n: "name \<in> names"
    and dec: "decode_sparse_indices enc (numel vs) = Inr idx" "length idx = numel vs"
    and inc: "strictly_increasing idx" and rng: "\<forall>i \<in> set idx. 0 \<le> i \<and> i < int (length (tdata (X name)))"
  shows "\<exists>st'. load_logical T None st name (tshape (X name)) enc vs = Inr st' \<and>
     same_layout (ld_model st) (ld_model st') \<and>
     holds (ld_model st') names (X(name := (X name)\<lparr>tdata := updated_data T (X name) idx vs\<rparr>))"
proof -
  let ?M = "ld_model st" and ?S = "tshape (X name)"
  have s: "supports ?M name ?S" and len: "length (tdata (X name)) = prod_list ?S"
    using h n by (auto simp: holds_def)
  obtain st' tgt pl p loc bits where l: "load_logical T None st name ?S enc vs = Inr st'"
    "located ?M name ?S = Some (tgt, pl)" "dget (params ?M) tgt = Some p"
    "project_placement pl idx ?S (tshape (p_tensor p)) = Inr (loc, bits)"
    "ld_model st' = ?M\<lparr>params := dput tgt (p\<lparr>p_tensor := (p_tensor p)\<lparr>tdata :=
        index_copy (tdata (p_tensor p)) loc (add_values T (tdtype (p_tensor p)) (tdata (p_tensor p)) loc
          (tdtype vs) (mask_select bits (tdata vs)))\<rparr>\<rparr>) (params ?M)\<rparr>"
    by (rule load_logical_step [OF T s dec inc]) (use rng len wf in \<open>auto simp: model_wf_def\<close>)
  define xs where "xs = index_copy (tdata (p_tensor p)) loc (add_values T (tdtype (p_tensor p))
      (tdata (p_tensor p)) loc (tdtype vs) (mask_select bits (tdata vs)))"
  have M': "ld_model st' = ?M\<lparr>params := dput tgt (p\<lparr>p_tensor := (p_tensor p)\<lparr>tdata := xs\<rparr>\<rparr>) (params ?M)\<rparr>"
    by (simp add: l(5) xs_def)
  have same: "same_layout ?M (ld_model st')"
    unfolding M' by (rule same_layout_update [OF l(3)]) (simp add: xs_def)
  have dt: "tdtype (p_tensor p) = tdtype (X name)"
    and hp: "holds_part pl ?S (tshape (p_tensor p)) (tdata (X name)) (tdata (p_tensor p))"
    using h n l(2,3) by (auto simp: holds_def)
  have lp: "length (tdata (p_tensor p)) = prod_list (tshape (p_tensor p))" using wf l(3) by (simp add: model_wf_def)
  have vl: "length (tdata vs) = length idx" using dec(2) by (simp add: numel_def)
  have rng': "\<forall>i \<in> set idx. 0 \<le> i \<and> i < int (prod_list ?S)" using rng len by simp
  have new: "holds_part pl ?S (tshape (p_tensor p)) (updated_data T (X name) idx vs) xs"
    using placement_commutes(4) [OF l(4) inc rng' len lp vl hp] by (simp add: updated_data_def xs_def dt)
  let ?X = "X(name := (X name)\<lparr>tdata := updated_data T (X name) idx vs\<rparr>)"
  have shape: "tshape (?X m) = tshape (X m)" "tdtype (?X m) = tdtype (X m)"
    "length (tdata (?X m)) = length (tdata (X m))" for m
    by (simp_all add: updated_data_def)
  have "holds (ld_model st') names ?X"
    unfolding holds_def
  proof (intro ballI conjI allI impI)
    fix m assume m: "m \<in> names"
    show "supports (ld_model st') m (tshape (?X m))"
      using supports_same [OF same] h m by (simp only: shape) (simp add: holds_def)
    show "length (tdata (?X m)) = prod_list (tshape (?X m))"
      using h m by (simp only: shape) (simp add: holds_def)
    fix tgt' pl' q assume loc': "located (ld_model st') m (tshape (?X m)) = Some (tgt', pl')"
      and q: "dget (params (ld_model st')) tgt' = Some q"
    have lm: "located ?M m (tshape (X m)) = Some (tgt', pl')"
      using loc' by (simp only: located_same [OF same] shape)
    obtain q0 where q0: "dget (params ?M) tgt' = Some q0" "tshape (p_tensor q) = tshape (p_tensor q0)"
      "tdtype (p_tensor q) = tdtype (p_tensor q0)"
      by (cases rule: same_layout_cases [OF same, of tgt']) (use q in \<open>auto dest: same_paramD\<close>)
    have old: "tdtype (p_tensor q0) = tdtype (X m)"
      "holds_part pl' (tshape (X m)) (tshape (p_tensor q0)) (tdata (X m)) (tdata (p_tensor q0))"
      using h m lm q0(1) by (auto simp: holds_def)
    show "tdtype (p_tensor q) = tdtype (?X m)" using q0 old by (simp only: shape)
    show "holds_part pl' (tshape (?X m)) (tshape (p_tensor q)) (tdata (?X m)) (tdata (p_tensor q))"
    proof (cases "tgt' = tgt")
      case False
      then have "q = q0" using q q0(1) by (simp add: M' dict_simps)
      moreover have "m \<noteq> name" using lm l(2) False by auto
      ultimately show ?thesis using old by simp
    next
      case True
      then have qx: "tdata (p_tensor q) = xs" and q0p: "q0 = p" using q q0(1) l(3) by (auto simp: M' dict_simps)
      show ?thesis
      proof (cases "m = name")
        case True
        then show ?thesis using lm l(2) new q0 qx q0p by auto
      next
        case False
        have apart: "apart (tshape (p_tensor p)) pl pl'"
          by (rule ap [unfolded parts_apart_def comp_def, rule_format, OF n m not_sym [OF False] l(2)
                lm [unfolded True] l(3)])
        obtain o0 where "project_placement pl' [] (tshape (X m)) (tshape (p_tensor p)) = Inr o0"
        proof -
          obtain l0 where l0: "to_local ?M (empty_update m (tshape (X m))) = Inr l0"
            using h m by (auto simp: holds_def supports_def)
          show ?thesis
            by (rule to_local_Inr [OF l0]) (use lm True l(3) that in \<open>auto simp: empty_update_def\<close>)
        qed
        then obtain loc' bits' where p': "project_placement pl' [] (tshape (X m)) (tshape (p_tensor p)) = Inr (loc', bits')"
          by (cases o0) auto
        have lm': "length (tdata (X m)) = prod_list (tshape (X m))" using h m by (simp add: holds_def)
        have "holds_part pl' (tshape (X m)) (tshape (p_tensor p)) (tdata (X m)) xs"
          unfolding xs_def
          by (rule apart_preserves [OF l(4) p' apart rng' lm' lp]) (use old q0p in simp)
        then show ?thesis using False q0 qx q0p by simp
      qed
    qed
  qed
  then show ?thesis using l(1) same by blast
qed

lemma load_records_holds:
  assumes T: "torch_ok T"
    and rs: "distinct (map rname rs)" "rname ` set rs \<inter> seen = {}" "rname ` set rs \<subseteq> names"
    and h: "holds (ld_model st) names X" and wf: "model_wf (ld_model st)"
    and ap: "parts_apart (ld_model st) names (tshape \<circ> X)"
    and r: "\<And>r. r \<in> set rs \<Longrightarrow> rversion r = 2 \<and> rshape r = Some (tshape (X (rname r))) \<and>
       decode_sparse_indices (rindices r) (numel (rvalues r)) = Inr (I (rname r)) \<and>
       length (I (rname r)) = numel (rvalues r) \<and> strictly_increasing (I (rname r)) \<and>
       (\<forall>i \<in> set (I (rname r)). 0 \<le> i \<and> i < int (length (tdata (X (rname r)))))"
  shows "\<exists>st' X'. load_records T None seen st rs None = (st', Inr ()) \<and> same_layout (ld_model st) (ld_model st')
     \<and> holds (ld_model st') names X' \<and> (\<forall>n. n \<notin> rname ` set rs \<longrightarrow> X' n = X n)
     \<and> (\<forall>r \<in> set rs. X' (rname r) = (X (rname r))\<lparr>tdata := updated_data T (X (rname r)) (I (rname r)) (rvalues r)\<rparr>)"
  using rs h wf ap r
proof (induction rs arbitrary: seen st X)
  case Nil
  then show ?case by auto
next
  case (Cons a rs)
  have ra: "rversion a = 2 \<and> rshape a = Some (tshape (X (rname a))) \<and>
       decode_sparse_indices (rindices a) (numel (rvalues a)) = Inr (I (rname a)) \<and>
       length (I (rname a)) = numel (rvalues a) \<and> strictly_increasing (I (rname a)) \<and>
       (\<forall>i \<in> set (I (rname a)). 0 \<le> i \<and> i < int (length (tdata (X (rname a)))))"
    using Cons.prems(7) [of a] by simp
  let ?X = "X(rname a := (X (rname a))\<lparr>tdata := updated_data T (X (rname a)) (I (rname a)) (rvalues a)\<rparr>)"
  have na: "rname a \<in> names" "rname a \<notin> seen" using Cons.prems by auto
  obtain st1 where st1: "load_logical T None st (rname a) (tshape (X (rname a))) (rindices a) (rvalues a) = Inr st1"
    "same_layout (ld_model st) (ld_model st1)" "holds (ld_model st1) names ?X"
    using load_logical_holds [OF T Cons.prems(4,5,6) na(1), of "rindices a" "rvalues a" "I (rname a)"] ra by blast
  have ns: "rname r \<noteq> rname a" if "r \<in> set rs" for r
    using Cons.prems(1) that by (metis distinct.simps(2) imageI list.map(2) list.set_map)
  have shape: "tshape (?X n) = tshape (X n)" "length (tdata (?X n)) = length (tdata (X n))" for n
    by (simp_all add: updated_data_def)
  have ap1: "parts_apart (ld_model st1) names (tshape \<circ> ?X)"
  proof -
    have "tshape \<circ> ?X = tshape \<circ> X" using shape(1) by (intro ext) (simp only: comp_def)
    then show ?thesis using parts_apart_same [OF st1(2) Cons.prems(6)] by (simp only:)
  qed
  have "\<exists>st' X'. load_records T None (insert (rname a) seen) st1 rs None = (st', Inr ())
     \<and> same_layout (ld_model st1) (ld_model st')
     \<and> holds (ld_model st') names X' \<and> (\<forall>n. n \<notin> rname ` set rs \<longrightarrow> X' n = ?X n)
     \<and> (\<forall>r \<in> set rs. X' (rname r) = (?X (rname r))\<lparr>tdata := updated_data T (?X (rname r)) (I (rname r)) (rvalues r)\<rparr>)"
  proof (rule Cons.IH [OF _ _ _ st1(3) model_wf_same [OF st1(2) Cons.prems(5)] ap1])
    fix r assume "r \<in> set rs"
    then show "rversion r = 2 \<and> rshape r = Some (tshape (?X (rname r))) \<and>
       decode_sparse_indices (rindices r) (numel (rvalues r)) = Inr (I (rname r)) \<and>
       length (I (rname r)) = numel (rvalues r) \<and> strictly_increasing (I (rname r)) \<and>
       (\<forall>i \<in> set (I (rname r)). 0 \<le> i \<and> i < int (length (tdata (?X (rname r)))))"
      using Cons.prems(7) [of r] by (simp only: shape) simp
  qed (use Cons.prems ns in auto)
  then obtain st' X' where x: "load_records T None (insert (rname a) seen) st1 rs None = (st', Inr ())"
    "same_layout (ld_model st1) (ld_model st')" "holds (ld_model st') names X'"
    "\<forall>n. n \<notin> rname ` set rs \<longrightarrow> X' n = ?X n"
    "\<forall>r \<in> set rs. X' (rname r) = (?X (rname r))\<lparr>tdata := updated_data T (?X (rname r)) (I (rname r)) (rvalues r)\<rparr>"
    by blast
  have "load_records T None seen st (a # rs) None = (st', Inr ())"
    using ra st1(1) x(1) na by (simp add: load_record_def)
  moreover have "X' (rname a) = ?X (rname a)" using x(4) ns by (metis imageE)
  moreover have "\<forall>n. n \<notin> rname ` set (a # rs) \<longrightarrow> X' n = X n" using x(4) by auto
  ultimately show ?case
    using same_layout_trans [OF st1(2) x(2)] x(3,5) ns
    by (intro exI [of _ st'] exI [of _ X']) auto
qed

lemma encodable: "int64_indices xs \<Longrightarrow> \<exists>enc. decode_sparse_indices enc (length xs) = Inr xs"
  using optimized.enc_total optimized.dec_enc by blast

text \<open>A described record adds up to the target.\<close>

lemma updated_data_target:
  assumes T: "torch_ok T" and p: "pair_ok b t" and v: "validate_tensor_pair b t = Inr ()"
    and e: "extract_changed_values T None b t = Inr (idx, vs)"
  shows "tensor_equal T (b\<lparr>tdata := updated_data T b idx vs\<rparr>) t = Inr True"
    "length idx = numel vs" "strictly_increasing idx" "\<forall>i \<in> set idx. 0 \<le> i \<and> i < int (length (tdata b))"
proof -
  note len = pair_lengths [OF p v]
  note x = extract_indices [OF e conjunct1 [OF len, symmetric]]
  have c: "dtype_to_code (tdtype b) \<noteq> None" using p by (simp add: pair_ok_def)
  obtain f where f: "tdata vs = map f idx" using extract_Inr [OF T c e] by metis
  then show n: "length idx = numel vs" by (simp add: numel_def)
  show "strictly_increasing idx" using x(1,2) by (simp add: strictly_increasing_iff strict_sorted_iff)
  show rng: "\<forall>i \<in> set idx. 0 \<le> i \<and> i < int (length (tdata b))" using x(3) by auto
  obtain enc where enc: "decode_sparse_indices enc (length idx) = Inr idx"
    using encodable [OF extracted_int64 [OF e conjunct1 [OF len, symmetric]]] p by (auto simp: pair_ok_def)
  obtain out where out: "reconstruct_sparse_delta_tensor T None b enc vs = Inr out" "tensor_equal T out t = Inr True"
    using reconstruct_extracted [OF T p v e enc] by blast
  have "out = b\<lparr>tdata := updated_data T b idx vs\<rparr>"
    using out(1) enc n
    by (auto simp: reconstruct_sparse_delta_tensor_def updated_data_def scale_values_def Let_def split: if_split_asm)
  with out(2) show "tensor_equal T (b\<lparr>tdata := updated_data T b idx vs\<rparr>) t = Inr True" by simp
qed

section \<open>Expert maps\<close>

definition assign :: "int list \<Rightarrow> int \<times> int \<Rightarrow> int list" where
  "assign acc e = (if fst e \<ge> 0 then acc[nat (fst e) := snd e] else acc)"

lemma scatter_row_assign: "scatter_row acc row = foldl assign acc (map (\<lambda>p. (p, int (fst row))) (snd row))"
proof -
  have "foldl (\<lambda>acc p. if p \<ge> 0 then acc[nat p := int (fst row)] else acc) acc ps
      = foldl assign acc (map (\<lambda>p. (p, int (fst row))) ps)" for acc ps
    by (induction ps arbitrary: acc) (auto simp: assign_def)
  then show ?thesis by (simp add: scatter_row_def)
qed

definition expert_pairs :: "(nat \<times> int list) list \<Rightarrow> (int \<times> int) list" where
  "expert_pairs rows = concat (map (\<lambda>row. map (\<lambda>p. (p, int (fst row))) (snd row)) rows)"

lemma scatter_rows: "foldl scatter_row acc rows = foldl assign acc (expert_pairs rows)"
  by (induction rows arbitrary: acc) (auto simp: scatter_row_assign expert_pairs_def)

lemma length_assign [simp]: "length (foldl assign acc es) = length acc"
  by (induction es arbitrary: acc) (auto simp: assign_def)

lemma nth_assign_other:
  "int k \<notin> fst ` set es \<Longrightarrow> foldl assign acc es ! k = acc ! k"
proof (induction es arbitrary: acc)
  case (Cons e es)
  then have "foldl assign (assign acc e) es ! k = assign acc e ! k" by simp
  moreover have "assign acc e ! k = acc ! k"
    using Cons.prems by (cases "nat (fst e) = k") (auto simp: assign_def)
  ultimately show ?case by simp
qed simp

lemma nth_assign:
  "distinct (filter ((\<le>) 0) (map fst es)) \<Longrightarrow> (int k, v) \<in> set es \<Longrightarrow> k < length acc \<Longrightarrow>
   foldl assign acc es ! k = v"
proof (induction es arbitrary: acc)
  case (Cons e es)
  show ?case
  proof (cases "fst e = int k")
    case True
    then have n: "int k \<notin> fst ` set es" using Cons.prems(1) by (auto simp: image_iff)
    then have "e = (int k, v)" using Cons.prems(2) True by (auto simp: image_iff prod_eq_iff)
    then have "assign acc e = acc[k := v]" by (simp add: assign_def)
    then show ?thesis using n Cons.prems(3) by (simp add: nth_assign_other)
  next
    case False
    then show ?thesis
      using Cons.IH [of "assign acc e"] Cons.prems by (auto simp: assign_def split: if_split_asm)
  qed
qed simp

lemma in_expert_pairs:
  "(p, l) \<in> set (expert_pairs (enumerate 0 rows)) \<longleftrightarrow> (\<exists>k < length rows. l = int k \<and> p \<in> set (rows ! k))"
proof -
  have "(p, l) \<in> set (expert_pairs es) \<longleftrightarrow> (\<exists>row \<in> set es. l = int (fst row) \<and> p \<in> set (snd row))" for es
    by (auto simp: expert_pairs_def)
  then show ?thesis by (auto simp: in_set_enumerate_eq Bex_def)
qed

lemma fst_expert_pairs: "map fst (expert_pairs (enumerate n rows)) = concat rows"
  by (induction rows arbitrary: n) (auto simp: expert_pairs_def comp_def)

section \<open>Kernel-format transfer keeps what it does not name\<close>

definition rows_or_whole :: "tensor \<Rightarrow> tensor \<Rightarrow> bool" where
  "rows_or_whole t t' \<longleftrightarrow> t' = t \<or> (\<exists>indices. select_rows t indices = Inr t')"

lemma kernel_step_cases:
  assumes "kernel_step T experts st (n, t) = Inr st'"
  shows "(dget (kl_params st) n = None \<and> kl_skipped st' \<noteq> [] \<and> kl_params st' = kl_params st)
    \<or> (kl_shape_mismatches st' \<noteq> [] \<and> kl_params st' = kl_params st)
    \<or> (\<exists>p t'. dget (kl_params st) n = Some p \<and> rows_or_whole t t' \<and> tshape t' = tshape (p_tensor p) \<and>
         kl_params st' = dput n (copy_into T p t') (kl_params st) \<and>
         kl_skipped st' = kl_skipped st \<and> kl_shape_mismatches st' = kl_shape_mismatches st)"
  using assms
  by (auto simp: kernel_step_def Let_def res_simps rows_or_whole_def split: option.split_asm if_split_asm)

lemma kernel_step_grows:
  "kernel_step T experts st e = Inr st' \<Longrightarrow>
   (kl_skipped st \<noteq> [] \<longrightarrow> kl_skipped st' \<noteq> []) \<and> (kl_shape_mismatches st \<noteq> [] \<longrightarrow> kl_shape_mismatches st' \<noteq> [])"
  by (auto simp: kernel_step_def Let_def res_simps split: option.split_asm if_split_asm)

lemma kernel_loop_clean:
  "kernel_loop T experts st es = (st', Inr ()) \<Longrightarrow> kl_skipped st = [] \<and> kl_shape_mismatches st = []"
proof (induction es arbitrary: st)
  case (Cons e es)
  then obtain st1 where st1: "kernel_step T experts st e = Inr st1" "kernel_loop T experts st1 es = (st', Inr ())"
    by (auto split: sum.split_asm)
  from Cons.IH [OF st1(2)] kernel_step_grows [OF st1(1)] show ?case by blast
qed (auto split: if_split_asm)

lemma kernel_loop_loads:
  "kernel_loop T experts st es = (st', Inr ()) \<Longrightarrow> distinct (map fst es) \<Longrightarrow>
   (\<forall>(n, t) \<in> set es. \<exists>p t'. dget (kl_params st) n = Some p \<and> rows_or_whole t t' \<and>
      tshape t' = tshape (p_tensor p) \<and> dget (kl_params st') n = Some (copy_into T p t')) \<and>
   (\<forall>n. n \<notin> fst ` set es \<longrightarrow> dget (kl_params st') n = dget (kl_params st) n)"
proof (induction es arbitrary: st)
  case Nil
  then show ?case by (auto split: if_split_asm)
next
  case (Cons e es)
  obtain n t where e: "e = (n, t)" by fastforce
  obtain st1 where st1: "kernel_step T experts st (n, t) = Inr st1" "kernel_loop T experts st1 es = (st', Inr ())"
    using Cons.prems(1) by (auto simp: e split: sum.split_asm)
  have c: "kl_skipped st1 = []" "kl_shape_mismatches st1 = []" using kernel_loop_clean [OF st1(2)] by auto
  obtain p t' where p: "dget (kl_params st) n = Some p" "rows_or_whole t t'" "tshape t' = tshape (p_tensor p)"
    "kl_params st1 = dput n (copy_into T p t') (kl_params st)"
    using kernel_step_cases [OF st1(1)] c by auto
  have d: "distinct (map fst es)" and n: "n \<notin> fst ` set es" using Cons.prems(2) by (auto simp: e)
  note IH = Cons.IH [OF st1(2) d]
  have "dget (kl_params st') n = Some (copy_into T p t')" using IH n p(4) by (simp add: dict_simps)
  moreover have "dget (kl_params st1) m = dget (kl_params st) m" if "m \<noteq> n" for m
    using that p(4) by (simp add: dict_simps)
  ultimately show ?case
    using IH n p(1-3) unfolding e by (fastforce simp: image_iff)
qed

lemma all_less_two: "(\<exists>a < Suc (Suc 0). P a) \<longleftrightarrow> P 0 \<or> P (Suc 0)"
  by (auto simp: less_Suc_eq)

section \<open>Claims\<close>

text \<open>C16. Sharding commutes with updating: if a parameter holds the part of a logical tensor that its
  layout assigns to it, then applying to it the local update that \<open>to_local\<close> computes succeeds, and
  the parameter then holds the same part of the updated logical tensor. To hold a part is a fact about slices, not about
  indices: the rows of the parameter behind the parts that come before it in a fused parameter are the rows of
  the logical tensor that belong to the rank.\<close>

theorem local_update_commutes:
  assumes "torch_ok T" and "to_local M u = Inr l" and "dget (params M) (l_name l) = Some p"
    and "p_contiguous p" and "length (tdata (p_tensor p)) = prod_list (tshape (p_tensor p))"
    and "located M (u_name u) (u_shape u) = Some (l_name l, pl)"
    and "length G = prod_list (u_shape u)"
    and "holds_part pl (u_shape u) (tshape (p_tensor p)) G (tdata (p_tensor p))"
  shows "\<exists>out. apply_decoded_sparse_delta_tensor T None p (l_indices l) (l_values l) = Inr out
     \<and> holds_part pl (u_shape u) (tshape (p_tensor p))
         (index_copy G (tdata (u_indices u))
           (add_values T (tdtype (p_tensor p)) G (tdata (u_indices u)) (tdtype (u_values u)) (tdata (u_values u))))
         (tdata (p_tensor (fst out)))"
proof -
  let ?idx = "tdata (u_indices u)"
  obtain mp :: layout_mapping and p0 pl0 bits where x: "l_name l = target_name mp"
    "dget (params M) (target_name mp) = Some p0" "validate_update u = Inr ()"
    "located M (u_name u) (u_shape u) = Some (target_name mp, pl0)"
    "project_placement pl0 ?idx (u_shape u) (tshape (p_tensor p0)) = Inr (l_indices l, bits)"
    "l_values l = flat_tensor (tdtype (u_values u)) (mask_select bits (tdata (u_values u)))"
    by (rule to_local_Inr [OF assms(2)]) metis
  have p0: "p0 = p" "pl0 = pl" using x assms(3,6) by auto
  have xx: "project_placement pl ?idx (u_shape u) (tshape (p_tensor p)) = Inr (l_indices l, bits)"
    "l_values l = flat_tensor (tdtype (u_values u)) (mask_select bits (tdata (u_values u)))"
    using x p0 by simp_all
  have vu: "validate_update \<lparr>u_name = u_name u, u_shape = u_shape u, u_indices = flat_tensor Int64 ?idx,
      u_values = u_values u\<rparr> = Inr ()"
    using x by (auto simp: validate_update_def Let_def numel_def split: if_split_asm)
  have c: "length ?idx = numel (u_values u)" "strictly_increasing ?idx"
    "\<forall>i \<in> set ?idx. 0 \<le> i \<and> i < int (prod_list (u_shape u))"
    using vu by (simp_all add: validate_update_iff)
  note pc = placement_commutes [OF xx(1) c(2,3) assms(7,5), of "tdata (u_values u)"]
  obtain out where out: "apply_decoded_sparse_delta_tensor T None p (l_indices l) (l_values l) = Inr out"
    using apply_decoded_ok [OF assms(4), of "l_indices l" "l_values l" T None] pc(1-3) c(1) assms(5)
    by (auto simp: xx(2) numel_def)
  show ?thesis
    using out apply_decoded_Inr(1) [OF assms(1) out] pc(4) [OF _ assms(8)] c(1)
    by (auto simp: xx(2) numel_def)
qed

text \<open>The second part of a fused parameter, on the second of two ranks.\<close>

theorem local_update_commutes_witness:
  "\<exists>out. apply_decoded_sparse_delta_tensor exact_ops None
       \<lparr>p_tensor = \<lparr>tdtype = Int64, tshape = [4, 1], tdata = [9, 9, 3, 4]\<rparr>, p_contiguous = True, p_input_dim = None,
        p_output_dim = Some 0, p_packed_dim = None, p_bitsandbytes_4bit = False\<rparr> [3] (flat_tensor Int64 [7]) = Inr out
     \<and> holds_part (Window 0 2 2 2) [4, 1] [4, 1] [2, 2, 3, 11] (tdata (p_tensor (fst out)))
     \<and> tdata (p_tensor (fst out)) = [9, 9, 3, 11]"
proof -
  let ?p = "\<lparr>p_tensor = \<lparr>tdtype = Int64, tshape = [4, 1], tdata = [9, 9, 3, 4]\<rparr>, p_contiguous = True, p_input_dim = None,
        p_output_dim = Some 0, p_packed_dim = None, p_bitsandbytes_4bit = False\<rparr>"
  let ?v = "\<lparr>m_class = ''MergedColumnParallelLinear'', m_quant_config = False, m_quant_method = None, m_shard_kind = None,
    m_shard_indices = None, m_embeddings_per_partition = False, m_tp_rank = Some 1, m_tp_size = Some 2,
    m_output_sizes = Some [4, 4], m_qkv = None\<rparr>"
  let ?n = "''a.mlp.gate_up_proj.weight''"
  let ?M = "\<lparr>params = [(?n, ?p)], modules = [(''a.mlp.gate_up_proj'', ?v)]\<rparr>"
  let ?u = "\<lparr>u_name = ''a.mlp.up_proj.weight'', u_shape = [4, 1], u_indices = flat_tensor Int64 [0, 3], u_values = flat_tensor Int64 [1, 7]\<rparr>"
  let ?l = "\<lparr>l_name = ?n, l_indices = [3], l_values = flat_tensor Int64 [7]\<rparr>"
  have mm: "parameter_module ?M ?n = Inr ?v" by (simp add: parameter_module_def before_last_dot_def)
  have mp: "layout_mapping_of ?M ''a.mlp.up_proj.weight''
      = Inr \<lparr>target_name = ?n, layout_kind = ''merged_column'', layout_shard = ShardIndex 1\<rparr>" by code_simp
  have tp: "tensor_parallel_position ?v = Inr (1, 2)" by (simp add: tensor_parallel_position_def)
  have tk: "sum_list (take 1 [2, 2]) = (2 :: int)" by simp
  have pr: "project_dimension [0, 3] [4, 1] [4, 1] 0 2 2 2 = Inr ([3], [False, True])"
    by (simp add: project_dimension_def Let_def coordinate_def move_index_def all_less_two)
  have l: "to_local ?M ?u = Inr ?l"
    by (simp add: to_local_def mp mm validate_supported_parameter_def validate_update_def Let_def numel_def
        project_update_def project_merged_column_def tp py_index_def tk pr mask_select_def del: One_nat_def)
  have loc: "located ?M ''a.mlp.up_proj.weight'' [4, 1] = Some (?n, Window 0 2 2 2)"
    by (simp add: located_def mp mm placement_of_def merged_placement_def tp tk Let_def del: One_nat_def)
  have h: "holds_part (Window 0 2 2 2) [4, 1] [4, 1] [1, 2, 3, 4] [9, 9, 3, 4]" by code_simp
  have vs: "index_copy [9, 9, 3, 4] [3] (add_values exact_ops Int64 [9, 9, 3, 4] [3] Int64 [7]) = [9, 9, 3, 11]"
    "index_copy [1, 2, 3, 4] [0, 3] (add_values exact_ops Int64 [1, 2, 3, 4] [0, 3] Int64 [1, 7]) = [2, 2, 3, 11]" by code_simp+
  obtain out where o: "apply_decoded_sparse_delta_tensor exact_ops None ?p [3] (flat_tensor Int64 [7]) = Inr out"
    "holds_part (Window 0 2 2 2) [4, 1] [4, 1] [2, 2, 3, 11] (tdata (p_tensor (fst out)))"
    using local_update_commutes [OF torch_ok_exact_ops l, of ?p "Window 0 2 2 2" "[1, 2, 3, 4]"] loc h vs(2) by auto
  have "tdata (p_tensor (fst out)) = [9, 9, 3, 11]"
    using apply_decoded_Inr(1) [OF torch_ok_exact_ops o(1)] vs(1) by simp
  with o show ?thesis by blast
qed

text \<open>The full-tensor fast path changes nothing: whenever an update is applied, with or without
  the fast path, the parameter holds exactly the elements that selecting, adding and copying back
  by index gives, and its shape, dtype and other attributes are as before.\<close>

theorem full_tensor_path_agrees:
  assumes "torch_ok T" and "apply_decoded_sparse_delta_tensor T None p indices vs = Inr (p', full)"
  shows "p' = p\<lparr>p_tensor := (p_tensor p)\<lparr>tdata := index_copy (tdata (p_tensor p)) indices
      (add_values T (tdtype (p_tensor p)) (tdata (p_tensor p)) indices (tdtype vs) (tdata vs))\<rparr>\<rparr>"
  using apply_decoded_Inr(1) [OF assms] by simp

theorem full_tensor_path_agrees_witness:
  "\<exists>p'. apply_decoded_sparse_delta_tensor exact_ops None
      \<lparr>p_tensor = flat_tensor Int64 [5, 6], p_contiguous = True, p_input_dim = None, p_output_dim = None,
       p_packed_dim = None, p_bitsandbytes_4bit = False\<rparr> [0, 1] (flat_tensor Int64 [3, 4]) = Inr (p', True)
    \<and> tdata (p_tensor p') = index_copy [5, 6] [0, 1] (add_values exact_ops Int64 [5, 6] [0, 1] Int64 [3, 4])"
proof -
  let ?p = "\<lparr>p_tensor = flat_tensor Int64 [5, 6], p_contiguous = True, p_input_dim = None, p_output_dim = None,
       p_packed_dim = None, p_bitsandbytes_4bit = False\<rparr>"
  obtain p' where a: "apply_decoded_sparse_delta_tensor exact_ops None ?p [0, 1] (flat_tensor Int64 [3, 4]) = Inr (p', True)"
    by (simp add: apply_decoded_sparse_delta_tensor_def Let_def in_range_iff indices_cover_flat_tensor_def)
  from full_tensor_path_agrees [OF torch_ok_exact_ops a] a show ?thesis by auto
qed

text \<open>Tensor-parallel ranks share out an update: for a row- or column-parallel parameter, when each
  of \<open>n\<close> ranks can project the update, every index of the update is selected by exactly one rank.\<close>

theorem ranks_partition_update:
  assumes "\<forall>r < n. project_regular u (p r) (v\<lparr>m_tp_rank := Some (int r), m_tp_size := Some (int n)\<rparr>) a
      = Inr (loc r, bits r)"
    and "0 < n" and "validate_update u = Inr ()" and "k < numel (u_indices u)"
  shows "\<exists>!r. r < n \<and> bits r ! k"
proof -
  let ?idx = "tdata (u_indices u)" and ?S = "u_shape u"
  obtain dn where a: "a = Some dn" using assms(1,2) by (auto simp: project_regular_def split: option.split_asm)
  have tp: "tensor_parallel_position (v\<lparr>m_tp_rank := Some (int r), m_tp_size := Some (int n)\<rparr>) = Inr (int r, int n)"
    if "r < n" for r using that by (simp add: tensor_parallel_position_def)
  obtain sz where sz: "py_index ?S dn = Inr sz"
    using assms(1,2) tp by (auto simp: project_regular_def a res_simps)
  define shard where "shard = int sz div int n"
  have d: "int sz mod int n = 0" using assms(1,2) tp
    by (auto simp: project_regular_def a sz split: if_split_asm)
  have pd: "project_dimension ?idx ?S (tshape (p_tensor (p r))) dn (int r * shard) shard 0 = Inr (loc r, bits r)"
    if "r < n" for r
    using assms(1) that tp [OF that] by (auto simp: project_regular_def a sz shard_def Let_def split: if_split_asm)
  have ax: "sz = ?S ! axis ?S dn"
    using sz by (auto simp: py_index_def axis_def Let_def split: if_split_asm)
  let ?c = "coordinate (inner_size ?S dn) (int sz) (?idx ! k)"
  have k: "k < length ?idx" using assms(4) by (simp add: numel_def)
  have b: "bits r ! k \<longleftrightarrow> int r * shard \<le> ?c \<and> ?c < int r * shard + shard" if "r < n" for r
    using project_InrD(2) [OF pd [OF that]] k
    by (simp add: in_window_def dim_at_def ax [symmetric])
  have bounds: "0 \<le> ?idx ! k" "?idx ! k < int (prod_list ?S)"
  proof -
    have "validate_update \<lparr>u_name = u_name u, u_shape = ?S, u_indices = flat_tensor Int64 ?idx,
        u_values = u_values u\<rparr> = Inr ()"
      using assms(3) by (auto simp: validate_update_def Let_def numel_def split: if_split_asm)
    then have "\<forall>i \<in> set ?idx. 0 \<le> i \<and> i < int (prod_list ?S)" by (simp add: validate_update_iff)
    then show "0 \<le> ?idx ! k" "?idx ! k < int (prod_list ?S)" using k nth_mem by blast+
  qed
  have pos: "0 < sz"
  proof (rule ccontr)
    assume "\<not> 0 < sz"
    then have "dim_at ?S dn ?S = 0" by (simp add: dim_at_def ax [symmetric])
    then have "int (prod_list ?S) = 0" using project_InrD(8) [OF pd [OF assms(2)]] by auto
    then show False using bounds by linarith
  qed
  have sn: "int sz = shard * int n" using d div_mult_mod_eq [of "int sz" "int n"] unfolding shard_def by linarith
  have c: "0 \<le> ?c" "?c < shard * int n" using pos sn by (simp_all add: coordinate_def)
  have sh: "0 < shard" using pos sn assms(2) by (metis mult_pos_pos of_nat_0_less_iff zero_less_mult_pos2)
  let ?r = "nat (?c div shard)"
  have r0: "0 \<le> ?c div shard" using c(1) sh by (simp add: pos_imp_zdiv_nonneg_iff)
  have rn: "?c div shard < int n"
  proof (rule ccontr)
    assume "\<not> ?c div shard < int n"
    then have "int n * shard \<le> ?c div shard * shard" using sh by (intro mult_right_mono) auto
    also have "\<dots> \<le> ?c" using div_mult_mod_eq [of ?c shard] pos_mod_sign [OF sh, of ?c] by linarith
    finally show False using c(2) by (simp add: mult.commute)
  qed
  show ?thesis
  proof (rule ex1I [of _ ?r])
    have "?r < n" using rn r0 by (simp add: nat_less_iff)
    moreover have "int ?r * shard \<le> ?c \<and> ?c < int ?r * shard + shard"
    proof -
      have e: "int ?r = ?c div shard" using r0 by simp
      show ?thesis
        unfolding e using div_mult_mod_eq [of ?c shard] pos_mod_sign [OF sh, of ?c] pos_mod_bound [OF sh, of ?c]
        by (intro conjI; linarith)
    qed
    ultimately show "?r < n \<and> bits ?r ! k" using b by blast
    fix r assume "r < n \<and> bits r ! k"
    then have "int r * shard \<le> ?c" "?c < int r * shard + shard" using b by auto
    then have "?c div shard = int r"
      using int_div_pos_eq [of ?c shard "int r" "?c - int r * shard"] by (simp add: algebra_simps)
    then show "r = ?r" by simp
  qed
qed

theorem ranks_partition_update_witness:
  "\<exists>!r. r < (2 :: nat) \<and> (if r = 0 then [True, False] else [False, True]) ! 1"
proof -
  let ?v = "\<lparr>m_class = ''RowParallelLinear'', m_quant_config = False, m_quant_method = None, m_shard_kind = None,
    m_shard_indices = None, m_embeddings_per_partition = False, m_tp_rank = None, m_tp_size = None,
    m_output_sizes = None, m_qkv = None\<rparr>"
  let ?p = "\<lparr>p_tensor = \<lparr>tdtype = Int64, tshape = [2, 2], tdata = [3, 4, 7, 8]\<rparr>, p_contiguous = True, p_input_dim = Some 1,
        p_output_dim = None, p_packed_dim = None, p_bitsandbytes_4bit = False\<rparr>"
  let ?u = "\<lparr>u_name = ''o.w'', u_shape = [2, 4], u_indices = flat_tensor Int64 [0, 7], u_values = flat_tensor Int64 [1, 7]\<rparr>"
  have "\<forall>r < 2. project_regular ?u ?p (?v\<lparr>m_tp_rank := Some (int r), m_tp_size := Some (int 2)\<rparr>) (Some 1)
      = Inr (if r = 0 then ([0], [True, False]) else ([3], [False, True]))"
    by (simp add: project_regular_def tensor_parallel_position_def py_index_def project_dimension_def
        coordinate_def move_index_def all_less_two less_2_cases_iff)
  then have h: "\<forall>r < 2. project_regular ?u ((\<lambda>_. ?p) r) (?v\<lparr>m_tp_rank := Some (int r), m_tp_size := Some (int 2)\<rparr>) (Some 1)
      = Inr ((\<lambda>r. if r = 0 then [0] else [3]) r, (\<lambda>r. if r = 0 then [True, False] else [False, True]) r)"
    by auto
  show ?thesis
    by (rule ranks_partition_update [OF h]) (simp_all add: validate_update_def Let_def numel_def)
qed

text \<open>Inverting an expert placement: when no physical slot is given to two logical experts, the
  inverted map sends every slot of every logical expert back to that expert, and every other slot
  to -1.\<close>

theorem eplb_map_is_inverse:
  assumes "invert_logical_to_physical_map l2p n = Inr p2l" and "distinct (filter ((\<le>) 0) (concat l2p))"
  shows "length p2l = n
     \<and> (\<forall>l < length l2p. \<forall>p \<in> set (l2p ! l). 0 \<le> p \<longrightarrow> p2l ! nat p = int l)
     \<and> (\<forall>p < n. int p \<notin> set (concat l2p) \<longrightarrow> p2l ! p = -1)"
proof (intro conjI allI impI ballI)
  let ?es = "expert_pairs (enumerate 0 l2p)"
  have p2l: "p2l = foldl assign (replicate n (-1)) ?es"
    and valid: "\<forall>row \<in> set l2p. \<forall>p \<in> set row. p < int n"
    using assms(1) by (auto simp: invert_logical_to_physical_map_def scatter_rows not_le not_less split: if_split_asm)
  show "length p2l = n" by (simp add: p2l)
  fix l p assume l: "l < length l2p" "p \<in> set (l2p ! l)" "0 \<le> p"
  have "(int (nat p), int l) \<in> set ?es" using l by (simp add: in_expert_pairs)
  moreover have "nat p < n" using valid l nth_mem [OF l(1)] by fastforce
  ultimately show "p2l ! nat p = int l"
    using nth_assign [of ?es "nat p" "int l" "replicate n (-1)"] assms(2) by (simp add: p2l fst_expert_pairs)
next
  fix p assume p: "p < n" "int p \<notin> set (concat l2p)"
  have p2l: "p2l = foldl assign (replicate n (-1)) (expert_pairs (enumerate 0 l2p))"
    using assms(1) by (auto simp: invert_logical_to_physical_map_def scatter_rows split: if_split_asm)
  have "fst ` set (expert_pairs (enumerate 0 l2p)) = set (concat l2p)"
    by (metis fst_expert_pairs set_map)
  then show "p2l ! p = -1" using p nth_assign_other [of p] by (simp add: p2l)
qed

theorem eplb_map_is_inverse_witness:
  "\<exists>p2l. invert_logical_to_physical_map [[2, -1], [0, 3]] 4 = Inr p2l \<and> p2l ! 2 = 0 \<and> p2l ! 1 = -1"
proof -
  have i: "\<exists>p2l. invert_logical_to_physical_map [[2, -1], [0, 3]] 4 = Inr p2l"
    by (simp add: invert_logical_to_physical_map_def)
  then obtain p2l where p2l: "invert_logical_to_physical_map [[2, -1], [0, 3]] 4 = Inr p2l" by blast
  have "\<forall>l < 2. \<forall>p \<in> set ([[2, -1], [0, 3 :: int]] ! l). 0 \<le> p \<longrightarrow> p2l ! nat p = int l"
    "\<forall>p < 4. int p \<notin> set (concat [[2, -1], [0, 3]]) \<longrightarrow> p2l ! p = -1"
    using eplb_map_is_inverse [OF p2l] by simp_all
  then have "p2l ! 2 = 0" "p2l ! 1 = -1" by (force dest: spec [of _ 0] spec [of _ 1])+
  with p2l show ?thesis by blast
qed

text \<open>A kernel-format transfer that succeeds loaded everything it was sent: every received tensor
  was written, whole or as the rows of the worker's experts, into the parameter of its name with
  the same shape, and every parameter it does not name is unchanged.\<close>

theorem kernel_load_complete:
  assumes "load_weights_kernel T ps moes state_iter = (ps', Inr ())" and "distinct (map fst state_iter)"
  shows "(\<forall>(n, t) \<in> set state_iter. \<exists>p t'. dget ps n = Some p \<and> rows_or_whole t t' \<and>
        tshape t' = tshape (p_tensor p) \<and> dget ps' n = Some (copy_into T p t'))
     \<and> (\<forall>n. n \<notin> fst ` set state_iter \<longrightarrow> dget ps' n = dget ps n)"
proof -
  obtain experts st' where l: "kernel_loop T experts
      \<lparr>kl_params = ps, kl_loaded = 0, kl_skipped = [], kl_shape_mismatches = []\<rparr> state_iter = (st', Inr ())"
    "ps' = kl_params st'"
    using assms(1) by (auto simp: load_weights_kernel_def split: sum.split_asm prod.split_asm)
  show ?thesis using kernel_loop_loads [OF l(1) assms(2)] by (simp only: l(2) kernel_load.simps)
qed

theorem kernel_load_complete_witness:
  "\<exists>p t'. rows_or_whole (flat_tensor Int64 [9, 8]) t' \<and> tshape t' = tshape (p_tensor p) \<and>
     dget (fst (load_weights_kernel exact_ops
       [(''w'', \<lparr>p_tensor = flat_tensor Int64 [5, 6], p_contiguous = True, p_input_dim = None, p_output_dim = None,
         p_packed_dim = None, p_bitsandbytes_4bit = False\<rparr>)] [] [(''w'', flat_tensor Int64 [9, 8])])) ''w''
     = Some (copy_into exact_ops p t')"
proof -
  let ?ps = "[(''w'', \<lparr>p_tensor = flat_tensor Int64 [5, 6], p_contiguous = True, p_input_dim = None,
      p_output_dim = None, p_packed_dim = None, p_bitsandbytes_4bit = False\<rparr>)]"
  have r: "snd (load_weights_kernel exact_ops ?ps [] [(''w'', flat_tensor Int64 [9, 8])]) = Inr ()"
    by (simp add: load_weights_kernel_def kernel_step_def)
  then obtain ps' where ps': "load_weights_kernel exact_ops ?ps [] [(''w'', flat_tensor Int64 [9, 8])] = (ps', Inr ())"
    by (metis prod.collapse)
  have d: "distinct (map fst [(''w'', flat_tensor Int64 [9, 8])])" by simp
  have "(''w'', flat_tensor Int64 [9, 8]) \<in> set [(''w'', flat_tensor Int64 [9, 8])]" by simp
  from bspec [OF conjunct1 [OF kernel_load_complete [OF ps' d]] this]
  obtain p t' where "rows_or_whole (flat_tensor Int64 [9, 8]) t'" "tshape t' = tshape (p_tensor p)"
    "dget ps' ''w'' = Some (copy_into exact_ops p t')"
    unfolding prod.case by blast
  then show ?thesis unfolding ps' by auto
qed

end
