(* ===== verification/DeltaChain.thy ===== *)
theory DeltaChain
  imports DeltaApply
begin

text \<open>
  Loading the deltas of a trainer one after the other: the model of a worker whose tensors equal the base of a
  delta, in the sense of torch's ==, has the target's tensors afterwards, so a chain of deltas reaches its last target.
\<close>

section \<open>One delta\<close>

lemma streaming_version_magic: "streaming_delta_version file = Inr v \<Longrightarrow> is_streaming_delta_file file"
  by (auto simp: streaming_delta_version_def is_streaming_delta_file_def res_simps read_exact_Inr stream_magic_def
      split: if_split_asm)

text \<open>What one tensor of the worker is after the records of a file: \<open>carried\<close> says that adding the changes to the worker's
  tensor has the effect they have on the base's.\<close>

definition carried :: "torch_ops \<Rightarrow> tensor \<Rightarrow> tensor \<Rightarrow> bool" where
  "carried T b x \<longleftrightarrow> tdtype x = tdtype b \<and> tshape x = tshape b
     \<and> (\<forall>idx vs t. tensor_equal T (b\<lparr>tdata := updated_data T b idx vs\<rparr>) t = Inr True
          \<longrightarrow> tensor_equal T (x\<lparr>tdata := updated_data T x idx vs\<rparr>) t = Inr True)"

lemma carried_refl: "carried T b b"
  by (simp add: carried_def)

text \<open>The changes a file describes, by tensor.\<close>

definition described_by :: "torch_ops \<Rightarrow> store \<Rightarrow> store \<Rightarrow> string set \<Rightarrow> stream_record list \<Rightarrow> (string \<Rightarrow> int list) \<Rightarrow> bool" where
  "described_by T base target names rs I \<longleftrightarrow>
     distinct (map rname rs) \<and> rname ` set rs \<subseteq> names
     \<and> (\<forall>r \<in> set rs. \<exists>b t. get_tensor base (rname r) = Inr b \<and> get_tensor target (rname r) = Inr t
          \<and> rversion r = 2 \<and> rshape r = Some (tshape b)
          \<and> decode_sparse_indices (rindices r) (numel (rvalues r)) = Inr (I (rname r))
          \<and> length (I (rname r)) = numel (rvalues r) \<and> strictly_increasing (I (rname r))
          \<and> (\<forall>i \<in> set (I (rname r)). 0 \<le> i \<and> i < int (length (tdata b)))
          \<and> tensor_equal T (b\<lparr>tdata := updated_data T b (I (rname r)) (rvalues r)\<rparr>) t = Inr True)
     \<and> (\<forall>n \<in> names - rname ` set rs. \<exists>b t vs. get_tensor base n = Inr b \<and> get_tensor target n = Inr t
          \<and> tensor_equal T (b\<lparr>tdata := updated_data T b [] vs\<rparr>) t = Inr True)"

lemma record_changes:
  assumes T: "torch_ok T" and ok: "stores_ok base target keys" and n: "rname r \<in> set keys" and d: "describes T base target r"
  obtains b t idx where "get_tensor base (rname r) = Inr b" "get_tensor target (rname r) = Inr t" "rversion r = 2"
    "rshape r = Some (tshape b)" "decode_sparse_indices (rindices r) (numel (rvalues r)) = Inr idx" "length idx = numel (rvalues r)"
    "strictly_increasing idx" "\<forall>i \<in> set idx. 0 \<le> i \<and> i < int (length (tdata b))"
    "tensor_equal T (b\<lparr>tdata := updated_data T b idx (rvalues r)\<rparr>) t = Inr True"
proof -
  obtain b t idx vs where v: "get_tensor base (rname r) = Inr b" "get_tensor target (rname r) = Inr t"
    "validate_tensor_pair b t = Inr ()" "extract_changed_values T None b t = Inr (idx, vs)" "rversion r = 2"
    "rshape r = Some (tshape b)" "rvalues r = vs" "decode_sparse_indices (rindices r) (length idx) = Inr idx"
    using d unfolding describes_def by blast
  have "pair_ok b t" using ok n v by (simp add: stores_ok_def)
  from updated_data_target [OF T this v(3,4)] show ?thesis using v by (intro that [of b t idx]) simp_all
qed

lemma unchanged_equal:
  assumes T: "torch_ok T" and ok: "stores_ok base target keys" and n: "n \<in> set keys" and v: "valid_pair T base target n"
    and nc: "\<not> changed T base target n"
  obtains b t vs where "get_tensor base n = Inr b" "get_tensor target n = Inr t"
    "tensor_equal T (b\<lparr>tdata := updated_data T b [] vs\<rparr>) t = Inr True"
proof -
  obtain b t idx vs where x: "get_tensor base n = Inr b" "get_tensor target n = Inr t"
    "validate_tensor_pair b t = Inr ()" "extract_changed_values T None b t = Inr (idx, vs)"
    using v by (auto simp: valid_pair_def)
  then have "idx = []" using nc by (auto simp: changed_def)
  moreover have "pair_ok b t" using ok n x by (simp add: stores_ok_def)
  ultimately show ?thesis using updated_data_target(1) [OF T _ x(3,4)] x that by blast
qed

lemma streamed_file_described:
  assumes T: "torch_ok T" and x: "extract_sparse_delta_streaming_from_stores T enc gs collect_stats base target = (Some st, Inr stats)"
    and k: "validated_model_keys T base target True = Inr keys"
    and ok: "stores_ok base target keys" and d: "distinct (store_keys base)" and l: "length (s_file st) < 2 ^ 63"
  obtains rs I where "is_streaming_delta_file (s_file st)" "iter_streaming_delta_records (s_file st) = (rs, None)"
    "described_by T base target (set keys) rs I"
proof -
  note s = streaming_extraction [OF T x k ok l]
  obtain rs where v: "streaming_delta_version (s_file st) = Inr 2"
    and it: "iter_streaming_delta_records (s_file st) = (rs, None)"
    and nm: "map rname rs = filter (changed T base target) (sort_key stream_record_order keys)"
    and desc: "\<forall>r \<in> set rs. describes T base target r"
    using s(1) by (auto simp: file_of_def)
  have dn: "distinct (map rname rs)" using validated_keys_subset(3) [OF k d] by (simp add: nm)
  have sub: "rname ` set rs \<subseteq> set keys" and rest: "\<And>n. n \<in> set keys - rname ` set rs \<Longrightarrow> \<not> changed T base target n"
    using arg_cong [OF nm, of set] by auto
  define I where "I n = projr (decode_sparse_indices (rindices (hd (filter (\<lambda>r. rname r = n) rs))) (numel (rvalues (hd (filter (\<lambda>r. rname r = n) rs)))))" for n
  have own: "hd (filter (\<lambda>r'. rname r' = rname r) rs) = r" if r: "r \<in> set rs" for r
  proof -
    have ne: "filter (\<lambda>r'. rname r' = rname r) rs \<noteq> []" using r by (auto simp: filter_empty_conv)
    have "hd (filter (\<lambda>r'. rname r' = rname r) rs) \<in> set (filter (\<lambda>r'. rname r' = rname r) rs)" by (rule hd_in_set [OF ne])
    moreover have "inj_on rname (set rs)" using dn by (simp add: distinct_map)
    ultimately show ?thesis using r by (auto dest: inj_onD)
  qed
  have "\<exists>b t. get_tensor base (rname r) = Inr b \<and> get_tensor target (rname r) = Inr t
          \<and> rversion r = 2 \<and> rshape r = Some (tshape b)
          \<and> decode_sparse_indices (rindices r) (numel (rvalues r)) = Inr (I (rname r))
          \<and> length (I (rname r)) = numel (rvalues r) \<and> strictly_increasing (I (rname r))
          \<and> (\<forall>i \<in> set (I (rname r)). 0 \<le> i \<and> i < int (length (tdata b)))
          \<and> tensor_equal T (b\<lparr>tdata := updated_data T b (I (rname r)) (rvalues r)\<rparr>) t = Inr True"
    if r: "r \<in> set rs" for r
  proof -
    have n: "rname r \<in> set keys" using sub r by blast
    show ?thesis by (rule record_changes [OF T ok n bspec [OF desc r]]) (auto simp: I_def own [OF r])
  qed
  moreover have "\<exists>b t vs. get_tensor base n = Inr b \<and> get_tensor target n = Inr t
          \<and> tensor_equal T (b\<lparr>tdata := updated_data T b [] vs\<rparr>) t = Inr True" if n: "n \<in> set keys - rname ` set rs" for n
  proof -
    have k: "n \<in> set keys" and v: "valid_pair T base target n" using n s(3) by auto
    show ?thesis by (rule unchanged_equal [OF T ok k v rest [OF n]]) blast
  qed
  ultimately have "described_by T base target (set keys) rs I" using dn sub unfolding described_by_def by blast
  then show ?thesis using that it streaming_version_magic [OF v] by blast
qed

text \<open>Loading a streamed delta into a model that carries the base.\<close>

lemma streamed_delta_applied:
  assumes T: "torch_ok T" and x: "extract_sparse_delta_streaming_from_stores T enc gs collect_stats base target = (Some st, Inr stats)"
    and k: "validated_model_keys T base target True = Inr keys"
    and ok: "stores_ok base target keys" and d: "distinct (store_keys base)" and l: "length (s_file st) < 2 ^ 63"
    and b: "\<forall>n \<in> set keys. \<exists>b. get_tensor base n = Inr b \<and> carried T b (X n)"
    and wf: "model_wf M" and h: "holds M (set keys) X" and ap: "parts_apart M (set keys) (tshape \<circ> X)"
  shows "\<exists>ls X'. load_sparse_delta_weights T None M (Inl (s_file st)) = (ls, Inr ()) \<and> same_layout M (ld_model ls)
    \<and> holds (ld_model ls) (set keys) X' \<and> (\<forall>n \<in> set keys. tshape (X' n) = tshape (X n)
        \<and> (\<exists>t. get_tensor target n = Inr t \<and> tensor_equal T (X' n) t = Inr True))"
proof -
  obtain rs I where f: "is_streaming_delta_file (s_file st)" "iter_streaming_delta_records (s_file st) = (rs, None)"
    and desc: "described_by T base target (set keys) rs I"
    by (rule streamed_file_described [OF T x k ok d l])
  let ?st = "\<lparr>ld_model = M, ld_updated = 0, ld_delta_values = 0, ld_full_tensor_updates = 0\<rparr>"
  have len: "length (tdata (X n)) = length (tdata b)" "tshape (X n) = tshape b" if n: "n \<in> set keys" "get_tensor base n = Inr b" for n b
  proof -
    have c: "carried T b (X n)" using assms(7) n by auto
    then show "tshape (X n) = tshape b" by (simp add: carried_def)
    obtain t where "get_tensor target n = Inr t"
      using validated_keys_subset(2) [OF k] n(1) by (auto simp: get_tensor_def in_dkeys_iff subset_iff split: option.split)
    then have "tensor_wf b" using ok n by (simp add: stores_ok_def pair_ok_def)
    then show "length (tdata (X n)) = length (tdata b)" using h n(1) c by (simp add: holds_def carried_def tensor_wf_def)
  qed
  have "\<exists>st' X'. load_records T None {} ?st rs None = (st', Inr ()) \<and> same_layout (ld_model ?st) (ld_model st')
     \<and> holds (ld_model st') (set keys) X' \<and> (\<forall>n. n \<notin> rname ` set rs \<longrightarrow> X' n = X n)
     \<and> (\<forall>r \<in> set rs. X' (rname r) = (X (rname r))\<lparr>tdata := updated_data T (X (rname r)) (I (rname r)) (rvalues r)\<rparr>)"
  proof (rule load_records_holds [OF T])
    fix r assume r: "r \<in> set rs"
    then obtain b where "get_tensor base (rname r) = Inr b" "rname r \<in> set keys" using desc unfolding described_by_def by blast
    then show "rversion r = 2 \<and> rshape r = Some (tshape (X (rname r))) \<and>
       decode_sparse_indices (rindices r) (numel (rvalues r)) = Inr (I (rname r)) \<and>
       length (I (rname r)) = numel (rvalues r) \<and> strictly_increasing (I (rname r)) \<and>
       (\<forall>i \<in> set (I (rname r)). 0 \<le> i \<and> i < int (length (tdata (X (rname r)))))"
      using desc r len [of "rname r" b] unfolding described_by_def by fastforce
  qed (use desc h wf ap in \<open>auto simp: described_by_def\<close>)
  then obtain ls X' where y: "load_records T None {} ?st rs None = (ls, Inr ())" "same_layout M (ld_model ls)"
    "holds (ld_model ls) (set keys) X'" "\<And>n. n \<notin> rname ` set rs \<Longrightarrow> X' n = X n"
    "\<And>r. r \<in> set rs \<Longrightarrow> X' (rname r) = (X (rname r))\<lparr>tdata := updated_data T (X (rname r)) (I (rname r)) (rvalues r)\<rparr>"
    by auto
  have "tshape (X' n) = tshape (X n) \<and> (\<exists>t. get_tensor target n = Inr t \<and> tensor_equal T (X' n) t = Inr True)" if n: "n \<in> set keys" for n
  proof (cases "n \<in> rname ` set rs")
    case True
    then obtain r where r: "r \<in> set rs" "n = rname r" by auto
    then obtain b t where bt: "get_tensor base n = Inr b" "get_tensor target n = Inr t"
      "tensor_equal T (b\<lparr>tdata := updated_data T b (I n) (rvalues r)\<rparr>) t = Inr True"
      using desc unfolding described_by_def by blast
    have "carried T b (X n)" using assms(7) n bt(1) by auto
    with y(5) [OF r(1)] bt show ?thesis unfolding r(2) carried_def by simp
  next
    case False
    then obtain b t vs where bt: "get_tensor base n = Inr b" "get_tensor target n = Inr t"
      "tensor_equal T (b\<lparr>tdata := updated_data T b [] vs\<rparr>) t = Inr True"
      using desc n unfolding described_by_def by blast
    have "carried T b (X n)" using assms(7) n bt(1) by auto
    then have "tensor_equal T ((X n)\<lparr>tdata := updated_data T (X n) [] vs\<rparr>) t = Inr True" using bt(3) by (simp add: carried_def)
    then show ?thesis using bt(2) y(4) [OF False] by (simp add: updated_data_def)
  qed
  moreover have "load_sparse_delta_weights T None M (Inl (s_file st)) = (ls, Inr ())"
    by (simp add: load_sparse_delta_weights_def f y(1))
  ultimately show ?thesis using y(2,3) by blast
qed

section \<open>Equal is as good as identical\<close>

text \<open>IEEE arithmetic does not tell two equal numbers apart, except by the sign of a zero: == is transitive, and sums and
  casts of equal numbers are equal or the same (a NaN, for infinities, is the same but not equal).\<close>

definition eqv :: "torch_ops \<Rightarrow> dtype \<Rightarrow> int \<Rightarrow> int \<Rightarrow> bool" where
  "eqv T d x y \<longleftrightarrow> x = y \<or> feq T d x y"

definition eq_respected :: "torch_ops \<Rightarrow> bool" where
  "eq_respected T \<longleftrightarrow>
     (\<forall>d x y z. feq T d x y \<longrightarrow> feq T d y z \<longrightarrow> feq T d x z)
   \<and> (\<forall>d x y v. feq T d x y \<longrightarrow> eqv T d (fadd T d x v) (fadd T d y v))
   \<and> (\<forall>d e x y. feq T d x y \<longrightarrow> eqv T e (fcast T d e x) (fcast T d e y))"

lemma eqv_trans: "eq_respected T \<Longrightarrow> eqv T d x y \<Longrightarrow> eqv T d y z \<Longrightarrow> eqv T d x z"
  unfolding eqv_def eq_respected_def by blast

lemma eqv_feq: "eq_respected T \<Longrightarrow> eqv T d x y \<Longrightarrow> feq T d y z \<Longrightarrow> feq T d x z"
  unfolding eqv_def eq_respected_def by blast

lemma eqv_cast: "eq_respected T \<Longrightarrow> eqv T d x y \<Longrightarrow> eqv T e (fcast T d e x) (fcast T d e y)"
  unfolding eqv_def eq_respected_def by blast

lemma eqv_plus: "eq_respected T \<Longrightarrow> eqv T d x y \<Longrightarrow> eqv T d (fadd T d x v) (fadd T d y v)"
  unfolding eqv_def eq_respected_def by blast

lemma eqv_add_one:
  assumes "eq_respected T" and "eqv T d x y" shows "eqv T d (add_one T d vd x v) (add_one T d vd y v)"
  unfolding add_one_def Let_def by (intro eqv_cast eqv_plus assms)

lemma index_copy_all2:
  "list_all2 P xs ys \<Longrightarrow> length us = length ws \<Longrightarrow>
   (\<And>k. k < length us \<Longrightarrow> k < length idx \<Longrightarrow> nat (idx ! k) < length xs \<Longrightarrow> P (us ! k) (ws ! k)) \<Longrightarrow>
   list_all2 P (index_copy xs idx us) (index_copy ys idx ws)"
proof (induction xs idx us arbitrary: ys ws rule: index_copy.induct)
  case (1 flat i indices v us)
  obtain w ws' where ws: "ws = w # ws'" "length us = length ws'" using 1(3) by (cases ws) auto
  have "list_all2 P (flat[nat i := v]) (ys[nat i := w])"
  proof (cases "nat i < length flat")
    case True
    then have "P v w" using 1(4) [of 0] by (simp add: ws(1))
    then show ?thesis using 1(2) by (intro list_all2_update_cong)
  next
    case False
    then show ?thesis using 1(2) list_all2_lengthD [OF 1(2)] by (simp add: list_update_beyond)
  qed
  moreover have "P (us ! k) (ws' ! k)" if "k < length us" "k < length indices" "nat (indices ! k) < length (flat[nat i := v])" for k
    using 1(4) [of "Suc k"] that by (simp add: ws(1))
  ultimately show ?case using 1(1) ws by simp
qed auto

lemma updated_eqv:
  assumes "eq_respected T" and "list_all2 (eqv T d) (tdata x) (tdata b)" and "tdtype x = d" "tdtype b = d"
  shows "list_all2 (eqv T d) (updated_data T x idx vs) (updated_data T b idx vs)"
proof -
  have len: "length (tdata x) = length (tdata b)" using list_all2_lengthD [OF assms(2)] .
  have nth: "add_values T d flat idx vd vals ! k = add_one T d vd (flat ! nat (idx ! k)) (vals ! k)"
    if "k < length idx" "k < length vals" for flat vd vals k
    using that by (simp add: add_values_def add_one_def index_select_def Let_def)
  have leng: "length (add_values T d flat idx vd vals) = min (length idx) (length vals)" for flat vd vals
    by (simp add: add_values_def index_select_def Let_def)
  show ?thesis unfolding updated_data_def assms(3,4)
    using assms(2) by (intro index_copy_all2) (auto simp: leng nth intro!: eqv_add_one [OF assms(1)] list_all2_nthD)
qed

lemma equal_carried:
  assumes "eq_respected T" and "tensor_equal T x b = Inr True" shows "carried T b x"
proof -
  have e: "tdtype x = tdtype b" "tshape x = tshape b" "list_all2 (feq T (tdtype b)) (tdata x) (tdata b)"
    using assms(2) by (auto simp: tensor_equal_def split: if_splits)
  have q: "list_all2 (eqv T (tdtype b)) (tdata x) (tdata b)" using e(3) by (rule list_all2_mono) (simp add: eqv_def)
  have "tensor_equal T (x\<lparr>tdata := updated_data T x idx vs\<rparr>) t = Inr True"
    if t: "tensor_equal T (b\<lparr>tdata := updated_data T b idx vs\<rparr>) t = Inr True" for idx vs t
  proof -
    have "list_all2 (feq T (tdtype b)) (updated_data T b idx vs) (tdata t)" "tshape b = tshape t" "tdtype b = tdtype t"
      using t by (auto simp: tensor_equal_def split: if_splits)
    moreover from this have "list_all2 (feq T (tdtype b)) (updated_data T x idx vs) (tdata t)"
      using updated_eqv [OF assms(1) q e(1) refl, of idx vs] eqv_feq [OF assms(1)]
      by (auto intro: list_all2_trans [rotated])
    ultimately show ?thesis using e by (simp add: tensor_equal_def)
  qed
  then show ?thesis using e by (simp add: carried_def)
qed

section \<open>A chain of deltas\<close>

text \<open>Files and the states they lead to: each was streamed from the state before.\<close>

fun streamed_chain :: "torch_ops \<Rightarrow> string \<Rightarrow> int \<Rightarrow> string set \<Rightarrow> store \<Rightarrow> (byte list \<times> store) list \<Rightarrow> bool" where
  "streamed_chain T enc gs names base [] \<longleftrightarrow> True"
| "streamed_chain T enc gs names base ((f, target) # fs) \<longleftrightarrow>
     (\<exists>st stats keys. extract_sparse_delta_streaming_from_stores T enc gs True base target = (Some st, Inr stats)
        \<and> f = s_file st \<and> validated_model_keys T base target True = Inr keys \<and> set keys = names
        \<and> stores_ok base target keys \<and> distinct (store_keys base))
     \<and> streamed_chain T enc gs names target fs"

definition load_one :: "torch_ops \<Rightarrow> vllm_model \<Rightarrow> byte list \<Rightarrow> vllm_model res" where
  "load_one T M f = (case load_sparse_delta_weights T None M (Inl f) of (ls, r) \<Rightarrow> bindR r (\<lambda>_. Inr (ld_model ls)))"

definition load_chain :: "torch_ops \<Rightarrow> vllm_model \<Rightarrow> byte list list \<Rightarrow> vllm_model res" where
  "load_chain T M files = foldR (load_one T) M files"

lemma chain_applied:
  assumes T: "torch_ok T" "eq_respected T"
    and "streamed_chain T enc gs names base fs" and "\<forall>f \<in> fst ` set fs. length f < 2 ^ 63" and "\<forall>n \<in> names. \<exists>b. get_tensor base n = Inr b \<and> carried T b (X n)"
    and "model_wf M" and "holds M names X" and "parts_apart M names (tshape \<circ> X)"
  shows "\<exists>M' X'. load_chain T M (map fst fs) = Inr M' \<and> same_layout M M' \<and> holds M' names X'
    \<and> (fs \<noteq> [] \<longrightarrow> (\<forall>n \<in> names. \<exists>t. get_tensor (snd (last fs)) n = Inr t \<and> tensor_equal T (X' n) t = Inr True))"
  using assms(3-8)
proof (induction fs arbitrary: base X M)
  case Nil
  then show ?case by (auto simp: load_chain_def same_layout_refl)
next
  case (Cons a fs)
  obtain f target where a: "a = (f, target)" by (cases a)
  obtain st stats keys where s: "extract_sparse_delta_streaming_from_stores T enc gs True base target = (Some st, Inr stats)"
    "f = s_file st" "validated_model_keys T base target True = Inr keys" "set keys = names" "stores_ok base target keys"
    "distinct (store_keys base)" and rest: "streamed_chain T enc gs names target fs"
    using Cons.prems(1) unfolding a streamed_chain.simps by blast
  have s7: "length (s_file st) < 2 ^ 63" and small: "\<forall>f \<in> fst ` set fs. length f < 2 ^ 63"
    using Cons.prems(2) by (simp_all add: a s(2))
  have c: "\<forall>n \<in> set keys. \<exists>b. get_tensor base n = Inr b \<and> carried T b (X n)" using Cons.prems(3) s(4) by simp
  obtain ls Y where y: "load_sparse_delta_weights T None M (Inl f) = (ls, Inr ())" "same_layout M (ld_model ls)"
    "holds (ld_model ls) names Y" "\<forall>n \<in> names. tshape (Y n) = tshape (X n)
       \<and> (\<exists>t. get_tensor target n = Inr t \<and> tensor_equal T (Y n) t = Inr True)"
    using streamed_delta_applied [OF T(1) s(1,3,5,6) s7 c Cons.prems(4)] Cons.prems(5,6) unfolding s(2,4) by blast
  have one: "load_one T M f = Inr (ld_model ls)" by (simp add: load_one_def y(1))
  have wf: "model_wf (ld_model ls)" using model_wf_same [OF y(2) Cons.prems(4)] .
  have "parts_apart (ld_model ls) names (tshape \<circ> X)" using parts_apart_same [OF y(2) Cons.prems(6)] .
  then have ap: "parts_apart (ld_model ls) names (tshape \<circ> Y)" using y(4) unfolding parts_apart_def by simp
  have cy: "\<forall>n \<in> names. \<exists>b. get_tensor target n = Inr b \<and> carried T b (Y n)"
    using y(4) equal_carried [OF T(2)] by blast
  from Cons.IH [OF rest small cy wf y(3) ap] obtain M' X' where m: "load_chain T (ld_model ls) (map fst fs) = Inr M'"
    "same_layout (ld_model ls) M'" "holds M' names X'"
    "fs \<noteq> [] \<longrightarrow> (\<forall>n \<in> names. \<exists>t. get_tensor (snd (last fs)) n = Inr t \<and> tensor_equal T (X' n) t = Inr True)"
    by blast
  have l: "load_chain T M (map fst (a # fs)) = Inr M'" using m(1) by (simp add: load_chain_def one a)
  have sm: "same_layout M M'" using same_layout_trans [OF y(2) m(2)] .
  show ?case
  proof (cases "fs = []")
    case True
    then have "M' = ld_model ls" using m(1) by (simp add: load_chain_def)
    then show ?thesis using l sm y(3,4) True a by (intro exI [of _ M'] exI [of _ Y]) simp
  next
    case False
    then show ?thesis using l sm m(3,4) by (intro exI [of _ M'] exI [of _ X']) simp
  qed
qed

section \<open>A small model\<close>

definition demo_model :: vllm_model where
  "demo_model = \<lparr>params = [(''w'', \<lparr>p_tensor = flat_tensor Int8 [1, 2, 3], p_contiguous = True, p_input_dim = None,
      p_output_dim = None, p_packed_dim = None, p_bitsandbytes_4bit = False\<rparr>)],
    modules = [([], \<lparr>m_class = ''RMSNorm'', m_quant_config = False, m_quant_method = None, m_shard_kind = None,
      m_shard_indices = None, m_embeddings_per_partition = False, m_tp_rank = None, m_tp_size = None,
      m_output_sizes = None, m_qkv = None\<rparr>)]\<rparr>"

lemma demo_model_ok:
  "model_wf demo_model" "holds demo_model {''w''} (\<lambda>_. flat_tensor Int8 [1, 2, 3])"
  "parts_apart demo_model (set [''w'']) (tshape \<circ> (\<lambda>_. flat_tensor Int8 [1, 2, 3]))"
proof -
  let ?p = "\<lparr>p_tensor = flat_tensor Int8 [1, 2, 3], p_contiguous = True, p_input_dim = None,
      p_output_dim = None, p_packed_dim = None, p_bitsandbytes_4bit = False\<rparr>"
  let ?v = "\<lparr>m_class = ''RMSNorm'', m_quant_config = False, m_quant_method = None, m_shard_kind = None,
      m_shard_indices = None, m_embeddings_per_partition = False, m_tp_rank = None, m_tp_size = None,
      m_output_sizes = None, m_qkv = None\<rparr>"
  have k: "direct_layout_kind ?v ?p = ''replicated''" by code_simp
  have d: "dget (params demo_model) ''w'' = Some ?p" "parameter_module demo_model ''w'' = Inr ?v"
    by (simp_all add: demo_model_def parameter_module_def before_last_dot_def)
  have mp: "layout_mapping_of demo_model ''w'' =
      Inr \<lparr>target_name = ''w'', layout_kind = ''replicated'', layout_shard = NoShard\<rparr>"
    by (simp add: layout_mapping_of_def d k)
  have loc: "located demo_model ''w'' S = Some (''w'', Whole)" for S
    by (simp add: located_def mp d placement_of_def)
  have sup: "supports demo_model ''w'' [3]"
    by (simp add: supports_def to_local_def empty_update_def mp d validate_supported_parameter_def
        validate_update_def project_update_def numel_def numeral_3_eq_3)
  show "model_wf demo_model" by (simp add: model_wf_def demo_model_def)
  show "holds demo_model {''w''} (\<lambda>_. flat_tensor Int8 [1, 2, 3])"
    using sup by (simp add: holds_def loc d holds_part_def numeral_3_eq_3)
  show "parts_apart demo_model (set [''w'']) (tshape \<circ> (\<lambda>_. flat_tensor Int8 [1, 2, 3]))"
    by (simp add: parts_apart_def)
qed

end
