(* ===== verification/Runs.thy ===== *)
theory Runs
  imports Prelude "HOL-Library.Product_Lexorder"
begin

text \<open>
  The runs of a trainer (\<open>trainer/runs.py\<close>): discovery of run directories on the master, the
  data kept per run index, eviction, and the synchronisation of the other ranks. The output
  directory is a dictionary of run directories in the order the file system lists them; the
  element \<open>next(iter(unused_idxs))\<close> takes is the choice of a parameter. Hooks are logged; the
  scaling factor of an adapter is kept as the numbers it is computed from.
\<close>

section \<open>Run directories\<close>

record orch_config =
  oc_resume_step :: "int option"
  oc_lora_rank :: "int option"
  oc_lora_alpha :: "int option"

datatype config_file = NoConfig | BadConfig string | GoodConfig orch_config

record run_dir =
  rd_config :: config_file
  rd_error :: "string option"
  rd_evicted :: "string option"
  rd_all_steps :: "nat list"
  rd_stable_steps :: "nat list"

type_synonym output_dir = "(string, run_dir) dict"

record lora_config =
  lc_rank :: int
  lc_alpha :: int

section \<open>The manager\<close>

record progress =
  p_step :: int
  p_tokens :: nat
  p_samples :: nat

datatype hook_call =
    Forgotten nat string
  | Discovered nat string
  | Deleted nat string
  | Created nat string
  | ResetParameters nat

datatype scaling = Default | Ratio int int

record manager =
  is_master :: bool
  max_runs :: nat
  idx_2_id :: "(nat, string) dict"
  id_2_idx :: "(string, nat) dict"
  unused_idxs :: "nat list"
  m_progress :: "(nat, progress) dict"
  m_config :: "(nat, orch_config) dict"
  ready_to_update :: "bool list"
  scaling_factors :: "scaling list"
  last_synced :: "(string, nat) dict"
  hook_log :: "hook_call list"

definition new_manager :: "bool \<Rightarrow> nat \<Rightarrow> manager" where
  "new_manager master n =
     \<lparr>is_master = master, max_runs = n, idx_2_id = [], id_2_idx = [], unused_idxs = [0..<n], m_progress = [],
      m_config = [], ready_to_update = replicate n False, scaling_factors = replicate n Default,
      last_synced = [], hook_log = []\<rparr>"

definition used_idxs :: "manager \<Rightarrow> nat list" where
  "used_idxs m = sort (dkeys (idx_2_id m))"

definition ready_to_update_idxs :: "manager \<Rightarrow> nat list" where
  "ready_to_update_idxs m = map fst (filter snd (enumerate 0 (ready_to_update m)))"

definition call_hook :: "hook_call \<Rightarrow> manager \<Rightarrow> manager" where
  "call_hook h m = m\<lparr>hook_log := hook_log m @ [h]\<rparr>"

section \<open>Configurations\<close>

definition validate_lora_rank :: "lora_config \<Rightarrow> orch_config \<Rightarrow> orch_config \<times> string option" where
  "validate_lora_rank lora c =
     (let rank = (case oc_lora_rank c of None \<Rightarrow> lc_rank lora | Some r \<Rightarrow> r);
          alpha = (case oc_lora_alpha c of None \<Rightarrow> lc_alpha lora | Some a \<Rightarrow> a)
      in (c\<lparr>oc_lora_rank := Some rank, oc_lora_alpha := Some alpha\<rparr>,
          if rank > lc_rank lora then Some ''rank exceeds trainer max rank'' else None))"

definition get_orchestrator_config :: "lora_config option \<Rightarrow> run_dir \<Rightarrow> run_dir \<times> orch_config option" where
  "get_orchestrator_config lora rd =
     (case rd_config rd of
        NoConfig \<Rightarrow> (rd, None)
      | BadConfig e \<Rightarrow> (rd\<lparr>rd_error := Some (''Error parsing orchestrator config: '' @ e)\<rparr>, None)
      | GoodConfig c \<Rightarrow>
          (case lora of
             None \<Rightarrow> (rd\<lparr>rd_error := None\<rparr>, Some c)
           | Some l \<Rightarrow>
               (case validate_lora_rank l c of
                  (c', Some msg) \<Rightarrow> (rd\<lparr>rd_error := Some msg\<rparr>, None)
                | (c', None) \<Rightarrow> (rd\<lparr>rd_error := None\<rparr>, Some c'))))"

section \<open>Run data\<close>

definition resume_steps :: "manager \<Rightarrow> run_dir \<Rightarrow> nat list" where
  "resume_steps m rd = (if max_runs m > 1 then rd_stable_steps rd else rd_all_steps rd)"

definition initial_step :: "manager \<Rightarrow> run_dir \<Rightarrow> orch_config \<Rightarrow> int" where
  "initial_step m rd c =
     (case oc_resume_step c of
        None \<Rightarrow> 0
      | Some s \<Rightarrow> if s = -1 then (if resume_steps m rd = [] then 0 else int (Max (set (resume_steps m rd)))) else s)"

definition create_run_data :: "run_dir \<Rightarrow> string \<Rightarrow> nat \<Rightarrow> orch_config \<Rightarrow> manager \<Rightarrow> manager res" where
  "create_run_data rd run idx c m =
     bindR (ensure (idx \<in> set (unused_idxs m)) (KeyError ''unused_idxs'')) (\<lambda>_.
     Inr (m\<lparr>id_2_idx := dput run idx (id_2_idx m), unused_idxs := remove1 idx (unused_idxs m),
            idx_2_id := dput idx run (idx_2_id m),
            m_progress := dput idx \<lparr>p_step = initial_step m rd c, p_tokens = 0, p_samples = 0\<rparr> (m_progress m),
            m_config := dput idx c (m_config m)\<rparr>))"

definition delete_run_data :: "string \<Rightarrow> nat \<Rightarrow> manager \<Rightarrow> manager res" where
  "delete_run_data run idx m =
     bindR (ensure (idx \<in> set (dkeys (m_progress m))) (KeyError ''progress'')) (\<lambda>_.
     bindR (ensure (idx < length (scaling_factors m)) (IndexError ''scaling_factors'')) (\<lambda>_.
     bindR (ensure (idx \<in> set (dkeys (idx_2_id m))) (KeyError ''idx_2_id'')) (\<lambda>_.
     bindR (ensure (run \<in> set (dkeys (id_2_idx m))) (KeyError ''id_2_idx'')) (\<lambda>_.
     Inr (m\<lparr>m_progress := dpop idx (m_progress m), m_config := dpop idx (m_config m),
            scaling_factors := (scaling_factors m)[idx := Default],
            unused_idxs := List.insert idx (unused_idxs m), idx_2_id := dpop idx (idx_2_id m),
            id_2_idx := dpop run (id_2_idx m)\<rparr>)))))"

section \<open>Eviction and discovery (master)\<close>

definition evict_run :: "nat \<Rightarrow> string \<Rightarrow> manager \<Rightarrow> output_dir \<Rightarrow> output_dir res" where
  "evict_run idx reason m out =
     bindR (ensure (is_master m) (RuntimeError ''evict_run() must only be called on the master rank'')) (\<lambda>_.
     case dget (idx_2_id m) idx of
       None \<Rightarrow> Inr out
     | Some run \<Rightarrow>
         let rd = (case dget out run of
                     None \<Rightarrow> \<lparr>rd_config = NoConfig, rd_error = None, rd_evicted = None, rd_all_steps = [], rd_stable_steps = []\<rparr>
                   | Some rd \<Rightarrow> rd)
         in Inr (dput run (rd\<lparr>rd_evicted := Some reason\<rparr>) out))"

definition live_runs :: "output_dir \<Rightarrow> string list" where
  "live_runs out = map fst (filter (\<lambda>p. rd_evicted (snd p) = None) out)"

definition forget_run :: "manager \<Rightarrow> string \<Rightarrow> manager res" where
  "forget_run m run =
     (case dget (id_2_idx m) run of
        None \<Rightarrow> Inl (KeyError run)
      | Some idx \<Rightarrow> delete_run_data run idx (call_hook (Forgotten idx run) m))"

definition on_run_discovered :: "lora_config option \<Rightarrow> nat \<Rightarrow> orch_config \<Rightarrow> manager \<Rightarrow> manager" where
  "on_run_discovered lora idx c m =
     (case lora of
        None \<Rightarrow> m
      | Some l \<Rightarrow> m\<lparr>scaling_factors := (scaling_factors m)[idx :=
                      Ratio (case oc_lora_alpha c of None \<Rightarrow> lc_alpha l | Some a \<Rightarrow> a)
                            (case oc_lora_rank c of None \<Rightarrow> lc_rank l | Some r \<Rightarrow> r)]\<rparr>)"

definition discover_run ::
  "(nat list \<Rightarrow> nat) \<Rightarrow> lora_config option \<Rightarrow> manager \<times> output_dir \<Rightarrow> string \<Rightarrow> (manager \<times> output_dir) res" where
  "discover_run pick lora st run =
     (let (m, out) = st in
      if unused_idxs m = [] then Inr (m, out)
      else case dget out run of
        None \<Rightarrow> Inr (m, out)
      | Some rd \<Rightarrow>
          let idx = pick (unused_idxs m); (rd', config) = get_orchestrator_config lora rd; out' = dput run rd' out
          in case config of
               None \<Rightarrow> Inr (m, out')
             | Some c \<Rightarrow>
                 bindR (create_run_data rd' run idx c m) (\<lambda>m'.
                 Inr (call_hook (Discovered idx run) (on_run_discovered lora idx c m'), out')))"

definition discover_runs ::
  "(nat list \<Rightarrow> nat) \<Rightarrow> lora_config option \<Rightarrow> manager \<Rightarrow> output_dir \<Rightarrow> (manager \<times> output_dir) res" where
  "discover_runs pick lora m out =
     bindR (ensure (is_master m) (RuntimeError ''discover_runs() must only be called on the master rank'')) (\<lambda>_.
     let live = live_runs out;
         deleted_runs = filter (\<lambda>r. r \<notin> set live) (dkeys (id_2_idx m));
         new_runs = filter (\<lambda>r. r \<notin> set (dkeys (id_2_idx m))) live in
     bindR (foldR forget_run m deleted_runs) (\<lambda>m'.
     foldR (discover_run pick lora) (m', out) new_runs))"

section \<open>Synchronisation\<close>

text \<open>What the master puts in the store; each other rank reads it after the barrier.\<close>

record sync_data =
  sd_id_2_idx :: "(string, nat) dict"
  sd_ready :: "bool list"
  sd_scaling :: "scaling list"
  sd_configs :: "(string, orch_config) dict"
  sd_progress :: "(nat, progress) dict"

definition runs_only_in :: "(string, nat) dict \<Rightarrow> (string, nat) dict \<Rightarrow> string list" where
  "runs_only_in a b = filter (\<lambda>r. r \<notin> set (dkeys b)) (dkeys a)"

definition publish_state :: "manager \<Rightarrow> sync_data res" where
  "publish_state m =
     bindR (mapR (\<lambda>r. case dget (id_2_idx m) r of
                        None \<Rightarrow> Inl (KeyError r)
                      | Some i \<Rightarrow> (case dget (m_config m) i of None \<Rightarrow> Inl (KeyError ''config'') | Some c \<Rightarrow> Inr (r, c)))
             (runs_only_in (id_2_idx m) (last_synced m))) (\<lambda>configs.
     Inr \<lparr>sd_id_2_idx = id_2_idx m, sd_ready = ready_to_update m, sd_scaling = scaling_factors m,
          sd_configs = configs, sd_progress = m_progress m\<rparr>)"

definition run_delete_hooks :: "(string, nat) dict \<Rightarrow> string list \<Rightarrow> manager \<Rightarrow> manager" where
  "run_delete_hooks idxs runs m = foldl (\<lambda>m r. case dget idxs r of None \<Rightarrow> m | Some i \<Rightarrow> call_hook (Deleted i r) m) m runs"

definition run_create_hooks :: "string list \<Rightarrow> manager \<Rightarrow> manager" where
  "run_create_hooks runs m =
     foldl (\<lambda>m r. case dget (id_2_idx m) r of None \<Rightarrow> m | Some i \<Rightarrow> call_hook (Created i r) (call_hook (ResetParameters i) m)) m runs"

definition synchronize_master :: "manager \<Rightarrow> manager" where
  "synchronize_master m =
     (let new_runs = runs_only_in (id_2_idx m) (last_synced m);
          deleted_runs = runs_only_in (last_synced m) (id_2_idx m);
          m1 = run_create_hooks new_runs (run_delete_hooks (last_synced m) deleted_runs m)
      in m1\<lparr>last_synced := id_2_idx m1\<rparr>)"

definition catch_up_delete :: "manager \<Rightarrow> string \<Rightarrow> manager res" where
  "catch_up_delete m r =
     (case dget (id_2_idx m) r of None \<Rightarrow> Inl (KeyError r) | Some i \<Rightarrow> delete_run_data r i m)"

definition catch_up_create :: "sync_data \<Rightarrow> (string \<Rightarrow> run_dir) \<Rightarrow> manager \<Rightarrow> string \<Rightarrow> manager res" where
  "catch_up_create sd dirs m r =
     (case (dget (sd_id_2_idx sd) r, dget (sd_configs sd) r) of
        (Some i, Some c) \<Rightarrow> create_run_data (dirs r) r i c m
      | _ \<Rightarrow> Inl (KeyError r))"

definition synchronize_rank :: "sync_data \<Rightarrow> (string \<Rightarrow> run_dir) \<Rightarrow> manager \<Rightarrow> manager res" where
  "synchronize_rank sd dirs m =
     (let m0 = m\<lparr>ready_to_update := sd_ready sd, scaling_factors := sd_scaling sd\<rparr>;
          new_runs = runs_only_in (sd_id_2_idx sd) (id_2_idx m);
          deleted_runs = runs_only_in (id_2_idx m) (sd_id_2_idx sd);
          deleted_idxs = id_2_idx m in
      bindR (foldR catch_up_delete m0 deleted_runs) (\<lambda>m1.
      bindR (foldR (catch_up_create sd dirs) m1 new_runs) (\<lambda>m2.
      let m3 = m2\<lparr>m_progress := sd_progress sd\<rparr>
      in Inr (run_create_hooks new_runs (run_delete_hooks deleted_idxs deleted_runs m3)))))"

section \<open>The data of the runs stays consistent\<close>

definition manager_ok :: "manager \<Rightarrow> bool" where
  "manager_ok m \<longleftrightarrow>
     distinct (dkeys (id_2_idx m)) \<and> distinct (dkeys (idx_2_id m)) \<and> distinct (unused_idxs m) \<and>
     (\<forall>r i. dget (id_2_idx m) r = Some i \<longleftrightarrow> dget (idx_2_id m) i = Some r) \<and>
     (\<forall>i. i \<in> set (unused_idxs m) \<longleftrightarrow> i < max_runs m \<and> dget (idx_2_id m) i = None) \<and>
     (\<forall>i. dget (idx_2_id m) i \<noteq> None \<longrightarrow> i < max_runs m) \<and>
     (\<forall>i. dget (m_progress m) i = None \<longleftrightarrow> dget (idx_2_id m) i = None) \<and>
     (\<forall>i. dget (m_config m) i = None \<longleftrightarrow> dget (idx_2_id m) i = None) \<and>
     length (scaling_factors m) = max_runs m \<and> length (ready_to_update m) = max_runs m"

lemma manager_okD:
  assumes "manager_ok m"
  shows "distinct (dkeys (id_2_idx m))" "distinct (dkeys (idx_2_id m))" "distinct (unused_idxs m)"
    "dget (id_2_idx m) r = Some i \<longleftrightarrow> dget (idx_2_id m) i = Some r"
    "i \<in> set (unused_idxs m) \<longleftrightarrow> i < max_runs m \<and> dget (idx_2_id m) i = None"
    "dget (idx_2_id m) i \<noteq> None \<Longrightarrow> i < max_runs m"
    "dget (m_progress m) i = None \<longleftrightarrow> dget (idx_2_id m) i = None"
    "dget (m_config m) i = None \<longleftrightarrow> dget (idx_2_id m) i = None"
    "length (scaling_factors m) = max_runs m" "length (ready_to_update m) = max_runs m"
  using assms unfolding manager_ok_def by blast+

lemma new_manager_ok: "manager_ok (new_manager master n)"
  by (simp add: manager_ok_def new_manager_def)

lemma manager_ok_frame [simp]: "manager_ok (call_hook h m) = manager_ok m"
  "id_2_idx (call_hook h m) = id_2_idx m" "idx_2_id (call_hook h m) = idx_2_id m" "max_runs (call_hook h m) = max_runs m"
  "unused_idxs (call_hook h m) = unused_idxs m" "m_progress (call_hook h m) = m_progress m"
  "m_config (call_hook h m) = m_config m" "scaling_factors (call_hook h m) = scaling_factors m"
  "ready_to_update (call_hook h m) = ready_to_update m" "is_master (call_hook h m) = is_master m" "last_synced (call_hook h m) = last_synced m"
  by (simp_all add: call_hook_def manager_ok_def)

lemma create_run_data_ok:
  assumes "manager_ok m" and "i \<in> set (unused_idxs m)" and "dget (id_2_idx m) r = None"
  shows "\<exists>m'. create_run_data rd r i c m = Inr m' \<and> manager_ok m' \<and> max_runs m' = max_runs m
    \<and> id_2_idx m' = dput r i (id_2_idx m) \<and> idx_2_id m' = dput i r (idx_2_id m)"
proof -
  note ok = manager_okD [OF assms(1)]
  have i: "i < max_runs m" "dget (idx_2_id m) i = None" using assms(2) by (simp_all add: ok(5))
  have r: "dget (idx_2_id m) j \<noteq> Some r" for j using assms(3) by (simp flip: ok(4))
  have k: "dget (id_2_idx m) q \<noteq> Some i" for q by (simp add: ok(4) i)
  let ?m = "m\<lparr>id_2_idx := dput r i (id_2_idx m), unused_idxs := remove1 i (unused_idxs m),
    idx_2_id := dput i r (idx_2_id m), m_progress := dput i \<lparr>p_step = initial_step m rd c, p_tokens = 0, p_samples = 0\<rparr> (m_progress m),
    m_config := dput i c (m_config m)\<rparr>"
  have "manager_ok ?m"
    unfolding manager_ok_def
  proof (intro conjI)
    show "\<forall>q j. dget (id_2_idx ?m) q = Some j \<longleftrightarrow> dget (idx_2_id ?m) j = Some q"
      using r k by (simp add: dict_simps ok(4))
    show "\<forall>j. j \<in> set (unused_idxs ?m) \<longleftrightarrow> j < max_runs ?m \<and> dget (idx_2_id ?m) j = None"
      using ok(3) by (simp add: dict_simps ok(5))
    show "\<forall>j. dget (idx_2_id ?m) j \<noteq> None \<longrightarrow> j < max_runs ?m"
      using i(1) ok(6) by (simp add: dict_simps)
  qed (use ok(1-3,9,10) in \<open>simp_all add: dict_simps distinct_dkeys_dput ok(7,8)\<close>)
  then show ?thesis using assms(2) by (simp add: create_run_data_def)
qed

lemma delete_run_data_ok:
  assumes "manager_ok m" and "dget (id_2_idx m) r = Some i"
  shows "\<exists>m'. delete_run_data r i m = Inr m' \<and> manager_ok m' \<and> max_runs m' = max_runs m
    \<and> id_2_idx m' = dpop r (id_2_idx m) \<and> idx_2_id m' = dpop i (idx_2_id m)"
proof -
  note ok = manager_okD [OF assms(1)]
  have i: "dget (idx_2_id m) i = Some r" "i < max_runs m" using assms(2) ok(4) ok(6) [of i] by auto
  have p: "dget (m_progress m) i \<noteq> None" using i(1) by (simp add: ok(7))
  have inj: "dget (idx_2_id m) j = Some r \<Longrightarrow> j = i" for j using assms(2) by (simp flip: ok(4))
  have inj': "dget (id_2_idx m) q = Some i \<Longrightarrow> q = r" for q using i(1) by (simp add: ok(4))
  let ?m = "m\<lparr>m_progress := dpop i (m_progress m), m_config := dpop i (m_config m),
    scaling_factors := (scaling_factors m)[i := Default], unused_idxs := List.insert i (unused_idxs m),
    idx_2_id := dpop i (idx_2_id m), id_2_idx := dpop r (id_2_idx m)\<rparr>"
  have "manager_ok ?m"
    unfolding manager_ok_def
  proof (intro conjI)
    show "\<forall>q j. dget (id_2_idx ?m) q = Some j \<longleftrightarrow> dget (idx_2_id ?m) j = Some q"
      using inj inj' by (auto simp: dict_simps ok(4))
    show "\<forall>j. j \<in> set (unused_idxs ?m) \<longleftrightarrow> j < max_runs ?m \<and> dget (idx_2_id ?m) j = None"
      using i(2) by (simp add: dict_simps ok(5))
    show "\<forall>j. dget (idx_2_id ?m) j \<noteq> None \<longrightarrow> j < max_runs ?m"
      using ok(6) by (simp add: dict_simps)
  qed (use ok(1-3,9,10) in \<open>simp_all add: dict_simps distinct_dkeys_dpop ok(7,8)\<close>)
  moreover have "delete_run_data r i m = Inr ?m"
    using i p assms(2) by (simp add: delete_run_data_def in_dkeys_iff ok(9))
  ultimately show ?thesis by simp
qed

lemma forget_runs_ok:
  assumes "manager_ok m" and "distinct rs" and "\<forall>r \<in> set rs. dget (id_2_idx m) r \<noteq> None"
  shows "\<exists>m'. foldR forget_run m rs = Inr m' \<and> manager_ok m' \<and> max_runs m' = max_runs m
    \<and> (\<forall>r. dget (id_2_idx m') r = (if r \<in> set rs then None else dget (id_2_idx m) r))"
  using assms
proof (induction rs arbitrary: m)
  case (Cons r rs)
  then obtain i where i: "dget (id_2_idx m) r = Some i" by auto
  then obtain m1 where m1: "delete_run_data r i (call_hook (Forgotten i r) m) = Inr m1" "manager_ok m1"
      "max_runs m1 = max_runs m" "id_2_idx m1 = dpop r (id_2_idx m)"
    using delete_run_data_ok [of "call_hook (Forgotten i r) m" r i] Cons.prems(1) by auto
  have "\<forall>q \<in> set rs. dget (id_2_idx m1) q \<noteq> None" using Cons.prems(2,3) by (auto simp: m1(4) dict_simps)
  from Cons.IH [OF m1(2) _ this] Cons.prems(2) show ?case
    using i m1 by (auto simp: forget_run_def dict_simps)
qed auto

definition admissible :: "lora_config option \<Rightarrow> output_dir \<Rightarrow> string \<Rightarrow> bool" where
  "admissible lora out r \<longleftrightarrow> (\<exists>rd. dget out r = Some rd \<and> snd (get_orchestrator_config lora rd) \<noteq> None)"

lemma get_config_frame:
  "rd_config (fst (get_orchestrator_config lora rd)) = rd_config rd"
  by (auto simp: get_orchestrator_config_def split: config_file.splits option.splits prod.splits)

lemma get_config_cong: "rd_config a = rd_config b \<Longrightarrow> snd (get_orchestrator_config lora a) = snd (get_orchestrator_config lora b)"
  by (auto simp: get_orchestrator_config_def split: config_file.splits option.splits prod.splits)

lemma on_run_discovered_frame [simp]:
  "id_2_idx (on_run_discovered lora i c m) = id_2_idx m" "max_runs (on_run_discovered lora i c m) = max_runs m"
  "unused_idxs (on_run_discovered lora i c m) = unused_idxs m"
  "manager_ok (on_run_discovered lora i c m) = manager_ok m"
  by (simp_all add: on_run_discovered_def manager_ok_def split: option.splits)

definition same_configs :: "output_dir \<Rightarrow> output_dir \<Rightarrow> bool" where
  "same_configs out out' \<longleftrightarrow> (\<forall>r. map_option rd_config (dget out' r) = map_option rd_config (dget out r))"

lemma admissible_same: "same_configs out out' \<Longrightarrow> admissible lora out' r = admissible lora out r"
proof -
  assume "same_configs out out'"
  then have "map_option rd_config (dget out' r) = map_option rd_config (dget out r)" by (simp add: same_configs_def)
  then show ?thesis
    by (cases "dget out' r"; cases "dget out r") (simp_all add: admissible_def, metis get_config_cong)
qed

lemma discover_run_ok:
  assumes "manager_ok m" and "dget (id_2_idx m) r = None" and "\<forall>xs. xs \<noteq> [] \<longrightarrow> pick xs \<in> set xs"
  shows "\<exists>m' out'. discover_run pick lora (m, out) r = Inr (m', out') \<and> manager_ok m' \<and> max_runs m' = max_runs m
    \<and> same_configs out out' \<and> (\<forall>q. q \<noteq> r \<longrightarrow> dget (id_2_idx m') q = dget (id_2_idx m) q)
    \<and> (unused_idxs m = [] \<longrightarrow> unused_idxs m' = [])
    \<and> (dget (id_2_idx m') r = None \<longrightarrow> unused_idxs m' = [] \<or> \<not> admissible lora out r)"
proof (cases "unused_idxs m = [] \<or> dget out r = None")
  case True
  then show ?thesis using assms by (auto simp: discover_run_def same_configs_def admissible_def split: option.split)
next
  case False
  then obtain rd where rd: "dget out r = Some rd" and u: "unused_idxs m \<noteq> []" by auto
  obtain rd' c where g: "get_orchestrator_config lora rd = (rd', c)" by force
  have sc: "same_configs out (dput r rd' out)"
    using get_config_frame [of lora rd] by (simp add: same_configs_def dict_simps rd g)
  show ?thesis
  proof (cases c)
    case None
    then show ?thesis using assms(1,2) u rd g sc by (simp add: discover_run_def admissible_def)
  next
    case (Some c0)
    obtain m1 where m1: "create_run_data rd' r (pick (unused_idxs m)) c0 m = Inr m1" "manager_ok m1" "max_runs m1 = max_runs m"
        "id_2_idx m1 = dput r (pick (unused_idxs m)) (id_2_idx m)"
      using create_run_data_ok [OF assms(1) _ assms(2)] assms(3) u by blast
    then show ?thesis using u rd g Some sc by (simp add: discover_run_def Let_def dict_simps)
  qed
qed

lemma discover_new_runs_ok:
  assumes "manager_ok m" and "distinct rs" and "\<forall>r \<in> set rs. dget (id_2_idx m) r = None"
    and "\<forall>xs. xs \<noteq> [] \<longrightarrow> pick xs \<in> set xs"
  shows "\<exists>m' out'. foldR (discover_run pick lora) (m, out) rs = Inr (m', out') \<and> manager_ok m' \<and> same_configs out out'
    \<and> (\<forall>q. q \<notin> set rs \<longrightarrow> dget (id_2_idx m') q = dget (id_2_idx m) q)
    \<and> (unused_idxs m = [] \<longrightarrow> unused_idxs m' = [])
    \<and> (\<forall>r \<in> set rs. dget (id_2_idx m') r = None \<longrightarrow> unused_idxs m' = [] \<or> \<not> admissible lora out r)"
  using assms(1-3)
proof (induction rs arbitrary: m out)
  case Nil
  then show ?case by (simp add: same_configs_def)
next
  case (Cons r rs)
  have "dget (id_2_idx m) r = None" using Cons.prems(3) by simp
  from discover_run_ok [OF Cons.prems(1) this assms(4), where lora = lora and out = out] obtain m1 out1 where
    s: "discover_run pick lora (m, out) r = Inr (m1, out1)" "manager_ok m1" "same_configs out out1"
      "\<forall>q. q \<noteq> r \<longrightarrow> dget (id_2_idx m1) q = dget (id_2_idx m) q" "unused_idxs m = [] \<longrightarrow> unused_idxs m1 = []"
      "dget (id_2_idx m1) r = None \<longrightarrow> unused_idxs m1 = [] \<or> \<not> admissible lora out r"
    by (elim exE conjE) (rule that)
  have "\<forall>q \<in> set rs. dget (id_2_idx m1) q = None" using Cons.prems(2,3) s(4) by auto
  from Cons.IH [OF s(2) _ this, of out1] Cons.prems(2)
  obtain m2 out2 where
    t: "foldR (discover_run pick lora) (m1, out1) rs = Inr (m2, out2)" "manager_ok m2" "same_configs out1 out2"
      "\<forall>q. q \<notin> set rs \<longrightarrow> dget (id_2_idx m2) q = dget (id_2_idx m1) q" "unused_idxs m1 = [] \<longrightarrow> unused_idxs m2 = []"
      "\<forall>q \<in> set rs. dget (id_2_idx m2) q = None \<longrightarrow> unused_idxs m2 = [] \<or> \<not> admissible lora out1 q" by auto
  have "same_configs out out2" using s(3) t(3) by (simp add: same_configs_def)
  then show ?case
    using s t Cons.prems(2) by (intro exI [of _ m2] exI [of _ out2]) (auto simp: admissible_same [OF s(3)])
qed

lemma discovery:
  assumes "manager_ok m" and "is_master m" and "distinct (dkeys out)" and "\<forall>xs. xs \<noteq> [] \<longrightarrow> pick xs \<in> set xs"
  shows "\<exists>m' out'. discover_runs pick lora m out = Inr (m', out') \<and> manager_ok m'
    \<and> (\<forall>r. r \<notin> set (live_runs out) \<longrightarrow> dget (id_2_idx m') r = None)
    \<and> (\<forall>r \<in> set (live_runs out). \<forall>i. dget (id_2_idx m) r = Some i \<longrightarrow> dget (id_2_idx m') r = Some i)
    \<and> (\<forall>r \<in> set (live_runs out). dget (id_2_idx m') r = None \<longrightarrow> unused_idxs m' = [] \<or> \<not> admissible lora out r)"
proof -
  let ?live = "live_runs out"
  let ?del = "filter (\<lambda>r. r \<notin> set ?live) (dkeys (id_2_idx m))" and ?new = "filter (\<lambda>r. r \<notin> set (dkeys (id_2_idx m))) ?live"
  have "distinct ?del" using manager_okD(1) [OF assms(1)] by simp
  moreover have "\<forall>r \<in> set ?del. dget (id_2_idx m) r \<noteq> None" by (auto simp: map_of_eq_None_iff)
  ultimately obtain m1 where m1: "foldR forget_run m ?del = Inr m1" "manager_ok m1"
    "\<forall>r. dget (id_2_idx m1) r = (if r \<in> set ?del then None else dget (id_2_idx m) r)"
    using forget_runs_ok [OF assms(1)] by blast
  have "distinct ?new" using assms(3) by (simp add: live_runs_def distinct_map_filter)
  moreover have "\<forall>r \<in> set ?new. dget (id_2_idx m1) r = None" using m1(3) by (auto simp: map_of_eq_None_iff)
  ultimately obtain m2 out2 where m2: "foldR (discover_run pick lora) (m1, out) ?new = Inr (m2, out2)" "manager_ok m2"
      "\<forall>q. q \<notin> set ?new \<longrightarrow> dget (id_2_idx m2) q = dget (id_2_idx m1) q"
      "\<forall>r \<in> set ?new. dget (id_2_idx m2) r = None \<longrightarrow> unused_idxs m2 = [] \<or> \<not> admissible lora out r"
    using discover_new_runs_ok [OF m1(2) _ _ assms(4)] by blast
  have "discover_runs pick lora m out = Inr (m2, out2)"
    using m1(1) m2(1) by (simp add: discover_runs_def assms(2) Let_def)
  moreover have "dget (id_2_idx m2) r = None" if "r \<notin> set ?live" for r
    using m2(3) m1(3) that by (auto simp: map_of_eq_None_iff)
  moreover have "dget (id_2_idx m2) r = Some i" if "r \<in> set ?live" "dget (id_2_idx m) r = Some i" for r i
  proof -
    have "r \<notin> set ?new" using that(2) by (auto simp: in_dkeys_iff)
    then show ?thesis using m2(3) m1(3) that by simp
  qed
  moreover have "unused_idxs m2 = [] \<or> \<not> admissible lora out r" if "r \<in> set ?live" "dget (id_2_idx m2) r = None" for r
  proof (cases "r \<in> set ?new")
    case True
    then show ?thesis using m2(4) that(2) by blast
  next
    case False
    then have "dget (id_2_idx m2) r = dget (id_2_idx m) r" using m2(3) m1(3) that(1) by simp
    then show ?thesis using False that by (auto simp: in_dkeys_iff)
  qed
  ultimately show ?thesis using m2(2) by blast
qed

text \<open>Discovery keeps the run data consistent and never raises: from consistent data, whatever the
  directory listing, \<open>discover_runs\<close> succeeds and leaves run names and indices inverse to each other,
  the unused indices exactly the others, and progress and configuration for just the used ones; only
  live runs are kept, a live run keeps its index, and no live run with a valid configuration is left
  out while an index is free.\<close>

theorem discover_runs_consistent:
  assumes "manager_ok m" and "is_master m" and "distinct (dkeys out)" and "\<forall>xs. xs \<noteq> [] \<longrightarrow> pick xs \<in> set xs"
  shows "\<exists>m' out'. discover_runs pick lora m out = Inr (m', out') \<and> manager_ok m'
    \<and> (\<forall>r. r \<notin> set (live_runs out) \<longrightarrow> dget (id_2_idx m') r = None)
    \<and> (\<forall>r \<in> set (live_runs out). \<forall>i. dget (id_2_idx m) r = Some i \<longrightarrow> dget (id_2_idx m') r = Some i)
    \<and> (\<forall>r \<in> set (live_runs out). dget (id_2_idx m') r = None \<longrightarrow> unused_idxs m' = [] \<or> \<not> admissible lora out r)"
  using assms by (rule discovery)

section \<open>Synchronisation brings a rank to the master's runs\<close>

definition run_config :: "manager \<Rightarrow> string \<Rightarrow> orch_config option" where
  "run_config m r = (case dget (id_2_idx m) r of None \<Rightarrow> None | Some i \<Rightarrow> dget (m_config m) i)"

lemma delete_scaling:
  assumes "delete_run_data r i m = Inr m'"
  shows "scaling_factors m' = (scaling_factors m)[i := Default]" "ready_to_update m' = ready_to_update m"
    "m_config m' = dpop i (m_config m)" "id_2_idx m' = dpop r (id_2_idx m)"
  using assms by (auto simp: delete_run_data_def res_simps)

lemma delete_run_config:
  assumes "manager_ok m" and "dget (id_2_idx m) r = Some i" and "delete_run_data r i m = Inr m'"
  shows "run_config m' q = (if q = r then None else run_config m q)"
proof -
  have "dget (id_2_idx m) q = Some i \<longrightarrow> q = r" using assms(2) manager_okD(4) [OF assms(1)] by (metis option.inject)
  then show ?thesis by (auto simp: run_config_def delete_scaling [OF assms(3)] dict_simps split: option.split)
qed

lemma create_run_config:
  assumes "manager_ok m" and "i \<in> set (unused_idxs m)" and "create_run_data rd r i c m = Inr m'"
  shows "run_config m' q = (if q = r then Some c else run_config m q)"
proof -
  have "dget (id_2_idx m) q \<noteq> Some i" using assms(2) manager_okD(4,5) [OF assms(1)] by simp
  then show ?thesis using assms(3) by (auto simp: run_config_def create_run_data_def res_simps dict_simps split: option.split)
qed

text \<open>Run data are settled by which run holds which index: the unused indices and, with the
  configurations of the runs, the configuration at every index.\<close>

lemma settled_by_runs:
  assumes "manager_ok A" and "manager_ok B" and "max_runs A = max_runs B"
    and "\<forall>r. dget (id_2_idx A) r = dget (id_2_idx B) r"
  shows "dget (idx_2_id A) i = dget (idx_2_id B) i" "set (unused_idxs A) = set (unused_idxs B)"
    "\<forall>r. run_config A r = run_config B r \<Longrightarrow> dget (m_config A) i = dget (m_config B) i"
proof -
  note a = manager_okD [OF assms(1)] and b = manager_okD [OF assms(2)]
  have "dget (idx_2_id A) j = Some r \<longleftrightarrow> dget (idx_2_id B) j = Some r" for j r
    using assms(4) by (simp flip: a(4) b(4))
  then have eq: "dget (idx_2_id A) j = dget (idx_2_id B) j" for j by (metis option.exhaust)
  then show "dget (idx_2_id A) i = dget (idx_2_id B) i" .
  show "set (unused_idxs A) = set (unused_idxs B)" by (rule set_eqI) (simp add: a(5) b(5) eq assms(3))
  assume c: "\<forall>r. run_config A r = run_config B r"
  show "dget (m_config A) i = dget (m_config B) i"
  proof (cases "dget (idx_2_id A) i")
    case None
    then show ?thesis using a(8) b(8) eq by metis
  next
    case (Some r)
    then have "dget (id_2_idx A) r = Some i" "dget (id_2_idx B) r = Some i" using eq by (simp_all add: a(4) b(4))
    then show ?thesis using c [rule_format, of r] by (simp add: run_config_def)
  qed
qed

lemma catch_up_deletes:
  assumes "manager_ok m" and "distinct rs" and "\<forall>r \<in> set rs. dget (id_2_idx m) r \<noteq> None"
  shows "\<exists>m'. foldR catch_up_delete m rs = Inr m' \<and> manager_ok m' \<and> max_runs m' = max_runs m
    \<and> (\<forall>r. dget (id_2_idx m') r = (if r \<in> set rs then None else dget (id_2_idx m) r))
    \<and> ready_to_update m' = ready_to_update m
    \<and> (\<forall>r. run_config m' r = (if r \<in> set rs then None else run_config m r))
    \<and> (\<forall>i. (\<forall>r \<in> set rs. dget (id_2_idx m) r \<noteq> Some i) \<longrightarrow> scaling_factors m' ! i = scaling_factors m ! i)"
  using assms
proof (induction rs arbitrary: m)
  case (Cons r rs)
  then obtain i where i: "dget (id_2_idx m) r = Some i" by auto
  then obtain m1 where m1: "delete_run_data r i m = Inr m1" "manager_ok m1" "max_runs m1 = max_runs m" "id_2_idx m1 = dpop r (id_2_idx m)"
    using delete_run_data_ok [OF Cons.prems(1)] by blast
  have "\<forall>q \<in> set rs. dget (id_2_idx m1) q \<noteq> None" using Cons.prems(2,3) by (auto simp: m1(4) dict_simps)
  moreover have "distinct rs" using Cons.prems(2) by simp
  ultimately obtain m2 where m2: "foldR catch_up_delete m1 rs = Inr m2" "manager_ok m2" "max_runs m2 = max_runs m1"
      "\<forall>r. dget (id_2_idx m2) r = (if r \<in> set rs then None else dget (id_2_idx m1) r)" "ready_to_update m2 = ready_to_update m1"
      "\<forall>r. run_config m2 r = (if r \<in> set rs then None else run_config m1 r)"
      "\<forall>i. (\<forall>r \<in> set rs. dget (id_2_idx m1) r \<noteq> Some i) \<longrightarrow> scaling_factors m2 ! i = scaling_factors m1 ! i"
    using Cons.IH [OF m1(2)] by blast
  have "scaling_factors m2 ! j = scaling_factors m ! j" if "\<forall>q \<in> set (r # rs). dget (id_2_idx m) q \<noteq> Some j" for j
    using that m2(7) i delete_scaling(1) [OF m1(1)] by (auto simp: m1(4) dict_simps)
  moreover have "catch_up_delete m r = Inr m1" by (simp add: catch_up_delete_def i m1(1))
  moreover have "run_config m2 q = (if q \<in> set (r # rs) then None else run_config m q)" for q
    using m2(6) delete_run_config [OF Cons.prems(1) i m1(1)] by simp
  ultimately show ?case using i m1 m2(1-5) delete_scaling(2) [OF m1(1)]
    by (intro exI [of _ m2]) (auto simp: dict_simps)
qed auto

lemma catch_up_creates:
  assumes "manager_ok m" and "distinct rs" and "\<forall>r \<in> set rs. dget (id_2_idx m) r = None"
    and "\<forall>r \<in> set rs. \<exists>i c. dget (sd_id_2_idx sd) r = Some i \<and> dget (sd_configs sd) r = Some c \<and> i \<in> set (unused_idxs m)"
    and "\<forall>r q i. dget (sd_id_2_idx sd) r = Some i \<longrightarrow> dget (sd_id_2_idx sd) q = Some i \<longrightarrow> r = q"
  shows "\<exists>m'. foldR (catch_up_create sd dirs) m rs = Inr m' \<and> manager_ok m' \<and> max_runs m' = max_runs m
    \<and> (\<forall>r. dget (id_2_idx m') r = (if r \<in> set rs then dget (sd_id_2_idx sd) r else dget (id_2_idx m) r))
    \<and> ready_to_update m' = ready_to_update m \<and> scaling_factors m' = scaling_factors m
    \<and> (\<forall>r. run_config m' r = (if r \<in> set rs then dget (sd_configs sd) r else run_config m r))"
  using assms(1-4)
proof (induction rs arbitrary: m)
  case (Cons r rs)
  obtain i c where i: "dget (sd_id_2_idx sd) r = Some i" "dget (sd_configs sd) r = Some c" "i \<in> set (unused_idxs m)"
    using Cons.prems(4) by auto
  have r: "dget (id_2_idx m) r = None" using Cons.prems(3) by simp
  from create_run_data_ok [OF Cons.prems(1) i(3) r] obtain m1 where
    m1: "create_run_data (dirs r) r i c m = Inr m1" "manager_ok m1" "max_runs m1 = max_runs m"
      "id_2_idx m1 = dput r i (id_2_idx m)" "idx_2_id m1 = dput i r (idx_2_id m)" by blast
  have f: "ready_to_update m1 = ready_to_update m" "scaling_factors m1 = scaling_factors m"
    using m1(1) by (auto simp: create_run_data_def res_simps)
  have "\<forall>q \<in> set rs. dget (id_2_idx m1) q = None" using Cons.prems(2,3) by (auto simp: m1(4) dict_simps)
  moreover have "\<exists>j c. dget (sd_id_2_idx sd) q = Some j \<and> dget (sd_configs sd) q = Some c \<and> j \<in> set (unused_idxs m1)"
    if q: "q \<in> set rs" for q
  proof -
    obtain j c where j: "dget (sd_id_2_idx sd) q = Some j" "dget (sd_configs sd) q = Some c" "j \<in> set (unused_idxs m)"
      using Cons.prems(4) q by auto
    have "q \<noteq> r" using q Cons.prems(2) by auto
    then have "j \<noteq> i" using assms(5) i(1) j(1) by blast
    then have "j \<in> set (unused_idxs m1)"
      using j(3) manager_okD(5) [OF m1(2), of j] manager_okD(5) [OF Cons.prems(1), of j] by (simp add: m1(3,5) dict_simps)
    then show ?thesis using j by blast
  qed
  ultimately obtain m2 where m2: "foldR (catch_up_create sd dirs) m1 rs = Inr m2" "manager_ok m2" "max_runs m2 = max_runs m1"
      "\<forall>r. dget (id_2_idx m2) r = (if r \<in> set rs then dget (sd_id_2_idx sd) r else dget (id_2_idx m1) r)"
      "ready_to_update m2 = ready_to_update m1" "scaling_factors m2 = scaling_factors m1"
      "\<forall>r. run_config m2 r = (if r \<in> set rs then dget (sd_configs sd) r else run_config m1 r)"
    using Cons.IH [OF m1(2)] Cons.prems(2) by auto
  moreover have "run_config m2 q = (if q \<in> set (r # rs) then dget (sd_configs sd) q else run_config m q)" for q
    using m2(7) create_run_config [OF Cons.prems(1) i(3) m1(1)] i(2) Cons.prems(2) by simp
  moreover have "catch_up_create sd dirs m r = Inr m1" by (simp add: catch_up_create_def i m1(1))
  ultimately show ?case using i m1 f Cons.prems(2)
    by (intro exI [of _ m2]) (auto simp: dict_simps)
qed auto

lemma hooks_ok: "manager_ok (run_delete_hooks x rs m) = manager_ok m" "manager_ok (run_create_hooks rs m) = manager_ok m"
  unfolding run_delete_hooks_def run_create_hooks_def
  by (induction rs arbitrary: m) (auto split: option.splits)

lemma hooks_frame [simp]:
  "id_2_idx (run_delete_hooks x rs m) = id_2_idx m" "id_2_idx (run_create_hooks rs m) = id_2_idx m"
  "m_progress (run_delete_hooks x rs m) = m_progress m" "m_progress (run_create_hooks rs m) = m_progress m"
  "m_config (run_delete_hooks x rs m) = m_config m" "m_config (run_create_hooks rs m) = m_config m"
  "max_runs (run_delete_hooks x rs m) = max_runs m" "max_runs (run_create_hooks rs m) = max_runs m"
  "ready_to_update (run_delete_hooks x rs m) = ready_to_update m" "ready_to_update (run_create_hooks rs m) = ready_to_update m"
  "scaling_factors (run_delete_hooks x rs m) = scaling_factors m" "scaling_factors (run_create_hooks rs m) = scaling_factors m"
  unfolding run_delete_hooks_def run_create_hooks_def
  by (induction rs arbitrary: m) (auto split: option.splits)

lemma published:
  assumes "manager_ok m"
  shows "\<exists>sd. publish_state m = Inr sd \<and> sd_id_2_idx sd = id_2_idx m \<and> sd_ready sd = ready_to_update m
    \<and> sd_scaling sd = scaling_factors m \<and> sd_progress sd = m_progress m
    \<and> (\<forall>r \<in> set (runs_only_in (id_2_idx m) (last_synced m)).
         dget (sd_configs sd) r = run_config m r \<and> run_config m r \<noteq> None)"
proof -
  let ?rs = "runs_only_in (id_2_idx m) (last_synced m)"
  let ?c = "\<lambda>r. (r, the (dget (m_config m) (the (dget (id_2_idx m) r))))"
  have "mapR (\<lambda>r. case dget (id_2_idx m) r of None \<Rightarrow> Inl (KeyError r)
      | Some i \<Rightarrow> (case dget (m_config m) i of None \<Rightarrow> Inl (KeyError ''config'') | Some c \<Rightarrow> Inr (r, c))) ?rs = Inr (map ?c ?rs)"
  proof (rule mapR_map)
    fix r assume "r \<in> set ?rs"
    then obtain i where i: "dget (id_2_idx m) r = Some i" by (auto simp: runs_only_in_def dest: weak_map_of_SomeI)
    then have "dget (m_config m) i \<noteq> None" using manager_okD(4,8) [OF assms] by simp
    then show "(case dget (id_2_idx m) r of None \<Rightarrow> Inl (KeyError r)
      | Some i \<Rightarrow> (case dget (m_config m) i of None \<Rightarrow> Inl (KeyError ''config'') | Some c \<Rightarrow> Inr (r, c))) = Inr (?c r)"
      using i by auto
  qed
  then have "publish_state m = Inr \<lparr>sd_id_2_idx = id_2_idx m, sd_ready = ready_to_update m, sd_scaling = scaling_factors m,
      sd_configs = map ?c ?rs, sd_progress = m_progress m\<rparr>" by (simp add: publish_state_def)
  moreover have "dget (map ?c ?rs) r = run_config m r \<and> run_config m r \<noteq> None" if r: "r \<in> set ?rs" for r
  proof -
    obtain i where i: "dget (id_2_idx m) r = Some i" using r by (auto simp: runs_only_in_def dest: weak_map_of_SomeI)
    then have "dget (m_config m) i \<noteq> None" using manager_okD(4,8) [OF assms] by simp
    moreover have "dget (map ?c ?rs) r = Some (the (dget (m_config m) i))" using r i by (simp add: map_of_map_restrict)
    ultimately show ?thesis using i by (auto simp: run_config_def)
  qed
  ultimately show ?thesis by auto
qed

lemma set_runs_only_in: "r \<in> set (runs_only_in a b) \<longleftrightarrow> dget a r \<noteq> None \<and> dget b r = None"
  by (simp add: runs_only_in_def in_dkeys_iff)

text \<open>The rank holds the runs of the last synchronisation, none of which has moved, with the master's configurations.\<close>

definition in_step :: "manager \<Rightarrow> manager \<Rightarrow> bool" where
  "in_step M R \<longleftrightarrow> (\<forall>r. dget (id_2_idx R) r = dget (last_synced M) r)
     \<and> (\<forall>r i j. dget (last_synced M) r = Some i \<longrightarrow> dget (id_2_idx M) r = Some j \<longrightarrow> i = j)
     \<and> (\<forall>r i. dget (last_synced M) r = Some i \<longrightarrow> dget (id_2_idx M) r = Some i \<longrightarrow> dget (m_config R) i = dget (m_config M) i)"

lemma new_run_fits:
  assumes "manager_ok M" and "manager_ok R" and "max_runs R = max_runs M"
    and "\<forall>q i. dget (id_2_idx R) q = Some i \<longrightarrow> dget (id_2_idx M) q = Some i" and "dget (id_2_idx M) r = Some i" and "dget (id_2_idx R) r = None"
  shows "i \<in> set (unused_idxs R)"
proof -
  have "dget (idx_2_id R) i = None"
  proof (rule ccontr)
    assume "dget (idx_2_id R) i \<noteq> None"
    then obtain q where q: "dget (id_2_idx R) q = Some i" using manager_okD(4) [OF assms(2)] by auto
    then have "dget (id_2_idx M) q = Some i" using assms(4) by blast
    then have "q = r" using assms(5) manager_okD(4) [OF assms(1)] by (metis option.inject)
    then show False using q assms(6) by simp
  qed
  moreover have "i < max_runs R" using assms(3,5) manager_okD(4,6) [OF assms(1)] by auto
  ultimately show ?thesis using manager_okD(5) [OF assms(2)] by simp
qed

lemma kept_config:
  assumes "in_step M R" and "r \<notin> set (runs_only_in (id_2_idx M) (id_2_idx R))"
  shows "(if r \<in> set (runs_only_in (id_2_idx R) (id_2_idx M)) then None else run_config R r) = run_config M r"
proof (cases "dget (id_2_idx M) r")
  case None
  then show ?thesis by (auto simp: run_config_def set_runs_only_in split: option.split)
next
  case (Some i)
  then obtain j where j: "dget (id_2_idx R) r = Some j" using assms(2) by (auto simp: set_runs_only_in)
  then have "dget (last_synced M) r = Some j" "j = i" using assms(1) Some unfolding in_step_def by auto
  then have "dget (m_config R) i = dget (m_config M) i" using assms(1) Some unfolding in_step_def by blast
  then show ?thesis using Some j \<open>j = i\<close> by (simp add: run_config_def set_runs_only_in)
qed

text \<open>Deleting and creating runs, with the flags and the scaling of the master copied before.\<close>

lemma caught_up:
  assumes ok: "manager_ok M" "manager_ok R" "max_runs R = max_runs M" and sy: "in_step M R" and pub: "publish_state M = Inr sd"
  defines "gone \<equiv> runs_only_in (id_2_idx R) (id_2_idx M)" and "new \<equiv> runs_only_in (id_2_idx M) (id_2_idx R)"
  shows "\<exists>R1 R2. foldR catch_up_delete (R\<lparr>ready_to_update := sd_ready sd, scaling_factors := sd_scaling sd\<rparr>) gone = Inr R1
    \<and> foldR (catch_up_create sd dirs) R1 new = Inr R2 \<and> manager_ok R2 \<and> max_runs R2 = max_runs M
    \<and> (\<forall>r. dget (id_2_idx R2) r = dget (id_2_idx M) r) \<and> (\<forall>r. run_config R2 r = run_config M r)
    \<and> ready_to_update R2 = ready_to_update M
    \<and> (\<forall>i. (\<forall>r \<in> set gone. dget (id_2_idx R) r \<noteq> Some i) \<longrightarrow> scaling_factors R2 ! i = scaling_factors M ! i)"
proof -
  let ?R0 = "R\<lparr>ready_to_update := sd_ready sd, scaling_factors := sd_scaling sd\<rparr>"
  have sd: "sd_id_2_idx sd = id_2_idx M" "sd_ready sd = ready_to_update M" "sd_scaling sd = scaling_factors M"
    "\<forall>r \<in> set new. dget (sd_configs sd) r = run_config M r \<and> run_config M r \<noteq> None"
    using published [OF ok(1)] pub sy by (auto simp: new_def in_step_def set_runs_only_in)
  have ok0: "manager_ok ?R0"
    using ok(2,3) manager_okD(9,10) [OF ok(1)] by (simp add: manager_ok_def sd)
  have "distinct gone" "distinct new"
    using manager_okD(1) [OF ok(1)] manager_okD(1) [OF ok(2)] by (simp_all add: runs_only_in_def gone_def new_def)
  have c0: "run_config ?R0 r = run_config R r" for r by (simp add: run_config_def split: option.split)
  have "\<forall>r \<in> set gone. dget (id_2_idx ?R0) r \<noteq> None" by (simp add: set_runs_only_in gone_def)
  from catch_up_deletes [OF ok0 \<open>distinct gone\<close> this] obtain R1 where
    R1: "foldR catch_up_delete ?R0 gone = Inr R1" "manager_ok R1" "max_runs R1 = max_runs M"
      "\<forall>r. dget (id_2_idx R1) r = (if r \<in> set gone then None else dget (id_2_idx R) r)" "ready_to_update R1 = ready_to_update M"
      "\<forall>i. (\<forall>r \<in> set gone. dget (id_2_idx R) r \<noteq> Some i) \<longrightarrow> scaling_factors R1 ! i = scaling_factors M ! i"
      "\<forall>r. run_config R1 r = (if r \<in> set gone then None else run_config R r)"
    using sd ok(3) c0 by auto
  have sub: "\<forall>q i. dget (id_2_idx R1) q = Some i \<longrightarrow> dget (id_2_idx M) q = Some i"
    using R1(4) sy by (force simp: gone_def set_runs_only_in in_step_def split: if_splits)
  have new1: "\<forall>r \<in> set new. dget (id_2_idx R1) r = None" using R1(4) by (simp add: set_runs_only_in new_def)
  have free: "\<exists>i c. dget (sd_id_2_idx sd) r = Some i \<and> dget (sd_configs sd) r = Some c \<and> i \<in> set (unused_idxs R1)"
    if r: "r \<in> set new" for r
  proof -
    obtain i where i: "dget (id_2_idx M) r = Some i" using r unfolding new_def set_runs_only_in by blast
    have "i \<in> set (unused_idxs R1)" by (rule new_run_fits [OF ok(1) R1(2,3) sub i bspec [OF new1 r]])
    moreover obtain c where "dget (sd_configs sd) r = Some c" using sd(4) r by (metis not_None_eq)
    ultimately show ?thesis using i sd(1) by simp
  qed
  have inj: "\<forall>r q i. dget (sd_id_2_idx sd) r = Some i \<longrightarrow> dget (sd_id_2_idx sd) q = Some i \<longrightarrow> r = q"
    using manager_okD(4) [OF ok(1)] by (metis sd(1) option.inject)
  have "\<forall>r \<in> set new. \<exists>i c. dget (sd_id_2_idx sd) r = Some i \<and> dget (sd_configs sd) r = Some c \<and> i \<in> set (unused_idxs R1)"
    using free by blast
  from catch_up_creates [OF R1(2) \<open>distinct new\<close> new1 this inj, of dirs] obtain R2 where
    R2: "foldR (catch_up_create sd dirs) R1 new = Inr R2"
      "\<forall>r. dget (id_2_idx R2) r = (if r \<in> set new then dget (sd_id_2_idx sd) r else dget (id_2_idx R1) r)"
      "ready_to_update R2 = ready_to_update R1" "scaling_factors R2 = scaling_factors R1" "manager_ok R2" "max_runs R2 = max_runs R1"
      "\<forall>r. run_config R2 r = (if r \<in> set new then dget (sd_configs sd) r else run_config R1 r)"
    by blast
  have "dget (id_2_idx R2) r = dget (id_2_idx M) r" for r
  proof (cases "r \<in> set new")
    case True
    then show ?thesis using R2(2) sd(1) by simp
  next
    case False
    then have "dget (id_2_idx R2) r = dget (id_2_idx R1) r" using R2(2) by simp
    moreover have "dget (id_2_idx R1) r = dget (id_2_idx M) r"
    proof (cases "dget (id_2_idx R1) r")
      case None
      then show ?thesis using R1(4) False unfolding gone_def new_def set_runs_only_in by metis
    next
      case (Some i)
      then show ?thesis using sub by simp
    qed
    ultimately show ?thesis by simp
  qed
  moreover have "run_config R2 r = run_config M r" for r
    using R2(7) R1(7) sd(4) kept_config [OF sy, of r] by (simp add: new_def gone_def)
  ultimately show ?thesis using R1 R2 by (intro exI [of _ R1] exI [of _ R2]) simp
qed

text \<open>C29. Synchronisation: let a rank hold the runs of the last synchronisation, let it have the
  master's configuration for those that are still there, and let no run have changed its index since.
  Then catching up never raises, and afterwards the rank's run data are those of the master: the same
  runs at the same indices in both directions, the same unused indices, at every index the same
  configuration, and the same progress and readiness flags. The adapter scaling is the master's at
  every index whose run of the last synchronisation is still there or that had none.\<close>

theorem synchronize_agrees:
  assumes "manager_ok M" and "manager_ok R" and "max_runs R = max_runs M"
    and "\<forall>r. dget (id_2_idx R) r = dget (last_synced M) r"
    and "\<forall>r i j. dget (last_synced M) r = Some i \<longrightarrow> dget (id_2_idx M) r = Some j \<longrightarrow> i = j"
    and "\<forall>r i. dget (last_synced M) r = Some i \<longrightarrow> dget (id_2_idx M) r = Some i \<longrightarrow> dget (m_config R) i = dget (m_config M) i"
  shows "\<exists>sd R'. publish_state M = Inr sd \<and> synchronize_rank sd dirs R = Inr R' \<and> manager_ok R'
    \<and> (\<forall>r. dget (id_2_idx R') r = dget (id_2_idx M) r) \<and> (\<forall>i. dget (idx_2_id R') i = dget (idx_2_id M) i)
    \<and> set (unused_idxs R') = set (unused_idxs M) \<and> (\<forall>i. dget (m_config R') i = dget (m_config M) i)
    \<and> m_progress R' = m_progress M \<and> ready_to_update R' = ready_to_update M
    \<and> (\<forall>i. (\<forall>r. dget (last_synced M) r = Some i \<longrightarrow> dget (id_2_idx M) r \<noteq> None) \<longrightarrow>
         scaling_factors R' ! i = scaling_factors M ! i)"
proof -
  have sy: "in_step M R" using assms(4-6) unfolding in_step_def by blast
  obtain sd where sd: "publish_state M = Inr sd" "sd_id_2_idx sd = id_2_idx M" "sd_progress sd = m_progress M"
    using published [OF assms(1)] by blast
  let ?gone = "runs_only_in (id_2_idx R) (id_2_idx M)" and ?new = "runs_only_in (id_2_idx M) (id_2_idx R)"
  obtain R1 R2 where R: "foldR catch_up_delete (R\<lparr>ready_to_update := sd_ready sd, scaling_factors := sd_scaling sd\<rparr>) ?gone = Inr R1"
      "foldR (catch_up_create sd dirs) R1 ?new = Inr R2" "manager_ok R2" "max_runs R2 = max_runs M"
      "\<forall>r. dget (id_2_idx R2) r = dget (id_2_idx M) r" "\<forall>r. run_config R2 r = run_config M r" "ready_to_update R2 = ready_to_update M"
      "\<forall>i. (\<forall>r \<in> set ?gone. dget (id_2_idx R) r \<noteq> Some i) \<longrightarrow> scaling_factors R2 ! i = scaling_factors M ! i"
    using caught_up [OF assms(1-3) sy sd(1)] by blast
  let ?R = "run_create_hooks ?new (run_delete_hooks (id_2_idx R) ?gone (R2\<lparr>m_progress := m_progress M\<rparr>))"
  have run: "synchronize_rank sd dirs R = Inr ?R"
    using R(1,2) by (simp add: synchronize_rank_def Let_def sd(2,3))
  have "dget (m_progress M) i = None \<longleftrightarrow> dget (idx_2_id R2) i = None" for i
    using settled_by_runs(1) [OF R(3) assms(1) R(4,5)] manager_okD(7) [OF assms(1)] by simp
  then have "manager_ok (R2\<lparr>m_progress := m_progress M\<rparr>)" using R(3) by (simp add: manager_ok_def)
  then have ok: "manager_ok ?R" by (simp add: hooks_ok)
  have ids: "\<forall>r. dget (id_2_idx ?R) r = dget (id_2_idx M) r" and mr: "max_runs ?R = max_runs M" using R(4,5) by simp_all
  have "run_config ?R r = run_config R2 r" for r by (simp add: run_config_def split: option.split)
  then have "\<forall>r. run_config ?R r = run_config M r" using R(6) by simp
  note settled = settled_by_runs(1,2) [OF ok assms(1) mr ids] settled_by_runs(3) [OF ok assms(1) mr ids this]
  have "scaling_factors ?R ! i = scaling_factors M ! i"
    if i: "\<forall>r. dget (last_synced M) r = Some i \<longrightarrow> dget (id_2_idx M) r \<noteq> None" for i
  proof -
    have "\<forall>r \<in> set ?gone. dget (id_2_idx R) r \<noteq> Some i" using i assms(4) by (auto simp: set_runs_only_in)
    then show ?thesis using R(8) by simp
  qed
  then show ?thesis using sd(1) run ok ids settled R(7) by (intro exI [of _ sd] exI [of _ ?R]) simp
qed

section \<open>What synchronisation misses\<close>

text \<open>
  A rank copies the master's scaling factors before it deletes the data of the runs that are gone,
  and deleting resets the factor of the index. When a new run has already taken the index, the
  rank is left with the default factor for it, up to the next synchronisation.
\<close>

definition demo_dir :: run_dir where
  "demo_dir = \<lparr>rd_config = GoodConfig \<lparr>oc_resume_step = None, oc_lora_rank = Some 8, oc_lora_alpha = Some 16\<rparr>,
     rd_error = None, rd_evicted = None, rd_all_steps = [], rd_stable_steps = []\<rparr>"

definition demo_lora :: "lora_config option" where
  "demo_lora = Some \<lparr>lc_rank = 16, lc_alpha = 32\<rparr>"

definition demo_discover :: "string list \<Rightarrow> manager \<Rightarrow> manager" where
  "demo_discover runs m = (case discover_runs hd demo_lora m (map (\<lambda>r. (r, demo_dir)) runs) of Inr (m', _) \<Rightarrow> m')"

definition demo_sync :: "manager \<Rightarrow> manager \<Rightarrow> manager res" where
  "demo_sync master rank = (case publish_state master of Inr sd \<Rightarrow> synchronize_rank sd (\<lambda>_. demo_dir) rank | Inl e \<Rightarrow> Inl e)"

definition demo_master :: manager where
  "demo_master = synchronize_master (demo_discover [''run_a''] (new_manager True 2))"

definition demo_rank :: manager where
  "demo_rank = (case demo_sync (demo_discover [''run_a''] (new_manager True 2)) (new_manager False 2) of Inr r \<Rightarrow> r)"

lemma reused_index_loses_scaling:
  "scaling_factors (demo_discover [''run_b''] (demo_discover [] demo_master)) = [Ratio 16 8, Default]
   \<and> map_option scaling_factors (case demo_sync (demo_discover [''run_b''] (demo_discover [] demo_master)) demo_rank of Inr r \<Rightarrow> Some r | Inl _ \<Rightarrow> None)
     = Some [Default, Default]"
  by code_simp

text \<open>
  The changes are computed from the names of the runs: a run that goes and comes back at another
  index between two synchronisations is no change, and a rank then cannot follow the master.
\<close>

lemma moved_run_breaks_synchronization:
  "demo_sync (demo_discover [''run_b'', ''run_a''] (demo_discover [''run_b''] (demo_discover [] demo_master))) demo_rank
   = Inl (KeyError ''unused_idxs'')"
  by code_simp

lemma synchronize_master_ok: "manager_ok m \<Longrightarrow> manager_ok (synchronize_master m)"
proof -
  assume "manager_ok m"
  moreover have "manager_ok (k\<lparr>last_synced := d\<rparr>) = manager_ok k" for k :: manager and d by (simp add: manager_ok_def)
  ultimately show ?thesis by (simp add: synchronize_master_def Let_def hooks_ok)
qed

lemma demo_discover_ok:
  assumes "manager_ok m" and "is_master m" and "distinct runs"
  shows "manager_ok (demo_discover runs m)"
proof -
  have "distinct (dkeys (map (\<lambda>r. (r, demo_dir)) runs))" using assms(3) by (simp add: comp_def)
  from discovery [OF assms(1,2) this, of hd demo_lora] obtain m' out' where
    "discover_runs hd demo_lora m (map (\<lambda>r. (r, demo_dir)) runs) = Inr (m', out')" "manager_ok m'" by auto
  then show ?thesis by (simp add: demo_discover_def)
qed

lemma demo_master_ok: "manager_ok demo_master" "is_master demo_master"
proof -
  have "is_master (new_manager True 2)" by (simp add: new_manager_def)
  then show "manager_ok demo_master"
    unfolding demo_master_def by (intro synchronize_master_ok demo_discover_ok new_manager_ok) simp_all
qed code_simp

lemma discover_runs_consistent_witness:
  "\<exists>m' out'. discover_runs hd demo_lora demo_master [(''run_a'', demo_dir), (''run_c'', demo_dir)] = Inr (m', out')
    \<and> manager_ok m' \<and> dget (id_2_idx m') ''run_a'' = Some 0"
proof -
  have e: "dget (id_2_idx demo_master) ''run_a'' = Some 0"
    "''run_a'' \<in> set (live_runs [(''run_a'', demo_dir), (''run_c'', demo_dir)])"
    "distinct (dkeys [(''run_a'', demo_dir), (''run_c'', demo_dir)])" by code_simp+
  from discover_runs_consistent [OF demo_master_ok e(3), of hd demo_lora] e(1,2) show ?thesis by fastforce
qed

lemma synchronize_agrees_witness:
  "\<exists>sd R'. publish_state (demo_discover [''run_a'', ''run_b''] demo_master) = Inr sd \<and> synchronize_rank sd (\<lambda>_. demo_dir) demo_rank = Inr R'
    \<and> dget (id_2_idx R') ''run_b'' = Some (Suc 0) \<and> unused_idxs R' = [] \<and> scaling_factors R' ! Suc 0 = Ratio 16 8
    \<and> dget (m_config R') (Suc 0) = Some \<lparr>oc_resume_step = None, oc_lora_rank = Some 8, oc_lora_alpha = Some 16\<rparr>"
proof -
  let ?M = "demo_discover [''run_a'', ''run_b''] demo_master"
  have M: "manager_ok ?M" by (rule demo_discover_ok [OF demo_master_ok]) simp
  have R: "manager_ok demo_rank"
  proof -
    have eq: "demo_rank = \<lparr>is_master = False, max_runs = 2, idx_2_id = [(0, ''run_a'')], id_2_idx = [(''run_a'', 0)], unused_idxs = [Suc 0],
      m_progress = [(0, \<lparr>p_step = 0, p_tokens = 0, p_samples = 0\<rparr>)],
      m_config = [(0, \<lparr>oc_resume_step = None, oc_lora_rank = Some 8, oc_lora_alpha = Some 16\<rparr>)],
      ready_to_update = [False, False], scaling_factors = [Ratio 16 8, Default], last_synced = [],
      hook_log = [ResetParameters 0, Created 0 ''run_a'']\<rparr>" by code_simp
    show ?thesis unfolding eq manager_ok_def by (auto split: if_splits)
  qed
  have e: "max_runs demo_rank = max_runs ?M" "id_2_idx demo_rank = [(''run_a'', 0)]" "last_synced ?M = [(''run_a'', 0)]"
    "id_2_idx ?M = [(''run_a'', 0), (''run_b'', Suc 0)]" "unused_idxs ?M = []" "dget (m_config demo_rank) 0 = dget (m_config ?M) 0"
    "dget (m_config ?M) (Suc 0) = Some \<lparr>oc_resume_step = None, oc_lora_rank = Some 8, oc_lora_alpha = Some 16\<rparr>" "scaling_factors ?M = [Ratio 16 8, Ratio 16 8]" by code_simp+
  have h1: "\<forall>r. dget (id_2_idx demo_rank) r = dget (last_synced ?M) r" by (simp add: e)
  have h2: "\<forall>r i j. dget (last_synced ?M) r = Some i \<longrightarrow> dget (id_2_idx ?M) r = Some j \<longrightarrow> i = j" by (simp add: e)
  have h3: "\<forall>r i. dget (last_synced ?M) r = Some i \<longrightarrow> dget (id_2_idx ?M) r = Some i \<longrightarrow> dget (m_config demo_rank) i = dget (m_config ?M) i"
    using e(6) by (simp add: e(3,4))
  from synchronize_agrees [OF M R e(1) h1 h2 h3, of "\<lambda>_. demo_dir"] obtain sd R' where s: "publish_state ?M = Inr sd" "synchronize_rank sd (\<lambda>_. demo_dir) demo_rank = Inr R'"
    "manager_ok R'" "\<forall>r. dget (id_2_idx R') r = dget (id_2_idx ?M) r"
    "\<forall>i. dget (idx_2_id R') i = dget (idx_2_id ?M) i" "set (unused_idxs R') = set (unused_idxs ?M)"
    "\<forall>i. dget (m_config R') i = dget (m_config ?M) i"
    "\<forall>i. (\<forall>r. dget (last_synced ?M) r = Some i \<longrightarrow> dget (id_2_idx ?M) r \<noteq> None) \<longrightarrow> scaling_factors R' ! i = scaling_factors ?M ! i"
    by (elim exE conjE) (rule that)
  have "\<forall>r. dget (last_synced ?M) r = Some (Suc 0) \<longrightarrow> dget (id_2_idx ?M) r \<noteq> None" by (simp add: e)
  with s(8) have "scaling_factors R' ! Suc 0 = scaling_factors ?M ! Suc 0" by blast
  with s show ?thesis by (simp add: e)
qed

end
