(* ===== verification/FileBroadcast.thy ===== *)
theory FileBroadcast
  imports DeltaChain Runs
begin

text \<open>
  Broadcasting weights over the file system (\<open>trainer/rl/broadcast/filesystem.py\<close>): the master rank writes the weights or the
  delta of every run that is ready to its directory, marks the step as stable and removes old steps. The gathered
  weights of the model are an input; so is what happens to the directories of a run meanwhile.
\<close>

section \<open>Directories\<close>

type_synonym state_dict = "(string, tensor) dict"

record step_dir =
  sd_weights :: "state_dict option"
  sd_delta :: "(byte list + store) option"
  sd_stable :: bool

definition empty_step :: step_dir where
  "empty_step = \<lparr>sd_weights = None, sd_delta = None, sd_stable = False\<rparr>"

type_synonym broadcast_dir = "(int, step_dir) dict"

record broadcast_config =
  bw_delta :: bool
  bw_encoding :: string
  bw_streaming :: bool
  bw_group_size :: int
  bw_retain_all :: bool
  bw_lora :: bool

text \<open>\<open>bs_dirs\<close>: the broadcast directories of the runs that exist on disk.\<close>

record broadcast_state =
  bs_initial :: "state_dict option"
  bs_prev :: "(nat, state_dict) dict"
  bs_dirs :: "(string, broadcast_dir) dict"

definition new_broadcast :: "broadcast_config \<Rightarrow> (string, broadcast_dir) dict \<Rightarrow> broadcast_state res" where
  "new_broadcast c dirs =
     (if bw_delta c \<and> bw_lora c then Inl (ValueError ''filesystem delta weight broadcast does not support LoRA yet'')
      else Inr \<lparr>bs_initial = None, bs_prev = [], bs_dirs = dirs\<rparr>)"

definition dir_of :: "string \<Rightarrow> broadcast_state \<Rightarrow> broadcast_dir" where
  "dir_of run s = (case dget (bs_dirs s) run of None \<Rightarrow> [] | Some d \<Rightarrow> d)"

text \<open>Writing to the directory of a step creates it with its parents, when it is missing.\<close>

definition edit_step :: "string \<Rightarrow> int \<Rightarrow> (step_dir \<Rightarrow> step_dir) \<Rightarrow> broadcast_state \<Rightarrow> broadcast_state" where
  "edit_step run step f s =
     s\<lparr>bs_dirs := dput run (dput step (f (case dget (dir_of run s) step of None \<Rightarrow> empty_step | Some d \<Rightarrow> d)) (dir_of run s)) (bs_dirs s)\<rparr>"

definition run_and_step :: "manager \<Rightarrow> nat \<Rightarrow> (string \<times> int) res" where
  "run_and_step m idx =
     (case dget (idx_2_id m) idx of
        None \<Rightarrow> Inl (KeyError ''idx_2_id'')
      | Some run \<Rightarrow> (case dget (m_progress m) idx of None \<Rightarrow> Inl (KeyError ''progress'') | Some p \<Rightarrow> Inr (run, p_step p)))"

section \<open>Operations\<close>

definition initialize_run :: "manager \<Rightarrow> state_dict \<Rightarrow> broadcast_state \<Rightarrow> nat \<Rightarrow> broadcast_state res" where
  "initialize_run m state s0 idx =
     (let s = s0\<lparr>bs_prev := dput idx state (bs_prev s0)\<rparr>
      in if is_master m
         then (case dget (idx_2_id m) idx of
                 None \<Rightarrow> Inl (KeyError ''idx_2_id'')
               | Some run \<Rightarrow> Inr (edit_step run 0 (\<lambda>d. d\<lparr>sd_weights := Some state, sd_stable := True\<rparr>) s))
         else Inr s)"

definition initialize_broadcast :: "broadcast_config \<Rightarrow> int \<Rightarrow> state_dict \<Rightarrow> manager \<Rightarrow> broadcast_state \<Rightarrow> broadcast_state res" where
  "initialize_broadcast c step state m s =
     (if \<not> bw_delta c then Inr s
      else if step \<noteq> 0 then Inl (ValueError ''delta broadcast cannot resume without a synchronized full checkpoint'')
      else foldR (initialize_run m state) (s\<lparr>bs_initial := Some state\<rparr>) (used_idxs m))"

text \<open>A run may be deleted while it is written: then writing, or marking, finds no file.\<close>

datatype fs_outcome = Written | GoneWriting | GoneMarking

definition save_delta :: "torch_ops \<Rightarrow> broadcast_config \<Rightarrow> nat \<Rightarrow> string \<Rightarrow> int \<Rightarrow> state_dict \<Rightarrow> broadcast_state \<Rightarrow> broadcast_state \<times> unit res" where
  "save_delta T c idx run step state s =
     (case (dget (bs_prev s) idx, bs_initial s) of
        (None, None) \<Rightarrow> (s, Inl (RuntimeError ''delta broadcast has no base state''))
      | (prev, initial) \<Rightarrow>
          let base = (case prev of Some b \<Rightarrow> b | None \<Rightarrow> the initial);
              (written, r) =
                (if bw_streaming c
                 then (case extract_sparse_delta_streaming_from_stores T (bw_encoding c) (bw_group_size c) True
                              (state_dict_store base) (state_dict_store state) of
                         (st, e) \<Rightarrow> (map_option (\<lambda>x. Inl (s_file x)) st, bindR e (\<lambda>_. Inr ())))
                 else (case extract_sparse_delta_from_stores T None (bw_encoding c) True True
                              (state_dict_store base) (state_dict_store state) of
                         Inl e \<Rightarrow> (None, Inl e)
                       | Inr (d, _) \<Rightarrow> (Some (Inr d), Inr ())));
              s1 = (case written of None \<Rightarrow> s | Some d \<Rightarrow> edit_step run step (\<lambda>x. x\<lparr>sd_delta := Some d\<rparr>) s)
          in case r of Inl e \<Rightarrow> (s1, Inl e) | Inr _ \<Rightarrow> (s1\<lparr>bs_prev := dput idx state (bs_prev s1)\<rparr>, Inr ()))"

definition lose_run :: "string \<Rightarrow> broadcast_state \<Rightarrow> broadcast_state" where
  "lose_run run s = s\<lparr>bs_dirs := dpop run (bs_dirs s)\<rparr>"

definition write_step ::
  "torch_ops \<Rightarrow> broadcast_config \<Rightarrow> fs_outcome \<Rightarrow> bool \<Rightarrow> nat \<Rightarrow> string \<Rightarrow> int \<Rightarrow> state_dict \<Rightarrow> broadcast_state \<Rightarrow> broadcast_state \<times> unit res" where
  "write_step T c outcome deleted idx run step state s0 =
     (let s = edit_step run step id s0
      in if outcome = GoneWriting then (lose_run run s, Inl FileNotFoundError)
         else case (if bw_delta c then save_delta T c idx run step state s
                    else (edit_step run step (\<lambda>d. d\<lparr>sd_weights := Some state\<rparr>) s, Inr ())) of
                (t, Inl e) \<Rightarrow> (t, Inl e)
              | (t, Inr _) \<Rightarrow>
                  if outcome = GoneMarking then (lose_run run t, Inl FileNotFoundError)
                  else let u = edit_step run step (\<lambda>d. d\<lparr>sd_stable := True\<rparr>) t
                       in (if deleted then lose_run run u else u, Inr ()))"

text \<open>\<open>finally\<close>: the run is no longer ready to update, whatever happened; a missing file is only logged.\<close>

definition broadcast_run ::
  "torch_ops \<Rightarrow> broadcast_config \<Rightarrow> (nat \<Rightarrow> fs_outcome) \<Rightarrow> (nat \<Rightarrow> bool) \<Rightarrow> (nat \<Rightarrow> state_dict) \<Rightarrow> manager \<times> broadcast_state \<Rightarrow> nat
     \<Rightarrow> (manager \<times> broadcast_state) \<times> unit res" where
  "broadcast_run T c outcome deleted states = (\<lambda>(m, s) idx.
     if \<not> is_master m then ((m, s), Inr ())
     else let (t, r) = (case run_and_step m idx of
                          Inl e \<Rightarrow> (s, Inl e)
                        | Inr (run, step) \<Rightarrow> write_step T c (outcome idx) (deleted idx) idx run step (states idx) s)
          in ((m\<lparr>ready_to_update := (ready_to_update m)[idx := False]\<rparr>, t),
              case r of Inl FileNotFoundError \<Rightarrow> Inr () | _ \<Rightarrow> r))"

fun broadcast_runs ::
  "torch_ops \<Rightarrow> broadcast_config \<Rightarrow> (nat \<Rightarrow> fs_outcome) \<Rightarrow> (nat \<Rightarrow> bool) \<Rightarrow> (nat \<Rightarrow> state_dict) \<Rightarrow> manager \<times> broadcast_state \<Rightarrow> nat list
     \<Rightarrow> (manager \<times> broadcast_state) \<times> unit res" where
  "broadcast_runs T c outcome deleted states ms [] = (ms, Inr ())"
| "broadcast_runs T c outcome deleted states ms (idx # idxs) =
     (case broadcast_run T c outcome deleted states ms idx of
        (ms', Inl e) \<Rightarrow> (ms', Inl e)
      | (ms', Inr _) \<Rightarrow> broadcast_runs T c outcome deleted states ms' idxs)"

text \<open>With LoRA the weights are those of the adapter of each run, otherwise the model's.\<close>

definition broadcast_weights ::
  "torch_ops \<Rightarrow> broadcast_config \<Rightarrow> (nat \<Rightarrow> fs_outcome) \<Rightarrow> (nat \<Rightarrow> bool) \<Rightarrow> state_dict \<Rightarrow> (nat \<Rightarrow> state_dict) \<Rightarrow> manager \<times> broadcast_state
     \<Rightarrow> (manager \<times> broadcast_state) \<times> unit res" where
  "broadcast_weights T c outcome deleted state adapters = (\<lambda>(m, s).
     if bw_delta c \<and> bw_lora c then ((m, s), Inl (ValueError ''filesystem delta weight broadcast does not support LoRA yet''))
     else broadcast_runs T c outcome deleted (if bw_lora c then adapters else (\<lambda>_. state)) (m, s) (ready_to_update_idxs m))"

definition maybe_clean :: "int \<Rightarrow> int option \<Rightarrow> broadcast_dir \<Rightarrow> broadcast_dir" where
  "maybe_clean step interval_to_keep d =
     (let candidate_step = max (step - 2) 0
      in if (case interval_to_keep of None \<Rightarrow> False | Some k \<Rightarrow> k \<noteq> 0 \<and> candidate_step mod k = 0) then d else dpop candidate_step d)"

definition clean_run :: "manager \<Rightarrow> int option \<Rightarrow> broadcast_state \<Rightarrow> nat \<Rightarrow> broadcast_state res" where
  "clean_run m interval_to_keep s idx =
     bindR (run_and_step m idx) (\<lambda>(run, step).
       Inr (case dget (bs_dirs s) run of
              None \<Rightarrow> s
            | Some d \<Rightarrow> s\<lparr>bs_dirs := dput run (maybe_clean step interval_to_keep d) (bs_dirs s)\<rparr>))"

definition clean_broadcasts :: "broadcast_config \<Rightarrow> int option \<Rightarrow> manager \<Rightarrow> broadcast_state \<Rightarrow> broadcast_state res" where
  "clean_broadcasts c interval_to_keep m s =
     (if bw_delta c \<and> bw_retain_all c then Inr s else foldR (clean_run m interval_to_keep) s (used_idxs m))"

section \<open>The worker\<close>

record worker_config =
  wc_pipeline_parallel_size :: nat
  wc_expert_parallel :: bool
  wc_quantization :: "string option"

text \<open>A directory has a streamed delta or a stored one; the other loads of vLLM are not modelled.\<close>

definition update_weights_from_delta_path ::
  "torch_ops \<Rightarrow> worker_config \<Rightarrow> vllm_model \<Rightarrow> step_dir \<Rightarrow> vllm_model \<times> unit res" where
  "update_weights_from_delta_path T w M d =
     (if wc_pipeline_parallel_size w \<noteq> 1 \<or> wc_expert_parallel w
      then (M, Inl (ValueError ''sparse deltas require PP=1 and no expert parallelism''))
      else if wc_quantization w \<noteq> None
      then (M, Inl (ValueError ''sparse deltas do not support quantized inference weights''))
      else case sd_delta d of
             None \<Rightarrow> (M, Inl FileNotFoundError)
           | Some delta \<Rightarrow> (case load_sparse_delta_weights T None M delta of (ls, r) \<Rightarrow> (ld_model ls, r)))"

section \<open>A history of broadcasts\<close>

text \<open>Between two broadcasts the manager moves on; a broadcast is followed by the cleaning of old steps.\<close>

record broadcast_round =
  br_manager :: manager
  br_state :: state_dict
  br_interval :: "int option"

definition play_round :: "torch_ops \<Rightarrow> broadcast_config \<Rightarrow> broadcast_state \<Rightarrow> broadcast_round \<Rightarrow> broadcast_state res" where
  "play_round T c s r =
     (case broadcast_weights T c (\<lambda>_. Written) (\<lambda>_. False) (br_state r) (\<lambda>_. []) (br_manager r, s) of
        ((m, t), Inl e) \<Rightarrow> Inl e
      | ((m, t), Inr _) \<Rightarrow> clean_broadcasts c (br_interval r) m t)"

text \<open>The rounds in which the run takes part, and the deltas that an endpoint finds in its directory.\<close>

definition takes_part :: "nat \<Rightarrow> broadcast_round \<Rightarrow> bool" where
  "takes_part idx r \<longleftrightarrow> idx \<in> set (ready_to_update_idxs (br_manager r))"

definition round_step :: "nat \<Rightarrow> broadcast_round \<Rightarrow> int" where
  "round_step idx r = (case dget (m_progress (br_manager r)) idx of None \<Rightarrow> 0 | Some p \<Rightarrow> p_step p)"

definition delta_chain :: "broadcast_dir \<Rightarrow> byte list list" where
  "delta_chain d = List.map_filter (\<lambda>(_, x). case sd_delta x of Some (Inl f) \<Rightarrow> if sd_stable x then Some f else None | _ \<Rightarrow> None) (sort_key fst d)"

end
