(* ===== verification/BroadcastChain.thy ===== *)
theory BroadcastChain
  imports FileBroadcast
begin

text \<open>
  The deltas a trainer leaves in the directory of a run form a chain: each was streamed between two consecutive
  broadcasts of the run. Old deltas are removed, unless they are all retained, while the trainer goes on; a worker that
  keeps up and loads the deltas in the order of their steps has the weights of the last broadcast it has loaded.
\<close>

section \<open>One run\<close>

lemma dir_of_edit [simp]:
  "dir_of run (edit_step run' k f s) =
     (if run = run' then dput k (f (case dget (dir_of run s) k of None \<Rightarrow> empty_step | Some d \<Rightarrow> d)) (dir_of run s) else dir_of run s)"
  by (auto simp: dir_of_def edit_step_def dict_simps split: option.split)

lemma prev_edit [simp]: "bs_prev (edit_step run k f s) = bs_prev s" "bs_initial (edit_step run k f s) = bs_initial s"
  by (simp_all add: edit_step_def)

lemma dir_of_prev [simp]: "dir_of run (s\<lparr>bs_prev := p\<rparr>) = dir_of run s" "dir_of run (s\<lparr>bs_initial := i\<rparr>) = dir_of run s"
  by (simp_all add: dir_of_def)

lemma dput_dput [simp]: "dput k v (dput k w d) = dput k v d"
  by (induction k w d rule: dput.induct) auto














section \<open>A round\<close>

text \<open>The manager knows the run under its index, and no other run under another index.\<close>

definition knows :: "manager \<Rightarrow> nat \<Rightarrow> string \<Rightarrow> bool" where
  "knows m idx run \<longleftrightarrow> is_master m \<and> manager_ok m \<and> dget (idx_2_id m) idx = Some run"

lemma knows_ready [simp]: "knows (m\<lparr>ready_to_update := (ready_to_update m)[i := False]\<rparr>) idx run \<longleftrightarrow> knows m idx run"
  by (simp add: knows_def manager_ok_def)






declare dget_dpop [simp]








section \<open>A history\<close>




text \<open>A history is made of rounds of broadcasts and of loads by the worker. The worker takes the broadcasts of the run in
  their order: it loads the delta of the first step it does not have yet, if there is one.\<close>

datatype chain_event = Trained broadcast_round | Loads

fun rounds_of :: "chain_event list \<Rightarrow> broadcast_round list" where
  "rounds_of [] = []"
| "rounds_of (Trained r # es) = r # rounds_of es"
| "rounds_of (Loads # es) = rounds_of es"

lemma rounds_of_append [simp]: "rounds_of (es @ fs) = rounds_of es @ rounds_of fs"
  by (induction es rule: rounds_of.induct) auto

definition steps_of :: "nat \<Rightarrow> broadcast_round list \<Rightarrow> (int \<times> state_dict) list" where
  "steps_of idx rs = map (\<lambda>r. (round_step idx r, br_state r)) (filter (takes_part idx) rs)"
















lemma steps_of_append [simp]: "steps_of idx (rs @ qs) = steps_of idx rs @ steps_of idx qs"
  by (simp add: steps_of_def)






section \<open>From initialisation to the last broadcast\<close>
















end
