(* ===== verification/StageServer.thy ===== *)
theory StageServer
  imports DeltaNames
begin

text \<open>
  The weight staging API of the inference server (\<open>inference/vllm/server.py\<close>): request
  fields, uploads in chunks, staged versions, commit and reload. Files are a dictionary from
  path strings to bytes, with the directories beside it; a path is taken as normalised, and a
  file name as ASCII. Field values are strings, integers or booleans. What a request
  finds outside the server is an input of the handler: the name \<open>uuid4\<close> makes, the digest
  function, whether an engine call succeeds, which relay calls succeed. The weight calls
  made to the engine are logged. A handler that waits for the weight lock or for the engine is split at
  that point, so that other handlers can run in between.
\<close>

section \<open>Field values and strings\<close>

datatype fval = FStr string | FInt int | FBool bool

type_synonym fields = "(string, fval) dict"

function show_nat :: "nat \<Rightarrow> string" where
  "show_nat n = (if n < 10 then [char_of (48 + n)] else show_nat (n div 10) @ [char_of (48 + n mod 10)])"
  by pat_completeness auto
termination by (relation "measure id") auto

declare show_nat.simps [simp del]

fun str_of :: "fval \<Rightarrow> string" where
  "str_of (FStr s) = s"
| "str_of (FInt i) = (if i < 0 then ''-'' @ show_nat (nat (- i)) else show_nat (nat i))"
| "str_of (FBool b) = (if b then ''True'' else ''False'')"

definition is_space :: "char \<Rightarrow> bool" where
  "is_space c \<longleftrightarrow> of_char c \<in> {9, 10, 11, 12, 13, 28, 29, 30, 31, 32 :: nat}"

definition strip :: "string \<Rightarrow> string" where
  "strip s = rev (dropWhile is_space (rev (dropWhile is_space s)))"

definition lower :: "string \<Rightarrow> string" where
  "lower s = map (\<lambda>c. if (65::nat) \<le> of_char c \<and> of_char c \<le> (90::nat) then char_of (of_char c + (32::nat)) else c) s"

definition coerce_bool :: "fval option \<Rightarrow> bool \<Rightarrow> bool" where
  "coerce_bool v def =
     (case v of
        None \<Rightarrow> def
      | Some (FBool b) \<Rightarrow> b
      | Some (FInt i) \<Rightarrow> i \<noteq> 0
      | Some (FStr s) \<Rightarrow>
          let t = lower (strip s) in
          if t \<in> {''1'', ''true'', ''t'', ''yes'', ''y'', ''on''} then True
          else if t \<in> {''0'', ''false'', ''f'', ''no'', ''n'', ''off''} then False
          else def)"

text \<open>\<open>int(s)\<close>: surrounding whitespace, a sign, digits with single underscores between them.\<close>

fun digits_value :: "bool \<Rightarrow> nat \<Rightarrow> string \<Rightarrow> nat option" where
  "digits_value after_digit acc [] = (if after_digit then Some acc else None)"
| "digits_value after_digit acc (c # cs) =
     (if is_digit c then digits_value True (10 * acc + (of_char c - 48)) cs
      else if c = CHR ''_'' \<and> after_digit \<and> cs \<noteq> [] \<and> is_digit (hd cs) then digits_value False acc cs
      else None)"

definition parse_int :: "fval \<Rightarrow> int option" where
  "parse_int v =
     (case v of
        FInt i \<Rightarrow> Some i
      | FBool b \<Rightarrow> Some (if b then 1 else 0)
      | FStr s \<Rightarrow>
          (case strip s of
             [] \<Rightarrow> None
           | c # cs \<Rightarrow>
               if c = CHR ''-'' then map_option (\<lambda>n. - int n) (digits_value False 0 cs)
               else if c = CHR ''+'' then map_option int (digits_value False 0 cs)
               else map_option int (digits_value False 0 (c # cs))))"

definition is_alnum :: "char \<Rightarrow> bool" where
  "is_alnum c \<longleftrightarrow> is_digit c \<or> (65::nat) \<le> of_char c \<and> of_char c \<le> (90::nat)
                 \<or> (97::nat) \<le> of_char c \<and> of_char c \<le> (122::nat)"

definition safe_path_component :: "string \<Rightarrow> string" where
  "safe_path_component value =
     (let safe = map (\<lambda>c. if is_alnum c \<or> c \<in> set ''._-'' then c else CHR ''_'') value in
      if safe = [] then ''unknown'' else safe)"

text \<open>\<open>Path(s).name\<close> and the parent directory of a normalised path.\<close>

fun split_on :: "char \<Rightarrow> string \<Rightarrow> string list" where
  "split_on sep [] = [[]]"
| "split_on sep (c # cs) =
     (if c = sep then [] # split_on sep cs
      else case split_on sep cs of [] \<Rightarrow> [[c]] | w # ws \<Rightarrow> (c # w) # ws)"

definition path_name :: "string \<Rightarrow> string" where
  "path_name s =
     (case rev (filter (\<lambda>w. w \<noteq> [] \<and> w \<noteq> ''.'') (split_on (CHR ''/'') s)) of [] \<Rightarrow> [] | w # _ \<Rightarrow> w)"

definition parent_dir :: "string \<Rightarrow> string" where
  "parent_dir p = rev (tl (dropWhile (\<lambda>c. c \<noteq> CHR ''/'') (rev p)))"

definition join_path :: "string \<Rightarrow> string \<Rightarrow> string" where
  "join_path d name = d @ ''/'' @ name"

definition rstrip_slashes :: "string \<Rightarrow> string" where
  "rstrip_slashes s = rev (dropWhile (\<lambda>c. c = CHR ''/'') (rev s))"

definition normalize_admin_url :: "string \<Rightarrow> string" where
  "normalize_admin_url url = removesuffix (rstrip_slashes url) ''/v1''"

definition relay_peer_url :: "string \<Rightarrow> string \<Rightarrow> string" where
  "relay_peer_url peer route = normalize_admin_url peer @ ''/'' @ dropWhile (\<lambda>c. c = CHR ''/'') route"

section \<open>Server state\<close>

record staged_entry =
  e_path :: string
  e_mode :: string
  e_base :: "string option"
  e_owned :: bool

text \<open>An active upload; the keys a chunked upload's dictionary lacks are \<open>None\<close>.\<close>

record stage_upload =
  up_path :: string
  up_staged_path :: "string option"
  up_filename :: string
  up_mode :: string
  up_version :: "string option"
  up_base :: "string option"
  up_total_size :: "int option"
  up_sha256 :: "string option"
  up_ranges :: "(int \<times> int) list"
  up_chunks :: nat
  up_relay_requested :: "bool option"
  up_relay_uploads :: "(string, string) dict"

datatype rpc =
    RpcCommit string string "string option" "byte list option"  \<comment> \<open>version, mode, base version, file\<close>
  | RpcReload
  | RpcFailed  \<comment> \<open>a commit or reload that raised: the weights may be half updated\<close>
  | RpcUpdate bool string string  \<comment> \<open>\<open>/update_weights\<close>: returned, mode, directory\<close>

record server =
  staged_versions :: "(string, staged_entry) dict"
  stage_uploads :: "(string, stage_upload) dict"
  active_version :: "string option"
  weights_dirty :: bool
  api_server_count :: int
  staging_dir :: string
  s_files :: "(string, byte list) dict"
  s_dirs :: "string list"
  relay_enabled :: bool
  relay_peer_list :: "string list"
  relay_fail_on_peer_error :: bool
  paused :: bool
  engine_log :: "rpc list"

datatype response =
    Success
  | UploadStarted string
  | Received int
  | ErrorResponse nat string
  | PeerFailure "string list"
  | Raised pyerr

definition init_server :: "string \<Rightarrow> int \<Rightarrow> bool \<Rightarrow> string list \<Rightarrow> bool \<Rightarrow> server" where
  "init_server dir count relay peers fail =
     \<lparr>staged_versions = [], stage_uploads = [], active_version = None, weights_dirty = False,
      api_server_count = count, staging_dir = dir, s_files = [], s_dirs = [dir], relay_enabled = relay,
      relay_peer_list = peers, relay_fail_on_peer_error = fail, paused = False, engine_log = []\<rparr>"

section \<open>Requests\<close>

record upload_file =
  uf_filename :: "string option"
  uf_bytes :: "byte list"

record request =
  rq_query :: "(string, fval) dict"
  rq_content_type :: string
  rq_json :: "(string \<times> fval option) list option"  \<comment> \<open>the JSON body when it is an object\<close>
  rq_form :: "(string \<times> (fval + upload_file)) list"
  rq_body :: "byte list"

definition read_request_fields :: "request \<Rightarrow> fields \<times> upload_file option" where
  "read_request_fields r =
     (if startswith (rq_content_type r) ''application/json'' then
        (foldl (\<lambda>f (k, v). case v of None \<Rightarrow> f | Some x \<Rightarrow> dput k x f) (rq_query r)
           (case rq_json r of None \<Rightarrow> [] | Some items \<Rightarrow> items), None)
      else if startswith (rq_content_type r) ''multipart/form-data''
            \<or> startswith (rq_content_type r) ''application/x-www-form-urlencoded'' then
        foldl (\<lambda>(f, u) (k, v). case v of
                 Inl x \<Rightarrow> (dput k x f, u)
               | Inr file \<Rightarrow> (f, if k = ''file'' then Some file else u))
          (rq_query r, None) (rq_form r)
      else (rq_query r, None))"

definition field_str :: "fields \<Rightarrow> string \<Rightarrow> string \<Rightarrow> string" where
  "field_str f k def = (case dget f k of None \<Rightarrow> def | Some v \<Rightarrow> str_of v)"

definition field_opt :: "fields \<Rightarrow> string \<Rightarrow> string option" where
  "field_opt f k = map_option str_of (dget f k)"

definition relay_requested :: "fields \<Rightarrow> bool" where
  "relay_requested f = coerce_bool (dget f ''relay'') True"

definition parse_non_negative_int :: "fields \<Rightarrow> string \<Rightarrow> response + int" where
  "parse_non_negative_int f name =
     (case dget f name of
        None \<Rightarrow> Inl (ErrorResponse 400 (name @ '' is required''))
      | Some v \<Rightarrow>
          (case parse_int v of
             None \<Rightarrow> Inl (ErrorResponse 400 (name @ '' must be an integer''))
           | Some n \<Rightarrow> if n < 0 then Inl (ErrorResponse 400 (name @ '' must be non-negative'')) else Inr n))"

section \<open>Version rules\<close>

record stage_meta =
  sm_version :: string
  sm_mode :: string
  sm_base :: "string option"

definition current_version :: "server \<Rightarrow> string" where
  "current_version s = (case active_version s of None \<Rightarrow> ''0'' | Some v \<Rightarrow> if v = [] then ''0'' else v)"

definition validate_stage :: "server \<Rightarrow> string \<Rightarrow> string \<Rightarrow> string option \<Rightarrow> response + stage_meta" where
  "validate_stage s version mode base =
     (if mode \<noteq> ''full'' \<and> mode \<noteq> ''delta'' then Inl (ErrorResponse 400 ''unsupported weight update mode'')
      else if api_server_count s \<noteq> 1
      then Inl (ErrorResponse 400 ''stage_commit requires a single API server to own the version state'')
      else if mode = ''delta'' \<and> weights_dirty s
      then Inl (ErrorResponse 409 ''weights require reload after a failed update'')
      else if mode = ''delta'' \<and> base = None
      then Inl (ErrorResponse 400 ''base_version is required for delta updates'')
      else if mode = ''delta'' \<and> base \<noteq> Some (current_version s)
      then Inl (ErrorResponse 409 ''base_version mismatch'')
      else if mode = ''delta'' \<and> base = Some version
      then Inl (ErrorResponse 409 ''delta version must differ from base_version'')
      else Inr \<lparr>sm_version = version, sm_mode = mode, sm_base = base\<rparr>)"

definition validate_stage_metadata :: "server \<Rightarrow> fields \<Rightarrow> response + stage_meta" where
  "validate_stage_metadata s f =
     validate_stage s (field_str f ''version'' ''unknown'') (field_str f ''mode'' ''full'') (field_opt f ''base_version'')"

section \<open>Files\<close>

definition is_file :: "server \<Rightarrow> string \<Rightarrow> bool" where
  "is_file s p \<longleftrightarrow> dget (s_files s) p \<noteq> None"

definition path_exists :: "server \<Rightarrow> string \<Rightarrow> bool" where
  "path_exists s p \<longleftrightarrow> is_file s p \<or> p \<in> set (s_dirs s)"

definition put_file :: "string \<Rightarrow> byte list \<Rightarrow> server \<Rightarrow> server" where
  "put_file p bs s = s\<lparr>s_files := dput p bs (s_files s)\<rparr>"

definition unlink :: "string \<Rightarrow> server \<Rightarrow> server" where
  "unlink p s = s\<lparr>s_files := dpop p (s_files s)\<rparr>"

text \<open>\<open>seek\<close> and \<open>write\<close>: a gap before the offset reads as zeros; writing nothing extends nothing.\<close>

definition write_at :: "byte list \<Rightarrow> nat \<Rightarrow> byte list \<Rightarrow> byte list" where
  "write_at bs off chunk =
     (if chunk = [] then bs
      else take off (bs @ replicate (off - length bs) 0) @ chunk @ drop (off + length chunk) bs)"

definition write_chunk :: "string \<Rightarrow> nat \<Rightarrow> byte list \<Rightarrow> server \<Rightarrow> server" where
  "write_chunk p off chunk s =
     put_file p (write_at (case dget (s_files s) p of None \<Rightarrow> [] | Some bs \<Rightarrow> bs) off chunk) s"

definition cleanup_staged_file :: "staged_entry \<Rightarrow> server \<Rightarrow> server" where
  "cleanup_staged_file e s =
     (if e_owned e \<and> is_file s (e_path e) \<and> parent_dir (e_path e) = staging_dir s then unlink (e_path e) s else s)"

definition cleanup_stage_upload :: "stage_upload \<Rightarrow> server \<Rightarrow> server" where
  "cleanup_stage_upload u s =
     (if is_file s (up_path u) \<and> parent_dir (up_path u) = staging_dir s then unlink (up_path u) s else s)"

section \<open>Received ranges\<close>

fun merge_sorted :: "(int \<times> int) list \<Rightarrow> (int \<times> int) list \<Rightarrow> (int \<times> int) list" where
  "merge_sorted merged [] = merged"
| "merge_sorted merged ((range_start, range_end) # ranges) =
     (if merged = [] \<or> range_start > snd (last merged)
      then merge_sorted (merged @ [(range_start, range_end)]) ranges
      else merge_sorted (butlast merged @ [(fst (last merged), max (snd (last merged)) range_end)]) ranges)"

definition merge_received_range :: "(int \<times> int) list \<Rightarrow> int \<Rightarrow> int \<Rightarrow> (int \<times> int) list" where
  "merge_received_range ranges start stop =
     (if start \<ge> stop then ranges else merge_sorted [] (sort (ranges @ [(start, stop)])))"

definition received_bytes :: "(int \<times> int) list \<Rightarrow> int" where
  "received_bytes ranges = sum_list (map (\<lambda>(start, stop). stop - start) ranges)"

definition upload_complete :: "(int \<times> int) list \<Rightarrow> int \<Rightarrow> bool" where
  "upload_complete ranges total_size =
     (if total_size = 0 then ranges = [] else length ranges = 1 \<and> hd ranges = (0, total_size))"

section \<open>Relaying\<close>

text \<open>
  A relay call is its peer, route, form data and body; \<open>ok peer route\<close> says whether it
  succeeds. A fan-out returns the calls it makes and, per peer, whether it succeeded.
\<close>

record relay_call =
  rc_peer :: string
  rc_route :: string
  rc_data :: "(string, string) dict"
  rc_body :: "byte list option"

type_synonym relay_ok = "string \<Rightarrow> string \<Rightarrow> bool"
type_synonym fan_out = "relay_call list \<times> (string \<times> bool) list"

definition relay_peers :: "server \<Rightarrow> string list" where
  "relay_peers s = (if relay_enabled s then relay_peer_list s else [])"

definition fan_out_all :: "server \<Rightarrow> bool \<Rightarrow> (string \<Rightarrow> relay_call list \<times> bool) \<Rightarrow> fan_out" where
  "fan_out_all s relay send =
     (if \<not> relay \<or> relay_peers s = [] then ([], [])
      else (concat (map (fst \<circ> send) (relay_peers s)), map (\<lambda>p. (p, snd (send p))) (relay_peers s)))"

definition forwarded :: "fields \<Rightarrow> (string, string) dict" where
  "forwarded f =
     dput ''relay'' ''false'' (map (\<lambda>(k, v). (k, str_of v)) (filter (\<lambda>p. fst p \<noteq> ''relay'') f))"

definition stage_relay_file :: "server \<Rightarrow> string \<Rightarrow> string \<Rightarrow> string" where
  "stage_relay_file s p mode =
     (if is_file s p then p
      else if mode = ''delta'' \<and> p \<in> set (s_dirs s) then
        (if path_exists s (join_path p ''delta.stream'') then join_path p ''delta.stream''
         else join_path p ''delta.safetensors'')
      else p)"

definition fan_out_stage_file :: "server \<Rightarrow> relay_ok \<Rightarrow> string \<Rightarrow> stage_meta \<Rightarrow> bool \<Rightarrow> fan_out" where
  "fan_out_stage_file s ok p m relay =
     (let file = stage_relay_file s p (sm_mode m);
          data = [(''version'', sm_version m), (''mode'', sm_mode m), (''relay'', ''false'')]
            @ (case sm_base m of None \<Rightarrow> [] | Some b \<Rightarrow> [(''base_version'', b)])
      in fan_out_all s relay (\<lambda>peer.
           if \<not> is_file s file then ([], False)
           else ([\<lparr>rc_peer = peer, rc_route = ''/stage'', rc_data = data, rc_body = dget (s_files s) file\<rparr>],
                 ok peer ''/stage'')))"

definition fan_out_stage_chunk :: "server \<Rightarrow> relay_ok \<Rightarrow> fields \<Rightarrow> byte list \<Rightarrow> bool \<Rightarrow> fan_out" where
  "fan_out_stage_chunk s ok f chunk relay =
     fan_out_all s relay (\<lambda>peer.
       ([\<lparr>rc_peer = peer, rc_route = ''/stage_chunk'', rc_data = forwarded f, rc_body = Some chunk\<rparr>],
        ok peer ''/stage_chunk''))"

definition fan_out_stage_finalize :: "server \<Rightarrow> relay_ok \<Rightarrow> fields \<Rightarrow> bool \<Rightarrow> fan_out" where
  "fan_out_stage_finalize s ok f relay =
     fan_out_all s relay (\<lambda>peer.
       ([\<lparr>rc_peer = peer, rc_route = ''/stage_finalize'', rc_data = forwarded f, rc_body = None\<rparr>],
        ok peer ''/stage_finalize''))"

text \<open>A peer answers \<open>/stage_stream_init\<close> with an upload id, or fails (\<open>None\<close>).\<close>

definition fan_out_stream_init ::
  "server \<Rightarrow> (string \<Rightarrow> string option) \<Rightarrow> fields \<Rightarrow> string \<Rightarrow> bool \<Rightarrow> (string, string) dict \<times> fan_out" where
  "fan_out_stream_init s ids f filename relay =
     (let data = dput ''relay'' ''False'' (dput ''filename'' filename
            (map (\<lambda>(k, v). (k, str_of v)) (filter (\<lambda>p. fst p \<noteq> ''relay'') f)));
          good = (\<lambda>p. case ids p of None \<Rightarrow> False | Some i \<Rightarrow> i \<noteq> []);
          out = fan_out_all s relay (\<lambda>peer.
            ([\<lparr>rc_peer = peer, rc_route = ''/stage_stream_init'', rc_data = data, rc_body = None\<rparr>], good peer))
      in (map (\<lambda>(p, _). (p, the (ids p))) (filter snd (snd out)), out))"

definition fan_out_stream :: "stage_upload \<Rightarrow> (string \<Rightarrow> string \<Rightarrow> relay_call \<times> bool) \<Rightarrow> fan_out" where
  "fan_out_stream u send =
     (if up_relay_requested u = Some False \<or> up_relay_uploads u = [] then ([], [])
      else (map (\<lambda>(p, i). fst (send p i)) (up_relay_uploads u),
            map (\<lambda>(p, i). (p, snd (send p i))) (up_relay_uploads u)))"

definition fan_out_stream_chunk :: "relay_ok \<Rightarrow> stage_upload \<Rightarrow> int \<Rightarrow> byte list \<Rightarrow> fan_out" where
  "fan_out_stream_chunk ok u offset chunk =
     fan_out_stream u (\<lambda>peer i.
       (\<lparr>rc_peer = peer, rc_route = ''/stage_stream_chunk'',
         rc_data = [(''upload_id'', i), (''offset'', str_of (FInt offset))], rc_body = Some chunk\<rparr>,
        ok peer ''/stage_stream_chunk''))"

definition fan_out_stream_finalize :: "relay_ok \<Rightarrow> stage_upload \<Rightarrow> fields \<Rightarrow> fan_out" where
  "fan_out_stream_finalize ok u f =
     fan_out_stream u (\<lambda>peer i.
       (\<lparr>rc_peer = peer, rc_route = ''/stage_stream_finalize'',
         rc_data = dput ''upload_id'' i (map (\<lambda>(k, v). (k, str_of v)) (filter (\<lambda>p. fst p \<noteq> ''upload_id'') f)),
         rc_body = None\<rparr>,
        ok peer ''/stage_stream_finalize''))"

text \<open>A peer is paused, then called, then resumed whether or not the call succeeded.\<close>

definition relay_paused :: "relay_ok \<Rightarrow> string \<Rightarrow> (string, string) dict \<Rightarrow> string \<Rightarrow> relay_call list \<times> bool" where
  "relay_paused ok route data peer =
     (let call = (\<lambda>r d. \<lparr>rc_peer = peer, rc_route = r, rc_data = d, rc_body = None\<rparr>);
          pause = call ''/pause'' [(''mode'', ''keep''), (''clear_cache'', ''false'')]
      in if \<not> ok peer ''/pause'' then ([pause], False)
         else ([pause, call route data, call ''/resume'' []], ok peer route \<and> ok peer ''/resume''))"

definition fan_out_commit :: "server \<Rightarrow> relay_ok \<Rightarrow> string \<Rightarrow> string \<Rightarrow> bool \<Rightarrow> fan_out" where
  "fan_out_commit s ok version mode relay =
     fan_out_all s relay
       (relay_paused ok ''/commit'' [(''version'', version), (''mode'', mode), (''relay'', ''false'')])"

definition fan_out_reload :: "server \<Rightarrow> relay_ok \<Rightarrow> bool \<Rightarrow> fan_out" where
  "fan_out_reload s ok relay = fan_out_all s relay (relay_paused ok ''/reload_weights'' [(''relay'', ''false'')])"

definition relay_failure_response :: "server \<Rightarrow> (string \<times> bool) list \<Rightarrow> response option" where
  "relay_failure_response s stats =
     (let failed = map fst (filter (\<lambda>p. \<not> snd p) stats) in
      if \<not> relay_fail_on_peer_error s \<or> failed = [] then None else Some (PeerFailure failed))"

definition or_failure :: "response option \<Rightarrow> response \<Rightarrow> response" where
  "or_failure failure r = (case failure of None \<Rightarrow> r | Some f \<Rightarrow> f)"

end
