(* ===== verification/StageHandlers.thy ===== *)
theory StageHandlers
  imports StageServer
begin

text \<open>
  The handlers of the staging API (\<open>inference/vllm/server.py\<close>) and the server as a state
  machine. A handler that waits (for the weight lock, for the engine, for the peers of a
  stream initialisation) is split there; what it has yet to do is kept in the system state,
  so that any other handler can run before it continues. A call to the engine that raises, and
  relay calls that fail, are choices of a step.
\<close>

section \<open>Keys, names and digests\<close>

definition stage_upload_key :: "string \<Rightarrow> string \<Rightarrow> string" where
  "stage_upload_key version mode = version @ '':'' @ mode"

definition stage_stream_upload_key :: "string \<Rightarrow> string" where
  "stage_stream_upload_key upload_id = ''stream:'' @ upload_id"

definition mode_suffix :: "string \<Rightarrow> string" where
  "mode_suffix mode = (if mode = ''delta'' then ''delta'' else ''full'')"

definition staged_name :: "server \<Rightarrow> string \<Rightarrow> string \<Rightarrow> string \<Rightarrow> string" where
  "staged_name s stem mode filename =
     join_path (staging_dir s) (stem @ ''_'' @ mode_suffix mode @ ''_'' @ filename)"

text \<open>\<open>fields.get("filename") or default\<close>, and the name made safe.\<close>

definition truthy :: "fval option \<Rightarrow> bool" where
  "truthy v = (case v of None \<Rightarrow> False | Some (FStr s) \<Rightarrow> s \<noteq> [] | Some (FInt i) \<Rightarrow> i \<noteq> 0 | Some (FBool b) \<Rightarrow> b)"

definition chosen_filename :: "fields \<Rightarrow> string \<Rightarrow> string" where
  "chosen_filename f def =
     safe_path_component (path_name
       (if truthy (dget f ''filename'') then field_str f ''filename'' def else def))"

definition uploaded_name :: "upload_file \<Rightarrow> string" where
  "uploaded_name u = (case uf_filename u of None \<Rightarrow> ''weights'' | Some n \<Rightarrow> if n = [] then ''weights'' else n)"

definition move_file :: "string \<Rightarrow> string \<Rightarrow> server \<Rightarrow> server" where
  "move_file p q s = (case dget (s_files s) p of None \<Rightarrow> s | Some bs \<Rightarrow> put_file q bs (unlink p (unlink q s)))"

section \<open>Registering a staged version\<close>

definition register_staged_version :: "string \<Rightarrow> staged_entry \<Rightarrow> server \<Rightarrow> server \<times> response option" where
  "register_staged_version version e s =
     (case validate_stage s version (e_mode e) (e_base e) of
        Inl r \<Rightarrow> (cleanup_staged_file e s, Some r)
      | Inr _ \<Rightarrow>
          let s1 = (case dget (staged_versions s) version of
                      None \<Rightarrow> s
                    | Some previous \<Rightarrow> if e_path previous \<noteq> e_path e then cleanup_staged_file previous s else s)
          in (s1\<lparr>staged_versions := dput version e (staged_versions s1)\<rparr>, None))"

text \<open>What a handler still has to do after registering: relay to the peers.\<close>

datatype relay_job =
    RelayFile stage_meta bool
  | RelayStream stage_upload fields
  | RelayChunked fields bool

record pending =
  pd_version :: string
  pd_entry :: staged_entry
  pd_relay :: relay_job

datatype outcome =
    Done "relay_call list" response
  | Registering pending  \<comment> \<open>waits for the weight lock\<close>

definition run_relay :: "server \<Rightarrow> relay_ok \<Rightarrow> string \<Rightarrow> relay_job \<Rightarrow> fan_out" where
  "run_relay s ok p job =
     (case job of
        RelayFile m relay \<Rightarrow> fan_out_stage_file s ok p m relay
      | RelayStream u f \<Rightarrow> fan_out_stream_finalize ok u f
      | RelayChunked f relay \<Rightarrow> fan_out_stage_finalize s ok f relay)"

definition finish_register :: "relay_ok \<Rightarrow> pending \<Rightarrow> server \<Rightarrow> server \<times> relay_call list \<times> response" where
  "finish_register ok pd s =
     (case register_staged_version (pd_version pd) (pd_entry pd) s of
        (s', Some r) \<Rightarrow> (s', [], r)
      | (s', None) \<Rightarrow>
          let (calls, stats) = run_relay s' ok (e_path (pd_entry pd)) (pd_relay pd)
          in (s', calls, or_failure (relay_failure_response s' stats) Success))"

section \<open>Staging a whole file\<close>

definition stage_weights :: "(string \<Rightarrow> string) \<Rightarrow> string \<Rightarrow> request \<Rightarrow> server \<Rightarrow> server \<times> outcome" where
  "stage_weights expanduser uuid r s =
     (let (f, uploaded) = read_request_fields r in
      case validate_stage_metadata s f of
        Inl err \<Rightarrow> (s, Done [] err)
      | Inr meta \<Rightarrow>
          let job = RelayFile meta (relay_requested f);
              entry = (\<lambda>p owned. \<lparr>e_path = p, e_mode = sm_mode meta, e_base = sm_base meta, e_owned = owned\<rparr>)
          in case uploaded of
               Some u \<Rightarrow>
                 let p = staged_name s uuid (sm_mode meta) (safe_path_component (path_name (uploaded_name u)))
                 in (put_file p (uf_bytes u) s,
                     Registering \<lparr>pd_version = sm_version meta, pd_entry = entry p True, pd_relay = job\<rparr>)
             | None \<Rightarrow>
                 (case field_opt f ''path'' of
                    None \<Rightarrow> (s, Done [] (ErrorResponse 400 ''No file uploaded or path provided''))
                  | Some path \<Rightarrow>
                      if \<not> path_exists s (expanduser path)
                      then (s, Done [] (ErrorResponse 404 ''staged path does not exist''))
                      else (s, Registering \<lparr>pd_version = sm_version meta,
                                            pd_entry = entry (expanduser path) False, pd_relay = job\<rparr>)))"

section \<open>Streaming uploads\<close>

record init_job =
  ij_id :: string
  ij_upload :: stage_upload

definition stage_stream_init_open ::
  "string \<Rightarrow> request \<Rightarrow> server \<Rightarrow> server \<times> (response + fields \<times> init_job)" where
  "stage_stream_init_open uuid r s =
     (let f = fst (read_request_fields r) in
      case validate_stage_metadata s f of
        Inl err \<Rightarrow> (s, Inl err)
      | Inr meta \<Rightarrow>
          (case field_opt f ''filename'' of
             None \<Rightarrow> (s, Inl (ErrorResponse 400 ''filename is required''))
           | Some name \<Rightarrow>
               let filename = safe_path_component (path_name name);
                   staged = staged_name s uuid (sm_mode meta) filename;
                   temp = staged @ ''.stream.part''
               in (put_file temp [] s,
                   Inr (f, \<lparr>ij_id = uuid, ij_upload =
                     \<lparr>up_path = temp, up_staged_path = Some staged, up_filename = filename,
                      up_mode = sm_mode meta, up_version = Some (sm_version meta), up_base = sm_base meta,
                      up_total_size = None, up_sha256 = None, up_ranges = [], up_chunks = 0,
                      up_relay_requested = Some (relay_requested f), up_relay_uploads = []\<rparr>\<rparr>))))"

definition stage_stream_init_close ::
  "(string \<Rightarrow> string option) \<Rightarrow> fields \<Rightarrow> init_job \<Rightarrow> server \<Rightarrow> server \<times> relay_call list \<times> response" where
  "stage_stream_init_close ids f j s =
     (let (uploads, calls, stats) = fan_out_stream_init s ids f (up_filename (ij_upload j)) (relay_requested f) in
      case relay_failure_response s stats of
        Some err \<Rightarrow> (cleanup_stage_upload (ij_upload j) s, calls, err)
      | None \<Rightarrow>
          (s\<lparr>stage_uploads := dput (stage_stream_upload_key (ij_id j))
               ((ij_upload j)\<lparr>up_relay_uploads := uploads\<rparr>) (stage_uploads s)\<rparr>,
           calls, UploadStarted (ij_id j)))"

text \<open>One chunk of an active upload: write it, merge its range, count it.\<close>

definition store_chunk :: "string \<Rightarrow> stage_upload \<Rightarrow> int \<Rightarrow> byte list \<Rightarrow> server \<Rightarrow> server" where
  "store_chunk key u offset chunk s =
     (let s1 = write_chunk (up_path u) (nat offset) chunk s
      in s1\<lparr>stage_uploads := dput key
            (u\<lparr>up_ranges := merge_received_range (up_ranges u) offset (offset + int (length chunk)),
               up_chunks := up_chunks u + 1\<rparr>) (stage_uploads s1)\<rparr>)"

definition stage_stream_chunk :: "relay_ok \<Rightarrow> request \<Rightarrow> server \<Rightarrow> server \<times> relay_call list \<times> response" where
  "stage_stream_chunk ok r s =
     (let f = rq_query r in
      case field_opt f ''upload_id'' of
        None \<Rightarrow> (s, [], ErrorResponse 400 ''upload_id is required'')
      | Some upload_id \<Rightarrow>
          (case parse_non_negative_int f ''offset'' of
             Inl err \<Rightarrow> (s, [], err)
           | Inr offset \<Rightarrow>
               let key = stage_stream_upload_key upload_id in
               (case dget (stage_uploads s) key of
                  None \<Rightarrow> (s, [], ErrorResponse 404 ''streaming upload not found'')
                | Some u \<Rightarrow>
                    if rq_body r = [] then (s, [], ErrorResponse 400 ''chunk body is required'')
                    else
                      let s' = store_chunk key u offset (rq_body r) s;
                          (calls, stats) = fan_out_stream_chunk ok u offset (rq_body r);
                          ranges = merge_received_range (up_ranges u) offset (offset + int (length (rq_body r)))
                      in (s', calls, or_failure (relay_failure_response s' stats)
                           (if up_version u = None then Raised (KeyError ''version'')
                            else Received (received_bytes ranges))))))"

definition drop_upload :: "string \<Rightarrow> server \<Rightarrow> server" where
  "drop_upload key s = s\<lparr>stage_uploads := dpop key (stage_uploads s)\<rparr>"

definition stage_stream_finalize :: "(byte list \<Rightarrow> string) \<Rightarrow> request \<Rightarrow> server \<Rightarrow> server \<times> outcome" where
  "stage_stream_finalize sha256 r s =
     (let f = fst (read_request_fields r) in
      case field_opt f ''upload_id'' of
        None \<Rightarrow> (s, Done [] (ErrorResponse 400 ''upload_id is required''))
      | Some upload_id \<Rightarrow>
          (case parse_non_negative_int f ''final_size'' of
             Inl err \<Rightarrow> (s, Done [] err)
           | Inr final_size \<Rightarrow>
               let key = stage_stream_upload_key upload_id in
               (case dget (stage_uploads s) key of
                  None \<Rightarrow> (s, Done [] (ErrorResponse 404 ''streaming upload not found''))
                | Some u \<Rightarrow>
                    (case validate_stage s (case up_version u of None \<Rightarrow> ''unknown'' | Some v \<Rightarrow> v) (up_mode u) (up_base u) of
                       Inl err \<Rightarrow> (s, Done [] err)
                     | Inr _ \<Rightarrow>
                         if \<not> upload_complete (up_ranges u) final_size
                         then (s, Done [] (ErrorResponse 409 ''upload incomplete''))
                         else (case dget (s_files s) (up_path u) of
                           None \<Rightarrow> (s, Done [] (ErrorResponse 404 ''streaming upload file not found''))
                         | Some bs \<Rightarrow>
                             if int (length bs) \<noteq> final_size
                             then (s, Done [] (ErrorResponse 409 ''final_size mismatch''))
                             else if (case field_opt f ''sha256'' of None \<Rightarrow> False | Some h \<Rightarrow> sha256 bs \<noteq> h)
                             then (drop_upload key (cleanup_stage_upload u s),
                                   Done [] (ErrorResponse 409 ''sha256 mismatch''))
                             else (case (up_staged_path u, up_version u) of
                               (Some q, Some v) \<Rightarrow>
                                 (drop_upload key (move_file (up_path u) q s),
                                  Registering \<lparr>pd_version = v,
                                    pd_entry = \<lparr>e_path = q, e_mode = up_mode u, e_base = up_base u, e_owned = True\<rparr>,
                                    pd_relay = RelayStream u f\<rparr>)
                             | _ \<Rightarrow> (s, Done [] (Raised (KeyError ''staged_path'')))))))))"


section \<open>Chunked uploads\<close>

record chunk_args =
  ck_meta :: stage_meta
  ck_offset :: int
  ck_total :: int
  ck_sha :: string
  ck_filename :: string
  ck_bytes :: "byte list"

definition stage_chunk_args :: "server \<Rightarrow> request \<Rightarrow> response + chunk_args" where
  "stage_chunk_args s r =
     (let (f, uploaded) = read_request_fields r in
      bindR (validate_stage_metadata s f) (\<lambda>meta.
      case uploaded of
        None \<Rightarrow> Inl (ErrorResponse 400 ''file chunk is required'')
      | Some u \<Rightarrow>
          bindR (parse_non_negative_int f ''offset'') (\<lambda>offset.
          bindR (parse_non_negative_int f ''total_size'') (\<lambda>nbytes.
          case field_opt f ''sha256'' of
            None \<Rightarrow> Inl (ErrorResponse 400 ''sha256 is required'')
          | Some h \<Rightarrow>
              if offset + int (length (uf_bytes u)) > nbytes
              then Inl (ErrorResponse 400 ''chunk exceeds total_size'')
              else Inr \<lparr>ck_meta = meta, ck_offset = offset, ck_total = nbytes, ck_sha = h,
                        ck_filename = chosen_filename f (uploaded_name u), ck_bytes = uf_bytes u\<rparr>))))"

definition chunk_key :: "chunk_args \<Rightarrow> string" where
  "chunk_key c = stage_upload_key (sm_version (ck_meta c)) (sm_mode (ck_meta c))"

definition new_chunked_upload :: "server \<Rightarrow> chunk_args \<Rightarrow> stage_upload" where
  "new_chunked_upload s c =
     \<lparr>up_path = staged_name s (safe_path_component (sm_version (ck_meta c))) (sm_mode (ck_meta c)) (ck_filename c) @ ''.part'',
      up_staged_path = None, up_filename = ck_filename c, up_mode = sm_mode (ck_meta c), up_version = None,
      up_base = sm_base (ck_meta c), up_total_size = Some (ck_total c), up_sha256 = Some (ck_sha c),
      up_ranges = [], up_chunks = 0, up_relay_requested = None, up_relay_uploads = []\<rparr>"

definition same_upload :: "stage_upload \<Rightarrow> string \<Rightarrow> int \<Rightarrow> string \<Rightarrow> string option \<Rightarrow> bool" where
  "same_upload u filename nbytes sha base \<longleftrightarrow>
     up_filename u = filename \<and> up_total_size u = Some nbytes \<and> up_sha256 u = Some sha \<and> up_base u = base"

definition accept_chunk :: "chunk_args \<Rightarrow> server \<Rightarrow> server \<times> response" where
  "accept_chunk c s =
     (let u = (case dget (stage_uploads s) (chunk_key c) of None \<Rightarrow> new_chunked_upload s c | Some u \<Rightarrow> u) in
      if \<not> same_upload u (ck_filename c) (ck_total c) (ck_sha c) (sm_base (ck_meta c))
      then (s, ErrorResponse 409 ''chunk metadata does not match active upload'')
      else (store_chunk (chunk_key c) u (ck_offset c) (ck_bytes c) s,
            Received (received_bytes (merge_received_range (up_ranges u) (ck_offset c)
              (ck_offset c + int (length (ck_bytes c)))))))"

definition is_received :: "response \<Rightarrow> bool" where
  "is_received r \<longleftrightarrow> (case r of Received _ \<Rightarrow> True | _ \<Rightarrow> False)"

definition stage_chunk :: "relay_ok \<Rightarrow> request \<Rightarrow> server \<Rightarrow> server \<times> relay_call list \<times> response" where
  "stage_chunk ok r s =
     (case stage_chunk_args s r of
        Inl err \<Rightarrow> (s, [], err)
      | Inr c \<Rightarrow>
          let (s', resp) = accept_chunk c s in
          if \<not> is_received resp then (s', [], resp)
          else
            let f = fst (read_request_fields r);
                (calls, stats) = fan_out_stage_chunk s' ok f (ck_bytes c) (relay_requested f)
            in (s', calls, or_failure (relay_failure_response s' stats) resp))"

definition stage_finalize :: "(byte list \<Rightarrow> string) \<Rightarrow> string \<Rightarrow> request \<Rightarrow> server \<Rightarrow> server \<times> outcome" where
  "stage_finalize sha256 uuid r s =
     (let f = fst (read_request_fields r) in
      case validate_stage_metadata s f of
        Inl err \<Rightarrow> (s, Done [] err)
      | Inr meta \<Rightarrow>
      (case parse_non_negative_int f ''total_size'' of
         Inl err \<Rightarrow> (s, Done [] err)
       | Inr total_size \<Rightarrow>
      (case field_opt f ''sha256'' of
         None \<Rightarrow> (s, Done [] (ErrorResponse 400 ''sha256 is required''))
       | Some expected \<Rightarrow>
           let filename = chosen_filename f ''weights'';
               key = stage_upload_key (sm_version meta) (sm_mode meta) in
      (case dget (stage_uploads s) key of
         None \<Rightarrow> (s, Done [] (ErrorResponse 404 ''upload not found''))
       | Some u \<Rightarrow>
           if \<not> same_upload u filename total_size expected (sm_base meta)
           then (s, Done [] (ErrorResponse 409 ''finalize metadata does not match active upload''))
           else if \<not> upload_complete (up_ranges u) total_size
           then (s, Done [] (ErrorResponse 409 ''upload incomplete''))
           else (case dget (s_files s) (up_path u) of
             None \<Rightarrow> (s, Done [] (Raised FileNotFoundError))
           | Some bs \<Rightarrow>
               if sha256 bs \<noteq> expected
               then (drop_upload key (cleanup_stage_upload u s), Done [] (ErrorResponse 409 ''sha256 mismatch''))
               else
                 let staged = staged_name s uuid (sm_mode meta) filename in
                 (drop_upload key (move_file (up_path u) staged s),
                  Registering \<lparr>pd_version = sm_version meta,
                    pd_entry = \<lparr>e_path = staged, e_mode = sm_mode meta, e_base = sm_base meta, e_owned = True\<rparr>,
                    pd_relay = RelayChunked f (relay_requested f)\<rparr>))))))"

section \<open>Commit and reload\<close>

record commit_job =
  cj_version :: string
  cj_entry :: staged_entry
  cj_relay :: bool

datatype commit_start =
    Refused response
  | AlreadyActive commit_job
  | CallEngine commit_job

definition commit_begin :: "request \<Rightarrow> server \<Rightarrow> server \<times> commit_start" where
  "commit_begin r s =
     (let f = fst (read_request_fields r) in
      case field_opt f ''version'' of
        None \<Rightarrow> (s, Refused (ErrorResponse 400 ''version is required''))
      | Some version \<Rightarrow>
          (case dget (staged_versions s) version of
             None \<Rightarrow> (s, Refused (ErrorResponse 404 ''version not found in staging''))
           | Some e \<Rightarrow>
               let job = \<lparr>cj_version = version, cj_entry = e, cj_relay = relay_requested f\<rparr> in
               if (case field_opt f ''mode'' of None \<Rightarrow> False | Some m \<Rightarrow> m \<noteq> e_mode e)
               then (s, Refused (ErrorResponse 409 ''staged mode mismatch''))
               else if weights_dirty s
               then (s, Refused (ErrorResponse 409 ''weights require reload after a failed update''))
               else if active_version s = Some version then (s, AlreadyActive job)
               else (case validate_stage s version (e_mode e) (e_base e) of
                       Inl err \<Rightarrow> (s, Refused err)
                     | Inr _ \<Rightarrow> (s\<lparr>weights_dirty := True\<rparr>, CallEngine job))))"

definition keep_only :: "string \<Rightarrow> server \<Rightarrow> server" where
  "keep_only version s =
     foldl (\<lambda>t (v, e). if v = version then t
                       else let t1 = cleanup_staged_file e t in t1\<lparr>staged_versions := dpop v (staged_versions t1)\<rparr>)
       s (staged_versions s)"

definition commit_finish :: "relay_ok \<Rightarrow> commit_job \<Rightarrow> server \<Rightarrow> server \<times> relay_call list \<times> response" where
  "commit_finish ok job s =
     (let s' = keep_only (cj_version job) s;
          (calls, stats) = fan_out_commit s' ok (cj_version job) (e_mode (cj_entry job)) (cj_relay job)
      in (s', calls, or_failure (relay_failure_response s' stats) Success))"

definition log_call :: "rpc \<Rightarrow> server \<Rightarrow> server" where
  "log_call c s = s\<lparr>engine_log := engine_log s @ [c]\<rparr>"

definition commit_called :: "bool \<Rightarrow> commit_job \<Rightarrow> server \<Rightarrow> server" where
  "commit_called engine_ok job s =
     (if engine_ok
      then (log_call (RpcCommit (cj_version job) (e_mode (cj_entry job)) (e_base (cj_entry job))
              (dget (s_files s) (e_path (cj_entry job)))) s)
           \<lparr>active_version := Some (cj_version job), weights_dirty := False\<rparr>
      else log_call RpcFailed s)"

definition reload_begin :: "server \<Rightarrow> server" where
  "reload_begin s = s\<lparr>weights_dirty := True\<rparr>"

definition reload_called :: "bool \<Rightarrow> server \<Rightarrow> server" where
  "reload_called engine_ok s =
     (if engine_ok
      then (let s1 = foldl (\<lambda>t e. cleanup_staged_file e t) (log_call RpcReload s) (map snd (staged_versions s));
                s2 = foldl (\<lambda>t u. cleanup_stage_upload u t) s1 (map snd (stage_uploads s))
            in s2\<lparr>active_version := None, weights_dirty := False, staged_versions := [], stage_uploads := []\<rparr>)
      else log_call RpcFailed s)"

definition reload_finish :: "relay_ok \<Rightarrow> bool \<Rightarrow> server \<Rightarrow> relay_call list \<times> response" where
  "reload_finish ok relay s =
     (let (calls, stats) = fan_out_reload s ok relay in (calls, or_failure (relay_failure_response s stats) Success))"

section \<open>Generation control and direct updates\<close>

definition pause :: "server \<Rightarrow> server \<times> response" where
  "pause s = (s\<lparr>paused := True\<rparr>, Success)"

definition resume :: "server \<Rightarrow> server \<times> response" where
  "resume s =
     (if weights_dirty s then (s, ErrorResponse 409 ''weights require reload after a failed update'')
      else (s\<lparr>paused := False\<rparr>, Success))"

definition update_weights :: "bool \<Rightarrow> string \<Rightarrow> string \<Rightarrow> server \<Rightarrow> server \<times> response" where
  "update_weights engine_ok mode weight_dir s =
     (if mode \<noteq> ''full'' \<and> mode \<noteq> ''delta'' then (s, ErrorResponse 400 ''unsupported weight update mode'')
      else (log_call (RpcUpdate engine_ok mode weight_dir) s,
            if engine_ok then Success else Raised (RuntimeError ''engine'')))"

section \<open>The server as a state machine\<close>

datatype lock =
    Free
  | Committing commit_job
  | Reloading bool

record system =
  sv :: server
  wlock :: lock
  waiting :: "pending list"
  initialising :: "(fields \<times> init_job) list"

text \<open>What a step takes from outside: the request, the name \<open>uuid4\<close> makes, and what succeeds.\<close>

record env =
  sha256 :: "byte list \<Rightarrow> string"
  expanduser :: "string \<Rightarrow> string"

definition await :: "server \<times> outcome \<Rightarrow> system \<Rightarrow> system" where
  "await res y =
     (case res of
        (s, Done calls r) \<Rightarrow> y\<lparr>sv := s\<rparr>
      | (s, Registering pd) \<Rightarrow> y\<lparr>sv := s, waiting := waiting y @ [pd]\<rparr>)"

inductive server_step :: "env \<Rightarrow> system \<Rightarrow> system \<Rightarrow> bool" for \<E> where
  pause: "server_step \<E> y (y\<lparr>sv := fst (pause (sv y))\<rparr>)"
| resume: "server_step \<E> y (y\<lparr>sv := fst (resume (sv y))\<rparr>)"
| update: "server_step \<E> y (y\<lparr>sv := fst (update_weights engine_ok mode weight_dir (sv y))\<rparr>)"
| stage: "server_step \<E> y (await (stage_weights (expanduser \<E>) uuid r (sv y)) y)"
| stream_init_refused:
    "stage_stream_init_open uuid r (sv y) = (s, Inl err) \<Longrightarrow> server_step \<E> y (y\<lparr>sv := s\<rparr>)"
| stream_init_open:
    "stage_stream_init_open uuid r (sv y) = (s, Inr j) \<Longrightarrow>
     server_step \<E> y (y\<lparr>sv := s, initialising := initialising y @ [j]\<rparr>)"
| stream_init_close:
    "initialising y = js @ (f, j) # ks \<Longrightarrow>
     server_step \<E> y (y\<lparr>sv := fst (stage_stream_init_close ids f j (sv y)), initialising := js @ ks\<rparr>)"
| stream_chunk: "server_step \<E> y (y\<lparr>sv := fst (stage_stream_chunk ok r (sv y))\<rparr>)"
| stream_finalize: "server_step \<E> y (await (stage_stream_finalize (sha256 \<E>) r (sv y)) y)"
| chunk: "server_step \<E> y (y\<lparr>sv := fst (stage_chunk ok r (sv y))\<rparr>)"
| finalize: "server_step \<E> y (await (stage_finalize (sha256 \<E>) uuid r (sv y)) y)"
| register:
    "wlock y = Free \<Longrightarrow> waiting y = ps @ pd # qs \<Longrightarrow>
     server_step \<E> y (y\<lparr>sv := fst (finish_register ok pd (sv y)), waiting := ps @ qs\<rparr>)"
| commit_refused:
    "wlock y = Free \<Longrightarrow> commit_begin r (sv y) = (s, Refused err) \<Longrightarrow> server_step \<E> y (y\<lparr>sv := s\<rparr>)"
| commit_active:
    "wlock y = Free \<Longrightarrow> commit_begin r (sv y) = (s, AlreadyActive job) \<Longrightarrow>
     server_step \<E> y (y\<lparr>sv := fst (commit_finish ok job s)\<rparr>)"
| commit_call:
    "wlock y = Free \<Longrightarrow> commit_begin r (sv y) = (s, CallEngine job) \<Longrightarrow>
     server_step \<E> y (y\<lparr>sv := s, wlock := Committing job\<rparr>)"
| commit_returned:
    "wlock y = Committing job \<Longrightarrow>
     server_step \<E> y (y\<lparr>sv := fst (commit_finish ok job (commit_called True job (sv y))), wlock := Free\<rparr>)"
| commit_raised:
    "wlock y = Committing job \<Longrightarrow> server_step \<E> y (y\<lparr>sv := commit_called False job (sv y), wlock := Free\<rparr>)"
| reload_call:
    "wlock y = Free \<Longrightarrow> server_step \<E> y (y\<lparr>sv := reload_begin (sv y), wlock := Reloading relay\<rparr>)"
| reload_returned:
    "wlock y = Reloading relay \<Longrightarrow> server_step \<E> y (y\<lparr>sv := reload_called True (sv y), wlock := Free\<rparr>)"
| reload_raised:
    "wlock y = Reloading relay \<Longrightarrow> server_step \<E> y (y\<lparr>sv := reload_called False (sv y), wlock := Free\<rparr>)"

definition init_system :: "server \<Rightarrow> system" where
  "init_system s = \<lparr>sv = s, wlock = Free, waiting = [], initialising = []\<rparr>"

inductive reachable :: "env \<Rightarrow> server \<Rightarrow> system \<Rightarrow> bool" for \<E> s\<^sub>0 where
  start: "reachable \<E> s\<^sub>0 (init_system s\<^sub>0)"
| step: "reachable \<E> s\<^sub>0 y \<Longrightarrow> server_step \<E> y z \<Longrightarrow> reachable \<E> s\<^sub>0 z"

end
