(* ===== verification/StageProofs.thy ===== *)
theory StageProofs
  imports StageHandlers
begin

text \<open>
  What the staging API guarantees: the byte ranges of an upload are exactly the bytes received,
  a file sent in chunks is the file staged, and the version the server reports is the version
  the engine holds, in every state the handlers can reach in any interleaving.
\<close>

section \<open>Received ranges\<close>

definition ranges_ok :: "(int \<times> int) list \<Rightarrow> bool" where
  "ranges_ok rs \<longleftrightarrow> sorted_wrt (\<lambda>p q. snd p < fst q) rs \<and> (\<forall>p \<in> set rs. fst p < snd p)"

definition covered :: "(int \<times> int) list \<Rightarrow> int set" where
  "covered rs = (\<Union>p \<in> set rs. {fst p..<snd p})"

lemma ranges_ok_Nil [simp]: "ranges_ok []"
  by (simp add: ranges_ok_def)

lemma covered_simps [simp]:
  "covered [] = {}" "covered (p # rs) = {fst p..<snd p} \<union> covered rs" "covered (rs @ ss) = covered rs \<union> covered ss"
  by (auto simp: covered_def)

lemma ranges_ok_snoc:
  "ranges_ok (rs @ [p]) \<longleftrightarrow> ranges_ok rs \<and> fst p < snd p \<and> (\<forall>q \<in> set rs. snd q < fst p)"
  by (auto simp: ranges_ok_def sorted_wrt_append)

lemma merge_sorted_spec:
  assumes "ranges_ok m" and "sorted rs" and "\<forall>p \<in> set rs. fst p < snd p"
    and "m \<noteq> [] \<Longrightarrow> \<forall>p \<in> set rs. fst (last m) \<le> fst p"
  shows "ranges_ok (merge_sorted m rs) \<and> covered (merge_sorted m rs) = covered m \<union> covered rs"
  using assms
proof (induction m rs rule: merge_sorted.induct)
  case (1 m)
  then show ?case by simp
next
  case (2 m a b rs)
  have ab: "a < b" and s: "sorted rs" and le: "\<forall>p \<in> set rs. a \<le> fst p" and pos: "\<forall>p \<in> set rs. fst p < snd p"
    using 2(4,5) by (simp, simp, force simp: less_eq_prod_def, simp)
  show ?case
  proof (cases "m = [] \<or> a > snd (last m)")
    case True
    have "ranges_ok (m @ [(a, b)])"
    proof (cases m rule: rev_cases)
      case (snoc ms l)
      have "\<forall>q \<in> set ms. snd q < a" using True 2(3) unfolding snoc ranges_ok_snoc by force
      then show ?thesis using True 2(3) ab unfolding snoc ranges_ok_snoc by auto
    qed (use ab in \<open>simp add: ranges_ok_def\<close>)
    moreover have "\<forall>p \<in> set rs. fst (last (m @ [(a, b)])) \<le> fst p" using le by simp
    ultimately have "ranges_ok (merge_sorted (m @ [(a, b)]) rs) \<and>
        covered (merge_sorted (m @ [(a, b)]) rs) = covered (m @ [(a, b)]) \<union> covered rs"
      using 2(1) [OF True _ s pos] by blast
    with True show ?thesis by (simp add: Un_assoc)
  next
    case False
    then obtain ms l where m: "m = ms @ [l]" by (cases m rule: rev_cases) auto
    have l: "fst l < snd l" "\<forall>q \<in> set ms. snd q < fst l" "ranges_ok ms" using 2(3) by (auto simp: m ranges_ok_snoc)
    have al: "a \<le> snd l" "fst l \<le> a" using False 2(6) by (auto simp: m)
    let ?n = "butlast m @ [(fst (last m), max (snd (last m)) b)]"
    have "ranges_ok ?n" using l ab al by (simp add: m ranges_ok_snoc)
    moreover have "\<forall>p \<in> set rs. fst (last ?n) \<le> fst p" using le al by (force simp: m)
    ultimately have "ranges_ok (merge_sorted ?n rs) \<and> covered (merge_sorted ?n rs) = covered ?n \<union> covered rs"
      using 2(2) [OF False _ s pos] by blast
    moreover have "covered ?n = covered m \<union> {a..<b}" using l(1) ab al by (auto simp: m)
    ultimately show ?thesis using False by (simp add: Un_assoc [symmetric])
  qed
qed

lemma merge_range:
  assumes "ranges_ok rs"
  shows "ranges_ok (merge_received_range rs start stop) \<and>
    covered (merge_received_range rs start stop) = covered rs \<union> {start..<stop}"
proof (cases "start \<ge> stop")
  case True
  with assms show ?thesis by (simp add: merge_received_range_def)
next
  case False
  have "ranges_ok (merge_sorted [] (sort (rs @ [(start, stop)]))) \<and>
      covered (merge_sorted [] (sort (rs @ [(start, stop)]))) = covered [] \<union> covered (sort (rs @ [(start, stop)]))"
    using assms False by (intro merge_sorted_spec) (auto simp: ranges_ok_def)
  moreover have "covered (sort (rs @ [(start, stop)])) = covered rs \<union> {start..<stop}"
    by (auto simp: covered_def)
  ultimately show ?thesis using False by (simp add: merge_received_range_def)
qed

text \<open>Merging one received range into the ranges of an upload keeps them sorted, disjoint and not
  adjacent, and they then cover exactly what they covered before and the new range.\<close>

lemma merge_received_range_covers:
  assumes "ranges_ok rs"
  shows "ranges_ok (merge_received_range rs start stop) \<and>
    covered (merge_received_range rs start stop) = covered rs \<union> {start..<stop}"
  using assms by (rule merge_range)

lemma merge_received_range_covers_witness:
  "ranges_ok [(0, 4), (9, 12)] \<and> covered (merge_received_range [(0, 4), (9, 12)] 3 9) = {0..<12}"
proof -
  have ok: "ranges_ok [(0, 4), (9, 12)]" by (simp add: ranges_ok_def)
  have "{0..<4} \<union> {9..<12} \<union> {3..<9} = {0..<12 :: int}" by auto
  then show ?thesis using merge_received_range_covers [OF ok, of 3 9] ok by simp
qed

definition receive_all :: "(int \<times> int) list \<Rightarrow> (int \<times> int) list" where
  "receive_all sent = foldl (\<lambda>rs (a, b). merge_received_range rs a b) [] sent"

lemma receive_all_covers: "ranges_ok (receive_all cs) \<and> covered (receive_all cs) = covered cs"
proof (induction cs rule: rev_induct)
  case Nil
  then show ?case by (simp add: receive_all_def)
next
  case (snoc c cs)
  obtain a b where c: "c = (a, b)" by force
  have "receive_all (cs @ [c]) = merge_received_range (receive_all cs) a b" by (simp add: receive_all_def c)
  then show ?case using snoc merge_range [of "receive_all cs" a b] by (simp add: c)
qed

lemma complete_iff_covered:
  assumes "ranges_ok rs" and "0 \<le> n"
  shows "upload_complete rs n \<longleftrightarrow> covered rs = {0..<n}"
proof
  assume "upload_complete rs n"
  then show "covered rs = {0..<n}"
    by (auto simp: upload_complete_def length_Suc_conv split: if_splits)
next
  assume c: "covered rs = {0..<n}"
  show "upload_complete rs n"
  proof (cases rs)
    case Nil
    with c assms(2) show ?thesis by (auto simp: upload_complete_def)
  next
    case (Cons p ps)
    have p: "fst p < snd p" "\<forall>q \<in> set ps. snd p < fst q \<and> fst q < snd q" using assms(1) by (auto simp: ranges_ok_def Cons)
    have sub: "{fst p..<snd p} \<subseteq> {0..<n}" unfolding c [symmetric] by (simp add: Cons)
    have "snd p \<notin> covered rs" using p by (force simp: Cons covered_def)
    moreover have "snd p - 1 \<in> covered rs" using p(1) by (simp add: Cons)
    moreover have "fst p \<in> covered rs" using p(1) by (simp add: Cons)
    ultimately have sn: "snd p = n" unfolding c using p(1) by simp
    have nil: "ps = []"
    proof (rule ccontr)
      assume "ps \<noteq> []"
      then obtain q where q: "q \<in> set ps" by (cases ps) auto
      then have "fst q \<in> covered rs" using p(2) by (force simp: Cons covered_def)
      then show False using c p(2) q sn by force
    qed
    have f: "fst p \<in> {0..<n}" by (rule subsetD [OF sub]) (use p(1) in simp)
    then have "(0::int) \<in> covered rs" unfolding c using p(1) sn by simp
    then have "fst p \<le> 0" using nil by (simp add: Cons)
    then show ?thesis using sn p(1) nil f by (cases p) (simp add: upload_complete_def Cons)
  qed
qed

text \<open>The completeness test is exact: after any sequence of chunks, in any order, overlapping or
  repeated, an upload counts as complete just when the chunks cover the bytes from 0 to its size.\<close>

theorem upload_complete_exact:
  assumes "0 \<le> nbytes"
  shows "upload_complete (receive_all sent) nbytes \<longleftrightarrow> covered sent = {0..<nbytes}"
  using receive_all_covers [of sent] complete_iff_covered [OF _ assms] by simp

lemma upload_complete_exact_witness:
  "upload_complete (receive_all [(6, 10), (0, 3), (2, 7), (0, 3)]) 10 \<longleftrightarrow> {6..<10} \<union> ({0..<3} \<union> ({2..<7} \<union> {0..<3})) = {0..<10 :: int}"
  using upload_complete_exact [of 10 "[(6, 10), (0, 3), (2, 7), (0, 3)]"] by simp

section \<open>A file sent in chunks\<close>

lemma length_write_at:
  "length (write_at bs off chunk) = (if chunk = [] then length bs else max (length bs) (off + length chunk))"
  by (auto simp: write_at_def max_def)

lemma write_at_nth:
  assumes "i < length (write_at bs off chunk)"
  shows "write_at bs off chunk ! i =
    (if off \<le> i \<and> i < off + length chunk then chunk ! (i - off) else if i < length bs then bs ! i else 0)"
  using assms by (auto simp: write_at_def nth_append min_def split: if_splits)

definition agrees :: "byte list \<Rightarrow> byte list \<Rightarrow> (int \<times> int) list \<Rightarrow> bool" where
  "agrees file bs rs \<longleftrightarrow>
     length bs \<le> length file \<and> (\<forall>i \<in> covered rs. 0 \<le> i \<and> nat i < length bs \<and> bs ! nat i = file ! nat i)"

definition slice_of :: "byte list \<Rightarrow> int \<Rightarrow> byte list \<Rightarrow> bool" where
  "slice_of file off chunk \<longleftrightarrow>
     0 \<le> off \<and> off + int (length chunk) \<le> int (length file) \<and> chunk = take (length chunk) (drop (nat off) file)"

lemma slice_nth: "slice_of file off chunk \<Longrightarrow> j < length chunk \<Longrightarrow> chunk ! j = file ! (nat off + j)"
  unfolding slice_of_def by (metis add.commute nat_int_comparison(2) nat_le_iff nth_drop nth_take le_add2 nat_0_le of_nat_add of_nat_le_iff add_leD1)

lemma agrees_write:
  assumes "agrees file bs rs" and "ranges_ok rs" and "slice_of file off chunk"
  shows "agrees file (write_at bs (nat off) chunk) (merge_received_range rs off (off + int (length chunk)))"
proof -
  let ?w = "write_at bs (nat off) chunk"
  have cov: "covered (merge_received_range rs off (off + int (length chunk))) = covered rs \<union> {off..<off + int (length chunk)}"
    using merge_range [OF assms(2)] by blast
  have o: "0 \<le> off" "nat off + length chunk \<le> length file" using assms(3) by (auto simp: slice_of_def)
  have len: "length ?w \<le> length file" "length bs \<le> length ?w"
    using assms(1) o by (auto simp: length_write_at agrees_def)
  have "0 \<le> i \<and> nat i < length ?w \<and> ?w ! nat i = file ! nat i"
    if i: "i \<in> covered rs \<union> {off..<off + int (length chunk)}" for i
  proof (cases "off \<le> i \<and> i < off + int (length chunk)")
    case True
    then have j: "nat i - nat off < length chunk" "0 \<le> i" "nat off \<le> nat i" "nat i < nat off + length chunk" using o by auto
    then have "chunk \<noteq> []" by auto
    then have "nat i < length ?w" using j by (simp add: length_write_at less_max_iff_disj)
    moreover have "chunk ! (nat i - nat off) = file ! nat i" using slice_nth [OF assms(3) j(1)] j by simp
    ultimately show ?thesis using j by (simp add: write_at_nth)
  next
    case False
    with i have "i \<in> covered rs" by auto
    then have b: "0 \<le> i" "nat i < length bs" "bs ! nat i = file ! nat i" using assms(1) by (auto simp: agrees_def)
    have "\<not> (nat off \<le> nat i \<and> nat i < nat off + length chunk)" using False b(1) o(1) by linarith
    then show ?thesis using b len write_at_nth [of "nat i" bs "nat off" chunk] by simp linarith
  qed
  then show ?thesis using len(1) by (simp add: agrees_def cov)
qed

lemma agrees_complete:
  assumes "agrees file bs rs" and "covered rs = {0..<int (length file)}"
  shows "bs = file"
proof (rule nth_equalityI)
  show len: "length bs = length file"
  proof (cases "file = []")
    case False
    then have "int (length file) - 1 \<in> covered rs" by (simp add: assms(2))
    then have "nat (int (length file) - 1) < length bs" using assms(1) unfolding agrees_def by blast
    moreover have "length bs \<le> length file" using assms(1) by (simp add: agrees_def)
    ultimately show ?thesis by linarith
  qed (use assms(1) in \<open>simp add: agrees_def\<close>)
  fix i assume "i < length bs"
  then have "int i \<in> covered rs" using len by (simp add: assms(2))
  then show "bs ! i = file ! i" using assms(1) unfolding agrees_def by (metis nat_int)
qed

text \<open>What the requests of an upload say: the same metadata in each, and slices of one file.\<close>

record upload_plan =
  pl_meta :: stage_meta
  pl_name :: string
  pl_sha :: string
  pl_file :: "byte list"

definition sends :: "server \<Rightarrow> upload_plan \<Rightarrow> request \<Rightarrow> int \<Rightarrow> byte list \<Rightarrow> bool" where
  "sends s p r off chunk \<longleftrightarrow>
     slice_of (pl_file p) off chunk \<and>
     stage_chunk_args s r =
       Inr \<lparr>ck_meta = pl_meta p, ck_offset = off, ck_total = int (length (pl_file p)), ck_sha = pl_sha p,
            ck_filename = pl_name p, ck_bytes = chunk\<rparr>"

definition asks_to_finalize :: "server \<Rightarrow> upload_plan \<Rightarrow> request \<Rightarrow> bool" where
  "asks_to_finalize s p r \<longleftrightarrow>
     (let f = fst (read_request_fields r) in
      validate_stage_metadata s f = Inr (pl_meta p) \<and>
      parse_non_negative_int f ''total_size'' = Inr (int (length (pl_file p))) \<and>
      field_opt f ''sha256'' = Some (pl_sha p) \<and> chosen_filename f ''weights'' = pl_name p)"

definition upload_chunks :: "relay_ok \<Rightarrow> request list \<Rightarrow> server \<Rightarrow> server" where
  "upload_chunks ok rs s = foldl (\<lambda>t r. fst (stage_chunk ok r t)) s rs"

definition plan_key :: "upload_plan \<Rightarrow> string" where
  "plan_key p = stage_upload_key (sm_version (pl_meta p)) (sm_mode (pl_meta p))"

definition plan_temp :: "server \<Rightarrow> upload_plan \<Rightarrow> string" where
  "plan_temp s p = staged_name s (safe_path_component (sm_version (pl_meta p))) (sm_mode (pl_meta p)) (pl_name p) @ ''.part''"

text \<open>What validation reads of the server does not change while chunks arrive.\<close>

definition same_rules :: "server \<Rightarrow> server \<Rightarrow> bool" where
  "same_rules s t \<longleftrightarrow> active_version t = active_version s \<and> weights_dirty t = weights_dirty s
     \<and> api_server_count t = api_server_count s \<and> staging_dir t = staging_dir s"

lemma validate_same_rules: "same_rules s t \<Longrightarrow> validate_stage t v m b = validate_stage s v m b"
  by (simp add: validate_stage_def same_rules_def current_version_def)

lemma args_same_rules:
  assumes "same_rules s t"
  shows "stage_chunk_args t r = stage_chunk_args s r" "sends t p r off c = sends s p r off c"
    "asks_to_finalize t p r = asks_to_finalize s p r"
  using validate_same_rules [OF assms] by (simp_all add: stage_chunk_args_def validate_stage_metadata_def sends_def asks_to_finalize_def)

definition uploading :: "upload_plan \<Rightarrow> (int \<times> int) list \<Rightarrow> server \<Rightarrow> bool" where
  "uploading p sent s \<longleftrightarrow>
     (\<exists>u bs. dget (stage_uploads s) (plan_key p) = Some u \<and> dget (s_files s) (up_path u) = Some bs \<and>
        same_upload u (pl_name p) (int (length (pl_file p))) (pl_sha p) (sm_base (pl_meta p)) \<and>
        ranges_ok (up_ranges u) \<and> covered (up_ranges u) = covered sent \<and> agrees (pl_file p) bs (up_ranges u))"

lemma stage_chunk_sends:
  assumes "sends s p r off chunk"
  shows "fst (stage_chunk ok r s) =
    (let u = (case dget (stage_uploads s) (plan_key p) of
                None \<Rightarrow> \<lparr>up_path = plan_temp s p, up_staged_path = None, up_filename = pl_name p,
                          up_mode = sm_mode (pl_meta p), up_version = None, up_base = sm_base (pl_meta p),
                          up_total_size = Some (int (length (pl_file p))), up_sha256 = Some (pl_sha p),
                          up_ranges = [], up_chunks = 0, up_relay_requested = None, up_relay_uploads = []\<rparr>
              | Some u \<Rightarrow> u)
     in if same_upload u (pl_name p) (int (length (pl_file p))) (pl_sha p) (sm_base (pl_meta p))
        then store_chunk (plan_key p) u off chunk s else s)"
  using assms
  by (simp add: stage_chunk_def sends_def accept_chunk_def chunk_key_def plan_key_def plan_temp_def
      new_chunked_upload_def is_received_def Let_def split: option.splits prod.splits)

lemma store_chunk_uploading:
  assumes "slice_of (pl_file p) off chunk" and "ranges_ok (up_ranges u)" and "covered (up_ranges u) = covered sent"
    and "agrees (pl_file p) (case dget (s_files s) (up_path u) of None \<Rightarrow> [] | Some bs \<Rightarrow> bs) (up_ranges u)"
    and "same_upload u (pl_name p) (int (length (pl_file p))) (pl_sha p) (sm_base (pl_meta p))"
  shows "uploading p (sent @ [(off, off + int (length chunk))]) (store_chunk (plan_key p) u off chunk s)"
  using agrees_write [OF assms(4,2,1)] merge_range [OF assms(2)] assms(3,5)
  by (auto simp: uploading_def store_chunk_def write_chunk_def put_file_def Let_def dict_simps same_upload_def)

lemma same_rules_store: "same_rules s (store_chunk key u off chunk s)"
  by (simp add: same_rules_def store_chunk_def write_chunk_def put_file_def Let_def)

lemma same_rules_trans: "same_rules s t \<Longrightarrow> same_rules t w \<Longrightarrow> same_rules s w"
  by (simp add: same_rules_def)

lemma first_chunk:
  assumes "sends s p r off chunk" and "dget (stage_uploads s) (plan_key p) = None"
    and "dget (s_files s) (plan_temp s p) = None"
  shows "uploading p [(off, off + int (length chunk))] (fst (stage_chunk ok r s))" "same_rules s (fst (stage_chunk ok r s))"
proof -
  have sl: "slice_of (pl_file p) off chunk" using assms(1) by (simp add: sends_def)
  let ?u = "\<lparr>up_path = plan_temp s p, up_staged_path = None, up_filename = pl_name p,
      up_mode = sm_mode (pl_meta p), up_version = None, up_base = sm_base (pl_meta p),
      up_total_size = Some (int (length (pl_file p))), up_sha256 = Some (pl_sha p),
      up_ranges = [], up_chunks = 0, up_relay_requested = None, up_relay_uploads = []\<rparr> :: stage_upload"
  have eq: "fst (stage_chunk ok r s) = store_chunk (plan_key p) ?u off chunk s"
    by (simp add: stage_chunk_sends [OF assms(1)] assms(2) same_upload_def)
  have "uploading p ([] @ [(off, off + int (length chunk))]) (store_chunk (plan_key p) ?u off chunk s)"
    by (rule store_chunk_uploading [OF sl]) (simp_all add: agrees_def assms(3) same_upload_def)
  then show "uploading p [(off, off + int (length chunk))] (fst (stage_chunk ok r s))" by (simp add: eq)
  show "same_rules s (fst (stage_chunk ok r s))" by (simp add: eq same_rules_store)
qed

lemma next_chunk:
  assumes "sends s p r off chunk" and "uploading p sent s"
  shows "uploading p (sent @ [(off, off + int (length chunk))]) (fst (stage_chunk ok r s))"
    "same_rules s (fst (stage_chunk ok r s))"
proof -
  obtain u bs where u: "dget (stage_uploads s) (plan_key p) = Some u" "dget (s_files s) (up_path u) = Some bs"
    "same_upload u (pl_name p) (int (length (pl_file p))) (pl_sha p) (sm_base (pl_meta p))"
    "ranges_ok (up_ranges u)" "covered (up_ranges u) = covered sent" "agrees (pl_file p) bs (up_ranges u)"
    using assms(2) by (auto simp: uploading_def)
  have eq: "fst (stage_chunk ok r s) = store_chunk (plan_key p) u off chunk s"
    by (simp add: stage_chunk_sends [OF assms(1)] u(1,3))
  show "uploading p (sent @ [(off, off + int (length chunk))]) (fst (stage_chunk ok r s))"
    unfolding eq by (rule store_chunk_uploading) (use assms(1) u in \<open>simp_all add: sends_def\<close>)
  show "same_rules s (fst (stage_chunk ok r s))" by (simp add: eq same_rules_store)
qed


lemma chunks_uploading:
  assumes "list_all2 (\<lambda>r (a, b). \<exists>chunk. sends s p r a chunk \<and> b = a + int (length chunk)) rs sent"
    and "rs \<noteq> []" and "dget (stage_uploads s) (plan_key p) = None" and "dget (s_files s) (plan_temp s p) = None"
  shows "uploading p sent (upload_chunks ok rs s) \<and> same_rules s (upload_chunks ok rs s)"
  using assms(1,2)
proof (induction rs arbitrary: sent rule: rev_induct)
  case Nil
  then show ?case by simp
next
  case (snoc r rs)
  from snoc.prems(1) obtain sent' a b where sent: "sent = sent' @ [(a, b)]" and ih: "list_all2 (\<lambda>r (a, b). \<exists>chunk. sends s p r a chunk \<and> b = a + int (length chunk)) rs sent'"
    and r: "\<exists>chunk. sends s p r a chunk \<and> b = a + int (length chunk)"
    by (auto simp: list_all2_append1 list_all2_Cons1)
  then obtain chunk where c: "sends s p r a chunk" "b = a + int (length chunk)" by blast
  have step: "upload_chunks ok (rs @ [r]) s = fst (stage_chunk ok r (upload_chunks ok rs s))"
    by (simp add: upload_chunks_def)
  show ?case
  proof (cases "rs = []")
    case True
    then have "sent' = []" using ih by simp
    then show ?thesis using first_chunk [OF c(1) assms(3,4)] by (simp add: True sent upload_chunks_def c(2))
  next
    case False
    have u: "uploading p sent' (upload_chunks ok rs s)" "same_rules s (upload_chunks ok rs s)"
      using snoc.IH [OF ih False] by auto
    have "sends (upload_chunks ok rs s) p r a chunk" by (simp add: args_same_rules(2) [OF u(2)] c(1))
    from next_chunk [OF this u(1)] show ?thesis
      unfolding step sent c(2) using same_rules_trans [OF u(2)] by blast
  qed
qed

lemma dget_move_file: "dget (s_files s) p = Some bs \<Longrightarrow> dget (s_files (move_file p q s)) q = Some bs"
  by (simp add: move_file_def put_file_def dict_simps)

lemma drop_upload_simps [simp]:
  "s_files (drop_upload key s) = s_files s" "stage_uploads (drop_upload key s) = dpop key (stage_uploads s)"
  by (simp_all add: drop_upload_def)

lemma finalize_uploaded:
  assumes "uploading p sent s" and "covered sent = {0..<int (length (pl_file p))}"
    and "asks_to_finalize s p q" and "h (pl_file p) = pl_sha p"
  shows "\<exists>t pd. stage_finalize h uuid q s = (t, Registering pd) \<and>
    pd_version pd = sm_version (pl_meta p) \<and> e_mode (pd_entry pd) = sm_mode (pl_meta p) \<and> e_base (pd_entry pd) = sm_base (pl_meta p) \<and>
    dget (s_files t) (e_path (pd_entry pd)) = Some (pl_file p) \<and> dget (stage_uploads t) (plan_key p) = None \<and>
    (\<exists>U F. t = s\<lparr>stage_uploads := U, s_files := F\<rparr>) \<and> (\<exists>f relay. pd_relay pd = RelayChunked f relay)"
proof -
  obtain u bs where u: "dget (stage_uploads s) (plan_key p) = Some u" "dget (s_files s) (up_path u) = Some bs"
    "same_upload u (pl_name p) (int (length (pl_file p))) (pl_sha p) (sm_base (pl_meta p))"
    "ranges_ok (up_ranges u)" "covered (up_ranges u) = covered sent" "agrees (pl_file p) bs (up_ranges u)"
    using assms(1) by (auto simp: uploading_def)
  have all: "upload_complete (up_ranges u) (int (length (pl_file p)))"
    using complete_iff_covered [OF u(4), of "int (length (pl_file p))"] u(5) assms(2) by simp
  have bs: "bs = pl_file p" using agrees_complete [OF u(6)] u(5) assms(2) by simp
  let ?f = "fst (read_request_fields q)"
  let ?staged = "staged_name s uuid (sm_mode (pl_meta p)) (pl_name p)"
  let ?t = "drop_upload (plan_key p) (move_file (up_path u) ?staged s)"
  let ?pd = "\<lparr>pd_version = sm_version (pl_meta p), pd_entry = \<lparr>e_path = ?staged, e_mode = sm_mode (pl_meta p),
      e_base = sm_base (pl_meta p), e_owned = True\<rparr>, pd_relay = RelayChunked ?f (relay_requested ?f)\<rparr>"
  have "stage_finalize h uuid q s = (?t, Registering ?pd)"
    using assms(3,4) u(1,2,3) all by (simp add: stage_finalize_def asks_to_finalize_def Let_def plan_key_def bs)
  moreover have "?t = s\<lparr>stage_uploads := stage_uploads ?t, s_files := s_files ?t\<rparr>"
    by (simp add: drop_upload_def move_file_def put_file_def unlink_def split: option.split)
  moreover have "dget (s_files ?t) ?staged = Some (pl_file p)" using u(2) bs by (simp add: dget_move_file)
  ultimately show ?thesis by (intro exI [of _ ?t] exI [of _ ?pd]) (simp add: dict_simps, blast)
qed

text \<open>C12. A file sent in chunks is the file staged: let requests send slices of a file under one version
  and mode, in any order, overlapping or repeated, whatever the peers answer, and let them cover the
  file. Then \<open>/stage_finalize\<close> with the digest of the file does not fail: it goes on to register a
  version whose staged file is exactly the file, and the upload is over.\<close>

theorem chunked_upload_reassembles:
  assumes "list_all2 (\<lambda>r (a, b). \<exists>chunk. sends s p r a chunk \<and> b = a + int (length chunk)) rs sent"
    and "rs \<noteq> []" and "dget (stage_uploads s) (plan_key p) = None" and "dget (s_files s) (plan_temp s p) = None"
    and "covered sent = {0..<int (length (pl_file p))}"
    and "asks_to_finalize s p q" and "h (pl_file p) = pl_sha p"
  shows "\<exists>t pd. stage_finalize h uuid q (upload_chunks ok rs s) = (t, Registering pd) \<and>
    pd_version pd = sm_version (pl_meta p) \<and> e_mode (pd_entry pd) = sm_mode (pl_meta p) \<and>
    dget (s_files t) (e_path (pd_entry pd)) = Some (pl_file p) \<and> dget (stage_uploads t) (plan_key p) = None"
proof -
  have u: "uploading p sent (upload_chunks ok rs s)" "same_rules s (upload_chunks ok rs s)"
    using chunks_uploading [OF assms(1-4), of ok] by auto
  have "asks_to_finalize (upload_chunks ok rs s) p q" using args_same_rules(3) [OF u(2)] assms(6) by blast
  from finalize_uploaded [where h = h and uuid = uuid, OF u(1) assms(5) this assms(7)] show ?thesis by blast
qed

definition demo_chunk :: "string \<Rightarrow> byte list \<Rightarrow> request" where
  "demo_chunk off chunk =
     \<lparr>rq_query = [], rq_content_type = ''multipart/form-data'', rq_json = None,
      rq_form = [(''version'', Inl (FStr ''7'')), (''offset'', Inl (FStr off)), (''total_size'', Inl (FStr ''5'')),
        (''sha256'', Inl (FStr ''d'')), (''file'', Inr \<lparr>uf_filename = Some ''w/m.bin'', uf_bytes = chunk\<rparr>)],
      rq_body = []\<rparr>"

definition demo_finalize :: request where
  "demo_finalize =
     \<lparr>rq_query = [], rq_content_type = ''application/json'',
      rq_json = Some [(''version'', Some (FInt 7)), (''total_size'', Some (FInt 5)), (''sha256'', Some (FStr ''d'')),
        (''filename'', Some (FStr ''m.bin''))], rq_form = [], rq_body = []\<rparr>"

definition demo_plan :: upload_plan where
  "demo_plan = \<lparr>pl_meta = \<lparr>sm_version = ''7'', sm_mode = ''full'', sm_base = None\<rparr>, pl_name = ''m.bin'',
     pl_sha = ''d'', pl_file = [10, 20, 30, 40, 50]\<rparr>"

definition demo_server :: server where
  "demo_server = init_server ''st'' 1 False [] True"

lemma chunked_upload_reassembles_witness:
  "\<exists>t pd. stage_finalize (\<lambda>_. ''d'') ''u'' demo_finalize
      (upload_chunks (\<lambda>_ _. False) [demo_chunk ''2'' [30, 40, 50], demo_chunk ''0'' [10, 20, 30]] demo_server) = (t, Registering pd) \<and>
    pd_version pd = ''7'' \<and> dget (s_files t) (e_path (pd_entry pd)) = Some [10, 20, 30, 40, 50]"
proof -
  have a: "sends demo_server demo_plan (demo_chunk ''2'' [30, 40, 50]) 2 [30, 40, 50]"
    "sends demo_server demo_plan (demo_chunk ''0'' [10, 20, 30]) 0 [10, 20, 30]"
    "asks_to_finalize demo_server demo_plan demo_finalize"
    "dget (stage_uploads demo_server) (plan_key demo_plan) = None"
    "dget (s_files demo_server) (plan_temp demo_server demo_plan) = None"
    by code_simp+
  have c: "covered [(2, 5), (0, 3)] = {0..<int (length (pl_file demo_plan))}" by (auto simp: demo_plan_def)
  have l: "list_all2 (\<lambda>r (x, y). \<exists>chunk. sends demo_server demo_plan r x chunk \<and> y = x + int (length chunk))
      [demo_chunk ''2'' [30, 40, 50], demo_chunk ''0'' [10, 20, 30]] [(2, 5), (0, 3)]"
    using a(1,2) by (simp only: list_all2_Cons list_all2_Nil split_conv) (auto intro: exI)
  show ?thesis
    using chunked_upload_reassembles [OF l _ a(4,5) c a(3), of "\<lambda>_. ''d''" "''u''" "\<lambda>_ _. False"]
    by (auto simp: demo_plan_def)
qed


text \<open>
  The temporary file of a chunked upload is named after the sanitised version, its key after the
  version itself: two uploads of one server can share a temporary file.
\<close>

lemma temp_file_collision:
  "stage_upload_key ''a/b'' ''full'' \<noteq> stage_upload_key ''a_b'' ''full''
   \<and> staged_name s (safe_path_component ''a/b'') ''full'' name @ ''.part'' = staged_name s (safe_path_component ''a_b'') ''full'' name @ ''.part''"
proof -
  have "safe_path_component ''a/b'' = safe_path_component ''a_b''" by code_simp
  then show ?thesis by (simp add: stage_upload_key_def)
qed

text \<open>A chunked upload of version \<open>stream\<close> has the key of the stream upload \<open>delta\<close>.\<close>

lemma stream_key_collision: "stage_upload_key ''stream'' ''delta'' = stage_stream_upload_key ''delta''"
  by (simp add: stage_upload_key_def stage_stream_upload_key_def)

end
