(* ===== verification/Batch.thy ===== *)
theory Batch
  imports Prelude "HOL-Library.Multiset"
begin

text \<open>
  Training samples and micro batches (\<open>transport/types.py\<close>) and their packing
  (\<open>trainer/batch.py\<close>): preparing a sample, first-fit-decreasing packing into micro batches,
  padding, and the grid of micro batches for the ranks. Floats are only moved, so they are kept as
  their 64 bits. Lists are values: the code extends them in place, but no list it extends is read
  again through another name.
\<close>

section \<open>Data\<close>

type_synonym float64 = "64 word"

definition f_zero :: float64 where "f_zero = 0"
definition f_one :: float64 where "f_one = 0x3FF0000000000000"
definition f_nan :: float64 where "f_nan = 0x7FF8000000000000"

datatype training_mode = Rl | Opd | Sft

record encoded_tensor =
  et_dtype :: string
  et_shape :: "nat list"
  et_data :: "8 word list"

record routed_experts =
  re_data :: "8 word list"
  re_shape :: "nat list"
  re_dtype :: string

record training_sample =
  ts_prompt_ids :: "int list"
  ts_prompt_mask :: "bool list"
  ts_completion_ids :: "int list"
  ts_completion_mask :: "bool list"
  ts_completion_logprobs :: "float64 list"
  ts_completion_temperatures :: "float64 list"
  ts_env_name :: string
  ts_teacher_logprobs :: "float64 list option"
  ts_advantage :: "float64 option"
  ts_reward :: "float64 option"
  ts_mm_kwargs :: "(string, encoded_tensor) dict option"
  ts_routed_experts :: "routed_experts option"
  ts_mm_token_type_ids :: "int list option"
  ts_training_mode :: training_mode

record training_batch =
  tb_examples :: "training_sample list"
  tb_step :: int
  tb_run_idx :: "nat option"

record micro_batch =
  mb_input_ids :: "int list"
  mb_loss_mask :: "bool list"
  mb_advantages :: "float64 option list"
  mb_inference_logprobs :: "float64 list"
  mb_position_ids :: "int list"
  mb_temperatures :: "float64 list"
  mb_env_names :: "string list"
  mb_teacher_logprobs :: "float64 list option"
  mb_lora_num_tokens :: "nat list option"
  mb_routed_experts :: "routed_experts option"
  mb_mm_kwargs :: "(string, encoded_tensor) dict option"
  mb_mm_token_type_ids :: "int list option"
  mb_training_mode :: training_mode
  mb_rewards :: "float64 list option"

section \<open>Routed experts\<close>

definition routed_itemsize :: "string \<Rightarrow> nat res" where
  "routed_itemsize dtype =
     (if dtype = ''uint8'' then Inr 1 else if dtype = ''int16'' then Inr 2
      else if dtype = ''int32'' then Inr 4 else Inl (KeyError dtype))"

definition routed_experts_row_size :: "routed_experts \<Rightarrow> nat res" where
  "routed_experts_row_size re =
     bindR (ensure (2 < length (re_shape re)) (IndexError ''list index out of range'')) (\<lambda>_.
     bindR (routed_itemsize (re_dtype re)) (\<lambda>n. Inr (re_shape re ! 1 * re_shape re ! 2 * n)))"

definition slice_routed_experts :: "routed_experts \<Rightarrow> nat \<Rightarrow> routed_experts res" where
  "slice_routed_experts re seq_len =
     bindR (routed_experts_row_size re) (\<lambda>row_size.
     Inr \<lparr>re_data = take (seq_len * row_size) (re_data re),
          re_shape = [seq_len, re_shape re ! 1, re_shape re ! 2], re_dtype = re_dtype re\<rparr>)"

definition append_routed_experts :: "routed_experts \<Rightarrow> routed_experts \<Rightarrow> routed_experts res" where
  "append_routed_experts dst src =
     bindR (ensure (re_dtype dst = re_dtype src) (AssertionError ''dtype'')) (\<lambda>_.
     bindR (ensure (tl (re_shape dst) = tl (re_shape src)) (AssertionError ''shape'')) (\<lambda>_.
     bindR (ensure (re_shape dst \<noteq> [] \<and> re_shape src \<noteq> []) (IndexError ''list index out of range'')) (\<lambda>_.
     Inr (dst\<lparr>re_data := re_data dst @ re_data src,
              re_shape := (hd (re_shape dst) + hd (re_shape src)) # tl (re_shape dst)\<rparr>))))"

definition pad_routed_experts :: "routed_experts \<Rightarrow> nat \<Rightarrow> routed_experts res" where
  "pad_routed_experts re padding_size =
     bindR (routed_experts_row_size re) (\<lambda>row_size.
     Inr (re\<lparr>re_data := re_data re @ replicate (padding_size * row_size) 0,
             re_shape := (hd (re_shape re) + padding_size) # tl (re_shape re)\<rparr>))"

text \<open>\<open>None\<close> is passed through.\<close>

fun optR :: "('a \<Rightarrow> 'e + 'b) \<Rightarrow> 'a option \<Rightarrow> 'e + 'b option" where
  "optR f None = Inr None"
| "optR f (Some x) = bindR (f x) (\<lambda>y. Inr (Some y))"

section \<open>Preparing a sample\<close>

definition check_routed :: "nat \<Rightarrow> routed_experts \<Rightarrow> unit res" where
  "check_routed n re =
     bindR (ensure (re_shape re \<noteq> []) (IndexError ''list index out of range'')) (\<lambda>_.
     bindR (ensure (hd (re_shape re) = n) (AssertionError ''routed_experts'')) (\<lambda>_.
     bindR (routed_experts_row_size re) (\<lambda>row_size.
     ensure (length (re_data re) = n * row_size) (AssertionError ''routed_experts data''))))"

definition cut :: "bool \<Rightarrow> nat \<Rightarrow> 'a list \<Rightarrow> 'a list" where
  "cut too_long seq_len xs = (if too_long then take seq_len xs else xs)"

definition opt_length :: "nat \<Rightarrow> 'a list option \<Rightarrow> bool" where
  "opt_length n xs = (case xs of None \<Rightarrow> True | Some ys \<Rightarrow> length ys = n)"

definition prepare_sample :: "training_sample \<Rightarrow> nat \<Rightarrow> micro_batch res" where
  "prepare_sample ex seq_len =
     (let input_ids = ts_prompt_ids ex @ ts_completion_ids ex;
          n = length input_ids;
          loss_mask = ts_prompt_mask ex @ ts_completion_mask ex;
          logprobs = replicate (length (ts_prompt_ids ex)) f_zero @ ts_completion_logprobs ex;
          reward = (case ts_reward ex of None \<Rightarrow> f_nan | Some r \<Rightarrow> r);
          prompt_temp = (case ts_completion_temperatures ex of [] \<Rightarrow> f_one | t # _ \<Rightarrow> t);
          temperatures = replicate (length (ts_prompt_ids ex)) prompt_temp @ ts_completion_temperatures ex;
          too_long = n > seq_len;
          len = (if too_long then seq_len else n);
          mask = cut too_long seq_len loss_mask;
          lps = cut too_long seq_len logprobs;
          temps = cut too_long seq_len temperatures;
          teacher = map_option (cut too_long seq_len) (ts_teacher_logprobs ex);
          types = map_option (cut too_long seq_len) (ts_mm_token_type_ids ex) in
      bindR (ensure (ts_env_name ex \<noteq> ''all'') (AssertionError ''env_name'')) (\<lambda>_.
      bindR (if too_long then optR (\<lambda>re. slice_routed_experts re seq_len) (ts_routed_experts ex)
             else Inr (ts_routed_experts ex)) (\<lambda>routed.
      bindR (ensure (length mask = len \<and> length lps = len \<and> length temps = len) (AssertionError ''lengths'')) (\<lambda>_.
      bindR (ensure (opt_length len teacher) (AssertionError ''teacher_logprobs'')) (\<lambda>_.
      bindR (case routed of None \<Rightarrow> Inr () | Some re \<Rightarrow> check_routed len re) (\<lambda>_.
      bindR (ensure (opt_length len types) (AssertionError ''mm_token_type_ids'')) (\<lambda>_.
      Inr \<lparr>mb_input_ids = cut too_long seq_len input_ids, mb_loss_mask = mask,
           mb_advantages = replicate len (ts_advantage ex), mb_inference_logprobs = lps,
           mb_position_ids = map int [0..<len], mb_temperatures = temps,
           mb_env_names = replicate len (ts_env_name ex), mb_teacher_logprobs = teacher,
           mb_lora_num_tokens = None, mb_routed_experts = routed, mb_mm_kwargs = ts_mm_kwargs ex,
           mb_mm_token_type_ids = types, mb_training_mode = ts_training_mode ex,
           mb_rewards = Some (replicate len reward)\<rparr>)))))))"

section \<open>Packing\<close>

definition is_multimodal_sample :: "micro_batch \<Rightarrow> bool" where
  "is_multimodal_sample b \<longleftrightarrow> mb_mm_kwargs b \<noteq> None"

abbreviation mb_length :: "micro_batch \<Rightarrow> nat" where
  "mb_length b \<equiv> length (mb_input_ids b)"

text \<open>\<open>xs[i] += n\<close> on an optional list.\<close>

definition add_at :: "nat \<Rightarrow> nat \<Rightarrow> nat list option \<Rightarrow> nat list option res" where
  "add_at i n xs =
     (case xs of
        None \<Rightarrow> Inl (TypeError ''NoneType'')
      | Some ys \<Rightarrow> if i < length ys then Inr (Some (ys[i := ys ! i + n])) else Inl (IndexError ''list index out of range''))"

definition open_bin :: "nat \<Rightarrow> nat \<Rightarrow> micro_batch \<Rightarrow> micro_batch res" where
  "open_bin num_loras idx s =
     bindR (ensure (idx < num_loras) (IndexError ''list assignment index out of range'')) (\<lambda>_.
     Inr (s\<lparr>mb_lora_num_tokens := Some ((replicate num_loras 0)[idx := mb_length s])\<rparr>))"

definition fits :: "nat \<Rightarrow> micro_batch \<Rightarrow> micro_batch \<Rightarrow> bool" where
  "fits max_seq_len b s \<longleftrightarrow>
     mb_length b + mb_length s \<le> max_seq_len \<and> mb_training_mode b = mb_training_mode s"

definition merge_rewards :: "micro_batch \<Rightarrow> micro_batch \<Rightarrow> float64 list option" where
  "merge_rewards b s =
     (case mb_rewards s of
        Some rs \<Rightarrow> Some ((case mb_rewards b of None \<Rightarrow> replicate (mb_length b) f_nan | Some x \<Rightarrow> x) @ rs)
      | None \<Rightarrow> map_option (\<lambda>x. x @ replicate (mb_length s) f_nan) (mb_rewards b))"

definition extend_opt :: "'a list option \<Rightarrow> 'a list option \<Rightarrow> 'a list option" where
  "extend_opt b s =
     (case s of None \<Rightarrow> b | Some xs \<Rightarrow> Some ((case b of None \<Rightarrow> [] | Some x \<Rightarrow> x) @ xs))"

definition merge_routed :: "routed_experts option \<Rightarrow> routed_experts option \<Rightarrow> routed_experts option res" where
  "merge_routed b s =
     bindR (ensure ((b = None) = (s = None)) (AssertionError ''routed_experts'')) (\<lambda>_.
     case (b, s) of
       (Some d, Some r) \<Rightarrow> bindR (append_routed_experts d r) (\<lambda>x. Inr (Some x))
     | _ \<Rightarrow> Inr b)"

definition add_to_bin :: "nat \<Rightarrow> micro_batch \<Rightarrow> micro_batch \<Rightarrow> micro_batch res" where
  "add_to_bin idx b s =
     bindR (merge_routed (mb_routed_experts b) (mb_routed_experts s)) (\<lambda>routed.
     bindR (add_at idx (mb_length s) (mb_lora_num_tokens b)) (\<lambda>loras.
     Inr (b\<lparr>mb_input_ids := mb_input_ids b @ mb_input_ids s,
           mb_loss_mask := mb_loss_mask b @ mb_loss_mask s,
           mb_advantages := mb_advantages b @ mb_advantages s,
           mb_rewards := merge_rewards b s,
           mb_inference_logprobs := mb_inference_logprobs b @ mb_inference_logprobs s,
           mb_temperatures := mb_temperatures b @ mb_temperatures s,
           mb_teacher_logprobs := extend_opt (mb_teacher_logprobs b) (mb_teacher_logprobs s),
           mb_routed_experts := routed,
           mb_mm_token_type_ids := extend_opt (mb_mm_token_type_ids b) (mb_mm_token_type_ids s),
           mb_env_names := mb_env_names b @ mb_env_names s,
           mb_position_ids := mb_position_ids b @ mb_position_ids s,
           mb_lora_num_tokens := loras\<rparr>)))"

text \<open>The first bin that is not multimodal and fits takes the sample.\<close>

fun place_sample :: "nat \<Rightarrow> nat \<Rightarrow> nat \<Rightarrow> micro_batch \<Rightarrow> micro_batch list \<Rightarrow> micro_batch list res" where
  "place_sample max_seq_len num_loras idx s [] = bindR (open_bin num_loras idx s) (\<lambda>b. Inr [b])"
| "place_sample max_seq_len num_loras idx s (b # bs) =
     (if \<not> is_multimodal_sample b \<and> fits max_seq_len b s
      then bindR (add_to_bin idx b s) (\<lambda>b'. Inr (b' # bs))
      else bindR (place_sample max_seq_len num_loras idx s bs) (\<lambda>bs'. Inr (b # bs')))"

definition pack_sample :: "nat \<Rightarrow> nat \<Rightarrow> micro_batch list \<Rightarrow> nat \<times> micro_batch \<Rightarrow> micro_batch list res" where
  "pack_sample max_seq_len num_loras bins p =
     (if is_multimodal_sample (snd p)
      then bindR (open_bin num_loras (fst p) (snd p)) (\<lambda>b. Inr (bins @ [b]))
      else place_sample max_seq_len num_loras (fst p) (snd p) bins)"

definition packed_samples_into_micro_bs :: "(nat \<times> micro_batch) list \<Rightarrow> nat \<Rightarrow> nat \<Rightarrow> micro_batch list res" where
  "packed_samples_into_micro_bs samples max_seq_len num_loras =
     foldR (pack_sample max_seq_len num_loras) []
       (sort_key (\<lambda>(idx, s). (int idx, - int (mb_length s))) samples)"

section \<open>Padding\<close>

definition padding_size :: "nat \<Rightarrow> nat \<Rightarrow> nat" where
  "padding_size n m = (m - n mod m) mod m"

definition pad_micro_batch :: "nat \<Rightarrow> micro_batch \<Rightarrow> micro_batch res" where
  "pad_micro_batch pad_to_multiple_of b =
     bindR (ensure (pad_to_multiple_of \<noteq> 0) ZeroDivisionError) (\<lambda>_.
     let n = padding_size (mb_length b) pad_to_multiple_of in
     bindR (ensure (length (mb_env_names b) = mb_length b) (ValueError ''env_names'')) (\<lambda>_.
     if \<not> (pad_to_multiple_of > 1 \<and> n > 0) then Inr b
     else
       bindR (case mb_lora_num_tokens b of None \<Rightarrow> Inl (TypeError ''NoneType'')
              | Some ys \<Rightarrow> if ys = [] then Inl (IndexError ''list index out of range'')
                           else Inr (butlast ys @ [last ys + n])) (\<lambda>loras.
       bindR (optR (\<lambda>re. pad_routed_experts re n) (mb_routed_experts b)) (\<lambda>routed.
       Inr (b\<lparr>mb_input_ids := mb_input_ids b @ replicate n 1,
             mb_advantages := mb_advantages b @ replicate n (Some f_zero),
             mb_rewards := map_option (\<lambda>x. x @ replicate n f_nan) (mb_rewards b),
             mb_loss_mask := mb_loss_mask b @ replicate n False,
             mb_position_ids := mb_position_ids b @ map int [0..<n],
             mb_inference_logprobs := mb_inference_logprobs b @ replicate n f_zero,
             mb_temperatures := mb_temperatures b @ replicate n f_one,
             mb_teacher_logprobs := map_option (\<lambda>x. x @ replicate n f_zero) (mb_teacher_logprobs b),
             mb_lora_num_tokens := Some loras,
             mb_mm_token_type_ids := map_option (\<lambda>x. x @ replicate n 0) (mb_mm_token_type_ids b),
             mb_routed_experts := routed,
             mb_env_names := mb_env_names b @ replicate n []\<rparr>)))))"

section \<open>The grid of the ranks\<close>

definition make_dummy_batch :: "micro_batch \<Rightarrow> micro_batch" where
  "make_dummy_batch b =
     b\<lparr>mb_advantages := replicate (mb_length b) (Some f_zero), mb_loss_mask := replicate (mb_length b) False\<rparr>"

definition pad_group_for_distribution :: "nat \<Rightarrow> micro_batch list \<Rightarrow> micro_batch list" where
  "pad_group_for_distribution num_train_workers bs =
     (let num_padding = nat ((- int (length bs)) mod int num_train_workers) in
      if num_padding > 0 \<and> bs \<noteq> [] then bs @ replicate num_padding (make_dummy_batch (hd bs)) else bs)"

definition distribute :: "nat \<Rightarrow> micro_batch list \<Rightarrow> micro_batch list list" where
  "distribute n ordered =
     foldl (\<lambda>rows (i, b). rows[i mod n := rows ! (i mod n) @ [b]]) (replicate n []) (enumerate 0 ordered)"

definition prepare_batch ::
  "training_sample list \<Rightarrow> nat \<Rightarrow> nat \<Rightarrow> nat list \<Rightarrow> nat \<Rightarrow> nat \<Rightarrow> micro_batch list list res" where
  "prepare_batch rollouts seq_len num_train_workers idxs num_loras pad_to_multiple_of =
     bindR (mapR (\<lambda>(idx, r). bindR (prepare_sample r seq_len) (\<lambda>b. Inr (idx, b))) (zip idxs rollouts)) (\<lambda>all_samples.
     bindR (packed_samples_into_micro_bs all_samples seq_len num_loras) (\<lambda>packed.
     bindR (mapR (pad_micro_batch pad_to_multiple_of) packed) (\<lambda>micro_batches.
     bindR (ensure (num_train_workers \<noteq> 0) ZeroDivisionError) (\<lambda>_.
     let ordered = pad_group_for_distribution num_train_workers (filter is_multimodal_sample micro_batches)
           @ pad_group_for_distribution num_train_workers (filter (\<lambda>b. \<not> is_multimodal_sample b) micro_batches) in
     bindR (ensure (length ordered mod num_train_workers = 0) (AssertionError ''divisible'')) (\<lambda>_.
     Inr (distribute num_train_workers ordered))))))"

end
