(* ===== verification/AdminClient.thy ===== *)
theory AdminClient
  imports StageProofs Batch
begin

text \<open>
  The administration client of the inference servers (\<open>utils/client.py\<close>): the requests with which weights are
  staged, uploaded, committed, reloaded and updated on an endpoint, and what becomes of their errors. An endpoint
  is a state and a function from requests to answers. Clocks and log messages are left out; a duration is an input.
\<close>

section \<open>Requests and answers\<close>

record http_request =
  hr_route :: string
  hr_params :: "(string, string) dict"
  hr_json :: "(string, string option) dict option"
  hr_data :: "(string, string) dict"
  hr_file :: "(string \<times> byte list) option"
  hr_content :: "byte list"

datatype http_result = Response nat "(string, string) dict" | TransportError

type_synonym 's http = "http_request \<Rightarrow> 's \<Rightarrow> 's \<times> http_result"

datatype client_error = StatusError nat | Unreachable | ClientError pyerr

type_synonym ('s, 'a) call = "'s \<Rightarrow> 's \<times> (client_error + 'a)"

definition bindS :: "('s, 'a) call \<Rightarrow> ('a \<Rightarrow> ('s, 'b) call) \<Rightarrow> ('s, 'b) call" where
  "bindS f g s = (case f s of (s', Inl e) \<Rightarrow> (s', Inl e) | (s', Inr x) \<Rightarrow> g x s')"

definition raises :: "pyerr \<Rightarrow> ('s, 'a) call" where
  "raises e s = (s, Inl (ClientError e))"

definition returns :: "'a \<Rightarrow> ('s, 'a) call" where
  "returns x s = (s, Inr x)"

lemma bindS_Inr [simp]: "f s = (t, Inr x) \<Longrightarrow> bindS f g s = g x t"
  by (simp add: bindS_def)

lemma bindS_Inl [simp]: "f s = (t, Inl e) \<Longrightarrow> bindS f g s = (t, Inl e)"
  by (simp add: bindS_def)

lemma bindS_eq_Inr: "bindS f g s = (u, Inr y) \<longleftrightarrow> (\<exists>t x. f s = (t, Inr x) \<and> g x t = (u, Inr y))"
  by (auto simp: bindS_def split: prod.splits sum.splits)

text \<open>A request is sent, and its answer is checked with \<open>raise_for_status\<close>.\<close>

definition request_to :: "string \<Rightarrow> http_request" where
  "request_to route = \<lparr>hr_route = route, hr_params = [], hr_json = None, hr_data = [], hr_file = None, hr_content = []\<rparr>"

definition http_post :: "'s http \<Rightarrow> http_request \<Rightarrow> ('s, (string, string) dict) call" where
  "http_post http r s =
     (case http r s of
        (s', TransportError) \<Rightarrow> (s', Inl Unreachable)
      | (s', Response status body) \<Rightarrow> (s', if 200 \<le> status \<and> status < 300 then Inr body else Inl (StatusError status)))"

definition post_ok :: "'s http \<Rightarrow> http_request \<Rightarrow> ('s, unit) call" where
  "post_ok http r = bindS (http_post http r) (\<lambda>_. returns ())"

section \<open>Pausing\<close>

definition pause_engine :: "'s http \<Rightarrow> ('s, unit) call" where
  "pause_engine http = post_ok http ((request_to ''/pause'')\<lparr>hr_params := [(''mode'', ''keep''), (''clear_cache'', ''false'')]\<rparr>)"

definition resume_engine :: "'s http \<Rightarrow> ('s, unit) call" where
  "resume_engine http = post_ok http (request_to ''/resume'')"

text \<open>Once paused, the engine is asked to resume whatever the call does; an error in resuming replaces the
  error of the call.\<close>

definition with_pause :: "'s http \<Rightarrow> ('s, unit) call \<Rightarrow> ('s, unit) call" where
  "with_pause http call =
     bindS (pause_engine http) (\<lambda>_ s.
       let (s1, r) = call s; (s2, r') = resume_engine http s1
       in (s2, case r' of Inl e \<Rightarrow> Inl e | Inr _ \<Rightarrow> r))"

definition commit_endpoint :: "'s http \<Rightarrow> string \<Rightarrow> string option \<Rightarrow> ('s, unit) call" where
  "commit_endpoint http version mode =
     with_pause http (post_ok http ((request_to ''/commit'')\<lparr>hr_data :=
       (''version'', version) # (case mode of None \<Rightarrow> [] | Some m \<Rightarrow> [(''mode'', m)])\<rparr>))"

definition reload_endpoint :: "'s http \<Rightarrow> ('s, unit) call" where
  "reload_endpoint http = with_pause http (post_ok http (request_to ''/reload_weights''))"

section \<open>Staging\<close>

record stage_args =
  sa_version :: string
  sa_mode :: string
  sa_base :: "string option"

definition stage_data :: "stage_args \<Rightarrow> (string, string) dict" where
  "stage_data a = [(''version'', sa_version a), (''mode'', sa_mode a)]
     @ (case sa_base a of None \<Rightarrow> [] | Some b \<Rightarrow> [(''base_version'', b)])"

datatype upload_method = MultipartUpload | ChunkedUploads | StreamingUploads

datatype weight_path = FilePath string | DirPath string "string list"

text \<open>The file that is uploaded: the path itself, or one of the two delta files of a directory (given with its
  files), the one that fits the method when both or neither exist.\<close>

definition upload_path :: "string \<Rightarrow> upload_method \<Rightarrow> weight_path \<Rightarrow> string res" where
  "upload_path mode how p =
     (case p of
        FilePath f \<Rightarrow> Inr f
      | DirPath d names \<Rightarrow>
          bindR (ensure (mode = ''delta'') (ValueError ''upload=True requires a file path for full checkpoint staging'')) (\<lambda>_.
          let preferred = (if how = StreamingUploads then ''delta.stream'' else ''delta.safetensors'');
              fallback = (if how = StreamingUploads then ''delta.safetensors'' else ''delta.stream'')
          in Inr (join_path d (if preferred \<in> set names \<or> fallback \<notin> set names then preferred else fallback))))"

definition stage_path :: "'s http \<Rightarrow> stage_args \<Rightarrow> string \<Rightarrow> ('s, unit) call" where
  "stage_path http a path = post_ok http ((request_to ''/stage'')\<lparr>hr_data := stage_data a @ [(''path'', path)]\<rparr>)"

definition stage_multipart_upload :: "'s http \<Rightarrow> stage_args \<Rightarrow> string \<Rightarrow> byte list \<Rightarrow> ('s, unit) call" where
  "stage_multipart_upload http a path file =
     post_ok http ((request_to ''/stage'')\<lparr>hr_data := stage_data a, hr_file := Some (path_name path, file)\<rparr>)"

text \<open>Chunked uploads: the file is read from the front, chunk by chunk; an empty file is one empty chunk.\<close>

definition chunk_data :: "(byte list \<Rightarrow> string) \<Rightarrow> stage_args \<Rightarrow> string \<Rightarrow> byte list \<Rightarrow> (string, string) dict" where
  "chunk_data sha a path file =
     stage_data a @ [(''filename'', path_name path), (''total_size'', show_nat (length file)), (''sha256'', sha file)]"

definition chunk_request :: "(byte list \<Rightarrow> string) \<Rightarrow> stage_args \<Rightarrow> string \<Rightarrow> byte list \<Rightarrow> nat \<Rightarrow> byte list \<Rightarrow> http_request" where
  "chunk_request sha a path file offset chunk =
     (request_to ''/stage_chunk'')\<lparr>hr_data := chunk_data sha a path file @ [(''offset'', show_nat offset)],
       hr_file := Some (path_name path, chunk)\<rparr>"

function send_chunks :: "'s http \<Rightarrow> (nat \<Rightarrow> byte list \<Rightarrow> http_request) \<Rightarrow> nat \<Rightarrow> nat \<Rightarrow> byte list \<Rightarrow> ('s, unit) call" where
  "send_chunks http req n offset bytes =
     (if bytes = [] \<or> n = 0 then returns ()
      else bindS (post_ok http (req offset (take n bytes)))
             (\<lambda>_. send_chunks http req n (offset + length (take n bytes)) (drop n bytes)))"
  by pat_completeness auto
termination by (relation "measure (\<lambda>(_, _, _, _, bytes). length bytes)") auto

declare send_chunks.simps [simp del]

definition stage_chunked_upload ::
  "'s http \<Rightarrow> (byte list \<Rightarrow> string) \<Rightarrow> nat \<Rightarrow> stage_args \<Rightarrow> string \<Rightarrow> byte list \<Rightarrow> ('s, unit) call" where
  "stage_chunked_upload http sha n a path file =
     bindS (if file = [] then post_ok http (chunk_request sha a path file 0 [])
            else send_chunks http (chunk_request sha a path file) n 0 file)
       (\<lambda>_. post_ok http ((request_to ''/stage_finalize'')\<lparr>hr_data := chunk_data sha a path file\<rparr>))"

text \<open>Streaming uploads: the file may still grow. A poll is what one round of the loop finds: the file when it is
  read, whether the done file exists, and the file when the end is tested.\<close>

record poll =
  po_file :: "byte list option"
  po_done :: bool
  po_after :: "byte list option"

definition stream_chunk_request :: "string \<Rightarrow> nat \<Rightarrow> nat \<Rightarrow> byte list \<Rightarrow> http_request" where
  "stream_chunk_request upload_id index offset chunk =
     (request_to ''/stage_stream_chunk'')\<lparr>hr_params :=
        [(''upload_id'', upload_id), (''chunk_index'', show_nat index), (''offset'', show_nat offset)], hr_content := chunk\<rparr>"

text \<open>The loop returns whether it reached the end within the polls.\<close>

definition stream_ends :: "bool \<Rightarrow> nat \<Rightarrow> poll \<Rightarrow> bool" where
  "stream_ends wait_done offset p =
     (if wait_done then po_done p \<and> (case po_after p of None \<Rightarrow> 0 | Some bs \<Rightarrow> length bs) \<le> offset
      else (case po_after p of None \<Rightarrow> False | Some bs \<Rightarrow> length bs \<le> offset))"

fun stream_chunks :: "'s http \<Rightarrow> string \<Rightarrow> nat \<Rightarrow> bool \<Rightarrow> nat \<Rightarrow> nat \<Rightarrow> poll list \<Rightarrow> ('s, bool) call" where
  "stream_chunks http upload_id n wait_done index offset [] = returns False"
| "stream_chunks http upload_id n wait_done index offset (p # ps) =
     (let chunk = (case po_file p of None \<Rightarrow> [] | Some bs \<Rightarrow> take n (drop offset bs)) in
      if chunk \<noteq> []
      then bindS (post_ok http (stream_chunk_request upload_id index offset chunk))
             (\<lambda>_. stream_chunks http upload_id n wait_done (index + 1) (offset + length chunk) ps)
      else if stream_ends wait_done offset p then returns True
      else stream_chunks http upload_id n wait_done index offset ps)"

definition finalize_stream :: "'s http \<Rightarrow> (byte list \<Rightarrow> string) \<Rightarrow> string \<Rightarrow> byte list option \<Rightarrow> ('s, unit) call" where
  "finalize_stream http sha upload_id final =
     (case final of
        None \<Rightarrow> raises FileNotFoundError
      | Some file \<Rightarrow> post_ok http ((request_to ''/stage_stream_finalize'')\<lparr>hr_data :=
          [(''upload_id'', upload_id), (''final_size'', show_nat (length file)), (''sha256'', sha file)]\<rparr>))"

definition stage_streaming_upload ::
  "'s http \<Rightarrow> (byte list \<Rightarrow> string) \<Rightarrow> nat \<Rightarrow> stage_args \<Rightarrow> string \<Rightarrow> bool \<Rightarrow> bool \<Rightarrow> poll list \<Rightarrow> byte list option \<Rightarrow> ('s, bool) call" where
  "stage_streaming_upload http sha n a path wait_done exists_now polls final =
     (if sa_mode a \<noteq> ''delta'' then raises (ValueError ''streaming upload currently supports delta mode only'')
      else if \<not> wait_done \<and> \<not> exists_now then raises FileNotFoundError
      else bindS (http_post http ((request_to ''/stage_stream_init'')\<lparr>hr_json := Some (map (\<lambda>(k, v). (k, Some v)) (stage_data a @ [(''filename'', path_name path)]))\<rparr>))
        (\<lambda>body. case dget body ''upload_id'' of
            None \<Rightarrow> raises (RuntimeError ''stage_stream_init response did not include upload_id'')
          | Some upload_id \<Rightarrow>
              if upload_id = [] then raises (RuntimeError ''stage_stream_init response did not include upload_id'')
              else bindS (stream_chunks http upload_id n wait_done 0 0 polls)
                (\<lambda>ended. if ended then bindS (finalize_stream http sha upload_id final) (\<lambda>_. returns True) else returns False)))"

section \<open>Operations on all endpoints\<close>

record op_result =
  or_endpoint :: string
  or_operation :: string
  or_duration :: float64
  or_error :: "string option"

datatype pool_error = OperationFailed string "op_result list" | PoolError pyerr

definition result_ok :: "op_result \<Rightarrow> bool" where
  "result_ok r \<longleftrightarrow> or_error r = None"

text \<open>\<open>_format_exception\<close>: the name of the class, and the message if there is one.\<close>

definition format_exception :: "string \<times> string \<Rightarrow> string" where
  "format_exception e = (let msg = strip (snd e) in if msg = [] then fst e else fst e @ '': '' @ msg)"

text \<open>The endpoints of a call with their states; every one of them is called, and the errors are collected.
  What a client error is called and says, and how long a call takes, is given.\<close>

type_synonym 's endpoints = "(string \<times> 's) list"

definition gather_calls :: "(string \<Rightarrow> ('s, 'a) call) \<Rightarrow> 's endpoints \<Rightarrow> 's endpoints \<times> (string \<times> (client_error + 'a)) list" where
  "gather_calls call eps =
     (map (\<lambda>(e, s). (e, fst (call e s))) eps, map (\<lambda>(e, s). (e, snd (call e s))) eps)"

definition endpoint_results ::
  "(client_error \<Rightarrow> string \<times> string) \<Rightarrow> (string \<Rightarrow> float64) \<Rightarrow> string \<Rightarrow> (string \<times> (client_error + 'a)) list \<Rightarrow> op_result list" where
  "endpoint_results describe duration operation rs =
     map (\<lambda>(e, r). \<lparr>or_endpoint = e, or_operation = operation, or_duration = duration e,
        or_error = (case r of Inl x \<Rightarrow> Some (format_exception (describe x)) | Inr _ \<Rightarrow> None)\<rparr>) rs"

definition operation_outcome :: "string \<Rightarrow> op_result list \<Rightarrow> pool_error + op_result list" where
  "operation_outcome operation results =
     (if list_ex (\<lambda>r. \<not> result_ok r) results then Inl (OperationFailed operation results) else Inr results)"

definition run_endpoint_operations ::
  "(client_error \<Rightarrow> string \<times> string) \<Rightarrow> (string \<Rightarrow> float64) \<Rightarrow> string \<Rightarrow> (string \<Rightarrow> ('s, 'a) call) \<Rightarrow> 's endpoints
    \<Rightarrow> 's endpoints \<times> (pool_error + op_result list)" where
  "run_endpoint_operations describe duration operation call eps =
     (let (eps', rs) = gather_calls call eps
      in (eps', operation_outcome operation (endpoint_results describe duration operation rs)))"

definition client_commit_weights ::
  "(client_error \<Rightarrow> string \<times> string) \<Rightarrow> (string \<Rightarrow> float64) \<Rightarrow> (string \<Rightarrow> 's http) \<Rightarrow> string \<Rightarrow> string option \<Rightarrow> 's endpoints
    \<Rightarrow> 's endpoints \<times> (pool_error + op_result list)" where
  "client_commit_weights describe duration http version mode =
     run_endpoint_operations describe duration ''commit_weights'' (\<lambda>e. commit_endpoint (http e) version mode)"

definition client_reload_weights ::
  "(client_error \<Rightarrow> string \<times> string) \<Rightarrow> (string \<Rightarrow> float64) \<Rightarrow> (string \<Rightarrow> 's http) \<Rightarrow> 's endpoints
    \<Rightarrow> 's endpoints \<times> (pool_error + op_result list)" where
  "client_reload_weights describe duration http =
     run_endpoint_operations describe duration ''reload_weights'' (\<lambda>e. reload_endpoint (http e))"

text \<open>\<open>stage_weights\<close> checks its arguments, and opens the file it uploads, before it calls an endpoint.\<close>

definition upload_method_of :: "string \<Rightarrow> upload_method res" where
  "upload_method_of m =
     (if m = ''multipart'' then Inr MultipartUpload else if m = ''chunked'' then Inr ChunkedUploads
      else if m = ''streaming'' then Inr StreamingUploads else Inl (ValueError ''unsupported stage upload method''))"

definition check_stage_call :: "string \<Rightarrow> string \<Rightarrow> int \<Rightarrow> bool \<Rightarrow> upload_method res" where
  "check_stage_call mode how chunk_size poll_positive =
     bindR (ensure (mode = ''full'' \<or> mode = ''delta'') (ValueError ''unsupported weight update mode'')) (\<lambda>_.
     bindR (upload_method_of how) (\<lambda>m.
     bindR (ensure (0 < chunk_size) (ValueError ''chunk_size_bytes must be positive'')) (\<lambda>_.
     bindR (ensure poll_positive (ValueError ''poll_interval_s must be positive'')) (\<lambda>_. Inr m))))"

definition path_of :: "weight_path \<Rightarrow> string" where
  "path_of p = (case p of FilePath f \<Rightarrow> f | DirPath d _ \<Rightarrow> d)"

text \<open>The call on one endpoint; the polls of a streaming upload are given per endpoint, and a stream that has
  not ended is still running (\<open>Inr False\<close>).\<close>

definition stage_call ::
  "(byte list \<Rightarrow> string) \<Rightarrow> nat \<Rightarrow> stage_args \<Rightarrow> bool \<Rightarrow> (string \<Rightarrow> poll list) \<Rightarrow> upload_method \<Rightarrow> string \<Rightarrow> byte list option
    \<Rightarrow> 's http \<Rightarrow> string \<Rightarrow> ('s, bool) call" where
  "stage_call sha n a wait_done polls m path file http e =
     (case m of
        MultipartUpload \<Rightarrow> (case file of None \<Rightarrow> raises FileNotFoundError
          | Some bs \<Rightarrow> bindS (stage_multipart_upload http a path bs) (\<lambda>_. returns True))
      | ChunkedUploads \<Rightarrow> (case file of None \<Rightarrow> raises FileNotFoundError
          | Some bs \<Rightarrow> bindS (stage_chunked_upload http sha n a path bs) (\<lambda>_. returns True))
      | StreamingUploads \<Rightarrow> stage_streaming_upload http sha n a path wait_done (file \<noteq> None) (polls e) file)"

definition client_stage_weights ::
  "(client_error \<Rightarrow> string \<times> string) \<Rightarrow> (string \<Rightarrow> float64) \<Rightarrow> (byte list \<Rightarrow> string) \<Rightarrow> (string \<Rightarrow> 's http) \<Rightarrow> weight_path \<Rightarrow> stage_args
    \<Rightarrow> bool \<Rightarrow> string \<Rightarrow> int \<Rightarrow> bool \<Rightarrow> bool \<Rightarrow> (string \<Rightarrow> poll list) \<Rightarrow> (string \<Rightarrow> byte list option) \<Rightarrow> 's endpoints
    \<Rightarrow> 's endpoints \<times> (pool_error + op_result list)" where
  "client_stage_weights describe duration sha http p a upload how chunk_size poll_positive wait_done polls files eps =
     (case check_stage_call (sa_mode a) how chunk_size poll_positive of
        Inl x \<Rightarrow> (eps, Inl (PoolError x))
      | Inr m \<Rightarrow>
          if \<not> upload
          then run_endpoint_operations describe duration ''stage_weights'' (\<lambda>e. stage_path (http e) a (path_of p)) eps
          else (case upload_path (sa_mode a) m p of
                  Inl x \<Rightarrow> (eps, Inl (PoolError x))
                | Inr path \<Rightarrow>
                    if m = ChunkedUploads \<and> files path = None then (eps, Inl (PoolError FileNotFoundError))
                    else run_endpoint_operations describe duration ''stage_weights''
                           (\<lambda>e. stage_call sha (nat chunk_size) a wait_done polls m path (files path) (http e) e) eps))"

section \<open>Direct updates\<close>

text \<open>The marker file of the NCCL transport is left out. Which of several errors \<open>gather\<close> raises depends on time; here it is the first in the order of the endpoints.\<close>

definition first_error :: "(string \<times> (client_error + 'a)) list \<Rightarrow> client_error option" where
  "first_error rs = List.find (\<lambda>_. True) (List.map_filter (\<lambda>(_, r). case r of Inl x \<Rightarrow> Some x | Inr _ \<Rightarrow> None) rs)"

definition load_lora_request :: "string \<Rightarrow> string \<Rightarrow> http_request" where
  "load_lora_request lora_name path =
     (request_to ''/load_lora_adapter'')\<lparr>hr_json := Some [(''lora_name'', Some lora_name), (''lora_path'', Some path)]\<rparr>"

definition is_retryable_lora_error :: "client_error \<Rightarrow> bool" where
  "is_retryable_lora_error x = (case x of StatusError n \<Rightarrow> n = 404 \<or> n = 500 | Unreachable \<Rightarrow> True | ClientError _ \<Rightarrow> False)"

text \<open>At most ten attempts; the time budget may end them earlier (\<open>attempts\<close> is what it allows).\<close>

primrec load_lora_attempts :: "nat \<Rightarrow> 's http \<Rightarrow> http_request \<Rightarrow> ('s, unit) call" where
  "load_lora_attempts 0 http r s = post_ok http r s"
| "load_lora_attempts (Suc k) http r s =
     (case post_ok http r s of
        (s', Inl x) \<Rightarrow> if is_retryable_lora_error x then load_lora_attempts k http r s' else (s', Inl x)
      | (s', Inr u) \<Rightarrow> (s', Inr u))"

definition load_lora_adapter :: "nat \<Rightarrow> 's http \<Rightarrow> string \<Rightarrow> string \<Rightarrow> ('s, unit) call" where
  "load_lora_adapter attempts http lora_name path =
     load_lora_attempts (min attempts 10 - 1) http (load_lora_request lora_name path)"

datatype update_error = UpdateRaised client_error | UpdateFailed pool_error

definition client_update_weights ::
  "(client_error \<Rightarrow> string \<times> string) \<Rightarrow> (string \<Rightarrow> float64) \<Rightarrow> nat \<Rightarrow> (string \<Rightarrow> 's http) \<Rightarrow> string option \<Rightarrow> string option \<Rightarrow> string
    \<Rightarrow> 's endpoints \<Rightarrow> 's endpoints \<times> (update_error + op_result list)" where
  "client_update_weights describe duration attempts http weight_dir lora_name mode eps =
     (case (lora_name, weight_dir) of
        (Some lora, Some d) \<Rightarrow>
          (let (eps1, rs) = gather_calls (\<lambda>e. load_lora_adapter attempts (http e) lora d) eps in
           (eps1, case first_error rs of
                    Some x \<Rightarrow> Inl (UpdateRaised x)
                  | None \<Rightarrow> Inr (map (\<lambda>(e, _). \<lparr>or_endpoint = e, or_operation = ''load_lora'', or_duration = f_zero, or_error = None\<rparr>) eps)))
      | _ \<Rightarrow>
          (let (eps1, rs) = gather_calls (\<lambda>e. pause_engine (http e)) eps in
           case first_error rs of
             Some x \<Rightarrow> (eps1, Inl (UpdateRaised x))
           | None \<Rightarrow>
               (let (eps2, out) = run_endpoint_operations describe duration ''update_weights'' (\<lambda>e. post_ok (http e)
                      ((request_to ''/update_weights'')\<lparr>hr_json := Some [(''weight_dir'', weight_dir), (''mode'', Some mode)]\<rparr>)) eps1;
                    (eps3, rs') = gather_calls (\<lambda>e. resume_engine (http e)) eps2
                in (eps3, case first_error rs' of
                            Some x \<Rightarrow> Inl (UpdateRaised x)
                          | None \<Rightarrow> (case out of Inl x \<Rightarrow> Inl (UpdateFailed x) | Inr ok \<Rightarrow> Inr ok)))))"

section \<open>Ranks of a broadcast group\<close>

definition nccl_rank_offsets :: "nat option \<Rightarrow> nat \<Rightarrow> (nat list) res" where
  "nccl_rank_offsets world_size n =
     (let w = (case world_size of None \<Rightarrow> n | Some w \<Rightarrow> w) in
      if n = 0 then Inl ZeroDivisionError else Inr (map (\<lambda>i. i * (w div n)) [0..<n]))"

text \<open>The servers get disjoint blocks of ranks below the world size.\<close>

lemma nccl_ranks_disjoint:
  assumes "nccl_rank_offsets (Some w) n = Inr offs" "i < j" "j < n"
  shows "offs ! i + w div n \<le> offs ! j" "offs ! j + w div n \<le> w"
proof -
  have o: "offs = map (\<lambda>i. i * (w div n)) [0..<n]" using assms by (auto simp: nccl_rank_offsets_def split: if_splits)
  have "(i + 1) * (w div n) \<le> j * (w div n)" using assms(2) by (intro mult_le_mono1) simp
  then show "offs ! i + w div n \<le> offs ! j" using assms(2,3) by (simp add: o add.commute)
  have "(j + 1) * (w div n) \<le> n * (w div n)" using assms(3) by (intro mult_le_mono1) simp
  also have "\<dots> \<le> w" by (simp add: div_times_less_eq_dividend mult.commute)
  finally show "offs ! j + w div n \<le> w" using assms(3) by (simp add: o add.commute)
qed

text \<open>If one engine cannot be paused, the update stops before it begins, and the engines that were paused stay paused.\<close>

lemma failed_pause_leaves_engines_paused:
  assumes "lora_name = None \<or> weight_dir = None" and "gather_calls (\<lambda>e. pause_engine (http e)) eps = (eps1, rs)"
    and "first_error rs = Some x"
  shows "client_update_weights describe duration attempts http weight_dir lora_name mode eps = (eps1, Inl (UpdateRaised x))"
  using assms by (cases lora_name; cases weight_dir) (auto simp: client_update_weights_def)

end
