(* ===== verification/StageSafety.thy ===== *)
theory StageSafety
  imports StageHandlers
begin

text \<open>
  The version the server reports against the weights the engine holds, over every interleaving
  of the handlers: an abstract engine replays the calls it received, and an invariant of the
  server's state machine relates it to \<open>active_version\<close> and \<open>weights_dirty\<close>.
\<close>

section \<open>The engine, abstractly\<close>

text \<open>
  The weights in the engine are known by the version they came from (\<open>Some None\<close>: the base
  model; \<open>None\<close>: unknown). A delta yields its version only on the weights it was made for.
\<close>

definition version_name :: "string option \<Rightarrow> string" where
  "version_name a = (case a of None \<Rightarrow> ''0'' | Some v \<Rightarrow> if v = [] then ''0'' else v)"

fun engine_apply :: "string option option \<Rightarrow> rpc \<Rightarrow> string option option" where
  "engine_apply w RpcReload = Some None"
| "engine_apply w (RpcCommit v mode base file) =
     (if mode \<noteq> ''delta'' then Some (Some v)
      else case w of None \<Rightarrow> None | Some a \<Rightarrow> if base = Some (version_name a) then Some (Some v) else None)"
| "engine_apply w RpcFailed = None"
| "engine_apply w (RpcUpdate ok mode dir) = None"

definition engine_weights :: "rpc list \<Rightarrow> string option option" where
  "engine_weights log = foldl engine_apply (Some None) log"

lemma engine_weights_snoc [simp]: "engine_weights (log @ [c]) = engine_apply (engine_weights log) c"
  by (simp add: engine_weights_def)

lemma engine_weights_Nil [simp]: "engine_weights [] = Some None"
  by (simp add: engine_weights_def)

definition no_direct_update :: "rpc list \<Rightarrow> bool" where
  "no_direct_update log \<longleftrightarrow> (\<forall>c \<in> set log. case c of RpcUpdate _ _ _ \<Rightarrow> False | _ \<Rightarrow> True)"

section \<open>What handlers outside the lock leave alone\<close>

definition core :: "server \<Rightarrow> string option \<times> bool \<times> rpc list" where
  "core s = (active_version s, weights_dirty s, engine_log s)"

named_theorems core_simps \<open>operations that keep the core of the server state\<close>

lemma core_files [core_simps]:
  "core (put_file p bs s) = core s" "core (unlink p s) = core s" "core (write_chunk p off c s) = core s"
  "core (move_file p q s) = core s" "core (drop_upload key s) = core s"
  by (auto simp: core_def put_file_def unlink_def write_chunk_def move_file_def drop_upload_def split: option.splits)

lemma core_cleanup [core_simps]:
  "core (cleanup_staged_file e s) = core s" "core (cleanup_stage_upload u s) = core s"
  by (auto simp: cleanup_staged_file_def cleanup_stage_upload_def core_simps)

lemma core_update [core_simps]:
  "core (s\<lparr>staged_versions := x\<rparr>) = core s" "core (s\<lparr>stage_uploads := y\<rparr>) = core s" "core (s\<lparr>paused := b\<rparr>) = core s"
  by (simp_all add: core_def)

lemma core_register [core_simps]: "core (fst (register_staged_version v e s)) = core s"
  by (auto simp: register_staged_version_def core_simps Let_def split: sum.splits option.splits)

lemma core_finish_register [core_simps]: "core (fst (finish_register ok pd s)) = core s"
  using core_register [of "pd_version pd" "pd_entry pd" s]
  by (auto simp: finish_register_def Let_def split: prod.splits option.splits)

lemma core_stage_weights [core_simps]: "core (fst (stage_weights expd uuid r s)) = core s"
  by (auto simp: stage_weights_def core_simps Let_def split: prod.splits sum.splits option.splits)

lemma core_stream_init [core_simps]:
  "core (fst (stage_stream_init_open uuid r s)) = core s" "core (fst (stage_stream_init_close ids f j s)) = core s"
  by (auto simp: stage_stream_init_open_def stage_stream_init_close_def core_simps Let_def
      split: prod.splits sum.splits option.splits)

lemma core_store_chunk [core_simps]: "core (store_chunk key u off c s) = core s"
  by (simp add: store_chunk_def core_simps Let_def)

lemma core_stream_chunk [core_simps]: "core (fst (stage_stream_chunk ok r s)) = core s"
  by (auto simp: stage_stream_chunk_def core_simps Let_def split: prod.splits sum.splits option.splits)

lemma core_stream_finalize [core_simps]: "core (fst (stage_stream_finalize h r s)) = core s"
  by (auto simp: stage_stream_finalize_def core_simps Let_def split: prod.splits sum.splits option.splits)

lemma core_accept_chunk: "core (fst (accept_chunk c s)) = core s"
  by (auto simp: accept_chunk_def core_simps Let_def)

lemma core_stage_chunk [core_simps]: "core (fst (stage_chunk ok r s)) = core s"
  using core_accept_chunk by (auto simp: stage_chunk_def Let_def split: prod.splits sum.splits) (metis fst_conv)+

lemma core_stage_finalize [core_simps]: "core (fst (stage_finalize h uuid r s)) = core s"
  by (auto simp: stage_finalize_def core_simps Let_def split: prod.splits sum.splits option.splits)

lemma core_foldl: "(\<And>x t. core (f t x) = core t) \<Longrightarrow> core (foldl f s xs) = core s"
  by (induction xs arbitrary: s) auto

lemma core_keep_only [core_simps]: "core (keep_only v s) = core s"
  unfolding keep_only_def by (rule core_foldl) (auto simp: core_simps Let_def)

lemma core_commit_finish [core_simps]: "core (fst (commit_finish ok job s)) = core s"
  by (auto simp: commit_finish_def core_simps Let_def split: prod.splits)

lemma core_resume [core_simps]: "core (fst (resume s)) = core s" "core (fst (pause s)) = core s"
  by (auto simp: resume_def pause_def core_simps)

lemma await_core [core_simps]: "core (sv (await res y)) = core (fst res)" "wlock (await res y) = wlock y"
  by (auto simp: await_def split: prod.splits outcome.splits)

section \<open>The invariant\<close>

definition job_ok :: "server \<Rightarrow> commit_job \<Rightarrow> bool" where
  "job_ok s job \<longleftrightarrow> (e_mode (cj_entry job) = ''delta'' \<longrightarrow>
     e_base (cj_entry job) = Some (version_name (active_version s)) \<and> e_base (cj_entry job) \<noteq> Some (cj_version job))"

definition server_inv :: "system \<Rightarrow> bool" where
  "server_inv y \<longleftrightarrow>
     (wlock y \<noteq> Free \<longrightarrow> weights_dirty (sv y)) \<and>
     (\<forall>job. wlock y = Committing job \<longrightarrow> job_ok (sv y) job) \<and>
     (no_direct_update (engine_log (sv y)) \<longrightarrow>
        (\<not> weights_dirty (sv y) \<or> (\<exists>job. wlock y = Committing job)) \<longrightarrow>
        engine_weights (engine_log (sv y)) = Some (active_version (sv y)))"

lemma server_inv_core: "server_inv y \<Longrightarrow> core (sv z) = core (sv y) \<Longrightarrow> wlock z = wlock y \<Longrightarrow> server_inv z"
  by (auto simp: server_inv_def core_def job_ok_def)

lemma commit_begin_cases:
  "commit_begin r s = (t, Refused err) \<Longrightarrow> t = s"
  "commit_begin r s = (t, AlreadyActive job) \<Longrightarrow> t = s"
  "commit_begin r s = (t, CallEngine job) \<Longrightarrow> t = s\<lparr>weights_dirty := True\<rparr> \<and> \<not> weights_dirty s \<and> job_ok s job
     \<and> active_version s \<noteq> Some (cj_version job)"
  by (auto simp: commit_begin_def Let_def job_ok_def validate_stage_def current_version_def version_name_def
      split: option.splits sum.splits if_split_asm)

lemma no_direct_update_snoc: "no_direct_update (log @ [c]) \<Longrightarrow> no_direct_update log"
  by (simp add: no_direct_update_def)

text \<open>A step that holds or takes no lock keeps the core; the rest are the calls to the engine.\<close>

lemma commit_returned_inv:
  assumes "server_inv y" and "wlock y = Committing job"
  shows "server_inv (y\<lparr>sv := fst (commit_finish ok job (commit_called True job (sv y))), wlock := Free\<rparr>)"
proof -
  have c: "core (fst (commit_finish ok job (commit_called True job (sv y)))) = core (commit_called True job (sv y))"
    by (simp add: core_simps)
  have "server_inv (y\<lparr>sv := commit_called True job (sv y), wlock := Free\<rparr>)"
    using assms by (auto simp: server_inv_def commit_called_def log_call_def job_ok_def dest: no_direct_update_snoc)
  then show ?thesis by (rule server_inv_core) (simp_all add: c)
qed

lemma core_reload_called:
  "core (reload_called True s) = (None, False, engine_log s @ [RpcReload])"
proof -
  have "engine_log s1 = engine_log s @ [RpcReload] \<Longrightarrow>
      core (s1\<lparr>active_version := None, weights_dirty := False, staged_versions := a, stage_uploads := b\<rparr>) =
      (None, False, engine_log s @ [RpcReload])" for s1 :: server and a b
    by (simp add: core_def)
  moreover have "core (foldl (\<lambda>t u. cleanup_stage_upload u t) (foldl (\<lambda>t e. cleanup_staged_file e t)
      (log_call RpcReload s) xs) us) = core (log_call RpcReload s)" for xs us
    by (subst core_foldl, simp add: core_simps)+ simp
  then have "engine_log (foldl (\<lambda>t u. cleanup_stage_upload u t) (foldl (\<lambda>t e. cleanup_staged_file e t)
      (log_call RpcReload s) xs) us) = engine_log s @ [RpcReload]" for xs us
    by (simp add: core_def log_call_def)
  ultimately show ?thesis by (simp add: reload_called_def Let_def)
qed

lemma server_step_inv: "server_step \<E> y z \<Longrightarrow> server_inv y \<Longrightarrow> server_inv z"
proof (induction rule: server_step.induct)
  case (update y engine_ok mode weight_dir)
  then show ?case
    by (auto simp: server_inv_def update_weights_def log_call_def job_ok_def no_direct_update_def split: if_split_asm)
next
  case (stream_init_refused uuid r y s err)
  have "core s = core (sv y)" using core_stream_init(1) [of uuid r "sv y"] stream_init_refused by simp
  with stream_init_refused(2) show ?case by (auto elim: server_inv_core)
next
  case (stream_init_open uuid r y s j)
  have "core s = core (sv y)" using core_stream_init(1) [of uuid r "sv y"] stream_init_open by simp
  with stream_init_open(2) show ?case by (auto elim: server_inv_core)
next
  case (commit_refused y r s err)
  then show ?case using commit_begin_cases(1) [OF commit_refused(2)] by (simp add: server_inv_def job_ok_def)
next
  case (commit_active y r s job ok)
  then show ?case using commit_begin_cases(2) [OF commit_active(2)] by (auto elim!: server_inv_core simp: core_simps)
next
  case (commit_call y r s job)
  then show ?case using commit_begin_cases(3) [OF commit_call(2)] by (auto simp: server_inv_def job_ok_def)
next
  case (commit_returned y job ok)
  then show ?case by (intro commit_returned_inv)
next
  case (commit_raised y job)
  then show ?case by (auto simp: server_inv_def commit_called_def log_call_def)
next
  case (reload_call y relay)
  then show ?case by (auto simp: server_inv_def reload_begin_def)
next
  case (reload_returned y relay)
  show ?case using core_reload_called [of "sv y"] by (simp add: server_inv_def core_def)
next
  case (reload_raised y relay)
  then show ?case by (auto simp: server_inv_def reload_called_def log_call_def)
qed (erule server_inv_core, simp_all add: core_simps)+

definition fresh_server :: "server \<Rightarrow> bool" where
  "fresh_server s \<longleftrightarrow> core s = (None, False, [])"

lemma reachable_inv: "reachable \<E> s y \<Longrightarrow> fresh_server s \<Longrightarrow> server_inv y"
proof (induction rule: reachable.induct)
  case start
  then show ?case by (simp add: server_inv_def init_system_def fresh_server_def core_def)
next
  case (step y z)
  then show ?case by (blast intro: server_step_inv)
qed


section \<open>What follows\<close>

text \<open>C4. The version the server reports is the version the engine holds: in every state that any
  interleaving of staging, commit, reload, pause and resume requests can reach, whatever the engine
  and the peers answer, if the server is not marked dirty then replaying the engine calls gives
  the weights of exactly \<open>active_version\<close>, each delta having been applied to its own base.
  (\<open>/update_weights\<close> goes round the versions: the claim is for runs without it.)\<close>

theorem active_version_is_loaded:
  assumes "fresh_server s" and "reachable \<E> s y" and "no_direct_update (engine_log (sv y))"
    and "\<not> weights_dirty (sv y)"
  shows "engine_weights (engine_log (sv y)) = Some (active_version (sv y))"
  using reachable_inv [OF assms(2,1)] assms(3,4) by (simp add: server_inv_def)

text \<open>C14. Weights that may be torn are not served: in every reachable state where a commit or a reload
  failed and no reload succeeded since, generation cannot be resumed, a delta cannot be staged and
  nothing can be committed.\<close>

theorem torn_weights_not_served:
  assumes "fresh_server s" and "reachable \<E> s y" and "no_direct_update (engine_log (sv y))"
    and "engine_weights (engine_log (sv y)) = None"
  shows "weights_dirty (sv y)
    \<and> resume (sv y) = (sv y, ErrorResponse 409 ''weights require reload after a failed update'')
    \<and> (\<forall>v base. \<exists>r. validate_stage (sv y) v ''delta'' base = Inl r)
    \<and> (\<forall>r. \<exists>err. commit_begin r (sv y) = (sv y, Refused err))"
proof -
  have d: "weights_dirty (sv y)" using reachable_inv [OF assms(2,1)] assms(3,4) by (auto simp: server_inv_def)
  then have "\<forall>r. \<exists>err. commit_begin r (sv y) = (sv y, Refused err)"
    by (auto simp: commit_begin_def Let_def split: option.splits)
  with d show ?thesis by (simp add: resume_def validate_stage_def)
qed

text \<open>Recovery: from any reachable state whose lock is free, dirty or not, a reload that the engine
  serves leads to the base model, no staged versions, no uploads and a server that resumes.\<close>

theorem reload_recovers:
  assumes "fresh_server s" and "reachable \<E> s y" and "wlock y = Free"
  shows "\<exists>z. reachable \<E> s z \<and> wlock z = Free \<and> active_version (sv z) = None \<and> \<not> weights_dirty (sv z)
    \<and> staged_versions (sv z) = [] \<and> stage_uploads (sv z) = []
    \<and> engine_weights (engine_log (sv z)) = Some None \<and> snd (resume (sv z)) = Success"
proof -
  let ?a = "y\<lparr>sv := reload_begin (sv y), wlock := Reloading True\<rparr>"
  let ?z = "?a\<lparr>sv := reload_called True (sv ?a), wlock := Free\<rparr>"
  have a: "reachable \<E> s ?a" using reachable.step [OF assms(2) server_step.reload_call [OF assms(3)]] .
  have "server_step \<E> ?a ?z" by (rule server_step.reload_returned [where relay = True]) simp
  with a have r: "reachable \<E> s ?z" by (rule reachable.step)
  have c: "active_version (sv ?z) = None" "\<not> weights_dirty (sv ?z)"
    "engine_weights (engine_log (sv ?z)) = Some None"
    using core_reload_called [of "sv ?a"] by (simp_all add: core_def)
  have "staged_versions (sv ?z) = [] \<and> stage_uploads (sv ?z) = []"
    by (simp add: reload_called_def Let_def)
  with r c show ?thesis by (intro exI [of _ ?z]) (simp add: resume_def)
qed


section \<open>A run\<close>

definition demo_env :: env where
  "demo_env = \<lparr>sha256 = (\<lambda>_. ''d''), expanduser = (\<lambda>p. p)\<rparr>"

definition demo_start :: server where
  "demo_start = put_file ''ckpt'' [1, 2] (init_server ''st'' 1 False [] True)"

definition demo_request :: request where
  "demo_request = \<lparr>rq_query = [(''version'', FStr ''7''), (''path'', FStr ''ckpt'')], rq_content_type = [],
     rq_json = None, rq_form = [], rq_body = []\<rparr>"

definition demo_staged :: system where
  "demo_staged = await (stage_weights (expanduser demo_env) ''u'' demo_request (sv (init_system demo_start))) (init_system demo_start)"

definition demo_registered :: system where
  "demo_registered = demo_staged\<lparr>sv := fst (finish_register (\<lambda>_ _. True) (hd (waiting demo_staged)) (sv demo_staged)), waiting := []\<rparr>"

definition demo_job :: commit_job where
  "demo_job = \<lparr>cj_version = ''7'', cj_entry = \<lparr>e_path = ''ckpt'', e_mode = ''full'', e_base = None, e_owned = False\<rparr>, cj_relay = True\<rparr>"

definition demo_calling :: system where
  "demo_calling = demo_registered\<lparr>sv := (sv demo_registered)\<lparr>weights_dirty := True\<rparr>, wlock := Committing demo_job\<rparr>"

definition demo_committed :: system where
  "demo_committed = demo_calling\<lparr>sv := fst (commit_finish (\<lambda>_ _. True) demo_job (commit_called True demo_job (sv demo_calling))), wlock := Free\<rparr>"

definition demo_torn :: system where
  "demo_torn = demo_calling\<lparr>sv := commit_called False demo_job (sv demo_calling), wlock := Free\<rparr>"

lemma demo_calling_reachable: "reachable demo_env demo_start demo_calling"
proof -
  have "reachable demo_env demo_start demo_staged"
    unfolding demo_staged_def by (rule reachable.step [OF reachable.start server_step.stage])
  then have "reachable demo_env demo_start demo_registered"
    unfolding demo_registered_def
  proof (rule reachable.step [OF _ server_step.register [where ps = "[]" and qs = "[]", simplified]])
    show "wlock demo_staged = Free" by code_simp
    show "waiting demo_staged = [hd (waiting demo_staged)]" by code_simp
  qed
  then show ?thesis
    unfolding demo_calling_def
  proof (rule reachable.step [OF _ server_step.commit_call [where r = demo_request]])
    show "wlock demo_registered = Free" by code_simp
    show "commit_begin demo_request (sv demo_registered) = ((sv demo_registered)\<lparr>weights_dirty := True\<rparr>, CallEngine demo_job)"
      by code_simp
  qed
qed

lemma demo_reachable: "reachable demo_env demo_start demo_committed" "reachable demo_env demo_start demo_torn"
  unfolding demo_committed_def demo_torn_def
  by (rule reachable.step [OF demo_calling_reachable server_step.commit_returned], code_simp)
    (rule reachable.step [OF demo_calling_reachable server_step.commit_raised], code_simp)

lemma demo_fresh: "fresh_server demo_start"
  by code_simp

lemma active_version_is_loaded_witness:
  "engine_weights (engine_log (sv demo_committed)) = Some (active_version (sv demo_committed))
   \<and> active_version (sv demo_committed) = Some ''7''"
proof -
  have "no_direct_update (engine_log (sv demo_committed))" "\<not> weights_dirty (sv demo_committed)"
    "active_version (sv demo_committed) = Some ''7''" by code_simp+
  then show ?thesis using active_version_is_loaded [OF demo_fresh demo_reachable(1)] by blast
qed

lemma torn_weights_not_served_witness:
  "weights_dirty (sv demo_torn) \<and> snd (resume (sv demo_torn)) = ErrorResponse 409 ''weights require reload after a failed update''"
proof -
  have "no_direct_update (engine_log (sv demo_torn))" "engine_weights (engine_log (sv demo_torn)) = None" by code_simp+
  from torn_weights_not_served [OF demo_fresh demo_reachable(2) this] show ?thesis by simp
qed

lemma reload_recovers_witness:
  "\<exists>z. reachable demo_env demo_start z \<and> active_version (sv z) = None \<and> snd (resume (sv z)) = Success"
proof -
  have "wlock demo_torn = Free" by code_simp
  from reload_recovers [OF demo_fresh demo_reachable(2) this] show ?thesis by blast
qed

end
