(* ===== verification/ClientUpload.thy ===== *)
theory ClientUpload
  imports AdminClient StageSafety
begin

text \<open>
  The client of \<open>AdminClient\<close> against the server of \<open>StageHandlers\<close>: how its requests arrive, the server that
  handles them one after the other, and the theorem that an upload followed by a commit loads the client's file into
  the engine.
\<close>

section \<open>Numbers in fields\<close>

lemma show_nat_digits: "\<forall>c \<in> set (show_nat n). is_digit c"
proof (induction n rule: show_nat.induct)
  case (1 n)
  then show ?case by (subst show_nat.simps) (auto simp: is_digit_def)
qed

lemma show_nat_not_empty: "show_nat n \<noteq> []"
  by (subst show_nat.simps) simp

lemma digit_not_space: "is_digit c \<Longrightarrow> \<not> is_space c"
  by (auto simp: is_digit_def is_space_def)

lemma strip_id: "\<forall>c \<in> set s. \<not> is_space c \<Longrightarrow> strip s = s"
proof -
  assume a: "\<forall>c \<in> set s. \<not> is_space c"
  have d: "dropWhile is_space t = t" if "\<forall>c \<in> set t. \<not> is_space c" for t using that by (cases t) auto
  show ?thesis using a d [of s] d [of "rev s"] by (simp add: strip_def)
qed

lemma digits_value_show_nat:
  "digits_value b acc (show_nat n @ cs) = digits_value True (acc * 10 ^ length (show_nat n) + n) cs"
proof (induction n arbitrary: b acc cs rule: show_nat.induct)
  case (1 n)
  show ?case
  proof (cases "n < 10")
    case True
    then have s: "show_nat n = [char_of (48 + n)]" by (subst show_nat.simps) simp
    show ?thesis using True by (simp add: s is_digit_def algebra_simps)
  next
    case False
    then have s: "show_nat n = show_nat (n div 10) @ [char_of (48 + n mod 10)]" by (subst show_nat.simps) simp
    have c: "is_digit (char_of (48 + n mod 10))" by (simp add: is_digit_def)
    have "digits_value b acc (show_nat n @ cs) = digits_value b acc (show_nat (n div 10) @ (char_of (48 + n mod 10) # cs))"
      by (simp add: s)
    also have "\<dots> = digits_value True (acc * 10 ^ length (show_nat (n div 10)) + n div 10) (char_of (48 + n mod 10) # cs)"
      by (rule 1 [OF False])
    also have "\<dots> = digits_value True (10 * (acc * 10 ^ length (show_nat (n div 10)) + n div 10) + n mod 10) cs"
      using c by simp
    also have "10 * (acc * 10 ^ length (show_nat (n div 10)) + n div 10) + n mod 10 = acc * 10 ^ length (show_nat n) + n"
      by (simp add: s algebra_simps)
    finally show ?thesis .
  qed
qed

lemma parse_show_nat [simp]: "parse_int (FStr (show_nat n)) = Some (int n)"
proof -
  obtain c cs where s: "show_nat n = c # cs" using show_nat_not_empty [of n] by (cases "show_nat n") auto
  have d: "is_digit c" using show_nat_digits [of n] by (simp add: s)
  have "strip (show_nat n) = show_nat n" using show_nat_digits [of n] digit_not_space by (intro strip_id) blast
  moreover have "c \<noteq> CHR ''-''" "c \<noteq> CHR ''+''" using d by (auto simp: is_digit_def)
  moreover have "digits_value False 0 (c # cs) = Some n"
    using digits_value_show_nat [of False 0 n "[]"] by (simp add: s)
  ultimately show ?thesis by (simp add: parse_int_def s)
qed

section \<open>How a request arrives\<close>

definition content_type :: "http_request \<Rightarrow> string" where
  "content_type r =
     (if hr_json r \<noteq> None then ''application/json''
      else if hr_file r \<noteq> None then ''multipart/form-data''
      else if hr_data r \<noteq> [] then ''application/x-www-form-urlencoded'' else [])"

definition text_fields :: "(string, string) dict \<Rightarrow> (string, fval) dict" where
  "text_fields d = map (\<lambda>(k, v). (k, FStr v)) d"

definition arrives :: "http_request \<Rightarrow> request" where
  "arrives r =
     \<lparr>rq_query = text_fields (hr_params r), rq_content_type = content_type r,
      rq_json = map_option (map (\<lambda>(k, v). (k, map_option FStr v))) (hr_json r),
      rq_form = map (\<lambda>(k, v). (k, Inl (FStr v))) (hr_data r)
        @ (case hr_file r of None \<Rightarrow> [] | Some (name, bs) \<Rightarrow> [(''file'', Inr \<lparr>uf_filename = Some name, uf_bytes = bs\<rparr>)]),
      rq_body = hr_content r\<rparr>"

definition answer :: "response \<Rightarrow> http_result" where
  "answer r =
     (case r of
        Success \<Rightarrow> Response 200 []
      | UploadStarted i \<Rightarrow> Response 200 [(''upload_id'', i)]
      | Received n \<Rightarrow> Response 200 []
      | ErrorResponse n msg \<Rightarrow> Response n []
      | PeerFailure _ \<Rightarrow> Response 502 []
      | Raised _ \<Rightarrow> Response 500 [])"

text \<open>What a server depends on: the digest, the names it makes, its peers and its engine.\<close>

record surroundings =
  su_sha :: "byte list \<Rightarrow> string"
  su_uuid :: string
  su_expanduser :: "string \<Rightarrow> string"
  su_ids :: "string \<Rightarrow> string option"
  su_peers :: relay_ok
  su_engine :: bool

definition settle_outcome :: "surroundings \<Rightarrow> server \<times> outcome \<Rightarrow> server \<times> http_result" where
  "settle_outcome E out =
     (case out of
        (s, Done _ r) \<Rightarrow> (s, answer r)
      | (s, Registering pd) \<Rightarrow> (let (t, _, r) = finish_register (su_peers E) pd s in (t, answer r)))"

definition handle_commit :: "surroundings \<Rightarrow> request \<Rightarrow> server \<Rightarrow> server \<times> http_result" where
  "handle_commit E r s =
     (case commit_begin r s of
        (t, Refused e) \<Rightarrow> (t, answer e)
      | (t, AlreadyActive job) \<Rightarrow> (let (u, _, e) = commit_finish (su_peers E) job t in (u, answer e))
      | (t, CallEngine job) \<Rightarrow>
          if su_engine E then (let (u, _, e) = commit_finish (su_peers E) job (commit_called True job t) in (u, answer e))
          else (commit_called False job t, Response 500 []))"

definition handle_reload :: "surroundings \<Rightarrow> request \<Rightarrow> server \<Rightarrow> server \<times> http_result" where
  "handle_reload E r s =
     (let t = reload_called (su_engine E) (reload_begin s) in
      if su_engine E then (t, answer (snd (reload_finish (su_peers E) (relay_requested (fst (read_request_fields r))) t)))
      else (t, Response 500 []))"

definition handle_stream_init :: "surroundings \<Rightarrow> request \<Rightarrow> server \<Rightarrow> server \<times> http_result" where
  "handle_stream_init E r s =
     (case stage_stream_init_open (su_uuid E) r s of
        (t, Inl e) \<Rightarrow> (t, answer e)
      | (t, Inr (f, j)) \<Rightarrow> (let (u, _, e) = stage_stream_init_close (su_ids E) f j t in (u, answer e)))"

text \<open>A server that handles its requests one after the other.\<close>

definition server_http :: "surroundings \<Rightarrow> server http" where
  "server_http E q s =
     (let r = arrives q; route = hr_route q in
      if route = ''/pause'' then (let (t, e) = pause s in (t, answer e))
      else if route = ''/resume'' then (let (t, e) = resume s in (t, answer e))
      else if route = ''/stage'' then settle_outcome E (stage_weights (su_expanduser E) (su_uuid E) r s)
      else if route = ''/stage_chunk'' then (let (t, _, e) = stage_chunk (su_peers E) r s in (t, answer e))
      else if route = ''/stage_finalize'' then settle_outcome E (stage_finalize (su_sha E) (su_uuid E) r s)
      else if route = ''/stage_stream_init'' then handle_stream_init E r s
      else if route = ''/stage_stream_chunk'' then (let (t, _, e) = stage_stream_chunk (su_peers E) r s in (t, answer e))
      else if route = ''/stage_stream_finalize'' then settle_outcome E (stage_stream_finalize (su_sha E) r s)
      else if route = ''/commit'' then handle_commit E r s
      else if route = ''/reload_weights'' then handle_reload E r s
      else (s, Response 404 []))"

section \<open>Requests in the terms of the server\<close>

lemma foldl_form: "foldl (\<lambda>(f, u) (k, v). case v of Inl x \<Rightarrow> (dput k x f, u) | Inr file \<Rightarrow> (f, if k = ''file'' then Some file else u))
    (f0, u0) (map (\<lambda>(k, v). (k, Inl (FStr v))) d) = (foldl (\<lambda>f (k, v). dput k v f) f0 (text_fields d), u0)"
  by (induction d arbitrary: f0) (auto simp: text_fields_def)

lemma fields_of_data:
  assumes "hr_json q = None" "hr_data q \<noteq> []" "hr_params q = []"
  shows "read_request_fields (arrives q) = (foldl (\<lambda>f (k, v). dput k v f) [] (text_fields (hr_data q)),
    case hr_file q of None \<Rightarrow> None | Some (name, bs) \<Rightarrow> Some \<lparr>uf_filename = Some name, uf_bytes = bs\<rparr>)"
  using assms by (cases "hr_file q")
    (auto simp: read_request_fields_def arrives_def content_type_def foldl_form startswith_def text_fields_def [of "[]"])

definition chunk_fields :: "(byte list \<Rightarrow> string) \<Rightarrow> stage_args \<Rightarrow> string \<Rightarrow> byte list \<Rightarrow> (string, fval) dict" where
  "chunk_fields sha a path file = text_fields (chunk_data sha a path file)"

lemma foldl_dput_distinct: "distinct (dkeys (d @ e)) \<Longrightarrow> foldl (\<lambda>f (k, v). dput k v f) d e = d @ e"
proof (induction e arbitrary: d)
  case (Cons p e)
  obtain k v where p: "p = (k, v)" by force
  have "k \<notin> fst ` set d" using Cons.prems by (auto simp: p)
  then have "dput k v d = d @ [p]" by (simp add: dput_append p)
  then show ?case using Cons.IH [of "d @ [p]"] Cons.prems by (simp add: p)
qed simp

lemma chunk_fields_read:
  "read_request_fields (arrives (chunk_request sha a path file off chunk)) =
     (chunk_fields sha a path file @ [(''offset'', FStr (show_nat off))],
      Some \<lparr>uf_filename = Some (path_name path), uf_bytes = chunk\<rparr>)"
  "read_request_fields (arrives ((request_to ''/stage_finalize'')\<lparr>hr_data := chunk_data sha a path file\<rparr>))
     = (chunk_fields sha a path file, None)"
proof -
  have d: "distinct (dkeys (text_fields (chunk_data sha a path file @ [(''offset'', show_nat off)])))" for off
    by (simp add: text_fields_def chunk_data_def stage_data_def split: option.split)
  have e: "distinct (dkeys (text_fields (chunk_data sha a path file)))"
    by (simp add: text_fields_def chunk_data_def stage_data_def split: option.split)
  show "read_request_fields (arrives (chunk_request sha a path file off chunk)) =
     (chunk_fields sha a path file @ [(''offset'', FStr (show_nat off))],
      Some \<lparr>uf_filename = Some (path_name path), uf_bytes = chunk\<rparr>)"
    using foldl_dput_distinct [of "[]" "text_fields (chunk_data sha a path file @ [(''offset'', show_nat off)])"] d [of off]
    by (simp add: fields_of_data chunk_request_def request_to_def chunk_data_def) (simp add: chunk_fields_def text_fields_def chunk_data_def)
  show "read_request_fields (arrives ((request_to ''/stage_finalize'')\<lparr>hr_data := chunk_data sha a path file\<rparr>))
     = (chunk_fields sha a path file, None)"
    using foldl_dput_distinct [of "[]" "text_fields (chunk_data sha a path file)"] e
    by (simp add: fields_of_data request_to_def chunk_data_def) (simp add: chunk_fields_def text_fields_def chunk_data_def)
qed

definition plan_of :: "(byte list \<Rightarrow> string) \<Rightarrow> stage_args \<Rightarrow> string \<Rightarrow> byte list \<Rightarrow> upload_plan" where
  "plan_of sha a path file =
     \<lparr>pl_meta = \<lparr>sm_version = sa_version a, sm_mode = sa_mode a, sm_base = sa_base a\<rparr>,
      pl_name = safe_path_component (path_name (path_name path)), pl_sha = sha file, pl_file = file\<rparr>"

lemmas chunk_fields_defs = chunk_fields_def text_fields_def chunk_data_def stage_data_def

lemma chunk_fields_get:
  "field_str (chunk_fields sha a path file @ e) ''version'' ''unknown'' = sa_version a"
  "field_str (chunk_fields sha a path file @ e) ''mode'' ''full'' = sa_mode a"
  "field_str (chunk_fields sha a path file @ e) ''filename'' n = path_name path"
  "dget e ''base_version'' = None \<Longrightarrow> field_opt (chunk_fields sha a path file @ e) ''base_version'' = sa_base a"
  "field_opt (chunk_fields sha a path file @ e) ''sha256'' = Some (sha file)"
  "dget (chunk_fields sha a path file @ e) ''filename'' = Some (FStr (path_name path))"
  "dget (chunk_fields sha a path file @ e) ''total_size'' = Some (FStr (show_nat (length file)))"
  "dget (chunk_fields sha a path file) ''offset'' = None" "dget (chunk_fields sha a path file) ''relay'' = None"
  by (cases "sa_base a"; simp add: chunk_fields_defs field_str_def field_opt_def map_of_eq_None_iff)+

lemmas chunk_fields_get0 = chunk_fields_get(1-7) [where e = "[]", simplified]

lemma parse_fields:
  "parse_non_negative_int (chunk_fields sha a path file @ e) ''total_size'' = Inr (int (length file))"
  "parse_non_negative_int (chunk_fields sha a path file @ [(''offset'', FStr (show_nat off))]) ''offset'' = Inr (int off)"
proof -
  show "parse_non_negative_int (chunk_fields sha a path file @ e) ''total_size'' = Inr (int (length file))"
    by (simp add: parse_non_negative_int_def chunk_fields_get(7) del: map_of_append)
  have "dget (chunk_fields sha a path file @ [(''offset'', FStr (show_nat off))]) ''offset'' = Some (FStr (show_nat off))"
    by (simp add: chunk_fields_get(8) map_add_def)
  then show "parse_non_negative_int (chunk_fields sha a path file @ [(''offset'', FStr (show_nat off))]) ''offset'' = Inr (int off)"
    by (simp add: parse_non_negative_int_def)
qed

lemma parse_fields0: "parse_non_negative_int (chunk_fields sha a path file) ''total_size'' = Inr (int (length file))"
  using parse_fields(1) [where e = "[]"] by simp

lemma chosen_chunk_filename:
  "path_name path \<noteq> [] \<Longrightarrow> chosen_filename (chunk_fields sha a path file @ e) n = safe_path_component (path_name (path_name path))"
  by (simp add: chosen_filename_def truthy_def chunk_fields_get del: map_of_append)

lemma chosen_chunk_filename0:
  "path_name path \<noteq> [] \<Longrightarrow> chosen_filename (chunk_fields sha a path file) n = safe_path_component (path_name (path_name path))"
  using chosen_chunk_filename [where e = "[]"] by simp

lemma validate_stage_meta: "validate_stage s v m b = Inr x \<Longrightarrow> x = \<lparr>sm_version = v, sm_mode = m, sm_base = b\<rparr>"
  by (auto simp: validate_stage_def split: if_splits)

lemma sends_chunk:
  assumes "validate_stage s (sa_version a) (sa_mode a) (sa_base a) = Inr meta" and "path_name path \<noteq> []"
    and "file = pre @ chunk @ post"
  shows "sends s (plan_of sha a path file) (arrives (chunk_request sha a path file (length pre) chunk)) (int (length pre)) chunk"
  using assms validate_stage_meta [OF assms(1)]
  by (auto simp: sends_def plan_of_def slice_of_def stage_chunk_args_def chunk_fields_read validate_stage_metadata_def
      chunk_fields_get parse_fields chosen_chunk_filename)

lemma asks_finalize:
  assumes "validate_stage s (sa_version a) (sa_mode a) (sa_base a) = Inr meta" and "path_name path \<noteq> []"
  shows "asks_to_finalize s (plan_of sha a path file) (arrives ((request_to ''/stage_finalize'')\<lparr>hr_data := chunk_data sha a path file\<rparr>))"
  using assms validate_stage_meta [OF assms(1)]
  by (simp add: asks_to_finalize_def plan_of_def chunk_fields_read validate_stage_metadata_def chunk_fields_get0 parse_fields0
      chosen_chunk_filename0)

section \<open>A chunked upload\<close>

text \<open>Peers that all answer do not fail a call.\<close>

lemma fan_out_all_ok: "(\<And>p. snd (send p)) \<Longrightarrow> relay_failure_response t (snd (fan_out_all s relay send)) = None"
  by (auto simp: fan_out_all_def relay_failure_response_def filter_empty_conv)

lemma fan_out_stream_ok: "(\<And>p i. snd (send p i)) \<Longrightarrow> relay_failure_response t (snd (fan_out_stream u send)) = None"
  by (auto simp: fan_out_stream_def relay_failure_response_def filter_empty_conv)

definition peers_answer :: "surroundings \<Rightarrow> bool" where
  "peers_answer E \<longleftrightarrow> su_peers E = (\<lambda>_ _. True)"

definition upload_frame :: "server \<Rightarrow> server \<Rightarrow> bool" where
  "upload_frame s t \<longleftrightarrow> t = s\<lparr>stage_uploads := stage_uploads t, s_files := s_files t\<rparr>"

lemma upload_frameI: "t = s\<lparr>stage_uploads := U, s_files := F\<rparr> \<Longrightarrow> upload_frame s t"
  by (simp add: upload_frame_def)

lemma upload_frame_refl: "upload_frame s s"
  by (simp add: upload_frame_def)

lemma upload_frame_trans: "upload_frame s t \<Longrightarrow> upload_frame t u \<Longrightarrow> upload_frame s u"
  unfolding upload_frame_def by (cases s; cases t; cases u) simp

lemma upload_frame_rules: "upload_frame s t \<Longrightarrow> same_rules s t"
  unfolding upload_frame_def same_rules_def by (cases s; cases t) simp

lemma upload_frame_store: "upload_frame s (store_chunk key u off chunk s)"
  by (simp add: upload_frame_def store_chunk_def write_chunk_def put_file_def Let_def)

text \<open>Where an upload stands: nothing has arrived yet, or what has been sent is in its file.\<close>

definition receiving :: "upload_plan \<Rightarrow> (int \<times> int) list \<Rightarrow> server \<Rightarrow> bool" where
  "receiving p sent s \<longleftrightarrow> uploading p sent s \<or>
     sent = [] \<and> dget (stage_uploads s) (plan_key p) = None \<and> dget (s_files s) (plan_temp s p) = None"

lemma stage_chunk_received:
  assumes sends: "sends s p r off chunk" and at: "receiving p sent s"
  shows "uploading p (sent @ [(off, off + int (length chunk))]) (fst (stage_chunk ok r s))" (is ?up)
    and "upload_frame s (fst (stage_chunk ok r s))"
    and "ok = (\<lambda>_ _. True) \<Longrightarrow> \<exists>n. snd (snd (stage_chunk ok r s)) = Received n"
proof -
  show ?up
    using at first_chunk(1) [OF sends] next_chunk(1) [OF sends] by (auto simp: receiving_def)
  obtain c where args: "stage_chunk_args s r = Inr c" and c: "ck_bytes c = chunk" "ck_offset c = off"
    "ck_filename c = pl_name p" "ck_total c = int (length (pl_file p))" "ck_sha c = pl_sha p" "ck_meta c = pl_meta p"
  proof -
    have "stage_chunk_args s r = Inr \<lparr>ck_meta = pl_meta p, ck_offset = off, ck_total = int (length (pl_file p)),
        ck_sha = pl_sha p, ck_filename = pl_name p, ck_bytes = chunk\<rparr>" using sends by (simp add: sends_def)
    then show thesis by (rule that) simp_all
  qed
  define u where "u = (case dget (stage_uploads s) (chunk_key c) of None \<Rightarrow> new_chunked_upload s c | Some u \<Rightarrow> u)"
  have "same_upload u (pl_name p) (int (length (pl_file p))) (pl_sha p) (sm_base (pl_meta p))"
    using at by (auto simp: u_def c receiving_def uploading_def chunk_key_def plan_key_def same_upload_def new_chunked_upload_def
        split: option.splits)
  then obtain n t where acc: "accept_chunk c s = (t, Received n)" and t: "t = store_chunk (chunk_key c) u off chunk s"
    unfolding accept_chunk_def u_def [symmetric] Let_def c by simp
  show "upload_frame s (fst (stage_chunk ok r s))"
    by (simp add: stage_chunk_def args acc t is_received_def upload_frame_store Let_def split: prod.split)
  show "\<exists>n. snd (snd (stage_chunk ok r s)) = Received n" if "ok = (\<lambda>_ _. True)"
  proof -
    let ?f = "fst (read_request_fields r)"
    obtain calls stats where f: "fan_out_stage_chunk t ok ?f chunk (relay_requested ?f) = (calls, stats)" by force
    have "relay_failure_response t (snd (fan_out_stage_chunk t ok ?f chunk (relay_requested ?f))) = None"
      unfolding fan_out_stage_chunk_def by (rule fan_out_all_ok) (simp add: that)
    then show ?thesis by (simp add: stage_chunk_def args acc is_received_def or_failure_def c f)
  qed
qed

lemma uploading_covers: "uploading p sent s \<Longrightarrow> covered sent = covered sent' \<Longrightarrow> uploading p sent' s"
  by (simp add: uploading_def)

lemma covered_snoc: "covered (sent @ [(a, b)]) = covered sent \<union> {a..<b}"
  by (induction sent) auto

lemma covered_next:
  assumes "covered sent = {0..<int k}"
  shows "covered (sent @ [(int k, int k + int m)]) = {0..<int (k + m)}"
  using ivl_disj_un_two(3) [of 0 "int k" "int k + int m"] by (simp add: covered_snoc assms)

text \<open>One chunk that the client sends.\<close>

lemma post_chunk:
  assumes "validate_stage s (sa_version a) (sa_mode a) (sa_base a) = Inr meta" and "path_name path \<noteq> []"
    and "file = pre @ chunk @ post" and "receiving (plan_of sha a path file) sent s" and "covered sent = {0..<int (length pre)}"
    and "peers_answer E"
  obtains t sent' where "post_ok (server_http E) (chunk_request sha a path file (length pre) chunk) s = (t, Inr ())"
    "uploading (plan_of sha a path file) sent' t" "covered sent' = {0..<int (length (pre @ chunk))}" "upload_frame s t"
proof -
  let ?q = "chunk_request sha a path file (length pre) chunk"
  note r = stage_chunk_received [OF sends_chunk [OF assms(1-3)] assms(4), where ok = "su_peers E"]
  obtain t calls n where t: "stage_chunk (su_peers E) (arrives ?q) s = (t, calls, Received n)"
    using r(3) assms(6) unfolding peers_answer_def by (metis prod.collapse)
  have "post_ok (server_http E) ?q s = (t, Inr ())"
    using t by (simp add: post_ok_def bindS_def http_post_def server_http_def chunk_request_def request_to_def answer_def returns_def)
  moreover have "uploading (plan_of sha a path file) (sent @ [(int (length pre), int (length pre) + int (length chunk))]) t"
    "upload_frame s t" using r(1,2) t by simp_all
  ultimately show thesis using that covered_next [OF assms(5), of "length chunk"] by simp
qed

lemma send_chunks_upload:
  assumes "0 < n" "path_name path \<noteq> []" "peers_answer E"
    and "validate_stage s (sa_version a) (sa_mode a) (sa_base a) = Inr meta" "file = pre @ rest" "rest \<noteq> []"
    and "receiving (plan_of sha a path file) sent s" "covered sent = {0..<int (length pre)}"
  shows "\<exists>t sent'. send_chunks (server_http E) (chunk_request sha a path file) n (length pre) rest s = (t, Inr ())
     \<and> uploading (plan_of sha a path file) sent' t \<and> covered sent' = {0..<int (length file)} \<and> upload_frame s t"
  using assms(4-8)
proof (induction "length rest" arbitrary: rest pre sent s rule: less_induct)
  case less
  let ?c = "take n rest" and ?d = "drop n rest"
  have f: "file = pre @ ?c @ ?d" using less.prems(2) by simp
  obtain t sent' where t: "post_ok (server_http E) (chunk_request sha a path file (length pre) ?c) s = (t, Inr ())"
    "uploading (plan_of sha a path file) sent' t" "covered sent' = {0..<int (length (pre @ ?c))}" "upload_frame s t"
    by (rule post_chunk [OF less.prems(1) assms(2) f less.prems(4,5) assms(3)])
  have step: "send_chunks (server_http E) (chunk_request sha a path file) n (length pre) rest s
      = send_chunks (server_http E) (chunk_request sha a path file) n (length (pre @ ?c)) ?d t"
    using t(1) less.prems(3) assms(1) by (subst send_chunks.simps) simp
  show ?case
  proof (cases "?d = []")
    case True
    have "file = pre @ ?c" using f True by simp
    then have "length (pre @ ?c) = length file" by simp
    moreover have "send_chunks (server_http E) (chunk_request sha a path file) n (length (pre @ ?c)) ?d t = (t, Inr ())"
      using True by (subst send_chunks.simps) (simp add: returns_def)
    ultimately show ?thesis using t step by metis
  next
    case False
    have "length ?d < length rest" using assms(1) less.prems(3) by (cases rest) auto
    moreover have "validate_stage t (sa_version a) (sa_mode a) (sa_base a) = Inr meta"
      using validate_same_rules [OF upload_frame_rules [OF t(4)]] less.prems(1) by simp
    moreover have "file = (pre @ ?c) @ ?d" using f by simp
    ultimately obtain u sent'' where "send_chunks (server_http E) (chunk_request sha a path file) n (length (pre @ ?c)) ?d t = (u, Inr ())"
      "uploading (plan_of sha a path file) sent'' u" "covered sent'' = {0..<int (length file)}" "upload_frame t u"
      using less.hyps [of ?d t "pre @ ?c" sent'] False t(2,3) by (auto simp: receiving_def)
    then show ?thesis using step upload_frame_trans [OF t(4)] by metis
  qed
qed

text \<open>What the server has after the upload: the version staged, with the client's file.\<close>

definition holds_staged :: "server \<Rightarrow> stage_args \<Rightarrow> byte list \<Rightarrow> server \<Rightarrow> bool" where
  "holds_staged s a file t \<longleftrightarrow> core t = core s \<and> paused t = paused s \<and> api_server_count t = api_server_count s \<and>
     (\<exists>e. dget (staged_versions t) (sa_version a) = Some e \<and> e_mode e = sa_mode a \<and> e_base e = sa_base a
        \<and> dget (s_files t) (e_path e) = Some file)"

definition may_upload :: "server \<Rightarrow> stage_args \<Rightarrow> string \<Rightarrow> bool" where
  "may_upload s a path \<longleftrightarrow> path_name path \<noteq> [] \<and> (\<exists>meta. validate_stage s (sa_version a) (sa_mode a) (sa_base a) = Inr meta)"

lemma validate_core: "core t = core s \<Longrightarrow> api_server_count t = api_server_count s \<Longrightarrow> validate_stage t v m b = validate_stage s v m b"
  by (simp add: core_def validate_stage_def current_version_def)

lemma cleanup_keeps: "p \<noteq> e_path e \<Longrightarrow> dget (s_files (cleanup_staged_file e s)) p = dget (s_files s) p"
  by (simp add: cleanup_staged_file_def unlink_def dget_dpop)

lemma cleanup_frame [simp]: "paused (cleanup_staged_file e s) = paused s" "api_server_count (cleanup_staged_file e s) = api_server_count s"
  by (simp_all add: cleanup_staged_file_def unlink_def)

lemma register_staged:
  assumes "validate_stage s v (e_mode e) (e_base e) = Inr meta" and "dget (s_files s) (e_path e) = Some file"
  obtains t where "register_staged_version v e s = (t, None)" "dget (staged_versions t) v = Some e"
    "dget (s_files t) (e_path e) = Some file" "core t = core s" "paused t = paused s" "api_server_count t = api_server_count s"
proof -
  define s1 where "s1 = (case dget (staged_versions s) v of None \<Rightarrow> s
      | Some previous \<Rightarrow> if e_path previous \<noteq> e_path e then cleanup_staged_file previous s else s)"
  have "dget (s_files s1) (e_path e) = Some file" "core s1 = core s" "paused s1 = paused s" "api_server_count s1 = api_server_count s"
    using assms(2) by (auto simp: s1_def cleanup_keeps core_simps split: option.split)
  then show thesis using that [of "s1\<lparr>staged_versions := dput v e (staged_versions s1)\<rparr>"] assms(1)
    by (simp add: register_staged_version_def s1_def [symmetric] core_simps dict_simps)
qed

lemma relay_stream_file_ok:
  "ok = (\<lambda>_ _. True) \<Longrightarrow> (\<forall>m r. job \<noteq> RelayFile m r) \<Longrightarrow> relay_failure_response t (snd (run_relay s ok p job)) = None"
  by (cases job) (auto simp: run_relay_def fan_out_stream_finalize_def fan_out_stage_finalize_def intro!: fan_out_all_ok fan_out_stream_ok)

text \<open>Finalizing registers the version.\<close>

lemma settle_registering:
  assumes out: "out = (s1, Registering pd)" and pd: "pd_version pd = sa_version a" "e_mode (pd_entry pd) = sa_mode a"
      "e_base (pd_entry pd) = sa_base a" "\<forall>m r. pd_relay pd \<noteq> RelayFile m r"
    and fl: "dget (s_files s1) (e_path (pd_entry pd)) = Some file" and E: "peers_answer E"
    and val: "validate_stage s1 (sa_version a) (sa_mode a) (sa_base a) = Inr meta"
  obtains t where "settle_outcome E out = (t, Response 200 [])" "holds_staged s1 a file t"
proof -
  have "validate_stage s1 (pd_version pd) (e_mode (pd_entry pd)) (e_base (pd_entry pd)) = Inr meta" using val pd by simp
  from register_staged [OF this fl] obtain t where t: "register_staged_version (pd_version pd) (pd_entry pd) s1 = (t, None)"
    "dget (staged_versions t) (pd_version pd) = Some (pd_entry pd)" "dget (s_files t) (e_path (pd_entry pd)) = Some file"
    "core t = core s1" "paused t = paused s1" "api_server_count t = api_server_count s1" .
  obtain calls stats where r: "run_relay t (su_peers E) (e_path (pd_entry pd)) (pd_relay pd) = (calls, stats)" by force
  have "relay_failure_response t stats = None"
    using relay_stream_file_ok [OF E [unfolded peers_answer_def] pd(4), of t t "e_path (pd_entry pd)"] r by simp
  then have "settle_outcome E out = (t, Response 200 [])"
    using t(1) r by (simp add: settle_outcome_def out finish_register_def or_failure_def answer_def)
  moreover have "holds_staged s1 a file t" using t pd by (auto simp: holds_staged_def)
  ultimately show thesis by (rule that)
qed

lemma holds_staged_frame: "upload_frame s s1 \<Longrightarrow> holds_staged s1 a file t \<Longrightarrow> holds_staged s a file t"
  unfolding upload_frame_def holds_staged_def core_def by (cases s; cases s1) simp

lemma chunked_upload_stages:
  assumes "0 < n" "peers_answer E" "may_upload s a path" "su_sha E = sha"
    and "dget (stage_uploads s) (plan_key (plan_of sha a path file)) = None"
    and "dget (s_files s) (plan_temp s (plan_of sha a path file)) = None"
  obtains t where "stage_chunked_upload (server_http E) sha n a path file s = (t, Inr ())" "holds_staged s a file t"
proof -
  let ?p = "plan_of sha a path file" and ?req = "chunk_request sha a path file"
  obtain meta where v: "validate_stage s (sa_version a) (sa_mode a) (sa_base a) = Inr meta" and nm: "path_name path \<noteq> []"
    using assms(3) by (auto simp: may_upload_def)
  have r0: "receiving ?p [] s" using assms(5,6) by (simp add: receiving_def)
  define first where "first = (if file = [] then post_ok (server_http E) (?req 0 []) else send_chunks (server_http E) ?req n 0 file)"
  have "\<exists>t sent. first s = (t, Inr ()) \<and> uploading ?p sent t \<and> covered sent = {0..<int (length file)} \<and> upload_frame s t"
  proof (cases "file = []")
    case True
    obtain t sent where "post_ok (server_http E) (?req (length ([] :: byte list)) []) s = (t, Inr ())" "uploading ?p sent t"
      "covered sent = {0..<int (length ([] @ [] :: byte list))}" "upload_frame s t"
      by (rule post_chunk [where pre = "[]" and chunk = "[]" and post = "[]", OF v nm _ r0 _ assms(2)]) (use True in simp_all)
    then show ?thesis using True by (auto simp: first_def)
  next
    case False
    then show ?thesis
      using send_chunks_upload [where pre = "[]", OF assms(1) nm assms(2) v _ False r0] by (simp add: first_def)
  qed
  then obtain s1 sent where s1: "first s = (s1, Inr ())" "uploading ?p sent s1" "covered sent = {0..<int (length file)}"
    "upload_frame s s1" by blast
  let ?q = "(request_to ''/stage_finalize'')\<lparr>hr_data := chunk_data sha a path file\<rparr>"
  have v1: "validate_stage s1 (sa_version a) (sa_mode a) (sa_base a) = Inr meta"
    using validate_same_rules [OF upload_frame_rules [OF s1(4)]] v by simp
  have pl: "pl_file ?p = file" "pl_sha ?p = sha file" "pl_meta ?p = \<lparr>sm_version = sa_version a, sm_mode = sa_mode a, sm_base = sa_base a\<rparr>"
    by (simp_all add: plan_of_def)
  obtain s2 pd where s2: "stage_finalize (su_sha E) (su_uuid E) (arrives ?q) s1 = (s2, Registering pd)"
    "pd_version pd = sa_version a" "e_mode (pd_entry pd) = sa_mode a" "e_base (pd_entry pd) = sa_base a"
    "dget (s_files s2) (e_path (pd_entry pd)) = Some file" "\<exists>U F. s2 = s1\<lparr>stage_uploads := U, s_files := F\<rparr>"
    "\<exists>f relay. pd_relay pd = RelayChunked f relay"
    using finalize_uploaded [where h = "su_sha E" and uuid = "su_uuid E", OF s1(2) _ asks_finalize [OF v1 nm]] s1(3) pl assms(4) by auto
  have fr: "upload_frame s1 s2" using s2(6) by (auto intro: upload_frameI)
  have v2: "validate_stage s2 (sa_version a) (sa_mode a) (sa_base a) = Inr meta"
    using validate_same_rules [OF upload_frame_rules [OF fr]] v1 by simp
  have "\<forall>m r. pd_relay pd \<noteq> RelayFile m r" using s2(7) by auto
  from settle_registering [OF s2(1-4) this s2(5) assms(2) v2] obtain t where
    t: "settle_outcome E (stage_finalize (su_sha E) (su_uuid E) (arrives ?q) s1) = (t, Response 200 [])" "holds_staged s2 a file t" .
  have "post_ok (server_http E) ?q s1 = (t, Inr ())"
    using t(1) by (simp add: post_ok_def bindS_def http_post_def server_http_def request_to_def returns_def)
  then have "stage_chunked_upload (server_http E) sha n a path file s = (t, Inr ())"
    using s1(1) by (simp add: stage_chunked_upload_def first_def [symmetric])
  then show thesis using that holds_staged_frame [OF upload_frame_trans [OF s1(4) fr] t(2)] by blast
qed

section \<open>Committing\<close>

lemma commit_request_fields:
  "read_request_fields (arrives ((request_to ''/commit'')\<lparr>hr_data := [(''version'', v), (''mode'', m)]\<rparr>))
     = ([(''version'', FStr v), (''mode'', FStr m)], None)"
  by (simp add: fields_of_data request_to_def text_fields_def)

lemma relay_paused_ok: "snd (relay_paused (\<lambda>_ _. True) route data peer)"
  by (simp add: relay_paused_def)

lemma commit_finish_ok:
  assumes "peers_answer E"
  obtains t calls where "commit_finish (su_peers E) job s = (t, calls, Success)" "core t = core s"
proof -
  let ?s = "keep_only (cj_version job) s"
  obtain calls stats where f: "fan_out_commit ?s (su_peers E) (cj_version job) (e_mode (cj_entry job)) (cj_relay job) = (calls, stats)"
    by force
  have "relay_failure_response ?s (snd (fan_out_commit ?s (su_peers E) (cj_version job) (e_mode (cj_entry job)) (cj_relay job))) = None"
    unfolding fan_out_commit_def assms [unfolded peers_answer_def] by (rule fan_out_all_ok) (rule relay_paused_ok)
  then have "commit_finish (su_peers E) job s = (?s, calls, Success)" by (simp add: commit_finish_def f or_failure_def)
  then show thesis by (rule that) (rule core_keep_only)
qed

lemma commit_loads:
  assumes staged: "holds_staged s0 a file s" and clean: "\<not> weights_dirty s" "active_version s \<noteq> Some (sa_version a)"
    and val: "validate_stage s (sa_version a) (sa_mode a) (sa_base a) = Inr meta" and E: "peers_answer E" "su_engine E"
  obtains t where "commit_endpoint (server_http E) (sa_version a) (Some (sa_mode a)) s = (t, Inr ())"
    "active_version t = Some (sa_version a)" "\<not> weights_dirty t" "\<not> paused t"
    "engine_log t = engine_log s @ [RpcCommit (sa_version a) (sa_mode a) (sa_base a) (Some file)]"
proof -
  obtain e where e: "dget (staged_versions s) (sa_version a) = Some e" "e_mode e = sa_mode a" "e_base e = sa_base a"
    "dget (s_files s) (e_path e) = Some file" using staged by (auto simp: holds_staged_def)
  let ?q = "(request_to ''/commit'')\<lparr>hr_data := [(''version'', sa_version a), (''mode'', sa_mode a)]\<rparr>"
  define s1 where "s1 = s\<lparr>paused := True\<rparr>"
  define job where "job = \<lparr>cj_version = sa_version a, cj_entry = e, cj_relay = True\<rparr>"
  define s2 where "s2 = commit_called True job (s1\<lparr>weights_dirty := True\<rparr>)"
  have v1: "validate_stage s1 (sa_version a) (sa_mode a) (sa_base a) = Inr meta"
    using validate_core [of s1 s] val by (simp add: s1_def core_simps)
  have beg: "commit_begin (arrives ?q) s1 = (s1\<lparr>weights_dirty := True\<rparr>, CallEngine job)"
    using e clean v1 by (simp add: commit_begin_def commit_request_fields field_opt_def s1_def job_def relay_requested_def coerce_bool_def)
  obtain s3 calls where s3: "commit_finish (su_peers E) job s2 = (s3, calls, Success)" "core s3 = core s2"
    by (rule commit_finish_ok [OF E(1)])
  have c2: "core s2 = (Some (sa_version a), False, engine_log s @ [RpcCommit (sa_version a) (sa_mode a) (sa_base a) (Some file)])"
    using e by (simp add: s2_def commit_called_def log_call_def core_def job_def s1_def)
  let ?t = "s3\<lparr>paused := False\<rparr>"
  have com: "post_ok (server_http E) ?q s1 = (s3, Inr ())"
    using beg s3(1) E(2)
    by (simp add: post_ok_def bindS_def http_post_def server_http_def request_to_def handle_commit_def s2_def answer_def returns_def)
  have "pause_engine (server_http E) s = (s1, Inr ())"
    by (simp add: pause_engine_def post_ok_def bindS_def http_post_def server_http_def request_to_def pause_def answer_def returns_def s1_def)
  moreover have "resume_engine (server_http E) s3 = (?t, Inr ())"
    using s3(2) c2 by (simp add: resume_engine_def post_ok_def bindS_def http_post_def server_http_def request_to_def resume_def answer_def returns_def core_def)
  ultimately have "commit_endpoint (server_http E) (sa_version a) (Some (sa_mode a)) s = (?t, Inr ())"
    using com by (simp add: commit_endpoint_def with_pause_def)
  then show thesis using that [of ?t] s3(2) c2 by (simp add: core_def)
qed

text \<open>C6. The client's file is what the engine loads: let a server with clean weights accept the version, with no upload
  of it under way and peers that answer. Then uploading a file in chunks of any size and committing it succeeds; the
  engine was called once, with exactly the bytes of the file, the version is active, and generation goes on.\<close>

theorem upload_and_commit_loads_file:
  assumes "0 < n" and "path_name path \<noteq> []" and "\<exists>meta. validate_stage s (sa_version a) (sa_mode a) (sa_base a) = Inr meta"
    and "\<not> weights_dirty s" "active_version s \<noteq> Some (sa_version a)"
    and "dget (stage_uploads s) (stage_upload_key (sa_version a) (sa_mode a)) = None"
    and "dget (s_files s) (plan_temp s (plan_of (su_sha E) a path file)) = None"
    and "su_peers E = (\<lambda>_ _. True)" "su_engine E"
  shows "\<exists>t. bindS (stage_chunked_upload (server_http E) (su_sha E) n a path file)
               (\<lambda>_. commit_endpoint (server_http E) (sa_version a) (Some (sa_mode a))) s = (t, Inr ())
     \<and> active_version t = Some (sa_version a) \<and> \<not> weights_dirty t \<and> \<not> paused t
     \<and> engine_log t = engine_log s @ [RpcCommit (sa_version a) (sa_mode a) (sa_base a) (Some file)]"
proof -
  have E: "peers_answer E" using assms(8) by (simp add: peers_answer_def)
  obtain meta where v: "validate_stage s (sa_version a) (sa_mode a) (sa_base a) = Inr meta" using assms(3) by blast
  have may: "may_upload s a path" using assms(2,3) by (simp add: may_upload_def)
  have key: "dget (stage_uploads s) (plan_key (plan_of (su_sha E) a path file)) = None"
    using assms(6) by (simp add: plan_key_def plan_of_def)
  obtain t where t: "stage_chunked_upload (server_http E) (su_sha E) n a path file s = (t, Inr ())" "holds_staged s a file t"
    by (rule chunked_upload_stages [OF assms(1) E may refl key assms(7)])
  have c: "core t = core s" "api_server_count t = api_server_count s" using t(2) by (simp_all add: holds_staged_def)
  have "\<not> weights_dirty t" "active_version t \<noteq> Some (sa_version a)" "engine_log t = engine_log s"
    using c(1) assms(4,5) by (simp_all add: core_def)
  moreover have "validate_stage t (sa_version a) (sa_mode a) (sa_base a) = Inr meta" using validate_core [OF c] v by simp
  ultimately obtain u where "commit_endpoint (server_http E) (sa_version a) (Some (sa_mode a)) t = (u, Inr ())"
    "active_version u = Some (sa_version a)" "\<not> weights_dirty u" "\<not> paused u"
    "engine_log u = engine_log s @ [RpcCommit (sa_version a) (sa_mode a) (sa_base a) (Some file)]"
    using commit_loads [OF t(2) _ _ _ E assms(9)] by metis
  then show ?thesis using t(1) by auto
qed

definition demo_surroundings :: surroundings where
  "demo_surroundings = \<lparr>su_sha = (\<lambda>bs. show_nat (length bs)), su_uuid = ''u1'', su_expanduser = (\<lambda>p. p), su_ids = (\<lambda>_. None),
     su_peers = (\<lambda>_ _. True), su_engine = True\<rparr>"

definition demo_args :: stage_args where
  "demo_args = \<lparr>sa_version = ''1'', sa_mode = ''delta'', sa_base = Some ''0''\<rparr>"

theorem upload_and_commit_loads_file_witness:
  "\<exists>t. bindS (stage_chunked_upload (server_http demo_surroundings) (su_sha demo_surroundings) 2 demo_args ''b/step_1/delta.safetensors'' [7, 8, 9])
         (\<lambda>_. commit_endpoint (server_http demo_surroundings) ''1'' (Some ''delta'')) demo_server = (t, Inr ())
     \<and> active_version t = Some ''1'' \<and> engine_log t = [RpcCommit ''1'' ''delta'' (Some ''0'') (Some [7, 8, 9])]"
proof -
  have v: "\<exists>meta. validate_stage demo_server (sa_version demo_args) (sa_mode demo_args) (sa_base demo_args) = Inr meta"
    by (simp add: demo_args_def demo_server_def init_server_def validate_stage_def current_version_def)
  have n: "path_name ''b/step_1/delta.safetensors'' \<noteq> []" by code_simp
  show ?thesis
    using upload_and_commit_loads_file [of 2 "''b/step_1/delta.safetensors''" demo_server demo_args demo_surroundings "[7, 8, 9]", OF _ n v]
    by (auto simp: demo_server_def init_server_def demo_args_def demo_surroundings_def)
qed

end
