(* ===== verification/Nccl.thy ===== *)
theory Nccl
  imports FileBroadcast ClientUpload "HOL-Library.Multiset"
begin

text \<open>
  Broadcasting weights over NCCL (\<open>trainer/rl/broadcast/nccl.py\<close>, \<open>inference/vllm/worker/nccl.py\<close>): the sender and the receiver
  take part in the same sequence of collectives, which is a list here; pickle is a pair of parameters. Every rank
  resolves and converts the weights of a layer, the master sends them.
\<close>

section \<open>Collectives\<close>

datatype collective =
    Integer int
  | Bytes "byte list"
  | Elements dtype "int list"

type_synonym metadata = "(dtype \<times> (string \<times> nat list \<times> nat) list) list"

record pickle =
  pk_dumps :: "metadata \<Rightarrow> byte list"
  pk_loads :: "byte list \<Rightarrow> metadata res"

definition pickle_ok :: "pickle \<Rightarrow> bool" where
  "pickle_ok P \<longleftrightarrow> (\<forall>m. pk_loads P (pk_dumps P m) = Inr m)"

text \<open>A receive that does not match the send blocks, or fills the buffer with something else: it is an error here.\<close>

abbreviation mismatch :: pyerr where
  "mismatch \<equiv> RuntimeError ''mismatched message''"

fun receive_integer :: "collective list \<Rightarrow> (int \<times> collective list) res" where
  "receive_integer (Integer i # ms) = Inr (i, ms)"
| "receive_integer _ = Inl mismatch"

fun receive_bytes :: "int \<Rightarrow> collective list \<Rightarrow> (byte list \<times> collective list) res" where
  "receive_bytes n (Bytes bs # ms) = (if int (length bs) = n then Inr (bs, ms) else Inl mismatch)"
| "receive_bytes n _ = Inl mismatch"

fun receive_elements :: "dtype \<Rightarrow> nat \<Rightarrow> collective list \<Rightarrow> (int list \<times> collective list) res" where
  "receive_elements d n (Elements d' xs # ms) = (if d' = d \<and> length xs = n then Inr (xs, ms) else Inl mismatch)"
| "receive_elements d n _ = Inl mismatch"

section \<open>Sending a state dict\<close>

definition add_to_group :: "(dtype, (string \<times> tensor) list) dict \<Rightarrow> string \<times> tensor \<Rightarrow> (dtype, (string \<times> tensor) list) dict" where
  "add_to_group g kv = (let d = tdtype (snd kv)
     in dput d ((case dget g d of None \<Rightarrow> [] | Some items \<Rightarrow> items) @ [kv]) g)"

definition dtype_groups :: "state_dict \<Rightarrow> (dtype, (string \<times> tensor) list) dict" where
  "dtype_groups sd = foldl add_to_group [] sd"

definition metadata_of :: "(dtype, (string \<times> tensor) list) dict \<Rightarrow> metadata" where
  "metadata_of g = map (\<lambda>(d, items). (d, map (\<lambda>(k, t). (k, tshape t, numel t)) items)) g"

definition broadcast_state_dict :: "pickle \<Rightarrow> state_dict \<Rightarrow> collective list" where
  "broadcast_state_dict P sd =
     (let g = dtype_groups sd; state = pk_dumps P (metadata_of g)
      in [Integer (int (length state)), Bytes state]
         @ map (\<lambda>(d, items). Elements d (concat (map (\<lambda>(_, t). tdata t) items))) g)"

section \<open>Receiving it\<close>

definition view :: "dtype \<Rightarrow> int list \<Rightarrow> nat list \<Rightarrow> tensor res" where
  "view d xs shape =
     bindR (ensure (prod_list shape = length xs) (RuntimeError ''shape is invalid for input'')) (\<lambda>_.
       Inr \<lparr>tdtype = d, tshape = shape, tdata = xs\<rparr>)"

fun split_group :: "dtype \<Rightarrow> int list \<Rightarrow> (string \<times> nat list \<times> nat) list \<Rightarrow> (string \<times> tensor) list res" where
  "split_group d xs [] = Inr []"
| "split_group d xs ((k, shape, n) # infos) =
     bindR (view d (take n xs) shape) (\<lambda>t. bindR (split_group d (drop n xs) infos) (\<lambda>ts. Inr ((k, t) # ts)))"

fun receive_groups :: "metadata \<Rightarrow> collective list \<Rightarrow> ((string \<times> tensor) list \<times> collective list) res" where
  "receive_groups [] ms = Inr ([], ms)"
| "receive_groups ((d, infos) # gs) ms =
     bindR (receive_elements d (\<Sum>(_, _, n) \<leftarrow> infos. n) ms) (\<lambda>(xs, ms1).
     bindR (split_group d xs infos) (\<lambda>ts.
     bindR (receive_groups gs ms1) (\<lambda>(us, ms2). Inr (ts @ us, ms2))))"

definition receive_state_dict :: "pickle \<Rightarrow> collective list \<Rightarrow> ((string \<times> tensor) list \<times> collective list) res" where
  "receive_state_dict P ms =
     bindR (receive_integer ms) (\<lambda>(size, ms1).
     bindR (receive_bytes size ms1) (\<lambda>(state, ms2).
     bindR (pk_loads P state) (\<lambda>metadata. receive_groups metadata ms2)))"

fun receive_state_dicts :: "pickle \<Rightarrow> nat \<Rightarrow> collective list \<Rightarrow> ((string \<times> tensor) list \<times> collective list) res" where
  "receive_state_dicts P 0 ms = Inr ([], ms)"
| "receive_state_dicts P (Suc n) ms =
     bindR (receive_state_dict P ms) (\<lambda>(ts, ms1).
     bindR (receive_state_dicts P n ms1) (\<lambda>(us, ms2). Inr (ts @ us, ms2)))"

definition receive_weights :: "pickle \<Rightarrow> collective list \<Rightarrow> ((string \<times> tensor) list \<times> collective list) res" where
  "receive_weights P ms = bindR (receive_integer ms) (\<lambda>(n, ms1). receive_state_dicts P (nat n) ms1)"

section \<open>Layers\<close>

definition layer_num_str :: "string \<Rightarrow> string \<Rightarrow> string" where
  "layer_num_str layer_prefix key = takeWhile (\<lambda>c. c \<noteq> CHR ''.'') (drop (length layer_prefix) key)"

definition get_max_layer_num :: "string \<Rightarrow> string list \<Rightarrow> int" where
  "get_max_layer_num layer_prefix keys =
     foldl (\<lambda>m key. if startswith key layer_prefix \<and> isdecimal (layer_num_str layer_prefix key)
                    then max m (int (decimal_value (layer_num_str layer_prefix key))) else m) (-1) keys + 1"

definition layer_key :: "string \<Rightarrow> nat \<Rightarrow> string" where
  "layer_key layer_prefix i = layer_prefix @ show_nat i @ ''.''"

definition filter_state_dict_by_layers :: "state_dict \<Rightarrow> int \<Rightarrow> string \<Rightarrow> (int \<times> state_dict) list" where
  "filter_state_dict_by_layers sd num_layers layer_prefix =
     (-1, filter (\<lambda>(k, _). \<not> startswith k layer_prefix) sd)
       # map (\<lambda>i. (int i, filter (\<lambda>(k, _). startswith k (layer_key layer_prefix i)) sd)) [0..<nat num_layers]"

text \<open>The master's side; \<open>preprocess\<close> is the conversion of a layer that is configured, with its tensors resolved.\<close>

definition send_weights :: "pickle \<Rightarrow> (state_dict \<Rightarrow> int \<Rightarrow> state_dict res) \<Rightarrow> string \<Rightarrow> state_dict \<Rightarrow> collective list res" where
  "send_weights P preprocess layer_prefix sd =
     (let num_layers = get_max_layer_num layer_prefix (dkeys sd)
      in bindR (mapR (\<lambda>(i, layer). bindR (preprocess layer i) (\<lambda>t. Inr (broadcast_state_dict P t)))
                 (filter_state_dict_by_layers sd num_layers layer_prefix))
           (\<lambda>ms. Inr (Integer (num_layers + 1) # concat ms)))"

section \<open>Markers\<close>

text \<open>Every rank derives the runs to notify; the master marks their directories; all wait until each of them is
  ready. \<open>resolvable\<close>: the directory of the run can be named.\<close>

definition compute_notified_runs :: "manager \<Rightarrow> (nat \<times> string \<times> int) list" where
  "compute_notified_runs m = List.map_filter (\<lambda>idx.
     if ready_to_update m ! idx
     then (case run_and_step m idx of Inl _ \<Rightarrow> None | Inr (run, step) \<Rightarrow> Some (idx, run, step)) else None) (used_idxs m)"

definition notify_run :: "(nat \<Rightarrow> bool) \<Rightarrow> manager \<times> broadcast_state \<Rightarrow> nat \<times> string \<times> int \<Rightarrow> manager \<times> broadcast_state" where
  "notify_run gone = (\<lambda>(m, s) (idx, run, step).
     (m\<lparr>ready_to_update := (ready_to_update m)[idx := False]\<rparr>,
      if gone idx then s else edit_step run step (\<lambda>d. d\<lparr>sd_stable := True\<rparr>) s))"

definition notify_orchestrator :: "(nat \<Rightarrow> bool) \<Rightarrow> (nat \<times> string \<times> int) list \<Rightarrow> manager \<times> broadcast_state \<Rightarrow> manager \<times> broadcast_state" where
  "notify_orchestrator gone runs ms = foldl (notify_run gone) ms runs"

text \<open>Polls of \<open>sync_wait_for_path\<close>: \<open>None\<close> is still waiting.\<close>

fun sync_wait_for_path :: "bool list \<Rightarrow> bool list option" where
  "sync_wait_for_path [] = None"
| "sync_wait_for_path (p # polls) = (if p then Some polls else sync_wait_for_path polls)"

fun wait_for_nccl_ready :: "('a \<Rightarrow> bool list) \<Rightarrow> 'a list \<Rightarrow> bool" where
  "wait_for_nccl_ready polls [] = True"
| "wait_for_nccl_ready polls (r # rs) = (sync_wait_for_path (polls r) \<noteq> None \<and> wait_for_nccl_ready polls rs)"

definition broadcast_nccl ::
  "pickle \<Rightarrow> (state_dict \<Rightarrow> int \<Rightarrow> state_dict res) \<Rightarrow> string \<Rightarrow> (nat \<Rightarrow> bool) \<Rightarrow> (nat \<times> string \<times> int \<Rightarrow> bool list) \<Rightarrow> state_dict
     \<Rightarrow> manager \<times> broadcast_state \<Rightarrow> (manager \<times> broadcast_state) \<times> collective list res option" where
  "broadcast_nccl P preprocess layer_prefix gone polls sd ms =
     (let runs = compute_notified_runs (fst ms);
          ms' = (if is_master (fst ms) then notify_orchestrator gone runs ms else ms)
      in if \<not> wait_for_nccl_ready polls runs then (ms', None)
         else (ms', Some (bindR (send_weights P preprocess layer_prefix sd)
                            (\<lambda>sent. Inr (if is_master (fst ms) then sent else [])))))"

text \<open>The rank of an inference worker in the group of the trainer and all inference GPUs.\<close>

definition inference_rank :: "nat \<Rightarrow> nat \<Rightarrow> nat" where
  "inference_rank rank_offset local_rank = rank_offset + local_rank + 1"

section \<open>What is received is what was sent\<close>

lemma split_group_items:
  "\<forall>(k, t) \<in> set items. tdtype t = d \<and> tensor_wf t \<Longrightarrow>
   split_group d (concat (map (\<lambda>(_, t). tdata t) items)) (map (\<lambda>(k, t). (k, tshape t, numel t)) items) = Inr items"
proof (induction items)
  case (Cons a items)
  obtain k t where a: "a = (k, t)" by (cases a)
  have t: "tdtype t = d" "prod_list (tshape t) = length (tdata t)" using Cons.prems by (auto simp: a tensor_wf_def)
  have "view d (tdata t) (tshape t) = Inr t" using t by (cases t) (simp add: view_def)
  then show ?case using Cons by (simp add: a numel_def)
qed simp

lemma numel_sum: "(\<Sum>(_, _, n) \<leftarrow> map (\<lambda>(k, t). (k, tshape t, numel t)) items. n) = length (concat (map (\<lambda>(_, t). tdata t) items))"
  by (induction items) (auto simp: numel_def)

definition groups_wf :: "(dtype, (string \<times> tensor) list) dict \<Rightarrow> bool" where
  "groups_wf g \<longleftrightarrow> (\<forall>(d, items) \<in> set g. \<forall>(k, t) \<in> set items. tdtype t = d \<and> tensor_wf t)"

lemma receive_sent_groups:
  "groups_wf g \<Longrightarrow> receive_groups (metadata_of g) (map (\<lambda>(d, items). Elements d (concat (map (\<lambda>(_, t). tdata t) items))) g @ ms)
     = Inr (concat (map snd g), ms)"
proof (induction g)
  case (Cons a g)
  obtain d items where a: "a = (d, items)" by (cases a)
  have w: "\<forall>(k, t) \<in> set items. tdtype t = d \<and> tensor_wf t" "groups_wf g" using Cons.prems by (auto simp: a groups_wf_def)
  have m: "metadata_of (a # g) = (d, map (\<lambda>(k, t). (k, tshape t, numel t)) items) # metadata_of g"
    by (simp add: a metadata_of_def)
  show ?case
    using Cons.IH [OF w(2)] split_group_items [OF w(1)]
    by (simp add: m [unfolded a] a numel_sum del: length_concat map_map)
qed (simp add: metadata_of_def)

lemma add_to_group_mset: "mset (concat (map snd (add_to_group g kv))) = mset (concat (map snd g)) + {#kv#}"
proof -
  have "mset (concat (map snd (dput d ((case dget g d of None \<Rightarrow> [] | Some items \<Rightarrow> items) @ [kv]) g))) = mset (concat (map snd g)) + {#kv#}" for d
  proof (induction g)
    case (Cons p g)
    then show ?case by (cases p) (auto split: option.splits)
  qed simp
  then show ?thesis by (simp add: add_to_group_def Let_def)
qed

lemma add_to_group_wf:
  assumes "groups_wf g" and "tensor_wf (snd kv)" shows "groups_wf (add_to_group g kv)"
proof -
  define d where "d = tdtype (snd kv)"
  define items where "items = (case dget g d of None \<Rightarrow> [] | Some items \<Rightarrow> items)"
  have "\<forall>(k, t) \<in> set items. tdtype t = d \<and> tensor_wf t"
  proof (cases "dget g d")
    case (Some us)
    then have "(d, us) \<in> set g" by (rule map_of_SomeD)
    then show ?thesis using assms(1) by (auto simp: items_def Some groups_wf_def)
  qed (simp add: items_def)
  then have "\<forall>p \<in> set (dput d (items @ [kv]) g). (\<lambda>(d, items). \<forall>(k, t) \<in> set items. tdtype t = d \<and> tensor_wf t) p"
    using assms unfolding groups_wf_def by (intro dput_all) (auto simp: d_def)
  then show ?thesis by (simp add: groups_wf_def add_to_group_def Let_def d_def items_def)
qed

lemma dtype_groups_spec:
  "\<forall>t \<in> snd ` set sd. tensor_wf t \<Longrightarrow> groups_wf (dtype_groups sd) \<and> mset (concat (map snd (dtype_groups sd))) = mset sd"
proof (induction sd rule: rev_induct)
  case Nil
  show ?case by (simp add: dtype_groups_def groups_wf_def)
next
  case (snoc kv sd)
  then show ?case using add_to_group_wf [of "dtype_groups sd" kv] add_to_group_mset [of "dtype_groups sd" kv]
    by (simp add: dtype_groups_def)
qed

lemma receive_sent:
  assumes "pickle_ok P" and "\<forall>t \<in> snd ` set sd. tensor_wf t"
  shows "\<exists>items. mset items = mset sd \<and> receive_state_dict P (broadcast_state_dict P sd @ ms) = Inr (items, ms)"
proof -
  have g: "groups_wf (dtype_groups sd)" "mset (concat (map snd (dtype_groups sd))) = mset sd" using dtype_groups_spec [OF assms(2)] by auto
  have p: "pk_loads P (pk_dumps P m) = Inr m" for m using assms(1) by (simp add: pickle_ok_def)
  show ?thesis
    by (intro exI [of _ "concat (map snd (dtype_groups sd))"])
       (simp add: g(2) receive_state_dict_def broadcast_state_dict_def Let_def p receive_sent_groups [OF g(1)])
qed

lemma receive_all_sent:
  assumes "pickle_ok P" and "\<forall>sd \<in> set sds. \<forall>t \<in> snd ` set sd. tensor_wf t"
  shows "\<exists>items. mset items = (\<Sum>sd \<leftarrow> sds. mset sd) \<and> receive_state_dicts P (length sds) (concat (map (broadcast_state_dict P) sds) @ ms) = Inr (items, ms)"
  using assms(2)
proof (induction sds)
  case (Cons sd sds)
  obtain us where u: "mset us = (\<Sum>sd \<leftarrow> sds. mset sd)"
    "receive_state_dicts P (length sds) (concat (map (broadcast_state_dict P) sds) @ ms) = Inr (us, ms)" using Cons by auto
  obtain ts where t: "mset ts = mset sd" "receive_state_dict P (broadcast_state_dict P sd @ (concat (map (broadcast_state_dict P) sds) @ ms))
      = Inr (ts, concat (map (broadcast_state_dict P) sds) @ ms)"
    using receive_sent [OF assms(1)] Cons.prems by (metis list.set_intros(1))
  show ?case using u t by (intro exI [of _ "ts @ us"]) simp
qed simp

section \<open>Every tensor has one layer\<close>

text \<open>The names of the layers are written in decimal, without leading zeros.\<close>

definition layers_numbered :: "string \<Rightarrow> state_dict \<Rightarrow> bool" where
  "layers_numbered layer_prefix sd \<longleftrightarrow>
     (\<forall>key \<in> fst ` set sd. startswith key layer_prefix \<longrightarrow> (\<exists>i rest. key = layer_key layer_prefix i @ rest))"

lemma decimal_value_show_nat [simp]: "decimal_value (show_nat n) = n"
proof (induction n rule: show_nat.induct)
  case (1 n)
  show ?case
  proof (cases "n < 10")
    case True
    then have s: "show_nat n = [char_of (48 + n)]" by (subst show_nat.simps) simp
    show ?thesis using True by (simp add: s decimal_value_def)
  next
    case False
    then have s: "show_nat n = show_nat (n div 10) @ [char_of (48 + n mod 10)]" by (subst show_nat.simps) simp
    show ?thesis using 1 False unfolding s by (simp add: decimal_value_def)
  qed
qed

lemma isdecimal_show_nat [simp]: "isdecimal (show_nat n)"
  using show_nat_digits [of n] show_nat_not_empty [of n] by (simp add: isdecimal_def list_all_iff)

lemma no_dot_show_nat: "\<forall>c \<in> set (show_nat n). c \<noteq> CHR ''.''"
  using show_nat_digits [of n] by (auto simp: is_digit_def)

lemma layer_num_of_key: "layer_num_str layer_prefix (layer_key layer_prefix i @ rest) = show_nat i"
  using no_dot_show_nat [of i] by (simp add: layer_num_str_def layer_key_def takeWhile_append)

lemma startswith_layer_key [simp]: "startswith (layer_key layer_prefix i @ rest) layer_prefix"
  by (simp add: layer_key_def startswith_def)

lemma startswith_layer_iff: "startswith (layer_key p i @ rest) (layer_key p j) \<longleftrightarrow> i = j"
proof
  assume "startswith (layer_key p i @ rest) (layer_key p j)"
  then obtain r where "layer_key p i @ rest = layer_key p j @ r" by (auto simp: startswith_iff)
  then have "show_nat i = show_nat j" by (metis layer_num_of_key)
  then show "i = j" by (metis decimal_value_show_nat)
qed (simp add: startswith_def)

lemma max_layer_bound:
  "m0 \<le> foldl (\<lambda>m key. if P key then max m (v key) else m) (m0::int) keys
   \<and> (\<forall>key \<in> set keys. P key \<longrightarrow> v key \<le> foldl (\<lambda>m key. if P key then max m (v key) else m) m0 keys)"
  by (induction keys rule: rev_induct) auto

lemma layer_below_max:
  assumes "layer_key layer_prefix i @ rest \<in> set keys" shows "int i < get_max_layer_num layer_prefix keys"
  using conjunct2 [OF max_layer_bound [where P = "\<lambda>key. startswith key layer_prefix \<and> isdecimal (layer_num_str layer_prefix key)"
      and v = "\<lambda>key. int (decimal_value (layer_num_str layer_prefix key))"], rule_format, OF assms]
  by (simp add: get_max_layer_num_def layer_num_of_key)

text \<open>Splitting into classes that partition loses nothing.\<close>

lemma filter_partition:
  assumes "\<forall>x \<in> set xs. \<exists>!j. j < length Ps \<and> (Ps ! j) x"
  shows "(\<Sum>P \<leftarrow> Ps. mset (filter P xs)) = mset xs"
proof (rule multiset_eqI)
  fix x
  have count: "count (\<Sum>P \<leftarrow> Qs. mset (filter P xs)) x = count (mset xs) x * length (filter (\<lambda>P. P x) Qs)" for Qs
    by (induction Qs) (auto simp: mset_filter)
  show "count (\<Sum>P \<leftarrow> Ps. mset (filter P xs)) x = count (mset xs) x"
  proof (cases "x \<in> set xs")
    case True
    then have "\<exists>!j. j < length Ps \<and> (Ps ! j) x" using assms by blast
    then obtain j where "j < length Ps \<and> (Ps ! j) x" "\<forall>i. i < length Ps \<and> (Ps ! i) x \<longrightarrow> i = j" by (elim ex1E) (rule that)
    then have "{i. i < length Ps \<and> (Ps ! i) x} = {j}" by blast
    then have "length (filter (\<lambda>P. P x) Ps) = 1" by (simp add: length_filter_conv_card)
    then show ?thesis unfolding count by simp
  next
    case False
    then have "count (mset xs) x = 0" by (simp add: count_eq_zero_iff)
    then show ?thesis unfolding count by simp
  qed
qed

lemma layers_partition:
  assumes "layers_numbered layer_prefix sd"
  shows "(\<Sum>(i, layer) \<leftarrow> filter_state_dict_by_layers sd (get_max_layer_num layer_prefix (dkeys sd)) layer_prefix. mset layer) = mset sd"
proof -
  define n where "n = nat (get_max_layer_num layer_prefix (dkeys sd))"
  define Ps where "Ps = (\<lambda>x :: string \<times> tensor. \<not> startswith (fst x) layer_prefix) # map (\<lambda>i x. startswith (fst x) (layer_key layer_prefix i)) [0..<n]"
  have "\<exists>!j. j < length Ps \<and> (Ps ! j) x" if x: "x \<in> set sd" for x
  proof (cases "startswith (fst x) layer_prefix")
    case False
    have no: "\<not> startswith (fst x) (layer_key layer_prefix i)" for i
      using False by (auto simp: startswith_iff layer_key_def)
    show ?thesis
    proof (rule ex1I [of _ 0])
      fix j
      assume "j < length Ps \<and> (Ps ! j) x"
      then show "j = 0" using no by (cases j) (auto simp: Ps_def split_beta)
    qed (use False in \<open>simp add: Ps_def split_beta\<close>)
  next
    case True
    then obtain i rest where k: "fst x = layer_key layer_prefix i @ rest"
      using assms x by (force simp: layers_numbered_def)
    have "fst x \<in> set (dkeys sd)" using x by simp
    then have i: "i < n" using layer_below_max [of layer_prefix i rest "dkeys sd"] by (simp add: k n_def)
    show ?thesis
    proof (rule ex1I [of _ "Suc i"])
      fix j
      assume "j < length Ps \<and> (Ps ! j) x"
      then show "j = Suc i" using True by (cases j) (auto simp: Ps_def split_beta k startswith_layer_iff)
    qed (use i in \<open>simp add: Ps_def split_beta k startswith_layer_iff\<close>)
  qed
  then have "(\<Sum>P \<leftarrow> Ps. mset (filter P sd)) = mset sd" by (intro filter_partition) blast
  then show ?thesis
    by (simp add: Ps_def filter_state_dict_by_layers_def n_def comp_def split_beta)
qed

section \<open>The broadcast\<close>

lemma mapR_bind: "mapR (\<lambda>x. bindR (f x) (\<lambda>t. Inr (h t))) xs = bindR (mapR f xs) (\<lambda>ts. Inr (map h ts))"
  by (induction xs) (auto simp: bindR_def split: sum.splits)

lemma mapR_all: "mapR f xs = Inr ys \<Longrightarrow> \<forall>x \<in> set xs. \<forall>y. f x = Inr y \<longrightarrow> Q y \<Longrightarrow> \<forall>y \<in> set ys. Q y"
  by (induction xs arbitrary: ys) (auto simp: bindR_def split: sum.splits)

lemma get_max_layer_num_nonneg: "0 \<le> get_max_layer_num layer_prefix keys"
  using conjunct1 [OF max_layer_bound [where ?m0.0 = "-1" and P = "\<lambda>key. startswith key layer_prefix \<and> isdecimal (layer_num_str layer_prefix key)"
      and v = "\<lambda>key. int (decimal_value (layer_num_str layer_prefix key))" and keys = keys]]
  by (simp add: get_max_layer_num_def)

lemma layers_count: "length (filter_state_dict_by_layers sd (get_max_layer_num layer_prefix keys) layer_prefix)
    = nat (get_max_layer_num layer_prefix keys + 1)"
  using get_max_layer_num_nonneg [of layer_prefix keys] by (simp add: filter_state_dict_by_layers_def nat_add_distrib)

lemma send_weights_all:
  "send_weights P preprocess layer_prefix sd =
     bindR (mapR (\<lambda>(i, layer). preprocess layer i) (filter_state_dict_by_layers sd (get_max_layer_num layer_prefix (dkeys sd)) layer_prefix))
       (\<lambda>outs. Inr (Integer (get_max_layer_num layer_prefix (dkeys sd) + 1) # concat (map (broadcast_state_dict P) outs)))"
proof -
  have e: "(\<lambda>(i, layer). bindR (preprocess layer i) (\<lambda>t. Inr (broadcast_state_dict P t)))
      = (\<lambda>x. bindR ((\<lambda>(i, layer). preprocess layer i) x) (\<lambda>t. Inr (broadcast_state_dict P t)))" by (auto simp: fun_eq_iff)
  show ?thesis unfolding send_weights_def Let_def e mapR_bind
    by (cases "mapR (\<lambda>(i, layer). preprocess layer i) (filter_state_dict_by_layers sd (get_max_layer_num layer_prefix (dkeys sd)) layer_prefix)")
       simp_all
qed

text \<open>C26. Weights broadcast over NCCL arrive. The master sends a count, and per layer a size, the pickled names and
  shapes, and one flat buffer per element type. A receiver that reads that sequence consumes it exactly, and what
  it yields is, name by name and shape by shape, the converted layers that were sent; and the layers partition the model's
  state dict: no tensor is lost and none is sent twice, provided that layers are numbered in decimal.
\<close>

theorem nccl_weights_arrive:
  assumes "pickle_ok P" and "layers_numbered layer_prefix sd"
    and "\<forall>layer i out. preprocess layer i = Inr out \<longrightarrow> (\<forall>t \<in> snd ` set out. tensor_wf t)"
    and "send_weights P preprocess layer_prefix sd = Inr sent"
  shows "\<exists>layers outs items.
    layers = filter_state_dict_by_layers sd (get_max_layer_num layer_prefix (dkeys sd)) layer_prefix
    \<and> (\<Sum>(i, layer) \<leftarrow> layers. mset layer) = mset sd
    \<and> mapR (\<lambda>(i, layer). preprocess layer i) layers = Inr outs
    \<and> receive_weights P (sent @ rest) = Inr (items, rest)
    \<and> mset items = (\<Sum>out \<leftarrow> outs. mset out)"
proof -
  define n where "n = get_max_layer_num layer_prefix (dkeys sd)"
  define layers where "layers = filter_state_dict_by_layers sd n layer_prefix"
  obtain outs where o: "mapR (\<lambda>(i, layer). preprocess layer i) layers = Inr outs"
    and sent: "sent = Integer (n + 1) # concat (map (broadcast_state_dict P) outs)"
    using assms(4) unfolding send_weights_all n_def layers_def by (auto simp: bindR_def split: sum.splits)
  have "\<forall>out \<in> set outs. \<forall>t \<in> snd ` set out. tensor_wf t"
    by (rule mapR_all [OF o]) (use assms(3) in \<open>auto simp: split_beta\<close>)
  then obtain items where "mset items = (\<Sum>out \<leftarrow> outs. mset out)"
    "receive_state_dicts P (length outs) (concat (map (broadcast_state_dict P) outs) @ rest) = Inr (items, rest)"
    using receive_all_sent [OF assms(1)] by blast
  moreover have "length outs = nat (n + 1)"
    using mapR_length [OF o] layers_count [of sd layer_prefix "dkeys sd"] by (simp add: layers_def n_def)
  ultimately have "mset items = (\<Sum>out \<leftarrow> outs. mset out) \<and> receive_weights P (sent @ rest) = Inr (items, rest)"
    by (simp add: receive_weights_def sent)
  then show ?thesis using o layers_partition [OF assms(2)] unfolding layers_def n_def by blast
qed

text \<open>A concrete encoding of the metadata: counts in unary, characters by their code.\<close>

definition enc_nat :: "nat \<Rightarrow> byte list" where
  "enc_nat n = replicate n 1 @ [0]"

definition dec_nat :: "byte list \<Rightarrow> nat \<times> byte list" where
  "dec_nat bs = (length (takeWhile (\<lambda>b. b \<noteq> 0) bs), drop (Suc (length (takeWhile (\<lambda>b. b \<noteq> 0) bs))) bs)"

definition enc_list :: "('a \<Rightarrow> byte list) \<Rightarrow> 'a list \<Rightarrow> byte list" where
  "enc_list e xs = enc_nat (length xs) @ concat (map e xs)"

fun dec_items :: "(byte list \<Rightarrow> 'a \<times> byte list) \<Rightarrow> nat \<Rightarrow> byte list \<Rightarrow> 'a list \<times> byte list" where
  "dec_items d 0 bs = ([], bs)"
| "dec_items d (Suc n) bs = (let (x, bs1) = d bs; (xs, bs2) = dec_items d n bs1 in (x # xs, bs2))"

definition dec_list :: "(byte list \<Rightarrow> 'a \<times> byte list) \<Rightarrow> byte list \<Rightarrow> 'a list \<times> byte list" where
  "dec_list d bs = (let (n, bs1) = dec_nat bs in dec_items d n bs1)"

lemma dec_enc_nat [simp]: "dec_nat (enc_nat n @ r) = (n, r)"
proof -
  have "takeWhile (\<lambda>b. b \<noteq> 0) (enc_nat n @ r) = replicate n (1 :: byte)" by (induction n) (auto simp: enc_nat_def)
  then show ?thesis by (simp add: dec_nat_def enc_nat_def)
qed

lemma dec_enc_list [simp]: "(\<And>x r. d (e x @ r) = (x, r)) \<Longrightarrow> dec_list d (enc_list e xs @ r) = (xs, r)"
proof -
  assume d: "\<And>x r. d (e x @ r) = (x, r)"
  have "dec_items d (length xs) (concat (map e xs) @ r) = (xs, r)" by (induction xs) (auto simp: d)
  then show ?thesis by (simp add: dec_list_def enc_list_def)
qed


definition dtype_codes :: "dtype list" where
  "dtype_codes = [Float16, BFloat16, Float32, Float64, Int64, Int32, Int8, UInt8]"

fun enc_dtype :: "dtype \<Rightarrow> byte list" where
  "enc_dtype Float16 = enc_nat 0" | "enc_dtype BFloat16 = enc_nat 1" | "enc_dtype Float32 = enc_nat 2"
| "enc_dtype Float64 = enc_nat 3" | "enc_dtype Int64 = enc_nat 4" | "enc_dtype Int32 = enc_nat 5"
| "enc_dtype Int8 = enc_nat 6" | "enc_dtype UInt8 = enc_nat 7"
| "enc_dtype (OtherDtype s n) = enc_nat 8 @ enc_list (\<lambda>c. enc_nat (of_char c)) s @ enc_nat n"

definition dec_string :: "byte list \<Rightarrow> string \<times> byte list" where
  "dec_string = dec_list (\<lambda>bs. let (n, r) = dec_nat bs in (char_of n, r))"

definition dec_dtype :: "byte list \<Rightarrow> dtype \<times> byte list" where
  "dec_dtype bs = (let (c, r) = dec_nat bs in
     if c < 8 then (dtype_codes ! c, r)
     else (let (s, r1) = dec_string r; (n, r2) = dec_nat r1 in (OtherDtype s n, r2)))"

definition enc_info :: "string \<times> nat list \<times> nat \<Rightarrow> byte list" where
  "enc_info = (\<lambda>(k, shape, n). enc_list (\<lambda>c. enc_nat (of_char c)) k @ enc_list enc_nat shape @ enc_nat n)"

definition dec_info :: "byte list \<Rightarrow> (string \<times> nat list \<times> nat) \<times> byte list" where
  "dec_info bs = (let (k, r1) = dec_string bs; (shape, r2) = dec_list dec_nat r1; (n, r3) = dec_nat r2 in ((k, shape, n), r3))"

definition enc_group :: "dtype \<times> (string \<times> nat list \<times> nat) list \<Rightarrow> byte list" where
  "enc_group = (\<lambda>(d, infos). enc_dtype d @ enc_list enc_info infos)"

definition dec_group :: "byte list \<Rightarrow> (dtype \<times> (string \<times> nat list \<times> nat) list) \<times> byte list" where
  "dec_group bs = (let (d, r) = dec_dtype bs; (infos, r1) = dec_list dec_info r in ((d, infos), r1))"

definition unary_pickle :: pickle where
  "unary_pickle = \<lparr>pk_dumps = enc_list enc_group, pk_loads = (\<lambda>bs. Inr (fst (dec_list dec_group bs)))\<rparr>"

lemma dec_string_enc [simp]: "dec_string (enc_list (\<lambda>c. enc_nat (of_char c)) s @ r) = (s, r)"
  by (simp add: dec_string_def)

lemma dec_dtype_enc [simp]: "dec_dtype (enc_dtype d @ r) = (d, r)"
  by (cases d) (simp_all add: dec_dtype_def dtype_codes_def)

lemma dec_info_enc [simp]: "dec_info (enc_info i @ r) = (i, r)"
  by (cases i) (simp add: dec_info_def enc_info_def)

lemma dec_group_enc [simp]: "dec_group (enc_group g @ r) = (g, r)"
  by (cases g) (simp add: dec_group_def enc_group_def)

lemma unary_pickle_ok: "pickle_ok unary_pickle"
  using dec_enc_list [of dec_group enc_group _ "[]"] by (simp add: pickle_ok_def unary_pickle_def)

definition demo_weights :: state_dict where
  "demo_weights = [(''model.embed.w'', flat_tensor Float32 [1, 2]), (''model.layers.0.w'', flat_tensor Int8 [3]),
     (''model.layers.1.w'', flat_tensor Float32 [4, 5, 6])]"

theorem nccl_weights_arrive_witness:
  "\<exists>sent items. send_weights unary_pickle (\<lambda>layer i. if list_all (\<lambda>t. tensor_wf (snd t)) layer then Inr layer else Inl mismatch)
       ''model.layers.'' demo_weights = Inr sent
     \<and> receive_weights unary_pickle (sent @ [Integer 7]) = Inr (items, [Integer 7]) \<and> mset items = mset demo_weights"
proof -
  let ?pre = "\<lambda>(layer :: state_dict) (i :: int). if list_all (\<lambda>t. tensor_wf (snd t)) layer then Inr layer else Inl mismatch"
  have pre: "\<forall>layer i out. ?pre layer i = Inr out \<longrightarrow> (\<forall>t \<in> snd ` set out. tensor_wf t)"
    by (auto simp: list_all_iff split: if_splits)
  have s: "startswith ''model.embed.w'' ''model.layers.'' = False" "show_nat 0 = ''0''" "show_nat 1 = ''1''" by code_simp+
  have k: "''model.layers.0.w'' = layer_key ''model.layers.'' 0 @ ''w''" "''model.layers.1.w'' = layer_key ''model.layers.'' 1 @ ''w''"
    using s(2,3) by (simp_all add: layer_key_def)
  have layers: "layers_numbered ''model.layers.'' demo_weights"
    unfolding layers_numbered_def demo_weights_def using s(1) k by (simp only: image_insert set_simps fst_conv ball_simps image_empty simp_thms) blast
  have n: "get_max_layer_num ''model.layers.'' (dkeys demo_weights) = 2" by code_simp
  have split: "filter_state_dict_by_layers demo_weights 2 ''model.layers.''
     = [(-1, [demo_weights ! 0]), (0, [demo_weights ! 1]), (1, [demo_weights ! 2])]" by code_simp
  have wf: "list_all (\<lambda>t. tensor_wf (snd t)) [demo_weights ! 0]" "list_all (\<lambda>t. tensor_wf (snd t)) [demo_weights ! 1]"
    "list_all (\<lambda>t. tensor_wf (snd t)) [demo_weights ! 2]" by code_simp+
  obtain sent where sent: "send_weights unary_pickle ?pre ''model.layers.'' demo_weights = Inr sent"
    using wf by (simp add: send_weights_def n split)
  have sum: "mset [demo_weights ! 0] + (mset [demo_weights ! 1] + mset [demo_weights ! 2]) = mset demo_weights"
    by (simp add: demo_weights_def)
  show ?thesis
    using nccl_weights_arrive [OF unary_pickle_ok layers pre sent, of "[Integer 7]"] sent sum wf unfolding n split
    by auto
qed

end
