(* ===== verification/Rollout.thy ===== *)
theory Rollout
  imports Batch
begin

text \<open>
  Rollouts, as the orchestrator gets them from an environment, and what it does to a batch of them before
  they become training samples: lengths (\<open>orchestrator/vf_utils.py\<close>), advantages
  (\<open>orchestrator/advantage.py\<close>) and filters (\<open>orchestrator/filters.py\<close>). Python float
  arithmetic and comparisons are the parameter \<open>float_ops\<close>; the advantage function of a group and the
  thresholds, which are computed with \<open>math.log\<close> or torch, are parameters too. A field that code
  reads before any code sets it is an option.
\<close>

section \<open>Data\<close>

record routed_payload =
  rp_data :: string
  rp_shape :: "nat list"

type_synonym mm_item = "(string, encoded_tensor) dict"

record mm_data =
  mm_items :: "(string, mm_item list) dict"
  mm_hashes :: "(string, string list) dict"

record token_data =
  td_prompt_ids :: "int list"
  td_prompt_mask :: "bool list"
  td_completion_ids :: "int list"
  td_completion_mask :: "bool list"
  td_completion_logprobs :: "float64 list"
  td_routed_experts :: "routed_payload option"
  td_mm :: "mm_data option"

record usage =
  us_prompt_tokens :: nat
  us_total_tokens :: nat

record trajectory_step =
  tj_tokens :: "token_data option"
  tj_usage :: "usage option"

record rollout =
  ro_example_id :: int
  ro_env_name :: string
  ro_error :: "string option"
  ro_trajectory :: "trajectory_step list"
  ro_reward :: float64
  ro_temperature :: float64
  ro_metrics :: "(string, int option) dict"
  ro_advantage :: "float64 option"
  ro_filters :: "(string, bool) dict"
  ro_is_filtered :: "bool option"

record float_ops =
  fl_sum :: "float64 list \<Rightarrow> float64"
  fl_add :: "float64 \<Rightarrow> float64 \<Rightarrow> float64"
  fl_times :: "float64 \<Rightarrow> int \<Rightarrow> float64"
  fl_div :: "float64 \<Rightarrow> nat \<Rightarrow> float64"
  fl_le :: "float64 \<Rightarrow> float64 \<Rightarrow> bool"
  fl_lt :: "float64 \<Rightarrow> float64 \<Rightarrow> bool"
  fl_eq :: "float64 \<Rightarrow> float64 \<Rightarrow> bool"

definition mean :: "float_ops \<Rightarrow> float64 list \<Rightarrow> float64" where
  "mean F values = (if values = [] then f_zero else fl_div F (fl_sum F values) (length values))"

section \<open>Lengths\<close>

definition get_prompt_len :: "rollout \<Rightarrow> nat" where
  "get_prompt_len r =
     (case ro_trajectory r of
        [] \<Rightarrow> 0
      | s # _ \<Rightarrow> (case tj_tokens s of
          Some t \<Rightarrow> length (td_prompt_ids t)
        | None \<Rightarrow> (case tj_usage s of None \<Rightarrow> 0 | Some u \<Rightarrow> us_prompt_tokens u)))"

definition get_seq_len :: "rollout \<Rightarrow> nat" where
  "get_seq_len r =
     (if ro_trajectory r = [] then 0
      else let s = last (ro_trajectory r) in
        (case tj_tokens s of
          Some t \<Rightarrow> length (td_prompt_ids t) + length (td_completion_ids t)
        | None \<Rightarrow> (case tj_usage s of None \<Rightarrow> 0 | Some u \<Rightarrow> us_total_tokens u)))"

definition get_completion_len :: "rollout \<Rightarrow> int" where
  "get_completion_len r = int (get_seq_len r) - int (get_prompt_len r)"

definition get_model_completion_len :: "rollout \<Rightarrow> nat" where
  "get_model_completion_len r =
     sum_list (map (\<lambda>s. case tj_tokens s of None \<Rightarrow> 0 | Some t \<Rightarrow> length (td_completion_ids t)) (ro_trajectory r))"

definition get_num_turns :: "rollout \<Rightarrow> nat" where
  "get_num_turns r = length (ro_trajectory r)"

text \<open>A metric that is not a number is \<open>None\<close>; a number is taken as \<open>int\<close> truncates it.\<close>

definition get_tool_response_len :: "rollout \<Rightarrow> int" where
  "get_tool_response_len r =
     (case find (\<lambda>(key, v). endswith key ''total_tool_response_tokens'' \<and> v \<noteq> None) (ro_metrics r) of
        Some (_, Some n) \<Rightarrow> n
      | _ \<Rightarrow> 0)"

section \<open>Groups\<close>

text \<open>The rollouts of an example, in order; groups are in the order of their first rollout.\<close>

type_synonym group_key = "string \<times> int"

definition group_key :: "rollout \<Rightarrow> group_key" where
  "group_key r = (ro_env_name r, ro_example_id r)"

definition group_rollouts :: "rollout list \<Rightarrow> (group_key, rollout list) dict" where
  "group_rollouts rs =
     foldl (\<lambda>d r. dput (group_key r) ((case dget d (group_key r) of None \<Rightarrow> [] | Some g \<Rightarrow> g) @ [r]) d) [] rs"

section \<open>Advantages\<close>

text \<open>
  Advantages are stored in the rollouts in place: the rollouts are the elements of a list, and a group
  is the positions of its members. Where a custom function returns too few advantages, \<open>zip\<close> leaves
  the rest as they were.
\<close>

definition group_positions :: "rollout list \<Rightarrow> (group_key, nat list) dict" where
  "group_positions rs =
     foldl (\<lambda>d (i, r). dput (group_key r) ((case dget d (group_key r) of None \<Rightarrow> [] | Some g \<Rightarrow> g) @ [i]) d) []
       (enumerate 0 rs)"

definition store_advantages :: "rollout list \<Rightarrow> nat list \<Rightarrow> float64 list \<Rightarrow> rollout list" where
  "store_advantages rs idxs advantages =
     foldl (\<lambda>rs (i, a). rs[i := (rs ! i)\<lparr>ro_advantage := Some a\<rparr>]) rs (zip idxs advantages)"

definition compute_advantages :: "(rollout list \<Rightarrow> float64 list res) option \<Rightarrow> rollout list \<Rightarrow> rollout list res" where
  "compute_advantages advantage_fn rs =
     (case advantage_fn of
        None \<Rightarrow> Inr (map (\<lambda>r. r\<lparr>ro_advantage := Some (ro_reward r)\<rparr>) rs)
      | Some f \<Rightarrow>
          foldR (\<lambda>rs (k, idxs). bindR (f (map (\<lambda>i. rs ! i) idxs)) (\<lambda>advantages.
                  Inr (store_advantages rs idxs advantages)))
            rs (group_positions rs))"

text \<open>The default function. Its tensors hold \<open>float32\<close> elements; the elementwise operations and the
  reductions of torch are the parameter \<open>t32_ops\<close>.\<close>

type_synonym float32 = "32 word"

record t32_ops =
  t_of_float :: "float64 \<Rightarrow> float32"
  t_to_float :: "float32 \<Rightarrow> float64"
  t_of_int :: "int \<Rightarrow> float32"
  t_add :: "float32 \<Rightarrow> float32 \<Rightarrow> float32"
  t_sub :: "float32 \<Rightarrow> float32 \<Rightarrow> float32"
  t_mul :: "float32 \<Rightarrow> float32 \<Rightarrow> float32"
  t_div :: "float32 \<Rightarrow> float32 \<Rightarrow> float32"
  t_ge :: "float32 \<Rightarrow> float32 \<Rightarrow> bool"
  t_clamp :: "float32 \<Rightarrow> float32 \<Rightarrow> float32 \<Rightarrow> float32"
  t_sum :: "float32 list \<Rightarrow> float32"
  t_mean :: "float32 list \<Rightarrow> float32"
  t_max :: "float32 list \<Rightarrow> float32"

datatype length_penalty =
    NoPenalty
  | TokensPenalty float64 float64
  | TurnsPenalty

definition centered :: "t32_ops \<Rightarrow> float32 list \<Rightarrow> float32 list" where
  "centered T xs = map (\<lambda>x. t_sub T x (t_mean T xs)) xs"

definition efficiency_shaping :: "t32_ops \<Rightarrow> float32 list \<Rightarrow> float32 list \<Rightarrow> float32 list" where
  "efficiency_shaping T rewards costs =
     (let zero = t_of_int T 0; one = t_of_int T 1;
          max_reward = t_max T rewards;
          correct_mask = map (\<lambda>r. t_ge T r max_reward) rewards;
          num_correct = length (filter id correct_mask);
          factor = (\<lambda>correct. t_of_int T (if correct then 1 else 0))
      in if t_ge T zero max_reward then centered T rewards
         else
           let mean_correct_cost = t_div T (t_sum T (map2 (\<lambda>c correct. t_mul T c (factor correct)) costs correct_mask))
                 (t_of_int T (int (max 1 num_correct)))
           in if t_ge T zero mean_correct_cost then centered T rewards
              else
                let bonus = map (\<lambda>c. t_clamp T (t_sub T one (t_div T c mean_correct_cost)) zero one) costs;
                    shaped_rewards = map2 (\<lambda>r x. t_mul T r (t_add T one x)) rewards
                      (map2 (\<lambda>b correct. t_mul T b (factor correct)) bonus correct_mask)
                in centered T shaped_rewards)"

definition default_advantage_fn :: "float_ops \<Rightarrow> t32_ops \<Rightarrow> length_penalty \<Rightarrow> rollout list \<Rightarrow> float64 list" where
  "default_advantage_fn F T penalty rs =
     (let rewards = map (t_of_float T \<circ> ro_reward) rs in
      map (t_to_float T)
        (case penalty of
           NoPenalty \<Rightarrow> centered T rewards
         | TokensPenalty w_c w_t \<Rightarrow>
             efficiency_shaping T rewards
               (map (\<lambda>r. t_of_float T (fl_add F (fl_times F w_c (int (get_model_completion_len r)))
                                              (fl_times F w_t (get_tool_response_len r)))) rs)
         | TurnsPenalty \<Rightarrow> efficiency_shaping T rewards (map (\<lambda>r. t_of_int T (int (get_num_turns r))) rs)))"

section \<open>Filters\<close>

datatype filter_kind =
    Gibberish int float64
  | Repetition int float64
  | ZeroAdvantage

record rollout_filter =
  rf_name :: string
  rf_kind :: filter_kind
  rf_enforce :: bool

text \<open>The completion tokens of the steps that have tokens, in order.\<close>

definition completion_tokens :: "rollout \<Rightarrow> (int \<times> float64) list" where
  "completion_tokens r =
     concat (map (\<lambda>s. case tj_tokens s of None \<Rightarrow> [] | Some t \<Rightarrow> zip (td_completion_ids t) (td_completion_logprobs t))
       (ro_trajectory r))"

definition completion_logprobs :: "rollout \<Rightarrow> float64 list" where
  "completion_logprobs r =
     concat (map (\<lambda>s. case tj_tokens s of None \<Rightarrow> [] | Some t \<Rightarrow> td_completion_logprobs t) (ro_trajectory r))"

fun first_index :: "('a \<Rightarrow> bool) \<Rightarrow> nat \<Rightarrow> 'a list \<Rightarrow> nat option" where
  "first_index P n [] = None"
| "first_index P n (x # xs) = (if P x then Some n else first_index P (Suc n) xs)"

fun repetition_index :: "(float64 \<Rightarrow> bool) \<Rightarrow> int \<Rightarrow> int \<Rightarrow> nat \<Rightarrow> float64 list \<Rightarrow> nat option" where
  "repetition_index confident window streak n [] = None"
| "repetition_index confident window streak n (lp # lps) =
     (let streak = (if confident lp then streak + 1 else 0) in
      if streak \<ge> window then Some n else repetition_index confident window streak (Suc n) lps)"

text \<open>\<open>FilterResult\<close>: whether the filter detects the rollout, and at which token.\<close>

definition check_filter :: "float_ops \<Rightarrow> filter_kind \<Rightarrow> rollout \<Rightarrow> bool \<times> nat option" where
  "check_filter F k r =
     (case k of
        Gibberish token_id_threshold logprob_threshold \<Rightarrow>
          (let i = first_index (\<lambda>(t, lp). t > token_id_threshold \<and> fl_lt F lp logprob_threshold) 0 (completion_tokens r)
           in (i \<noteq> None, i))
      | Repetition window logprob_threshold \<Rightarrow>
          (let i = repetition_index (\<lambda>lp. fl_lt F logprob_threshold lp) window 0 0 (completion_logprobs r)
           in (i \<noteq> None, i))
      | ZeroAdvantage \<Rightarrow>
          (case ro_advantage r of None \<Rightarrow> (False, None) | Some a \<Rightarrow> (fl_eq F a f_zero, None)))"

definition apply_filters_to :: "float_ops \<Rightarrow> rollout_filter list \<Rightarrow> rollout \<Rightarrow> rollout" where
  "apply_filters_to F fs r =
     (let r0 = r\<lparr>ro_filters := foldl (\<lambda>d f. dput (rf_name f) False d) [] fs, ro_is_filtered := Some False\<rparr> in
      case find (\<lambda>f. fst (check_filter F (rf_kind f) r0)) fs of
        None \<Rightarrow> r0
      | Some f \<Rightarrow> r0\<lparr>ro_filters := dput (rf_name f) True (ro_filters r0), ro_is_filtered := Some (rf_enforce f)\<rparr>)"

definition apply_filters :: "float_ops \<Rightarrow> rollout_filter list \<Rightarrow> rollout list \<Rightarrow> rollout list" where
  "apply_filters F fs rs = map (apply_filters_to F fs) rs"

end
