(* ===== verification/Trajectory.thy ===== *)
theory Trajectory
  imports Rollout
begin

text \<open>
  From rollouts to training samples (\<open>orchestrator/trajectories.py\<close>): the steps of a trajectory
  are merged into samples wherever a step's prompt continues what was generated before. Decoding
  of base64 and the concatenation of multimodal tensors are parameters (\<open>codec\<close>). A numpy
  array is its shape and its bytes in row-major order, all arrays here being \<open>uint8\<close>. The dictionary
  of routed-experts state, keyed by the identity of a sample, is a field of the sample's entry.
\<close>

section \<open>Arrays\<close>

record ndarray =
  nd_shape :: "nat list"
  nd_data :: "8 word list"

definition nd_rows :: "ndarray \<Rightarrow> nat res" where
  "nd_rows a = (case nd_shape a of [] \<Rightarrow> Inl (IndexError ''tuple index out of range'') | n # _ \<Rightarrow> Inr n)"

definition nd_row_size :: "ndarray \<Rightarrow> nat" where
  "nd_row_size a = prod_list (tl (nd_shape a))"

text \<open>\<open>a[i:j]\<close> on the first axis; \<open>a[i:]\<close> is \<open>j = len(a)\<close>.\<close>

definition nd_slice :: "nat \<Rightarrow> nat \<Rightarrow> ndarray \<Rightarrow> ndarray" where
  "nd_slice i j a =
     (let n = hd (nd_shape a); i = min i n; j = max i (min j n) in
      \<lparr>nd_shape = (j - i) # tl (nd_shape a),
       nd_data = take ((j - i) * nd_row_size a) (drop (i * nd_row_size a) (nd_data a))\<rparr>)"

definition nd_concatenate :: "ndarray list \<Rightarrow> ndarray res" where
  "nd_concatenate xs =
     bindR (ensure (\<forall>x \<in> set xs. nd_shape x \<noteq> [] \<and> tl (nd_shape x) = tl (nd_shape (hd xs)))
       (ValueError ''all the input array dimensions except for the concatenation axis must match exactly'')) (\<lambda>_.
     Inr \<lparr>nd_shape = sum_list (map (\<lambda>x. hd (nd_shape x)) xs) # tl (nd_shape (hd xs)), nd_data = concat (map nd_data xs)\<rparr>)"

definition nd_reshape :: "8 word list \<Rightarrow> nat list \<Rightarrow> ndarray res" where
  "nd_reshape bs shape =
     bindR (ensure (prod_list shape = length bs) (ValueError ''cannot reshape array'')) (\<lambda>_.
     Inr \<lparr>nd_shape = shape, nd_data = bs\<rparr>)"

definition align_routed_experts :: "ndarray \<Rightarrow> nat \<Rightarrow> ndarray res" where
  "align_routed_experts a expected_len =
     bindR (ensure (length (nd_shape a) = 3) (AssertionError ''ndim'')) (\<lambda>_.
     let n = hd (nd_shape a) in
     if n > expected_len then Inr (nd_slice 0 expected_len a)
     else if expected_len - n = 0 then Inr a
     else nd_concatenate [a, \<lparr>nd_shape = (expected_len - n) # tl (nd_shape a),
                              nd_data = replicate ((expected_len - n) * nd_row_size a) 0\<rparr>])"

section \<open>Steps\<close>

record codec =
  b64decode :: "string \<Rightarrow> 8 word list res"
  cat_tensors_mm :: "encoded_tensor list \<Rightarrow> encoded_tensor res"

record prepared_step =
  ps_prompt_ids :: "int list"
  ps_prompt_mask :: "bool list"
  ps_completion_ids :: "int list"
  ps_completion_mask :: "bool list"
  ps_completion_logprobs :: "float64 list"
  ps_routed :: "ndarray option"
  ps_mm :: "mm_data option"

definition prepare_step_tokens :: "codec \<Rightarrow> trajectory_step \<Rightarrow> prepared_step option res" where
  "prepare_step_tokens C step =
     (case tj_tokens step of
        None \<Rightarrow> Inr None
      | Some t \<Rightarrow>
          bindR (optR (\<lambda>p. bindR (b64decode C (rp_data p)) (\<lambda>bs. nd_reshape bs (rp_shape p))) (td_routed_experts t)) (\<lambda>routed.
          Inr (Some \<lparr>ps_prompt_ids = td_prompt_ids t, ps_prompt_mask = td_prompt_mask t,
             ps_completion_ids = td_completion_ids t, ps_completion_mask = td_completion_mask t,
             ps_completion_logprobs = td_completion_logprobs t, ps_routed = routed, ps_mm = td_mm t\<rparr>)))"

text \<open>The first step without tokens ends the preparation of all.\<close>

fun prepare_steps :: "codec \<Rightarrow> trajectory_step list \<Rightarrow> prepared_step list option res" where
  "prepare_steps C [] = Inr (Some [])"
| "prepare_steps C (s # ss) =
     bindR (prepare_step_tokens C s) (\<lambda>p.
     case p of
       None \<Rightarrow> Inr None
     | Some x \<Rightarrow> bindR (prepare_steps C ss) (\<lambda>xs. Inr (map_option ((#) x) xs)))"

section \<open>Samples\<close>

text \<open>An active sample: the tokens a step must continue, the sample, its steps, and the chunks of
  routed experts collected for it.\<close>

record active =
  ac_prefix :: "int list"
  ac_sample :: training_sample
  ac_steps :: "nat list"
  ac_chunks :: "ndarray list option"

definition step_tokens :: "prepared_step \<Rightarrow> int list" where
  "step_tokens p = ps_prompt_ids p @ ps_completion_ids p"

definition step_mask :: "bool \<Rightarrow> prepared_step \<Rightarrow> bool list" where
  "step_mask has_error p =
     (if has_error then replicate (length (ps_completion_mask p)) False else ps_completion_mask p)"

definition make_sample :: "rollout \<Rightarrow> prepared_step \<Rightarrow> training_sample" where
  "make_sample r p =
     \<lparr>ts_prompt_ids = ps_prompt_ids p, ts_prompt_mask = ps_prompt_mask p, ts_completion_ids = ps_completion_ids p,
      ts_completion_mask = step_mask (ro_error r \<noteq> None) p, ts_completion_logprobs = ps_completion_logprobs p,
      ts_completion_temperatures = replicate (length (ps_completion_ids p)) (ro_temperature r),
      ts_env_name = ro_env_name r, ts_teacher_logprobs = None, ts_advantage = None, ts_reward = None,
      ts_mm_kwargs = None, ts_routed_experts = None, ts_mm_token_type_ids = None, ts_training_mode = Rl\<rparr>"

definition start_active :: "rollout \<Rightarrow> nat \<Rightarrow> prepared_step \<Rightarrow> active res" where
  "start_active r i p =
     bindR (case ps_routed p of None \<Rightarrow> Inr 0 | Some a \<Rightarrow> nd_rows a) (\<lambda>_.
     Inr \<lparr>ac_prefix = step_tokens p, ac_sample = make_sample r p, ac_steps = [i],
          ac_chunks = map_option (\<lambda>a. [a]) (ps_routed p)\<rparr>)"

definition extend_sample :: "rollout \<Rightarrow> nat \<Rightarrow> prepared_step \<Rightarrow> training_sample \<Rightarrow> training_sample" where
  "extend_sample r prefix_len p s =
     (let new_prompt_ids = drop prefix_len (ps_prompt_ids p); n = length new_prompt_ids in
      s\<lparr>ts_completion_ids := ts_completion_ids s @ new_prompt_ids @ ps_completion_ids p,
        ts_completion_mask := ts_completion_mask s @ replicate n False @ step_mask (ro_error r \<noteq> None) p,
        ts_completion_logprobs := ts_completion_logprobs s @ replicate n f_zero @ ps_completion_logprobs p,
        ts_completion_temperatures := ts_completion_temperatures s @ replicate n (ro_temperature r)
          @ replicate (length (ps_completion_ids p)) (ro_temperature r)\<rparr>)"

definition extend_chunks :: "nat \<Rightarrow> ndarray option \<Rightarrow> ndarray list option \<Rightarrow> ndarray list option res" where
  "extend_chunks prefix_len routed chunks =
     (case (routed, chunks) of
        (Some a, Some cs) \<Rightarrow>
          bindR (nd_rows a) (\<lambda>n.
          let boundary = (if prefix_len > 0 \<and> prefix_len \<le> n then [nd_slice (prefix_len - 1) prefix_len a] else [])
          in Inr (Some (cs @ boundary @ [nd_slice prefix_len n a])))
      | _ \<Rightarrow> Inr chunks)"

definition extend_active :: "rollout \<Rightarrow> nat \<Rightarrow> prepared_step \<Rightarrow> active \<Rightarrow> active res" where
  "extend_active r i p a =
     (let prefix_len = length (ac_prefix a) in
      bindR (extend_chunks prefix_len (ps_routed p) (ac_chunks a)) (\<lambda>chunks.
      Inr \<lparr>ac_prefix = step_tokens p, ac_sample = extend_sample r prefix_len p (ac_sample a),
           ac_steps = ac_steps a @ [i], ac_chunks = chunks\<rparr>))"

definition extends :: "active \<Rightarrow> prepared_step \<Rightarrow> bool" where
  "extends a p \<longleftrightarrow> take (length (ac_prefix a)) (ps_prompt_ids p) = ac_prefix a"

text \<open>The first active sample the step continues takes it; otherwise it starts a sample.\<close>

fun add_step :: "rollout \<Rightarrow> nat \<Rightarrow> prepared_step \<Rightarrow> active list \<Rightarrow> active list res" where
  "add_step r i p [] = bindR (start_active r i p) (\<lambda>a. Inr [a])"
| "add_step r i p (a # as) =
     (if extends a p then bindR (extend_active r i p a) (\<lambda>a'. Inr (a' # as))
      else bindR (add_step r i p as) (\<lambda>as'. Inr (a # as')))"

definition merge_steps :: "rollout \<Rightarrow> prepared_step list \<Rightarrow> active list res" where
  "merge_steps r ps = foldR (\<lambda>as (i, p). add_step r i p as) [] (enumerate 0 ps)"

section \<open>Routed experts and images\<close>

definition finalize_routed :: "active \<Rightarrow> training_sample res" where
  "finalize_routed a =
     (let s = ac_sample a in
      case ac_chunks a of
        None \<Rightarrow> Inr s
      | Some [] \<Rightarrow> Inr s
      | Some cs \<Rightarrow>
          bindR (if length cs > 1 then nd_concatenate cs else Inr (hd cs)) (\<lambda>combined.
          bindR (align_routed_experts combined (length (ts_prompt_ids s) + length (ts_completion_ids s))) (\<lambda>x.
          Inr (s\<lparr>ts_routed_experts := Some \<lparr>re_data = nd_data x, re_shape = nd_shape x, re_dtype = ''uint8''\<rparr>\<rparr>))))"

definition extend_at :: "'k \<Rightarrow> 'a \<Rightarrow> ('k, 'a list) dict \<Rightarrow> ('k, 'a list) dict" where
  "extend_at k x d = dput k ((case dget d k of None \<Rightarrow> [] | Some xs \<Rightarrow> xs) @ [x]) d"

definition union_step_mm_data :: "prepared_step list \<Rightarrow> nat list \<Rightarrow> (string, mm_item list) dict option" where
  "union_step_mm_data ps idxs =
     (let sources = concat (map (\<lambda>i. case ps_mm (ps ! i) of None \<Rightarrow> [] | Some mm \<Rightarrow> mm_items mm) idxs);
          items = concat (map (\<lambda>(modality, xs). map (Pair modality) xs) sources)
      in if items = [] then None else Some (foldl (\<lambda>d (modality, x). extend_at modality x d) [] items))"

definition pack_mm_kwargs_from_renderer :: "codec \<Rightarrow> (string, mm_item list) dict \<Rightarrow> (string, encoded_tensor) dict option res" where
  "pack_mm_kwargs_from_renderer C items =
     (let payloads = concat (map (\<lambda>(modality, xs). concat xs) items);
          per_kwarg = foldl (\<lambda>d (key, payload). extend_at key payload d) [] payloads
      in if per_kwarg = [] then Inr None
         else bindR (mapR (\<lambda>(key, tensors). bindR (cat_tensors_mm C tensors) (\<lambda>t. Inr (key, t))) per_kwarg) (\<lambda>out.
              Inr (Some out)))"

definition attach_images :: "codec \<Rightarrow> (int \<Rightarrow> int option) option \<Rightarrow> prepared_step list \<Rightarrow> nat list \<Rightarrow> training_sample \<Rightarrow> training_sample res" where
  "attach_images C mapping ps idxs s =
     (case union_step_mm_data ps idxs of
        None \<Rightarrow> Inr s
      | Some items \<Rightarrow>
          bindR (pack_mm_kwargs_from_renderer C items) (\<lambda>kwargs.
          case kwargs of
            None \<Rightarrow> Inr s
          | Some kw \<Rightarrow>
              let s1 = s\<lparr>ts_mm_kwargs := Some kw\<rparr> in
              (case mapping of
                 None \<Rightarrow> Inr s1
               | Some f \<Rightarrow> Inr (s1\<lparr>ts_mm_token_type_ids :=
                   Some (map (\<lambda>t. case f t of None \<Rightarrow> 0 | Some n \<Rightarrow> n) (ts_prompt_ids s @ ts_completion_ids s))\<rparr>))))"

definition interleave_rollout :: "codec \<Rightarrow> (int \<Rightarrow> int option) option \<Rightarrow> rollout \<Rightarrow> training_sample list option res" where
  "interleave_rollout C mapping r =
     (if ro_trajectory r = [] then Inr None
      else
        bindR (prepare_steps C (ro_trajectory r)) (\<lambda>prepared.
        case prepared of
          None \<Rightarrow> Inr None
        | Some ps \<Rightarrow>
            bindR (merge_steps r ps) (\<lambda>as.
            bindR (mapR finalize_routed as) (\<lambda>samples.
            bindR (mapR (\<lambda>(a, s). attach_images C mapping ps (ac_steps a) s) (zip as samples)) (\<lambda>out.
            Inr (Some out))))))"

section \<open>The training batch of a step\<close>

definition stamp_sample :: "training_mode \<Rightarrow> rollout \<Rightarrow> training_sample \<Rightarrow> training_sample" where
  "stamp_sample mode r s =
     s\<lparr>ts_advantage := ro_advantage r, ts_reward := Some (ro_reward r), ts_env_name := ro_env_name r,
       ts_training_mode := mode\<rparr>"

definition train_examples :: "training_mode \<Rightarrow> (rollout \<times> training_sample list option) list \<Rightarrow> training_sample list" where
  "train_examples mode results =
     concat (map (\<lambda>(r, samples). if ro_is_filtered r = Some True then []
                                 else map (stamp_sample mode r) (case samples of None \<Rightarrow> [] | Some ss \<Rightarrow> ss)) results)"

text \<open>
  The log-probabilities of a teacher: every sample is scored by one of the clients in turn. \<open>generate\<close> answers a request
  with its \<open>prompt_logprobs\<close>; an entry is \<open>None\<close> when nothing was scored, and holds the first log-probability otherwise,
  which may be \<open>None\<close> itself. Without clients nothing is scored.
\<close>

type_synonym 'c scorer = "'c \<Rightarrow> int list \<Rightarrow> float64 option option list option res"

definition flat_logprobs :: "float64 option option list option \<Rightarrow> float64 list" where
  "flat_logprobs entries =
     map (\<lambda>entry. case entry of None \<Rightarrow> f_zero | Some lp \<Rightarrow> (case lp of None \<Rightarrow> f_zero | Some x \<Rightarrow> x))
       (case entries of None \<Rightarrow> [] | Some es \<Rightarrow> es)"

definition cycled :: "'c list \<Rightarrow> nat \<Rightarrow> 'c list" where
  "cycled clients n = (if clients = [] then [] else map (\<lambda>i. clients ! (i mod length clients)) [0..<n])"

definition compute_teacher_logprobs :: "'c scorer \<Rightarrow> 'c list \<Rightarrow> training_sample list \<Rightarrow> float64 list list res" where
  "compute_teacher_logprobs generate clients samples =
     mapR (\<lambda>(client, s). bindR (generate client (ts_prompt_ids s @ ts_completion_ids s)) (\<lambda>es. Inr (flat_logprobs es)))
       (zip (cycled clients (length samples)) samples)"

definition make_training_batch ::
  "codec \<Rightarrow> (int \<Rightarrow> int option) option \<Rightarrow> training_mode \<Rightarrow> (training_sample list \<Rightarrow> float64 list list res) option \<Rightarrow> int \<Rightarrow>
   rollout list \<Rightarrow> training_batch res" where
  "make_training_batch C mapping mode teacher step rollouts =
     bindR (mapR (\<lambda>r. bindR (interleave_rollout C mapping r) (\<lambda>ss. Inr (r, ss))) rollouts) (\<lambda>results.
     let examples = train_examples mode results in
     bindR (case teacher of
              None \<Rightarrow> Inr examples
            | Some f \<Rightarrow> if mode = Opd
                then bindR (f examples) (\<lambda>lps. Inr (map2 (\<lambda>s lp. s\<lparr>ts_teacher_logprobs := Some lp\<rparr>) examples lps
                                                     @ drop (length lps) examples))
                else Inr examples) (\<lambda>examples.
     Inr \<lparr>tb_examples = examples, tb_step = step, tb_run_idx = None\<rparr>))"

section \<open>Retries on filtered batches\<close>

definition n_trainable :: "rollout list \<Rightarrow> nat" where
  "n_trainable rs = length (filter (\<lambda>r. ro_is_filtered r \<noteq> Some True) rs)"

text \<open>The attempts of a step: each takes a batch of the scheduler. When all are filtered out, the reason is
  written to \<open>evicted.txt\<close> of the run before the error is raised.\<close>

definition all_filtered :: string where
  "all_filtered = ''All rollouts were filtered out''"

fun attempt_batches ::
  "(rollout list \<Rightarrow> float64 list res) option \<Rightarrow> float_ops \<Rightarrow> rollout_filter list \<Rightarrow> rollout list list \<Rightarrow>
   string option \<times> rollout list res" where
  "attempt_batches advantage_fn F fs [] = (Some all_filtered, Inl (RuntimeError all_filtered))"
| "attempt_batches advantage_fn F fs (b # bs) =
     (case compute_advantages advantage_fn b of
        Inl e \<Rightarrow> (None, Inl e)
      | Inr rs \<Rightarrow>
          let rs = apply_filters F fs rs in
          if n_trainable rs > 0 then (None, Inr rs) else attempt_batches advantage_fn F fs bs)"

end
