(* ===== verification/BatchProofs.thy ===== *)
theory BatchProofs
  imports Batch
begin

text \<open>
  Packing moves whole samples: each micro batch is a row of samples, each sample is in one of
  them, and padding, dummies and the grid of the ranks add no token that counts in the loss.
\<close>

section \<open>Tokens of a micro batch\<close>

text \<open>A token with everything the loss reads for it.\<close>

type_synonym token = "int \<times> bool \<times> float64 option \<times> float64 \<times> int \<times> float64 \<times> float64 \<times> string"

definition reward_list :: "micro_batch \<Rightarrow> float64 list" where
  "reward_list b = (case mb_rewards b of None \<Rightarrow> replicate (mb_length b) f_nan | Some r \<Rightarrow> r)"

definition mb_tokens :: "micro_batch \<Rightarrow> token list" where
  "mb_tokens b =
     zip (mb_input_ids b) (zip (mb_loss_mask b) (zip (mb_advantages b) (zip (mb_inference_logprobs b)
       (zip (mb_position_ids b) (zip (mb_temperatures b)
         (zip (reward_list b) (mb_env_names b)))))))"

definition mb_wf :: "micro_batch \<Rightarrow> bool" where
  "mb_wf b \<longleftrightarrow>
     length (mb_loss_mask b) = mb_length b \<and> length (mb_advantages b) = mb_length b \<and>
     length (mb_inference_logprobs b) = mb_length b \<and> length (mb_position_ids b) = mb_length b \<and>
     length (mb_temperatures b) = mb_length b \<and> length (mb_env_names b) = mb_length b \<and>
     opt_length (mb_length b) (mb_rewards b)"

lemma length_mb_tokens [simp]: "mb_wf b \<Longrightarrow> length (mb_tokens b) = mb_length b"
  by (auto simp: mb_wf_def mb_tokens_def reward_list_def opt_length_def split: option.splits)

lemma opt_length_simps [simp]: "opt_length n None" "opt_length n (Some xs) \<longleftrightarrow> length xs = n"
  by (simp_all add: opt_length_def)

lemma add_to_bin_tokens:
  assumes "add_to_bin i b s = Inr b'" and "mb_wf b" and "mb_wf s"
  shows "mb_tokens b' = mb_tokens b @ mb_tokens s \<and> mb_wf b'"
proof -
  have ids: "mb_input_ids b' = mb_input_ids b @ mb_input_ids s" "mb_loss_mask b' = mb_loss_mask b @ mb_loss_mask s"
    "mb_advantages b' = mb_advantages b @ mb_advantages s"
    "mb_inference_logprobs b' = mb_inference_logprobs b @ mb_inference_logprobs s"
    "mb_position_ids b' = mb_position_ids b @ mb_position_ids s" "mb_temperatures b' = mb_temperatures b @ mb_temperatures s"
    "mb_env_names b' = mb_env_names b @ mb_env_names s" "mb_rewards b' = merge_rewards b s"
    using assms(1) by (auto simp: add_to_bin_def res_simps)
  have r: "reward_list b' = reward_list b @ reward_list s"
    by (auto simp: reward_list_def ids merge_rewards_def replicate_add split: option.splits)
  have l: "length (reward_list b) = mb_length b" "length (mb_loss_mask b) = mb_length b" "length (mb_advantages b) = mb_length b"
    "length (mb_inference_logprobs b) = mb_length b" "length (mb_position_ids b) = mb_length b"
    "length (mb_temperatures b) = mb_length b" "length (mb_env_names b) = mb_length b"
    using assms(2) by (auto simp: mb_wf_def reward_list_def opt_length_def split: option.splits)
  have "mb_tokens b' = mb_tokens b @ mb_tokens s"
    unfolding mb_tokens_def ids r using l by simp
  moreover have "mb_wf b'"
    using assms(2,3) by (auto simp: mb_wf_def ids merge_rewards_def split: option.splits)
  ultimately show ?thesis ..
qed

text \<open>What a successful preparation returns.\<close>

definition sample_length :: "training_sample \<Rightarrow> nat" where
  "sample_length ex = length (ts_prompt_ids ex) + length (ts_completion_ids ex)"

lemma length_cut: "length (cut c n xs) = (if c then min (length xs) n else length xs)"
  by (simp add: cut_def)

lemma prepare_sample_result:
  assumes "prepare_sample ex n = Inr b"
  defines "c \<equiv> n < sample_length ex"
  defines "k \<equiv> if c then n else sample_length ex"
  defines "lps \<equiv> cut c n (replicate (length (ts_prompt_ids ex)) f_zero @ ts_completion_logprobs ex)"
  defines "temps \<equiv> cut c n (replicate (length (ts_prompt_ids ex))
    (case ts_completion_temperatures ex of [] \<Rightarrow> f_one | t # _ \<Rightarrow> t) @ ts_completion_temperatures ex)"
  shows "(\<exists>routed. b = \<lparr>mb_input_ids = cut c n (ts_prompt_ids ex @ ts_completion_ids ex),
      mb_loss_mask = cut c n (ts_prompt_mask ex @ ts_completion_mask ex),
      mb_advantages = replicate k (ts_advantage ex), mb_inference_logprobs = lps,
      mb_position_ids = map int [0..<k], mb_temperatures = temps,
      mb_env_names = replicate k (ts_env_name ex),
      mb_teacher_logprobs = map_option (cut c n) (ts_teacher_logprobs ex),
      mb_lora_num_tokens = None, mb_routed_experts = routed, mb_mm_kwargs = ts_mm_kwargs ex,
      mb_mm_token_type_ids = map_option (cut c n) (ts_mm_token_type_ids ex), mb_training_mode = ts_training_mode ex,
      mb_rewards = Some (replicate k (case ts_reward ex of None \<Rightarrow> f_nan | Some r \<Rightarrow> r))\<rparr>)
    \<and> length (cut c n (ts_prompt_mask ex @ ts_completion_mask ex)) = k \<and> length lps = k \<and> length temps = k"
proof -
  have l: "length (ts_prompt_ids ex @ ts_completion_ids ex) = sample_length ex" by (simp add: sample_length_def)
  show ?thesis
    using assms(1) unfolding prepare_sample_def Let_def bindR_eq_Inr ensure_eq_Inr l c_def k_def lps_def temps_def
    by (auto simp only: sum.inject)
qed

lemma prepare_sample_Inr:
  assumes "prepare_sample ex n = Inr b"
  shows "mb_wf b" "mb_length b = min (sample_length ex) n"
    "mb_training_mode b = ts_training_mode ex" "mb_mm_kwargs b = ts_mm_kwargs ex"
proof -
  note r = prepare_sample_result [OF assms]
  have l: "mb_length b = (if n < sample_length ex then n else sample_length ex)"
    using r by (auto simp: length_cut sample_length_def min_def)
  show "mb_wf b" unfolding mb_wf_def l using r by auto
  show "mb_length b = min (sample_length ex) n" by (simp add: l min_def)
  show "mb_training_mode b = ts_training_mode ex" "mb_mm_kwargs b = ts_mm_kwargs ex" using r by auto
qed

section \<open>Packing\<close>

text \<open>A bin holds a row of samples, by ascending adapter.\<close>

definition holds_samples :: "nat \<Rightarrow> nat \<Rightarrow> (nat \<times> micro_batch) list \<Rightarrow> micro_batch \<Rightarrow> bool" where
  "holds_samples max_seq_len num_loras g b \<longleftrightarrow>
     g \<noteq> [] \<and> mb_wf b \<and> mb_tokens b = concat (map (mb_tokens \<circ> snd) g) \<and> sorted (map fst g) \<and>
     mb_lora_num_tokens b = Some (map (\<lambda>i. sum_list (map (\<lambda>p. if fst p = i then mb_length (snd p) else 0) g)) [0..<num_loras]) \<and>
     (\<forall>p \<in> set g. fst p < num_loras \<and> mb_training_mode (snd p) = mb_training_mode b \<and>
        mb_mm_kwargs (snd p) = mb_mm_kwargs b) \<and>
     (is_multimodal_sample b \<longrightarrow> length g = 1) \<and> (length g = 1 \<or> mb_length b \<le> max_seq_len)"

lemma open_bin_holds:
  assumes "open_bin num_loras i s = Inr b" and "mb_wf s"
  shows "holds_samples n num_loras [(i, s)] b"
proof -
  have i: "i < num_loras" and b: "b = s\<lparr>mb_lora_num_tokens := Some ((replicate num_loras 0)[i := mb_length s])\<rparr>"
    using assms(1) by (auto simp: open_bin_def res_simps)
  have "(replicate num_loras 0)[i := mb_length s] = map (\<lambda>j. if i = j then mb_length s else 0) [0..<num_loras]"
    by (rule nth_equalityI) (auto simp: nth_list_update)
  moreover have "mb_tokens b = mb_tokens s" "mb_wf b" using assms(2) by (simp_all add: b mb_tokens_def mb_wf_def reward_list_def cong: option.case_cong)
  ultimately show ?thesis using i by (simp add: holds_samples_def b)
qed

lemma add_to_bin_holds:
  assumes "add_to_bin i b s = Inr b'" and "holds_samples n num_loras g b" and "mb_wf s"
    and "\<not> is_multimodal_sample b" and "\<not> is_multimodal_sample s" and "fits n b s" and "\<forall>p \<in> set g. fst p \<le> i"
  shows "holds_samples n num_loras (g @ [(i, s)]) b'"
proof -
  let ?count = "\<lambda>g j. sum_list (map (\<lambda>p. if fst p = j then mb_length (snd p) else 0) g)"
  have g: "mb_wf b" "mb_tokens b = concat (map (mb_tokens \<circ> snd) g)" "sorted (map fst g)"
    "mb_lora_num_tokens b = Some (map (?count g) [0..<num_loras])" "g \<noteq> []"
    "\<forall>p \<in> set g. fst p < num_loras \<and> mb_training_mode (snd p) = mb_training_mode b \<and> mb_mm_kwargs (snd p) = mb_mm_kwargs b"
    using assms(2) by (auto simp: holds_samples_def)
  have t: "mb_tokens b' = mb_tokens b @ mb_tokens s" "mb_wf b'" using add_to_bin_tokens [OF assms(1) g(1) assms(3)] by auto
  have b': "mb_training_mode b' = mb_training_mode b" "mb_mm_kwargs b' = mb_mm_kwargs b" "mb_length b' = mb_length b + mb_length s"
    "add_at i (mb_length s) (mb_lora_num_tokens b) = Inr (mb_lora_num_tokens b')"
    using assms(1) by (auto simp: add_to_bin_def res_simps)
  have i: "i < num_loras" and l: "mb_lora_num_tokens b' = Some ((map (?count g) [0..<num_loras])[i := ?count g i + mb_length s])"
    using b'(4) by (auto simp: add_at_def g(4) split: if_splits)
  have "(map (?count g) [0..<num_loras])[i := ?count g i + mb_length s] = map (?count (g @ [(i, s)])) [0..<num_loras]"
    by (rule nth_equalityI) (auto simp: nth_list_update)
  then show ?thesis
    using t g i l b' assms(4-7) by (auto simp: holds_samples_def sorted_append is_multimodal_sample_def fits_def)
qed

definition packing :: "nat \<Rightarrow> nat \<Rightarrow> (nat \<times> micro_batch) list \<Rightarrow> micro_batch list \<Rightarrow> (nat \<times> micro_batch) list list \<Rightarrow> bool" where
  "packing n num_loras samples bins gs \<longleftrightarrow>
     list_all2 (holds_samples n num_loras) gs bins \<and> mset (concat gs) = mset samples"

lemma place_sample_packing:
  assumes "place_sample n num_loras i s bins = Inr bins'" and "list_all2 (holds_samples n num_loras) gs bins"
    and "mb_wf s" and "\<not> is_multimodal_sample s" and "\<forall>p \<in> set (concat gs). fst p \<le> i"
  shows "\<exists>gs'. list_all2 (holds_samples n num_loras) gs' bins' \<and> mset (concat gs') = add_mset (i, s) (mset (concat gs))"
  using assms(1,2,5)
proof (induction bins arbitrary: bins' gs)
  case Nil
  then obtain b where "open_bin num_loras i s = Inr b" "bins' = [b]" by (auto simp: res_simps)
  then have "list_all2 (holds_samples n num_loras) [[(i, s)]] bins'" using open_bin_holds assms(3) by auto
  then show ?case using Nil.prems(2) by (intro exI [of _ "[[(i, s)]]"]) auto
next
  case (Cons b bins)
  obtain g gs0 where gs: "gs = g # gs0" "holds_samples n num_loras g b" "list_all2 (holds_samples n num_loras) gs0 bins"
    using Cons.prems(2) by (auto simp: list_all2_Cons2)
  show ?case
  proof (cases "\<not> is_multimodal_sample b \<and> fits n b s")
    case True
    then obtain b' where b': "add_to_bin i b s = Inr b'" "bins' = b' # bins" using Cons.prems(1) by (auto simp: res_simps)
    have "holds_samples n num_loras (g @ [(i, s)]) b'"
      using add_to_bin_holds [OF b'(1) gs(2) assms(3)] True assms(4) Cons.prems(3) by (auto simp: gs(1))
    then show ?thesis using gs by (intro exI [of _ "(g @ [(i, s)]) # gs0"]) (auto simp: b'(2))
  next
    case False
    then obtain bs' where "place_sample n num_loras i s bins = Inr bs'" "bins' = b # bs'"
      using Cons.prems(1) by (auto simp: res_simps split: if_splits)
    with Cons.IH [OF _ gs(3)] Cons.prems(3) obtain gs' where
      "list_all2 (holds_samples n num_loras) gs' bs'" "mset (concat gs') = add_mset (i, s) (mset (concat gs0))"
      by (auto simp: gs(1))
    then show ?thesis using gs \<open>bins' = b # bs'\<close> by (intro exI [of _ "g # gs'"]) auto
  qed
qed

lemma pack_sample_packing:
  assumes "pack_sample n num_loras bins p = Inr bins'" and "list_all2 (holds_samples n num_loras) gs bins"
    and "mb_wf (snd p)" and "\<forall>q \<in> set (concat gs). fst q \<le> fst p"
  shows "\<exists>gs'. list_all2 (holds_samples n num_loras) gs' bins' \<and> mset (concat gs') = add_mset p (mset (concat gs))"
proof (cases "is_multimodal_sample (snd p)")
  case True
  then obtain b where b: "open_bin num_loras (fst p) (snd p) = Inr b" "bins' = bins @ [b]"
    using assms(1) by (auto simp: pack_sample_def res_simps)
  then have "holds_samples n num_loras [p] b" using open_bin_holds [OF b(1) assms(3)] by simp
  then show ?thesis using assms(2) b(2) by (intro exI [of _ "gs @ [[p]]"]) (auto intro: list_all2_appendI)
next
  case False
  then show ?thesis
    using place_sample_packing [of n num_loras "fst p" "snd p" bins bins' gs] assms by (auto simp: pack_sample_def)
qed

lemma pack_all_packing:
  assumes "foldR (pack_sample n num_loras) bins xs = Inr bins'" and "list_all2 (holds_samples n num_loras) gs bins"
    and "\<forall>p \<in> set xs. mb_wf (snd p)" and "sorted (map fst xs)" and "\<forall>q \<in> set (concat gs). \<forall>p \<in> set xs. fst q \<le> fst p"
  shows "\<exists>gs'. list_all2 (holds_samples n num_loras) gs' bins' \<and> mset (concat gs') = mset (concat gs) + mset xs"
  using assms
proof (induction xs arbitrary: bins gs)
  case Nil
  then show ?case by auto
next
  case (Cons p xs)
  obtain b1 where b1: "pack_sample n num_loras bins p = Inr b1" "foldR (pack_sample n num_loras) b1 xs = Inr bins'"
    using Cons.prems(1) by (auto simp: res_simps)
  obtain g1 where g1: "list_all2 (holds_samples n num_loras) g1 b1" "mset (concat g1) = add_mset p (mset (concat gs))"
    using pack_sample_packing [OF b1(1) Cons.prems(2)] Cons.prems(3,5) by auto
  have "set (concat g1) = insert p (set (concat gs))" using arg_cong [OF g1(2), of set_mset] by simp
  then have "\<forall>q \<in> set (concat g1). \<forall>p' \<in> set xs. fst q \<le> fst p'" using Cons.prems(4,5) by auto
  from Cons.IH [OF b1(2) g1(1) _ _ this] Cons.prems(3,4) g1(2) show ?case by auto
qed

lemma packing_exists:
  assumes "packed_samples_into_micro_bs samples n num_loras = Inr bins" and "\<forall>p \<in> set samples. mb_wf (snd p)"
  shows "\<exists>gs. packing n num_loras samples bins gs"
proof -
  let ?k = "\<lambda>(idx, s). (int idx, - int (mb_length s))"
  let ?xs = "sort_key ?k samples"
  have "sorted (map fst ?xs)"
  proof -
    have "sorted (map ?k ?xs)" by simp
    then have "sorted_wrt (\<lambda>p q. ?k p \<le> ?k q) ?xs" by (simp add: sorted_map)
    then have "sorted_wrt (\<lambda>p q. fst p \<le> fst q) ?xs"
      by (rule sorted_wrt_mono_rel [rotated]) (auto simp: less_eq_prod_def)
    then show ?thesis by (simp add: sorted_map)
  qed
  then have "\<exists>gs'. list_all2 (holds_samples n num_loras) gs' bins \<and> mset (concat gs') = mset (concat []) + mset ?xs"
    using assms by (intro pack_all_packing) (auto simp: packed_samples_into_micro_bs_def)
  then show ?thesis by (auto simp: packing_def)
qed

section \<open>Padding and dummies\<close>

definition counts :: "token \<Rightarrow> bool" where
  "counts t \<longleftrightarrow> fst (snd t)"

definition loss_tokens :: "micro_batch list \<Rightarrow> token list" where
  "loss_tokens bs = filter counts (concat (map mb_tokens bs))"

lemma loss_tokens_simps [simp]:
  "loss_tokens [] = []" "loss_tokens (b # bs) = filter counts (mb_tokens b) @ loss_tokens bs"
  "loss_tokens (bs @ cs) = loss_tokens bs @ loss_tokens cs"
  by (simp_all add: loss_tokens_def)

lemma flags_of_zip:
  fixes t :: token
  assumes "t \<in> set (zip xs (zip ms ys))"
  shows "fst (snd t) \<in> set ms"
proof -
  obtain x m r where t: "t = (x, m, r)" by (cases t)
  then have "(m, r) \<in> set (zip ms ys)" using assms by (auto dest: set_zip_rightD)
  then show ?thesis by (auto simp: t dest: set_zip_leftD)
qed

lemma no_loss:
  assumes "set (mb_loss_mask b) \<subseteq> {False}"
  shows "filter counts (mb_tokens b) = []"
  using assms flags_of_zip by (fastforce simp: filter_empty_conv counts_def mb_tokens_def)

lemma padding_size_spec: "m > 0 \<Longrightarrow> (n + padding_size n m) mod m = 0"
proof -
  assume m: "m > 0"
  have "(n + padding_size n m) mod m = (n mod m + (m - n mod m)) mod m"
    unfolding padding_size_def by (simp add: mod_add_left_eq mod_add_right_eq)
  also have "n mod m + (m - n mod m) = m" using m by (simp add: less_imp_le)
  finally show ?thesis by simp
qed

lemma pad_micro_batch_spec:
  assumes "pad_micro_batch m b = Inr b'" and "mb_wf b"
  shows "mb_wf b' \<and> filter counts (mb_tokens b') = filter counts (mb_tokens b) \<and> take (mb_length b) (mb_tokens b') = mb_tokens b
    \<and> mb_mm_kwargs b' = mb_mm_kwargs b \<and> mb_training_mode b' = mb_training_mode b
    \<and> mb_length b' mod m = 0 \<and> mb_length b' < mb_length b + m
    \<and> (\<forall>ls ls'. mb_lora_num_tokens b = Some ls \<and> mb_lora_num_tokens b' = Some ls' \<longrightarrow>
         sum_list ls' = sum_list ls + (mb_length b' - mb_length b))"
proof -
  let ?n = "padding_size (mb_length b) m"
  have m: "m > 0" using assms(1) by (simp add: pad_micro_batch_def res_simps)
  note ps = padding_size_spec [OF m, of "mb_length b"]
  have lt: "?n < m" using m by (simp add: padding_size_def)
  show ?thesis
  proof (cases "m > 1 \<and> ?n > 0")
    case False
    then have "b' = b" "?n = 0" using assms(1) m lt by (auto simp: pad_micro_batch_def res_simps Let_def)
    then show ?thesis using assms(2) ps m by auto
  next
    case True
    then obtain ls where ls: "mb_lora_num_tokens b = Some ls" "ls \<noteq> []"
      and f: "mb_input_ids b' = mb_input_ids b @ replicate ?n 1" "mb_loss_mask b' = mb_loss_mask b @ replicate ?n False"
        "mb_advantages b' = mb_advantages b @ replicate ?n (Some f_zero)"
        "mb_inference_logprobs b' = mb_inference_logprobs b @ replicate ?n f_zero"
        "mb_position_ids b' = mb_position_ids b @ map int [0..<?n]" "mb_temperatures b' = mb_temperatures b @ replicate ?n f_one"
        "mb_env_names b' = mb_env_names b @ replicate ?n []"
        "mb_rewards b' = map_option (\<lambda>x. x @ replicate ?n f_nan) (mb_rewards b)" "mb_mm_kwargs b' = mb_mm_kwargs b"
        "mb_training_mode b' = mb_training_mode b" "mb_lora_num_tokens b' = Some (butlast ls @ [last ls + ?n])"
      using assms(1) by (auto simp: pad_micro_batch_def res_simps Let_def split: option.splits if_splits)
    have r: "reward_list b' = reward_list b @ replicate ?n f_nan"
      by (auto simp: reward_list_def f replicate_add split: option.splits)
    have l: "length (reward_list b) = mb_length b" "length (mb_loss_mask b) = mb_length b" "length (mb_advantages b) = mb_length b"
      "length (mb_inference_logprobs b) = mb_length b" "length (mb_position_ids b) = mb_length b"
      "length (mb_temperatures b) = mb_length b" "length (mb_env_names b) = mb_length b"
      using assms(2) by (auto simp: mb_wf_def reward_list_def opt_length_def split: option.splits)
    define Z where "Z = zip (replicate ?n (1::int)) (zip (replicate ?n False) (zip (replicate ?n (Some f_zero))
      (zip (replicate ?n f_zero) (zip (map int [0..<?n]) (zip (replicate ?n f_one) (zip (replicate ?n f_nan) (replicate ?n ([] :: string))))))))"
    have t: "mb_tokens b' = mb_tokens b @ Z"
      unfolding mb_tokens_def f r Z_def using l by simp
    have z: "filter counts Z = []"
      using flags_of_zip by (fastforce simp: filter_empty_conv Z_def counts_def)
    have "sum_list (butlast ls @ [last ls + ?n]) = sum_list ls + ?n"
      using ls(2) by (metis add.assoc append_butlast_last_id sum_list.append sum_list.Cons sum_list.Nil add_0_right)
    then show ?thesis
      using assms(2) ps lt by (auto simp: t z f ls mb_wf_def opt_length_def split: option.splits)
  qed
qed

lemma dummy_spec:
  assumes "mb_wf b"
  shows "mb_wf (make_dummy_batch b)" "filter counts (mb_tokens (make_dummy_batch b)) = []"
    "is_multimodal_sample (make_dummy_batch b) = is_multimodal_sample b" "mb_length (make_dummy_batch b) = mb_length b"
proof -
  show "mb_wf (make_dummy_batch b)" using assms by (simp add: mb_wf_def make_dummy_batch_def)
  show "filter counts (mb_tokens (make_dummy_batch b)) = []"
    by (rule no_loss) (auto simp: make_dummy_batch_def)
qed (simp_all add: make_dummy_batch_def is_multimodal_sample_def)

lemma pad_group_spec:
  assumes "n > 0" and "\<forall>b \<in> set bs. mb_wf b"
  shows "length (pad_group_for_distribution n bs) mod n = 0 \<and> loss_tokens (pad_group_for_distribution n bs) = loss_tokens bs
    \<and> (\<forall>b \<in> set (pad_group_for_distribution n bs). b \<in> set bs \<or> (bs \<noteq> [] \<and> b = make_dummy_batch (hd bs)))"
proof -
  let ?k = "nat ((- int (length bs)) mod int n)"
  have "int (length bs + ?k) mod int n = 0" using assms(1) by (simp add: mod_add_right_eq)
  then have "int ((length bs + ?k) mod n) = 0" by (simp only: of_nat_mod)
  then have k: "(length bs + ?k) mod n = 0" by simp
  have d: "filter counts (mb_tokens (make_dummy_batch (hd bs))) = []" if "bs \<noteq> []"
    using dummy_spec(2) [of "hd bs"] assms(2) that by simp
  have "loss_tokens (replicate j (make_dummy_batch (hd bs))) = []" if "bs \<noteq> []" for j
    by (induction j) (simp_all add: d that)
  then show ?thesis using k by (auto simp: pad_group_for_distribution_def Let_def)
qed

lemma pad_group_all:
  assumes "\<forall>b \<in> set bs. Q b" and "\<And>b. Q b \<Longrightarrow> Q (make_dummy_batch b)"
  shows "\<forall>b \<in> set (pad_group_for_distribution n bs). Q b"
  using assms hd_in_set [of bs] by (auto simp: pad_group_for_distribution_def Let_def)

section \<open>The grid\<close>

lemma distribute_snoc:
  "distribute n (xs @ [x]) = (distribute n xs)[length xs mod n := distribute n xs ! (length xs mod n) @ [x]]"
  by (simp add: distribute_def enumerate_append_eq)

lemma length_distribute [simp]: "length (distribute n xs) = n"
proof (induction xs rule: rev_induct)
  case Nil
  then show ?case by (simp add: distribute_def)
qed (simp add: distribute_snoc)

lemma mset_distribute:
  assumes "n > 0"
  shows "mset (concat (distribute n xs)) = mset xs"
proof (induction xs rule: rev_induct)
  case Nil
  have "concat (replicate n []) = []" by (induction n) auto
  then show ?case by (simp add: distribute_def)
next
  case (snoc x xs)
  let ?D = "distribute n xs" and ?i = "length xs mod n"
  have i: "?i < length ?D" using assms by simp
  have "mset (concat (?D[?i := ?D ! ?i @ [x]])) = add_mset x (mset (concat ?D))"
    unfolding upd_conv_take_nth_drop [OF i] by (subst (3) id_take_nth_drop [OF i]) simp
  then show ?case using snoc by (simp add: distribute_snoc)
qed

lemma distribute_row:
  assumes "w < n"
  shows "distribute n xs ! w = map (nth xs) (filter (\<lambda>i. i mod n = w) [0..<length xs])"
proof (induction xs rule: rev_induct)
  case Nil
  then show ?case using assms by (simp add: distribute_def)
next
  case (snoc x xs)
  have "map (nth (xs @ [x])) (filter (\<lambda>i. i mod n = w) [0..<length xs]) = map (nth xs) (filter (\<lambda>i. i mod n = w) [0..<length xs])"
    by (simp add: nth_append)
  then show ?case using snoc assms by (simp add: distribute_snoc nth_list_update)
qed

lemma strided_positions:
  assumes "w < n"
  shows "filter (\<lambda>i. i mod n = w) [0..<m * n] = map (\<lambda>k. w + k * n) [0..<m]"
proof (induction m)
  case (Suc m)
  have "[0..<Suc m * n] = [0..<m * n] @ map (\<lambda>i. i + m * n) [0..<n]"
    using upt_add_eq_append [of 0 "m * n" n] by (simp add: map_add_upt add.commute)
  moreover have "filter ((\<lambda>i. i mod n = w) \<circ> (\<lambda>i. i + m * n)) [0..<n] = filter (\<lambda>i. i = w) [0..<n]"
    by (rule filter_cong) auto
  moreover have "filter (\<lambda>i. i = w) [0..<n] = [w]"
    using assms by (induction n) (auto simp: less_Suc_eq)
  ultimately show ?case using Suc by (simp add: filter_map)
qed simp

lemma distribute_even:
  assumes "w < n" and "length xs = m * n"
  shows "distribute n xs ! w = map (\<lambda>k. xs ! (w + k * n)) [0..<m]"
  using distribute_row [OF assms(1), of xs] strided_positions [OF assms(1), of m] by (simp add: assms(2))

section \<open>First fit wastes less than half\<close>

definition compact :: "nat \<Rightarrow> micro_batch list \<Rightarrow> bool" where
  "compact n bins \<longleftrightarrow>
     sorted_wrt (\<lambda>b c. \<not> is_multimodal_sample b \<and> \<not> is_multimodal_sample c \<and> mb_training_mode b = mb_training_mode c
       \<longrightarrow> n < mb_length b + mb_length c) bins"

lemma open_bin_fields:
  "open_bin L i s = Inr b \<Longrightarrow> mb_length b = mb_length s \<and> mb_training_mode b = mb_training_mode s \<and> mb_mm_kwargs b = mb_mm_kwargs s"
  by (auto simp: open_bin_def res_simps)

lemma add_to_bin_fields:
  "add_to_bin i b s = Inr b' \<Longrightarrow>
    mb_length b' = mb_length b + mb_length s \<and> mb_training_mode b' = mb_training_mode b \<and> mb_mm_kwargs b' = mb_mm_kwargs b"
  by (auto simp: add_to_bin_def res_simps)

text \<open>A placed sample is in a bin at least as long, which is an old bin grown or a new last bin.\<close>

lemma place_sample_compact:
  assumes "place_sample n L i s bins = Inr bins'" and "compact n bins" and "\<not> is_multimodal_sample s"
  shows "compact n bins' \<and> (\<forall>c \<in> set bins'. (\<exists>b \<in> set bins. mb_length b \<le> mb_length c \<and>
        mb_training_mode c = mb_training_mode b \<and> mb_mm_kwargs c = mb_mm_kwargs b) \<or>
      mb_length c = mb_length s \<and> mb_training_mode c = mb_training_mode s \<and>
        (\<forall>b \<in> set bins. \<not> is_multimodal_sample b \<longrightarrow> \<not> fits n b s))"
  using assms(1,2)
proof (induction bins arbitrary: bins')
  case Nil
  then show ?case using open_bin_fields by (fastforce simp: compact_def res_simps)
next
  case (Cons b bins)
  have cb: "compact n bins" and pb: "\<forall>c \<in> set bins. \<not> is_multimodal_sample b \<and> \<not> is_multimodal_sample c \<and>
      mb_training_mode b = mb_training_mode c \<longrightarrow> n < mb_length b + mb_length c"
    using Cons.prems(2) by (auto simp: compact_def)
  show ?case
  proof (cases "\<not> is_multimodal_sample b \<and> fits n b s")
    case True
    then obtain b' where b': "add_to_bin i b s = Inr b'" "bins' = b' # bins" using Cons.prems(1) by (auto simp: res_simps)
    have "n < mb_length b' + mb_length c" if "c \<in> set bins" "\<not> is_multimodal_sample b'" "\<not> is_multimodal_sample c"
        "mb_training_mode b' = mb_training_mode c" for c
      using pb that add_to_bin_fields [OF b'(1)] by (force simp: is_multimodal_sample_def)
    then show ?thesis using cb add_to_bin_fields [OF b'(1)] by (auto simp: b'(2) compact_def)
  next
    case False
    then obtain bs' where bs': "place_sample n L i s bins = Inr bs'" "bins' = b # bs'"
      using Cons.prems(1) by (auto simp: res_simps split: if_splits)
    note ih = Cons.IH [OF bs'(1) cb]
    have "n < mb_length b + mb_length c" if c: "c \<in> set bs'" "\<not> is_multimodal_sample b" "\<not> is_multimodal_sample c"
        "mb_training_mode b = mb_training_mode c" for c
    proof -
      consider (old) d where "d \<in> set bins" "mb_length d \<le> mb_length c" "mb_training_mode c = mb_training_mode d" "mb_mm_kwargs c = mb_mm_kwargs d"
        | (new) "mb_length c = mb_length s" "mb_training_mode c = mb_training_mode s" using ih c(1) by blast
      then show ?thesis
      proof cases
        case old
        then show ?thesis using pb c by (force simp: is_multimodal_sample_def)
      next
        case new
        then show ?thesis using False c by (simp add: fits_def)
      qed
    qed
    then show ?thesis using ih False by (auto simp: bs'(2) compact_def)
  qed
qed

lemma packed_compact:
  assumes "packed_samples_into_micro_bs samples n L = Inr bins"
  shows "compact n bins"
  using assms unfolding packed_samples_into_micro_bs_def
proof (rule foldR_invariant)
  show "compact n []" by (simp add: compact_def)
  fix bins p bins' assume c: "compact n bins" and p: "pack_sample n L bins p = Inr bins'"
  show "compact n bins'"
  proof (cases "is_multimodal_sample (snd p)")
    case True
    then obtain b where b: "open_bin L (fst p) (snd p) = Inr b" "bins' = bins @ [b]"
      using p by (auto simp: pack_sample_def res_simps)
    have "is_multimodal_sample b" using open_bin_fields [OF b(1)] True by (simp add: is_multimodal_sample_def)
    then show ?thesis using c by (auto simp: b(2) compact_def sorted_wrt_append)
  next
    case False
    then show ?thesis using place_sample_compact c p by (simp add: pack_sample_def)
  qed
qed

text \<open>Packing moves whole samples: if packing succeeds, the micro batches are rows of whole samples,
  each sample in exactly one of them, of one training mode, adapters in ascending order with
  \<open>lora_num_tokens\<close> their token counts, a multimodal sample alone in its micro batch; a micro batch
  of several samples is within the sequence length; and any two text micro batches of one mode
  together exceed it, so packing wastes less than half.\<close>

theorem packing_moves_whole_samples:
  assumes "packed_samples_into_micro_bs samples max_seq_len num_loras = Inr bins"
    and "\<forall>p \<in> set samples. mb_wf (snd p)"
  shows "(\<exists>gs. list_all2 (holds_samples max_seq_len num_loras) gs bins \<and> mset (concat gs) = mset samples)
    \<and> compact max_seq_len bins"
  using packing_exists [OF assms] packed_compact [OF assms(1)] by (simp add: packing_def)

section \<open>The batch of a step\<close>

lemma prepared_batch:
  assumes "prepare_batch rollouts seq_len W idxs num_loras m = Inr grid" and "length idxs = length rollouts"
  obtains samples packed mbs where
    "list_all2 (\<lambda>r p. prepare_sample r seq_len = Inr (snd p)) rollouts samples"
    "packed_samples_into_micro_bs samples seq_len num_loras = Inr packed"
    "list_all2 (\<lambda>b b'. pad_micro_batch m b = Inr b') packed mbs" "W > 0"
    "grid = distribute W (pad_group_for_distribution W (filter is_multimodal_sample mbs)
       @ pad_group_for_distribution W (filter (\<lambda>b. \<not> is_multimodal_sample b) mbs))"
proof -
  obtain samples packed mbs where s: "mapR (\<lambda>(idx, r). bindR (prepare_sample r seq_len) (\<lambda>b. Inr (idx, b))) (zip idxs rollouts) = Inr samples"
    "packed_samples_into_micro_bs samples seq_len num_loras = Inr packed"
    "mapR (pad_micro_batch m) packed = Inr mbs" "W \<noteq> 0"
    "grid = distribute W (pad_group_for_distribution W (filter is_multimodal_sample mbs)
       @ pad_group_for_distribution W (filter (\<lambda>b. \<not> is_multimodal_sample b) mbs))"
    using assms(1) by (auto simp: prepare_batch_def bindR_eq_Inr ensure_eq_Inr Let_def)
  have "list_all2 (\<lambda>r p. prepare_sample r seq_len = Inr (snd p)) rollouts samples"
  proof (rule list_all2_all_nthI)
    have l: "list_all2 (\<lambda>q p. \<exists>b. prepare_sample (snd q) seq_len = Inr b \<and> p = (fst q, b)) (zip idxs rollouts) samples"
      using s(1) by (auto simp: mapR_Inr_iff bindR_eq_Inr elim: list_all2_mono)
    then show "length rollouts = length samples" using assms(2) by (auto dest: list_all2_lengthD)
    fix i assume "i < length rollouts"
    then show "prepare_sample (rollouts ! i) seq_len = Inr (snd (samples ! i))"
      using list_all2_nthD [OF l, of i] assms(2) by auto
  qed
  then show thesis using s by (intro that) (auto simp: res_simps)
qed

lemma list_all2_setD2: "list_all2 P xs ys \<Longrightarrow> y \<in> set ys \<Longrightarrow> \<exists>x \<in> set xs. P x y"
  by (induction rule: list_all2_induct) auto

lemma loss_tokens_mset: "mset (loss_tokens bs) = (\<Sum>b \<in># mset bs. mset (filter counts (mb_tokens b)))"
  by (induction bs) auto

lemma sum_filter_split:
  "(\<Sum>b \<in># mset bs. f b) = (\<Sum>b \<in># mset (filter P bs). f b) + (\<Sum>b \<in># mset (filter (\<lambda>b. \<not> P b) bs). (f b :: 'a :: comm_monoid_add))"
  by (induction bs) (auto simp: ac_simps)

lemma concat_mset_tokens: "mset (filter counts (concat (map (mb_tokens \<circ> snd) xs))) = (\<Sum>p \<in># mset xs. mset (filter counts (mb_tokens (snd p))))"
  by (induction xs) auto

lemma packing_loss:
  assumes "list_all2 (holds_samples n L) gs bins"
  shows "loss_tokens bins = filter counts (concat (map (mb_tokens \<circ> snd) (concat gs)))"
  using assms by (induction rule: list_all2_induct) (auto simp: holds_samples_def comp_def)

lemma grid_loss:
  assumes "prepare_batch rollouts seq_len W idxs num_loras m = Inr grid" and "length idxs = length rollouts"
    and "list_all2 (\<lambda>r b. prepare_sample r seq_len = Inr b) rollouts prepared"
  shows "mset (loss_tokens (concat grid)) = mset (loss_tokens prepared)"
proof -
  from prepared_batch [OF assms(1,2)] obtain samples packed mbs where
    s: "list_all2 (\<lambda>r p. prepare_sample r seq_len = Inr (snd p)) rollouts samples"
    "packed_samples_into_micro_bs samples seq_len num_loras = Inr packed"
    "list_all2 (\<lambda>b b'. pad_micro_batch m b = Inr b') packed mbs" "W > 0"
    "grid = distribute W (pad_group_for_distribution W (filter is_multimodal_sample mbs)
       @ pad_group_for_distribution W (filter (\<lambda>b. \<not> is_multimodal_sample b) mbs))" by blast
  let ?T = "\<lambda>b. mset (filter counts (mb_tokens b))"
  have pr: "prepared = map snd samples"
    using assms(3) s(1) by (intro nth_equalityI) (auto simp: list_all2_conv_all_nth)
  have wf: "\<forall>p \<in> set samples. mb_wf (snd p)" using list_all2_setD2 [OF s(1)] prepare_sample_Inr(1) by blast
  obtain gs where gs: "list_all2 (holds_samples seq_len num_loras) gs packed" "mset (concat gs) = mset samples"
    using packing_exists [OF s(2) wf] by (auto simp: packing_def)
  have wfp: "\<forall>b \<in> set packed. mb_wf b" using list_all2_setD2 [OF gs(1)] by (auto simp: holds_samples_def)
  have wfm: "\<forall>b \<in> set mbs. mb_wf b" using list_all2_setD2 [OF s(3)] wfp pad_micro_batch_spec by blast
  have padded: "loss_tokens mbs = loss_tokens packed"
    using s(3) wfp by (induction rule: list_all2_induct) (auto simp: pad_micro_batch_spec)
  have "mset (loss_tokens (concat grid)) = (\<Sum>b \<in># mset (concat grid). ?T b)" by (rule loss_tokens_mset)
  also have "mset (concat grid) = mset (pad_group_for_distribution W (filter is_multimodal_sample mbs)
       @ pad_group_for_distribution W (filter (\<lambda>b. \<not> is_multimodal_sample b) mbs))" using s(4,5) mset_distribute by simp
  also have "(\<Sum>b \<in># mset (pad_group_for_distribution W (filter is_multimodal_sample mbs)
       @ pad_group_for_distribution W (filter (\<lambda>b. \<not> is_multimodal_sample b) mbs)). ?T b) =
      mset (loss_tokens (pad_group_for_distribution W (filter is_multimodal_sample mbs)
       @ pad_group_for_distribution W (filter (\<lambda>b. \<not> is_multimodal_sample b) mbs)))" by (rule loss_tokens_mset [symmetric])
  also have "\<dots> = mset (loss_tokens (filter is_multimodal_sample mbs)) + mset (loss_tokens (filter (\<lambda>b. \<not> is_multimodal_sample b) mbs))"
    using pad_group_spec [OF s(4)] wfm by simp
  also have "\<dots> = mset (loss_tokens mbs)"
    using sum_filter_split [of ?T mbs is_multimodal_sample] by (simp add: loss_tokens_mset)
  also have "\<dots> = mset (filter counts (concat (map (mb_tokens \<circ> snd) (concat gs))))"
    by (simp add: padded packing_loss [OF gs(1)])
  also have "\<dots> = mset (loss_tokens prepared)"
    unfolding concat_mset_tokens gs(2) loss_tokens_mset pr by (simp add: image_mset.compositionality comp_def)
  finally show ?thesis .
qed

text \<open>The tokens of a training sample: prompt tokens have log-probability 0 and the first temperature.\<close>

definition sample_tokens :: "training_sample \<Rightarrow> token list" where
  "sample_tokens ex =
     (let n = sample_length ex; k = length (ts_prompt_ids ex);
          temp = (case ts_completion_temperatures ex of [] \<Rightarrow> f_one | t # _ \<Rightarrow> t) in
      zip (ts_prompt_ids ex @ ts_completion_ids ex) (zip (ts_prompt_mask ex @ ts_completion_mask ex)
        (zip (replicate n (ts_advantage ex)) (zip (replicate k f_zero @ ts_completion_logprobs ex)
          (zip (map int [0..<n]) (zip (replicate k temp @ ts_completion_temperatures ex)
            (zip (replicate n (case ts_reward ex of None \<Rightarrow> f_nan | Some r \<Rightarrow> r)) (replicate n (ts_env_name ex)))))))))"

lemma prepared_tokens:
  assumes "prepare_sample ex n = Inr b"
  shows "mb_tokens b = take n (sample_tokens ex)"
proof -
  let ?l = "sample_length ex" and ?c = "n < sample_length ex"
  from prepare_sample_result [OF assms] obtain routed where b: "b = \<lparr>mb_input_ids = cut ?c n (ts_prompt_ids ex @ ts_completion_ids ex),
      mb_loss_mask = cut ?c n (ts_prompt_mask ex @ ts_completion_mask ex),
      mb_advantages = replicate (if ?c then n else ?l) (ts_advantage ex),
      mb_inference_logprobs = cut ?c n (replicate (length (ts_prompt_ids ex)) f_zero @ ts_completion_logprobs ex),
      mb_position_ids = map int [0..<if ?c then n else ?l],
      mb_temperatures = cut ?c n (replicate (length (ts_prompt_ids ex))
        (case ts_completion_temperatures ex of [] \<Rightarrow> f_one | t # _ \<Rightarrow> t) @ ts_completion_temperatures ex),
      mb_env_names = replicate (if ?c then n else ?l) (ts_env_name ex),
      mb_teacher_logprobs = map_option (cut ?c n) (ts_teacher_logprobs ex),
      mb_lora_num_tokens = None, mb_routed_experts = routed, mb_mm_kwargs = ts_mm_kwargs ex,
      mb_mm_token_type_ids = map_option (cut ?c n) (ts_mm_token_type_ids ex), mb_training_mode = ts_training_mode ex,
      mb_rewards = Some (replicate (if ?c then n else ?l) (case ts_reward ex of None \<Rightarrow> f_nan | Some r \<Rightarrow> r))\<rparr>"
    by blast
  have f: "mb_input_ids b = cut ?c n (ts_prompt_ids ex @ ts_completion_ids ex)"
    "mb_loss_mask b = cut ?c n (ts_prompt_mask ex @ ts_completion_mask ex)"
    "mb_advantages b = cut ?c n (replicate ?l (ts_advantage ex))"
    "mb_inference_logprobs b = cut ?c n (replicate (length (ts_prompt_ids ex)) f_zero @ ts_completion_logprobs ex)"
    "mb_position_ids b = cut ?c n (map int [0..<?l])"
    "mb_temperatures b = cut ?c n (replicate (length (ts_prompt_ids ex))
       (case ts_completion_temperatures ex of [] \<Rightarrow> f_one | t # _ \<Rightarrow> t) @ ts_completion_temperatures ex)"
    "reward_list b = cut ?c n (replicate ?l (case ts_reward ex of None \<Rightarrow> f_nan | Some r \<Rightarrow> r))"
    "mb_env_names b = cut ?c n (replicate ?l (ts_env_name ex))"
    by (simp_all add: b cut_def take_map min_def reward_list_def)
  have e: "mb_tokens b = cut ?c n (sample_tokens ex)"
    unfolding mb_tokens_def f sample_tokens_def Let_def by (cases ?c) (simp_all add: cut_def take_zip)
  show ?thesis
  proof (cases ?c)
    case False
    have "length (mb_tokens b) \<le> n" using prepare_sample_Inr(1,2) [OF assms] by simp
    then show ?thesis using False e by (simp add: cut_def)
  qed (simp add: e cut_def)
qed

lemma prepare_batch_loss:
  assumes "prepare_batch rollouts seq_len W idxs num_loras m = Inr grid" and "length idxs = length rollouts"
  shows "mset (loss_tokens (concat grid)) =
    mset (filter counts (concat (map (\<lambda>ex. take seq_len (sample_tokens ex)) rollouts)))"
proof -
  have "\<exists>samples :: (nat \<times> micro_batch) list. list_all2 (\<lambda>r p. prepare_sample r seq_len = Inr (snd p)) rollouts samples"
    by (rule prepared_batch [OF assms]) (rule exI, assumption)
  then obtain samples :: "(nat \<times> micro_batch) list" where s: "list_all2 (\<lambda>r p. prepare_sample r seq_len = Inr (snd p)) rollouts samples" ..
  then have "list_all2 (\<lambda>r b. prepare_sample r seq_len = Inr b) rollouts (map snd samples)"
    by (simp add: list_all2_map2)
  from grid_loss [OF assms this] have "mset (loss_tokens (concat grid)) = mset (loss_tokens (map snd samples))" .
  moreover have "map mb_tokens (map snd samples) = map (\<lambda>ex. take seq_len (sample_tokens ex)) rollouts"
    using s by (induction rule: list_all2_induct) (auto simp: prepared_tokens)
  ultimately show ?thesis by (simp only: loss_tokens_def)
qed

text \<open>C7. No training token is lost or made up: the tokens that count in the loss, over all micro batches
  of all ranks, are exactly those of the training samples (cut at the sequence length), each with its
  own mask, advantage, log-probability, position, temperature, reward and environment. Padding
  tokens and dummy micro batches add none.\<close>

theorem prepare_batch_conserves_loss:
  assumes "prepare_batch rollouts seq_len W idxs num_loras m = Inr grid" and "length idxs = length rollouts"
  shows "mset (loss_tokens (concat grid)) =
    mset (filter counts (concat (map (\<lambda>ex. take seq_len (sample_tokens ex)) rollouts)))"
  using assms by (rule prepare_batch_loss)

lemma prepare_batch_rows:
  assumes "prepare_batch rollouts seq_len W idxs num_loras m = Inr grid"
  shows "length grid = W"
  using assms by (auto simp: prepare_batch_def bindR_eq_Inr Let_def)

text \<open>C18. The ranks run in step: the grid has a row per rank, all rows have the same length, and at every
  step index all ranks hold a multimodal micro batch or all hold a text one, multimodal first. Every
  micro batch has one entry per token in each list and a length that is a multiple of the padding unit.\<close>

theorem grid_uniform:
  assumes "prepare_batch rollouts seq_len W idxs num_loras m = Inr grid" and "length idxs = length rollouts"
  shows "\<exists>n k. length grid = W \<and> (\<forall>w < W. length (grid ! w) = n \<and>
    (\<forall>j < n. is_multimodal_sample (grid ! w ! j) = (j < k) \<and> mb_wf (grid ! w ! j) \<and> mb_length (grid ! w ! j) mod m = 0))"
proof -
  from prepared_batch [OF assms] obtain samples packed mbs where
    s: "list_all2 (\<lambda>r p. prepare_sample r seq_len = Inr (snd p)) rollouts samples"
    "packed_samples_into_micro_bs samples seq_len num_loras = Inr packed"
    "list_all2 (\<lambda>b b'. pad_micro_batch m b = Inr b') packed mbs" "W > 0"
    "grid = distribute W (pad_group_for_distribution W (filter is_multimodal_sample mbs)
       @ pad_group_for_distribution W (filter (\<lambda>b. \<not> is_multimodal_sample b) mbs))" by blast
  have wf: "\<forall>p \<in> set samples. mb_wf (snd p)" using list_all2_setD2 [OF s(1)] prepare_sample_Inr(1) by blast
  obtain gs where gs: "list_all2 (holds_samples seq_len num_loras) gs packed"
    using packing_exists [OF s(2) wf] by (auto simp: packing_def)
  have wfp: "\<forall>b \<in> set packed. mb_wf b" using list_all2_setD2 [OF gs] by (auto simp: holds_samples_def)
  have wfm: "\<forall>b \<in> set mbs. mb_wf b \<and> mb_length b mod m = 0"
    using list_all2_setD2 [OF s(3)] wfp pad_micro_batch_spec by blast
  let ?G = "\<lambda>P. pad_group_for_distribution W (filter P mbs)"
  let ?A = "?G is_multimodal_sample" and ?B = "?G (\<lambda>b. \<not> is_multimodal_sample b)"
  have G: "length (?G P) mod W = 0 \<and> (\<forall>b \<in> set (?G P). mb_wf b \<and> mb_length b mod m = 0)" for P
    using pad_group_spec [OF s(4), of "filter P mbs"] wfm
    by (intro conjI pad_group_all) (simp_all add: dummy_spec)
  have mm: "\<forall>b \<in> set ?A. is_multimodal_sample b" "\<forall>b \<in> set ?B. \<not> is_multimodal_sample b"
    by (intro pad_group_all; simp add: make_dummy_batch_def is_multimodal_sample_def)+
  define a where "a = length ?A div W"
  define c where "c = length ?B div W"
  have "length (?G P) = length (?G P) div W * W" for P using G [of P] by (metis add.right_neutral div_mult_mod_eq)
  then have la: "length ?A = a * W" "length ?B = c * W" unfolding a_def c_def by blast+
  have "length (grid ! w) = a + c \<and> (\<forall>j < a + c. is_multimodal_sample (grid ! w ! j) = (j < a) \<and>
      mb_wf (grid ! w ! j) \<and> mb_length (grid ! w ! j) mod m = 0)" if w: "w < W" for w
  proof -
    have row: "grid ! w = map (\<lambda>k. (?A @ ?B) ! (w + k * W)) [0..<a + c]"
      unfolding s(5) by (rule distribute_even [OF w]) (simp add: la algebra_simps)
    have "is_multimodal_sample ((?A @ ?B) ! (w + j * W)) = (j < a) \<and> mb_wf ((?A @ ?B) ! (w + j * W)) \<and>
        mb_length ((?A @ ?B) ! (w + j * W)) mod m = 0" if j: "j < a + c" for j
    proof (cases "j < a")
      case True
      then have "w + j * W < length ?A" unfolding la using w
        by (metis Suc_leI add_less_le_mono add.commute mult_Suc mult_le_mono1 less_le_trans add_less_cancel_right)
      then have "(?A @ ?B) ! (w + j * W) \<in> set ?A" by (simp add: nth_append)
      then show ?thesis using mm(1) G True by blast
    next
      case False
      have lt: "w + j * W < (a + c) * W" using w j
        by (metis Suc_leI add_less_le_mono add.commute mult_Suc mult_le_mono1 less_le_trans add_less_cancel_right)
      have p: "a * W \<le> j * W" by (rule mult_le_mono1) (use False in simp)
      have "w + j * W < a * W + c * W" using lt by (simp add: add_mult_distrib)
      with p have "\<not> w + j * W < length ?A" "w + j * W - length ?A < length ?B" unfolding la by linarith+
      then have "(?A @ ?B) ! (w + j * W) \<in> set ?B" by (simp add: nth_append)
      then show ?thesis using mm(2) G False by blast
    qed
    then show ?thesis by (simp add: row)
  qed
  moreover have "length grid = W" by (simp add: s(5))
  ultimately show ?thesis by blast
qed


section \<open>A batch\<close>

definition demo_sample :: "int list \<Rightarrow> int list \<Rightarrow> bool \<Rightarrow> training_sample" where
  "demo_sample prompt completion images =
     \<lparr>ts_prompt_ids = prompt, ts_prompt_mask = map (\<lambda>_. False) prompt, ts_completion_ids = completion,
      ts_completion_mask = map (\<lambda>_. True) completion, ts_completion_logprobs = map (\<lambda>_. f_zero) completion,
      ts_completion_temperatures = map (\<lambda>_. f_one) completion, ts_env_name = ''m'', ts_teacher_logprobs = None,
      ts_advantage = Some f_one, ts_reward = None, ts_mm_kwargs = (if images then Some [] else None),
      ts_routed_experts = None, ts_mm_token_type_ids = None, ts_training_mode = Rl\<rparr>"

definition demo_rollouts :: "training_sample list" where
  "demo_rollouts = [demo_sample [7] [8, 9] False, demo_sample [5] [6] True, demo_sample [3, 4] [2] False, demo_sample [11] [12] False]"

definition demo_prepared :: "(nat \<times> micro_batch) list" where
  "demo_prepared = map (\<lambda>ex. (0, case prepare_sample ex 5 of Inr b \<Rightarrow> b)) demo_rollouts"

definition demo_grid :: "micro_batch list list" where
  "demo_grid = (case prepare_batch demo_rollouts 5 2 [0, 0, 0, 0] (Suc 0) 2 of Inr g \<Rightarrow> g)"

lemma demo_grid: "prepare_batch demo_rollouts 5 2 [0, 0, 0, 0] (Suc 0) 2 = Inr demo_grid" "length [0, 0, 0, 0 :: nat] = length demo_rollouts"
  by code_simp+

lemma packing_moves_whole_samples_witness:
  "\<exists>bins gs. packed_samples_into_micro_bs demo_prepared 5 (Suc 0) = Inr bins \<and> length bins = 3
    \<and> list_all2 (holds_samples 5 (Suc 0)) gs bins \<and> mset (concat gs) = mset demo_prepared"
proof -
  let ?bins = "case packed_samples_into_micro_bs demo_prepared 5 (Suc 0) of Inr b \<Rightarrow> b"
  have p: "packed_samples_into_micro_bs demo_prepared 5 (Suc 0) = Inr ?bins" "length ?bins = 3"
    "\<forall>q \<in> set demo_prepared. mb_wf (snd q)" by code_simp+
  from packing_moves_whole_samples [OF p(1,3)] p(1,2) show ?thesis by blast
qed

lemma prepare_batch_conserves_loss_witness:
  "mset (loss_tokens (concat demo_grid)) = mset (filter counts (concat (map (\<lambda>ex. take 5 (sample_tokens ex)) demo_rollouts)))
   \<and> length (loss_tokens (concat demo_grid)) = 5"
proof
  show "mset (loss_tokens (concat demo_grid)) = mset (filter counts (concat (map (\<lambda>ex. take 5 (sample_tokens ex)) demo_rollouts)))"
    by (rule prepare_batch_conserves_loss [OF demo_grid])
  show "length (loss_tokens (concat demo_grid)) = 5" by code_simp
qed

lemma grid_uniform_witness:
  "\<exists>n k. length demo_grid = 2 \<and> (\<forall>w < 2. length (demo_grid ! w) = n \<and>
    (\<forall>j < n. is_multimodal_sample (demo_grid ! w ! j) = (j < k)))"
  using grid_uniform [OF demo_grid] by blast

end
