(* ===== verification/Transport.thy ===== *)
theory Transport
  imports Batch Runs
begin

text \<open>
  How batches travel (\<open>transport/filesystem.py\<close>, \<open>transport/zmq.py\<close>): training batches from the
  orchestrators of the runs to the packer, micro batches from the packer to the ranks. A file or
  message is its decoded content, \<open>None\<close> when the decoder rejects it; a file appears whole, as the
  senders rename it into place. What is common to the two training batch receivers is a locale.
\<close>

section \<open>Training batches through files\<close>

type_synonym rollout_files = "(string \<times> int, training_batch option) dict"

definition fs_send :: "string \<Rightarrow> training_batch \<Rightarrow> rollout_files \<Rightarrow> rollout_files" where
  "fs_send run b files = dput (run, tb_step b) (Some b) files"

type_synonym received_steps = "(nat, int) dict"

definition get_received_step :: "manager \<Rightarrow> nat \<Rightarrow> received_steps \<Rightarrow> (received_steps \<times> int) res" where
  "get_received_step m idx rs =
     (case dget rs idx of
        Some s \<Rightarrow> Inr (rs, s)
      | None \<Rightarrow>
          (case dget (m_progress m) idx of
             None \<Rightarrow> Inl (KeyError ''progress'')
           | Some p \<Rightarrow> Inr (dput idx (p_step p) rs, p_step p)))"

definition get_batch_path :: "manager \<Rightarrow> nat \<Rightarrow> received_steps \<Rightarrow> (received_steps \<times> (string \<times> int)) res" where
  "get_batch_path m idx rs =
     (case dget (idx_2_id m) idx of
        None \<Rightarrow> Inl (KeyError ''idx_2_id'')
      | Some run \<Rightarrow> bindR (get_received_step m idx rs) (\<lambda>(rs', s). Inr (rs', (run, s))))"

definition is_ready :: "manager \<Rightarrow> nat \<Rightarrow> bool res" where
  "is_ready m idx =
     (if idx < length (ready_to_update m) then Inr (ready_to_update m ! idx) else Inl (IndexError ''ready_to_update''))"

text \<open>\<open>receive\<close> asks for the path of every used run once for its log, which initialises the steps.\<close>

definition initialise_steps :: "manager \<Rightarrow> received_steps \<Rightarrow> received_steps res" where
  "initialise_steps m rs = foldR (\<lambda>rs idx. bindR (get_batch_path m idx rs) (\<lambda>(rs', _). Inr rs')) rs (used_idxs m)"

definition fs_receive_run ::
  "manager \<Rightarrow> rollout_files \<Rightarrow> received_steps \<times> training_batch list \<Rightarrow> nat \<Rightarrow> (received_steps \<times> training_batch list) res" where
  "fs_receive_run m files st idx =
     bindR (is_ready m idx) (\<lambda>ready.
     if ready then Inr st
     else
       bindR (get_batch_path m idx (fst st)) (\<lambda>(rs, path).
       case dget files path of
         None \<Rightarrow> Inr (rs, snd st)
       | Some None \<Rightarrow> Inr (rs, snd st)
       | Some (Some b) \<Rightarrow> Inr (dput idx (snd path + 1) rs, snd st @ [b\<lparr>tb_run_idx := Some idx\<rparr>])))"

definition fs_receive :: "manager \<Rightarrow> rollout_files \<Rightarrow> received_steps \<Rightarrow> (received_steps \<times> training_batch list) res" where
  "fs_receive m files rs =
     bindR (initialise_steps m rs) (\<lambda>rs. foldR (fs_receive_run m files) (rs, []) (used_idxs m))"

definition fs_reset_run :: "nat \<Rightarrow> received_steps \<Rightarrow> received_steps" where
  "fs_reset_run idx rs = dpop idx rs"

definition fs_can_receive :: "manager \<Rightarrow> rollout_files \<Rightarrow> received_steps \<Rightarrow> bool res" where
  "fs_can_receive m files rs =
     bindR (foldR (\<lambda>(rs, found) idx.
              if found then Inr (rs, found)
              else bindR (is_ready m idx) (\<lambda>ready.
                   if ready then Inr (rs, False)
                   else bindR (get_batch_path m idx rs) (\<lambda>(rs', path). Inr (rs', dget files path \<noteq> None))))
            (rs, False) (used_idxs m)) (\<lambda>(_, found). Inr found)"

section \<open>Training batches through sockets\<close>

text \<open>The messages waiting on the socket, and the batches set aside per run and step.\<close>

type_synonym zmq_pending = "(string, (int, training_batch) dict) dict"
type_synonym zmq_messages = "(string \<times> training_batch option) list"

definition drain_message :: "zmq_pending \<Rightarrow> string \<times> training_batch option \<Rightarrow> zmq_pending res" where
  "drain_message pending msg =
     (case msg of
        (sender, None) \<Rightarrow> Inr pending
      | (sender, Some b) \<Rightarrow>
          let per_id = (case dget pending sender of None \<Rightarrow> [] | Some d \<Rightarrow> d) in
          bindR (ensure (dget per_id (tb_step b) = None) (AssertionError ''Step already in pending'')) (\<lambda>_.
          Inr (dput sender (dput (tb_step b) b per_id) pending)))"

definition drain_into_pending :: "zmq_messages \<Rightarrow> zmq_pending \<Rightarrow> zmq_pending res" where
  "drain_into_pending msgs pending = foldR drain_message pending msgs"

definition zmq_receive_run ::
  "manager \<Rightarrow> zmq_pending \<times> training_batch list \<Rightarrow> nat \<Rightarrow> (zmq_pending \<times> training_batch list) res" where
  "zmq_receive_run m st idx =
     (case dget (idx_2_id m) idx of
        None \<Rightarrow> Inl (KeyError ''idx_2_id'')
      | Some run \<Rightarrow>
          bindR (is_ready m idx) (\<lambda>ready.
          if ready then Inr st
          else case dget (fst st) run of
                 None \<Rightarrow> Inr st
               | Some per_id \<Rightarrow>
                   if per_id = [] then Inr st
                   else
                     let oldest = Min (set (dkeys per_id)); rest = dpop oldest per_id in
                     (case dget per_id oldest of
                        None \<Rightarrow> Inl (KeyError ''step'')
                      | Some b \<Rightarrow> Inr (if rest = [] then dpop run (fst st) else dput run rest (fst st),
                                       snd st @ [b\<lparr>tb_run_idx := Some idx\<rparr>]))))"

definition zmq_receive :: "manager \<Rightarrow> zmq_messages \<Rightarrow> zmq_pending \<Rightarrow> (zmq_pending \<times> training_batch list) res" where
  "zmq_receive m msgs pending =
     bindR (drain_into_pending msgs pending) (\<lambda>p. foldR (zmq_receive_run m) (p, []) (used_idxs m))"

text \<open>The base class keeps nothing per run, and the socket receiver does not override it.\<close>

definition zmq_reset_run :: "nat \<Rightarrow> zmq_pending \<Rightarrow> zmq_pending" where
  "zmq_reset_run idx pending = pending"

section \<open>Micro batches\<close>

definition check_grid :: "nat \<Rightarrow> micro_batch list list \<Rightarrow> unit res" where
  "check_grid data_world_size grid =
     bindR (ensure (length grid = data_world_size) (AssertionError ''data world size'')) (\<lambda>_.
     ensure (\<forall>row \<in> set grid. length row = length (hd grid)) (AssertionError ''same length''))"

record mb_sender =
  snd_world :: nat
  snd_step :: int

type_synonym mb_files = "(int \<times> nat, micro_batch list) dict"

definition fs_send_grid :: "mb_sender \<Rightarrow> micro_batch list list \<Rightarrow> mb_files \<Rightarrow> (mb_sender \<times> mb_files) res" where
  "fs_send_grid s grid files =
     bindR (check_grid (snd_world s) grid) (\<lambda>_.
     Inr (s\<lparr>snd_step := snd_step s + 1\<rparr>,
          foldl (\<lambda>fs r. dput (snd_step s, r) (grid ! r) fs) files [0..<snd_world s]))"

record mb_receiver =
  rcv_rank :: nat
  rcv_step :: int

definition fs_can_receive_micro :: "mb_receiver \<Rightarrow> mb_files \<Rightarrow> bool" where
  "fs_can_receive_micro r files \<longleftrightarrow> dget files (rcv_step r, rcv_rank r) \<noteq> None"

definition fs_receive_micro :: "mb_receiver \<Rightarrow> mb_files \<Rightarrow> (mb_receiver \<times> micro_batch list) res" where
  "fs_receive_micro r files =
     (case dget files (rcv_step r, rcv_rank r) of
        None \<Rightarrow> Inl FileNotFoundError
      | Some bs \<Rightarrow> Inr (r\<lparr>rcv_step := rcv_step r + 1\<rparr>, bs))"

text \<open>Sockets: the sender waits for \<open>READY\<close> from every rank (other messages are ignored), then publishes.\<close>

fun wait_for_ready :: "nat \<Rightarrow> nat list \<Rightarrow> nat option list \<Rightarrow> bool" where
  "wait_for_ready n ranks msgs =
     (if length ranks \<ge> n then True
      else case msgs of
             [] \<Rightarrow> False
           | None # ms \<Rightarrow> wait_for_ready n ranks ms
           | Some r # ms \<Rightarrow> wait_for_ready n (List.insert r ranks) ms)"

definition zmq_send_grid :: "mb_sender \<Rightarrow> micro_batch list list \<Rightarrow> (nat \<times> micro_batch list) list \<Rightarrow> (mb_sender \<times> (nat \<times> micro_batch list) list) res" where
  "zmq_send_grid s grid queue =
     bindR (check_grid (snd_world s) grid) (\<lambda>_.
     Inr (s\<lparr>snd_step := snd_step s + 1\<rparr>, queue @ map (\<lambda>r. (r, grid ! r)) [0..<snd_world s]))"

text \<open>A rank sees the messages of its topic, in the order they were published.\<close>

definition zmq_topic :: "nat \<Rightarrow> (nat \<times> micro_batch list) list \<Rightarrow> micro_batch list list" where
  "zmq_topic rank queue = map snd (filter (\<lambda>p. fst p = rank) queue)"

section \<open>The interface of the training batch receivers\<close>

text \<open>What the packer relies on: a batch is of a used run that is not waiting to be trained, one per run.\<close>

locale batch_receiver =
  fixes receive :: "manager \<Rightarrow> 'e \<Rightarrow> 'r \<Rightarrow> ('r \<times> training_batch list) res"
  assumes tagged: "receive m e r = Inr (r', bs) \<Longrightarrow> b \<in> set bs \<Longrightarrow>
      \<exists>i \<in> set (used_idxs m). tb_run_idx b = Some i \<and> is_ready m i = Inr False"
    and one_each: "receive m e r = Inr (r', bs) \<Longrightarrow> distinct (used_idxs m) \<Longrightarrow> distinct (map tb_run_idx bs)"
begin

lemma run_indices:
  assumes "receive m e r = Inr (r', bs)"
  shows "set (map tb_run_idx bs) \<subseteq> Some ` set (used_idxs m)"
  using tagged [OF assms] by force

lemma at_most_one:
  assumes "receive m e r = Inr (r', bs)" and "distinct (used_idxs m)" and "b \<in> set bs" and "c \<in> set bs"
    and "tb_run_idx b = tb_run_idx c"
  shows "b = c"
  using one_each [OF assms(1,2)] assms(3-5) by (auto simp: distinct_map dest: inj_onD)

end

lemma tagged_fold:
  assumes "foldR step (s, acc) xs = Inr (s', bs)"
    and "\<And>s acc i s1 acc1. step (s, acc) i = Inr (s1, acc1) \<Longrightarrow>
      acc1 = acc \<or> (\<exists>b. acc1 = acc @ [b] \<and> tb_run_idx b = Some i \<and> is_ready m i = Inr False)"
  shows "\<exists>new ys. bs = acc @ new \<and> map tb_run_idx new = map Some ys \<and> set ys \<subseteq> set xs \<and> (distinct xs \<longrightarrow> distinct ys)
    \<and> (\<forall>y \<in> set ys. is_ready m y = Inr False)"
  using assms(1)
proof (induction xs arbitrary: s acc)
  case Nil
  then show ?case by auto
next
  case (Cons x xs)
  then obtain s1 acc1 where st: "step (s, acc) x = Inr (s1, acc1)" "foldR step (s1, acc1) xs = Inr (s', bs)"
    by (auto simp: res_simps)
  from Cons.IH [OF st(2)] obtain new ys where n: "bs = acc1 @ new" "map tb_run_idx new = map Some ys" "set ys \<subseteq> set xs"
    "distinct xs \<longrightarrow> distinct ys" "\<forall>y \<in> set ys. is_ready m y = Inr False" by blast
  from assms(2) [OF st(1)] show ?case
  proof
    assume "acc1 = acc"
    then show ?thesis using n by (intro exI [of _ new] exI [of _ ys]) auto
  next
    assume "\<exists>b. acc1 = acc @ [b] \<and> tb_run_idx b = Some x \<and> is_ready m x = Inr False"
    then obtain b where "acc1 = acc @ [b]" "tb_run_idx b = Some x" "is_ready m x = Inr False" by blast
    then show ?thesis using n by (intro exI [of _ "b # new"] exI [of _ "x # ys"]) auto
  qed
qed

lemma tagged_receive:
  assumes "\<exists>new ys. bs = [] @ new \<and> map tb_run_idx new = map Some ys \<and> set ys \<subseteq> set (used_idxs m)
      \<and> (distinct (used_idxs m) \<longrightarrow> distinct ys) \<and> (\<forall>y \<in> set ys. is_ready m y = Inr False)"
  shows "b \<in> set bs \<Longrightarrow> \<exists>i \<in> set (used_idxs m). tb_run_idx b = Some i \<and> is_ready m i = Inr False"
    and "distinct (used_idxs m) \<Longrightarrow> distinct (map tb_run_idx bs)"
proof -
  from assms obtain ys where y: "map tb_run_idx bs = map Some ys" "set ys \<subseteq> set (used_idxs m)"
    "distinct (used_idxs m) \<longrightarrow> distinct ys" "\<forall>y \<in> set ys. is_ready m y = Inr False" by auto
  show "\<exists>i \<in> set (used_idxs m). tb_run_idx b = Some i \<and> is_ready m i = Inr False" if "b \<in> set bs"
  proof -
    have "tb_run_idx b \<in> set (map tb_run_idx bs)" using that by simp
    then obtain i where "tb_run_idx b = Some i" "i \<in> set ys" unfolding y(1) by auto
    then show ?thesis using y(2,4) by blast
  qed
  show "distinct (used_idxs m) \<Longrightarrow> distinct (map tb_run_idx bs)" using y(1,3) by (simp add: distinct_map)
qed

lemma fs_receive_run_appends:
  assumes "fs_receive_run m files (rs, acc) i = Inr (rs1, acc1)"
  shows "acc1 = acc \<or> (\<exists>b. acc1 = acc @ [b] \<and> tb_run_idx b = Some i \<and> is_ready m i = Inr False)"
proof -
  obtain ready where r: "is_ready m i = Inr ready" using assms by (auto simp: fs_receive_run_def res_simps)
  show ?thesis
  proof (cases ready)
    case False
    then obtain rs2 path where g: "get_batch_path m i rs = Inr (rs2, path)"
      using assms r by (auto simp: fs_receive_run_def res_simps)
    consider "dget files path = None" | "dget files path = Some None" | b where "dget files path = Some (Some b)"
      by (metis not_None_eq)
    then show ?thesis using assms r g False by cases (auto simp: fs_receive_run_def)
  qed (use assms r in \<open>simp add: fs_receive_run_def\<close>)
qed

lemma zmq_receive_run_appends:
  "zmq_receive_run m (p, acc) i = Inr (p1, acc1) \<Longrightarrow>
    acc1 = acc \<or> (\<exists>b. acc1 = acc @ [b] \<and> tb_run_idx b = Some i \<and> is_ready m i = Inr False)"
  by (auto simp: zmq_receive_run_def res_simps Let_def split: if_split_asm option.split_asm)

interpretation fs: batch_receiver fs_receive
proof
  fix m and files :: rollout_files and rs rs' bs assume r: "fs_receive m files rs = Inr (rs', bs)"
  then obtain rs0 where "foldR (fs_receive_run m files) (rs0, []) (used_idxs m) = Inr (rs', bs)"
    by (auto simp: fs_receive_def res_simps)
  note t = tagged_receive [OF tagged_fold [OF this fs_receive_run_appends]]
  show "distinct (used_idxs m) \<Longrightarrow> distinct (map tb_run_idx bs)" by (rule t(2))
  show "\<And>b. b \<in> set bs \<Longrightarrow> \<exists>i \<in> set (used_idxs m). tb_run_idx b = Some i \<and> is_ready m i = Inr False" by (rule t(1))
qed

interpretation zmq: batch_receiver zmq_receive
proof
  fix m msgs pending p' bs assume "zmq_receive m msgs pending = Inr (p', bs)"
  then obtain p0 where "foldR (zmq_receive_run m) (p0, []) (used_idxs m) = Inr (p', bs)"
    by (auto simp: zmq_receive_def res_simps)
  note t = tagged_receive [OF tagged_fold [OF this zmq_receive_run_appends]]
  show "distinct (used_idxs m) \<Longrightarrow> distinct (map tb_run_idx bs)" by (rule t(2))
  show "\<And>b. b \<in> set bs \<Longrightarrow> \<exists>i \<in> set (used_idxs m). tb_run_idx b = Some i \<and> is_ready m i = Inr False" by (rule t(1))
qed

section \<open>Micro batches arrive in order\<close>

fun send_all :: "mb_sender \<Rightarrow> micro_batch list list list \<Rightarrow> mb_files \<Rightarrow> (mb_sender \<times> mb_files) res" where
  "send_all s [] files = Inr (s, files)"
| "send_all s (g # gs) files = bindR (fs_send_grid s g files) (\<lambda>(s', files'). send_all s' gs files')"

fun receive_all_micro :: "nat \<Rightarrow> mb_receiver \<Rightarrow> mb_files \<Rightarrow> micro_batch list list res" where
  "receive_all_micro 0 r files = Inr []"
| "receive_all_micro (Suc n) r files =
     bindR (fs_receive_micro r files) (\<lambda>(r', bs). bindR (receive_all_micro n r' files) (\<lambda>bss. Inr (bs # bss)))"

lemma dget_sent_grid:
  "dget (foldl (\<lambda>fs r. dput (t, r) (g r) fs) files [0..<n]) (t', r') = (if t' = t \<and> r' < n then Some (g r') else dget files (t', r'))"
  by (induction n) (auto simp: dict_simps less_Suc_eq)

lemma send_all_later:
  assumes "send_all s gs files = Inr (s', files')" and "t < snd_step s"
  shows "dget files' (t, r) = dget files (t, r)"
  using assms
proof (induction gs arbitrary: s files)
  case (Cons g gs)
  then obtain s1 f1 where s1: "fs_send_grid s g files = Inr (s1, f1)" "send_all s1 gs f1 = Inr (s', files')"
    by (auto simp: res_simps)
  then have "t < snd_step s1" using Cons.prems(2) by (auto simp: fs_send_grid_def res_simps)
  from Cons.IH [OF s1(2) this] s1(1) Cons.prems(2) show ?case
    by (auto simp: fs_send_grid_def res_simps dget_sent_grid)
qed simp

lemma send_receive:
  assumes "send_all s gs files = Inr (s', files')" and "rcv_step r = snd_step s" and "rcv_rank r < snd_world s"
  shows "receive_all_micro (length gs) r files' = Inr (map (\<lambda>g. g ! rcv_rank r) gs)"
  using assms
proof (induction gs arbitrary: s files r)
  case (Cons g gs)
  obtain s1 f1 where s1: "fs_send_grid s g files = Inr (s1, f1)" "send_all s1 gs f1 = Inr (s', files')"
    using Cons.prems(1) by (auto simp: res_simps)
  then have f: "s1 = s\<lparr>snd_step := snd_step s + 1\<rparr>" "dget f1 (snd_step s, rcv_rank r) = Some (g ! rcv_rank r)"
    using Cons.prems(3) by (auto simp: fs_send_grid_def res_simps dget_sent_grid)
  have "dget files' (snd_step s, rcv_rank r) = Some (g ! rcv_rank r)"
    using send_all_later [OF s1(2)] f by simp
  moreover have "receive_all_micro (length gs) (r\<lparr>rcv_step := rcv_step r + 1\<rparr>) files' = Inr (map (\<lambda>g. g ! rcv_rank r) gs)"
    using Cons.IH [OF s1(2), of "r\<lparr>rcv_step := rcv_step r + 1\<rparr>"] Cons.prems(2,3) f(1) by simp
  ultimately show ?case using Cons.prems(2) by (simp add: fs_receive_micro_def)
qed simp

text \<open>C37. Every rank reads its row of every grid, in the order they were sent: after the packer has sent
  some grids through files, a rank whose receiver started at the sender's step reads as many lists of
  micro batches, and they are its rows.\<close>

theorem micro_batches_arrive:
  assumes "send_all s grids files = Inr (s', files')" and "rcv_step r = snd_step s" and "rcv_rank r < snd_world s"
  shows "receive_all_micro (length grids) r files' = Inr (map (\<lambda>g. g ! rcv_rank r) grids)"
  using assms by (rule send_receive)

lemma micro_batches_arrive_witness:
  "\<forall>b c. \<exists>s' files. send_all \<lparr>snd_world = 2, snd_step = 3\<rparr> [[[], []], [[b], [c]]] [] = Inr (s', files)
    \<and> receive_all_micro 2 \<lparr>rcv_rank = Suc 0, rcv_step = 3\<rparr> files = Inr [[], [c]]"
proof (intro allI)
  fix b c :: micro_batch
  have "\<exists>s' files. send_all \<lparr>snd_world = 2, snd_step = 3\<rparr> [[[], []], [[b], [c]]] [] = Inr (s', files)"
    by (simp add: fs_send_grid_def check_grid_def)
  then show "\<exists>s' files. send_all \<lparr>snd_world = 2, snd_step = 3\<rparr> [[[], []], [[b], [c]]] [] = Inr (s', files)
    \<and> receive_all_micro 2 \<lparr>rcv_rank = Suc 0, rcv_step = 3\<rparr> files = Inr [[], [c]]"
    using micro_batches_arrive [of "\<lparr>snd_world = 2, snd_step = 3\<rparr>" "[[[], []], [[b], [c]]]" "[]" _ _ "\<lparr>rcv_rank = Suc 0, rcv_step = 3\<rparr>"]
    by (fastforce simp: numeral_2_eq_2)
qed

end
