(* ===== verification/Packer.thy ===== *)
theory Packer
  imports BatchProofs Transport
begin

text \<open>
  The packers of the trainer (\<open>trainer/rl/packer.py\<close>): buffering what the runs send, validation,
  the round-robin selection of samples for a step, progress of the runs, and the grid of micro
  batches. The receiver is a parameter (its operations, and the state it keeps); the clock is the
  choice of when waiting is cut short. Heartbeat and watchdog are not modelled.
\<close>

section \<open>State\<close>

record 'r packer =
  pk_dp_world_size :: nat
  pk_seq_len :: nat
  pk_pad :: nat
  pk_manager :: manager
  pk_output :: output_dir
  pk_receiver :: 'r
  pk_buffers :: "(training_sample \<times> int) list list"
  pk_position :: nat
  pk_sent :: "micro_batch list list list"

text \<open>The forgotten hook, for the runs the manager has dropped since the log had length \<open>n\<close>.\<close>

definition on_run_data_deleted :: "(nat \<Rightarrow> 'r \<Rightarrow> 'r) \<Rightarrow> nat \<Rightarrow> 'r packer \<Rightarrow> 'r packer" where
  "on_run_data_deleted reset idx p =
     p\<lparr>pk_receiver := reset idx (pk_receiver p), pk_buffers := (pk_buffers p)[idx := []]\<rparr>"

fun forgotten :: "hook_call list \<Rightarrow> nat list" where
  "forgotten [] = []"
| "forgotten (Forgotten i r # hs) = i # forgotten hs"
| "forgotten (h # hs) = forgotten hs"

definition packer_discover ::
  "(nat list \<Rightarrow> nat) \<Rightarrow> lora_config option \<Rightarrow> (nat \<Rightarrow> 'r \<Rightarrow> 'r) \<Rightarrow> 'r packer \<Rightarrow> 'r packer res" where
  "packer_discover pick lora reset p =
     bindR (discover_runs pick lora (pk_manager p) (pk_output p)) (\<lambda>(m, out).
     Inr (foldl (\<lambda>q i. on_run_data_deleted reset i q) (p\<lparr>pk_manager := m, pk_output := out\<rparr>)
            (forgotten (drop (length (hook_log (pk_manager p))) (hook_log m)))))"

section \<open>Validation\<close>

definition validate_sample :: "nat \<Rightarrow> training_sample \<Rightarrow> string option" where
  "validate_sample seq_len s =
     (if length (ts_prompt_mask s) \<noteq> length (ts_prompt_ids s) then Some ''prompt mask length''
      else if length (ts_completion_mask s) \<noteq> length (ts_completion_ids s) then Some ''completion mask length''
      else if length (ts_completion_logprobs s) \<noteq> length (ts_completion_ids s) then Some ''completion logprobs length''
      else if length (ts_completion_temperatures s) \<noteq> length (ts_completion_ids s) then Some ''completion temperatures length''
      else if sample_length s = 0 then Some ''no tokens''
      else if sample_length s > seq_len then Some ''exceeds max sequence length''
      else if \<not> opt_length (sample_length s) (ts_teacher_logprobs s) then Some ''teacher logprobs length''
      else None)"

section \<open>Receiving\<close>

fun buffer_samples :: "nat \<Rightarrow> int \<Rightarrow> training_sample list \<Rightarrow> (training_sample \<times> int) list \<times> string option" where
  "buffer_samples seq_len step [] = ([], None)"
| "buffer_samples seq_len step (s # ss) =
     (case validate_sample seq_len s of
        Some reason \<Rightarrow> ([], Some reason)
      | None \<Rightarrow> let (good, bad) = buffer_samples seq_len step ss in ((s, step) # good, bad))"

definition process_batch :: "'r packer \<Rightarrow> training_batch \<Rightarrow> 'r packer res" where
  "process_batch p b =
     (case tb_run_idx b of
        None \<Rightarrow> Inr p
      | Some idx \<Rightarrow>
          if tb_examples b = [] then
            bindR (evict_run idx ''Run wrote a batch with no samples'' (pk_manager p) (pk_output p)) (\<lambda>out.
            Inr (p\<lparr>pk_output := out\<rparr>))
          else
            bindR (ensure (idx < length (pk_buffers p)) (IndexError ''list index out of range'')) (\<lambda>_.
            let (good, bad) = buffer_samples (pk_seq_len p) (tb_step b) (tb_examples b);
                p1 = p\<lparr>pk_buffers := (pk_buffers p)[idx := pk_buffers p ! idx @ good]\<rparr>
            in case bad of
                 None \<Rightarrow> Inr p1
               | Some reason \<Rightarrow>
                   bindR (evict_run idx reason (pk_manager p1) (pk_output p1)) (\<lambda>out. Inr (p1\<lparr>pk_output := out\<rparr>))))"

definition get_batch ::
  "(nat list \<Rightarrow> nat) \<Rightarrow> lora_config option \<Rightarrow> (manager \<Rightarrow> 'e \<Rightarrow> 'r \<Rightarrow> ('r \<times> training_batch list) res) \<Rightarrow> (nat \<Rightarrow> 'r \<Rightarrow> 'r) \<Rightarrow>
   output_dir \<times> 'e \<Rightarrow> 'r packer \<Rightarrow> 'r packer res" where
  "get_batch pick lora receive reset env p =
     bindR (packer_discover pick lora reset (p\<lparr>pk_output := fst env\<rparr>)) (\<lambda>p1.
     bindR (receive (pk_manager p1) (snd env) (pk_receiver p1)) (\<lambda>(r, batches).
     bindR (foldR process_batch (p1\<lparr>pk_receiver := r\<rparr>) batches) (\<lambda>p2.
     packer_discover pick lora reset p2)))"

section \<open>Counting and selecting\<close>

definition current_step :: "manager \<Rightarrow> nat \<Rightarrow> int res" where
  "current_step m idx = (case dget (m_progress m) idx of None \<Rightarrow> Inl (KeyError ''progress'') | Some p \<Rightarrow> Inr (p_step p))"

definition ready_tokens :: "int \<Rightarrow> (training_sample \<times> int) list \<Rightarrow> nat" where
  "ready_tokens cur buf = sum_list (map (sample_length \<circ> fst) (takeWhile (\<lambda>p. snd p \<le> cur) buf))"

text \<open>The threshold only stops the count early, so it is applied to the total.\<close>

definition count_tokens :: "'r packer \<Rightarrow> nat res" where
  "count_tokens p =
     bindR (mapR (\<lambda>idx. bindR (ensure (idx < length (pk_buffers p)) (IndexError ''list index out of range'')) (\<lambda>_.
              bindR (current_step (pk_manager p) idx) (\<lambda>cur. Inr (ready_tokens cur (pk_buffers p ! idx)))))
            (used_idxs (pk_manager p))) (\<lambda>ns. Inr (sum_list ns))"

definition has_enough_tokens :: "'r packer \<Rightarrow> bool res" where
  "has_enough_tokens p = bindR (count_tokens p) (\<lambda>n. Inr (n \<ge> pk_seq_len p * pk_dp_world_size p))"

type_synonym selection = "(nat \<times> training_sample \<times> int) list"

text \<open>The inner loop, on the buffer of one run: what it selects, the tokens so far, the rest, and whether
  the budget ended the selection. A sample larger than the whole budget is dropped.\<close>

fun drain_run :: "nat \<Rightarrow> int \<Rightarrow> nat \<Rightarrow> nat \<Rightarrow> (training_sample \<times> int) list \<Rightarrow>
    selection \<times> nat \<times> (training_sample \<times> int) list \<times> bool" where
  "drain_run budget cur run tokens [] = ([], tokens, [], False)"
| "drain_run budget cur run tokens ((s, step) # buf) =
     (if step > cur then ([], tokens, (s, step) # buf, False)
      else
        let t = tokens + sample_length s in
        if t > budget then
          (if t = sample_length s then drain_run budget cur run (t - sample_length s) buf
           else ([], t, (s, step) # buf, True))
        else let (sel, t', buf', stop) = drain_run budget cur run t buf in ((run, s, step) # sel, t', buf', stop))"

fun seek_run :: "manager \<Rightarrow> (training_sample \<times> int) list list \<Rightarrow> nat \<Rightarrow> nat \<Rightarrow> nat option res" where
  "seek_run m bufs 0 pos = Inr None"
| "seek_run m bufs (Suc n) pos =
     (case bufs ! pos of
        [] \<Rightarrow> seek_run m bufs n ((pos + 1) mod length bufs)
      | (s, step) # buf \<Rightarrow>
          bindR (current_step m pos) (\<lambda>cur.
          if step \<le> cur then Inr (Some pos) else seek_run m bufs n ((pos + 1) mod length bufs)))"

lemma drain_run_shorter:
  "drain_run budget cur run tokens buf = (sel, t, buf', stop) \<Longrightarrow> length buf' \<le> length buf"
  by (induction budget cur run tokens buf arbitrary: sel t buf' stop rule: drain_run.induct)
    (auto simp: Let_def split: if_splits prod.splits, force+)

lemma drain_run_consumes:
  assumes "drain_run budget cur run tokens ((s, step) # buf) = (sel, t, buf', False)" and "step \<le> cur"
  shows "length buf' < Suc (length buf)"
  using assms drain_run_shorter by (auto simp: Let_def less_Suc_eq_le split: if_splits prod.splits)

lemma seek_run_ready:
  assumes "seek_run m bufs n pos = Inr (Some i)" and "pos < length bufs"
  shows "i < length bufs \<and> (\<exists>s step buf cur. bufs ! i = (s, step) # buf \<and> current_step m i = Inr cur \<and> step \<le> cur)"
  using assms
proof (induction m bufs n pos rule: seek_run.induct)
  case (2 m bufs n pos)
  have l: "(pos + 1) mod length bufs < length bufs" using 2(4) by (intro mod_less_divisor) linarith
  show ?case
  proof (cases "bufs ! pos")
    case Nil
    then show ?thesis using 2(1) [OF Nil] 2(3) Nil l by simp
  next
    case (Cons h buf)
    obtain s step where h: "h = (s, step)" by force
    obtain cur where c: "current_step m pos = Inr cur" using 2(3) by (auto simp: Cons h res_simps)
    show ?thesis
    proof (cases "step \<le> cur")
      case True
      then show ?thesis using 2(3,4) c Cons h by auto
    next
      case False
      then show ?thesis using 2(2) [OF Cons h [symmetric] c False] 2(3) l c by (simp add: Cons h)
    qed
  qed
qed simp

lemma sum_list_update_less:
  fixes xs :: "nat list"
  shows "i < length xs \<Longrightarrow> y < xs ! i \<Longrightarrow> sum_list (xs[i := y]) < sum_list xs"
  by (induction xs arbitrary: i) (auto split: nat.split simp: nth_Cons less_Suc_eq_0_disj)

lemma select_decreases:
  assumes "seek_run m bufs (length bufs) pos = Inr (Some i)" and "\<not> (tokens \<ge> budget \<or> pos \<ge> length bufs)"
    and "current_step m i = Inr cur" and "(sel, t, buf', stop) = drain_run budget cur i tokens (bufs ! i)" and "\<not> stop"
  shows "sum_list (map length (bufs[i := buf'])) < sum_list (map length bufs)"
proof -
  obtain sm step buf where b: "i < length bufs" "bufs ! i = (sm, step) # buf" "step \<le> cur"
    using seek_run_ready [OF assms(1)] assms(2,3) by auto
  have "drain_run budget cur i tokens ((sm, step) # buf) = (sel, t, buf', False)" using assms(4,5) by (simp add: b(2))
  from drain_run_consumes [OF this b(3)] have "length buf' < length (bufs ! i)" by (simp add: b(2))
  then show ?thesis using b(1) by (simp add: map_update sum_list_update_less)
qed

function select_samples ::
  "manager \<Rightarrow> nat \<Rightarrow> nat \<Rightarrow> nat \<Rightarrow> (training_sample \<times> int) list list \<Rightarrow> (selection \<times> nat \<times> (training_sample \<times> int) list list) res" where
  "select_samples m budget tokens pos bufs =
     (if tokens \<ge> budget \<or> pos \<ge> length bufs then Inr ([], pos, bufs)
      else
        case seek_run m bufs (length bufs) pos of
          Inl e \<Rightarrow> Inl e
        | Inr None \<Rightarrow> Inr ([], pos, bufs)
        | Inr (Some i) \<Rightarrow>
            (case current_step m i of
               Inl e \<Rightarrow> Inl e
             | Inr cur \<Rightarrow>
                 (case drain_run budget cur i tokens (bufs ! i) of
                    (sel, t, buf', True) \<Rightarrow> Inr (sel, (i + 1) mod length bufs, bufs[i := buf'])
                  | (sel, t, buf', False) \<Rightarrow>
                      (case select_samples m budget t ((i + 1) mod length bufs) (bufs[i := buf']) of
                         Inl e \<Rightarrow> Inl e
                       | Inr (sel', pos', bufs') \<Rightarrow> Inr (sel @ sel', pos', bufs')))))"
  by pat_completeness auto
termination
  by (relation "measure (\<lambda>(m, budget, tokens, pos, bufs). sum_list (map length bufs))")
    (simp, simp only: in_measure case_prod_conv, hypsubst, rule select_decreases, assumption+, simp)

declare select_samples.simps [simp del]

definition token_budget :: "'r packer \<Rightarrow> nat" where
  "token_budget p = pk_seq_len p * pk_dp_world_size p"

definition select_samples_round_robin :: "'r packer \<Rightarrow> ('r packer \<times> selection) res" where
  "select_samples_round_robin p =
     bindR (select_samples (pk_manager p) (token_budget p) 0 (pk_position p) (pk_buffers p)) (\<lambda>(sel, pos, bufs).
     Inr (p\<lparr>pk_position := pos, pk_buffers := bufs\<rparr>, sel))"

section \<open>Progress and packing\<close>

definition update_run_progress :: "nat \<Rightarrow> nat \<Rightarrow> nat \<Rightarrow> 'r packer \<Rightarrow> 'r packer res" where
  "update_run_progress idx num_samples num_tokens p =
     (case dget (m_progress (pk_manager p)) idx of
        None \<Rightarrow> Inl (KeyError ''progress'')
      | Some pr \<Rightarrow>
          bindR (ensure (idx < length (pk_buffers p)) (IndexError ''list index out of range'')) (\<lambda>_.
          let m = pk_manager p;
              finished = (case pk_buffers p ! idx of [] \<Rightarrow> True | (s, step) # _ \<Rightarrow> step > p_step pr);
              pr' = pr\<lparr>p_step := (if finished then p_step pr + 1 else p_step pr),
                       p_tokens := p_tokens pr + num_tokens, p_samples := p_samples pr + num_samples\<rparr>
          in Inr (p\<lparr>pk_manager := m\<lparr>m_progress := dput idx pr' (m_progress m),
               ready_to_update := (if finished then (ready_to_update m)[idx := True] else ready_to_update m)\<rparr>\<rparr>)))"

definition group_by_run :: "selection \<Rightarrow> (nat, training_sample list) dict" where
  "group_by_run sel =
     foldl (\<lambda>d (run, s, step). dput run ((case dget d run of None \<Rightarrow> [] | Some ss \<Rightarrow> ss) @ [s]) d) [] sel"

definition pack_run :: "'r packer \<Rightarrow> nat \<times> training_sample list \<Rightarrow> micro_batch list list res" where
  "pack_run p g =
     prepare_batch (snd g) (pk_seq_len p) (pk_dp_world_size p) (replicate (length (snd g)) (fst g))
       (max_runs (pk_manager p)) (pk_pad p)"

definition pack_selected :: "selection \<Rightarrow> 'r packer \<Rightarrow> 'r packer res" where
  "pack_selected sel p =
     bindR (ensure (sel \<noteq> []) (AssertionError ''No samples selected'')) (\<lambda>_.
     let groups = group_by_run sel in
     bindR (foldR (\<lambda>q (run, ss). update_run_progress run (length ss) (sum_list (map sample_length ss)) q) p groups) (\<lambda>p1.
     bindR (mapR (pack_run p1) (sort_key fst groups)) (\<lambda>grids.
     let grid = map (\<lambda>w. concat (map (\<lambda>g. g ! w) grids)) [0..<pk_dp_world_size p1] in
     bindR (check_grid (pk_dp_world_size p1) grid) (\<lambda>_.
     Inr (p1\<lparr>pk_sent := pk_sent p1 @ [grid]\<rparr>)))))"

definition pack_step :: "'r packer \<Rightarrow> 'r packer res" where
  "pack_step p = bindR (select_samples_round_robin p) (\<lambda>(p1, sel). pack_selected sel p1)"

text \<open>
  \<open>pack\<close>: batches are fetched until there are enough tokens, or the wait times out with some. The
  list holds what each round finds, and whether the time is up by then; \<open>None\<close> is still waiting.
\<close>

fun pack ::
  "(nat list \<Rightarrow> nat) \<Rightarrow> lora_config option \<Rightarrow> (manager \<Rightarrow> 'e \<Rightarrow> 'r \<Rightarrow> ('r \<times> training_batch list) res) \<Rightarrow> (nat \<Rightarrow> 'r \<Rightarrow> 'r) \<Rightarrow>
   ((output_dir \<times> 'e) \<times> bool) list \<Rightarrow> 'r packer \<Rightarrow> 'r packer option res" where
  "pack pick lora receive reset [] p = Inr None"
| "pack pick lora receive reset ((env, timed_out) # rounds) p =
     bindR (get_batch pick lora receive reset env p) (\<lambda>p1.
     bindR (has_enough_tokens p1) (\<lambda>enough.
     bindR (count_tokens p1) (\<lambda>n.
     if enough \<or> timed_out \<and> n > 0 then bindR (pack_step p1) (\<lambda>p2. Inr (Some p2))
     else pack pick lora receive reset rounds p1)))"

text \<open>The packer of a single run.\<close>

definition single_pack ::
  "(nat list \<Rightarrow> nat) \<Rightarrow> lora_config option \<Rightarrow> (manager \<Rightarrow> 'e \<Rightarrow> 'r \<Rightarrow> ('r \<times> training_batch list) res) \<Rightarrow>
   output_dir \<times> 'e \<Rightarrow> 'r packer \<Rightarrow> 'r packer option res" where
  "single_pack pick lora receive env p =
     bindR (discover_runs pick lora (pk_manager p) (fst env)) (\<lambda>(m1, out).
     bindR (receive m1 (snd env) (pk_receiver p)) (\<lambda>(r, batches).
     let p2 = p\<lparr>pk_manager := m1, pk_output := out, pk_receiver := r\<rparr> in
     case batches of
       [] \<Rightarrow> Inr None
     | b # bs \<Rightarrow>
         bindR (ensure (bs = []) (AssertionError ''SinglePacker only supports one batch per step'')) (\<lambda>_.
         case dget (m_progress (pk_manager p2)) 0 of
           None \<Rightarrow> Inl (KeyError ''progress'')
         | Some pr \<Rightarrow>
             let m = pk_manager p2;
                 p3 = p2\<lparr>pk_manager := m\<lparr>ready_to_update := (ready_to_update m)[0 := True],
                        m_progress := dput 0 (pr\<lparr>p_step := p_step pr + 1\<rparr>) (m_progress m)\<rparr>\<rparr>
             in bindR (prepare_batch (tb_examples b) (pk_seq_len p3) (pk_dp_world_size p3)
                         (replicate (length (tb_examples b)) 0) (max_runs m) (pk_pad p3)) (\<lambda>grid.
                Inr (Some (p3\<lparr>pk_sent := pk_sent p3 @ [grid]\<rparr>))))))"

end
