(* ===== verification/PackerProofs.thy ===== *)
theory PackerProofs
  imports Packer
begin

text \<open>
  The multi-run packer keeps only valid samples of live runs, forgets a run that wrote bad data,
  selects within the token budget and in order, and sends exactly the tokens it selected.
\<close>

section \<open>Selection\<close>

definition of_run :: "nat \<Rightarrow> selection \<Rightarrow> (training_sample \<times> int) list" where
  "of_run i sel = map snd (filter (\<lambda>x. fst x = i) sel)"

definition selected_tokens :: "selection \<Rightarrow> nat" where
  "selected_tokens sel = sum_list (map (\<lambda>x. sample_length (fst (snd x))) sel)"

lemma selection_simps [simp]:
  "of_run i [] = []" "of_run i (sel @ sel') = of_run i sel @ of_run i sel'"
  "of_run i (x # sel) = (if fst x = i then snd x # of_run i sel else of_run i sel)"
  "selected_tokens [] = 0" "selected_tokens (sel @ sel') = selected_tokens sel + selected_tokens sel'"
  "selected_tokens (x # sel) = sample_length (fst (snd x)) + selected_tokens sel"
  by (simp_all add: of_run_def selected_tokens_def)

lemma drain_run_spec:
  assumes "drain_run budget cur run tokens buf = (sel, t, buf', stop)" and "tokens \<le> budget"
    and "\<forall>x \<in> set buf. sample_length (fst x) \<le> budget"
  shows "buf = map snd sel @ buf' \<and> (\<forall>x \<in> set sel. fst x = run \<and> snd (snd x) \<le> cur) \<and>
    tokens + selected_tokens sel \<le> budget \<and> (\<not> stop \<longrightarrow> t = tokens + selected_tokens sel)"
  using assms
proof (induction budget cur run tokens buf arbitrary: sel t buf' stop rule: drain_run.induct)
  case (2 budget cur run tokens s step buf)
  let ?t = "tokens + sample_length s"
  show ?case
  proof (cases "step > cur")
    case False
    note st = this
    show ?thesis
    proof (cases "?t > budget")
      case True
      then have "?t \<noteq> sample_length s" using 2(5) by auto
      with True st show ?thesis using 2(3,4) by (auto simp: Let_def)
    next
      case False
      obtain sel1 where d: "drain_run budget cur run ?t buf = (sel1, t, buf', stop)" "sel = (run, s, step) # sel1"
        using 2(3) st False by (auto simp: Let_def split: prod.splits)
      have "\<forall>x \<in> set buf. sample_length (fst x) \<le> budget" using 2(5) by simp
      from 2(2) [OF st refl False d(1) _ this] False d(2) st show ?thesis by auto
    qed
  qed (use 2(3,4) in auto)
qed simp

lemma select_samples_spec:
  assumes "select_samples m budget tokens pos bufs = Inr (sel, pos', bufs')" and "tokens \<le> budget"
    and "\<forall>buf \<in> set bufs. \<forall>x \<in> set buf. sample_length (fst x) \<le> budget"
  shows "length bufs' = length bufs \<and> (\<forall>i < length bufs. bufs ! i = of_run i sel @ bufs' ! i)
    \<and> (\<forall>x \<in> set sel. fst x < length bufs \<and> (\<exists>cur. current_step m (fst x) = Inr cur \<and> snd (snd x) \<le> cur))
    \<and> tokens + selected_tokens sel \<le> budget"
  using assms
proof (induction m budget tokens pos bufs arbitrary: sel pos' bufs' rule: select_samples.induct)
  case (1 m budget tokens pos bufs)
  show ?case
  proof (cases "tokens \<ge> budget \<or> pos \<ge> length bufs")
    case True
    then show ?thesis using 1(2,3) by (auto simp: select_samples.simps [of m budget tokens pos bufs])
  next
    case False
    note nf = this
    show ?thesis
    proof (cases "seek_run m bufs (length bufs) pos")
      case (Inr o')
      show ?thesis
      proof (cases o')
        case None
        then show ?thesis using 1(2,3) Inr nf by (auto simp: select_samples.simps [of m budget tokens pos bufs])
      next
        case (Some i)
        note sk = Inr [unfolded Some]
        obtain cur where c: "current_step m i = Inr cur" and i: "i < length bufs"
          using seek_run_ready [OF sk] nf by auto
        obtain sel1 t buf1 stop where d: "drain_run budget cur i tokens (bufs ! i) = (sel1, t, buf1, stop)"
          by (metis prod_cases4)
        have small: "\<forall>x \<in> set (bufs ! i). sample_length (fst x) \<le> budget" using 1(4) i by auto
        note ds = drain_run_spec [OF d 1(3) small]
        have o: "of_run j sel1 = (if j = i then map snd sel1 else [])" for j
          using ds by (auto simp: of_run_def filter_empty_conv intro: filter_True)
        show ?thesis
        proof (cases stop)
          case True
          then have "sel = sel1" "bufs' = bufs[i := buf1]"
            using 1(2) nf sk c d by (auto simp: select_samples.simps [of m budget tokens pos bufs])
          then show ?thesis using ds i c by (auto simp: o nth_list_update)
        next
          case False
          then obtain sel2 where s2: "select_samples m budget t ((i + 1) mod length bufs) (bufs[i := buf1]) = Inr (sel2, pos', bufs')"
              "sel = sel1 @ sel2"
            using 1(2) nf sk c d by (auto simp: select_samples.simps [of m budget tokens pos bufs] split: sum.splits)
          have "\<forall>buf \<in> set (bufs[i := buf1]). \<forall>x \<in> set buf. sample_length (fst x) \<le> budget"
          proof
            fix buf assume "buf \<in> set (bufs[i := buf1])"
            then have "buf = buf1 \<or> buf \<in> set bufs" using set_update_subset_insert by fastforce
            then show "\<forall>x \<in> set buf. sample_length (fst x) \<le> budget" using small ds 1(4) by auto
          qed
          moreover have "stop = False" "t \<le> budget" using False ds by auto
          ultimately have "length bufs' = length (bufs[i := buf1]) \<and>
            (\<forall>j < length (bufs[i := buf1]). bufs[i := buf1] ! j = of_run j sel2 @ bufs' ! j) \<and>
            (\<forall>x \<in> set sel2. fst x < length (bufs[i := buf1]) \<and> (\<exists>cur. current_step m (fst x) = Inr cur \<and> snd (snd x) \<le> cur)) \<and>
            t + selected_tokens sel2 \<le> budget"
            using 1(1) [OF nf sk refl c d [symmetric] refl refl _ s2(1)] by blast
          then have ih: "length bufs' = length bufs" "\<forall>j < length bufs. bufs[i := buf1] ! j = of_run j sel2 @ bufs' ! j"
              "\<forall>x \<in> set sel2. fst x < length bufs \<and> (\<exists>cur. current_step m (fst x) = Inr cur \<and> snd (snd x) \<le> cur)"
              "t + selected_tokens sel2 \<le> budget" by auto
          have "bufs ! j = of_run j sel @ bufs' ! j" if "j < length bufs" for j
            using ih(2) that ds by (cases "j = i") (auto simp: o s2(2) nth_list_update)
          then show ?thesis using ih ds False c i by (auto simp: s2(2))
        qed
      qed
    qed (use 1(2) nf in \<open>simp add: select_samples.simps [of m budget tokens pos bufs]\<close>)
  qed
qed

definition small_samples :: "'r packer \<Rightarrow> bool" where
  "small_samples p \<longleftrightarrow> (\<forall>buf \<in> set (pk_buffers p). \<forall>x \<in> set buf. sample_length (fst x) \<le> token_budget p)"

text \<open>C31. The round-robin selection of a step stays within the token budget, takes from the buffer of each
  run a prefix of it, in order, leaving the rest, and takes no sample of a step the run has not
  reached; no sample that fits the budget is lost.\<close>

theorem selection_within_budget:
  assumes "select_samples_round_robin p = Inr (p', sel)" and "small_samples p"
  shows "selected_tokens sel \<le> token_budget p
    \<and> (\<forall>i < length (pk_buffers p). pk_buffers p ! i = of_run i sel @ pk_buffers p' ! i)
    \<and> (\<forall>x \<in> set sel. fst x < length (pk_buffers p) \<and> (\<exists>cur. current_step (pk_manager p) (fst x) = Inr cur \<and> snd (snd x) \<le> cur))"
proof -
  obtain pos bufs where s: "select_samples (pk_manager p) (token_budget p) 0 (pk_position p) (pk_buffers p) = Inr (sel, pos, bufs)"
    and p': "p' = p\<lparr>pk_position := pos, pk_buffers := bufs\<rparr>"
    using assms(1) by (auto simp: select_samples_round_robin_def res_simps)
  show ?thesis using select_samples_spec [OF s] assms(2) by (simp add: small_samples_def p')
qed

lemma seek_run_None:
  assumes "seek_run m bufs n pos = Inr None" and "pos < length bufs" and "k < n"
  shows "\<forall>s step buf. bufs ! ((pos + k) mod length bufs) = (s, step) # buf \<longrightarrow>
    (\<exists>cur. current_step m ((pos + k) mod length bufs) = Inr cur \<and> cur < step)"
  using assms
proof (induction m bufs n pos arbitrary: k rule: seek_run.induct)
  case (2 m bufs n pos)
  let ?next = "(pos + 1) mod length bufs"
  have l: "?next < length bufs" using 2(4) by (intro mod_less_divisor) linarith
  have later: "seek_run m bufs n ?next = Inr None"
    and here: "\<forall>s step buf. bufs ! pos = (s, step) # buf \<longrightarrow> (\<exists>cur. current_step m pos = Inr cur \<and> cur < step)"
    using 2(3) by (auto simp: res_simps not_le split: list.splits prod.splits if_splits)
  show ?case
  proof (cases k)
    case 0
    then show ?thesis using here 2(4) by simp
  next
    case (Suc j)
    have "(?next + j) mod length bufs = (pos + k) mod length bufs" by (simp add: Suc mod_add_left_eq)
    moreover have "\<forall>s step buf. bufs ! ((?next + j) mod length bufs) = (s, step) # buf \<longrightarrow>
        (\<exists>cur. current_step m ((?next + j) mod length bufs) = Inr cur \<and> cur < step)"
    proof (cases "bufs ! pos")
      case Nil
      show ?thesis by (rule 2(1) [OF Nil later l]) (use 2(5) Suc in simp)
    next
      case (Cons h buf)
      obtain s step where h: "(s, step) = h" by (cases h) auto
      then obtain cur where c: "current_step m pos = Inr cur" "\<not> step \<le> cur" using here Cons by force
      show ?thesis by (rule 2(2) [OF Cons h c later l]) (use 2(5) Suc in simp)
    qed
    ultimately show ?thesis by simp
  qed
qed simp

lemma seek_run_error:
  assumes "seek_run m bufs n pos = Inl e" and "pos < length bufs"
  shows "\<exists>i < length bufs. bufs ! i \<noteq> [] \<and> (\<exists>e. current_step m i = Inl e)"
  using assms
proof (induction m bufs n pos rule: seek_run.induct)
  case (2 m bufs n pos)
  have l: "(pos + 1) mod length bufs < length bufs" using 2(4) by (intro mod_less_divisor) linarith
  show ?case
  proof (cases "bufs ! pos")
    case Nil
    then show ?thesis using 2(1) [OF Nil] 2(3) l by simp
  next
    case (Cons h buf)
    obtain s step where h: "(s, step) = h" by (cases h) auto
    show ?thesis
    proof (cases "current_step m pos")
      case (Inl e')
      then show ?thesis using 2(4) Cons by auto
    next
      case (Inr cur)
      show ?thesis
      proof (cases "step \<le> cur")
        case True
        then show ?thesis using 2(3) Inr by (simp add: Cons flip: h)
      next
        case False
        then show ?thesis using 2(2) [OF Cons h Inr False] 2(3) l Inr by (simp add: Cons flip: h)
      qed
    qed
  qed
qed simp

lemma positive_ready:
  "0 < ready_tokens cur buf \<Longrightarrow> \<exists>s step rest. buf = (s, step) # rest \<and> step \<le> cur"
  by (cases buf) (auto simp: ready_tokens_def split: if_splits)

definition buffers_ok :: "'r packer \<Rightarrow> bool" where
  "buffers_ok p \<longleftrightarrow>
     length (pk_buffers p) = max_runs (pk_manager p) \<and>
     (\<forall>i < length (pk_buffers p). \<forall>x \<in> set (pk_buffers p ! i).
        validate_sample (pk_seq_len p) (fst x) = None \<and> dget (idx_2_id (pk_manager p)) i \<noteq> None)"

lemma valid_sample_length:
  "validate_sample n s = None \<Longrightarrow> 0 < sample_length s \<and> sample_length s \<le> n"
  by (auto simp: validate_sample_def split: if_splits)

lemma buffered:
  assumes "buffers_ok p" and "i < length (pk_buffers p)" and "x \<in> set (pk_buffers p ! i)"
  shows "0 < sample_length (fst x)" "sample_length (fst x) \<le> pk_seq_len p" "dget (idx_2_id (pk_manager p)) i \<noteq> None"
proof -
  have "validate_sample (pk_seq_len p) (fst x) = None \<and> dget (idx_2_id (pk_manager p)) i \<noteq> None"
    using assms unfolding buffers_ok_def by simp
  then show "0 < sample_length (fst x)" "sample_length (fst x) \<le> pk_seq_len p" "dget (idx_2_id (pk_manager p)) i \<noteq> None"
    using valid_sample_length by blast+
qed

lemma budget_bound: "0 < pk_dp_world_size p \<Longrightarrow> n \<le> pk_seq_len p \<Longrightarrow> n \<le> token_budget p"
  by (cases "pk_dp_world_size p") (simp_all add: token_budget_def trans_le_add1)

lemma buffers_ok_small:
  assumes "buffers_ok p" and "0 < pk_dp_world_size p"
  shows "small_samples p"
  unfolding small_samples_def
proof (intro ballI)
  fix buf x assume "buf \<in> set (pk_buffers p)" and x: "x \<in> set buf"
  then obtain i where "i < length (pk_buffers p)" "buf = pk_buffers p ! i" by (auto simp: in_set_conv_nth)
  then show "sample_length (fst x) \<le> token_budget p" using buffered(2) [OF assms(1)] x budget_bound [OF assms(2)] by blast
qed

lemma count_positive:
  assumes "count_tokens p = Inr n" and "0 < n"
  shows "\<exists>i s step rest cur. i < length (pk_buffers p) \<and> pk_buffers p ! i = (s, step) # rest
    \<and> current_step (pk_manager p) i = Inr cur \<and> step \<le> cur"
proof -
  obtain ns where ns: "mapR (\<lambda>idx. bindR (ensure (idx < length (pk_buffers p)) (IndexError ''list index out of range'')) (\<lambda>_.
      bindR (current_step (pk_manager p) idx) (\<lambda>cur. Inr (ready_tokens cur (pk_buffers p ! idx))))) (used_idxs (pk_manager p)) = Inr ns"
    "n = sum_list ns" using assms(1) by (auto simp: count_tokens_def res_simps)
  have "\<exists>k \<in> set ns. 0 < k" using assms(2) [unfolded ns(2)] by (induction ns) auto
  then obtain k where k: "k \<in> set ns" "0 < k" by blast
  obtain idx where "bindR (ensure (idx < length (pk_buffers p)) (IndexError ''list index out of range'')) (\<lambda>_.
      bindR (current_step (pk_manager p) idx) (\<lambda>cur. Inr (ready_tokens cur (pk_buffers p ! idx)))) = Inr k"
    using list_all2_setD2 [OF ns(1) [unfolded mapR_Inr_iff] k(1)] by blast
  then obtain cur where "idx < length (pk_buffers p)" "current_step (pk_manager p) idx = Inr cur" "k = ready_tokens cur (pk_buffers p ! idx)"
    by (auto simp: res_simps)
  then show ?thesis using positive_ready [of cur "pk_buffers p ! idx"] k(2) by auto
qed

lemma progress_of_used:
  assumes "manager_ok m" and "dget (idx_2_id m) i \<noteq> None"
  shows "\<exists>cur. current_step m i = Inr cur"
  using manager_okD(7) [OF assms(1), of i] assms(2) by (auto simp: current_step_def split: option.splits)

lemma select_samples_total:
  assumes "manager_ok m" and "\<forall>i < length bufs. bufs ! i \<noteq> [] \<longrightarrow> dget (idx_2_id m) i \<noteq> None"
  shows "\<exists>r. select_samples m budget tokens pos bufs = Inr r"
  using assms
proof (induction m budget tokens pos bufs rule: select_samples.induct)
  case (1 m budget tokens pos bufs)
  show ?case
  proof (cases "tokens \<ge> budget \<or> pos \<ge> length bufs")
    case True
    then show ?thesis by (simp add: select_samples.simps [of m budget tokens pos bufs])
  next
    case False
    note nf = this
    obtain o' where sk: "seek_run m bufs (length bufs) pos = Inr o'"
    proof (cases "seek_run m bufs (length bufs) pos")
      case (Inl e)
      then obtain i e' where "i < length bufs" "bufs ! i \<noteq> []" "current_step m i = Inl e'"
        using seek_run_error [OF Inl] nf by auto
      then show thesis using progress_of_used [OF 1(2), of i] 1(3) by auto
    qed (rule that)
    show ?thesis
    proof (cases o')
      case None
      then show ?thesis using sk nf by (simp add: select_samples.simps [of m budget tokens pos bufs])
    next
      case (Some i)
      obtain cur where c: "current_step m i = Inr cur" and i: "i < length bufs" "bufs ! i \<noteq> []"
        using seek_run_ready [of m bufs "length bufs" pos i] sk Some nf by auto
      obtain sel1 t buf1 stop where d: "drain_run budget cur i tokens (bufs ! i) = (sel1, t, buf1, stop)" by (metis prod_cases4)
      show ?thesis
      proof (cases stop)
        case True
        then show ?thesis using sk Some nf c d by (simp add: select_samples.simps [of m budget tokens pos bufs])
      next
        case False
        then have "stop = False" by simp
        moreover have "\<forall>j < length (bufs[i := buf1]). bufs[i := buf1] ! j \<noteq> [] \<longrightarrow> dget (idx_2_id m) j \<noteq> None"
          using 1(3) i by (simp add: nth_list_update)
        ultimately have "\<exists>r. select_samples m budget t ((i + 1) mod length bufs) (bufs[i := buf1]) = Inr r"
          using 1(1) [OF nf sk Some c d [symmetric] refl refl] 1(2) by blast
        then show ?thesis using sk Some nf c d False by (auto simp: select_samples.simps [of m budget tokens pos bufs])
      qed
    qed
  qed
qed

text \<open>A step is never packed from nothing: with consistent run data and buffers of valid samples of
  used runs, when some run has tokens for its current step the selection succeeds and is not empty,
  so the assertion after it holds and no index or progress lookup of it raises.\<close>

theorem selection_not_empty:
  assumes "manager_ok (pk_manager p)" and "buffers_ok p" and "0 < pk_dp_world_size p" and "pk_position p < length (pk_buffers p)"
    and "count_tokens p = Inr n" and "0 < n"
  shows "\<exists>p' sel. select_samples_round_robin p = Inr (p', sel) \<and> sel \<noteq> []"
proof -
  let ?m = "pk_manager p" and ?b = "token_budget p" and ?bufs = "pk_buffers p"
  have used: "\<forall>i < length ?bufs. ?bufs ! i \<noteq> [] \<longrightarrow> dget (idx_2_id ?m) i \<noteq> None"
    using assms(2) by (fastforce simp: buffers_ok_def neq_Nil_conv)
  obtain i s step rest cur where i: "i < length ?bufs" "?bufs ! i = (s, step) # rest" "current_step ?m i = Inr cur" "step \<le> cur"
    using count_positive [OF assms(5,6)] by blast
  have fit: "0 < sample_length s' \<and> sample_length s' \<le> ?b" if "j < length ?bufs" "?bufs ! j = (s', step') # rest'" for j s' step' rest'
    using buffered(1,2) [OF assms(2) that(1), of "(s', step')"] budget_bound [OF assms(3), of "sample_length s'"] by (simp add: that(2))
  have b: "0 < ?b" using fit [OF i(1,2)] by linarith
  obtain sel pos bufs where r: "select_samples ?m ?b 0 (pk_position p) ?bufs = Inr (sel, pos, bufs)"
    using select_samples_total [OF assms(1) used] by (metis prod_cases3)
  have "sel \<noteq> []"
  proof (cases "seek_run ?m ?bufs (length ?bufs) (pk_position p)")
    case (Inl e)
    then show ?thesis using seek_run_error [OF Inl assms(4)] progress_of_used [OF assms(1)] used by fastforce
  next
    case (Inr o')
    show ?thesis
    proof (cases o')
      case None
      obtain k where k: "k < length ?bufs" "(pk_position p + k) mod length ?bufs = i"
      proof
        let ?k = "(i + (length ?bufs - pk_position p)) mod length ?bufs"
        show "?k < length ?bufs" using i(1) by (intro mod_less_divisor) linarith
        have "pk_position p + (i + (length ?bufs - pk_position p)) = i + length ?bufs" using assms(4) by simp
        then show "(pk_position p + ?k) mod length ?bufs = i" using i(1) by (simp add: mod_add_right_eq)
      qed
      then show ?thesis using seek_run_None [OF Inr [unfolded None] assms(4) k(1)] i by auto
    next
      case (Some j)
      obtain s' step' rest' cur' where j: "j < length ?bufs" "?bufs ! j = (s', step') # rest'" "current_step ?m j = Inr cur'" "step' \<le> cur'"
        using seek_run_ready [OF Inr [unfolded Some] assms(4)] by blast
      have "sample_length s' \<le> ?b" using fit [OF j(1,2)] by blast
      then show ?thesis
        using r b Inr j assms(4) unfolding Some
        by (auto simp: select_samples.simps [of ?m ?b 0] Let_def split: prod.splits bool.splits sum.splits)
    qed
  qed
  then show ?thesis using r by (simp add: select_samples_round_robin_def)
qed

section \<open>What is sent\<close>

lemma select_samples_fields:
  "select_samples_round_robin p = Inr (p', sel) \<Longrightarrow>
    pk_seq_len p' = pk_seq_len p \<and> pk_dp_world_size p' = pk_dp_world_size p \<and> pk_pad p' = pk_pad p
    \<and> pk_manager p' = pk_manager p \<and> pk_sent p' = pk_sent p"
  by (auto simp: select_samples_round_robin_def res_simps)

lemma progress_fields:
  "foldR (\<lambda>q (run, ss). update_run_progress run (length ss) (sum_list (map sample_length ss)) q) p groups = Inr p' \<Longrightarrow>
    pk_seq_len p' = pk_seq_len p \<and> pk_dp_world_size p' = pk_dp_world_size p \<and> pk_pad p' = pk_pad p \<and> pk_sent p' = pk_sent p"
  by (rule foldR_invariant [where P = "\<lambda>q. pk_seq_len q = pk_seq_len p \<and> pk_dp_world_size q = pk_dp_world_size p
      \<and> pk_pad q = pk_pad p \<and> pk_sent q = pk_sent p"])
    (auto simp: update_run_progress_def res_simps Let_def split: option.split_asm)

lemma mset_group_put:
  "mset (concat (map snd (dput k (v @ [s]) d))) + (case dget d k of None \<Rightarrow> {#} | Some w \<Rightarrow> mset w) =
   mset (concat (map snd d)) + mset v + {#s#}"
  by (induction k "v @ [s]" d rule: dput.induct) (auto split: option.split simp: ac_simps)

lemma group_fold_mset:
  "mset (concat (map snd (foldl (\<lambda>d (run, s, step). dput run ((case dget d run of None \<Rightarrow> [] | Some ss \<Rightarrow> ss) @ [s]) d) d sel)))
   = mset (concat (map snd d)) + mset (map (fst \<circ> snd) sel)"
proof (induction sel arbitrary: d)
  case (Cons x sel)
  obtain run s step where x: "x = (run, s, step)" by (metis prod_cases3)
  let ?v = "case dget d run of None \<Rightarrow> [] | Some ss \<Rightarrow> ss"
  have "mset (concat (map snd (dput run (?v @ [s]) d))) + mset ?v = mset (concat (map snd d)) + mset ?v + {#s#}"
    using mset_group_put [of run ?v s d] by (auto split: option.splits)
  then have "mset (concat (map snd (dput run (?v @ [s]) d))) = add_mset s (mset (concat (map snd d)))" by simp
  then show ?case using Cons.IH [of "dput run (?v @ [s]) d"] by (simp add: x)
qed simp

lemma group_by_run_mset: "mset (concat (map snd (group_by_run sel))) = mset (map (fst \<circ> snd) sel)"
  unfolding group_by_run_def by (subst group_fold_mset) simp

lemma mset_columns:
  assumes "\<forall>g \<in> set grids. length g = n"
  shows "mset (concat (map (\<lambda>w. concat (map (\<lambda>g. g ! w) grids)) [0..<n])) = mset (concat (concat grids))"
  using assms
proof (induction grids)
  case Nil
  have "concat (map (\<lambda>w. []) xs) = []" for xs :: "nat list" by (induction xs) auto
  then show ?case by simp
next
  case (Cons g grids)
  have split: "mset (concat (map (\<lambda>w. a w @ b w) ws)) = mset (concat (map a ws)) + mset (concat (map b ws))"
    for a b :: "nat \<Rightarrow> 'a list" and ws by (induction ws) auto
  have "map (\<lambda>w. g ! w) [0..<n] = g" using Cons.prems map_nth [of g] by simp
  then show ?case using Cons by (simp add: split)
qed

definition cut_tokens :: "nat \<Rightarrow> training_sample \<Rightarrow> token list" where
  "cut_tokens n ex = take n (sample_tokens ex)"

lemma mset_loss_mset: "mset xs = mset ys \<Longrightarrow> mset (loss_tokens xs) = mset (loss_tokens ys)"
  by (simp add: loss_tokens_mset)

lemma mset_counted_mset:
  "mset xs = mset ys \<Longrightarrow> mset (filter counts (concat (map f xs))) = mset (filter counts (concat (map f ys)))"
proof -
  have "mset (filter counts (concat (map f zs))) = (\<Sum>x \<in># mset zs. mset (filter counts (f x)))" for zs
    by (induction zs) auto
  then show "mset xs = mset ys \<Longrightarrow> ?thesis" by simp
qed

lemma runs_loss:
  assumes "list_all2 (\<lambda>g grid. pack_run p g = Inr grid) groups grids"
  shows "mset (loss_tokens (concat (concat grids))) =
    mset (filter counts (concat (map (cut_tokens (pk_seq_len p)) (concat (map snd groups)))))
    \<and> (\<forall>g \<in> set grids. length g = pk_dp_world_size p)"
  using assms
proof (induction rule: list_all2_induct)
  case (Cons g gs grid grids)
  have "mset (loss_tokens (concat grid)) = mset (filter counts (concat (map (\<lambda>ex. take (pk_seq_len p) (sample_tokens ex)) (snd g))))"
    "length grid = pk_dp_world_size p"
    using prepare_batch_loss [OF Cons(1) [unfolded pack_run_def]] prepare_batch_rows [OF Cons(1) [unfolded pack_run_def]]
    by simp_all
  then show ?case using Cons by (simp add: cut_tokens_def)
qed simp

text \<open>C17. What is sent is what was selected: a successful packing step sends one grid, with a row per rank and
  rows of equal length, and the tokens of it that count in the loss are exactly those of the selected
  samples, whatever runs they are of.\<close>

theorem pack_sends_selected:
  assumes "select_samples_round_robin p = Inr (p1, sel)" and "pack_step p = Inr p'"
  shows "\<exists>grid. pk_sent p' = pk_sent p @ [grid] \<and> length grid = pk_dp_world_size p
    \<and> (\<forall>row \<in> set grid. length row = length (hd grid))
    \<and> mset (loss_tokens (concat grid)) = mset (filter counts (concat (map (\<lambda>x. cut_tokens (pk_seq_len p) (fst (snd x))) sel)))"
proof -
  note f = select_samples_fields [OF assms(1)]
  let ?groups = "group_by_run sel"
  obtain p2 grids where
    pr: "foldR (\<lambda>q (run, ss). update_run_progress run (length ss) (sum_list (map sample_length ss)) q) p1 ?groups = Inr p2"
    and g: "mapR (pack_run p2) (sort_key fst ?groups) = Inr grids"
    and c: "check_grid (pk_dp_world_size p2) (map (\<lambda>w. concat (map (\<lambda>g. g ! w) grids)) [0..<pk_dp_world_size p2]) = Inr ()"
    and p': "p' = p2\<lparr>pk_sent := pk_sent p2 @ [map (\<lambda>w. concat (map (\<lambda>g. g ! w) grids)) [0..<pk_dp_world_size p2]]\<rparr>"
    using assms by (auto simp: pack_step_def pack_selected_def res_simps Let_def)
  let ?grid = "map (\<lambda>w. concat (map (\<lambda>g. g ! w) grids)) [0..<pk_dp_world_size p2]"
  note f2 = progress_fields [OF pr]
  have r: "list_all2 (\<lambda>g grid. pack_run p2 g = Inr grid) (sort_key fst ?groups) grids"
    using g by (simp add: mapR_Inr_iff)
  note rl = runs_loss [OF r]
  have "mset (concat ?grid) = mset (concat (concat grids))" using rl by (intro mset_columns) simp
  then have "mset (loss_tokens (concat ?grid)) = mset (loss_tokens (concat (concat grids)))" by (rule mset_loss_mset)
  also have "\<dots> = mset (filter counts (concat (map (cut_tokens (pk_seq_len p2)) (concat (map snd (sort_key fst ?groups))))))"
    using rl by blast
  also have "\<dots> = mset (filter counts (concat (map (cut_tokens (pk_seq_len p2)) (map (fst \<circ> snd) sel))))"
  proof (rule mset_counted_mset)
    have sm: "mset (concat (map snd xs)) = (\<Sum>g \<in># mset xs. mset (snd g))" for xs :: "(nat \<times> training_sample list) list"
      by (induction xs) auto
    have "mset (concat (map snd (sort_key fst ?groups))) = mset (concat (map snd ?groups))"
      by (simp only: sm mset_sort)
    then show "mset (concat (map snd (sort_key fst ?groups))) = mset (map (fst \<circ> snd) sel)"
      by (simp add: group_by_run_mset)
  qed
  finally have loss: "mset (loss_tokens (concat ?grid)) = mset (filter counts (concat (map (\<lambda>x. cut_tokens (pk_seq_len p) (fst (snd x))) sel)))"
    using f f2 by (simp add: comp_def)
  have "\<forall>row \<in> set ?grid. length row = length (hd ?grid)" using c by (auto simp: check_grid_def res_simps)
  then show ?thesis using loss f f2 by (intro exI [of _ ?grid]) (simp add: p')
qed

section \<open>Receiving keeps the buffers valid\<close>

lemma forgotten_append [simp]: "forgotten (hs @ hs') = forgotten hs @ forgotten hs'"
  by (induction hs rule: forgotten.induct) auto

lemma delete_log: "delete_run_data r i m = Inr m' \<Longrightarrow> hook_log m' = hook_log m \<and> is_master m' = is_master m"
  by (auto simp: delete_run_data_def res_simps)

lemma create_log: "create_run_data rd r i c m = Inr m' \<Longrightarrow> hook_log m' = hook_log m \<and> is_master m' = is_master m"
  by (auto simp: create_run_data_def res_simps)

lemma forget_log:
  assumes "foldR forget_run m rs = Inr m'" and "distinct rs"
  shows "\<exists>l. hook_log m' = hook_log m @ l \<and> forgotten l = map (\<lambda>r. the (dget (id_2_idx m) r)) rs \<and> is_master m' = is_master m
    \<and> (\<forall>r \<in> set rs. dget (id_2_idx m) r \<noteq> None)"
  using assms
proof (induction rs arbitrary: m)
  case (Cons r rs)
  obtain m1 where m1: "forget_run m r = Inr m1" "foldR forget_run m1 rs = Inr m'" using Cons.prems(1) by (auto simp: res_simps)
  obtain i where i: "dget (id_2_idx m) r = Some i" and d: "delete_run_data r i (call_hook (Forgotten i r) m) = Inr m1"
    using m1(1) by (auto simp: forget_run_def split: option.splits)
  have id: "id_2_idx m1 = dpop r (id_2_idx m)" using d by (auto simp: delete_run_data_def res_simps)
  obtain l where l: "hook_log m' = hook_log m1 @ l" "forgotten l = map (\<lambda>r. the (dget (id_2_idx m1) r)) rs" "is_master m' = is_master m1"
    "\<forall>q \<in> set rs. dget (id_2_idx m1) q \<noteq> None"
    using Cons.IH [OF m1(2)] Cons.prems(2) by auto
  have "map (\<lambda>r. the (dget (id_2_idx m1) r)) rs = map (\<lambda>r. the (dget (id_2_idx m) r)) rs"
    using Cons.prems(2) by (auto simp: id dict_simps)
  then show ?case
    using l i delete_log [OF d] Cons.prems(2) by (intro exI [of _ "Forgotten i r # l"]) (auto simp: call_hook_def id dict_simps split: if_splits)
qed simp

lemma discover_run_log:
  assumes "discover_run pick lora (m, out) r = Inr (m', out')"
  shows "\<exists>l. hook_log m' = hook_log m @ l \<and> forgotten l = [] \<and> is_master m' = is_master m \<and> set (dkeys out') = set (dkeys out)
    \<and> (distinct (dkeys out) \<longrightarrow> distinct (dkeys out'))"
proof (cases "unused_idxs m = [] \<or> dget out r = None")
  case True
  then show ?thesis using assms by (auto simp: discover_run_def split: option.splits)
next
  case False
  then obtain rd where rd: "dget out r = Some rd" by auto
  obtain rd' c where g: "get_orchestrator_config lora rd = (rd', c)" by force
  have k: "set (dkeys (dput r rd' out)) = set (dkeys out)" using rd by (auto simp: dict_simps in_dkeys_iff)
  show ?thesis
  proof (cases c)
    case None
    then show ?thesis using assms False rd g k by (auto simp: discover_run_def)
  next
    case (Some c0)
    obtain m1 where m1: "create_run_data rd' r (pick (unused_idxs m)) c0 m = Inr m1"
      and o: "m' = call_hook (Discovered (pick (unused_idxs m)) r) (on_run_discovered lora (pick (unused_idxs m)) c0 m1)" "out' = dput r rd' out"
      using assms False rd g Some by (auto simp: discover_run_def Let_def res_simps)
    have "hook_log (on_run_discovered lora j c0 m1) = hook_log m1 \<and> is_master (on_run_discovered lora j c0 m1) = is_master m1" for j
      by (simp add: on_run_discovered_def split: option.split)
    then show ?thesis using create_log [OF m1] k o by (auto simp: call_hook_def)
  qed
qed

lemma discover_new_log:
  assumes "foldR (discover_run pick lora) (m, out) rs = Inr (m', out')"
  shows "\<exists>l. hook_log m' = hook_log m @ l \<and> forgotten l = [] \<and> is_master m' = is_master m \<and> set (dkeys out') = set (dkeys out)
    \<and> (distinct (dkeys out) \<longrightarrow> distinct (dkeys out'))"
  using assms
proof (induction rs arbitrary: m out)
  case (Cons r rs)
  then obtain m1 out1 where s: "discover_run pick lora (m, out) r = Inr (m1, out1)" "foldR (discover_run pick lora) (m1, out1) rs = Inr (m', out')"
    by (auto simp: res_simps)
  from discover_run_log [OF s(1)] Cons.IH [OF s(2)] show ?case by fastforce
qed simp

lemma discover_log:
  assumes "discover_runs pick lora m out = Inr (m', out')" and "manager_ok m"
  shows "\<exists>l. hook_log m' = hook_log m @ l \<and> is_master m' \<and> (distinct (dkeys out) \<longrightarrow> distinct (dkeys out'))
    \<and> (\<forall>r i. dget (id_2_idx m) r = Some i \<longrightarrow> r \<notin> set (live_runs out) \<longrightarrow> i \<in> set (forgotten l))"
proof -
  let ?del = "filter (\<lambda>r. r \<notin> set (live_runs out)) (dkeys (id_2_idx m))"
  obtain m1 where m1: "foldR forget_run m ?del = Inr m1" and mas: "is_master m"
    and m2: "foldR (discover_run pick lora) (m1, out) (filter (\<lambda>r. r \<notin> set (dkeys (id_2_idx m))) (live_runs out)) = Inr (m', out')"
    using assms(1) by (auto simp: discover_runs_def Let_def res_simps)
  have "distinct ?del" using manager_okD(1) [OF assms(2)] by simp
  from forget_log [OF m1 this] obtain l1 where l1: "hook_log m1 = hook_log m @ l1"
    "forgotten l1 = map (\<lambda>r. the (dget (id_2_idx m) r)) ?del" "is_master m1 = is_master m" by blast
  from discover_new_log [OF m2] obtain l2 where l2: "hook_log m' = hook_log m1 @ l2" "forgotten l2 = []" "is_master m' = is_master m1"
    "distinct (dkeys out) \<longrightarrow> distinct (dkeys out')" by blast
  have "i \<in> set (forgotten (l1 @ l2))" if "dget (id_2_idx m) r = Some i" "r \<notin> set (live_runs out)" for r i
    using that by (force simp: l1(2) l2(2) in_dkeys_iff)
  then show ?thesis using l1 l2 mas by (intro exI [of _ "l1 @ l2"]) auto
qed

lemma clear_buffers:
  "pk_buffers (foldl (\<lambda>q i. on_run_data_deleted reset i q) p is) = foldl (\<lambda>bs i. bs[i := []]) (pk_buffers p) is"
  "pk_manager (foldl (\<lambda>q i. on_run_data_deleted reset i q) p is) = pk_manager p"
  "pk_output (foldl (\<lambda>q i. on_run_data_deleted reset i q) p is) = pk_output p"
  "pk_seq_len (foldl (\<lambda>q i. on_run_data_deleted reset i q) p is) = pk_seq_len p"
  by (induction "is" arbitrary: p) (simp_all add: on_run_data_deleted_def)

lemma nth_cleared:
  "length (foldl (\<lambda>bs i. bs[i := []]) bs is) = length bs"
  "j < length bs \<Longrightarrow> foldl (\<lambda>bs i. bs[i := []]) bs is ! j = (if j \<in> set is then [] else bs ! j)"
  by (induction "is" arbitrary: bs) (auto simp: nth_list_update)

definition packer_ok :: "'r packer \<Rightarrow> bool" where
  "packer_ok p \<longleftrightarrow> manager_ok (pk_manager p) \<and> is_master (pk_manager p) \<and> distinct (dkeys (pk_output p)) \<and> buffers_ok p"

lemma discover_max_runs: "manager_ok m \<Longrightarrow> manager_ok m' \<Longrightarrow> discover_runs pick lora m out = Inr (m', out') \<Longrightarrow> max_runs m' = max_runs m"
proof -
  assume d: "discover_runs pick lora m out = Inr (m', out')"
  have f: "foldR forget_run a rs = Inr b \<Longrightarrow> max_runs b = max_runs a" for a b :: manager and rs
    by (rule foldR_invariant [where P = "\<lambda>x. max_runs x = max_runs a"])
      (auto simp: forget_run_def delete_run_data_def res_simps split: option.split_asm)
  have g: "discover_run pick lora (a, x) r = Inr (b, y) \<Longrightarrow> max_runs b = max_runs a" for a b :: manager and x y r
    by (auto simp: discover_run_def Let_def create_run_data_def on_run_discovered_def res_simps
        split: if_split_asm option.split_asm prod.split_asm)
  have "foldR (discover_run pick lora) st rs = Inr st' \<Longrightarrow> max_runs (fst st') = max_runs (fst st)" for st st' rs
    by (rule foldR_invariant [where P = "\<lambda>x. max_runs (fst x) = max_runs (fst st)"]) (auto dest: g)
  from this f show ?thesis using d by (auto simp: discover_runs_def Let_def res_simps)
qed

lemma packer_discover_ok:
  assumes "packer_ok p" and "\<forall>xs. xs \<noteq> [] \<longrightarrow> pick xs \<in> set xs"
  shows "\<exists>p'. packer_discover pick lora reset p = Inr p' \<and> packer_ok p' \<and> pk_seq_len p' = pk_seq_len p
    \<and> length (pk_buffers p') = length (pk_buffers p)
    \<and> (\<forall>r i. dget (id_2_idx (pk_manager p)) r = Some i \<longrightarrow> r \<notin> set (live_runs (pk_output p)) \<longrightarrow> pk_buffers p' ! i = [])"
proof -
  have ok: "manager_ok (pk_manager p)" "is_master (pk_manager p)" "distinct (dkeys (pk_output p))" "buffers_ok p"
    using assms(1) by (auto simp: packer_ok_def)
  from discovery [OF ok(1-3) assms(2), of lora] obtain m' out' where
    d: "discover_runs pick lora (pk_manager p) (pk_output p) = Inr (m', out')" "manager_ok m'"
    "\<forall>r \<in> set (live_runs (pk_output p)). \<forall>i. dget (id_2_idx (pk_manager p)) r = Some i \<longrightarrow> dget (id_2_idx m') r = Some i"
    by (elim exE conjE) (rule that)
  from discover_log [OF d(1) ok(1)] ok(3) obtain l where l: "hook_log m' = hook_log (pk_manager p) @ l" "is_master m'" "distinct (dkeys out')"
    "\<forall>r i. dget (id_2_idx (pk_manager p)) r = Some i \<longrightarrow> r \<notin> set (live_runs (pk_output p)) \<longrightarrow> i \<in> set (forgotten l)" by blast
  let ?p = "foldl (\<lambda>q i. on_run_data_deleted reset i q) (p\<lparr>pk_manager := m', pk_output := out'\<rparr>) (forgotten l)"
  have eq: "packer_discover pick lora reset p = Inr ?p" by (simp add: packer_discover_def d(1) l(1))
  have mx: "max_runs m' = max_runs (pk_manager p)" by (rule discover_max_runs [OF ok(1) d(2) d(1)])
  have b: "buffers_ok ?p"
    unfolding buffers_ok_def
  proof (intro conjI allI impI ballI)
    show "length (pk_buffers ?p) = max_runs (pk_manager ?p)" using ok(4) by (simp add: clear_buffers nth_cleared mx buffers_ok_def)
    fix i x assume i: "i < length (pk_buffers ?p)" and x: "x \<in> set (pk_buffers ?p ! i)"
    then have i': "i < length (pk_buffers p)" by (simp add: clear_buffers nth_cleared)
    then have nf: "i \<notin> set (forgotten l)" and x': "x \<in> set (pk_buffers p ! i)"
      using x by (auto simp: clear_buffers nth_cleared split: if_splits)
    have v: "validate_sample (pk_seq_len p) (fst x) = None" "dget (idx_2_id (pk_manager p)) i \<noteq> None"
      using ok(4) i' x' unfolding buffers_ok_def by blast+
    then show "validate_sample (pk_seq_len ?p) (fst x) = None" by (simp add: clear_buffers)
    obtain r where r: "dget (id_2_idx (pk_manager p)) r = Some i" using v(2) manager_okD(4) [OF ok(1)] by auto
    then have "r \<in> set (live_runs (pk_output p))" using l(4) nf by blast
    then have "dget (id_2_idx m') r = Some i" using d(3) r by blast
    then show "dget (idx_2_id (pk_manager ?p)) i \<noteq> None" using manager_okD(4) [OF d(2)] by (auto simp: clear_buffers)
  qed
  have "pk_buffers ?p ! i = []" if "dget (id_2_idx (pk_manager p)) r = Some i" "r \<notin> set (live_runs (pk_output p))" for r i
  proof -
    have "i < length (pk_buffers p)" using that(1) manager_okD(4,6) [OF ok(1)] ok(4) by (auto simp: buffers_ok_def)
    then show ?thesis using l(4) that by (simp add: clear_buffers nth_cleared)
  qed
  then show ?thesis using eq b d(2) l(2,3) by (intro exI [of _ ?p]) (simp add: packer_ok_def clear_buffers nth_cleared)
qed

definition evicted :: "output_dir \<Rightarrow> string \<Rightarrow> bool" where
  "evicted out r \<longleftrightarrow> (\<exists>rd. dget out r = Some rd \<and> rd_evicted rd \<noteq> None)"

definition bad_batch :: "nat \<Rightarrow> training_batch \<Rightarrow> bool" where
  "bad_batch n b \<longleftrightarrow> tb_examples b = [] \<or> (\<exists>s \<in> set (tb_examples b). validate_sample n s \<noteq> None)"

lemma evict_run_evicts:
  assumes "is_master m"
  shows "\<exists>out'. evict_run idx reason m out = Inr out' \<and> (distinct (dkeys out) \<longrightarrow> distinct (dkeys out'))
    \<and> (\<forall>r. evicted out r \<longrightarrow> evicted out' r) \<and> (\<forall>r. dget (idx_2_id m) idx = Some r \<longrightarrow> evicted out' r)"
proof (cases "dget (idx_2_id m) idx")
  case None
  then show ?thesis using assms by (simp add: evict_run_def)
next
  case (Some run)
  let ?rd = "case dget out run of None \<Rightarrow> \<lparr>rd_config = NoConfig, rd_error = None, rd_evicted = None, rd_all_steps = [], rd_stable_steps = []\<rparr> | Some rd \<Rightarrow> rd"
  have "evict_run idx reason m out = Inr (dput run (?rd\<lparr>rd_evicted := Some reason\<rparr>) out)"
    using assms Some by (simp add: evict_run_def Let_def)
  then show ?thesis using Some by (auto simp: evicted_def dict_simps)
qed

lemma buffer_samples_spec:
  "buffer_samples n step ss = (good, bad) \<Longrightarrow>
    (\<forall>x \<in> set good. validate_sample n (fst x) = None) \<and> (bad = None \<longleftrightarrow> (\<forall>s \<in> set ss. validate_sample n s = None))"
proof (induction ss arbitrary: good bad)
  case (Cons s ss)
  obtain good1 bad1 where b: "buffer_samples n step ss = (good1, bad1)" by force
  show ?case
  proof (cases "validate_sample n s")
    case None
    then have "good = (s, step) # good1" "bad = bad1" using Cons.prems b by auto
    then show ?thesis using Cons.IH [OF b] None by simp
  qed (use Cons.prems in auto)
qed simp

lemma process_batch_ok:
  assumes "packer_ok p" and "tb_run_idx b = Some i" and "dget (idx_2_id (pk_manager p)) i \<noteq> None"
  shows "\<exists>p'. process_batch p b = Inr p' \<and> packer_ok p' \<and> pk_manager p' = pk_manager p \<and> pk_seq_len p' = pk_seq_len p
    \<and> (\<forall>r. evicted (pk_output p) r \<longrightarrow> evicted (pk_output p') r)
    \<and> (bad_batch (pk_seq_len p) b \<longrightarrow> (\<forall>r. dget (idx_2_id (pk_manager p)) i = Some r \<longrightarrow> evicted (pk_output p') r))"
proof -
  have ok: "manager_ok (pk_manager p)" "is_master (pk_manager p)" "distinct (dkeys (pk_output p))" "buffers_ok p"
    using assms(1) by (auto simp: packer_ok_def)
  have len: "i < length (pk_buffers p)" using assms(3) manager_okD(6) [OF ok(1)] ok(4) by (simp add: buffers_ok_def)
  show ?thesis
  proof (cases "tb_examples b = []")
    case True
    obtain out' where "evict_run i ''Run wrote a batch with no samples'' (pk_manager p) (pk_output p) = Inr out'"
      "distinct (dkeys (pk_output p)) \<longrightarrow> distinct (dkeys out')" "\<forall>r. evicted (pk_output p) r \<longrightarrow> evicted out' r"
      "\<forall>r. dget (idx_2_id (pk_manager p)) i = Some r \<longrightarrow> evicted out' r"
      using evict_run_evicts [OF ok(2)] by blast
    then show ?thesis using True assms(2) ok by (simp add: process_batch_def packer_ok_def buffers_ok_def)
  next
    case False
    obtain good bad where g: "buffer_samples (pk_seq_len p) (tb_step b) (tb_examples b) = (good, bad)" by force
    note gs = buffer_samples_spec [OF g]
    let ?p = "p\<lparr>pk_buffers := (pk_buffers p)[i := pk_buffers p ! i @ good]\<rparr>"
    have b: "buffers_ok ?p"
      unfolding buffers_ok_def
    proof (intro conjI allI impI ballI)
      show "length (pk_buffers ?p) = max_runs (pk_manager ?p)" using ok(4) by (simp add: buffers_ok_def)
      fix j x assume j: "j < length (pk_buffers ?p)" and x: "x \<in> set (pk_buffers ?p ! j)"
      then have "x \<in> set (pk_buffers p ! j) \<or> j = i \<and> x \<in> set good" by (cases "j = i") auto
      moreover have "validate_sample (pk_seq_len p) (fst x) = None \<and> dget (idx_2_id (pk_manager p)) j \<noteq> None"
        if "x \<in> set (pk_buffers p ! j)" using ok(4) j that unfolding buffers_ok_def by simp
      moreover have "validate_sample (pk_seq_len p) (fst x) = None" if "x \<in> set good" using gs that by simp
      ultimately show "validate_sample (pk_seq_len ?p) (fst x) = None" "dget (idx_2_id (pk_manager ?p)) j \<noteq> None"
        using assms(3) by auto
    qed
    show ?thesis
    proof (cases bad)
      case None
      then have "process_batch p b = Inr ?p" using False assms(2) len g by (simp add: process_batch_def)
      moreover have "\<not> bad_batch (pk_seq_len p) b" using None gs False by (simp add: bad_batch_def)
      ultimately show ?thesis using b ok by (simp add: packer_ok_def)
    next
      case (Some reason)
      obtain out' where e: "evict_run i reason (pk_manager p) (pk_output p) = Inr out'"
        "distinct (dkeys (pk_output p)) \<longrightarrow> distinct (dkeys out')" "\<forall>r. evicted (pk_output p) r \<longrightarrow> evicted out' r"
        "\<forall>r. dget (idx_2_id (pk_manager p)) i = Some r \<longrightarrow> evicted out' r"
        using evict_run_evicts [OF ok(2)] by blast
      have "process_batch p b = Inr (?p\<lparr>pk_output := out'\<rparr>)" using False assms(2) len g Some e(1) by (simp add: process_batch_def)
      moreover have "buffers_ok (?p\<lparr>pk_output := out'\<rparr>)" using b by (simp add: buffers_ok_def)
      ultimately show ?thesis using e ok by (simp add: packer_ok_def)
    qed
  qed
qed

lemma process_batches_ok:
  assumes "packer_ok p" and "\<forall>b \<in> set bs. \<exists>i. tb_run_idx b = Some i \<and> dget (idx_2_id (pk_manager p)) i \<noteq> None"
  shows "\<exists>p'. foldR process_batch p bs = Inr p' \<and> packer_ok p' \<and> pk_manager p' = pk_manager p \<and> pk_seq_len p' = pk_seq_len p
    \<and> (\<forall>r. evicted (pk_output p) r \<longrightarrow> evicted (pk_output p') r)
    \<and> (\<forall>b \<in> set bs. bad_batch (pk_seq_len p) b \<longrightarrow>
         (\<forall>i r. tb_run_idx b = Some i \<longrightarrow> dget (idx_2_id (pk_manager p)) i = Some r \<longrightarrow> evicted (pk_output p') r))"
  using assms
proof (induction bs arbitrary: p)
  case (Cons b bs)
  obtain i where i: "tb_run_idx b = Some i" "dget (idx_2_id (pk_manager p)) i \<noteq> None" using Cons.prems(2) by auto
  obtain p1 where p1: "process_batch p b = Inr p1" "packer_ok p1" "pk_manager p1 = pk_manager p" "pk_seq_len p1 = pk_seq_len p"
    "\<forall>r. evicted (pk_output p) r \<longrightarrow> evicted (pk_output p1) r"
    "bad_batch (pk_seq_len p) b \<longrightarrow> (\<forall>r. dget (idx_2_id (pk_manager p)) i = Some r \<longrightarrow> evicted (pk_output p1) r)"
    using process_batch_ok [OF Cons.prems(1) i] by (elim exE conjE) (rule that)
  have "\<forall>c \<in> set bs. \<exists>i. tb_run_idx c = Some i \<and> dget (idx_2_id (pk_manager p1)) i \<noteq> None" using Cons.prems(2) p1(3) by simp
  from Cons.IH [OF p1(2) this] p1 i show ?case by auto
qed simp

lemma not_live:
  assumes "distinct (dkeys out)" and "evicted out r"
  shows "r \<notin> set (live_runs out)"
proof
  assume "r \<in> set (live_runs out)"
  then obtain rd where rd: "(r, rd) \<in> set out" "rd_evicted rd = None" by (auto simp: live_runs_def)
  have "dget out r = Some rd" by (rule map_of_is_SomeI [OF assms(1) rd(1)])
  then show False using assms(2) rd(2) by (simp add: evicted_def)
qed

lemma set_used: "i \<in> set (used_idxs m) \<longleftrightarrow> dget (idx_2_id m) i \<noteq> None"
  by (simp add: used_idxs_def in_dkeys_iff)

context batch_receiver
begin

lemma get_batch_ok:
  assumes "packer_ok (p\<lparr>pk_output := fst env\<rparr>)" and "\<forall>xs. xs \<noteq> [] \<longrightarrow> pick xs \<in> set xs"
    and "get_batch pick lora receive reset env p = Inr p'"
  shows "packer_ok p' \<and> pk_seq_len p' = pk_seq_len p"
    and "\<exists>p1 r bs. packer_discover pick lora reset (p\<lparr>pk_output := fst env\<rparr>) = Inr p1 \<and> receive (pk_manager p1) (snd env) (pk_receiver p1) = Inr (r, bs)
      \<and> (\<forall>b \<in> set bs. \<forall>i. tb_run_idx b = Some i \<longrightarrow> bad_batch (pk_seq_len p) b \<longrightarrow> pk_buffers p' ! i = [])"
proof -
  obtain p1 where p1: "packer_discover pick lora reset (p\<lparr>pk_output := fst env\<rparr>) = Inr p1" "packer_ok p1" "pk_seq_len p1 = pk_seq_len p"
    using packer_discover_ok [OF assms(1,2), of lora reset] by auto
  obtain r bs p2 where r: "receive (pk_manager p1) (snd env) (pk_receiver p1) = Inr (r, bs)"
    and p2: "foldR process_batch (p1\<lparr>pk_receiver := r\<rparr>) bs = Inr p2" and p': "packer_discover pick lora reset p2 = Inr p'"
    using assms(3) p1(1) by (auto simp: get_batch_def res_simps)
  have ok1: "packer_ok (p1\<lparr>pk_receiver := r\<rparr>)" using p1(2) by (simp add: packer_ok_def buffers_ok_def)
  have u: "\<forall>b \<in> set bs. \<exists>i. tb_run_idx b = Some i \<and> dget (idx_2_id (pk_manager (p1\<lparr>pk_receiver := r\<rparr>))) i \<noteq> None"
  proof
    fix b assume "b \<in> set bs"
    from tagged [OF r this] obtain i where "i \<in> set (used_idxs (pk_manager p1))" "tb_run_idx b = Some i" by blast
    then show "\<exists>i. tb_run_idx b = Some i \<and> dget (idx_2_id (pk_manager (p1\<lparr>pk_receiver := r\<rparr>))) i \<noteq> None"
      by (simp add: set_used)
  qed
  from process_batches_ok [OF ok1 u] p2 have ok2: "packer_ok p2" "pk_manager p2 = pk_manager p1" "pk_seq_len p2 = pk_seq_len p"
    and ev: "\<forall>b \<in> set bs. bad_batch (pk_seq_len p) b \<longrightarrow>
         (\<forall>i r. tb_run_idx b = Some i \<longrightarrow> dget (idx_2_id (pk_manager p1)) i = Some r \<longrightarrow> evicted (pk_output p2) r)"
    by (auto simp: p1(3))
  from packer_discover_ok [OF ok2(1) assms(2), of lora reset] p' have
    ok3: "packer_ok p'" "pk_seq_len p' = pk_seq_len p2"
    and cl: "\<forall>r i. dget (id_2_idx (pk_manager p2)) r = Some i \<longrightarrow> r \<notin> set (live_runs (pk_output p2)) \<longrightarrow> pk_buffers p' ! i = []" by auto
  show "packer_ok p' \<and> pk_seq_len p' = pk_seq_len p" using ok3 ok2(3) by simp
  have "pk_buffers p' ! i = []" if b: "b \<in> set bs" "tb_run_idx b = Some i" "bad_batch (pk_seq_len p) b" for b i
  proof -
    obtain q where q: "dget (idx_2_id (pk_manager p1)) i = Some q" using u b(1,2) by auto
    then have "evicted (pk_output p2) q" using ev b by blast
    then have "q \<notin> set (live_runs (pk_output p2))" using ok2(1) not_live by (auto simp: packer_ok_def)
    moreover have "dget (id_2_idx (pk_manager p2)) q = Some i"
      using q ok2 manager_okD(4) by (fastforce simp: packer_ok_def)
    ultimately show ?thesis using cl by blast
  qed
  then show "\<exists>p1 r bs. packer_discover pick lora reset (p\<lparr>pk_output := fst env\<rparr>) = Inr p1 \<and> receive (pk_manager p1) (snd env) (pk_receiver p1) = Inr (r, bs)
      \<and> (\<forall>b \<in> set bs. \<forall>i. tb_run_idx b = Some i \<longrightarrow> bad_batch (pk_seq_len p) b \<longrightarrow> pk_buffers p' ! i = [])"
    using p1(1) r by blast
qed

end

text \<open>C9. Bad data never reaches training: whatever the run directories and rollout files hold, after
  \<open>_get_batch\<close> every buffered sample passed validation and belongs to a run in use, and the buffer of
  any run that sent a batch with an invalid sample, or an empty batch, is empty.\<close>

theorem bad_data_never_buffered:
  assumes "packer_ok (p\<lparr>pk_output := fst env\<rparr>)" and "\<forall>xs. xs \<noteq> [] \<longrightarrow> pick xs \<in> set xs"
    and "get_batch pick lora fs_receive fs_reset_run env p = Inr p'"
  shows "packer_ok p' \<and> (\<exists>p1 r bs. packer_discover pick lora fs_reset_run (p\<lparr>pk_output := fst env\<rparr>) = Inr p1
      \<and> fs_receive (pk_manager p1) (snd env) (pk_receiver p1) = Inr (r, bs)
      \<and> (\<forall>b \<in> set bs. \<forall>i. tb_run_idx b = Some i \<longrightarrow> bad_batch (pk_seq_len p) b \<longrightarrow> pk_buffers p' ! i = []))"
  using fs.get_batch_ok [OF assms] by blast

lemma bad_data_never_buffered_zmq:
  assumes "packer_ok (p\<lparr>pk_output := fst env\<rparr>)" and "\<forall>xs. xs \<noteq> [] \<longrightarrow> pick xs \<in> set xs"
    and "get_batch pick lora zmq_receive zmq_reset_run env p = Inr p'"
  shows "packer_ok p'"
  using zmq.get_batch_ok(1) [OF assms] by blast

section \<open>Validation and preparation\<close>

text \<open>A sample that passes validation does not crash the preparation, apart from what validation does
  not look at: with an environment name other than the reserved one, and neither routed experts nor
  multimodal token types, a validated sample is prepared, whole.\<close>

lemma validated_sample_prepares:
  assumes "validate_sample seq_len ex = None" and "ts_env_name ex \<noteq> ''all''"
    and "ts_routed_experts ex = None" and "ts_mm_token_type_ids ex = None"
  shows "\<exists>b. prepare_sample ex seq_len = Inr b \<and> mb_length b = sample_length ex \<and> mb_wf b \<and> mb_tokens b = sample_tokens ex"
proof -
  have v: "length (ts_prompt_mask ex) = length (ts_prompt_ids ex)" "length (ts_completion_mask ex) = length (ts_completion_ids ex)"
    "length (ts_completion_logprobs ex) = length (ts_completion_ids ex)"
    "length (ts_completion_temperatures ex) = length (ts_completion_ids ex)"
    "sample_length ex \<le> seq_len" "opt_length (sample_length ex) (ts_teacher_logprobs ex)"
    using assms(1) by (auto simp: validate_sample_def split: if_split_asm)
  have cut_id: "cut False seq_len xs = xs" for xs :: "'a list" by (simp add: cut_def)
  have t: "map_option (cut False seq_len) x = x" for x :: "float64 list option" by (cases x) (simp_all add: cut_def)
  have "\<exists>b. prepare_sample ex seq_len = Inr b"
    using assms(2-4) v by (simp add: prepare_sample_def Let_def cut_id t sample_length_def)
  then obtain b where b: "prepare_sample ex seq_len = Inr b" ..
  have "length (sample_tokens ex) \<le> seq_len" using v(5) by (simp add: sample_tokens_def Let_def sample_length_def)
  then show ?thesis using b prepare_sample_Inr(1,2) [OF b] prepared_tokens [OF b] v(5) by simp
qed

lemma validated_sample_prepares_witness:
  "\<exists>b. prepare_sample (demo_sample [7] [8, 9] False) 5 = Inr b \<and> mb_length b = 3"
proof -
  have "validate_sample 5 (demo_sample [7] [8, 9] False) = None" "sample_length (demo_sample [7] [8, 9] False) = 3" by code_simp+
  then show ?thesis
    using validated_sample_prepares [of 5 "demo_sample [7] [8, 9] False"] by (auto simp: demo_sample_def)
qed

text \<open>The reserved name passes validation and stops the preparation.\<close>

lemma validation_misses_reserved_name:
  "validate_sample 5 (demo_sample [7] [8] False\<lparr>ts_env_name := ''all''\<rparr>) = None
   \<and> prepare_sample (demo_sample [7] [8] False\<lparr>ts_env_name := ''all''\<rparr>) 5 = Inl (AssertionError ''env_name'')"
  by code_simp

text \<open>Log-probabilities of a teacher are appended without regard to the samples packed before.\<close>

lemma teacher_logprobs_misaligned:
  "map_option (map (\<lambda>b. (mb_length b, map_option length (mb_teacher_logprobs b))))
     (case packed_samples_into_micro_bs
        (map (\<lambda>ex. (0, case prepare_sample ex 8 of Inr b \<Rightarrow> b))
          [demo_sample [1] [2, 3] False, demo_sample [4] [5] False\<lparr>ts_teacher_logprobs := Some [f_zero, f_one]\<rparr>]) 8 (Suc 0)
      of Inr bs \<Rightarrow> Some bs | Inl _ \<Rightarrow> None)
   = Some [(5, Some 2)]"
  by code_simp

section \<open>A run of the packer\<close>

definition demo_out :: output_dir where
  "demo_out = [(''run_a'', demo_dir), (''run_b'', demo_dir)]"

definition demo_packer :: "received_steps packer" where
  "demo_packer = \<lparr>pk_dp_world_size = 2, pk_seq_len = 3, pk_pad = Suc 0,
     pk_manager = demo_discover [''run_a'', ''run_b''] (new_manager True 2), pk_output = demo_out, pk_receiver = [],
     pk_buffers = [[(demo_sample [7] [8] False, 0), (demo_sample [5] [6] False, 1)], [(demo_sample [3] [4, 2] False, 0)]],
     pk_position = Suc 0, pk_sent = []\<rparr>"

lemma demo_manager_ok: "manager_ok (pk_manager demo_packer)" "is_master (pk_manager demo_packer)"
proof -
  have "is_master (new_manager True 2)" by (simp add: new_manager_def)
  then show "manager_ok (pk_manager demo_packer)" by (simp add: demo_packer_def demo_discover_ok new_manager_ok)
  show "is_master (pk_manager demo_packer)" by code_simp
qed

lemma demo_buffers_ok: "buffers_ok demo_packer"
proof -
  have e: "max_runs (pk_manager demo_packer) = 2" "idx_2_id (pk_manager demo_packer) = [(0, ''run_a''), (Suc 0, ''run_b'')]" by code_simp+
  have v: "validate_sample 3 (demo_sample [7] [8] False) = None" "validate_sample 3 (demo_sample [5] [6] False) = None"
    "validate_sample 3 (demo_sample [3] [4, 2] False) = None" by code_simp+
  have b: "pk_buffers demo_packer = [[(demo_sample [7] [8] False, 0), (demo_sample [5] [6] False, 1)], [(demo_sample [3] [4, 2] False, 0)]]"
    "pk_seq_len demo_packer = 3" by (simp_all add: demo_packer_def)
  show ?thesis unfolding buffers_ok_def e b using v by (auto simp: less_Suc_eq)
qed

definition demo_selected :: "received_steps packer \<times> selection" where
  "demo_selected = (case select_samples_round_robin demo_packer of Inr r \<Rightarrow> r)"

lemma demo_selected: "select_samples_round_robin demo_packer = Inr (fst demo_selected, snd demo_selected)"
  by code_simp

lemma selection_within_budget_witness:
  "selected_tokens (snd demo_selected) \<le> token_budget demo_packer \<and> selected_tokens (snd demo_selected) = 5"
proof -
  have "small_samples demo_packer" by (rule buffers_ok_small [OF demo_buffers_ok]) (simp add: demo_packer_def)
  moreover have "selected_tokens (snd demo_selected) = 5" by code_simp
  ultimately show ?thesis using selection_within_budget [OF demo_selected] by blast
qed

lemma selection_not_empty_witness: "\<exists>p' sel. select_samples_round_robin demo_packer = Inr (p', sel) \<and> sel \<noteq> []"
proof -
  have "count_tokens demo_packer = Inr 5" by code_simp
  then show ?thesis
    using selection_not_empty [OF demo_manager_ok(1) demo_buffers_ok] by (auto simp: demo_packer_def)
qed

definition demo_packed :: "received_steps packer" where
  "demo_packed = (case pack_step demo_packer of Inr p \<Rightarrow> p)"

lemma pack_sends_selected_witness:
  "\<exists>grid. pk_sent demo_packed = [grid] \<and> length grid = 2
    \<and> mset (loss_tokens (concat grid)) = mset (filter counts (concat (map (\<lambda>x. cut_tokens 3 (fst (snd x))) (snd demo_selected))))"
proof -
  have p: "pack_step demo_packer = Inr demo_packed" by code_simp
  from pack_sends_selected [OF demo_selected p] show ?thesis by (simp add: demo_packer_def) blast
qed

lemma bad_data_never_buffered_witness:
  "\<exists>p'. get_batch hd demo_lora fs_receive fs_reset_run
      (demo_out, [((''run_a'', 0), Some \<lparr>tb_examples = [demo_sample [1] [] False, demo_sample [] [] False], tb_step = 0, tb_run_idx = None\<rparr>)])
      demo_packer = Inr p' \<and> packer_ok p' \<and> pk_buffers p' ! 0 = []"
proof -
  let ?env = "(demo_out, [((''run_a'', 0), Some \<lparr>tb_examples = [demo_sample [1] [] False, demo_sample [] [] False], tb_step = 0, tb_run_idx = None\<rparr>)] :: rollout_files)"
  let ?p' = "case get_batch hd demo_lora fs_receive fs_reset_run ?env demo_packer of Inr q \<Rightarrow> q"
  have g: "get_batch hd demo_lora fs_receive fs_reset_run ?env demo_packer = Inr ?p'" "pk_buffers ?p' ! 0 = []" by code_simp+
  have "packer_ok (demo_packer\<lparr>pk_output := fst ?env\<rparr>)"
    using demo_manager_ok demo_buffers_ok by (simp add: packer_ok_def buffers_ok_def demo_out_def)
  from bad_data_never_buffered [OF this _ g(1)] g show ?thesis by auto
qed

end
