(* ===== verification/TrajectoryProofs.thy ===== *)
theory TrajectoryProofs
  imports Trajectory PackerProofs
begin

text \<open>
  The samples of a rollout cover its steps: every step is in exactly one sample, a sample is the token
  sequence of its last step, and what is trained in it is what its steps generated, each token once. What
  the orchestrator sends passes the packer's validation.
\<close>

section \<open>Trained tokens\<close>

definition kept :: "bool list \<Rightarrow> 'a list \<Rightarrow> 'a list" where
  "kept ms xs = map fst (filter snd (zip xs ms))"

definition step_trained :: "bool \<Rightarrow> prepared_step \<Rightarrow> (int \<times> float64) list" where
  "step_trained e p = kept (step_mask e p) (zip (ps_completion_ids p) (ps_completion_logprobs p))"

definition sample_trained :: "training_sample \<Rightarrow> (int \<times> float64) list" where
  "sample_trained s = kept (ts_completion_mask s) (zip (ts_completion_ids s) (ts_completion_logprobs s))"

definition step_wf :: "prepared_step \<Rightarrow> bool" where
  "step_wf p \<longleftrightarrow> length (ps_prompt_mask p) = length (ps_prompt_ids p)
     \<and> length (ps_completion_mask p) = length (ps_completion_ids p)
     \<and> length (ps_completion_logprobs p) = length (ps_completion_ids p)"

definition sample_wf :: "training_sample \<Rightarrow> bool" where
  "sample_wf s \<longleftrightarrow> length (ts_prompt_mask s) = length (ts_prompt_ids s)
     \<and> length (ts_completion_mask s) = length (ts_completion_ids s)
     \<and> length (ts_completion_logprobs s) = length (ts_completion_ids s)
     \<and> length (ts_completion_temperatures s) = length (ts_completion_ids s) \<and> ts_teacher_logprobs s = None"

lemma kept_append: "length m = length xs \<Longrightarrow> kept (m @ m') (xs @ xs') = kept m xs @ kept m' xs'"
  by (simp add: kept_def)

lemma kept_none [simp]: "kept (replicate n False) xs = []"
  by (auto simp: kept_def filter_empty_conv dest: set_zip_rightD)

lemma step_mask_length [simp]: "length (step_mask e p) = length (ps_completion_mask p)"
  by (simp add: step_mask_def)

lemma step_trained_error [simp]: "step_trained True p = []"
  by (simp add: step_trained_def step_mask_def)

lemma make_sample_trained: "sample_trained (make_sample r p) = step_trained (ro_error r \<noteq> None) p"
  by (simp add: sample_trained_def step_trained_def make_sample_def)

lemma make_sample_wf: "step_wf p \<Longrightarrow> sample_wf (make_sample r p)"
  by (simp add: step_wf_def sample_wf_def make_sample_def)

lemma extend_sample_wf: "step_wf p \<Longrightarrow> sample_wf s \<Longrightarrow> sample_wf (extend_sample r n p s)"
  by (simp add: step_wf_def sample_wf_def extend_sample_def Let_def)

lemma extend_sample_trained:
  assumes "step_wf p" and "sample_wf s"
  shows "sample_trained (extend_sample r n p s) = sample_trained s @ step_trained (ro_error r \<noteq> None) p"
proof -
  have l: "length (ts_completion_ids s) = length (ts_completion_logprobs s)"
    "length (ts_completion_mask s) = length (zip (ts_completion_ids s) (ts_completion_logprobs s))"
    using assms(2) by (simp_all add: sample_wf_def)
  let ?new = "drop n (ps_prompt_ids p)"
  show ?thesis
    unfolding sample_trained_def step_trained_def extend_sample_def Let_def
    using l by (simp add: zip_append kept_append)
qed

section \<open>Active samples\<close>

text \<open>Position \<open>j\<close> of the token sequence is one that the step generated and is trained on.\<close>

definition step_trains :: "bool \<Rightarrow> prepared_step \<Rightarrow> nat \<Rightarrow> bool" where
  "step_trains e p j \<longleftrightarrow> \<not> e \<and> length (ps_prompt_ids p) \<le> j \<and> j < length (step_tokens p)
     \<and> ps_completion_mask p ! (j - length (ps_prompt_ids p))"

definition mask_marks :: "(nat \<Rightarrow> bool) \<Rightarrow> training_sample \<Rightarrow> bool" where
  "mask_marks trained s \<longleftrightarrow> length (ts_completion_mask s) = length (ts_completion_ids s)
     \<and> (\<forall>j < length (ts_completion_ids s). ts_completion_mask s ! j \<longleftrightarrow> trained (length (ts_prompt_ids s) + j))"

lemma step_mask_nth: "j < length (ps_completion_mask p) \<Longrightarrow> step_mask e p ! j \<longleftrightarrow> \<not> e \<and> ps_completion_mask p ! j"
  by (simp add: step_mask_def)

lemma make_sample_marks:
  "step_wf p \<Longrightarrow> mask_marks (step_trains (ro_error r \<noteq> None) p) (make_sample r p)"
  by (simp add: mask_marks_def make_sample_def step_trains_def step_tokens_def step_wf_def step_mask_nth)

lemma extend_sample_marks:
  assumes "step_wf p" and "sample_wf s" and "mask_marks old s"
    and "n = length (ts_prompt_ids s @ ts_completion_ids s)" and "n \<le> length (ps_prompt_ids p)"
    and "\<forall>j. old j \<longrightarrow> j < n"
  shows "mask_marks (\<lambda>j. old j \<or> step_trains (ro_error r \<noteq> None) p j) (extend_sample r n p s)"
proof -
  let ?m = "ts_completion_mask s" and ?new = "replicate (length (ps_prompt_ids p) - n) False"
  let ?e = "ro_error r \<noteq> None"
  have l: "length ?m = length (ts_completion_ids s)" "length (ps_completion_mask p) = length (ps_completion_ids p)"
    using assms(1,2) by (simp_all add: sample_wf_def step_wf_def)
  have "(?m @ ?new @ step_mask ?e p) ! j \<longleftrightarrow> old (length (ts_prompt_ids s) + j) \<or> step_trains ?e p (length (ts_prompt_ids s) + j)"
    if j: "j < length (?m @ ?new @ step_mask ?e p)" for j
  proof -
    consider "j < length ?m" | "length ?m \<le> j" "j < length ?m + length ?new" | "length ?m + length ?new \<le> j" by linarith
    then show ?thesis
    proof cases
      case 1
      then show ?thesis using assms(3,4,5) l by (simp add: nth_append mask_marks_def step_trains_def)
    next
      case 2
      then have "\<not> old (length (ts_prompt_ids s) + j)" using assms(4,6) l by fastforce
      moreover have "j - length ?m < length ?new" "\<not> length (ps_prompt_ids p) \<le> length (ts_prompt_ids s) + j"
        using 2 assms(4,5) l by auto
      ultimately show ?thesis using 2 by (simp add: nth_append step_trains_def)
    next
      case 3
      then have o: "\<not> old (length (ts_prompt_ids s) + j)" using assms(4,6) l by fastforce
      have k: "j - length ?m - length ?new = length (ts_prompt_ids s) + j - length (ps_prompt_ids p)"
        "length (ps_prompt_ids p) \<le> length (ts_prompt_ids s) + j" using 3 assms(4,5) l by auto
      then have "length (ts_prompt_ids s) + j - length (ps_prompt_ids p) < length (ps_completion_mask p)" using j 3 l by auto
      moreover have "\<not> j < length ?m" "\<not> j - length ?m < length ?new"
        "length (ts_prompt_ids s) + j < length (ps_prompt_ids p) + length (ps_completion_ids p)" using 3 k(2) l calculation by auto
      ultimately show ?thesis using o k by (simp only: nth_append if_False step_trains_def step_tokens_def step_mask_nth) simp
    qed
  qed
  then show ?thesis using l by (simp add: mask_marks_def extend_sample_def Let_def)
qed

definition active_ok :: "rollout \<Rightarrow> prepared_step list \<Rightarrow> active \<Rightarrow> bool" where
  "active_ok r ps a \<longleftrightarrow>
     ac_steps a \<noteq> [] \<and> sorted_wrt (<) (ac_steps a) \<and> sample_wf (ac_sample a) \<and>
     ac_prefix a = step_tokens (ps ! last (ac_steps a)) \<and>
     ts_prompt_ids (ac_sample a) = ps_prompt_ids (ps ! hd (ac_steps a)) \<and>
     ts_prompt_mask (ac_sample a) = ps_prompt_mask (ps ! hd (ac_steps a)) \<and>
     ts_prompt_ids (ac_sample a) @ ts_completion_ids (ac_sample a) = ac_prefix a \<and>
     mask_marks (\<lambda>j. \<exists>i \<in> set (ac_steps a). step_trains (ro_error r \<noteq> None) (ps ! i) j) (ac_sample a) \<and>
     (\<forall>i \<in> set (ac_steps a). length (step_tokens (ps ! i)) \<le> length (ac_prefix a)) \<and>
     ts_completion_temperatures (ac_sample a) = replicate (length (ts_completion_ids (ac_sample a))) (ro_temperature r) \<and>
     sample_trained (ac_sample a) = concat (map (\<lambda>i. step_trained (ro_error r \<noteq> None) (ps ! i)) (ac_steps a))"

lemma start_active_ok:
  assumes "start_active r i (ps ! i) = Inr a" and "step_wf (ps ! i)"
  shows "active_ok r ps a \<and> ac_steps a = [i]"
proof -
  have k: "ts_prompt_ids (make_sample r p) = ps_prompt_ids p" "ts_prompt_mask (make_sample r p) = ps_prompt_mask p"
    "ts_completion_ids (make_sample r p) = ps_completion_ids p"
    "ts_completion_temperatures (make_sample r p) = replicate (length (ps_completion_ids p)) (ro_temperature r)" for p
    by (simp_all add: make_sample_def)
  from assms(1) obtain cs where "a = \<lparr>ac_prefix = step_tokens (ps ! i), ac_sample = make_sample r (ps ! i), ac_steps = [i], ac_chunks = cs\<rparr>"
    by (auto simp: start_active_def res_simps)
  then show ?thesis
    using make_sample_wf [OF assms(2)] make_sample_marks [OF assms(2)] by (simp add: active_ok_def make_sample_trained k step_tokens_def del: not_None_eq)
qed

lemma extend_active_ok:
  assumes "extend_active r i (ps ! i) a = Inr a'" and "step_wf (ps ! i)" and "active_ok r ps a"
    and "extends a (ps ! i)" and "\<forall>j \<in> set (ac_steps a). j < i"
  shows "active_ok r ps a' \<and> ac_steps a' = ac_steps a @ [i]"
proof -
  have wf: "sample_wf (ac_sample a)" and ne: "ac_steps a \<noteq> []"
    and pre: "ts_prompt_ids (ac_sample a) @ ts_completion_ids (ac_sample a) = ac_prefix a"
    using assms(3) unfolding active_ok_def by blast+
  from assms(1) obtain cs where a': "a' = \<lparr>ac_prefix = step_tokens (ps ! i),
      ac_sample = extend_sample r (length (ac_prefix a)) (ps ! i) (ac_sample a), ac_steps = ac_steps a @ [i], ac_chunks = cs\<rparr>"
    by (auto simp: extend_active_def Let_def res_simps)
  have p: "ps_prompt_ids (ps ! i) = ac_prefix a @ drop (length (ac_prefix a)) (ps_prompt_ids (ps ! i))"
    using assms(4) unfolding extends_def by (metis append_take_drop_id)
  let ?s = "extend_sample r (length (ac_prefix a)) (ps ! i) (ac_sample a)"
  have t: "ts_prompt_ids ?s @ ts_completion_ids ?s = step_tokens (ps ! i)"
    unfolding step_tokens_def by (subst p) (simp add: extend_sample_def Let_def pre [symmetric])
  have k: "ts_prompt_ids ?s = ts_prompt_ids (ac_sample a)" "ts_prompt_mask ?s = ts_prompt_mask (ac_sample a)"
    by (simp_all add: extend_sample_def Let_def)
  have marks: "mask_marks (\<lambda>j. \<exists>i \<in> set (ac_steps a). step_trains (ro_error r \<noteq> None) (ps ! i) j) (ac_sample a)"
    and short: "\<forall>i \<in> set (ac_steps a). length (step_tokens (ps ! i)) \<le> length (ac_prefix a)"
    and temps: "ts_completion_temperatures (ac_sample a) = replicate (length (ts_completion_ids (ac_sample a))) (ro_temperature r)"
    using assms(3) unfolding active_ok_def by blast+
  have n: "length (ac_prefix a) \<le> length (ps_prompt_ids (ps ! i))" by (subst p) simp
  have "\<forall>j. (\<exists>i \<in> set (ac_steps a). step_trains (ro_error r \<noteq> None) (ps ! i) j) \<longrightarrow> j < length (ac_prefix a)"
    using short unfolding step_trains_def by (meson order_less_le_trans)
  from extend_sample_marks [OF assms(2) wf marks arg_cong [OF pre, of length, symmetric] n this, of r]
  have m: "mask_marks (\<lambda>j. \<exists>i' \<in> set (ac_steps a @ [i]). step_trains (ro_error r \<noteq> None) (ps ! i') j) ?s"
    by (simp add: disj_commute)
  have sh: "\<forall>i' \<in> set (ac_steps a @ [i]). length (step_tokens (ps ! i')) \<le> length (step_tokens (ps ! i))"
    using short n by (auto simp: step_tokens_def)
  have tm: "ts_completion_temperatures ?s = replicate (length (ts_completion_ids ?s)) (ro_temperature r)"
    by (simp add: extend_sample_def Let_def temps replicate_add)
  have ok: "sample_wf ?s" "sample_trained ?s = sample_trained (ac_sample a) @ step_trained (ro_error r \<noteq> None) (ps ! i)"
    using extend_sample_wf [OF assms(2) wf] extend_sample_trained [OF assms(2) wf] by blast+
  have so: "sorted_wrt (<) (ac_steps a @ [i])" and tr: "sample_trained (ac_sample a)
      = concat (map (\<lambda>i. step_trained (ro_error r \<noteq> None) (ps ! i)) (ac_steps a))"
    and hd: "ts_prompt_ids (ac_sample a) = ps_prompt_ids (ps ! hd (ac_steps a))"
    "ts_prompt_mask (ac_sample a) = ps_prompt_mask (ps ! hd (ac_steps a))"
    using assms(3,5) unfolding active_ok_def by (simp_all add: sorted_wrt_append)
  show ?thesis
    unfolding a' active_ok_def active.simps using ne so t k m sh tm ok hd tr by simp
qed

lemma add_step_ok:
  assumes "add_step r i (ps ! i) as = Inr as'" and "step_wf (ps ! i)" and "\<forall>a \<in> set as. active_ok r ps a"
    and "\<forall>a \<in> set as. \<forall>j \<in> set (ac_steps a). j < i"
  shows "(\<forall>a \<in> set as'. active_ok r ps a) \<and> mset (concat (map ac_steps as')) = add_mset i (mset (concat (map ac_steps as)))"
  using assms
proof (induction as arbitrary: as')
  case Nil
  then show ?case using start_active_ok by (fastforce simp: res_simps)
next
  case (Cons a as)
  show ?case
  proof (cases "extends a (ps ! i)")
    case True
    then obtain a' where "extend_active r i (ps ! i) a = Inr a'" "as' = a' # as" using Cons.prems(1) by (auto simp: res_simps)
    then show ?thesis using extend_active_ok [OF _ Cons.prems(2) _ True] Cons.prems(3,4) by simp
  next
    case False
    then obtain bs where "add_step r i (ps ! i) as = Inr bs" "as' = a # bs" using Cons.prems(1) by (auto simp: res_simps)
    then show ?thesis using Cons.IH Cons.prems(2-4) by simp
  qed
qed

lemma merge_fold_ok:
  assumes "foldR (\<lambda>as (i, p). add_step r i p as) as (enumerate n qs) = Inr as'" and "qs = drop n ps"
    and "\<forall>p \<in> set ps. step_wf p" and "\<forall>a \<in> set as. active_ok r ps a" and "mset (concat (map ac_steps as)) = mset [0..<n]"
    and "n \<le> length ps"
  shows "(\<forall>a \<in> set as'. active_ok r ps a) \<and> mset (concat (map ac_steps as')) = mset [0..<length ps]"
  using assms
proof (induction qs arbitrary: n as)
  case Nil
  then show ?case by simp
next
  case (Cons q qs)
  have n: "n < length ps" "q = ps ! n" "qs = drop (Suc n) ps"
    using Cons.prems(2) by (metis drop_all linorder_not_less list.discI, metis nth_via_drop, metis drop_Suc list.sel(3) tl_drop)
  obtain bs where b: "add_step r n (ps ! n) as = Inr bs" "foldR (\<lambda>as (i, p). add_step r i p as) bs (enumerate (Suc n) qs) = Inr as'"
    using Cons.prems(1) n(2) by (auto simp: res_simps)
  have "set (concat (map ac_steps as)) = {..<n}" using arg_cong [OF Cons.prems(5), of set_mset] by auto
  then have "\<forall>a \<in> set as. \<forall>j \<in> set (ac_steps a). j < n" by auto
  from add_step_ok [OF b(1) _ Cons.prems(4) this] Cons.prems(3,5) n(1)
  have "\<forall>a \<in> set bs. active_ok r ps a" "mset (concat (map ac_steps bs)) = mset [0..<Suc n]" by simp_all
  from Cons.IH [OF b(2) n(3) Cons.prems(3) this] n(1) show ?case by simp
qed

lemma merge_steps_ok:
  assumes "merge_steps r ps = Inr as" and "\<forall>p \<in> set ps. step_wf p"
  shows "(\<forall>a \<in> set as. active_ok r ps a) \<and> mset (concat (map ac_steps as)) = mset [0..<length ps]"
  using merge_fold_ok [of r "[]" 0 ps as ps] assms by (simp add: merge_steps_def)

section \<open>The samples of a rollout\<close>

definition tokens_wf :: "token_data \<Rightarrow> bool" where
  "tokens_wf t \<longleftrightarrow> length (td_prompt_mask t) = length (td_prompt_ids t)
     \<and> length (td_completion_mask t) = length (td_completion_ids t)
     \<and> length (td_completion_logprobs t) = length (td_completion_ids t)"

definition rollout_wf :: "rollout \<Rightarrow> bool" where
  "rollout_wf r \<longleftrightarrow> (\<forall>s \<in> set (ro_trajectory r). \<forall>t. tj_tokens s = Some t \<longrightarrow> tokens_wf t)"

definition tokens_at :: "rollout \<Rightarrow> nat \<Rightarrow> token_data" where
  "tokens_at r i = the (tj_tokens (ro_trajectory r ! i))"

definition all_tokens :: "token_data \<Rightarrow> int list" where
  "all_tokens t = td_prompt_ids t @ td_completion_ids t"

definition generated :: "rollout \<Rightarrow> nat \<Rightarrow> (int \<times> float64) list" where
  "generated r i =
     (let t = tokens_at r i in
      if ro_error r \<noteq> None then [] else kept (td_completion_mask t) (zip (td_completion_ids t) (td_completion_logprobs t)))"

definition prepares :: "trajectory_step \<Rightarrow> prepared_step \<Rightarrow> bool" where
  "prepares s p \<longleftrightarrow> (\<exists>t. tj_tokens s = Some t \<and> ps_prompt_ids p = td_prompt_ids t \<and> ps_prompt_mask p = td_prompt_mask t
     \<and> ps_completion_ids p = td_completion_ids t \<and> ps_completion_mask p = td_completion_mask t
     \<and> ps_completion_logprobs p = td_completion_logprobs t)"

lemma prepare_steps_each:
  "prepare_steps C ss = Inr (Some ps) \<Longrightarrow> list_all2 (\<lambda>s p. prepare_step_tokens C s = Inr (Some p)) ss ps"
proof (induction ss arbitrary: ps)
  case Nil
  then show ?case by simp
next
  case (Cons s ss)
  from Cons.prems obtain x xs where "prepare_step_tokens C s = Inr (Some x)" "prepare_steps C ss = Inr (Some xs)" "ps = x # xs"
    by (auto simp: res_simps split: option.split_asm)
  then show ?case using Cons.IH by simp
qed

lemma prepare_steps_Some: "prepare_steps C ss = Inr (Some ps) \<Longrightarrow> list_all2 prepares ss ps"
  by (erule list_all2_mono [OF prepare_steps_each])
    (auto simp: prepare_step_tokens_def prepares_def res_simps split: option.split_asm)

lemma prepared_at:
  assumes "prepare_steps C (ro_trajectory r) = Inr (Some ps)" and "rollout_wf r"
  shows "length ps = length (ro_trajectory r)" and "\<forall>p \<in> set ps. step_wf p"
    and "i < length ps \<Longrightarrow> step_tokens (ps ! i) = all_tokens (tokens_at r i)"
    and "i < length ps \<Longrightarrow> ps_prompt_ids (ps ! i) = td_prompt_ids (tokens_at r i)"
    and "i < length ps \<Longrightarrow> step_trained (ro_error r \<noteq> None) (ps ! i) = generated r i"
    and "i < length ps \<Longrightarrow> ps_prompt_mask (ps ! i) = td_prompt_mask (tokens_at r i)"
    and "i < length ps \<Longrightarrow> ps_completion_mask (ps ! i) = td_completion_mask (tokens_at r i)"
proof -
  have l: "list_all2 prepares (ro_trajectory r) ps" by (rule prepare_steps_Some [OF assms(1)])
  then show "length ps = length (ro_trajectory r)" by (simp add: list_all2_lengthD)
  have at: "\<exists>t. tokens_at r i = t \<and> tokens_wf t \<and> ps_prompt_ids (ps ! i) = td_prompt_ids t \<and> ps_prompt_mask (ps ! i) = td_prompt_mask t
     \<and> ps_completion_ids (ps ! i) = td_completion_ids t \<and> ps_completion_mask (ps ! i) = td_completion_mask t
     \<and> ps_completion_logprobs (ps ! i) = td_completion_logprobs t" if i: "i < length ps" for i
  proof -
    have il: "i < length (ro_trajectory r)" using i l by (simp add: list_all2_lengthD)
    have "prepares (ro_trajectory r ! i) (ps ! i)" using l i by (simp add: list_all2_conv_all_nth)
    moreover have "ro_trajectory r ! i \<in> set (ro_trajectory r)" using il by simp
    ultimately show ?thesis using assms(2) by (auto simp: prepares_def tokens_at_def rollout_wf_def)
  qed
  show "\<forall>p \<in> set ps. step_wf p"
    using at by (auto simp: in_set_conv_nth step_wf_def tokens_wf_def)
  show "i < length ps \<Longrightarrow> step_tokens (ps ! i) = all_tokens (tokens_at r i)"
    using at by (auto simp: step_tokens_def all_tokens_def)
  show "i < length ps \<Longrightarrow> ps_prompt_ids (ps ! i) = td_prompt_ids (tokens_at r i)" using at by auto
  show "i < length ps \<Longrightarrow> step_trained (ro_error r \<noteq> None) (ps ! i) = generated r i"
    using at [of i] by (auto simp: step_trained_def generated_def step_mask_def Let_def)
  show "i < length ps \<Longrightarrow> ps_prompt_mask (ps ! i) = td_prompt_mask (tokens_at r i)"
    and "i < length ps \<Longrightarrow> ps_completion_mask (ps ! i) = td_completion_mask (tokens_at r i)" using at by auto
qed

lemma finalize_routed_Inr:
  assumes "finalize_routed a = Inr s"
  shows "\<exists>x. s = ac_sample a\<lparr>ts_routed_experts := x\<rparr>"
proof (cases "ac_chunks a")
  case None
  then show ?thesis using assms by (intro exI [of _ "ts_routed_experts (ac_sample a)"]) (simp add: finalize_routed_def)
next
  case (Some cs)
  show ?thesis
  proof (cases cs)
    case Nil
    then show ?thesis using assms Some by (intro exI [of _ "ts_routed_experts (ac_sample a)"]) (simp add: finalize_routed_def)
  next
    case (Cons c ds)
    then show ?thesis using assms Some by (auto simp: finalize_routed_def res_simps Let_def)
  qed
qed

lemma attach_images_Inr:
  assumes "attach_images C mapping ps idxs s = Inr s'"
  shows "\<exists>x y. s' = s\<lparr>ts_mm_kwargs := x, ts_mm_token_type_ids := y\<rparr>
    \<and> (y = ts_mm_token_type_ids s \<or> (\<exists>f. y = Some (map f (ts_prompt_ids s @ ts_completion_ids s))))"
proof -
  have same: "\<exists>x y. s = s\<lparr>ts_mm_kwargs := x, ts_mm_token_type_ids := y\<rparr>
    \<and> (y = ts_mm_token_type_ids s \<or> (\<exists>f. y = Some (map f (ts_prompt_ids s @ ts_completion_ids s))))"
    by (intro exI [of _ "ts_mm_kwargs s"] exI [of _ "ts_mm_token_type_ids s"]) simp
  show ?thesis
  proof (cases "union_step_mm_data ps idxs")
    case None
    then show ?thesis using assms same by (simp add: attach_images_def)
  next
    case (Some items)
    then obtain kwargs where k: "pack_mm_kwargs_from_renderer C items = Inr kwargs"
      using assms by (auto simp: attach_images_def res_simps)
    consider "kwargs = None" | kw where "kwargs = Some kw" "mapping = None" | kw f where "kwargs = Some kw" "mapping = Some f"
      by (cases kwargs; cases mapping) auto
    then show ?thesis
    proof cases
      case 1
      then show ?thesis using assms same Some k by (simp add: attach_images_def)
    next
      case 2
      then have "s' = s\<lparr>ts_mm_kwargs := Some kw, ts_mm_token_type_ids := ts_mm_token_type_ids s\<rparr>"
        using assms Some k by (cases s) (auto simp: attach_images_def Let_def)
      then show ?thesis by blast
    next
      case 3
      let ?f = "\<lambda>t. case f t of None \<Rightarrow> 0 | Some n \<Rightarrow> n"
      have "s' = s\<lparr>ts_mm_kwargs := Some kw, ts_mm_token_type_ids := Some (map ?f (ts_prompt_ids s @ ts_completion_ids s))\<rparr>"
        using assms Some k 3 by (simp add: attach_images_def Let_def)
      then show ?thesis by blast
    qed
  qed
qed

text \<open>What one sample holds, of the steps it owns. A position of its tokens is trained when one of the steps
  generated the token there and its mask is set, unless the rollout ended in an error.\<close>

definition trains_at :: "rollout \<Rightarrow> nat list \<Rightarrow> nat \<Rightarrow> bool" where
  "trains_at r is j \<longleftrightarrow> ro_error r = None \<and> (\<exists>i \<in> set is.
     length (td_prompt_ids (tokens_at r i)) \<le> j \<and> j < length (all_tokens (tokens_at r i))
     \<and> td_completion_mask (tokens_at r i) ! (j - length (td_prompt_ids (tokens_at r i))))"

definition covers :: "rollout \<Rightarrow> nat list \<Rightarrow> training_sample \<Rightarrow> bool" where
  "covers r is s \<longleftrightarrow> is \<noteq> [] \<and> sorted_wrt (<) is
     \<and> ts_prompt_ids s = td_prompt_ids (tokens_at r (hd is))
     \<and> ts_prompt_ids s @ ts_completion_ids s = all_tokens (tokens_at r (last is))
     \<and> ts_prompt_mask s = td_prompt_mask (tokens_at r (hd is)) \<and> mask_marks (trains_at r is) s
     \<and> ts_completion_temperatures s = replicate (length (ts_completion_ids s)) (ro_temperature r)
     \<and> sample_trained s = concat (map (generated r) is)"

definition sample_ready :: "training_sample \<Rightarrow> bool" where
  "sample_ready s \<longleftrightarrow> sample_wf s \<and> opt_length (sample_length s) (ts_mm_token_type_ids s)"

lemma sample_fields_update [simp]:
  "sample_wf (s\<lparr>ts_mm_kwargs := x\<rparr>) = sample_wf s" "sample_wf (s\<lparr>ts_mm_token_type_ids := y\<rparr>) = sample_wf s"
  "sample_wf (s\<lparr>ts_routed_experts := z\<rparr>) = sample_wf s"
  "sample_trained (s\<lparr>ts_mm_kwargs := x\<rparr>) = sample_trained s"
  "sample_trained (s\<lparr>ts_mm_token_type_ids := y\<rparr>) = sample_trained s"
  "sample_trained (s\<lparr>ts_routed_experts := z\<rparr>) = sample_trained s"
  "mask_marks f (s\<lparr>ts_mm_kwargs := x\<rparr>) = mask_marks f s" "mask_marks f (s\<lparr>ts_mm_token_type_ids := y\<rparr>) = mask_marks f s"
  "mask_marks f (s\<lparr>ts_routed_experts := z\<rparr>) = mask_marks f s"
  by (simp_all add: sample_wf_def sample_trained_def mask_marks_def)

lemma interleave_Inr:
  assumes "interleave_rollout C mapping r = Inr (Some samples)"
  obtains ps as ss where "prepare_steps C (ro_trajectory r) = Inr (Some ps)" and "merge_steps r ps = Inr as"
    and "list_all2 (\<lambda>a s. finalize_routed a = Inr s) as ss"
    and "list_all2 (\<lambda>(a, s) s'. attach_images C mapping ps (ac_steps a) s = Inr s') (zip as ss) samples"
proof -
  from assms have "ro_trajectory r \<noteq> []" by (auto simp: interleave_rollout_def)
  with assms obtain prepared where p: "prepare_steps C (ro_trajectory r) = Inr prepared"
    by (auto simp: interleave_rollout_def res_simps)
  with assms \<open>ro_trajectory r \<noteq> []\<close> obtain ps where ps: "prepared = Some ps"
    by (cases prepared) (auto simp: interleave_rollout_def)
  have "bindR (merge_steps r ps) (\<lambda>as. bindR (mapR finalize_routed as) (\<lambda>samples.
      bindR (mapR (\<lambda>(a, s). attach_images C mapping ps (ac_steps a) s) (zip as samples)) (\<lambda>out. Inr (Some out)))) = Inr (Some samples)"
    using assms p ps \<open>ro_trajectory r \<noteq> []\<close> by (simp add: interleave_rollout_def)
  then obtain as ss where "merge_steps r ps = Inr as" "mapR finalize_routed as = Inr ss"
    "mapR (\<lambda>(a, s). attach_images C mapping ps (ac_steps a) s) (zip as ss) = Inr samples"
    unfolding bindR_eq_Inr by auto
  then show ?thesis using that p ps by (simp add: mapR_Inr_iff case_prod_unfold)
qed

lemma merged_fields:
  assumes "merge_steps r ps = Inr as" and "a \<in> set as"
  shows "ts_mm_token_type_ids (ac_sample a) = None \<and> ts_env_name (ac_sample a) = ro_env_name r"
proof -
  let ?P = "\<lambda>as. \<forall>a \<in> set as. ts_mm_token_type_ids (ac_sample a) = None \<and> ts_env_name (ac_sample a) = ro_env_name r"
  have step: "?P as'" if "?P as" "add_step r i p as = Inr as'" for as as' i p
    using that
  proof (induction as arbitrary: as')
    case Nil
    then show ?case by (auto simp: res_simps start_active_def make_sample_def)
  next
    case (Cons a as)
    then show ?case
      by (auto simp: res_simps extend_active_def extend_sample_def Let_def split: if_split_asm)
  qed
  have "?P as" using assms(1) unfolding merge_steps_def
    by (rule foldR_invariant) (auto dest: step)
  then show ?thesis using assms(2) by blast
qed

lemma finished_sample:
  assumes "active_ok r ps a" and "\<forall>i \<in> set (ac_steps a). i < length ps"
    and "prepare_steps C (ro_trajectory r) = Inr (Some ps)" and "rollout_wf r"
    and "ts_mm_token_type_ids (ac_sample a) = None" and "ts_env_name (ac_sample a) = ro_env_name r"
    and "finalize_routed a = Inr s" and "attach_images C mapping ps (ac_steps a) s = Inr s'"
  shows "covers r (ac_steps a) s' \<and> sample_ready s' \<and> ts_env_name s' = ro_env_name r
    \<and> ts_routed_experts s' = ts_routed_experts s"
proof -
  note at = prepared_at [OF assms(3,4)]
  obtain z where z: "s = ac_sample a\<lparr>ts_routed_experts := z\<rparr>" using finalize_routed_Inr [OF assms(7)] ..
  obtain x y where xy: "s' = s\<lparr>ts_mm_kwargs := x, ts_mm_token_type_ids := y\<rparr>"
    and y: "y = ts_mm_token_type_ids s \<or> (\<exists>f. y = Some (map f (ts_prompt_ids s @ ts_completion_ids s)))"
    using attach_images_Inr [OF assms(8)] by blast
  have ok: "ac_steps a \<noteq> []" "sorted_wrt (<) (ac_steps a)" "sample_wf (ac_sample a)"
    "ac_prefix a = step_tokens (ps ! last (ac_steps a))"
    "ts_prompt_ids (ac_sample a) = ps_prompt_ids (ps ! hd (ac_steps a))"
    "ts_prompt_ids (ac_sample a) @ ts_completion_ids (ac_sample a) = ac_prefix a"
    "sample_trained (ac_sample a) = concat (map (\<lambda>i. step_trained (ro_error r \<noteq> None) (ps ! i)) (ac_steps a))"
    "ts_prompt_mask (ac_sample a) = ps_prompt_mask (ps ! hd (ac_steps a))"
    "mask_marks (\<lambda>j. \<exists>i \<in> set (ac_steps a). step_trains (ro_error r \<noteq> None) (ps ! i) j) (ac_sample a)"
    "ts_completion_temperatures (ac_sample a) = replicate (length (ts_completion_ids (ac_sample a))) (ro_temperature r)"
    using assms(1) unfolding active_ok_def by blast+
  have l: "hd (ac_steps a) < length ps" "last (ac_steps a) < length ps" using ok(1) assms(2) by simp_all
  have m: "map (\<lambda>i. step_trained (ro_error r \<noteq> None) (ps ! i)) (ac_steps a) = map (generated r) (ac_steps a)"
    using at(5) assms(2) by simp
  have "(\<exists>i \<in> set (ac_steps a). step_trains (ro_error r \<noteq> None) (ps ! i) j) \<longleftrightarrow> trains_at r (ac_steps a) j" for j
    using at(3,4,7) assms(2) by (auto simp: step_trains_def trains_at_def)
  then have "mask_marks (trains_at r (ac_steps a)) (ac_sample a)" using ok(9) by simp
  then have "covers r (ac_steps a) (ac_sample a)"
    unfolding covers_def using ok(1,2,10) ok(5) [unfolded at(4) [OF l(1)]] ok(8) [unfolded at(6) [OF l(1)]]
      ok(6) [unfolded ok(4) at(3) [OF l(2)]] ok(7) [unfolded m] by simp
  moreover have "ts_prompt_ids s' = ts_prompt_ids (ac_sample a)" "ts_completion_ids s' = ts_completion_ids (ac_sample a)"
    "sample_trained s' = sample_trained (ac_sample a)" "ts_prompt_mask s' = ts_prompt_mask (ac_sample a)"
    "mask_marks f s' = mask_marks f (ac_sample a)" "ts_completion_temperatures s' = ts_completion_temperatures (ac_sample a)" for f
    by (simp_all add: xy z)
  ultimately have c: "covers r (ac_steps a) s'" unfolding covers_def by metis
  have "opt_length (sample_length s') y"
    using y assms(5) by (auto simp: z xy opt_length_def sample_length_def)
  then have "sample_ready s'" using ok(3) by (simp add: sample_ready_def xy z)
  then show ?thesis using c assms(6) by (simp add: xy z)
qed

lemma interleaved_parts:
  assumes "interleave_rollout C mapping r = Inr (Some samples)" and "rollout_wf r"
  obtains ps as where "prepare_steps C (ro_trajectory r) = Inr (Some ps)" and "merge_steps r ps = Inr as"
    and "length as = length samples" and "mset (concat (map ac_steps as)) = mset [0..<length (ro_trajectory r)]"
    and "\<forall>j < length as. active_ok r ps (as ! j) \<and> (\<forall>i \<in> set (ac_steps (as ! j)). i < length ps)
      \<and> covers r (ac_steps (as ! j)) (samples ! j) \<and> sample_ready (samples ! j) \<and> ts_env_name (samples ! j) = ro_env_name r
      \<and> (\<exists>s. finalize_routed (as ! j) = Inr s \<and> ts_routed_experts (samples ! j) = ts_routed_experts s)"
proof -
  obtain ps as ss where i: "prepare_steps C (ro_trajectory r) = Inr (Some ps)" "merge_steps r ps = Inr as"
    "list_all2 (\<lambda>a s. finalize_routed a = Inr s) as ss"
    "list_all2 (\<lambda>(a, s) s'. attach_images C mapping ps (ac_steps a) s = Inr s') (zip as ss) samples"
    using interleave_Inr [OF assms(1)] .
  note at = prepared_at [OF i(1) assms(2)]
  from merge_steps_ok [OF i(2) at(2)] have ok: "\<forall>a \<in> set as. active_ok r ps a"
    and ms: "mset (concat (map ac_steps as)) = mset [0..<length ps]" by simp_all
  have "set (concat (map ac_steps as)) = {..<length ps}" using arg_cong [OF ms, of set_mset] by auto
  then have lt: "\<forall>a \<in> set as. \<forall>j \<in> set (ac_steps a). j < length ps" by auto
  have len: "length ss = length as" "length samples = length as"
    using i(3,4) by (simp_all add: list_all2_conv_all_nth)
  have each: "active_ok r ps (as ! j) \<and> (\<forall>i \<in> set (ac_steps (as ! j)). i < length ps)
      \<and> covers r (ac_steps (as ! j)) (samples ! j) \<and> sample_ready (samples ! j) \<and> ts_env_name (samples ! j) = ro_env_name r
      \<and> (\<exists>s. finalize_routed (as ! j) = Inr s \<and> ts_routed_experts (samples ! j) = ts_routed_experts s)"
    if j: "j < length as" for j
  proof -
    have a: "as ! j \<in> set as" using j by simp
    have f: "finalize_routed (as ! j) = Inr (ss ! j)" "attach_images C mapping ps (ac_steps (as ! j)) (ss ! j) = Inr (samples ! j)"
      using i(3,4) j len by (simp_all add: list_all2_conv_all_nth)
    have act: "active_ok r ps (as ! j)" "\<forall>i \<in> set (ac_steps (as ! j)). i < length ps" using ok lt a by simp_all
    note mf = merged_fields [OF i(2) a]
    from finished_sample [OF act i(1) assms(2) conjunct1 [OF mf] conjunct2 [OF mf] f]
    show ?thesis by (intro conjI exI [of _ "ss ! j"] act f(1)) simp_all
  qed
  show ?thesis
    by (rule that [OF i(1,2) len(2) [symmetric]]) (use each in \<open>simp_all add: ms at(1)\<close>)
qed

lemma interleaved:
  assumes "interleave_rollout C mapping r = Inr (Some samples)" and "rollout_wf r"
  shows "\<exists>own. list_all2 (covers r) own samples \<and> mset (concat own) = mset [0..<length (ro_trajectory r)]"
    and "\<forall>s \<in> set samples. sample_ready s \<and> ts_env_name s = ro_env_name r"
proof -
  obtain ps as where i: "prepare_steps C (ro_trajectory r) = Inr (Some ps)" "merge_steps r ps = Inr as"
    "length as = length samples" "mset (concat (map ac_steps as)) = mset [0..<length (ro_trajectory r)]"
    "\<forall>j < length as. active_ok r ps (as ! j) \<and> (\<forall>i \<in> set (ac_steps (as ! j)). i < length ps)
      \<and> covers r (ac_steps (as ! j)) (samples ! j) \<and> sample_ready (samples ! j) \<and> ts_env_name (samples ! j) = ro_env_name r
      \<and> (\<exists>s. finalize_routed (as ! j) = Inr s \<and> ts_routed_experts (samples ! j) = ts_routed_experts s)"
    using interleaved_parts [OF assms] .
  show "\<exists>own. list_all2 (covers r) own samples \<and> mset (concat own) = mset [0..<length (ro_trajectory r)]"
    using i(3-5) by (intro exI [of _ "map ac_steps as"]) (simp add: list_all2_conv_all_nth)
  show "\<forall>s \<in> set samples. sample_ready s \<and> ts_env_name s = ro_env_name r"
    using i(3,5) by (auto simp: in_set_conv_nth)
qed

text \<open>C5. Interleaving loses and repeats nothing: if the samples of a rollout are built from steps with
  consistent lengths, every step of the trajectory belongs to exactly one sample; a sample starts with the
  prompt of its first step, with the mask the step gave it, and is the whole token sequence of its last step;
  behind the prompt the mask is set exactly at the positions where one of its steps generated a token that its own mask
  keeps (nowhere, if the rollout ended in an error); and the tokens trained there, with their
  log-probabilities, are what its steps generated, in order and each once. All are sampled at the temperature of the rollout.\<close>

theorem interleaving_covers_steps:
  assumes "interleave_rollout C mapping r = Inr (Some samples)" and "rollout_wf r"
  shows "\<exists>own. list_all2 (covers r) own samples \<and> mset (concat own) = mset [0..<length (ro_trajectory r)]"
  using assms by (rule interleaved(1))

definition demo_step :: "int list \<Rightarrow> int list \<Rightarrow> trajectory_step" where
  "demo_step prompt completion =
     \<lparr>tj_tokens = Some \<lparr>td_prompt_ids = prompt, td_prompt_mask = map (\<lambda>_. False) prompt, td_completion_ids = completion,
        td_completion_mask = map (\<lambda>_. True) completion, td_completion_logprobs = map (\<lambda>_. f_one) completion,
        td_routed_experts = None, td_mm = None\<rparr>, tj_usage = None\<rparr>"

definition demo_rollout :: "string \<Rightarrow> (int list \<times> int list) list \<Rightarrow> rollout" where
  "demo_rollout env steps =
     \<lparr>ro_example_id = 7, ro_env_name = env, ro_error = None, ro_trajectory = map (\<lambda>(p, c). demo_step p c) steps,
      ro_reward = f_one, ro_temperature = f_one, ro_metrics = [], ro_advantage = Some f_one, ro_filters = [],
      ro_is_filtered = Some False\<rparr>"

definition demo_codec :: codec where
  "demo_codec = \<lparr>b64decode = (\<lambda>s. Inr (map (\<lambda>c. of_nat (of_char c)) s)), cat_tensors_mm = (\<lambda>ts. Inr (hd ts))\<rparr>"

text \<open>Two agents interleaved: the first and third step are one sample, the second another.\<close>

definition demo_steps :: "(int list \<times> int list) list" where
  "demo_steps = [([1, 2], [3]), ([9], [8]), ([1, 2, 3, 4], [5, 6])]"

lemma interleaving_covers_steps_witness:
  "\<exists>samples own. interleave_rollout demo_codec None (demo_rollout ''gsm8k'' demo_steps) = Inr (Some samples)
    \<and> length samples = 2 \<and> map sample_trained samples = [[(3, f_one), (5, f_one), (6, f_one)], [(8, f_one)]]
    \<and> list_all2 (covers (demo_rollout ''gsm8k'' demo_steps)) own samples \<and> mset (concat own) = {#0, 1, 2#}"
proof -
  have "case interleave_rollout demo_codec None (demo_rollout ''gsm8k'' demo_steps) of
      Inr (Some ss) \<Rightarrow> length ss = 2 \<and> map sample_trained ss = [[(3, f_one), (5, f_one), (6, f_one)], [(8, f_one)]] | _ \<Rightarrow> False"
    by code_simp
  then obtain ss where s: "interleave_rollout demo_codec None (demo_rollout ''gsm8k'' demo_steps) = Inr (Some ss)"
    "length ss = 2" "map sample_trained ss = [[(3, f_one), (5, f_one), (6, f_one)], [(8, f_one)]]"
    by (auto split: sum.split_asm option.split_asm)
  have "rollout_wf (demo_rollout ''gsm8k'' demo_steps)"
    by (simp add: rollout_wf_def demo_rollout_def demo_steps_def demo_step_def tokens_wf_def)
  from interleaving_covers_steps [OF s(1) this] obtain own where
    "list_all2 (covers (demo_rollout ''gsm8k'' demo_steps)) own ss"
    "mset (concat own) = mset [0..<length (ro_trajectory (demo_rollout ''gsm8k'' demo_steps))]" by blast
  moreover have "[0..<length (ro_trajectory (demo_rollout ''gsm8k'' demo_steps))] = [0, 1, 2]" by code_simp
  ultimately show ?thesis using s by (intro exI [of _ ss] exI [of _ own]) simp
qed

end
