(* ===== verification/TrajectoryRouted.thy ===== *)
theory TrajectoryRouted
  imports TrajectoryProofs
begin

text \<open>
  Routing decisions of merged steps: vLLM records one for every token but the last of a request, so
  a step's array lacks its last token; the next step processed that token as part of its prompt. The
  array of a sample has, for every token but its last, the decision of the first step that processed it.
\<close>

section \<open>Rows of arrays\<close>

definition nth_row :: "nat \<Rightarrow> 8 word list \<Rightarrow> nat \<Rightarrow> 8 word list" where
  "nth_row R bs k = take R (drop (k * R) bs)"

definition row_list :: "ndarray \<Rightarrow> 8 word list list" where
  "row_list a = map (nth_row (nd_row_size a) (nd_data a)) [0..<hd (nd_shape a)]"

definition nd_ok :: "nat list \<Rightarrow> ndarray \<Rightarrow> bool" where
  "nd_ok ds a \<longleftrightarrow> nd_shape a \<noteq> [] \<and> tl (nd_shape a) = ds \<and> length (nd_data a) = hd (nd_shape a) * prod_list ds"

lemma nd_ok_row_size: "nd_ok ds a \<Longrightarrow> nd_row_size a = prod_list ds"
  by (simp add: nd_ok_def nd_row_size_def)

lemma row_list_length [simp]: "length (row_list a) = hd (nd_shape a)"
  by (simp add: row_list_def)

lemma nth_row_append:
  assumes "length xs = n * R"
  shows "nth_row R (xs @ ys) k = (if k < n then nth_row R xs k else nth_row R ys (k - n))"
proof (cases "k < n")
  case True
  then have "k * R + R \<le> n * R" by (metis Suc_leI add.commute mult_Suc mult_le_mono1)
  then show ?thesis using True assms by (simp add: nth_row_def)
next
  case False
  then obtain d where k: "k = n + d" using le_Suc_ex linorder_not_less by blast
  then show ?thesis using assms by (simp add: nth_row_def add_mult_distrib)
qed

lemma nd_slice_ok:
  assumes "nd_ok ds a" and "i \<le> j" and "j \<le> hd (nd_shape a)"
  shows "nd_ok ds (nd_slice i j a)" and "row_list (nd_slice i j a) = take (j - i) (drop i (row_list a))"
proof -
  let ?R = "prod_list ds" and ?n = "hd (nd_shape a)"
  have R: "nd_row_size a = ?R" and tl: "tl (nd_shape a) = ds" and len: "length (nd_data a) = ?n * ?R"
    using assms(1) by (simp_all add: nd_ok_def nd_row_size_def)
  have s: "nd_slice i j a = \<lparr>nd_shape = (j - i) # ds, nd_data = take ((j - i) * ?R) (drop (i * ?R) (nd_data a))\<rparr>"
    using assms(2,3) by (simp add: nd_slice_def Let_def R tl)
  have "(j - i) * ?R \<le> ?n * ?R - i * ?R" using assms(2,3) mult_le_mono1 [of "j - i" "?n - i" ?R]
    by (simp add: diff_mult_distrib diff_le_mono del: mult_le_cancel2)
  then show "nd_ok ds (nd_slice i j a)" by (simp add: s nd_ok_def len)
  have R': "nd_row_size (nd_slice i j a) = ?R" by (simp add: s nd_row_size_def)
  show "row_list (nd_slice i j a) = take (j - i) (drop i (row_list a))"
  proof (rule nth_equalityI)
    show "length (row_list (nd_slice i j a)) = length (take (j - i) (drop i (row_list a)))" using assms(2,3) by (simp add: s)
    fix k assume "k < length (row_list (nd_slice i j a))"
    then have k: "k < j - i" by (simp add: s)
    then have "k * ?R + ?R \<le> (j - i) * ?R" by (metis Suc_leI add.commute mult_Suc mult_le_mono1)
    then have "nth_row ?R (take ((j - i) * ?R) (drop (i * ?R) (nd_data a))) k = nth_row ?R (nd_data a) (i + k)"
      by (simp add: nth_row_def drop_take add_mult_distrib add.commute min_absorb1 le_diff_conv2)
    then show "row_list (nd_slice i j a) ! k = take (j - i) (drop i (row_list a)) ! k"
      using k assms(2,3) R' by (simp add: row_list_def s R)
  qed
qed

lemma nd_concatenate_ok:
  assumes "xs \<noteq> []" and "\<forall>x \<in> set xs. nd_ok ds x"
  shows "\<exists>a. nd_concatenate xs = Inr a \<and> nd_ok ds a \<and> row_list a = concat (map row_list xs)"
proof -
  let ?a = "\<lparr>nd_shape = sum_list (map (\<lambda>x. hd (nd_shape x)) xs) # ds, nd_data = concat (map nd_data xs)\<rparr>"
  have tl: "\<forall>x \<in> set xs. tl (nd_shape x) = ds" using assms(2) by (simp add: nd_ok_def)
  have "hd xs \<in> set xs" using assms(1) by simp
  then have c: "nd_concatenate xs = Inr ?a" using assms(2) tl by (auto simp: nd_concatenate_def nd_ok_def)
  have len: "length (concat (map nd_data ys)) = sum_list (map (\<lambda>x. hd (nd_shape x)) ys) * prod_list ds"
    if "\<forall>x \<in> set ys. nd_ok ds x" for ys
    using that by (induction ys) (simp_all add: nd_ok_def add_mult_distrib)
  have rows: "map (nth_row (prod_list ds) (concat (map nd_data ys))) [0..<sum_list (map (\<lambda>x. hd (nd_shape x)) ys)]
      = concat (map row_list ys)" if "\<forall>x \<in> set ys. nd_ok ds x" for ys
    using that
  proof (induction ys)
    case Nil
    then show ?case by simp
  next
    case (Cons y ys)
    let ?n = "hd (nd_shape y)" and ?m = "sum_list (map (\<lambda>x. hd (nd_shape x)) ys)"
    have y: "length (nd_data y) = ?n * prod_list ds" "nd_row_size y = prod_list ds" using Cons.prems by (simp_all add: nd_ok_def nd_ok_row_size nd_row_size_def)
    have "map (nth_row (prod_list ds) (nd_data y @ concat (map nd_data ys))) [0..<?n + ?m]
        = map (nth_row (prod_list ds) (nd_data y)) [0..<?n] @ map (nth_row (prod_list ds) (concat (map nd_data ys))) [0..<?m]"
    proof -
      have "[0..<?n + ?m] = [0..<?n] @ map (\<lambda>k. k + ?n) [0..<?m]" using map_add_upt [of ?n ?m] upt_add_eq_append [of 0 ?n ?m] by (simp add: add.commute)
      then show ?thesis by (simp add: nth_row_append [OF y(1)])
    qed
    moreover have "map (nth_row (prod_list ds) (concat (map nd_data ys))) [0..<?m] = concat (map row_list ys)"
      using Cons.prems by (intro Cons.IH) simp
    moreover have "row_list y = map (nth_row (prod_list ds) (nd_data y)) [0..<?n]" by (simp only: row_list_def y(2))
    ultimately show ?case by (simp only: list.map sum_list.Cons concat.simps)
  qed
  have "nd_ok ds ?a" using len [OF assms(2)] by (simp add: nd_ok_def)
  moreover have "row_list ?a = concat (map row_list xs)" using rows [OF assms(2)] by (simp add: row_list_def nd_row_size_def)
  ultimately show ?thesis using c by blast
qed

lemma merge_steps_all:
  assumes "merge_steps r ps = Inr as"
    and start: "\<And>i a. i < length ps \<Longrightarrow> start_active r i (ps ! i) = Inr a \<Longrightarrow> P a"
    and extend: "\<And>i a a'. i < length ps \<Longrightarrow> P a \<Longrightarrow> extends a (ps ! i) \<Longrightarrow> extend_active r i (ps ! i) a = Inr a' \<Longrightarrow> P a'"
  shows "\<forall>a \<in> set as. P a"
proof -
  have step: "\<forall>a \<in> set as'. P a" if "\<forall>a \<in> set as. P a" "i < length ps" "add_step r i (ps ! i) as = Inr as'" for as as' i
    using that
  proof (induction as arbitrary: as')
    case Nil
    from Nil.prems(3) obtain a where "start_active r i (ps ! i) = Inr a" "as' = [a]" by (auto simp: bindR_eq_Inr)
    then show ?case using start [OF Nil.prems(2)] by simp
  next
    case (Cons a as)
    show ?case
    proof (cases "extends a (ps ! i)")
      case True
      then obtain a' where a': "extend_active r i (ps ! i) a = Inr a'" "as' = a' # as"
        using Cons.prems(3) by (auto simp: bindR_eq_Inr)
      have "P a" using Cons.prems(1) by simp
      from extend [OF Cons.prems(2) this True a'(1)] show ?thesis using a'(2) Cons.prems(1) by simp
    next
      case False
      then obtain bs where "add_step r i (ps ! i) as = Inr bs" "as' = a # bs"
        using Cons.prems(3) by (auto simp: bindR_eq_Inr)
      then show ?thesis using Cons.IH Cons.prems(1,2) by simp
    qed
  qed
  show ?thesis
    using assms(1) unfolding merge_steps_def
  proof (rule foldR_invariant)
    fix as :: "active list" and x as' assume a: "\<forall>a \<in> set as. P a" "x \<in> set (enumerate 0 ps)"
      "(case x of (i, p) \<Rightarrow> add_step r i p as) = Inr as'"
    then have "fst x < length ps" "snd x = ps ! fst x" by (simp_all add: in_set_enumerate_eq)
    with a(3) have "add_step r (fst x) (ps ! fst x) as = Inr as'" by (simp add: case_prod_unfold)
    from step [OF a(1) \<open>fst x < length ps\<close> this] show "\<forall>a \<in> set as'. P a" .
  qed simp
qed


section \<open>The chunks of a sample\<close>

text \<open>The array of a prepared step lacks the row of its last token.\<close>

definition routed_rows :: "prepared_step \<Rightarrow> 8 word list list" where
  "routed_rows p = (case ps_routed p of None \<Rightarrow> [] | Some a \<Rightarrow> row_list a)"

definition step_routed :: "nat list \<Rightarrow> prepared_step \<Rightarrow> bool" where
  "step_routed ds p \<longleftrightarrow> step_tokens p \<noteq> [] \<and>
     (\<exists>a. ps_routed p = Some a \<and> nd_ok ds a \<and> hd (nd_shape a) = length (step_tokens p) - 1)"

text \<open>The first of the steps \<open>is\<close> that processed token \<open>k\<close>.\<close>

definition first_processing :: "prepared_step list \<Rightarrow> nat list \<Rightarrow> nat \<Rightarrow> nat" where
  "first_processing ps is k = hd (filter (\<lambda>i. k + 1 < length (step_tokens (ps ! i))) is)"

definition chunks_ok :: "nat list \<Rightarrow> prepared_step list \<Rightarrow> active \<Rightarrow> bool" where
  "chunks_ok ds ps a \<longleftrightarrow>
     ac_steps a \<noteq> [] \<and> ac_prefix a = step_tokens (ps ! last (ac_steps a)) \<and>
     (\<forall>i \<in> set (ac_steps a). length (step_tokens (ps ! i)) \<le> length (ac_prefix a)) \<and>
     (\<exists>cs. ac_chunks a = Some cs \<and> cs \<noteq> [] \<and> (\<forall>c \<in> set cs. nd_ok ds c) \<and>
       concat (map row_list cs) =
         map (\<lambda>k. routed_rows (ps ! first_processing ps (ac_steps a) k) ! k) [0..<length (ac_prefix a) - 1])"

lemma start_chunks_ok:
  assumes "start_active r i (ps ! i) = Inr a" and "step_routed ds (ps ! i)"
  shows "chunks_ok ds ps a"
proof -
  obtain x where x: "ps_routed (ps ! i) = Some x" "nd_ok ds x" "hd (nd_shape x) = length (step_tokens (ps ! i)) - 1"
    using assms(2) by (auto simp: step_routed_def)
  have a: "a = \<lparr>ac_prefix = step_tokens (ps ! i), ac_sample = make_sample r (ps ! i), ac_steps = [i], ac_chunks = Some [x]\<rparr>"
    using assms(1) x by (auto simp: start_active_def res_simps)
  have "row_list x = map (\<lambda>k. routed_rows (ps ! first_processing ps [i] k) ! k) [0..<length (step_tokens (ps ! i)) - 1]"
    by (rule nth_equalityI) (simp_all add: x first_processing_def routed_rows_def less_diff_conv)
  then show ?thesis using x by (simp add: chunks_ok_def a)
qed

lemma first_processing_old:
  assumes "is \<noteq> []" and "length (step_tokens (ps ! last is)) = L" and "k < L - 1"
  shows "first_processing ps (is @ [i]) k = first_processing ps is k"
proof -
  have "\<exists>i \<in> set is. k + 1 < length (step_tokens (ps ! i))" using assms by (intro bexI [of _ "last is"]) simp_all
  then have "filter (\<lambda>i. k + 1 < length (step_tokens (ps ! i))) is \<noteq> []" by (simp add: filter_empty_conv)
  then show ?thesis by (simp add: first_processing_def hd_append)
qed

lemma first_processing_new:
  assumes "\<forall>j \<in> set is. length (step_tokens (ps ! j)) \<le> L" and "L - 1 \<le> k" and "k + 1 < length (step_tokens (ps ! i))"
  shows "first_processing ps (is @ [i]) k = i"
proof -
  have "filter (\<lambda>i. k + 1 < length (step_tokens (ps ! i))) is = []" using assms(1,2) by (force simp: filter_empty_conv)
  then show ?thesis using assms(3) by (simp add: first_processing_def)
qed

lemma extend_chunks_rows:
  assumes "nd_ok ds a" and "0 < L" and "L \<le> n + 1" and "hd (nd_shape a) = n" and "\<forall>c \<in> set cs. nd_ok ds c"
  shows "\<exists>new. extend_chunks L (Some a) (Some cs) = Inr (Some (cs @ new)) \<and> (\<forall>c \<in> set new. nd_ok ds c)
    \<and> concat (map row_list new) = drop (L - 1) (row_list a)"
proof -
  have n: "nd_rows a = Inr n" using assms(1,4) by (auto simp: nd_rows_def nd_ok_def split: list.split)
  show ?thesis
  proof (cases "L \<le> n")
    case True
    let ?new = "[nd_slice (L - 1) L a, nd_slice L n a]"
    have "concat (map row_list ?new) = take (L - (L - 1)) (drop (L - 1) (row_list a)) @ take (n - L) (drop L (row_list a))"
      using nd_slice_ok(2) [OF assms(1), of "L - 1" L] nd_slice_ok(2) [OF assms(1), of L n] True assms(4) by simp
    also have "\<dots> = drop (L - 1) (row_list a)"
      using True assms(2,4) by (intro nth_equalityI) (auto simp: nth_append)
    finally have "concat (map row_list ?new) = drop (L - 1) (row_list a)" .
    moreover have "\<forall>c \<in> set ?new. nd_ok ds c" using nd_slice_ok(1) [OF assms(1)] True assms(4) by simp
    moreover have "extend_chunks L (Some a) (Some cs) = Inr (Some (cs @ ?new))" using n True assms(2) by (simp add: extend_chunks_def)
    ultimately show ?thesis by blast
  next
    case False
    then have L: "L = n + 1" using assms(3) by simp
    have s: "nd_slice L n a = nd_slice n n a" using assms(4) L by (simp add: nd_slice_def Let_def)
    have "row_list (nd_slice L n a) = []" using nd_slice_ok(2) [OF assms(1), of n n] assms(4) by (simp add: s)
    moreover have "nd_ok ds (nd_slice L n a)" using nd_slice_ok(1) [OF assms(1), of n n] assms(4) by (simp add: s)
    moreover have "extend_chunks L (Some a) (Some cs) = Inr (Some (cs @ [nd_slice L n a]))" using n False by (simp add: extend_chunks_def)
    ultimately show ?thesis using assms(4) L by (intro exI [of _ "[nd_slice L n a]"]) simp
  qed
qed

lemma extend_chunks_ok:
  assumes "extend_active r i (ps ! i) a = Inr a'" and "chunks_ok ds ps a" and "extends a (ps ! i)"
    and "step_routed ds (ps ! i)" and "ac_prefix a \<noteq> []"
  shows "chunks_ok ds ps a'"
proof -
  let ?L = "length (ac_prefix a)" and ?M = "length (step_tokens (ps ! i))"
  obtain x where x: "ps_routed (ps ! i) = Some x" "nd_ok ds x" "hd (nd_shape x) = ?M - 1"
    using assms(4) by (auto simp: step_routed_def)
  have ok: "ac_steps a \<noteq> []" "ac_prefix a = step_tokens (ps ! last (ac_steps a))"
    "\<forall>j \<in> set (ac_steps a). length (step_tokens (ps ! j)) \<le> ?L" using assms(2) unfolding chunks_ok_def by blast+
  obtain cs where cs: "ac_chunks a = Some cs" "cs \<noteq> []" "\<forall>c \<in> set cs. nd_ok ds c"
    "concat (map row_list cs) = map (\<lambda>k. routed_rows (ps ! first_processing ps (ac_steps a) k) ! k) [0..<?L - 1]"
    using assms(2) unfolding chunks_ok_def by blast
  have "take ?L (ps_prompt_ids (ps ! i)) = ac_prefix a" using assms(3) by (simp add: extends_def)
  from arg_cong [OF this, of length] have "?L \<le> length (ps_prompt_ids (ps ! i))" by (simp add: min_def split: if_split_asm)
  then have LM: "?L \<le> ?M" by (simp add: step_tokens_def)
  have L0: "0 < ?L" using assms(5) by simp
  have "?L \<le> ?M - 1 + 1" using LM by simp
  from extend_chunks_rows [OF x(2) L0 this x(3) cs(3)] obtain new where
    new: "extend_chunks ?L (Some x) (Some cs) = Inr (Some (cs @ new))" "\<forall>c \<in> set new. nd_ok ds c"
      "concat (map row_list new) = drop (?L - 1) (row_list x)" by blast
  have a': "a' = \<lparr>ac_prefix = step_tokens (ps ! i), ac_sample = extend_sample r ?L (ps ! i) (ac_sample a),
      ac_steps = ac_steps a @ [i], ac_chunks = Some (cs @ new)\<rparr>"
    using assms(1) by (simp add: extend_active_def Let_def x(1) cs(1) new(1))
  let ?f = "\<lambda>k. routed_rows (ps ! first_processing ps (ac_steps a @ [i]) k) ! k"
  have "first_processing ps (ac_steps a @ [i]) k = first_processing ps (ac_steps a) k" if "k < ?L - 1" for k
    by (rule first_processing_old [OF ok(1) _ that]) (simp only: ok(2))
  then have old: "map (\<lambda>k. routed_rows (ps ! first_processing ps (ac_steps a) k) ! k) [0..<?L - 1] = map ?f [0..<?L - 1]"
    by (intro map_cong [OF refl]) (simp only: set_upt atLeastLessThan_iff)
  have "drop (?L - 1) (row_list x) = map ?f [?L - 1..<?M - 1]"
  proof (rule nth_equalityI)
    show "length (drop (?L - 1) (row_list x)) = length (map ?f [?L - 1..<?M - 1])" by (simp add: x(3))
    fix k assume k: "k < length (drop (?L - 1) (row_list x))"
    then have "first_processing ps (ac_steps a @ [i]) (?L - 1 + k) = i"
      by (intro first_processing_new [OF ok(3)]) (simp_all add: x(3))
    then show "drop (?L - 1) (row_list x) ! k = map ?f [?L - 1..<?M - 1] ! k"
      using k by (simp add: x(3) routed_rows_def x(1))
  qed
  moreover have "[0..<?M - 1] = [0..<?L - 1] @ [?L - 1..<?M - 1]"
    using LM by (metis diff_le_mono le0 le_Suc_ex upt_add_eq_append)
  ultimately have "concat (map row_list (cs @ new)) = map ?f [0..<?M - 1]"
    using cs(4) old new(3) by simp
  then show ?thesis using cs(2,3) new(2) ok(3) LM by (auto simp: chunks_ok_def a')
qed

lemma merged_chunks:
  assumes "merge_steps r ps = Inr as" and "\<forall>p \<in> set ps. step_routed ds p" and "a \<in> set as"
  shows "chunks_ok ds ps a \<and> ac_prefix a \<noteq> []"
proof -
  have "\<forall>a \<in> set as. chunks_ok ds ps a \<and> ac_prefix a \<noteq> []"
    using assms(1)
  proof (rule merge_steps_all)
    fix i a assume i: "i < length ps" "start_active r i (ps ! i) = Inr a"
    then have "step_routed ds (ps ! i)" using assms(2) by simp
    then show "chunks_ok ds ps a \<and> ac_prefix a \<noteq> []"
      using start_chunks_ok [OF i(2)] i(2) by (auto simp: start_active_def res_simps step_routed_def)
  next
    fix i a a' assume i: "i < length ps" "chunks_ok ds ps a \<and> ac_prefix a \<noteq> []" "extends a (ps ! i)"
      "extend_active r i (ps ! i) a = Inr a'"
    then have s: "step_routed ds (ps ! i)" using assms(2) by simp
    have "ac_prefix a' = step_tokens (ps ! i)" using i(4) by (auto simp: extend_active_def Let_def res_simps)
    then show "chunks_ok ds ps a' \<and> ac_prefix a' \<noteq> []"
      using extend_chunks_ok [OF i(4) _ i(3) s] i(2) s by (auto simp: step_routed_def)
  qed
  then show ?thesis using assms(3) by blast
qed

section \<open>The finished array\<close>

lemma align_routed_ok:
  assumes "nd_ok [L, K] a" and "hd (nd_shape a) = n - 1" and "0 < n"
  shows "\<exists>b. align_routed_experts a n = Inr b \<and> nd_ok [L, K] b \<and> hd (nd_shape b) = n
    \<and> take (n - 1) (row_list b) = row_list a"
proof -
  let ?z = "\<lparr>nd_shape = Suc 0 # tl (nd_shape a), nd_data = replicate (Suc 0 * nd_row_size a) 0\<rparr>"
  have sh: "nd_shape a = [n - 1, L, K]" using assms(1,2) by (cases "nd_shape a") (simp_all add: nd_ok_def)
  have z: "nd_ok [L, K] ?z" by (simp add: nd_ok_def sh nd_row_size_def)
  obtain b where b: "nd_concatenate [a, ?z] = Inr b" "nd_ok [L, K] b" "row_list b = concat (map row_list [a, ?z])"
    using nd_concatenate_ok [of "[a, ?z]" "[L, K]"] assms(1) z by auto
  have "\<not> n < n - Suc 0" "n - (n - Suc 0) = Suc 0" using assms(3) by linarith+
  then have al: "align_routed_experts a n = nd_concatenate [a, ?z]"
    by (simp add: align_routed_experts_def sh Let_def)
  have "hd (nd_shape b) = n" using arg_cong [OF b(3), of length] assms(3) by (simp add: sh)
  then show ?thesis using al b assms(2) by (intro exI [of _ b]) simp
qed

lemma finalize_routed_ok:
  assumes "chunks_ok [L, K] ps a" and "ac_prefix a \<noteq> []"
    and "ts_prompt_ids (ac_sample a) @ ts_completion_ids (ac_sample a) = ac_prefix a"
    and "finalize_routed a = Inr s"
  shows "\<exists>bs. ts_routed_experts s = Some \<lparr>re_data = bs, re_shape = [length (ac_prefix a), L, K], re_dtype = ''uint8''\<rparr>
    \<and> length bs = length (ac_prefix a) * (L * K)
    \<and> (\<forall>k < length (ac_prefix a) - 1. nth_row (L * K) bs k = routed_rows (ps ! first_processing ps (ac_steps a) k) ! k)"
proof -
  let ?n = "length (ac_prefix a)"
  obtain cs where cs: "ac_chunks a = Some cs" "cs \<noteq> []" "\<forall>c \<in> set cs. nd_ok [L, K] c"
    "concat (map row_list cs) = map (\<lambda>k. routed_rows (ps ! first_processing ps (ac_steps a) k) ! k) [0..<?n - 1]"
    using assms(1) unfolding chunks_ok_def by blast
  have "\<exists>x. (if length cs > 1 then nd_concatenate cs else Inr (hd cs)) = Inr x \<and> nd_ok [L, K] x \<and> row_list x = concat (map row_list cs)"
  proof (cases "length cs > 1")
    case True
    then show ?thesis using nd_concatenate_ok [OF cs(2,3)] by simp
  next
    case False
    then obtain c where "cs = [c]" using cs(2) by (cases cs) auto
    then show ?thesis using cs(3) by simp
  qed
  then obtain x where x: "(if length cs > 1 then nd_concatenate cs else Inr (hd cs)) = Inr x" "nd_ok [L, K] x"
    "row_list x = concat (map row_list cs)" by blast
  have hx: "hd (nd_shape x) = ?n - 1" using arg_cong [OF x(3) [unfolded cs(4)], of length] by simp
  from align_routed_ok [OF x(2) hx] assms(2) obtain b where
    b: "align_routed_experts x ?n = Inr b" "nd_ok [L, K] b" "hd (nd_shape b) = ?n" "take (?n - 1) (row_list b) = row_list x" by auto
  have len: "length (ts_prompt_ids (ac_sample a)) + length (ts_completion_ids (ac_sample a)) = ?n"
    using arg_cong [OF assms(3), of length] by simp
  have sh: "nd_shape b = [?n, L, K]" using b(2,3) by (cases "nd_shape b") (simp_all add: nd_ok_def)
  have "s = (ac_sample a)\<lparr>ts_routed_experts := Some \<lparr>re_data = nd_data b, re_shape = nd_shape b, re_dtype = ''uint8''\<rparr>\<rparr>"
  proof -
    obtain c ds where c: "cs = c # ds" using cs(2) by (cases cs) simp_all
    show ?thesis
      using assms(4) x(1) [unfolded c] by (simp add: finalize_routed_def Let_def cs(1) [unfolded c] b(1) len)
  qed
  moreover have "nth_row (L * K) (nd_data b) k = routed_rows (ps ! first_processing ps (ac_steps a) k) ! k" if k: "k < ?n - 1" for k
  proof -
    have "row_list b ! k = take (?n - 1) (row_list b) ! k" using k by simp
    also have "\<dots> = map (\<lambda>k. routed_rows (ps ! first_processing ps (ac_steps a) k) ! k) [0..<?n - 1] ! k"
      by (simp only: b(4) x(3) cs(4))
    finally show ?thesis using k by (simp add: row_list_def nd_row_size_def sh)
  qed
  ultimately show ?thesis using b(2) sh by (simp add: nd_ok_def)
qed

section \<open>Routing decisions follow the tokens\<close>

definition routed_bytes :: "codec \<Rightarrow> rollout \<Rightarrow> nat \<Rightarrow> 8 word list" where
  "routed_bytes C r i =
     (case td_routed_experts (tokens_at r i) of
        None \<Rightarrow> []
      | Some p \<Rightarrow> (case b64decode C (rp_data p) of Inl _ \<Rightarrow> [] | Inr bs \<Rightarrow> bs))"

text \<open>Every step has tokens and the decisions of all of them but the last.\<close>

definition routed_steps :: "codec \<Rightarrow> nat \<Rightarrow> nat \<Rightarrow> rollout \<Rightarrow> bool" where
  "routed_steps C L K r \<longleftrightarrow>
     (\<forall>i < length (ro_trajectory r). all_tokens (tokens_at r i) \<noteq> [] \<and>
        (\<exists>p bs. td_routed_experts (tokens_at r i) = Some p \<and> b64decode C (rp_data p) = Inr bs
           \<and> rp_shape p = [length (all_tokens (tokens_at r i)) - 1, L, K]))"

text \<open>The first of the steps \<open>is\<close> whose request went beyond token \<open>k\<close>.\<close>

definition first_step :: "rollout \<Rightarrow> nat list \<Rightarrow> nat \<Rightarrow> nat" where
  "first_step r is k = hd (filter (\<lambda>i. k + 1 < length (all_tokens (tokens_at r i))) is)"

definition routed_follows :: "codec \<Rightarrow> nat \<Rightarrow> nat \<Rightarrow> rollout \<Rightarrow> nat list \<Rightarrow> training_sample \<Rightarrow> bool" where
  "routed_follows C L K r is s \<longleftrightarrow>
     (\<exists>bs. ts_routed_experts s = Some \<lparr>re_data = bs, re_shape = [sample_length s, L, K], re_dtype = ''uint8''\<rparr>
        \<and> length bs = sample_length s * (L * K)
        \<and> (\<forall>k < sample_length s - 1. nth_row (L * K) bs k = nth_row (L * K) (routed_bytes C r (first_step r is k)) k))"

lemma prepare_step_routed:
  "prepare_step_tokens C s = Inr (Some p) \<Longrightarrow> tj_tokens s = Some t \<Longrightarrow>
    optR (\<lambda>p. bindR (b64decode C (rp_data p)) (\<lambda>bs. nd_reshape bs (rp_shape p))) (td_routed_experts t) = Inr (ps_routed p)"
  by (auto simp: prepare_step_tokens_def bindR_eq_Inr)

lemma prepared_routed:
  assumes "prepare_steps C (ro_trajectory r) = Inr (Some ps)" and "routed_steps C L K r" and "rollout_wf r" and "i < length ps"
  shows "step_routed [L, K] (ps ! i)"
    and "k + 1 < length (all_tokens (tokens_at r i)) \<Longrightarrow> routed_rows (ps ! i) ! k = nth_row (L * K) (routed_bytes C r i) k"
proof -
  note at = prepared_at [OF assms(1,3)]
  have il: "i < length (ro_trajectory r)" using at(1) assms(4) by simp
  obtain t where t: "tj_tokens (ro_trajectory r ! i) = Some t"
    using prepare_steps_Some [OF assms(1)] il by (auto simp: list_all2_conv_all_nth prepares_def)
  then have ti: "tokens_at r i = t" by (simp add: tokens_at_def)
  obtain p bs where p: "td_routed_experts t = Some p" "b64decode C (rp_data p) = Inr bs"
    "rp_shape p = [length (all_tokens t) - 1, L, K]" "all_tokens t \<noteq> []"
    using assms(2) il by (auto simp: routed_steps_def ti)
  have "prepare_step_tokens C (ro_trajectory r ! i) = Inr (Some (ps ! i))"
    using prepare_steps_each [OF assms(1)] il by (simp add: list_all2_conv_all_nth)
  from prepare_step_routed [OF this t] have
    "bindR (b64decode C (rp_data p)) (\<lambda>bs. bindR (nd_reshape bs (rp_shape p)) (\<lambda>y. Inr (Some y))) = Inr (ps_routed (ps ! i))"
    by (simp add: p(1) bindR_assoc)
  then have x: "ps_routed (ps ! i) = Some \<lparr>nd_shape = rp_shape p, nd_data = bs\<rparr>" "length bs = (length (all_tokens t) - 1) * (L * K)"
    using p(2,3) by (auto simp: nd_reshape_def res_simps)
  have "step_tokens (ps ! i) = all_tokens t" using at(3) [OF assms(4)] by (simp add: ti)
  then show "step_routed [L, K] (ps ! i)" using x p(3,4) by (simp add: step_routed_def nd_ok_def)
  show "routed_rows (ps ! i) ! k = nth_row (L * K) (routed_bytes C r i) k" if "k + 1 < length (all_tokens (tokens_at r i))"
    using that x p(1-3) by (simp add: routed_rows_def row_list_def nd_row_size_def routed_bytes_def ti)
qed

lemma interleaved_routed:
  assumes "interleave_rollout C mapping r = Inr (Some samples)" and "rollout_wf r" and "routed_steps C L K r"
  shows "\<exists>own. list_all2 (\<lambda>is s. covers r is s \<and> routed_follows C L K r is s) own samples
    \<and> mset (concat own) = mset [0..<length (ro_trajectory r)]"
proof -
  obtain ps as where i: "prepare_steps C (ro_trajectory r) = Inr (Some ps)" "merge_steps r ps = Inr as" "length as = length samples"
    "mset (concat (map ac_steps as)) = mset [0..<length (ro_trajectory r)]"
    "\<forall>j < length as. active_ok r ps (as ! j) \<and> (\<forall>i \<in> set (ac_steps (as ! j)). i < length ps)
      \<and> covers r (ac_steps (as ! j)) (samples ! j) \<and> sample_ready (samples ! j) \<and> ts_env_name (samples ! j) = ro_env_name r
      \<and> (\<exists>s. finalize_routed (as ! j) = Inr s \<and> ts_routed_experts (samples ! j) = ts_routed_experts s)"
    using interleaved_parts [OF assms(1,2)] .
  note pr = prepared_routed [OF i(1) assms(3,2)] and at = prepared_at [OF i(1) assms(2)]
  have sr: "\<forall>p \<in> set ps. step_routed [L, K] p" using pr(1) by (auto simp: in_set_conv_nth)
  have "routed_follows C L K r (ac_steps (as ! j)) (samples ! j)" if j: "j < length as" for j
  proof -
    let ?a = "as ! j" let ?is = "ac_steps ?a" and ?n = "length (ac_prefix ?a)"
    from i(5) j obtain s where act: "active_ok r ps ?a" and lt: "\<forall>i \<in> set ?is. i < length ps"
      and cov: "covers r ?is (samples ! j)" and s: "finalize_routed ?a = Inr s" "ts_routed_experts (samples ! j) = ts_routed_experts s" by blast
    have ch: "chunks_ok [L, K] ps ?a" "ac_prefix ?a \<noteq> []" using merged_chunks [OF i(2) sr, of ?a] j by simp_all
    have tok: "ts_prompt_ids (ac_sample ?a) @ ts_completion_ids (ac_sample ?a) = ac_prefix ?a"
      and ne: "?is \<noteq> []" and pre: "ac_prefix ?a = step_tokens (ps ! last ?is)" using act unfolding active_ok_def by blast+
    from finalize_routed_ok [OF ch tok s(1)] obtain bs where
      bs: "ts_routed_experts s = Some \<lparr>re_data = bs, re_shape = [?n, L, K], re_dtype = ''uint8''\<rparr>" "length bs = ?n * (L * K)"
      "\<forall>k < ?n - 1. nth_row (L * K) bs k = routed_rows (ps ! first_processing ps ?is k) ! k" by blast
    have last: "last ?is < length ps" using ne lt by simp
    have "ts_prompt_ids (samples ! j) @ ts_completion_ids (samples ! j) = all_tokens (tokens_at r (last ?is))"
      using cov unfolding covers_def by blast
    then have sl: "sample_length (samples ! j) = ?n"
      using at(3) [OF last] by (simp add: pre sample_length_def flip: length_append)
    have "nth_row (L * K) bs k = nth_row (L * K) (routed_bytes C r (first_step r ?is k)) k" if k: "k < ?n - 1" for k
    proof -
      have eq: "first_processing ps ?is k = first_step r ?is k"
        unfolding first_processing_def first_step_def using at(3) lt by (intro arg_cong [of _ _ hd] filter_cong refl) simp
      have "filter (\<lambda>i. k + 1 < length (all_tokens (tokens_at r i))) ?is \<noteq> []"
        unfolding filter_empty_conv using ne k at(3) [OF last] by (auto simp: pre intro!: bexI [of _ "last ?is"])
      from list.set_sel(1) [OF this] have "first_step r ?is k \<in> set ?is" "k + 1 < length (all_tokens (tokens_at r (first_step r ?is k)))"
        unfolding first_step_def by simp_all
      then show ?thesis using bs(3) k pr(2) lt eq by simp
    qed
    then show ?thesis unfolding routed_follows_def using bs(1,2) s(2) sl by simp
  qed
  then show ?thesis using i(3-5) by (intro exI [of _ "map ac_steps as"]) (simp add: list_all2_conv_all_nth)
qed

text \<open>C24. Routing decisions stay with their tokens: when every step carries the decisions of all its tokens
  but the last, as vLLM captures them, the array built for a sample has a row per token, and the row of every
  token but the last of the sample is the decision made by the first of its steps that processed it.\<close>

theorem routing_follows_tokens:
  assumes "interleave_rollout C mapping r = Inr (Some samples)" and "rollout_wf r" and "routed_steps C L K r"
  shows "\<exists>own. list_all2 (\<lambda>is s. covers r is s \<and> routed_follows C L K r is s) own samples
    \<and> mset (concat own) = mset [0..<length (ro_trajectory r)]"
  using assms by (rule interleaved_routed)

definition routed_demo :: rollout where
  "routed_demo = (demo_rollout ''gsm8k'' [])\<lparr>ro_trajectory :=
     [\<lparr>tj_tokens = Some \<lparr>td_prompt_ids = [1, 2], td_prompt_mask = [False, False], td_completion_ids = [3],
         td_completion_mask = [True], td_completion_logprobs = [f_one],
         td_routed_experts = Some \<lparr>rp_data = ''ab'', rp_shape = [2, 1, 1]\<rparr>, td_mm = None\<rparr>, tj_usage = None\<rparr>,
      \<lparr>tj_tokens = Some \<lparr>td_prompt_ids = [1, 2, 3, 4], td_prompt_mask = [False, False, False, False], td_completion_ids = [5],
         td_completion_mask = [True], td_completion_logprobs = [f_one],
         td_routed_experts = Some \<lparr>rp_data = ''wxyz'', rp_shape = [4, 1, 1]\<rparr>, td_mm = None\<rparr>, tj_usage = None\<rparr>]\<rparr>"

lemma routing_follows_tokens_witness:
  "\<exists>samples own. interleave_rollout demo_codec None routed_demo = Inr (Some samples)
    \<and> map (map_option re_data \<circ> ts_routed_experts) samples = [Some [97, 98, 121, 122, 0]]
    \<and> list_all2 (\<lambda>is s. covers routed_demo is s \<and> routed_follows demo_codec 1 1 routed_demo is s) own samples"
proof -
  have "case interleave_rollout demo_codec None routed_demo of
      Inr (Some ss) \<Rightarrow> map (map_option re_data \<circ> ts_routed_experts) ss = [Some [97, 98, 121, 122, 0]] | _ \<Rightarrow> False"
    by code_simp
  then obtain ss where s: "interleave_rollout demo_codec None routed_demo = Inr (Some ss)"
    "map (map_option re_data \<circ> ts_routed_experts) ss = [Some [97, 98, 121, 122, 0]]"
    by (auto split: sum.split_asm option.split_asm)
  have "rollout_wf routed_demo" by (simp add: rollout_wf_def routed_demo_def tokens_wf_def)
  moreover have "routed_steps demo_codec 1 1 routed_demo"
    by (auto simp: routed_steps_def routed_demo_def demo_codec_def tokens_at_def all_tokens_def less_Suc_eq)
  ultimately obtain own where "list_all2 (\<lambda>is s. covers routed_demo is s \<and> routed_follows demo_codec 1 1 routed_demo is s) own ss"
    using routing_follows_tokens [OF s(1)] by blast
  with s show ?thesis by (intro exI [of _ ss] exI [of _ own]) simp
qed

end
