(* ===== verification/Orchestrator.thy ===== *)
theory Orchestrator
  imports TrajectoryRouted
begin

text \<open>
  The training batch of an orchestrator step (\<open>orchestrator/orchestrator.py\<close>) against the packer of the
  trainer (\<open>trainer/rl/packer.py\<close>): the batch is never empty, and its samples pass validation and
  preparation. Also what the advantages and filters of the batch are computed from.
\<close>

section \<open>Preparation of orchestrator samples\<close>

definition routed_fits :: "training_sample \<Rightarrow> bool" where
  "routed_fits s \<longleftrightarrow> (case ts_routed_experts s of None \<Rightarrow> True | Some re \<Rightarrow> check_routed (sample_length s) re = Inr ())"





definition acceptable :: "training_sample \<Rightarrow> bool" where
  "acceptable s \<longleftrightarrow> sample_wf s \<and> opt_length (sample_length s) (ts_mm_token_type_ids s) \<and> routed_fits s \<and> ts_env_name s \<noteq> ''all''"


lemma stamp_fields [simp]:
  "sample_length (stamp_sample mode r s) = sample_length s" "sample_wf (stamp_sample mode r s) = sample_wf s"
  "ts_routed_experts (stamp_sample mode r s) = ts_routed_experts s"
  "ts_mm_token_type_ids (stamp_sample mode r s) = ts_mm_token_type_ids s"
  "ts_env_name (stamp_sample mode r s) = ro_env_name r"
  by (simp_all add: sample_length_def sample_wf_def stamp_sample_def)


lemma acceptable_validates:
  assumes "acceptable s" and "0 < sample_length s" and "sample_length s \<le> seq_len"
  shows "validate_sample seq_len s = None"
  using assms by (simp add: acceptable_def sample_wf_def validate_sample_def)


text \<open>The samples of a batch are the training examples, with or without the log-probabilities of the teacher.\<close>

lemma make_training_batch_parts:
  assumes "make_training_batch C mapping mode teacher step rollouts = Inr b"
  obtains results scored where "list_all2 (\<lambda>r p. fst p = r \<and> interleave_rollout C mapping r = Inr (snd p)) rollouts results"
    and "length scored = length (train_examples mode results)"
    and "tb_examples b = map2 (\<lambda>s x. s\<lparr>ts_teacher_logprobs := x\<rparr>) (train_examples mode results) scored"
    and "\<forall>j < length scored. scored ! j = ts_teacher_logprobs (train_examples mode results ! j)
      \<or> (\<exists>f lps. teacher = Some f \<and> mode = Opd \<and> f (train_examples mode results) = Inr lps \<and> j < length lps \<and> scored ! j = Some (lps ! j))"
    and "teacher = None \<or> mode \<noteq> Opd \<or> (\<exists>lps. the teacher (train_examples mode results) = Inr lps
      \<and> (\<forall>j < min (length scored) (length lps). scored ! j = Some (lps ! j)))"
proof -
  from assms obtain results where m: "mapR (\<lambda>r. bindR (interleave_rollout C mapping r) (\<lambda>ss. Inr (r, ss))) rollouts = Inr results"
    by (auto simp: make_training_batch_def bindR_eq_Inr)
  then have r: "list_all2 (\<lambda>r p. fst p = r \<and> interleave_rollout C mapping r = Inr (snd p)) rollouts results"
    by (auto simp: mapR_Inr_iff bindR_eq_Inr elim!: list_all2_mono)
  define ex where "ex = train_examples mode results"
  have same: "ex = map2 (\<lambda>s x. s\<lparr>ts_teacher_logprobs := x\<rparr>) ex (map ts_teacher_logprobs ex)"
    by (rule nth_equalityI) simp_all
  show ?thesis
  proof (cases "teacher = None \<or> mode \<noteq> Opd")
    case True
    then have "tb_examples b = ex" using assms m by (cases teacher) (auto simp: make_training_batch_def Let_def ex_def)
    then show ?thesis
      using same True by (intro that [OF r, of "map ts_teacher_logprobs ex", folded ex_def]) auto
  next
    case False
    then obtain f where f: "teacher = Some f" "mode = Opd" by auto
    then obtain lps where l: "f ex = Inr lps" "tb_examples b = map2 (\<lambda>s lp. s\<lparr>ts_teacher_logprobs := Some lp\<rparr>) ex lps @ drop (length lps) ex"
      using assms m by (auto simp: make_training_batch_def Let_def ex_def bindR_eq_Inr)
    define scored where "scored = map (\<lambda>j. if j < length lps then Some (lps ! j) else ts_teacher_logprobs (ex ! j)) [0..<length ex]"
    have "tb_examples b = map2 (\<lambda>s x. s\<lparr>ts_teacher_logprobs := x\<rparr>) ex scored"
      by (rule nth_equalityI) (auto simp: l(2) scored_def nth_append)
    then show ?thesis
      using f l(1) by (intro that [OF r, of scored, folded ex_def]) (auto simp: scored_def)
  qed
qed








section \<open>Batches are not empty\<close>

lemma interleaved_nonempty:
  assumes "interleave_rollout C mapping r = Inr (Some samples)" and "rollout_wf r"
  shows "samples \<noteq> []"
proof
  assume "samples = []"
  with interleaved(1) [OF assms] have "mset [0..<length (ro_trajectory r)] = {#}" by auto
  then have "size (mset [0..<length (ro_trajectory r)]) = 0" by (simp only: size_empty)
  then have "ro_trajectory r = []" by simp
  with assms(1) show False by (simp add: interleave_rollout_def)
qed

definition has_tokens :: "rollout \<Rightarrow> bool" where
  "has_tokens r \<longleftrightarrow> ro_trajectory r \<noteq> [] \<and> (\<forall>s \<in> set (ro_trajectory r). tj_tokens s \<noteq> None)"

lemma prepare_steps_tokens:
  assumes "prepare_steps C ss = Inr x" and "\<forall>s \<in> set ss. tj_tokens s \<noteq> None"
  shows "x \<noteq> None"
  using assms
proof (induction ss arbitrary: x)
  case Nil
  then show ?case by auto
next
  case (Cons s ss)
  then obtain t where "tj_tokens s = Some t" by auto
  with Cons.prems(1) obtain p y where "prepare_step_tokens C s = Inr (Some p)" "prepare_steps C ss = Inr y" "x = map_option ((#) p) y"
    by (auto simp: bindR_eq_Inr prepare_step_tokens_def)
  then show ?case using Cons.IH Cons.prems(2) by auto
qed

lemma interleaved_Some:
  assumes "interleave_rollout C mapping r = Inr x" and "has_tokens r"
  shows "x \<noteq> None"
proof -
  have ne: "ro_trajectory r \<noteq> []" and tk: "\<forall>s \<in> set (ro_trajectory r). tj_tokens s \<noteq> None" using assms(2) by (simp_all add: has_tokens_def)
  obtain y where y: "prepare_steps C (ro_trajectory r) = Inr y" using assms(1) ne by (auto simp: interleave_rollout_def bindR_eq_Inr)
  obtain ps where "y = Some ps" using prepare_steps_tokens [OF y tk] by auto
  with assms(1) ne y show ?thesis by (auto simp: interleave_rollout_def bindR_eq_Inr)
qed

lemma attempt_batches_trainable:
  "attempt_batches f F fs bs = (e, Inr rs) \<Longrightarrow> e = None \<and> n_trainable rs > 0"
  by (induction f F fs bs rule: attempt_batches.induct) (auto simp: Let_def split: sum.split_asm if_split_asm)

lemma train_examples_nonempty:
  assumes "p \<in> set results" and "ro_is_filtered (fst p) \<noteq> Some True" and "snd p = Some ss" and "ss \<noteq> []"
  shows "train_examples mode results \<noteq> []"
proof -
  have "stamp_sample mode (fst p) (hd ss) \<in> set (train_examples mode results)"
    using assms unfolding train_examples_def by (auto intro!: bexI [of _ p] simp: case_prod_unfold)
  then show ?thesis by force
qed

lemma batch_nonempty:
  assumes "make_training_batch C mapping mode teacher step rs = Inr b" and "n_trainable rs > 0"
    and "\<forall>r \<in> set rs. rollout_wf r \<and> has_tokens r"
  shows "tb_examples b \<noteq> []"
proof -
  from make_training_batch_parts [OF assms(1)] obtain results scored where
    r: "list_all2 (\<lambda>r p. fst p = r \<and> interleave_rollout C mapping r = Inr (snd p)) rs results"
    and l: "length scored = length (train_examples mode results)"
    and b: "tb_examples b = map2 (\<lambda>s x. s\<lparr>ts_teacher_logprobs := x\<rparr>) (train_examples mode results) scored" .
  from assms(2) obtain x where x: "x \<in> set rs" "ro_is_filtered x \<noteq> Some True"
    by (auto simp: n_trainable_def filter_empty_conv)
  then obtain j where j: "j < length rs" "rs ! j = x" by (auto simp: in_set_conv_nth)
  with r have p: "fst (results ! j) = x" "interleave_rollout C mapping x = Inr (snd (results ! j))" "results ! j \<in> set results"
    by (auto simp: list_all2_conv_all_nth)
  obtain ss where ss: "snd (results ! j) = Some ss" using interleaved_Some [OF p(2)] assms(3) x(1) by auto
  have "ss \<noteq> []" using interleaved_nonempty p(2) ss assms(3) x(1) by auto
  then have "train_examples mode results \<noteq> []" using train_examples_nonempty [OF p(3) _ ss] p(1) x(2) by simp
  then show ?thesis using l by (cases "train_examples mode results"; cases scored) (simp_all add: b)
qed

text \<open>The trainer never receives an empty batch: when the attempts of a step end with rollouts, and not
  with an eviction, at least one of them survived the filters, and the training batch built from
  rollouts whose steps have their tokens holds at least one sample.\<close>

theorem batch_never_empty:
  assumes "attempt_batches advantage_fn F fs batches = (reason, Inr rs)"
    and "make_training_batch C mapping mode teacher step rs = Inr b" and "\<forall>r \<in> set rs. rollout_wf r \<and> has_tokens r"
  shows "reason = None \<and> tb_examples b \<noteq> []"
  using attempt_batches_trainable [OF assms(1)] batch_nonempty [OF assms(2) _ assms(3)] by blast

lemma rollout_wf_code [code]:
  "rollout_wf r \<longleftrightarrow> list_all (\<lambda>s. case tj_tokens s of None \<Rightarrow> True | Some t \<Rightarrow> tokens_wf t) (ro_trajectory r)"
  by (auto simp: rollout_wf_def list_all_iff split: option.splits)

definition demo_floats :: float_ops where
  "demo_floats = \<lparr>fl_sum = hd, fl_add = (+), fl_times = (\<lambda>x n. x), fl_div = (\<lambda>x n. x), fl_le = (\<le>), fl_lt = (<), fl_eq = (=)\<rparr>"

definition demo_filters :: "rollout_filter list" where
  "demo_filters = [\<lparr>rf_name = ''gibberish'', rf_kind = Gibberish 7 f_nan, rf_enforce = True\<rparr>]"

definition demo_batches :: "rollout list list" where
  "demo_batches = [[demo_rollout ''gsm8k'' [([1], [9])]], [demo_rollout ''gsm8k'' [([1], [9])], demo_rollout ''gsm8k'' [([1, 2], [3])]]]"

lemma batch_never_empty_witness:
  "\<exists>rs b. attempt_batches None demo_floats demo_filters demo_batches = (None, Inr rs) \<and> map ro_is_filtered rs = [Some True, Some False]
    \<and> make_training_batch demo_codec None Rl None 3 rs = Inr b \<and> tb_examples b \<noteq> []"
proof -
  have "case attempt_batches None demo_floats demo_filters demo_batches of
      (None, Inr rs) \<Rightarrow> map ro_is_filtered rs = [Some True, Some False] \<and> (\<forall>r \<in> set rs. rollout_wf r \<and> has_tokens r)
        \<and> (case make_training_batch demo_codec None Rl None 3 rs of Inr b \<Rightarrow> True | _ \<Rightarrow> False) | _ \<Rightarrow> False"
    by code_simp
  then obtain rs b where "attempt_batches None demo_floats demo_filters demo_batches = (None, Inr rs)"
    "map ro_is_filtered rs = [Some True, Some False]" "\<forall>r \<in> set rs. rollout_wf r \<and> has_tokens r"
    "make_training_batch demo_codec None Rl None 3 rs = Inr b"
    by (auto split: prod.split_asm option.split_asm sum.split_asm)
  note r = this
  from batch_never_empty [OF r(1,4,3)] have "tb_examples b \<noteq> []" by simp
  with r show ?thesis by (intro exI [of _ rs] exI [of _ b]) simp
qed

section \<open>Advantages by group\<close>

definition positions :: "rollout list \<Rightarrow> group_key \<Rightarrow> nat list" where
  "positions rs k = filter (\<lambda>i. group_key (rs ! i) = k) [0..<length rs]"

lemma map_positions: "map ((!) rs) (positions rs k) = filter (\<lambda>r. group_key r = k) rs"
proof -
  have "map ((!) rs) (positions rs k) = filter (\<lambda>r. group_key r = k) (map ((!) rs) [0..<length rs])"
    by (simp add: positions_def filter_map comp_def)
  then show ?thesis by (simp add: map_nth)
qed

lemma group_positions_prefix:
  assumes "n \<le> length rs"
  shows "distinct (dkeys (group_positions (take n rs)))"
    and "(case dget (group_positions (take n rs)) k of None \<Rightarrow> [] | Some g \<Rightarrow> g) = filter (\<lambda>i. group_key (rs ! i) = k) [0..<n]"
    and "dget (group_positions (take n rs)) k = None \<longleftrightarrow> filter (\<lambda>i. group_key (rs ! i) = k) [0..<n] = []"
  using assms
proof (induction n arbitrary: k)
  case (Suc n)
  let ?d = "group_positions (take n rs)" and ?k = "group_key (rs ! n)"
  have e: "enumerate 0 (take (Suc n) rs) = enumerate 0 (take n rs) @ [(n, rs ! n)]" if "Suc n \<le> length rs"
    using that by (simp add: take_Suc_conv_app_nth enumerate_append_eq)
  have s: "group_positions (take (Suc n) rs) = dput ?k ((case dget ?d ?k of None \<Rightarrow> [] | Some g \<Rightarrow> g) @ [n]) ?d" if "Suc n \<le> length rs"
    unfolding group_positions_def e [OF that] by simp
  { case 1 then show ?case using s Suc.IH(1) by auto }
  { case 2 then show ?case using s Suc.IH(2) by (auto simp: dict_simps) }
  { case 3 then show ?case using s Suc.IH(2,3) by (auto simp: dict_simps) }
qed (simp_all add: group_positions_def)

lemma group_positions_ok:
  "distinct (dkeys (group_positions rs))"
  "(k, idxs) \<in> set (group_positions rs) \<Longrightarrow> idxs = positions rs k"
  "r \<in> set rs \<Longrightarrow> group_key r \<in> set (dkeys (group_positions rs))"
proof -
  have d: "distinct (dkeys (group_positions rs))" using group_positions_prefix(1) [of "length rs" rs] by simp
  then show "distinct (dkeys (group_positions rs))" .
  have l: "(case dget (group_positions rs) k of None \<Rightarrow> [] | Some g \<Rightarrow> g) = positions rs k"
    "dget (group_positions rs) k = None \<longleftrightarrow> positions rs k = []" for k
    using group_positions_prefix(2,3) [of "length rs" rs k] by (simp_all add: positions_def)
  show "idxs = positions rs k" if "(k, idxs) \<in> set (group_positions rs)"
    using l(1) [of k] map_of_is_SomeI [OF d that] by simp
  show "group_key r \<in> set (dkeys (group_positions rs))" if "r \<in> set rs"
  proof -
    have "positions rs (group_key r) \<noteq> []" using that by (auto simp: positions_def filter_empty_conv in_set_conv_nth)
    then have "dget (group_positions rs) (group_key r) \<noteq> None" using l(2) by simp
    then show ?thesis unfolding set_map in_dkeys_iff .
  qed
qed

lemma store_advantages_all:
  assumes "distinct idxs" and "\<forall>i \<in> set idxs. i < length rs" and "length as = length idxs"
  shows "length (store_advantages rs idxs as) = length rs
    \<and> (\<forall>i. i \<notin> set idxs \<longrightarrow> store_advantages rs idxs as ! i = rs ! i)
    \<and> (\<forall>j < length idxs. store_advantages rs idxs as ! (idxs ! j) = (rs ! (idxs ! j))\<lparr>ro_advantage := Some (as ! j)\<rparr>)"
  using assms
proof (induction idxs arbitrary: rs as)
  case Nil
  then show ?case by (simp add: store_advantages_def)
next
  case (Cons x idxs)
  obtain a bs where as: "as = a # bs" using Cons.prems(3) by (cases as) simp_all
  let ?rs = "rs[x := (rs ! x)\<lparr>ro_advantage := Some a\<rparr>]"
  have s: "store_advantages rs (x # idxs) as = store_advantages ?rs idxs bs" by (simp add: store_advantages_def as)
  have ih: "length (store_advantages ?rs idxs bs) = length ?rs"
    "\<And>i. i \<notin> set idxs \<Longrightarrow> store_advantages ?rs idxs bs ! i = ?rs ! i"
    "\<And>j. j < length idxs \<Longrightarrow> store_advantages ?rs idxs bs ! (idxs ! j) = (?rs ! (idxs ! j))\<lparr>ro_advantage := Some (bs ! j)\<rparr>"
    using Cons.IH [of ?rs bs] Cons.prems by (simp_all add: as)
  have x: "x \<notin> set idxs" "x < length rs" using Cons.prems by simp_all
  have "store_advantages ?rs idxs bs ! ((x # idxs) ! j) = (rs ! ((x # idxs) ! j))\<lparr>ro_advantage := Some ((a # bs) ! j)\<rparr>"
    if "j < length (x # idxs)" for j
  proof (cases j)
    case 0
    then show ?thesis using ih(2) [OF x(1)] x(2) by simp
  next
    case (Suc k)
    then have k: "k < length idxs" using that by simp
    then have "x \<noteq> idxs ! k" using x(1) by force
    then show ?thesis using ih(3) [OF k] Suc by simp
  qed
  then show ?case unfolding s using ih(1,2) by (simp add: as)
qed

lemma store_advantages_nth:
  assumes "distinct idxs" and "\<forall>i \<in> set idxs. i < length rs" and "length as = length idxs"
  shows "length (store_advantages rs idxs as) = length rs"
    and "i \<notin> set idxs \<Longrightarrow> store_advantages rs idxs as ! i = rs ! i"
    and "j < length idxs \<Longrightarrow> store_advantages rs idxs as ! (idxs ! j) = (rs ! (idxs ! j))\<lparr>ro_advantage := Some (as ! j)\<rparr>"
  using store_advantages_all [OF assms] by simp_all

lemma distinct_positions: "distinct (positions rs k)" and positions_less: "i \<in> set (positions rs k) \<Longrightarrow> i < length rs \<and> group_key (rs ! i) = k"
  by (auto simp: positions_def)

definition advantage_step :: "(rollout list \<Rightarrow> float64 list res) \<Rightarrow> rollout list \<Rightarrow> group_key \<times> nat list \<Rightarrow> rollout list res" where
  "advantage_step f cur g = bindR (f (map (\<lambda>i. cur ! i) (snd g))) (\<lambda>advantages. Inr (store_advantages cur (snd g) advantages))"

lemma fold_advantages:
  assumes "foldR (advantage_step f) cur gs = Inr rs'" and "distinct (map fst gs)"
    and "\<forall>g \<in> set gs. snd g = positions rs (fst g)" and "length cur = length rs"
    and "\<forall>i < length rs. group_key (rs ! i) \<in> fst ` set gs \<longrightarrow> cur ! i = rs ! i"
    and f: "\<And>g xs. f g = Inr xs \<Longrightarrow> length xs = length g"
  shows "length rs' = length rs"
    and "\<forall>i < length rs. if group_key (rs ! i) \<in> fst ` set gs then \<exists>a. rs' ! i = (rs ! i)\<lparr>ro_advantage := Some a\<rparr> else rs' ! i = cur ! i"
    and "\<forall>g \<in> set gs. f (map ((!) rs) (snd g)) = Inr (map (\<lambda>i. the (ro_advantage (rs' ! i))) (snd g))"
proof -
  have "length rs' = length rs \<and>
    (\<forall>i < length rs. if group_key (rs ! i) \<in> fst ` set gs then \<exists>a. rs' ! i = (rs ! i)\<lparr>ro_advantage := Some a\<rparr> else rs' ! i = cur ! i) \<and>
    (\<forall>g \<in> set gs. f (map ((!) rs) (snd g)) = Inr (map (\<lambda>i. the (ro_advantage (rs' ! i))) (snd g)))"
    using assms(1-5)
  proof (induction gs arbitrary: cur)
    case Nil
    then show ?case by simp
  next
    case (Cons g gs)
    let ?p = "positions rs (fst g)"
    have p: "snd g = ?p" using Cons.prems(3) by simp
    have cur: "map ((!) cur) ?p = map ((!) rs) ?p" using Cons.prems(5) positions_less by simp
    obtain as where as: "f (map ((!) rs) ?p) = Inr as" and rest: "foldR (advantage_step f) (store_advantages cur ?p as) gs = Inr rs'"
      using Cons.prems(1) by (auto simp: advantage_step_def [of f cur g] p cur bindR_eq_Inr)
    have la: "length as = length ?p" using f [OF as] by simp
    have lt: "\<forall>i \<in> set ?p. i < length cur" using positions_less Cons.prems(4) by simp
    note st = store_advantages_nth [OF distinct_positions lt la]
    let ?cur = "store_advantages cur ?p as"
    have other: "?cur ! i = cur ! i" if "i < length rs" "group_key (rs ! i) \<noteq> fst g" for i
      using st(2) that positions_less by blast
    have fresh: "fst g \<notin> fst ` set gs" using Cons.prems(2) by simp
    have prem: "\<forall>i < length rs. group_key (rs ! i) \<in> fst ` set gs \<longrightarrow> ?cur ! i = rs ! i"
    proof (intro allI impI)
      fix i assume i: "i < length rs" "group_key (rs ! i) \<in> fst ` set gs"
      then have "group_key (rs ! i) \<noteq> fst g" using fresh by metis
      then show "?cur ! i = rs ! i" using other i Cons.prems(5) by simp
    qed
    have d: "distinct (map fst gs)" "\<forall>g \<in> set gs. snd g = positions rs (fst g)" "length ?cur = length rs"
      using Cons.prems(2-4) st(1) by simp_all
    have ih: "length rs' = length rs"
      "\<forall>i < length rs. if group_key (rs ! i) \<in> fst ` set gs then \<exists>a. rs' ! i = (rs ! i)\<lparr>ro_advantage := Some a\<rparr> else rs' ! i = ?cur ! i"
      "\<forall>g \<in> set gs. f (map ((!) rs) (snd g)) = Inr (map (\<lambda>i. the (ro_advantage (rs' ! i))) (snd g))"
      using Cons.IH [OF rest d prem] by blast+
    have own: "rs' ! (?p ! j) = (rs ! (?p ! j))\<lparr>ro_advantage := Some (as ! j)\<rparr>" if j: "j < length ?p" for j
    proof -
      have "?p ! j \<in> set ?p" using j by simp
      from positions_less [OF this] have k: "?p ! j < length rs" "group_key (rs ! (?p ! j)) = fst g" by simp_all
      then have "rs' ! (?p ! j) = ?cur ! (?p ! j)" using ih(2) fresh by auto
      also have "\<dots> = (cur ! (?p ! j))\<lparr>ro_advantage := Some (as ! j)\<rparr>" by (rule st(3) [OF j])
      also have "cur ! (?p ! j) = rs ! (?p ! j)" using Cons.prems(5) k by simp
      finally show ?thesis .
    qed
    have "as = map (\<lambda>i. the (ro_advantage (rs' ! i))) ?p" by (rule nth_equalityI) (simp_all add: la own)
    then have now: "f (map ((!) rs) (snd g)) = Inr (map (\<lambda>i. the (ro_advantage (rs' ! i))) (snd g))" using as by (simp add: p)
    have mine: "\<exists>a. rs' ! i = (rs ! i)\<lparr>ro_advantage := Some a\<rparr>" if "i < length rs" "group_key (rs ! i) = fst g" for i
    proof -
      have "i \<in> set ?p" using that by (simp add: positions_def)
      then show ?thesis using own by (auto simp: in_set_conv_nth)
    qed
    have each: "if group_key (rs ! i) \<in> fst ` set (g # gs) then \<exists>a. rs' ! i = (rs ! i)\<lparr>ro_advantage := Some a\<rparr> else rs' ! i = cur ! i"
      if "i < length rs" for i
      using ih(2) that mine other by (cases "group_key (rs ! i) = fst g") auto
    show ?case using ih(1,3) now each by (intro conjI) simp_all
  qed
  then show "length rs' = length rs"
    "\<forall>i < length rs. if group_key (rs ! i) \<in> fst ` set gs then \<exists>a. rs' ! i = (rs ! i)\<lparr>ro_advantage := Some a\<rparr> else rs' ! i = cur ! i"
    "\<forall>g \<in> set gs. f (map ((!) rs) (snd g)) = Inr (map (\<lambda>i. the (ro_advantage (rs' ! i))) (snd g))" by blast+
qed

lemma compute_advantages_groups:
  assumes "compute_advantages (Some f) rs = Inr rs'" and f: "\<And>g xs. f g = Inr xs \<Longrightarrow> length xs = length g"
  shows "list_all2 (\<lambda>r r'. \<exists>a. r' = r\<lparr>ro_advantage := Some a\<rparr>) rs rs'"
    and "k \<in> group_key ` set rs \<Longrightarrow>
      f (filter (\<lambda>r. group_key r = k) rs) = Inr (map (the \<circ> ro_advantage) (filter (\<lambda>r. group_key r = k) rs'))"
proof -
  have "foldR (advantage_step f) rs (group_positions rs) = Inr rs'"
    using assms(1) by (simp add: compute_advantages_def advantage_step_def [abs_def] case_prod_unfold)
  from fold_advantages [OF this group_positions_ok(1) _ refl _ f]
  have r: "length rs' = length rs"
    "\<forall>i < length rs. if group_key (rs ! i) \<in> fst ` set (group_positions rs)
       then \<exists>a. rs' ! i = (rs ! i)\<lparr>ro_advantage := Some a\<rparr> else rs' ! i = rs ! i"
    "\<forall>g \<in> set (group_positions rs). f (map ((!) rs) (snd g)) = Inr (map (\<lambda>i. the (ro_advantage (rs' ! i))) (snd g))"
    using group_positions_ok(2) by (simp_all add: case_prod_unfold)
  have all: "group_key (rs ! i) \<in> fst ` set (group_positions rs)" if "i < length rs" for i
    using group_positions_ok(3) [of "rs ! i" rs] that by simp
  then have each: "\<exists>a. rs' ! i = (rs ! i)\<lparr>ro_advantage := Some a\<rparr>" if "i < length rs" for i using r(2) that by simp
  then show "list_all2 (\<lambda>r r'. \<exists>a. r' = r\<lparr>ro_advantage := Some a\<rparr>) rs rs'" using r(1) by (simp add: list_all2_conv_all_nth)
  have key: "group_key (rs' ! i) = group_key (rs ! i)" if "i < length rs" for i
    using each [OF that] by (auto simp: group_key_def)
  then have "positions rs' k = positions rs k" unfolding positions_def using r(1) by (intro filter_cong) simp_all
  then have m: "map ((!) rs') (positions rs k) = filter (\<lambda>r. group_key r = k) rs'" using map_positions [of rs' k] by simp
  assume "k \<in> group_key ` set rs"
  then obtain g where g: "g \<in> set (group_positions rs)" "fst g = k" using group_positions_ok(3) by fastforce
  have "snd g = positions rs k" using group_positions_ok(2) [of k "snd g" rs] g by (cases g) simp
  then have "f (map ((!) rs) (positions rs k)) = Inr (map (\<lambda>i. the (ro_advantage (rs' ! i))) (positions rs k))" using r(3) g(1) by auto
  then have "f (filter (\<lambda>r. group_key r = k) rs) = Inr (map (the \<circ> ro_advantage) (map ((!) rs') (positions rs k)))"
    by (simp add: map_positions)
  then show "f (filter (\<lambda>r. group_key r = k) rs) = Inr (map (the \<circ> ro_advantage) (filter (\<lambda>r. group_key r = k) rs'))"
    by (simp only: m)
qed

text \<open>C19. Advantages are computed group by group: with a function that returns an advantage per rollout, each
  rollout keeps everything but its advantage, and the advantages of the rollouts of an example of an
  environment are, in order, those the function gives for exactly these rollouts, whatever else is in the batch.\<close>

theorem advantages_by_group:
  assumes "compute_advantages (Some f) rs = Inr rs'" and "\<And>g xs. f g = Inr xs \<Longrightarrow> length xs = length g"
  shows "list_all2 (\<lambda>r r'. \<exists>a. r' = r\<lparr>ro_advantage := Some a\<rparr>) rs rs'
    \<and> (\<forall>k. k \<in> group_key ` set rs \<longrightarrow>
          f (filter (\<lambda>r. group_key r = k) rs) = Inr (map (the \<circ> ro_advantage) (filter (\<lambda>r. group_key r = k) rs')))"
  using compute_advantages_groups [OF assms] by blast

text \<open>Three rollouts of two environments; the function gives each rollout the size of its group.\<close>

definition demo_advantage :: "rollout list \<Rightarrow> float64 list res" where
  "demo_advantage g = Inr (map (\<lambda>_. of_nat (length g)) g)"

definition demo_group :: "rollout list" where
  "demo_group = [demo_rollout ''a'' [([1], [2])], demo_rollout ''b'' [([1], [3])], demo_rollout ''a'' [([1], [4])]]"

lemma advantages_by_group_witness:
  "\<exists>rs'. compute_advantages (Some demo_advantage) demo_group = Inr rs' \<and> map ro_advantage rs' = [Some 2, Some 1, Some 2]
    \<and> demo_advantage (filter (\<lambda>r. group_key r = (''a'', 7)) demo_group)
      = Inr (map (the \<circ> ro_advantage) (filter (\<lambda>r. group_key r = (''a'', 7)) rs'))"
proof -
  have "case compute_advantages (Some demo_advantage) demo_group of
      Inr rs \<Rightarrow> map ro_advantage rs = [Some 2, Some 1, Some 2] | _ \<Rightarrow> False" by code_simp
  then obtain rs' where r: "compute_advantages (Some demo_advantage) demo_group = Inr rs'" "map ro_advantage rs' = [Some 2, Some 1, Some 2]"
    by (auto split: sum.split_asm)
  have k: "(''a'', 7) \<in> group_key ` set demo_group" by (simp add: demo_group_def group_key_def demo_rollout_def)
  have "length xs = length g" if "demo_advantage g = Inr xs" for g xs using that by (auto simp: demo_advantage_def)
  then have "demo_advantage (filter (\<lambda>r. group_key r = (''a'', 7)) demo_group)
      = Inr (map (the \<circ> ro_advantage) (filter (\<lambda>r. group_key r = (''a'', 7)) rs'))"
    using advantages_by_group [OF r(1)] k by blast
  with r show ?thesis by (intro exI [of _ rs'] conjI)
qed

end
