(* ===== verification/Buffer.thy ===== *)
theory Buffer
  imports Rollout "HOL-Library.Multiset"
begin

text \<open>
  The buffer of examples and rollouts of the orchestrator (\<open>orchestrator/buffer.py\<close>): every
  environment keeps its examples in three pools, of which only the normal one is sampled; completed rollouts move
  examples between the pools and wait for the next batch; a checkpoint keeps the easy and hard
  pools and the waiting rollouts. Random draws are inputs; the digest of an example, the rounding of a
  fraction and the quotient of two counts are the parameters \<open>buffer_ops\<close>. A checkpoint is the
  lists it writes: that JSON lines are read back as they were written is taken for granted.
\<close>

section \<open>Data\<close>

datatype row_json = JInt int | JString string | JText string

text \<open>An example is a row of a dataset: its identifier, its environment and its other columns.\<close>

record example =
  ex_id :: int
  ex_env :: string
  ex_columns :: "(string, row_json) dict"

datatype pool = Easy | Normal | Hard

record buffer_config =
  bc_easy_threshold :: "float64 option"
  bc_hard_threshold :: "float64 option"
  bc_easy_fraction :: float64
  bc_hard_fraction :: float64
  bc_online_difficulty_filtering :: bool
  bc_hash_keys :: "string list"

record buffer_ops =
  bo_float :: float_ops
  bo_digest :: "row_json list \<Rightarrow> string"
  bo_round_fraction :: "nat \<Rightarrow> float64 \<Rightarrow> int"
  bo_ratio :: "nat \<Rightarrow> nat \<Rightarrow> float64"

record env_buffer =
  eb_examples :: "(int, example) dict"
  eb_easy :: "example list"
  eb_hard :: "example list"
  eb_num_examples :: "pool \<Rightarrow> nat"
  eb_num_rollouts :: "pool \<Rightarrow> nat"

record buffer =
  bu_envs :: "(string, env_buffer) dict"
  bu_probs :: "(string, float64) dict"
  bu_rollouts :: "rollout list"

section \<open>The buffer of an environment\<close>

record dataset =
  ds_columns :: "string list"
  ds_ids :: "int list"
  ds_rows :: "(string, row_json) dict list"

definition new_env_buffer :: "string \<Rightarrow> dataset \<Rightarrow> env_buffer res" where
  "new_env_buffer name ds =
     (let ids = (if ''example_id'' \<in> set (ds_columns ds) then ds_ids ds else map int [0..<length (ds_rows ds)]) in
      bindR (ensure (ds_rows ds \<noteq> []) (AssertionError ''must contain at least one example'')) (\<lambda>_.
      bindR (ensure (''prompt'' \<in> set (ds_columns ds)) (AssertionError ''must contain a prompt column'')) (\<lambda>_.
      Inr \<lparr>eb_examples = foldl (\<lambda>d (i, row). dput i \<lparr>ex_id = i, ex_env = name, ex_columns = row\<rparr> d) [] (zip ids (ds_rows ds)),
           eb_easy = [], eb_hard = [], eb_num_examples = (\<lambda>_. 0), eb_num_rollouts = (\<lambda>_. 0)\<rparr>)))"

definition num_normal :: "env_buffer \<Rightarrow> nat" where
  "num_normal eb = length (eb_examples eb)"

definition num_total :: "env_buffer \<Rightarrow> nat" where
  "num_total eb = num_normal eb + length (eb_easy eb) + length (eb_hard eb)"

text \<open>\<open>random.choice\<close> draws a number and takes it modulo the length.\<close>

definition random_choice :: "nat \<Rightarrow> 'a list \<Rightarrow> 'a res" where
  "random_choice n xs =
     (if xs = [] then Inl (IndexError ''Cannot choose from an empty sequence'') else Inr (xs ! (n mod length xs)))"

definition sample_example :: "nat \<Rightarrow> env_buffer \<Rightarrow> example res" where
  "sample_example n eb = bindR (random_choice n (eb_examples eb)) (\<lambda>(_, x). Inr x)"

definition example_column :: "example \<Rightarrow> string \<Rightarrow> row_json option" where
  "example_column x key =
     (if key = ''example_id'' then Some (JInt (ex_id x))
      else if key = ''env_name'' then Some (JString (ex_env x)) else dget (ex_columns x) key)"

definition get_example_hash :: "buffer_ops \<Rightarrow> buffer_config \<Rightarrow> example \<Rightarrow> string res" where
  "get_example_hash ops c x =
     (let values = List.map_filter (example_column x) (bc_hash_keys c) in
      bindR (ensure (values \<noteq> []) (AssertionError ''No hashable keys found in example.'')) (\<lambda>_.
      Inr (bo_digest ops values)))"

definition pool_of :: "float_ops \<Rightarrow> buffer_config \<Rightarrow> float64 \<Rightarrow> pool" where
  "pool_of F c avg_reward =
     (if (case bc_easy_threshold c of None \<Rightarrow> False | Some t \<Rightarrow> fl_le F t avg_reward) then Easy
      else if (case bc_hard_threshold c of None \<Rightarrow> False | Some t \<Rightarrow> fl_le F avg_reward t) then Hard
      else Normal)"

definition add_to_pool :: "pool \<Rightarrow> example \<Rightarrow> env_buffer \<Rightarrow> env_buffer" where
  "add_to_pool p x eb = (if p = Easy then eb\<lparr>eb_easy := eb_easy eb @ [x]\<rparr> else eb\<lparr>eb_hard := eb_hard eb @ [x]\<rparr>)"

definition update_pools :: "float_ops \<Rightarrow> buffer_config \<Rightarrow> int \<Rightarrow> float64 \<Rightarrow> env_buffer \<Rightarrow> env_buffer" where
  "update_pools F c example_id avg_reward eb =
     (let p = pool_of F c avg_reward;
          moved = (case dget (eb_examples eb) example_id of
             Some x \<Rightarrow> if p = Normal then eb else add_to_pool p x (eb\<lparr>eb_examples := dpop example_id (eb_examples eb)\<rparr>)
           | None \<Rightarrow> eb)
      in moved\<lparr>eb_num_examples := (eb_num_examples moved)(p := eb_num_examples moved p + 1)\<rparr>)"

definition reset_step_metrics :: "env_buffer \<Rightarrow> env_buffer" where
  "reset_step_metrics eb = eb\<lparr>eb_num_examples := (\<lambda>_. 0), eb_num_rollouts := (\<lambda>_. 0)\<rparr>"

section \<open>The buffer\<close>

definition mean_normalize :: "buffer_ops \<Rightarrow> nat list \<Rightarrow> float64 list" where
  "mean_normalize ops values = map (\<lambda>v. if sum_list values > 0 then bo_ratio ops v (sum_list values) else f_zero) values"

text \<open>\<open>ratios\<close> are the probabilities the configured ratios give, if any is configured.\<close>

definition new_buffer :: "buffer_ops \<Rightarrow> float64 list option \<Rightarrow> (string \<times> dataset) list \<Rightarrow> buffer res" where
  "new_buffer ops ratios datasets =
     bindR (foldR (\<lambda>d (name, ds). bindR (new_env_buffer name ds) (\<lambda>eb. Inr (dput name eb d))) [] datasets) (\<lambda>envs.
     let names = map fst datasets;
         env_ratio = (case ratios of
            Some rs \<Rightarrow> rs
          | None \<Rightarrow> mean_normalize ops (map (\<lambda>n. case dget envs n of None \<Rightarrow> 0 | Some eb \<Rightarrow> num_normal eb) names))
     in Inr \<lparr>bu_envs = envs, bu_probs = foldl (\<lambda>d (n, p). dput n p d) [] (zip names env_ratio), bu_rollouts = []\<rparr>)"

text \<open>A draw of \<open>random.choices\<close> is the environment it gives, which is one with examples.\<close>

definition sample_examples :: "float_ops \<Rightarrow> (nat \<times> nat) list \<Rightarrow> buffer \<Rightarrow> example list res" where
  "sample_examples F draws b =
     (let non_empty = filter (\<lambda>(_, eb). eb_examples eb \<noteq> []) (bu_envs b) in
      bindR (ensure (non_empty \<noteq> []) (ValueError ''No environments left with examples.'')) (\<lambda>_.
      bindR (mapR (\<lambda>(name, _). case dget (bu_probs b) name of None \<Rightarrow> Inl (KeyError name) | Some w \<Rightarrow> Inr w) non_empty) (\<lambda>weights.
      bindR (ensure (fl_lt F f_zero (fl_sum F weights)) (ValueError ''Total of weights must be greater than zero'')) (\<lambda>_.
      mapR (\<lambda>(i, j). bindR (random_choice i non_empty) (\<lambda>(_, eb). sample_example j eb)) draws))))"

definition add_rollouts :: "pool \<Rightarrow> nat \<Rightarrow> env_buffer \<Rightarrow> env_buffer" where
  "add_rollouts p n eb = eb\<lparr>eb_num_rollouts := (eb_num_rollouts eb)(p := eb_num_rollouts eb p + n)\<rparr>"

definition update_example :: "float_ops \<Rightarrow> buffer_config \<Rightarrow> buffer \<Rightarrow> group_key \<times> rollout list \<Rightarrow> buffer res" where
  "update_example F c b g =
     (let (env_name, example_id) = fst g; rs = snd g; avg_reward = mean F (map ro_reward rs); n = length rs in
      case dget (bu_envs b) env_name of
        None \<Rightarrow> Inl (KeyError env_name)
      | Some eb0 \<Rightarrow>
          let eb = update_pools F c example_id avg_reward eb0;
              put = (\<lambda>p. bu_envs_update (dput env_name (add_rollouts p n eb)) b)
          in if bc_online_difficulty_filtering c \<and> fl_eq F avg_reward f_zero then Inr (put Hard)
             else if bc_online_difficulty_filtering c \<and> fl_eq F avg_reward f_one then Inr (put Easy)
             else Inr ((put Normal)\<lparr>bu_rollouts := bu_rollouts b @ rs\<rparr>))"

definition update_buffer :: "float_ops \<Rightarrow> buffer_config \<Rightarrow> rollout list \<Rightarrow> buffer \<Rightarrow> buffer res" where
  "update_buffer F c rs b = foldR (update_example F c) b (group_rollouts rs)"

text \<open>The slice \<open>[-0:]\<close> is the whole list.\<close>

definition sample_rollouts :: "nat \<Rightarrow> buffer \<Rightarrow> rollout list \<times> buffer" where
  "sample_rollouts n b =
     (let xs = bu_rollouts b; n = min n (length xs) in
      if n = 0 then (xs, b\<lparr>bu_rollouts := []\<rparr>)
      else (drop (length xs - n) xs, b\<lparr>bu_rollouts := take (length xs - n) xs\<rparr>))"

section \<open>Checkpoints\<close>

record buffer_file =
  bf_easy :: "example list"
  bf_hard :: "example list"
  bf_rollouts :: "rollout list"

definition save_buffer :: "buffer \<Rightarrow> buffer_file" where
  "save_buffer b = \<lparr>bf_easy = concat (map (eb_easy \<circ> snd) (bu_envs b)),
                    bf_hard = concat (map (eb_hard \<circ> snd) (bu_envs b)), bf_rollouts = bu_rollouts b\<rparr>"

type_synonym hash_lookup = "(string \<times> (string, int) dict) list"

text \<open>An environment without examples has no entry; a duplicate hash is overwritten.\<close>

definition build_hash_lookup :: "buffer_ops \<Rightarrow> buffer_config \<Rightarrow> (string, env_buffer) dict \<Rightarrow> hash_lookup res" where
  "build_hash_lookup ops c envs =
     mapR (\<lambda>(name, eb). bindR (foldR (\<lambda>d (i, x). bindR (get_example_hash ops c x) (\<lambda>h. Inr (dput h i d))) [] (eb_examples eb))
                           (\<lambda>hashes. Inr (name, hashes)))
       (filter (\<lambda>(_, eb). eb_examples eb \<noteq> []) envs)"

fun move_saved_example :: "pool \<Rightarrow> string \<Rightarrow> hash_lookup \<Rightarrow> (string, env_buffer) dict \<Rightarrow> (string, env_buffer) dict res" where
  "move_saved_example p h [] envs = Inr envs"
| "move_saved_example p h ((name, hashes) # rest) envs =
     (case dget hashes h of
        None \<Rightarrow> move_saved_example p h rest envs
      | Some example_id \<Rightarrow>
          (case dget envs name of
             None \<Rightarrow> Inl (KeyError name)
           | Some eb \<Rightarrow>
               (case dget (eb_examples eb) example_id of
                  None \<Rightarrow> move_saved_example p h rest envs
                | Some x \<Rightarrow> Inr (dput name (add_to_pool p x (eb\<lparr>eb_examples := dpop example_id (eb_examples eb)\<rparr>)) envs))))"

definition move_saved_pool ::
  "buffer_ops \<Rightarrow> buffer_config \<Rightarrow> hash_lookup \<Rightarrow> pool \<Rightarrow> example list \<Rightarrow> (string, env_buffer) dict \<Rightarrow> (string, env_buffer) dict res" where
  "move_saved_pool ops c lookup p xs envs =
     foldR (\<lambda>envs x. bindR (ensure (envs \<noteq> []) (RuntimeError ''StopIteration'')) (\<lambda>_.
                     bindR (get_example_hash ops c x) (\<lambda>h. move_saved_example p h lookup envs))) envs xs"

fun convert_loop :: "(nat \<Rightarrow> nat) \<Rightarrow> nat \<Rightarrow> example list \<Rightarrow> (int, example) dict \<Rightarrow> (example list \<times> (int, example) dict) res" where
  "convert_loop draws 0 xs exs = Inr (xs, exs)"
| "convert_loop draws (Suc n) xs exs =
     bindR (random_choice (draws n) xs) (\<lambda>x. convert_loop draws n (remove1 x xs) (dput (ex_id x) x exs))"

definition convert_to_normal ::
  "buffer_ops \<Rightarrow> (nat \<Rightarrow> nat) \<Rightarrow> example list \<Rightarrow> float64 \<Rightarrow> (int, example) dict \<Rightarrow> (example list \<times> (int, example) dict) res" where
  "convert_to_normal ops draws xs fraction exs =
     (if fl_le (bo_float ops) fraction f_zero \<or> xs = [] then Inr (xs, exs)
      else let num_to_move = bo_round_fraction ops (length xs) fraction in
        if num_to_move \<le> 0 then Inr (xs, exs) else convert_loop draws (nat num_to_move) xs exs)"

definition convert_pools :: "buffer_ops \<Rightarrow> buffer_config \<Rightarrow> (pool \<Rightarrow> nat \<Rightarrow> nat) \<Rightarrow> env_buffer \<Rightarrow> env_buffer res" where
  "convert_pools ops c draws eb =
     bindR (convert_to_normal ops (draws Easy) (eb_easy eb) (bc_easy_fraction c) (eb_examples eb)) (\<lambda>(easy, exs).
     bindR (convert_to_normal ops (draws Hard) (eb_hard eb) (bc_hard_fraction c) exs) (\<lambda>(hard, exs).
     Inr (eb\<lparr>eb_easy := easy, eb_hard := hard, eb_examples := exs\<rparr>)))"

definition load_buffer :: "buffer_ops \<Rightarrow> buffer_config \<Rightarrow> (string \<Rightarrow> pool \<Rightarrow> nat \<Rightarrow> nat) \<Rightarrow> buffer_file \<Rightarrow> buffer \<Rightarrow> buffer res" where
  "load_buffer ops c draws f b =
     (if bf_easy f = [] \<and> bf_hard f = [] \<and> bf_rollouts f = [] then Inr b
      else
        bindR (build_hash_lookup ops c (bu_envs b)) (\<lambda>lookup.
        bindR (move_saved_pool ops c lookup Easy (bf_easy f) (bu_envs b)) (\<lambda>envs1.
        bindR (move_saved_pool ops c lookup Hard (bf_hard f) envs1) (\<lambda>envs2.
        bindR (mapR (\<lambda>(name, eb). bindR (convert_pools ops c (draws name) eb) (\<lambda>eb. Inr (name, eb))) envs2) (\<lambda>envs3.
        Inr (b\<lparr>bu_envs := envs3,
               bu_rollouts := bu_rollouts b @ filter (\<lambda>r. ro_env_name r \<in> set (dkeys envs3)) (bf_rollouts f)\<rparr>))))))"

section \<open>Metrics\<close>

definition pool_name :: "pool \<Rightarrow> string" where
  "pool_name p = (case p of Easy \<Rightarrow> ''easy'' | Normal \<Rightarrow> ''normal'' | Hard \<Rightarrow> ''hard'')"

definition pool_metrics :: "buffer_ops \<Rightarrow> string \<Rightarrow> (pool \<Rightarrow> nat) \<Rightarrow> (pool \<Rightarrow> nat) \<Rightarrow> nat list \<Rightarrow> (string, float64) dict" where
  "pool_metrics ops name examples rollouts counts =
     (let num = (\<lambda>f. f Easy + f Normal + f Hard);
          per_pool = concat (map (\<lambda>p.
             (if num examples > 0 then [(''evicted_examples/'' @ name @ pool_name p, bo_ratio ops (examples p) (num examples))] else [])
           @ (if num rollouts > 0 then [(''filtered_rollouts/'' @ name @ pool_name p, bo_ratio ops (rollouts p) (num rollouts))] else []))
             [Easy, Hard])
      in per_pool @ map2 (\<lambda>p r. (''pool/'' @ name @ pool_name p, r)) [Easy, Normal, Hard] (mean_normalize ops counts))"

definition env_buffer_metrics :: "buffer_ops \<Rightarrow> string \<Rightarrow> env_buffer \<Rightarrow> (string, float64) dict" where
  "env_buffer_metrics ops name eb =
     pool_metrics ops (name @ ''/'') (eb_num_examples eb) (eb_num_rollouts eb)
       [length (eb_easy eb), num_normal eb, length (eb_hard eb)]"

definition buffer_metrics :: "buffer_ops \<Rightarrow> buffer \<Rightarrow> (string, float64) dict \<times> buffer" where
  "buffer_metrics ops b =
     (let ebs = map snd (bu_envs b); sum_of = (\<lambda>f. sum_list (map f ebs)) in
      (foldl (\<lambda>d (k, v). dput k v d)
         (pool_metrics ops [] (\<lambda>p. sum_of (\<lambda>eb. eb_num_examples eb p)) (\<lambda>p. sum_of (\<lambda>eb. eb_num_rollouts eb p))
            [sum_of (length \<circ> eb_easy), sum_of num_normal, sum_of (length \<circ> eb_hard)])
         (concat (map (\<lambda>(name, eb). env_buffer_metrics ops name eb) (bu_envs b))),
       b\<lparr>bu_envs := map (\<lambda>(name, eb). (name, reset_step_metrics eb)) (bu_envs b)\<rparr>))"

end
