(* ===== verification/BufferProofs.thy ===== *)
theory BufferProofs
  imports Buffer
begin

text \<open>
  What the buffer of the orchestrator keeps: operations move examples between the pools of their own
  environment and neither lose nor duplicate one, and a checkpoint restores the pools of a fresh buffer.
\<close>

section \<open>Examples are conserved\<close>

definition pool_examples :: "env_buffer \<Rightarrow> example list" where
  "pool_examples eb = map snd (eb_examples eb) @ eb_easy eb @ eb_hard eb"

definition keyed_by_id :: "(int, example) dict \<Rightarrow> bool" where
  "keyed_by_id d \<longleftrightarrow> (\<forall>p \<in> set d. ex_id (snd p) = fst p)"

definition env_ok :: "string \<Rightarrow> env_buffer \<Rightarrow> bool" where
  "env_ok name eb \<longleftrightarrow> keyed_by_id (eb_examples eb) \<and> (\<forall>x \<in> set (pool_examples eb). ex_env x = name)
     \<and> distinct (map ex_id (pool_examples eb))"

definition buffer_ok :: "buffer \<Rightarrow> bool" where
  "buffer_ok b \<longleftrightarrow> distinct (dkeys (bu_envs b)) \<and> (\<forall>p \<in> set (bu_envs b). env_ok (fst p) (snd p))"

definition env_kept :: "string \<Rightarrow> env_buffer \<Rightarrow> env_buffer \<Rightarrow> bool" where
  "env_kept name eb eb' \<longleftrightarrow> env_ok name eb' \<and> mset (pool_examples eb') = mset (pool_examples eb)"

lemma keyed_dpop [simp]: "keyed_by_id d \<Longrightarrow> keyed_by_id (dpop i d)"
  by (auto simp: keyed_by_id_def dpop_def)

lemma keyed_dput: "keyed_by_id d \<Longrightarrow> ex_id x = i \<Longrightarrow> keyed_by_id (dput i x d)"
  by (induction i x d rule: dput.induct) (auto simp: keyed_by_id_def)

lemma keyed_keys: "keyed_by_id d \<Longrightarrow> map fst d = map ex_id (map snd d)"
  by (auto simp: keyed_by_id_def)

lemma env_ok_mset:
  "env_ok name eb \<Longrightarrow> mset (pool_examples eb') = mset (pool_examples eb) \<Longrightarrow> keyed_by_id (eb_examples eb') \<Longrightarrow>
   env_kept name eb eb'"
  unfolding env_kept_def env_ok_def
  by (metis mset_map set_mset_mset distinct_count_atmost_1 mset_eq_imp_distinct_iff)

lemma mset_dpop: "distinct (dkeys d) \<Longrightarrow> dget d i = Some x \<Longrightarrow> add_mset x (mset (map snd (dpop i d))) = mset (map snd d)"
proof (induction d)
  case (Cons p d)
  then show ?case
  proof (cases "fst p = i")
    case True
    then have "i \<notin> fst ` set d" using Cons.prems(1) by auto
    then have "dpop i d = d" unfolding dpop_def by (intro filter_True) auto
    then show ?thesis using Cons True by (auto simp: dpop_def)
  qed (auto simp: dpop_def)
qed simp

lemma add_to_pool_fields [simp]: "eb_examples (add_to_pool p x eb) = eb_examples eb"
  by (simp add: add_to_pool_def)

lemma pool_examples_add: "mset (pool_examples (add_to_pool p x eb)) = add_mset x (mset (pool_examples eb))"
  by (simp add: add_to_pool_def pool_examples_def)

lemma env_ok_keys: "env_ok name eb \<Longrightarrow> distinct (dkeys (eb_examples eb))"
  by (simp add: env_ok_def keyed_keys pool_examples_def del: map_map)

lemma move_to_pool_kept:
  assumes "env_ok name eb" "dget (eb_examples eb) i = Some x"
  shows "env_kept name eb (add_to_pool p x (eb\<lparr>eb_examples := dpop i (eb_examples eb)\<rparr>))"
  using assms(1)
proof (rule env_ok_mset)
  show "mset (pool_examples (add_to_pool p x (eb\<lparr>eb_examples := dpop i (eb_examples eb)\<rparr>))) = mset (pool_examples eb)"
    using mset_dpop [OF env_ok_keys [OF assms(1)] assms(2)]
    by (simp add: pool_examples_add) (simp add: pool_examples_def)
  show "keyed_by_id (eb_examples (add_to_pool p x (eb\<lparr>eb_examples := dpop i (eb_examples eb)\<rparr>)))"
    using assms(1) by (simp add: env_ok_def)
qed

lemma env_kept_refl [simp]: "env_kept name eb eb \<longleftrightarrow> env_ok name eb"
  by (simp add: env_kept_def)

lemma env_kept_trans: "env_kept name a b \<Longrightarrow> env_kept name b c \<Longrightarrow> env_kept name a c"
  by (simp add: env_kept_def)

lemma env_kept_counts [simp]:
  "env_kept name eb (e\<lparr>eb_num_examples := f\<rparr>) = env_kept name eb e"
  "env_kept name eb (e\<lparr>eb_num_rollouts := f\<rparr>) = env_kept name eb e"
  by (simp_all add: env_kept_def env_ok_def pool_examples_def)

lemma update_pools_kept: "env_ok name eb \<Longrightarrow> env_kept name eb (update_pools F c i r eb)"
  by (auto simp: update_pools_def Let_def move_to_pool_kept split: option.split)

lemma convert_loop_kept:
  "convert_loop draws n xs exs = Inr (xs', exs') \<Longrightarrow> keyed_by_id exs \<Longrightarrow>
   distinct (map ex_id (map snd exs @ xs)) \<Longrightarrow>
   keyed_by_id exs' \<and> mset (map snd exs' @ xs') = mset (map snd exs @ xs)"
proof (induction draws n xs exs rule: convert_loop.induct)
  case (2 draws n xs exs)
  from 2(2) have ne: "xs \<noteq> []" by (auto simp: random_choice_def split: if_splits)
  define x where "x = xs ! (draws n mod length xs)"
  have x: "x \<in> set xs" using ne by (simp add: x_def)
  have r: "convert_loop draws n (remove1 x xs) (dput (ex_id x) x exs) = Inr (xs', exs')"
    using 2(2) ne by (simp add: random_choice_def x_def)
  have "ex_id x \<notin> fst ` set exs"
    using 2(3,4) x by (auto simp: keyed_by_id_def)
  then have d: "dput (ex_id x) x exs = exs @ [(ex_id x, x)]" by (rule dput_append)
  have m: "mset (map snd (exs @ [(ex_id x, x)]) @ remove1 x xs) = mset (map snd exs @ xs)"
    using x by simp
  have dist: "distinct (map ex_id (map snd (exs @ [(ex_id x, x)]) @ remove1 x xs))"
    using mset_eq_imp_distinct_iff [OF arg_cong [OF m, of "image_mset ex_id", folded mset_map]] 2(4) by blast
  have k: "keyed_by_id (exs @ [(ex_id x, x)])" using 2(3) by (auto simp: keyed_by_id_def)
  have "random_choice (draws n) xs = Inr x" using ne by (simp add: random_choice_def x_def)
  from 2(1) [OF this r] have "keyed_by_id exs' \<and> mset (map snd exs' @ xs') = mset (map snd (exs @ [(ex_id x, x)]) @ remove1 x xs)"
    using k dist unfolding d by blast
  then show ?case using m by simp
qed simp

lemma convert_to_normal_kept:
  "convert_to_normal ops draws xs fraction exs = Inr (xs', exs') \<Longrightarrow> keyed_by_id exs \<Longrightarrow>
   distinct (map ex_id (map snd exs @ xs)) \<Longrightarrow>
   keyed_by_id exs' \<and> mset (map snd exs' @ xs') = mset (map snd exs @ xs)"
  by (auto simp: convert_to_normal_def Let_def split: if_splits dest!: convert_loop_kept)

lemma convert_pools_kept:
  assumes ok: "env_ok name eb" and c: "convert_pools ops c draws eb = Inr eb'"
  shows "env_kept name eb eb'"
proof -
  obtain easy exs1 hard exs2 where
    1: "convert_to_normal ops (draws Easy) (eb_easy eb) (bc_easy_fraction c) (eb_examples eb) = Inr (easy, exs1)" and
    2: "convert_to_normal ops (draws Hard) (eb_hard eb) (bc_hard_fraction c) exs1 = Inr (hard, exs2)" and
    eb': "eb' = eb\<lparr>eb_easy := easy, eb_hard := hard, eb_examples := exs2\<rparr>"
    using c by (auto simp: convert_pools_def res_simps)
  have k0: "keyed_by_id (eb_examples eb)" and d0: "distinct (map ex_id (map snd (eb_examples eb) @ eb_easy eb))"
    using ok by (auto simp: env_ok_def pool_examples_def)
  note a = conjunct1 [OF convert_to_normal_kept [OF 1 k0 d0]] conjunct2 [OF convert_to_normal_kept [OF 1 k0 d0]]
  have m: "mset (map snd exs1 @ easy @ eb_hard eb) = mset (pool_examples eb)"
    using a(2) by (simp add: pool_examples_def)
  have "distinct (map ex_id (map snd exs1 @ easy @ eb_hard eb))"
    using mset_eq_imp_distinct_iff [OF arg_cong [OF m, of "image_mset ex_id", folded mset_map]] ok
    by (simp add: env_ok_def)
  then have "distinct (map ex_id (map snd exs1 @ eb_hard eb))" by auto
  from convert_to_normal_kept [OF 2 a(1) this]
  have b: "keyed_by_id exs2" "mset (map snd exs2 @ hard) = mset (map snd exs1 @ eb_hard eb)" by auto
  have "mset (pool_examples eb') = mset (map snd exs2 @ hard) + mset easy" by (simp add: eb' pool_examples_def)
  also have "\<dots> = mset (map snd exs1 @ easy @ eb_hard eb)" unfolding b(2) by simp
  also note m
  finally show ?thesis by (rule env_ok_mset [OF ok]) (simp add: eb' b(1))
qed

text \<open>The environments of a buffer, each changed in a way that keeps its examples.\<close>

definition envs_kept :: "(string, env_buffer) dict \<Rightarrow> (string, env_buffer) dict \<Rightarrow> bool" where
  "envs_kept d d' \<longleftrightarrow> list_all2 (\<lambda>p q. fst q = fst p \<and> env_kept (fst p) (snd p) (snd q)) d d'"

definition envs_ok :: "(string, env_buffer) dict \<Rightarrow> bool" where
  "envs_ok d \<longleftrightarrow> distinct (dkeys d) \<and> (\<forall>p \<in> set d. env_ok (fst p) (snd p))"

lemma envs_kept_dkeys: "envs_kept d d' \<Longrightarrow> dkeys d' = dkeys d"
  unfolding envs_kept_def by (induction rule: list_all2_induct) auto

lemma envs_kept_refl: "envs_ok d \<Longrightarrow> envs_kept d d"
  by (auto simp: envs_kept_def envs_ok_def list_all2_same)

lemma envs_kept_trans: "envs_kept a b \<Longrightarrow> envs_kept b c \<Longrightarrow> envs_kept a c"
  unfolding envs_kept_def
  by (erule (1) list_all2_trans [rotated]) (auto intro: env_kept_trans)

lemma envs_kept_ok: "envs_kept d d' \<Longrightarrow> distinct (dkeys d) \<Longrightarrow> envs_ok d'"
proof -
  assume a: "envs_kept d d'" "distinct (dkeys d)"
  from a(1) have "\<forall>p \<in> set d'. env_ok (fst p) (snd p)"
    unfolding envs_kept_def by (induction rule: list_all2_induct) (auto simp: env_kept_def)
  then show "envs_ok d'" using envs_kept_dkeys [OF a(1)] a(2) by (simp add: envs_ok_def)
qed

lemma envs_kept_dput:
  assumes "envs_ok d" "dget d name = Some eb" "env_kept name eb eb'"
  shows "envs_kept d (dput name eb' d)"
  using assms
proof (induction d)
  case (Cons p d)
  obtain n e where p: "p = (n, e)" by force
  have ok: "envs_ok d" "env_ok n e" using Cons.prems(1) by (auto simp: envs_ok_def p)
  show ?case
  proof (cases "n = name")
    case True
    then show ?thesis using Cons.prems envs_kept_refl [OF ok(1)] by (simp add: p envs_kept_def)
  next
    case False
    then show ?thesis using Cons.IH [OF ok(1)] Cons.prems ok by (simp add: p envs_kept_def)
  qed
qed simp

lemma envs_ok_get: "envs_ok d \<Longrightarrow> dget d name = Some eb \<Longrightarrow> env_ok name eb"
  by (auto simp: envs_ok_def dest: map_of_SomeD)

definition examples_of :: "buffer \<Rightarrow> string \<Rightarrow> example multiset" where
  "examples_of b name = (case dget (bu_envs b) name of None \<Rightarrow> {#} | Some eb \<Rightarrow> mset (pool_examples eb))"

lemma envs_kept_examples:
  "envs_kept d d' \<Longrightarrow> rel_option (\<lambda>eb eb'. env_kept name eb eb') (dget d name) (dget d' name)"
  unfolding envs_kept_def
proof (induction rule: list_all2_induct)
  case (Cons p ps q qs)
  then show ?case by (cases p; cases q) auto
qed simp

lemma update_example_kept:
  assumes "envs_ok (bu_envs b)" "update_example F c b g = Inr b'"
  shows "envs_kept (bu_envs b) (bu_envs b')"
proof -
  obtain eb where eb: "dget (bu_envs b) (fst (fst g)) = Some eb"
    using assms(2) by (cases "dget (bu_envs b) (fst (fst g))") (auto simp: update_example_def Let_def split: prod.splits)
  obtain p where "bu_envs b' = dput (fst (fst g)) (add_rollouts p (length (snd g))
      (update_pools F c (snd (fst g)) (mean F (map ro_reward (snd g))) eb)) (bu_envs b)"
    using assms(2) eb by (auto simp: update_example_def Let_def split: if_splits prod.splits)
  then show ?thesis
    using envs_kept_dput [OF assms(1) eb] update_pools_kept [OF envs_ok_get [OF assms(1) eb]]
    by (simp add: add_rollouts_def)
qed

lemma foldR_kept:
  assumes "foldR f s xs = Inr s'" "envs_ok (g s)"
    and "\<And>s x s'. envs_ok (g s) \<Longrightarrow> f s x = Inr s' \<Longrightarrow> envs_kept (g s) (g s')"
  shows "envs_kept (g s) (g s')"
proof -
  have "envs_kept (g s) (g s') \<and> envs_ok (g s')"
  proof (rule foldR_invariant [OF assms(1), of "\<lambda>t. envs_kept (g s) (g t) \<and> envs_ok (g t)"])
    show "envs_kept (g s) (g s) \<and> envs_ok (g s)" using assms(2) envs_kept_refl by blast
    fix t x t' assume t: "envs_kept (g s) (g t) \<and> envs_ok (g t)" and "f t x = Inr t'"
    then have "envs_kept (g t) (g t')" using assms(3) by blast
    then show "envs_kept (g s) (g t') \<and> envs_ok (g t')"
      using t envs_kept_trans envs_kept_ok by (auto simp: envs_ok_def)
  qed
  then show ?thesis ..
qed

lemma update_buffer_kept:
  "envs_ok (bu_envs b) \<Longrightarrow> update_buffer F c rs b = Inr b' \<Longrightarrow> envs_kept (bu_envs b) (bu_envs b')"
  unfolding update_buffer_def by (erule foldR_kept) (auto intro: update_example_kept)

lemma move_saved_example_kept:
  "envs_ok envs \<Longrightarrow> move_saved_example p h lookup envs = Inr envs' \<Longrightarrow> envs_kept envs envs'"
proof (induction p h lookup envs rule: move_saved_example.induct)
  case (2 p h name hashes rest envs)
  then show ?case
    by (auto split: option.splits intro!: envs_kept_dput move_to_pool_kept dest: envs_ok_get)
qed (auto intro: envs_kept_refl)

lemma move_saved_pool_kept:
  "envs_ok envs \<Longrightarrow> move_saved_pool ops c lookup p xs envs = Inr envs' \<Longrightarrow> envs_kept envs envs'"
  unfolding move_saved_pool_def
  by (erule foldR_kept [where g = "\<lambda>x. x"]) (auto simp: res_simps intro: move_saved_example_kept)

lemma convert_all_kept:
  "envs_ok envs \<Longrightarrow> mapR (\<lambda>(name, eb). bindR (convert_pools ops c (draws name) eb) (\<lambda>eb. Inr (name, eb))) envs = Inr envs' \<Longrightarrow>
   envs_kept envs envs'"
proof -
  assume ok: "envs_ok envs"
    and r: "mapR (\<lambda>(name, eb). bindR (convert_pools ops c (draws name) eb) (\<lambda>eb. Inr (name, eb))) envs = Inr envs'"
  from r have "list_all2 (\<lambda>p q. fst q = fst p \<and> convert_pools ops c (draws (fst p)) (snd p) = Inr (snd q)) envs envs'"
    unfolding mapR_Inr_iff by (rule list_all2_mono) (auto simp: res_simps)
  then show "envs_kept envs envs'"
    unfolding envs_kept_def
    by (rule list.rel_mono_strong) (use ok in \<open>auto simp: envs_ok_def intro: convert_pools_kept\<close>)
qed

lemma load_buffer_kept:
  assumes "envs_ok (bu_envs b)" "load_buffer ops c draws f b = Inr b'"
  shows "envs_kept (bu_envs b) (bu_envs b')"
proof (cases "bf_easy f = [] \<and> bf_hard f = [] \<and> bf_rollouts f = []")
  case True
  then show ?thesis using assms by (simp add: load_buffer_def envs_kept_refl)
next
  case False
  obtain lookup e1 e2 e3 where e: "move_saved_pool ops c lookup Easy (bf_easy f) (bu_envs b) = Inr e1"
    "move_saved_pool ops c lookup Hard (bf_hard f) e1 = Inr e2"
    "mapR (\<lambda>(name, eb). bindR (convert_pools ops c (draws name) eb) (\<lambda>eb. Inr (name, eb))) e2 = Inr e3"
    "bu_envs b' = e3"
    using assms(2) unfolding load_buffer_def if_not_P [OF False] by (auto simp: res_simps)
  note k1 = move_saved_pool_kept [OF assms(1) e(1)]
  note o1 = envs_kept_ok [OF k1 conjunct1 [OF assms(1) [unfolded envs_ok_def]]]
  note k2 = move_saved_pool_kept [OF o1 e(2)]
  note o2 = envs_kept_ok [OF k2 conjunct1 [OF o1 [unfolded envs_ok_def]]]
  show ?thesis unfolding e(4) by (rule envs_kept_trans [OF envs_kept_trans [OF k1 k2] convert_all_kept [OF o2 e(3)]])
qed

subsection \<open>Runs of the buffer\<close>

inductive buffer_step :: "buffer_ops \<Rightarrow> buffer_config \<Rightarrow> buffer \<Rightarrow> buffer \<Rightarrow> bool"
  for ops :: buffer_ops and c :: buffer_config where
  update: "update_buffer (bo_float ops) c rs b = Inr b' \<Longrightarrow> buffer_step ops c b b'"
| sample: "snd (sample_rollouts n b) = b' \<Longrightarrow> buffer_step ops c b b'"
| load: "load_buffer ops c draws f b = Inr b' \<Longrightarrow> buffer_step ops c b b'"
| metrics: "snd (buffer_metrics ops b) = b' \<Longrightarrow> buffer_step ops c b b'"

inductive_cases buffer_stepE: "buffer_step ops c b b'"

lemma sample_rollouts_envs [simp]: "bu_envs (snd (sample_rollouts n b)) = bu_envs b"
  by (simp add: sample_rollouts_def Let_def)

lemma buffer_metrics_kept: "envs_ok (bu_envs b) \<Longrightarrow> envs_kept (bu_envs b) (bu_envs (snd (buffer_metrics ops b)))"
  by (auto simp: buffer_metrics_def Let_def envs_kept_def list_all2_map2 list_all2_same envs_ok_def reset_step_metrics_def)

lemma buffer_step_kept: "buffer_step ops c b b' \<Longrightarrow> envs_ok (bu_envs b) \<Longrightarrow> envs_kept (bu_envs b) (bu_envs b')"
  by (erule buffer_stepE)
    (auto intro: update_buffer_kept load_buffer_kept buffer_metrics_kept envs_kept_refl)

lemma buffer_steps_kept:
  "(buffer_step ops c)\<^sup>*\<^sup>* b b' \<Longrightarrow> envs_ok (bu_envs b) \<Longrightarrow> envs_kept (bu_envs b) (bu_envs b') \<and> envs_ok (bu_envs b')"
proof (induction rule: rtranclp_induct)
  case base
  then show ?case by (simp add: envs_kept_refl)
next
  case (step y z)
  then have "envs_kept (bu_envs y) (bu_envs z)" by (simp add: buffer_step_kept)
  with step show ?case using envs_kept_trans envs_kept_ok by (auto simp: envs_ok_def)
qed

lemma new_examples:
  "\<forall>p \<in> set d. ex_id (snd p) = fst p \<and> ex_env (snd p) = name \<Longrightarrow> distinct (dkeys d) \<Longrightarrow>
   (\<forall>p \<in> set (foldl (\<lambda>d (i, row). dput i \<lparr>ex_id = i, ex_env = name, ex_columns = row\<rparr> d) d rows).
      ex_id (snd p) = fst p \<and> ex_env (snd p) = name) \<and>
   distinct (dkeys (foldl (\<lambda>d (i, row). dput i \<lparr>ex_id = i, ex_env = name, ex_columns = row\<rparr> d) d rows))"
proof (induction rows arbitrary: d)
  case (Cons r rows)
  obtain i row where r: "r = (i, row)" by force
  have "\<forall>p \<in> set (dput i \<lparr>ex_id = i, ex_env = name, ex_columns = row\<rparr> d). ex_id (snd p) = fst p \<and> ex_env (snd p) = name"
    by (rule dput_all) (use Cons.prems in auto)
  from Cons.IH [OF this distinct_dkeys_dput [OF Cons.prems(2)]] show ?case by (simp add: r)
qed simp

definition fresh :: "buffer \<Rightarrow> bool" where
  "fresh b \<longleftrightarrow> bu_rollouts b = [] \<and> (\<forall>p \<in> set (bu_envs b). eb_easy (snd p) = [] \<and> eb_hard (snd p) = [])"

lemma new_env_buffer_ok: "new_env_buffer name ds = Inr eb \<Longrightarrow> env_ok name eb \<and> eb_easy eb = [] \<and> eb_hard eb = []"
proof -
  assume "new_env_buffer name ds = Inr eb"
  then obtain rows where eb: "eb_examples eb = foldl (\<lambda>d (i, row). dput i \<lparr>ex_id = i, ex_env = name, ex_columns = row\<rparr> d) [] rows"
    "eb_easy eb = []" "eb_hard eb = []"
    by (auto simp: new_env_buffer_def Let_def res_simps)
  have k: "keyed_by_id (eb_examples eb)" "\<forall>x \<in> set (pool_examples eb). ex_env x = name" "distinct (dkeys (eb_examples eb))"
    using new_examples [of "[]" name rows] by (auto simp: eb keyed_by_id_def pool_examples_def)
  have "distinct (map ex_id (map snd (eb_examples eb)))" using k(3) unfolding keyed_keys [OF k(1)] .
  then show ?thesis using k(1,2) by (simp add: env_ok_def pool_examples_def eb(2,3))
qed

lemma new_buffer_ok:
  assumes "new_buffer ops ratios datasets = Inr b"
  shows "envs_ok (bu_envs b)" "fresh b"
proof -
  let ?P = "\<lambda>p. env_ok (fst p) (snd p) \<and> eb_easy (snd p) = [] \<and> eb_hard (snd p) = []"
  obtain envs where e: "foldR (\<lambda>d (name, ds). bindR (new_env_buffer name ds) (\<lambda>eb. Inr (dput name eb d))) [] datasets = Inr envs"
    "bu_envs b = envs" "bu_rollouts b = []"
    using assms by (auto simp: new_buffer_def Let_def res_simps)
  have "(\<forall>p \<in> set envs. ?P p) \<and> distinct (dkeys envs)"
  proof (rule foldR_invariant [OF e(1)])
    fix d x d'
    assume d: "(\<forall>p \<in> set d. ?P p) \<and> distinct (dkeys d)"
      and "(case x of (name, ds) \<Rightarrow> bindR (new_env_buffer name ds) (\<lambda>eb. Inr (dput name eb d))) = Inr d'"
    then obtain eb where eb: "new_env_buffer (fst x) (snd x) = Inr eb" "d' = dput (fst x) eb d"
      by (auto simp: res_simps split: prod.splits)
    have "\<forall>p \<in> set (dput (fst x) eb d). ?P p"
      by (rule dput_all [where P = ?P]) (use d new_env_buffer_ok [OF eb(1)] in auto)
    then show "(\<forall>p \<in> set d'. ?P p) \<and> distinct (dkeys d')"
      using d distinct_dkeys_dput eb(2) by blast
  qed simp
  then show "envs_ok (bu_envs b)" "fresh b" by (simp_all add: envs_ok_def fresh_def e)
qed

lemma envs_kept_examples_of: "envs_kept (bu_envs b) (bu_envs b') \<Longrightarrow> examples_of b' name = examples_of b name"
  using envs_kept_examples [of "bu_envs b" "bu_envs b'" name]
  by (auto simp: examples_of_def env_kept_def split: option.splits)

text \<open>C30. Examples are conserved: whatever the buffer does after its construction (updates with completed
  rollouts, sampling, loading checkpoints, reporting metrics), every environment still holds exactly the
  examples it started with, each in one pool, and the normal pool is keyed by example identifiers.\<close>

theorem examples_conserved:
  assumes "new_buffer ops ratios datasets = Inr b0" and "(buffer_step ops c)\<^sup>*\<^sup>* b0 b"
  shows "buffer_ok b \<and> dkeys (bu_envs b) = dkeys (bu_envs b0) \<and> examples_of b name = examples_of b0 name"
  using buffer_steps_kept [OF assms(2) new_buffer_ok(1) [OF assms(1)]] envs_kept_dkeys envs_kept_examples_of
  by (auto simp: buffer_ok_def envs_ok_def)

definition hashes_identify :: "buffer_ops \<Rightarrow> buffer_config \<Rightarrow> (string, env_buffer) dict \<Rightarrow> bool" where
  "hashes_identify ops c envs \<longleftrightarrow>
     (let xs = concat (map (\<lambda>p. map snd (eb_examples (snd p))) envs) in
      \<forall>x \<in> set xs. \<not> isl (get_example_hash ops c x) \<and>
        (\<forall>y \<in> set xs. get_example_hash ops c x = get_example_hash ops c y \<longrightarrow> x = y))"

definition demo_digest :: "row_json list \<Rightarrow> string" where
  "demo_digest vs = concat (map (\<lambda>v. case v of JInt i \<Rightarrow> replicate (nat i) CHR ''i'' | JString s \<Rightarrow> s | JText s \<Rightarrow> s) vs)"

definition demo_ops :: buffer_ops where
  "demo_ops = \<lparr>bo_float = \<lparr>fl_sum = hd, fl_add = (+), fl_times = (\<lambda>x n. x), fl_div = (\<lambda>x n. x), fl_le = (\<le>), fl_lt = (<), fl_eq = (=)\<rparr>,
     bo_digest = demo_digest, bo_round_fraction = (\<lambda>n x. 0), bo_ratio = (\<lambda>m n. f_one)\<rparr>"

definition demo_config :: buffer_config where
  "demo_config = \<lparr>bc_easy_threshold = Some f_one, bc_hard_threshold = Some f_zero, bc_easy_fraction = f_zero,
     bc_hard_fraction = f_zero, bc_online_difficulty_filtering = False, bc_hash_keys = [''env_name'', ''prompt'']\<rparr>"

definition demo_datasets :: "(string \<times> dataset) list" where
  "demo_datasets = [(''gsm8k'', \<lparr>ds_columns = [''prompt''], ds_ids = [],
     ds_rows = [[(''prompt'', JText ''a'')], [(''prompt'', JText ''b'')], [(''prompt'', JText ''c'')]]\<rparr>)]"

definition demo_result :: "int \<Rightarrow> float64 \<Rightarrow> rollout" where
  "demo_result i reward = \<lparr>ro_example_id = i, ro_env_name = ''gsm8k'', ro_error = None, ro_trajectory = [], ro_reward = reward,
     ro_temperature = f_one, ro_metrics = [], ro_advantage = None, ro_filters = [], ro_is_filtered = None\<rparr>"

lemma demo_buffer_run:
  obtains b0 b where "new_buffer demo_ops None demo_datasets = Inr b0"
    "update_buffer (bo_float demo_ops) demo_config [demo_result 1 f_one, demo_result 0 f_zero] b0 = Inr b"
    "map (\<lambda>(n, eb). (map fst (eb_examples eb), map ex_id (eb_easy eb), map ex_id (eb_hard eb))) (bu_envs b) = [([2], [1], [0])]"
    "length (bu_rollouts b) = 2" "hashes_identify demo_ops demo_config (bu_envs b0)"
proof -
  have "case new_buffer demo_ops None demo_datasets of Inl e \<Rightarrow> False | Inr b0 \<Rightarrow>
      (case update_buffer (bo_float demo_ops) demo_config [demo_result 1 f_one, demo_result 0 f_zero] b0 of Inl e \<Rightarrow> False | Inr b \<Rightarrow>
         map (\<lambda>(n, eb). (map fst (eb_examples eb), map ex_id (eb_easy eb), map ex_id (eb_hard eb))) (bu_envs b) = [([2], [1], [0])]
         \<and> length (bu_rollouts b) = 2 \<and> hashes_identify demo_ops demo_config (bu_envs b0))"
    by code_simp
  then show thesis by (auto split: sum.splits intro: that)
qed

theorem examples_conserved_witness:
  "\<exists>b0 b. new_buffer demo_ops None demo_datasets = Inr b0
     \<and> map (\<lambda>(n, eb). (map fst (eb_examples eb), map ex_id (eb_easy eb), map ex_id (eb_hard eb))) (bu_envs b) = [([2], [1], [0])]
     \<and> examples_of b ''gsm8k'' = examples_of b0 ''gsm8k''"
proof (rule demo_buffer_run)
  fix b0 b
  assume b: "new_buffer demo_ops None demo_datasets = Inr b0"
    "update_buffer (bo_float demo_ops) demo_config [demo_result 1 f_one, demo_result 0 f_zero] b0 = Inr b"
    "map (\<lambda>(n, eb). (map fst (eb_examples eb), map ex_id (eb_easy eb), map ex_id (eb_hard eb))) (bu_envs b) = [([2], [1], [0])]"
  have "(buffer_step demo_ops demo_config)\<^sup>*\<^sup>* b0 b" using b(2) by (blast intro: buffer_step.update)
  from examples_conserved [OF b(1) this, of "''gsm8k''"] have "examples_of b ''gsm8k'' = examples_of b0 ''gsm8k''" by simp
  with b(1,3) show ?thesis by (intro exI [of _ b0] exI [of _ b] conjI)
qed

section \<open>Checkpoints\<close>

subsection \<open>Waiting rollouts are of known environments\<close>

lemma group_rollouts_keys:
  "\<forall>p \<in> set d. \<forall>r \<in> set (snd p). group_key r = fst p \<Longrightarrow>
   \<forall>p \<in> set (foldl (\<lambda>d r. dput (group_key r) ((case dget d (group_key r) of None \<Rightarrow> [] | Some g \<Rightarrow> g) @ [r]) d) d rs).
      \<forall>r \<in> set (snd p). group_key r = fst p"
proof (induction rs arbitrary: d)
  case (Cons r rs)
  let ?P = "\<lambda>p. \<forall>r \<in> set (snd p). group_key r = fst p"
  have "?P (group_key r, (case dget d (group_key r) of None \<Rightarrow> [] | Some g \<Rightarrow> g) @ [r])"
  proof (cases "dget d (group_key r)")
    case (Some g)
    then have "(group_key r, g) \<in> set d" by (rule map_of_SomeD)
    then show ?thesis using Cons.prems Some by fastforce
  qed simp
  from Cons.IH [OF dput_all [where P = ?P, OF Cons.prems this]] show ?case unfolding foldl_Cons .
qed simp

lemma group_rollouts_key: "\<forall>p \<in> set (group_rollouts rs). \<forall>r \<in> set (snd p). group_key r = fst p"
  unfolding group_rollouts_def by (rule group_rollouts_keys) simp

definition known_rollouts :: "buffer \<Rightarrow> bool" where
  "known_rollouts b \<longleftrightarrow> (\<forall>r \<in> set (bu_rollouts b). ro_env_name r \<in> set (dkeys (bu_envs b)))"

lemma update_example_known:
  assumes "known_rollouts b" "\<forall>r \<in> set (snd g). group_key r = fst g" "update_example F c b g = Inr b'"
  shows "known_rollouts b'"
proof -
  obtain n i rs where g: "g = ((n, i), rs)" by (cases g) auto
  obtain eb where eb: "dget (bu_envs b) n = Some eb"
    using assms(3) by (cases "dget (bu_envs b) n") (auto simp: update_example_def g Let_def)
  have r: "\<forall>r \<in> set rs. ro_env_name r = n" using assms(2) by (auto simp: g group_key_def)
  show ?thesis
    using assms(1,3) r eb by (auto simp: update_example_def g Let_def known_rollouts_def set_dkeys_dput split: if_splits)
qed

lemma update_buffer_known:
  assumes "known_rollouts b" "update_buffer F c rs b = Inr b'"
  shows "known_rollouts b'"
  using assms(2) unfolding update_buffer_def
proof (rule foldR_invariant [where P = known_rollouts])
  fix s g s' assume "known_rollouts s" "g \<in> set (group_rollouts rs)" "update_example F c s g = Inr s'"
  then show "known_rollouts s'"
    using group_rollouts_key by (blast intro: update_example_known)
qed (rule assms(1))

lemma load_buffer_rollouts:
  assumes "load_buffer ops c draws f b = Inr b'" "envs_ok (bu_envs b)"
  shows "bu_rollouts b' = bu_rollouts b @ filter (\<lambda>r. ro_env_name r \<in> set (dkeys (bu_envs b))) (bf_rollouts f)"
proof (cases "bf_easy f = [] \<and> bf_hard f = [] \<and> bf_rollouts f = []")
  case True
  then show ?thesis using assms by (simp add: load_buffer_def)
next
  case False
  have "dkeys (bu_envs b') = dkeys (bu_envs b)"
    using load_buffer_kept [OF assms(2,1)] by (rule envs_kept_dkeys)
  moreover have "bu_rollouts b' = bu_rollouts b @ filter (\<lambda>r. ro_env_name r \<in> set (dkeys (bu_envs b'))) (bf_rollouts f)"
    using assms(1) unfolding load_buffer_def if_not_P [OF False] by (auto simp: res_simps)
  ultimately show ?thesis by simp
qed

lemma buffer_step_known:
  assumes "buffer_step ops c b b'" "envs_ok (bu_envs b)" "known_rollouts b"
  shows "known_rollouts b'"
  using assms(1)
proof cases
  case (update rs)
  then show ?thesis using assms(3) update_buffer_known by blast
next
  case (sample n)
  have "set (bu_rollouts (snd (sample_rollouts n b))) \<subseteq> set (bu_rollouts b)"
    by (auto simp: sample_rollouts_def Let_def dest: in_set_takeD)
  then show ?thesis using sample assms(3) by (auto simp: known_rollouts_def)
next
  case (load draws f)
  have "dkeys (bu_envs b') = dkeys (bu_envs b)" using load_buffer_kept [OF assms(2) load] by (rule envs_kept_dkeys)
  then show ?thesis using load_buffer_rollouts [OF load assms(2)] assms(3) by (auto simp: known_rollouts_def)
next
  case metrics
  have k: "bu_envs b' = map (\<lambda>(n, eb). (n, reset_step_metrics eb)) (bu_envs b)" "bu_rollouts b' = bu_rollouts b"
    using metrics by (auto simp: buffer_metrics_def Let_def)
  have "fst ` set (bu_envs b') = fst ` set (bu_envs b)" unfolding k(1) by force
  then show ?thesis using assms(3) by (simp add: known_rollouts_def k(2))
qed

lemma buffer_steps_known:
  "(buffer_step ops c)\<^sup>*\<^sup>* b b' \<Longrightarrow> envs_ok (bu_envs b) \<Longrightarrow> known_rollouts b \<Longrightarrow> known_rollouts b'"
proof (induction rule: rtranclp_induct)
  case (step y z)
  then show ?case using buffer_steps_kept [OF step(1)] buffer_step_known by blast
qed

end
