(* ===== verification/BufferResume.thy ===== *)
theory BufferResume
  imports BufferProofs
begin

text \<open>
  Resuming from a checkpoint: loading what a buffer saved into a fresh buffer of the same environments
  restores its pools and its waiting rollouts.
\<close>

section \<open>Dictionaries\<close>

lemma dput_map:
  assumes "distinct (dkeys d)" "dget d n = Some e0"
    and "\<And>m e. (m, e) \<in> set d \<Longrightarrow> m \<noteq> n \<Longrightarrow> g m e = f m e"
  shows "dput n (g n e0) (map (\<lambda>(m, e). (m, f m e)) d) = map (\<lambda>(m, e). (m, g m e)) d"
  using assms
proof (induction d)
  case (Cons p d)
  obtain m e where p: "p = (m, e)" by force
  show ?case
  proof (cases "m = n")
    case True
    have "f a b = g a b" if "(a, b) \<in> set d" for a b
    proof -
      have "a \<in> fst ` set d" using that by force
      then have "a \<noteq> n" using Cons.prems(1) by (auto simp: p True)
      then show ?thesis using Cons.prems(3) [of a b] that by simp
    qed
    then have "map (\<lambda>(m, e). (m, f m e)) d = map (\<lambda>(m, e). (m, g m e)) d" by auto
    then show ?thesis using Cons.prems(2) by (simp add: p True)
  next
    case False
    have "dput n (g n e0) (map (\<lambda>(m, e). (m, f m e)) d) = map (\<lambda>(m, e). (m, g m e)) d"
    proof (rule Cons.IH)
      show "distinct (dkeys d)" using Cons.prems(1) by simp
      show "dget d n = Some e0" using Cons.prems(2) False by (simp add: p)
      show "\<And>m e. (m, e) \<in> set d \<Longrightarrow> m \<noteq> n \<Longrightarrow> g m e = f m e" using Cons.prems(3) by (simp add: p)
    qed
    then show ?thesis using False Cons.prems(3) [of m e] by (simp add: p)
  qed
qed simp

lemma dget_in: "distinct (dkeys d) \<Longrightarrow> (k, v) \<in> set d \<Longrightarrow> dget d k = Some v"
  by simp

section \<open>The lookup of hashes\<close>

abbreviation hash_of :: "buffer_ops \<Rightarrow> buffer_config \<Rightarrow> example \<Rightarrow> string res" where
  "hash_of \<equiv> get_example_hash"

lemma hashes_of_env:
  assumes "foldR (\<lambda>d (i, x). bindR (hash_of ops c x) (\<lambda>h. Inr (dput h i d))) d0 exs = Inr d"
    and "dget d h = Some i"
  shows "dget d0 h = Some i \<or> (\<exists>x. (i, x) \<in> set exs \<and> hash_of ops c x = Inr h)"
  using assms(1)
proof (induction exs arbitrary: d0)
  case (Cons p exs)
  obtain j y where p: "p = (j, y)" by force
  from Cons.prems obtain h' where h': "hash_of ops c y = Inr h'"
    "foldR (\<lambda>d (i, x). bindR (hash_of ops c x) (\<lambda>h. Inr (dput h i d))) (dput h' j d0) exs = Inr d"
    by (auto simp: p res_simps)
  from Cons.IH [OF h'(2)] show ?case using h'(1) by (auto simp: p dget_dput split: if_splits)
qed (use assms(2) in auto)

lemma hashes_of_env_total:
  assumes "foldR (\<lambda>d (i, x). bindR (hash_of ops c x) (\<lambda>h. Inr (dput h i d))) d0 exs = Inr d"
    and "(\<exists>i x. (i, x) \<in> set exs \<and> hash_of ops c x = Inr h) \<or> dget d0 h \<noteq> None"
  shows "dget d h \<noteq> None"
  using assms
proof (induction exs arbitrary: d0)
  case (Cons p exs)
  obtain j y where p: "p = (j, y)" by force
  from Cons.prems(1) obtain h' where h': "hash_of ops c y = Inr h'"
    "foldR (\<lambda>d (i, x). bindR (hash_of ops c x) (\<lambda>h. Inr (dput h i d))) (dput h' j d0) exs = Inr d"
    by (auto simp: p res_simps)
  show ?case by (rule Cons.IH [OF h'(2)]) (use Cons.prems(2) h'(1) in \<open>auto simp: p dget_dput\<close>)
qed simp

lemma hashes_of_env_ok:
  "\<forall>p \<in> set exs. \<exists>h. hash_of ops c (snd p) = Inr h \<Longrightarrow>
   \<exists>d. foldR (\<lambda>d (i, x). bindR (hash_of ops c x) (\<lambda>h. Inr (dput h i d))) d0 exs = Inr d"
  by (induction exs arbitrary: d0) auto

text \<open>What \<open>load\<close> needs of the lookup: every entry of a hash is of an example that has it, and every example
  has an entry.\<close>

definition lookup_ok :: "buffer_ops \<Rightarrow> buffer_config \<Rightarrow> (string, env_buffer) dict \<Rightarrow> hash_lookup \<Rightarrow> bool" where
  "lookup_ok ops c envs lookup \<longleftrightarrow>
     (\<forall>n hs h i. (n, hs) \<in> set lookup \<longrightarrow> dget hs h = Some i \<longrightarrow>
        (\<exists>eb x. (n, eb) \<in> set envs \<and> (i, x) \<in> set (eb_examples eb) \<and> hash_of ops c x = Inr h))
   \<and> (\<forall>n eb i x h. (n, eb) \<in> set envs \<longrightarrow> (i, x) \<in> set (eb_examples eb) \<longrightarrow> hash_of ops c x = Inr h \<longrightarrow>
        (\<exists>hs. (n, hs) \<in> set lookup \<and> dget hs h \<noteq> None))"

lemma build_hash_lookup_ok:
  assumes "\<forall>p \<in> set envs. \<forall>q \<in> set (eb_examples (snd p)). \<exists>h. hash_of ops c (snd q) = Inr h"
  shows "\<exists>lookup. build_hash_lookup ops c envs = Inr lookup \<and> lookup_ok ops c envs lookup"
proof -
  let ?fold = "\<lambda>eb. foldR (\<lambda>d (i, x). bindR (hash_of ops c x) (\<lambda>h. Inr (dput h i d))) [] (eb_examples eb)"
  define g where "g eb = (case ?fold eb of Inr d \<Rightarrow> d | Inl _ \<Rightarrow> [])" for eb :: env_buffer
  let ?ne = "filter (\<lambda>(_, eb). eb_examples eb \<noteq> []) envs"
  have f: "?fold eb = Inr (g eb)" if "(n, eb) \<in> set envs" for n eb
  proof -
    have "\<forall>q \<in> set (eb_examples eb). \<exists>h. hash_of ops c (snd q) = Inr h" using bspec [OF assms that] by simp
    then obtain d where "?fold eb = Inr d" using hashes_of_env_ok by blast
    then show ?thesis by (simp add: g_def)
  qed
  have "build_hash_lookup ops c envs = Inr (map (\<lambda>p. (fst p, g (snd p))) ?ne)"
    unfolding build_hash_lookup_def by (rule mapR_map) (auto simp: f)
  moreover have "lookup_ok ops c envs (map (\<lambda>p. (fst p, g (snd p))) ?ne)"
    unfolding lookup_ok_def
  proof (intro conjI allI impI)
    fix n hs h i
    assume "(n, hs) \<in> set (map (\<lambda>p. (fst p, g (snd p))) ?ne)" and i: "dget hs h = Some i"
    then obtain eb where eb: "(n, eb) \<in> set envs" "hs = g eb" by auto
    have "\<exists>x. (i, x) \<in> set (eb_examples eb) \<and> hash_of ops c x = Inr h"
      using hashes_of_env [OF f [OF eb(1)]] i unfolding eb(2) by force
    with eb(1) show "\<exists>eb x. (n, eb) \<in> set envs \<and> (i, x) \<in> set (eb_examples eb) \<and> hash_of ops c x = Inr h" by blast
  next
    fix n eb i x h
    assume a: "(n, eb) \<in> set envs" "(i, x) \<in> set (eb_examples eb)" "hash_of ops c x = Inr h"
    have "dget (g eb) h \<noteq> None" by (rule hashes_of_env_total [OF f [OF a(1)]]) (use a in blast)
    moreover have "(n, g eb) \<in> set (map (\<lambda>p. (fst p, g (snd p))) ?ne)"
      using a by (auto intro!: image_eqI [where x = "(n, eb)"])
    ultimately show "\<exists>hs. (n, hs) \<in> set (map (\<lambda>p. (fst p, g (snd p))) ?ne) \<and> dget hs h \<noteq> None" by blast
  qed
  ultimately show ?thesis by blast
qed

section \<open>Moving the saved pools\<close>

text \<open>The fresh environments after the easy examples \<open>xs\<close> and the hard examples \<open>ys\<close> of the file are moved.\<close>

definition moved :: "example list \<Rightarrow> example list \<Rightarrow> string \<Rightarrow> env_buffer \<Rightarrow> env_buffer" where
  "moved xs ys n eb = eb\<lparr>eb_examples := filter (\<lambda>p. snd p \<notin> set xs \<union> set ys) (eb_examples eb),
     eb_easy := filter (\<lambda>x. ex_env x = n) xs, eb_hard := filter (\<lambda>x. ex_env x = n) ys\<rparr>"

abbreviation moved_all :: "(string, env_buffer) dict \<Rightarrow> example list \<Rightarrow> example list \<Rightarrow> (string, env_buffer) dict" where
  "moved_all envs xs ys \<equiv> map (\<lambda>(n, eb). (n, moved xs ys n eb)) envs"

lemma move_saved_example_entry:
  assumes "\<And>m hs j. (m, hs) \<in> set lookup \<Longrightarrow> dget hs h = Some j \<Longrightarrow> m = n \<and> j = i"
    and "\<exists>hs. (n, hs) \<in> set lookup \<and> dget hs h \<noteq> None"
    and "dget envs n = Some eb" "dget (eb_examples eb) i = Some x"
  shows "move_saved_example p h lookup envs =
    Inr (dput n (add_to_pool p x (eb\<lparr>eb_examples := dpop i (eb_examples eb)\<rparr>)) envs)"
  using assms(1,2)
proof (induction lookup)
  case (Cons q lookup)
  obtain m hs where q: "q = (m, hs)" by force
  show ?case
  proof (cases "dget hs h")
    case None
    have "move_saved_example p h lookup envs =
        Inr (dput n (add_to_pool p x (eb\<lparr>eb_examples := dpop i (eb_examples eb)\<rparr>)) envs)"
      by (rule Cons.IH) (use Cons.prems None in \<open>auto simp: q\<close>)
    then show ?thesis by (simp add: q None)
  next
    case (Some j)
    then have "m = n \<and> j = i" using Cons.prems(1) [of m hs j] by (simp add: q)
    then show ?thesis using Some assms(3,4) by (simp add: q)
  qed
qed simp

lemma hash_ok:
  "hashes_identify ops c envs \<Longrightarrow> (n, eb) \<in> set envs \<Longrightarrow> (i, x) \<in> set (eb_examples eb) \<Longrightarrow> \<exists>h. hash_of ops c x = Inr h"
proof -
  assume a: "hashes_identify ops c envs" "(n, eb) \<in> set envs" "(i, x) \<in> set (eb_examples eb)"
  have "x \<in> set (concat (map (\<lambda>p. map snd (eb_examples (snd p))) envs))" using a(2,3) by force
  then have "\<not> isl (hash_of ops c x)" using a(1) unfolding hashes_identify_def Let_def by blast
  then show "\<exists>h. hash_of ops c x = Inr h" by (cases "hash_of ops c x") auto
qed

lemma hash_inj:
  "hashes_identify ops c envs \<Longrightarrow> (n, eb) \<in> set envs \<Longrightarrow> (i, x) \<in> set (eb_examples eb) \<Longrightarrow>
   (m, eb') \<in> set envs \<Longrightarrow> (j, y) \<in> set (eb_examples eb') \<Longrightarrow>
   hash_of ops c x = Inr h \<Longrightarrow> hash_of ops c y = Inr h \<Longrightarrow> x = y"
proof -
  assume a: "hashes_identify ops c envs" "(n, eb) \<in> set envs" "(i, x) \<in> set (eb_examples eb)"
    "(m, eb') \<in> set envs" "(j, y) \<in> set (eb_examples eb')" "hash_of ops c x = Inr h" "hash_of ops c y = Inr h"
  let ?xs = "concat (map (\<lambda>p. map snd (eb_examples (snd p))) envs)"
  have "x \<in> set ?xs" "y \<in> set ?xs" using a(2-5) by force+
  then show "x = y" using a(1,6,7) unfolding hashes_identify_def Let_def by metis
qed

lemma example_of_env: "envs_ok envs \<Longrightarrow> (n, eb) \<in> set envs \<Longrightarrow> (i, x) \<in> set (eb_examples eb) \<Longrightarrow> ex_env x = n \<and> ex_id x = i"
  unfolding envs_ok_def env_ok_def keyed_by_id_def pool_examples_def by force

lemma moved_hash:
  assumes envs_ok: "envs_ok envs" and lookup_ok: "lookup_ok ops c envs lookup" and ident: "hashes_identify ops c envs"
    and e: "(n, eb) \<in> set envs" "(i, x) \<in> set (eb_examples eb)" and new: "x \<notin> set xs \<union> set ys"
    and h: "hash_of ops c x = Inr h"
  shows "move_saved_example p h lookup (moved_all envs xs ys) =
    Inr (if p = Easy then moved_all envs (xs @ [x]) ys else moved_all envs xs (ys @ [x]))"
proof -
  let ?d = "moved_all envs xs ys" and ?m = "moved xs ys n eb"
  have ok: "env_ok n eb" "distinct (dkeys envs)" using envs_ok e(1) by (auto simp: envs_ok_def)
  have x: "ex_env x = n" "ex_id x = i" using example_of_env [OF envs_ok e] by auto
  have de: "distinct (dkeys (eb_examples eb))" by (rule env_ok_keys [OF ok(1)])
  have g: "dget envs n = Some eb" using ok(2) e(1) by simp
  have gm: "dget ?d n = Some ?m" by (simp add: dget_map g)
  have df: "distinct (dkeys (eb_examples ?m))" using de by (simp add: moved_def distinct_map_filter)
  have gi: "dget (eb_examples ?m) i = Some x"
    by (rule dget_in [OF df]) (use e(2) new in \<open>simp add: moved_def\<close>)
  have entry: "m = n \<and> j = i" if a: "(m, hs) \<in> set lookup" "dget hs h = Some j" for m hs j
  proof -
    obtain eb' y where y: "(m, eb') \<in> set envs" "(j, y) \<in> set (eb_examples eb')" "hash_of ops c y = Inr h"
      using lookup_ok a unfolding lookup_ok_def by blast
    have "x = y" by (rule hash_inj [OF ident e y(1,2) h y(3)])
    then show ?thesis using example_of_env [OF envs_ok y(1,2)] x by simp
  qed
  have some: "\<exists>hs. (n, hs) \<in> set lookup \<and> dget hs h \<noteq> None"
    using lookup_ok e h unfolding lookup_ok_def by blast
  have r: "move_saved_example p h lookup ?d = Inr (dput n (add_to_pool p x (?m\<lparr>eb_examples := dpop i (eb_examples ?m)\<rparr>)) ?d)"
    by (rule move_saved_example_entry [OF entry some gm gi])
  have dp: "dpop i (eb_examples ?m) = filter (\<lambda>p. snd p \<notin> set (xs @ [x]) \<union> set ys) (eb_examples eb)"
  proof -
    have "(fst q \<noteq> i) = (snd q \<noteq> x)" if "q \<in> set (eb_examples eb)" for q
      using de e(2) that example_of_env [OF envs_ok e(1), of "fst q" "snd q"] x
      by (metis eq_key_imp_eq_value prod.collapse)
    then show ?thesis by (auto simp: dpop_def moved_def filter_filter intro!: filter_cong)
  qed
  have dp': "dpop i (eb_examples ?m) = filter (\<lambda>p. snd p \<notin> set xs \<union> set (ys @ [x])) (eb_examples eb)"
    unfolding dp by (rule filter_cong) auto
  have other: "filter (\<lambda>p. snd p \<notin> insert x (set xs \<union> set ys)) (eb_examples e') = filter (\<lambda>p. snd p \<notin> set xs \<union> set ys) (eb_examples e')"
    if "(m, e') \<in> set envs" "m \<noteq> n" for m e'
    using example_of_env [OF envs_ok that(1)] that(2) x by (intro filter_cong) auto
  show ?thesis
  proof (cases "p = Easy")
    case True
    have "add_to_pool p x (?m\<lparr>eb_examples := dpop i (eb_examples ?m)\<rparr>) = moved (xs @ [x]) ys n eb"
      unfolding dp by (simp add: True add_to_pool_def moved_def x)
    moreover have "dput n (moved (xs @ [x]) ys n eb) ?d = moved_all envs (xs @ [x]) ys"
      by (rule dput_map [OF ok(2) g]) (use other x in \<open>simp add: moved_def\<close>)
    ultimately show ?thesis using r True by simp
  next
    case False
    have "add_to_pool p x (?m\<lparr>eb_examples := dpop i (eb_examples ?m)\<rparr>) = moved xs (ys @ [x]) n eb"
      unfolding dp' by (simp add: False add_to_pool_def moved_def x)
    moreover have "dput n (moved xs (ys @ [x]) n eb) ?d = moved_all envs xs (ys @ [x])"
      by (rule dput_map [OF ok(2) g]) (use other x in \<open>simp add: moved_def\<close>)
    ultimately show ?thesis using r False by simp
  qed
qed

definition held :: "(string, env_buffer) dict \<Rightarrow> example \<Rightarrow> bool" where
  "held envs x \<longleftrightarrow> (\<exists>n eb i. (n, eb) \<in> set envs \<and> (i, x) \<in> set (eb_examples eb))"

lemma moved_pool:
  assumes ok: "envs_ok envs" "lookup_ok ops c envs lookup" "hashes_identify ops c envs"
    and "\<forall>x \<in> set zs. held envs x" "distinct zs" "set zs \<inter> (set xs \<union> set ys) = {}"
  shows "move_saved_pool ops c lookup p zs (moved_all envs xs ys) =
    Inr (if p = Easy then moved_all envs (xs @ zs) ys else moved_all envs xs (ys @ zs))"
  using assms(4-)
proof (induction zs arbitrary: xs ys)
  case (Cons x zs)
  from Cons.prems(1) obtain n eb i where e: "(n, eb) \<in> set envs" "(i, x) \<in> set (eb_examples eb)"
    by (auto simp: held_def)
  obtain h where h: "hash_of ops c x = Inr h" using hash_ok [OF ok(3) e] by blast
  have new: "x \<notin> set xs \<union> set ys" using Cons.prems(3) by auto
  have ne: "envs \<noteq> []" using e(1) by auto
  note step = moved_hash [OF ok e new h, of p]
  show ?case
  proof (cases "p = Easy")
    case True
    have "move_saved_pool ops c lookup p zs (moved_all envs (xs @ [x]) ys) = Inr (moved_all envs ((xs @ [x]) @ zs) ys)"
      using Cons.IH [of "xs @ [x]" ys] Cons.prems True by auto
    then show ?thesis using step True ne h by (simp add: move_saved_pool_def)
  next
    case False
    have "move_saved_pool ops c lookup p zs (moved_all envs xs (ys @ [x])) = Inr (moved_all envs xs ((ys @ [x]) @ zs))"
      using Cons.IH [of xs "ys @ [x]"] Cons.prems False by auto
    then show ?thesis using step False ne h by (simp add: move_saved_pool_def)
  qed
qed (simp add: move_saved_pool_def)

section \<open>Resuming\<close>

lemma filter_pool:
  assumes "distinct (dkeys d)" "(n, eb) \<in> set d"
    and "\<And>m e x. (m, e) \<in> set d \<Longrightarrow> x \<in> set (f e) \<Longrightarrow> ex_env x = m"
  shows "filter (\<lambda>x. ex_env x = n) (concat (map (f \<circ> snd) d)) = f eb"
  using assms
proof (induction d)
  case (Cons q d)
  obtain m e where q: "q = (m, e)" by force
  have m: "m \<notin> fst ` set d" using Cons.prems(1) by (simp add: q)
  show ?case
  proof (cases "(n, eb) = q")
    case True
    have "filter (\<lambda>x. ex_env x = n) (concat (map (f \<circ> snd) d)) = []"
      unfolding filter_empty_conv using Cons.prems(3) m True by (force simp: q)
    moreover have "filter (\<lambda>x. ex_env x = n) (f e) = f e"
      using Cons.prems(3) [of m e] True by (auto simp: q filter_id_conv)
    ultimately show ?thesis using True by (simp add: q comp_def)
  next
    case False
    then have in_d: "(n, eb) \<in> set d" using Cons.prems(2) by auto
    then have "n \<noteq> m" using m by force
    then have "filter (\<lambda>x. ex_env x = n) (f e) = []"
      unfolding filter_empty_conv using Cons.prems(3) [of m e] by (auto simp: q)
    moreover have "filter (\<lambda>x. ex_env x = n) (concat (map (f \<circ> snd) d)) = f eb"
      by (rule Cons.IH [OF _ in_d]) (use Cons.prems in \<open>auto simp: q\<close>)
    ultimately show ?thesis by (simp add: q comp_def)
  qed
qed simp

lemma distinct_pools:
  assumes "envs_ok d" and part: "\<And>e. \<exists>a b. pool_examples e = a @ f e @ b"
  shows "distinct (concat (map (f \<circ> snd) d))"
proof -
  have f: "distinct (f e) \<and> (\<forall>x \<in> set (f e). ex_env x = n)" if "(n, e) \<in> set d" for n e
  proof -
    have ok: "env_ok n e" using assms(1) that by (auto simp: envs_ok_def)
    obtain a b where ab: "pool_examples e = a @ f e @ b" using part by blast
    have "distinct (map ex_id (pool_examples e))" "\<forall>x \<in> set (pool_examples e). ex_env x = n"
      using ok by (auto simp: env_ok_def)
    then show ?thesis by (auto simp: ab distinct_map)
  qed
  have "distinct (dkeys d)" using assms(1) by (simp add: envs_ok_def)
  then show ?thesis using f
  proof (induction d)
    case (Cons q d)
    obtain m e where q: "q = (m, e)" by force
    have "distinct (concat (map (f \<circ> snd) d))" by (rule Cons.IH) (use Cons.prems in auto)
    moreover have "set (f e) \<inter> set (concat (map (f \<circ> snd) d)) = {}"
    proof (rule ccontr)
      assume "set (f e) \<inter> set (concat (map (f \<circ> snd) d)) \<noteq> {}"
      then obtain x n' e' where x: "x \<in> set (f e)" "(n', e') \<in> set d" "x \<in> set (f e')" by auto
      have "ex_env x = m" using Cons.prems(2) [of m e] x(1) by (simp add: q)
      moreover have "ex_env x = n'" using Cons.prems(2) [of n' e'] x by simp
      ultimately have "m \<in> fst ` set d" using x(2) by force
      then show False using Cons.prems(1) by (simp add: q)
    qed
    ultimately show ?case using Cons.prems(2) [of m e] by (simp add: q comp_def)
  qed simp
qed

definition same_pools :: "(string, env_buffer) dict \<Rightarrow> (string, env_buffer) dict \<Rightarrow> bool" where
  "same_pools d d' \<longleftrightarrow> list_all2 (\<lambda>p q. fst q = fst p \<and> eb_easy (snd q) = eb_easy (snd p) \<and> eb_hard (snd q) = eb_hard (snd p)
     \<and> map_of (eb_examples (snd q)) = map_of (eb_examples (snd p))) d d'"

lemma pool_member_env:
  "envs_ok d \<Longrightarrow> (n, e) \<in> set d \<Longrightarrow> x \<in> set (eb_easy e) \<or> x \<in> set (eb_hard e) \<Longrightarrow> ex_env x = n"
  unfolding envs_ok_def env_ok_def pool_examples_def by force

lemma restored:
  assumes k: "envs_kept envs0 envs" and ok0: "envs_ok envs0"
    and fr: "\<forall>p \<in> set envs0. eb_easy (snd p) = [] \<and> eb_hard (snd p) = []"
  defines "xs \<equiv> concat (map (eb_easy \<circ> snd) envs)" and "ys \<equiv> concat (map (eb_hard \<circ> snd) envs)"
  shows "same_pools envs (moved_all envs0 xs ys)"
proof -
  have ok: "envs_ok envs" using envs_kept_ok [OF k] ok0 by (simp add: envs_ok_def)
  have d: "distinct (dkeys envs)" using ok by (simp add: envs_ok_def)
  have one: "eb_easy (moved xs ys n e0) = eb_easy e \<and> eb_hard (moved xs ys n e0) = eb_hard e
      \<and> map_of (eb_examples (moved xs ys n e0)) = map_of (eb_examples e)"
    if e: "(n, e0) \<in> set envs0" "(n, e) \<in> set envs" "env_kept n e0 e" for n e0 e
  proof -
    have fx: "filter (\<lambda>x. ex_env x = n) xs = eb_easy e" unfolding xs_def
      by (rule filter_pool [OF d e(2)]) (use pool_member_env [OF ok] in blast)
    have fy: "filter (\<lambda>x. ex_env x = n) ys = eb_hard e" unfolding ys_def
      by (rule filter_pool [OF d e(2)]) (use pool_member_env [OF ok] in blast)
    have en: "env_ok n e0" "env_ok n e" using e ok0 by (auto simp: envs_ok_def env_kept_def)
    have m: "mset (map snd (eb_examples e) @ eb_easy e @ eb_hard e) = mset (map snd (eb_examples e0))"
      using e(3) fr e(1) by (auto simp: env_kept_def pool_examples_def)
    have sets: "snd ` set (eb_examples e) \<union> set (eb_easy e) \<union> set (eb_hard e) = snd ` set (eb_examples e0)"
      using mset_eq_setD [OF m] by auto
    have dis: "snd ` set (eb_examples e) \<inter> (set (eb_easy e) \<union> set (eb_hard e)) = {}"
      using en(2) by (auto simp: env_ok_def pool_examples_def distinct_map)
    have mem: "(x \<in> set xs \<longleftrightarrow> x \<in> set (eb_easy e)) \<and> (x \<in> set ys \<longleftrightarrow> x \<in> set (eb_hard e))" if "ex_env x = n" for x
      using arg_cong [OF fx, of set] arg_cong [OF fy, of set] that by auto
    have key0: "(i, x) \<in> set (eb_examples e0) \<longleftrightarrow> x \<in> snd ` set (eb_examples e0) \<and> i = ex_id x" for i x
      using en(1) unfolding env_ok_def keyed_by_id_def by force
    have key: "(i, x) \<in> set (eb_examples e) \<longleftrightarrow> x \<in> snd ` set (eb_examples e) \<and> i = ex_id x" for i x
      using en(2) unfolding env_ok_def keyed_by_id_def by force
    have env0: "ex_env x = n" if "x \<in> snd ` set (eb_examples e0)" for x
      using en(1) that by (auto simp: env_ok_def pool_examples_def)
    have "(i, x) \<in> set (eb_examples (moved xs ys n e0)) \<longleftrightarrow> (i, x) \<in> set (eb_examples e)" for i x
    proof -
      have "(i, x) \<in> set (eb_examples (moved xs ys n e0)) \<longleftrightarrow>
          x \<in> snd ` set (eb_examples e0) \<and> i = ex_id x \<and> x \<notin> set xs \<union> set ys"
        using key0 by (auto simp: moved_def)
      also have "\<dots> \<longleftrightarrow> x \<in> snd ` set (eb_examples e) \<and> i = ex_id x"
        using mem [OF env0] sets dis by blast
      also have "\<dots> \<longleftrightarrow> (i, x) \<in> set (eb_examples e)" using key by simp
      finally show ?thesis .
    qed
    then have "set (eb_examples (moved xs ys n e0)) = set (eb_examples e)" by (simp add: set_eq_iff split_paired_all)
    moreover have "distinct (dkeys (eb_examples (moved xs ys n e0)))"
      using env_ok_keys [OF en(1)] by (simp add: moved_def distinct_map_filter)
    ultimately have "map_of (eb_examples (moved xs ys n e0)) = map_of (eb_examples e)"
      using env_ok_keys [OF en(2)] by (simp add: map_of_inject_set)
    then show ?thesis using fx fy by (simp add: moved_def)
  qed
  show ?thesis
    using k one unfolding same_pools_def envs_kept_def list_all2_conv_all_nth
    by (auto split: prod.splits) (metis fst_conv nth_mem prod.collapse snd_conv)+
qed

text \<open>C32. A checkpoint is restored: let a buffer run from its construction, let the digests identify its
  examples and no fraction of the pools be configured to return to normal. Then a fresh buffer of the same datasets
  loads what the buffer saved without error, and has the same pools and the same waiting rollouts.\<close>

theorem buffer_resumes:
  assumes "new_buffer ops ratios datasets = Inr b0" and "(buffer_step ops c)\<^sup>*\<^sup>* b0 b"
    and "hashes_identify ops c (bu_envs b0)"
    and "fl_le (bo_float ops) (bc_easy_fraction c) f_zero" and "fl_le (bo_float ops) (bc_hard_fraction c) f_zero"
  shows "\<exists>b'. load_buffer ops c draws (save_buffer b) b0 = Inr b'
     \<and> same_pools (bu_envs b) (bu_envs b') \<and> bu_rollouts b' = bu_rollouts b"
proof -
  define xs where "xs = concat (map (eb_easy \<circ> snd) (bu_envs b))"
  define ys where "ys = concat (map (eb_hard \<circ> snd) (bu_envs b))"
  note ok0 = new_buffer_ok(1) [OF assms(1)] and fr = new_buffer_ok(2) [OF assms(1)]
  have k: "envs_kept (bu_envs b0) (bu_envs b)" and ok: "envs_ok (bu_envs b)"
    using buffer_steps_kept [OF assms(2) ok0] by auto
  have frp: "\<forall>p \<in> set (bu_envs b0). eb_easy (snd p) = [] \<and> eb_hard (snd p) = []" and r0: "bu_rollouts b0 = []"
    using fr by (auto simp: fresh_def)
  have res: "same_pools (bu_envs b) (moved_all (bu_envs b0) xs ys)"
    unfolding xs_def ys_def by (rule restored [OF k ok0 frp])
  have start: "moved_all (bu_envs b0) [] [] = bu_envs b0"
    by (rule map_idI) (use frp in \<open>auto simp: moved_def\<close>)
  have "known_rollouts b" by (rule buffer_steps_known [OF assms(2) ok0]) (simp add: known_rollouts_def r0)
  then have known: "filter (\<lambda>r. ro_env_name r \<in> set (dkeys (bu_envs b0))) (bu_rollouts b) = bu_rollouts b"
    using envs_kept_dkeys [OF k] by (simp add: known_rollouts_def filter_id_conv)
  have sv: "bf_easy (save_buffer b) = xs" "bf_hard (save_buffer b) = ys" "bf_rollouts (save_buffer b) = bu_rollouts b"
    by (simp_all add: save_buffer_def xs_def ys_def)
  show ?thesis
  proof (cases "xs = [] \<and> ys = [] \<and> bu_rollouts b = []")
    case True
    then have "load_buffer ops c draws (save_buffer b) b0 = Inr b0" by (simp add: load_buffer_def sv)
    then show ?thesis using res start r0 True by auto
  next
    case False
    have "\<forall>p \<in> set (bu_envs b0). \<forall>q \<in> set (eb_examples (snd p)). \<exists>h. hash_of ops c (snd q) = Inr h"
      using hash_ok [OF assms(3)] by (metis prod.collapse)
    then obtain lookup where lk: "build_hash_lookup ops c (bu_envs b0) = Inr lookup" "lookup_ok ops c (bu_envs b0) lookup"
      using build_hash_lookup_ok by blast
    have held: "held (bu_envs b0) x" if x: "x \<in> set xs \<or> x \<in> set ys" for x
    proof -
      obtain n e where e: "(n, e) \<in> set (bu_envs b)" "x \<in> set (eb_easy e) \<or> x \<in> set (eb_hard e)"
        using x by (auto simp: xs_def ys_def)
      then have "dget (bu_envs b) n = Some e" using ok by (simp add: envs_ok_def)
      then obtain e0 where e0: "dget (bu_envs b0) n = Some e0" "env_kept n e0 e"
        using envs_kept_examples [OF k, of n] by (cases "dget (bu_envs b0) n") auto
      have "x \<in> set (pool_examples e0)"
        using e(2) e0(2) mset_eq_setD [of "pool_examples e" "pool_examples e0"] by (auto simp: env_kept_def pool_examples_def)
      moreover have "(n, e0) \<in> set (bu_envs b0)" using e0(1) by (rule map_of_SomeD)
      ultimately show ?thesis using frp unfolding held_def pool_examples_def by fastforce
    qed
    have dx: "distinct xs" unfolding xs_def
      by (rule distinct_pools [OF ok]) (auto simp: pool_examples_def)
    have dy: "distinct ys" unfolding ys_def
      by (rule distinct_pools [OF ok], rule exI, rule exI [of _ "[]"]) (simp add: pool_examples_def flip: append_assoc)
    have dxy: "set ys \<inter> set xs = {}"
    proof (rule ccontr)
      assume "set ys \<inter> set xs \<noteq> {}"
      then obtain x n e m e' where x: "(n, e) \<in> set (bu_envs b)" "x \<in> set (eb_easy e)"
        "(m, e') \<in> set (bu_envs b)" "x \<in> set (eb_hard e')" by (auto simp: xs_def ys_def)
      then have "n = m" using pool_member_env [OF ok] by blast
      then have "e = e'" using x ok unfolding envs_ok_def by (metis map_of_eq_Some_iff option.inject)
      then show False using x ok unfolding envs_ok_def env_ok_def pool_examples_def by (force simp: distinct_map)
    qed
    have m1: "move_saved_pool ops c lookup Easy xs (bu_envs b0) = Inr (moved_all (bu_envs b0) xs [])"
      using moved_pool [OF ok0 lk(2) assms(3), of xs "[]" "[]" Easy] held dx start by auto
    have m2: "move_saved_pool ops c lookup Hard ys (moved_all (bu_envs b0) xs []) = Inr (moved_all (bu_envs b0) xs ys)"
      using moved_pool [OF ok0 lk(2) assms(3), of ys xs "[]" Hard] held dy dxy by auto
    have conv: "mapR (\<lambda>(name, eb). bindR (convert_pools ops c (draws name) eb) (\<lambda>eb. Inr (name, eb))) d = Inr d" for d
      by (rule mapR_map [where g = "\<lambda>x. x", simplified]) (auto simp: convert_pools_def convert_to_normal_def assms(4,5))
    have "load_buffer ops c draws (save_buffer b) b0 =
        Inr (b0\<lparr>bu_envs := moved_all (bu_envs b0) xs ys,
          bu_rollouts := bu_rollouts b0 @ filter (\<lambda>r. ro_env_name r \<in> set (dkeys (moved_all (bu_envs b0) xs ys))) (bu_rollouts b)\<rparr>)"
      unfolding load_buffer_def sv if_not_P [OF False] by (simp add: lk(1) m1 m2 conv del: set_map)
    moreover have "set (dkeys (moved_all (bu_envs b0) xs ys)) = set (dkeys (bu_envs b0))" by force
    ultimately show ?thesis using res known r0 by simp
  qed
qed

theorem buffer_resumes_witness:
  "\<exists>b b' b0. load_buffer demo_ops demo_config (\<lambda>_ _ _. 0) (save_buffer b) b0 = Inr b'
     \<and> map (\<lambda>(n, eb). (map fst (eb_examples eb), map ex_id (eb_easy eb), map ex_id (eb_hard eb))) (bu_envs b) = [([2], [1], [0])]
     \<and> same_pools (bu_envs b) (bu_envs b') \<and> length (bu_rollouts b') = 2"
proof (rule demo_buffer_run)
  fix b0 b
  assume b: "new_buffer demo_ops None demo_datasets = Inr b0"
    "update_buffer (bo_float demo_ops) demo_config [demo_result 1 f_one, demo_result 0 f_zero] b0 = Inr b"
    "map (\<lambda>(n, eb). (map fst (eb_examples eb), map ex_id (eb_easy eb), map ex_id (eb_hard eb))) (bu_envs b) = [([2], [1], [0])]"
    "length (bu_rollouts b) = 2" "hashes_identify demo_ops demo_config (bu_envs b0)"
  have "(buffer_step demo_ops demo_config)\<^sup>*\<^sup>* b0 b" using b(2) by (blast intro: buffer_step.update)
  moreover have "fl_le (bo_float demo_ops) (bc_easy_fraction demo_config) f_zero"
    "fl_le (bo_float demo_ops) (bc_hard_fraction demo_config) f_zero" by (simp_all add: demo_ops_def demo_config_def)
  ultimately obtain b' where "load_buffer demo_ops demo_config (\<lambda>_ _ _. 0) (save_buffer b) b0 = Inr b'"
    "same_pools (bu_envs b) (bu_envs b')" "bu_rollouts b' = bu_rollouts b"
    using buffer_resumes [OF b(1) _ b(5)] by blast
  with b(3,4) show ?thesis by (intro exI [of _ b] exI [of _ b'] exI [of _ b0] conjI) simp_all
qed

end
