(* ===== verification/Scheduler.thy ===== *)
theory Scheduler
  imports Buffer
begin

text \<open>
  The scheduler of rollouts (\<open>orchestrator/scheduler.py\<close>): it keeps a bounded number of rollout requests
  in flight, collects their results in groups (one example, several rollouts), drops requests that a
  number of policy updates made stale, and hands completed groups to the buffer until a batch is full.
  Every definition here is a piece of code between two awaits; \<open>SchedulerRun\<close> interleaves them. Tasks are
  numbers; clocks are inputs, and so are the results of tasks.
\<close>

section \<open>Data\<close>

record client =
  cl_base_url :: string
  cl_rank :: "string option"
  cl_idx :: nat

type_synonym client_id = "string \<times> string option"

definition client_identity :: "client \<Rightarrow> client_id" where
  "client_identity c = (cl_base_url c, cl_rank c)"

record inflight_request =
  iq_off_policy_steps :: nat
  iq_client :: client
  iq_env :: string
  iq_group :: "nat option"
  iq_count :: nat

record client_stats =
  cs_requests :: nat
  cs_errors :: nat
  cs_total_duration :: float64
  cs_total_tokens :: nat
  cs_last_duration :: float64
  cs_last_tokens :: nat
  cs_last_throughput :: float64
  cs_throughput_ema :: "float64 option"

record group_state =
  gr_example :: example
  gr_to_schedule :: nat
  gr_completed :: "rollout list"
  gr_pinned :: "client option"
  gr_failed :: nat

text \<open>Python arithmetic on floats, besides \<open>float_ops\<close>.\<close>

record sched_ops =
  so_float :: float_ops
  so_of_nat :: "nat \<Rightarrow> float64"
  so_sub :: "float64 \<Rightarrow> float64 \<Rightarrow> float64"
  so_mul :: "float64 \<Rightarrow> float64 \<Rightarrow> float64"
  so_quot :: "float64 \<Rightarrow> float64 \<Rightarrow> float64"
  so_neg :: "float64 \<Rightarrow> float64"
  so_tiny :: float64

record sched_config =
  sg_group_size :: nat
  sg_batch_size :: "nat option"
  sg_token_batch_size :: "nat option"
  sg_max_inflight :: nat
  sg_max_off_policy :: nat
  sg_group_scoring :: "string \<Rightarrow> bool"
  sg_load_balancing :: bool
  sg_ema_beta :: float64

type_synonym counters = "(string, nat) dict"

record scheduler =
  sc_inflight :: "(nat, inflight_request) dict"
  sc_next_task :: nat
  sc_next_group :: nat
  sc_groups :: "(nat, group_state) dict"
  sc_ckpt_step :: int
  sc_ready :: bool
  sc_cancelled :: nat
  sc_empty :: counters
  sc_errored :: counters
  sc_error_types :: counters
  sc_total :: counters
  sc_dropped :: counters
  sc_stats :: "(client_id, client_stats) dict"
  sc_buffer :: buffer

text \<open>A scheduler starts without requests and groups.\<close>

definition new_scheduler :: "buffer \<Rightarrow> scheduler" where
  "new_scheduler b = \<lparr>sc_inflight = [], sc_next_task = 0, sc_next_group = 0, sc_groups = [], sc_ckpt_step = 0, sc_ready = True,
     sc_cancelled = 0, sc_empty = [], sc_errored = [], sc_error_types = [], sc_total = [], sc_dropped = [], sc_stats = [],
     sc_buffer = b\<rparr>"

definition bump :: "'k \<Rightarrow> nat \<Rightarrow> ('k, nat) dict \<Rightarrow> ('k, nat) dict" where
  "bump k n d = dput k ((case dget d k of None \<Rightarrow> 0 | Some m \<Rightarrow> m) + n) d"

section \<open>Statistics of clients\<close>

definition new_stats :: client_stats where
  "new_stats = \<lparr>cs_requests = 0, cs_errors = 0, cs_total_duration = f_zero, cs_total_tokens = 0, cs_last_duration = f_zero,
     cs_last_tokens = 0, cs_last_throughput = f_zero, cs_throughput_ema = None\<rparr>"

definition record_stats :: "sched_ops \<Rightarrow> float64 \<Rightarrow> nat \<Rightarrow> bool \<Rightarrow> float64 \<Rightarrow> client_stats \<Rightarrow> client_stats" where
  "record_stats ops duration token_count err beta st =
     (let positive = fl_lt (so_float ops) f_zero duration;
          throughput = (if positive then so_quot ops (so_of_nat ops token_count) duration else f_zero)
      in st\<lparr>cs_requests := cs_requests st + 1,
            cs_errors := (if err then cs_errors st + 1 else cs_errors st),
            cs_total_duration := fl_add (so_float ops) (cs_total_duration st) duration,
            cs_total_tokens := cs_total_tokens st + token_count,
            cs_last_duration := duration,
            cs_last_tokens := token_count,
            cs_last_throughput := throughput,
            cs_throughput_ema := (if token_count > 0 \<and> positive
               then Some (case cs_throughput_ema st of
                   None \<Rightarrow> throughput
                 | Some ema \<Rightarrow> fl_add (so_float ops) (so_mul ops beta ema) (so_mul ops (so_sub ops f_one beta) throughput))
               else cs_throughput_ema st)\<rparr>)"

definition reset_stats :: "client_stats \<Rightarrow> client_stats" where
  "reset_stats st = st\<lparr>cs_requests := 0, cs_errors := 0, cs_total_duration := f_zero, cs_total_tokens := 0\<rparr>"

definition record_rollout_client_result ::
  "sched_config \<Rightarrow> sched_ops \<Rightarrow> client \<Rightarrow> float64 \<Rightarrow> rollout list \<Rightarrow> bool \<Rightarrow> scheduler \<Rightarrow> scheduler" where
  "record_rollout_client_result cfg ops c duration rs err s =
     (let i = client_identity c; st = (case dget (sc_stats s) i of None \<Rightarrow> new_stats | Some st \<Rightarrow> st);
          tokens = sum_list (map get_seq_len (filter (\<lambda>r. ro_error r = None) rs));
          failed = err \<or> list_ex (\<lambda>r. ro_error r \<noteq> None) rs
      in s\<lparr>sc_stats := dput i (record_stats ops duration tokens failed (sg_ema_beta cfg) st) (sc_stats s)\<rparr>)"

section \<open>Routing\<close>

definition observed_throughput :: "sched_ops \<Rightarrow> client_stats \<Rightarrow> float64 option" where
  "observed_throughput ops st =
     (case cs_throughput_ema st of
        Some ema \<Rightarrow> if fl_lt (so_float ops) f_zero ema then Some ema else None
      | None \<Rightarrow> None)"

definition default_routing_weight :: "sched_ops \<Rightarrow> scheduler \<Rightarrow> float64" where
  "default_routing_weight ops s =
     (let observed = List.map_filter (\<lambda>(_, st). observed_throughput ops st) (sc_stats s)
      in if observed = [] then f_one else fl_div (so_float ops) (fl_sum (so_float ops) observed) (length observed))"

definition client_routing_weight :: "sched_config \<Rightarrow> sched_ops \<Rightarrow> scheduler \<Rightarrow> float64 \<Rightarrow> client \<Rightarrow> float64" where
  "client_routing_weight cfg ops s default_weight c =
     (if \<not> sg_load_balancing cfg then f_one
      else case dget (sc_stats s) (client_identity c) of
          None \<Rightarrow> default_weight
        | Some st \<Rightarrow> (case cs_throughput_ema st of
            None \<Rightarrow> default_weight
          | Some ema \<Rightarrow> if fl_le (so_float ops) ema f_zero then default_weight else ema))"

definition inflight_of_client :: "scheduler \<Rightarrow> client_id \<Rightarrow> nat" where
  "inflight_of_client s i = length (filter (\<lambda>(_, q). client_identity (iq_client q) = i) (sc_inflight s))"

definition client_load_score :: "sched_config \<Rightarrow> sched_ops \<Rightarrow> scheduler \<Rightarrow> client \<Rightarrow> float64 \<times> float64 \<times> nat" where
  "client_load_score cfg ops s c =
     (let w0 = client_routing_weight cfg ops s (default_routing_weight ops s) c;
          w = (if fl_lt (so_float ops) w0 (so_tiny ops) then so_tiny ops else w0)
      in (so_quot ops (so_of_nat ops (inflight_of_client s (client_identity c))) w, so_neg ops w, cl_idx c))"

text \<open>Tuples are compared at the first position where they differ; \<open>min\<close> takes the first least element.\<close>

definition score_less :: "float_ops \<Rightarrow> float64 \<times> float64 \<times> nat \<Rightarrow> float64 \<times> float64 \<times> nat \<Rightarrow> bool" where
  "score_less F a b =
     (if \<not> fl_eq F (fst a) (fst b) then fl_lt F (fst a) (fst b)
      else if \<not> fl_eq F (fst (snd a)) (fst (snd b)) then fl_lt F (fst (snd a)) (fst (snd b))
      else snd (snd a) < snd (snd b))"

fun min_by :: "('b \<Rightarrow> 'b \<Rightarrow> bool) \<Rightarrow> ('a \<Rightarrow> 'b) \<Rightarrow> 'a \<Rightarrow> 'a list \<Rightarrow> 'a" where
  "min_by lt f best [] = best"
| "min_by lt f best (x # xs) = min_by lt f (if lt (f x) (f best) then x else best) xs"

text \<open>Without clients the code waits for the pool to recover one: \<open>None\<close>.\<close>

definition select_least_loaded_client :: "sched_config \<Rightarrow> sched_ops \<Rightarrow> client list \<Rightarrow> scheduler \<Rightarrow> client option" where
  "select_least_loaded_client cfg ops clients s =
     (case clients of
        [] \<Rightarrow> None
      | c # cs \<Rightarrow> Some (min_by (score_less (so_float ops)) (client_load_score cfg ops s) c cs))"

section \<open>Groups and requests\<close>

definition inflight_rollout_count :: "scheduler \<Rightarrow> nat" where
  "inflight_rollout_count s = sum_list (map (\<lambda>(_, q). iq_count q) (sc_inflight s))"

definition inflight_sample_count :: "scheduler \<Rightarrow> nat" where
  "inflight_sample_count s = inflight_rollout_count s + sum_list (map (\<lambda>(_, g). gr_to_schedule g) (sc_groups s))"

text \<open>\<open>drop_group\<close> up to its await: the tasks to cancel and the rollouts they stand for.\<close>

definition drop_group :: "nat \<Rightarrow> scheduler \<Rightarrow> scheduler \<times> nat list \<times> nat" where
  "drop_group gid s =
     (let dropped = filter (\<lambda>(_, q). iq_group q = Some gid) (sc_inflight s)
      in (s\<lparr>sc_inflight := filter (\<lambda>(_, q). iq_group q \<noteq> Some gid) (sc_inflight s), sc_groups := dpop gid (sc_groups s)\<rparr>,
          map fst dropped, sum_list (map (\<lambda>(_, q). iq_count q) dropped)))"

definition request_cost :: "sched_config \<Rightarrow> group_state \<Rightarrow> nat" where
  "request_cost cfg g = (if sg_group_scoring cfg (ex_env (gr_example g)) then gr_to_schedule g else 1)"

text \<open>\<open>schedule_rollout\<close> has two awaits. After the rate limiter it returns if the group is gone or has nothing to
  schedule; a group without a client awaits one; then the request is made.\<close>

datatype entered = Gone | Pinned client | Unpinned

definition enter_schedule :: "nat \<Rightarrow> scheduler \<Rightarrow> entered" where
  "enter_schedule gid s =
     (case dget (sc_groups s) gid of
        None \<Rightarrow> Gone
      | Some g \<Rightarrow> if gr_to_schedule g = 0 then Gone
                  else (case gr_pinned g of None \<Rightarrow> Unpinned | Some c \<Rightarrow> Pinned c))"

definition dispatch :: "sched_config \<Rightarrow> nat \<Rightarrow> client \<Rightarrow> scheduler \<Rightarrow> scheduler" where
  "dispatch cfg gid c s =
     (case dget (sc_groups s) gid of
        None \<Rightarrow> s
      | Some g \<Rightarrow>
          let env_name = ex_env (gr_example g); n = request_cost cfg g in
          s\<lparr>sc_groups := dput gid (g\<lparr>gr_pinned := Some c, gr_to_schedule := gr_to_schedule g - n\<rparr>) (sc_groups s),
            sc_inflight := dput (sc_next_task s)
              \<lparr>iq_off_policy_steps = 0, iq_client = c, iq_env = env_name, iq_group = Some gid, iq_count = n\<rparr> (sc_inflight s),
            sc_next_task := sc_next_task s + 1\<rparr>)"

text \<open>\<open>_schedule_next_request\<close> up to its await: the group a request is to be made for, a new one if none has work
  that fits. The draw of an example is the input \<open>draw\<close>.\<close>

definition schedule_next :: "sched_config \<Rightarrow> sched_ops \<Rightarrow> nat \<times> nat \<Rightarrow> scheduler \<Rightarrow> (nat option \<times> scheduler) res" where
  "schedule_next cfg ops draw s =
     (let remaining = int (sg_max_inflight cfg) - int (inflight_rollout_count s) in
      if remaining \<le> 0 then Inr (None, s)
      else case find (\<lambda>(_, g). gr_to_schedule g > 0 \<and> int (request_cost cfg g) \<le> remaining) (sc_groups s) of
          Some (gid, _) \<Rightarrow> Inr (Some gid, s)
        | None \<Rightarrow>
            if remaining < int (sg_group_size cfg) then Inr (None, s)
            else bindR (sample_examples (so_float ops) [draw] (sc_buffer s)) (\<lambda>xs.
              let gid = sc_next_group s in
              Inr (Some gid, s\<lparr>sc_next_group := gid + 1,
                sc_groups := dput gid \<lparr>gr_example = hd xs, gr_to_schedule = sg_group_size cfg, gr_completed = [],
                                       gr_pinned = None, gr_failed = 0\<rparr> (sc_groups s)\<rparr>)))"

text \<open>Undisturbed, with the given clients: \<open>None\<close> is still waiting for a client.\<close>

definition schedule_rollout :: "sched_config \<Rightarrow> sched_ops \<Rightarrow> client list \<Rightarrow> nat \<Rightarrow> scheduler \<Rightarrow> scheduler option" where
  "schedule_rollout cfg ops clients gid s =
     (case enter_schedule gid s of
        Gone \<Rightarrow> Some s
      | Pinned c \<Rightarrow> Some (dispatch cfg gid c s)
      | Unpinned \<Rightarrow> map_option (\<lambda>c. dispatch cfg gid c s) (select_least_loaded_client cfg ops clients s))"

partial_function (option) fill_inflight_requests ::
  "sched_config \<Rightarrow> sched_ops \<Rightarrow> client list \<Rightarrow> (nat \<Rightarrow> nat \<times> nat) \<Rightarrow> scheduler \<Rightarrow> scheduler res option" where
  "fill_inflight_requests cfg ops clients draws s =
     (case schedule_next cfg ops (draws (sc_next_group s)) s of
        Inl e \<Rightarrow> Some (Inl e)
      | Inr r \<Rightarrow> (case fst r of
          None \<Rightarrow> Some (Inr (snd r))
        | Some gid \<Rightarrow> Option.bind (schedule_rollout cfg ops clients gid (snd r))
                        (\<lambda>s'. fill_inflight_requests cfg ops clients draws s')))"

text \<open>\<open>cancel_inflight_rollouts\<close>, before and after its await.\<close>

definition cancel_inflight_begin :: "scheduler \<Rightarrow> nat list \<times> nat" where
  "cancel_inflight_begin s = (dkeys (sc_inflight s), inflight_rollout_count s)"

definition cancel_inflight_end :: "nat \<Rightarrow> scheduler \<Rightarrow> scheduler" where
  "cancel_inflight_end n s = s\<lparr>sc_inflight := [], sc_groups := [], sc_cancelled := sc_cancelled s + n\<rparr>"

section \<open>Stale requests\<close>

definition stale_groups :: "sched_config \<Rightarrow> scheduler \<Rightarrow> nat list" where
  "stale_groups cfg s =
     remdups (List.map_filter (\<lambda>(_, q). if iq_off_policy_steps q \<ge> sg_max_off_policy cfg then iq_group q else None) (sc_inflight s))"

definition tasks_to_increment :: "sched_config \<Rightarrow> scheduler \<Rightarrow> nat list" where
  "tasks_to_increment cfg s =
     map fst (filter (\<lambda>(_, q). case iq_group q of None \<Rightarrow> True | Some gid \<Rightarrow> gid \<notin> set (stale_groups cfg s)) (sc_inflight s))"

definition increment_tasks :: "nat list \<Rightarrow> nat \<Rightarrow> scheduler \<Rightarrow> scheduler" where
  "increment_tasks tasks removed s =
     s\<lparr>sc_inflight := map (\<lambda>(t, q). (t, if t \<in> set tasks then q\<lparr>iq_off_policy_steps := iq_off_policy_steps q + 1\<rparr> else q)) (sc_inflight s),
       sc_cancelled := sc_cancelled s + removed\<rparr>"

section \<open>Finished tasks\<close>

fun tally_rollouts :: "string \<Rightarrow> rollout list \<Rightarrow> scheduler \<Rightarrow> scheduler \<times> rollout list" where
  "tally_rollouts env [] s = (s, [])"
| "tally_rollouts env (r # rs) s =
     (case ro_error r of
        Some e \<Rightarrow> tally_rollouts env rs (s\<lparr>sc_errored := bump env 1 (sc_errored s), sc_error_types := bump e 1 (sc_error_types s)\<rparr>)
      | None \<Rightarrow>
          if ro_trajectory r = [] then tally_rollouts env rs (s\<lparr>sc_empty := bump env 1 (sc_empty s)\<rparr>)
          else (let (s', valid) = tally_rollouts env rs s in (s', r\<lparr>ro_env_name := env\<rparr> # valid)))"

datatype task_outcome = Result "rollout list" | Cancelled | Raised

text \<open>What is left to do for the task: nothing, to await the cancellation of a group, or to take a completed group.\<close>

datatype handled = Skip | Await | Complete "rollout list"

definition finish_rollouts :: "sched_config \<Rightarrow> nat \<Rightarrow> string \<Rightarrow> rollout list \<Rightarrow> group_state \<Rightarrow> scheduler \<Rightarrow> scheduler \<times> handled" where
  "finish_rollouts cfg gid env rs g s0 =
     (let (s, valid) = tally_rollouts env rs (s0\<lparr>sc_total := bump env (length rs) (sc_total s0)\<rparr>);
          num_failed = length rs - length valid;
          g1 = g\<lparr>gr_failed := gr_failed g + num_failed\<rparr>
      in if num_failed > 0 \<and> sg_group_scoring cfg env
         then (fst (drop_group gid (s\<lparr>sc_dropped := bump env 1 (sc_dropped s)\<rparr>)), Await)
         else
           let g2 = g1\<lparr>gr_completed := gr_completed g1 @ valid\<rparr>; s2 = s\<lparr>sc_groups := dput gid g2 (sc_groups s)\<rparr> in
           if length (gr_completed g2) + gr_failed g2 < sg_group_size cfg then (s2, Skip)
           else if gr_completed g2 = []
             then (s2\<lparr>sc_dropped := bump env 1 (sc_dropped s2), sc_groups := dpop gid (sc_groups s2)\<rparr>, Skip)
           else (s2\<lparr>sc_groups := dpop gid (sc_groups s2)\<rparr>, Complete (gr_completed g2)))"

definition handle_finished :: "sched_config \<Rightarrow> sched_ops \<Rightarrow> nat \<Rightarrow> task_outcome \<Rightarrow> float64 \<Rightarrow> scheduler \<Rightarrow> scheduler \<times> handled" where
  "handle_finished cfg ops task out duration s =
     (case dget (sc_inflight s) task of
        None \<Rightarrow> (s, Skip)
      | Some q \<Rightarrow>
          let s1 = s\<lparr>sc_inflight := dpop task (sc_inflight s)\<rparr> in
          (case iq_group q of
             None \<Rightarrow> (s1, Skip)
           | Some gid \<Rightarrow>
               (case dget (sc_groups s1) gid of
                  None \<Rightarrow> (s1, Skip)
                | Some g \<Rightarrow>
                    (case out of
                       Result rs \<Rightarrow> finish_rollouts cfg gid (iq_env q) rs g
                                      (record_rollout_client_result cfg ops (iq_client q) duration rs False s1)
                     | Cancelled \<Rightarrow> (fst (drop_group gid s1), Await)
                     | Raised \<Rightarrow> (fst (drop_group gid (record_rollout_client_result cfg ops (iq_client q) duration [] True s1)), Await)))))"

text \<open>The client of a request that raised is quarantined.\<close>

definition quarantined_client :: "nat \<Rightarrow> task_outcome \<Rightarrow> scheduler \<Rightarrow> client option" where
  "quarantined_client task out s =
     (case dget (sc_inflight s) task of
        Some q \<Rightarrow> if out = Raised \<and> (case iq_group q of None \<Rightarrow> False | Some gid \<Rightarrow> dget (sc_groups s) gid \<noteq> None)
                  then Some (iq_client q) else None
      | None \<Rightarrow> None)"

section \<open>Batches\<close>

definition batch_target :: "sched_config \<Rightarrow> nat res" where
  "batch_target cfg =
     (case sg_token_batch_size cfg of
        Some n \<Rightarrow> Inr n
      | None \<Rightarrow> (case sg_batch_size cfg of Some n \<Rightarrow> Inr n | None \<Rightarrow> Inl (AssertionError ''batch_size'')))"

definition batch_progress_increment :: "sched_config \<Rightarrow> rollout list \<Rightarrow> nat" where
  "batch_progress_increment cfg rs =
     (if sg_token_batch_size cfg \<noteq> None then sum_list (map get_seq_len rs) else length rs)"

definition finalize_batch_rollouts :: "sched_config \<Rightarrow> rollout list \<Rightarrow> rollout list" where
  "finalize_batch_rollouts cfg rs = (case sg_batch_size cfg of None \<Rightarrow> rs | Some n \<Rightarrow> take n rs)"

text \<open>A completed group passes through the buffer.\<close>

definition accept_group :: "sched_ops \<Rightarrow> buffer_config \<Rightarrow> rollout list \<Rightarrow> scheduler \<Rightarrow> (scheduler \<times> rollout list) res" where
  "accept_group ops bc completed s =
     bindR (update_buffer (so_float ops) bc completed (sc_buffer s)) (\<lambda>b.
     let (accepted, b') = sample_rollouts (length completed) b in Inr (s\<lparr>sc_buffer := b'\<rparr>, accepted))"

end
