(* ===== verification/SchedulerProofs.thy ===== *)
theory SchedulerProofs
  imports Scheduler BufferProofs
begin

text \<open>
  The invariant of the scheduler and its preservation by every piece of code: requests belong to
  live groups, the rollouts of a group are accounted for, the capacity is respected and no request outlives
  the policy it may be stale against.
\<close>

section \<open>Sums over dictionaries\<close>

lemma sum_list_zero: "(\<And>x. x \<in> set xs \<Longrightarrow> f x = (0::nat)) \<Longrightarrow> sum_list (map f xs) = 0"
  by (induction xs) auto

lemma sum_filter_zero: "(\<And>x. x \<in> set xs \<Longrightarrow> \<not> P x \<Longrightarrow> f x = (0::nat)) \<Longrightarrow> sum_list (map f (filter P xs)) = sum_list (map f xs)"
  by (induction xs) auto

lemma sum_filter_le: "sum_list (map f (filter P xs)) \<le> (sum_list (map f xs) :: nat)"
  by (induction xs) auto

section \<open>The invariant\<close>

type_synonym requests = "(nat, inflight_request) dict"
type_synonym groups = "(nat, group_state) dict"

definition rollouts_in :: "requests \<Rightarrow> nat" where
  "rollouts_in I = sum_list (map (\<lambda>p. iq_count (snd p)) I)"

definition rollouts_of :: "requests \<Rightarrow> nat \<Rightarrow> nat" where
  "rollouts_of I gid = sum_list (map (\<lambda>p. if iq_group (snd p) = Some gid then iq_count (snd p) else 0) I)"

text \<open>Every rollout of a group has come back, is in flight or is still to be scheduled, and some has not come back.\<close>

definition group_ok :: "sched_config \<Rightarrow> requests \<Rightarrow> nat \<Rightarrow> group_state \<Rightarrow> bool" where
  "group_ok cfg I gid g \<longleftrightarrow>
     length (gr_completed g) + gr_failed g + rollouts_of I gid + gr_to_schedule g = sg_group_size cfg
   \<and> length (gr_completed g) + gr_failed g < sg_group_size cfg"

definition request_ok :: "sched_config \<Rightarrow> groups \<Rightarrow> inflight_request \<Rightarrow> bool" where
  "request_ok cfg G q \<longleftrightarrow> (\<exists>gid g. iq_group q = Some gid \<and> dget G gid = Some g \<and> iq_env q = ex_env (gr_example g))
     \<and> iq_count q > 0 \<and> iq_off_policy_steps q \<le> sg_max_off_policy cfg"

definition tracked :: "sched_config \<Rightarrow> requests \<Rightarrow> nat \<Rightarrow> nat \<Rightarrow> groups \<Rightarrow> bool" where
  "tracked cfg I nt ng G \<longleftrightarrow> distinct (dkeys I) \<and> distinct (dkeys G)
     \<and> (\<forall>t \<in> fst ` set I. t < nt) \<and> (\<forall>gid \<in> fst ` set G. gid < ng)
     \<and> (\<forall>gid g. dget G gid = Some g \<longrightarrow> group_ok cfg I gid g)
     \<and> (\<forall>t q. dget I t = Some q \<longrightarrow> request_ok cfg G q)
     \<and> rollouts_in I \<le> sg_max_inflight cfg"

definition sched_ok :: "sched_config \<Rightarrow> scheduler \<Rightarrow> bool" where
  "sched_ok cfg s \<longleftrightarrow> tracked cfg (sc_inflight s) (sc_next_task s) (sc_next_group s) (sc_groups s)"

lemma inflight_rollout_count_eq: "inflight_rollout_count s = rollouts_in (sc_inflight s)"
  by (simp add: inflight_rollout_count_def rollouts_in_def case_prod_unfold)

lemma trackedI:
  assumes "distinct (dkeys I)" "distinct (dkeys G)" "\<And>t. t \<in> fst ` set I \<Longrightarrow> t < nt" "\<And>gid. gid \<in> fst ` set G \<Longrightarrow> gid < ng"
    and "\<And>gid g. dget G gid = Some g \<Longrightarrow> group_ok cfg I gid g"
    and "\<And>t q. dget I t = Some q \<Longrightarrow> request_ok cfg G q"
    and "rollouts_in I \<le> sg_max_inflight cfg"
  shows "tracked cfg I nt ng G"
  unfolding tracked_def using assms by blast

lemma trackedD:
  assumes "tracked cfg I nt ng G"
  shows "distinct (dkeys I)" "distinct (dkeys G)" "t \<in> fst ` set I \<Longrightarrow> t < nt" "gid \<in> fst ` set G \<Longrightarrow> gid < ng"
    and "dget G gid = Some g \<Longrightarrow> group_ok cfg I gid g"
    and "dget I t = Some q \<Longrightarrow> request_ok cfg G q"
    and "rollouts_in I \<le> sg_max_inflight cfg"
  using assms unfolding tracked_def by blast+

lemma dget_filter_some:
  "distinct (dkeys d) \<Longrightarrow> dget (filter P d) k = Some v \<longleftrightarrow> dget d k = Some v \<and> P (k, v)"
  by (simp add: distinct_map_filter)

section \<open>Dropping a group\<close>

definition without :: "nat \<Rightarrow> requests \<Rightarrow> requests" where
  "without gid I = filter (\<lambda>p. iq_group (snd p) \<noteq> Some gid) I"

lemma without_other: "gid' \<noteq> gid \<Longrightarrow> rollouts_of (without gid I) gid' = rollouts_of I gid'"
  unfolding rollouts_of_def without_def by (rule sum_filter_zero) auto

lemma tracked_drop:
  assumes "tracked cfg I nt ng G"
  shows "tracked cfg (without gid I) nt ng (dpop gid G)"
proof (rule trackedI)
  note d = trackedD [OF assms]
  show "distinct (dkeys (without gid I))" using d(1) by (simp add: without_def distinct_map_filter)
  show "distinct (dkeys (dpop gid G))" using d(2) by (rule distinct_dkeys_dpop)
  show "t < nt" if "t \<in> fst ` set (without gid I)" for t using that d(3) by (auto simp: without_def)
  show "g < ng" if "g \<in> fst ` set (dpop gid G)" for g using that d(4) by (auto simp: set_dkeys_dpop)
  show "group_ok cfg (without gid I) gid' g" if "dget (dpop gid G) gid' = Some g" for gid' g
    using that d(5) by (auto simp: dget_dpop group_ok_def without_other split: if_splits)
  show "request_ok cfg (dpop gid G) q" if "dget (without gid I) t = Some q" for t q
    using that d(6) [of t q] dget_filter_some [OF d(1)] by (auto simp: without_def request_ok_def dget_dpop)
  show "rollouts_in (without gid I) \<le> sg_max_inflight cfg"
    using d(7) sum_filter_le [of "\<lambda>p. iq_count (snd p)" _ I] unfolding rollouts_in_def without_def by (meson le_trans)
qed

lemma drop_group_fields [simp]:
  "sc_inflight (fst (drop_group gid s)) = without gid (sc_inflight s)"
  "sc_groups (fst (drop_group gid s)) = dpop gid (sc_groups s)"
  "sc_next_task (fst (drop_group gid s)) = sc_next_task s" "sc_next_group (fst (drop_group gid s)) = sc_next_group s"
  "sc_buffer (fst (drop_group gid s)) = sc_buffer s"
  by (simp_all add: drop_group_def without_def case_prod_unfold Let_def)

lemma sched_ok_drop: "sched_ok cfg s \<Longrightarrow> sched_ok cfg (fst (drop_group gid s))"
  by (simp add: sched_ok_def tracked_drop)

section \<open>Scheduling\<close>

text \<open>A group that a request is to be made for, with room for the request.\<close>

definition ready_group :: "sched_config \<Rightarrow> scheduler \<Rightarrow> nat \<Rightarrow> bool" where
  "ready_group cfg s gid \<longleftrightarrow> (\<forall>g. dget (sc_groups s) gid = Some g \<longrightarrow>
     gr_to_schedule g > 0 \<and> rollouts_in (sc_inflight s) + request_cost cfg g \<le> sg_max_inflight cfg)"

lemma request_cost_le: "gr_to_schedule g > 0 \<Longrightarrow> 0 < request_cost cfg g \<and> request_cost cfg g \<le> gr_to_schedule g"
  by (simp add: request_cost_def)

lemma tracked_new_group:
  assumes t: "tracked cfg I nt ng G" and g: "gr_completed g = []" "gr_failed g = 0" "gr_to_schedule g = sg_group_size cfg"
    and "0 < sg_group_size cfg"
  shows "tracked cfg I nt (Suc ng) (dput ng g G)"
proof (rule trackedI)
  note d = trackedD [OF t]
  have new: "ng \<notin> fst ` set G" using d(4) [of ng] by auto
  show "distinct (dkeys I)" by (rule d(1))
  show "distinct (dkeys (dput ng g G))" using d(2) by (rule distinct_dkeys_dput)
  show "t < nt" if "t \<in> fst ` set I" for t using that by (rule d(3))
  show "gid < Suc ng" if "gid \<in> fst ` set (dput ng g G)" for gid
    using that d(4) [of gid] by (auto simp: set_dkeys_dput intro: less_SucI)
  have none: "dget G ng = None" using new by (simp add: map_of_eq_None_iff)
  have "rollouts_of I ng = 0" unfolding rollouts_of_def
  proof (rule sum_list_zero)
    fix p assume "p \<in> set I"
    then have "dget I (fst p) = Some (snd p)" using d(1) by simp
    then have "request_ok cfg G (snd p)" by (rule d(6))
    then show "(if iq_group (snd p) = Some ng then iq_count (snd p) else 0) = 0" using none by (auto simp: request_ok_def)
  qed
  then show "group_ok cfg I gid g'" if "dget (dput ng g G) gid = Some g'" for gid g'
    using that d(5) g assms(5) by (auto simp: dget_dput group_ok_def split: if_splits)
  show "request_ok cfg (dput ng g G) q" if "dget I t = Some q" for t q
    using d(6) [OF that] none by (auto simp: request_ok_def dget_dput)
  show "rollouts_in I \<le> sg_max_inflight cfg" by (rule d(7))
qed

lemma schedule_next_ok:
  assumes ok: "sched_ok cfg s" and r: "schedule_next cfg ops draw s = Inr (gid, s')" and pos: "0 < sg_group_size cfg"
  shows "sched_ok cfg s'" "gid = Some i \<Longrightarrow> ready_group cfg s' i \<and> dget (sc_groups s') i \<noteq> None"
    "sc_inflight s' = sc_inflight s" "gid = None \<Longrightarrow> s' = s" "sc_buffer s' = sc_buffer s" "sc_next_task s' = sc_next_task s"
proof -
  let ?rem = "int (sg_max_inflight cfg) - int (rollouts_in (sc_inflight s))"
  let ?P = "\<lambda>(_, g). gr_to_schedule g > 0 \<and> int (request_cost cfg g) \<le> ?rem"
  have d: "distinct (dkeys (sc_groups s))" using ok by (simp add: sched_ok_def tracked_def)
  consider (full) "gid = None" "s' = s"
    | (old) j g where "gid = Some j" "s' = s" "find ?P (sc_groups s) = Some (j, g)"
    | (new) x where "gid = Some (sc_next_group s)" "int (sg_group_size cfg) \<le> ?rem"
        "s' = s\<lparr>sc_next_group := sc_next_group s + 1,
                sc_groups := dput (sc_next_group s) \<lparr>gr_example = x, gr_to_schedule = sg_group_size cfg, gr_completed = [],
                                       gr_pinned = None, gr_failed = 0\<rparr> (sc_groups s)\<rparr>"
  proof (cases "?rem \<le> 0")
    case True
    then have "schedule_next cfg ops draw s = Inr (None, s)"
      by (simp add: schedule_next_def inflight_rollout_count_eq)
    then show thesis using r full by simp
  next
    case False
    show thesis
    proof (cases "find ?P (sc_groups s)")
      case (Some p)
      then have "schedule_next cfg ops draw s = Inr (Some (fst p), s)"
        using False by (simp add: schedule_next_def inflight_rollout_count_eq case_prod_unfold)
      then show thesis using r Some old [of "fst p" "snd p"] by simp
    next
      case None
      show thesis
      proof (cases "?rem < int (sg_group_size cfg)")
        case True
        then have "schedule_next cfg ops draw s = Inr (None, s)"
          using None False by (simp add: schedule_next_def inflight_rollout_count_eq case_prod_unfold)
        then show thesis using r full by simp
      next
        case few: False
        then have "schedule_next cfg ops draw s = bindR (sample_examples (so_float ops) [draw] (sc_buffer s)) (\<lambda>xs.
            Inr (Some (sc_next_group s), s\<lparr>sc_next_group := sc_next_group s + 1,
                sc_groups := dput (sc_next_group s) \<lparr>gr_example = hd xs, gr_to_schedule = sg_group_size cfg, gr_completed = [],
                                       gr_pinned = None, gr_failed = 0\<rparr> (sc_groups s)\<rparr>))"
          using None False by (simp add: schedule_next_def inflight_rollout_count_eq case_prod_unfold Let_def)
        with r obtain xs where "gid = Some (sc_next_group s)"
          "s' = s\<lparr>sc_next_group := sc_next_group s + 1,
                sc_groups := dput (sc_next_group s) \<lparr>gr_example = hd xs, gr_to_schedule = sg_group_size cfg, gr_completed = [],
                                       gr_pinned = None, gr_failed = 0\<rparr> (sc_groups s)\<rparr>"
          by (auto simp: res_simps)
        moreover have "int (sg_group_size cfg) \<le> ?rem" using few by (rule leI)
        ultimately show thesis by (intro new [of "hd xs"])
      qed
    qed
  qed
  note c = this
  show "sched_ok cfg s'"
    using c
  proof cases
    case (new x)
    then show ?thesis using ok pos by (simp add: sched_ok_def tracked_new_group)
  qed (use ok in simp_all)
  show "ready_group cfg s' i \<and> dget (sc_groups s') i \<noteq> None" if "gid = Some i"
    using c
  proof cases
    case (old j g)
    then have "(i, g) \<in> set (sc_groups s)" "?P (i, g)"
      using that by (auto simp: find_Some_iff dest: nth_mem)
    then show ?thesis using d old(2) by (auto simp: ready_group_def)
  next
    case (new x)
    then show ?thesis using that pos by (auto simp: ready_group_def dget_dput request_cost_def)
  qed (use that in simp)
  show "sc_inflight s' = sc_inflight s" "gid = None \<Longrightarrow> s' = s" "sc_buffer s' = sc_buffer s" "sc_next_task s' = sc_next_task s"
    using c by (cases; simp)+
qed

lemma tracked_dispatch:
  assumes t: "tracked cfg I nt ng G" and g: "dget G gid = Some g" and q: "iq_group q = Some gid" "iq_env q = ex_env (gr_example g)"
    "0 < iq_count q" "iq_count q \<le> gr_to_schedule g" "iq_off_policy_steps q \<le> sg_max_off_policy cfg"
    and cap: "rollouts_in I + iq_count q \<le> sg_max_inflight cfg"
  shows "tracked cfg (dput nt q I) (Suc nt) ng (dput gid (g\<lparr>gr_pinned := c, gr_to_schedule := gr_to_schedule g - iq_count q\<rparr>) G)"
proof (rule trackedI)
  note d = trackedD [OF t]
  let ?g = "g\<lparr>gr_pinned := c, gr_to_schedule := gr_to_schedule g - iq_count q\<rparr>"
  have new: "nt \<notin> fst ` set I" using d(3) [of nt] by auto
  have gin: "gid \<in> fst ` set G" using g by (metis in_dkeys_iff option.distinct(1))
  show "distinct (dkeys (dput nt q I))" using d(1) by (rule distinct_dkeys_dput)
  show "distinct (dkeys (dput gid ?g G))" using d(2) by (rule distinct_dkeys_dput)
  show "t < Suc nt" if "t \<in> fst ` set (dput nt q I)" for t
    using that d(3) [of t] by (auto simp: set_dkeys_dput intro: less_SucI)
  show "i < ng" if "i \<in> fst ` set (dput gid ?g G)" for i
    using that d(4) [of i] gin by (auto simp: set_dkeys_dput)
  show "group_ok cfg (dput nt q I) i g'" if "dget (dput gid ?g G) i = Some g'" for i g'
  proof (cases "i = gid")
    case True
    then have g': "g' = ?g" using that by (simp add: dget_dput)
    show ?thesis using d(5) [OF g] q unfolding g' True
      by (simp add: group_ok_def rollouts_of_def sum_dput_fresh [OF new])
  next
    case False
    then show ?thesis using that d(5) [of i g'] q(1)
      by (simp add: dget_dput group_ok_def rollouts_of_def sum_dput_fresh [OF new])
  qed
  show "request_ok cfg (dput gid ?g G) q'" if "dget (dput nt q I) t = Some q'" for t q'
  proof (cases "t = nt")
    case True
    then show ?thesis using that q g by (simp add: dget_dput request_ok_def)
  next
    case False
    then have "request_ok cfg G q'" using that d(6) by (simp add: dget_dput)
    then show ?thesis using g by (auto simp: request_ok_def dget_dput)
  qed
  show "rollouts_in (dput nt q I) \<le> sg_max_inflight cfg"
    using cap by (simp add: rollouts_in_def sum_dput_fresh [OF new])
qed

lemma dispatch_fields [simp]: "sc_buffer (dispatch cfg gid c s) = sc_buffer s" "sc_next_group (dispatch cfg gid c s) = sc_next_group s"
  by (simp_all add: dispatch_def Let_def split: option.split)

lemma sched_ok_dispatch:
  assumes "sched_ok cfg s" "ready_group cfg s gid"
  shows "sched_ok cfg (dispatch cfg gid c s)"
proof (cases "dget (sc_groups s) gid")
  case None
  then show ?thesis using assms(1) by (simp add: dispatch_def)
next
  case (Some g)
  let ?q = "\<lparr>iq_off_policy_steps = 0, iq_client = c, iq_env = ex_env (gr_example g), iq_group = Some gid, iq_count = request_cost cfg g\<rparr>"
  have r: "gr_to_schedule g > 0" "rollouts_in (sc_inflight s) + request_cost cfg g \<le> sg_max_inflight cfg"
    using assms(2) Some by (auto simp: ready_group_def)
  note c = request_cost_le [OF r(1)]
  from tracked_dispatch [OF assms(1) [unfolded sched_ok_def] Some, of ?q "Some c"] r c Some
  show ?thesis by (simp add: sched_ok_def dispatch_def Let_def)
qed

lemma dispatch_inflight:
  assumes "sched_ok cfg s" "dget (sc_groups s) gid = Some g"
  shows "rollouts_in (sc_inflight (dispatch cfg gid c s)) = rollouts_in (sc_inflight s) + request_cost cfg g"
proof -
  have "sc_next_task s \<notin> fst ` set (sc_inflight s)" using assms(1) unfolding sched_ok_def tracked_def by blast
  then show ?thesis by (simp add: dispatch_def assms(2) Let_def rollouts_in_def sum_dput_fresh)
qed

lemma ready_group_drop: "ready_group cfg s gid \<Longrightarrow> ready_group cfg (fst (drop_group i s)) gid"
proof -
  assume r: "ready_group cfg s gid"
  have "rollouts_in (without i (sc_inflight s)) \<le> rollouts_in (sc_inflight s)"
    unfolding rollouts_in_def without_def by (rule sum_filter_le)
  then show ?thesis using r by (fastforce simp: ready_group_def dget_dpop split: if_splits)
qed

section \<open>Finished tasks\<close>

lemma rollouts_of_dpop:
  "distinct (dkeys I) \<Longrightarrow> dget I t = Some q \<Longrightarrow>
   rollouts_of (dpop t I) gid + (if iq_group q = Some gid then iq_count q else 0) = rollouts_of I gid"
  using sum_dpop [of I t q "\<lambda>p. if iq_group (snd p) = Some gid then iq_count (snd p) else 0"]
  unfolding rollouts_of_def snd_conv .

lemma rollouts_in_dpop: "rollouts_in (dpop t I) \<le> rollouts_in I"
  unfolding rollouts_in_def dpop_def by (rule sum_filter_le)

lemma tracked_return:
  assumes t: "tracked cfg I nt ng G" and q: "dget I t = Some q" "iq_group q = Some gid" and g: "dget G gid = Some g"
    and g2: "gr_example g2 = gr_example g" "gr_to_schedule g2 = gr_to_schedule g"
      "length (gr_completed g2) + gr_failed g2 = length (gr_completed g) + gr_failed g + iq_count q"
      "length (gr_completed g2) + gr_failed g2 < sg_group_size cfg"
  shows "tracked cfg (dpop t I) nt ng (dput gid g2 G)"
proof (rule trackedI)
  note d = trackedD [OF t]
  have gin: "gid \<in> fst ` set G" using g by (metis in_dkeys_iff option.distinct(1))
  show "distinct (dkeys (dpop t I))" using d(1) by (rule distinct_dkeys_dpop)
  show "distinct (dkeys (dput gid g2 G))" using d(2) by (rule distinct_dkeys_dput)
  show "x < nt" if "x \<in> fst ` set (dpop t I)" for x using that d(3) [of x] by (simp add: set_dkeys_dpop)
  show "i < ng" if "i \<in> fst ` set (dput gid g2 G)" for i using that d(4) [of i] gin by (auto simp: set_dkeys_dput)
  show "group_ok cfg (dpop t I) i g'" if "dget (dput gid g2 G) i = Some g'" for i g'
  proof (cases "i = gid")
    case True
    then have g': "g' = g2" using that by (simp add: dget_dput)
    show ?thesis using d(5) [OF g] rollouts_of_dpop [OF d(1) q(1), of gid] q(2) g2 unfolding g' True group_ok_def by simp
  next
    case False
    then show ?thesis using that d(5) [of i g'] rollouts_of_dpop [OF d(1) q(1), of i] q(2) by (simp add: dget_dput group_ok_def)
  qed
  show "request_ok cfg (dput gid g2 G) q'" if "dget (dpop t I) x = Some q'" for x q'
    using that d(6) [of x q'] g g2(1) by (auto simp: dget_dpop request_ok_def dget_dput split: if_splits)
  show "rollouts_in (dpop t I) \<le> sg_max_inflight cfg" using rollouts_in_dpop d(7) by (rule le_trans)
qed

lemma without_dpop:
  assumes "distinct (dkeys I)" "dget I t = Some q" "iq_group q = Some gid"
  shows "without gid (dpop t I) = without gid I"
proof -
  have "iq_group (snd p) = Some gid" if "p \<in> set I" "fst p = t" for p
    using assms that by (metis map_of_eq_Some_iff option.inject prod.collapse)
  then show ?thesis by (auto simp: without_def dpop_def intro!: filter_cong)
qed

lemma tracked_drop_task:
  assumes "tracked cfg I nt ng G" "dget I t = Some q" "iq_group q = Some gid"
  shows "tracked cfg (without gid (dpop t I)) nt ng (dpop gid G)"
  using tracked_drop [OF assms(1)] by (simp add: without_dpop [OF trackedD(1) [OF assms(1)] assms(2,3)])

lemma tracked_complete:
  assumes t: "tracked cfg I nt ng G" and q: "dget I t = Some q" "iq_group q = Some gid" and g: "dget G gid = Some g"
    and full: "length (gr_completed g) + gr_failed g + iq_count q \<ge> sg_group_size cfg"
  shows "tracked cfg (dpop t I) nt ng (dpop gid G)"
proof -
  note d = trackedD [OF t]
  have z: "rollouts_of (dpop t I) gid = 0"
    using d(5) [OF g] rollouts_of_dpop [OF d(1) q(1), of gid] q(2) full by (simp add: group_ok_def)
  have "iq_group (snd p) \<noteq> Some gid" if p: "p \<in> set (dpop t I)" for p
  proof
    assume "iq_group (snd p) = Some gid"
    then have "iq_count (snd p) \<le> rollouts_of (dpop t I) gid"
      using p member_le_sum_list [of "iq_count (snd p)" "map (\<lambda>p. if iq_group (snd p) = Some gid then iq_count (snd p) else 0) (dpop t I)"]
      by (force simp: rollouts_of_def)
    moreover have "dget I (fst p) = Some (snd p)" using p d(1) by (auto simp: dpop_def)
    ultimately show False using d(6) [of "fst p" "snd p"] z by (simp add: request_ok_def)
  qed
  then have "without gid (dpop t I) = dpop t I" by (simp add: without_def filter_id_conv)
  then show ?thesis using tracked_drop_task [OF t q] by simp
qed

lemma tally_fields:
  assumes "tally_rollouts env rs s = (s', valid)"
  shows "sc_inflight s' = sc_inflight s" "sc_groups s' = sc_groups s" "sc_next_task s' = sc_next_task s"
    "sc_next_group s' = sc_next_group s" "sc_buffer s' = sc_buffer s" "length valid \<le> length rs"
    "\<forall>r \<in> set valid. ro_error r = None \<and> ro_trajectory r \<noteq> [] \<and> ro_env_name r = env"
proof -
  have "sc_inflight s' = sc_inflight s \<and> sc_groups s' = sc_groups s \<and> sc_next_task s' = sc_next_task s \<and>
    sc_next_group s' = sc_next_group s \<and> sc_buffer s' = sc_buffer s \<and> length valid \<le> length rs \<and>
    (\<forall>r \<in> set valid. ro_error r = None \<and> ro_trajectory r \<noteq> [] \<and> ro_env_name r = env)"
    using assms
  proof (induction env rs s arbitrary: s' valid rule: tally_rollouts.induct)
    case (2 env r rs s)
    show ?case
    proof (cases "ro_error r")
      case (Some e)
      then have "tally_rollouts env rs (s\<lparr>sc_errored := bump env 1 (sc_errored s), sc_error_types := bump e 1 (sc_error_types s)\<rparr>) = (s', valid)"
        using 2(4) by simp
      from 2(3) [OF Some this] show ?thesis by simp
    next
      case None
      show ?thesis
      proof (cases "ro_trajectory r = []")
        case True
        then have "tally_rollouts env rs (s\<lparr>sc_empty := bump env 1 (sc_empty s)\<rparr>) = (s', valid)" using 2(4) None by simp
        from 2(1) [OF None True this] show ?thesis by simp
      next
        case False
        obtain s1 v where v: "tally_rollouts env rs s = (s1, v)" by force
        then have "s' = s1" "valid = r\<lparr>ro_env_name := env\<rparr> # v" using 2(4) None False by auto
        with 2(2) [OF None False v] None False show ?thesis by simp
      qed
    qed
  qed simp
  then show "sc_inflight s' = sc_inflight s" "sc_groups s' = sc_groups s" "sc_next_task s' = sc_next_task s"
    "sc_next_group s' = sc_next_group s" "sc_buffer s' = sc_buffer s" "length valid \<le> length rs"
    "\<forall>r \<in> set valid. ro_error r = None \<and> ro_trajectory r \<noteq> [] \<and> ro_env_name r = env" by blast+
qed

lemma record_result_fields [simp]:
  "sc_inflight (record_rollout_client_result cfg ops c d rs e s) = sc_inflight s"
  "sc_groups (record_rollout_client_result cfg ops c d rs e s) = sc_groups s"
  "sc_next_task (record_rollout_client_result cfg ops c d rs e s) = sc_next_task s"
  "sc_next_group (record_rollout_client_result cfg ops c d rs e s) = sc_next_group s"
  "sc_buffer (record_rollout_client_result cfg ops c d rs e s) = sc_buffer s"
  by (simp_all add: record_rollout_client_result_def Let_def)

lemma finish_rollouts_ok:
  assumes t: "tracked cfg I (sc_next_task s) (sc_next_group s) (sc_groups s)" and I: "sc_inflight s = dpop t I"
    and q: "dget I t = Some q" "iq_group q = Some gid" "length rs = iq_count q" and g: "dget (sc_groups s) gid = Some g"
  shows "sched_ok cfg (fst (finish_rollouts cfg gid env rs g s))"
proof -
  obtain s1 valid where v: "tally_rollouts env rs (s\<lparr>sc_total := bump env (length rs) (sc_total s)\<rparr>) = (s1, valid)" by force
  note f = tally_fields [OF v]
  let ?n = "length rs - length valid"
  let ?g = "g\<lparr>gr_failed := gr_failed g + ?n, gr_completed := gr_completed g @ valid\<rparr>"
  have len: "length (gr_completed ?g) + gr_failed ?g = length (gr_completed g) + gr_failed g + iq_count q"
    using f(6) q(3) by simp
  show ?thesis
  proof (cases "?n > 0 \<and> sg_group_scoring cfg env")
    case True
    then show ?thesis using tracked_drop_task [OF t q(1,2)] f I
      by (simp add: finish_rollouts_def v Let_def sched_ok_def)
  next
    case False
    note nd = if_not_P [OF False]
    show ?thesis
    proof (cases "length (gr_completed ?g) + gr_failed ?g < sg_group_size cfg")
      case True
      have "tracked cfg (dpop t I) (sc_next_task s) (sc_next_group s) (dput gid ?g (sc_groups s))"
        by (rule tracked_return [OF t q(1,2) g]) (use True len in simp_all)
      then show ?thesis using True f I unfolding finish_rollouts_def v Let_def prod.case nd
        by (simp add: sched_ok_def)
    next
      case full: False
      have "tracked cfg (dpop t I) (sc_next_task s) (sc_next_group s) (dpop gid (sc_groups s))"
        by (rule tracked_complete [OF t q(1,2) g]) (use full len in simp)
      then show ?thesis using full f I unfolding finish_rollouts_def v Let_def prod.case nd
        by (simp add: sched_ok_def)
    qed
  qed
qed

lemma handle_finished_ok:
  assumes ok: "sched_ok cfg s"
    and res: "\<And>q rs. dget (sc_inflight s) t = Some q \<Longrightarrow> out = Result rs \<Longrightarrow> length rs = iq_count q"
  shows "sched_ok cfg (fst (handle_finished cfg ops t out d s))"
proof (cases "dget (sc_inflight s) t")
  case None
  then show ?thesis using ok by (simp add: handle_finished_def)
next
  case (Some q)
  note tr = ok [unfolded sched_ok_def]
  obtain gid g where g: "iq_group q = Some gid" "dget (sc_groups s) gid = Some g"
    using trackedD(6) [OF tr Some] by (auto simp: request_ok_def)
  show ?thesis
  proof (cases out)
    case (Result rs)
    then show ?thesis
      using finish_rollouts_ok [of cfg "sc_inflight s" "record_rollout_client_result cfg ops (iq_client q) d rs False
          (s\<lparr>sc_inflight := dpop t (sc_inflight s)\<rparr>)" t q gid rs g "iq_env q"] tr Some g res [OF Some Result]
      by (simp add: handle_finished_def)
  qed (use tracked_drop_task [OF tr Some g(1)] Some g in \<open>simp_all add: handle_finished_def sched_ok_def\<close>)
qed

section \<open>Stale requests\<close>

lemma increment_ok:
  assumes ok: "sched_ok cfg s"
    and young: "\<And>t q. t \<in> set ts \<Longrightarrow> dget (sc_inflight s) t = Some q \<Longrightarrow> iq_off_policy_steps q < sg_max_off_policy cfg"
  shows "sched_ok cfg (increment_tasks ts n s)"
proof -
  note d = trackedD [OF ok [unfolded sched_ok_def]]
  define f :: "nat \<Rightarrow> inflight_request \<Rightarrow> inflight_request" where "f = (\<lambda>t q. if t \<in> set ts then q\<lparr>iq_off_policy_steps := iq_off_policy_steps q + 1\<rparr> else q)"
  let ?I = "map (\<lambda>(t, q). (t, f t q)) (sc_inflight s)"
  have f: "iq_group (f t q) = iq_group q" "iq_count (f t q) = iq_count q" "iq_env (f t q) = iq_env q" for t q
    by (simp_all add: f_def)
  have keys: "dkeys ?I = dkeys (sc_inflight s)" by (rule dkeys_map)
  note get = dget_map [of f "sc_inflight s"]
  have sums: "rollouts_in ?I = rollouts_in (sc_inflight s)" "rollouts_of ?I gid = rollouts_of (sc_inflight s) gid" for gid
    unfolding rollouts_in_def rollouts_of_def map_map
    by (rule arg_cong [where f = sum_list], rule map_cong, auto simp: f)+
  have "tracked cfg ?I (sc_next_task s) (sc_next_group s) (sc_groups s)"
  proof (rule trackedI)
    show "distinct (dkeys ?I)" unfolding keys by (rule d(1))
    show "t < sc_next_task s" if "t \<in> fst ` set ?I" for t using that d(3) [of t] by force
    show "group_ok cfg ?I gid g" if "dget (sc_groups s) gid = Some g" for gid g
      using d(5) [OF that] by (simp add: group_ok_def sums)
    show "request_ok cfg (sc_groups s) q" if get_q: "dget ?I t = Some q" for t q
    proof -
      obtain q0 where q0: "dget (sc_inflight s) t = Some q0" "q = f t q0" using get_q [unfolded get map_option_eq_Some] by blast
      then show ?thesis using d(6) [OF q0(1)] young [of t q0] f by (auto simp: request_ok_def) (auto simp: f_def)
    qed
    show "rollouts_in ?I \<le> sg_max_inflight cfg" unfolding sums by (rule d(7))
  qed (fact d(2) d(4))+
  then show ?thesis by (simp add: sched_ok_def increment_tasks_def f_def)
qed

lemma tasks_to_increment_young:
  assumes "distinct (dkeys (sc_inflight s))" "t \<in> set (tasks_to_increment cfg s)" "dget (sc_inflight s) t = Some q" "iq_group q \<noteq> None"
  shows "iq_off_policy_steps q < sg_max_off_policy cfg"
proof (rule ccontr)
  assume old: "\<not> iq_off_policy_steps q < sg_max_off_policy cfg"
  obtain gid where gid: "iq_group q = Some gid" using assms(4) by blast
  have in_set: "(t, q) \<in> set (sc_inflight s)" using assms(3) by (rule map_of_SomeD)
  then have "gid \<in> set (stale_groups cfg s)"
  proof -
    have "gid \<in> (the \<circ> (\<lambda>(_, q). if iq_off_policy_steps q \<ge> sg_max_off_policy cfg then iq_group q else None)) ` {(t, q)}"
      using old gid by simp
    then show ?thesis using old gid in_set by (force simp: stale_groups_def List.map_filter_def)
  qed
  moreover obtain q' where "(t, q') \<in> set (sc_inflight s)" "case iq_group q' of None \<Rightarrow> True | Some gid \<Rightarrow> gid \<notin> set (stale_groups cfg s)"
    using assms(2) by (auto simp: tasks_to_increment_def)
  moreover have "q' = q" using assms(1) in_set \<open>(t, q') \<in> set (sc_inflight s)\<close> by (metis map_of_eq_Some_iff option.inject)
  ultimately show False using gid by simp
qed

section \<open>Filling the capacity\<close>

declare fill_inflight_requests.simps [code]

lemma schedule_rollout_ok:
  assumes ok: "sched_ok cfg s" and r: "ready_group cfg s gid" and g: "dget (sc_groups s) gid = Some g" and c: "clients \<noteq> []"
  shows "\<exists>s'. schedule_rollout cfg ops clients gid s = Some s' \<and> sched_ok cfg s'
    \<and> rollouts_in (sc_inflight s) < rollouts_in (sc_inflight s')"
proof -
  have w: "gr_to_schedule g > 0" using r g by (simp add: ready_group_def)
  obtain c where "schedule_rollout cfg ops clients gid s = Some (dispatch cfg gid c s)"
    using c g w by (cases clients; cases "gr_pinned g")
      (auto simp: schedule_rollout_def enter_schedule_def select_least_loaded_client_def)
  then show ?thesis
    using sched_ok_dispatch [OF ok r] dispatch_inflight [OF ok g] request_cost_le [OF w] by auto
qed

text \<open>Nothing more can be requested.\<close>

definition saturated :: "sched_config \<Rightarrow> scheduler \<Rightarrow> bool" where
  "saturated cfg s \<longleftrightarrow> (let remaining = int (sg_max_inflight cfg) - int (rollouts_in (sc_inflight s)) in
     remaining \<le> 0 \<or> (remaining < int (sg_group_size cfg)
       \<and> (\<forall>gid g. dget (sc_groups s) gid = Some g \<longrightarrow> gr_to_schedule g = 0 \<or> remaining < int (request_cost cfg g))))"

lemma schedule_next_None:
  assumes "schedule_next cfg ops draw s = Inr (None, s')"
  shows "s' = s \<and> saturated cfg s"
proof -
  let ?rem = "int (sg_max_inflight cfg) - int (rollouts_in (sc_inflight s))"
  let ?P = "\<lambda>p. gr_to_schedule (snd p) > 0 \<and> int (request_cost cfg (snd p)) \<le> ?rem"
  show ?thesis
  proof (cases "?rem \<le> 0")
    case True
    then show ?thesis using assms by (simp add: schedule_next_def inflight_rollout_count_eq saturated_def)
  next
    case False
    then have n: "find ?P (sc_groups s) = None"
      using assms by (auto simp: schedule_next_def inflight_rollout_count_eq case_prod_unfold Let_def split: option.splits)
    then have few: "?rem < int (sg_group_size cfg) \<and> s' = s"
      using assms False by (auto simp: schedule_next_def inflight_rollout_count_eq case_prod_unfold Let_def res_simps split: if_splits)
    have "gr_to_schedule g = 0 \<or> ?rem < int (request_cost cfg g)" if "dget (sc_groups s) gid = Some g" for gid g
      using n map_of_SomeD [OF that] unfolding find_None_iff by force
    then show ?thesis using few by (simp add: saturated_def)
  qed
qed

text \<open>Where a whole group fits into the capacity, filling never leaves the scheduler with nothing in flight, so
  that waiting for the first finished task is waiting for something.\<close>

lemma saturated_inflight:
  assumes "saturated cfg s" "sg_group_size cfg \<le> sg_max_inflight cfg" "0 < sg_max_inflight cfg"
  shows "sc_inflight s \<noteq> []"
  using assms by (auto simp: saturated_def Let_def rollouts_in_def)

text \<open>C27. Filling the capacity returns: with a positive group size and a client to ask, the loop that makes
  requests ends after finitely many rounds, with an error of the buffer or with the capacity used up as
  far as whole requests fit. If a whole group fits, something is in flight then, so that waiting for the first
  finished task is waiting for something.\<close>

theorem fill_returns:
  assumes "sched_ok cfg s" and "0 < sg_group_size cfg" and "clients \<noteq> []"
  shows "\<exists>r. fill_inflight_requests cfg ops clients draws s = Some r
     \<and> (case r of Inl e \<Rightarrow> \<exists>draw. sample_examples (so_float ops) [draw] (sc_buffer s) = Inl e
                 | Inr s' \<Rightarrow> sched_ok cfg s' \<and> saturated cfg s' \<and> rollouts_in (sc_inflight s) \<le> rollouts_in (sc_inflight s')
                     \<and> (sg_group_size cfg \<le> sg_max_inflight cfg \<longrightarrow> sc_inflight s' \<noteq> []))"
  using assms(1)
proof (induction "sg_max_inflight cfg - rollouts_in (sc_inflight s)" arbitrary: s rule: less_induct)
  case less
  show ?case
  proof (cases "schedule_next cfg ops (draws (sc_next_group s)) s")
    case (Inl e)
    have "sample_examples (so_float ops) [draws (sc_next_group s)] (sc_buffer s) = Inl e"
      using Inl by (auto simp: schedule_next_def Let_def res_simps split: if_splits option.splits prod.splits)
    then have "\<exists>draw. sample_examples (so_float ops) [draw] (sc_buffer s) = Inl e" by (rule exI)
    then show ?thesis by (subst fill_inflight_requests.simps) (simp add: Inl del: split_paired_Ex)
  next
    case (Inr p)
    obtain gid s1 where p: "p = (gid, s1)" by force
    note sn = schedule_next_ok [OF less.prems Inr [unfolded p] assms(2)]
    show ?thesis
    proof (cases gid)
      case None
      then have "s1 = s \<and> saturated cfg s" using schedule_next_None Inr p by blast
      then show ?thesis using less.prems saturated_inflight assms(2)
        by (subst fill_inflight_requests.simps) (auto simp: Inr p None)
    next
      case (Some i)
      then obtain g where g: "ready_group cfg s1 i" "dget (sc_groups s1) i = Some g" using sn(2) by blast
      obtain s2 where s2: "schedule_rollout cfg ops clients i s1 = Some s2" "sched_ok cfg s2"
        "rollouts_in (sc_inflight s1) < rollouts_in (sc_inflight s2)"
        using schedule_rollout_ok [OF sn(1) g assms(3)] by blast
      have b: "sc_buffer s2 = sc_buffer s"
        using s2(1) sn(5) by (auto simp: schedule_rollout_def split: entered.splits option.splits)
      have "rollouts_in (sc_inflight s2) \<le> sg_max_inflight cfg" using s2(2) unfolding sched_ok_def tracked_def by blast
      then have "sg_max_inflight cfg - rollouts_in (sc_inflight s2) < sg_max_inflight cfg - rollouts_in (sc_inflight s)"
        using s2(3) sn(3) by simp
      from less.hyps [OF this s2(2)] show ?thesis
        using s2(1,3) sn(3) b by (subst fill_inflight_requests.simps) (auto simp: Inr p Some split: sum.splits)
    qed
  qed
qed


lemma new_scheduler_ok: "sched_ok cfg (new_scheduler b)"
  by (simp add: sched_ok_def tracked_def new_scheduler_def rollouts_in_def)

definition demo_sched_config :: sched_config where
  "demo_sched_config = \<lparr>sg_group_size = 2, sg_batch_size = Some 1, sg_token_batch_size = None, sg_max_inflight = 3,
     sg_max_off_policy = 1, sg_group_scoring = (\<lambda>_. False), sg_load_balancing = False, sg_ema_beta = f_one\<rparr>"

definition demo_sched_ops :: sched_ops where
  "demo_sched_ops = \<lparr>so_float = bo_float demo_ops, so_of_nat = of_nat, so_sub = (-), so_mul = (*), so_quot = (\<lambda>x y. x),
     so_neg = (\<lambda>x. x), so_tiny = 0\<rparr>"

definition demo_client :: client where
  "demo_client = \<lparr>cl_base_url = ''http://a'', cl_rank = None, cl_idx = 0\<rparr>"

lemma demo_group_size: "0 < sg_group_size demo_sched_config"
  by (simp add: demo_sched_config_def)

lemma fill_returns_witness:
  "\<exists>b s'. fill_inflight_requests demo_sched_config demo_sched_ops [demo_client] (\<lambda>i. (0, i)) (new_scheduler b) = Some (Inr s')
     \<and> length (sc_inflight s') = 2 \<and> saturated demo_sched_config s'"
proof -
  have "case new_buffer demo_ops None demo_datasets of Inl _ \<Rightarrow> False | Inr b \<Rightarrow>
      (case fill_inflight_requests demo_sched_config demo_sched_ops [demo_client] (\<lambda>i. (0, i)) (new_scheduler b) of
         Some (Inr s') \<Rightarrow> length (sc_inflight s') = 2 | _ \<Rightarrow> False)"
    by code_simp
  then obtain b where b: "case fill_inflight_requests demo_sched_config demo_sched_ops [demo_client] (\<lambda>i. (0, i)) (new_scheduler b) of
         Some (Inr s') \<Rightarrow> length (sc_inflight s') = 2 | _ \<Rightarrow> False"
    by (cases "new_buffer demo_ops None demo_datasets") simp_all
  obtain s' where s': "fill_inflight_requests demo_sched_config demo_sched_ops [demo_client] (\<lambda>i. (0, i)) (new_scheduler b) = Some (Inr s')"
    "length (sc_inflight s') = 2"
  proof (cases "fill_inflight_requests demo_sched_config demo_sched_ops [demo_client] (\<lambda>i. (0, i)) (new_scheduler b)")
    case (Some r)
    then show thesis using b that by (cases r) simp_all
  qed (use b in simp)
  have "saturated demo_sched_config s'"
    using fill_returns [OF new_scheduler_ok demo_group_size, of "[demo_client]" demo_sched_ops "\<lambda>i. (0, i)" b] s'(1) by simp
  with s' show ?thesis by (intro exI [of _ b] exI [of _ s'] conjI)
qed

end
