(* ===== verification/SchedulerRun.thy ===== *)
theory SchedulerRun
  imports SchedulerProofs
begin

text \<open>
  Runs of the scheduler: \<open>generate_batch\<close> and the policy updates are two tasks of one event loop that
  take turns at their awaits. The program counter of each names the await it stands at; a step runs the
  code up to the next one. The policy task moves only while the main task is at an await. Results of tasks,
  the clients of the pool, the draws of examples and the versions that arrive are choices of the environment;
  that a group request returns as many rollouts as it was asked for is the documented behaviour of environments.
\<close>

section \<open>The machine\<close>

text \<open>The flag of the filling states tells whether the batch is complete.\<close>

datatype main_pc =
    Filling bool
  | Limited nat bool
  | Selecting nat bool
  | Waiting
  | Gated "nat list"
  | Handling "nat list"
  | Cancelling "nat list"
  | Returned "rollout list"

datatype policy_pc =
    Idle
  | Loading int bool
  | Dropping "nat list" "nat list" nat

record gen =
  gn_sched :: scheduler
  gn_pc :: main_pc
  gn_batch :: "rollout list"
  gn_progress :: nat
  gn_policy :: policy_pc

definition at_await :: "main_pc \<Rightarrow> bool" where
  "at_await pc = (case pc of Filling _ \<Rightarrow> False | Handling _ \<Rightarrow> False | _ \<Rightarrow> True)"

definition begin_batch :: "nat \<Rightarrow> gen \<Rightarrow> gen" where
  "begin_batch target g = g\<lparr>gn_pc := Filling (0 \<ge> target), gn_batch := [], gn_progress := 0\<rparr>"

text \<open>\<open>_schedule_next_request\<close> and the loop around it.\<close>

definition fill_step :: "sched_config \<Rightarrow> sched_ops \<Rightarrow> nat \<times> nat \<Rightarrow> bool \<Rightarrow> gen \<Rightarrow> gen res" where
  "fill_step cfg ops draw complete g =
     bindR (schedule_next cfg ops draw (gn_sched g)) (\<lambda>(r, s).
     Inr (g\<lparr>gn_sched := s, gn_pc := (case r of
            Some gid \<Rightarrow> Limited gid complete
          | None \<Rightarrow> if complete then Returned (finalize_batch_rollouts cfg (gn_batch g)) else Waiting)\<rparr>))"

definition acquired_step :: "sched_config \<Rightarrow> nat \<Rightarrow> bool \<Rightarrow> gen \<Rightarrow> gen" where
  "acquired_step cfg gid complete g =
     (case enter_schedule gid (gn_sched g) of
        Gone \<Rightarrow> g\<lparr>gn_pc := Filling complete\<rparr>
      | Pinned c \<Rightarrow> g\<lparr>gn_sched := dispatch cfg gid c (gn_sched g), gn_pc := Filling complete\<rparr>
      | Unpinned \<Rightarrow> g\<lparr>gn_pc := Selecting gid complete\<rparr>)"

text \<open>One finished task of the loop over them.\<close>

definition handle_step :: "sched_config \<Rightarrow> sched_ops \<Rightarrow> buffer_config \<Rightarrow> nat \<Rightarrow> task_outcome \<Rightarrow> float64 \<Rightarrow> nat list \<Rightarrow> gen \<Rightarrow> gen res" where
  "handle_step cfg ops bc t out duration ts g =
     (let (s, h) = handle_finished cfg ops t out duration (gn_sched g) in
      case h of
        Skip \<Rightarrow> Inr (g\<lparr>gn_sched := s, gn_pc := Handling ts\<rparr>)
      | Await \<Rightarrow> Inr (g\<lparr>gn_sched := s, gn_pc := Cancelling ts\<rparr>)
      | Complete rs \<Rightarrow>
          bindR (accept_group ops bc rs s) (\<lambda>(s', accepted).
          Inr (g\<lparr>gn_sched := s', gn_pc := Handling ts, gn_batch := gn_batch g @ accepted,
                 gn_progress := gn_progress g + batch_progress_increment cfg accepted\<rparr>)))"

text \<open>\<open>_apply_policy_update\<close>: waiting for the checkpoint closes the gate of the main loop if it is the
  trainer's next one; adopting it opens the gate and collects the stale groups, which are dropped one
  by one; then the requests that were current grow older by one step.\<close>

definition load_step :: "int \<Rightarrow> bool \<Rightarrow> gen \<Rightarrow> gen" where
  "load_step next_step paused g =
     g\<lparr>gn_policy := Loading next_step paused,
       gn_sched := (if paused then (gn_sched g)\<lparr>sc_ready := False\<rparr> else gn_sched g)\<rparr>"

definition load_fails_step :: "bool \<Rightarrow> gen \<Rightarrow> gen" where
  "load_fails_step paused g =
     g\<lparr>gn_policy := Idle, gn_sched := (if paused then (gn_sched g)\<lparr>sc_ready := True\<rparr> else gn_sched g)\<rparr>"

definition adopt_step :: "sched_config \<Rightarrow> int \<Rightarrow> gen \<Rightarrow> gen" where
  "adopt_step cfg next_step g =
     (let s = (gn_sched g)\<lparr>sc_ckpt_step := next_step, sc_ready := True\<rparr>
      in g\<lparr>gn_sched := s, gn_policy := Dropping (stale_groups cfg s) (tasks_to_increment cfg s) 0\<rparr>)"

definition drop_step :: "nat \<Rightarrow> nat list \<Rightarrow> nat list \<Rightarrow> nat \<Rightarrow> gen \<Rightarrow> gen" where
  "drop_step gid gids ts n g =
     (let (s, _, k) = drop_group gid (gn_sched g)
      in g\<lparr>gn_sched := s, gn_policy := Dropping (removeAll gid gids) ts (n + k)\<rparr>)"

inductive gen_step :: "sched_config \<Rightarrow> sched_ops \<Rightarrow> buffer_config \<Rightarrow> nat \<Rightarrow> gen \<Rightarrow> gen \<Rightarrow> bool"
  for cfg :: sched_config and ops :: sched_ops and bc :: buffer_config and target :: nat where
  fill: "gn_pc g = Filling complete \<Longrightarrow> fill_step cfg ops draw complete g = Inr g' \<Longrightarrow> gen_step cfg ops bc target g g'"
| acquired: "gn_pc g = Limited gid complete \<Longrightarrow> gen_step cfg ops bc target g (acquired_step cfg gid complete g)"
| selected: "gn_pc g = Selecting gid complete \<Longrightarrow> select_least_loaded_client cfg ops clients (gn_sched g) = Some c \<Longrightarrow>
    gen_step cfg ops bc target g (g\<lparr>gn_sched := dispatch cfg gid c (gn_sched g), gn_pc := Filling complete\<rparr>)"
| finished: "gn_pc g = Waiting \<Longrightarrow> gen_step cfg ops bc target g (g\<lparr>gn_pc := Gated ts\<rparr>)"
| gate: "gn_pc g = Gated ts \<Longrightarrow> sc_ready (gn_sched g) \<Longrightarrow> gen_step cfg ops bc target g (g\<lparr>gn_pc := Handling ts\<rparr>)"
| handle: "gn_pc g = Handling (t # ts) \<Longrightarrow> gn_progress g < target \<Longrightarrow>
    (\<And>q rs. dget (sc_inflight (gn_sched g)) t = Some q \<Longrightarrow> out = Result rs \<Longrightarrow> length rs = iq_count q) \<Longrightarrow>
    handle_step cfg ops bc t out duration ts g = Inr g' \<Longrightarrow> gen_step cfg ops bc target g g'"
| cancelled: "gn_pc g = Cancelling ts \<Longrightarrow> gen_step cfg ops bc target g (g\<lparr>gn_pc := Handling ts\<rparr>)"
| round: "gn_pc g = Handling ts \<Longrightarrow> ts = [] \<or> gn_progress g \<ge> target \<Longrightarrow>
    gen_step cfg ops bc target g (g\<lparr>gn_pc := Filling (gn_progress g \<ge> target)\<rparr>)"
| again: "gn_pc g = Returned rs \<Longrightarrow> gen_step cfg ops bc target g (begin_batch target g)"
| load: "at_await (gn_pc g) \<Longrightarrow> gn_policy g = Idle \<Longrightarrow> gen_step cfg ops bc target g (load_step next_step paused g)"
| load_fails: "at_await (gn_pc g) \<Longrightarrow> gn_policy g = Loading next_step paused \<Longrightarrow>
    gen_step cfg ops bc target g (load_fails_step paused g)"
| adopt: "at_await (gn_pc g) \<Longrightarrow> gn_policy g = Loading next_step paused \<Longrightarrow> gen_step cfg ops bc target g (adopt_step cfg next_step g)"
| drop: "at_await (gn_pc g) \<Longrightarrow> gn_policy g = Dropping gids ts n \<Longrightarrow> gid \<in> set gids \<Longrightarrow>
    gen_step cfg ops bc target g (drop_step gid gids ts n g)"
| settle: "at_await (gn_pc g) \<Longrightarrow> gn_policy g = Dropping [] ts n \<Longrightarrow>
    gen_step cfg ops bc target g (g\<lparr>gn_sched := increment_tasks ts n (gn_sched g), gn_policy := Idle\<rparr>)"

inductive_cases gen_stepE: "gen_step cfg ops bc target g g'"

definition gen_start :: "nat \<Rightarrow> buffer \<Rightarrow> gen" where
  "gen_start target b = begin_batch target \<lparr>gn_sched = new_scheduler b, gn_pc = Waiting, gn_batch = [], gn_progress = 0, gn_policy = Idle\<rparr>"

abbreviation gen_runs :: "sched_config \<Rightarrow> sched_ops \<Rightarrow> buffer_config \<Rightarrow> nat \<Rightarrow> gen \<Rightarrow> gen \<Rightarrow> bool" where
  "gen_runs cfg ops bc target \<equiv> (gen_step cfg ops bc target)\<^sup>*\<^sup>*"

section \<open>Requests and groups\<close>

text \<open>What holds between two steps: at the awaits of a request the group, if it still exists, has room; the
  requests that wait to grow older can afford it.\<close>

definition pc_ok :: "sched_config \<Rightarrow> scheduler \<Rightarrow> main_pc \<Rightarrow> bool" where
  "pc_ok cfg s pc = (case pc of Limited gid _ \<Rightarrow> ready_group cfg s gid | Selecting gid _ \<Rightarrow> ready_group cfg s gid | _ \<Rightarrow> True)"

definition policy_ok :: "sched_config \<Rightarrow> scheduler \<Rightarrow> policy_pc \<Rightarrow> bool" where
  "policy_ok cfg s p = (case p of
     Dropping _ ts _ \<Rightarrow> \<forall>t \<in> set ts. t < sc_next_task s \<and>
       (\<forall>q. dget (sc_inflight s) t = Some q \<longrightarrow> iq_off_policy_steps q < sg_max_off_policy cfg)
   | _ \<Rightarrow> True)"

definition gen_ok :: "sched_config \<Rightarrow> gen \<Rightarrow> bool" where
  "gen_ok cfg g \<longleftrightarrow> sched_ok cfg (gn_sched g) \<and> pc_ok cfg (gn_sched g) (gn_pc g) \<and> policy_ok cfg (gn_sched g) (gn_policy g)"

lemma gen_okI:
  "sched_ok cfg (gn_sched g) \<Longrightarrow> pc_ok cfg (gn_sched g) (gn_pc g) \<Longrightarrow> policy_ok cfg (gn_sched g) (gn_policy g) \<Longrightarrow> gen_ok cfg g"
  by (simp add: gen_ok_def)

lemma policy_ok_mono:
  assumes "policy_ok cfg s p" "sc_next_task s \<le> sc_next_task s'"
    and "\<And>t q. t < sc_next_task s \<Longrightarrow> dget (sc_inflight s') t = Some q \<Longrightarrow> dget (sc_inflight s) t = Some q"
  shows "policy_ok cfg s' p"
proof (cases p)
  case (Dropping gids ts n)
  then show ?thesis using assms by (simp add: policy_ok_def) (meson less_le_trans)
qed (simp_all add: policy_ok_def)

lemma dispatch_requests:
  "sc_next_task s \<le> sc_next_task (dispatch cfg gid c s)"
  "t < sc_next_task s \<Longrightarrow> dget (sc_inflight (dispatch cfg gid c s)) t = dget (sc_inflight s) t"
  by (auto simp: dispatch_def Let_def dget_dput split: option.split)

lemma policy_ok_dispatch: "policy_ok cfg s p \<Longrightarrow> policy_ok cfg (dispatch cfg gid c s) p"
  by (erule policy_ok_mono) (auto simp: dispatch_requests)

lemma policy_ok_drop: "sched_ok cfg s \<Longrightarrow> policy_ok cfg s p \<Longrightarrow> policy_ok cfg (fst (drop_group gid s)) p"
proof (erule policy_ok_mono)
  fix t q assume "sched_ok cfg s" and a: "dget (sc_inflight (fst (drop_group gid s))) t = Some q"
  then have "distinct (dkeys (sc_inflight s))" by (simp add: sched_ok_def tracked_def)
  from dget_filter_some [OF this] a show "dget (sc_inflight s) t = Some q" by (simp add: without_def)
qed simp_all

lemma finish_rollouts_requests:
  assumes d: "distinct (dkeys (sc_inflight s))"
  shows "sc_next_task (fst (finish_rollouts cfg gid env rs g s)) = sc_next_task s"
    and "dget (sc_inflight (fst (finish_rollouts cfg gid env rs g s))) t = Some q \<Longrightarrow> dget (sc_inflight s) t = Some q"
proof -
  obtain s1 valid where v: "tally_rollouts env rs (s\<lparr>sc_total := bump env (length rs) (sc_total s)\<rparr>) = (s1, valid)" by force
  note f = tally_fields [OF v]
  show "sc_next_task (fst (finish_rollouts cfg gid env rs g s)) = sc_next_task s"
    using f by (simp add: finish_rollouts_def v Let_def)
  show "dget (sc_inflight s) t = Some q" if "dget (sc_inflight (fst (finish_rollouts cfg gid env rs g s))) t = Some q"
    using that f dget_filter_some [OF d] by (auto simp: finish_rollouts_def v Let_def without_def split: if_splits)
qed

lemma handle_finished_requests:
  assumes "sched_ok cfg s"
  shows "sc_next_task (fst (handle_finished cfg ops t out d s)) = sc_next_task s"
    and "dget (sc_inflight (fst (handle_finished cfg ops t out d s))) x = Some q \<Longrightarrow> dget (sc_inflight s) x = Some q"
proof -
  have d: "distinct (dkeys (sc_inflight s))" "distinct (dkeys (dpop t (sc_inflight s)))"
    using assms distinct_dkeys_dpop by (auto simp: sched_ok_def tracked_def)
  show "sc_next_task (fst (handle_finished cfg ops t out d s)) = sc_next_task s"
    using d(2) by (simp add: handle_finished_def finish_rollouts_requests Let_def split: option.splits task_outcome.splits)
  show "dget (sc_inflight s) x = Some q" if "dget (sc_inflight (fst (handle_finished cfg ops t out d s))) x = Some q"
    using that d(2)
    by (auto simp: handle_finished_def Let_def dget_dpop dget_filter_some [OF d(2)] without_def
        split: option.splits task_outcome.splits if_splits dest!: finish_rollouts_requests(2) [rotated])
qed

lemma sched_ok_update [simp]:
  "sched_ok cfg (s\<lparr>sc_ready := r\<rparr>) = sched_ok cfg s" "sched_ok cfg (s\<lparr>sc_ckpt_step := k\<rparr>) = sched_ok cfg s"
  "sched_ok cfg (s\<lparr>sc_buffer := b\<rparr>) = sched_ok cfg s"
  by (simp_all add: sched_ok_def)

lemma pc_ok_update [simp]:
  "pc_ok cfg (s\<lparr>sc_ready := r\<rparr>) pc = pc_ok cfg s pc" "pc_ok cfg (s\<lparr>sc_ckpt_step := k\<rparr>) pc = pc_ok cfg s pc"
  by (simp_all add: pc_ok_def ready_group_def split: main_pc.splits)

lemma policy_ok_update [simp]:
  "policy_ok cfg (s\<lparr>sc_ready := r\<rparr>) p = policy_ok cfg s p" "policy_ok cfg (s\<lparr>sc_buffer := b\<rparr>) p = policy_ok cfg s p"
  by (simp_all add: policy_ok_def split: policy_pc.splits)

lemma pc_ok_simple [simp]:
  "pc_ok cfg s (Filling f)" "pc_ok cfg s Waiting" "pc_ok cfg s (Gated ts)" "pc_ok cfg s (Handling ts)"
  "pc_ok cfg s (Cancelling ts)" "pc_ok cfg s (Returned rs)"
  by (simp_all add: pc_ok_def)

lemma pc_ok_drop: "pc_ok cfg s pc \<Longrightarrow> pc_ok cfg (fst (drop_group gid s)) pc"
  by (simp add: pc_ok_def ready_group_drop split: main_pc.splits)

lemma pc_ok_increment: "pc_ok cfg s pc \<Longrightarrow> pc_ok cfg (increment_tasks ts n s) pc"
proof -
  assume p: "pc_ok cfg s pc"
  have "rollouts_in (sc_inflight (increment_tasks ts n s)) = rollouts_in (sc_inflight s)"
    unfolding rollouts_in_def increment_tasks_def
    by (simp add: comp_def case_prod_unfold if_distrib [of iq_count]) (rule arg_cong [where f = sum_list], rule map_cong, auto)
  moreover have "sc_groups (increment_tasks ts n s) = sc_groups s" by (simp add: increment_tasks_def)
  ultimately show ?thesis using p by (simp add: pc_ok_def ready_group_def split: main_pc.splits)
qed

lemma fill_step_ok:
  assumes "gen_ok cfg g" "fill_step cfg ops draw complete g = Inr g'" "0 < sg_group_size cfg"
  shows "gen_ok cfg g'"
proof -
  obtain r s where r: "schedule_next cfg ops draw (gn_sched g) = Inr (r, s)"
    "g' = g\<lparr>gn_sched := s, gn_pc := (case r of Some gid \<Rightarrow> Limited gid complete
      | None \<Rightarrow> if complete then Returned (finalize_batch_rollouts cfg (gn_batch g)) else Waiting)\<rparr>"
    using assms(2) by (auto simp: fill_step_def res_simps)
  have ok: "sched_ok cfg (gn_sched g)" "policy_ok cfg (gn_sched g) (gn_policy g)" using assms(1) by (auto simp: gen_ok_def)
  note sn = schedule_next_ok [OF ok(1) r(1) assms(3)]
  have "policy_ok cfg s (gn_policy g)" by (rule policy_ok_mono [OF ok(2)]) (simp_all add: sn(3,6))
  then show ?thesis using sn(1,2) by (auto simp: gen_ok_def r(2) pc_ok_def split: option.splits)
qed

lemma acquired_step_ok:
  assumes "gen_ok cfg g" "gn_pc g = Limited gid complete"
  shows "gen_ok cfg (acquired_step cfg gid complete g)"
proof -
  have ok: "sched_ok cfg (gn_sched g)" "policy_ok cfg (gn_sched g) (gn_policy g)" "ready_group cfg (gn_sched g) gid"
    using assms by (auto simp: gen_ok_def pc_ok_def)
  then show ?thesis
    by (cases "enter_schedule gid (gn_sched g)")
      (simp_all add: acquired_step_def gen_ok_def sched_ok_dispatch policy_ok_dispatch, simp add: pc_ok_def)
qed

lemma handle_step_ok:
  assumes ok: "gen_ok cfg g" and r: "handle_step cfg ops bc t out d ts g = Inr g'"
    and len: "\<And>q rs. dget (sc_inflight (gn_sched g)) t = Some q \<Longrightarrow> out = Result rs \<Longrightarrow> length rs = iq_count q"
  shows "gen_ok cfg g'"
proof -
  have o: "sched_ok cfg (gn_sched g)" "policy_ok cfg (gn_sched g) (gn_policy g)" using ok by (auto simp: gen_ok_def)
  obtain s h where h: "handle_finished cfg ops t out d (gn_sched g) = (s, h)" by force
  have s: "sched_ok cfg s" using handle_finished_ok [OF o(1), of t out ops d] len by (simp add: h)
  have p: "policy_ok cfg s (gn_policy g)"
    by (rule policy_ok_mono [OF o(2)])
      (use handle_finished_requests [OF o(1), where ops = ops and t = t and out = out and d = d] in \<open>simp_all add: h\<close>)
  show ?thesis
    using r s p by (cases h) (auto simp: handle_step_def h gen_ok_def accept_group_def Let_def res_simps case_prod_unfold)
qed

lemma adopt_step_ok: "gen_ok cfg g \<Longrightarrow> gen_ok cfg (adopt_step cfg next_step g)"
proof -
  assume ok: "gen_ok cfg g"
  let ?s = "(gn_sched g)\<lparr>sc_ckpt_step := next_step, sc_ready := True\<rparr>"
  have s: "sched_ok cfg ?s" using ok by (simp add: gen_ok_def)
  note d = trackedD [OF s [unfolded sched_ok_def]]
  have "policy_ok cfg ?s (Dropping (stale_groups cfg ?s) (tasks_to_increment cfg ?s) 0)"
  proof -
    have "t < sc_next_task ?s \<and> (\<forall>q. dget (sc_inflight ?s) t = Some q \<longrightarrow> iq_off_policy_steps q < sg_max_off_policy cfg)"
      if t: "t \<in> set (tasks_to_increment cfg ?s)" for t
    proof (intro conjI allI impI)
      show "t < sc_next_task ?s" using t d(3) [of t] by (force simp: tasks_to_increment_def)
      fix q assume q: "dget (sc_inflight ?s) t = Some q"
      have "iq_group q \<noteq> None" using d(6) [OF q] by (auto simp: request_ok_def)
      with tasks_to_increment_young [OF d(1) t q] show "iq_off_policy_steps q < sg_max_off_policy cfg" .
    qed
    then show ?thesis by (simp add: policy_ok_def)
  qed
  then show ?thesis using ok s by (simp add: gen_ok_def adopt_step_def Let_def)
qed

lemma gen_step_ok:
  assumes "gen_step cfg ops bc target g g'" "gen_ok cfg g" "0 < sg_group_size cfg"
  shows "gen_ok cfg g'"
  using assms(1)
proof cases
  case (fill complete draw)
  then show ?thesis using fill_step_ok assms(2,3) by blast
next
  case (acquired gid complete)
  then show ?thesis using acquired_step_ok assms(2) by blast
next
  case (selected gid complete clients c)
  then show ?thesis using assms(2) by (simp add: gen_ok_def sched_ok_dispatch policy_ok_dispatch pc_ok_def)
next
  case (handle t ts out duration)
  then show ?thesis using handle_step_ok [OF assms(2)] by blast
next
  case (adopt next_step paused)
  then show ?thesis using adopt_step_ok assms(2) by blast
next
  case (drop gids ts n gid)
  have "policy_ok cfg (gn_sched g) (Dropping (removeAll gid gids) ts (n + snd (snd (drop_group gid (gn_sched g)))))"
    using assms(2) drop(3) by (simp add: gen_ok_def policy_ok_def)
  then show ?thesis using assms(2) drop
    by (simp add: drop_step_def case_prod_unfold Let_def gen_ok_def sched_ok_drop pc_ok_drop policy_ok_drop)
next
  case (settle ts n)
  have "sched_ok cfg (increment_tasks ts n (gn_sched g))"
    by (rule increment_ok) (use assms(2) settle in \<open>auto simp: gen_ok_def policy_ok_def\<close>)
  then show ?thesis using assms(2) settle by (simp add: gen_ok_def pc_ok_increment policy_ok_def)
qed (use assms(2) in \<open>auto simp: gen_ok_def begin_batch_def load_step_def load_fails_step_def policy_ok_def\<close>)

lemma gen_runs_ok:
  assumes "gen_runs cfg ops bc target (gen_start target b) g" "0 < sg_group_size cfg"
  shows "gen_ok cfg g"
  using assms(1)
proof (induction rule: rtranclp_induct)
  case base
  show ?case by (simp add: gen_start_def begin_batch_def gen_ok_def new_scheduler_ok policy_ok_def)
next
  case (step y z)
  then show ?case using gen_step_ok assms(2) by blast
qed

text \<open>C20. Rollouts are accounted for: however results, failures, cancellations and policy updates interleave with
  the requests, every rollout of a live group has completed, failed, is in flight or is still to be requested,
  and the group is not yet done; every request in flight belongs to a live group of its
  environment; and the rollouts in flight respect the configured bound.\<close>

theorem groups_accounted:
  assumes "gen_runs cfg ops bc target (gen_start target b) g" and "0 < sg_group_size cfg"
  defines "s \<equiv> gn_sched g"
  shows "(\<forall>gid gr. dget (sc_groups s) gid = Some gr \<longrightarrow>
       length (gr_completed gr) + gr_failed gr + rollouts_of (sc_inflight s) gid + gr_to_schedule gr = sg_group_size cfg
     \<and> length (gr_completed gr) + gr_failed gr < sg_group_size cfg)
   \<and> (\<forall>t q. dget (sc_inflight s) t = Some q \<longrightarrow>
       (\<exists>gid gr. iq_group q = Some gid \<and> dget (sc_groups s) gid = Some gr \<and> iq_env q = ex_env (gr_example gr)))
   \<and> inflight_rollout_count s \<le> sg_max_inflight cfg"
proof -
  have "tracked cfg (sc_inflight s) (sc_next_task s) (sc_next_group s) (sc_groups s)"
    using gen_runs_ok [OF assms(1,2)] by (simp add: gen_ok_def sched_ok_def s_def)
  note d = trackedD [OF this]
  show ?thesis
    using d(5) d(6) d(7) unfolding group_ok_def request_ok_def inflight_rollout_count_eq by blast
qed

section \<open>The age of requests\<close>

text \<open>A run that counts the policy updates adopted so far, and notes for every request how many had been adopted
  when it was made. Nothing of the machine depends on the counts.\<close>

definition adopts :: "gen \<Rightarrow> gen \<Rightarrow> bool" where
  "adopts g g' \<longleftrightarrow> (case gn_policy g of Loading _ _ \<Rightarrow> True | _ \<Rightarrow> False) \<and> (case gn_policy g' of Dropping _ _ _ \<Rightarrow> True | _ \<Rightarrow> False)"

inductive counted_run :: "sched_config \<Rightarrow> sched_ops \<Rightarrow> buffer_config \<Rightarrow> nat \<Rightarrow> buffer \<Rightarrow> gen \<Rightarrow> nat \<Rightarrow> (nat \<Rightarrow> nat) \<Rightarrow> bool"
  for cfg :: sched_config and ops :: sched_ops and bc :: buffer_config and target :: nat and b :: buffer where
  starts: "counted_run cfg ops bc target b (gen_start target b) 0 (\<lambda>_. 0)"
| go: "counted_run cfg ops bc target b g updates started \<Longrightarrow> gen_step cfg ops bc target g g' \<Longrightarrow>
    updates' = (if adopts g g' then updates + 1 else updates) \<Longrightarrow>
    counted_run cfg ops bc target b g' updates' (\<lambda>t. if t < sc_next_task (gn_sched g) then started t else updates')"

lemma counted_gen_runs: "counted_run cfg ops bc target b g u st \<Longrightarrow> gen_runs cfg ops bc target (gen_start target b) g"
  by (induction rule: counted_run.induct) (auto intro: rtranclp.rtrancl_into_rtrancl)

lemma gen_runs_counted:
  "gen_runs cfg ops bc target (gen_start target b) g \<Longrightarrow> \<exists>u st. counted_run cfg ops bc target b g u st"
  by (induction rule: rtranclp_induct) (blast intro: counted_run.intros)+

definition aged :: "policy_pc \<Rightarrow> nat \<Rightarrow> nat \<Rightarrow> nat \<Rightarrow> inflight_request \<Rightarrow> bool" where
  "aged p u s t q \<longleftrightarrow> (case p of
     Dropping gids ts n \<Rightarrow> if t \<in> set ts then s + iq_off_policy_steps q + 1 = u
       else s + iq_off_policy_steps q = u \<or> (s + iq_off_policy_steps q + 1 = u \<and> (\<exists>gid \<in> set gids. iq_group q = Some gid))
   | _ \<Rightarrow> s + iq_off_policy_steps q = u)"

definition ages_ok :: "gen \<Rightarrow> nat \<Rightarrow> (nat \<Rightarrow> nat) \<Rightarrow> bool" where
  "ages_ok g u st \<longleftrightarrow> (\<forall>t. \<not> t < sc_next_task (gn_sched g) \<longrightarrow> st t = u)
     \<and> (\<forall>t q. dget (sc_inflight (gn_sched g)) t = Some q \<longrightarrow> aged (gn_policy g) u (st t) t q)"

lemma aged_new:
  "policy_ok cfg s p \<Longrightarrow> \<not> t < sc_next_task s \<Longrightarrow> iq_off_policy_steps q = 0 \<Longrightarrow> aged p u u t q"
  by (auto simp: aged_def policy_ok_def split: policy_pc.splits)

text \<open>Steps that leave the policy task alone: requests go, or new ones are made.\<close>

lemma ages_kept:
  assumes a: "ages_ok g u st" and p: "gn_policy g' = gn_policy g" and ok: "gen_ok cfg g"
    and n: "sc_next_task (gn_sched g) \<le> sc_next_task (gn_sched g')"
    and q: "\<And>t q. dget (sc_inflight (gn_sched g')) t = Some q \<Longrightarrow>
      dget (sc_inflight (gn_sched g)) t = Some q \<or> (\<not> t < sc_next_task (gn_sched g) \<and> iq_off_policy_steps q = 0)"
  shows "ages_ok g' u (\<lambda>t. if t < sc_next_task (gn_sched g) then st t else u)"
proof -
  have po: "policy_ok cfg (gn_sched g) (gn_policy g)" using ok by (simp add: gen_ok_def)
  have e: "(if t < sc_next_task (gn_sched g) then st t else u) = st t" for t using a by (simp add: ages_ok_def)
  have "aged (gn_policy g) u (st t) t r" if r: "dget (sc_inflight (gn_sched g')) t = Some r" for t r
    using q [OF r] a aged_new [OF po, of t r u] by (auto simp: ages_ok_def)
  then show ?thesis using a n by (simp only: ages_ok_def e p) simp
qed

lemma dispatch_new:
  "dget (sc_inflight (dispatch cfg gid c s)) t = Some q \<Longrightarrow>
   dget (sc_inflight s) t = Some q \<or> (\<not> t < sc_next_task s \<and> iq_off_policy_steps q = 0)"
  by (auto simp: dispatch_def Let_def dget_dput split: option.splits if_splits)

lemma ages_adopt:
  assumes a: "ages_ok g u st" and ok: "gen_ok cfg g" and p: "gn_policy g = Loading k paused"
  shows "ages_ok (adopt_step cfg k g) (u + 1) (\<lambda>t. if t < sc_next_task (gn_sched g) then st t else u + 1)"
proof -
  let ?s = "(gn_sched g)\<lparr>sc_ckpt_step := k, sc_ready := True\<rparr>"
  have tr: "tracked cfg (sc_inflight (gn_sched g)) (sc_next_task (gn_sched g)) (sc_next_group (gn_sched g)) (sc_groups (gn_sched g))"
    using ok by (simp add: gen_ok_def sched_ok_def)
  have "aged (Dropping (stale_groups cfg ?s) (tasks_to_increment cfg ?s) 0) (u + 1) (st t) t q \<and> t < sc_next_task (gn_sched g)"
    if q: "dget (sc_inflight (gn_sched g)) t = Some q" for t q
  proof -
    have in_set: "(t, q) \<in> set (sc_inflight ?s)" using q by (auto dest: map_of_SomeD)
    have st: "st t + iq_off_policy_steps q = u" using a q p by (simp add: ages_ok_def aged_def)
    have "\<exists>gid \<in> set (stale_groups cfg ?s). iq_group q = Some gid" if "t \<notin> set (tasks_to_increment cfg ?s)"
    proof -
      have "\<not> (case iq_group q of None \<Rightarrow> True | Some gid \<Rightarrow> gid \<notin> set (stale_groups cfg ?s))"
        using that in_set unfolding tasks_to_increment_def by force
      then show ?thesis by (auto split: option.splits)
    qed
    moreover have "t < sc_next_task (gn_sched g)" using trackedD(3) [OF tr, of t] in_set by force
    ultimately show ?thesis using st by (auto simp: aged_def)
  qed
  then show ?thesis by (simp add: ages_ok_def adopt_step_def Let_def)
qed

lemma ages_drop:
  assumes a: "ages_ok g u st" and ok: "gen_ok cfg g" and p: "gn_policy g = Dropping gids ts n"
  shows "ages_ok (drop_step gid gids ts n g) u st"
proof -
  let ?I = "sc_inflight (gn_sched g)"
  have d: "distinct (dkeys ?I)" using ok by (simp add: gen_ok_def sched_ok_def tracked_def)
  have "aged (Dropping (removeAll gid gids) ts m) u (st t) t q"
    if q: "dget (filter (\<lambda>(_, q). iq_group q \<noteq> Some gid) ?I) t = Some q" for t q m
  proof -
    have "dget ?I t = Some q" "iq_group q \<noteq> Some gid" using q by (simp_all add: dget_filter_some [OF d])
    moreover from this have "aged (Dropping gids ts n) u (st t) t q" using a p by (simp add: ages_ok_def)
    ultimately show ?thesis by (fastforce simp: aged_def split: if_splits)
  qed
  then show ?thesis using a by (simp add: ages_ok_def drop_step_def drop_group_def Let_def)
qed

lemma ages_settle:
  assumes a: "ages_ok g u st" and p: "gn_policy g = Dropping [] ts n"
  shows "ages_ok (g\<lparr>gn_sched := increment_tasks ts n (gn_sched g), gn_policy := Idle\<rparr>) u st"
proof -
  define f :: "nat \<Rightarrow> inflight_request \<Rightarrow> inflight_request" where "f = (\<lambda>t q. if t \<in> set ts then q\<lparr>iq_off_policy_steps := iq_off_policy_steps q + 1\<rparr> else q)"
  have i: "sc_inflight (increment_tasks ts n (gn_sched g)) = map (\<lambda>(t, q). (t, f t q)) (sc_inflight (gn_sched g))"
    by (simp add: increment_tasks_def f_def)
  have "aged Idle u (st t) t (f t q)" if "dget (sc_inflight (gn_sched g)) t = Some q" for t q
  proof -
    have "aged (Dropping [] ts n) u (st t) t q" using a p that by (simp add: ages_ok_def)
    then show ?thesis by (auto simp: aged_def f_def split: if_splits)
  qed
  then show ?thesis using a by (auto simp: ages_ok_def i dget_map) (simp add: increment_tasks_def)
qed

lemma ages_step:
  assumes s: "gen_step cfg ops bc target g g'" and a: "ages_ok g u st" and ok: "gen_ok cfg g" and gs: "0 < sg_group_size cfg"
  defines "u' \<equiv> if adopts g g' then u + 1 else u"
  shows "ages_ok g' u' (\<lambda>t. if t < sc_next_task (gn_sched g) then st t else u')"
proof -
  have so: "sched_ok cfg (gn_sched g)" using ok by (simp add: gen_ok_def)
  have old: "(\<lambda>t. if t < sc_next_task (gn_sched g) then st t else u) = st" using a by (auto simp: ages_ok_def)
  have same: "u' = u" if "gn_policy g' = gn_policy g" using that by (simp add: u'_def adopts_def split: policy_pc.splits)
  show ?thesis using s
  proof cases
    case (fill complete draw)
    then obtain r s where r: "schedule_next cfg ops draw (gn_sched g) = Inr (r, s)" "gn_sched g' = s" "gn_policy g' = gn_policy g"
      by (auto simp: fill_step_def res_simps)
    show ?thesis unfolding same [OF r(3)] using schedule_next_ok [OF so r(1) gs] by (intro ages_kept [OF a r(3) ok]) (simp_all add: r(2))
  next
    case (acquired gid complete)
    have p: "gn_policy g' = gn_policy g" unfolding acquired by (simp add: acquired_step_def split: entered.split)
    show ?thesis unfolding same [OF p]
      by (rule ages_kept [OF a p ok])
        (use dispatch_new dispatch_requests(1) in \<open>auto simp: acquired acquired_step_def split: entered.splits\<close>)
  next
    case (selected gid complete clients c)
    have p: "gn_policy g' = gn_policy g" unfolding selected by simp
    show ?thesis unfolding same [OF p]
      by (rule ages_kept [OF a p ok]) (use dispatch_new dispatch_requests(1) in \<open>auto simp: selected\<close>)
  next
    case (handle t ts out duration)
    obtain s h where h: "handle_finished cfg ops t out duration (gn_sched g) = (s, h)" by force
    have g': "gn_policy g' = gn_policy g" "sc_inflight (gn_sched g') = sc_inflight s" "sc_next_task (gn_sched g') = sc_next_task s"
      using handle(4) by (cases h; auto simp: handle_step_def h accept_group_def Let_def res_simps case_prod_unfold)+
    show ?thesis unfolding same [OF g'(1)]
      by (rule ages_kept [OF a g'(1) ok])
        (use handle_finished_requests [OF so, where ops = ops and t = t and out = out and d = duration] in \<open>simp_all add: h g'\<close>)
  next
    case (adopt k paused)
    then have "u' = u + 1" by (simp add: u'_def adopts_def adopt_step_def Let_def)
    with ages_adopt [OF a ok adopt(3)] show ?thesis by (simp only: adopt(1))
  next
    case (drop gids ts n gid)
    then have "u' = u" by (simp add: u'_def adopts_def)
    then show ?thesis using ages_drop [OF a ok drop(3)] drop(1) by (simp only: old)
  next
    case (settle ts n)
    then have "u' = u" by (simp add: u'_def adopts_def)
    then show ?thesis using ages_settle [OF a settle(3)] settle(1) by (simp only: old)
  next
    case (load next_step paused)
    have "u' = u" using load by (simp add: u'_def adopts_def)
    moreover have "ages_ok g' u st" using a load by (simp add: ages_ok_def aged_def load_step_def)
    ultimately show ?thesis by (simp only: old)
  next
    case (load_fails next_step paused)
    have "u' = u" using load_fails by (simp add: u'_def adopts_def load_fails_step_def)
    moreover have "ages_ok g' u st" using a load_fails by (simp add: ages_ok_def aged_def load_fails_step_def)
    ultimately show ?thesis by (simp only: old)
  next
    case (again rs)
    have p: "gn_policy g' = gn_policy g" unfolding again by (simp add: begin_batch_def)
    show ?thesis unfolding same [OF p] old using a by (simp add: again ages_ok_def begin_batch_def)
  next
    case (finished ts)
    have p: "gn_policy g' = gn_policy g" unfolding finished by simp
    show ?thesis unfolding same [OF p] old using a by (simp add: finished ages_ok_def)
  next
    case (gate ts)
    have p: "gn_policy g' = gn_policy g" unfolding gate by simp
    show ?thesis unfolding same [OF p] old using a by (simp add: gate ages_ok_def)
  next
    case (cancelled ts)
    have p: "gn_policy g' = gn_policy g" unfolding cancelled by simp
    show ?thesis unfolding same [OF p] old using a by (simp add: cancelled ages_ok_def)
  next
    case (round ts)
    have p: "gn_policy g' = gn_policy g" unfolding round by simp
    show ?thesis unfolding same [OF p] old using a by (simp add: round ages_ok_def)
  qed
qed

lemma counted_ages:
  assumes "counted_run cfg ops bc target b g u st" and "0 < sg_group_size cfg" shows "ages_ok g u st"
  using assms(1)
proof (induction rule: counted_run.induct)
  case starts
  show ?case by (simp add: ages_ok_def gen_start_def begin_batch_def new_scheduler_def)
next
  case (go g updates started g' updates')
  show ?case using ages_step [OF go(2,4) gen_runs_ok [OF counted_gen_runs [OF go(1)] assms(2)] assms(2)] by (simp only: go(3))
qed

text \<open>C22. No request outlives the policy it started under by more than the configured number of updates, also when requests
  are made while stale groups are being dropped. Count the updates that have been adopted, and let a request remember how many
  had been when it was made. Between two updates, the counter the request carries is exactly the number of updates
  adopted since, and that is at most the configured bound. While the stale groups of an update are being dropped, a request that exceeds
  the bound, by this one update, belongs to a group that is still to be dropped.\<close>

theorem no_stale_requests:
  assumes "counted_run cfg ops bc target b g updates started" and "0 < sg_group_size cfg"
    and "dget (sc_inflight (gn_sched g)) t = Some q"
  shows "started t \<le> updates \<and> iq_off_policy_steps q \<le> sg_max_off_policy cfg
    \<and> (case gn_policy g of
         Dropping gids ts n \<Rightarrow> updates - started t \<le> sg_max_off_policy cfg
           \<or> (updates - started t = sg_max_off_policy cfg + 1 \<and> (\<exists>gid \<in> set gids. iq_group q = Some gid))
       | _ \<Rightarrow> iq_off_policy_steps q = updates - started t)"
proof -
  have ok: "gen_ok cfg g" by (rule gen_runs_ok [OF counted_gen_runs [OF assms(1)] assms(2)])
  have "tracked cfg (sc_inflight (gn_sched g)) (sc_next_task (gn_sched g)) (sc_next_group (gn_sched g)) (sc_groups (gn_sched g))"
    using ok by (simp add: gen_ok_def sched_ok_def)
  from trackedD(6) [OF this assms(3)] have m: "iq_off_policy_steps q \<le> sg_max_off_policy cfg" by (simp add: request_ok_def)
  have a: "aged (gn_policy g) updates (started t) t q"
    using counted_ages [OF assms(1,2)] assms(3) by (simp add: ages_ok_def)
  show ?thesis
  proof (cases "gn_policy g")
    case (Dropping gids ts n)
    then have "t \<in> set ts \<Longrightarrow> iq_off_policy_steps q < sg_max_off_policy cfg"
      using ok assms(3) by (auto simp: gen_ok_def policy_ok_def)
    then show ?thesis using a m by (auto simp: Dropping aged_def split: if_splits)
  qed (use a m in \<open>auto simp: aged_def\<close>)
qed

section \<open>Batches\<close>

definition clean :: "rollout \<Rightarrow> bool" where
  "clean r \<longleftrightarrow> ro_error r = None \<and> ro_trajectory r \<noteq> []"

definition groups_clean :: "groups \<Rightarrow> bool" where
  "groups_clean G \<longleftrightarrow> (\<forall>gid gr. dget G gid = Some gr \<longrightarrow> list_all clean (gr_completed gr))"

definition sched_clean :: "scheduler \<Rightarrow> bool" where
  "sched_clean s \<longleftrightarrow> groups_clean (sc_groups s) \<and> list_all clean (bu_rollouts (sc_buffer s))"

lemma groups_clean_dpop [simp]: "groups_clean G \<Longrightarrow> groups_clean (dpop gid G)"
  by (auto simp: groups_clean_def dget_dpop)

lemma groups_clean_dput: "groups_clean G \<Longrightarrow> list_all clean (gr_completed gr) \<Longrightarrow> groups_clean (dput gid gr G)"
  by (auto simp: groups_clean_def dget_dput)

lemma sched_clean_drop: "sched_clean s \<Longrightarrow> sched_clean (fst (drop_group gid s))"
  by (simp add: sched_clean_def)

lemma sched_clean_dispatch: "sched_clean s \<Longrightarrow> sched_clean (dispatch cfg gid c s)"
  by (auto simp: sched_clean_def dispatch_def Let_def groups_clean_def dget_dput split: option.split)

lemma sched_clean_next: "sched_clean s \<Longrightarrow> schedule_next cfg ops draw s = Inr (r, s') \<Longrightarrow> sched_clean s'"
  by (auto simp: sched_clean_def schedule_next_def Let_def res_simps groups_clean_dput split: if_splits option.splits prod.splits)

lemma finish_rollouts_clean:
  assumes "sched_clean s" "list_all clean (gr_completed g)"
  shows "sched_clean (fst (finish_rollouts cfg gid env rs g s))"
    and "snd (finish_rollouts cfg gid env rs g s) = Complete xs \<Longrightarrow> list_all clean xs"
proof -
  obtain s1 valid where v: "tally_rollouts env rs (s\<lparr>sc_total := bump env (length rs) (sc_total s)\<rparr>) = (s1, valid)" by force
  note f = tally_fields [OF v]
  have "list_all clean valid" using f(7) by (auto simp: list_all_iff clean_def)
  then have c: "list_all clean (gr_completed g @ valid)" using assms(2) by simp
  show "sched_clean (fst (finish_rollouts cfg gid env rs g s))"
    using assms(1) f(2,5) c by (auto simp: finish_rollouts_def v Let_def sched_clean_def groups_clean_dput)
  show "list_all clean xs" if "snd (finish_rollouts cfg gid env rs g s) = Complete xs"
    using that c by (auto simp: finish_rollouts_def v Let_def split: if_splits)
qed

lemma sched_clean_fields [simp]:
  "sched_clean (record_rollout_client_result cfg ops c d rs e s) = sched_clean s"
  "sched_clean (s\<lparr>sc_inflight := I\<rparr>) = sched_clean s" "sched_clean (s\<lparr>sc_ready := b\<rparr>) = sched_clean s"
  "sched_clean (s\<lparr>sc_ckpt_step := k\<rparr>) = sched_clean s" "sched_clean (increment_tasks ts n s) = sched_clean s"
  by (simp_all add: sched_clean_def increment_tasks_def)

lemma handle_finished_clean:
  assumes "sched_clean s"
  shows "sched_clean (fst (handle_finished cfg ops t out d s))"
    and "snd (handle_finished cfg ops t out d s) = Complete xs \<Longrightarrow> list_all clean xs"
proof -
  have g: "list_all clean (gr_completed g)" if "dget (sc_groups s) gid = Some g" for gid g
    using assms that by (auto simp: sched_clean_def groups_clean_def)
  show "sched_clean (fst (handle_finished cfg ops t out d s))"
    using assms by (auto simp: handle_finished_def Let_def sched_clean_drop finish_rollouts_clean(1) g split: option.split task_outcome.split)
  show "list_all clean xs" if "snd (handle_finished cfg ops t out d s) = Complete xs"
    using that assms by (auto simp: handle_finished_def Let_def g split: option.splits task_outcome.splits
        dest!: finish_rollouts_clean(2) [rotated -1])
qed

lemma group_rollouts_members:
  "set (concat (map snd (foldl (\<lambda>d r. dput (group_key r) ((case dget d (group_key r) of None \<Rightarrow> [] | Some g \<Rightarrow> g) @ [r]) d) d rs)))
   \<subseteq> set (concat (map snd d)) \<union> set rs"
proof (induction rs arbitrary: d)
  case (Cons r rs)
  let ?v = "(case dget d (group_key r) of None \<Rightarrow> [] | Some g \<Rightarrow> g) @ [r]"
  have v: "set ?v \<subseteq> set (concat (map snd d)) \<union> {r}"
  proof (cases "dget d (group_key r)")
    case (Some g)
    then have "(group_key r, g) \<in> set d" by (rule map_of_SomeD)
    then show ?thesis using Some by force
  qed simp
  have "set (concat (map snd (dput k v d))) \<subseteq> set (concat (map snd d)) \<union> set v" for k :: group_key and v :: "rollout list"
    by (induction k v d rule: dput.induct) auto
  then have "set (concat (map snd (dput (group_key r) ?v d))) \<subseteq> set (concat (map snd d)) \<union> {r}"
    by (rule subset_trans) (use v in blast)
  then show ?case unfolding foldl_Cons by (intro subset_trans [OF Cons.IH]) auto
qed simp

lemma update_buffer_rollouts:
  assumes "update_buffer F c rs b = Inr b'" "list_all clean (bu_rollouts b)" "list_all clean rs"
  shows "list_all clean (bu_rollouts b')"
  using assms(1) unfolding update_buffer_def
proof (rule foldR_invariant [where P = "\<lambda>b. list_all clean (bu_rollouts b)"])
  fix s g s' assume s: "list_all clean (bu_rollouts s)" "g \<in> set (group_rollouts rs)" "update_example F c s g = Inr s'"
  have "set (snd g) \<subseteq> set rs"
    using group_rollouts_members [of "[]" rs] s(2) unfolding group_rollouts_def by auto
  then have "list_all clean (snd g)" using assms(3) by (auto simp: list_all_iff)
  then show "list_all clean (bu_rollouts s')"
    using s(1,3) by (auto simp: update_example_def Let_def split: prod.splits option.splits if_splits)
qed (rule assms(2))

lemma accept_group_clean:
  assumes "accept_group ops bc rs s = Inr (s', accepted)" "sched_clean s" "list_all clean rs"
  shows "sched_clean s' \<and> list_all clean accepted"
proof -
  obtain b where b: "update_buffer (so_float ops) bc rs (sc_buffer s) = Inr b"
    "s' = s\<lparr>sc_buffer := snd (sample_rollouts (length rs) b)\<rparr>" "accepted = fst (sample_rollouts (length rs) b)"
    using assms(1) by (auto simp: accept_group_def Let_def res_simps case_prod_unfold)
  have "list_all clean (bu_rollouts b)"
    by (rule update_buffer_rollouts [OF b(1) _ assms(3)]) (use assms(2) in \<open>simp add: sched_clean_def\<close>)
  then have "list_all clean accepted \<and> list_all clean (bu_rollouts (snd (sample_rollouts (length rs) b)))"
    by (auto simp: b(3) sample_rollouts_def Let_def list_all_iff dest: in_set_takeD in_set_dropD)
  then show ?thesis using assms(2) by (simp add: b(2) sched_clean_def)
qed

text \<open>The batch so far, its progress, and what a returned batch is.\<close>

definition pc_batch_ok :: "sched_config \<Rightarrow> nat \<Rightarrow> main_pc \<Rightarrow> nat \<Rightarrow> rollout list \<Rightarrow> bool" where
  "pc_batch_ok cfg target pc progress batch = (case pc of
     Filling f \<Rightarrow> f \<longrightarrow> progress \<ge> target
   | Limited _ f \<Rightarrow> f \<longrightarrow> progress \<ge> target
   | Selecting _ f \<Rightarrow> f \<longrightarrow> progress \<ge> target
   | Returned rs \<Rightarrow> progress \<ge> target \<and> rs = finalize_batch_rollouts cfg batch
   | _ \<Rightarrow> True)"

definition batch_ok :: "sched_config \<Rightarrow> nat \<Rightarrow> gen \<Rightarrow> bool" where
  "batch_ok cfg target g \<longleftrightarrow> sched_clean (gn_sched g) \<and> list_all clean (gn_batch g)
     \<and> gn_progress g = batch_progress_increment cfg (gn_batch g)
     \<and> pc_batch_ok cfg target (gn_pc g) (gn_progress g) (gn_batch g)"

lemma pc_batch_simps [simp]:
  "pc_batch_ok cfg target (Filling f) n rs \<longleftrightarrow> (f \<longrightarrow> n \<ge> target)"
  "pc_batch_ok cfg target (Limited gid f) n rs \<longleftrightarrow> (f \<longrightarrow> n \<ge> target)"
  "pc_batch_ok cfg target (Selecting gid f) n rs \<longleftrightarrow> (f \<longrightarrow> n \<ge> target)"
  "pc_batch_ok cfg target (Returned xs) n rs \<longleftrightarrow> n \<ge> target \<and> xs = finalize_batch_rollouts cfg rs"
  "pc_batch_ok cfg target Waiting n rs" "pc_batch_ok cfg target (Gated ts) n rs" "pc_batch_ok cfg target (Handling ts) n rs"
  "pc_batch_ok cfg target (Cancelling ts) n rs"
  by (simp_all add: pc_batch_ok_def)

lemma progress_Nil [simp]: "batch_progress_increment cfg [] = 0"
  by (simp add: batch_progress_increment_def)

lemma progress_append:
  "batch_progress_increment cfg (xs @ ys) = batch_progress_increment cfg xs + batch_progress_increment cfg ys"
  by (simp add: batch_progress_increment_def)

lemma gen_step_batch:
  assumes "gen_step cfg ops bc target g g'" "batch_ok cfg target g"
  shows "batch_ok cfg target g'"
  using assms(1)
proof cases
  case (fill complete draw)
  then obtain r s where r: "schedule_next cfg ops draw (gn_sched g) = Inr (r, s)"
    "g' = g\<lparr>gn_sched := s, gn_pc := (case r of Some gid \<Rightarrow> Limited gid complete
      | None \<Rightarrow> if complete then Returned (finalize_batch_rollouts cfg (gn_batch g)) else Waiting)\<rparr>"
    by (auto simp: fill_step_def res_simps)
  have "sched_clean s" using sched_clean_next [OF _ r(1)] assms(2) by (simp add: batch_ok_def)
  then show ?thesis using assms(2) fill(1) r(2) by (auto simp: batch_ok_def split: option.splits)
next
  case (acquired gid complete)
  then show ?thesis using assms(2) sched_clean_dispatch
    by (cases "enter_schedule gid (gn_sched g)") (auto simp: acquired_step_def batch_ok_def)
next
  case (selected gid complete clients c)
  then show ?thesis using assms(2) sched_clean_dispatch by (auto simp: batch_ok_def)
next
  case (handle t ts out duration)
  obtain s h where h: "handle_finished cfg ops t out duration (gn_sched g) = (s, h)" by force
  have c: "sched_clean s" "h = Complete rs \<Longrightarrow> list_all clean rs" for rs
    using handle_finished_clean [of "gn_sched g" cfg ops t out duration] assms(2) h by (auto simp: batch_ok_def)
  show ?thesis
  proof (cases h)
    case (Complete rs)
    then obtain s' acc where a: "accept_group ops bc rs s = Inr (s', acc)"
      "g' = g\<lparr>gn_sched := s', gn_pc := Handling ts, gn_batch := gn_batch g @ acc,
                 gn_progress := gn_progress g + batch_progress_increment cfg acc\<rparr>"
      using handle(4) h by (auto simp: handle_step_def res_simps)
    from accept_group_clean [OF a(1) c(1) c(2) [OF Complete]] show ?thesis
      using assms(2) by (simp add: a(2) batch_ok_def progress_append)
  qed (use handle(4) h c assms(2) in \<open>auto simp: handle_step_def batch_ok_def\<close>)
next
  case (drop gids ts n gid)
  then show ?thesis using assms(2) sched_clean_drop
    by (auto simp: drop_step_def case_prod_unfold Let_def batch_ok_def)
qed (use assms(2) in \<open>auto simp: batch_ok_def begin_batch_def load_step_def load_fails_step_def adopt_step_def
      Let_def\<close>)

lemma gen_runs_batch:
  assumes "gen_runs cfg ops bc target (gen_start target b) g" "list_all clean (bu_rollouts b)"
  shows "batch_ok cfg target g"
  using assms(1)
proof (induction rule: rtranclp_induct)
  case base
  show ?case using assms(2)
    by (simp add: gen_start_def begin_batch_def batch_ok_def sched_clean_def new_scheduler_def groups_clean_def)
next
  case (step y z)
  then show ?case using gen_step_batch by blast
qed

text \<open>What a batch holds: every batch that is returned consists of rollouts that ended without error and
  have a trajectory; with a batch size it has exactly that many, with a token budget at least that many
  tokens.\<close>

theorem batch_complete:
  assumes "gen_runs cfg ops bc target (gen_start target b) g" and "list_all clean (bu_rollouts b)"
    and "batch_target cfg = Inr target" and "gn_pc g = Returned rs"
  shows "(\<forall>r \<in> set rs. ro_error r = None \<and> ro_trajectory r \<noteq> [])
     \<and> (case sg_token_batch_size cfg of
          None \<Rightarrow> length rs = target
        | Some n \<Rightarrow> sg_batch_size cfg = None \<longrightarrow> sum_list (map get_seq_len rs) \<ge> n)"
proof -
  have b: "list_all clean (gn_batch g)" "gn_progress g = batch_progress_increment cfg (gn_batch g)"
    "gn_progress g \<ge> target" "rs = finalize_batch_rollouts cfg (gn_batch g)"
    using gen_runs_batch [OF assms(1,2)] assms(4) by (auto simp: batch_ok_def)
  have "list_all clean rs" using b(1,4) by (auto simp: finalize_batch_rollouts_def list_all_iff dest: in_set_takeD split: option.splits)
  moreover have "case sg_token_batch_size cfg of None \<Rightarrow> length rs = target
      | Some n \<Rightarrow> sg_batch_size cfg = None \<longrightarrow> sum_list (map get_seq_len rs) \<ge> n"
    using b(2-4) assms(3)
    by (auto simp: batch_target_def batch_progress_increment_def finalize_batch_rollouts_def split: option.splits)
  ultimately show ?thesis by (auto simp: list_all_iff clean_def)
qed

section \<open>Concrete runs\<close>

text \<open>The choices of the environment as a list of events, so that a run can be evaluated.\<close>

datatype event =
    Proceed "nat \<times> nat"
  | Client "client list"
  | Tasks "nat list"
  | Outcome task_outcome float64
  | Version int bool
  | Adopt
  | DropGroup nat
  | Settle

definition event_step :: "sched_config \<Rightarrow> sched_ops \<Rightarrow> buffer_config \<Rightarrow> nat \<Rightarrow> event \<Rightarrow> gen \<Rightarrow> gen option" where
  "event_step cfg ops bc target e g =
     (case e of
        Proceed draw \<Rightarrow> (case gn_pc g of
            Filling complete \<Rightarrow> (case fill_step cfg ops draw complete g of Inl _ \<Rightarrow> None | Inr g' \<Rightarrow> Some g')
          | Limited gid complete \<Rightarrow> Some (acquired_step cfg gid complete g)
          | Gated ts \<Rightarrow> if sc_ready (gn_sched g) then Some (g\<lparr>gn_pc := Handling ts\<rparr>) else None
          | Cancelling ts \<Rightarrow> Some (g\<lparr>gn_pc := Handling ts\<rparr>)
          | Handling ts \<Rightarrow> if ts = [] \<or> gn_progress g \<ge> target then Some (g\<lparr>gn_pc := Filling (gn_progress g \<ge> target)\<rparr>) else None
          | Returned _ \<Rightarrow> Some (begin_batch target g)
          | _ \<Rightarrow> None)
      | Client clients \<Rightarrow> (case gn_pc g of
            Selecting gid complete \<Rightarrow>
              map_option (\<lambda>c. g\<lparr>gn_sched := dispatch cfg gid c (gn_sched g), gn_pc := Filling complete\<rparr>)
                (select_least_loaded_client cfg ops clients (gn_sched g))
          | _ \<Rightarrow> None)
      | Tasks ts \<Rightarrow> if gn_pc g = Waiting then Some (g\<lparr>gn_pc := Gated ts\<rparr>) else None
      | Outcome out duration \<Rightarrow> (case gn_pc g of
            Handling (t # ts) \<Rightarrow>
              if gn_progress g < target \<and> (case out of
                   Result rs \<Rightarrow> (case dget (sc_inflight (gn_sched g)) t of None \<Rightarrow> True | Some q \<Rightarrow> length rs = iq_count q)
                 | _ \<Rightarrow> True)
              then (case handle_step cfg ops bc t out duration ts g of Inl _ \<Rightarrow> None | Inr g' \<Rightarrow> Some g') else None
          | _ \<Rightarrow> None)
      | Version k paused \<Rightarrow> if at_await (gn_pc g) \<and> gn_policy g = Idle then Some (load_step k paused g) else None
      | Adopt \<Rightarrow> (case gn_policy g of
            Loading k paused \<Rightarrow> if at_await (gn_pc g) then Some (adopt_step cfg k g) else None | _ \<Rightarrow> None)
      | DropGroup gid \<Rightarrow> (case gn_policy g of
            Dropping gids ts n \<Rightarrow> if at_await (gn_pc g) \<and> gid \<in> set gids then Some (drop_step gid gids ts n g) else None | _ \<Rightarrow> None)
      | Settle \<Rightarrow> (case gn_policy g of
            Dropping [] ts n \<Rightarrow> if at_await (gn_pc g)
              then Some (g\<lparr>gn_sched := increment_tasks ts n (gn_sched g), gn_policy := Idle\<rparr>) else None | _ \<Rightarrow> None))"

lemma event_step_sound: "event_step cfg ops bc target e g = Some g' \<Longrightarrow> gen_step cfg ops bc target g g'"
  unfolding event_step_def
  by (auto split: event.splits main_pc.splits policy_pc.splits if_splits list.splits sum.splits task_outcome.splits option.splits
      intro: gen_step.intros) (rule gen_step.handle, auto)

fun event_run :: "sched_config \<Rightarrow> sched_ops \<Rightarrow> buffer_config \<Rightarrow> nat \<Rightarrow> event list \<Rightarrow> gen \<Rightarrow> gen option" where
  "event_run cfg ops bc target [] g = Some g"
| "event_run cfg ops bc target (e # es) g =
     (case event_step cfg ops bc target e g of None \<Rightarrow> None | Some g' \<Rightarrow> event_run cfg ops bc target es g')"

lemma event_run_sound: "event_run cfg ops bc target es g = Some g' \<Longrightarrow> gen_runs cfg ops bc target g g'"
proof (induction es arbitrary: g)
  case (Cons e es)
  then obtain g1 where "event_step cfg ops bc target e g = Some g1" "event_run cfg ops bc target es g1 = Some g'"
    by (auto split: option.splits)
  then show ?case using Cons.IH event_step_sound by (meson converse_rtranclp_into_rtranclp)
qed simp

definition demo_rollout_of :: "int \<Rightarrow> rollout" where
  "demo_rollout_of i = (demo_result i f_zero)\<lparr>ro_trajectory := [\<lparr>tj_tokens = None, tj_usage = None\<rparr>]\<rparr>"

text \<open>Two requests for the first example and one for a second; a policy update while they run; one result fails.\<close>

definition demo_events :: "event list" where
  "demo_events =
     [Proceed (0, 0), Proceed (0, 0), Client [demo_client], Proceed (0, 0), Proceed (0, 0), Proceed (0, 1),
      Tasks [1, 0], Version 1 True, Adopt, Settle, Proceed (0, 0),
      Outcome (Result [(demo_rollout_of 0)\<lparr>ro_error := Some ''timeout''\<rparr>]) f_one]"

definition demo_rest :: "event list" where
  "demo_rest = [Outcome (Result [demo_rollout_of 0]) f_one, Proceed (0, 0), Proceed (0, 1), Proceed (0, 0), Client [demo_client],
     Proceed (0, 0), Proceed (0, 0), Proceed (0, 0)]"

definition demo_gen :: "event list \<Rightarrow> gen option" where
  "demo_gen es = (case new_buffer demo_ops None demo_datasets of Inl _ \<Rightarrow> None
     | Inr b \<Rightarrow> event_run demo_sched_config demo_sched_ops demo_config 1 es (gen_start 1 b))"

lemma demo_gen_run:
  assumes "demo_gen es = Some g"
  obtains b where "list_all clean (bu_rollouts b)"
    "gen_runs demo_sched_config demo_sched_ops demo_config 1 (gen_start 1 b) g"
proof -
  obtain b where b: "new_buffer demo_ops None demo_datasets = Inr b"
    "event_run demo_sched_config demo_sched_ops demo_config 1 es (gen_start 1 b) = Some g"
    using assms by (auto simp: demo_gen_def split: sum.splits)
  have "list_all clean (bu_rollouts b)" using new_buffer_ok(2) [OF b(1)] by (simp add: fresh_def)
  then show thesis using event_run_sound [OF b(2)] by (rule that)
qed

definition demo_midway :: "gen \<Rightarrow> bool" where
  "demo_midway g \<longleftrightarrow> map (\<lambda>(t, q). (t, iq_group q, iq_off_policy_steps q)) (sc_inflight (gn_sched g)) = [(0, Some 0, 1)]
     \<and> map (\<lambda>(gid, gr). (gid, gr_to_schedule gr, gr_failed gr)) (sc_groups (gn_sched g)) = [(0, 0, 1)] \<and> gn_policy g = Idle"

lemma demo_midway_run:
  obtains b g where "gen_runs demo_sched_config demo_sched_ops demo_config 1 (gen_start 1 b) g" "demo_midway g"
proof -
  have "case demo_gen demo_events of None \<Rightarrow> False | Some g \<Rightarrow> demo_midway g" by code_simp
  then obtain g where g: "demo_gen demo_events = Some g" "demo_midway g" by (auto split: option.splits)
  show thesis by (rule demo_gen_run [OF g(1)]) (use g(2) that in blast)
qed

theorem groups_accounted_witness:
  "\<exists>b g gr. gen_runs demo_sched_config demo_sched_ops demo_config 1 (gen_start 1 b) g \<and> dget (sc_groups (gn_sched g)) 0 = Some gr
     \<and> gr_failed gr = 1 \<and> length (gr_completed gr) + gr_failed gr + rollouts_of (sc_inflight (gn_sched g)) 0 = 2"
proof (rule demo_midway_run)
  fix b g
  assume g: "gen_runs demo_sched_config demo_sched_ops demo_config 1 (gen_start 1 b) g" "demo_midway g"
  then obtain gr where gr: "sc_groups (gn_sched g) = [(0, gr)]" "gr_to_schedule gr = 0" "gr_failed gr = 1"
    by (auto simp: demo_midway_def)
  have "length (gr_completed gr) + gr_failed gr + rollouts_of (sc_inflight (gn_sched g)) 0 + gr_to_schedule gr
      = sg_group_size demo_sched_config"
    using groups_accounted [OF g(1) demo_group_size] gr(1) by simp
  then show ?thesis using g(1) gr by (intro exI [of _ b] exI [of _ g] exI [of _ gr]) (simp add: demo_sched_config_def)
qed

theorem no_stale_requests_witness:
  "\<exists>b g q updates started. counted_run demo_sched_config demo_sched_ops demo_config 1 b g updates started
     \<and> dget (sc_inflight (gn_sched g)) 0 = Some q \<and> iq_off_policy_steps q = 1 \<and> updates - started 0 = 1
     \<and> updates - started 0 \<le> sg_max_off_policy demo_sched_config"
proof (rule demo_midway_run)
  fix b g
  assume g: "gen_runs demo_sched_config demo_sched_ops demo_config 1 (gen_start 1 b) g" "demo_midway g"
  then obtain q where q: "dget (sc_inflight (gn_sched g)) 0 = Some q" "iq_off_policy_steps q = 1" "gn_policy g = Idle"
    by (auto simp: demo_midway_def)
  obtain u st where c: "counted_run demo_sched_config demo_sched_ops demo_config 1 b g u st" using gen_runs_counted [OF g(1)] by blast
  from no_stale_requests [OF c demo_group_size q(1)] q
  have "u - st 0 = 1" "u - st 0 \<le> sg_max_off_policy demo_sched_config" by simp_all
  with c q show ?thesis by blast
qed

theorem batch_complete_witness:
  "\<exists>b g rs. gen_runs demo_sched_config demo_sched_ops demo_config 1 (gen_start 1 b) g \<and> gn_pc g = Returned rs
     \<and> length rs = 1 \<and> (\<forall>r \<in> set rs. ro_error r = None \<and> ro_trajectory r \<noteq> [])"
proof -
  have "case demo_gen (demo_events @ demo_rest) of None \<Rightarrow> False
    | Some g \<Rightarrow> (case gn_pc g of Returned rs \<Rightarrow> True | _ \<Rightarrow> False)" by code_simp
  then obtain g rs where g: "demo_gen (demo_events @ demo_rest) = Some g" "gn_pc g = Returned rs"
    by (auto split: option.splits main_pc.splits)
  have t: "batch_target demo_sched_config = Inr 1" by (simp add: batch_target_def demo_sched_config_def)
  show ?thesis
  proof (rule demo_gen_run [OF g(1)])
    fix b assume b: "list_all clean (bu_rollouts b)" "gen_runs demo_sched_config demo_sched_ops demo_config 1 (gen_start 1 b) g"
    from batch_complete [OF b(2,1) t g(2)] b(2) g(2) show ?thesis
      by (intro exI [of _ b] exI [of _ g] exI [of _ rs]) (simp add: demo_sched_config_def)
  qed
qed

end
