(* ===== verification/PolicyUpdate.thy ===== *)
theory PolicyUpdate
  imports Prelude
begin

text \<open>
  Policy updates (\<open>orchestrator/scheduler.py\<close>): how the orchestrator follows the checkpoints the trainer
  broadcasts, directly, by stage and commit, or by staging in the background. The tasks of the code are the
  step relation \<open>update_step\<close>: the main task at the barrier of a step, the background loop, the task
  that applies an update, the task that stages one. What is sent to the inference pool is logged, with whether it
  succeeded. Clocks and log messages are left out.
\<close>

section \<open>Configuration\<close>

datatype update_mode = Full | Delta
datatype update_protocol = Direct | StageCommit
datatype stage_transport = SharedFs | HttpUpload | ChunkedUpload | StreamingUpload

record update_config =
  uc_mode :: update_mode
  uc_protocol :: update_protocol
  uc_transport :: stage_transport
  uc_background :: bool
  uc_lora :: "string option"

definition validate_stage_protocol :: "update_config \<Rightarrow> unit res" where
  "validate_stage_protocol c =
     bindR (ensure (\<not> (uc_background c \<and> uc_protocol c \<noteq> StageCommit))
       (ValueError ''background_stage requires update_protocol=stage_commit'')) (\<lambda>_.
     ensure (\<not> (uc_protocol c = StageCommit \<and> uc_transport c \<noteq> SharedFs \<and> uc_mode c \<noteq> Delta))
       (ValueError ''HTTP stage transports currently require mode=delta''))"

definition uses_background_stage :: "update_config \<Rightarrow> bool" where
  "uses_background_stage c \<longleftrightarrow> uc_protocol c = StageCommit \<and> uc_background c"

text \<open>Whether the file is uploaded, and by which method if not the default one.\<close>

definition stage_upload_kwargs :: "update_config \<Rightarrow> (bool \<times> string option) res" where
  "stage_upload_kwargs c =
     (if uc_transport c = SharedFs then Inr (False, None)
      else bindR (ensure (uc_mode c = Delta) (ValueError ''stage transport currently supports delta mode only'')) (\<lambda>_.
        Inr (True, if uc_transport c = ChunkedUpload then Some ''chunked''
                   else if uc_transport c = StreamingUpload then Some ''streaming'' else None)))"

definition stage_ready_path :: "update_config \<Rightarrow> string" where
  "stage_ready_path c = (if uc_transport c = StreamingUpload \<and> uc_mode c = Delta then ''delta.stream'' else ''STABLE'')"

section \<open>The next checkpoint\<close>

text \<open>The step directories of the broadcast directory, each with whether it is stable.\<close>

definition get_latest_ckpt_step :: "(nat \<times> bool) list \<Rightarrow> nat option" where
  "get_latest_ckpt_step dirs = map_option fst (find snd (rev (sort_key fst dirs)))"

definition compute_next_ckpt_step :: "update_config \<Rightarrow> int \<Rightarrow> int \<Rightarrow> int option \<Rightarrow> int" where
  "compute_next_ckpt_step c step ckpt_step latest =
     (let target_step = max (step - 1) (case latest of None \<Rightarrow> 0 | Some l \<Rightarrow> l) in
      if uc_mode c = Delta then min target_step (ckpt_step + 1) else target_step)"

section \<open>Requests to the inference pool\<close>

datatype pool_request =
    Stage int update_mode "int option" bool "string option" bool
  | Commit int update_mode
  | Update int update_mode "string option"

definition base_version :: "update_config \<Rightarrow> int \<Rightarrow> int option" where
  "base_version c next_step = (if uc_mode c = Delta then Some (next_step - 1) else None)"

definition update_requests :: "update_config \<Rightarrow> int \<Rightarrow> pool_request list res" where
  "update_requests c next_step =
     (if uc_protocol c = StageCommit then
        bindR (ensure (uc_lora c = None) (ValueError ''stage_commit update protocol does not support LoRA updates'')) (\<lambda>_.
        bindR (stage_upload_kwargs c) (\<lambda>(upload, upload_method).
        Inr [Stage next_step (uc_mode c) (base_version c next_step) upload upload_method False, Commit next_step (uc_mode c)]))
      else Inr [Update next_step (uc_mode c) (uc_lora c)])"

definition stage_request :: "update_config \<Rightarrow> int \<Rightarrow> pool_request res" where
  "stage_request c next_step =
     bindR (ensure (uc_lora c = None) (ValueError ''background stage protocol does not support LoRA updates'')) (\<lambda>_.
     bindR (stage_upload_kwargs c) (\<lambda>(upload, upload_method).
     Inr (Stage next_step (uc_mode c) (base_version c next_step) upload upload_method (uc_transport c = StreamingUpload))))"

section \<open>Tasks\<close>

datatype stage_status = Pending | Staged | StageFailed

record stage_task =
  st_step :: int
  st_status :: stage_status

text \<open>The task that applies an update: before its first segment, waiting for the checkpoint or not, sending, and
  dropping the stale requests. It remembers whether it closed the gate.\<close>

datatype apply_phase = Created | Checked | Sending "pool_request list" | Ageing

record apply_task =
  ap_next :: int
  ap_phase :: apply_phase
  ap_cleared :: bool

datatype commit_phase = Joining | Committing | CommitAgeing

record commit_wait =
  cm_task :: nat
  cm_step :: int
  cm_phase :: commit_phase

record updater =
  up_step :: int
  up_ckpt_step :: int
  up_latest :: int
  up_ready :: bool
  up_apply :: "apply_task option"
  up_stages :: "stage_task list"
  up_inflight_stage :: "nat option"
  up_commit :: "commit_wait option"
  up_log :: "(pool_request \<times> bool) list"
  up_past :: bool
  up_eval :: bool

definition stage_done :: "updater \<Rightarrow> nat \<Rightarrow> bool" where
  "stage_done s i \<longleftrightarrow> st_status (up_stages s ! i) \<noteq> Pending"

text \<open>\<open>_get_or_start_stage_task\<close>: a finished task of another step is forgotten; a running one is kept whatever its
  step is.\<close>

definition get_or_start_stage_task :: "int \<Rightarrow> updater \<Rightarrow> updater \<times> nat" where
  "get_or_start_stage_task next_step s =
     (let new = length (up_stages s);
          started = s\<lparr>up_stages := up_stages s @ [\<lparr>st_step = next_step, st_status = Pending\<rparr>], up_inflight_stage := Some new\<rparr>
      in case up_inflight_stage s of
           None \<Rightarrow> (started, new)
         | Some i \<Rightarrow> if stage_done s i \<and> st_step (up_stages s ! i) \<noteq> next_step then (started, new) else (s, i))"

definition get_or_start_policy_update_task :: "int \<Rightarrow> updater \<Rightarrow> updater" where
  "get_or_start_policy_update_task next_step s =
     (case up_apply s of
        Some _ \<Rightarrow> s
      | None \<Rightarrow> s\<lparr>up_apply := Some \<lparr>ap_next = next_step, ap_phase = Created, ap_cleared = False\<rparr>\<rparr>)"

text \<open>\<open>_commit_staged_policy_update\<close> up to its first await.\<close>

definition commit_wait_begin :: "nat \<Rightarrow> updater \<Rightarrow> updater" where
  "commit_wait_begin i s =
     s\<lparr>up_ready := False, up_commit := Some \<lparr>cm_task = i, cm_step = st_step (up_stages s ! i), cm_phase = Joining\<rparr>\<rparr>"

text \<open>One round of \<open>maybe_update_policy\<close> up to its await; a blocking caller passes the barrier when there is nothing
  to adopt.\<close>

definition maybe_update_policy :: "update_config \<Rightarrow> bool \<Rightarrow> updater \<Rightarrow> updater" where
  "maybe_update_policy c block s =
     (let next_step = compute_next_ckpt_step c (up_step s) (up_ckpt_step s) (Some (up_latest s)) in
      if next_step \<le> up_ckpt_step s then (if block then s\<lparr>up_past := True\<rparr> else s)
      else if uses_background_stage c then
        (let (s', i) = get_or_start_stage_task next_step s in if block then commit_wait_begin i s' else s')
      else get_or_start_policy_update_task next_step s)"

text \<open>The applying task: the gate closes if the checkpoint is the one of the trainer's next broadcast. An error
  before the first request opens it again.\<close>

definition apply_fails :: "apply_task \<Rightarrow> updater \<Rightarrow> updater" where
  "apply_fails a s = s\<lparr>up_apply := None, up_ready := (ap_cleared a \<or> up_ready s)\<rparr>"

definition apply_begin :: "apply_task \<Rightarrow> updater \<Rightarrow> updater" where
  "apply_begin a s =
     (let paused = (ap_next a = max (up_step s - 1) 0)
      in s\<lparr>up_ready := up_ready s \<and> \<not> paused, up_apply := Some (a\<lparr>ap_cleared := paused, ap_phase := Checked\<rparr>)\<rparr>)"

definition apply_available :: "update_config \<Rightarrow> apply_task \<Rightarrow> updater \<Rightarrow> updater" where
  "apply_available c a s =
     (case update_requests c (ap_next a) of
        Inl _ \<Rightarrow> apply_fails a s
      | Inr rs \<Rightarrow> s\<lparr>up_apply := Some (a\<lparr>ap_phase := Sending rs\<rparr>)\<rparr>)"

definition apply_sent :: "apply_task \<Rightarrow> pool_request list \<Rightarrow> bool \<Rightarrow> updater \<Rightarrow> updater" where
  "apply_sent a rs ok s =
     (let s' = s\<lparr>up_log := up_log s @ [(hd rs, ok)]\<rparr> in
      if \<not> ok then apply_fails a s'
      else if tl rs \<noteq> [] then s'\<lparr>up_apply := Some (a\<lparr>ap_phase := Sending (tl rs)\<rparr>)\<rparr>
      else s'\<lparr>up_ckpt_step := ap_next a, up_ready := True, up_apply := Some (a\<lparr>ap_phase := Ageing\<rparr>)\<rparr>)"

text \<open>The staging task.\<close>

definition stage_sent :: "update_config \<Rightarrow> nat \<Rightarrow> bool \<Rightarrow> updater \<Rightarrow> updater" where
  "stage_sent c i ok s =
     (let t = up_stages s ! i in
      case stage_request c (st_step t) of
        Inl _ \<Rightarrow> s\<lparr>up_stages := (up_stages s)[i := t\<lparr>st_status := StageFailed\<rparr>]\<rparr>
      | Inr r \<Rightarrow> s\<lparr>up_log := up_log s @ [(r, ok)],
                   up_stages := (up_stages s)[i := t\<lparr>st_status := (if ok then Staged else StageFailed)\<rparr>]\<rparr>)"

text \<open>Committing: the staging task is joined; then the commit is sent; an error opens the gate; in the end
  the staging task is forgotten unless another took its place.\<close>

definition commit_end :: "commit_wait \<Rightarrow> updater \<Rightarrow> updater" where
  "commit_end m s =
     s\<lparr>up_commit := None, up_inflight_stage := (if up_inflight_stage s = Some (cm_task m) then None else up_inflight_stage s)\<rparr>"

definition commit_joined :: "commit_wait \<Rightarrow> updater \<Rightarrow> updater" where
  "commit_joined m s =
     (if st_status (up_stages s ! cm_task m) = Staged then s\<lparr>up_commit := Some (m\<lparr>cm_phase := Committing\<rparr>)\<rparr>
      else commit_end m (s\<lparr>up_ready := True\<rparr>))"

definition commit_sent :: "update_config \<Rightarrow> commit_wait \<Rightarrow> bool \<Rightarrow> updater \<Rightarrow> updater" where
  "commit_sent c m ok s =
     (let s' = s\<lparr>up_log := up_log s @ [(Commit (cm_step m) (uc_mode c), ok)], up_ready := True\<rparr> in
      if ok then s'\<lparr>up_ckpt_step := cm_step m, up_commit := Some (m\<lparr>cm_phase := CommitAgeing\<rparr>)\<rparr> else commit_end m s')"

section \<open>Runs\<close>

text \<open>The trainer broadcasts newer and newer checkpoints; the orchestrator's steps do not decrease. Only the
  main task blocks, and not while it is past the barrier or committing. Evaluations close the gate.\<close>

inductive update_step :: "update_config \<Rightarrow> updater \<Rightarrow> updater \<Rightarrow> bool" for c :: update_config where
  broadcast: "up_latest s \<le> l \<Longrightarrow> update_step c s (s\<lparr>up_latest := l\<rparr>)"
| begin_step: "up_step s \<le> k \<Longrightarrow> up_commit s = None \<Longrightarrow> update_step c s (s\<lparr>up_step := k, up_past := False\<rparr>)"
| poll: "update_step c s (maybe_update_policy c False s)"
| barrier: "\<not> up_past s \<Longrightarrow> up_commit s = None \<Longrightarrow> update_step c s (maybe_update_policy c True s)"
| apply_starts: "up_apply s = Some a \<Longrightarrow> ap_phase a = Created \<Longrightarrow> update_step c s (apply_begin a s)"
| apply_continues: "up_apply s = Some a \<Longrightarrow> ap_phase a = Checked \<Longrightarrow> update_step c s (apply_available c a s)"
| apply_sends: "up_apply s = Some a \<Longrightarrow> ap_phase a = Sending rs \<Longrightarrow> update_step c s (apply_sent a rs ok s)"
| apply_ends: "up_apply s = Some a \<Longrightarrow> ap_phase a = Ageing \<Longrightarrow> update_step c s (s\<lparr>up_apply := None\<rparr>)"
| stage_sends: "i < length (up_stages s) \<Longrightarrow> \<not> stage_done s i \<Longrightarrow> update_step c s (stage_sent c i ok s)"
| joins: "up_commit s = Some m \<Longrightarrow> cm_phase m = Joining \<Longrightarrow> stage_done s (cm_task m) \<Longrightarrow> update_step c s (commit_joined m s)"
| commit_sends: "up_commit s = Some m \<Longrightarrow> cm_phase m = Committing \<Longrightarrow> update_step c s (commit_sent c m ok s)"
| commit_ends: "up_commit s = Some m \<Longrightarrow> cm_phase m = CommitAgeing \<Longrightarrow> update_step c s (commit_end m s)"
| eval_begins: "update_step c s (s\<lparr>up_ready := False, up_eval := True\<rparr>)"
| eval_ends: "up_eval s \<Longrightarrow> update_step c s (s\<lparr>up_ready := True, up_eval := False\<rparr>)"

inductive_cases update_stepE: "update_step c s s'"

definition new_updater :: "int \<Rightarrow> updater" where
  "new_updater ckpt_step = \<lparr>up_step = 0, up_ckpt_step = ckpt_step, up_latest = 0, up_ready = True, up_apply = None, up_stages = [],
     up_inflight_stage = None, up_commit = None, up_log = [], up_past = False, up_eval = False\<rparr>"

end
