(* ===== verification/PolicyProofs.thy ===== *)
theory PolicyProofs
  imports PolicyUpdate
begin

text \<open>
  Policy updates keep the inference servers in step: the requests are acceptable to a server that follows
  them one by one, the orchestrator never runs ahead by more than a step, and the gate of the main loop
  is closed only while an update or an evaluation holds it.
\<close>

section \<open>What a server expects\<close>

text \<open>The server's active version and the versions staged on it. A delta is staged on the version it was taken
  against, a commit is of a staged version, and versions only grow. A request that fails changes nothing.\<close>

definition serve :: "pool_request \<times> bool \<Rightarrow> int \<times> int list \<Rightarrow> (int \<times> int list) option" where
  "serve x sv =
     (let v = fst sv; st = snd sv; ok = snd x in
      case fst x of
        Stage k m b _ _ _ \<Rightarrow>
          if v < k \<and> (if m = Delta then b = Some v \<and> k = v + 1 else b = None) then Some (v, if ok then k # st else st) else None
      | Commit k m \<Rightarrow> if v < k \<and> k \<in> set st then Some (if ok then (k, filter (\<lambda>j. k < j) st) else sv) else None
      | Update k m _ \<Rightarrow> if v < k \<and> (m = Delta \<longrightarrow> k = v + 1) then Some (if ok then (k, []) else sv) else None)"

definition served :: "int \<Rightarrow> (pool_request \<times> bool) list \<Rightarrow> (int \<times> int list) option" where
  "served v log = foldl (\<lambda>sv x. Option.bind sv (serve x)) (Some (v, [])) log"

lemma served_append: "served v log = Some sv \<Longrightarrow> served v (log @ [x]) = serve x sv"
  by (simp add: served_def)

section \<open>The invariant\<close>

definition update_target :: "updater \<Rightarrow> int" where
  "update_target s = max (up_step s - 1) (up_latest s)"

definition due :: "update_config \<Rightarrow> int \<Rightarrow> int \<Rightarrow> bool" where
  "due c v k \<longleftrightarrow> v < k \<and> (uc_mode c = Delta \<longrightarrow> k = v + 1)"

definition apply_ok :: "update_config \<Rightarrow> int \<Rightarrow> int list \<Rightarrow> apply_task \<Rightarrow> bool" where
  "apply_ok c v st a \<longleftrightarrow> (ap_phase a \<noteq> Ageing \<longrightarrow> due c v (ap_next a))
     \<and> (\<forall>rs. ap_phase a = Sending rs \<longrightarrow>
          update_requests c (ap_next a) = Inr rs \<or> (rs = [Commit (ap_next a) (uc_mode c)] \<and> ap_next a \<in> set st))"

abbreviation step_of :: "updater \<Rightarrow> nat \<Rightarrow> int" where
  "step_of s i \<equiv> st_step (up_stages s ! i)"

abbreviation status_of :: "updater \<Rightarrow> nat \<Rightarrow> stage_status" where
  "status_of s i \<equiv> st_status (up_stages s ! i)"

definition stages_ok :: "updater \<Rightarrow> int list \<Rightarrow> bool" where
  "stages_ok s st \<longleftrightarrow> (\<forall>i < length (up_stages s). step_of s i \<le> update_target s
     \<and> (status_of s i = Pending \<longrightarrow> up_inflight_stage s = Some i)
     \<and> (status_of s i = Staged \<and> up_ckpt_step s < step_of s i \<longrightarrow> step_of s i \<in> set st))"

definition inflight_ok :: "update_config \<Rightarrow> updater \<Rightarrow> bool" where
  "inflight_ok c s \<longleftrightarrow> (\<forall>i. up_inflight_stage s = Some i \<longrightarrow> i < length (up_stages s)
     \<and> (due c (up_ckpt_step s) (step_of s i)
        \<or> (\<exists>m. up_commit s = Some m \<and> cm_phase m = CommitAgeing \<and> cm_task m = i \<and> status_of s i = Staged)))"

definition commit_ok :: "update_config \<Rightarrow> updater \<Rightarrow> bool" where
  "commit_ok c s \<longleftrightarrow> (\<forall>m. up_commit s = Some m \<longrightarrow> cm_task m < length (up_stages s) \<and> cm_step m = step_of s (cm_task m)
     \<and> (cm_phase m \<noteq> CommitAgeing \<longrightarrow> due c (up_ckpt_step s) (cm_step m)
          \<and> (\<exists>i. up_inflight_stage s = Some i \<and> (i = cm_task m \<or> cm_step m < step_of s i)))
     \<and> (cm_phase m \<noteq> Joining \<longrightarrow> status_of s (cm_task m) = Staged))"

definition updater_ok :: "update_config \<Rightarrow> int \<Rightarrow> int list \<Rightarrow> updater \<Rightarrow> bool" where
  "updater_ok c v0 st s \<longleftrightarrow> served v0 (up_log s) = Some (up_ckpt_step s, st)
     \<and> (\<forall>a. up_apply s = Some a \<longrightarrow> \<not> uses_background_stage c \<and> apply_ok c (up_ckpt_step s) st a)
     \<and> (\<not> uses_background_stage c \<longrightarrow> up_stages s = [] \<and> up_inflight_stage s = None \<and> up_commit s = None)
     \<and> stages_ok s st \<and> inflight_ok c s \<and> commit_ok c s
     \<and> (up_past s \<longrightarrow> up_step s - 1 \<le> up_ckpt_step s)"

lemma next_due:
  assumes "\<not> compute_next_ckpt_step c step v (Some l) \<le> v"
  shows "due c v (compute_next_ckpt_step c step v (Some l))" "compute_next_ckpt_step c step v (Some l) \<le> max (step - 1) l"
    "uc_mode c = Full \<Longrightarrow> compute_next_ckpt_step c step v (Some l) = max (step - 1) l"
  using assms by (auto simp: compute_next_ckpt_step_def due_def Let_def)

lemma next_passed: "compute_next_ckpt_step c step v (Some l) \<le> v \<Longrightarrow> step - 1 \<le> v \<and> l \<le> v"
  by (auto simp: compute_next_ckpt_step_def Let_def split: if_splits)

lemma serve_stage:
  assumes "due c v k" "stage_request c k = Inr r"
  shows "serve (r, ok) (v, st) = Some (v, if ok then k # st else st)"
  using assms by (cases "uc_mode c") (auto simp: stage_request_def serve_def due_def base_version_def res_simps)

lemma serve_requests:
  assumes "due c v k" "update_requests c k = Inr rs"
  shows "(\<exists>r. rs = [r, Commit k (uc_mode c)] \<and> serve (r, ok) (v, st) = Some (v, if ok then k # st else st))
    \<or> (\<exists>r. rs = [r] \<and> serve (r, ok) (v, st) = Some (if ok then (k, []) else (v, st)))"
  using assms by (cases "uc_mode c")
    (auto simp: update_requests_def serve_def due_def base_version_def res_simps split: if_splits)

lemma serve_commit: "due c v k \<Longrightarrow> k \<in> set st \<Longrightarrow> serve (Commit k m, ok) (v, st) = Some (if ok then (k, filter (\<lambda>j. k < j) st) else (v, st))"
  by (simp add: serve_def due_def)

section \<open>Every step keeps it\<close>

lemma updater_okD:
  assumes "updater_ok c v0 st s"
  shows "served v0 (up_log s) = Some (up_ckpt_step s, st)"
    and "up_apply s = Some a \<Longrightarrow> \<not> uses_background_stage c \<and> apply_ok c (up_ckpt_step s) st a"
    and "\<not> uses_background_stage c \<Longrightarrow> up_stages s = [] \<and> up_inflight_stage s = None \<and> up_commit s = None"
    and "stages_ok s st" "inflight_ok c s" "commit_ok c s" "up_past s \<Longrightarrow> up_step s - 1 \<le> up_ckpt_step s"
  using assms unfolding updater_ok_def by blast+

lemma inflight_due:
  "inflight_ok c s \<Longrightarrow> up_inflight_stage s = Some i \<Longrightarrow>
   (\<And>m. up_commit s = Some m \<Longrightarrow> cm_phase m = CommitAgeing \<Longrightarrow> cm_task m = i \<Longrightarrow> status_of s i = Staged \<Longrightarrow> False) \<Longrightarrow>
   due c (up_ckpt_step s) (step_of s i)"
  unfolding inflight_ok_def by blast

lemma inflight_length: "inflight_ok c s \<Longrightarrow> up_inflight_stage s = Some i \<Longrightarrow> i < length (up_stages s)"
  unfolding inflight_ok_def by blast

text \<open>Without background staging there is only the applying task.\<close>

definition quiet :: "updater \<Rightarrow> bool" where
  "quiet s \<longleftrightarrow> up_stages s = [] \<and> up_inflight_stage s = None \<and> up_commit s = None"

lemma quiet_ok: "quiet s \<Longrightarrow> stages_ok s st \<and> inflight_ok c s \<and> commit_ok c s"
  by (simp add: quiet_def stages_ok_def inflight_ok_def commit_ok_def)

lemma updater_ok_quiet:
  "quiet s \<Longrightarrow> \<not> uses_background_stage c \<Longrightarrow> updater_ok c v0 st s \<longleftrightarrow>
     served v0 (up_log s) = Some (up_ckpt_step s, st) \<and> (\<forall>a. up_apply s = Some a \<longrightarrow> apply_ok c (up_ckpt_step s) st a)
     \<and> (up_past s \<longrightarrow> up_step s - 1 \<le> up_ckpt_step s)"
  using quiet_ok [of s st c] by (auto simp: updater_ok_def quiet_def)

lemma apply_quiet: "updater_ok c v0 st s \<Longrightarrow> up_apply s = Some a \<Longrightarrow> quiet s \<and> \<not> uses_background_stage c"
  unfolding updater_ok_def quiet_def by blast

lemma apply_step_ok:
  assumes ok: "updater_ok c v0 st s" and a: "up_apply s = Some a"
  shows "updater_ok c v0 st (s\<lparr>up_apply := None\<rparr>)" "updater_ok c v0 st (apply_fails a s)"
    "ap_phase a = Created \<Longrightarrow> updater_ok c v0 st (apply_begin a s)"
    "ap_phase a = Checked \<Longrightarrow> updater_ok c v0 st (apply_available c a s)"
proof -
  note q = apply_quiet [OF ok a]
  note d = updater_okD [OF ok]
  have base: "served v0 (up_log s) = Some (up_ckpt_step s, st)" "apply_ok c (up_ckpt_step s) st a"
    "up_past s \<longrightarrow> up_step s - 1 \<le> up_ckpt_step s" using d(1) d(2) [OF a] d(7) by auto
  have qf: "quiet (s\<lparr>up_apply := x\<rparr>)" "quiet (s\<lparr>up_ready := r, up_apply := x\<rparr>)" "quiet (s\<lparr>up_apply := x, up_ready := r\<rparr>)" for x r
    using q by (simp_all add: quiet_def)
  show "updater_ok c v0 st (s\<lparr>up_apply := None\<rparr>)" using base q by (simp add: updater_ok_quiet qf)
  show f: "updater_ok c v0 st (apply_fails a s)" using base q by (simp add: updater_ok_quiet qf apply_fails_def)
  show "updater_ok c v0 st (apply_begin a s)" if "ap_phase a = Created"
    using base q that by (simp add: updater_ok_quiet qf apply_begin_def Let_def) (simp add: apply_ok_def)
  show "updater_ok c v0 st (apply_available c a s)" if "ap_phase a = Checked"
    using base q that f
    by (cases "update_requests c (ap_next a)") (simp_all add: updater_ok_quiet qf apply_available_def, simp add: apply_ok_def)
qed

lemma apply_sent_ok:
  assumes ok: "updater_ok c v0 st s" and a: "up_apply s = Some a" "ap_phase a = Sending rs"
  shows "\<exists>st'. updater_ok c v0 st' (apply_sent a rs sent s)"
proof -
  note q = apply_quiet [OF ok a(1)]
  note d = updater_okD [OF ok]
  let ?v = "up_ckpt_step s" and ?k = "ap_next a"
  have due: "due c ?v ?k" and rs: "update_requests c ?k = Inr rs \<or> (rs = [Commit ?k (uc_mode c)] \<and> ?k \<in> set st)"
    using d(2) [OF a(1)] a(2) by (auto simp: apply_ok_def)
  have past: "up_past s \<longrightarrow> up_step s - 1 \<le> ?v" "up_past s \<longrightarrow> up_step s - 1 \<le> ?k" using d(7) due by (auto simp: due_def)
  have qf: "quiet (s\<lparr>up_log := l, up_apply := x\<rparr>)" "quiet (s\<lparr>up_log := l, up_apply := x, up_ready := r\<rparr>)"
    "quiet (s\<lparr>up_log := l, up_ckpt_step := k, up_ready := r, up_apply := x\<rparr>)" for x r l k
    using q by (simp_all add: quiet_def)
  consider (two) r where "rs = [r, Commit ?k (uc_mode c)]" "serve (r, sent) (?v, st) = Some (?v, if sent then ?k # st else st)"
    | (one) r st' where "rs = [r]" "serve (r, sent) (?v, st) = Some (if sent then (?k, st') else (?v, st))"
  proof -
    from rs show thesis
    proof
      assume "update_requests c ?k = Inr rs"
      from serve_requests [OF due this, of sent st] show thesis using that by blast
    next
      assume "rs = [Commit ?k (uc_mode c)] \<and> ?k \<in> set st"
      then show thesis using serve_commit [OF due, of st "uc_mode c" sent] that(2) by blast
    qed
  qed
  then show ?thesis
  proof cases
    case two
    have sv: "served v0 (up_log s @ [(r, sent)]) = Some (?v, if sent then ?k # st else st)"
      using served_append [OF d(1)] two(2) by simp
    have "updater_ok c v0 (if sent then ?k # st else st) (apply_sent a rs sent s)"
      using q past(1) sv due by (auto simp: two(1) apply_sent_def apply_fails_def Let_def updater_ok_quiet qf) (simp_all add: apply_ok_def)
    then show ?thesis ..
  next
    case one
    have sv: "served v0 (up_log s @ [(r, sent)]) = Some (if sent then (?k, st') else (?v, st))"
      using served_append [OF d(1)] one(2) by simp
    have "updater_ok c v0 (if sent then st' else st) (apply_sent a rs sent s)"
      using q past sv by (auto simp: one(1) apply_sent_def apply_fails_def Let_def updater_ok_quiet qf) (simp_all add: apply_ok_def)
    then show ?thesis ..
  qed
qed

text \<open>Growth of what the trainer offers and of the step.\<close>

lemma updater_ok_grow:
  assumes "updater_ok c v0 st s" "up_step s \<le> k" "up_latest s \<le> l" "p \<Longrightarrow> k - 1 \<le> up_ckpt_step s"
  shows "updater_ok c v0 st (s\<lparr>up_step := k, up_latest := l, up_past := p\<rparr>)"
proof -
  let ?s = "s\<lparr>up_step := k, up_latest := l, up_past := p\<rparr>"
  have "update_target s \<le> update_target ?s" using assms(2,3) by (auto simp: update_target_def)
  then have "stages_ok ?s st" using updater_okD(4) [OF assms(1)] by (force simp: stages_ok_def)
  moreover have "inflight_ok c ?s" "commit_ok c ?s"
    using updater_okD(5,6) [OF assms(1)] unfolding inflight_ok_def commit_ok_def by (simp, force)
  ultimately show ?thesis using assms(1,4) by (simp add: updater_ok_def)
qed

lemma get_or_start_ok:
  assumes ok: "updater_ok c v0 st s" and bg: "uses_background_stage c"
    and k: "due c (up_ckpt_step s) k" "k \<le> update_target s" "uc_mode c = Full \<Longrightarrow> k = update_target s"
    and r: "get_or_start_stage_task k s = (s', i)"
  shows "updater_ok c v0 st s'" "up_inflight_stage s' = Some i" "up_commit s' = up_commit s" "i < length (up_stages s')"
    "up_ckpt_step s' = up_ckpt_step s" "up_past s' = up_past s"
proof -
  note d = updater_okD [OF ok]
  let ?n = "length (up_stages s)"
  let ?s = "s\<lparr>up_stages := up_stages s @ [\<lparr>st_step = k, st_status = Pending\<rparr>], up_inflight_stage := Some ?n\<rparr>"
  consider (old) "s' = s" "up_inflight_stage s = Some i"
    | (new) "s' = ?s" "i = ?n" "\<forall>j. up_inflight_stage s = Some j \<longrightarrow> stage_done s j \<and> step_of s j \<noteq> k"
  proof (cases "up_inflight_stage s")
    case None
    then have "get_or_start_stage_task k s = (?s, ?n)" by (simp add: get_or_start_stage_task_def Let_def)
    then have "s' = ?s" "i = ?n" using r by simp_all
    then show thesis by (rule new) (simp add: None)
  next
    case (Some j)
    show thesis
    proof (cases "stage_done s j \<and> step_of s j \<noteq> k")
      case True
      then have "get_or_start_stage_task k s = (?s, ?n)" by (simp add: get_or_start_stage_task_def Let_def Some)
      then have "s' = ?s" "i = ?n" using r by simp_all
      then show thesis by (rule new) (use Some True in simp)
    next
      case False
      then have "get_or_start_stage_task k s = (s, j)" unfolding get_or_start_stage_task_def Let_def Some by auto
      then show thesis using r old Some by simp
    qed
  qed
  note cs = this
  have new_ok: "updater_ok c v0 st ?s"
    if n: "\<forall>j. up_inflight_stage s = Some j \<longrightarrow> stage_done s j \<and> step_of s j \<noteq> k"
  proof -
    have get: "up_stages ?s ! j = (if j = ?n then \<lparr>st_step = k, st_status = Pending\<rparr> else up_stages s ! j)" if "j < Suc ?n" for j
      using that by (auto simp: nth_append)
    have "stages_ok ?s st"
      unfolding stages_ok_def
    proof (intro allI impI)
      fix j assume "j < length (up_stages ?s)"
      then have j: "j < Suc ?n" by simp
      show "step_of ?s j \<le> update_target ?s \<and> (status_of ?s j = Pending \<longrightarrow> up_inflight_stage ?s = Some j)
          \<and> (status_of ?s j = Staged \<and> up_ckpt_step ?s < step_of ?s j \<longrightarrow> step_of ?s j \<in> set st)"
      proof (cases "j = ?n")
        case True
        then show ?thesis using k(2) by (simp add: update_target_def)
      next
        case False
        then have jn: "j < ?n" using j by simp
        have "status_of s j \<noteq> Pending" using d(4) [unfolded stages_ok_def, rule_format, OF jn] n by (auto simp: stage_done_def)
        then show ?thesis using d(4) [unfolded stages_ok_def, rule_format, OF jn] jn by (simp add: nth_append update_target_def)
      qed
    qed
    moreover have "inflight_ok c ?s" using k(1) by (simp add: inflight_ok_def)
    moreover have "commit_ok c ?s"
      unfolding commit_ok_def
    proof (intro allI impI)
      fix m assume m0: "up_commit ?s = Some m"
      then have m: "up_commit s = Some m" by simp
      have cm: "cm_task m < ?n" "cm_step m = step_of s (cm_task m)"
        "cm_phase m \<noteq> CommitAgeing \<Longrightarrow> due c (up_ckpt_step s) (cm_step m)"
        "cm_phase m \<noteq> Joining \<Longrightarrow> status_of s (cm_task m) = Staged" using d(6) m by (auto simp: commit_ok_def)
      have "cm_step m < k" if ph: "cm_phase m \<noteq> CommitAgeing"
      proof -
        obtain j where j: "up_inflight_stage s = Some j" "j = cm_task m \<or> cm_step m < step_of s j"
          using d(6) m ph unfolding commit_ok_def by blast
        have le: "cm_step m \<le> step_of s j" using j(2) cm(2) by auto
        have jl: "j < ?n" by (rule inflight_length [OF d(5) j(1)])
        have jd: "due c (up_ckpt_step s) (step_of s j)" by (rule inflight_due [OF d(5) j(1)]) (use m ph in simp)
        have ne: "step_of s j \<noteq> k" using n j(1) by simp
        show ?thesis
        proof (cases "uc_mode c")
          case Full
          have "step_of s j \<le> update_target s" using d(4) jl by (simp add: stages_ok_def)
          then show ?thesis using le ne k(3) [OF Full] by simp
        next
          case Delta
          then show ?thesis using jd k(1) ne by (simp add: due_def)
        qed
      qed
      then show "cm_task m < length (up_stages ?s) \<and> cm_step m = step_of ?s (cm_task m)
        \<and> (cm_phase m \<noteq> CommitAgeing \<longrightarrow> due c (up_ckpt_step ?s) (cm_step m)
          \<and> (\<exists>i. up_inflight_stage ?s = Some i \<and> (i = cm_task m \<or> cm_step m < step_of ?s i)))
        \<and> (cm_phase m \<noteq> Joining \<longrightarrow> status_of ?s (cm_task m) = Staged)"
        using cm by (auto simp: nth_append)
    qed
    ultimately show ?thesis using d(1,7) d(2) bg by (fastforce simp: updater_ok_def)
  qed
  show "updater_ok c v0 st s'" using cs new_ok ok by (cases) auto
  show "up_inflight_stage s' = Some i" "up_commit s' = up_commit s" "up_ckpt_step s' = up_ckpt_step s" "up_past s' = up_past s"
    using cs by (cases; simp)+
  show "i < length (up_stages s')" using cs d(5) by (cases) (auto simp: inflight_ok_def)
qed

lemma maybe_update_ok:
  assumes ok: "updater_ok c v0 st s" and b: "block \<Longrightarrow> up_commit s = None"
  shows "updater_ok c v0 st (maybe_update_policy c block s)"
proof -
  note d = updater_okD [OF ok]
  let ?k = "compute_next_ckpt_step c (up_step s) (up_ckpt_step s) (Some (up_latest s))"
  show ?thesis
  proof (cases "?k \<le> up_ckpt_step s")
    case True
    then have "updater_ok c v0 st (s\<lparr>up_past := True\<rparr>)"
      using updater_ok_grow [OF ok order_refl order_refl, of True] next_passed by simp
    then show ?thesis using True ok by (simp add: maybe_update_policy_def)
  next
    case False
    note k = next_due [OF False, folded update_target_def]
    show ?thesis
    proof (cases "uses_background_stage c")
      case True
      obtain s' i where g: "get_or_start_stage_task ?k s = (s', i)" by force
      note gs = get_or_start_ok [OF ok True k g]
      note d' = updater_okD [OF gs(1)]
      have "updater_ok c v0 st (commit_wait_begin i s')" if block
      proof -
        have n: "up_commit s' = None" using b [OF that] gs(3) by simp
        have due: "due c (up_ckpt_step s') (step_of s' i)"
        proof (rule inflight_due [OF d'(5) gs(2)])
          fix m assume "up_commit s' = Some m"
          with n show False by simp
        qed
        have "commit_ok c (commit_wait_begin i s')" using gs(2,4) due by (simp add: commit_wait_begin_def commit_ok_def)
        moreover have "stages_ok (commit_wait_begin i s') st" using d'(4)
          by (simp add: commit_wait_begin_def stages_ok_def update_target_def)
        moreover have "inflight_ok c (commit_wait_begin i s')" using gs(2,4) due by (simp add: commit_wait_begin_def inflight_ok_def)
        ultimately show ?thesis using gs(1) True by (simp add: updater_ok_def commit_wait_begin_def)
      qed
      then show ?thesis using False True g gs(1) by (simp add: maybe_update_policy_def)
    next
      case bg: False
      have q: "quiet s" using d(3) [OF bg] by (simp add: quiet_def)
      have "updater_ok c v0 st (get_or_start_policy_update_task ?k s)"
      proof (cases "up_apply s")
        case None
        have "quiet (s\<lparr>up_apply := a\<rparr>)" for a using q by (simp add: quiet_def)
        then show ?thesis using None k(1) d(1,7) bg
          by (simp add: get_or_start_policy_update_task_def updater_ok_quiet) (simp add: apply_ok_def)
      qed (use ok in \<open>simp add: get_or_start_policy_update_task_def\<close>)
      then show ?thesis using False bg by (simp add: maybe_update_policy_def Let_def)
    qed
  qed
qed

lemma stage_sent_ok:
  assumes ok: "updater_ok c v0 st s" and i: "i < length (up_stages s)" "\<not> stage_done s i"
  shows "\<exists>st'. updater_ok c v0 st' (stage_sent c i sent s)"
proof -
  note d = updater_okD [OF ok]
  have bg: "uses_background_stage c" using d(3) i(1) by (cases "uses_background_stage c") auto
  let ?k = "step_of s i"
  have pend: "status_of s i = Pending" using i(2) by (simp add: stage_done_def)
  have inf: "up_inflight_stage s = Some i" using d(4) i(1) pend by (simp add: stages_ok_def)
  have due: "due c (up_ckpt_step s) ?k" by (rule inflight_due [OF d(5) inf]) (simp add: pend)
  let ?upd = "\<lambda>x l. s\<lparr>up_log := l, up_stages := (up_stages s)[i := (up_stages s ! i)\<lparr>st_status := x\<rparr>]\<rparr>"
  have gen: "updater_ok c v0 st' (?upd x l)"
    if sv: "served v0 l = Some (up_ckpt_step s, st')" and x: "x \<noteq> Pending" "x = Staged \<longrightarrow> ?k \<in> set st'" and sub: "set st \<subseteq> set st'" for st' x l
  proof -
    have steps: "step_of (?upd x l) j = step_of s j" for j using i(1) by (cases "i = j") (auto simp: nth_list_update)
    have stats: "status_of (?upd x l) j = (if j = i then x else status_of s j)" for j using i(1) by (auto simp: nth_list_update)
    have "stages_ok (?upd x l) st'"
      using d(4) x sub unfolding stages_ok_def steps stats by (auto simp: update_target_def)
    moreover have "inflight_ok c (?upd x l)" using inf due i(1) unfolding inflight_ok_def steps by simp
    moreover have "commit_ok c (?upd x l)"
      using d(6) pend unfolding commit_ok_def steps stats by auto
    moreover have "\<forall>a. up_apply s = Some a \<longrightarrow> False" using d(2) bg by blast
    ultimately show ?thesis using d(7) sv bg by (simp add: updater_ok_def)
  qed
  show ?thesis
  proof (cases "stage_request c ?k")
    case (Inl e)
    have "updater_ok c v0 st (?upd StageFailed (up_log s))" by (rule gen) (use d(1) in simp_all)
    then show ?thesis using Inl by (auto simp: stage_sent_def Let_def)
  next
    case (Inr r)
    have sv: "served v0 (up_log s @ [(r, sent)]) = Some (up_ckpt_step s, if sent then ?k # st else st)"
      using served_append [OF d(1)] serve_stage [OF due Inr] by simp
    have "updater_ok c v0 (if sent then ?k # st else st) (?upd (if sent then Staged else StageFailed) (up_log s @ [(r, sent)]))"
      by (rule gen) (use sv in auto)
    then show ?thesis using Inr by (auto simp: stage_sent_def Let_def)
  qed
qed

lemma commit_end_ok:
  assumes st: "stages_ok s st" and inf: "\<forall>i. up_inflight_stage s = Some i \<longrightarrow> i < length (up_stages s) \<and>
      (i = cm_task m \<or> due c (up_ckpt_step s) (step_of s i))"
    and fin: "\<forall>i < length (up_stages s). status_of s i = Pending \<longrightarrow> i \<noteq> cm_task m"
  shows "stages_ok (commit_end m s) st \<and> inflight_ok c (commit_end m s) \<and> commit_ok c (commit_end m s)"
proof (intro conjI)
  show "stages_ok (commit_end m s) st"
    using st fin by (simp add: commit_end_def stages_ok_def update_target_def)
  show "inflight_ok c (commit_end m s)"
    using inf by (auto simp: commit_end_def inflight_ok_def)
  show "commit_ok c (commit_end m s)" by (simp add: commit_end_def commit_ok_def)
qed

lemma commit_joined_ok:
  assumes ok: "updater_ok c v0 st s" and m: "up_commit s = Some m" "cm_phase m = Joining" "stage_done s (cm_task m)"
  shows "updater_ok c v0 st (commit_joined m s)"
proof -
  note d = updater_okD [OF ok]
  have bg: "uses_background_stage c" using d(3) m(1) by (cases "uses_background_stage c") auto
  have na: "\<forall>a. up_apply s = Some a \<longrightarrow> False" using d(2) bg by blast
  show ?thesis
  proof (cases "status_of s (cm_task m) = Staged")
    case True
    let ?s = "s\<lparr>up_commit := Some (m\<lparr>cm_phase := Committing\<rparr>)\<rparr>"
    have "stages_ok ?s st" using d(4) by (simp add: stages_ok_def update_target_def)
    moreover have "inflight_ok c ?s"
    proof -
      have "due c (up_ckpt_step s) (step_of s i)" if "up_inflight_stage s = Some i" for i
        by (rule inflight_due [OF d(5) that]) (use m in simp)
      then show ?thesis using inflight_length [OF d(5)] by (simp add: inflight_ok_def)
    qed
    moreover have "commit_ok c ?s"
    proof -
      have cm: "cm_task m < length (up_stages s)" "cm_step m = step_of s (cm_task m)" "due c (up_ckpt_step s) (cm_step m)"
        "\<exists>i. up_inflight_stage s = Some i \<and> (i = cm_task m \<or> cm_step m < step_of s i)"
        using d(6) [unfolded commit_ok_def, rule_format, OF m(1)] m(2) by auto
      show ?thesis unfolding commit_ok_def using cm True by auto
    qed
    ultimately show ?thesis using d(1,7) na bg True by (simp add: commit_joined_def updater_ok_def)
  next
    case False
    let ?s = "s\<lparr>up_ready := True\<rparr>"
    have "stages_ok ?s st" using d(4) by (simp add: stages_ok_def update_target_def)
    moreover have "\<forall>i. up_inflight_stage ?s = Some i \<longrightarrow> i < length (up_stages ?s) \<and>
        (i = cm_task m \<or> due c (up_ckpt_step ?s) (step_of ?s i))"
    proof (intro allI impI)
      fix i assume "up_inflight_stage ?s = Some i"
      then have i: "up_inflight_stage s = Some i" by simp
      have "due c (up_ckpt_step s) (step_of s i)" by (rule inflight_due [OF d(5) i]) (use m in simp)
      then show "i < length (up_stages ?s) \<and> (i = cm_task m \<or> due c (up_ckpt_step ?s) (step_of ?s i))"
        using inflight_length [OF d(5) i] by simp
    qed
    moreover have "\<forall>i < length (up_stages ?s). status_of ?s i = Pending \<longrightarrow> i \<noteq> cm_task m"
      using m(3) by (auto simp: stage_done_def)
    ultimately have e: "stages_ok (commit_end m ?s) st \<and> inflight_ok c (commit_end m ?s) \<and> commit_ok c (commit_end m ?s)"
      by (rule commit_end_ok)
    then show ?thesis using d(1,7) na bg False unfolding commit_joined_def updater_ok_def by (simp add: commit_end_def)
  qed
qed

lemma commit_sent_ok:
  assumes ok: "updater_ok c v0 st s" and m: "up_commit s = Some m" "cm_phase m = Committing"
  shows "\<exists>st'. updater_ok c v0 st' (commit_sent c m sent s)"
proof -
  note d = updater_okD [OF ok]
  have bg: "uses_background_stage c" using d(3) m(1) by (cases "uses_background_stage c") auto
  have na: "\<forall>a. up_apply s = Some a \<longrightarrow> False" using d(2) bg by blast
  let ?v = "up_ckpt_step s" and ?k = "cm_step m"
  obtain j where cm: "cm_task m < length (up_stages s)" "?k = step_of s (cm_task m)" "due c ?v ?k"
    "status_of s (cm_task m) = Staged" "up_inflight_stage s = Some j" "j = cm_task m \<or> ?k < step_of s j"
    using d(6) [unfolded commit_ok_def, rule_format, OF m(1)] m(2) by auto
  have j: "j < length (up_stages s)" by (rule inflight_length [OF d(5) cm(5)])
  have jd: "due c ?v (step_of s j)" by (rule inflight_due [OF d(5) cm(5)]) (use m in simp)
  have kin: "?k \<in> set st" using d(4) cm by (auto simp: stages_ok_def due_def)
  have sv: "served v0 (up_log s @ [(Commit ?k (uc_mode c), sent)]) = Some (if sent then (?k, filter (\<lambda>j. ?k < j) st) else (?v, st))"
    using served_append [OF d(1)] serve_commit [OF cm(3) kin] by simp
  show ?thesis
  proof (cases sent)
    case True
    let ?st = "filter (\<lambda>j. ?k < j) st"
    let ?s = "s\<lparr>up_log := up_log s @ [(Commit ?k (uc_mode c), True)], up_ready := True, up_ckpt_step := ?k,
      up_commit := Some (m\<lparr>cm_phase := CommitAgeing\<rparr>)\<rparr>"
    have "stages_ok ?s ?st" using d(4) cm(3) by (auto simp: stages_ok_def update_target_def due_def)
    moreover have "inflight_ok c ?s" using cm j jd by (auto simp: inflight_ok_def due_def)
    moreover have "commit_ok c ?s" using cm(1,2,4) by (simp add: commit_ok_def)
    moreover have "up_past s \<longrightarrow> up_step s - 1 \<le> ?k" using d(7) cm(3) by (auto simp: due_def)
    ultimately have "updater_ok c v0 ?st ?s" using sv True na bg by (simp add: updater_ok_def)
    then show ?thesis using True by (auto simp: commit_sent_def Let_def)
  next
    case False
    let ?s = "s\<lparr>up_log := up_log s @ [(Commit ?k (uc_mode c), False)], up_ready := True\<rparr>"
    have "stages_ok ?s st" using d(4) by (simp add: stages_ok_def update_target_def)
    moreover have "\<forall>i. up_inflight_stage ?s = Some i \<longrightarrow> i < length (up_stages ?s) \<and>
        (i = cm_task m \<or> due c (up_ckpt_step ?s) (step_of ?s i))" using cm(5) j jd by auto
    moreover have "\<forall>i < length (up_stages ?s). status_of ?s i = Pending \<longrightarrow> i \<noteq> cm_task m" using cm(4) by auto
    ultimately have e: "stages_ok (commit_end m ?s) st \<and> inflight_ok c (commit_end m ?s) \<and> commit_ok c (commit_end m ?s)"
      by (rule commit_end_ok)
    then have "updater_ok c v0 st (commit_end m ?s)" using sv False d(7) na bg unfolding updater_ok_def by (simp add: commit_end_def)
    then show ?thesis using False by (auto simp: commit_sent_def Let_def)
  qed
qed

lemma commit_ends_ok:
  assumes ok: "updater_ok c v0 st s" and m: "up_commit s = Some m" "cm_phase m = CommitAgeing"
  shows "updater_ok c v0 st (commit_end m s)"
proof -
  note d = updater_okD [OF ok]
  have bg: "uses_background_stage c" using d(3) m(1) by (cases "uses_background_stage c") auto
  have na: "\<forall>a. up_apply s = Some a \<longrightarrow> False" using d(2) bg by blast
  have inf: "\<forall>i. up_inflight_stage s = Some i \<longrightarrow> i < length (up_stages s) \<and>
      (i = cm_task m \<or> due c (up_ckpt_step s) (step_of s i))"
  proof (intro allI impI)
    fix i assume i: "up_inflight_stage s = Some i"
    have "due c (up_ckpt_step s) (step_of s i)" if "i \<noteq> cm_task m"
      by (rule inflight_due [OF d(5) i]) (use m that in simp)
    then show "i < length (up_stages s) \<and> (i = cm_task m \<or> due c (up_ckpt_step s) (step_of s i))"
      using inflight_length [OF d(5) i] by blast
  qed
  let ?e = "commit_end m s"
  have "stages_ok ?e st \<and> inflight_ok c ?e \<and> commit_ok c ?e"
  proof (cases "up_inflight_stage s = Some (cm_task m)")
    case True
    have "status_of s (cm_task m) \<noteq> Pending"
      using d(6) [unfolded commit_ok_def, rule_format, OF m(1)] m(2) by simp
    then show ?thesis using commit_end_ok [OF d(4) inf] by auto
  next
    case False
    then have "\<forall>i < length (up_stages s). status_of s i = Pending \<longrightarrow> i \<noteq> cm_task m" using d(4) by (auto simp: stages_ok_def)
    then show ?thesis using commit_end_ok [OF d(4) inf] by blast
  qed
  then show ?thesis using d(1,7) na bg unfolding updater_ok_def by (simp add: commit_end_def)
qed

lemma updater_ok_eval: "updater_ok c v0 st s \<Longrightarrow> updater_ok c v0 st (s\<lparr>up_ready := r, up_eval := e\<rparr>)"
proof -
  assume ok: "updater_ok c v0 st s"
  let ?s = "s\<lparr>up_ready := r, up_eval := e\<rparr>"
  note d = updater_okD [OF ok]
  have "stages_ok ?s st" using d(4) by (simp add: stages_ok_def update_target_def)
  moreover have "inflight_ok c ?s" using d(5) unfolding inflight_ok_def by simp
  moreover have "commit_ok c ?s" using d(6) unfolding commit_ok_def by auto
  ultimately show ?thesis using d(1,2,3,7) by (fastforce simp: updater_ok_def)
qed

lemma update_step_ok:
  assumes "update_step c s s'" "updater_ok c v0 st s"
  shows "\<exists>st'. updater_ok c v0 st' s'"
  using assms(1)
proof cases
  case (broadcast l)
  then show ?thesis using updater_ok_grow [OF assms(2) order_refl, of l "up_past s"] updater_okD(7) [OF assms(2)] by auto
next
  case (begin_step k)
  then show ?thesis using updater_ok_grow [OF assms(2) _ order_refl, of k False] by auto
next
  case poll
  then show ?thesis using maybe_update_ok [OF assms(2), of False] by auto
next
  case barrier
  then show ?thesis using maybe_update_ok [OF assms(2), of True] by auto
next
  case (apply_sends a rs ok)
  then show ?thesis using apply_sent_ok [OF assms(2)] by blast
next
  case (stage_sends i ok)
  then show ?thesis using stage_sent_ok [OF assms(2)] by blast
next
  case (commit_sends m ok)
  then show ?thesis using commit_sent_ok [OF assms(2)] by blast
next
  case eval_begins
  then show ?thesis using updater_ok_eval assms(2) by blast
next
  case eval_ends
  then show ?thesis using updater_ok_eval assms(2) by blast
qed (use apply_step_ok [OF assms(2)] commit_joined_ok [OF assms(2)] commit_ends_ok [OF assms(2)] in blast)+

lemma update_runs_ok: "(update_step c)\<^sup>*\<^sup>* (new_updater v0) s \<Longrightarrow> \<exists>st. updater_ok c v0 st s"
proof (induction rule: rtranclp_induct)
  case base
  show ?case
    by (auto simp: updater_ok_def new_updater_def served_def stages_ok_def inflight_ok_def commit_ok_def)
next
  case (step y z)
  then show ?case using update_step_ok by blast
qed

text \<open>C10. Updates reach the servers in order: whatever the trainer broadcasts and however the tasks interleave
  and fail, the requests sent so far are ones that a server holding the version the orchestrator started from
  accepts one after the other: deltas are staged on their base, staged versions are committed, versions
  only grow, and the server ends at the checkpoint the orchestrator thinks is loaded.\<close>

theorem updates_in_order:
  assumes "(update_step c)\<^sup>*\<^sup>* (new_updater v0) s"
  shows "\<exists>staged. served v0 (up_log s) = Some (up_ckpt_step s, staged)"
  using update_runs_ok [OF assms] by (auto simp: updater_ok_def)

text \<open>C25. At most one step ahead: once the main task is past the barrier of a step, the checkpoint that is
  loaded is at most one step behind, and it stays so until the next step begins.\<close>

theorem one_step_ahead:
  assumes "(update_step c)\<^sup>*\<^sup>* (new_updater v0) s" and "up_past s"
  shows "up_step s - up_ckpt_step s \<le> 1"
  using update_runs_ok [OF assms(1)] assms(2) by (auto simp: updater_ok_def)

section \<open>The gate\<close>

text \<open>Who holds the gate closed: an evaluation, an applying task that closed it, or a commit.\<close>

definition gate_held :: "updater \<Rightarrow> bool" where
  "gate_held s \<longleftrightarrow> up_eval s \<or> (\<exists>a. up_apply s = Some a \<and> ap_cleared a \<and> ap_phase a \<noteq> Ageing)
     \<or> (\<exists>m. up_commit s = Some m \<and> cm_phase m \<noteq> CommitAgeing)"

definition gate_ok :: "updater \<Rightarrow> bool" where
  "gate_ok s \<longleftrightarrow> (up_ready s \<or> gate_held s) \<and> (\<forall>a. up_apply s = Some a \<and> ap_phase a = Created \<longrightarrow> \<not> ap_cleared a)"

lemma gate_get_or_start: "gate_ok s \<Longrightarrow> gate_ok (fst (get_or_start_stage_task k s))"
  by (simp add: gate_ok_def gate_held_def get_or_start_stage_task_def Let_def split: option.split)

lemma gate_maybe_update: "gate_ok s \<Longrightarrow> gate_ok (maybe_update_policy c block s)"
proof -
  assume g: "gate_ok s"
  let ?k = "compute_next_ckpt_step c (up_step s) (up_ckpt_step s) (Some (up_latest s))"
  have "gate_ok (s\<lparr>up_past := True\<rparr>)" using g by (simp add: gate_ok_def gate_held_def)
  moreover have "gate_ok (get_or_start_policy_update_task ?k s)"
    using g by (auto simp: get_or_start_policy_update_task_def gate_ok_def gate_held_def split: option.split)
  moreover have "gate_ok (commit_wait_begin i t)" if "gate_ok t" for i t
    using that by (simp add: commit_wait_begin_def gate_ok_def gate_held_def)
  ultimately show ?thesis
    using g gate_get_or_start [OF g, of ?k] by (auto simp: maybe_update_policy_def Let_def case_prod_unfold)
qed

lemma gate_step: "update_step c s s' \<Longrightarrow> gate_ok s \<Longrightarrow> gate_ok s'"
proof (erule update_stepE)
  assume "gate_ok s" "s' = maybe_update_policy c False s"
  then show "gate_ok s'" using gate_maybe_update by blast
next
  assume "gate_ok s" "s' = maybe_update_policy c True s"
  then show "gate_ok s'" using gate_maybe_update by blast
next
  fix a assume "gate_ok s" "up_apply s = Some a" "ap_phase a = Checked" "s' = apply_available c a s"
  then show "gate_ok s'"
    by (cases "update_requests c (ap_next a)") (auto simp: apply_available_def apply_fails_def gate_ok_def gate_held_def)
next
  fix a rs ok assume "gate_ok s" "up_apply s = Some a" "ap_phase a = Sending rs" "s' = apply_sent a rs ok s"
  then show "gate_ok s'"
    by (auto simp: apply_sent_def Let_def apply_fails_def gate_ok_def gate_held_def)
next
  fix i ok assume "gate_ok s" "s' = stage_sent c i ok s"
  then show "gate_ok s'"
    by (cases "stage_request c (step_of s i)") (auto simp: stage_sent_def Let_def gate_ok_def gate_held_def)
next
  fix m assume "gate_ok s" "up_commit s = Some m" "cm_phase m = Joining" "s' = commit_joined m s"
  then show "gate_ok s'" by (auto simp: commit_joined_def commit_end_def gate_ok_def gate_held_def)
next
  fix m ok assume "gate_ok s" "up_commit s = Some m" "cm_phase m = Committing" "s' = commit_sent c m ok s"
  then show "gate_ok s'" by (auto simp: commit_sent_def commit_end_def Let_def gate_ok_def gate_held_def)
qed (auto simp: apply_begin_def Let_def commit_end_def gate_ok_def gate_held_def)

text \<open>C36. The gate opens again: the main loop is held up only while an evaluation runs, while the task that
  applies an update waits or sends, or while a commit joins its stage or sends; after each of them, also after
  an error, the gate is open.\<close>

theorem gate_reopens:
  assumes "(update_step c)\<^sup>*\<^sup>* (new_updater v0) s" and "\<not> gate_held s"
  shows "up_ready s"
proof -
  have "gate_ok s" using assms(1)
  proof (induction rule: rtranclp_induct)
    case base
    show ?case by (simp add: gate_ok_def new_updater_def)
  next
    case (step y z)
    then show ?case using gate_step by blast
  qed
  then show ?thesis using assms(2) by (simp add: gate_ok_def)
qed

section \<open>Concrete runs\<close>

datatype update_event = Broadcast int | Begin int | Poll | Barrier | Apply bool | Upload nat bool | Finish bool | Evaluate bool

definition update_event :: "update_config \<Rightarrow> update_event \<Rightarrow> updater \<Rightarrow> updater option" where
  "update_event c e s =
     (case e of
        Broadcast l \<Rightarrow> if up_latest s \<le> l then Some (s\<lparr>up_latest := l\<rparr>) else None
      | Begin k \<Rightarrow> if up_step s \<le> k \<and> up_commit s = None then Some (s\<lparr>up_step := k, up_past := False\<rparr>) else None
      | Poll \<Rightarrow> Some (maybe_update_policy c False s)
      | Barrier \<Rightarrow> if \<not> up_past s \<and> up_commit s = None then Some (maybe_update_policy c True s) else None
      | Apply ok \<Rightarrow> (case up_apply s of None \<Rightarrow> None | Some a \<Rightarrow> Some (case ap_phase a of
            Created \<Rightarrow> apply_begin a s | Checked \<Rightarrow> apply_available c a s | Sending rs \<Rightarrow> apply_sent a rs ok s
          | Ageing \<Rightarrow> s\<lparr>up_apply := None\<rparr>))
      | Upload i ok \<Rightarrow> if i < length (up_stages s) \<and> \<not> stage_done s i then Some (stage_sent c i ok s) else None
      | Finish ok \<Rightarrow> (case up_commit s of None \<Rightarrow> None | Some m \<Rightarrow> (case cm_phase m of
            Joining \<Rightarrow> if stage_done s (cm_task m) then Some (commit_joined m s) else None
          | Committing \<Rightarrow> Some (commit_sent c m ok s) | CommitAgeing \<Rightarrow> Some (commit_end m s)))
      | Evaluate begins \<Rightarrow> if begins then Some (s\<lparr>up_ready := False, up_eval := True\<rparr>)
          else if up_eval s then Some (s\<lparr>up_ready := True, up_eval := False\<rparr>) else None)"

lemma update_event_sound: "update_event c e s = Some s' \<Longrightarrow> update_step c s s'"
  unfolding update_event_def
  by (auto split: update_event.splits if_splits option.splits apply_phase.splits commit_phase.splits intro: update_step.intros)

fun update_events :: "update_config \<Rightarrow> update_event list \<Rightarrow> updater \<Rightarrow> updater option" where
  "update_events c [] s = Some s"
| "update_events c (e # es) s = (case update_event c e s of None \<Rightarrow> None | Some s' \<Rightarrow> update_events c es s')"

lemma update_events_sound: "update_events c es s = Some s' \<Longrightarrow> (update_step c)\<^sup>*\<^sup>* s s'"
proof (induction es arbitrary: s)
  case (Cons e es)
  then obtain s1 where "update_event c e s = Some s1" "update_events c es s1 = Some s'" by (auto split: option.splits)
  then show ?case using Cons.IH update_event_sound by (meson converse_rtranclp_into_rtranclp)
qed simp

definition delta_background :: update_config where
  "delta_background = \<lparr>uc_mode = Delta, uc_protocol = StageCommit, uc_transport = StreamingUpload, uc_background = True, uc_lora = None\<rparr>"

definition full_direct :: update_config where
  "full_direct = \<lparr>uc_mode = Full, uc_protocol = Direct, uc_transport = SharedFs, uc_background = False, uc_lora = None\<rparr>"

text \<open>Two deltas, the second staged in the background while the first is being committed; then the barrier.\<close>

definition demo_updates :: "update_event list" where
  "demo_updates = [Broadcast 2, Begin 3, Poll, Upload 0 True, Barrier, Finish True, Finish True, Poll, Finish True,
     Upload 1 True, Barrier, Finish True, Finish True, Finish True, Barrier]"

lemma demo_updates_run:
  obtains s where "(update_step delta_background)\<^sup>*\<^sup>* (new_updater 0) s" "up_past s" "up_step s = 3" "up_ckpt_step s = 2"
    "map snd (up_log s) = [True, True, True, True]" "\<not> gate_held s"
proof -
  have "case update_events delta_background demo_updates (new_updater 0) of None \<Rightarrow> False
    | Some s \<Rightarrow> up_past s \<and> up_step s = 3 \<and> up_ckpt_step s = 2 \<and> map snd (up_log s) = [True, True, True, True]
        \<and> \<not> up_eval s \<and> up_apply s = None \<and> up_commit s = None" by code_simp
  then obtain s where s: "update_events delta_background demo_updates (new_updater 0) = Some s" "up_past s" "up_step s = 3"
    "up_ckpt_step s = 2" "map snd (up_log s) = [True, True, True, True]" "\<not> up_eval s" "up_apply s = None" "up_commit s = None"
    by (cases "update_events delta_background demo_updates (new_updater 0)") simp_all
  show thesis by (rule that [OF update_events_sound [OF s(1)] s(2-5)]) (simp add: gate_held_def s)
qed

theorem updates_in_order_witness:
  "\<exists>s staged. (update_step delta_background)\<^sup>*\<^sup>* (new_updater 0) s \<and> length (up_log s) = 4 \<and> served 0 (up_log s) = Some (2, staged)"
proof (rule demo_updates_run)
  fix s assume s: "(update_step delta_background)\<^sup>*\<^sup>* (new_updater 0) s" "up_ckpt_step s = 2" "map snd (up_log s) = [True, True, True, True]"
  have "length (up_log s) = 4" using arg_cong [OF s(3), of length] by simp
  then show ?thesis using updates_in_order [OF s(1)] s(1,2) by auto
qed

theorem one_step_ahead_witness:
  "\<exists>s. (update_step delta_background)\<^sup>*\<^sup>* (new_updater 0) s \<and> up_past s \<and> up_step s = 3 \<and> up_step s - up_ckpt_step s \<le> 1"
proof (rule demo_updates_run)
  fix s assume s: "(update_step delta_background)\<^sup>*\<^sup>* (new_updater 0) s" "up_past s" "up_step s = 3"
  show ?thesis using one_step_ahead [OF s(1,2)] s by blast
qed

theorem gate_reopens_witness:
  "\<exists>s. (update_step delta_background)\<^sup>*\<^sup>* (new_updater 0) s \<and> \<not> gate_held s \<and> up_step s = 3 \<and> up_ready s"
proof (rule demo_updates_run)
  fix s assume s: "(update_step delta_background)\<^sup>*\<^sup>* (new_updater 0) s" "up_step s = 3" "\<not> gate_held s"
  show ?thesis using gate_reopens [OF s(1,3)] s by blast
qed

text \<open>An evaluation closes the gate, but the gate does not hold back updates: the background loop adopts a checkpoint
  in the middle of it, and opens the gate.\<close>

lemma evaluation_not_isolated:
  "\<exists>s s'. up_eval s \<and> up_log s = [] \<and> (update_step full_direct)\<^sup>*\<^sup>* (new_updater 0) s
     \<and> (update_step full_direct)\<^sup>*\<^sup>* s s' \<and> up_eval s' \<and> up_ready s' \<and> up_log s' = [(Update 3 Full None, True)]"
proof -
  let ?e1 = "[Begin 2, Evaluate True]" and ?e2 = "[Broadcast 3, Poll, Apply True, Apply True, Apply True]"
  have "case update_events full_direct ?e1 (new_updater 0) of None \<Rightarrow> False
    | Some s \<Rightarrow> up_eval s \<and> up_log s = [] \<and> (case update_events full_direct ?e2 s of None \<Rightarrow> False
       | Some s' \<Rightarrow> up_eval s' \<and> up_ready s' \<and> up_log s' = [(Update 3 Full None, True)])" by code_simp
  then obtain s s' where s: "update_events full_direct ?e1 (new_updater 0) = Some s" "up_eval s" "up_log s = []"
    "update_events full_direct ?e2 s = Some s'" "up_eval s'" "up_ready s'" "up_log s' = [(Update 3 Full None, True)]"
    by (auto split: option.splits)
  show ?thesis
    using update_events_sound [OF s(1)] update_events_sound [OF s(4)] s(2,3,5-7)
    by (intro exI [of _ s] exI [of _ s'] conjI)
qed

end
