(* ===== verification/ClientStream.thy ===== *)
theory ClientStream
  imports ClientUpload
begin

text \<open>
  A delta file that the trainer still writes is streamed to the server while it grows: the client's polling loop
  of \<open>AdminClient\<close> against the streaming handlers of \<open>StageHandlers\<close>.
\<close>

section \<open>The server side of a stream\<close>

definition streaming :: "string \<Rightarrow> stage_args \<Rightarrow> byte list \<Rightarrow> nat \<Rightarrow> server \<Rightarrow> bool" where
  "streaming i a file off s \<longleftrightarrow>
     (\<exists>u bs q. dget (stage_uploads s) (stage_stream_upload_key i) = Some u \<and> dget (s_files s) (up_path u) = Some bs
        \<and> up_staged_path u = Some q \<and> up_version u = Some (sa_version a) \<and> up_mode u = sa_mode a \<and> up_base u = sa_base a
        \<and> ranges_ok (up_ranges u) \<and> covered (up_ranges u) = {0..<int off} \<and> agrees file bs (up_ranges u))"

lemma store_stream_chunk:
  assumes u: "dget (s_files s) (up_path u) = Some bs" "up_staged_path u = Some q" "up_version u = Some (sa_version a)"
      "up_mode u = sa_mode a" "up_base u = sa_base a"
      "ranges_ok (up_ranges u)" "covered (up_ranges u) = {0..<int (length pre)}" "agrees file bs (up_ranges u)"
    and f: "file = pre @ chunk @ post"
  shows "streaming i a file (length (pre @ chunk)) (store_chunk (stage_stream_upload_key i) u (int (length pre)) chunk s)"
proof -
  have "slice_of file (int (length pre)) chunk" using f by (simp add: slice_of_def)
  note w = agrees_write [OF u(8,6) this] merge_range [OF u(6), of "int (length pre)" "int (length pre) + int (length chunk)"]
  have "{0..<int (length pre)} \<union> {int (length pre)..<int (length pre) + int (length chunk)} = {0..<int (length (pre @ chunk))}"
    using ivl_disj_un_two(3) [of 0 "int (length pre)" "int (length pre) + int (length chunk)"] by simp
  then show ?thesis
    using w u(1-5,7) by (simp add: streaming_def store_chunk_def write_chunk_def put_file_def Let_def dict_simps)
qed

lemma stream_chunk_fields:
  "rq_query (arrives (stream_chunk_request i k off chunk)) =
     [(''upload_id'', FStr i), (''chunk_index'', FStr (show_nat k)), (''offset'', FStr (show_nat off))]"
  "rq_body (arrives (stream_chunk_request i k off chunk)) = chunk"
  by (simp_all add: arrives_def stream_chunk_request_def request_to_def text_fields_def)

lemma post_stream_chunk:
  assumes "streaming i a file (length pre) s" "file = pre @ chunk @ post" "chunk \<noteq> []" "peers_answer E"
  obtains t where "post_ok (server_http E) (stream_chunk_request i k (length pre) chunk) s = (t, Inr ())"
    "streaming i a file (length (pre @ chunk)) t" "upload_frame s t"
proof -
  obtain u bs q where u: "dget (stage_uploads s) (stage_stream_upload_key i) = Some u" "dget (s_files s) (up_path u) = Some bs"
    "up_staged_path u = Some q" "up_version u = Some (sa_version a)" "up_mode u = sa_mode a" "up_base u = sa_base a"
    "ranges_ok (up_ranges u)" "covered (up_ranges u) = {0..<int (length pre)}" "agrees file bs (up_ranges u)"
    using assms(1) by (auto simp: streaming_def)
  let ?q = "stream_chunk_request i k (length pre) chunk"
  define t where "t = store_chunk (stage_stream_upload_key i) u (int (length pre)) chunk s"
  obtain calls stats where f: "fan_out_stream_chunk (su_peers E) u (int (length pre)) chunk = (calls, stats)" by force
  have "relay_failure_response t (snd (fan_out_stream_chunk (su_peers E) u (int (length pre)) chunk)) = None"
    unfolding fan_out_stream_chunk_def assms(4) [unfolded peers_answer_def] by (rule fan_out_stream_ok) simp
  then have r: "relay_failure_response t stats = None" by (simp add: f)
  have "\<exists>n. stage_stream_chunk (su_peers E) (arrives ?q) s = (t, calls, Received n)"
    using u(1,4) assms(3) f r
    by (simp add: stage_stream_chunk_def stream_chunk_fields field_opt_def parse_non_negative_int_def or_failure_def t_def [symmetric])
  then have "post_ok (server_http E) ?q s = (t, Inr ())"
    by (auto simp: post_ok_def bindS_def http_post_def server_http_def stream_chunk_request_def request_to_def answer_def returns_def)
  moreover have "streaming i a file (length (pre @ chunk)) t" unfolding t_def by (rule store_stream_chunk [OF u(2-9) assms(2)])
  ultimately show thesis using that upload_frame_store unfolding t_def by blast
qed

section \<open>The polling loop\<close>

text \<open>What a poll finds: the file so far; and once the done file exists, the file is complete.\<close>

definition poll_of :: "byte list \<Rightarrow> poll \<Rightarrow> bool" where
  "poll_of file p \<longleftrightarrow> (case po_file p of None \<Rightarrow> True | Some bs \<Rightarrow> bs = take (length bs) file) \<and> (po_done p \<longrightarrow> po_after p = Some file)"

definition complete_poll :: "byte list \<Rightarrow> poll \<Rightarrow> bool" where
  "complete_poll file p \<longleftrightarrow> po_file p = Some file \<and> po_done p \<and> po_after p = Some file"

lemma poll_chunk:
  assumes "poll_of file p" "off \<le> length file" and c: "c = (case po_file p of None \<Rightarrow> [] | Some bs \<Rightarrow> take n (drop off bs))"
  shows "file = take off file @ c @ drop (off + length c) file"
proof (cases "po_file p")
  case None
  then show ?thesis by (simp add: c)
next
  case (Some bs)
  then have "bs = take (length bs) file" using assms(1) by (simp add: poll_of_def)
  then have "c = take (min n (length bs - off)) (drop off file)"
    using c Some by (metis take_drop take_take drop_take option.simps(5))
  then have "c = take (length c) (drop off file)" by (metis append_eq_conv_conj append_take_drop_id)
  then show ?thesis by (metis append_take_drop_id drop_drop add.commute)
qed

lemma stream_chunks_upload:
  assumes "0 < n" "peers_answer E" and "\<forall>p \<in> set polls. poll_of file p" "streaming i a file off s" "off \<le> length file"
  shows "\<exists>t ended off'. stream_chunks (server_http E) i n True k off polls s = (t, Inr ended) \<and> streaming i a file off' t
    \<and> upload_frame s t \<and> (ended \<longrightarrow> off' = length file)
    \<and> (length file - off < length (filter (complete_poll file) polls) \<longrightarrow> ended)"
  using assms(3-5)
proof (induction polls arbitrary: s off k)
  case Nil
  then show ?case by (auto simp: returns_def upload_frame_refl)
next
  case (Cons p ps)
  have p: "poll_of file p" and ps: "\<forall>p \<in> set ps. poll_of file p" using Cons.prems(1) by auto
  define c where "c = (case po_file p of None \<Rightarrow> [] | Some bs \<Rightarrow> take n (drop off bs))"
  have f: "file = take off file @ c @ drop (off + length c) file" by (rule poll_chunk [OF p Cons.prems(3) c_def])
  have len: "length (take off file) = off" using Cons.prems(3) by simp
  show ?case
  proof (cases "c = []")
    case False
    obtain t where t: "post_ok (server_http E) (stream_chunk_request i k off c) s = (t, Inr ())"
      "streaming i a file (off + length c) t" "upload_frame s t"
      by (rule post_stream_chunk [where pre = "take off file", unfolded len length_append, OF Cons.prems(2) f False assms(2)])
    have "off + length c \<le> length file" using arg_cong [OF f, of length] Cons.prems(3) by simp
    from Cons.IH [OF ps t(2) this, of "k + 1"] obtain u ended off' where
      u: "stream_chunks (server_http E) i n True (k + 1) (off + length c) ps t = (u, Inr ended)" "streaming i a file off' u"
        "upload_frame t u" "ended \<longrightarrow> off' = length file"
        "length file - (off + length c) < length (filter (complete_poll file) ps) \<longrightarrow> ended" by blast
    have "stream_chunks (server_http E) i n True k off (p # ps) s = (u, Inr ended)"
      using t(1) u(1) False by (simp add: c_def [symmetric])
    moreover have "length file - off < length (filter (complete_poll file) (p # ps)) \<longrightarrow> ended"
      using u(5) False \<open>off + length c \<le> length file\<close> by (cases c) (auto split: if_splits)
    ultimately show ?thesis using u(2,4) upload_frame_trans [OF t(3) u(3)] by blast
  next
    case True
    show ?thesis
    proof (cases "stream_ends True off p")
      case ends: True
      then have "length file \<le> off" using p by (auto simp: stream_ends_def poll_of_def split: option.splits)
      moreover have "stream_chunks (server_http E) i n True k off (p # ps) s = (s, Inr True)"
        using True ends by (simp add: c_def [symmetric] returns_def)
      ultimately show ?thesis using Cons.prems(2,3) upload_frame_refl by (metis le_antisym)
    next
      case False
      have "\<not> complete_poll file p"
      proof
        assume cp: "complete_poll file p"
        then have "drop off file = []" using True assms(1) by (simp add: c_def complete_poll_def)
        then show False using False cp Cons.prems(3) by (simp add: stream_ends_def complete_poll_def)
      qed
      moreover have "stream_chunks (server_http E) i n True k off (p # ps) s = stream_chunks (server_http E) i n True k off ps s"
        using True False by (simp add: c_def [symmetric])
      ultimately show ?thesis using Cons.IH [OF ps Cons.prems(2,3), of k] by simp
    qed
  qed
qed

section \<open>Opening and closing\<close>

lemma stream_init_fields:
  "fst (read_request_fields (arrives ((request_to ''/stage_stream_init'')\<lparr>hr_json := Some (map (\<lambda>(k, v). (k, Some v)) d)\<rparr>)))
     = foldl (\<lambda>f (k, v). dput k v f) [] (text_fields d)"
proof -
  have "foldl (\<lambda>f (k, v). case v of None \<Rightarrow> f | Some x \<Rightarrow> dput k x f) f0 (map (\<lambda>(k, v). (k, map_option FStr v)) (map (\<lambda>(k, v). (k, Some v)) d))
      = foldl (\<lambda>f (k, v). dput k v f) f0 (text_fields d)" for f0
    by (induction d arbitrary: f0) (auto simp: text_fields_def)
  then show ?thesis
    by (simp add: read_request_fields_def arrives_def content_type_def request_to_def startswith_def text_fields_def [of "[]"])
qed

lemma init_fields_read:
  "fst (read_request_fields (arrives ((request_to ''/stage_stream_init'')\<lparr>hr_json :=
      Some (map (\<lambda>(k, v). (k, Some v)) (stage_data a @ [(''filename'', path_name path)]))\<rparr>)))
     = text_fields (stage_data a @ [(''filename'', path_name path)])"
proof -
  have "distinct (dkeys (text_fields (stage_data a @ [(''filename'', path_name path)])))"
    by (simp add: text_fields_def stage_data_def split: option.split)
  then show ?thesis using foldl_dput_distinct [of "[]" "text_fields (stage_data a @ [(''filename'', path_name path)])"]
    by (simp only: stream_init_fields append_Nil)
qed

lemma init_fields_get:
  "field_str (text_fields (stage_data a @ [(''filename'', n)])) ''version'' ''unknown'' = sa_version a"
  "field_str (text_fields (stage_data a @ [(''filename'', n)])) ''mode'' ''full'' = sa_mode a"
  "field_opt (text_fields (stage_data a @ [(''filename'', n)])) ''base_version'' = sa_base a"
  "field_opt (text_fields (stage_data a @ [(''filename'', n)])) ''filename'' = Some n"
  by (cases "sa_base a"; simp add: text_fields_def stage_data_def field_str_def field_opt_def map_of_eq_None_iff)+

lemma stream_opens:
  assumes "validate_stage s (sa_version a) (sa_mode a) (sa_base a) = Inr meta"
    and "\<forall>p. \<exists>i. su_ids E p = Some i \<and> i \<noteq> []"
  obtains t where "http_post (server_http E) ((request_to ''/stage_stream_init'')\<lparr>hr_json :=
      Some (map (\<lambda>(k, v). (k, Some v)) (stage_data a @ [(''filename'', path_name path)]))\<rparr>) s = (t, Inr [(''upload_id'', su_uuid E)])"
    "streaming (su_uuid E) a file 0 t" "upload_frame s t"
proof -
  let ?q = "(request_to ''/stage_stream_init'')\<lparr>hr_json :=
      Some (map (\<lambda>(k, v). (k, Some v)) (stage_data a @ [(''filename'', path_name path)]))\<rparr>"
  define f where "f = text_fields (stage_data a @ [(''filename'', path_name path)])"
  have m: "meta = \<lparr>sm_version = sa_version a, sm_mode = sa_mode a, sm_base = sa_base a\<rparr>" by (rule validate_stage_meta [OF assms(1)])
  have v: "validate_stage_metadata s f = Inr meta"
    using assms(1) by (simp add: validate_stage_metadata_def f_def init_fields_get)
  define r where "r = arrives ?q"
  have rd: "fst (read_request_fields r) = f" unfolding f_def r_def by (rule init_fields_read)
  have fn: "field_opt f ''filename'' = Some (path_name path)" by (simp add: f_def init_fields_get)
  define name where "name = safe_path_component (path_name (path_name path))"
  define staged where "staged = staged_name s (su_uuid E) (sa_mode a) name"
  define u where "u = \<lparr>up_path = staged @ ''.stream.part'', up_staged_path = Some staged, up_filename = name,
      up_mode = sa_mode a, up_version = Some (sa_version a), up_base = sa_base a, up_total_size = None, up_sha256 = None,
      up_ranges = [], up_chunks = 0, up_relay_requested = Some (relay_requested f), up_relay_uploads = []\<rparr>"
  define s1 where "s1 = put_file (staged @ ''.stream.part'') [] s"
  have op: "stage_stream_init_open (su_uuid E) r s = (s1, Inr (f, \<lparr>ij_id = su_uuid E, ij_upload = u\<rparr>))"
    unfolding stage_stream_init_open_def rd Let_def v fn sum.case option.case u_def s1_def staged_def name_def m
    by simp
  obtain ups calls stats where fo: "fan_out_stream_init s1 (su_ids E) f name (relay_requested f) = (ups, calls, stats)"
    by (rule prod_cases3)
  have good: "(case su_ids E p of None \<Rightarrow> False | Some i \<Rightarrow> i \<noteq> [])" for p
    using spec [OF assms(2), of p] by auto
  have "relay_failure_response s1 (snd (snd (fan_out_stream_init s1 (su_ids E) f name (relay_requested f)))) = None"
    unfolding fan_out_stream_init_def Let_def snd_conv by (rule fan_out_all_ok) (simp add: good)
  then have r: "relay_failure_response s1 stats = None" by (simp add: fo)
  let ?t = "s1\<lparr>stage_uploads := dput (stage_stream_upload_key (su_uuid E)) (u\<lparr>up_relay_uploads := ups\<rparr>) (stage_uploads s1)\<rparr>"
  have un: "up_filename u = name" by (simp add: u_def)
  have cl: "stage_stream_init_close (su_ids E) f \<lparr>ij_id = su_uuid E, ij_upload = u\<rparr> s1 = (?t, calls, UploadStarted (su_uuid E))"
    by (simp add: stage_stream_init_close_def un fo r)
  have "http_post (server_http E) ?q s = (?t, Inr [(''upload_id'', su_uuid E)])"
    using op cl unfolding r_def by (simp add: http_post_def server_http_def handle_stream_init_def answer_def Let_def) (simp add: request_to_def)
  moreover have "streaming (su_uuid E) a file 0 ?t"
    by (simp add: streaming_def u_def s1_def put_file_def dict_simps agrees_def ranges_ok_def)
  moreover have "upload_frame s ?t" by (simp add: upload_frame_def s1_def put_file_def)
  ultimately show thesis by (rule that)
qed

lemma finalize_stream_fields:
  "fst (read_request_fields (arrives ((request_to ''/stage_stream_finalize'')\<lparr>hr_data :=
      [(''upload_id'', i), (''final_size'', show_nat n), (''sha256'', h)]\<rparr>)))
   = [(''upload_id'', FStr i), (''final_size'', FStr (show_nat n)), (''sha256'', FStr h)]"
  by (simp add: fields_of_data request_to_def text_fields_def)

lemma stream_closes:
  assumes at: "streaming i a file (length file) s" and E: "peers_answer E"
    and val: "validate_stage s (sa_version a) (sa_mode a) (sa_base a) = Inr meta"
  obtains t where "finalize_stream (server_http E) (su_sha E) i (Some file) s = (t, Inr ())" "holds_staged s a file t"
proof -
  obtain u bs q where u: "dget (stage_uploads s) (stage_stream_upload_key i) = Some u" "dget (s_files s) (up_path u) = Some bs"
    "up_staged_path u = Some q" "up_version u = Some (sa_version a)" "up_mode u = sa_mode a" "up_base u = sa_base a"
    "ranges_ok (up_ranges u)" "covered (up_ranges u) = {0..<int (length file)}" "agrees file bs (up_ranges u)"
    using at by (auto simp: streaming_def)
  have bs: "bs = file" by (rule agrees_complete [OF u(9,8)])
  have full: "upload_complete (up_ranges u) (int (length file))" using complete_iff_covered [OF u(7)] u(8) by simp
  define r where "r = arrives ((request_to ''/stage_stream_finalize'')\<lparr>hr_data :=
      [(''upload_id'', i), (''final_size'', show_nat (length file)), (''sha256'', su_sha E file)]\<rparr>)"
  define f where "f = [(''upload_id'', FStr i), (''final_size'', FStr (show_nat (length file))), (''sha256'', FStr (su_sha E file))]"
  have rd: "fst (read_request_fields r) = f" unfolding r_def f_def by (rule finalize_stream_fields)
  define s1 where "s1 = drop_upload (stage_stream_upload_key i) (move_file (up_path u) q s)"
  define pd where "pd = \<lparr>pd_version = sa_version a, pd_entry = \<lparr>e_path = q, e_mode = sa_mode a, e_base = sa_base a, e_owned = True\<rparr>,
      pd_relay = RelayStream u f\<rparr>"
  have out: "stage_stream_finalize (su_sha E) r s = (s1, Registering pd)"
    using u full val bs unfolding stage_stream_finalize_def rd Let_def s1_def pd_def
    by (simp add: f_def field_opt_def parse_non_negative_int_def)
  have fr: "upload_frame s s1"
    by (simp add: s1_def upload_frame_def drop_upload_def move_file_def put_file_def unlink_def split: option.split)
  have v1: "validate_stage s1 (sa_version a) (sa_mode a) (sa_base a) = Inr meta"
    using validate_same_rules [OF upload_frame_rules [OF fr]] val by simp
  have fl: "dget (s_files s1) (e_path (pd_entry pd)) = Some file" using u(2) bs by (simp add: s1_def pd_def dget_move_file)
  obtain t where t: "settle_outcome E (stage_stream_finalize (su_sha E) r s) = (t, Response 200 [])" "holds_staged s1 a file t"
    by (rule settle_registering [OF out _ _ _ _ fl E v1]) (simp_all add: pd_def)
  have "finalize_stream (server_http E) (su_sha E) i (Some file) s = (t, Inr ())"
    using t(1) unfolding r_def finalize_stream_def option.case
    by (simp add: post_ok_def bindS_def http_post_def server_http_def Let_def returns_def) (simp add: request_to_def)
  then show thesis using that holds_staged_frame [OF fr t(2)] by blast
qed

section \<open>The whole upload\<close>

lemma streaming_upload_stages:
  assumes "0 < n" "peers_answer E" "\<forall>p. \<exists>i. su_ids E p = Some i \<and> i \<noteq> []" "su_uuid E \<noteq> []"
    and v: "validate_stage s (sa_version a) (sa_mode a) (sa_base a) = Inr meta" and "sa_mode a = ''delta''"
    and polls: "\<forall>p \<in> set polls. poll_of file p" "length file < length (filter (complete_poll file) polls)"
  obtains t where "stage_streaming_upload (server_http E) (su_sha E) n a path True exists_now polls (Some file) s = (t, Inr True)"
    "holds_staged s a file t"
proof -
  obtain s1 where s1: "http_post (server_http E) ((request_to ''/stage_stream_init'')\<lparr>hr_json :=
      Some (map (\<lambda>(k, v). (k, Some v)) (stage_data a @ [(''filename'', path_name path)]))\<rparr>) s = (s1, Inr [(''upload_id'', su_uuid E)])"
    "streaming (su_uuid E) a file 0 s1" "upload_frame s s1"
    by (rule stream_opens [OF v assms(3)])
  obtain s2 where s2: "stream_chunks (server_http E) (su_uuid E) n True 0 0 polls s1 = (s2, Inr True)"
    "streaming (su_uuid E) a file (length file) s2" "upload_frame s1 s2"
    using stream_chunks_upload [OF assms(1,2) polls(1) s1(2), of 0] polls(2) by auto
  have v2: "validate_stage s2 (sa_version a) (sa_mode a) (sa_base a) = Inr meta"
    using validate_same_rules [OF upload_frame_rules [OF upload_frame_trans [OF s1(3) s2(3)]]] v by simp
  obtain t where t: "finalize_stream (server_http E) (su_sha E) (su_uuid E) (Some file) s2 = (t, Inr ())" "holds_staged s2 a file t"
    by (rule stream_closes [OF s2(2) assms(2) v2])
  have "stage_streaming_upload (server_http E) (su_sha E) n a path True exists_now polls (Some file) s = (t, Inr True)"
    using s1(1) s2(1) t(1) assms(4,6) by (simp add: stage_streaming_upload_def returns_def)
  then show thesis using that holds_staged_frame [OF upload_frame_trans [OF s1(3) s2(3)] t(2)] by blast
qed

text \<open>C8. A delta that is still being written reaches the engine: a client polls a file that grows and is complete
  once its done file exists, and sends what is new after each poll. After as many complete polls as the file has
  bytes, and one more, it has ended, the server has exactly the file, and committing it loads the file.\<close>

theorem growing_file_is_loaded:
  assumes "0 < n" and "\<forall>p \<in> set polls. poll_of file p" and "length file < length (filter (complete_poll file) polls)"
    and "sa_mode a = ''delta''" and "\<exists>meta. validate_stage s (sa_version a) ''delta'' (sa_base a) = Inr meta"
    and "\<not> weights_dirty s" "active_version s \<noteq> Some (sa_version a)"
    and "su_peers E = (\<lambda>_ _. True)" "\<forall>p. \<exists>i. su_ids E p = Some i \<and> i \<noteq> []" "su_engine E" "su_uuid E \<noteq> []"
  shows "\<exists>t u. stage_streaming_upload (server_http E) (su_sha E) n a path True exists_now polls (Some file) s = (t, Inr True)
     \<and> commit_endpoint (server_http E) (sa_version a) (Some ''delta'') t = (u, Inr ())
     \<and> active_version u = Some (sa_version a) \<and> \<not> weights_dirty u \<and> \<not> paused u
     \<and> engine_log u = engine_log s @ [RpcCommit (sa_version a) ''delta'' (sa_base a) (Some file)]"
proof -
  have E: "peers_answer E" using assms(8) by (simp add: peers_answer_def)
  obtain meta where v: "validate_stage s (sa_version a) (sa_mode a) (sa_base a) = Inr meta" using assms(4,5) by auto
  obtain t where t: "stage_streaming_upload (server_http E) (su_sha E) n a path True exists_now polls (Some file) s = (t, Inr True)"
    "holds_staged s a file t"
    by (rule streaming_upload_stages [OF assms(1) E assms(9,11) v assms(4,2,3)])
  have c: "core t = core s" "api_server_count t = api_server_count s" using t(2) by (simp_all add: holds_staged_def)
  have cl: "\<not> weights_dirty t" "active_version t \<noteq> Some (sa_version a)" "engine_log t = engine_log s"
    using c(1) assms(6,7) by (simp_all add: core_def)
  have vt: "validate_stage t (sa_version a) (sa_mode a) (sa_base a) = Inr meta" using validate_core [OF c] v by simp
  obtain u where "commit_endpoint (server_http E) (sa_version a) (Some (sa_mode a)) t = (u, Inr ())"
    "active_version u = Some (sa_version a)" "\<not> weights_dirty u" "\<not> paused u"
    "engine_log u = engine_log t @ [RpcCommit (sa_version a) (sa_mode a) (sa_base a) (Some file)]"
    by (rule commit_loads [OF t(2) cl(1,2) vt E assms(10)])
  then show ?thesis using t(1) cl(3) assms(4) by auto
qed

definition demo_polls :: "poll list" where
  "demo_polls = [\<lparr>po_file = None, po_done = False, po_after = None\<rparr>, \<lparr>po_file = Some [5], po_done = False, po_after = Some [5]\<rparr>]
     @ replicate 4 \<lparr>po_file = Some [5, 6, 7], po_done = True, po_after = Some [5, 6, 7]\<rparr>"

theorem growing_file_is_loaded_witness:
  "\<exists>t u. stage_streaming_upload (server_http (demo_surroundings\<lparr>su_ids := \<lambda>_. Some ''i''\<rparr>)) (su_sha demo_surroundings) 2 demo_args
       ''b/step_1/delta.stream'' True False demo_polls (Some [5, 6, 7]) demo_server = (t, Inr True)
     \<and> commit_endpoint (server_http (demo_surroundings\<lparr>su_ids := \<lambda>_. Some ''i''\<rparr>)) ''1'' (Some ''delta'') t = (u, Inr ())
     \<and> engine_log u = [RpcCommit ''1'' ''delta'' (Some ''0'') (Some [5, 6, 7])]"
proof -
  let ?E = "demo_surroundings\<lparr>su_ids := \<lambda>_. Some ''i''\<rparr>"
  have v: "\<exists>meta. validate_stage demo_server (sa_version demo_args) ''delta'' (sa_base demo_args) = Inr meta"
    by (simp add: demo_args_def demo_server_def init_server_def validate_stage_def current_version_def)
  have p: "\<forall>p \<in> set demo_polls. poll_of [5, 6, 7] p" by (simp add: demo_polls_def poll_of_def)
  have l: "length [5, 6, 7 :: byte] < length (filter (complete_poll [5, 6, 7]) demo_polls)"
    by (simp add: demo_polls_def complete_poll_def)
  show ?thesis
    using growing_file_is_loaded [where n = 2 and E = ?E and path = "''b/step_1/delta.stream''" and exists_now = False, OF _ p l _ v]
    by (auto simp: demo_server_def init_server_def demo_args_def demo_surroundings_def)
qed

end
