(* ===== verification/InferencePool.thy ===== *)
theory InferencePool
  imports Scheduler AdminClient
begin

text \<open>
  The static inference pool (\<open>utils/client.py\<close>): which endpoints serve rollouts, which ones take part in weight
  updates, and how an endpoint that missed an update catches up by replaying deltas. A method that awaits is
  split there into the code before and the code after; \<open>PoolProofs\<close> lets them interleave. Clocks are inputs.
\<close>

section \<open>Endpoints\<close>

datatype lease_state = Healthy | Quarantine | Retired | Recovering

record lease_runtime =
  lr_state :: lease_state
  lr_until :: "float64 option"
  lr_quarantines :: nat
  lr_retired :: nat
  lr_attempts :: nat
  lr_successes :: nat
  lr_reason :: "string option"

definition new_runtime :: lease_runtime where
  "new_runtime = \<lparr>lr_state = Healthy, lr_until = None, lr_quarantines = 0, lr_retired = 0, lr_attempts = 0, lr_successes = 0,
     lr_reason = None\<rparr>"

record endpoint_stats =
  es_requests :: nat
  es_errors :: nat
  es_total_duration :: float64
  es_last_duration :: float64

definition new_endpoint_stats :: endpoint_stats where
  "new_endpoint_stats = \<lparr>es_requests = 0, es_errors = 0, es_total_duration = f_zero, es_last_duration = f_zero\<rparr>"

definition record_endpoint_stats :: "float_ops \<Rightarrow> op_result \<Rightarrow> endpoint_stats \<Rightarrow> endpoint_stats" where
  "record_endpoint_stats F r st =
     \<lparr>es_requests = es_requests st + 1, es_errors = (if result_ok r then es_errors st else es_errors st + 1),
      es_total_duration = fl_add F (es_total_duration st) (or_duration r), es_last_duration = or_duration r\<rparr>"

record replay_entry =
  re_path :: weight_path
  re_version :: string
  re_base :: "string option"
  re_upload :: bool
  re_method :: string
  re_done :: "string option"

record pool_config =
  pc_lease_enabled :: bool
  pc_cooldown :: float64
  pc_recovery_enabled :: bool
  pc_base_urls :: "string list"
  pc_admin_urls :: "string list option"
  pc_train_clients :: "client list"
  pc_eval_clients :: "client list"

record inference_pool =
  ip_runtime :: "(string, lease_runtime) dict"
  ip_stats :: "(string, (string, endpoint_stats) dict) dict"
  ip_replay :: "(string, replay_entry) dict"
  ip_staged :: "(string, string list) dict"
  ip_active :: "string option"
  ip_eval_next :: nat
  ip_model_name :: string

definition normalize_endpoint_url :: "string \<Rightarrow> string" where
  "normalize_endpoint_url url = removesuffix (rstrip_slashes url) ''/v1''"

definition admin_urls :: "pool_config \<Rightarrow> string list" where
  "admin_urls c = (case pc_admin_urls c of None \<Rightarrow> pc_base_urls c | Some us \<Rightarrow> if us = [] then pc_base_urls c else us)"

text \<open>The URLs of the administration clients, and the endpoints they stand for.\<close>

definition setup_admin_clients :: "pool_config \<Rightarrow> string list" where
  "setup_admin_clients c = map (\<lambda>url. removesuffix (rstrip_slashes url) ''/v1'') (admin_urls c)"

definition endpoint_key :: "string \<Rightarrow> string" where
  "endpoint_key base_url = normalize_endpoint_url base_url"

definition build_endpoint_aliases :: "pool_config \<Rightarrow> (string, string) dict" where
  "build_endpoint_aliases c =
     (let base = pc_base_urls c; admin = admin_urls c;
          dict_of = foldl (\<lambda>d (k, v). dput (normalize_endpoint_url k) (normalize_endpoint_url v) d) []
      in if length base = length admin then dict_of (zip base admin)
         else if length admin = 0 \<or> length base mod length admin \<noteq> 0 then []
         else let group_size = length base div length admin
              in dict_of (map (\<lambda>i. (base ! i, admin ! (i div group_size))) [0..<length base]))"

definition new_pool :: "pool_config \<Rightarrow> string \<Rightarrow> inference_pool" where
  "new_pool c model =
     \<lparr>ip_runtime = foldl (\<lambda>d u. dput (endpoint_key u) new_runtime d) [] (setup_admin_clients c),
      ip_stats = foldl (\<lambda>d u. dput (endpoint_key u) [] d) [] (setup_admin_clients c),
      ip_replay = [], ip_staged = [], ip_active = None, ip_eval_next = 0, ip_model_name = model\<rparr>"

definition update_pool_model_name :: "string \<Rightarrow> inference_pool \<Rightarrow> inference_pool" where
  "update_pool_model_name model s = s\<lparr>ip_model_name := model\<rparr>"

section \<open>Rollout clients\<close>

text \<open>The clients of a configuration: one per URL and data-parallel rank, numbered in order.\<close>

definition setup_clients :: "string list \<Rightarrow> nat \<Rightarrow> (string, string) dict \<Rightarrow> client list" where
  "setup_clients base_urls dp_rank_count headers =
     map (\<lambda>(i, url, rank). \<lparr>cl_base_url = url,
            cl_rank = (if dp_rank_count > 1 then Some (show_nat rank) else dget headers ''X-data-parallel-rank''), cl_idx = i\<rparr>)
       (enumerate 0 (List.product base_urls [0..<dp_rank_count]))"

definition client_endpoint_key :: "pool_config \<Rightarrow> client \<Rightarrow> string" where
  "client_endpoint_key c cl =
     (let e = normalize_endpoint_url (cl_base_url cl)
      in case dget (build_endpoint_aliases c) e of None \<Rightarrow> e | Some a \<Rightarrow> a)"

definition client_is_healthy :: "pool_config \<Rightarrow> inference_pool \<Rightarrow> client \<Rightarrow> bool" where
  "client_is_healthy c s cl \<longleftrightarrow> \<not> pc_lease_enabled c \<or>
     (case dget (ip_runtime s) (client_endpoint_key c cl) of None \<Rightarrow> True | Some r \<Rightarrow> lr_state r = Healthy)"

definition healthy_clients :: "pool_config \<Rightarrow> inference_pool \<Rightarrow> client list \<Rightarrow> client list" where
  "healthy_clients c s = filter (client_is_healthy c s)"

definition train_clients :: "pool_config \<Rightarrow> inference_pool \<Rightarrow> client list" where
  "train_clients c s = healthy_clients c s (pc_train_clients c)"

definition eval_clients :: "pool_config \<Rightarrow> inference_pool \<Rightarrow> client list" where
  "eval_clients c s = healthy_clients c s (pc_eval_clients c)"

text \<open>One round over the evaluation clients, from where the last one ended; \<open>None\<close>: no client is healthy.\<close>

primrec next_eval_client :: "pool_config \<Rightarrow> nat \<Rightarrow> inference_pool \<Rightarrow> inference_pool \<times> client option" where
  "next_eval_client c 0 s = (s, None)"
| "next_eval_client c (Suc k) s =
     (let cl = pc_eval_clients c ! (ip_eval_next s mod length (pc_eval_clients c)); s' = s\<lparr>ip_eval_next := ip_eval_next s + 1\<rparr>
      in if client_is_healthy c s cl then (s', Some cl) else next_eval_client c k s')"

definition get_eval_client :: "pool_config \<Rightarrow> inference_pool \<Rightarrow> inference_pool \<times> client option" where
  "get_eval_client c s = next_eval_client c (length (pc_eval_clients c)) s"

section \<open>Lease states\<close>

definition runtime_of :: "inference_pool \<Rightarrow> string \<Rightarrow> lease_runtime" where
  "runtime_of s e = (case dget (ip_runtime s) e of None \<Rightarrow> new_runtime | Some r \<Rightarrow> r)"

abbreviation state_of :: "inference_pool \<Rightarrow> string \<Rightarrow> lease_state" where
  "state_of s e \<equiv> lr_state (runtime_of s e)"

definition put_runtime :: "string \<Rightarrow> lease_runtime \<Rightarrow> inference_pool \<Rightarrow> inference_pool" where
  "put_runtime e r s = s\<lparr>ip_runtime := dput e r (ip_runtime s)\<rparr>"

definition set_endpoint_state :: "float_ops \<Rightarrow> pool_config \<Rightarrow> float64 \<Rightarrow> string \<Rightarrow> lease_state \<Rightarrow> string \<Rightarrow> inference_pool \<Rightarrow> inference_pool" where
  "set_endpoint_state F c now e st reason s =
     (let r = runtime_of s e; r1 = r\<lparr>lr_reason := Some reason\<rparr>; r2 = r1\<lparr>lr_state := st\<rparr> in
      put_runtime e
        (if lr_state r = st \<and> st \<noteq> Retired then r1
         else (case st of
                 Quarantine \<Rightarrow> r2\<lparr>lr_quarantines := lr_quarantines r + 1, lr_until := Some (fl_add F now (pc_cooldown c))\<rparr>
               | Retired \<Rightarrow> r2\<lparr>lr_retired := lr_retired r + 1, lr_until := Some (fl_add F now (pc_cooldown c))\<rparr>
               | Recovering \<Rightarrow> r2\<lparr>lr_attempts := lr_attempts r + 1, lr_until := None\<rparr>
               | Healthy \<Rightarrow> r2\<lparr>lr_until := None, lr_successes := (if lr_state r = Recovering then lr_successes r + 1 else lr_successes r)\<rparr>)) s)"

definition quarantine_client :: "float_ops \<Rightarrow> pool_config \<Rightarrow> float64 \<Rightarrow> client \<Rightarrow> string \<Rightarrow> inference_pool \<Rightarrow> inference_pool" where
  "quarantine_client F c now cl reason s =
     (let e = client_endpoint_key c cl in
      if \<not> pc_lease_enabled c \<or> dget (ip_runtime s) e = None \<or> state_of s e \<noteq> Healthy then s
      else set_endpoint_state F c now e Quarantine reason s)"

text \<open>The clients that take part in an operation. An endpoint in quarantine misses it, and is retired for that.\<close>

primrec scan_admin :: "float_ops \<Rightarrow> pool_config \<Rightarrow> float64 \<Rightarrow> string \<Rightarrow> string list \<Rightarrow> inference_pool \<Rightarrow> inference_pool \<times> string list" where
  "scan_admin F c now operation [] s = (s, [])"
| "scan_admin F c now operation (u # us) s =
     (let e = endpoint_key u; s1 = put_runtime e (runtime_of s e) s in
      if state_of s e = Healthy then (let (s2, sel) = scan_admin F c now operation us s1 in (s2, u # sel))
      else if state_of s e = Quarantine
      then scan_admin F c now operation us
             (set_endpoint_state F c now e Retired (''missed '' @ operation @ ''; delta catch-up is required before reuse'') s1)
      else scan_admin F c now operation us s1)"

definition healthy_admin_clients :: "float_ops \<Rightarrow> pool_config \<Rightarrow> float64 \<Rightarrow> string \<Rightarrow> inference_pool \<Rightarrow> inference_pool \<times> string list res" where
  "healthy_admin_clients F c now operation s =
     (if \<not> pc_lease_enabled c then (s, Inr (setup_admin_clients c))
      else (let (s', sel) = scan_admin F c now operation (setup_admin_clients c) s
            in (s', if sel = [] then Inl (RuntimeError (''No healthy inference endpoints are available for '' @ operation @ ''.'')) else Inr sel)))"

section \<open>Results of operations\<close>

definition record_endpoint_result :: "float_ops \<Rightarrow> op_result \<Rightarrow> inference_pool \<Rightarrow> inference_pool" where
  "record_endpoint_result F r s =
     (let ops = (case dget (ip_stats s) (or_endpoint r) of None \<Rightarrow> [] | Some d \<Rightarrow> d);
          st = (case dget ops (or_operation r) of None \<Rightarrow> new_endpoint_stats | Some x \<Rightarrow> x)
      in s\<lparr>ip_stats := dput (or_endpoint r) (dput (or_operation r) (record_endpoint_stats F r st) ops) (ip_stats s)\<rparr>)"

definition record_endpoint_results :: "float_ops \<Rightarrow> op_result list \<Rightarrow> inference_pool \<Rightarrow> inference_pool" where
  "record_endpoint_results F rs s = foldl (\<lambda>s r. record_endpoint_result F r s) s rs"

definition mark_failed_endpoints_retired :: "float_ops \<Rightarrow> pool_config \<Rightarrow> float64 \<Rightarrow> op_result list \<Rightarrow> inference_pool \<Rightarrow> inference_pool" where
  "mark_failed_endpoints_retired F c now rs s =
     (if \<not> pc_lease_enabled c then s
      else foldl (\<lambda>s r. case or_error r of
                   None \<Rightarrow> s
                 | Some x \<Rightarrow> set_endpoint_state F c now (or_endpoint r) Retired (or_operation r @ '' failed: '' @ x) s) s rs)"

definition record_admin_results ::
  "float_ops \<Rightarrow> pool_config \<Rightarrow> float64 \<Rightarrow> bool \<Rightarrow> pool_error + op_result list \<Rightarrow> inference_pool \<Rightarrow> inference_pool \<times> (pool_error + op_result list)" where
  "record_admin_results F c now allow_partial out s =
     (case out of
        Inr results \<Rightarrow> (record_endpoint_results F results s, Inr results)
      | Inl (PoolError x) \<Rightarrow> (s, Inl (PoolError x))
      | Inl (OperationFailed operation results) \<Rightarrow>
          (mark_failed_endpoints_retired F c now results (record_endpoint_results F results s),
           if allow_partial \<and> list_ex result_ok results then Inr results else Inl (OperationFailed operation results)))"

definition ok_endpoints :: "op_result list \<Rightarrow> string list" where
  "ok_endpoints rs = remdups (map or_endpoint (filter result_ok rs))"

section \<open>Updating, staging and committing\<close>

text \<open>\<open>update_weights\<close> and \<open>reload_weights\<close>: the clients are chosen before, the results recorded after the calls.\<close>

definition pool_operation_finish ::
  "float_ops \<Rightarrow> pool_config \<Rightarrow> float64 \<Rightarrow> pool_error + op_result list \<Rightarrow> inference_pool \<Rightarrow> inference_pool \<times> (pool_error + unit)" where
  "pool_operation_finish F c now out s =
     (let (s', r) = record_admin_results F c now (pc_lease_enabled c) out s
      in (s', case r of Inl x \<Rightarrow> Inl x | Inr _ \<Rightarrow> Inr ()))"

record stage_order =
  so_entry :: replay_entry
  so_mode :: string

definition remember_delta_replay_entry :: "stage_order \<Rightarrow> inference_pool \<Rightarrow> inference_pool" where
  "remember_delta_replay_entry o1 s =
     (if so_mode o1 \<noteq> ''delta'' then s
      else s\<lparr>ip_replay := dput (re_version (so_entry o1)) (so_entry o1) (ip_replay s)\<rparr>)"

definition stage_finish ::
  "float_ops \<Rightarrow> pool_config \<Rightarrow> float64 \<Rightarrow> stage_order \<Rightarrow> pool_error + op_result list \<Rightarrow> inference_pool \<Rightarrow> inference_pool \<times> (pool_error + unit)" where
  "stage_finish F c now o1 out s =
     (let (s1, r) = record_admin_results F c now (pc_lease_enabled c) out s in
      case r of
        Inl x \<Rightarrow> (s1, Inl x)
      | Inr results \<Rightarrow>
          (remember_delta_replay_entry o1
             (s1\<lparr>ip_staged := dput (re_version (so_entry o1)) (ok_endpoints results) (ip_staged s1)\<rparr>), Inr ()))"

definition staged_on :: "inference_pool \<Rightarrow> string \<Rightarrow> string list" where
  "staged_on s version = (case dget (ip_staged s) version of None \<Rightarrow> [] | Some es \<Rightarrow> es)"

text \<open>What a commit waits for first: nothing, or clients that the version has not been staged on.\<close>

definition commit_missing ::
  "float_ops \<Rightarrow> pool_config \<Rightarrow> float64 \<Rightarrow> string \<Rightarrow> inference_pool \<Rightarrow> inference_pool \<times> (replay_entry \<times> string list) option res" where
  "commit_missing F c now version s =
     (case dget (ip_replay s) version of
        None \<Rightarrow> (s, Inr None)
      | Some entry \<Rightarrow>
          (case healthy_admin_clients F c now ''commit_weights'' s of
             (s', Inl x) \<Rightarrow> (s', Inl x)
           | (s', Inr sel) \<Rightarrow>
               let missing = filter (\<lambda>u. endpoint_key u \<notin> set (staged_on s' version)) sel
               in (s', Inr (if missing = [] then None else Some (entry, missing)))))"

definition missing_staged ::
  "float_ops \<Rightarrow> pool_config \<Rightarrow> float64 \<Rightarrow> string \<Rightarrow> pool_error + op_result list \<Rightarrow> inference_pool \<Rightarrow> inference_pool \<times> (pool_error + unit)" where
  "missing_staged F c now version out s =
     (let (s1, r) = record_admin_results F c now (pc_lease_enabled c) out s in
      case r of
        Inl (OperationFailed operation results) \<Rightarrow>
          (s1, if \<not> pc_lease_enabled c \<or> train_clients c s1 = [] then Inl (OperationFailed operation results) else Inr ())
      | Inl (PoolError x) \<Rightarrow> (s1, Inl (PoolError x))
      | Inr results \<Rightarrow>
          (s1\<lparr>ip_staged := dput version (remdups (staged_on s1 version @ ok_endpoints results)) (ip_staged s1)\<rparr>, Inr ()))"

text \<open>After the commit: whether the unhealthy endpoints are to be recovered.\<close>

definition commit_finished ::
  "float_ops \<Rightarrow> pool_config \<Rightarrow> float64 \<Rightarrow> string \<Rightarrow> string option \<Rightarrow> pool_error + op_result list \<Rightarrow> inference_pool \<Rightarrow> inference_pool \<times> (pool_error + bool)" where
  "commit_finished F c now version mode out s =
     (let (s1, r) = record_admin_results F c now (pc_lease_enabled c) out s in
      case r of
        Inl x \<Rightarrow> (s1, Inl x)
      | Inr _ \<Rightarrow> (s1\<lparr>ip_active := Some version\<rparr>, Inr (mode = Some ''delta'' \<and> pc_recovery_enabled c)))"

section \<open>Recovery\<close>

definition parse_version :: "string \<Rightarrow> int option" where
  "parse_version v = parse_int (FStr v)"

definition replay_key :: "replay_entry \<Rightarrow> int" where
  "replay_key en = (case parse_version (re_version en) of None \<Rightarrow> -1 | Some k \<Rightarrow> if k = 0 then -1 else k)"

text \<open>Python's \<open>repr\<close> of a string of Latin-1 characters: single quotes unless the string has these and no double ones.\<close>

definition hex_digit :: "nat \<Rightarrow> char" where
  "hex_digit n = char_of (if n < 10 then 48 + n else 87 + n)"

definition repr_char :: "char \<Rightarrow> char \<Rightarrow> string" where
  "repr_char quote c =
     (let n = (of_char c :: nat); backslash = char_of (92 :: nat) in
      if c = quote \<or> c = backslash then [backslash, c]
      else if n = 10 then [backslash, CHR ''n'']
      else if n = 13 then [backslash, CHR ''r'']
      else if n = 9 then [backslash, CHR ''t'']
      else if n < 32 \<or> 127 \<le> n \<and> n \<le> 160 \<or> n = 173 then [backslash, CHR ''x'', hex_digit (n div 16), hex_digit (n mod 16)]
      else [c])"

definition py_repr :: "string \<Rightarrow> string" where
  "py_repr s =
     (let single = char_of (39 :: nat); double = char_of (34 :: nat);
          quote = (if single \<in> set s \<and> double \<notin> set s then double else single)
      in quote # concat (map (repr_char quote) s) @ [quote])"

definition replay_step :: "int \<Rightarrow> replay_entry list \<times> int \<Rightarrow> replay_entry \<Rightarrow> (replay_entry list \<times> int) res" where
  "replay_step active acc en =
     (let (plan, expected) = acc in
      case parse_version (re_version en) of
        None \<Rightarrow> Inl (RuntimeError (''delta recovery requires numeric versions, got '' @ py_repr (re_version en)))
      | Some k \<Rightarrow>
          if k > active then Inr acc
          else if k \<noteq> expected then Inl (RuntimeError (''missing delta replay entry for version '' @ str_of (FInt expected)
              @ ''; cannot recover to '' @ str_of (FInt active)))
          else Inr (plan @ [en], expected + 1))"

definition delta_replay_plan :: "inference_pool \<Rightarrow> replay_entry list res" where
  "delta_replay_plan s =
     (case ip_active s of
        None \<Rightarrow> Inr []
      | Some v \<Rightarrow>
          (case parse_version v of
             None \<Rightarrow> Inl (RuntimeError (''delta recovery requires numeric versions, got '' @ py_repr v))
           | Some active \<Rightarrow>
               bindR (foldR (replay_step active) ([], 1) (sort_key replay_key (map snd (ip_replay s)))) (\<lambda>(plan, expected).
               bindR (ensure (\<not> expected \<le> active) (RuntimeError (''missing delta replay entry for version '' @ str_of (FInt expected)))) (\<lambda>_. Inr plan))))"

text \<open>Which endpoints a round of recovery probes: those out of service whose cooldown is over.\<close>

definition may_probe :: "float_ops \<Rightarrow> float64 \<Rightarrow> string \<Rightarrow> inference_pool \<Rightarrow> bool" where
  "may_probe F now u s =
     (let r = runtime_of s (endpoint_key u) in
      lr_state r \<in> {Quarantine, Retired} \<and> (case lr_until r of None \<Rightarrow> True | Some t \<Rightarrow> \<not> fl_lt F now t))"

definition recover_begin :: "float_ops \<Rightarrow> pool_config \<Rightarrow> float64 \<Rightarrow> string \<Rightarrow> inference_pool \<Rightarrow> inference_pool" where
  "recover_begin F c now u s =
     (let s1 = set_endpoint_state F c now (endpoint_key u) Recovering ''starting delta replay recovery'' s
      in s1\<lparr>ip_staged := map (\<lambda>(v, es). (v, removeAll (endpoint_key u) es)) (ip_staged s1)\<rparr>)"

text \<open>An admin call of the recovery: its results are recorded, and a failure ends the recovery.\<close>

definition recover_call :: "float_ops \<Rightarrow> pool_config \<Rightarrow> float64 \<Rightarrow> pool_error + op_result list \<Rightarrow> inference_pool \<Rightarrow> inference_pool \<times> bool" where
  "recover_call F c now out s =
     (let (s1, r) = record_admin_results F c now False out s in (s1, case r of Inl _ \<Rightarrow> False | Inr _ \<Rightarrow> True))"

definition recover_fails :: "float_ops \<Rightarrow> pool_config \<Rightarrow> float64 \<Rightarrow> string \<Rightarrow> string \<Rightarrow> inference_pool \<Rightarrow> inference_pool" where
  "recover_fails F c now u why s =
     set_endpoint_state F c now (endpoint_key u) Retired (''delta replay recovery failed: '' @ why) s"

definition recovered_entry :: "string \<Rightarrow> replay_entry \<Rightarrow> inference_pool \<Rightarrow> inference_pool" where
  "recovered_entry u en s =
     s\<lparr>ip_staged := dput (re_version en) (List.insert (endpoint_key u) (staged_on s (re_version en))) (ip_staged s)\<rparr>"

definition recover_ends :: "float_ops \<Rightarrow> pool_config \<Rightarrow> float64 \<Rightarrow> string \<Rightarrow> inference_pool \<Rightarrow> inference_pool" where
  "recover_ends F c now u s =
     set_endpoint_state F c now (endpoint_key u) Healthy
       (''replayed delta chain to version '' @ (case ip_active s of None \<Rightarrow> ''None'' | Some v \<Rightarrow> v)) s"

end
