(* ===== verification/PoolProofs.thy ===== *)
theory PoolProofs
  imports InferencePool ClientUpload
begin

text \<open>
  The pool as a state machine: weight operations run one at a time under the lock, while rollout failures put
  endpoints into quarantine whenever the running operation awaits. Beside the pool stands the version each endpoint has
  loaded. Updates and reloads that
  take no lock run beside them. The theorem is that an endpoint which serves rollouts has the active version, unless
  such a call has been sent to it.
\<close>

section \<open>The machine\<close>

text \<open>Where the holder of the lock awaits.\<close>

datatype pool_pc =
    PoolIdle
  | StagingAt stage_order "string list"
  | RestagingAt string "string option" replay_entry "string list"
  | CommittingAt string "string option" "string list"
  | RecoverAt "string list" float64
  | ProbingAt string "string list" float64
  | ReloadingAt string "string list" float64
  | ReplayAt string "replay_entry list" "string list" float64
  | CommitReplayAt string replay_entry "replay_entry list" "string list" float64

record pool_run =
  pr_pool :: inference_pool
  pr_pc :: pool_pc
  pr_loaded :: "string \<Rightarrow> int option"

text \<open>What the endpoints answer to an operation: one result each. A commit or a reload that an endpoint
  answers with success has loaded its version; one that fails leaves the endpoint at any version, and so do the
  endpoints of an operation that is under way.\<close>

definition answers :: "string \<Rightarrow> string list \<Rightarrow> op_result list \<Rightarrow> bool" where
  "answers operation sel rs \<longleftrightarrow> map or_endpoint rs = map endpoint_key sel \<and> (\<forall>r \<in> set rs. or_operation r = operation)"

definition loads :: "int option \<Rightarrow> op_result list \<Rightarrow> (string \<Rightarrow> int option) \<Rightarrow> (string \<Rightarrow> int option) \<Rightarrow> bool" where
  "loads v rs l l' \<longleftrightarrow> (\<forall>e. (e \<notin> or_endpoint ` set rs \<longrightarrow> l' e = l e) \<and>
     (e \<in> or_endpoint ` set rs \<and> (\<forall>r \<in> set rs. or_endpoint r = e \<longrightarrow> result_ok r) \<longrightarrow> l' e = v))"

definition in_flux :: "pool_pc \<Rightarrow> string set" where
  "in_flux pc = (case pc of CommittingAt _ _ sel \<Rightarrow> endpoint_key ` set sel | ReloadingAt u _ _ \<Rightarrow> {endpoint_key u}
     | CommitReplayAt u _ _ _ _ \<Rightarrow> {endpoint_key u} | _ \<Rightarrow> {})"

text \<open>The choice of the clients of a commit.\<close>

definition commit_select :: "float_ops \<Rightarrow> pool_config \<Rightarrow> float64 \<Rightarrow> string \<Rightarrow> string option \<Rightarrow> pool_run \<Rightarrow> pool_run" where
  "commit_select F c now v m g =
     (case healthy_admin_clients F c now ''commit_weights'' (pr_pool g) of
        (s, Inl _) \<Rightarrow> g\<lparr>pr_pool := s, pr_pc := PoolIdle\<rparr>
      | (s, Inr sel) \<Rightarrow> g\<lparr>pr_pool := s, pr_pc := CommittingAt v m sel\<rparr>)"

definition stage_pool :: "float_ops \<Rightarrow> pool_config \<Rightarrow> float64 \<Rightarrow> stage_order \<Rightarrow> pool_run \<Rightarrow> pool_run" where
  "stage_pool F c now o1 g =
     (case healthy_admin_clients F c now ''stage_weights'' (pr_pool g) of
        (s, Inl _) \<Rightarrow> g\<lparr>pr_pool := s\<rparr>
      | (s, Inr sel) \<Rightarrow> g\<lparr>pr_pool := s, pr_pc := StagingAt o1 sel\<rparr>)"

definition commit_pool :: "float_ops \<Rightarrow> pool_config \<Rightarrow> float64 \<Rightarrow> string \<Rightarrow> string option \<Rightarrow> pool_run \<Rightarrow> pool_run" where
  "commit_pool F c now v m g =
     (case commit_missing F c now v (pr_pool g) of
        (s, Inl _) \<Rightarrow> g\<lparr>pr_pool := s\<rparr>
      | (s, Inr None) \<Rightarrow> commit_select F c now v m (g\<lparr>pr_pool := s\<rparr>)
      | (s, Inr (Some (en, missing))) \<Rightarrow> g\<lparr>pr_pool := s, pr_pc := RestagingAt v m en missing\<rparr>)"

definition restaged_pool :: "float_ops \<Rightarrow> pool_config \<Rightarrow> float64 \<Rightarrow> string \<Rightarrow> string option \<Rightarrow> pool_error + op_result list \<Rightarrow> pool_run \<Rightarrow> pool_run" where
  "restaged_pool F c now v m out g =
     (case missing_staged F c now v out (pr_pool g) of
        (s, Inl _) \<Rightarrow> g\<lparr>pr_pool := s, pr_pc := PoolIdle\<rparr>
      | (s, Inr _) \<Rightarrow> commit_select F c now v m (g\<lparr>pr_pool := s\<rparr>))"

definition committed_pool :: "float_ops \<Rightarrow> pool_config \<Rightarrow> float64 \<Rightarrow> string \<Rightarrow> string option \<Rightarrow> op_result list \<Rightarrow> (string \<Rightarrow> int option) \<Rightarrow> pool_run \<Rightarrow> pool_run" where
  "committed_pool F c now v m rs l g =
     (case commit_finished F c now v m (operation_outcome ''commit_weights'' rs) (pr_pool g) of
        (s, Inr True) \<Rightarrow> \<lparr>pr_pool = s, pr_pc = RecoverAt (setup_admin_clients c) now, pr_loaded = l\<rparr>
      | (s, _) \<Rightarrow> \<lparr>pr_pool = s, pr_pc = PoolIdle, pr_loaded = l\<rparr>)"

definition recover_next :: "float_ops \<Rightarrow> pool_config \<Rightarrow> float64 \<Rightarrow> string \<Rightarrow> string list \<Rightarrow> float64 \<Rightarrow> string \<Rightarrow> inference_pool \<times> bool
    \<Rightarrow> (inference_pool \<Rightarrow> pool_run) \<Rightarrow> (string \<Rightarrow> int option) \<Rightarrow> pool_run" where
  "recover_next F c now u us t why out continue l =
     (case out of
        (s, False) \<Rightarrow> \<lparr>pr_pool = recover_fails F c now u why s, pr_pc = RecoverAt us t, pr_loaded = l\<rparr>
      | (s, True) \<Rightarrow> continue s)"

definition reloaded_pool ::
  "float_ops \<Rightarrow> pool_config \<Rightarrow> float64 \<Rightarrow> string \<Rightarrow> string list \<Rightarrow> float64 \<Rightarrow> string \<Rightarrow> op_result list \<Rightarrow> (string \<Rightarrow> int option) \<Rightarrow> pool_run \<Rightarrow> pool_run" where
  "reloaded_pool F c now u us t why rs l g =
     recover_next F c now u us t why (recover_call F c now (operation_outcome ''reload_weights'' rs) (pr_pool g))
       (\<lambda>s. case delta_replay_plan s of
              Inl x \<Rightarrow> \<lparr>pr_pool = recover_fails F c now u (case x of RuntimeError message \<Rightarrow> message | _ \<Rightarrow> why) s, pr_pc = RecoverAt us t, pr_loaded = l\<rparr>
            | Inr plan \<Rightarrow> \<lparr>pr_pool = s, pr_pc = ReplayAt u plan us t, pr_loaded = l\<rparr>) l"

inductive lock_step :: "float_ops \<Rightarrow> pool_config \<Rightarrow> pool_run \<Rightarrow> pool_run \<Rightarrow> bool" for F :: float_ops and c :: pool_config where
  quarantine: "lock_step F c g (g\<lparr>pr_pool := quarantine_client F c now cl why (pr_pool g)\<rparr>)"
| evaluate: "lock_step F c g (g\<lparr>pr_pool := fst (get_eval_client c (pr_pool g))\<rparr>)"
| flux: "e \<in> in_flux (pr_pc g) \<Longrightarrow> lock_step F c g (g\<lparr>pr_loaded := (pr_loaded g)(e := x)\<rparr>)"
| stage: "pr_pc g = PoolIdle \<Longrightarrow> lock_step F c g (stage_pool F c now o1 g)"
| staged: "pr_pc g = StagingAt o1 sel \<Longrightarrow> answers ''stage_weights'' sel rs \<Longrightarrow>
    lock_step F c g (g\<lparr>pr_pool := fst (stage_finish F c now o1 (operation_outcome ''stage_weights'' rs) (pr_pool g)), pr_pc := PoolIdle\<rparr>)"
| stage_raises: "pr_pc g = StagingAt o1 sel \<Longrightarrow> lock_step F c g (g\<lparr>pr_pc := PoolIdle\<rparr>)"
| commit: "pr_pc g = PoolIdle \<Longrightarrow> lock_step F c g (commit_pool F c now (show_nat k) m g)"
| restaged: "pr_pc g = RestagingAt v m en sel \<Longrightarrow> answers ''stage_weights'' sel rs \<Longrightarrow>
    lock_step F c g (restaged_pool F c now v m (operation_outcome ''stage_weights'' rs) g)"
| restage_raises: "pr_pc g = RestagingAt v m en sel \<Longrightarrow> lock_step F c g (restaged_pool F c now v m (Inl (PoolError x)) g)"
| committed: "pr_pc g = CommittingAt v m sel \<Longrightarrow> answers ''commit_weights'' sel rs \<Longrightarrow> loads (parse_version v) rs (pr_loaded g) l \<Longrightarrow>
    lock_step F c g (committed_pool F c now v m rs l g)"
| recover: "pr_pc g = PoolIdle \<Longrightarrow> pc_recovery_enabled c \<Longrightarrow> lock_step F c g (g\<lparr>pr_pc := RecoverAt (setup_admin_clients c) now\<rparr>)"
| recover_skips: "pr_pc g = RecoverAt (u # us) t \<Longrightarrow> \<not> may_probe F t u (pr_pool g) \<Longrightarrow> lock_step F c g (g\<lparr>pr_pc := RecoverAt us t\<rparr>)"
| recover_probes: "pr_pc g = RecoverAt (u # us) t \<Longrightarrow> may_probe F t u (pr_pool g) \<Longrightarrow> lock_step F c g (g\<lparr>pr_pc := ProbingAt u us t\<rparr>)"
| probe_fails: "pr_pc g = ProbingAt u us t \<Longrightarrow> lock_step F c g (g\<lparr>pr_pc := RecoverAt us t\<rparr>)"
| probed: "pr_pc g = ProbingAt u us t \<Longrightarrow>
    lock_step F c g (g\<lparr>pr_pool := recover_begin F c now u (pr_pool g), pr_pc := ReloadingAt u us t\<rparr>)"
| reloaded: "pr_pc g = ReloadingAt u us t \<Longrightarrow> answers ''reload_weights'' [u] rs \<Longrightarrow> loads (Some 0) rs (pr_loaded g) l \<Longrightarrow>
    lock_step F c g (reloaded_pool F c now u us t why rs l g)"
| replay_staged: "pr_pc g = ReplayAt u (en # plan) us t \<Longrightarrow> answers ''stage_weights'' [u] rs \<Longrightarrow>
    lock_step F c g (recover_next F c now u us t why (recover_call F c now (operation_outcome ''stage_weights'' rs) (pr_pool g))
      (\<lambda>s. \<lparr>pr_pool = s, pr_pc = CommitReplayAt u en plan us t, pr_loaded = pr_loaded g\<rparr>) (pr_loaded g))"
| replay_raises: "pr_pc g = ReplayAt u (en # plan) us t \<Longrightarrow>
    lock_step F c g (g\<lparr>pr_pool := recover_fails F c now u why (pr_pool g), pr_pc := RecoverAt us t\<rparr>)"
| replay_committed: "pr_pc g = CommitReplayAt u en plan us t \<Longrightarrow> answers ''commit_weights'' [u] rs \<Longrightarrow>
    loads (parse_version (re_version en)) rs (pr_loaded g) l \<Longrightarrow>
    lock_step F c g (recover_next F c now u us t why (recover_call F c now (operation_outcome ''commit_weights'' rs) (pr_pool g))
      (\<lambda>s. \<lparr>pr_pool = recovered_entry u en s, pr_pc = ReplayAt u plan us t, pr_loaded = l\<rparr>) l)"
| replay_ends: "pr_pc g = ReplayAt u [] us t \<Longrightarrow>
    lock_step F c g (g\<lparr>pr_pool := recover_ends F c now u (pr_pool g), pr_pc := RecoverAt us t\<rparr>)"
| recover_ends: "pr_pc g = RecoverAt [] t \<Longrightarrow> lock_step F c g (g\<lparr>pr_pc := PoolIdle\<rparr>)"

definition lock_start :: "pool_config \<Rightarrow> string \<Rightarrow> pool_run" where
  "lock_start c model = \<lparr>pr_pool = new_pool c model, pr_pc = PoolIdle, pr_loaded = (\<lambda>_. Some 0)\<rparr>"

section \<open>States\<close>

named_theorems pool_simps \<open>what the operations of the pool do to states, entries and the active version\<close>

lemma runtime_of_put: "runtime_of (put_runtime e r s) e' = (if e' = e then r else runtime_of s e')"
  by (simp add: runtime_of_def put_runtime_def dict_simps)

lemma put_runtime_frame [pool_simps]:
  "ip_active (put_runtime e r s) = ip_active s" "ip_replay (put_runtime e r s) = ip_replay s"
  by (simp_all add: put_runtime_def)

lemma state_of_set [pool_simps]: "state_of (set_endpoint_state F c now e st why s) e' = (if e' = e then st else state_of s e')"
  by (cases st) (auto simp: set_endpoint_state_def Let_def runtime_of_put)

lemma set_state_frame [pool_simps]:
  "ip_active (set_endpoint_state F c now e st why s) = ip_active s" "ip_replay (set_endpoint_state F c now e st why s) = ip_replay s"
  by (simp_all add: set_endpoint_state_def Let_def pool_simps)

lemma quarantine_states [pool_simps]:
  "state_of (quarantine_client F c now cl why s) e =
     (if pc_lease_enabled c \<and> dget (ip_runtime s) e \<noteq> None \<and> state_of s e = Healthy \<and> e = client_endpoint_key c cl
      then Quarantine else state_of s e)"
  "ip_active (quarantine_client F c now cl why s) = ip_active s" "ip_replay (quarantine_client F c now cl why s) = ip_replay s"
  by (auto simp: quarantine_client_def Let_def pool_simps)

lemma next_eval_frame: "ip_runtime (fst (next_eval_client c k s)) = ip_runtime s \<and> ip_active (fst (next_eval_client c k s)) = ip_active s
    \<and> ip_replay (fst (next_eval_client c k s)) = ip_replay s"
  by (induction k arbitrary: s) (simp_all add: Let_def)

lemma get_eval_states [pool_simps]:
  "state_of (fst (get_eval_client c s)) e = state_of s e" "ip_active (fst (get_eval_client c s)) = ip_active s"
  "ip_replay (fst (get_eval_client c s)) = ip_replay s"
  by (simp_all add: get_eval_client_def runtime_of_def next_eval_frame)

text \<open>Choosing clients retires the endpoints in quarantine, keeps the healthy ones, and takes all of them.\<close>

lemma scan_admin_states:
  assumes "scan_admin F c now operation us s = (s', sel)"
  shows "state_of s' e = Healthy \<longleftrightarrow> state_of s e = Healthy"
    and "state_of s' e = (if state_of s e = Quarantine \<and> e \<in> endpoint_key ` set us then Retired else state_of s e)"
    and "ip_active s' = ip_active s" "ip_replay s' = ip_replay s"
    and "set sel = {u \<in> set us. state_of s (endpoint_key u) = Healthy}"
proof -
  have "(\<forall>e. state_of s' e = (if state_of s e = Quarantine \<and> e \<in> endpoint_key ` set us then Retired else state_of s e))
    \<and> ip_active s' = ip_active s \<and> ip_replay s' = ip_replay s
    \<and> set sel = {u \<in> set us. state_of s (endpoint_key u) = Healthy}"
    using assms
  proof (induction us arbitrary: s s' sel)
    case (Cons u us)
    let ?e = "endpoint_key u"
    let ?s1 = "put_runtime ?e (runtime_of s ?e) s"
    have same: "state_of ?s1 e = state_of s e" for e by (simp add: runtime_of_put)
    consider (h) "state_of s ?e = Healthy" | (q) "state_of s ?e = Quarantine" | (o) "state_of s ?e \<noteq> Healthy" "state_of s ?e \<noteq> Quarantine"
      by blast
    then show ?case
    proof cases
      case h
      then obtain sel' where sc: "scan_admin F c now operation us ?s1 = (s', sel')" "sel = u # sel'"
        using Cons.prems by (auto simp: Let_def split: prod.splits)
      show ?thesis using Cons.IH [OF sc(1)] h sc(2) by (auto simp: same pool_simps)
    next
      case q
      let ?s2 = "set_endpoint_state F c now ?e Retired (''missed '' @ operation @ ''; delta catch-up is required before reuse'') ?s1"
      have sc: "scan_admin F c now operation us ?s2 = (s', sel)" using Cons.prems q by (simp add: Let_def)
      show ?thesis using Cons.IH [OF sc] q by (auto simp: same pool_simps)
    next
      case o
      then have sc: "scan_admin F c now operation us ?s1 = (s', sel)" using Cons.prems by (simp add: Let_def)
      show ?thesis using Cons.IH [OF sc] o by (auto simp: same pool_simps)
    qed
  qed auto
  then show "state_of s' e = Healthy \<longleftrightarrow> state_of s e = Healthy"
    and "state_of s' e = (if state_of s e = Quarantine \<and> e \<in> endpoint_key ` set us then Retired else state_of s e)"
    and "ip_active s' = ip_active s" "ip_replay s' = ip_replay s"
    and "set sel = {u \<in> set us. state_of s (endpoint_key u) = Healthy}" by auto
qed

lemma healthy_admin_states:
  assumes "healthy_admin_clients F c now operation s = (s', r)" "pc_lease_enabled c"
  shows "state_of s' e = Healthy \<longleftrightarrow> state_of s e = Healthy" "ip_active s' = ip_active s" "ip_replay s' = ip_replay s"
    and "r = Inr sel \<Longrightarrow> set sel = {u \<in> set (setup_admin_clients c). state_of s (endpoint_key u) = Healthy}"
    and "state_of s' e = Recovering \<longleftrightarrow> state_of s e = Recovering"
proof -
  obtain sel' where sc: "scan_admin F c now operation (setup_admin_clients c) s = (s', sel')"
    "r = (if sel' = [] then Inl (RuntimeError (''No healthy inference endpoints are available for '' @ operation @ ''.'')) else Inr sel')"
    using assms by (auto simp: healthy_admin_clients_def split: prod.splits)
  note st = scan_admin_states [OF sc(1)]
  show "state_of s' e = Healthy \<longleftrightarrow> state_of s e = Healthy" "ip_active s' = ip_active s" "ip_replay s' = ip_replay s" by (rule st)+
  show "state_of s' e = Recovering \<longleftrightarrow> state_of s e = Recovering" using st(2) [of e] by auto
  show "set sel = {u \<in> set (setup_admin_clients c). state_of s (endpoint_key u) = Healthy}" if "r = Inr sel"
    using st(5) that sc(2) by (auto split: if_splits)
qed

lemma record_results_frame:
  "ip_runtime (record_endpoint_results F rs s) = ip_runtime s" "ip_active (record_endpoint_results F rs s) = ip_active s"
  "ip_replay (record_endpoint_results F rs s) = ip_replay s"
proof -
  have "ip_runtime (record_endpoint_results F rs s) = ip_runtime s \<and> ip_active (record_endpoint_results F rs s) = ip_active s
    \<and> ip_replay (record_endpoint_results F rs s) = ip_replay s"
    unfolding record_endpoint_results_def by (induction rs arbitrary: s) (simp_all add: record_endpoint_result_def Let_def)
  then show "ip_runtime (record_endpoint_results F rs s) = ip_runtime s" "ip_active (record_endpoint_results F rs s) = ip_active s"
    "ip_replay (record_endpoint_results F rs s) = ip_replay s" by auto
qed

lemma mark_failed_states:
  assumes "pc_lease_enabled c"
  shows "state_of (mark_failed_endpoints_retired F c now rs s) e =
      (if \<exists>r \<in> set rs. or_endpoint r = e \<and> \<not> result_ok r then Retired else state_of s e)"
    and "ip_active (mark_failed_endpoints_retired F c now rs s) = ip_active s"
    and "ip_replay (mark_failed_endpoints_retired F c now rs s) = ip_replay s"
proof -
  let ?f = "\<lambda>s r. case or_error r of None \<Rightarrow> s
      | Some x \<Rightarrow> set_endpoint_state F c now (or_endpoint r) Retired (or_operation r @ '' failed: '' @ x) s"
  have "state_of (foldl ?f s rs) e = (if \<exists>r \<in> set rs. or_endpoint r = e \<and> \<not> result_ok r then Retired else state_of s e)
    \<and> ip_active (foldl ?f s rs) = ip_active s \<and> ip_replay (foldl ?f s rs) = ip_replay s"
    by (induction rs arbitrary: s) (auto simp: pool_simps result_ok_def split: option.splits)
  then show "state_of (mark_failed_endpoints_retired F c now rs s) e =
      (if \<exists>r \<in> set rs. or_endpoint r = e \<and> \<not> result_ok r then Retired else state_of s e)"
    "ip_active (mark_failed_endpoints_retired F c now rs s) = ip_active s"
    "ip_replay (mark_failed_endpoints_retired F c now rs s) = ip_replay s"
    using assms by (simp_all add: mark_failed_endpoints_retired_def)
qed

lemma operation_results:
  assumes "pc_lease_enabled c" "record_admin_results F c now partial (operation_outcome operation rs) s = (s', r)"
  shows "state_of s' e = (if \<exists>r \<in> set rs. or_endpoint r = e \<and> \<not> result_ok r then Retired else state_of s e)"
    and "ip_active s' = ip_active s" "ip_replay s' = ip_replay s"
    and "r = Inr rs \<or> (\<exists>op. r = Inl (OperationFailed op rs))" "(\<forall>x \<in> set rs. result_ok x) \<Longrightarrow> r = Inr rs"
    and "r = Inl x \<Longrightarrow> partial \<Longrightarrow> \<forall>y \<in> set rs. \<not> result_ok y" "r = Inr y \<Longrightarrow> \<not> partial \<Longrightarrow> \<forall>y \<in> set rs. result_ok y"
  using assms mark_failed_states [OF assms(1)]
  by (auto simp: record_admin_results_def operation_outcome_def list_ex_iff record_results_frame runtime_of_def split: if_splits)

section \<open>The replay plan\<close>

definition active_number :: "inference_pool \<Rightarrow> int option" where
  "active_number s = (case ip_active s of None \<Rightarrow> Some 0 | Some v \<Rightarrow> parse_version v)"

text \<open>A plan leads from one version to another, one by one.\<close>

fun chain :: "int \<Rightarrow> replay_entry list \<Rightarrow> int \<Rightarrow> bool" where
  "chain a [] b \<longleftrightarrow> a = b"
| "chain a (en # ens) b \<longleftrightarrow> parse_version (re_version en) = Some (a + 1) \<and> chain (a + 1) ens b"

lemma chain_snoc: "chain a ens b \<Longrightarrow> parse_version (re_version en) = Some (b + 1) \<Longrightarrow> chain a (ens @ [en]) (b + 1)"
  by (induction ens arbitrary: a) auto

lemma replay_plan_chain:
  assumes "delta_replay_plan s = Inr plan" "active_number s = Some b" "0 \<le> b"
  shows "chain 0 plan b"
proof (cases "ip_active s")
  case None
  then show ?thesis using assms by (simp add: delta_replay_plan_def active_number_def)
next
  case (Some v)
  then have v: "parse_version v = Some b" using assms(2) by (simp add: active_number_def)
  obtain x where x: "foldR (replay_step b) ([], 1) (sort_key replay_key (map snd (ip_replay s))) = Inr (plan, x)" "\<not> x \<le> b"
    using assms(1) by (auto simp: delta_replay_plan_def Some v res_simps)
  have "(\<lambda>(plan, x). chain 0 plan (x - 1) \<and> x \<le> b + 1) (plan, x)"
  proof (rule foldR_invariant [OF x(1)])
    show "(\<lambda>(plan, x). chain 0 plan (x - 1) \<and> x \<le> b + 1) ([], 1)" using assms(3) by simp
  next
    fix acc en acc'
    assume p: "(\<lambda>(plan, x). chain 0 plan (x - 1) \<and> x \<le> b + 1) acc" and st: "replay_step b acc en = Inr acc'"
    obtain pl e where acc: "acc = (pl, e)" by force
    show "(\<lambda>(plan, x). chain 0 plan (x - 1) \<and> x \<le> b + 1) acc'"
      using p st chain_snoc [of 0 pl "e - 1" en]
      by (auto simp: acc replay_step_def split: option.splits if_splits)
  qed
  then show ?thesis using x(2) by (auto dest: antisym)
qed

section \<open>The invariant\<close>

text \<open>It speaks of the endpoints outside a set, which will be those that weights were put on outside the lock.\<close>

definition pool_pc_ok :: "pool_config \<Rightarrow> string set \<Rightarrow> pool_run \<Rightarrow> int \<Rightarrow> bool" where
  "pool_pc_ok c T g b = (case pr_pc g of
     CommittingAt v m sel \<Rightarrow> (\<forall>u \<in> set (setup_admin_clients c). state_of (pr_pool g) (endpoint_key u) = Healthy
        \<longrightarrow> endpoint_key u \<in> endpoint_key ` set sel) \<and> (\<exists>k. v = show_nat k)
   | RestagingAt v m en sel \<Rightarrow> \<exists>k. v = show_nat k
   | ReloadingAt u us t \<Rightarrow> state_of (pr_pool g) (endpoint_key u) \<noteq> Healthy
   | ReplayAt u plan us t \<Rightarrow> state_of (pr_pool g) (endpoint_key u) \<noteq> Healthy
        \<and> (\<exists>a. (endpoint_key u \<notin> T \<longrightarrow> pr_loaded g (endpoint_key u) = Some a) \<and> chain a plan b)
   | CommitReplayAt u en plan us t \<Rightarrow> state_of (pr_pool g) (endpoint_key u) \<noteq> Healthy
        \<and> (\<exists>a. parse_version (re_version en) = Some a \<and> chain a plan b)
   | _ \<Rightarrow> True)"

definition committing :: "pool_pc \<Rightarrow> bool" where
  "committing pc = (case pc of CommittingAt _ _ _ \<Rightarrow> True | _ \<Rightarrow> False)"

definition healthy_loaded :: "pool_config \<Rightarrow> string set \<Rightarrow> inference_pool \<Rightarrow> (string \<Rightarrow> int option) \<Rightarrow> int \<Rightarrow> bool" where
  "healthy_loaded c T s l b \<longleftrightarrow> (\<forall>u \<in> set (setup_admin_clients c). endpoint_key u \<notin> T \<longrightarrow> state_of s (endpoint_key u) = Healthy \<longrightarrow> l (endpoint_key u) = Some b)"

definition pool_ok :: "pool_config \<Rightarrow> string set \<Rightarrow> pool_run \<Rightarrow> bool" where
  "pool_ok c T g \<longleftrightarrow> (\<exists>b \<ge> 0. active_number (pr_pool g) = Some b \<and> pool_pc_ok c T g b
     \<and> (\<not> committing (pr_pc g) \<longrightarrow> healthy_loaded c T (pr_pool g) (pr_loaded g) b))"

lemma pool_okI:
  "0 \<le> b \<Longrightarrow> active_number (pr_pool g) = Some b \<Longrightarrow> pool_pc_ok c T g b \<Longrightarrow>
   (\<not> committing (pr_pc g) \<Longrightarrow> healthy_loaded c T (pr_pool g) (pr_loaded g) b) \<Longrightarrow> pool_ok c T g"
  by (auto simp: pool_ok_def)

lemma active_number_cong: "ip_active t = ip_active s \<Longrightarrow> active_number t = active_number s"
  by (simp add: active_number_def)

text \<open>Fewer healthy endpoints keep it.\<close>

lemma healthy_loaded_mono:
  "healthy_loaded c T s l b \<Longrightarrow> (\<And>e. state_of t e = Healthy \<Longrightarrow> state_of s e = Healthy \<and> l' e = l e) \<Longrightarrow> healthy_loaded c T t l' b"
  unfolding healthy_loaded_def by metis

text \<open>After a commit that some endpoint has answered with success, the healthy endpoints have its version.\<close>

lemma commit_loaded:
  assumes lease: "pc_lease_enabled c"
    and sel: "\<forall>u \<in> set (setup_admin_clients c). state_of s (endpoint_key u) = Healthy \<longrightarrow> endpoint_key u \<in> endpoint_key ` set sel"
    and ans: "answers ''commit_weights'' sel rs" and ld: "loads (Some k) rs l l'"
    and st: "\<And>e. state_of s' e = (if \<exists>r \<in> set rs. or_endpoint r = e \<and> \<not> result_ok r then Retired else state_of s e)"
  shows "healthy_loaded c T s' l' k"
  unfolding healthy_loaded_def
proof (intro ballI impI)
  fix u assume u: "u \<in> set (setup_admin_clients c)" "state_of s' (endpoint_key u) = Healthy"
  then have ok: "\<forall>r \<in> set rs. or_endpoint r = endpoint_key u \<longrightarrow> result_ok r" and "state_of s (endpoint_key u) = Healthy"
    using st [of "endpoint_key u"] by (auto split: if_splits)
  then have "endpoint_key u \<in> endpoint_key ` set sel" using sel u(1) by blast
  moreover have "set (map or_endpoint rs) = set (map endpoint_key sel)" using ans by (simp only: answers_def)
  ultimately have "endpoint_key u \<in> or_endpoint ` set rs" by simp
  with ok show "l' (endpoint_key u) = Some k" using ld [unfolded loads_def, THEN spec, of "endpoint_key u"] by blast
qed

section \<open>Every step keeps it\<close>

lemma pool_okD:
  assumes "pool_ok c T g"
  obtains b where "0 \<le> b" "active_number (pr_pool g) = Some b" "pool_pc_ok c T g b"
    "\<not> committing (pr_pc g) \<Longrightarrow> healthy_loaded c T (pr_pool g) (pr_loaded g) b"
  using assms by (auto simp: pool_ok_def)

lemma committing_simps [simp]:
  "\<not> committing PoolIdle" "\<not> committing (StagingAt o1 sel)" "\<not> committing (RestagingAt v m en sel)" "committing (CommittingAt v m sel)"
  "\<not> committing (RecoverAt us t)" "\<not> committing (ProbingAt u us t)" "\<not> committing (ReloadingAt u us t)"
  "\<not> committing (ReplayAt u plan us t)" "\<not> committing (CommitReplayAt u en plan us t)"
  by (simp_all add: committing_def)

lemma commit_select_ok:
  assumes lease: "pc_lease_enabled c" and b: "0 \<le> b" "active_number (pr_pool g) = Some b"
    and h: "healthy_loaded c T (pr_pool g) (pr_loaded g) b" and v: "v = show_nat k"
  shows "pool_ok c T (commit_select F c now v m g)"
proof -
  obtain s r where r: "healthy_admin_clients F c now ''commit_weights'' (pr_pool g) = (s, r)" by force
  note st = healthy_admin_states [OF r lease]
  have act: "active_number s = Some b" using active_number_cong [OF st(2)] b(2) by simp
  have h': "healthy_loaded c T s (pr_loaded g) b" by (rule healthy_loaded_mono [OF h]) (simp add: st(1))
  show ?thesis
  proof (cases r)
    case (Inl x)
    then show ?thesis using r act h' b(1) by (intro pool_okI [of b]) (simp_all add: commit_select_def pool_pc_ok_def)
  next
    case (Inr sel)
    have "\<forall>u \<in> set (setup_admin_clients c). state_of s (endpoint_key u) = Healthy \<longrightarrow> endpoint_key u \<in> endpoint_key ` set sel"
      using st(1,4) Inr by auto
    then show ?thesis using r Inr act b(1) v by (intro pool_okI [of b]) (auto simp: commit_select_def pool_pc_ok_def)
  qed
qed

lemma stage_pool_ok:
  assumes "pool_ok c T g" "pc_lease_enabled c" "pr_pc g = PoolIdle"
  shows "pool_ok c T (stage_pool F c now o1 g)"
proof (rule pool_okD [OF assms(1)])
  fix b assume b: "0 \<le> b" "active_number (pr_pool g) = Some b" "\<not> committing (pr_pc g) \<Longrightarrow> healthy_loaded c T (pr_pool g) (pr_loaded g) b"
  obtain s r where r: "healthy_admin_clients F c now ''stage_weights'' (pr_pool g) = (s, r)" by force
  note st = healthy_admin_states [OF r assms(2)]
  have act: "active_number s = Some b" using active_number_cong [OF st(2)] b(2) by simp
  have h: "healthy_loaded c T (pr_pool g) (pr_loaded g) b" using b(3) assms(3) by simp
  have h': "healthy_loaded c T s (pr_loaded g) b" by (rule healthy_loaded_mono [OF h]) (simp add: st(1))
  show ?thesis
    using r act h' b(1) assms(3) by (intro pool_okI [of b]) (auto simp: stage_pool_def pool_pc_ok_def split: sum.splits)
qed

lemma commit_pool_ok:
  assumes "pool_ok c T g" "pc_lease_enabled c" "pr_pc g = PoolIdle"
  shows "pool_ok c T (commit_pool F c now (show_nat k) m g)"
proof (rule pool_okD [OF assms(1)])
  fix b assume b: "0 \<le> b" "active_number (pr_pool g) = Some b" "\<not> committing (pr_pc g) \<Longrightarrow> healthy_loaded c T (pr_pool g) (pr_loaded g) b"
  obtain s r where r: "commit_missing F c now (show_nat k) (pr_pool g) = (s, r)" by force
  have st: "(state_of s e = Healthy \<longleftrightarrow> state_of (pr_pool g) e = Healthy) \<and> ip_active s = ip_active (pr_pool g)" for e
    using r healthy_admin_states(1,2) [OF _ assms(2), of F now "''commit_weights''" "pr_pool g"]
    by (auto simp: commit_missing_def Let_def split: option.splits prod.splits sum.splits)
  have act: "active_number s = Some b" using active_number_cong st b(2) by metis
  have h: "healthy_loaded c T (pr_pool g) (pr_loaded g) b" using b(3) assms(3) by simp
  have h': "healthy_loaded c T s (pr_loaded g) b" by (rule healthy_loaded_mono [OF h]) (simp add: st)
  have sel: "pool_ok c T (commit_select F c now (show_nat k) m (g\<lparr>pr_pool := s\<rparr>))"
    by (rule commit_select_ok [OF assms(2) b(1) _ _ refl]) (simp_all add: act h')
  show ?thesis
  proof (cases r)
    case (Inl x)
    then show ?thesis using r act h' b(1) assms(3) by (intro pool_okI [of b]) (simp_all add: commit_pool_def pool_pc_ok_def)
  next
    case (Inr o1)
    show ?thesis
    proof (cases o1)
      case None
      then show ?thesis using r Inr sel by (simp add: commit_pool_def)
    next
      case (Some p)
      then show ?thesis using r Inr act h' b(1) by (cases p, intro pool_okI [of b]) (auto simp: commit_pool_def pool_pc_ok_def)
    qed
  qed
qed

text \<open>The results of staging on any endpoints: only failures change states.\<close>

lemma missing_staged_states:
  assumes "pc_lease_enabled c" "missing_staged F c now v out s = (s', r)" "out = operation_outcome operation rs \<or> out = Inl (PoolError x)"
  shows "state_of s' e = Healthy \<Longrightarrow> state_of s e = Healthy" "ip_active s' = ip_active s"
proof -
  obtain s1 q where q: "record_admin_results F c now (pc_lease_enabled c) out s = (s1, q)" by force
  have st: "(state_of s1 e = Healthy \<longrightarrow> state_of s e = Healthy) \<and> ip_active s1 = ip_active s" for e
    using assms(3)
  proof
    assume "out = operation_outcome operation rs"
    then show ?thesis using operation_results [OF assms(1) q [unfolded \<open>out = _\<close>]] by simp
  next
    assume "out = Inl (PoolError x)"
    then show ?thesis using q by (auto simp: record_admin_results_def)
  qed
  have "ip_runtime s' = ip_runtime s1" "ip_active s' = ip_active s1"
    using assms(2) q by (auto simp: missing_staged_def split: sum.splits pool_error.splits)
  then show "state_of s' e = Healthy \<Longrightarrow> state_of s e = Healthy" "ip_active s' = ip_active s"
    using st by (simp_all add: runtime_of_def)
qed

lemma restaged_pool_ok:
  assumes "pool_ok c T g" "pc_lease_enabled c" "pr_pc g = RestagingAt v m en sel" "out = operation_outcome operation rs \<or> out = Inl (PoolError x)"
  shows "pool_ok c T (restaged_pool F c now v m out g)"
proof (rule pool_okD [OF assms(1)])
  fix b assume b: "0 \<le> b" "active_number (pr_pool g) = Some b" "pool_pc_ok c T g b"
    "\<not> committing (pr_pc g) \<Longrightarrow> healthy_loaded c T (pr_pool g) (pr_loaded g) b"
  obtain k where k: "v = show_nat k" using b(3) assms(3) by (auto simp: pool_pc_ok_def)
  obtain s r where r: "missing_staged F c now v out (pr_pool g) = (s, r)" by force
  note st = missing_staged_states [OF assms(2) r assms(4)]
  have act: "active_number s = Some b" using active_number_cong [OF st(2)] b(2) by simp
  have h: "healthy_loaded c T (pr_pool g) (pr_loaded g) b" using b(4) assms(3) by simp
  have h': "healthy_loaded c T s (pr_loaded g) b" by (rule healthy_loaded_mono [OF h]) (simp add: st(1))
  have "pool_ok c T (commit_select F c now v m (g\<lparr>pr_pool := s\<rparr>))"
    by (rule commit_select_ok [OF assms(2) b(1) _ _ k]) (simp_all add: act h')
  then show ?thesis using r act h' b(1)
    by (cases r) (auto simp: restaged_pool_def pool_pc_ok_def intro: pool_okI [of b])
qed

lemma answers_keys: "answers operation sel rs \<Longrightarrow> or_endpoint ` set rs = endpoint_key ` set sel"
proof -
  assume "answers operation sel rs"
  then have "set (map or_endpoint rs) = set (map endpoint_key sel)" by (simp only: answers_def)
  then show ?thesis by simp
qed

lemma committed_pool_ok:
  assumes "pool_ok c T g" "pc_lease_enabled c" "pr_pc g = CommittingAt v m sel" "answers ''commit_weights'' sel rs"
    "loads (parse_version v) rs (pr_loaded g) l"
  shows "pool_ok c T (committed_pool F c now v m rs l g)"
proof (rule pool_okD [OF assms(1)])
  fix b assume b: "0 \<le> b" "active_number (pr_pool g) = Some b" "pool_pc_ok c T g b"
  obtain k where k: "v = show_nat k" and sel: "\<forall>u \<in> set (setup_admin_clients c). state_of (pr_pool g) (endpoint_key u) = Healthy
      \<longrightarrow> endpoint_key u \<in> endpoint_key ` set sel" using b(3) assms(3) by (auto simp: pool_pc_ok_def)
  have v: "parse_version v = Some (int k)" by (simp add: k parse_version_def)
  obtain s q where q: "record_admin_results F c now (pc_lease_enabled c) (operation_outcome ''commit_weights'' rs) (pr_pool g) = (s, q)" by force
  note st = operation_results [OF assms(2) q]
  have h: "healthy_loaded c T s l (int k)"
    by (rule commit_loaded [OF assms(2) sel assms(4) assms(5) [unfolded v] st(1)])
  show ?thesis
  proof (cases q)
    case (Inr x)
    have "active_number (s\<lparr>ip_active := Some v\<rparr>) = Some (int k)" by (simp add: active_number_def v)
    moreover have "healthy_loaded c T (s\<lparr>ip_active := Some v\<rparr>) l (int k)" using h by (simp add: healthy_loaded_def runtime_of_def)
    ultimately show ?thesis using q Inr
      by (auto simp: committed_pool_def commit_finished_def pool_pc_ok_def split: bool.splits intro!: pool_okI [of "int k"])
  next
    case (Inl x)
    have none: "\<forall>y \<in> set rs. \<not> result_ok y" using st(6) [OF Inl] assms(2) by simp
    note keys = answers_keys [OF assms(4)]
    have "healthy_loaded c T s l b"
      unfolding healthy_loaded_def
    proof (intro ballI impI)
      fix u assume u: "u \<in> set (setup_admin_clients c)" "state_of s (endpoint_key u) = Healthy"
      then have "state_of (pr_pool g) (endpoint_key u) = Healthy" "\<not> (\<exists>r \<in> set rs. or_endpoint r = endpoint_key u)"
        using st(1) [of "endpoint_key u"] none by (auto split: if_splits)
      then have False using sel u(1) keys by (metis imageE)
      then show "l (endpoint_key u) = Some b" ..
    qed
    then show ?thesis using q Inl b(1,2) active_number_cong [OF st(2)]
      by (auto simp: committed_pool_def commit_finished_def pool_pc_ok_def intro!: pool_okI [of b])
  qed
qed

text \<open>Recovery touches one endpoint, which is not in service meanwhile.\<close>

lemma recover_call_states:
  assumes "pc_lease_enabled c" "recover_call F c now (operation_outcome operation rs) s = (s', ok)" "answers operation [u] rs"
  shows "state_of s' e = (if e = endpoint_key u \<and> \<not> ok then Retired else state_of s e)" "ip_active s' = ip_active s"
    "ok \<longleftrightarrow> (\<forall>r \<in> set rs. result_ok r)" "or_endpoint ` set rs = {endpoint_key u}"
proof -
  obtain s1 r where r: "record_admin_results F c now False (operation_outcome operation rs) s = (s1, r)" by force
  note st = operation_results [OF assms(1) r]
  have s': "s' = s1" "ok = (case r of Inl _ \<Rightarrow> False | Inr _ \<Rightarrow> True)" using assms(2) r by (auto simp: recover_call_def)
  obtain x where rs: "rs = [x]" "or_endpoint x = endpoint_key u" using assms(3) by (auto simp: answers_def)
  show o: "ok \<longleftrightarrow> (\<forall>r \<in> set rs. result_ok r)" using st(5) st(7) [of rs] st(4) s'(2) by (auto split: sum.splits)
  show "state_of s' e = (if e = endpoint_key u \<and> \<not> ok then Retired else state_of s e)"
    using st(1) [of e] o rs by (auto simp: s'(1))
  show "ip_active s' = ip_active s" using st(2) s'(1) by simp
  show "or_endpoint ` set rs = {endpoint_key u}" by (simp add: rs)
qed

lemma recover_fails_ok:
  assumes b: "0 \<le> b" "active_number s = Some b" and h: "\<forall>u' \<in> set (setup_admin_clients c). endpoint_key u' \<notin> T \<longrightarrow> endpoint_key u' \<noteq> endpoint_key u \<longrightarrow>
      state_of s (endpoint_key u') = Healthy \<longrightarrow> l (endpoint_key u') = Some b"
  shows "pool_ok c T \<lparr>pr_pool = recover_fails F c now u why s, pr_pc = RecoverAt us t, pr_loaded = l\<rparr>"
  using b h by (intro pool_okI [of b]) (auto simp: recover_fails_def pool_simps active_number_def pool_pc_ok_def healthy_loaded_def split: if_splits)

lemma healthy_others:
  assumes "healthy_loaded c T s l b" "loads v rs l l'" "or_endpoint ` set rs = {endpoint_key u}"
    and "\<And>e. state_of s' e = Healthy \<Longrightarrow> e \<noteq> endpoint_key u \<Longrightarrow> state_of s e = Healthy"
    and "u' \<in> set (setup_admin_clients c)" "endpoint_key u' \<notin> T" "endpoint_key u' \<noteq> endpoint_key u" "state_of s' (endpoint_key u') = Healthy"
  shows "l' (endpoint_key u') = Some b"
proof -
  have "l' (endpoint_key u') = l (endpoint_key u')" using assms(2,3,7) by (auto simp: loads_def)
  moreover have "state_of s (endpoint_key u') = Healthy" by (rule assms(4) [OF assms(8,7)])
  ultimately show ?thesis using assms(1,5,6) by (simp add: healthy_loaded_def)
qed

lemma reloaded_pool_ok:
  assumes ok: "pool_ok c T g" and lease: "pc_lease_enabled c" and pc: "pr_pc g = ReloadingAt u us t"
    and ans: "answers ''reload_weights'' [u] rs" and ld: "loads (Some 0) rs (pr_loaded g) l"
  shows "pool_ok c T (reloaded_pool F c now u us t why rs l g)"
proof (rule pool_okD [OF ok])
  fix b assume b: "0 \<le> b" "active_number (pr_pool g) = Some b" "pool_pc_ok c T g b"
    "\<not> committing (pr_pc g) \<Longrightarrow> healthy_loaded c T (pr_pool g) (pr_loaded g) b"
  have h: "healthy_loaded c T (pr_pool g) (pr_loaded g) b" using b(4) pc by simp
  have rec: "state_of (pr_pool g) (endpoint_key u) \<noteq> Healthy" using b(3) pc by (simp add: pool_pc_ok_def)
  obtain s good where q: "recover_call F c now (operation_outcome ''reload_weights'' rs) (pr_pool g) = (s, good)" by force
  note st = recover_call_states [OF lease q ans]
  have act: "active_number s = Some b" using active_number_cong [OF st(2)] b(2) by simp
  have others1: "l (endpoint_key u') = Some b"
    if "u' \<in> set (setup_admin_clients c)" "endpoint_key u' \<notin> T" "endpoint_key u' \<noteq> endpoint_key u" "state_of s (endpoint_key u') = Healthy" for u'
    by (rule healthy_others [OF h ld st(4) _ that]) (use st(1) in \<open>auto split: if_splits\<close>)
  then have others: "\<forall>u' \<in> set (setup_admin_clients c). endpoint_key u' \<notin> T \<longrightarrow> endpoint_key u' \<noteq> endpoint_key u \<longrightarrow>
      state_of s (endpoint_key u') = Healthy \<longrightarrow> l (endpoint_key u') = Some b" by blast
  note fails = recover_fails_ok [where u = u and l = l and c = c and T = T, OF b(1) act others]
  show ?thesis
  proof (cases good)
    case False
    have "reloaded_pool F c now u us t why rs l g = \<lparr>pr_pool = recover_fails F c now u why s, pr_pc = RecoverAt us t, pr_loaded = l\<rparr>"
      using q False by (simp add: reloaded_pool_def recover_next_def)
    then show ?thesis using fails by (simp only:)
  next
    case True
    show ?thesis
    proof (cases "delta_replay_plan s")
      case (Inl x)
      have "reloaded_pool F c now u us t why rs l g = \<lparr>pr_pool = recover_fails F c now u (case x of RuntimeError message \<Rightarrow> message | _ \<Rightarrow> why) s,
          pr_pc = RecoverAt us t, pr_loaded = l\<rparr>"
        using q True Inl by (simp add: reloaded_pool_def recover_next_def)
      then show ?thesis using fails by (simp only:)
    next
      case (Inr plan)
      have "l (endpoint_key u) = Some 0" using ld st(3,4) True by (auto simp: loads_def)
      moreover have "state_of s (endpoint_key u) \<noteq> Healthy" using st(1) True rec by simp
      moreover have "chain 0 plan b" by (rule replay_plan_chain [OF Inr act b(1)])
      ultimately show ?thesis using q True Inr act b(1) others
        by (intro pool_okI [of b]) (auto simp: reloaded_pool_def recover_next_def pool_pc_ok_def healthy_loaded_def)
    qed
  qed
qed

lemma replay_staged_ok:
  assumes ok: "pool_ok c T g" and lease: "pc_lease_enabled c" and pc: "pr_pc g = ReplayAt u (en # plan) us t"
    and ans: "answers ''stage_weights'' [u] rs"
  shows "pool_ok c T (recover_next F c now u us t why (recover_call F c now (operation_outcome ''stage_weights'' rs) (pr_pool g))
      (\<lambda>s. \<lparr>pr_pool = s, pr_pc = CommitReplayAt u en plan us t, pr_loaded = pr_loaded g\<rparr>) (pr_loaded g))"
proof (rule pool_okD [OF ok])
  fix b assume b: "0 \<le> b" "active_number (pr_pool g) = Some b" "pool_pc_ok c T g b"
    "\<not> committing (pr_pc g) \<Longrightarrow> healthy_loaded c T (pr_pool g) (pr_loaded g) b"
  have h: "healthy_loaded c T (pr_pool g) (pr_loaded g) b" using b(4) pc by simp
  obtain a where rec: "state_of (pr_pool g) (endpoint_key u) \<noteq> Healthy" and a: "parse_version (re_version en) = Some (a + 1)" "chain (a + 1) plan b"
    using b(3) pc by (auto simp: pool_pc_ok_def)
  obtain s good where q: "recover_call F c now (operation_outcome ''stage_weights'' rs) (pr_pool g) = (s, good)" by force
  note st = recover_call_states [OF lease q ans]
  have act: "active_number s = Some b" using active_number_cong [OF st(2)] b(2) by simp
  have hs: "state_of s e = Healthy \<Longrightarrow> state_of (pr_pool g) e = Healthy" for e using st(1) [of e] by (simp split: if_splits)
  have others1: "pr_loaded g (endpoint_key u') = Some b"
    if "u' \<in> set (setup_admin_clients c)" "endpoint_key u' \<notin> T" "endpoint_key u' \<noteq> endpoint_key u" "state_of s (endpoint_key u') = Healthy" for u'
    using h that hs by (simp add: healthy_loaded_def)
  then have others: "\<forall>u' \<in> set (setup_admin_clients c). endpoint_key u' \<notin> T \<longrightarrow> endpoint_key u' \<noteq> endpoint_key u \<longrightarrow>
      state_of s (endpoint_key u') = Healthy \<longrightarrow> pr_loaded g (endpoint_key u') = Some b" by blast
  show ?thesis
  proof (cases good)
    case False
    then show ?thesis using q recover_fails_ok [where u = u and l = "pr_loaded g" and c = c and T = T, OF b(1) act others] by (simp add: recover_next_def)
  next
    case True
    then show ?thesis using q act b(1) rec st(1) a h
      by (intro pool_okI [of b]) (auto simp: recover_next_def pool_pc_ok_def healthy_loaded_def)
  qed
qed

lemma replay_committed_ok:
  assumes ok: "pool_ok c T g" and lease: "pc_lease_enabled c" and pc: "pr_pc g = CommitReplayAt u en plan us t"
    and ans: "answers ''commit_weights'' [u] rs" and ld: "loads (parse_version (re_version en)) rs (pr_loaded g) l"
  shows "pool_ok c T (recover_next F c now u us t why (recover_call F c now (operation_outcome ''commit_weights'' rs) (pr_pool g))
      (\<lambda>s. \<lparr>pr_pool = recovered_entry u en s, pr_pc = ReplayAt u plan us t, pr_loaded = l\<rparr>) l)"
proof (rule pool_okD [OF ok])
  fix b assume b: "0 \<le> b" "active_number (pr_pool g) = Some b" "pool_pc_ok c T g b"
    "\<not> committing (pr_pc g) \<Longrightarrow> healthy_loaded c T (pr_pool g) (pr_loaded g) b"
  have h: "healthy_loaded c T (pr_pool g) (pr_loaded g) b" using b(4) pc by simp
  obtain a where rec: "state_of (pr_pool g) (endpoint_key u) \<noteq> Healthy" and a: "parse_version (re_version en) = Some a" "chain a plan b"
    using b(3) pc by (auto simp: pool_pc_ok_def)
  obtain s good where q: "recover_call F c now (operation_outcome ''commit_weights'' rs) (pr_pool g) = (s, good)" by force
  note st = recover_call_states [OF lease q ans]
  have act: "active_number s = Some b" using active_number_cong [OF st(2)] b(2) by simp
  have others1: "l (endpoint_key u') = Some b"
    if "u' \<in> set (setup_admin_clients c)" "endpoint_key u' \<notin> T" "endpoint_key u' \<noteq> endpoint_key u" "state_of s (endpoint_key u') = Healthy" for u'
    by (rule healthy_others [OF h ld st(4) _ that]) (use st(1) in \<open>auto split: if_splits\<close>)
  then have others: "\<forall>u' \<in> set (setup_admin_clients c). endpoint_key u' \<notin> T \<longrightarrow> endpoint_key u' \<noteq> endpoint_key u \<longrightarrow>
      state_of s (endpoint_key u') = Healthy \<longrightarrow> l (endpoint_key u') = Some b" by blast
  show ?thesis
  proof (cases good)
    case False
    then show ?thesis using q recover_fails_ok [where u = u and l = l and c = c and T = T, OF b(1) act others] by (simp add: recover_next_def)
  next
    case True
    have "l (endpoint_key u) = Some a" using ld st(3,4) True a(1) by (auto simp: loads_def)
    moreover have "state_of s (endpoint_key u) \<noteq> Healthy" using st(1) True rec by simp
    moreover have "state_of (recovered_entry u en s) e = state_of s e" "ip_active (recovered_entry u en s) = ip_active s" for e
      by (simp_all add: recovered_entry_def runtime_of_def)
    ultimately show ?thesis using q True act b(1) a(2) others
      by (intro pool_okI [of b]) (auto simp: recover_next_def pool_pc_ok_def healthy_loaded_def active_number_def)
  qed
qed

lemma stage_finish_states:
  assumes "pc_lease_enabled c"
  shows "state_of (fst (stage_finish F c now o1 (operation_outcome operation rs) s)) e = Healthy \<Longrightarrow> state_of s e = Healthy"
    "ip_active (fst (stage_finish F c now o1 (operation_outcome operation rs) s)) = ip_active s"
proof -
  obtain s1 r where r: "record_admin_results F c now (pc_lease_enabled c) (operation_outcome operation rs) s = (s1, r)" by force
  note st = operation_results [OF assms r]
  have "ip_runtime (fst (stage_finish F c now o1 (operation_outcome operation rs) s)) = ip_runtime s1"
    "ip_active (fst (stage_finish F c now o1 (operation_outcome operation rs) s)) = ip_active s1"
    by (simp_all add: stage_finish_def r remember_delta_replay_entry_def split: sum.split)
  then show "state_of (fst (stage_finish F c now o1 (operation_outcome operation rs) s)) e = Healthy \<Longrightarrow> state_of s e = Healthy"
    "ip_active (fst (stage_finish F c now o1 (operation_outcome operation rs) s)) = ip_active s"
    using st(1) [of e] st(2) by (simp_all add: runtime_of_def split: if_splits)
qed

text \<open>Steps that leave the place of the lock's holder alone, or move it to one without obligations.\<close>

lemma pool_ok_fewer_healthy:
  assumes ok: "pool_ok c T g" and act: "ip_active s = ip_active (pr_pool g)"
    and h: "\<And>e. state_of s e = Healthy \<Longrightarrow> state_of (pr_pool g) e = Healthy"
  shows "pool_ok c T (g\<lparr>pr_pool := s\<rparr>)"
proof (rule pool_okD [OF ok])
  fix b assume b: "0 \<le> b" "active_number (pr_pool g) = Some b" "pool_pc_ok c T g b"
    "\<not> committing (pr_pc g) \<Longrightarrow> healthy_loaded c T (pr_pool g) (pr_loaded g) b"
  have "pool_pc_ok c T (g\<lparr>pr_pool := s\<rparr>) b" using b(3) h by (auto simp: pool_pc_ok_def split: pool_pc.splits)
  moreover have "healthy_loaded c T s (pr_loaded g) b" if "\<not> committing (pr_pc g)"
    by (rule healthy_loaded_mono [OF b(4) [OF that]]) (simp add: h)
  ultimately show ?thesis using b(1,2) active_number_cong [OF act] by (intro pool_okI [of b]) simp_all
qed

lemma pool_ok_move:
  assumes ok: "pool_ok c T g" and nc: "\<not> committing (pr_pc g)" and act: "ip_active s = ip_active (pr_pool g)"
    and st: "\<And>e. state_of s e = Healthy \<Longrightarrow> state_of (pr_pool g) e = Healthy"
    and pc: "\<And>b. pool_pc_ok c T \<lparr>pr_pool = s, pr_pc = pc, pr_loaded = pr_loaded g\<rparr> b" "\<not> committing pc"
  shows "pool_ok c T (g\<lparr>pr_pool := s, pr_pc := pc\<rparr>)"
proof (rule pool_okD [OF ok])
  fix b assume b: "0 \<le> b" "active_number (pr_pool g) = Some b" "pool_pc_ok c T g b"
    "\<not> committing (pr_pc g) \<Longrightarrow> healthy_loaded c T (pr_pool g) (pr_loaded g) b"
  have g: "g\<lparr>pr_pool := s, pr_pc := pc\<rparr> = \<lparr>pr_pool = s, pr_pc = pc, pr_loaded = pr_loaded g\<rparr>" by simp
  have "healthy_loaded c T s (pr_loaded g) b" by (rule healthy_loaded_mono [OF b(4) [OF nc]]) (simp add: st)
  then show ?thesis unfolding g using b(1,2) active_number_cong [OF act] pc by (intro pool_okI [of b]) simp_all
qed

lemmas pool_ok_goto = pool_ok_move [OF _ _ refl, where pc = pc for pc, simplified]

lemma flux_ok:
  assumes "pool_ok c T g" "e \<in> in_flux (pr_pc g)"
  shows "pool_ok c T (g\<lparr>pr_loaded := (pr_loaded g)(e := x)\<rparr>)"
proof (rule pool_okD [OF assms(1)])
  fix b assume b: "0 \<le> b" "active_number (pr_pool g) = Some b" "pool_pc_ok c T g b"
    "\<not> committing (pr_pc g) \<Longrightarrow> healthy_loaded c T (pr_pool g) (pr_loaded g) b"
  have "pool_pc_ok c T (g\<lparr>pr_loaded := (pr_loaded g)(e := x)\<rparr>) b"
    using b(3) assms(2) by (auto simp: pool_pc_ok_def in_flux_def split: pool_pc.splits)
  moreover have "healthy_loaded c T (pr_pool g) ((pr_loaded g)(e := x)) b" if "\<not> committing (pr_pc g)"
  proof -
    have "state_of (pr_pool g) e \<noteq> Healthy" using b(3) assms(2) that by (auto simp: pool_pc_ok_def in_flux_def committing_def split: pool_pc.splits)
    then show ?thesis using b(4) [OF that] by (auto simp: healthy_loaded_def)
  qed
  ultimately show ?thesis using b(1,2) by (intro pool_okI [of b]) simp_all
qed

lemma probed_ok:
  assumes ok: "pool_ok c T g" and pc: "pr_pc g = ProbingAt u us t"
  shows "pool_ok c T (g\<lparr>pr_pool := recover_begin F c now u (pr_pool g), pr_pc := ReloadingAt u us t\<rparr>)"
proof (rule pool_ok_move [OF ok])
  have st: "state_of (recover_begin F c now u s) e = (if e = endpoint_key u then Recovering else state_of s e)" for s e
    using state_of_set [of F c now "endpoint_key u" Recovering "''starting delta replay recovery''" s e]
    by (simp add: recover_begin_def Let_def runtime_of_def)
  show "\<not> committing (pr_pc g)" by (simp add: pc)
  show "ip_active (recover_begin F c now u (pr_pool g)) = ip_active (pr_pool g)" by (simp add: recover_begin_def Let_def pool_simps)
  show "state_of (pr_pool g) e = Healthy" if "state_of (recover_begin F c now u (pr_pool g)) e = Healthy" for e
    using that by (simp add: st split: if_splits)
  show "pool_pc_ok c T \<lparr>pr_pool = recover_begin F c now u (pr_pool g), pr_pc = ReloadingAt u us t, pr_loaded = pr_loaded g\<rparr> b" for b
    by (simp add: pool_pc_ok_def st)
qed simp

lemma replay_ends_ok:
  assumes ok: "pool_ok c T g" and pc: "pr_pc g = ReplayAt u [] us t"
  shows "pool_ok c T (g\<lparr>pr_pool := recover_ends F c now u (pr_pool g), pr_pc := RecoverAt us t\<rparr>)"
proof (rule pool_okD [OF ok])
  fix b assume b: "0 \<le> b" "active_number (pr_pool g) = Some b" "pool_pc_ok c T g b"
    "\<not> committing (pr_pc g) \<Longrightarrow> healthy_loaded c T (pr_pool g) (pr_loaded g) b"
  have "endpoint_key u \<notin> T \<Longrightarrow> pr_loaded g (endpoint_key u) = Some b" using b(3) pc by (simp add: pool_pc_ok_def)
  then have "healthy_loaded c T (recover_ends F c now u (pr_pool g)) (pr_loaded g) b"
    using b(4) pc by (auto simp: healthy_loaded_def recover_ends_def pool_simps)
  then show ?thesis using b(1,2) by (intro pool_okI [of b]) (simp_all add: recover_ends_def pool_simps active_number_def pool_pc_ok_def)
qed

lemma replay_raises_ok:
  assumes ok: "pool_ok c T g" and pc: "pr_pc g = ReplayAt u plan us t"
  shows "pool_ok c T (g\<lparr>pr_pool := recover_fails F c now u why (pr_pool g), pr_pc := RecoverAt us t\<rparr>)"
  by (rule pool_ok_move [OF ok]) (simp_all add: pc recover_fails_def pool_simps pool_pc_ok_def split: if_splits)

lemma lock_step_ok:
  assumes "lock_step F c g g'" "pc_lease_enabled c" "pool_ok c T g"
  shows "pool_ok c T g'"
  using assms(1)
proof cases
  case (quarantine now cl why)
  show ?thesis unfolding quarantine by (rule pool_ok_fewer_healthy [OF assms(3)]) (auto simp: pool_simps split: if_splits)
next
  case evaluate
  show ?thesis unfolding evaluate by (rule pool_ok_fewer_healthy [OF assms(3)]) (auto simp: pool_simps)
next
  case (flux e x)
  show ?thesis unfolding flux(1) by (rule flux_ok [OF assms(3) flux(2)])
next
  case (stage now o1)
  show ?thesis unfolding stage(1) by (rule stage_pool_ok [OF assms(3,2) stage(2)])
next
  case (staged o1 sel rs now)
  show ?thesis unfolding staged(1)
    by (rule pool_ok_move [OF assms(3)]) (use staged(2) stage_finish_states [OF assms(2)] in \<open>auto simp: pool_pc_ok_def\<close>)
next
  case (stage_raises o1 sel)
  show ?thesis unfolding stage_raises(1) by (rule pool_ok_goto [OF assms(3)]) (simp_all add: stage_raises(2) pool_pc_ok_def)
next
  case (commit now k m)
  show ?thesis unfolding commit(1) by (rule commit_pool_ok [OF assms(3,2) commit(2)])
next
  case (restaged v m en sel rs now)
  show ?thesis unfolding restaged(1) by (rule restaged_pool_ok [OF assms(3,2) restaged(2)]) blast
next
  case (restage_raises v m en sel now x)
  show ?thesis unfolding restage_raises(1) by (rule restaged_pool_ok [OF assms(3,2) restage_raises(2)]) blast
next
  case (committed v m sel rs l now)
  show ?thesis unfolding committed(1) by (rule committed_pool_ok [OF assms(3,2) committed(2-4)])
next
  case (recover now)
  show ?thesis unfolding recover(1) by (rule pool_ok_goto [OF assms(3)]) (simp_all add: recover(2) pool_pc_ok_def)
next
  case (recover_skips u us t)
  show ?thesis unfolding recover_skips(1) by (rule pool_ok_goto [OF assms(3)]) (simp_all add: recover_skips(2) pool_pc_ok_def)
next
  case (recover_probes u us t)
  show ?thesis unfolding recover_probes(1) by (rule pool_ok_goto [OF assms(3)]) (simp_all add: recover_probes(2) pool_pc_ok_def)
next
  case (probe_fails u us t)
  show ?thesis unfolding probe_fails(1) by (rule pool_ok_goto [OF assms(3)]) (simp_all add: probe_fails(2) pool_pc_ok_def)
next
  case (probed u us t now)
  show ?thesis unfolding probed(1) by (rule probed_ok [OF assms(3) probed(2)])
next
  case (reloaded u us t rs l now why)
  show ?thesis unfolding reloaded(1) by (rule reloaded_pool_ok [OF assms(3,2) reloaded(2-4)])
next
  case (replay_staged u en plan us t rs now why)
  show ?thesis unfolding replay_staged(1) by (rule replay_staged_ok [OF assms(3,2) replay_staged(2,3)])
next
  case (replay_raises u en plan us t now why)
  show ?thesis unfolding replay_raises(1) by (rule replay_raises_ok [OF assms(3) replay_raises(2)])
next
  case (replay_committed u en plan us t rs l now why)
  show ?thesis unfolding replay_committed(1) by (rule replay_committed_ok [OF assms(3,2) replay_committed(2-4)])
next
  case (replay_ends u us t now)
  show ?thesis unfolding replay_ends(1) by (rule replay_ends_ok [OF assms(3) replay_ends(2)])
next
  case (recover_ends t)
  show ?thesis unfolding recover_ends(1) by (rule pool_ok_goto [OF assms(3)]) (simp_all add: recover_ends(2) pool_pc_ok_def)
qed

section \<open>Weights put on outside the lock\<close>

text \<open>\<open>update_weights\<close> and \<open>reload_weights\<close> take no lock: any number of these calls is under way at any time, beside
  the holder of the lock. The pool does not note what they load. The last component is a history variable: the endpoints
  that such a call has been sent to so far.\<close>

record pool_system =
  sys_run :: pool_run
  sys_calls :: "(string \<times> string list) list"
  sys_touched :: "string set"

definition direct_begin :: "float_ops \<Rightarrow> pool_config \<Rightarrow> float64 \<Rightarrow> string \<Rightarrow> pool_system \<Rightarrow> pool_system" where
  "direct_begin F c now operation w =
     (case healthy_admin_clients F c now operation (pr_pool (sys_run w)) of
        (s, Inl _) \<Rightarrow> w\<lparr>sys_run := (sys_run w)\<lparr>pr_pool := s\<rparr>\<rparr>
      | (s, Inr sel) \<Rightarrow> w\<lparr>sys_run := (sys_run w)\<lparr>pr_pool := s\<rparr>, sys_calls := (operation, sel) # sys_calls w,
          sys_touched := endpoint_key ` set sel \<union> sys_touched w\<rparr>)"

definition direct_finish ::
  "float_ops \<Rightarrow> pool_config \<Rightarrow> float64 \<Rightarrow> string \<Rightarrow> string list \<Rightarrow> pool_error + op_result list \<Rightarrow> (string \<Rightarrow> int option) \<Rightarrow> pool_system \<Rightarrow> pool_system" where
  "direct_finish F c now operation sel out l w =
     w\<lparr>sys_run := (sys_run w)\<lparr>pr_pool := fst (pool_operation_finish F c now out (pr_pool (sys_run w))), pr_loaded := l\<rparr>,
       sys_calls := remove1 (operation, sel) (sys_calls w)\<rparr>"

text \<open>A reload loads the model the endpoint was started with, an update any version.\<close>

inductive pool_step :: "float_ops \<Rightarrow> pool_config \<Rightarrow> pool_system \<Rightarrow> pool_system \<Rightarrow> bool" for F :: float_ops and c :: pool_config where
  locked: "lock_step F c (sys_run w) g \<Longrightarrow> pool_step F c w (w\<lparr>sys_run := g\<rparr>)"
| direct: "operation \<in> {''update_weights'', ''reload_weights''} \<Longrightarrow> pool_step F c w (direct_begin F c now operation w)"
| direct_flux: "(operation, sel) \<in> set (sys_calls w) \<Longrightarrow> e \<in> endpoint_key ` set sel \<Longrightarrow>
    pool_step F c w (w\<lparr>sys_run := (sys_run w)\<lparr>pr_loaded := (pr_loaded (sys_run w))(e := x)\<rparr>\<rparr>)"
| direct_done: "(operation, sel) \<in> set (sys_calls w) \<Longrightarrow> answers operation sel rs \<Longrightarrow>
    operation = ''reload_weights'' \<longrightarrow> x = Some 0 \<Longrightarrow> loads x rs (pr_loaded (sys_run w)) l \<Longrightarrow>
    pool_step F c w (direct_finish F c now operation sel (operation_outcome operation rs) l w)"
| direct_raises: "(operation, sel) \<in> set (sys_calls w) \<Longrightarrow>
    pool_step F c w (direct_finish F c now operation sel (Inl (PoolError y)) (pr_loaded (sys_run w)) w)"

definition pool_start :: "pool_config \<Rightarrow> string \<Rightarrow> pool_system" where
  "pool_start c model = \<lparr>sys_run = lock_start c model, sys_calls = [], sys_touched = {}\<rparr>"

definition system_ok :: "pool_config \<Rightarrow> pool_system \<Rightarrow> bool" where
  "system_ok c w \<longleftrightarrow> pool_ok c (sys_touched w) (sys_run w)
     \<and> (\<forall>p \<in> set (sys_calls w). endpoint_key ` set (snd p) \<subseteq> sys_touched w)"

lemma touched: "system_ok c w \<Longrightarrow> (operation, sel) \<in> set (sys_calls w) \<Longrightarrow> e \<in> endpoint_key ` set sel \<Longrightarrow> e \<in> sys_touched w"
  unfolding system_ok_def by fastforce

lemma pool_ok_touched:
  assumes "pool_ok c T g" and "T \<subseteq> T'" and "ip_active s = ip_active (pr_pool g)"
    and "\<And>e. state_of s e = Healthy \<Longrightarrow> state_of (pr_pool g) e = Healthy" and "\<And>e. e \<notin> T' \<Longrightarrow> l e = pr_loaded g e"
  shows "pool_ok c T' (g\<lparr>pr_pool := s, pr_loaded := l\<rparr>)"
proof (rule pool_okD [OF assms(1)])
  fix b assume b: "0 \<le> b" "active_number (pr_pool g) = Some b" "pool_pc_ok c T g b"
    "\<not> committing (pr_pc g) \<Longrightarrow> healthy_loaded c T (pr_pool g) (pr_loaded g) b"
  have "pool_pc_ok c T' (g\<lparr>pr_pool := s, pr_loaded := l\<rparr>) b"
    using b(3) assms(2,4,5) by (auto simp: pool_pc_ok_def split: pool_pc.splits)
  moreover have "healthy_loaded c T' s l b" if "\<not> committing (pr_pc g)"
    using b(4) [OF that] assms(2,4,5) unfolding healthy_loaded_def by (metis subsetD)
  ultimately show ?thesis using b(1,2) active_number_cong [OF assms(3)] by (intro pool_okI [of b]) simp_all
qed

lemma direct_begin_ok:
  assumes "system_ok c w" and "pc_lease_enabled c"
  shows "system_ok c (direct_begin F c now operation w)"
proof -
  obtain s r where r: "healthy_admin_clients F c now operation (pr_pool (sys_run w)) = (s, r)" by force
  note st = healthy_admin_states [OF r assms(2)]
  have ok: "pool_ok c T' ((sys_run w)\<lparr>pr_pool := s\<rparr>)" if "sys_touched w \<subseteq> T'" for T'
    using pool_ok_touched [where l = "pr_loaded (sys_run w)", OF _ that st(2)] assms(1) st(1) by (simp add: system_ok_def)
  show ?thesis
  proof (cases r)
    case (Inl x)
    then show ?thesis using ok [OF order.refl] assms(1) by (simp add: direct_begin_def r system_ok_def)
  next
    case (Inr sel)
    then show ?thesis using ok [of "endpoint_key ` set sel \<union> sys_touched w"] assms(1)
      by (fastforce simp: direct_begin_def r system_ok_def)
  qed
qed

lemma direct_finish_ok:
  assumes "system_ok c w" and "pc_lease_enabled c" and "\<And>e. e \<notin> sys_touched w \<Longrightarrow> l e = pr_loaded (sys_run w) e"
    and "out = operation_outcome operation rs \<or> out = Inl (PoolError y)"
  shows "system_ok c (direct_finish F c now operation sel out l w)"
proof -
  let ?s = "fst (pool_operation_finish F c now out (pr_pool (sys_run w)))"
  obtain s r where r: "record_admin_results F c now (pc_lease_enabled c) out (pr_pool (sys_run w)) = (s, r)" by force
  have st: "(state_of s e = Healthy \<longrightarrow> state_of (pr_pool (sys_run w)) e = Healthy) \<and> ip_active s = ip_active (pr_pool (sys_run w))" for e
    using assms(4)
  proof
    assume "out = operation_outcome operation rs"
    then show ?thesis using operation_results [OF assms(2) r [unfolded \<open>out = _\<close>]] by simp
  next
    assume "out = Inl (PoolError y)"
    then show ?thesis using r by (auto simp: record_admin_results_def)
  qed
  have "?s = s" by (simp add: pool_operation_finish_def r)
  moreover have "pool_ok c (sys_touched w) ((sys_run w)\<lparr>pr_pool := s, pr_loaded := l\<rparr>)"
    using assms(1) st by (intro pool_ok_touched [OF _ order.refl _ _ assms(3)]) (simp_all add: system_ok_def)
  moreover have "\<forall>p \<in> set (remove1 (operation, sel) (sys_calls w)). endpoint_key ` set (snd p) \<subseteq> sys_touched w"
    using assms(1) set_remove1_subset unfolding system_ok_def by fast
  ultimately show ?thesis by (simp add: direct_finish_def system_ok_def)
qed

lemma pool_step_ok:
  assumes "pool_step F c w w'" "pc_lease_enabled c" "system_ok c w"
  shows "system_ok c w'"
  using assms(1)
proof cases
  case (locked g)
  then show ?thesis using lock_step_ok [OF locked(2) assms(2)] assms(3) by (simp add: system_ok_def)
next
  case (direct operation now)
  show ?thesis unfolding direct(1) by (rule direct_begin_ok [OF assms(3,2)])
next
  case (direct_flux operation sel e x)
  have "e \<in> sys_touched w" by (rule touched [OF assms(3) direct_flux(2,3)])
  then have "pool_ok c (sys_touched w) ((sys_run w)\<lparr>pr_pool := pr_pool (sys_run w), pr_loaded := (pr_loaded (sys_run w))(e := x)\<rparr>)"
    using assms(3) by (intro pool_ok_touched [OF _ order.refl]) (auto simp: system_ok_def)
  then show ?thesis using assms(3) by (simp add: direct_flux(1) system_ok_def)
next
  case (direct_done operation sel rs x l now)
  have "l e = pr_loaded (sys_run w) e" if "e \<notin> sys_touched w" for e
    using that direct_done(5) touched [OF assms(3) direct_done(2)] answers_keys [OF direct_done(3)] unfolding loads_def by blast
  then show ?thesis unfolding direct_done(1) by (intro direct_finish_ok [OF assms(3,2)]) blast+
next
  case (direct_raises operation sel now y)
  show ?thesis unfolding direct_raises(1) by (intro direct_finish_ok [OF assms(3,2)]) blast+
qed

lemma pool_runs_ok: "(pool_step F c)\<^sup>*\<^sup>* (pool_start c model) w \<Longrightarrow> pc_lease_enabled c \<Longrightarrow> system_ok c w"
proof (induction rule: rtranclp_induct)
  case base
  have "pool_ok c {} (lock_start c model)"
    by (intro pool_okI [of 0]) (simp_all add: lock_start_def new_pool_def active_number_def pool_pc_ok_def healthy_loaded_def)
  then show ?case by (simp add: system_ok_def pool_start_def)
next
  case (step y z)
  then show ?case using pool_step_ok by blast
qed

text \<open>C3. Rollouts go to the active version: with leases enabled, however staging, commits, recoveries, their partial
  failures, rollout failures, and the updates and reloads that take no lock interleave, and whatever an endpoint holds
  while an operation on it is under way or has failed, a rollout client whose endpoint is administered is offered,
  outside a commit, only if its endpoint has loaded the version the pool calls active, or an update or reload
  outside the lock has been sent to it.\<close>

theorem rollouts_use_active_version:
  assumes "(pool_step F c)\<^sup>*\<^sup>* (pool_start c model) w" and "pc_lease_enabled c" and "\<forall>v m sel. pr_pc (sys_run w) \<noteq> CommittingAt v m sel"
    and "cl \<in> set (train_clients c (pr_pool (sys_run w)))" and "client_endpoint_key c cl \<in> endpoint_key ` set (setup_admin_clients c)"
    and "client_endpoint_key c cl \<notin> sys_touched w"
  shows "\<exists>b \<ge> 0. active_number (pr_pool (sys_run w)) = Some b \<and> pr_loaded (sys_run w) (client_endpoint_key c cl) = Some b"
proof -
  let ?g = "sys_run w"
  have "pool_ok c (sys_touched w) ?g" using pool_runs_ok [OF assms(1,2)] by (simp add: system_ok_def)
  then obtain b where b: "0 \<le> b" "active_number (pr_pool ?g) = Some b"
    "\<not> committing (pr_pc ?g) \<Longrightarrow> healthy_loaded c (sys_touched w) (pr_pool ?g) (pr_loaded ?g) b" by (rule pool_okD) blast
  have "\<not> committing (pr_pc ?g)" using assms(3) by (simp add: committing_def split: pool_pc.split)
  moreover have "state_of (pr_pool ?g) (client_endpoint_key c cl) = Healthy"
    using assms(2,4) by (auto simp: train_clients_def healthy_clients_def client_is_healthy_def runtime_of_def new_runtime_def
        split: option.splits)
  ultimately show ?thesis using b assms(5,6) by (auto simp: healthy_loaded_def)
qed

section \<open>Exactness of the replay plan\<close>

definition entry_number :: "replay_entry \<Rightarrow> int" where
  "entry_number en = (case parse_version (re_version en) of None \<Rightarrow> 0 | Some k \<Rightarrow> k)"

definition numbered :: "replay_entry \<Rightarrow> bool" where
  "numbered en \<longleftrightarrow> (\<exists>k > 0. re_version en = show_nat k)"

lemma numberedD:
  assumes "numbered en"
  shows "parse_version (re_version en) = Some (entry_number en)" "0 < entry_number en" "replay_key en = entry_number en"
    "re_version en = show_nat (nat (entry_number en))"
  using assms by (auto simp: numbered_def entry_number_def parse_version_def replay_key_def)

text \<open>Where the chain breaks: a version that has no entry, though all before it have one.\<close>

definition first_gap :: "int \<Rightarrow> int \<Rightarrow> int set \<Rightarrow> int \<Rightarrow> bool" where
  "first_gap e a N k \<longleftrightarrow> e \<le> k \<and> k \<le> a \<and> k \<notin> N \<and> {e..<k} \<subseteq> N"

lemma first_gap_next: "first_gap (e + 1) a N k \<Longrightarrow> first_gap e a (insert e N) k"
proof -
  assume g: "first_gap (e + 1) a N k"
  have "j \<in> insert e N" if "j \<in> {e..<k}" for j
    using g that by (cases "j = e") (auto simp: first_gap_def)
  then have "{e..<k} \<subseteq> insert e N" by blast
  moreover have "e \<le> k \<and> k \<le> a \<and> k \<notin> insert e N" using g by (auto simp: first_gap_def)
  ultimately show ?thesis by (simp only: first_gap_def, blast)
qed

definition gap_error :: "int \<Rightarrow> int \<Rightarrow> pyerr" where
  "gap_error k a = RuntimeError (''missing delta replay entry for version '' @ str_of (FInt k) @ ''; cannot recover to '' @ str_of (FInt a))"

text \<open>The fold over the sorted entries takes the ones up to the active version, as long as there is no gap.\<close>

lemma replay_fold:
  assumes "\<forall>en \<in> set L. numbered en" "sorted_wrt (<) (map entry_number L)" "\<forall>en \<in> set L. e \<le> entry_number en" "e \<le> a + 1"
  shows "(\<exists>e'. foldR (replay_step a) (pl, e) L = Inr (pl @ filter (\<lambda>en. entry_number en \<le> a) L, e')
        \<and> map entry_number (filter (\<lambda>en. entry_number en \<le> a) L) = [e..e' - 1] \<and> e \<le> e' \<and> e' \<le> a + 1)
    \<or> (\<exists>k. foldR (replay_step a) (pl, e) L = Inl (gap_error k a) \<and> first_gap e a (entry_number ` set L) k
        \<and> (\<exists>en \<in> set L. k < entry_number en \<and> entry_number en \<le> a))"
  using assms
proof (induction L arbitrary: pl e)
  case (Cons en L)
  note n = numberedD [of en]
  have en: "numbered en" using Cons.prems(1) by simp
  consider (later) "entry_number en > a" | (gap) "entry_number en \<le> a" "entry_number en \<noteq> e" | (next_one) "entry_number en \<le> a" "entry_number en = e"
    by linarith
  then show ?case
  proof cases
    case later
    have st: "replay_step a (pl, e) x = Inr (pl, e)" if "x \<in> set (en # L)" for x
    proof -
      have "numbered x" "entry_number x > a" using that later Cons.prems(1,2) by auto
      then show ?thesis using numberedD(1) by (simp add: replay_step_def)
    qed
    then have sk: "set xs \<subseteq> set (en # L) \<Longrightarrow> foldR (replay_step a) (pl, e) xs = Inr (pl, e)" for xs
      by (induction xs) auto
    have "foldR (replay_step a) (pl, e) (en # L) = Inr (pl, e)" by (rule sk) simp
    moreover have "filter (\<lambda>en. entry_number en \<le> a) (en # L) = []"
      using later Cons.prems(2) by (auto simp: filter_empty_conv not_le)
    ultimately show ?thesis using Cons.prems(4) by (intro disjI1 exI [of _ e]) (simp only:, simp)
  next
    case gap
    have lt: "e < entry_number en" using gap(2) Cons.prems(3) by force
    then have "first_gap e a (entry_number ` set (en # L)) e" using Cons.prems(2) gap(1) by (auto simp: first_gap_def)
    moreover have "foldR (replay_step a) (pl, e) (en # L) = Inl (gap_error e a)"
      using gap n(1) [OF en] by (simp add: replay_step_def gap_error_def)
    ultimately show ?thesis using lt gap(1) by (intro disjI2 exI [of _ e]) auto
  next
    case next_one
    have above: "\<forall>x \<in> set L. e + 1 \<le> entry_number x" using Cons.prems(2) next_one(2) by force
    have st: "replay_step a (pl, e) en = Inr (pl @ [en], e + 1)" using next_one n(1) [OF en] by (simp add: replay_step_def)
    have "(\<exists>e'. foldR (replay_step a) (pl @ [en], e + 1) L = Inr ((pl @ [en]) @ filter (\<lambda>en. entry_number en \<le> a) L, e')
        \<and> map entry_number (filter (\<lambda>en. entry_number en \<le> a) L) = [e + 1..e' - 1] \<and> e + 1 \<le> e' \<and> e' \<le> a + 1)
      \<or> (\<exists>k. foldR (replay_step a) (pl @ [en], e + 1) L = Inl (gap_error k a) \<and> first_gap (e + 1) a (entry_number ` set L) k
        \<and> (\<exists>en \<in> set L. k < entry_number en \<and> entry_number en \<le> a))"
      by (rule Cons.IH) (use Cons.prems next_one above in auto)
    then show ?thesis
    proof
      assume "\<exists>e'. foldR (replay_step a) (pl @ [en], e + 1) L = Inr ((pl @ [en]) @ filter (\<lambda>en. entry_number en \<le> a) L, e')
        \<and> map entry_number (filter (\<lambda>en. entry_number en \<le> a) L) = [e + 1..e' - 1] \<and> e + 1 \<le> e' \<and> e' \<le> a + 1"
      then show ?thesis using st next_one by (auto simp: upto_rec1)
    next
      assume "\<exists>k. foldR (replay_step a) (pl @ [en], e + 1) L = Inl (gap_error k a) \<and> first_gap (e + 1) a (entry_number ` set L) k
        \<and> (\<exists>en \<in> set L. k < entry_number en \<and> entry_number en \<le> a)"
      then obtain k where k: "foldR (replay_step a) (pl @ [en], e + 1) L = Inl (gap_error k a)"
        "first_gap (e + 1) a (entry_number ` set L) k" "\<exists>en \<in> set L. k < entry_number en \<and> entry_number en \<le> a" by blast
      have "first_gap e a (entry_number ` set (en # L)) k" using first_gap_next [OF k(2)] next_one(2) by simp
      then show ?thesis using st k(1,3) by (intro disjI2 exI [of _ k]) auto
    qed
  qed
qed auto

definition replayable :: "inference_pool \<Rightarrow> bool" where
  "replayable s \<longleftrightarrow> distinct (dkeys (ip_replay s)) \<and> (\<forall>(v, en) \<in> set (ip_replay s). re_version en = v \<and> (\<exists>k > 0. v = show_nat k))"

lemma sorted_entries:
  assumes "replayable s"
  defines "L \<equiv> sort_key replay_key (map snd (ip_replay s))"
  shows "\<forall>en \<in> set L. numbered en" "sorted_wrt (<) (map entry_number L)" "\<And>k. (\<exists>en \<in> set L. entry_number en = int k) \<longleftrightarrow> dget (ip_replay s) (show_nat k) \<noteq> None \<and> 0 < k"
proof -
  have e: "numbered en \<and> re_version en = v" if "(v, en) \<in> set (ip_replay s)" for v en
    using assms(1) that by (auto simp: replayable_def numbered_def)
  show num: "\<forall>en \<in> set L. numbered en" using e by (auto simp: L_def)
  have vs: "map re_version (map snd (ip_replay s)) = dkeys (ip_replay s)" using e by auto
  have inj: "entry_number x = entry_number y \<Longrightarrow> numbered x \<Longrightarrow> numbered y \<Longrightarrow> re_version x = re_version y" for x y
    using numberedD(4) by metis
  have "distinct (map re_version (map snd (ip_replay s)))" unfolding vs using assms(1) by (simp add: replayable_def)
  then have dr: "distinct (map snd (ip_replay s))" and injr: "inj_on re_version (set (map snd (ip_replay s)))"
    by (simp_all only: distinct_map)
  have "inj_on entry_number (set (map snd (ip_replay s)))"
  proof (rule inj_onI)
    fix x y assume xy: "x \<in> set (map snd (ip_replay s))" "y \<in> set (map snd (ip_replay s))" "entry_number x = entry_number y"
    then have "numbered x" "numbered y" using e by auto
    then have "re_version x = re_version y" using inj xy(3) by blast
    then show "x = y" using inj_onD [OF injr] xy(1,2) by blast
  qed
  then have d: "distinct (map entry_number L)" using dr by (simp add: L_def distinct_map del: map_map)
  have eq: "map entry_number L = map replay_key L" using num numberedD(3) by (auto simp: L_def)
  have "sorted (map entry_number L)" unfolding eq by (simp add: L_def)
  with d show "sorted_wrt (<) (map entry_number L)" by (simp only: strict_sorted_iff)
  show "(\<exists>en \<in> set L. entry_number en = int k) \<longleftrightarrow> dget (ip_replay s) (show_nat k) \<noteq> None \<and> 0 < k" for k
  proof
    assume "\<exists>en \<in> set L. entry_number en = int k"
    then obtain en where en: "en \<in> set L" "entry_number en = int k" by blast
    then obtain v where v: "(v, en) \<in> set (ip_replay s)" by (auto simp: L_def)
    have "re_version en = show_nat k" "0 < k" using numberedD [of en] num en by auto
    then have "show_nat k \<in> fst ` set (ip_replay s)" using e [OF v] v by force
    then show "dget (ip_replay s) (show_nat k) \<noteq> None \<and> 0 < k" using \<open>0 < k\<close> by (simp add: in_dkeys_iff)
  next
    assume "dget (ip_replay s) (show_nat k) \<noteq> None \<and> 0 < k"
    then obtain en where en: "dget (ip_replay s) (show_nat k) = Some en" by blast
    then have m: "(show_nat k, en) \<in> set (ip_replay s)" by (rule map_of_SomeD)
    then have "entry_number en = int k" using e [OF m] by (simp add: entry_number_def parse_version_def)
    moreover have "en \<in> set L" using m by (force simp: L_def)
    ultimately show "\<exists>en \<in> set L. entry_number en = int k" by blast
  qed
qed

lemma upto_int: "[1..int a] = map int [1..<a + 1]"
  by (induction a) (simp_all add: upto_rec2)

definition remembered :: "inference_pool \<Rightarrow> nat \<Rightarrow> bool" where
  "remembered s k \<longleftrightarrow> dget (ip_replay s) (show_nat k) \<noteq> None"

lemma gap_is_unremembered:
  assumes "replayable s" and "first_gap 1 (int a) (entry_number ` set (sort_key replay_key (map snd (ip_replay s)))) k"
  shows "\<exists>n \<in> {1..a}. k = int n \<and> \<not> remembered s n \<and> (\<forall>j \<in> {1..<n}. remembered s j)"
proof (rule bexI [of _ "nat k"])
  note so = sorted_entries(3) [OF assms(1)]
  have k: "1 \<le> k" "k \<le> int a" using assms(2) by (auto simp: first_gap_def)
  then show "nat k \<in> {1..a}" by auto
  have "remembered s j" if "j \<in> {1..<nat k}" for j
  proof -
    have "int j \<in> entry_number ` set (sort_key replay_key (map snd (ip_replay s)))"
      using assms(2) that by (force simp: first_gap_def)
    then show ?thesis using so [of j] unfolding remembered_def by force
  qed
  moreover have "\<not> remembered s (nat k)"
  proof
    assume "remembered s (nat k)"
    then obtain en where "en \<in> set (sort_key replay_key (map snd (ip_replay s)))" "entry_number en = k"
      using so [of "nat k"] k(1) unfolding remembered_def by auto
    then show False using assms(2) unfolding first_gap_def by blast
  qed
  ultimately show "k = int (nat k) \<and> \<not> remembered s (nat k) \<and> (\<forall>j \<in> {1..<nat k}. remembered s j)" using k(1) by simp
qed

text \<open>C28. Recovery replays the whole chain or refuses: for deltas remembered under their numeric versions, the plan
  exists just when every version up to the active one is remembered; then it is these versions, in
  order, each once. Otherwise the error names the first version that is missing, and says what the
  recovery was for when a later one is remembered.\<close>

theorem replay_plan_exact:
  assumes "replayable s" and "ip_active s = Some (show_nat a)"
  shows "case delta_replay_plan s of
      Inr plan \<Rightarrow> map re_version plan = map show_nat [1..<a + 1] \<and> set plan \<subseteq> snd ` set (ip_replay s)
    | Inl e \<Rightarrow> \<exists>n \<in> {1..a}. \<not> remembered s n \<and> (\<forall>j \<in> {1..<n}. remembered s j) \<and>
        e = RuntimeError (''missing delta replay entry for version '' @ show_nat n @
          (if \<exists>j \<in> {n<..a}. remembered s j then ''; cannot recover to '' @ show_nat a else []))"
proof -
  define L where "L = sort_key replay_key (map snd (ip_replay s))"
  note so = sorted_entries [OF assms(1), folded L_def]
  note un = gap_is_unremembered [OF assms(1), folded L_def]
  have plan: "delta_replay_plan s = bindR (foldR (replay_step (int a)) ([], 1) L) (\<lambda>(plan, expected).
      bindR (ensure (\<not> expected \<le> int a) (RuntimeError (''missing delta replay entry for version '' @ str_of (FInt expected)))) (\<lambda>_. Inr plan))"
    by (simp add: delta_replay_plan_def assms(2) parse_version_def L_def)
  have ge: "\<forall>en \<in> set L. 1 \<le> entry_number en" using so(1) numberedD(2) by force
  have later: "(\<exists>j \<in> {n<..a}. remembered s j) \<longleftrightarrow> (\<exists>en \<in> set L. int n < entry_number en \<and> entry_number en \<le> int a)" for n
  proof
    assume "\<exists>j \<in> {n<..a}. remembered s j"
    then obtain j where "n < j" "j \<le> a" "remembered s j" by auto
    moreover obtain en where "en \<in> set L" "entry_number en = int j" using calculation so(3) [of j] unfolding remembered_def by auto
    ultimately show "\<exists>en \<in> set L. int n < entry_number en \<and> entry_number en \<le> int a" by (intro bexI [of _ en]) simp_all
  next
    assume "\<exists>en \<in> set L. int n < entry_number en \<and> entry_number en \<le> int a"
    then obtain en where en: "en \<in> set L" "int n < entry_number en" "entry_number en \<le> int a" by blast
    moreover have "entry_number en = int (nat (entry_number en))" using en(2) by simp
    ultimately show "\<exists>j \<in> {n<..a}. remembered s j" using so(3) [of "nat (entry_number en)"] unfolding remembered_def
      by (intro bexI [of _ "nat (entry_number en)"]) auto
  qed
  have "1 \<le> int a + 1" by simp
  from replay_fold [OF so(1,2) ge this, of "[]"] show ?thesis
  proof
    assume "\<exists>e'. foldR (replay_step (int a)) ([], 1) L = Inr ([] @ filter (\<lambda>en. entry_number en \<le> int a) L, e')
        \<and> map entry_number (filter (\<lambda>en. entry_number en \<le> int a) L) = [1..e' - 1] \<and> 1 \<le> e' \<and> e' \<le> int a + 1"
    then obtain e' where e': "foldR (replay_step (int a)) ([], 1) L = Inr (filter (\<lambda>en. entry_number en \<le> int a) L, e')"
      "map entry_number (filter (\<lambda>en. entry_number en \<le> int a) L) = [1..e' - 1]" "1 \<le> e'" "e' \<le> int a + 1" by auto
    let ?xs = "filter (\<lambda>en. entry_number en \<le> int a) L"
    have nums: "en \<in> set L \<Longrightarrow> entry_number en \<le> int a \<Longrightarrow> entry_number en < e'" for en
    proof -
      assume "en \<in> set L" "entry_number en \<le> int a"
      then have "entry_number en \<in> set (map entry_number ?xs)" by auto
      then show "entry_number en < e'" unfolding e'(2) by simp
    qed
    show ?thesis
    proof (cases "e' \<le> int a")
      case True
      have "{1..<e'} \<subseteq> set (map entry_number ?xs)" unfolding e'(2) by auto
      then have "{1..<e'} \<subseteq> entry_number ` set L" by auto
      then have "first_gap 1 (int a) (entry_number ` set L) e'" using e'(3) True nums by (force simp: first_gap_def)
      from un [OF this] obtain n where n: "n \<in> {1..a}" "e' = int n" "\<not> remembered s n" "\<forall>j \<in> {1..<n}. remembered s j" by blast
      have "\<not> (\<exists>j \<in> {n<..a}. remembered s j)" unfolding later using nums n(2) by force
      then show ?thesis using plan e'(1) True n by (auto intro!: bexI [of _ n])
    next
      case False
      then have ee: "e' = int a + 1" using e'(4) by simp
      have "map re_version ?xs = map (\<lambda>k. show_nat (nat k)) (map entry_number ?xs)" using so(1) numberedD(4) by auto
      also have "\<dots> = map (\<lambda>k. show_nat (nat k)) (map int [1..<a + 1])"
        unfolding e'(2) ee by (simp add: upto_int)
      also have "\<dots> = map show_nat [1..<a + 1]" by simp
      finally show ?thesis using plan e'(1) ee by (auto simp: L_def)
    qed
  next
    assume "\<exists>k. foldR (replay_step (int a)) ([], 1) L = Inl (gap_error k (int a)) \<and> first_gap 1 (int a) (entry_number ` set L) k
        \<and> (\<exists>en \<in> set L. k < entry_number en \<and> entry_number en \<le> int a)"
    then obtain k where k: "foldR (replay_step (int a)) ([], 1) L = Inl (gap_error k (int a))" "first_gap 1 (int a) (entry_number ` set L) k"
      "\<exists>en \<in> set L. k < entry_number en \<and> entry_number en \<le> int a" by blast
    from un [OF k(2)] obtain n where n: "n \<in> {1..a}" "k = int n" "\<not> remembered s n" "\<forall>j \<in> {1..<n}. remembered s j" by blast
    have "\<exists>j \<in> {n<..a}. remembered s j" unfolding later using k(3) n(2) by simp
    then show ?thesis using plan k(1) n by (auto simp: gap_error_def intro!: bexI [of _ n])
  qed
qed

section \<open>A concrete run\<close>

definition result_of :: "string \<Rightarrow> string \<Rightarrow> bool \<Rightarrow> op_result" where
  "result_of operation u ok = \<lparr>or_endpoint = endpoint_key u, or_operation = operation, or_duration = f_one,
     or_error = (if ok then None else Some ''failed'')\<rparr>"

definition results_of :: "string \<Rightarrow> string list \<Rightarrow> (string \<Rightarrow> bool) \<Rightarrow> op_result list" where
  "results_of operation us ok = map (\<lambda>u. result_of operation u (ok u)) us"

definition loaded_after :: "int option \<Rightarrow> op_result list \<Rightarrow> (string \<Rightarrow> int option) \<Rightarrow> string \<Rightarrow> int option" where
  "loaded_after v rs l e =
     (if list_ex (\<lambda>r. or_endpoint r = e) rs then (if list_ex (\<lambda>r. or_endpoint r = e \<and> \<not> result_ok r) rs then None else v) else l e)"

lemma answers_results: "answers operation us (results_of operation us ok)"
  by (simp add: answers_def results_of_def result_of_def)

lemma loads_after: "loads v rs l (loaded_after v rs l)"
  by (auto simp: loads_def loaded_after_def list_ex_iff)

text \<open>What the holder of the lock does next, when the given endpoints answer with success.\<close>

definition pool_next :: "float_ops \<Rightarrow> pool_config \<Rightarrow> (string \<Rightarrow> bool) \<Rightarrow> pool_run \<Rightarrow> pool_run option" where
  "pool_next F c ok g =
     (case pr_pc g of
        StagingAt o1 sel \<Rightarrow> Some (g\<lparr>pr_pool := fst (stage_finish F c f_zero o1
            (operation_outcome ''stage_weights'' (results_of ''stage_weights'' sel ok)) (pr_pool g)), pr_pc := PoolIdle\<rparr>)
      | CommittingAt v m sel \<Rightarrow> (let rs = results_of ''commit_weights'' sel ok
          in Some (committed_pool F c f_zero v m rs (loaded_after (parse_version v) rs (pr_loaded g)) g))
      | RecoverAt [] t \<Rightarrow> Some (g\<lparr>pr_pc := PoolIdle\<rparr>)
      | RecoverAt (u # us) t \<Rightarrow> Some (g\<lparr>pr_pc := (if may_probe F t u (pr_pool g) then ProbingAt u us t else RecoverAt us t)\<rparr>)
      | ProbingAt u us t \<Rightarrow> Some (if ok u then g\<lparr>pr_pool := recover_begin F c f_zero u (pr_pool g), pr_pc := ReloadingAt u us t\<rparr>
          else g\<lparr>pr_pc := RecoverAt us t\<rparr>)
      | ReloadingAt u us t \<Rightarrow> (let rs = results_of ''reload_weights'' [u] ok
          in Some (reloaded_pool F c f_zero u us t ''error'' rs (loaded_after (Some 0) rs (pr_loaded g)) g))
      | ReplayAt u [] us t \<Rightarrow> Some (g\<lparr>pr_pool := recover_ends F c f_zero u (pr_pool g), pr_pc := RecoverAt us t\<rparr>)
      | ReplayAt u (en # plan) us t \<Rightarrow> Some (recover_next F c f_zero u us t ''error''
          (recover_call F c f_zero (operation_outcome ''stage_weights'' (results_of ''stage_weights'' [u] ok)) (pr_pool g))
          (\<lambda>s. \<lparr>pr_pool = s, pr_pc = CommitReplayAt u en plan us t, pr_loaded = pr_loaded g\<rparr>) (pr_loaded g))
      | CommitReplayAt u en plan us t \<Rightarrow>
          (let rs = results_of ''commit_weights'' [u] ok; l = loaded_after (parse_version (re_version en)) rs (pr_loaded g)
           in Some (recover_next F c f_zero u us t ''error'' (recover_call F c f_zero (operation_outcome ''commit_weights'' rs) (pr_pool g))
                (\<lambda>s. \<lparr>pr_pool = recovered_entry u en s, pr_pc = ReplayAt u plan us t, pr_loaded = l\<rparr>) l))
      | _ \<Rightarrow> None)"

lemma pool_next_sound: "pool_next F c ok g = Some g' \<Longrightarrow> lock_step F c g g'"
proof -
  assume n: "pool_next F c ok g = Some g'"
  note a = answers_results loads_after
  show ?thesis
  proof (cases "pr_pc g")
    case (RecoverAt us t)
    then show ?thesis using n by (cases us) (auto simp: pool_next_def intro: lock_step.recover_ends lock_step.recover_skips lock_step.recover_probes)
  next
    case (ReplayAt u plan us t)
    show ?thesis
    proof (cases plan)
      case Nil
      then show ?thesis using n ReplayAt by (auto simp: pool_next_def intro: lock_step.replay_ends)
    next
      case (Cons en plan')
      then show ?thesis using n ReplayAt lock_step.replay_staged [of g u en plan' us t] a(1) [of "''stage_weights''" "[u]" ok]
        by (auto simp: pool_next_def)
    qed
  next
    case (StagingAt o1 sel)
    then show ?thesis using n lock_step.staged a(1) by (auto simp: pool_next_def)
  next
    case (CommittingAt v m sel)
    then show ?thesis using n lock_step.committed a by (auto simp: pool_next_def Let_def)
  next
    case (ProbingAt u us t)
    then show ?thesis using n lock_step.probe_fails lock_step.probed by (auto simp: pool_next_def split: if_splits)
  next
    case (ReloadingAt u us t)
    then show ?thesis using n lock_step.reloaded a by (auto simp: pool_next_def Let_def)
  next
    case (CommitReplayAt u en plan us t)
    then show ?thesis using n lock_step.replay_committed [OF CommitReplayAt a(1) a(2)] by (auto simp: pool_next_def Let_def)
  qed (use n in \<open>simp_all add: pool_next_def\<close>)
qed

fun pool_drive :: "float_ops \<Rightarrow> pool_config \<Rightarrow> nat \<Rightarrow> (string \<Rightarrow> bool) \<Rightarrow> pool_run \<Rightarrow> pool_run" where
  "pool_drive F c 0 ok g = g"
| "pool_drive F c (Suc n) ok g = (case pool_next F c ok g of None \<Rightarrow> g | Some g' \<Rightarrow> pool_drive F c n ok g')"

lemma pool_drive_sound: "(lock_step F c)\<^sup>*\<^sup>* g (pool_drive F c n ok g)"
proof (induction n arbitrary: g)
  case (Suc n)
  show ?case
  proof (cases "pool_next F c ok g")
    case (Some g')
    show ?thesis using converse_rtranclp_into_rtranclp [where r = "lock_step F c", OF pool_next_sound [OF Some] Suc.IH [of g']] by (simp add: Some)
  qed simp
qed simp

text \<open>Two endpoints, one of which fails to stage version 1, is retired, misses the commit, and is recovered by it.\<close>

definition demo_float :: float_ops where
  "demo_float = \<lparr>fl_sum = (\<lambda>_. f_zero), fl_add = (\<lambda>x y. x + y), fl_times = (\<lambda>x i. x), fl_div = (\<lambda>x n. x), fl_le = (\<lambda>x y. True),
     fl_lt = (\<lambda>x y. False), fl_eq = (=)\<rparr>"

definition demo_pool :: pool_config where
  "demo_pool = \<lparr>pc_lease_enabled = True, pc_cooldown = f_zero, pc_recovery_enabled = True, pc_base_urls = [''http://a/v1'', ''http://b/v1''],
     pc_admin_urls = None, pc_train_clients = setup_clients [''http://a/v1'', ''http://b/v1''] 1 [], pc_eval_clients = []\<rparr>"

definition demo_order :: stage_order where
  "demo_order = \<lparr>so_entry = \<lparr>re_path = FilePath ''delta.safetensors'', re_version = show_nat 1, re_base = Some ''0'', re_upload = True,
     re_method = ''chunked'', re_done = None\<rparr>, so_mode = ''delta''\<rparr>"

definition demo_stage :: pool_run where
  "demo_stage = pool_drive demo_float demo_pool 1 (\<lambda>u. u = ''http://a'') (stage_pool demo_float demo_pool f_zero demo_order (lock_start demo_pool ''m''))"

lemma lock_runs: "(lock_step F c)\<^sup>*\<^sup>* (sys_run w) g \<Longrightarrow> (pool_step F c)\<^sup>*\<^sup>* w (w\<lparr>sys_run := g\<rparr>)"
proof (induction rule: rtranclp_induct)
  case (step y z)
  then have "pool_step F c (w\<lparr>sys_run := y\<rparr>) (w\<lparr>sys_run := y\<rparr>\<lparr>sys_run := z\<rparr>)" by (intro pool_step.locked) simp
  then show ?case using step(3) by simp
qed simp

text \<open>An update outside the lock, which loads the given version wherever it is answered with success.\<close>

definition direct_update :: "float_ops \<Rightarrow> pool_config \<Rightarrow> int option \<Rightarrow> (string \<Rightarrow> bool) \<Rightarrow> pool_system \<Rightarrow> pool_system" where
  "direct_update F c x ok w =
     (let w1 = direct_begin F c f_zero ''update_weights'' w in
      case sys_calls w1 of
        [] \<Rightarrow> w1
      | (operation, sel) # _ \<Rightarrow>
          if operation = ''reload_weights'' then w1
          else let rs = results_of operation sel ok
               in direct_finish F c f_zero operation sel (operation_outcome operation rs) (loaded_after x rs (pr_loaded (sys_run w1))) w1)"

lemma direct_update_sound: "(pool_step F c)\<^sup>*\<^sup>* w (direct_update F c x ok w)"
proof -
  let ?w = "direct_begin F c f_zero ''update_weights'' w"
  have b: "pool_step F c w ?w" by (rule pool_step.direct) simp
  show ?thesis
  proof (cases "sys_calls ?w")
    case Nil
    then show ?thesis using b by (simp add: direct_update_def)
  next
    case (Cons p ps)
    obtain operation sel where p: "p = (operation, sel)" by force
    have m: "(operation, sel) \<in> set (sys_calls ?w)" by (simp add: Cons p)
    show ?thesis
    proof (cases "operation = ''reload_weights''")
      case True
      then show ?thesis using b by (simp add: direct_update_def Cons p)
    next
      case False
      then have "pool_step F c ?w (direct_update F c x ok w)"
        using pool_step.direct_done [OF m answers_results _ loads_after] by (simp add: direct_update_def Cons p Let_def)
      then show ?thesis using b by (meson converse_rtranclp_into_rtranclp r_into_rtranclp)
    qed
  qed
qed

text \<open>The retired endpoint misses an update outside the lock as well, and the commit.\<close>

definition demo_direct :: pool_system where
  "demo_direct = direct_update demo_float demo_pool (Some 5) (\<lambda>_. True) ((pool_start demo_pool ''m'')\<lparr>sys_run := demo_stage\<rparr>)"

definition demo_commit :: pool_run where
  "demo_commit = pool_drive demo_float demo_pool 9 (\<lambda>_. True) (commit_pool demo_float demo_pool f_zero (show_nat 1) (Some ''delta'') (sys_run demo_direct))"

lemma demo_stage_run: "(pool_step demo_float demo_pool)\<^sup>*\<^sup>* (pool_start demo_pool ''m'') ((pool_start demo_pool ''m'')\<lparr>sys_run := demo_stage\<rparr>)"
proof (rule lock_runs)
  have "lock_step demo_float demo_pool (lock_start demo_pool ''m'') (stage_pool demo_float demo_pool f_zero demo_order (lock_start demo_pool ''m''))"
    by (rule lock_step.stage) (simp add: lock_start_def)
  then have "(lock_step demo_float demo_pool)\<^sup>*\<^sup>* (lock_start demo_pool ''m'') demo_stage"
    unfolding demo_stage_def by (rule converse_rtranclp_into_rtranclp) (rule pool_drive_sound)
  then show "(lock_step demo_float demo_pool)\<^sup>*\<^sup>* (sys_run (pool_start demo_pool ''m'')) demo_stage"
    by (simp only: pool_start_def pool_system.simps)
qed

lemma demo_commit_run: "(pool_step demo_float demo_pool)\<^sup>*\<^sup>* (pool_start demo_pool ''m'') (demo_direct\<lparr>sys_run := demo_commit\<rparr>)"
proof -
  have "(pool_step demo_float demo_pool)\<^sup>*\<^sup>* (pool_start demo_pool ''m'') demo_direct"
    unfolding demo_direct_def by (rule rtranclp_trans [OF demo_stage_run direct_update_sound])
  moreover have "lock_step demo_float demo_pool (sys_run demo_direct)
      (commit_pool demo_float demo_pool f_zero (show_nat 1) (Some ''delta'') (sys_run demo_direct))"
    by (rule lock_step.commit) code_simp
  then have "(lock_step demo_float demo_pool)\<^sup>*\<^sup>* (sys_run demo_direct) demo_commit"
    unfolding demo_commit_def by (rule converse_rtranclp_into_rtranclp) (rule pool_drive_sound)
  ultimately show ?thesis using lock_runs by (meson rtranclp_trans)
qed

theorem rollouts_use_active_version_witness:
  "\<exists>w cl. (pool_step demo_float demo_pool)\<^sup>*\<^sup>* (pool_start demo_pool ''m'') w \<and> cl_base_url cl = ''http://b/v1''
     \<and> cl \<in> set (train_clients demo_pool (pr_pool (sys_run w))) \<and> lr_retired (runtime_of (pr_pool (sys_run w)) ''http://b'') = 1
     \<and> sys_touched w = {''http://a''}
     \<and> active_number (pr_pool (sys_run w)) = Some 1 \<and> pr_loaded (sys_run w) (client_endpoint_key demo_pool cl) = Some 1"
proof -
  let ?cl = "\<lparr>cl_base_url = ''http://b/v1'', cl_rank = None, cl_idx = 1\<rparr>"
  let ?w = "demo_direct\<lparr>sys_run := demo_commit\<rparr>"
  have pc: "pr_pc (sys_run ?w) = PoolIdle" by code_simp
  have ret: "lr_retired (runtime_of (pr_pool (sys_run ?w)) ''http://b'') = 1" by code_simp
  have tr: "?cl \<in> set (train_clients demo_pool (pr_pool (sys_run ?w)))" by code_simp
  have act: "active_number (pr_pool (sys_run ?w)) = Some 1" by code_simp
  have to: "sys_touched ?w = {''http://a''}" by code_simp
  have key: "client_endpoint_key demo_pool ?cl \<in> endpoint_key ` set (setup_admin_clients demo_pool)" "client_endpoint_key demo_pool ?cl = ''http://b''"
    by code_simp+
  have "pc_lease_enabled demo_pool" by (simp add: demo_pool_def)
  from rollouts_use_active_version [OF demo_commit_run this _ tr key(1)] pc act to key(2)
  have "pr_loaded (sys_run ?w) (client_endpoint_key demo_pool ?cl) = Some 1" by auto
  then show ?thesis using demo_commit_run tr ret act to by (intro exI [of _ ?w] exI [of _ ?cl]) simp
qed

text \<open>What the pool does not note. A resumed training puts the weights of its step on all endpoints by an update
  outside the lock, while the active version stays unset. An endpoint that is then taken out of service and
  recovered is reset to the initial model and offered again, beside one that serves the resumed weights.\<close>

definition demo_resumed :: pool_system where
  "demo_resumed = direct_update demo_float demo_pool (Some 5) (\<lambda>_. True) (pool_start demo_pool ''m'')"

definition demo_failed :: pool_run where
  "demo_failed = (sys_run demo_resumed)\<lparr>pr_pool := quarantine_client demo_float demo_pool f_zero
     \<lparr>cl_base_url = ''http://b/v1'', cl_rank = None, cl_idx = 1\<rparr> ''timeout'' (pr_pool (sys_run demo_resumed))\<rparr>"

definition demo_reset :: pool_run where
  "demo_reset = pool_drive demo_float demo_pool 7 (\<lambda>_. True) (demo_failed\<lparr>pr_pc := RecoverAt (setup_admin_clients demo_pool) f_zero\<rparr>)"

lemma recovery_forgets_resumed_weights:
  "(pool_step demo_float demo_pool)\<^sup>*\<^sup>* (pool_start demo_pool ''m'') (demo_resumed\<lparr>sys_run := demo_reset\<rparr>)"
  "pr_pc demo_reset = PoolIdle" "map cl_base_url (train_clients demo_pool (pr_pool demo_reset)) = [''http://a/v1'', ''http://b/v1'']"
  "pr_loaded demo_reset ''http://a'' = Some 5" "pr_loaded demo_reset ''http://b'' = Some 0"
proof -
  have "lock_step demo_float demo_pool (sys_run demo_resumed) demo_failed" unfolding demo_failed_def by (rule lock_step.quarantine)
  moreover have "lock_step demo_float demo_pool demo_failed (demo_failed\<lparr>pr_pc := RecoverAt (setup_admin_clients demo_pool) f_zero\<rparr>)"
    by (rule lock_step.recover) code_simp+
  ultimately have "(lock_step demo_float demo_pool)\<^sup>*\<^sup>* (sys_run demo_resumed) demo_reset"
    unfolding demo_reset_def by (meson converse_rtranclp_into_rtranclp pool_drive_sound)
  from lock_runs [OF this] show "(pool_step demo_float demo_pool)\<^sup>*\<^sup>* (pool_start demo_pool ''m'') (demo_resumed\<lparr>sys_run := demo_reset\<rparr>)"
    using direct_update_sound unfolding demo_resumed_def by (meson rtranclp_trans)
qed code_simp+

theorem replay_plan_exact_witness:
  "replayable (pr_pool demo_commit) \<and> ip_active (pr_pool demo_commit) = Some (show_nat 1) \<and>
   (\<exists>plan. delta_replay_plan (pr_pool demo_commit) = Inr plan \<and> map re_version plan = [show_nat 1])"
proof -
  have e: "ip_replay (pr_pool demo_commit) = [(show_nat 1, so_entry demo_order)]" by code_simp
  have r: "replayable (pr_pool demo_commit)" by (auto simp: replayable_def e demo_order_def)
  have a: "ip_active (pr_pool demo_commit) = Some (show_nat 1)" by code_simp
  have "remembered (pr_pool demo_commit) 1" by (simp add: remembered_def e)
  then have no: "\<not> (\<exists>n \<in> {1..1}. \<not> remembered (pr_pool demo_commit) n)" by simp
  have "\<exists>plan. delta_replay_plan (pr_pool demo_commit) = Inr plan \<and> map re_version plan = [show_nat 1]"
  proof (cases "delta_replay_plan (pr_pool demo_commit)")
    case (Inl x)
    then show ?thesis using replay_plan_exact [OF r a] no by (simp only: sum.case) blast
  next
    case (Inr plan)
    then show ?thesis using replay_plan_exact [OF r a] by simp
  qed
  then show ?thesis using r a by blast
qed

end
