(* ===== verification/ChatTemplate.thy ===== *)
theory ChatTemplate
  imports DeltaNames
begin

text \<open>
  Conversations and their tokens (\<open>utils/chat_template.py\<close>): messages are normalised, tool calls are decoded,
  contents are stripped, and the conversation is rendered message by message, so that every token can be
  attributed to the message that added it. The chat template of the tokenizer and \<open>json.loads\<close> are
  parameters; \<open>json.loads\<close> answers \<open>JInvalid\<close> for a text it rejects.
\<close>

section \<open>Values of a dataset row\<close>

type_synonym message = "(string, json) dict"

fun json_truthy :: "json \<Rightarrow> bool" where
  "json_truthy JNull = False"
| "json_truthy (JBool b) = b"
| "json_truthy (JInt i) = (i \<noteq> 0)"
| "json_truthy (JFloat s) = (s \<noteq> ''0.0'' \<and> s \<noteq> ''-0.0'')"
| "json_truthy (JStr s) = (s \<noteq> [])"
| "json_truthy (JList xs) = (xs \<noteq> [])"
| "json_truthy (JObj d) = (d \<noteq> [])"
| "json_truthy JInvalid = False"

text \<open>What a \<open>for\<close> loop over the value visits: the elements of a list, the keys of a dictionary, the characters of
  a string.\<close>

fun json_items :: "json \<Rightarrow> json list res" where
  "json_items (JList xs) = Inr xs"
| "json_items (JObj d) = Inr (map JStr (dkeys d))"
| "json_items (JStr s) = Inr (map (\<lambda>c. JStr [c]) s)"
| "json_items _ = Inl (TypeError ''object is not iterable'')"

fun json_dict :: "json \<Rightarrow> (string, json) dict res" where
  "json_dict (JObj d) = Inr d"
| "json_dict _ = Inl (AttributeError ''get'')"

definition json_loads :: "(string \<Rightarrow> json) \<Rightarrow> string \<Rightarrow> json res" where
  "json_loads loads s = (case loads s of JInvalid \<Rightarrow> Inl (ValueError ''JSONDecodeError'') | j \<Rightarrow> Inr j)"

definition role_of :: "message \<Rightarrow> json" where
  "role_of m = (case dget m ''role'' of None \<Rightarrow> JNull | Some r \<Rightarrow> r)"

section \<open>Messages\<close>

definition text_message :: "string \<Rightarrow> string \<Rightarrow> message" where
  "text_message role content = [(''role'', JStr role), (''content'', JStr content)]"

definition normalize_message :: "string \<Rightarrow> json \<Rightarrow> message res" where
  "normalize_message default_role m =
     (case m of
        JStr s \<Rightarrow> Inr (text_message default_role s)
      | JObj d \<Rightarrow> Inr d
      | _ \<Rightarrow> Inl (TypeError ''Unsupported message type''))"

definition normalize_messages :: "json \<Rightarrow> string \<Rightarrow> message list res" where
  "normalize_messages messages default_role =
     (case messages of
        JNull \<Rightarrow> Inr []
      | JStr s \<Rightarrow> Inr [text_message default_role s]
      | JObj d \<Rightarrow> Inr [d]
      | JList ms \<Rightarrow> mapR (normalize_message default_role) ms
      | _ \<Rightarrow> Inl (TypeError ''Unsupported messages container type''))"

definition deserialize_tool_call :: "(string \<Rightarrow> json) \<Rightarrow> json \<Rightarrow> json res" where
  "deserialize_tool_call loads tool_call =
     bindR (json_dict tool_call) (\<lambda>tc.
     bindR (json_dict (case dget tc ''function'' of None \<Rightarrow> JObj [] | Some f \<Rightarrow> f)) (\<lambda>function.
     bindR (case dget function ''arguments'' of
              Some (JStr s) \<Rightarrow> json_loads loads s
            | Some a \<Rightarrow> Inr a
            | None \<Rightarrow> Inr JNull) (\<lambda>arguments.
     Inr (JObj (dput ''function'' (JObj (dput ''arguments'' arguments function)) tc)))))"

definition deserialize_message :: "(string \<Rightarrow> json) \<Rightarrow> message \<Rightarrow> message res" where
  "deserialize_message loads m =
     (case dget m ''tool_calls'' of
        None \<Rightarrow> Inr m
      | Some calls \<Rightarrow>
          bindR (if json_truthy calls then json_items calls else Inr []) (\<lambda>tool_calls.
          bindR (mapR (deserialize_tool_call loads) tool_calls) (\<lambda>decoded.
          Inr (dput ''tool_calls'' (JList decoded) m))))"

definition deserialize_tool_calls :: "(string \<Rightarrow> json) \<Rightarrow> message list \<Rightarrow> message list res" where
  "deserialize_tool_calls loads messages = mapR (deserialize_message loads) messages"

text \<open>\<open>str.strip\<close> removes whitespace: the ASCII characters and, in UTF-8, the other characters with the Unicode
  property.\<close>

definition space_chars :: "string list" where
  "space_chars = map (\<lambda>n. [char_of (n :: nat)]) [9, 10, 11, 12, 13, 28, 29, 30, 31, 32]
     @ map (map char_of) [[0xC2, 0x85], [0xC2, 0xA0], [0xE1, 0x9A, 0x80], [0xE2, 0x80, 0xA8], [0xE2, 0x80, 0xA9],
         [0xE2, 0x80, 0xAF], [0xE2, 0x81, 0x9F], [0xE3, 0x80, 0x80 :: nat]]
     @ map (\<lambda>n. map char_of [0xE2, 0x80, n :: nat]) [0x80..<0x8B]"

fun skip_spaces :: "string list \<Rightarrow> string \<Rightarrow> string" where
  "skip_spaces ws [] = []"
| "skip_spaces ws (c # s) =
     (case find (\<lambda>w. w \<noteq> [] \<and> startswith (c # s) w) ws of
        None \<Rightarrow> c # s
      | Some w \<Rightarrow> skip_spaces ws (drop (length w - 1) s))"

definition py_strip :: "string \<Rightarrow> string" where
  "py_strip s = rev (skip_spaces (map rev space_chars) (rev (skip_spaces space_chars s)))"

definition strip_message :: "message \<Rightarrow> message" where
  "strip_message m = (case dget m ''content'' of Some (JStr s) \<Rightarrow> dput ''content'' (JStr (py_strip s)) m | _ \<Rightarrow> m)"

definition strip_message_content :: "message list \<Rightarrow> message list" where
  "strip_message_content messages = map strip_message messages"

section \<open>Rendering\<close>

type_synonym chat_template = "message list \<Rightarrow> (string, json) dict \<Rightarrow> int list res"

definition should_add_generation_prompt :: "message list \<Rightarrow> nat \<Rightarrow> bool" where
  "should_add_generation_prompt messages idx \<longleftrightarrow>
     role_of (messages ! idx) \<in> {JStr ''user'', JStr ''tool''} \<and> idx + 1 < length messages
     \<and> role_of (messages ! (idx + 1)) = JStr ''assistant''"

record render_args =
  ra_template :: chat_template
  ra_tools :: "json list option"
  ra_kwargs :: "(string, json) dict"
  ra_processor :: "chat_template option"

definition render_messages :: "render_args \<Rightarrow> message list \<Rightarrow> bool \<Rightarrow> int list res" where
  "render_messages a messages add_generation_prompt =
     (let kwargs0 = dput ''add_generation_prompt'' (JBool add_generation_prompt) (ra_kwargs a);
          kwargs = (case ra_tools a of None \<Rightarrow> kwargs0 | Some tools \<Rightarrow> dput ''tools'' (JList tools) kwargs0)
      in case ra_processor a of
           Some processor \<Rightarrow> processor messages (dput ''return_dict'' (JBool True) (dput ''tokenize'' (JBool True) kwargs))
         | None \<Rightarrow> ra_template a messages (dput ''return_dict'' (JBool False) kwargs))"

text \<open>The last of consecutive tool messages stands for all of them, when they are collapsed.\<close>

definition collapsed :: "bool \<Rightarrow> message list \<Rightarrow> nat \<Rightarrow> bool" where
  "collapsed collapse messages idx \<longleftrightarrow> collapse \<and> role_of (messages ! idx) = JStr ''tool''
     \<and> idx + 1 < length messages \<and> role_of (messages ! (idx + 1)) = JStr ''tool''"

definition rendered_until :: "render_args \<Rightarrow> message list \<Rightarrow> nat \<Rightarrow> int list res" where
  "rendered_until a messages idx =
     render_messages a (take (idx + 1) messages) (should_add_generation_prompt messages idx)"

abbreviation incremental_tokenization_error :: pyerr where
  "incremental_tokenization_error \<equiv> ValueError ''IncrementalTokenizationError''"

definition mask_step ::
  "render_args \<Rightarrow> (message \<Rightarrow> bool res) \<Rightarrow> bool \<Rightarrow> message list \<Rightarrow> int list \<times> bool list \<Rightarrow> nat \<Rightarrow> (int list \<times> bool list) res" where
  "mask_step a role_to_mask collapse messages = (\<lambda>(prev_ids, token_mask) idx.
     if collapsed collapse messages idx then Inr (prev_ids, token_mask)
     else bindR (rendered_until a messages idx) (\<lambda>cur_ids.
          bindR (ensure (prev_ids = take (length prev_ids) cur_ids) incremental_tokenization_error) (\<lambda>_.
          bindR (role_to_mask (messages ! idx)) (\<lambda>b.
          Inr (cur_ids, token_mask @ replicate (length cur_ids - length prev_ids) b)))))"

definition build_incremental_token_mask ::
  "render_args \<Rightarrow> (message \<Rightarrow> bool res) \<Rightarrow> bool \<Rightarrow> message list \<Rightarrow> (int list \<times> bool list) res" where
  "build_incremental_token_mask a role_to_mask collapse messages =
     foldR (mask_step a role_to_mask collapse messages) ([], []) [0..<length messages]"

section \<open>Which tokens are trained\<close>

text \<open>Token \<open>p\<close> belongs to message \<open>k\<close>: the rendering up to \<open>k\<close> is the first that reaches it.\<close>

definition token_of :: "render_args \<Rightarrow> bool \<Rightarrow> message list \<Rightarrow> nat \<Rightarrow> nat \<Rightarrow> bool" where
  "token_of a collapse messages p k \<longleftrightarrow> k < length messages \<and> \<not> collapsed collapse messages k
     \<and> (\<exists>r. rendered_until a messages k = Inr r \<and> p < length r)
     \<and> (\<forall>j < k. \<not> collapsed collapse messages j \<longrightarrow> (\<exists>r. rendered_until a messages j = Inr r \<and> length r \<le> p))"

definition mask_ok ::
  "render_args \<Rightarrow> (message \<Rightarrow> bool res) \<Rightarrow> bool \<Rightarrow> message list \<Rightarrow> nat \<Rightarrow> int list \<times> bool list \<Rightarrow> bool" where
  "mask_ok a role_to_mask collapse messages n = (\<lambda>(ids, m). length m = length ids
     \<and> (\<forall>j < n. \<not> collapsed collapse messages j \<longrightarrow> (\<exists>r. rendered_until a messages j = Inr r \<and> r = take (length r) ids))
     \<and> (\<forall>p < length ids. \<exists>k < n. token_of a collapse messages p k \<and> role_to_mask (messages ! k) = Inr (m ! p))
     \<and> (0 < n \<longrightarrow> \<not> collapsed collapse messages (n - 1) \<longrightarrow> rendered_until a messages (n - 1) = Inr ids))"

lemma mask_step_ok:
  assumes "mask_ok a f c messages n s" and "n < length messages" and "mask_step a f c messages s n = Inr s'"
  shows "mask_ok a f c messages (Suc n) s'"
proof (cases "collapsed c messages n")
  case True
  then show ?thesis
    using assms by (cases s) (fastforce simp: mask_step_def mask_ok_def less_Suc_eq)
next
  case False
  obtain ids m where s: "s = (ids, m)" by (cases s)
  from assms(3) False obtain cur b where st: "rendered_until a messages n = Inr cur" "ids = take (length ids) cur"
    "f (messages ! n) = Inr b" "s' = (cur, m @ replicate (length cur - length ids) b)"
    by (auto simp: s mask_step_def res_simps)
  have len: "length ids \<le> length cur" by (metis st(2) length_take min.cobounded1)
  have old: "length m = length ids" "\<And>p. p < length ids \<Longrightarrow> \<exists>k < n. token_of a c messages p k \<and> f (messages ! k) = Inr (m ! p)"
    "\<And>j. j < n \<Longrightarrow> \<not> collapsed c messages j \<Longrightarrow> \<exists>r. rendered_until a messages j = Inr r \<and> r = take (length r) ids"
    using assms(1) by (auto simp: s mask_ok_def)
  have before: "\<exists>r. rendered_until a messages j = Inr r \<and> r = take (length r) cur \<and> length r \<le> length ids"
    if j: "j < n" "\<not> collapsed c messages j" for j
  proof -
    obtain r where r: "rendered_until a messages j = Inr r" "r = take (length r) ids" using old(3) [OF j] by blast
    have "length r \<le> length ids" by (metis r(2) length_take min.cobounded1)
    moreover have "r = take (length r) cur" by (metis r(2) st(2) calculation min.absorb2 take_take min.commute)
    ultimately show ?thesis using r(1) by blast
  qed
  have tok: "token_of a c messages p n" if p: "length ids \<le> p" "p < length cur" for p
    unfolding token_of_def using assms(2) False st(1) p before by (meson le_trans)
  have "\<exists>k < Suc n. token_of a c messages p k \<and> f (messages ! k) = Inr ((m @ replicate (length cur - length ids) b) ! p)"
    if p: "p < length cur" for p
  proof (cases "p < length ids")
    case True
    then show ?thesis using old(1) old(2) [OF True] by (auto simp: nth_append intro: less_SucI)
  next
    case False
    then show ?thesis using tok [of p] p old(1) st(3) by (intro exI [of _ n]) (auto simp: nth_append)
  qed
  moreover have "\<exists>r. rendered_until a messages j = Inr r \<and> r = take (length r) cur"
    if "j < Suc n" "\<not> collapsed c messages j" for j
    using that before [of j] st(1) by (cases "j = n") auto
  ultimately show ?thesis using len old(1) st(1) by (simp add: st(4) mask_ok_def)
qed

lemma mask_fold_ok:
  "n \<le> length messages \<Longrightarrow> foldR (mask_step a f c messages) ([], []) [0..<n] = Inr s \<Longrightarrow> mask_ok a f c messages n s"
proof (induction n arbitrary: s)
  case 0
  then show ?case by (auto simp: mask_ok_def)
next
  case (Suc n)
  then show ?case by (auto simp: foldR_append res_simps intro: mask_step_ok)
qed

text \<open>C38. The token mask is exact: when a conversation is rendered, the tokens are those of the
  whole conversation, every token has a mask entry, and that entry is the choice made for the message
  whose rendering was the first to reach the token.\<close>

theorem incremental_mask_exact:
  assumes "build_incremental_token_mask a role_to_mask collapse messages = Inr (ids, m)" and "messages \<noteq> []"
  shows "render_messages a messages False = Inr ids \<and> length m = length ids
    \<and> (\<forall>p < length ids. \<exists>k. token_of a collapse messages p k \<and> role_to_mask (messages ! k) = Inr (m ! p))"
proof -
  let ?n = "length messages"
  have ok: "mask_ok a role_to_mask collapse messages ?n (ids, m)"
    using assms(1) unfolding build_incremental_token_mask_def by (intro mask_fold_ok) auto
  have "\<not> collapsed collapse messages (?n - 1)" using assms(2) by (simp add: collapsed_def)
  moreover have "rendered_until a messages (?n - 1) = render_messages a messages False"
    using assms(2) by (simp add: rendered_until_def should_add_generation_prompt_def)
  ultimately show ?thesis using ok assms(2) by (auto simp: mask_ok_def)
qed

definition demo_template :: chat_template where
  "demo_template messages kwargs = Inr (concat (map (\<lambda>m. if role_of m = JStr ''user'' then [1, 2] else [3, 4, 5]) messages))"

definition demo_render :: render_args where
  "demo_render = \<lparr>ra_template = demo_template, ra_tools = None, ra_kwargs = [], ra_processor = None\<rparr>"

theorem incremental_mask_exact_witness:
  "render_messages demo_render [text_message ''user'' ''a'', text_message ''assistant'' ''b''] False = Inr [1, 2, 3, 4, 5]
   \<and> (\<exists>k. token_of demo_render True [text_message ''user'' ''a'', text_message ''assistant'' ''b''] 3 k
       \<and> (Inr (role_of ([text_message ''user'' ''a'', text_message ''assistant'' ''b''] ! k) = JStr ''assistant'') :: bool res) = Inr True)"
proof -
  let ?ms = "[text_message ''user'' ''a'', text_message ''assistant'' ''b'']"
  have "build_incremental_token_mask demo_render (\<lambda>m. Inr (role_of m = JStr ''assistant'')) True ?ms
      = Inr ([1, 2, 3, 4, 5], [False, False, True, True, True])"
    by code_simp
  from incremental_mask_exact [OF this] show ?thesis
    by (auto dest: spec [of _ 3])
qed

end
