(* ===== verification/SftData.thy ===== *)
theory SftData
  imports ChatTemplate
begin

text \<open>
  The data of supervised fine-tuning (\<open>trainer/sft/data.py\<close>): rows become samples, every data rank takes its share
  of the steps of an epoch, and samples are packed by concatenation (\<open>CatDataset\<close>) or by stacking into
  buckets (\<open>StackDataset\<close>). Generators are states with an operation for one round of their loop. What is outside
  the repository is a parameter: the tokenizer and the renderer, the shuffle of the datasets library, random draws.
\<close>

section \<open>Samples\<close>

text \<open>A sample maps its fields to lists of numbers; Python counts \<open>True\<close> as 1.\<close>

type_synonym sample = "(string, int list) dict"

definition int_of_bool :: "bool \<Rightarrow> int" where
  "int_of_bool b = (if b then 1 else 0)"

definition input_ids :: "sample \<Rightarrow> int list res" where
  "input_ids s = (case dget s ''input_ids'' of None \<Rightarrow> Inl (KeyError ''input_ids'') | Some xs \<Rightarrow> Inr xs)"

record loss_mask_config =
  lm_system :: bool
  lm_user :: bool
  lm_assistant :: bool
  lm_tool :: bool

record sft_tokenizer =
  tk_eos_token_id :: int
  tk_template :: chat_template
  tk_loads :: "string \<Rightarrow> json"

type_synonym renderer = "message list \<Rightarrow> (message \<Rightarrow> bool res) \<Rightarrow> json list \<Rightarrow> (int list \<times> bool list) res"

definition resolve_messages :: "(string \<Rightarrow> json) \<Rightarrow> message \<Rightarrow> message list res" where
  "resolve_messages loads example =
     bindR (case (dget example ''messages'', dget example ''prompt'', dget example ''completion'') of
              (Some ms, _, _) \<Rightarrow> normalize_messages ms ''assistant''
            | (None, Some p, Some c) \<Rightarrow>
                bindR (normalize_messages p ''user'') (\<lambda>prompt.
                bindR (normalize_messages c ''assistant'') (\<lambda>completion. Inr (prompt @ completion)))
            | _ \<Rightarrow> Inl (ValueError ''All examples must have messages or prompt and completion''))
       (\<lambda>messages. bindR (deserialize_tool_calls loads messages) (\<lambda>ms. Inr (strip_message_content ms)))"

definition get_or_null :: "(string, json) dict \<Rightarrow> string \<Rightarrow> json" where
  "get_or_null d k = (case dget d k of None \<Rightarrow> JNull | Some j \<Rightarrow> j)"

definition tool_of :: "json \<Rightarrow> json res" where
  "tool_of t =
     bindR (json_dict t) (\<lambda>d.
       Inr (if get_or_null d ''type'' = JStr ''function'' \<and> dget d ''function'' \<noteq> None then t
            else JObj [(''type'', JStr ''function''),
              (''function'', JObj ([(''name'', get_or_null d ''name''), (''description'', get_or_null d ''description''),
                 (''parameters'', get_or_null d ''parameters'')]
                 @ (if get_or_null d ''strict'' = JNull then [] else [(''strict'', get_or_null d ''strict'')])))]))"

definition resolve_tools :: "(string \<Rightarrow> json) \<Rightarrow> message \<Rightarrow> json list res" where
  "resolve_tools loads example =
     (let raw_tools = (case dget example ''tools'' of Some t \<Rightarrow> t | None \<Rightarrow> get_or_null example ''tool_defs'')
      in if \<not> json_truthy raw_tools then Inr []
         else bindR (case raw_tools of JStr s \<Rightarrow> json_loads loads s | t \<Rightarrow> Inr t) (\<lambda>tools.
              bindR (json_items tools) (mapR tool_of)))"

definition should_mask :: "loss_mask_config \<Rightarrow> message \<Rightarrow> bool res" where
  "should_mask c message =
     (case dget message ''role'' of
        None \<Rightarrow> Inl (AssertionError ''Message must have a role'')
      | Some r \<Rightarrow>
          if r = JStr ''user'' then Inr (lm_user c)
          else if r = JStr ''assistant'' then Inr (lm_assistant c)
          else if r = JStr ''system'' then Inr (lm_system c)
          else if r = JStr ''tool'' then Inr (lm_tool c)
          else Inl (ValueError ''Invalid message role''))"

text \<open>A column of structs: a dictionary, or nothing.\<close>

definition template_kwargs :: "message \<Rightarrow> (string, json) dict res" where
  "template_kwargs example =
     (case dget example ''chat_template_kwargs'' of
        None \<Rightarrow> Inr []
      | Some j \<Rightarrow> if json_truthy j then (case j of JObj d \<Rightarrow> Inr d | _ \<Rightarrow> Inl (ValueError ''dict'')) else Inr [])"

record sft_config =
  sc_tokenizer :: sft_tokenizer
  sc_renderer :: "renderer option"
  sc_loss_mask :: loss_mask_config
  sc_seq_len :: nat

text \<open>\<open>Inr None\<close>: the template is not stable under incremental rendering, the example is skipped.\<close>

definition tokenize_example :: "sft_config \<Rightarrow> message \<Rightarrow> (int list \<times> bool list) option res" where
  "tokenize_example c example =
     bindR (resolve_messages (tk_loads (sc_tokenizer c)) example) (\<lambda>messages.
     bindR (resolve_tools (tk_loads (sc_tokenizer c)) example) (\<lambda>tools.
       case sc_renderer c of
         Some render \<Rightarrow> bindR (render messages (should_mask (sc_loss_mask c)) tools) (\<lambda>r. Inr (Some r))
       | None \<Rightarrow>
           bindR (template_kwargs example) (\<lambda>kwargs.
             case build_incremental_token_mask \<lparr>ra_template = tk_template (sc_tokenizer c), ra_tools = Some tools,
                    ra_kwargs = kwargs, ra_processor = None\<rparr> (should_mask (sc_loss_mask c)) True messages of
               Inr r \<Rightarrow> Inr (Some r)
             | Inl e \<Rightarrow> if e = incremental_tokenization_error then Inr None else Inl e)))"

definition add_eos :: "int \<Rightarrow> int list \<times> bool list \<Rightarrow> int list \<times> bool list" where
  "add_eos eos = (\<lambda>(ids, m). if eos \<in> set ids then (ids, m) else (ids @ [eos], m @ [True]))"

definition training_sample_of :: "int list \<Rightarrow> int list \<Rightarrow> bool list \<Rightarrow> sample" where
  "training_sample_of ids target m =
     [(''input_ids'', ids), (''target_ids'', target), (''loss_mask'', map int_of_bool m),
      (''position_ids'', map int [0..<length ids])]"

definition finish_sample :: "int \<Rightarrow> nat \<Rightarrow> int list \<times> bool list \<Rightarrow> sample option res" where
  "finish_sample eos seq_len tokens =
     (let (ids, m) = add_eos eos tokens;
          target_ids = drop 1 ids; loss_mask = drop 1 m; inputs = butlast ids
      in if True \<notin> set (take seq_len loss_mask) then Inr None
         else bindR (ensure (length inputs = length loss_mask \<and> length loss_mask = length target_ids)
                       (AssertionError ''input_ids, loss_mask and target_ids must have the same length'')) (\<lambda>_.
              bindR (ensure (True \<in> set loss_mask)
                       (AssertionError ''There are no tokens in this sample that contribute to the loss'')) (\<lambda>_.
              bindR (ensure (eos \<in> set target_ids) (AssertionError ''EOS token ID must be present in target_ids'')) (\<lambda>_.
              Inr (Some (training_sample_of inputs target_ids loss_mask))))))"

definition process_example :: "sft_config \<Rightarrow> message \<Rightarrow> sample option res" where
  "process_example c example =
     bindR (tokenize_example c example) (\<lambda>r.
       case r of None \<Rightarrow> Inr None
       | Some tokens \<Rightarrow> finish_sample (tk_eos_token_id (sc_tokenizer c)) (sc_seq_len c) tokens)"

section \<open>The dataset of a data rank\<close>

record data_config =
  dc_examples :: "message list"              \<comment> \<open>the rows that are loaded\<close>
  dc_max_examples :: "nat option"
  dc_max_epochs :: "nat option"
  dc_shuffle :: bool
  dc_seed :: int
  dc_shuffled :: "int \<Rightarrow> message list \<Rightarrow> message list"  \<comment> \<open>\<open>Dataset.shuffle(seed)\<close>\<close>
  dc_data_rank :: nat
  dc_data_world_size :: nat
  dc_process :: "message \<Rightarrow> sample option res"

definition data_rank_of :: "nat \<Rightarrow> nat \<Rightarrow> nat \<Rightarrow> nat \<Rightarrow> nat" where
  "data_rank_of rank non_dp_size num_workers worker_id = rank div non_dp_size * num_workers + worker_id"

definition data_world_size_of :: "nat \<Rightarrow> nat \<Rightarrow> nat \<Rightarrow> nat res" where
  "data_world_size_of world_size non_dp_size num_workers =
     bindR (ensure (world_size mod non_dp_size = 0) (AssertionError ''world_size must be divisible by non_dp_size''))
       (\<lambda>_. Inr (world_size div non_dp_size * num_workers))"

text \<open>\<open>max_examples\<close> above the size of the data set takes all of it here; the library may refuse that.\<close>

definition dataset_of :: "data_config \<Rightarrow> message list" where
  "dataset_of c = (case dc_max_examples c of None \<Rightarrow> dc_examples c | Some k \<Rightarrow> take k (dc_examples c))"

definition num_examples :: "data_config \<Rightarrow> nat" where
  "num_examples c = (case dc_max_examples c of None \<Rightarrow> length (dc_examples c) | Some k \<Rightarrow> min (length (dc_examples c)) k)"

definition epoch_data :: "data_config \<Rightarrow> nat \<Rightarrow> message list" where
  "epoch_data c epoch = (if dc_shuffle c then dc_shuffled c (int epoch + dc_seed c) (dataset_of c) else dataset_of c)"

text \<open>\<open>sd_data\<close> is the local variable of the generator; the counters of samples and tokens are per subset.\<close>

record sft_dataset =
  sd_step :: nat
  sd_epoch :: nat
  sd_data :: "message list"
  sd_num_samples :: "(json, nat) dict"
  sd_num_tokens :: "(json, nat) dict"

definition iter_dataset :: "data_config \<Rightarrow> nat \<times> nat \<Rightarrow> sft_dataset" where
  "iter_dataset c = (\<lambda>(step, epoch). \<lparr>sd_step = step, sd_epoch = epoch, sd_data = epoch_data c epoch,
     sd_num_samples = [], sd_num_tokens = []\<rparr>)"

definition new_dataset :: "data_config \<Rightarrow> sft_dataset" where
  "new_dataset c = iter_dataset c (0, 0)"

definition dataset_state_dict :: "sft_dataset \<Rightarrow> nat \<times> nat" where
  "dataset_state_dict s = (sd_step s, sd_epoch s)"

definition bump_count :: "json \<Rightarrow> nat \<Rightarrow> (json, nat) dict \<Rightarrow> (json, nat) dict" where
  "bump_count k n d = dput k (n + (case dget d k of None \<Rightarrow> 0 | Some m \<Rightarrow> m)) d"

definition subset_or_split :: "message \<Rightarrow> json" where
  "subset_or_split example =
     (if json_truthy (get_or_null example ''__subset'') then get_or_null example ''__subset''
      else get_or_null example ''__split'')"

datatype round_result = Skipped | Yielded sample | Exhausted | Raised pyerr

definition advance_epoch :: "data_config \<Rightarrow> nat \<Rightarrow> sft_dataset \<Rightarrow> sft_dataset" where
  "advance_epoch c epoch s = (if sd_epoch s < epoch then s\<lparr>sd_epoch := epoch, sd_data := epoch_data c epoch\<rparr> else s)"

definition take_example :: "data_config \<Rightarrow> sft_dataset \<Rightarrow> sft_dataset \<times> round_result" where
  "take_example c s =
     (let i = (sd_step s - 1) mod num_examples c
      in if length (sd_data s) \<le> i then (s, Raised (IndexError ''Invalid key''))
         else case dc_process c (sd_data s ! i) of
                Inl e \<Rightarrow> (s, Raised e)
              | Inr None \<Rightarrow> (s, Skipped)
              | Inr (Some sample) \<Rightarrow>
                  let k = subset_or_split (sd_data s ! i);
                      n = (case dget sample ''input_ids'' of None \<Rightarrow> 0 | Some xs \<Rightarrow> length xs)
                  in (s\<lparr>sd_num_samples := bump_count k 1 (sd_num_samples s), sd_num_tokens := bump_count k n (sd_num_tokens s)\<rparr>,
                      Yielded sample))"

definition dataset_round :: "data_config \<Rightarrow> sft_dataset \<Rightarrow> sft_dataset \<times> round_result" where
  "dataset_round c s0 =
     (let s = s0\<lparr>sd_step := sd_step s0 + 1\<rparr>
      in if num_examples c = 0 then (s, Raised ZeroDivisionError)
         else let epoch = (sd_step s - 1) div num_examples c
              in if (case dc_max_epochs c of None \<Rightarrow> False | Some m \<Rightarrow> m \<le> epoch) then (s, Exhausted)
                 else let t = advance_epoch c epoch s
                      in if dc_data_world_size c = 0 then (t, Raised ZeroDivisionError)
                         else if (sd_step t - 1) mod dc_data_world_size c \<noteq> dc_data_rank c then (t, Skipped)
                         else take_example c t)"

text \<open>Fake samples: the draws of a round are inputs.\<close>

record fake_config =
  fk_vocab_size :: int
  fk_seq_len :: nat
  fk_variable :: bool
  fk_increasing :: bool
  fk_data_rank :: nat
  fk_data_world_size :: nat

definition fake_tokens :: "fake_config \<Rightarrow> nat \<Rightarrow> nat \<Rightarrow> int list \<Rightarrow> int list" where
  "fake_tokens c step seq_len drawn_ids =
     (if fk_increasing c then replicate (seq_len + 1) (int step - 1) else take (fk_seq_len c + 1) drawn_ids)"

definition fake_sample :: "fake_config \<Rightarrow> nat \<Rightarrow> nat \<Rightarrow> int list \<Rightarrow> sample" where
  "fake_sample c step drawn_len drawn_ids =
     (let seq_len = (if fk_variable c then drawn_len else fk_seq_len c);
          ids = fake_tokens c step seq_len drawn_ids
      in [(''input_ids'', butlast ids), (''target_ids'', drop 1 ids), (''position_ids'', map int [0..<seq_len]),
          (''loss_mask'', replicate seq_len 1)])"

record fake_dataset =
  fd_step :: nat
  fd_num_samples :: nat
  fd_num_tokens :: nat

definition fake_round :: "fake_config \<Rightarrow> nat \<Rightarrow> int list \<Rightarrow> fake_dataset \<Rightarrow> fake_dataset \<times> sample option" where
  "fake_round c drawn_len drawn_ids s0 =
     (let s = s0\<lparr>fd_step := fd_step s0 + 1\<rparr>; seq_len = (if fk_variable c then drawn_len else fk_seq_len c)
      in if (fd_step s - 1) mod fk_data_world_size c \<noteq> fk_data_rank c then (s, None)
         else (s\<lparr>fd_num_samples := fd_num_samples s + 1,
                 fd_num_tokens := fd_num_tokens s + length (fake_tokens c (fd_step s) seq_len drawn_ids)\<rparr>,
               Some (fake_sample c (fd_step s) drawn_len drawn_ids)))"

section \<open>Concatenation\<close>

definition extend_field :: "sample \<Rightarrow> string \<times> int list \<Rightarrow> sample" where
  "extend_field d = (\<lambda>(k, v). dput k ((case dget d k of None \<Rightarrow> [] | Some xs \<Rightarrow> xs) @ v) d)"

record cat_state =
  ct_packed :: sample
  ct_len :: nat

definition cat_empty :: cat_state where
  "cat_empty = \<lparr>ct_packed = [], ct_len = 0\<rparr>"

definition cat_add :: "nat \<Rightarrow> sample \<Rightarrow> cat_state \<Rightarrow> (cat_state \<times> sample option) res" where
  "cat_add seq_len sample p =
     (let packed = foldl extend_field (ct_packed p) sample
      in bindR (input_ids sample) (\<lambda>ids.
           let n = ct_len p + length ids
           in Inr (if seq_len \<le> n then (cat_empty, Some (map (\<lambda>(k, v). (k, take seq_len v)) packed))
                   else (\<lparr>ct_packed = packed, ct_len = n\<rparr>, None))))"

section \<open>Stacking\<close>

text \<open>\<open>while max_area % 256 == 0\<close>: the halves, the smallest first. An area of 0 would be halved for ever.\<close>

function bucket_sizes :: "nat \<Rightarrow> nat list" where
  "bucket_sizes area = (if area = 0 \<or> area mod 256 \<noteq> 0 then [] else bucket_sizes (area div 2) @ [area])"
  by pat_completeness auto
termination by (relation "measure id") auto

declare bucket_sizes.simps [simp del]

record stack_state =
  sk_step :: nat
  sk_buckets :: "sample list list"
  sk_timers :: "nat option list"
  sk_yielding :: "nat option"    \<comment> \<open>suspended at the \<open>yield\<close> of this bucket\<close>

definition new_stack :: "nat \<Rightarrow> stack_state res" where
  "new_stack max_area =
     bindR (ensure (max_area mod 256 = 0) (AssertionError ''max_area'')) (\<lambda>_.
       Inr \<lparr>sk_step = 0, sk_buckets = replicate (length (bucket_sizes max_area)) [],
            sk_timers = replicate (length (bucket_sizes max_area)) None, sk_yielding = None\<rparr>)"

definition truncate_sample :: "nat \<Rightarrow> sample \<Rightarrow> sample" where
  "truncate_sample n s = map (\<lambda>(k, v). (k, take n v)) s"

fun find_bucket_idx :: "nat list \<Rightarrow> nat \<Rightarrow> nat" where
  "find_bucket_idx (b # b' # bs) len_sample = (if b < len_sample then Suc (find_bucket_idx (b' # bs) len_sample) else 0)"
| "find_bucket_idx _ len_sample = 0"

definition bucket_timeout :: nat where "bucket_timeout = 10"

text \<open>A bucket that has timed out moves up as long as the next bucket stays below the area.\<close>

function move_up :: "nat list \<Rightarrow> nat \<Rightarrow> nat \<Rightarrow> stack_state \<Rightarrow> stack_state \<times> nat" where
  "move_up sizes max_area i s =
     (if i < length (sk_buckets s) - 1
         \<and> sizes ! (i + 1) * (length (sk_buckets s ! i) + length (sk_buckets s ! (i + 1))) < max_area
      then move_up sizes max_area (i + 1)
        (s\<lparr>sk_buckets := (sk_buckets s)[i + 1 := sk_buckets s ! (i + 1) @ sk_buckets s ! i, i := []],
           sk_timers := (sk_timers s)[i := None]\<rparr>)
      else (s, i))"
  by pat_completeness auto
termination by (relation "measure (\<lambda>(_, _, i, s). length (sk_buckets s) - i)") auto

declare move_up.simps [simp del]

definition dummy_sample :: "sample \<Rightarrow> sample" where
  "dummy_sample sample = map (\<lambda>(k, _). (k, [0])) sample"

function fill_bucket :: "nat \<Rightarrow> nat \<Rightarrow> sample \<Rightarrow> sample list \<Rightarrow> sample list" where
  "fill_bucket b max_area dummy rows =
     (if b = 0 \<or> max_area \<le> b * length rows then rows else fill_bucket b max_area dummy (rows @ [dummy]))"
  by pat_completeness auto
termination
  by (relation "measure (\<lambda>(b, max_area, _, rows). max_area - b * length rows)") (auto simp: not_le)

declare fill_bucket.simps [simp del]

type_synonym stack_pack = "(string, int list list) dict"

definition pad_to :: "nat \<Rightarrow> int list \<Rightarrow> int list" where
  "pad_to n v = v @ replicate (n - length v) 0"

definition add_row :: "nat \<Rightarrow> stack_pack \<Rightarrow> sample \<Rightarrow> stack_pack" where
  "add_row b = foldl (\<lambda>d (k, v). dput k ((case dget d k of None \<Rightarrow> [] | Some rows \<Rightarrow> rows) @ [pad_to b v]) d)"

definition pack_rows :: "nat \<Rightarrow> sample list \<Rightarrow> stack_pack" where
  "pack_rows b rows = foldl (add_row b) [] rows"

text \<open>What follows the \<open>yield\<close> when the generator goes on.\<close>

definition after_yield :: "stack_state \<Rightarrow> stack_state" where
  "after_yield s =
     (case sk_yielding s of
        None \<Rightarrow> s
      | Some i \<Rightarrow> s\<lparr>sk_step := sk_step s + 1, sk_buckets := (sk_buckets s)[i := []],
                    sk_timers := (sk_timers s)[i := None], sk_yielding := None\<rparr>)"

definition start_timer :: "nat \<Rightarrow> stack_state \<Rightarrow> stack_state" where
  "start_timer i s = (if sk_timers s ! i = None then s\<lparr>sk_timers := (sk_timers s)[i := Some (sk_step s)]\<rparr> else s)"

definition flush_bucket :: "nat list \<Rightarrow> nat \<Rightarrow> bool \<Rightarrow> sample \<Rightarrow> nat \<Rightarrow> stack_state \<Rightarrow> stack_state \<times> stack_pack option" where
  "flush_bucket sizes max_area hit_timeout sample i s =
     (let (t, j) = (if hit_timeout then move_up sizes max_area i s else (s, i));
          rows = (if hit_timeout then fill_bucket (sizes ! j) max_area (dummy_sample sample) (sk_buckets t ! j)
                  else sk_buckets t ! j)
      in (t\<lparr>sk_buckets := (sk_buckets t)[j := rows], sk_yielding := Some j\<rparr>, Some (pack_rows (sizes ! j) rows)))"

definition stack_add :: "nat \<Rightarrow> sample \<Rightarrow> stack_state \<Rightarrow> (stack_state \<times> stack_pack option) res" where
  "stack_add max_area sample0 s0 =
     bindR (input_ids sample0) (\<lambda>ids.
       let sizes = bucket_sizes max_area;
           s = after_yield s0;
           sample = (if max_area < length ids then truncate_sample max_area sample0 else sample0);
           len_sample = min (length ids) max_area;
           i = find_bucket_idx sizes len_sample;
           t = s\<lparr>sk_buckets := (sk_buckets s)[i := sk_buckets s ! i @ [sample]]\<rparr>;
           hit_timeout = (case sk_timers t ! i of None \<Rightarrow> False | Some timer \<Rightarrow> timer + bucket_timeout < sk_step t);
           is_full = (max_area \<le> sizes ! i * length (sk_buckets t ! i))
       in Inr (if is_full \<or> hit_timeout then flush_bucket sizes max_area hit_timeout sample i t
               else (start_timer i t, None)))"

type_synonym stack_dict = "nat \<times> sample list list \<times> nat option list"

definition stack_state_dict :: "stack_state \<Rightarrow> stack_dict" where
  "stack_state_dict s = (sk_step s, sk_buckets s, sk_timers s)"

definition stack_load_state_dict :: "stack_dict \<Rightarrow> stack_state" where
  "stack_load_state_dict = (\<lambda>(step, buckets, timers).
     \<lparr>sk_step = step, sk_buckets = buckets, sk_timers = timers, sk_yielding = None\<rparr>)"

section \<open>Collation and sources\<close>

definition rectangular :: "int list list \<Rightarrow> bool" where
  "rectangular rows \<longleftrightarrow> (\<forall>r \<in> set rows. length r = length (hd rows))"

definition batch_fields :: "string list" where
  "batch_fields = [''input_ids'', ''position_ids'', ''loss_mask'', ''target_ids'']"

text \<open>\<open>torch.tensor\<close> of nested lists and \<open>torch.stack\<close> both need rows of one length.\<close>

definition tensor_rows :: "int list list \<Rightarrow> int list list res" where
  "tensor_rows rows = bindR (ensure (rectangular rows) (ValueError ''expected sequences of equal length'')) (\<lambda>_. Inr rows)"

definition pack_field :: "(string, 'a) dict \<Rightarrow> string \<Rightarrow> 'a res" where
  "pack_field d k = (case dget d k of None \<Rightarrow> Inl (KeyError k) | Some v \<Rightarrow> Inr v)"

definition stack_collate :: "stack_pack list \<Rightarrow> (string, int list list) dict res" where
  "stack_collate samples =
     (case samples of
        [] \<Rightarrow> Inl (IndexError ''list index out of range'')
      | s # _ \<Rightarrow> mapR (\<lambda>k. bindR (pack_field s k) (\<lambda>rows. bindR (tensor_rows rows) (\<lambda>t. Inr (k, t)))) batch_fields)"

definition cat_collate :: "sample list \<Rightarrow> (string, int list list) dict res" where
  "cat_collate samples =
     mapR (\<lambda>k. bindR (mapR (\<lambda>s. pack_field s k) samples) (\<lambda>rows.
       bindR (ensure (rows \<noteq> []) (RuntimeError ''stack expects a non-empty TensorList'')) (\<lambda>_.
       bindR (tensor_rows rows) (\<lambda>t. Inr (k, t))))) batch_fields"

definition subsets_and_splits :: "string list option \<Rightarrow> string list option \<Rightarrow> (string option \<times> string) list" where
  "subsets_and_splits subsets splits =
     (case (subsets, splits) of
        (None, None) \<Rightarrow> [(None, ''train'')]
      | (Some ss, None) \<Rightarrow> map (\<lambda>s. (Some s, ''train'')) ss
      | (None, Some ps) \<Rightarrow> map (\<lambda>p. (None, p)) ps
      | (Some ss, Some ps) \<Rightarrow> zip (map Some ss) ps)"

text \<open>The columns that \<open>setup_and_interleave_datasets\<close> adds to the rows of a source.\<close>

definition add_source_columns :: "string option \<Rightarrow> string \<Rightarrow> message list \<Rightarrow> message list" where
  "add_source_columns sub spl rows =
     map (\<lambda>(i, row). dput ''__index'' (JInt (int i)) (dput ''__split'' (JStr spl)
       (dput ''__subset'' (case sub of None \<Rightarrow> JNull | Some s \<Rightarrow> JStr s) row))) (enumerate 0 rows)"

definition setup_and_interleave_datasets ::
  "(string option \<Rightarrow> string \<Rightarrow> message list) \<Rightarrow> (message list list \<Rightarrow> message list) \<Rightarrow> (string option \<times> string) list
     \<Rightarrow> message list res" where
  "setup_and_interleave_datasets load_dataset interleave_datasets sources =
     (let datasets = map (\<lambda>(sub, spl). add_source_columns sub spl (load_dataset sub spl)) sources
      in case datasets of
           [] \<Rightarrow> Inl (IndexError ''list index out of range'')
         | [d] \<Rightarrow> Inr d
         | _ \<Rightarrow> Inr (interleave_datasets datasets))"

end
