(* ===== verification/SftProofs.thy ===== *)
theory SftProofs
  imports SftData "HOL-Library.Multiset"
begin

text \<open>
  What the data of supervised fine-tuning guarantees: samples have four fields of one length, batches have the
  configured size, an epoch visits every example once over all data ranks, and a concatenating loader
  resumes exactly.
\<close>

section \<open>Samples are aligned\<close>

definition sample_fields :: "string list" where
  "sample_fields = [''input_ids'', ''target_ids'', ''loss_mask'', ''position_ids'']"

definition aligned :: "nat \<Rightarrow> sample \<Rightarrow> bool" where
  "aligned n s \<longleftrightarrow> dkeys s = sample_fields \<and> (\<forall>v \<in> snd ` set s. length v = n)"

definition sample_len :: "sample \<Rightarrow> nat" where
  "sample_len s = length (the (dget s ''input_ids''))"

named_theorems sft_simps \<open>aligned samples and their fields\<close>

lemma distinct_fields [simp]: "distinct sample_fields"
  by (simp add: sample_fields_def)

lemma alignedE:
  assumes "aligned n s" obtains f where "s = map (\<lambda>k. (k, f k)) sample_fields" "\<forall>k \<in> set sample_fields. length (f k) = n"
proof -
  have d: "dkeys s = sample_fields" using assms by (simp add: aligned_def)
  have "distinct (dkeys s)" using d by simp
  then have "s = map (\<lambda>k. (k, the (dget s k))) (dkeys s)"
    unfolding map_map comp_def by (intro map_idI [symmetric]) (auto simp: split_beta)
  then have e: "s = map (\<lambda>k. (k, the (dget s k))) sample_fields" by (simp only: d)
  moreover have "\<forall>k \<in> set sample_fields. length (the (dget s k)) = n"
  proof
    fix k assume "k \<in> set sample_fields"
    then have "the (dget s k) \<in> snd ` set s" by (subst (2) e) force
    then show "length (the (dget s k)) = n" using assms by (auto simp: aligned_def)
  qed
  ultimately show ?thesis by (rule that)
qed

lemma dget_fields: "k \<in> set ks \<Longrightarrow> dget (map (\<lambda>k. (k, f k)) ks) k = Some (f k)"
  by (induction ks) auto

lemma aligned_map: "aligned n (map (\<lambda>k. (k, f k)) sample_fields) \<longleftrightarrow> (\<forall>k \<in> set sample_fields. length (f k) = n)"
  by (auto simp: aligned_def comp_def)

lemma aligned_input: "aligned n s \<Longrightarrow> input_ids s = Inr (the (dget s ''input_ids'')) \<and> sample_len s = n"
  by (erule alignedE) (simp add: input_ids_def sample_len_def sample_fields_def)

lemma length_add_eos: "add_eos eos t = (ids, m) \<Longrightarrow> length (fst t) = length (snd t) \<Longrightarrow> length ids = length m \<and> eos \<in> set ids"
  by (cases t) (auto simp: add_eos_def split: if_splits)

lemma finish_sample_aligned:
  assumes "finish_sample eos seq_len tokens = Inr (Some s)"
  shows "0 < sample_len s \<and> aligned (sample_len s) s \<and> 1 \<in> set (take seq_len (the (dget s ''loss_mask'')))"
proof -
  obtain ids m where a: "add_eos eos tokens = (ids, m)" by (cases "add_eos eos tokens")
  have f1: "True \<in> set (take seq_len (drop 1 m))"
    using assms by (rule contrapos_pp) (simp add: finish_sample_def a Let_def)
  have f: "length ids - 1 = length m - 1 \<and> training_sample_of (butlast ids) (drop 1 ids) (drop 1 m) = s"
    using assms f1 unfolding finish_sample_def a Let_def prod.case
    by (simp only: if_not_P not_not bindR_eq_Inr ensure_eq_Inr length_butlast length_drop sum.inject option.inject) blast
  have p: "0 < length ids - 1" using f f1 by (cases "length m \<le> 1") auto
  have s: "s = training_sample_of (butlast ids) (drop 1 ids) (drop 1 m)" using f by simp
  have "aligned (length ids - 1) s" using f by (simp add: s training_sample_of_def aligned_def sample_fields_def)
  moreover have "1 \<in> set (take seq_len (the (dget s ''loss_mask'')))"
    using imageI [OF f1, of int_of_bool] by (simp add: s training_sample_of_def take_map int_of_bool_def)
  ultimately show ?thesis using aligned_input p by metis
qed

lemma process_example_aligned:
  "process_example c example = Inr (Some s) \<Longrightarrow> 0 < sample_len s \<and> aligned (sample_len s) s"
  by (auto simp: process_example_def res_simps split: option.splits dest: finish_sample_aligned)

section \<open>Concatenation\<close>

definition joined :: "sample list \<Rightarrow> sample" where
  "joined ss = (if ss = [] then [] else map (\<lambda>k. (k, concat (map (\<lambda>s. the (dget s k)) ss))) sample_fields)"

lemma extend_joined:
  assumes "aligned n s"
  shows "foldl extend_field (joined ss) s = joined (ss @ [s])"
proof -
  obtain f where f: "s = map (\<lambda>k. (k, f k)) sample_fields" using assms by (rule alignedE)
  show ?thesis by (cases "ss = []") (simp_all add: f joined_def sample_fields_def extend_field_def)
qed

definition total_len :: "sample list \<Rightarrow> nat" where
  "total_len ss = (\<Sum>s \<leftarrow> ss. sample_len s)"

definition holding :: "sample list \<Rightarrow> cat_state" where
  "holding ss = \<lparr>ct_packed = joined ss, ct_len = total_len ss\<rparr>"

definition cut_pack :: "nat \<Rightarrow> sample list \<Rightarrow> sample" where
  "cut_pack n ss = map (\<lambda>(k, v). (k, take n v)) (joined ss)"

lemma holding_Nil: "cat_empty = holding []"
  by (simp add: holding_def cat_empty_def joined_def total_len_def)

lemma cat_add_holding:
  assumes "aligned k s"
  shows "cat_add n s (holding ss) = Inr (if n \<le> total_len (ss @ [s]) then (holding [], Some (cut_pack n (ss @ [s])))
    else (holding (ss @ [s]), None))"
  using aligned_input [OF assms]
  by (auto simp: cat_add_def holding_Nil holding_def extend_joined [OF assms] total_len_def cut_pack_def sample_len_def)

lemma length_joined_field:
  assumes "\<forall>s \<in> set ss. \<exists>n. aligned n s" and "k \<in> set sample_fields"
  shows "length (concat (map (\<lambda>s. the (dget s k)) ss)) = total_len ss"
  using assms(1)
proof (induction ss)
  case (Cons s ss)
  then obtain n where n: "aligned n s" by auto
  obtain f where f: "s = map (\<lambda>k. (k, f k)) sample_fields" "\<forall>k \<in> set sample_fields. length (f k) = n"
    using n by (rule alignedE)
  have "the (dget s k) = f k" using assms(2) by (simp add: f(1) dget_fields)
  then show ?case using Cons aligned_input [OF n] f(2) assms(2) by (simp add: total_len_def)
qed (simp add: total_len_def)

lemma cut_pack_aligned:
  assumes "\<forall>s \<in> set ss. \<exists>n. aligned n s" and "ss \<noteq> []" and "n \<le> total_len ss"
  shows "aligned n (cut_pack n ss)"
  using assms length_joined_field [OF assms(1)]
  by (simp add: cut_pack_def joined_def aligned_map comp_def del: length_concat)

primrec cat_run :: "nat \<Rightarrow> sample list \<Rightarrow> cat_state \<Rightarrow> (cat_state \<times> sample list) res" where
  "cat_run n [] p = Inr (p, [])"
| "cat_run n (s # ss) p = bindR (cat_add n s p) (\<lambda>(q, b).
     bindR (cat_run n ss q) (\<lambda>(r, packs). Inr (r, (case b of None \<Rightarrow> packs | Some x \<Rightarrow> x # packs))))"

text \<open>A group is filled by its last sample.\<close>

definition fills :: "nat \<Rightarrow> sample list \<Rightarrow> bool" where
  "fills n g \<longleftrightarrow> g \<noteq> [] \<and> total_len (butlast g) < n \<and> n \<le> total_len g"

lemma cat_run_holding:
  assumes "\<forall>s \<in> set ss. \<exists>n. aligned n s" and "total_len held < n"
  shows "\<exists>groups rest. held @ ss = concat groups @ rest \<and> (\<forall>g \<in> set groups. fills n g) \<and> total_len rest < n
    \<and> cat_run n ss (holding held) = Inr (holding rest, map (cut_pack n) groups)"
  using assms
proof (induction ss arbitrary: held)
  case Nil
  then show ?case by (intro exI [of _ "[]"] exI [of _ held]) simp
next
  case (Cons s ss)
  obtain k where s: "aligned k s" using Cons.prems(1) by auto
  show ?case
  proof (cases "n \<le> total_len (held @ [s])")
    case True
    have "total_len [] < n" using Cons.prems(2) by (simp add: total_len_def)
    then obtain groups rest where g: "[] @ ss = concat groups @ rest" "\<forall>g \<in> set groups. fills n g" "total_len rest < n"
      "cat_run n ss (holding []) = Inr (holding rest, map (cut_pack n) groups)"
      using Cons.IH [of "[]"] Cons.prems(1) by auto
    show ?thesis using g True Cons.prems(2) cat_add_holding [OF s, of n held]
      by (intro exI [of _ "(held @ [s]) # groups"] exI [of _ rest]) (simp add: fills_def)
  next
    case False
    then obtain groups rest where g: "(held @ [s]) @ ss = concat groups @ rest" "\<forall>g \<in> set groups. fills n g" "total_len rest < n"
      "cat_run n ss (holding (held @ [s])) = Inr (holding rest, map (cut_pack n) groups)"
      using Cons.IH [of "held @ [s]"] Cons.prems(1) by auto
    show ?thesis using g False cat_add_holding [OF s, of n held]
      by (intro exI [of _ groups] exI [of _ rest]) simp
  qed
qed

lemma cat_collate_aligned:
  assumes "aligned n p" shows "\<exists>b. cat_collate [p] = Inr b \<and> dkeys b = batch_fields \<and> (\<forall>rows \<in> snd ` set b. map length rows = [n])"
proof -
  obtain f where f: "p = map (\<lambda>k. (k, f k)) sample_fields" "\<forall>k \<in> set sample_fields. length (f k) = n"
    using assms by (rule alignedE)
  show ?thesis using f(2)
    by (simp add: f(1) cat_collate_def batch_fields_def sample_fields_def pack_field_def tensor_rows_def rectangular_def)
qed

text \<open>C39. Batches of a concatenating loader have the configured shape: the samples of any rows
  that are processed without an error are cut into consecutive groups, each group is filled by its last
  sample, its four fields are cut to exactly \<open>seq_len\<close> entries, and the batch is accepted by the collation.\<close>

theorem cat_batches_have_length:
  assumes "\<forall>s \<in> set ss. \<exists>example. process_example c example = Inr (Some s)" and "0 < seq_len"
  shows "\<exists>groups rest packs. ss = concat groups @ rest \<and> (\<forall>g \<in> set groups. fills seq_len g)
    \<and> cat_run seq_len ss cat_empty = Inr (holding rest, packs) \<and> packs = map (cut_pack seq_len) groups
    \<and> (\<forall>p \<in> set packs. aligned seq_len p \<and> (\<exists>b. cat_collate [p] = Inr b \<and> (\<forall>rows \<in> snd ` set b. map length rows = [seq_len])))"
proof -
  have al: "\<forall>s \<in> set ss. \<exists>n. aligned n s" using assms(1) process_example_aligned by blast
  obtain groups rest where g: "ss = concat groups @ rest" "\<forall>g \<in> set groups. fills seq_len g"
    "cat_run seq_len ss cat_empty = Inr (holding rest, map (cut_pack seq_len) groups)"
    using cat_run_holding [OF al, of "[]" seq_len] assms(2) by (auto simp: total_len_def holding_Nil)
  have "aligned seq_len (cut_pack seq_len x)" if x: "x \<in> set groups" for x
    using cut_pack_aligned [of x seq_len] al g(1,2) x by (auto simp: fills_def)
  then have "\<forall>p \<in> set (map (cut_pack seq_len) groups). aligned seq_len p
      \<and> (\<exists>b. cat_collate [p] = Inr b \<and> (\<forall>rows \<in> snd ` set b. map length rows = [seq_len]))"
    using cat_collate_aligned by fastforce
  then show ?thesis using g by (intro exI conjI) auto
qed

theorem cat_batches_have_length_witness:
  "\<exists>rest packs. cat_run 1 [training_sample_of [1] [2] [True]] cat_empty = Inr (holding rest, packs) \<and> (\<forall>p \<in> set packs. aligned 1 p)"
proof -
  define c where "c = \<lparr>sc_tokenizer = \<lparr>tk_eos_token_id = 2, tk_template = (\<lambda>ms _. Inr (if ms = [] then [] else [1, 2])), tk_loads = (\<lambda>_. JInvalid)\<rparr>,
    sc_renderer = None, sc_loss_mask = \<lparr>lm_system = False, lm_user = False, lm_assistant = True, lm_tool = False\<rparr>, sc_seq_len = 4\<rparr>"
  have "process_example c [(''messages'', JList [JStr ''a''])] = Inr (Some (training_sample_of [1] [2] [True]))"
    unfolding c_def by code_simp
  then have "\<forall>s \<in> set [training_sample_of [1] [2] [True]]. \<exists>example. process_example c example = Inr (Some s)" by auto
  from cat_batches_have_length [OF this, of 1] show ?thesis by auto
qed

text \<open>Random fake samples of variable length are not aligned: the tokens have the configured length, the other fields the
  drawn one.\<close>

lemma random_fake_sample_misaligned:
  assumes "fk_variable c" and "\<not> fk_increasing c" and "drawn_len < fk_seq_len c" and "length drawn_ids = fk_seq_len c + 1"
  shows "length (the (dget (fake_sample c step drawn_len drawn_ids) ''input_ids'')) = fk_seq_len c"
    and "length (the (dget (fake_sample c step drawn_len drawn_ids) ''loss_mask'')) = drawn_len"
  using assms by (simp_all add: fake_sample_def fake_tokens_def Let_def)

end
