(* ===== verification/SftEpochs.thy ===== *)
theory SftEpochs
  imports SftProofs
begin

text \<open>
  Rounds of the data of supervised fine-tuning, one after the other: what the ranks see of an epoch, and what a
  loader yields after it is restored from a checkpoint.
\<close>

section \<open>Rounds\<close>

primrec iterate :: "('l \<Rightarrow> 'l \<times> 'e) \<Rightarrow> nat \<Rightarrow> 'l \<Rightarrow> 'l \<times> 'e list" where
  "iterate f 0 s = (s, [])"
| "iterate f (Suc n) s = (let (t, es) = iterate f n s; (u, e) = f t in (u, es @ [e]))"

lemma iterate_Suc: "iterate f n s = (t, es) \<Longrightarrow> f t = (u, e) \<Longrightarrow> iterate f (Suc n) s = (u, es @ [e])"
  by simp

lemma iterate_add: "iterate f m s = (t, es) \<Longrightarrow> iterate f n t = (u, es') \<Longrightarrow> iterate f (m + n) s = (u, es @ es')"
  by (induction n arbitrary: u es') (auto simp: split_beta Let_def prod_eq_iff)

lemma iterate_related:
  assumes "R s s'" and "\<And>s s'. R s s' \<Longrightarrow> R (fst (f s)) (fst (g s')) \<and> snd (f s) = snd (g s')"
  shows "R (fst (iterate f n s)) (fst (iterate g n s')) \<and> snd (iterate f n s) = snd (iterate g n s')"
  by (induction n) (use assms in \<open>auto simp: split_beta Let_def\<close>)

definition yielded :: "round_result list \<Rightarrow> sample list" where
  "yielded rs = List.map_filter (\<lambda>r. case r of Yielded s \<Rightarrow> Some s | _ \<Rightarrow> None) rs"

section \<open>An epoch over all data ranks\<close>

definition rank_samples :: "data_config \<Rightarrow> nat \<Rightarrow> sample multiset" where
  "rank_samples c n = mset (yielded (snd (iterate (dataset_round c) n (new_dataset c))))"

definition runs_for :: "data_config \<Rightarrow> nat \<Rightarrow> bool" where
  "runs_for c epochs \<longleftrightarrow> (case dc_max_epochs c of None \<Rightarrow> True | Some m \<Rightarrow> epochs \<le> m)"

definition permutes_data :: "data_config \<Rightarrow> bool" where
  "permutes_data c \<longleftrightarrow> (\<forall>seed d. mset (dc_shuffled c seed d) = mset d)"

lemma length_dataset: "length (dataset_of c) = num_examples c"
  by (simp add: dataset_of_def num_examples_def split: option.split)

lemma epoch_data_perm:
  assumes "permutes_data c" shows "mset (epoch_data c e) = mset (dataset_of c)" "length (epoch_data c e) = num_examples c"
    "set (epoch_data c e) = set (dataset_of c)"
proof -
  show m: "mset (epoch_data c e) = mset (dataset_of c)" using assms by (simp add: epoch_data_def permutes_data_def)
  show "length (epoch_data c e) = num_examples c" using mset_eq_length [OF m] by (simp add: length_dataset)
  show "set (epoch_data c e) = set (dataset_of c)" using mset_eq_setD [OF m] .
qed

text \<open>What the round at step \<open>t\<close> answers on a data rank.\<close>

definition sample_at :: "data_config \<Rightarrow> nat \<Rightarrow> sample option" where
  "sample_at c t = (case dc_process c (epoch_data c (t div num_examples c) ! (t mod num_examples c)) of
     Inr (Some s) \<Rightarrow> Some s | _ \<Rightarrow> None)"

definition at_step :: "data_config \<Rightarrow> nat \<Rightarrow> sft_dataset \<Rightarrow> bool" where
  "at_step c t d \<longleftrightarrow> sd_step d = t \<and> sd_data d = epoch_data c (sd_epoch d) \<and> sd_epoch d = (t - 1) div num_examples c"

lemma at_step_new: "at_step c 0 (new_dataset c)"
  by (simp add: at_step_def new_dataset_def iter_dataset_def)

lemma yielded_Skipped: "yielded [Skipped] = []"
  by (simp add: yielded_def List.map_filter_def)

lemma take_example_step:
  assumes "sd_step u = t" and "(t - 1) mod num_examples c < length (sd_data u)"
    and "sd_data u ! ((t - 1) mod num_examples c) = ex" and "dc_process c ex = Inr r"
  shows "at_step c k (fst (take_example c u)) = at_step c k u
    \<and> yielded [snd (take_example c u)] = (case r of None \<Rightarrow> [] | Some s \<Rightarrow> [s])"
  using assms by (cases r) (simp_all add: take_example_def Let_def at_step_def yielded_def List.map_filter_def)

lemma round_at_step:
  assumes "at_step c t d" and "permutes_data c" and "0 < num_examples c" and "0 < dc_data_world_size c"
    and "runs_for c epochs" and "t < epochs * num_examples c" and "\<forall>ex \<in> set (dataset_of c). \<exists>r. dc_process c ex = Inr r"
  shows "at_step c (Suc t) (fst (dataset_round c d))
    \<and> yielded [snd (dataset_round c d)] = (if t mod dc_data_world_size c = dc_data_rank c then case sample_at c t of None \<Rightarrow> [] | Some s \<Rightarrow> [s] else [])"
proof -
  let ?n = "num_examples c"
  have e: "t div ?n < epochs" using assms(3,6) by (simp add: less_mult_imp_div_less)
  have le: "(t - 1) div ?n \<le> t div ?n" by (intro div_le_mono) simp
  have go: "\<not> (case dc_max_epochs c of None \<Rightarrow> False | Some m \<Rightarrow> m \<le> t div ?n)"
    using assms(5) e by (auto simp: runs_for_def split: option.splits)
  let ?d = "d\<lparr>sd_step := Suc t\<rparr>"
  define u where "u = advance_epoch c (t div ?n) ?d"
  have u: "sd_step u = Suc t" "sd_epoch u = t div ?n" "sd_data u = epoch_data c (t div ?n)"
    using assms(1) le unfolding u_def advance_epoch_def at_step_def by auto
  then have at: "at_step c (Suc t) u" by (simp add: at_step_def)
  have step: "dataset_round c d = (if num_examples c = 0 then (?d, Raised ZeroDivisionError)
      else if (case dc_max_epochs c of None \<Rightarrow> False | Some m \<Rightarrow> m \<le> t div ?n) then (?d, Exhausted)
      else if dc_data_world_size c = 0 then (u, Raised ZeroDivisionError)
      else if (sd_step u - 1) mod dc_data_world_size c \<noteq> dc_data_rank c then (u, Skipped) else take_example c u)"
    using assms(1) by (simp add: dataset_round_def at_step_def Let_def u_def)
  have r: "dataset_round c d = (if t mod dc_data_world_size c \<noteq> dc_data_rank c then (u, Skipped) else take_example c u)"
    using assms(3,4) go by (simp only: step u(1)) simp
  have i: "t mod ?n < length (sd_data u)" using assms(2,3) by (simp add: u(3) epoch_data_perm)
  have ex: "sd_data u ! (t mod ?n) \<in> set (dataset_of c)"
    using nth_mem [OF i] assms(2) by (simp add: u(3) epoch_data_perm)
  then obtain r where p: "dc_process c (sd_data u ! (t mod ?n)) = Inr r" using assms(7) by blast
  have s: "sample_at c t = r" using p by (simp add: sample_at_def u(3) split: option.split)
  have "at_step c (Suc t) (fst (take_example c u))
    \<and> yielded [snd (take_example c u)] = (case sample_at c t of None \<Rightarrow> [] | Some s \<Rightarrow> [s])"
    using take_example_step [of u "Suc t" c "sd_data u ! (t mod ?n)" r "Suc t"] i p at u(1)
    by (simp add: s)
  then show ?thesis using at by (simp add: r yielded_Skipped)
qed

lemma yielded_append: "yielded (rs @ rs') = yielded rs @ yielded rs'"
  by (simp add: yielded_def List.map_filter_def)

lemma rank_samples_steps:
  assumes "permutes_data c" and "0 < num_examples c" and "0 < dc_data_world_size c"
    and "runs_for c epochs" and "\<forall>ex \<in> set (dataset_of c). \<exists>r. dc_process c ex = Inr r" and "t \<le> epochs * num_examples c"
  shows "at_step c t (fst (iterate (dataset_round c) t (new_dataset c)))
    \<and> rank_samples c t = (\<Sum>i<t. if i mod dc_data_world_size c = dc_data_rank c then mset (case sample_at c i of None \<Rightarrow> [] | Some s \<Rightarrow> [s]) else {#})"
  using assms(6)
proof (induction t)
  case 0
  show ?case by (simp add: at_step_new rank_samples_def yielded_def List.map_filter_def)
next
  case (Suc t)
  then have IH: "at_step c t (fst (iterate (dataset_round c) t (new_dataset c)))" by simp
  show ?case
    using round_at_step [OF IH assms(1-4) _ assms(5)] Suc
    by (auto simp: rank_samples_def split_beta Let_def yielded_append)
qed

lemma steps_of_epochs:
  fixes g :: "nat \<Rightarrow> nat \<Rightarrow> 'a :: comm_monoid_add"
  assumes "0 < n" shows "(\<Sum>t<e * n. g (t div n) (t mod n)) = (\<Sum>k<e. \<Sum>i<n. g k i)"
proof (induction e)
  case (Suc e)
  have "{..<Suc e * n} = {..<e * n} \<union> (\<lambda>i. e * n + i) ` {..<n}"
  proof (intro set_eqI iffI)
    fix t assume "t \<in> {..<Suc e * n}"
    then show "t \<in> {..<e * n} \<union> (\<lambda>i. e * n + i) ` {..<n}"
      by (cases "t < e * n") (auto intro!: image_eqI [of _ _ "t - e * n"])
  qed (auto simp: add.commute)
  then have "(\<Sum>t<Suc e * n. g (t div n) (t mod n)) = (\<Sum>t<e * n. g (t div n) (t mod n))
      + (\<Sum>t \<in> (\<lambda>i. e * n + i) ` {..<n}. g (t div n) (t mod n))"
    by (simp only:, intro sum.union_disjoint) auto
  also have "(\<Sum>t \<in> (\<lambda>i. e * n + i) ` {..<n}. g (t div n) (t mod n)) = (\<Sum>i<n. g e i)"
    using assms by (subst sum.reindex) (auto simp: inj_on_def)
  finally show ?case using Suc by simp
qed simp

lemma sum_options:
  "(\<Sum>i<length xs. mset (case f (xs ! i) of None \<Rightarrow> [] | Some s \<Rightarrow> [s])) = mset (List.map_filter f xs)"
proof (induction xs rule: rev_induct)
  case (snoc x xs)
  have "(\<Sum>i<length xs. mset (case f ((xs @ [x]) ! i) of None \<Rightarrow> [] | Some s \<Rightarrow> [s]))
      = (\<Sum>i<length xs. mset (case f (xs ! i) of None \<Rightarrow> [] | Some s \<Rightarrow> [s]))"
    by (intro sum.cong) (auto simp: nth_append)
  then show ?case using snoc by (auto simp: List.map_filter_def nth_append split: option.split)
qed (simp add: List.map_filter_def)

lemma mset_map_filter: "mset xs = mset ys \<Longrightarrow> mset (List.map_filter f xs) = mset (List.map_filter f ys)"
  unfolding List.map_filter_def by (simp add: mset_filter [symmetric] flip: mset_map) (metis mset_filter mset_map)

lemma rank_independent:
  fixes c :: data_config
  shows "num_examples (c\<lparr>dc_data_rank := r\<rparr>) = num_examples c" "dataset_of (c\<lparr>dc_data_rank := r\<rparr>) = dataset_of c"
    "sample_at (c\<lparr>dc_data_rank := r\<rparr>) = sample_at c" "permutes_data (c\<lparr>dc_data_rank := r\<rparr>) = permutes_data c"
    "runs_for (c\<lparr>dc_data_rank := r\<rparr>) = runs_for c"
proof -
  have n: "num_examples (c\<lparr>dc_data_rank := r\<rparr>) = num_examples c" and d: "dataset_of (c\<lparr>dc_data_rank := r\<rparr>) = dataset_of c"
    by (simp_all add: num_examples_def dataset_of_def cong: option.case_cong)
  moreover have "epoch_data (c\<lparr>dc_data_rank := r\<rparr>) e = epoch_data c e" for e by (simp add: epoch_data_def d)
  ultimately show "num_examples (c\<lparr>dc_data_rank := r\<rparr>) = num_examples c" "dataset_of (c\<lparr>dc_data_rank := r\<rparr>) = dataset_of c"
    "sample_at (c\<lparr>dc_data_rank := r\<rparr>) = sample_at c" "permutes_data (c\<lparr>dc_data_rank := r\<rparr>) = permutes_data c"
    "runs_for (c\<lparr>dc_data_rank := r\<rparr>) = runs_for c"
    by (simp_all add: sample_at_def permutes_data_def runs_for_def fun_eq_iff)
qed

text \<open>C34. An epoch visits every example once: when every row is processed without an error and
  shuffling permutes the rows, the samples that all data ranks together have yielded after the steps of some
  epochs are, for each epoch, the samples of all rows, whatever the number of ranks.\<close>

theorem epoch_visits_every_example:
  assumes "permutes_data c" and "0 < num_examples c" and "0 < dc_data_world_size c" and "runs_for c epochs"
    and "\<forall>ex \<in> set (dataset_of c). dc_process c ex = Inr (f ex)"
  shows "(\<Sum>r<dc_data_world_size c. rank_samples (c\<lparr>dc_data_rank := r\<rparr>) (epochs * num_examples c))
    = repeat_mset epochs (mset (List.map_filter f (dataset_of c)))"
proof -
  let ?n = "num_examples c" and ?W = "dc_data_world_size c"
  let ?g = "\<lambda>t. mset (case sample_at c t of None \<Rightarrow> [] | Some s \<Rightarrow> [s])"
  have same: "num_examples (c\<lparr>dc_data_rank := r\<rparr>) = ?n" "dataset_of (c\<lparr>dc_data_rank := r\<rparr>) = dataset_of c"
    "sample_at (c\<lparr>dc_data_rank := r\<rparr>) = sample_at c" "permutes_data (c\<lparr>dc_data_rank := r\<rparr>) = permutes_data c"
    "runs_for (c\<lparr>dc_data_rank := r\<rparr>) = runs_for c" for r
    using rank_independent by blast+
  have "rank_samples (c\<lparr>dc_data_rank := r\<rparr>) (epochs * ?n) = (\<Sum>t<epochs * ?n. if t mod ?W = r then ?g t else {#})" for r
    using rank_samples_steps [of "c\<lparr>dc_data_rank := r\<rparr>" epochs "epochs * ?n"] assms unfolding same by simp
  then have "(\<Sum>r<?W. rank_samples (c\<lparr>dc_data_rank := r\<rparr>) (epochs * ?n))
      = (\<Sum>t<epochs * ?n. \<Sum>r<?W. if t mod ?W = r then ?g t else {#})"
    by (simp only: sum.swap [of _ "{..<epochs * ?n}"])
  also have "\<dots> = (\<Sum>t<epochs * ?n. ?g t)" using assms(3) by (intro sum.cong) (simp_all add: sum.delta)
  also have "\<dots> = (\<Sum>k<epochs. \<Sum>i<?n. mset (case f (epoch_data c k ! i) of None \<Rightarrow> [] | Some s \<Rightarrow> [s]))"
  proof -
    have "?g t = mset (case f (epoch_data c (t div ?n) ! (t mod ?n)) of None \<Rightarrow> [] | Some s \<Rightarrow> [s])" for t
    proof -
      have "epoch_data c (t div ?n) ! (t mod ?n) \<in> set (dataset_of c)"
        using assms(1,2) by (metis epoch_data_perm(2,3) mod_less_divisor nth_mem)
      then show ?thesis using assms(5) by (simp add: sample_at_def split: option.split)
    qed
    then show ?thesis using steps_of_epochs [OF assms(2), of "\<lambda>k i. mset (case f (epoch_data c k ! i) of None \<Rightarrow> [] | Some s \<Rightarrow> [s])"]
      by simp
  qed
  also have "\<dots> = (\<Sum>k<epochs. mset (List.map_filter f (dataset_of c)))"
  proof (rule sum.cong [OF refl])
    fix k
    show "(\<Sum>i<?n. mset (case f (epoch_data c k ! i) of None \<Rightarrow> [] | Some s \<Rightarrow> [s])) = mset (List.map_filter f (dataset_of c))"
      using sum_options [of f "epoch_data c k"] mset_map_filter [OF epoch_data_perm(1) [OF assms(1)]]
      by (simp add: epoch_data_perm(2) [OF assms(1)])
  qed
  also have "\<dots> = repeat_mset epochs (mset (List.map_filter f (dataset_of c)))" by (induction epochs) simp_all
  finally show ?thesis .
qed

definition demo_row :: message where "demo_row = text_message ''user'' ''hi''"
definition demo_other_row :: message where "demo_other_row = text_message ''user'' ''skip''"

definition demo_data :: data_config where
  "demo_data = \<lparr>dc_examples = [demo_row, demo_other_row], dc_max_examples = None, dc_max_epochs = Some 2, dc_shuffle = True, dc_seed = 0,
     dc_shuffled = (\<lambda>_ d. rev d), dc_data_rank = 0, dc_data_world_size = 2,
     dc_process = (\<lambda>m. Inr (if m = demo_row then Some (training_sample_of [1] [2] [True]) else None))\<rparr>"

theorem epoch_visits_every_example_witness:
  "(\<Sum>r<2. rank_samples (demo_data\<lparr>dc_data_rank := r\<rparr>) (2 * 2)) = repeat_mset 2 {#training_sample_of [1] [2] [True]#}"
proof -
  have d: "dataset_of demo_data = [demo_row, demo_other_row]" "num_examples demo_data = 2" "dc_data_world_size demo_data = 2"
    by (simp_all add: demo_data_def dataset_of_def num_examples_def)
  have "mset (List.map_filter (\<lambda>m. if m = demo_row then Some (training_sample_of [1] [2] [True]) else None) (dataset_of demo_data))
      = {#training_sample_of [1] [2] [True]#}"
    by (simp add: d(1) List.map_filter_def demo_row_def demo_other_row_def text_message_def)
  moreover have "permutes_data demo_data" "runs_for demo_data 2"
    by (simp_all add: permutes_data_def runs_for_def demo_data_def)
  ultimately show ?thesis
    using epoch_visits_every_example [of demo_data 2 "\<lambda>m. if m = demo_row then Some (training_sample_of [1] [2] [True]) else None"]
    by (simp add: d(2,3)) (simp add: demo_data_def)
qed

section \<open>Resuming a concatenating loader\<close>

text \<open>The generator of \<open>CatDataset\<close> draws from the dataset until it has a batch; a checkpoint stores the state of the
  dataset only.\<close>

record cat_loader =
  cl_data :: sft_dataset
  cl_cat :: cat_state

datatype loader_event = Idle | Batch sample | Stopped "pyerr option"

definition cat_loader_round :: "data_config \<Rightarrow> nat \<Rightarrow> cat_loader \<Rightarrow> cat_loader \<times> loader_event" where
  "cat_loader_round c seq_len L =
     (let (d, r) = dataset_round c (cl_data L); L' = L\<lparr>cl_data := d\<rparr>
      in case r of
           Skipped \<Rightarrow> (L', Idle)
         | Exhausted \<Rightarrow> (L', Stopped None)
         | Raised e \<Rightarrow> (L', Stopped (Some e))
         | Yielded s \<Rightarrow>
             (case cat_add seq_len s (cl_cat L) of
                Inl e \<Rightarrow> (L', Stopped (Some e))
              | Inr (p, b) \<Rightarrow> (L'\<lparr>cl_cat := p\<rparr>, case b of None \<Rightarrow> Idle | Some x \<Rightarrow> Batch x)))"

definition new_cat_loader :: "data_config \<Rightarrow> cat_loader" where
  "new_cat_loader c = \<lparr>cl_data = new_dataset c, cl_cat = cat_empty\<rparr>"

definition cat_state_dict :: "cat_loader \<Rightarrow> nat \<times> nat" where
  "cat_state_dict L = dataset_state_dict (cl_data L)"

definition cat_load_state_dict :: "data_config \<Rightarrow> nat \<times> nat \<Rightarrow> cat_loader" where
  "cat_load_state_dict c st = \<lparr>cl_data = iter_dataset c st, cl_cat = cat_empty\<rparr>"

definition same_dataset :: "sft_dataset \<Rightarrow> sft_dataset \<Rightarrow> bool" where
  "same_dataset d d' \<longleftrightarrow> sd_step d = sd_step d' \<and> sd_epoch d = sd_epoch d' \<and> sd_data d = sd_data d'"

definition same_loader :: "cat_loader \<Rightarrow> cat_loader \<Rightarrow> bool" where
  "same_loader L L' \<longleftrightarrow> same_dataset (cl_data L) (cl_data L') \<and> cl_cat L = cl_cat L'"

lemma same_dataset_round:
  assumes "same_dataset d d'"
  shows "same_dataset (fst (dataset_round c d)) (fst (dataset_round c d')) \<and> snd (dataset_round c d) = snd (dataset_round c d')"
proof -
  have take_same: "same_dataset (fst (take_example c u)) (fst (take_example c u')) \<and> snd (take_example c u) = snd (take_example c u')"
    if "same_dataset u u'" for u u'
    using that by (simp add: take_example_def same_dataset_def Let_def split: sum.split option.split)
  have "same_dataset (advance_epoch c e (d\<lparr>sd_step := n\<rparr>)) (advance_epoch c e (d'\<lparr>sd_step := n\<rparr>))" for e n
    using assms by (simp add: advance_epoch_def same_dataset_def)
  then have a: "same_dataset (advance_epoch c e (d\<lparr>sd_step := n\<rparr>)) (advance_epoch c e (d'\<lparr>sd_step := n\<rparr>))" for e n .
  have st: "sd_step (advance_epoch c e (u\<lparr>sd_step := n\<rparr>)) = n" for e n and u :: sft_dataset by (simp add: advance_epoch_def)
  have s: "sd_step d' = sd_step d" using assms by (simp add: same_dataset_def)
  show ?thesis
    using assms a [of "sd_step d div num_examples c" "sd_step d + 1"]
      take_same [OF a [of "sd_step d div num_examples c" "sd_step d + 1"]]
    by (auto simp: dataset_round_def Let_def s st same_dataset_def)
qed

lemma same_loader_round:
  "same_loader L L' \<Longrightarrow> same_loader (fst (cat_loader_round c n L)) (fst (cat_loader_round c n L'))
     \<and> snd (cat_loader_round c n L) = snd (cat_loader_round c n L')"
  using same_dataset_round [of "cl_data L" "cl_data L'" c]
  by (auto simp: cat_loader_round_def same_loader_def Let_def split_beta split: round_result.split sum.split)

definition data_in_step :: "data_config \<Rightarrow> sft_dataset \<Rightarrow> bool" where
  "data_in_step c d \<longleftrightarrow> sd_data d = epoch_data c (sd_epoch d)"

lemma data_in_step_round: "data_in_step c d \<Longrightarrow> data_in_step c (fst (dataset_round c d))"
  by (simp add: data_in_step_def dataset_round_def take_example_def advance_epoch_def Let_def split: sum.split option.split)

lemma loader_in_step:
  "data_in_step c (cl_data (fst (iterate (cat_loader_round c n) k (new_cat_loader c))))"
proof (induction k)
  case 0
  show ?case by (simp add: new_cat_loader_def new_dataset_def iter_dataset_def data_in_step_def)
next
  case (Suc k)
  let ?L = "fst (iterate (cat_loader_round c n) k (new_cat_loader c))"
  have "cl_data (fst (cat_loader_round c n L)) = fst (dataset_round c (cl_data L))" for L
    by (auto simp: cat_loader_round_def Let_def split_beta split: round_result.split sum.split)
  then show ?case using data_in_step_round [OF Suc] by (simp add: split_beta Let_def)
qed

lemma batch_empties:
  assumes "snd (cat_loader_round c n L) = Batch b" shows "cl_cat (fst (cat_loader_round c n L)) = cat_empty"
  using assms
  by (auto simp: cat_loader_round_def cat_add_def res_simps Let_def split_beta
      split: round_result.splits sum.splits option.splits if_splits)

text \<open>C35. A concatenating loader resumes exactly: restored from the checkpoint that is taken when
  a batch has been yielded, it goes on with the same batches in the same rounds as the loader that was not
  interrupted, although the checkpoint holds only the step and the epoch.\<close>

theorem cat_loader_resumes:
  assumes "iterate (cat_loader_round c seq_len) (Suc k) (new_cat_loader c) = (L, events)" and "last events = Batch b"
  shows "snd (iterate (cat_loader_round c seq_len) n (cat_load_state_dict c (cat_state_dict L)))
    = snd (iterate (cat_loader_round c seq_len) n L)"
proof -
  obtain L0 es where i: "iterate (cat_loader_round c seq_len) k (new_cat_loader c) = (L0, es)" by fastforce
  then have r: "cat_loader_round c seq_len L0 = (L, Batch b)" using assms by (auto simp: split_beta prod_eq_iff)
  have "data_in_step c (cl_data L)"
    using loader_in_step [of c seq_len "Suc k"] unfolding assms(1) by simp
  moreover have "cl_cat L = cat_empty" using batch_empties [of c seq_len L0 b] by (simp add: r)
  ultimately have "same_loader (cat_load_state_dict c (cat_state_dict L)) L"
    by (simp add: same_loader_def same_dataset_def cat_load_state_dict_def cat_state_dict_def dataset_state_dict_def
        iter_dataset_def data_in_step_def)
  with iterate_related [where R = same_loader and f = "cat_loader_round c seq_len" and g = "cat_loader_round c seq_len"]
  show ?thesis using same_loader_round by blast
qed

definition demo_alone :: data_config where
  "demo_alone = demo_data\<lparr>dc_data_world_size := 1\<rparr>"

theorem cat_loader_resumes_witness:
  "\<exists>L. fst (iterate (cat_loader_round demo_alone 1) 2 (new_cat_loader demo_alone)) = L \<and>
     snd (iterate (cat_loader_round demo_alone 1) 2 (cat_load_state_dict demo_alone (cat_state_dict L))) = [Idle, Batch (training_sample_of [1] [2] [True])]
     \<and> snd (iterate (cat_loader_round demo_alone 1) 2 L) = [Idle, Batch (training_sample_of [1] [2] [True])]"
proof -
  let ?f = "cat_loader_round demo_alone 1"
  define L where "L = fst (iterate ?f (Suc 1) (new_cat_loader demo_alone))"
  have "snd (iterate ?f (Suc 1) (new_cat_loader demo_alone)) = [Idle, Batch (training_sample_of [1] [2] [True])]" by code_simp
  then have i: "iterate ?f (Suc 1) (new_cat_loader demo_alone) = (L, [Idle, Batch (training_sample_of [1] [2] [True])])"
    by (simp add: L_def prod_eq_iff)
  have n: "snd (iterate ?f 2 (fst (iterate ?f (Suc 1) (new_cat_loader demo_alone)))) = [Idle, Batch (training_sample_of [1] [2] [True])]"
    by code_simp
  show ?thesis
    using cat_loader_resumes [OF i, of "training_sample_of [1] [2] [True]" 2] n
    by (intro exI [of _ L]) (simp add: L_def numeral_2_eq_2 del: iterate.simps)
qed

end
