(* ===== verification/SftStack.thy ===== *)
theory SftStack
  imports SftProofs "HOL-Library.Multiset"
begin

text \<open>
  Stacked batches (\<open>StackDataset\<close>): every batch is a rectangle of the configured area whose rows are padded samples,
  no sample is lost or doubled while the generator runs, and a checkpoint taken at a batch keeps the rows that were
  already yielded.
\<close>

section \<open>Bucket sizes\<close>

definition area_ok :: "nat \<Rightarrow> bool" where
  "area_ok A \<longleftrightarrow> 0 < A \<and> A mod 256 = 0"

lemma bucket_sizes_step: "area_ok A \<Longrightarrow> bucket_sizes A = bucket_sizes (A div 2) @ [A]"
  by (subst bucket_sizes.simps) (simp add: area_ok_def)

lemma bucket_sizes_none: "\<not> area_ok A \<Longrightarrow> bucket_sizes A = []"
  by (subst bucket_sizes.simps) (auto simp: area_ok_def)

lemma last_bucket: "area_ok A \<Longrightarrow> bucket_sizes A \<noteq> [] \<and> last (bucket_sizes A) = A"
  by (simp add: bucket_sizes_step)

lemma area_even: "area_ok A \<Longrightarrow> 2 * (A div 2) = A"
  by (metis (no_types, lifting) area_ok_def dvd_mult_div_cancel dvd_trans mod_eq_0_iff_dvd numeral_Bit0_eq_double dvd_triv_left)

lemma bucket_sizes_props:
  "area_ok A \<Longrightarrow> (\<forall>i < length (bucket_sizes A). 0 < bucket_sizes A ! i \<and> bucket_sizes A ! i dvd A)
     \<and> (\<forall>i. i + 1 < length (bucket_sizes A) \<longrightarrow> bucket_sizes A ! (i + 1) = 2 * bucket_sizes A ! i)"
proof (induction A rule: bucket_sizes.induct)
  case (1 A)
  note s = bucket_sizes_step [OF 1(2)] and e = area_even [OF 1(2)]
  show ?case
  proof (cases "area_ok (A div 2)")
    case True
    have IH: "(\<forall>i < length (bucket_sizes (A div 2)). 0 < bucket_sizes (A div 2) ! i \<and> bucket_sizes (A div 2) ! i dvd A div 2)
       \<and> (\<forall>i. i + 1 < length (bucket_sizes (A div 2)) \<longrightarrow> bucket_sizes (A div 2) ! (i + 1) = 2 * bucket_sizes (A div 2) ! i)"
      using 1 True by (simp add: area_ok_def)
    have d: "x dvd A" if "x dvd A div 2" for x using that e by (metis dvd_mult)
    have l: "bucket_sizes (A div 2) ! i = A div 2" if "Suc i = length (bucket_sizes (A div 2))" for i
      using last_bucket [OF True] that by (metis diff_Suc_1 last_conv_nth)
    show ?thesis using IH d l e 1(2) by (auto simp: s nth_append area_ok_def less_Suc_eq)
  next
    case False
    then show ?thesis using 1(2) by (simp add: s bucket_sizes_none area_ok_def)
  qed
qed

lemma find_bucket_fits:
  "bs \<noteq> [] \<Longrightarrow> n \<le> last bs \<Longrightarrow> find_bucket_idx bs n < length bs \<and> n \<le> bs ! find_bucket_idx bs n"
  by (induction bs n rule: find_bucket_idx.induct) auto

section \<open>The invariant of the buckets\<close>

definition row_ok :: "nat \<Rightarrow> sample \<Rightarrow> bool" where
  "row_ok b s \<longleftrightarrow> aligned (sample_len s) s \<and> sample_len s \<le> b"

text \<open>Between two samples every bucket is below the area and holds samples that fit its rows.\<close>

definition stack_ok :: "nat \<Rightarrow> stack_state \<Rightarrow> bool" where
  "stack_ok A s \<longleftrightarrow> sk_yielding s = None \<and> length (sk_buckets s) = length (bucket_sizes A) \<and> length (sk_timers s) = length (bucket_sizes A)
     \<and> (\<forall>i < length (bucket_sizes A). bucket_sizes A ! i * length (sk_buckets s ! i) < A \<and> (\<forall>r \<in> set (sk_buckets s ! i). row_ok (bucket_sizes A ! i) r))"

text \<open>The rows of a pack, field by field, and its area.\<close>

definition padded_rows :: "nat \<Rightarrow> sample list \<Rightarrow> stack_pack" where
  "padded_rows b rows = (if rows = [] then [] else map (\<lambda>k. (k, map (\<lambda>r. pad_to b (the (dget r k))) rows)) sample_fields)"

lemma pack_rows_aligned:
  "\<forall>r \<in> set rows. \<exists>n. aligned n r \<Longrightarrow> pack_rows b rows = padded_rows b rows"
proof (induction rows rule: rev_induct)
  case Nil
  show ?case by (simp add: pack_rows_def padded_rows_def)
next
  case (snoc r rows)
  obtain n where n: "aligned n r" using snoc.prems by auto
  obtain f where f: "r = map (\<lambda>k. (k, f k)) sample_fields" using n by (rule alignedE)
  have "pack_rows b (rows @ [r]) = add_row b (padded_rows b rows) r" using snoc by (simp add: pack_rows_def)
  also have "\<dots> = padded_rows b (rows @ [r])"
    by (cases "rows = []") (simp_all add: f padded_rows_def add_row_def sample_fields_def)
  finally show ?case .
qed

definition pack_ok :: "nat \<Rightarrow> stack_pack \<Rightarrow> bool" where
  "pack_ok A p \<longleftrightarrow> dkeys p = sample_fields \<and> (\<exists>b n. b * n = A \<and> 0 < n \<and> (\<forall>rows \<in> snd ` set p. length rows = n \<and> (\<forall>r \<in> set rows. length r = b)))"

lemma length_pad_to [simp]: "length v \<le> b \<Longrightarrow> length (pad_to b v) = b"
  by (simp add: pad_to_def)

lemma row_ok_field:
  assumes "row_ok b r" and "k \<in> set sample_fields" shows "length (the (dget r k)) = sample_len r" "sample_len r \<le> b"
proof -
  have a: "aligned (sample_len r) r" using assms(1) by (simp add: row_ok_def)
  obtain f where f: "r = map (\<lambda>k. (k, f k)) sample_fields" "\<forall>k \<in> set sample_fields. length (f k) = sample_len r"
    using a by (rule alignedE)
  have "dget r k = Some (f k)" by (subst f(1)) (rule dget_fields [OF assms(2)])
  then show "length (the (dget r k)) = sample_len r" using f(2) assms(2) by simp
  show "sample_len r \<le> b" using assms(1) by (simp add: row_ok_def)
qed

lemma pack_ok_rows:
  assumes "\<forall>r \<in> set rows. row_ok b r" and "rows \<noteq> []" and "b * length rows = A"
  shows "pack_ok A (pack_rows b rows)"
proof -
  have "pack_rows b rows = padded_rows b rows" using assms(1) by (intro pack_rows_aligned) (auto simp: row_ok_def)
  moreover have "length (pad_to b (the (dget r k))) = b" if "r \<in> set rows" "k \<in> set sample_fields" for r k
    using row_ok_field [of b r k] assms(1) that by (simp del: length_pad_to) (simp add: pad_to_def)
  ultimately show ?thesis using assms(2,3)
    unfolding pack_ok_def
    by (intro conjI exI [of _ b] exI [of _ "length rows"]) (auto simp: padded_rows_def comp_def)
qed

text \<open>Areas: bucket sizes divide the area, so the first row that reaches it meets it.\<close>

lemma area_met:
  assumes "area_ok A" and "i < length (bucket_sizes A)" and "bucket_sizes A ! i * n < A"
  shows "bucket_sizes A ! i * Suc n \<le> A"
proof -
  obtain k where k: "A = bucket_sizes A ! i * k" using bucket_sizes_props [OF assms(1)] assms(2) by (meson dvdE)
  then have "n < k" using assms(3) by (metis mult_less_cancel1)
  then show ?thesis by (subst k) (intro mult_le_mono2, simp)
qed

lemma dummy_row: "aligned n s \<Longrightarrow> 0 < b \<Longrightarrow> row_ok b (dummy_sample s)"
proof -
  assume n: "aligned n s" and b: "0 < b"
  obtain f where f: "s = map (\<lambda>k. (k, f k)) sample_fields" using n by (rule alignedE)
  have "dummy_sample s = map (\<lambda>k. (k, [0])) sample_fields" by (simp add: f dummy_sample_def)
  then have "aligned 1 (dummy_sample s)" by (simp add: aligned_map)
  then show "row_ok b (dummy_sample s)" using aligned_input [of 1 "dummy_sample s"] b by (simp add: row_ok_def)
qed

lemma fill_bucket_eq:
  "0 < b \<Longrightarrow> length rows \<le> k \<Longrightarrow> fill_bucket b (b * k) d rows = rows @ replicate (k - length rows) d"
proof (induction "k - length rows" arbitrary: rows)
  case 0
  then show ?case by (subst fill_bucket.simps) simp
next
  case (Suc m)
  then have "fill_bucket b (b * k) d (rows @ [d]) = (rows @ [d]) @ replicate (k - length (rows @ [d])) d" by simp
  moreover have "k - length rows = Suc (k - length (rows @ [d]))" using Suc(2) by simp
  ultimately show ?case using Suc by (subst fill_bucket.simps) simp
qed

lemma fill_bucket_spec:
  assumes "area_ok A" and "i < length (bucket_sizes A)" and "bucket_sizes A ! i * length rows \<le> A"
  shows "\<exists>m. fill_bucket (bucket_sizes A ! i) A d rows = rows @ replicate m d \<and> bucket_sizes A ! i * (length rows + m) = A"
proof -
  let ?b = "bucket_sizes A ! i"
  have b: "0 < ?b" "?b dvd A" using bucket_sizes_props [OF assms(1)] assms(2) by auto
  then obtain k where k: "A = ?b * k" by (meson dvdE)
  then have "length rows \<le> k" using assms(3) b(1) by (metis mult_le_cancel1)
  then show ?thesis using fill_bucket_eq [OF b(1), of rows k d] k [symmetric] by (intro exI [of _ "k - length rows"]) simp
qed

section \<open>One sample\<close>

text \<open>The trained tokens of a row: each with the tokens and positions up to it, and its target. Below a bound on
  their places they are those of the row cut there.\<close>

type_synonym trained_tokens = "(int list \<times> int list \<times> int) multiset"

definition trained_until :: "nat \<Rightarrow> int list \<Rightarrow> int list \<Rightarrow> int list \<Rightarrow> int list \<Rightarrow> trained_tokens" where
  "trained_until n inputs targets masks positions =
     mset (map (\<lambda>i. (take (Suc i) inputs, take (Suc i) positions, targets ! i)) (filter (\<lambda>i. masks ! i \<noteq> 0) [0..<n]))"

definition trained_within :: "nat \<Rightarrow> sample \<Rightarrow> trained_tokens" where
  "trained_within n s = trained_until (min n (sample_len s)) (the (dget s ''input_ids'')) (the (dget s ''target_ids''))
     (the (dget s ''loss_mask'')) (the (dget s ''position_ids''))"

definition trained_of :: "sample \<Rightarrow> trained_tokens" where
  "trained_of s = trained_within (sample_len s) s"

definition pack_trained :: "stack_pack \<Rightarrow> trained_tokens" where
  "pack_trained p = (\<Sum>j \<leftarrow> [0..<length (the (dget p ''input_ids''))]. trained_until (length (the (dget p ''input_ids'') ! j))
     (the (dget p ''input_ids'') ! j) (the (dget p ''target_ids'') ! j) (the (dget p ''loss_mask'') ! j) (the (dget p ''position_ids'') ! j))"

definition held_trained :: "stack_state \<Rightarrow> trained_tokens" where
  "held_trained s = (\<Sum>rows \<leftarrow> sk_buckets s. \<Sum>r \<leftarrow> rows. trained_of r)"

lemma trained_until_take:
  assumes "n \<le> a" and "n \<le> length ys" and "n \<le> length ms"
  shows "trained_until n (take a xs) (take a ys) (take a ms) (take a ps) = trained_until n xs ys ms ps"
proof -
  have "filter (\<lambda>i. take a ms ! i \<noteq> 0) [0..<n] = filter (\<lambda>i. ms ! i \<noteq> 0) [0..<n]"
    using assms(1) by (intro filter_cong) auto
  then show ?thesis using assms(1) unfolding trained_until_def by (intro arg_cong [where f = mset] map_cong) (auto simp: min_def)
qed

lemma trained_until_pad:
  assumes "length xs = n" and "length ys = n" and "length ms = n" and "length ps = n" and "n \<le> b"
  shows "trained_until b (pad_to b xs) (pad_to b ys) (pad_to b ms) (pad_to b ps) = trained_until n xs ys ms ps"
proof -
  have "[0..<b] = [0..<n] @ [n..<b]" using upt_add_eq_append [of 0 n "b - n"] assms(5) by simp
  moreover have "filter (\<lambda>i. pad_to b ms ! i \<noteq> 0) [n..<b] = []" using assms(3) by (auto simp: filter_empty_conv pad_to_def nth_append)
  moreover have "filter (\<lambda>i. pad_to b ms ! i \<noteq> 0) [0..<n] = filter (\<lambda>i. ms ! i \<noteq> 0) [0..<n]"
    using assms(3) by (intro filter_cong) (auto simp: pad_to_def nth_append)
  ultimately have "filter (\<lambda>i. pad_to b ms ! i \<noteq> 0) [0..<b] = filter (\<lambda>i. ms ! i \<noteq> 0) [0..<n]" by simp
  then show ?thesis using assms(1,2,4) unfolding trained_until_def
    by (intro arg_cong [where f = mset] map_cong) (auto simp: pad_to_def nth_append)
qed

text \<open>While a sample is placed, one bucket may meet the area.\<close>

definition placing :: "nat \<Rightarrow> nat \<Rightarrow> stack_state \<Rightarrow> bool" where
  "placing A i s \<longleftrightarrow> i < length (bucket_sizes A) \<and> sk_buckets s ! i \<noteq> [] \<and> sk_yielding s = None
     \<and> length (sk_buckets s) = length (bucket_sizes A) \<and> length (sk_timers s) = length (bucket_sizes A)
     \<and> (\<forall>j < length (bucket_sizes A). bucket_sizes A ! j * length (sk_buckets s ! j) \<le> A
          \<and> (j \<noteq> i \<longrightarrow> bucket_sizes A ! j * length (sk_buckets s ! j) < A) \<and> (\<forall>r \<in> set (sk_buckets s ! j). row_ok (bucket_sizes A ! j) r))"

lemma sum_list_none [simp]: "sum_list (replicate n {#}) = {#}"
  by (induction n) simp_all

lemma sum_list_upd: "i < length xs \<Longrightarrow> sum_list (xs[i := v]) + xs ! i = sum_list xs + (v :: 'a :: comm_monoid_add)"
  by (induction xs arbitrary: i) (auto simp: add_ac split: nat.split)

lemma held_update:
  assumes "i < length (sk_buckets s)"
  shows "(\<Sum>rows \<leftarrow> (sk_buckets s)[i := rows']. \<Sum>r \<leftarrow> rows. trained_of r) + (\<Sum>r \<leftarrow> sk_buckets s ! i. trained_of r)
    = held_trained s + (\<Sum>r \<leftarrow> rows'. trained_of r)"
  using assms sum_list_upd [of i "map (\<lambda>rows. \<Sum>r \<leftarrow> rows. trained_of r) (sk_buckets s)" "\<Sum>r \<leftarrow> rows'. trained_of r"]
  by (simp add: held_trained_def map_update)

lemma row_ok_mono: "row_ok b r \<Longrightarrow> b \<le> b' \<Longrightarrow> row_ok b' r"
  by (simp add: row_ok_def)

lemma move_step:
  assumes "area_ok A" and "placing A i s" and "i < length (sk_buckets s) - 1"
    and "bucket_sizes A ! (i + 1) * (length (sk_buckets s ! i) + length (sk_buckets s ! (i + 1))) < A"
  defines "t \<equiv> s\<lparr>sk_buckets := (sk_buckets s)[i + 1 := sk_buckets s ! (i + 1) @ sk_buckets s ! i, i := []], sk_timers := (sk_timers s)[i := None]\<rparr>"
  shows "placing A (i + 1) t \<and> held_trained t = held_trained s"
proof -
  have A: "0 < A" using assms(1) by (simp add: area_ok_def)
  have i: "i + 1 < length (bucket_sizes A)" using assms(2,3) by (auto simp: placing_def)
  have "row_ok (bucket_sizes A ! (i + 1)) r" if "r \<in> set (sk_buckets s ! i)" for r
    using row_ok_mono [of "bucket_sizes A ! i" r] bucket_sizes_props [OF assms(1)] assms(2) i that by (auto simp: placing_def)
  then have p: "placing A (i + 1) t"
    using assms(2,4) i A by (auto simp: placing_def t_def nth_list_update add.commute)
  have l: "i < length (sk_buckets s)" "i + 1 < length (sk_buckets s)" using assms(2) i by (auto simp: placing_def)
  let ?u = "s\<lparr>sk_buckets := (sk_buckets s)[i + 1 := sk_buckets s ! (i + 1) @ sk_buckets s ! i]\<rparr>"
  have "held_trained ?u + (\<Sum>r \<leftarrow> sk_buckets s ! (i + 1). trained_of r)
      = held_trained s + (\<Sum>r \<leftarrow> sk_buckets s ! (i + 1). trained_of r) + (\<Sum>r \<leftarrow> sk_buckets s ! i. trained_of r)"
    using held_update [OF l(2)] by (simp add: held_trained_def add_ac)
  then have "held_trained ?u = held_trained s + (\<Sum>r \<leftarrow> sk_buckets s ! i. trained_of r)" by (simp add: add_ac)
  moreover have "held_trained t + (\<Sum>r \<leftarrow> sk_buckets s ! i. trained_of r) = held_trained ?u"
    using held_update [of i ?u "[]"] l by (simp add: t_def held_trained_def)
  ultimately have "held_trained t = held_trained s" by simp
  then show ?thesis using p by simp
qed

lemma move_up_spec:
  assumes "area_ok A" and "sizes = bucket_sizes A" and "placing A i s"
  shows "placing A (snd (move_up sizes A i s)) (fst (move_up sizes A i s)) \<and> held_trained (fst (move_up sizes A i s)) = held_trained s"
  using assms
proof (induction sizes A i s rule: move_up.induct)
  case (1 sizes A i s)
  show ?case
  proof (cases "i < length (sk_buckets s) - 1
         \<and> sizes ! (i + 1) * (length (sk_buckets s ! i) + length (sk_buckets s ! (i + 1))) < A")
    case True
    then show ?thesis using 1(1) [OF True 1(2,3)] move_step [OF 1(2,4)] 1(3)
      by (subst (1 2 3) move_up.simps) simp
  next
    case False
    then show ?thesis using 1(4) by (subst (1 2 3) move_up.simps) (simp add: if_not_P)
  qed
qed

lemma pack_trained_rows:
  assumes "\<forall>r \<in> set rows. row_ok b r" shows "rows \<noteq> [] \<Longrightarrow> pack_trained (pack_rows b rows) = (\<Sum>r \<leftarrow> rows. trained_of r)"
proof -
  assume ne: "rows \<noteq> []"
  have eq: "pack_rows b rows = padded_rows b rows" using assms by (intro pack_rows_aligned) (auto simp: row_ok_def)
  let ?pad = "\<lambda>r k. pad_to b (the (dget r k))"
  have row: "trained_until (length (?pad r ''input_ids'')) (?pad r ''input_ids'') (?pad r ''target_ids'') (?pad r ''loss_mask'') (?pad r ''position_ids'')
      = trained_of r" if r: "r \<in> set rows" for r
  proof -
    have l: "k \<in> set sample_fields \<Longrightarrow> length (the (dget r k)) = sample_len r" "sample_len r \<le> b" for k
      using row_ok_field [of b r k] row_ok_field(2) [of b r "''input_ids''"] assms r by (auto simp: sample_fields_def)
    then show ?thesis using trained_until_pad [of "the (dget r ''input_ids'')" "sample_len r"]
      by (simp add: trained_of_def trained_within_def sample_fields_def)
  qed
  have "pack_trained (pack_rows b rows) = (\<Sum>j \<leftarrow> [0..<length rows]. trained_of (rows ! j))"
    unfolding eq pack_trained_def using ne row
    by (intro arg_cong [where f = sum_list]) (simp add: padded_rows_def sample_fields_def)
  also have "map (\<lambda>j. trained_of (rows ! j)) [0..<length rows] = map trained_of rows" by (intro nth_equalityI) simp_all
  finally show "pack_trained (pack_rows b rows) = (\<Sum>r \<leftarrow> rows. trained_of r)" .
qed

text \<open>Suspended at the \<open>yield\<close> of a batch.\<close>

definition suspended :: "nat \<Rightarrow> stack_state \<Rightarrow> stack_pack \<Rightarrow> bool" where
  "suspended A t q \<longleftrightarrow> (\<exists>j. sk_yielding t = Some j \<and> j < length (sk_buckets t) \<and> length (sk_buckets t) = length (bucket_sizes A)
     \<and> bucket_sizes A ! j * length (sk_buckets t ! j) = A \<and> q = pack_rows (bucket_sizes A ! j) (sk_buckets t ! j))"

lemma flush_spec:
  assumes "area_ok A" and "placing A i s" and "\<not> hit \<Longrightarrow> A \<le> bucket_sizes A ! i * length (sk_buckets s ! i)" and "aligned n x"
    and "flush_bucket (bucket_sizes A) A hit x i s = (t, p)"
  shows "stack_ok A (after_yield t) \<and> (\<exists>q. p = Some q \<and> pack_ok A q \<and> suspended A t q \<and> held_trained (after_yield t) + pack_trained q = held_trained s)"
proof -
  define u where "u = (if hit then fst (move_up (bucket_sizes A) A i s) else s)"
  define j where "j = (if hit then snd (move_up (bucket_sizes A) A i s) else i)"
  define rows where "rows = (if hit then fill_bucket (bucket_sizes A ! j) A (dummy_sample x) (sk_buckets u ! j) else sk_buckets u ! j)"
  have u: "placing A j u" "held_trained u = held_trained s"
    using move_up_spec [OF assms(1) refl assms(2)] assms(2) by (auto simp: u_def j_def)
  have t: "t = u\<lparr>sk_buckets := (sk_buckets u)[j := rows], sk_yielding := Some j\<rparr>" "p = Some (pack_rows (bucket_sizes A ! j) rows)"
    using assms(5) by (auto simp: flush_bucket_def u_def j_def rows_def split_beta Let_def)
  let ?b = "bucket_sizes A ! j"
  have j: "j < length (bucket_sizes A)" "j < length (sk_buckets u)" and b: "0 < ?b"
    using u(1) bucket_sizes_props [OF assms(1)] by (auto simp: placing_def)
  have bnd: "?b * length (sk_buckets u ! j) \<le> A" using u(1) j by (simp add: placing_def)
  obtain m where m: "rows = sk_buckets u ! j @ replicate m (dummy_sample x)" "?b * length rows = A"
  proof (cases hit)
    case True
    then show ?thesis using fill_bucket_spec [OF assms(1) j(1) bnd, of "dummy_sample x"] that by (auto simp: rows_def)
  next
    case False
    then show ?thesis using assms(3) bnd that [of 0] by (auto simp: rows_def j_def u_def)
  qed
  have ok: "\<forall>r \<in> set rows. row_ok ?b r" and ne: "rows \<noteq> []"
    using u(1) j m(1) dummy_row [OF assms(4) b] by (auto simp: placing_def)
  have "trained_of (dummy_sample x) = {#}"
  proof -
    obtain f where "x = map (\<lambda>k. (k, f k)) sample_fields" using assms(4) by (rule alignedE)
    then show ?thesis by (simp add: trained_of_def trained_within_def trained_until_def dummy_sample_def sample_fields_def sample_len_def)
  qed
  then have l: "pack_trained (pack_rows ?b rows) = (\<Sum>r \<leftarrow> sk_buckets u ! j. trained_of r)"
    using pack_trained_rows [OF ok ne] by (simp add: m(1) sum_list_replicate)
  have a: "after_yield t = u\<lparr>sk_step := sk_step u + 1, sk_buckets := (sk_buckets u)[j := []], sk_timers := (sk_timers u)[j := None], sk_yielding := None\<rparr>"
    by (simp add: t(1) after_yield_def)
  have A: "0 < A" using assms(1) by (simp add: area_ok_def)
  have "stack_ok A (after_yield t)" using u(1) A by (auto simp: a stack_ok_def placing_def nth_list_update)
  moreover have "held_trained (after_yield t) + (\<Sum>r \<leftarrow> sk_buckets u ! j. trained_of r) = held_trained u"
    using held_update [OF j(2), of "[]"] by (simp add: a held_trained_def)
  moreover have "suspended A t (pack_rows ?b rows)" using u(1) j m(2) by (simp add: suspended_def t(1) placing_def)
  ultimately show ?thesis using u(2) l pack_ok_rows [OF ok ne m(2)] t(2) by simp
qed

lemma truncated_aligned:
  assumes "aligned n x" shows "aligned (min n A) (truncate_sample A x)"
proof -
  obtain f where f: "x = map (\<lambda>k. (k, f k)) sample_fields" "\<forall>k \<in> set sample_fields. length (f k) = n"
    using assms by (rule alignedE)
  have "truncate_sample A x = map (\<lambda>k. (k, take A (f k))) sample_fields" by (simp add: f(1) truncate_sample_def)
  then show ?thesis using f(2) by (simp add: aligned_map)
qed

lemma trained_truncated:
  assumes "aligned n x" shows "trained_of (truncate_sample A x) = trained_within A x"
proof -
  obtain f where f: "x = map (\<lambda>k. (k, f k)) sample_fields" "\<forall>k \<in> set sample_fields. length (f k) = n"
    using assms by (rule alignedE)
  have "truncate_sample A x = map (\<lambda>k. (k, take A (f k))) sample_fields" by (simp add: f(1) truncate_sample_def)
  then show ?thesis using f trained_until_take [of "min A n" A "f ''target_ids''" "f ''loss_mask''" "f ''input_ids''" "f ''position_ids''"]
    by (simp add: trained_of_def trained_within_def sample_len_def sample_fields_def min.commute)
qed

definition fitted :: "nat \<Rightarrow> sample \<Rightarrow> sample" where
  "fitted A x = (if A < sample_len x then truncate_sample A x else x)"

lemma trained_fitted: "aligned n x \<Longrightarrow> trained_of (fitted A x) = trained_within A x"
  by (simp add: fitted_def trained_truncated) (simp add: trained_of_def trained_within_def min_def)

lemma stack_add_eq:
  assumes "aligned n x" and "s = after_yield s0" and "i = find_bucket_idx (bucket_sizes A) (min n A)"
    and "u = s\<lparr>sk_buckets := (sk_buckets s)[i := sk_buckets s ! i @ [fitted A x]]\<rparr>"
  obtains hit where "stack_add A x s0 = Inr (if A \<le> bucket_sizes A ! i * length (sk_buckets u ! i) \<or> hit
      then flush_bucket (bucket_sizes A) A hit (fitted A x) i u else (start_timer i u, None))"
proof -
  define hit where "hit = (case sk_timers u ! i of None \<Rightarrow> False | Some timer \<Rightarrow> timer + bucket_timeout < sk_step u)"
  have n: "input_ids x = Inr (the (dget x ''input_ids''))" "sample_len x = n" using aligned_input [OF assms(1)] by auto
  then have ln: "length (the (dget x ''input_ids'')) = n" by (simp add: sample_len_def)
  have "stack_add A x s0 = Inr (if A \<le> bucket_sizes A ! i * length (sk_buckets u ! i) \<or> hit
      then flush_bucket (bucket_sizes A) A hit (fitted A x) i u else (start_timer i u, None))"
    unfolding stack_add_def n(1) Let_def bindR.simps ln assms(2) [symmetric] assms(3) [symmetric]
      fitted_def [of A x, unfolded n(2), symmetric] assms(4) [symmetric] hit_def [symmetric]
    by (rule refl)
  then show ?thesis by (rule that)
qed

lemma stack_add_spec:
  assumes "area_ok A" and "stack_ok A (after_yield s0)" and "aligned n x" and "stack_add A x s0 = Inr (t, p)"
  shows "stack_ok A (after_yield t) \<and> (\<forall>q. p = Some q \<longrightarrow> pack_ok A q \<and> suspended A t q)
    \<and> held_trained (after_yield t) + (case p of None \<Rightarrow> 0 | Some q \<Rightarrow> pack_trained q) = held_trained (after_yield s0) + trained_within A x"
proof -
  define s where "s = after_yield s0"
  define y where "y = fitted A x"
  define i where "i = find_bucket_idx (bucket_sizes A) (min n A)"
  define u where "u = s\<lparr>sk_buckets := (sk_buckets s)[i := sk_buckets s ! i @ [y]]\<rparr>"
  have n: "input_ids x = Inr (the (dget x ''input_ids''))" "sample_len x = n" using aligned_input [OF assms(3)] by auto
  have y: "aligned (min n A) y"
    using truncated_aligned [OF assms(3), of A] assms(3) by (auto simp: y_def fitted_def n(2) min_def)
  have i: "i < length (bucket_sizes A)" "min n A \<le> bucket_sizes A ! i"
    using find_bucket_fits [of "bucket_sizes A" "min n A"] last_bucket [OF assms(1)] by (auto simp: i_def)
  have s: "stack_ok A s" using assms(2) by (simp add: s_def)
  have row: "row_ok (bucket_sizes A ! i) y" using y i(2) aligned_input [OF y] by (simp add: row_ok_def)
  have "bucket_sizes A ! i * Suc (length (sk_buckets s ! i)) \<le> A"
    using area_met [OF assms(1) i(1)] s i(1) by (simp add: stack_ok_def)
  then have pl: "placing A i u" using s i(1) row by (auto simp: stack_ok_def placing_def u_def nth_list_update less_imp_le)
  have "held_trained u + (\<Sum>r \<leftarrow> sk_buckets s ! i. trained_of r) = held_trained s + trained_of y + (\<Sum>r \<leftarrow> sk_buckets s ! i. trained_of r)"
    using held_update [of i s "sk_buckets s ! i @ [y]"] s i(1) by (simp add: u_def held_trained_def stack_ok_def add_ac)
  then have h: "held_trained u = held_trained s + trained_within A x"
    using trained_fitted [OF assms(3), of A] by (simp add: y_def)
  have u': "u = s\<lparr>sk_buckets := (sk_buckets s)[i := sk_buckets s ! i @ [fitted A x]]\<rparr>" by (simp add: u_def y_def)
  obtain hit where add0: "stack_add A x s0 = Inr (if A \<le> bucket_sizes A ! i * length (sk_buckets u ! i) \<or> hit
      then flush_bucket (bucket_sizes A) A hit (fitted A x) i u else (start_timer i u, None))"
    by (rule stack_add_eq [OF assms(3) s_def i_def u'])
  note add = add0 [folded y_def]
  show ?thesis
  proof (cases "A \<le> bucket_sizes A ! i * length (sk_buckets u ! i) \<or> hit")
    case True
    then have "flush_bucket (bucket_sizes A) A hit y i u = (t, p)" using assms(4) add by simp
    from flush_spec [OF assms(1) pl _ y this] True h show ?thesis by (auto simp: s_def y_def)
  next
    case False
    then have t: "t = start_timer i u" "p = None" using assms(4) add by auto
    have "stack_ok A t" using pl False
      by (auto simp: t start_timer_def placing_def stack_ok_def not_le)
    moreover have "after_yield t = t" using pl by (simp add: t start_timer_def after_yield_def placing_def)
    moreover have "held_trained t = held_trained u" by (simp add: t start_timer_def held_trained_def)
    ultimately show ?thesis using h t(2) by (simp add: s_def y_def)
  qed
qed

section \<open>A run\<close>

primrec stack_run :: "nat \<Rightarrow> sample list \<Rightarrow> stack_state \<Rightarrow> (stack_state \<times> stack_pack list) res" where
  "stack_run A [] s = Inr (s, [])"
| "stack_run A (x # xs) s = bindR (stack_add A x s) (\<lambda>(t, p).
     bindR (stack_run A xs t) (\<lambda>(u, packs). Inr (u, (case p of None \<Rightarrow> packs | Some q \<Rightarrow> q # packs))))"

lemma shift_sums: "(a :: trained_tokens) + P = b + T \<Longrightarrow> a + (p + P) = (b + p) + T"
proof -
  assume e: "a + P = b + T"
  have "a + (p + P) = p + (a + P)" by (rule add.left_commute)
  also have "\<dots> = (b + p) + T" unfolding e by (simp only: add_ac)
  finally show ?thesis .
qed

lemma stack_run_spec:
  assumes "area_ok A" and "\<forall>x \<in> set xs. \<exists>n. aligned n x" and "stack_ok A (after_yield s)"
  shows "\<exists>t packs. stack_run A xs s = Inr (t, packs) \<and> stack_ok A (after_yield t) \<and> (\<forall>q \<in> set packs. pack_ok A q)
    \<and> held_trained (after_yield t) + (\<Sum>q \<leftarrow> packs. pack_trained q) = held_trained (after_yield s) + (\<Sum>x \<leftarrow> xs. trained_within A x)"
  using assms(2,3)
proof (induction xs arbitrary: s)
  case (Cons x xs)
  obtain n where n: "aligned n x" using Cons.prems by auto
  then have "\<exists>t p. stack_add A x s = Inr (t, p)"
    using aligned_input [OF n] by (simp add: stack_add_def Let_def flush_bucket_def split_beta)
  then obtain t p where a: "stack_add A x s = Inr (t, p)" by blast
  note sp = stack_add_spec [OF assms(1) Cons.prems(2) n a]
  then obtain u packs where r: "stack_run A xs t = Inr (u, packs)" "stack_ok A (after_yield u)" "\<forall>q \<in> set packs. pack_ok A q"
    "held_trained (after_yield u) + (\<Sum>q \<leftarrow> packs. pack_trained q) = held_trained (after_yield t) + (\<Sum>x \<leftarrow> xs. trained_within A x)"
    using Cons.IH [of t] Cons.prems(1) by auto
  let ?p = "case p of None \<Rightarrow> {#} | Some q \<Rightarrow> pack_trained q"
  have "held_trained (after_yield u) + (?p + (\<Sum>q \<leftarrow> packs. pack_trained q)) = (held_trained (after_yield t) + ?p) + (\<Sum>x \<leftarrow> xs. trained_within A x)"
    by (rule shift_sums [OF r(4)])
  also have "held_trained (after_yield t) + ?p = held_trained (after_yield s) + trained_within A x" using sp by simp
  finally have "held_trained (after_yield u) + (\<Sum>q \<leftarrow> (case p of None \<Rightarrow> packs | Some q \<Rightarrow> q # packs). pack_trained q)
      = held_trained (after_yield s) + (\<Sum>x \<leftarrow> x # xs. trained_within A x)" by (cases p) (simp_all add: add.assoc)
  then show ?case using a sp r by (cases p) auto
qed simp

text \<open>C33. Stacked batches have the area and lose nothing: from a new data set, every batch has the
  four fields with the same number of rows of one width, their product is the area, and the trained tokens of the batches
  and of the buckets, each with its target and with the tokens and positions it is predicted from, are together those
  of all samples that stand before the area.\<close>

theorem stacked_batches_fill_area:
  assumes "area_ok max_area" and "new_stack max_area = Inr s" and "\<forall>x \<in> set samples. \<exists>example. process_example c example = Inr (Some x)"
  shows "\<exists>t packs. stack_run max_area samples s = Inr (t, packs) \<and> (\<forall>q \<in> set packs. pack_ok max_area q)
    \<and> held_trained (after_yield t) + (\<Sum>q \<leftarrow> packs. pack_trained q) = (\<Sum>x \<leftarrow> samples. trained_within max_area x)"
proof -
  have al: "\<forall>x \<in> set samples. \<exists>n. aligned n x" using assms(3) process_example_aligned by blast
  have "0 < max_area" using assms(1) by (simp add: area_ok_def)
  then have "stack_ok max_area (after_yield s) \<and> held_trained (after_yield s) = 0"
    using assms(2) by (auto simp: new_stack_def res_simps stack_ok_def after_yield_def held_trained_def sum_list_replicate)
  then show ?thesis using stack_run_spec [OF assms(1) al] by fastforce
qed

section \<open>Checkpoints\<close>

text \<open>A checkpoint is taken while the generator is suspended at a \<open>yield\<close>, before the bucket is emptied: the restored
  data set still holds the rows of the batch.\<close>

lemma restored_stack_keeps_rows:
  assumes "suspended A t q" and "sk_yielding t = Some j"
  shows "sk_buckets (after_yield (stack_load_state_dict (stack_state_dict t))) ! j = sk_buckets t ! j" and "sk_buckets (after_yield t) ! j = []"
  using assms by (auto simp: suspended_def stack_load_state_dict_def stack_state_dict_def after_yield_def)

text \<open>The next sample of that bucket is yielded together with the rows of the batch, in a batch with one row more than
  the area has.\<close>

lemma restored_stack_repeats_batch:
  assumes "area_ok A" and "suspended A t q" and "sk_yielding t = Some j" and "aligned n x" and "find_bucket_idx (bucket_sizes A) (min n A) = j"
  shows "\<exists>u. stack_add A x (stack_load_state_dict (stack_state_dict t))
    = Inr (u, Some (pack_rows (bucket_sizes A ! j) (sk_buckets t ! j @ [fitted A x])))"
proof -
  define s where "s = stack_load_state_dict (stack_state_dict t)"
  have s: "after_yield s = s" "sk_buckets s = sk_buckets t"
    by (simp_all add: s_def stack_load_state_dict_def stack_state_dict_def after_yield_def)
  define v where "v = s\<lparr>sk_buckets := (sk_buckets s)[j := sk_buckets s ! j @ [fitted A x]]\<rparr>"
  have j: "j < length (sk_buckets v)" "length (sk_buckets v) = length (bucket_sizes A)" "j < length (sk_buckets s)"
    and area: "bucket_sizes A ! j * length (sk_buckets t ! j) = A"
    using assms(2,3) by (auto simp: suspended_def v_def s)
  have v: "sk_buckets v ! j = sk_buckets t ! j @ [fitted A x]" using j by (simp add: v_def s)
  have full: "A \<le> bucket_sizes A ! j * length (sk_buckets v ! j)" using area by (simp add: v)
  have stay: "move_up (bucket_sizes A) A j v = (v, j)"
  proof (subst move_up.simps, subst if_not_P)
    show "\<not> (j < length (sk_buckets v) - 1
        \<and> bucket_sizes A ! (j + 1) * (length (sk_buckets v ! j) + length (sk_buckets v ! (j + 1))) < A)"
    proof
      assume h: "j < length (sk_buckets v) - 1 \<and> bucket_sizes A ! (j + 1) * (length (sk_buckets v ! j) + length (sk_buckets v ! (j + 1))) < A"
      then have "bucket_sizes A ! (j + 1) = 2 * bucket_sizes A ! j" using bucket_sizes_props [OF assms(1)] j(2) by auto
      then have "bucket_sizes A ! j * length (sk_buckets v ! j) \<le> bucket_sizes A ! (j + 1) * (length (sk_buckets v ! j) + length (sk_buckets v ! (j + 1)))"
        by (simp add: algebra_simps)
      then show False using h full by linarith
    qed
  qed simp
  have fill: "fill_bucket (bucket_sizes A ! j) A d (sk_buckets v ! j) = sk_buckets v ! j" for d
    using full by (subst fill_bucket.simps) simp
  have upd: "(sk_buckets v)[j := sk_buckets v ! j] = sk_buckets v" by simp
  obtain hit where "stack_add A x s = Inr (if A \<le> bucket_sizes A ! j * length (sk_buckets v ! j) \<or> hit
      then flush_bucket (bucket_sizes A) A hit (fitted A x) j v else (start_timer j v, None))"
    by (rule stack_add_eq [OF assms(4) s(1) [symmetric] assms(5) [symmetric] v_def])
  then show ?thesis using full by (simp add: flush_bucket_def stay fill [unfolded v] v Let_def flip: s_def)
qed

definition demo_stack :: stack_state where
  "demo_stack = \<lparr>sk_step = 0, sk_buckets = [[]], sk_timers = [None], sk_yielding = None\<rparr>"

theorem stacked_batches_fill_area_witness:
  "\<exists>t packs. stack_run 256 [training_sample_of [1, 5] [5, 2] [True, True]] demo_stack = Inr (t, packs) \<and> (\<forall>q \<in> set packs. pack_ok 256 q)
    \<and> held_trained (after_yield t) + (\<Sum>q \<leftarrow> packs. pack_trained q) = {#([1], [0], 5), ([1, 5], [0, 1], 2)#}"
proof -
  define c where "c = \<lparr>sc_tokenizer = \<lparr>tk_eos_token_id = 2, tk_template = (\<lambda>ms _. Inr (if ms = [] then [] else [1, 5, 2])), tk_loads = (\<lambda>_. JInvalid)\<rparr>,
    sc_renderer = None, sc_loss_mask = \<lparr>lm_system = False, lm_user = False, lm_assistant = True, lm_tool = False\<rparr>, sc_seq_len = 4\<rparr>"
  have p: "process_example c [(''messages'', JList [JStr ''a''])] = Inr (Some (training_sample_of [1, 5] [5, 2] [True, True]))"
    unfolding c_def by code_simp
  have b: "bucket_sizes 256 = [256]" by (simp add: bucket_sizes_step bucket_sizes_none area_ok_def)
  have f: "(\<Sum>x \<leftarrow> [training_sample_of [1, 5] [5, 2] [True, True]]. trained_within 256 x) = {#([1], [0], 5), ([1, 5], [0, 1], 2)#}" by code_simp
  have "new_stack 256 = Inr demo_stack" by (simp add: new_stack_def b demo_stack_def)
  then show ?thesis
    using stacked_batches_fill_area [of 256 demo_stack "[training_sample_of [1, 5] [5, 2] [True, True]]" c] p f by (auto simp: area_ok_def)
qed

end
