(* ===== verification/Spec2Isabelle.thy ===== *)
theory Spec2Isabelle
  imports BroadcastChain Nccl StageProofs StageSafety Orchestrator BufferResume SchedulerRun PolicyProofs ClientStream PoolProofs SftEpochs SftStack
begin

text \<open>
  A verification library for prime-rl: the asynchronous RL trainer whose orchestrators send
  training samples to a trainer, whose trainer sends sparse weight updates to vLLM workers, and
  whose inference servers stage, commit and reload those weights. Source paths are below
  \<open>src/src/prime_rl/\<close>.

  How the parts interact. An orchestrator per run draws examples from its buffer, keeps rollout requests in
  flight and collects whole groups into a batch while it follows the checkpoints the trainer broadcasts (Buffer,
  Scheduler, PolicyUpdate); it turns the rollouts into training samples (Rollout, Trajectory) and writes
  training batches (Transport); the packer
  receives and validates them, selects samples for a step over all runs and turns them into a
  grid of micro batches, one row per trainer rank (Packer, Batch); the run manager discovers runs and keeps
  the ranks in agreement (Runs). After a step the trainer compares the new checkpoint with the old one and
  streams the difference to a file (DeltaExtract, DeltaNames, DeltaStream, IndexCodec); the file is
  uploaded to the inference server, which stages it, relays it to its peers and commits it under a lock
  (StageServer, StageHandlers); each worker maps the logical updates to its shards and writes them
  into its parameters (WeightLayout, DeltaApply). The theorem of this theory composes the weight
  path from the trainer to the worker.

  Theories, the code they model, and what their lemmas show:
  \<^item> Prelude: exceptions as values (\<open>res\<close> is \<open>pyerr + 'a\<close>), \<open>bindR\<close>, \<open>mapR\<close>, \<open>foldR\<close>, insertion-ordered
    dictionaries, Python string idioms, and the automation for them.
  \<^item> Tensor: a tensor is dtype, shape and elements in row-major order; \<open>torch_ops\<close> collects the torch
    arithmetic as parameters and \<open>torch_ok\<close> the documented facts about it.
  \<^item> IndexCodec (\<open>utils/delta.py\<close>): the two index encodings with their unchecked numba loops, and both
    decoders: round trip, no write outside the buffer, where the decoders agree and where not.
  \<^item> DeltaStream (\<open>utils/delta.py\<close>): the streaming file, its writer and reader: a written record is read
    back, a cut file yields a prefix of the records.
  \<^item> DeltaNames (\<open>utils/delta.py\<close>): fused parts, tied heads, streaming order, flush groups.
  \<^item> DeltaExtract (\<open>utils/delta.py\<close>): extraction, the one-shot store and the stream, reconstruction and
    the verifier: extraction followed by reconstruction gives the target.
  \<^item> WeightLayout (\<open>inference/vllm/worker/weight_layout.py\<close>): logical tensors to tensor-parallel shards.
    What a shard holds is said in slices (\<open>narrow\<close>, \<open>holds_window\<close>), not by the indices the code computes.
  \<^item> DeltaApply (\<open>inference/vllm/worker/weight_transfer.py\<close>): applying updates and files, expert maps.
  \<^item> StageServer, StageHandlers (\<open>inference/vllm/server.py\<close>): the state of the server, every handler of
    the staging API, and the step relation \<open>server_step\<close> in which handlers interleave at their awaits.
  \<^item> StageProofs, StageSafety: uploads reassemble the file, and the invariants of the reachable states.
  \<^item> Batch (\<open>transport/types.py\<close>, \<open>trainer/batch.py\<close>): samples, micro batches, packing, padding, the grid;
    BatchProofs: packing moves whole samples and conserves the tokens of the loss.
  \<^item> Runs (\<open>trainer/runs.py\<close>): run directories, the manager, discovery, eviction, synchronisation,
    after which a rank has the run data of the master.
  \<^item> Transport (\<open>transport/filesystem.py\<close>, \<open>transport/zmq.py\<close>): the senders and receivers; what the packer
    needs of a receiver is the locale \<open>batch_receiver\<close>, interpreted for both.
  \<^item> Packer, PackerProofs (\<open>trainer/rl/packer.py\<close>): buffering, validation, round-robin selection,
    progress, sending.
  \<^item> Rollout (\<open>orchestrator/vf_utils.py\<close>, \<open>orchestrator/advantage.py\<close>, \<open>orchestrator/filters.py\<close>): rollouts,
    their lengths, the advantages of a group and the filters.
  \<^item> Trajectory (\<open>orchestrator/trajectories.py\<close>, the step of \<open>orchestrator/orchestrator.py\<close>): the steps of a
    rollout become training samples. TrajectoryProofs: every step ends up in one sample, whose masks are
    those of its steps. TrajectoryRouted: routed experts stay aligned with the tokens.
  \<^item> Orchestrator: the training batch of a step, with the log-probabilities of a teacher whose server scores every token
    of a prompt (\<open>scores_prompts\<close>), passes the validation of the packer; batches are never empty; advantages go to their own group.
  \<^item> Buffer (\<open>orchestrator/buffer.py\<close>): pools of examples, waiting rollouts, checkpoints. BufferProofs: no example
    is lost or doubled. BufferResume: a saved buffer is restored.
  \<^item> Scheduler (\<open>orchestrator/scheduler.py\<close>): requests, groups, clients and finished tasks;
    SchedulerProofs: the invariant of its state, and that the loop which fills the capacity returns.
    SchedulerRun: \<open>generate_batch\<close> and the policy task as the step relation \<open>gen_step\<close>: rollouts are accounted for,
    and what a batch holds. \<open>counted_run\<close> counts the adopted updates beside it: no request outlives more of them than it may.
    \<open>cancel_inflight_rollouts\<close> is called between batches and is no step.
  \<^item> PolicyUpdate (\<open>orchestrator/scheduler.py\<close>): the tasks that adopt, stage and commit checkpoints as the step
    relation \<open>update_step\<close>. PolicyProofs: the requests are in an order the servers accept, the
    orchestrator is at most one step ahead, and the gate opens again.
  \<^item> AdminClient (\<open>utils/client.py\<close>): the requests that stage, commit and reload weights, over an HTTP server
    that is a parameter. ClientUpload answers them by the model of the staging server: an upload followed by a
    commit loads the file. ClientStream: a delta that is still being written is streamed to its end.
  \<^item> InferencePool (\<open>utils/client.py\<close>): the static inference pool with its leases, staged endpoints and replay entries.
    PoolProofs: weight operations, rollout failures and recovery under the lock as the step relation \<open>lock_step\<close>, and with
    the updates and reloads that take no lock beside them as \<open>pool_step\<close>; the record of versions that endpoints have loaded
    follows the success an endpoint reports. With leases enabled, rollouts are sent only to endpoints that hold the active
    version, or that such an update or reload was sent to; the replay plan is a whole chain or an error that names what is missing.

  \<^item> ChatTemplate (\<open>utils/chat_template.py\<close>): normalising and rendering messages, and the token mask that is built by
    rendering longer and longer prefixes.
  \<^item> SftData (\<open>trainer/sft/data.py\<close>): the samples of supervised fine-tuning, the epochs, the concatenating and the stacking
    loader and their checkpoints. SftProofs: shapes of samples and batches. SftEpochs: the ranks visit every example
    of an epoch, and a restored loader goes on where it was. SftStack: stacked batches have the configured area and hold
    the trained tokens of the samples with their targets and contexts.
  \<^item> DeltaChain: a streamed file applied to a worker, and a chain of files applied one after the other.
    \<open>eq_respected\<close> says that the torch arithmetic does not tell equal elements apart (as \<open>0.0\<close> and \<open>-0.0\<close>).
  \<^item> FileBroadcast (\<open>trainer/rl/broadcast/filesystem.py\<close>, \<open>inference/vllm/worker/filesystem.py\<close>): the directories of the
    broadcasts, the base of each run, errors while a run is deleted. BroadcastChain: over any history of broadcasts
    and loads, with old steps removed or retained, a worker that keeps up has the weights it loaded last.
  \<^item> Nccl (\<open>trainer/rl/broadcast/nccl.py\<close>, \<open>inference/vllm/worker/nccl.py\<close>): the collectives that carry the weights, as a list
    of messages: what is received is what was sent, layer by layer; pickle is a parameter with \<open>pickle_ok\<close>.

  Bounds and fuel. No definition runs on fuel: loops are structural or have a termination proof
  (\<open>select_samples\<close>: the buffered samples decrease). \<open>fill_inflight_requests\<close> is a partial function, since it
  returns only with a positive group size and a client; \<open>fill_returns\<close> proves that it then does. Waiting loops (\<open>pack\<close>, \<open>wait_for_ready\<close>) take the list of
  what each round finds, and \<open>None\<close> or \<open>False\<close> is still waiting. The \<open>int64\<close> arithmetic of the codec
  is written with its wrap-around; in WeightLayout indices are proved to stay below the size of a parameter.

  Not modelled. Torch modules, kernels and models (\<open>trainer/models\<close>, \<open>trainer/model.py\<close>, losses and optimisers):
  they are torch code whose meaning is floating-point tensor arithmetic. The HTTP layer, sockets, msgpack and
  safetensors encodings, logging, metrics, monitors, process launching and configuration classes: they are
  libraries the source calls, or glue around them. Clocks and timeouts are choices; digests and
  fresh names are inputs. Directory names of runs are taken to be their own stem.
\<close>

section \<open>Trainer to worker\<close>

text \<open>C1. A streamed delta takes a worker to the target: let the trainer stream the difference of two
  checkpoints, and let a vLLM model support the names of the checkpoint and hold, whole or sharded,
  every tensor of the base checkpoint. Then loading the file succeeds, changes only elements of
  parameters, and afterwards the model holds, at the same places, tensors equal to the target's.\<close>

theorem streamed_delta_reaches_worker:
  assumes "torch_ok T"
    and "extract_sparse_delta_streaming_from_stores T enc gs collect_stats base target = (Some st, Inr stats)"
    and "validated_model_keys T base target True = Inr keys"
    and "stores_ok base target keys" and "distinct (store_keys base)" and "length (s_file st) < 2 ^ 63"
    and "\<forall>n \<in> set keys. get_tensor base n = Inr (B n)"
    and "model_wf M" and "holds M (set keys) B" and "parts_apart M (set keys) (tshape \<circ> B)"
  shows "\<exists>ls X. load_sparse_delta_weights T None M (Inl (s_file st)) = (ls, Inr ())
     \<and> same_layout M (ld_model ls) \<and> holds (ld_model ls) (set keys) X
     \<and> (\<forall>n \<in> set keys. \<exists>t. get_tensor target n = Inr t \<and> tensor_equal T (X n) t = Inr True)"
proof -
  have "\<forall>n \<in> set keys. \<exists>b. get_tensor base n = Inr b \<and> carried T b (B n)"
    using assms(7) carried_refl by blast
  from streamed_delta_applied [OF assms(1-6) this assms(8-10)] show ?thesis by blast
qed

theorem streamed_delta_reaches_worker_witness:
  "\<exists>(st :: stream_state) ls X. load_sparse_delta_weights exact_ops None demo_model (Inl (s_file st)) = (ls, Inr ())
     \<and> holds (ld_model ls) {''w''} X
     \<and> (\<exists>t. get_tensor demo_target ''w'' = Inr t \<and> tensor_equal exact_ops (X ''w'') t = Inr True)"
proof (rule demo_run)
  fix st stats assume r:
    "extract_sparse_delta_streaming_from_stores exact_ops ''optimized'' 0 True demo_base demo_target = (Some st, Inr stats)"
    "length (s_file st) < 2 ^ 63"
  have b: "\<forall>n \<in> set [''w'']. get_tensor demo_base n = Inr (flat_tensor Int8 [1, 2, 3])"
    by (simp add: demo_tensors)
  have h: "holds demo_model (set [''w'']) (\<lambda>_. flat_tensor Int8 [1, 2, 3])"
    using demo_model_ok(2) by simp
  obtain ls X where "load_sparse_delta_weights exact_ops None demo_model (Inl (s_file st)) = (ls, Inr ())"
    "holds (ld_model ls) (set [''w'']) X"
    "\<forall>n \<in> set [''w'']. \<exists>t. get_tensor demo_target n = Inr t \<and> tensor_equal exact_ops (X n) t = Inr True"
    using streamed_delta_reaches_worker [OF torch_ok_exact_ops r(1) demo_keys(1) demo_stores demo_keys(2) r(2) b
        demo_model_ok(1) h demo_model_ok(3)] by blast
  then show ?thesis by (intro exI [of _ st] exI [of _ ls] exI [of _ X]) simp
qed

end
